(* ===== verification/Prelude.thy ===== *)
theory Prelude
  imports Complex_Main
begin

text \<open>
  Shared vocabulary of the development: the error values of the C++ code (exceptions), the
  combinator \<open>loop\<close> for \<open>while (true)\<close> loops, \<open>std::upper_bound\<close>, and configuration vectors
  (\<open>xvector<double>\<close>) with the few linear algebra operations the code calls from xtensor.
  The lemma collections \<open>vec_simps\<close> and \<open>res_simps\<close> carry the component proofs.
\<close>

named_theorems vec_simps \<open>algebra of configuration vectors of equal length\<close>
named_theorems res_simps \<open>case distinctions on results\<close>

section \<open>Results\<close>

text \<open>
  An exception is a value. \<open>Undefined_behaviour\<close> stands for an operation to which C++ gives no
  meaning (an out-of-range float-to-integer conversion, a read through an end iterator).
  \<open>Not_finite\<close> marks where the code goes on with coordinates that are infinite or \<open>NaN\<close>, which
  the vectors of the model cannot hold. \<open>Diverges\<close> is no exception of the source: it is the value of a loop that never returns.
\<close>

datatype exn =
    Invalid_argument string
  | Out_of_range string
  | Runtime_error string
  | Logic_error string
  | Undefined_behaviour string
  | Not_finite string
  | Diverges

type_synonym 'a res = "exn + 'a"

definition bind_res :: "'a res \<Rightarrow> ('a \<Rightarrow> 'b res) \<Rightarrow> 'b res" where
  "bind_res m f = (case m of Inl e \<Rightarrow> Inl e | Inr a \<Rightarrow> f a)"

lemma bind_res_simps [simp, res_simps]:
  "bind_res (Inl e) f = Inl e"
  "bind_res (Inr a) f = f a"
  by (simp_all add: bind_res_def)

lemma bind_res_eq_Inr [res_simps]:
  "bind_res m f = Inr b \<longleftrightarrow> (\<exists>a. m = Inr a \<and> f a = Inr b)"
  by (cases m) simp_all

lemma bind_res_eq_Inl:
  "bind_res m f = Inl e \<longleftrightarrow> m = Inl e \<or> (\<exists>a. m = Inr a \<and> f a = Inl e)"
  by (cases m) auto

lemma bind_res_cong [fundef_cong]:
  "m = m' \<Longrightarrow> (\<And>a. m' = Inr a \<Longrightarrow> f a = f' a) \<Longrightarrow> bind_res m f = bind_res m' f'"
  by (cases m') simp_all

text \<open>A list of results up to the first that fails.\<close>

fun map_res :: "('a \<Rightarrow> 'b res) \<Rightarrow> 'a list \<Rightarrow> 'b list res" where
  "map_res f [] = Inr []"
| "map_res f (x # xs) = bind_res (f x) (\<lambda>y. bind_res (map_res f xs) (\<lambda>ys. Inr (y # ys)))"

lemma map_res_append: "map_res f (xs @ ys) = bind_res (map_res f xs) (\<lambda>as. bind_res (map_res f ys) (\<lambda>bs. Inr (as @ bs)))"
proof (induction xs)
  case Nil
  show ?case by (cases "map_res f ys") simp_all
next
  case (Cons x xs)
  show ?case by (cases "f x"; cases "map_res f xs"; cases "map_res f ys") (simp_all add: Cons.IH)
qed

text \<open>An exception that \<open>catch\<close> sees, with its message.\<close>

fun what :: "exn \<Rightarrow> string option" where
  "what (Invalid_argument m) = Some m"
| "what (Out_of_range m) = Some m"
| "what (Runtime_error m) = Some m"
| "what (Logic_error m) = Some m"
| "what _ = None"

text \<open>A name between single quotes in a message.\<close>

definition quoted :: "string \<Rightarrow> string" where
  "quoted s = CHR 0x27 # s @ [CHR 0x27]"

section \<open>Unbounded loops\<close>

text \<open>
  The body of a \<open>while (true)\<close> loop is a total function \<open>body\<close> on the loop's variables: \<open>Inl s\<close>
  goes round again with the variables \<open>s\<close>, \<open>Inr r\<close> leaves the loop with \<open>r\<close>.
\<close>

partial_function (option) iterate :: "('s \<Rightarrow> 's + 'r) \<Rightarrow> 's \<Rightarrow> 'r option" where
  "iterate body s = (case body s of Inl s' \<Rightarrow> iterate body s' | Inr r \<Rightarrow> Some r)"

definition loop :: "('s \<Rightarrow> 's + 'r res) \<Rightarrow> 's \<Rightarrow> 'r res" where
  "loop body s = (case iterate body s of None \<Rightarrow> Inl Diverges | Some r \<Rightarrow> r)"

lemma loop_unfold:
  "loop body s = (case body s of Inl s' \<Rightarrow> loop body s' | Inr r \<Rightarrow> r)"
  by (simp add: loop_def iterate.simps [of body s] split: sum.splits)

lemma loop_continue: "body s = Inl s' \<Longrightarrow> loop body s = loop body s'"
  by (simp add: loop_unfold [of body s])

lemma loop_exit: "body s = Inr r \<Longrightarrow> loop body s = r"
  by (simp add: loop_unfold [of body s])

text \<open>Partial correctness: an invariant of the body holds when the loop is left.\<close>

lemma iterate_invariant:
  fixes body :: "'s \<Rightarrow> 's + 'r"
  assumes ret: "iterate body s = Some r"
    and init: "P s"
    and step: "\<And>s s'. P s \<Longrightarrow> body s = Inl s' \<Longrightarrow> P s'"
    and exit: "\<And>s r. P s \<Longrightarrow> body s = Inr r \<Longrightarrow> Q r"
  shows "Q r"
proof -
  have "(\<forall>s s'. P s \<longrightarrow> body s = Inl s' \<longrightarrow> P s') \<longrightarrow>
      (\<forall>s r. P s \<longrightarrow> body s = Inr r \<longrightarrow> Q r) \<longrightarrow> P s \<longrightarrow> Q r"
    (is "?G body s r")
  proof (rule iterate.raw_induct [where P = ?G, OF _ ret])
    fix it and body' :: "'s \<Rightarrow> 's + 'r" and s r
    assume IH: "\<And>body s r. it body s = Some r \<Longrightarrow> ?G body s r"
      and eq: "(case body' s of Inl s' \<Rightarrow> it body' s' | Inr r \<Rightarrow> Some r) = Some r"
    show "?G body' s r"
      using eq IH by (cases "body' s") auto
  qed
  with init step exit show ?thesis by blast
qed

lemma loop_invariant:
  assumes ret: "loop body s = Inr r"
    and init: "P s"
    and step: "\<And>s s'. P s \<Longrightarrow> body s = Inl s' \<Longrightarrow> P s'"
    and exit: "\<And>s r. P s \<Longrightarrow> body s = Inr (Inr r) \<Longrightarrow> Q r"
  shows "Q r"
proof -
  from ret have it: "iterate body s = Some (Inr r)"
    by (auto simp: loop_def split: option.splits)
  show ?thesis
    using iterate_invariant [of body s "Inr r" P "\<lambda>x. \<forall>r'. x = Inr r' \<longrightarrow> Q r'", OF it init]
    by (auto intro: step exit)
qed

text \<open>Total correctness: a natural number that the body decreases under an invariant.\<close>

lemma iterate_terminates:
  assumes init: "P s"
    and step: "\<And>s s'. P s \<Longrightarrow> body s = Inl s' \<Longrightarrow> P s' \<and> m s' < (m s :: nat)"
  shows "\<exists>r. iterate body s = Some r"
  using init
proof (induction "m s" arbitrary: s rule: less_induct)
  case less
  show ?case
  proof (cases "body s")
    case (Inl s')
    with step less.prems have "P s'" "m s' < m s" by auto
    with less.hyps have "\<exists>r. iterate body s' = Some r" by blast
    with Inl show ?thesis by (simp add: iterate.simps [of body s])
  next
    case (Inr r)
    then show ?thesis by (simp add: iterate.simps [of body s])
  qed
qed

lemma loop_returns:
  assumes init: "P s"
    and step: "\<And>s s'. P s \<Longrightarrow> body s = Inl s' \<Longrightarrow> P s' \<and> m s' < (m s :: nat)"
    and exit: "\<And>s r. P s \<Longrightarrow> body s = Inr r \<Longrightarrow> r \<noteq> Inl Diverges"
  shows "loop body s \<noteq> Inl Diverges"
proof -
  obtain r where r: "iterate body s = Some r"
    using iterate_terminates [of P s body m] init step by blast
  have "r \<noteq> Inl Diverges"
    by (rule iterate_invariant [where P = P and Q = "\<lambda>r. r \<noteq> Inl Diverges", OF r init])
      (auto dest: step exit)
  with r show ?thesis by (simp add: loop_def)
qed

text \<open>A body that leads from a state to itself never returns; bodies that agree on an invariant run alike.\<close>

lemma loop_stuck: "body s = Inl s \<Longrightarrow> loop body s = Inl Diverges"
  using iterate_invariant [of body s _ "\<lambda>x. x = s" "\<lambda>_. False"]
  by (cases "iterate body s") (auto simp: loop_def)

lemma iterate_cong:
  fixes body :: "'s \<Rightarrow> 's + 'r"
  assumes "iterate body s = Some r" "P s" "\<And>s. P s \<Longrightarrow> body' s = body s" "\<And>s s'. P s \<Longrightarrow> body s = Inl s' \<Longrightarrow> P s'"
  shows "iterate body' s = Some r"
proof -
  have "(\<forall>s. P s \<longrightarrow> body' s = body s) \<longrightarrow> (\<forall>s s'. P s \<longrightarrow> body s = Inl s' \<longrightarrow> P s') \<longrightarrow> P s \<longrightarrow> iterate body' s = Some r"
    (is "?G body s r")
  proof (rule iterate.raw_induct [where P = ?G, OF _ assms(1)])
    fix it and body :: "'s \<Rightarrow> 's + 'r" and s r
    assume IH: "\<And>body s r. it body s = Some r \<Longrightarrow> ?G body s r"
      and eq: "(case body s of Inl s' \<Rightarrow> it body s' | Inr r \<Rightarrow> Some r) = Some r"
    show "?G body s r"
      using eq IH by (cases "body s") (auto simp: iterate.simps [of body' s])
  qed
  with assms(2-4) show ?thesis by blast
qed

lemma loop_cong:
  assumes "P s" "\<And>s. P s \<Longrightarrow> body' s = body s" "\<And>s s'. P s \<Longrightarrow> body s = Inl s' \<Longrightarrow> P s'"
  shows "loop body' s = loop body s"
proof -
  have "iterate body' s = Some r \<longleftrightarrow> iterate body s = Some r" for r
    using iterate_cong [of body s r P body'] iterate_cong [of body' s r P body] assms by metis
  then have "iterate body' s = iterate body s" by (metis option.exhaust)
  then show ?thesis by (simp add: loop_def)
qed

text \<open>
  Loops whose body can throw: the body says whether to go round again, to return, or raises.
\<close>

datatype ('s, 'r) flow = Continue 's | Return 'r

definition flow_body :: "('s \<Rightarrow> ('s, 'r) flow res) \<Rightarrow> 's \<Rightarrow> 's + 'r res" where
  "flow_body body s =
     (case body s of Inl e \<Rightarrow> Inr (Inl e) | Inr (Continue s') \<Rightarrow> Inl s' | Inr (Return r) \<Rightarrow> Inr (Inr r))"

definition loop_flow :: "('s \<Rightarrow> ('s, 'r) flow res) \<Rightarrow> 's \<Rightarrow> 'r res" where
  "loop_flow body s = loop (flow_body body) s"

lemma flow_body_simps:
  "flow_body body s = Inl s' \<longleftrightarrow> body s = Inr (Continue s')"
  "flow_body body s = Inr (Inr r) \<longleftrightarrow> body s = Inr (Return r)"
  "flow_body body s = Inr (Inl e) \<longleftrightarrow> body s = Inl e"
  by (auto simp: flow_body_def split: sum.splits flow.splits)

lemma loop_flow_unfold:
  "loop_flow body s = (case body s of
      Inl e \<Rightarrow> Inl e | Inr (Continue s') \<Rightarrow> loop_flow body s' | Inr (Return r) \<Rightarrow> Inr r)"
  by (simp add: loop_flow_def loop_unfold [of _ s] flow_body_def split: sum.splits flow.splits)

lemma loop_flow_invariant:
  assumes "loop_flow body s = Inr r" "P s"
    and "\<And>s s'. P s \<Longrightarrow> body s = Inr (Continue s') \<Longrightarrow> P s'"
    and "\<And>s r. P s \<Longrightarrow> body s = Inr (Return r) \<Longrightarrow> Q r"
  shows "Q r"
  using loop_invariant [of "flow_body body" s r P Q] assms by (auto simp: loop_flow_def flow_body_simps)

lemma loop_flow_returns:
  assumes "P s"
    and "\<And>s s'. P s \<Longrightarrow> body s = Inr (Continue s') \<Longrightarrow> P s' \<and> m s' < (m s :: nat)"
    and "\<And>s. P s \<Longrightarrow> body s \<noteq> Inl Diverges"
  shows "loop_flow body s \<noteq> Inl Diverges"
  unfolding loop_flow_def
proof (rule loop_returns [of P s _ m])
  fix s r assume "P s" "flow_body body s = Inr r"
  with assms(3) show "r \<noteq> Inl Diverges" by (cases r) (auto simp: flow_body_simps)
qed (use assms in \<open>auto simp: flow_body_simps\<close>)

lemma loop_flow_stuck: "body s = Inr (Continue s) \<Longrightarrow> loop_flow body s = Inl Diverges"
  by (simp add: loop_flow_def loop_stuck flow_body_def)

lemma loop_flow_cong:
  assumes "P s" "\<And>s. P s \<Longrightarrow> body' s = body s" "\<And>s s'. P s \<Longrightarrow> body s = Inr (Continue s') \<Longrightarrow> P s'"
  shows "loop_flow body' s = loop_flow body s"
  unfolding loop_flow_def
proof (rule loop_cong [of P])
  show "flow_body body' s = flow_body body s" if "P s" for s using assms(2) [OF that] by (simp add: flow_body_def)
  show "P s'" if "P s" "flow_body body s = Inl s'" for s s' using assms(3) [OF that(1)] that(2) by (simp add: flow_body_simps)
qed (rule assms(1))

section \<open>Computations that return\<close>

text \<open>A computation that returns or throws, but does not run forever.\<close>

definition halts :: "'a res \<Rightarrow> bool" where
  "halts m \<longleftrightarrow> m \<noteq> Inl Diverges"

named_theorems halts_intros \<open>computations known to return or throw\<close>

lemma halts_Inr [simp, halts_intros]: "halts (Inr a)"
  by (simp add: halts_def)

lemma halts_Inl [simp]: "halts (Inl e) \<longleftrightarrow> e \<noteq> Diverges"
  by (simp add: halts_def)

lemma halts_bind [halts_intros]:
  "halts m \<Longrightarrow> (\<And>a. m = Inr a \<Longrightarrow> halts (f a)) \<Longrightarrow> halts (bind_res m f)"
  by (cases m) (simp_all add: halts_def)

lemma halts_loop_flow:
  assumes "P s"
    and "\<And>s s'. P s \<Longrightarrow> body s = Inr (Continue s') \<Longrightarrow> P s' \<and> m s' < (m s :: nat)"
    and "\<And>s. P s \<Longrightarrow> halts (body s)"
  shows "halts (loop_flow body s)"
  unfolding halts_def
  by (rule loop_flow_returns [of P s _ m]) (use assms in \<open>auto simp: halts_def\<close>)

section \<open>Searching a sorted range\<close>

text \<open>
  \<open>std::upper_bound\<close> (and \<open>partition_point\<close>): the index of the first element that satisfies
  \<open>p\<close>, or the length of the range. The standard fixes its result on ranges where \<open>p\<close>, once true,
  stays true, which is how the code calls it.
\<close>

definition upper_bound :: "('a \<Rightarrow> bool) \<Rightarrow> 'a list \<Rightarrow> nat" where
  "upper_bound p xs = length (takeWhile (\<lambda>x. \<not> p x) xs)"

lemma upper_bound_le: "upper_bound p xs \<le> length xs"
  by (simp add: upper_bound_def length_takeWhile_le)

lemma upper_bound_before: "i < upper_bound p xs \<Longrightarrow> \<not> p (xs ! i)"
proof -
  assume i: "i < upper_bound p xs"
  then have "takeWhile (\<lambda>x. \<not> p x) xs ! i \<in> set (takeWhile (\<lambda>x. \<not> p x) xs)"
    by (simp add: upper_bound_def)
  then have "\<not> p (takeWhile (\<lambda>x. \<not> p x) xs ! i)"
    by (rule set_takeWhileD [THEN conjunct2])
  with i show ?thesis by (simp add: upper_bound_def takeWhile_nth)
qed

lemma upper_bound_at: "upper_bound p xs < length xs \<Longrightarrow> p (xs ! upper_bound p xs)"
  unfolding upper_bound_def using nth_length_takeWhile by blast

lemma upper_bound_eqI:
  assumes "i \<le> length xs" "\<And>j. j < i \<Longrightarrow> \<not> p (xs ! j)" "i < length xs \<Longrightarrow> p (xs ! i)"
  shows "upper_bound p xs = i"
proof (rule linorder_cases [of "upper_bound p xs" i])
  assume "upper_bound p xs < i"
  with assms(1,2) upper_bound_at [of p xs] show ?thesis by fastforce
next
  assume "i < upper_bound p xs"
  with assms(3) upper_bound_before [of i p xs] upper_bound_le [of p xs] show ?thesis by fastforce
qed simp

section \<open>Configuration vectors\<close>

text \<open>
  A configuration of the arm, one coordinate per degree of freedom. Coordinates are real numbers:
  the inputs are taken to be finite doubles, and arithmetic on them is exact (see theory \<open>Dbl\<close>
  for the scalars that can be infinite or not a number).
\<close>

type_synonym xvector = "real list"

definition vadd :: "xvector \<Rightarrow> xvector \<Rightarrow> xvector" where
  "vadd x y = map2 (+) x y"

definition vsub :: "xvector \<Rightarrow> xvector \<Rightarrow> xvector" where
  "vsub x y = map2 (-) x y"

definition vscale :: "real \<Rightarrow> xvector \<Rightarrow> xvector" where
  "vscale a x = map ((*) a) x"

text \<open>Division of every coordinate by a (non-zero) scalar.\<close>

definition vdiv :: "xvector \<Rightarrow> real \<Rightarrow> xvector" where
  "vdiv x a = map (\<lambda>c. c / a) x"

text \<open>\<open>xt::sum(x * y)()\<close>\<close>

definition dot :: "xvector \<Rightarrow> xvector \<Rightarrow> real" where
  "dot x y = sum_list (map2 (*) x y)"

text \<open>\<open>xt::norm_l2(x)()\<close> and \<open>xt::norm_linf(x)()\<close>\<close>

definition norm_l2 :: "xvector \<Rightarrow> real" where
  "norm_l2 x = sqrt (dot x x)"

definition norm_linf :: "xvector \<Rightarrow> real" where
  "norm_linf x = fold max (map abs x) 0"

lemma length_vec [simp]:
  "length (vadd x y) = min (length x) (length y)"
  "length (vsub x y) = min (length x) (length y)"
  "length (vscale a x) = length x"
  by (simp_all add: vadd_def vsub_def vscale_def)

lemma nth_vec [simp]:
  "i < length x \<Longrightarrow> i < length y \<Longrightarrow> vadd x y ! i = x ! i + y ! i"
  "i < length x \<Longrightarrow> i < length y \<Longrightarrow> vsub x y ! i = x ! i - y ! i"
  "i < length x \<Longrightarrow> vscale a x ! i = a * x ! i"
  by (simp_all add: vadd_def vsub_def vscale_def)

lemma vdiv_vscale: "vdiv x a = vscale (1 / a) x"
  by (simp add: vdiv_def vscale_def)

lemma length_vdiv [simp]: "length (vdiv x a) = length x"
  by (simp add: vdiv_def)

lemma nth_vdiv [simp]: "i < length x \<Longrightarrow> vdiv x a ! i = x ! i / a"
  by (simp add: vdiv_def)

lemma dot_Nil [simp]: "dot [] y = 0" "dot x [] = 0"
  by (simp_all add: dot_def)

lemma dot_Cons [simp]: "dot (a # x) (b # y) = a * b + dot x y"
  by (simp add: dot_def)

lemma dot_sum: "dot x y = (\<Sum>i < min (length x) (length y). x ! i * y ! i)"
  by (simp add: dot_def sum_list_sum_nth atLeast0LessThan)

lemma dot_commute: "dot x y = dot y x"
  by (simp add: dot_sum min.commute mult.commute)

lemma dot_vscale [vec_simps]:
  "dot (vscale a x) y = a * dot x y"
  "dot y (vscale a x) = a * dot y x"
  by (simp_all add: dot_sum sum_distrib_left mult_ac)

lemma dot_vdiv [vec_simps]: "dot (vdiv x a) y = dot x y / a" "dot y (vdiv x a) = dot y x / a"
  by (simp_all add: vdiv_vscale dot_vscale)

lemma dot_vadd [vec_simps]:
  assumes "length x = length y"
  shows "dot (vadd x y) z = dot x z + dot y z" "dot z (vadd x y) = dot z x + dot z y"
  using assms by (simp_all add: dot_sum sum.distrib algebra_simps)

lemma dot_vsub [vec_simps]:
  assumes "length x = length y"
  shows "dot (vsub x y) z = dot x z - dot y z" "dot z (vsub x y) = dot z x - dot z y"
  using assms by (simp_all add: dot_sum sum_subtractf algebra_simps)

lemma dot_self_nonneg [simp]: "0 \<le> dot x x"
  by (simp add: dot_sum sum_nonneg)

lemma dot_self_eq_0: "dot x x = 0 \<longleftrightarrow> (\<forall>i < length x. x ! i = 0)"
  by (auto simp: dot_sum sum_nonneg_eq_0_iff)

lemma norm_l2_nonneg [simp]: "0 \<le> norm_l2 x"
  by (simp add: norm_l2_def)

lemma norm_l2_sq: "(norm_l2 x)\<^sup>2 = dot x x"
  by (simp add: norm_l2_def)

lemma norm_l2_vscale: "norm_l2 (vscale a x) = \<bar>a\<bar> * norm_l2 x"
  by (simp add: norm_l2_def vec_simps real_sqrt_mult mult.assoc [symmetric])

lemma norm_l2_pos: "norm_l2 x \<noteq> 0 \<longleftrightarrow> 0 < norm_l2 x"
  using norm_l2_nonneg [of x] by linarith

lemma norm_l2_vsub_eq_0:
  assumes "length x = length y"
  shows "norm_l2 (vsub x y) = 0 \<longleftrightarrow> x = y"
  using assms by (auto simp: norm_l2_def dot_self_eq_0 list_eq_iff_nth_eq)

lemma norm_linf_fold: "a \<le> fold max xs (a::real)" "x \<in> set xs \<Longrightarrow> x \<le> fold max xs a"
proof (induction xs arbitrary: a)
  case (Cons y ys)
  { case 1
    from Cons.IH(1) [of "max y a"] show ?case by simp
  next
    case 2
    with Cons.IH(1) [of "max y a"] Cons.IH(2) [of "max y a"] show ?case
      by (auto intro: order_trans) }
qed simp_all

lemma fold_max_less: "fold max xs (a::real) \<le> c \<longleftrightarrow> a \<le> c \<and> (\<forall>x \<in> set xs. x \<le> c)"
  by (induction xs arbitrary: a) auto

lemma norm_linf_le: "0 \<le> c \<Longrightarrow> norm_linf x \<le> c \<longleftrightarrow> (\<forall>i < length x. \<bar>x ! i\<bar> \<le> c)"
  by (auto simp: norm_linf_def fold_max_less all_set_conv_all_nth)

lemma norm_linf_nonneg [simp]: "0 \<le> norm_linf x"
  by (simp add: norm_linf_def norm_linf_fold(1))

lemma norm_linf_vsub_self [simp]: "norm_linf (vsub x x) = 0"
  using norm_linf_le [of 0 "vsub x x"] norm_linf_nonneg [of "vsub x x"] by simp

end
