(* ===== verification/Dbl.thy ===== *)
theory Dbl
  imports Prelude
begin

text \<open>
  The scalar type of the program, C++ \<open>double\<close>: the finite values (as real numbers, arithmetic on
  them is exact), the two infinities and the not-a-number, with the operations and the comparisons
  of IEEE 754 on them. In particular every comparison with \<open>NaN\<close> is false, \<open>\<infinity> - \<infinity>\<close> and
  \<open>0 * \<infinity>\<close> are \<open>NaN\<close>, and a division by zero gives an infinity or \<open>NaN\<close>. There is one zero:
  where the sign of a zero divisor matters it is read as \<open>+0\<close>. The spacing of the doubles is
  modelled where the code asks for it, in \<open>std::nextafter\<close>.
\<close>

section \<open>Values and arithmetic\<close>

datatype dbl = Fin real | PInf | NInf | NaN

text \<open>The infinity of the sign of \<open>a\<close>; the operation is invalid for a zero.\<close>

definition inf_sgn :: "real \<Rightarrow> dbl" where
  "inf_sgn a = (if 0 < a then PInf else if a < 0 then NInf else NaN)"

instantiation dbl :: "{zero, one, plus, minus, uminus, times, inverse, abs, ord}"
begin

definition zero_dbl :: dbl where "0 = Fin 0"

definition one_dbl :: dbl where "1 = Fin 1"

fun plus_dbl :: "dbl \<Rightarrow> dbl \<Rightarrow> dbl" where
  "Fin a + Fin b = Fin (a + b)"
| "NaN + y = NaN"
| "x + NaN = NaN"
| "PInf + NInf = NaN"
| "NInf + PInf = NaN"
| "PInf + y = PInf"
| "x + PInf = PInf"
| "NInf + y = NInf"
| "x + NInf = NInf"

fun uminus_dbl :: "dbl \<Rightarrow> dbl" where
  "- Fin a = Fin (- a)"
| "- PInf = NInf"
| "- NInf = PInf"
| "- NaN = NaN"

definition minus_dbl :: "dbl \<Rightarrow> dbl \<Rightarrow> dbl" where
  "x - y = x + (- y :: dbl)"

fun times_dbl :: "dbl \<Rightarrow> dbl \<Rightarrow> dbl" where
  "Fin a * Fin b = Fin (a * b)"
| "NaN * y = NaN"
| "x * NaN = NaN"
| "Fin a * PInf = inf_sgn a"
| "PInf * Fin a = inf_sgn a"
| "Fin a * NInf = inf_sgn (- a)"
| "NInf * Fin a = inf_sgn (- a)"
| "PInf * PInf = PInf"
| "NInf * NInf = PInf"
| "PInf * NInf = NInf"
| "NInf * PInf = NInf"

fun divide_dbl :: "dbl \<Rightarrow> dbl \<Rightarrow> dbl" where
  "divide (Fin a) (Fin b) = (if b = 0 then inf_sgn a else Fin (a / b))"
| "divide NaN y = NaN"
| "divide x NaN = NaN"
| "divide (Fin a) PInf = Fin 0"
| "divide (Fin a) NInf = Fin 0"
| "divide PInf (Fin b) = (if 0 \<le> b then PInf else NInf)"
| "divide NInf (Fin b) = (if 0 \<le> b then NInf else PInf)"
| "divide PInf PInf = NaN"
| "divide PInf NInf = NaN"
| "divide NInf PInf = NaN"
| "divide NInf NInf = NaN"

definition inverse_dbl :: "dbl \<Rightarrow> dbl" where
  "inverse_dbl x = divide 1 x"

fun abs_dbl :: "dbl \<Rightarrow> dbl" where
  "\<bar>Fin a\<bar> = Fin \<bar>a\<bar>"
| "\<bar>PInf\<bar> = PInf"
| "\<bar>NInf\<bar> = PInf"
| "\<bar>NaN\<bar> = NaN"

fun less_dbl :: "dbl \<Rightarrow> dbl \<Rightarrow> bool" where
  "Fin a < Fin b \<longleftrightarrow> a < b"
| "NaN < y \<longleftrightarrow> False"
| "x < NaN \<longleftrightarrow> False"
| "NInf < NInf \<longleftrightarrow> False"
| "NInf < y \<longleftrightarrow> True"
| "PInf < y \<longleftrightarrow> False"
| "x < PInf \<longleftrightarrow> True"
| "x < NInf \<longleftrightarrow> False"

fun less_eq_dbl :: "dbl \<Rightarrow> dbl \<Rightarrow> bool" where
  "Fin a \<le> Fin b \<longleftrightarrow> a \<le> b"
| "NaN \<le> y \<longleftrightarrow> False"
| "x \<le> NaN \<longleftrightarrow> False"
| "NInf \<le> y \<longleftrightarrow> True"
| "PInf \<le> PInf \<longleftrightarrow> True"
| "PInf \<le> y \<longleftrightarrow> False"
| "x \<le> PInf \<longleftrightarrow> True"
| "x \<le> NInf \<longleftrightarrow> False"

instance ..

end

instance dbl :: numeral
proof
  fix a b c :: dbl
  show "a + b + c = a + (b + c)" by (cases a; cases b; cases c) simp_all
qed

lemma Fin_minus [simp]: "Fin a - Fin b = Fin (a - b)"
  by (simp add: minus_dbl_def)

lemma minus_inf [simp]:
  "PInf - Fin a = PInf" "NInf - Fin a = NInf" "Fin a - PInf = NInf" "Fin a - NInf = PInf"
  "PInf - PInf = NaN" "NInf - NInf = NaN" "PInf - NInf = PInf" "NInf - PInf = NInf"
  "NaN - x = NaN" "x - NaN = NaN"
  by (cases x; simp add: minus_dbl_def)+

lemma zero_Fin [simp]: "(0::dbl) = Fin 0"
  by (simp add: zero_dbl_def)

lemma one_Fin [simp]: "(1::dbl) = Fin 1"
  by (simp add: one_dbl_def)

lemma numeral_Fin [simp]: "(numeral n :: dbl) = Fin (numeral n)"
proof (induction n)
  case One
  show ?case by (simp only: numeral.simps one_Fin)
next
  case (Bit0 n)
  then show ?case by (simp only: numeral.simps plus_dbl.simps)
next
  case (Bit1 n)
  then show ?case by (simp only: numeral.simps plus_dbl.simps one_Fin)
qed

lemma dbl_add_commute: "(x::dbl) + y = y + x"
  by (cases x; cases y) simp_all

section \<open>Comparisons\<close>

text \<open>\<open>std::isfinite\<close>, and \<open>==\<close> on doubles, which differs from equality on \<open>NaN\<close> only.\<close>

fun isfinite :: "dbl \<Rightarrow> bool" where
  "isfinite (Fin a) = True"
| "isfinite _ = False"

text \<open>The real number of a finite double, for values the code has checked to be finite.\<close>

fun fin :: "dbl \<Rightarrow> real" where
  "fin (Fin a) = a"
| "fin _ = 0"

definition feq :: "dbl \<Rightarrow> dbl \<Rightarrow> bool" where
  "feq x y \<longleftrightarrow> x = y \<and> x \<noteq> NaN"

lemma feq_simps [simp]:
  "feq (Fin a) (Fin b) \<longleftrightarrow> a = b" "\<not> feq NaN y" "\<not> feq x NaN"
  "feq (Fin a) PInf \<longleftrightarrow> False" "feq (Fin a) NInf \<longleftrightarrow> False"
  "feq PInf y \<longleftrightarrow> y = PInf" "feq NInf y \<longleftrightarrow> y = NInf"
  by (auto simp: feq_def)

lemma isfinite_iff: "isfinite x \<longleftrightarrow> (\<exists>a. x = Fin a)"
  by (cases x) simp_all

lemma less_NaN [simp]: "\<not> x < NaN" "\<not> x \<le> NaN"
  by (cases x; simp)+

lemma dbl_le_refl: "x \<noteq> NaN \<Longrightarrow> x \<le> (x::dbl)"
  by (cases x) simp_all

lemma dbl_not_less: "x \<noteq> NaN \<Longrightarrow> y \<noteq> NaN \<Longrightarrow> \<not> x < y \<longleftrightarrow> y \<le> (x::dbl)"
  by (cases x; cases y) auto

lemma dbl_not_le: "x \<noteq> NaN \<Longrightarrow> y \<noteq> NaN \<Longrightarrow> \<not> x \<le> y \<longleftrightarrow> y < (x::dbl)"
  by (cases x; cases y) auto

lemma dbl_less_imp_le: "x < y \<Longrightarrow> x \<le> (y::dbl)"
  by (cases x; cases y) auto

lemma dbl_le_trans: "x \<le> y \<Longrightarrow> y \<le> z \<Longrightarrow> x \<le> (z::dbl)"
  by (cases x; cases y; cases z) auto

lemma dbl_less_le_trans: "x < y \<Longrightarrow> y \<le> z \<Longrightarrow> x < (z::dbl)"
  by (cases x; cases y; cases z) auto

lemma dbl_le_less_trans: "x \<le> y \<Longrightarrow> y < z \<Longrightarrow> x < (z::dbl)"
  by (cases x; cases y; cases z) auto

lemma dbl_less_trans: "x < y \<Longrightarrow> y < z \<Longrightarrow> x < (z::dbl)"
  by (cases x; cases y; cases z) auto

lemma Fin_le_trans: "a \<le> b \<Longrightarrow> Fin b \<le> y \<Longrightarrow> Fin a \<le> y"
  by (cases y) auto

lemma Fin_le_less_trans: "a \<le> b \<Longrightarrow> Fin b < y \<Longrightarrow> Fin a < y"
  by (cases y) auto

lemma dbl_less_irrefl [simp]: "\<not> x < (x::dbl)"
  by (cases x) auto

text \<open>
  \<open>std::min\<close>, \<open>std::max\<close> and \<open>std::clamp\<close> as the standard defines them, by \<open>operator<\<close> and
  returning the first argument on a tie; so a \<open>NaN\<close> in the first argument is returned.
\<close>

definition std_min :: "dbl \<Rightarrow> dbl \<Rightarrow> dbl" where
  "std_min a b = (if b < a then b else a)"

definition std_max :: "dbl \<Rightarrow> dbl \<Rightarrow> dbl" where
  "std_max a b = (if a < b then b else a)"

definition std_clamp :: "dbl \<Rightarrow> dbl \<Rightarrow> dbl \<Rightarrow> dbl" where
  "std_clamp v lo hi = (if v < lo then lo else if hi < v then hi else v)"

lemma std_min_Fin [simp]: "std_min (Fin a) (Fin b) = Fin (min a b)"
  by (auto simp: std_min_def)

lemma std_max_Fin [simp]: "std_max (Fin a) (Fin b) = Fin (max a b)"
  by (auto simp: std_max_def)

lemma std_min_PInf [simp]: "std_min PInf (Fin b) = Fin b" "std_min (Fin b) PInf = Fin b"
  "std_min PInf PInf = PInf"
  by (simp_all add: std_min_def)

lemma std_max_NInf [simp]: "std_max NInf (Fin b) = Fin b" "std_max (Fin b) NInf = Fin b"
  by (simp_all add: std_max_def)

lemma std_min_NaN [simp]: "std_min NaN b = NaN"
  by (simp add: std_min_def)

lemma std_min_le: "a \<noteq> NaN \<Longrightarrow> b \<noteq> NaN \<Longrightarrow> std_min a b \<le> a \<and> std_min a b \<le> b"
  by (cases a; cases b) (auto simp: std_min_def)

lemma le_std_min_iff: "a \<noteq> NaN \<Longrightarrow> b \<noteq> NaN \<Longrightarrow> x \<le> std_min a b \<longleftrightarrow> x \<le> a \<and> x \<le> b"
  by (cases a; cases b; cases x) (auto simp: std_min_def)

lemma std_min_not_NaN: "a \<noteq> NaN \<Longrightarrow> b \<noteq> NaN \<Longrightarrow> std_min a b \<noteq> NaN"
  by (simp add: std_min_def)

section \<open>Functions of the standard library\<close>

fun fsqrt :: "dbl \<Rightarrow> dbl" where
  "fsqrt (Fin a) = (if 0 \<le> a then Fin (sqrt a) else NaN)"
| "fsqrt PInf = PInf"
| "fsqrt _ = NaN"

fun fceil :: "dbl \<Rightarrow> dbl" where
  "fceil (Fin a) = Fin (of_int \<lceil>a\<rceil>)"
| "fceil x = x"

text \<open>\<open>std::midpoint\<close>, and \<open>std::lerp\<close>, which is exact at \<open>t = 1\<close>.\<close>

definition midpoint :: "dbl \<Rightarrow> dbl \<Rightarrow> dbl" where
  "midpoint a b = (a + b) / 2"

definition lerp :: "dbl \<Rightarrow> dbl \<Rightarrow> dbl \<Rightarrow> dbl" where
  "lerp a b t = (if feq t 1 then b else a + t * (b - a))"

lemma midpoint_Fin [simp]: "midpoint (Fin a) (Fin b) = Fin ((a + b) / 2)"
  by (simp add: midpoint_def)

lemma lerp_Fin [simp]: "lerp (Fin a) (Fin b) (Fin t) = Fin (a + t * (b - a))"
  by (simp add: lerp_def)

text \<open>\<open>std::numeric_limits<double>::epsilon()\<close>\<close>

definition machine_epsilon :: real where
  "machine_epsilon = 1 / 2 ^ 52"

section \<open>The grid of doubles\<close>

text \<open>
  \<open>std::nextafter\<close>. The doubles at and above a magnitude \<open>\<bar>x\<bar>\<close>, up to the next power of two, are the
  multiples of \<open>ulp x\<close>; just below a power of two they lie twice as densely.
\<close>

definition dbl_max :: real where
  "dbl_max = (2 - 1 / 2 ^ 52) * 2 ^ 1023"

definition dbl_min :: real where
  "dbl_min = 1 / 2 ^ 1022"

definition dbl_denorm_min :: real where
  "dbl_denorm_min = 1 / 2 ^ 1074"

definition ulp :: "real \<Rightarrow> real" where
  "ulp x = (if \<bar>x\<bar> < dbl_min then dbl_denorm_min else 2 powr (of_int \<lfloor>log 2 \<bar>x\<bar>\<rfloor> - 52))"

definition above_pos :: "real \<Rightarrow> real" where
  "above_pos x = (of_int \<lfloor>x / ulp x\<rfloor> + 1) * ulp x"

definition below_pos :: "real \<Rightarrow> real" where
  "below_pos x =
     (if dbl_min < x \<and> x = 2 powr of_int \<lfloor>log 2 x\<rfloor> then x - ulp x / 2
      else (of_int \<lceil>x / ulp x\<rceil> - 1) * ulp x)"

definition next_up :: "real \<Rightarrow> real" where
  "next_up x = (if 0 \<le> x then above_pos x else - below_pos (- x))"

definition next_down :: "real \<Rightarrow> real" where
  "next_down x = - next_up (- x)"

definition to_dbl :: "real \<Rightarrow> dbl" where
  "to_dbl r = (if dbl_max < r then PInf else if r < - dbl_max then NInf else Fin r)"

fun nextafter :: "dbl \<Rightarrow> dbl \<Rightarrow> dbl" where
  "nextafter NaN y = NaN"
| "nextafter x NaN = NaN"
| "nextafter (Fin x) y =
     (if Fin x = y then y else if Fin x < y then to_dbl (next_up x) else to_dbl (next_down x))"
| "nextafter PInf y = (if y = PInf then PInf else Fin dbl_max)"
| "nextafter NInf y = (if y = NInf then NInf else Fin (- dbl_max))"

lemma ulp_pos [simp]: "0 < ulp x"
  by (simp add: ulp_def dbl_denorm_min_def)

lemma ulp_nonzero [simp]: "ulp x \<noteq> 0"
  using ulp_pos [of x] by linarith

lemma above_pos_bounds: "x < above_pos x" "above_pos x \<le> x + ulp x"
proof -
  have "x / ulp x < of_int \<lfloor>x / ulp x\<rfloor> + 1" by linarith
  then show "x < above_pos x" by (simp only: above_pos_def pos_divide_less_eq [OF ulp_pos])
  have "of_int \<lfloor>x / ulp x\<rfloor> * ulp x \<le> x" by (simp add: pos_le_divide_eq [symmetric])
  then show "above_pos x \<le> x + ulp x" by (simp add: above_pos_def algebra_simps)
qed

lemma below_pos_bounds: "below_pos x < x" "x - ulp x \<le> below_pos x"
proof -
  have "of_int \<lceil>x / ulp x\<rceil> - 1 < x / ulp x" by linarith
  then have 1: "(of_int \<lceil>x / ulp x\<rceil> - 1) * ulp x < x" by (simp add: pos_less_divide_eq)
  have "x / ulp x \<le> of_int \<lceil>x / ulp x\<rceil>" by linarith
  then have 2: "x \<le> of_int \<lceil>x / ulp x\<rceil> * ulp x" by (simp only: pos_divide_le_eq [OF ulp_pos])
  show "below_pos x < x" using 1 by (simp add: below_pos_def)
  show "x - ulp x \<le> below_pos x"
    using 2 ulp_pos [of x] by (simp add: below_pos_def algebra_simps less_imp_le)
qed

lemma ulp_minus [simp]: "ulp (- x) = ulp x"
  by (simp add: ulp_def)

lemma next_up_bounds: "x < next_up x" "next_up x \<le> x + ulp x"
  using above_pos_bounds [of x] below_pos_bounds [of "- x"] by (auto simp: next_up_def)

lemma next_down_bounds: "next_down x < x" "x - ulp x \<le> next_down x"
  using next_up_bounds [of "- x"] by (auto simp: next_down_def)

lemma nextafter_up: "x < y \<Longrightarrow> nextafter (Fin x) (Fin y) = to_dbl (next_up x)"
  by simp

lemma nextafter_down: "y < x \<Longrightarrow> nextafter (Fin x) (Fin y) = to_dbl (next_down x)"
  by simp

end
