(* ===== verification/Arc_Types.thy ===== *)
theory Arc_Types
  imports Dbl
begin

text \<open>
  The strong scalar types of \<open>types/\<close> (arc length, its derivatives, epsilon): all are a single
  \<open>double\<close>, and the operators between them are the operators of \<open>Dbl\<close>, so they are synonyms here.
  What has content is the tolerant comparison of \<open>epsilon::wrap\<close>, which the integrator uses for
  nearly every decision.
\<close>

type_synonym arc_length = dbl
type_synonym arc_velocity = dbl
type_synonym arc_acceleration = dbl
type_synonym phase_plane_slope = dbl
type_synonym seconds = dbl
type_synonym epsilon = dbl

datatype weak_ordering = Less | Equivalent | Greater

text \<open>
  \<open>operator<=>\<close> on two wrapped values (\<open>epsilon.hpp\<close>): the stricter of the two tolerances
  decides, by comparing the difference of the values against it.
\<close>

definition wrap_compare :: "epsilon \<Rightarrow> dbl \<Rightarrow> epsilon \<Rightarrow> dbl \<Rightarrow> weak_ordering" where
  "wrap_compare le lt re rt =
     (let tol = std_min le re; diff = lt - rt
      in if tol < diff then Greater
         else if diff < - tol then Less
         else Equivalent)"

text \<open>The relational operators that C++ derives from it, for values wrapped by one epsilon.\<close>

definition eps_eq :: "epsilon \<Rightarrow> dbl \<Rightarrow> dbl \<Rightarrow> bool" where
  "eps_eq e x y \<longleftrightarrow> wrap_compare e x e y = Equivalent"

definition eps_less :: "epsilon \<Rightarrow> dbl \<Rightarrow> dbl \<Rightarrow> bool" where
  "eps_less e x y \<longleftrightarrow> wrap_compare e x e y = Less"

definition eps_le :: "epsilon \<Rightarrow> dbl \<Rightarrow> dbl \<Rightarrow> bool" where
  "eps_le e x y \<longleftrightarrow> wrap_compare e x e y \<noteq> Greater"

definition eps_greater :: "epsilon \<Rightarrow> dbl \<Rightarrow> dbl \<Rightarrow> bool" where
  "eps_greater e x y \<longleftrightarrow> wrap_compare e x e y = Greater"

definition eps_ge :: "epsilon \<Rightarrow> dbl \<Rightarrow> dbl \<Rightarrow> bool" where
  "eps_ge e x y \<longleftrightarrow> wrap_compare e x e y \<noteq> Less"

text \<open>The operators on tolerances themselves, which are those of \<open>double\<close>.\<close>

datatype partial_ordering = Below | Same | Above | Unordered

definition compare_epsilon :: "epsilon \<Rightarrow> epsilon \<Rightarrow> partial_ordering" where
  "compare_epsilon lhs rhs =
     (if lhs < rhs then Below else if rhs < lhs then Above else if feq lhs rhs then Same else Unordered)"

definition equal_epsilon :: "epsilon \<Rightarrow> epsilon \<Rightarrow> bool" where
  "equal_epsilon lhs rhs \<longleftrightarrow> compare_epsilon lhs rhs = Same"

definition negate_epsilon :: "epsilon \<Rightarrow> epsilon" where
  "negate_epsilon eps = - eps"

definition scale_epsilon :: "epsilon \<Rightarrow> dbl \<Rightarrow> epsilon" where
  "scale_epsilon eps scalar = eps * scalar"

definition divide_epsilon :: "epsilon \<Rightarrow> dbl \<Rightarrow> epsilon" where
  "divide_epsilon eps scalar = divide eps scalar"

text \<open>Which tolerance \<open>std::min\<close> takes, by this comparison.\<close>

lemma stricter_epsilon: "std_min lhs rhs = (if compare_epsilon rhs lhs = Below then rhs else lhs)"
  by (simp add: std_min_def compare_epsilon_def)

fun flip_ordering :: "weak_ordering \<Rightarrow> weak_ordering" where
  "flip_ordering Less = Greater"
| "flip_ordering Equivalent = Equivalent"
| "flip_ordering Greater = Less"

lemma eps_Fin [simp]:
  assumes "0 \<le> e"
  shows "eps_eq (Fin e) (Fin x) (Fin y) \<longleftrightarrow> \<bar>x - y\<bar> \<le> e"
    and "eps_less (Fin e) (Fin x) (Fin y) \<longleftrightarrow> x < y - e"
    and "eps_le (Fin e) (Fin x) (Fin y) \<longleftrightarrow> x \<le> y + e"
    and "eps_greater (Fin e) (Fin x) (Fin y) \<longleftrightarrow> y + e < x"
    and "eps_ge (Fin e) (Fin x) (Fin y) \<longleftrightarrow> y - e \<le> x"
  using assms
  by (auto simp: eps_eq_def eps_less_def eps_le_def eps_greater_def eps_ge_def wrap_compare_def Let_def)

lemma eps_PInf [simp]:
  "eps_less (Fin e) (Fin x) PInf" "\<not> eps_greater (Fin e) (Fin x) PInf"
  "eps_le (Fin e) (Fin x) PInf" "\<not> eps_eq (Fin e) (Fin x) PInf" "\<not> eps_ge (Fin e) (Fin x) PInf"
  "eps_greater (Fin e) PInf (Fin x)" "\<not> eps_less (Fin e) PInf (Fin x)"
  "\<not> eps_le (Fin e) PInf (Fin x)" "\<not> eps_eq (Fin e) PInf (Fin x)" "eps_ge (Fin e) PInf (Fin x)"
  "eps_eq (Fin e) PInf PInf" "eps_le (Fin e) PInf PInf" "eps_ge (Fin e) PInf PInf"
  "\<not> eps_less (Fin e) PInf PInf" "\<not> eps_greater (Fin e) PInf PInf"
  by (simp_all add: eps_eq_def eps_less_def eps_le_def eps_greater_def eps_ge_def wrap_compare_def)

text \<open>
  Two wrapped values compare the other way round when swapped, whatever they are: the comparison
  is antisymmetric even on infinities and \<open>NaN\<close>.
\<close>

lemma wrap_compare_flip:
  assumes "isfinite le" "isfinite re" "Fin 0 \<le> le" "Fin 0 \<le> re"
  shows "wrap_compare re rt le lt = flip_ordering (wrap_compare le lt re rt)"
proof -
  obtain a b where ab: "le = Fin a" "re = Fin b" "0 \<le> a" "0 \<le> b"
    using assms by (auto simp: isfinite_iff)
  then show ?thesis
    by (cases lt; cases rt) (auto simp: wrap_compare_def Let_def min_def)
qed

lemma eps_eq_iff_le_ge: "eps_eq e x y \<longleftrightarrow> eps_le e x y \<and> eps_ge e x y"
  unfolding eps_eq_def eps_le_def eps_ge_def
  using weak_ordering.exhaust by (metis weak_ordering.distinct(1,3,5))

text \<open>A \<open>NaN\<close> is equivalent to everything: neither of the two comparisons against it is true.\<close>

lemma wrap_compare_NaN [simp]:
  "wrap_compare e NaN f y = Equivalent" "wrap_compare e x f NaN = Equivalent"
  by (simp_all add: wrap_compare_def)

lemma eps_eq_NaN [simp]: "eps_eq e NaN y" "eps_eq e x NaN"
  by (simp_all add: eps_eq_def)

lemma eps_eq_tolerance: "0 \<le> e \<Longrightarrow> eps_eq (Fin e) (Fin x) (Fin y) \<longleftrightarrow> \<bar>x - y\<bar> \<le> e"
  by (rule eps_Fin(1))

lemma eps_eq_scaled:
  "0 \<le> e \<Longrightarrow> 0 \<le> k \<Longrightarrow> eps_eq (scale_epsilon (Fin e) (Fin k)) (Fin x) (Fin y) \<longleftrightarrow> \<bar>x - y\<bar> \<le> e * k"
  by (simp add: scale_epsilon_def)

lemma equal_epsilon_Fin: "equal_epsilon (Fin d) (Fin e) \<longleftrightarrow> d = e"
  by (auto simp: equal_epsilon_def compare_epsilon_def)

text \<open>
  Comparing two wrapped values is decided by the smaller of the two tolerances: they are
  equivalent exactly when they differ by at most that, the comparison is antisymmetric under a
  swap, but it is no weak ordering: with a positive tolerance equivalence is not transitive, and
  a \<open>NaN\<close> is equivalent to every value.
\<close>

lemma epsilon_comparison:
  assumes "0 \<le> e" "0 \<le> f"
  shows "(wrap_compare (Fin e) (Fin x) (Fin f) (Fin y) = Equivalent \<longleftrightarrow> \<bar>x - y\<bar> \<le> min e f) \<and>
    wrap_compare (Fin f) b (Fin e) a = flip_ordering (wrap_compare (Fin e) a (Fin f) b) \<and>
    (0 < e \<longrightarrow> (\<exists>u v w. eps_eq (Fin e) u v \<and> eps_eq (Fin e) v w \<and> \<not> eps_eq (Fin e) u w)) \<and>
    eps_eq (Fin e) NaN a"
proof (intro conjI impI)
  show "wrap_compare (Fin e) (Fin x) (Fin f) (Fin y) = Equivalent \<longleftrightarrow> \<bar>x - y\<bar> \<le> min e f"
    using assms by (auto simp: wrap_compare_def Let_def)
  show "wrap_compare (Fin f) b (Fin e) a = flip_ordering (wrap_compare (Fin e) a (Fin f) b)"
    using assms by (intro wrap_compare_flip) simp_all
  show "eps_eq (Fin e) NaN a" by simp
  assume "0 < e"
  with assms show "\<exists>u v w. eps_eq (Fin e) u v \<and> eps_eq (Fin e) v w \<and> \<not> eps_eq (Fin e) u w"
    by (intro exI [of _ "Fin 0"] exI [of _ "Fin e"] exI [of _ "Fin (2 * e)"]) (simp add: eps_eq_tolerance)
qed

lemma epsilon_comparison_witness:
  "\<exists>u v w. eps_eq (Fin 1) u v \<and> eps_eq (Fin 1) v w \<and> \<not> eps_eq (Fin 1) u w"
  using epsilon_comparison [of 1 1] by simp

end
