(* ===== verification/Path_Geometry.thy ===== *)
theory Path_Geometry
  imports Arc_Types
begin

text \<open>
  Path segments (\<open>path.cpp\<close>, \<open>path.hpp\<close>): straight lines and circular arcs in configuration space,
  with their checked constructors, and the \<open>segment::view\<close> that evaluates a segment placed at an
  interval of the path's arc length: configuration, unit tangent and curvature vector.
\<close>

section \<open>Segments\<close>

record linear =
  lin_start :: xvector
  lin_unit_direction :: xvector
  lin_length :: arc_length

record circular =
  circ_center :: xvector
  circ_x :: xvector
  circ_y :: xvector
  circ_radius :: real
  circ_angle_rads :: real

datatype segment = Linear linear | Circular circular

text \<open>The two constructors of \<open>segment::linear\<close>: between two points, and along a direction.\<close>

definition linear_between :: "xvector \<Rightarrow> xvector \<Rightarrow> linear res" where
  "linear_between start end' =
     (let diff = vsub end' start; norm = norm_l2 diff
      in if norm = 0
         then Inl (Invalid_argument ''Linear segment: start and end must be different'')
         else Inr \<lparr>lin_start = start, lin_unit_direction = vdiv diff norm, lin_length = Fin norm\<rparr>)"

definition linear_along :: "xvector \<Rightarrow> xvector \<Rightarrow> arc_length \<Rightarrow> linear res" where
  "linear_along start unit_direction len =
     (if len \<le> 0 then Inl (Invalid_argument ''Linear segment: length must be positive'')
      else Inr \<lparr>lin_start = start, lin_unit_direction = unit_direction, lin_length = len\<rparr>)"

definition make_circular :: "xvector \<Rightarrow> xvector \<Rightarrow> xvector \<Rightarrow> real \<Rightarrow> real \<Rightarrow> circular res" where
  "make_circular center x y radius angle_rads =
     (let x_norm = norm_l2 x; y_norm = norm_l2 y
      in if 1 / 10 ^ 6 < \<bar>x_norm - 1\<bar> \<or> 1 / 10 ^ 6 < \<bar>y_norm - 1\<bar>
         then Inl (Invalid_argument ''Circular segment: x and y must be unit vectors'')
         else if 1 / 10 ^ 6 < \<bar>dot x y\<bar>
         then Inl (Invalid_argument ''Circular segment: x and y must be perpendicular'')
         else Inr \<lparr>circ_center = center, circ_x = x, circ_y = y, circ_radius = radius,
                   circ_angle_rads = angle_rads\<rparr>)"

section \<open>Views\<close>

record segment_view =
  view_segment :: segment
  view_start :: arc_length
  view_end :: arc_length

definition view_length :: "segment_view \<Rightarrow> arc_length" where
  "view_length v = view_end v - view_start v"

fun segment_dof :: "segment \<Rightarrow> nat" where
  "segment_dof (Linear l) = length (lin_start l)"
| "segment_dof (Circular c) = length (circ_center c)"

text \<open>\<open>segment::view::dof_\<close> and \<open>require_dof\<close>\<close>

definition view_dof :: "segment_view \<Rightarrow> nat" where
  "view_dof v = segment_dof (view_segment v)"

definition require_dof :: "nat \<Rightarrow> nat \<Rightarrow> unit res" where
  "require_dof out_size dof =
     (if out_size \<noteq> dof
      then Inl (Invalid_argument ''Output span size does not match path degrees of freedom'')
      else Inr ())"

text \<open>The visitors of the three accessors: Kunz and Stilman, equations 7 to 9.\<close>

fun segment_configuration :: "segment \<Rightarrow> real \<Rightarrow> xvector" where
  "segment_configuration (Linear l) distance =
     map (\<lambda>i. lin_start l ! i + distance * lin_unit_direction l ! i) [0..<length (lin_start l)]"
| "segment_configuration (Circular c) distance =
     (let angle = distance / circ_radius c; cos_angle = cos angle; sin_angle = sin angle
      in map (\<lambda>i. circ_center c ! i + circ_radius c * (circ_x c ! i * cos_angle + circ_y c ! i * sin_angle))
           [0..<length (circ_center c)])"

fun segment_tangent :: "segment \<Rightarrow> real \<Rightarrow> xvector" where
  "segment_tangent (Linear l) distance = map (\<lambda>i. lin_unit_direction l ! i) [0..<length (lin_start l)]"
| "segment_tangent (Circular c) distance =
     (let angle = distance / circ_radius c; cos_angle = cos angle; sin_angle = sin angle
      in map (\<lambda>i. - (circ_x c ! i) * sin_angle + circ_y c ! i * cos_angle) [0..<length (circ_center c)])"

fun segment_curvature :: "segment \<Rightarrow> real \<Rightarrow> xvector" where
  "segment_curvature (Linear l) distance = replicate (length (lin_start l)) 0"
| "segment_curvature (Circular c) distance =
     (let angle = distance / circ_radius c; cos_angle = cos angle; sin_angle = sin angle;
          negative_inverse_radius = - (1 / circ_radius c)
      in map (\<lambda>i. negative_inverse_radius * (circ_x c ! i * cos_angle + circ_y c ! i * sin_angle))
           [0..<length (circ_center c)])"

text \<open>
  The common frame of the three accessors: offset into the segment, bounds check, size check of
  the caller's span, then the visitor. A \<open>NaN\<close> position passes the bounds check.
\<close>

definition view_query :: "(segment \<Rightarrow> real \<Rightarrow> xvector) \<Rightarrow> segment_view \<Rightarrow> arc_length \<Rightarrow> nat \<Rightarrow> xvector res" where
  "view_query visitor v s out_size =
     (let local_s = s - view_start v
      in if local_s < 0 \<or> view_length v < local_s
         then Inl (Out_of_range ''Arc length outside segment bounds'')
         else bind_res (require_dof out_size (view_dof v)) (\<lambda>_.
           case local_s of
             Fin distance \<Rightarrow> Inr (visitor (view_segment v) distance)
           | _ \<Rightarrow> Inl (Not_finite ''coordinates'')))"

definition view_configuration_into :: "segment_view \<Rightarrow> arc_length \<Rightarrow> nat \<Rightarrow> xvector res" where
  "view_configuration_into = view_query segment_configuration"

definition view_tangent_into :: "segment_view \<Rightarrow> arc_length \<Rightarrow> nat \<Rightarrow> xvector res" where
  "view_tangent_into = view_query segment_tangent"

definition view_curvature_into :: "segment_view \<Rightarrow> arc_length \<Rightarrow> nat \<Rightarrow> xvector res" where
  "view_curvature_into = view_query segment_curvature"

text \<open>The value-returning overloads bring a buffer of the segment's own size.\<close>

definition view_configuration :: "segment_view \<Rightarrow> arc_length \<Rightarrow> xvector res" where
  "view_configuration v s = view_configuration_into v s (view_dof v)"

definition view_tangent :: "segment_view \<Rightarrow> arc_length \<Rightarrow> xvector res" where
  "view_tangent v s = view_tangent_into v s (view_dof v)"

definition view_curvature :: "segment_view \<Rightarrow> arc_length \<Rightarrow> xvector res" where
  "view_curvature v s = view_curvature_into v s (view_dof v)"

section \<open>Well-formed segments\<close>

fun segment_length :: "segment \<Rightarrow> dbl" where
  "segment_length (Linear l) = lin_length l"
| "segment_length (Circular c) = Fin (circ_radius c * circ_angle_rads c)"

text \<open>Unit direction, or an orthonormal frame; positive length; vectors of one size.\<close>

fun segment_inv :: "nat \<Rightarrow> segment \<Rightarrow> bool" where
  "segment_inv n (Linear l) \<longleftrightarrow> length (lin_start l) = n \<and> length (lin_unit_direction l) = n \<and>
     norm_l2 (lin_unit_direction l) = 1 \<and> isfinite (lin_length l) \<and> 0 < lin_length l"
| "segment_inv n (Circular c) \<longleftrightarrow> length (circ_center c) = n \<and> length (circ_x c) = n \<and>
     length (circ_y c) = n \<and> dot (circ_x c) (circ_x c) = 1 \<and> dot (circ_y c) (circ_y c) = 1 \<and>
     dot (circ_x c) (circ_y c) = 0 \<and> 0 < circ_radius c \<and> 0 < circ_angle_rads c"

lemma segment_dof_inv: "segment_inv n g \<Longrightarrow> segment_dof g = n"
  by (cases g) auto

lemma length_segment_vectors [simp]:
  "length (segment_configuration g t) = segment_dof g"
  "length (segment_tangent g t) = segment_dof g"
  "length (segment_curvature g t) = segment_dof g"
  by (cases g; simp add: Let_def)+

lemma segment_length_pos: "segment_inv n g \<Longrightarrow> \<exists>l > 0. segment_length g = Fin l"
  by (cases g) (auto simp: isfinite_iff)

lemma norm_vdiv_self: "norm_l2 x \<noteq> 0 \<Longrightarrow> norm_l2 (vdiv x (norm_l2 x)) = 1"
  by (simp add: vdiv_vscale norm_l2_vscale)

text \<open>A checked line between two points of one space is well-formed and joins them.\<close>

lemma linear_between_inv:
  assumes "linear_between a b = Inr l" "length a = n" "length b = n"
  shows "segment_inv n (Linear l)" "lin_length l = Fin (norm_l2 (vsub b a))"
    "segment_configuration (Linear l) 0 = a"
    "segment_configuration (Linear l) (norm_l2 (vsub b a)) = b"
proof -
  let ?d = "norm_l2 (vsub b a)"
  have d: "?d \<noteq> 0" and l: "l = \<lparr>lin_start = a, lin_unit_direction = vdiv (vsub b a) ?d, lin_length = Fin ?d\<rparr>"
    using assms(1) by (auto simp: linear_between_def Let_def split: if_splits)
  have pos: "0 < ?d" using d norm_l2_pos by blast
  show "segment_inv n (Linear l)"
    using assms(2,3) pos norm_vdiv_self [OF d] by (simp add: l)
  show "lin_length l = Fin ?d" by (simp add: l)
  show "segment_configuration (Linear l) 0 = a"
    by (simp add: l map_nth)
  show "segment_configuration (Linear l) ?d = b"
    by (rule nth_equalityI) (use assms(2,3) d in \<open>simp_all add: l\<close>)
qed

lemma sum_nth_dot: "length x = n \<Longrightarrow> length y = n \<Longrightarrow> (\<Sum>i<n. x ! i * y ! i) = dot x y"
  by (simp add: dot_sum)

text \<open>Combinations of an orthonormal pair have the norm of their coefficients.\<close>

lemma dot_frame:
  assumes "length x = n" "length y = n" "dot x x = 1" "dot y y = 1" "dot x y = 0"
  shows "dot (map (\<lambda>i. a * x ! i + b * y ! i) [0..<n]) (map (\<lambda>i. a * x ! i + b * y ! i) [0..<n])
    = a\<^sup>2 + b\<^sup>2"
proof -
  let ?v = "map (\<lambda>i. a * x ! i + b * y ! i) [0..<n]"
  have "?v = vadd (vscale a x) (vscale b y)"
    by (rule nth_equalityI) (use assms in simp_all)
  moreover have "dot y x = 0" using assms by (simp add: dot_commute)
  ultimately show ?thesis
    using assms by (simp add: vec_simps power2_eq_square)
qed

lemma segment_tangent_circular:
  "length (circ_center c) = n \<Longrightarrow> segment_tangent (Circular c) t =
    map (\<lambda>i. - sin (t / circ_radius c) * circ_x c ! i + cos (t / circ_radius c) * circ_y c ! i) [0..<n]"
  by (simp add: Let_def mult.commute)

lemma segment_curvature_circular:
  "length (circ_center c) = n \<Longrightarrow> segment_curvature (Circular c) t =
    map (\<lambda>i. - cos (t / circ_radius c) / circ_radius c * circ_x c ! i +
             - sin (t / circ_radius c) / circ_radius c * circ_y c ! i) [0..<n]"
  by (simp add: Let_def algebra_simps)

lemma unit_tangent:
  assumes "segment_inv n g"
  shows "norm_l2 (segment_tangent g t) = 1"
proof (cases g)
  case (Linear l)
  have "segment_tangent g t = lin_unit_direction l"
    by (rule nth_equalityI) (use assms Linear in simp_all)
  with assms Linear show ?thesis by simp
next
  case (Circular c)
  have "dot (segment_tangent g t) (segment_tangent g t) = (- sin (t / circ_radius c))\<^sup>2 + (cos (t / circ_radius c))\<^sup>2"
    unfolding Circular using assms Circular
    by (subst (1 2) segment_tangent_circular [of _ n]) (simp_all only: dot_frame segment_inv.simps)
  then show ?thesis by (simp add: norm_l2_def)
qed

lemma curvature_norm:
  assumes "segment_inv n (Circular c)"
  shows "norm_l2 (segment_curvature (Circular c) t) = 1 / circ_radius c"
proof -
  let ?a = "t / circ_radius c"
  have "dot (segment_curvature (Circular c) t) (segment_curvature (Circular c) t) =
      (- cos ?a / circ_radius c)\<^sup>2 + (- sin ?a / circ_radius c)\<^sup>2"
    using assms by (subst (1 2) segment_curvature_circular [of _ n]) (simp_all only: dot_frame segment_inv.simps)
  also have "\<dots> = ((cos ?a)\<^sup>2 + (sin ?a)\<^sup>2) * (1 / circ_radius c)\<^sup>2"
    by (simp add: power_divide add_divide_distrib [symmetric])
  finally show ?thesis
    using assms by (simp add: norm_l2_def real_sqrt_divide)
qed

lemma segment_derivative:
  assumes "segment_inv n g" "i < n"
  shows "((\<lambda>t. segment_configuration g t ! i) has_real_derivative segment_tangent g t ! i) (at t)"
proof (cases g)
  case (Linear l)
  with assms show ?thesis by (auto intro!: derivative_eq_intros)
next
  case (Circular c)
  with assms show ?thesis
    by (auto simp: Let_def field_simps intro!: derivative_eq_intros)
qed

lemma segment_second_derivative:
  assumes "segment_inv n g" "i < n"
  shows "((\<lambda>t. segment_tangent g t ! i) has_real_derivative segment_curvature g t ! i) (at t)"
proof (cases g)
  case (Linear l)
  with assms show ?thesis by (auto intro!: derivative_eq_intros)
next
  case (Circular c)
  with assms show ?thesis
    by (auto simp: Let_def field_simps intro!: derivative_eq_intros)
qed

text \<open>
  On a well-formed segment the three accessors describe one curve parametrised by arc length:
  the tangent is the derivative of the configuration and has length one, the curvature vector is
  the derivative of the tangent, and on an arc it has length \<open>1 / radius\<close>.
\<close>

lemma segment_accessors_consistent:
  assumes "segment_inv n g"
  shows "(\<forall>i < n. ((\<lambda>t. segment_configuration g t ! i) has_real_derivative segment_tangent g t ! i) (at t)) \<and>
    (\<forall>i < n. ((\<lambda>t. segment_tangent g t ! i) has_real_derivative segment_curvature g t ! i) (at t)) \<and>
    norm_l2 (segment_tangent g t) = 1 \<and>
    norm_l2 (segment_curvature g t) = (case g of Linear _ \<Rightarrow> 0 | Circular c \<Rightarrow> 1 / circ_radius c)"
proof -
  have "norm_l2 (segment_curvature g t) = (case g of Linear _ \<Rightarrow> 0 | Circular c \<Rightarrow> 1 / circ_radius c)"
  proof (cases g)
    case (Linear l)
    then show ?thesis by (simp add: norm_l2_def dot_sum)
  next
    case (Circular c)
    with assms curvature_norm show ?thesis by (simp del: segment_curvature.simps)
  qed
  then show ?thesis
    using segment_derivative [OF assms] segment_second_derivative [OF assms] unit_tangent [OF assms]
    by blast
qed

text \<open>
  A position query on a placed segment succeeds exactly inside the segment's interval of arc
  length and with a buffer of the right size; otherwise it throws, and the bounds are checked
  before the size.
\<close>

lemma view_query_result:
  assumes "isfinite (view_start v)" "isfinite (view_end v)" "isfinite s"
  shows "view_configuration_into v s out_size =
    (if s < view_start v \<or> view_end v < s
     then Inl (Out_of_range ''Arc length outside segment bounds'')
     else if out_size \<noteq> view_dof v
     then Inl (Invalid_argument ''Output span size does not match path degrees of freedom'')
     else (case (s, view_start v) of
         (Fin x, Fin a) \<Rightarrow> Inr (segment_configuration (view_segment v) (x - a))))"
  using assms
  by (auto simp: isfinite_iff view_configuration_into_def view_query_def Let_def view_length_def require_dof_def)

lemma view_query_result_witness:
  "view_configuration_into \<lparr>view_segment = Linear \<lparr>lin_start = [1], lin_unit_direction = [1],
      lin_length = Fin 2\<rparr>, view_start = Fin 3, view_end = Fin 5\<rparr> (Fin 4) 1 = Inr [2]"
  using view_query_result [of "\<lparr>view_segment = Linear \<lparr>lin_start = [1], lin_unit_direction = [1],
      lin_length = Fin 2\<rparr>, view_start = Fin 3, view_end = Fin 5\<rparr>" "Fin 4" 1]
  by (simp add: view_dof_def)

end
