(* ===== verification/Waypoints.thy ===== *)
theory Waypoints
  imports Dbl "HOL-Library.Sublist"
begin

text \<open>
  The waypoint accumulator (\<open>totg/waypoint_accumulator.{hpp,cpp}\<close>) and the two preprocessing
  passes of \<open>totg/waypoint_utils.cpp\<close>: deduplication and segmentation at reversals. An accumulator
  holds views of rows owned by the caller; the model holds the rows as they are while the caller
  keeps them unchanged, which is the documented lifetime requirement. Aliasing of the rows by the
  streaming store is modelled in theory \<open>Waypoint_Store\<close>.
\<close>

section \<open>The accumulator\<close>

text \<open>A rank-2 array: its rows, all as wide as its second extent.\<close>

record xmatrix =
  m_rows :: "xvector list"
  m_cols :: nat

definition xmatrix_inv :: "xmatrix \<Rightarrow> bool" where
  "xmatrix_inv m \<longleftrightarrow> (\<forall>r \<in> set (m_rows m). length r = m_cols m)"

record waypoint_accumulator =
  wa_dof :: nat
  wa_points :: "xvector list"

definition wa_inv :: "waypoint_accumulator \<Rightarrow> bool" where
  "wa_inv a \<longleftrightarrow> (\<forall>w \<in> set (wa_points a). length w = wa_dof a)"

text \<open>
  Elements of an input as a configuration vector: where the code takes them into one, the model takes finite elements. The rows
  of a matrix are read through its extents, past the end of its storage if that is shorter.
\<close>

definition finite_vector :: "dbl list \<Rightarrow> xvector res" where
  "finite_vector v = (if list_all isfinite v then Inr (map fin v) else Inl (Not_finite ''tensor''))"

definition matrix_rows :: "nat \<times> nat \<times> dbl list \<Rightarrow> xmatrix res" where
  "matrix_rows = (\<lambda>(r, c, xs).
     if length xs < r * c then Inl (Undefined_behaviour ''read past the storage of a tensor'')
     else bind_res (finite_vector xs) (\<lambda>v. Inr \<lparr>m_rows = map (\<lambda>i. take c (drop (i * c) v)) [0..<r], m_cols = c\<rparr>))"

definition wa_of_matrix :: "xmatrix \<Rightarrow> waypoint_accumulator res" where
  "wa_of_matrix m =
     (if m_rows m = [] then Inl (Invalid_argument ''Waypoints cannot be empty'')
      else Inr \<lparr>wa_dof = m_cols m, wa_points = m_rows m\<rparr>)"

definition wa_of_waypoint :: "xvector \<Rightarrow> waypoint_accumulator" where
  "wa_of_waypoint w = \<lparr>wa_dof = length w, wa_points = [w]\<rparr>"

definition wa_add_waypoints :: "waypoint_accumulator \<Rightarrow> xmatrix \<Rightarrow> waypoint_accumulator res" where
  "wa_add_waypoints a m =
     (if m_cols m \<noteq> wa_dof a
      then Inl (Invalid_argument ''Waypoints dimensions must match existing DOF'')
      else Inr (a\<lparr>wa_points := wa_points a @ m_rows m\<rparr>))"

definition wa_add_waypoint :: "waypoint_accumulator \<Rightarrow> xvector \<Rightarrow> waypoint_accumulator res" where
  "wa_add_waypoint a w =
     (if length w \<noteq> wa_dof a
      then Inl (Invalid_argument ''Waypoint DOF must match existing DOF'')
      else Inr (a\<lparr>wa_points := wa_points a @ [w]\<rparr>))"

definition wa_size :: "waypoint_accumulator \<Rightarrow> nat" where
  "wa_size a = length (wa_points a)"

definition wa_at :: "waypoint_accumulator \<Rightarrow> nat \<Rightarrow> xvector res" where
  "wa_at a i =
     (if length (wa_points a) \<le> i
      then Inl (Out_of_range ''waypoint_accumulator::at: index out of range'')
      else Inr (wa_points a ! i))"

definition wa_back :: "waypoint_accumulator \<Rightarrow> xvector res" where
  "wa_back a =
     (if wa_points a = [] then Inl (Undefined_behaviour ''back of an empty vector'')
      else Inr (last (wa_points a)))"

definition wa_pop_back :: "waypoint_accumulator \<Rightarrow> waypoint_accumulator res" where
  "wa_pop_back a =
     (if wa_points a = [] then Inl (Undefined_behaviour ''pop_back of an empty vector'')
      else Inr (a\<lparr>wa_points := butlast (wa_points a)\<rparr>))"

lemma wa_inv_of_matrix: "xmatrix_inv m \<Longrightarrow> wa_of_matrix m = Inr a \<Longrightarrow> wa_inv a"
  by (auto simp: xmatrix_inv_def wa_of_matrix_def wa_inv_def split: if_splits)

lemma wa_inv_of_waypoint [simp]: "wa_inv (wa_of_waypoint w)"
  by (simp add: wa_inv_def wa_of_waypoint_def)

lemma wa_inv_add_waypoints:
  "wa_inv a \<Longrightarrow> xmatrix_inv m \<Longrightarrow> wa_add_waypoints a m = Inr b \<Longrightarrow> wa_inv b"
  by (auto simp: xmatrix_inv_def wa_add_waypoints_def wa_inv_def split: if_splits)

lemma wa_inv_add_waypoint: "wa_inv a \<Longrightarrow> wa_add_waypoint a w = Inr b \<Longrightarrow> wa_inv b"
  by (auto simp: wa_add_waypoint_def wa_inv_def split: if_splits)

lemma wa_inv_pop_back: "wa_inv a \<Longrightarrow> wa_pop_back a = Inr b \<Longrightarrow> wa_inv b"
  by (cases a) (fastforce simp: wa_pop_back_def wa_inv_def dest: in_set_butlastD split: if_splits)

lemma wa_pop_add: "wa_add_waypoint a w = Inr b \<Longrightarrow> wa_pop_back b = Inr a"
  by (auto simp: wa_add_waypoint_def wa_pop_back_def split: if_splits)

section \<open>Deduplication\<close>

fun dedup_scan :: "real \<Rightarrow> waypoint_accumulator \<Rightarrow> xvector list \<Rightarrow> waypoint_accumulator res" where
  "dedup_scan tol r [] = Inr r"
| "dedup_scan tol r (w # ws) =
     bind_res (wa_back r) (\<lambda>b.
       if tol < norm_linf (vsub w b)
       then bind_res (wa_add_waypoint r w) (\<lambda>r'. dedup_scan tol r' ws)
       else dedup_scan tol r ws)"

definition deduplicate_waypoints :: "waypoint_accumulator \<Rightarrow> real \<Rightarrow> waypoint_accumulator res" where
  "deduplicate_waypoints a tol =
     (case wa_points a of
        [] \<Rightarrow> Inr a
      | w # ws \<Rightarrow>
          bind_res (dedup_scan tol (wa_of_waypoint w) ws) (\<lambda>r.
          bind_res (wa_back r) (\<lambda>b.
          bind_res (wa_back a) (\<lambda>z.
            if 1 < wa_size r \<and> b \<noteq> z
            then bind_res (wa_pop_back r) (\<lambda>r'. wa_add_waypoint r' z)
            else Inr r))))"

text \<open>
  The scan on plain lists: \<open>thin tol b ws\<close> are the waypoints kept after \<open>b\<close>.
\<close>

fun thin :: "real \<Rightarrow> xvector \<Rightarrow> xvector list \<Rightarrow> xvector list" where
  "thin tol b [] = []"
| "thin tol b (w # ws) = (if tol < norm_linf (vsub w b) then w # thin tol w ws else thin tol b ws)"

definition thinned :: "real \<Rightarrow> xvector list \<Rightarrow> xvector list" where
  "thinned tol ws =
     (case ws of
        [] \<Rightarrow> []
      | w # ws' \<Rightarrow>
          (let ks = w # thin tol w ws'
           in if 1 < length ks \<and> last ks \<noteq> last ws then butlast ks @ [last ws] else ks))"

lemma dedup_scan_thin:
  assumes "wa_points r \<noteq> []" "\<forall>w \<in> set ws. length w = wa_dof r"
  shows "dedup_scan tol r ws = Inr (r\<lparr>wa_points := wa_points r @ thin tol (last (wa_points r)) ws\<rparr>)"
  using assms
proof (induction ws arbitrary: r)
  case (Cons w ws)
  show ?case
  proof (cases "tol < norm_linf (vsub w (last (wa_points r)))")
    case True
    with Cons.prems Cons.IH [of "r\<lparr>wa_points := wa_points r @ [w]\<rparr>"] show ?thesis
      by (simp add: wa_back_def wa_add_waypoint_def)
  next
    case False
    with Cons show ?thesis by (simp add: wa_back_def)
  qed
qed simp

lemma deduplicate_thinned:
  assumes "wa_inv a"
  shows "deduplicate_waypoints a tol = Inr (a\<lparr>wa_points := thinned tol (wa_points a)\<rparr>)"
proof (cases "wa_points a")
  case Nil
  then show ?thesis by (simp add: deduplicate_waypoints_def thinned_def)
next
  case (Cons w ws)
  with assms have len: "length w = wa_dof a" "\<forall>w' \<in> set ws. length w' = wa_dof a"
    by (auto simp: wa_inv_def)
  define r where "r = a\<lparr>wa_points := w # thin tol w ws\<rparr>"
  have scan: "dedup_scan tol (wa_of_waypoint w) ws = Inr r"
    using len by (cases a) (simp add: dedup_scan_thin wa_of_waypoint_def r_def)
  have "length (last (w # ws)) = wa_dof a" using len by (auto dest: last_in_set)
  then show ?thesis
    by (auto simp: deduplicate_waypoints_def Cons scan thinned_def wa_back_def wa_size_def
        wa_pop_back_def wa_add_waypoint_def r_def Let_def)
qed

lemma subseq_thin: "subseq (thin tol b ws) ws"
  by (induction tol b ws rule: thin.induct) auto

lemma set_thin: "set (thin tol b ws) \<subseteq> set ws"
  by (induction tol b ws rule: thin.induct) auto

lemma successively_thin:
  "successively (\<lambda>x y. tol < norm_linf (vsub y x)) (b # thin tol b ws)"
  by (induction tol b ws rule: thin.induct) auto

text \<open>Every dropped waypoint is within the tolerance of a kept one, and the last one of the last.\<close>

lemma thin_covers:
  assumes "0 \<le> tol" "w \<in> set ws"
  shows "\<exists>k \<in> set (b # thin tol b ws). norm_linf (vsub w k) \<le> tol"
  using assms
proof (induction tol b ws rule: thin.induct)
  case (2 tol b w' ws)
  show ?case
  proof (cases "w = w'")
    case True
    then show ?thesis
      using 2(3) by (cases "tol < norm_linf (vsub w' b)") auto
  next
    case False
    with 2 show ?thesis by (cases "tol < norm_linf (vsub w' b)") auto
  qed
qed simp

lemma thin_last_close:
  assumes "0 \<le> tol"
  shows "norm_linf (vsub (last (b # ws)) (last (b # thin tol b ws))) \<le> tol"
  using assms
proof (induction tol b ws rule: thin.induct)
  case (2 tol b w ws)
  show ?case
  proof (cases "tol < norm_linf (vsub w b)")
    case True
    with 2 show ?thesis by simp
  next
    case False
    then have le: "norm_linf (vsub w b) \<le> tol" by simp
    show ?thesis
    proof (cases ws)
      case Nil
      with False le show ?thesis by simp
    next
      case (Cons v vs)
      with False 2(2,3) show ?thesis by simp
    qed
  qed
qed simp

lemma norm_linf_triangle:
  assumes "length x = n" "length y = n" "length z = n"
  shows "norm_linf (vsub x z) \<le> norm_linf (vsub x y) + norm_linf (vsub y z)"
proof -
  have "\<bar>vsub x z ! i\<bar> \<le> norm_linf (vsub x y) + norm_linf (vsub y z)" if "i < n" for i
  proof -
    have "\<bar>vsub x y ! i\<bar> \<le> norm_linf (vsub x y)" "\<bar>vsub y z ! i\<bar> \<le> norm_linf (vsub y z)"
      using that assms norm_linf_le [of "norm_linf (vsub x y)" "vsub x y"]
        norm_linf_le [of "norm_linf (vsub y z)" "vsub y z"] by auto
    with that assms show ?thesis by simp
  qed
  then show ?thesis using assms by (subst norm_linf_le) auto
qed

lemma norm_linf_vsub_commute:
  assumes "length x = length y"
  shows "norm_linf (vsub x y) = norm_linf (vsub y x)"
proof (rule antisym)
  show "norm_linf (vsub x y) \<le> norm_linf (vsub y x)"
    using assms norm_linf_le [of "norm_linf (vsub y x)" "vsub y x"]
    by (subst norm_linf_le) (auto simp: abs_minus_commute)
  show "norm_linf (vsub y x) \<le> norm_linf (vsub x y)"
    using assms norm_linf_le [of "norm_linf (vsub x y)" "vsub x y"]
    by (subst norm_linf_le) (auto simp: abs_minus_commute)
qed

text \<open>Replacing the last kept waypoint by the original last one.\<close>

lemma subseq_replace_last:
  assumes "subseq (xs @ [k]) zs"
  shows "subseq (xs @ [last zs]) zs"
proof -
  from assms obtain us vs where zs: "zs = us @ vs" and us: "subseq xs us" and vs: "subseq [k] vs"
    using list_emb_appendD by blast
  from vs have "vs \<noteq> []" by auto
  then have "subseq [last zs] vs" by (simp add: zs subseq_singleton_left)
  with us show ?thesis unfolding zs by (rule list_emb_append_mono)
qed

lemma thinned_Cons:
  "thinned tol (w # ws) =
     (let ks = w # thin tol w ws
      in if thin tol w ws \<noteq> [] \<and> last ks \<noteq> last (w # ws) then butlast ks @ [last (w # ws)] else ks)"
  by (cases "thin tol w ws") (simp_all add: thinned_def Let_def)

lemma subseq_thinned: "subseq (thinned tol ws) ws"
proof (cases ws)
  case (Cons w us)
  have sub: "subseq (w # thin tol w us) ws" using Cons subseq_thin by simp
  show ?thesis
  proof (cases "thin tol w us \<noteq> [] \<and> last (w # thin tol w us) \<noteq> last ws")
    case True
    then have "thinned tol ws = butlast (w # thin tol w us) @ [last ws]"
      by (simp add: Cons thinned_Cons Let_def del: last.simps butlast.simps)
    moreover have "subseq (butlast (w # thin tol w us) @ [last (w # thin tol w us)]) ws"
      using sub by (metis append_butlast_last_id list.discI)
    ultimately show ?thesis by (metis subseq_replace_last)
  next
    case False
    then have "thinned tol ws = w # thin tol w us" by (auto simp: Cons thinned_Cons Let_def)
    with sub show ?thesis by simp
  qed
qed (simp add: thinned_def)

lemma hd_thinned: "ws \<noteq> [] \<Longrightarrow> thinned tol ws \<noteq> [] \<and> hd (thinned tol ws) = hd ws"
  by (cases ws) (auto simp: thinned_Cons Let_def)

lemma last_thinned: "1 < length (thinned tol ws) \<Longrightarrow> last (thinned tol ws) = last ws"
  by (cases ws) (auto simp: thinned_def Let_def split: if_splits)

lemma butlast_thinned:
  "ws \<noteq> [] \<Longrightarrow> butlast (thinned tol ws) = butlast (hd ws # thin tol (hd ws) (tl ws))"
  by (cases ws) (auto simp: thinned_def Let_def butlast_append)

lemma successively_butlast: "successively P xs \<Longrightarrow> successively P (butlast xs)"
  by (induction P xs rule: successively.induct) auto

lemma separated_thinned:
  "ws \<noteq> [] \<Longrightarrow> successively (\<lambda>x y. tol < norm_linf (vsub y x)) (butlast (thinned tol ws))"
  by (metis butlast_thinned successively_butlast successively_thin)

lemma successively_snoc:
  "successively P (xs @ [a]) \<longleftrightarrow> successively P xs \<and> (xs \<noteq> [] \<longrightarrow> P (last xs) a)"
  by (auto simp: successively_append_iff)

lemma distinct_thinned:
  assumes "0 \<le> tol" and len: "\<forall>w \<in> set ws. length w = n"
  shows "successively (\<noteq>) (thinned tol ws)"
proof (cases ws)
  case (Cons w us)
  define ks where "ks = w # thin tol w us"
  have ks: "successively (\<lambda>x y. tol < norm_linf (vsub y x)) ks"
    by (simp add: ks_def successively_thin)
  have ne: "successively (\<noteq>) xs" if "successively (\<lambda>x y. tol < norm_linf (vsub y x)) xs" for xs
    using that assms(1) by (auto elim!: successively_mono)
  show ?thesis
  proof (cases "thin tol w us \<noteq> [] \<and> last ks \<noteq> last ws")
    case True
    then have eq: "thinned tol ws = butlast ks @ [last ws]"
      by (simp add: Cons thinned_Cons Let_def ks_def del: last.simps butlast.simps)
    have nb: "butlast ks \<noteq> []" using True by (simp add: ks_def)
    have split: "ks = butlast ks @ [last ks]" by (simp add: ks_def)
    have "tol < norm_linf (vsub (last ks) (last (butlast ks)))"
      using ks nb by (metis split successively_snoc)
    moreover have "norm_linf (vsub (last ws) (last ks)) \<le> tol"
      using thin_last_close [OF assms(1), of w us] by (simp add: Cons ks_def)
    moreover have "set ks \<subseteq> set ws" using set_thin [of tol w us] by (auto simp: ks_def Cons)
    then have "length (last ks) = length (last ws)"
      using len Cons by (metis last_in_set list.discI ks_def subsetD)
    ultimately have "last (butlast ks) \<noteq> last ws"
      using norm_linf_vsub_commute by force
    with eq ne [OF successively_butlast [OF ks]] show ?thesis
      by (simp add: successively_snoc)
  next
    case False
    then have "thinned tol ws = ks" by (auto simp: Cons thinned_Cons Let_def ks_def)
    with ne [OF ks] show ?thesis by simp
  qed
qed (simp add: thinned_def)

lemma covered_thinned:
  assumes "0 \<le> tol" and len: "\<forall>w \<in> set ws. length w = n" and w: "w \<in> set ws"
  shows "\<exists>k \<in> set (thinned tol ws). norm_linf (vsub w k) \<le> 2 * tol"
proof -
  obtain f us where ws: "ws = f # us" using w by (cases ws) auto
  define ks where "ks = f # thin tol f us"
  have "\<exists>k \<in> set ks. norm_linf (vsub w k) \<le> tol"
    using thin_covers [OF assms(1), of w us f] w assms(1) by (auto simp: ks_def ws)
  then obtain k where k: "k \<in> set ks" "norm_linf (vsub w k) \<le> tol" by blast
  have sub: "set ks \<subseteq> set ws" using set_thin [of tol f us] by (auto simp: ks_def ws)
  show ?thesis
  proof (cases "k \<in> set (thinned tol ws)")
    case True
    with k(2) assms(1) show ?thesis by (intro bexI [of _ k]) auto
  next
    case False
    then have nt: "thinned tol ws = butlast ks @ [last ws]"
      using k(1) by (auto simp: ws thinned_Cons Let_def ks_def split: if_splits)
    have "ks = butlast ks @ [last ks]" by (simp add: ks_def)
    with k(1) have "k \<in> set (butlast ks @ [last ks])" by metis
    with False nt have "k = last ks" by auto
    have "norm_linf (vsub (last ks) (last ws)) \<le> tol"
      using thin_last_close [OF assms(1), of f us] len sub w ws ks_def
      by (metis last_in_set list.discI norm_linf_vsub_commute subsetD)
    moreover have "length w = n" "length k = n" "length (last ws) = n"
      using len sub k(1) w ws by auto
    ultimately have "norm_linf (vsub w (last ws)) \<le> 2 * tol"
      using norm_linf_triangle [of w n k "last ws"] k(2) \<open>k = last ks\<close> by simp
    then show ?thesis using nt by auto
  qed
qed

text \<open>
  C32: Deduplicating a well-formed waypoint set never throws and keeps a subsequence of it with the
  first waypoint and, unless everything collapsed to one point, the exact destination; neighbours
  are always distinct, all of them except possibly the final pair are more than the tolerance
  apart, and every waypoint of the input is within twice the tolerance of one that was kept.
\<close>

theorem deduplicate_waypoints_spec:
  assumes "wa_inv a" "wa_points a \<noteq> []" "0 \<le> tol"
  shows "\<exists>r. deduplicate_waypoints a tol = Inr r \<and> wa_inv r \<and> wa_points r \<noteq> [] \<and>
    subseq (wa_points r) (wa_points a) \<and>
    hd (wa_points r) = hd (wa_points a) \<and>
    (1 < wa_size r \<longrightarrow> last (wa_points r) = last (wa_points a)) \<and>
    successively (\<noteq>) (wa_points r) \<and>
    successively (\<lambda>x y. tol < norm_linf (vsub y x)) (butlast (wa_points r)) \<and>
    (\<forall>w \<in> set (wa_points a). \<exists>k \<in> set (wa_points r). norm_linf (vsub w k) \<le> 2 * tol)"
proof -
  have len: "\<forall>w \<in> set (wa_points a). length w = wa_dof a" using assms(1) by (simp add: wa_inv_def)
  let ?r = "a\<lparr>wa_points := thinned tol (wa_points a)\<rparr>"
  have "wa_inv ?r"
    using len subseq_thinned [of tol "wa_points a"] by (auto simp: wa_inv_def dest: list_emb_set)
  then show ?thesis
    using deduplicate_thinned [OF assms(1)] assms(2) hd_thinned [OF assms(2)]
      distinct_thinned [OF assms(3) len] covered_thinned [OF assms(3) len]
    by (intro exI [of _ ?r]) (simp add: last_thinned subseq_thinned separated_thinned wa_size_def)
qed

theorem deduplicate_waypoints_spec_witness:
  "deduplicate_waypoints \<lparr>wa_dof = 1, wa_points = [[0], [1/2], [2], [3/2]]\<rparr> 1 =
     Inr \<lparr>wa_dof = 1, wa_points = [[0], [3/2]]\<rparr> \<and>
   (\<exists>r. deduplicate_waypoints \<lparr>wa_dof = 1, wa_points = [[0], [1/2], [2], [3/2]]\<rparr> 1 = Inr r \<and>
        successively (\<noteq>) (wa_points r))"
proof
  show "deduplicate_waypoints \<lparr>wa_dof = 1, wa_points = [[0], [1/2], [2], [3/2]]\<rparr> 1 =
     Inr \<lparr>wa_dof = 1, wa_points = [[0], [3/2]]\<rparr>"
    by (subst deduplicate_thinned)
      (simp_all add: wa_inv_def thinned_def norm_linf_def vsub_def)
  show "\<exists>r. deduplicate_waypoints \<lparr>wa_dof = 1, wa_points = [[0], [1/2], [2], [3/2]]\<rparr> 1 = Inr r \<and>
        successively (\<noteq>) (wa_points r)"
    using deduplicate_waypoints_spec [of "\<lparr>wa_dof = 1, wa_points = [[0], [1/2], [2], [3/2]]\<rparr>" 1]
    by (auto simp: wa_inv_def)
qed

section \<open>Segmentation at reversals\<close>

text \<open>
  A waypoint is a cusp when the directions before and after it are opposite, up to \<open>threshold\<close> in
  their cosine. A repeated waypoint has no direction: the code divides by a zero norm, gets \<open>NaN\<close>
  coordinates, and \<open>std::abs(NaN + 1.0) < threshold\<close> is false.
\<close>

definition is_cusp :: "real \<Rightarrow> xvector \<Rightarrow> xvector \<Rightarrow> xvector \<Rightarrow> bool" where
  "is_cusp threshold a b c =
     (let ab = vsub b a; bc = vsub c b
      in norm_l2 ab \<noteq> 0 \<and> norm_l2 bc \<noteq> 0 \<and>
         \<bar>dot (vdiv ab (norm_l2 ab)) (vdiv bc (norm_l2 bc)) + 1\<bar> < threshold)"

fun reversal_scan ::
  "real \<Rightarrow> waypoint_accumulator list \<Rightarrow> waypoint_accumulator \<Rightarrow> xvector \<Rightarrow> xvector list \<Rightarrow>
     (waypoint_accumulator list \<times> waypoint_accumulator) res" where
  "reversal_scan threshold segments current prev (w # nxt # rest) =
     bind_res (wa_add_waypoint current w) (\<lambda>current'.
       if is_cusp threshold prev w nxt
       then reversal_scan threshold (segments @ [current']) (wa_of_waypoint w) w (nxt # rest)
       else reversal_scan threshold segments current' w (nxt # rest))"
| "reversal_scan threshold segments current prev ws = Inr (segments, current)"

definition segment_at_reversals ::
  "waypoint_accumulator \<Rightarrow> real \<Rightarrow> waypoint_accumulator list res" where
  "segment_at_reversals a threshold =
     (if wa_size a < 3 then Inr [a]
      else
        bind_res (wa_at a 0) (\<lambda>w0.
        bind_res (reversal_scan threshold [] (wa_of_waypoint w0) w0 (tl (wa_points a)))
          (\<lambda>(segments, current).
        bind_res (wa_back a) (\<lambda>z.
        bind_res (wa_add_waypoint current z) (\<lambda>current'. Inr (segments @ [current']))))))"

text \<open>The segmentation on plain lists, and its specification.\<close>

fun cuts :: "real \<Rightarrow> xvector \<Rightarrow> xvector list \<Rightarrow> xvector list \<Rightarrow> xvector list list" where
  "cuts threshold prev acc (w # nxt # rest) =
     (if is_cusp threshold prev w nxt
      then (acc @ [w]) # cuts threshold w [w] (nxt # rest)
      else cuts threshold w (acc @ [w]) (nxt # rest))"
| "cuts threshold prev acc ws = [acc @ ws]"

text \<open>The number of interior cusps, and the list a segmentation with shared cusps came from.\<close>

fun cusp_count :: "real \<Rightarrow> xvector list \<Rightarrow> nat" where
  "cusp_count threshold (a # b # c # r) =
     (if is_cusp threshold a b c then 1 else 0) + cusp_count threshold (b # c # r)"
| "cusp_count threshold ws = 0"

fun stitch :: "'a list list \<Rightarrow> 'a list" where
  "stitch [] = []"
| "stitch (s # ss) = s @ concat (map tl ss)"

lemma reversal_scan_cuts:
  assumes "wa_dof current = n" "\<forall>w \<in> set ws. length w = n" "ws \<noteq> []"
  shows "\<exists>pre c. reversal_scan threshold segments current prev ws =
      Inr (segments @ map (\<lambda>p. \<lparr>wa_dof = n, wa_points = p\<rparr>) pre, c) \<and> wa_dof c = n \<and>
      cuts threshold prev (wa_points current) ws = pre @ [wa_points c @ [last ws]]"
  using assms
proof (induction threshold segments current prev ws rule: reversal_scan.induct)
  case (1 threshold segments current prev w nxt rest)
  let ?cur = "\<lparr>wa_dof = n, wa_points = wa_points current @ [w]\<rparr>"
  have add: "wa_add_waypoint current w = Inr ?cur"
    using 1(3,4) by (cases current) (simp add: wa_add_waypoint_def)
  show ?case
  proof (cases "is_cusp threshold prev w nxt")
    case True
    obtain pre c where "reversal_scan threshold (segments @ [?cur]) (wa_of_waypoint w) w (nxt # rest) =
        Inr ((segments @ [?cur]) @ map (\<lambda>p. \<lparr>wa_dof = n, wa_points = p\<rparr>) pre, c)" "wa_dof c = n"
      "cuts threshold w [w] (nxt # rest) = pre @ [wa_points c @ [last (nxt # rest)]]"
      using 1(1) [OF add True] 1(4) by (auto simp: wa_of_waypoint_def)
    with True add show ?thesis
      by (intro exI [of _ "wa_points ?cur # pre"] exI [of _ c]) simp
  next
    case False
    obtain pre c where "reversal_scan threshold segments ?cur w (nxt # rest) =
        Inr (segments @ map (\<lambda>p. \<lparr>wa_dof = n, wa_points = p\<rparr>) pre, c)" "wa_dof c = n"
      "cuts threshold w (wa_points ?cur) (nxt # rest) = pre @ [wa_points c @ [last (nxt # rest)]]"
      using 1(2) [OF add False] 1(4) by auto
    with False add show ?thesis
      by (intro exI [of _ pre] exI [of _ c]) simp
  qed
qed auto

lemma stitch_cuts: "ws \<noteq> [] \<Longrightarrow> acc \<noteq> [] \<Longrightarrow>
  stitch (cuts threshold prev acc ws) = acc @ ws \<and>
  (\<exists>s ss. cuts threshold prev acc ws = s # ss \<and> s \<noteq> [] \<and> hd s = hd acc)"
proof (induction threshold prev acc ws rule: cuts.induct)
  case (1 threshold prev acc w nxt rest)
  show ?case
  proof (cases "is_cusp threshold prev w nxt")
    case True
    with 1(1) obtain s ss where
      "cuts threshold w [w] (nxt # rest) = s # ss" "hd s = w" "s \<noteq> []"
      "stitch (s # ss) = w # nxt # rest"
      by auto
    then show ?thesis using True 1(4) by (cases s) auto
  next
    case False
    with 1 show ?thesis by (auto simp: hd_append)
  qed
qed auto

lemma set_cuts: "s \<in> set (cuts threshold prev acc ws) \<Longrightarrow> set s \<subseteq> set acc \<union> set ws"
proof (induction threshold prev acc ws rule: cuts.induct)
  case (1 threshold prev acc w nxt rest)
  then show ?case by (cases "is_cusp threshold prev w nxt") auto
qed auto

lemma joined_cuts: "ws \<noteq> [] \<Longrightarrow> acc \<noteq> [] \<Longrightarrow>
  successively (\<lambda>s t. last s = hd t) (cuts threshold prev acc ws) \<and>
  (\<forall>s \<in> set (cuts threshold prev acc ws). 2 \<le> length s)"
proof (induction threshold prev acc ws rule: cuts.induct)
  case (1 threshold prev acc w nxt rest)
  show ?case
  proof (cases "is_cusp threshold prev w nxt")
    case True
    obtain s ss where "cuts threshold w [w] (nxt # rest) = s # ss" "hd s = w"
      using stitch_cuts [of "nxt # rest" "[w]" threshold w] by auto
    with 1(1) [OF True] 1(4) True show ?thesis by (cases acc) auto
  next
    case False
    with 1 show ?thesis by auto
  qed
qed (auto simp: Suc_le_eq length_greater_0_conv [symmetric] simp del: length_greater_0_conv)

lemma cusp_count_snoc:
  "cusp_count threshold (xs @ [p, w, n]) =
     cusp_count threshold (xs @ [p, w]) + (if is_cusp threshold p w n then 1 else 0)"
proof (induction xs)
  case (Cons x xs)
  then show ?case by (cases xs rule: list.exhaust; cases "tl xs") auto
qed simp

lemma smooth_cuts:
  assumes "ws \<noteq> []" "acc \<noteq> []" "prev = last acc" "cusp_count threshold (acc @ [hd ws]) = 0"
  shows "\<forall>s \<in> set (cuts threshold prev acc ws). cusp_count threshold s = 0"
  using assms
proof (induction threshold prev acc ws rule: cuts.induct)
  case (1 threshold prev acc w nxt rest)
  show ?case
  proof (cases "is_cusp threshold prev w nxt")
    case True
    with 1 show ?thesis by simp
  next
    case False
    have "acc = butlast acc @ [prev]" using 1(4,5) by simp
    then have "cusp_count threshold (acc @ [w] @ [nxt]) = 0"
      using 1(6) False cusp_count_snoc [of threshold "butlast acc" prev w nxt]
      by (metis append.assoc append_Cons append_Nil list.sel(1) add.right_neutral)
    with 1(2) [OF False] False show ?thesis by simp
  qed
qed auto

lemma length_cuts: "length (cuts threshold prev acc ws) = Suc (cusp_count threshold (prev # ws))"
  by (induction threshold prev acc ws rule: cuts.induct) auto

lemma segment_at_reversals_cuts:
  assumes "3 \<le> wa_size a" "wa_points a = w # ws" "ws \<noteq> []"
    and len: "length w = wa_dof a" "\<forall>v \<in> set ws. length v = wa_dof a"
  shows "segment_at_reversals a threshold =
    Inr (map (\<lambda>p. \<lparr>wa_dof = wa_dof a, wa_points = p\<rparr>) (cuts threshold w [w] ws))"
proof -
  let ?mk = "\<lambda>p. \<lparr>wa_dof = wa_dof a, wa_points = p\<rparr>"
  obtain pre c where
    "reversal_scan threshold [] (wa_of_waypoint w) w ws = Inr (map ?mk pre, c)" "wa_dof c = wa_dof a"
    "cuts threshold w [w] ws = pre @ [wa_points c @ [last ws]]"
    using reversal_scan_cuts [of "wa_of_waypoint w" "wa_dof a" ws threshold "[]" w] assms
    by (auto simp: wa_of_waypoint_def)
  then show ?thesis
    using assms
    by (cases c) (simp add: segment_at_reversals_def wa_at_def wa_back_def wa_add_waypoint_def wa_size_def)
qed

lemma segment_at_reversals_lemma:
  assumes "wa_inv a" "2 \<le> wa_size a"
  shows "\<exists>segs. segment_at_reversals a threshold = Inr segs \<and>
    stitch (map wa_points segs) = wa_points a \<and>
    successively (\<lambda>s t. last s = hd t) (map wa_points segs) \<and>
    (\<forall>s \<in> set segs. wa_inv s \<and> wa_dof s = wa_dof a \<and> 2 \<le> wa_size s \<and>
       cusp_count threshold (wa_points s) = 0) \<and>
    length segs = Suc (cusp_count threshold (wa_points a))"
proof (cases "wa_size a < 3")
  case True
  then obtain x y where "wa_points a = [x, y]"
    using assms(2) by (auto simp: wa_size_def numeral_eq_Suc less_Suc_eq_le Suc_le_length_iff
        le_Suc_eq length_Suc_conv)
  with True assms show ?thesis by (simp add: segment_at_reversals_def)
next
  case False
  then obtain w ws where ws: "wa_points a = w # ws" "ws \<noteq> []"
    by (cases "wa_points a"; cases "tl (wa_points a)") (auto simp: wa_size_def)
  let ?n = "wa_dof a" and ?C = "cuts threshold w [w] ws"
  let ?mk = "\<lambda>p. \<lparr>wa_dof = ?n, wa_points = p\<rparr>"
  have len: "length w = ?n" "\<forall>v \<in> set ws. length v = ?n"
    using assms(1) ws by (auto simp: wa_inv_def)
  have segs: "segment_at_reversals a threshold = Inr (map ?mk ?C)"
    by (rule segment_at_reversals_cuts [OF _ ws len]) (use False in simp)
  have pts: "map wa_points (map ?mk ?C) = ?C" by (simp add: comp_def)
  have each: "wa_inv (?mk s) \<and> 2 \<le> wa_size (?mk s) \<and> cusp_count threshold s = 0"
    if "s \<in> set ?C" for s
    using that set_cuts [of s threshold w "[w]" ws] joined_cuts [of ws "[w]" threshold w]
      smooth_cuts [of ws "[w]" w threshold] ws len
    by (auto simp: wa_inv_def wa_size_def)
  show ?thesis
    using stitch_cuts [of ws "[w]" threshold w] joined_cuts [of ws "[w]" threshold w] ws segs pts each
      length_cuts [of threshold w "[w]" ws]
    by (auto simp del: map_map)
qed

text \<open>
  C33: Segmenting a well-formed waypoint set at reversals never throws. The segments overlap in
  exactly the cusps: each one ends with the waypoint the next one starts with, and gluing them
  there gives back the input. No segment has a cusp in its interior, none is shorter than two
  waypoints, and there is one segment more than the input has cusps.
\<close>

theorem segment_at_reversals_spec:
  assumes "wa_inv a" "2 \<le> wa_size a"
  shows "\<exists>segs. segment_at_reversals a threshold = Inr segs \<and>
    stitch (map wa_points segs) = wa_points a \<and>
    successively (\<lambda>s t. last s = hd t) (map wa_points segs) \<and>
    (\<forall>s \<in> set segs. wa_inv s \<and> wa_dof s = wa_dof a \<and> 2 \<le> wa_size s \<and>
       cusp_count threshold (wa_points s) = 0) \<and>
    length segs = Suc (cusp_count threshold (wa_points a))"
  by (rule segment_at_reversals_lemma [OF assms])

theorem segment_at_reversals_spec_witness:
  "\<exists>segs. segment_at_reversals \<lparr>wa_dof = 1, wa_points = [[0], [2], [1], [3]]\<rparr> (1/2) = Inr segs \<and>
     length segs = 3"
proof -
  have "norm_l2 [a] = \<bar>a\<bar>" for a by (simp add: norm_l2_def)
  then have "cusp_count (1/2) [[0], [2], [1], [3]] = 2" by (simp add: is_cusp_def vsub_def vdiv_def)
  then show ?thesis
    using segment_at_reversals_spec [of "\<lparr>wa_dof = 1, wa_points = [[0], [2], [1], [3]]\<rparr>" "1/2"]
    by (auto simp: wa_inv_def wa_size_def)
qed

end
