(* ===== verification/Path_Create.thy ===== *)
theory Path_Create
  imports Path_Geometry Waypoints
begin

text \<open>
  Construction of a path from waypoints (\<open>path::create\<close> in \<open>path.cpp\<close>): the options, the circular
  blend at a corner, the pass that coalesces nearly collinear waypoints, and the loop that emits
  the segments, followed by what the construction guarantees.
\<close>

section \<open>Options\<close>

record path_options =
  opt_max_blend_deviation :: dbl
  opt_max_linear_deviation :: dbl
  opt_min_blend_curvature :: dbl
  opt_max_blend_curvature :: dbl

definition default_path_options :: path_options where
  "default_path_options =
     \<lparr>opt_max_blend_deviation = 0, opt_max_linear_deviation = 0,
      opt_min_blend_curvature = Fin (1 / 10 ^ 5), opt_max_blend_curvature = Fin (10 ^ 5)\<rparr>"

definition set_max_blend_deviation :: "dbl \<Rightarrow> path_options \<Rightarrow> path_options" where
  "set_max_blend_deviation deviation opts = opts\<lparr>opt_max_blend_deviation := deviation\<rparr>"

definition set_max_linear_deviation :: "dbl \<Rightarrow> path_options \<Rightarrow> path_options" where
  "set_max_linear_deviation deviation opts = opts\<lparr>opt_max_linear_deviation := deviation\<rparr>"

definition set_max_deviation :: "dbl \<Rightarrow> path_options \<Rightarrow> path_options" where
  "set_max_deviation deviation opts =
     set_max_linear_deviation deviation (set_max_blend_deviation deviation opts)"

definition set_max_blend_curvature :: "dbl \<Rightarrow> path_options \<Rightarrow> path_options" where
  "set_max_blend_curvature curvature opts = opts\<lparr>opt_max_blend_curvature := curvature\<rparr>"

definition set_min_blend_curvature :: "dbl \<Rightarrow> path_options \<Rightarrow> path_options" where
  "set_min_blend_curvature curvature opts = opts\<lparr>opt_min_blend_curvature := curvature\<rparr>"

section \<open>A blend at a corner\<close>

record blend_geometry =
  blend_circular_seg :: circular
  blend_trim_distance :: real
  blend_takes_half_incoming :: bool
  blend_takes_half_outgoing :: bool

definition natural_trim :: "real \<Rightarrow> real \<Rightarrow> real \<Rightarrow> real" where
  "natural_trim max_deviation max_trim_from_segments tan_quarter =
     (if max_trim_from_segments * tan_quarter \<le> max_deviation then max_trim_from_segments
      else max_deviation / tan_quarter)"

text \<open>The arc of radius \<open>radius\<close> at \<open>corner\<close> between two unit directions (equations 5 and 6).\<close>

definition blend_arc ::
  "xvector \<Rightarrow> xvector \<Rightarrow> xvector \<Rightarrow> real \<Rightarrow> real \<Rightarrow> real \<Rightarrow> circular res" where
  "blend_arc corner incoming_unit outgoing_unit trim_distance radius angle =
     (let half_angle = angle / 2;
          bisector = vsub outgoing_unit incoming_unit;
          bisector_unit = vdiv bisector (norm_l2 bisector);
          center_offset = radius / cos half_angle;
          center = vadd corner (vscale center_offset bisector_unit);
          y_unit = incoming_unit;
          blend_start = vsub corner (vscale trim_distance incoming_unit);
          x_vec_raw = vsub blend_start center;
          x_vec = vsub x_vec_raw (vscale (dot x_vec_raw y_unit) y_unit);
          x_unit = vdiv x_vec (norm_l2 x_vec)
      in make_circular center x_unit y_unit radius angle)"

definition try_create_blend ::
  "path_options \<Rightarrow> xvector \<Rightarrow> xvector \<Rightarrow> xvector \<Rightarrow> blend_geometry option res" where
  "try_create_blend opts current_pos corner next_waypoint =
     (let max_deviation = fin (opt_max_blend_deviation opts);
          incoming = vsub corner current_pos;
          outgoing = vsub next_waypoint corner;
          incoming_norm = norm_l2 incoming;
          outgoing_norm = norm_l2 outgoing
      in if max_deviation \<le> 0 then Inr None
         else if incoming_norm \<le> 0 \<or> outgoing_norm \<le> 0 then Inr None
         else
           let incoming_unit = vdiv incoming incoming_norm;
               outgoing_unit = vdiv outgoing outgoing_norm;
               dot_clamped = max (- 1) (min 1 (dot incoming_unit outgoing_unit))
           in if incoming_unit = outgoing_unit then Inr None
              else if dot_clamped = 1 then Inr None
              else if dot_clamped = - 1 then Inr None
              else
                let angle = arccos dot_clamped;
                    half_angle = angle / 2;
                    tan_half = tan half_angle;
                    tan_quarter = tan (half_angle / 2);
                    trim = natural_trim max_deviation (min (incoming_norm / 2) (outgoing_norm / 2)) tan_quarter
                in if fin (opt_max_blend_curvature opts) * trim < tan_half then Inr None
                   else
                     let trim_distance = min trim (tan_half / fin (opt_min_blend_curvature opts));
                         radius = trim_distance / tan_half
                     in bind_res (blend_arc corner incoming_unit outgoing_unit trim_distance radius angle)
                          (\<lambda>c. Inr (Some
                            \<lparr>blend_circular_seg = c, blend_trim_distance = trim_distance,
                             blend_takes_half_incoming = (trim_distance = incoming_norm / 2),
                             blend_takes_half_outgoing = (trim_distance = outgoing_norm / 2)\<rparr>)))"

section \<open>Coalescing\<close>

text \<open>
  The context of the segment from \<open>start\<close> to \<open>next\<close>: its vector and its squared length; none when
  the two are the same position.
\<close>

definition begin_segment :: "xvector \<Rightarrow> xvector \<Rightarrow> (xvector \<times> real) option" where
  "begin_segment start next =
     (let start_to_next = vsub next start
      in if list_all (\<lambda>c. c = 0) start_to_next then None
         else Some (start_to_next, dot start_to_next start_to_next))"

definition locus_within_tolerance :: "real \<Rightarrow> xvector \<times> real \<Rightarrow> xvector \<Rightarrow> xvector \<Rightarrow> bool" where
  "locus_within_tolerance radius ctx start locus =
     (case ctx of (start_to_next, length_sq) \<Rightarrow>
       let start_to_locus_dot_direction = dot (vsub locus start) start_to_next
       in if start_to_locus_dot_direction < 0 \<or> length_sq < start_to_locus_dot_direction then False
          else
            let t = start_to_locus_dot_direction / length_sq;
                projected_point = vadd start (vscale t start_to_next)
            in norm_l2 (vsub locus projected_point) \<le> radius)"

text \<open>
  The inner loop: from the waypoints after \<open>base\<close>, those from the candidate at which it stops.
  The waypoints it has passed over are in \<open>skipped\<close>.
\<close>

fun coalesce_scan :: "real \<Rightarrow> xvector \<Rightarrow> xvector list \<Rightarrow> xvector list \<Rightarrow> xvector list" where
  "coalesce_scan radius base skipped (candidate # target # rest) =
     (case begin_segment base target of
        None \<Rightarrow> candidate # target # rest
      | Some ctx \<Rightarrow>
          if \<not> locus_within_tolerance radius ctx base candidate then candidate # target # rest
          else if \<not> list_all (locus_within_tolerance radius ctx base) skipped
          then candidate # target # rest
          else coalesce_scan radius base (skipped @ [candidate]) (target # rest))"
| "coalesce_scan radius base skipped ws = ws"

lemma length_coalesce_scan: "length (coalesce_scan radius base skipped ws) \<le> length ws"
  by (induction radius base skipped ws rule: coalesce_scan.induct) (auto split: option.splits)

function coalesce_from ::
  "real \<Rightarrow> waypoint_accumulator option \<Rightarrow> xvector list \<Rightarrow> waypoint_accumulator option res" where
  "coalesce_from radius colinearized [] = Inr colinearized"
| "coalesce_from radius colinearized (base # rest) =
     bind_res (case colinearized of None \<Rightarrow> Inr (wa_of_waypoint base) | Some a \<Rightarrow> wa_add_waypoint a base)
       (\<lambda>a. coalesce_from radius (Some a) (coalesce_scan radius base [] rest))"
  by pat_completeness auto
termination
  by (relation "measure (\<lambda>(radius, a, ws). length ws)") (auto intro: le_imp_less_Suc length_coalesce_scan)

text \<open>The waypoints the segments are built from.\<close>

definition colinearize :: "path_options \<Rightarrow> waypoint_accumulator \<Rightarrow> xvector list res" where
  "colinearize opts waypoints =
     (if \<not> feq (opt_max_linear_deviation opts) 0
      then bind_res (coalesce_from (fin (opt_max_linear_deviation opts) / 2) None (wa_points waypoints))
             (\<lambda>a. Inr (case a of None \<Rightarrow> [] | Some b \<Rightarrow> wa_points b))
      else Inr (wa_points waypoints))"

section \<open>Emitting the segments\<close>

record positioned_segment =
  ps_seg :: segment
  ps_start :: arc_length

record path =
  path_segments :: "positioned_segment list"
  path_dof :: nat
  path_length :: arc_length

text \<open>The variables of the construction loop.\<close>

record build_state =
  bs_segments :: "positioned_segment list"
  bs_cumulative_length :: arc_length
  bs_segment_start :: xvector
  bs_current_position :: xvector
  bs_previous_half :: bool

definition push_segment :: "segment \<Rightarrow> arc_length \<Rightarrow> build_state \<Rightarrow> build_state" where
  "push_segment g len st =
     st\<lparr>bs_segments := bs_segments st @ [\<lparr>ps_seg = g, ps_start = bs_cumulative_length st\<rparr>],
        bs_cumulative_length := bs_cumulative_length st + len\<rparr>"

text \<open>Whether a position strictly between two path positions is representable.\<close>

definition has_room :: "dbl \<Rightarrow> dbl \<Rightarrow> bool" where
  "has_room span_start span_end \<longleftrightarrow> span_start < span_end \<and>
     nextafter span_start span_end \<le> nextafter span_end span_start"

definition emit_blend :: "build_state \<Rightarrow> xvector \<Rightarrow> xvector \<Rightarrow> blend_geometry \<Rightarrow> build_state res" where
  "emit_blend st locus next blend =
     (let incoming = vsub locus (bs_current_position st);
          dist_to_locus = norm_l2 incoming;
          incoming_unit = vdiv incoming dist_to_locus;
          segment_fully_consumed = (bs_previous_half st \<and> blend_takes_half_incoming blend);
          incoming_length = dist_to_locus - blend_trim_distance blend;
          span_start = bs_cumulative_length st;
          span_end = span_start + Fin incoming_length;
          arc = blend_circular_seg blend
      in bind_res
           (if \<not> segment_fully_consumed \<and> has_room span_start span_end
            then bind_res (linear_along (bs_current_position st) incoming_unit (Fin incoming_length))
                   (\<lambda>l. Inr (push_segment (Linear l) (Fin incoming_length) st))
            else Inr st)
           (\<lambda>st1.
             let st2 = push_segment (Circular arc) (Fin (circ_radius arc * circ_angle_rads arc)) st1;
                 outgoing = vsub next locus;
                 outgoing_unit = vdiv outgoing (norm_l2 outgoing)
             in Inr (st2\<lparr>bs_current_position := vadd locus (vscale (blend_trim_distance blend) outgoing_unit),
                         bs_segment_start := locus,
                         bs_previous_half := blend_takes_half_outgoing blend\<rparr>)))"

definition emit_linear :: "build_state \<Rightarrow> xvector \<Rightarrow> build_state res" where
  "emit_linear st locus =
     bind_res (linear_between (bs_current_position st) locus) (\<lambda>l.
       Inr ((push_segment (Linear l) (lin_length l) st)
              \<lparr>bs_current_position := locus, bs_segment_start := locus, bs_previous_half := False\<rparr>))"

definition build_step :: "path_options \<Rightarrow> build_state \<Rightarrow> xvector \<Rightarrow> xvector list \<Rightarrow> build_state res" where
  "build_step opts st locus rest =
     bind_res (case rest of [] \<Rightarrow> Inr None | next # _ \<Rightarrow> try_create_blend opts (bs_segment_start st) locus next)
       (\<lambda>blend_opt. case blend_opt of
          Some blend \<Rightarrow> emit_blend st locus (hd rest) blend
        | None \<Rightarrow> emit_linear st locus)"

fun build_segments :: "path_options \<Rightarrow> build_state \<Rightarrow> xvector list \<Rightarrow> build_state res" where
  "build_segments opts st [] = Inr st"
| "build_segments opts st (locus # rest) =
     bind_res (build_step opts st locus rest) (\<lambda>st'. build_segments opts st' rest)"

definition start_build :: "xvector \<Rightarrow> build_state" where
  "start_build first = \<lparr>bs_segments = [], bs_cumulative_length = 0, bs_segment_start = first,
     bs_current_position = first, bs_previous_half = False\<rparr>"

definition path_create :: "waypoint_accumulator \<Rightarrow> path_options \<Rightarrow> path res" where
  "path_create waypoints opts =
     (if wa_size waypoints < 2
      then Inl (Invalid_argument ''Path requires at least 2 waypoints'')
      else if \<not> isfinite (opt_max_blend_deviation opts) \<or> opt_max_blend_deviation opts < 0
      then Inl (Invalid_argument ''Max blend deviation must be finite and non-negative'')
      else if \<not> isfinite (opt_max_linear_deviation opts) \<or> opt_max_linear_deviation opts < 0
      then Inl (Invalid_argument ''Max linear deviation must be finite and non-negative'')
      else if \<not> isfinite (opt_min_blend_curvature opts) \<or> opt_min_blend_curvature opts \<le> 0
      then Inl (Invalid_argument ''Min blend curvature must be finite and positive'')
      else if \<not> isfinite (opt_max_blend_curvature opts) \<or> opt_max_blend_curvature opts < 0
      then Inl (Invalid_argument ''Max blend curvature must be finite and non-negative'')
      else if opt_max_blend_curvature opts < opt_min_blend_curvature opts
      then Inl (Invalid_argument ''Max blend curvature must be >= min blend curvature'')
      else
        bind_res (colinearize opts waypoints) (\<lambda>ws.
        bind_res (build_segments opts (start_build (hd ws)) (tl ws)) (\<lambda>st.
          if bs_segments st = []
          then Inl (Invalid_argument ''Path requires at least one non-zero length segment'')
          else Inr \<lparr>path_segments = bs_segments st, path_dof = wa_dof waypoints,
                    path_length = bs_cumulative_length st\<rparr>)))"

section \<open>The geometry of a blend\<close>

text \<open>Two unit vectors at an angle strictly between 0 and \<open>\<pi>\<close>.\<close>

definition corner_dirs :: "nat \<Rightarrow> xvector \<Rightarrow> xvector \<Rightarrow> real \<Rightarrow> bool" where
  "corner_dirs n u w angle \<longleftrightarrow> length u = n \<and> length w = n \<and> dot u u = 1 \<and> dot w w = 1 \<and>
     dot u w = cos angle \<and> 0 < angle \<and> angle < pi"

lemma half_angle_facts:
  assumes "0 < angle" "angle < pi"
  shows "0 < sin (angle / 2)" "0 < cos (angle / 2)" "0 < tan (angle / 2)"
    "cos angle = 1 - 2 * (sin (angle / 2))\<^sup>2" "sin angle = 2 * sin (angle / 2) * cos (angle / 2)"
    "(cos (angle / 2))\<^sup>2 = 1 - (sin (angle / 2))\<^sup>2"
proof -
  show "0 < sin (angle / 2)" "0 < cos (angle / 2)" "0 < tan (angle / 2)"
    using assms by (auto intro!: sin_gt_zero cos_gt_zero tan_gt_zero)
  show "cos angle = 1 - 2 * (sin (angle / 2))\<^sup>2" "sin angle = 2 * sin (angle / 2) * cos (angle / 2)"
    using cos_double_sin [of "angle / 2"] sin_double [of "angle / 2"] by simp_all
  show "(cos (angle / 2))\<^sup>2 = 1 - (sin (angle / 2))\<^sup>2"
    by (rule cos_squared_eq)
qed

lemma cos_less_one_half_angle: "0 < angle \<Longrightarrow> angle < pi \<Longrightarrow> cos (angle / 2) < 1"
  using cos_monotone_0_pi [of 0 "angle / 2"] by simp

text \<open>The half-angle identity behind the well-conditioned trim formula.\<close>

lemma tan_quarter:
  assumes "0 < angle" "angle < pi"
  shows "tan (angle / 4) = (1 - cos (angle / 2)) / sin (angle / 2)"
proof -
  have "tan (angle / 4) = sin (angle / 2) / (cos (angle / 2) + 1)"
    using tan_half [of "angle / 4"] by simp
  also have "\<dots> = (1 - cos (angle / 2)) / sin (angle / 2)"
    using half_angle_facts [OF assms] by (simp add: field_simps power2_eq_square)
  finally show ?thesis .
qed

lemma bisector_norm:
  assumes "corner_dirs n u w angle"
  shows "norm_l2 (vsub w u) = 2 * sin (angle / 2)"
proof -
  note f = half_angle_facts [of angle]
  have "dot (vsub w u) (vsub w u) = (2 * sin (angle / 2))\<^sup>2"
    using assms f(4)
    by (simp add: corner_dirs_def vec_simps dot_commute [of w u] power2_eq_square algebra_simps)
  then show ?thesis
    using assms f(1) by (simp only: norm_l2_def corner_dirs_def real_sqrt_abs) simp
qed

text \<open>
  The first basis vector of the arc in terms of the two directions. The Gram-Schmidt step of the
  code changes nothing in exact arithmetic: the vector is already perpendicular to the incoming
  direction.
\<close>

definition arc_x :: "xvector \<Rightarrow> xvector \<Rightarrow> real \<Rightarrow> xvector" where
  "arc_x u w angle =
     map (\<lambda>i. - tan (angle / 2) * u ! i - 1 / (2 * sin (angle / 2) * cos (angle / 2)) * (w ! i - u ! i))
       [0..<length u]"

lemma arc_x_eq:
  assumes "corner_dirs n u w angle"
  shows "arc_x u w angle = vsub (vscale (- tan (angle / 2)) u)
    (vscale (1 / (2 * sin (angle / 2) * cos (angle / 2))) (vsub w u))"
  by (rule nth_equalityI) (use assms in \<open>simp_all add: arc_x_def corner_dirs_def\<close>)

lemma length_arc_x [simp]: "length (arc_x u w angle) = length u"
  by (simp add: arc_x_def)

lemma arc_x_frame:
  assumes "corner_dirs n u w angle"
  shows "dot (arc_x u w angle) u = 0" "dot (arc_x u w angle) (arc_x u w angle) = 1"
proof -
  have an: "0 < angle" "angle < pi" and d: "length u = n" "length w = n" "dot u u = 1" "dot w w = 1"
      "dot u w = cos angle" "dot w u = cos angle"
    using assms dot_commute [of w u] by (simp_all add: corner_dirs_def)
  note f = half_angle_facts [OF an]
  let ?s = "sin (angle / 2)" and ?c = "cos (angle / 2)"
  have t: "tan (angle / 2) = ?s / ?c" by (simp add: tan_def)
  have u: "dot (arc_x u w angle) u = - tan (angle / 2) - (cos angle - 1) / (2 * ?s * ?c)"
    using d by (simp add: arc_x_eq [OF assms] vec_simps algebra_simps diff_divide_distrib)
  also have "\<dots> = 0"
    using f(1,2) by (simp add: t f(4) power2_eq_square field_simps)
  finally show "dot (arc_x u w angle) u = 0" .
  then have z: "dot u (arc_x u w angle) = 0" by (simp add: dot_commute)
  have "dot (arc_x u w angle) (arc_x u w angle) = - 1 / (2 * ?s * ?c) * dot w (arc_x u w angle)"
    using d z by (subst (1) arc_x_eq [OF assms]) (simp add: vec_simps algebra_simps)
  also have "dot w (arc_x u w angle) = - tan (angle / 2) * cos angle - (1 - cos angle) / (2 * ?s * ?c)"
    using d by (simp add: arc_x_eq [OF assms] vec_simps algebra_simps diff_divide_distrib)
  also have "- 1 / (2 * ?s * ?c) * \<dots> = (2 * ?s * ?s * cos angle + 1 - cos angle) / (2 * ?s * ?c)\<^sup>2"
    using f(1,2) by (simp add: t power2_eq_square field_simps)
  also have "2 * ?s * ?s * cos angle + 1 - cos angle = (2 * ?s * ?c)\<^sup>2"
    unfolding f(4) power_mult_distrib f(6) by (simp add: power2_eq_square algebra_simps)
  finally show "dot (arc_x u w angle) (arc_x u w angle) = 1"
    using f(1,2) by simp
qed

definition arc_center :: "xvector \<Rightarrow> xvector \<Rightarrow> xvector \<Rightarrow> real \<Rightarrow> real \<Rightarrow> xvector" where
  "arc_center corner u w radius angle =
     map (\<lambda>i. corner ! i + radius / (2 * sin (angle / 2) * cos (angle / 2)) * (w ! i - u ! i))
       [0..<length corner]"

lemma length_arc_center [simp]: "length (arc_center corner u w radius angle) = length corner"
  by (simp add: arc_center_def)

lemma blend_arc_result:
  assumes "corner_dirs n u w angle" "length corner = n" "0 < trim" "radius = trim / tan (angle / 2)"
  shows "blend_arc corner u w trim radius angle =
    Inr \<lparr>circ_center = arc_center corner u w radius angle, circ_x = arc_x u w angle, circ_y = u,
         circ_radius = radius, circ_angle_rads = angle\<rparr>"
proof -
  have an: "0 < angle" "angle < pi" and d: "length u = n" "length w = n" "dot u u = 1"
    using assms by (simp_all add: corner_dirs_def)
  note f = half_angle_facts [OF an] and x = arc_x_frame [OF assms(1)]
  let ?b = "vsub w u" and ?s = "sin (angle / 2)" and ?c = "cos (angle / 2)"
  have r: "0 < radius" using assms(3,4) f(3) by simp
  have center: "vadd corner (vscale (radius / ?c) (vdiv ?b (norm_l2 ?b))) =
      arc_center corner u w radius angle"
    by (rule nth_equalityI)
      (use assms(2) d in \<open>simp_all add: arc_center_def bisector_norm [OF assms(1)] mult_ac\<close>)
  have trim: "trim = radius * tan (angle / 2)" using assms(4) f(3) by simp
  have raw: "vsub (vsub corner (vscale trim u)) (arc_center corner u w radius angle) =
      vscale radius (arc_x u w angle)"
    by (rule nth_equalityI)
      (use assms(2) d in \<open>simp_all add: arc_center_def arc_x_def trim algebra_simps\<close>)
  have proj: "vsub (vscale radius (arc_x u w angle))
      (vscale (dot (vscale radius (arc_x u w angle)) u) u) = vscale radius (arc_x u w angle)"
    by (rule nth_equalityI) (use d in \<open>simp_all add: vec_simps x\<close>)
  have nx: "norm_l2 (arc_x u w angle) = 1" "norm_l2 u = 1"
    using x d by (simp_all add: norm_l2_def)
  have unit: "vdiv (vscale radius (arc_x u w angle)) (norm_l2 (vscale radius (arc_x u w angle))) =
      arc_x u w angle"
    by (rule nth_equalityI) (use r in \<open>simp_all add: norm_l2_vscale nx\<close>)
  show ?thesis
    by (simp add: blend_arc_def Let_def center raw proj unit make_circular_def nx x)
qed

text \<open>The arc starts on the incoming line, ends on the outgoing line, and touches both.\<close>

lemma blend_arc_geometry:
  assumes "corner_dirs n u w angle" "length corner = n" "0 < trim" "radius = trim / tan (angle / 2)"
  defines "g \<equiv> Circular \<lparr>circ_center = arc_center corner u w radius angle, circ_x = arc_x u w angle,
      circ_y = u, circ_radius = radius, circ_angle_rads = angle\<rparr>"
  shows "segment_inv n g"
    and "segment_configuration g 0 = vsub corner (vscale trim u)"
    and "segment_configuration g (radius * angle) = vadd corner (vscale trim w)"
    and "segment_tangent g 0 = u"
    and "segment_tangent g (radius * angle) = w"
    and "norm_l2 (vsub (segment_configuration g (radius * angle / 2)) corner) = trim * tan (angle / 4)"
proof -
  have an: "0 < angle" "angle < pi" and d: "length u = n" "length w = n" "dot u u = 1"
    using assms by (simp_all add: corner_dirs_def)
  note f = half_angle_facts [OF an] and x = arc_x_frame [OF assms(1)]
  let ?s = "sin (angle / 2)" and ?c = "cos (angle / 2)"
  have t: "tan (angle / 2) = ?s / ?c" by (simp add: tan_def)
  have r: "0 < radius" using assms(3,4) f(3) by simp
  have trim: "trim = radius * ?s / ?c" using assms(4) f(1,2) by (simp add: t)
  show "segment_inv n g"
    using assms(2) d x an r by (simp add: g_def)
  show "segment_configuration g 0 = vsub corner (vscale trim u)"
    by (rule nth_equalityI)
      (use assms(2) d in \<open>simp_all add: g_def arc_center_def arc_x_def t trim algebra_simps\<close>)
  show "segment_tangent g 0 = u"
    by (rule nth_equalityI) (use assms(2) d in \<open>simp_all add: g_def\<close>)
  have ends: "radius * (- (?s / ?c) * a - 1 / (2 * ?s * ?c) * (b - a)) * cos angle + radius * a * sin angle =
      trim * b - radius / (2 * ?s * ?c) * (b - a)"
    "(?s / ?c * a + 1 / (2 * ?s * ?c) * (b - a)) * sin angle + a * cos angle = b" for a b :: real
  proof -
    have c2: "?c * ?c = 1 - ?s * ?s" using f(6) by (simp add: power2_eq_square)
    show "(?s / ?c * a + 1 / (2 * ?s * ?c) * (b - a)) * sin angle + a * cos angle = b"
    proof -
      have "(?s / ?c * a + 1 / (2 * ?s * ?c) * (b - a)) * sin angle + a * cos angle =
          a * (?s / ?c * (2 * ?s * ?c)) + (b - a) * (1 / (2 * ?s * ?c) * (2 * ?s * ?c)) +
          a * (1 - 2 * (?s * ?s))"
      proof -
        have "(p * a + q * (b - a)) * k + a * l = a * (p * k) + (b - a) * (q * k) + a * l"
          for p q k l :: real by (simp add: algebra_simps)
        then show ?thesis unfolding f(4,5) power2_eq_square .
      qed
      also have "1 / (2 * ?s * ?c) * (2 * ?s * ?c) = 1" using f(1,2) by simp
      also have "?s / ?c * (2 * ?s * ?c) = 2 * (?s * ?s)" using f(2) by simp
      also have "a * (2 * (?s * ?s)) + (b - a) * 1 + a * (1 - 2 * (?s * ?s)) = b"
        by (simp add: algebra_simps)
      finally show ?thesis .
    qed
    have "(- (?s / ?c) * a - 1 / (2 * ?s * ?c) * (b - a)) * cos angle + a * sin angle =
        ?s / ?c * b - 1 / (2 * ?s * ?c) * (b - a)"
      using f(1,2) unfolding f(4,5)
      by (simp add: field_simps power2_eq_square) (use c2 in algebra)
    from arg_cong [OF this, of "(*) radius"]
    show "radius * (- (?s / ?c) * a - 1 / (2 * ?s * ?c) * (b - a)) * cos angle + radius * a * sin angle =
      trim * b - radius / (2 * ?s * ?c) * (b - a)"
      by (simp add: trim algebra_simps)
  qed
  show "segment_configuration g (radius * angle) = vadd corner (vscale trim w)"
  proof (rule nth_equalityI)
    fix i assume "i < length (segment_configuration g (radius * angle))"
    then show "segment_configuration g (radius * angle) ! i = vadd corner (vscale trim w) ! i"
      using assms(2) d r ends(1) [of "u ! i" "w ! i"]
      by (simp add: g_def Let_def arc_center_def arc_x_def t algebra_simps)
  qed (use assms(2) d in \<open>simp add: g_def\<close>)
  show "segment_tangent g (radius * angle) = w"
  proof (rule nth_equalityI)
    fix i assume "i < length (segment_tangent g (radius * angle))"
    then show "segment_tangent g (radius * angle) ! i = w ! i"
      using assms(2) d r ends(2) [of "u ! i" "w ! i"]
      by (simp add: g_def Let_def arc_x_def t algebra_simps)
  qed (use assms(2) d in \<open>simp add: g_def\<close>)
  have "vsub (segment_configuration g (radius * angle / 2)) corner =
      vscale (radius * (1 - ?c) / (2 * ?s * ?c)) (vsub w u)" (is "?l = ?r")
  proof (rule nth_equalityI)
    fix i assume "i < length ?l"
    then show "?l ! i = ?r ! i"
      using assms(2) d r f(1,2)
      by (simp add: g_def Let_def arc_center_def arc_x_def t field_simps)
  qed (use assms(2) d in \<open>simp add: g_def Let_def\<close>)
  moreover have "0 < 1 - ?c" using an by (simp add: cos_less_one_half_angle)
  moreover have "tan (angle / 4) = (1 - ?c) / ?s"
    using tan_quarter [OF an] .
  ultimately show "norm_l2 (vsub (segment_configuration g (radius * angle / 2)) corner) =
      trim * tan (angle / 4)"
    using r f(1,2) by (simp add: norm_l2_vscale bisector_norm [OF assms(1)] trim abs_mult)
qed

section \<open>The contract of a blend\<close>

definition valid_options :: "path_options \<Rightarrow> bool" where
  "valid_options opts \<longleftrightarrow>
     isfinite (opt_max_blend_deviation opts) \<and> 0 \<le> opt_max_blend_deviation opts \<and>
     isfinite (opt_max_linear_deviation opts) \<and> 0 \<le> opt_max_linear_deviation opts \<and>
     isfinite (opt_min_blend_curvature opts) \<and> 0 < opt_min_blend_curvature opts \<and>
     isfinite (opt_max_blend_curvature opts) \<and> opt_min_blend_curvature opts \<le> opt_max_blend_curvature opts"

definition direction :: "xvector \<Rightarrow> xvector \<Rightarrow> xvector" where
  "direction a b = vdiv (vsub b a) (norm_l2 (vsub b a))"

text \<open>
  What a blend at \<open>c\<close>, between the lines \<open>a c\<close> and \<open>c b\<close>, promises: the arc leaves the incoming
  line and joins the outgoing line at the trim distance, with the directions of the two lines, it
  trims at most half of either, its midpoint stays within the deviation budget of the corner,
  its curvature is in the configured range, and the two flags tell exactly when a half is used up.
\<close>

definition blend_contract ::
  "path_options \<Rightarrow> nat \<Rightarrow> xvector \<Rightarrow> xvector \<Rightarrow> xvector \<Rightarrow> blend_geometry \<Rightarrow> bool" where
  "blend_contract opts n a c b bl \<longleftrightarrow>
     (let arc = blend_circular_seg bl; g = Circular arc; t = blend_trim_distance bl;
          len = circ_radius arc * circ_angle_rads arc
      in segment_inv n g \<and> circ_angle_rads arc < pi \<and>
         segment_configuration g 0 = vsub c (vscale t (direction a c)) \<and>
         segment_tangent g 0 = direction a c \<and>
         segment_configuration g len = vadd c (vscale t (direction c b)) \<and>
         segment_tangent g len = direction c b \<and>
         0 < t \<and> t \<le> norm_l2 (vsub c a) / 2 \<and> t \<le> norm_l2 (vsub b c) / 2 \<and>
         norm_l2 (vsub (segment_configuration g (len / 2)) c) \<le> fin (opt_max_blend_deviation opts) \<and>
         fin (opt_min_blend_curvature opts) \<le> 1 / circ_radius arc \<and>
         1 / circ_radius arc \<le> fin (opt_max_blend_curvature opts) \<and>
         blend_takes_half_incoming bl = (t = norm_l2 (vsub c a) / 2) \<and>
         blend_takes_half_outgoing bl = (t = norm_l2 (vsub b c) / 2))"

lemma unit_dot_bounds:
  assumes "length u = length w" "dot u u = 1" "dot w w = 1"
  shows "- 1 \<le> dot u w" "dot u w \<le> 1"
proof -
  have "0 \<le> dot (vsub w u) (vsub w u)" "0 \<le> dot (vadd w u) (vadd w u)" by simp_all
  with assms show "- 1 \<le> dot u w" "dot u w \<le> 1"
    by (simp_all add: vec_simps dot_commute [of w u])
qed

lemma direction_unit:
  assumes "length a = n" "length b = n" "norm_l2 (vsub b a) \<noteq> 0"
  shows "length (direction a b) = n" "dot (direction a b) (direction a b) = 1"
  using assms norm_vdiv_self [OF assms(3)] norm_l2_sq [of "direction a b"]
  by (simp_all add: direction_def)

lemma natural_trim_facts:
  assumes "0 < d" "0 < m" "0 < q"
  shows "0 < natural_trim d m q" "natural_trim d m q \<le> m" "natural_trim d m q * q \<le> d"
  using assms by (auto simp: natural_trim_def field_simps)

text \<open>The trim chosen by the code, and the curvature that follows from it.\<close>

lemma trim_radius:
  assumes "0 < d" "0 < m" "0 < q" "0 < th" "0 < kmin" "kmin \<le> kmax" "th \<le> kmax * natural_trim d m q"
    and t: "t = min (natural_trim d m q) (th / kmin)" and r: "r = t / th"
  shows "0 < t" "t \<le> m" "t * q \<le> d" "kmin \<le> 1 / r" "1 / r \<le> kmax"
proof -
  note nt = natural_trim_facts [OF assms(1-3)]
  show t0: "0 < t" using nt(1) assms(4,5) by (simp add: t)
  show "t \<le> m" using nt(2) by (simp add: t)
  have "t * q \<le> natural_trim d m q * q" using assms(3) by (simp add: t)
  with nt(3) show "t * q \<le> d" by linarith
  have "t \<le> th / kmin" by (simp add: t)
  then show "kmin \<le> 1 / r" using t0 assms(4,5) by (simp add: r field_simps)
  have "th \<le> kmax * t"
    using assms(4-7) by (auto simp: t min_def field_simps intro: mult_right_mono)
  then show "1 / r \<le> kmax" using t0 assms(4) by (simp add: r field_simps)
qed

lemma valid_optionsE:
  assumes "valid_options opts"
  obtains d l kmin kmax where "opts = \<lparr>opt_max_blend_deviation = Fin d, opt_max_linear_deviation = Fin l,
      opt_min_blend_curvature = Fin kmin, opt_max_blend_curvature = Fin kmax\<rparr>"
    "0 \<le> d" "0 \<le> l" "0 < kmin" "kmin \<le> kmax"
  using assms by (cases opts) (auto simp: valid_options_def isfinite_iff)

lemma try_create_blend_spec_lemma:
  assumes opts: "valid_options opts" and len: "length a = n" "length c = n" "length b = n"
  shows "\<exists>r. try_create_blend opts a c b = Inr r \<and> (\<forall>bl. r = Some bl \<longrightarrow> blend_contract opts n a c b bl)"
proof -
  obtain d l kmin kmax where o: "opts = \<lparr>opt_max_blend_deviation = Fin d, opt_max_linear_deviation = Fin l,
      opt_min_blend_curvature = Fin kmin, opt_max_blend_curvature = Fin kmax\<rparr>"
    "0 \<le> d" "0 \<le> l" "0 < kmin" "kmin \<le> kmax"
    using valid_optionsE [OF opts] .
  let ?ni = "norm_l2 (vsub c a)" and ?no = "norm_l2 (vsub b c)"
  let ?u = "direction a c" and ?w = "direction c b"
  let ?dc = "max (- 1) (min 1 (dot ?u ?w))"
  let ?ang = "arccos ?dc"
  let ?nt = "natural_trim d (min (?ni / 2) (?no / 2)) (tan (?ang / 2 / 2))"
  let ?t = "min ?nt (tan (?ang / 2) / kmin)"
  let ?r = "?t / tan (?ang / 2)"
  show ?thesis
  proof (cases "d \<le> 0 \<or> ?ni \<le> 0 \<or> ?no \<le> 0 \<or> ?u = ?w \<or> ?dc = 1 \<or> ?dc = - 1 \<or> kmax * ?nt < tan (?ang / 2)")
    case True
    then show ?thesis
      by (auto simp: try_create_blend_def Let_def o(1) direction_def [symmetric])
  next
    case False
    then have g: "0 < d" "0 < ?ni" "0 < ?no" "?u \<noteq> ?w" "?dc \<noteq> 1" "?dc \<noteq> - 1" "tan (?ang / 2) \<le> kmax * ?nt"
      by auto
    have u: "length ?u = n" "dot ?u ?u = 1" and w: "length ?w = n" "dot ?w ?w = 1"
      using direction_unit [of a n c] direction_unit [of c n b] len g(2,3) by auto
    have dc: "?dc = dot ?u ?w" "- 1 < dot ?u ?w" "dot ?u ?w < 1"
      using unit_dot_bounds [of ?u ?w] u w g(5,6) by auto
    have an: "0 < ?ang" "?ang < pi"
      using dc arccos_lt_bounded [of "dot ?u ?w"] by (simp_all only: dc(1))
    have dirs: "corner_dirs n ?u ?w ?ang"
      using u w an dc by (simp only: corner_dirs_def dc(1)) (simp add: cos_arccos)
    have q: "0 < tan (?ang / 2 / 2)" using an by (intro tan_gt_zero) auto
    note f = half_angle_facts [OF an]
    note tr = trim_radius [OF g(1) _ q f(3) o(4,5) g(7) refl refl]
    have m: "0 < min (?ni / 2) (?no / 2)" using g by simp
    note geo = blend_arc_geometry [OF dirs len(2) tr(1) [OF m] refl]
    note arc = blend_arc_result [OF dirs len(2) tr(1) [OF m] refl]
    let ?arc = "\<lparr>circ_center = arc_center c ?u ?w ?r ?ang, circ_x = arc_x ?u ?w ?ang, circ_y = ?u,
         circ_radius = ?r, circ_angle_rads = ?ang\<rparr>"
    let ?bl = "\<lparr>blend_circular_seg = ?arc, blend_trim_distance = ?t,
       blend_takes_half_incoming = (?t = ?ni / 2), blend_takes_half_outgoing = (?t = ?no / 2)\<rparr>"
    have "try_create_blend opts a c b = Inr (Some ?bl)"
      using g dc(2,3) arc by (simp add: try_create_blend_def Let_def o(1) direction_def [symmetric])
    moreover have "blend_contract opts n a c b ?bl"
    proof -
      have oo: "fin (opt_max_blend_deviation opts) = d" "fin (opt_min_blend_curvature opts) = kmin"
        "fin (opt_max_blend_curvature opts) = kmax"
        by (simp_all add: o(1))
      have quarter: "?ang / 4 = ?ang / 2 / 2" by simp
      have mid: "norm_l2 (vsub (segment_configuration (Circular ?arc) (?r * ?ang / 2)) c) \<le> d"
        unfolding geo(6) quarter by (rule tr(3) [OF m])
      have le: "?t \<le> ?ni / 2" "?t \<le> ?no / 2" using tr(2) [OF m] by linarith+
      show ?thesis
        unfolding blend_contract_def Let_def blend_geometry.simps circular.simps oo
        by (intro conjI geo(1-5) mid tr(1,4,5) [OF m] an(2) le refl)
    qed
    ultimately show ?thesis by blast
  qed
qed

text \<open>
  C25: At a corner of two lines, under valid options, building a blend never throws: the checks of
  the arc constructor always hold. The blend it returns, if any, meets the blend contract: the arc
  is tangent to both lines at the trim distance, uses at most half of either, stays within the
  deviation budget and has a curvature in the configured range.
\<close>

theorem try_create_blend_spec:
  assumes "valid_options opts" "length a = n" "length c = n" "length b = n"
  shows "\<exists>r. try_create_blend opts a c b = Inr r \<and> (\<forall>bl. r = Some bl \<longrightarrow> blend_contract opts n a c b bl)"
  by (rule try_create_blend_spec_lemma [OF assms])

theorem try_create_blend_spec_witness:
  "\<exists>bl. try_create_blend (set_max_blend_deviation (Fin 1) default_path_options) [0, 0] [2, 0] [2, 2] =
      Inr (Some bl) \<and> blend_takes_half_incoming bl"
proof -
  let ?o = "set_max_blend_deviation (Fin 1) default_path_options"
  have nrm: "norm_l2 [2, 0] = 2" "norm_l2 [0, 2] = 2" by (simp_all add: norm_l2_def)
  have "tan (pi / 8) < tan (pi / 4)" by (rule tan_monotone) auto
  then have q: "tan (pi / 8) < 1" by (simp add: tan_45)
  have "try_create_blend ?o [0, 0] [2, 0] [2, 2] \<noteq> Inr None"
    using q by (auto simp: try_create_blend_def Let_def vsub_def vdiv_def nrm tan_45 natural_trim_def
        set_max_blend_deviation_def default_path_options_def bind_res_eq_Inr)
  then obtain bl where bl: "try_create_blend ?o [0, 0] [2, 0] [2, 2] = Inr (Some bl)"
    and *: "blend_contract ?o 2 [0, 0] [2, 0] [2, 2] bl"
    using try_create_blend_spec [of ?o "[0, 0]" 2 "[2, 0]" "[2, 2]"]
    by (auto simp: valid_options_def set_max_blend_deviation_def default_path_options_def)
  have "blend_takes_half_incoming bl"
    using bl q by (auto simp: try_create_blend_def Let_def vsub_def vdiv_def nrm tan_45 natural_trim_def
        set_max_blend_deviation_def default_path_options_def bind_res_eq_Inr)
  with bl show ?thesis by blast
qed

section \<open>What coalescing keeps\<close>

text \<open>\<open>x\<close> is within \<open>radius\<close> of a point of the chord from \<open>a\<close> to \<open>b\<close>.\<close>

definition near_chord :: "real \<Rightarrow> xvector \<Rightarrow> xvector \<Rightarrow> xvector \<Rightarrow> bool" where
  "near_chord radius a b x \<longleftrightarrow>
     (\<exists>t. 0 \<le> t \<and> t \<le> 1 \<and> norm_l2 (vsub x (vadd a (vscale t (vsub b a)))) \<le> radius)"

text \<open>
  The specification of the pass: between two consecutive kept waypoints, either nothing was
  dropped, or all that was is near their chord, and the two differ.
\<close>

inductive coalesced :: "real \<Rightarrow> xvector list \<Rightarrow> xvector list \<Rightarrow> bool" for radius where
  single: "coalesced radius [b] [b]"
| step: "coalesced radius (t # rest) (t # kept) \<Longrightarrow>
    dropped = [] \<or> b \<noteq> t \<and> (\<forall>x \<in> set dropped. near_chord radius b t x) \<Longrightarrow>
    coalesced radius (b # dropped @ t # rest) (b # t # kept)"

lemma begin_segment_Some:
  "begin_segment a b = Some ctx \<Longrightarrow> length a = length b \<Longrightarrow>
    a \<noteq> b \<and> ctx = (vsub b a, dot (vsub b a) (vsub b a)) \<and> 0 < dot (vsub b a) (vsub b a)"
  using dot_self_nonneg [of "vsub b a"] dot_self_eq_0 [of "vsub b a"]
  by (auto simp: begin_segment_def Let_def list_all_length order_le_less split: if_splits)

lemma locus_near_chord:
  assumes "begin_segment a b = Some ctx" "length a = length b" "locus_within_tolerance radius ctx a x"
  shows "near_chord radius a b x"
proof -
  let ?d = "dot (vsub x a) (vsub b a)" and ?l = "dot (vsub b a) (vsub b a)"
  note ctx = begin_segment_Some [OF assms(1,2)]
  have "0 \<le> ?d" "?d \<le> ?l" "norm_l2 (vsub x (vadd a (vscale (?d / ?l) (vsub b a)))) \<le> radius"
    using assms(3) ctx by (auto simp: locus_within_tolerance_def Let_def split: if_splits)
  then show ?thesis
    unfolding near_chord_def using ctx by (intro exI [of _ "?d / ?l"]) simp
qed

lemma coalesce_scan_dropped:
  assumes "\<forall>x \<in> set (base # ws). length x = n" "ws \<noteq> []"
    "skipped = [] \<or> base \<noteq> hd ws \<and> (\<forall>x \<in> set skipped. near_chord radius base (hd ws) x)"
  shows "\<exists>dropped t rest. ws = dropped @ t # rest \<and>
    coalesce_scan radius base skipped ws = t # rest \<and>
    (skipped @ dropped = [] \<or> base \<noteq> t \<and> (\<forall>x \<in> set (skipped @ dropped). near_chord radius base t x))"
  using assms
proof (induction radius base skipped ws rule: coalesce_scan.induct)
  case (1 radius base skipped candidate target rest)
  show ?case
  proof (cases "coalesce_scan radius base skipped (candidate # target # rest) = candidate # target # rest")
    case True
    with 1(4) show ?thesis
      by (intro exI [of _ "[]"] exI [of _ candidate] exI [of _ "target # rest"])
        (simp del: coalesce_scan.simps)
  next
    case False
    then obtain ctx where ctx: "begin_segment base target = Some ctx"
      and within: "locus_within_tolerance radius ctx base candidate"
        "list_all (locus_within_tolerance radius ctx base) skipped"
      by (auto split: option.splits if_splits)
    have len: "length base = length target" using 1(2) by simp
    note near = locus_near_chord [OF ctx len]
    have "base \<noteq> target \<and> (\<forall>x \<in> set (skipped @ [candidate]). near_chord radius base target x)"
      using near within begin_segment_Some [OF ctx len] by (auto simp: list_all_iff)
    with 1(1) [OF ctx] within 1(2) obtain dropped t r where d:
      "target # rest = dropped @ t # r" "coalesce_scan radius base (skipped @ [candidate]) (target # rest) = t # r"
      "base \<noteq> t \<and> (\<forall>x \<in> set ((skipped @ [candidate]) @ dropped). near_chord radius base t x)"
      by auto
    have "coalesce_scan radius base skipped (candidate # target # rest) = t # r"
      using ctx within d(2) by simp
    with d show ?thesis
      by (intro exI [of _ "candidate # dropped"] exI [of _ t] exI [of _ r])
        (simp del: coalesce_scan.simps)
  qed
qed auto

lemma coalesce_from_coalesced:
  assumes "ws \<noteq> []" "\<forall>x \<in> set ws. length x = n" "\<forall>a. acc = Some a \<longrightarrow> wa_dof a = n"
  shows "\<exists>ks a. coalesced radius ws ks \<and> coalesce_from radius acc ws = Inr (Some a) \<and>
    wa_points a = (case acc of None \<Rightarrow> [] | Some b \<Rightarrow> wa_points b) @ ks"
  using assms
proof (induction radius acc ws rule: coalesce_from.induct)
  case (2 radius acc base rest)
  define a where "a = \<lparr>wa_dof = n, wa_points = (case acc of None \<Rightarrow> [] | Some b \<Rightarrow> wa_points b) @ [base]\<rparr>"
  have a: "(case acc of None \<Rightarrow> Inr (wa_of_waypoint base) | Some a \<Rightarrow> wa_add_waypoint a base) = Inr a"
    "wa_dof a = n" "wa_points a = (case acc of None \<Rightarrow> [] | Some b \<Rightarrow> wa_points b) @ [base]"
    using 2(3,4) by (auto simp: a_def wa_of_waypoint_def wa_add_waypoint_def split: option.splits)
  show ?case
  proof (cases "rest = []")
    case True
    with a show ?thesis by (auto intro: coalesced.single)
  next
    case False
    obtain dropped t r where d: "rest = dropped @ t # r" "coalesce_scan radius base [] rest = t # r"
      "dropped = [] \<or> base \<noteq> t \<and> (\<forall>x \<in> set dropped. near_chord radius base t x)"
      using coalesce_scan_dropped [of base rest n "[]" radius] False 2(3) by auto
    then obtain ks a' where ks: "coalesced radius (t # r) ks" "coalesce_from radius (Some a) (t # r) = Inr (Some a')"
      "wa_points a' = wa_points a @ ks"
      using 2(1) [OF a(1)] 2(3) a(2) by auto
    from ks(1) obtain kept where "ks = t # kept" by cases auto
    with ks d a show ?thesis
      by (intro exI [of _ "base # ks"] exI [of _ a']) (auto intro: coalesced.step)
  qed
qed simp

lemma coalesced_refl: "ws \<noteq> [] \<Longrightarrow> coalesced radius ws ws"
proof (induction ws)
  case (Cons b ws)
  then show ?case
    using coalesced.step [of radius _ _ _ "[]" b] by (cases ws) (auto intro: coalesced.single)
qed simp

lemma coalesced_props:
  "coalesced radius ws ks \<Longrightarrow> ks \<noteq> [] \<and> ws \<noteq> [] \<and> hd ks = hd ws \<and> last ks = last ws \<and> subseq ks ws \<and>
     (\<forall>x \<in> set ws. x \<in> set ks \<or> (\<exists>i. Suc i < length ks \<and> near_chord radius (ks ! i) (ks ! Suc i) x)) \<and>
     (successively (\<noteq>) ws \<longrightarrow> successively (\<noteq>) ks) \<and> (2 \<le> length ws \<longrightarrow> 2 \<le> length ks)"
proof (induction rule: coalesced.induct)
  case (step t rest kept dropped b)
  have sub: "subseq (b # t # kept) (b # dropped @ t # rest)"
    using step by (auto intro: list_emb_append2)
  have cover: "x \<in> set (b # t # kept) \<or>
      (\<exists>i. Suc i < length (b # t # kept) \<and> near_chord radius ((b # t # kept) ! i) ((b # t # kept) ! Suc i) x)"
    if x: "x \<in> set (b # dropped @ t # rest)" for x
  proof -
    consider "x = b" | "x \<in> set dropped" | "x \<in> set (t # rest)" using x by auto
    then show ?thesis
    proof cases
      case 2
      with step(2) show ?thesis by (intro disjI2 exI [of _ 0]) auto
    next
      case 3
      with step(3) consider "x \<in> set (t # kept)"
        | i where "Suc i < length (t # kept)" "near_chord radius ((t # kept) ! i) ((t # kept) ! Suc i) x"
        by blast
      then show ?thesis
      proof cases
        case (2 i)
        then show ?thesis by (intro disjI2 exI [of _ "Suc i"]) simp
      qed simp
    qed simp
  qed
  have "successively (\<noteq>) (b # t # kept)" if "successively (\<noteq>) (b # dropped @ t # rest)"
    using that step(2,3) by (cases dropped) (auto simp: successively_Cons successively_append_iff)
  with sub cover step(3) show ?case by auto
qed simp

lemma colinearize_spec_lemma:
  assumes opts: "valid_options opts" and "wa_inv a" "wa_points a \<noteq> []"
  shows "\<exists>ks. colinearize opts a = Inr ks \<and> subseq ks (wa_points a) \<and>
    hd ks = hd (wa_points a) \<and> last ks = last (wa_points a) \<and>
    (\<forall>x \<in> set (wa_points a). x \<in> set ks \<or> (\<exists>i. Suc i < length ks \<and>
       near_chord (fin (opt_max_linear_deviation opts) / 2) (ks ! i) (ks ! Suc i) x)) \<and>
    (successively (\<noteq>) (wa_points a) \<longrightarrow> successively (\<noteq>) ks) \<and>
    (2 \<le> wa_size a \<longrightarrow> 2 \<le> length ks) \<and>
    (opt_max_linear_deviation opts = 0 \<longrightarrow> ks = wa_points a)"
proof -
  have "\<exists>ks. colinearize opts a = Inr ks \<and>
      coalesced (fin (opt_max_linear_deviation opts) / 2) (wa_points a) ks \<and>
      (opt_max_linear_deviation opts = 0 \<longrightarrow> ks = wa_points a)"
    using coalesce_from_coalesced [of "wa_points a" "wa_dof a" None "fin (opt_max_linear_deviation opts) / 2"] assms
      coalesced_refl [of "wa_points a"]
    by (auto simp: colinearize_def wa_inv_def)
  then obtain ks where "colinearize opts a = Inr ks"
    "coalesced (fin (opt_max_linear_deviation opts) / 2) (wa_points a) ks"
    "opt_max_linear_deviation opts = 0 \<longrightarrow> ks = wa_points a"
    by blast
  with coalesced_props [OF this(2)] show ?thesis
    unfolding wa_size_def by blast
qed

text \<open>
  C26: Under valid options the coalescing pass never throws. It keeps the first and the last
  waypoint and a subsequence in between; each waypoint it drops is within half the linear
  deviation of the straight line between two consecutive kept waypoints; it never makes
  neighbours equal; and with a zero deviation it keeps everything.
\<close>

theorem colinearize_spec:
  assumes "valid_options opts" and "wa_inv a" "wa_points a \<noteq> []"
  shows "\<exists>ks. colinearize opts a = Inr ks \<and> subseq ks (wa_points a) \<and>
    hd ks = hd (wa_points a) \<and> last ks = last (wa_points a) \<and>
    (\<forall>x \<in> set (wa_points a). x \<in> set ks \<or> (\<exists>i. Suc i < length ks \<and>
       near_chord (fin (opt_max_linear_deviation opts) / 2) (ks ! i) (ks ! Suc i) x)) \<and>
    (successively (\<noteq>) (wa_points a) \<longrightarrow> successively (\<noteq>) ks) \<and>
    (2 \<le> wa_size a \<longrightarrow> 2 \<le> length ks) \<and>
    (opt_max_linear_deviation opts = 0 \<longrightarrow> ks = wa_points a)"
  by (rule colinearize_spec_lemma [OF assms])

theorem colinearize_spec_witness:
  "\<exists>ks. colinearize (set_max_linear_deviation (Fin 1) default_path_options)
      \<lparr>wa_dof = 1, wa_points = [[0], [1], [3]]\<rparr> = Inr ks \<and> hd ks = [0] \<and> last ks = [3]"
  using colinearize_spec [of "set_max_linear_deviation (Fin 1) default_path_options"
      "\<lparr>wa_dof = 1, wa_points = [[0], [1], [3]]\<rparr>"]
  by (auto simp: valid_options_def wa_inv_def set_max_linear_deviation_def default_path_options_def)

section \<open>What the construction loop maintains\<close>

text \<open>Each segment starts where the one before it ends in arc length.\<close>

fun contiguous :: "arc_length \<Rightarrow> positioned_segment list \<Rightarrow> arc_length \<Rightarrow> bool" where
  "contiguous a [] b \<longleftrightarrow> a = b"
| "contiguous a (p # ps) b \<longleftrightarrow> ps_start p = a \<and> contiguous (a + segment_length (ps_seg p)) ps b"

definition path_inv :: "path \<Rightarrow> bool" where
  "path_inv p \<longleftrightarrow> path_segments p \<noteq> [] \<and>
     (\<forall>q \<in> set (path_segments p). segment_inv (path_dof p) (ps_seg q)) \<and>
     contiguous 0 (path_segments p) (path_length p)"

fun is_circular :: "segment \<Rightarrow> bool" where
  "is_circular (Circular c) = True"
| "is_circular (Linear l) = False"

definition start_configuration :: "segment \<Rightarrow> xvector" where
  "start_configuration g = segment_configuration g 0"

definition start_tangent :: "segment \<Rightarrow> xvector" where
  "start_tangent g = segment_tangent g 0"

definition end_configuration :: "segment \<Rightarrow> xvector" where
  "end_configuration g = segment_configuration g (fin (segment_length g))"

definition end_tangent :: "segment \<Rightarrow> xvector" where
  "end_tangent g = segment_tangent g (fin (segment_length g))"

text \<open>
  A segment \<open>q\<close> is attached to a point: it starts there, or beyond a straight piece too short for
  the doubles to have a position inside it, which the code leaves out.
\<close>

definition attached :: "xvector \<Rightarrow> real \<Rightarrow> positioned_segment \<Rightarrow> bool" where
  "attached pos e q \<longleftrightarrow> 0 \<le> e \<and>
     start_configuration (ps_seg q) = vadd pos (vscale e (start_tangent (ps_seg q))) \<and>
     (e = 0 \<or> \<not> has_room (ps_start q) (ps_start q + Fin e))"

text \<open>Where an arc meets a segment without such a gap, the directions agree.\<close>

definition junction :: "positioned_segment \<Rightarrow> positioned_segment \<Rightarrow> bool" where
  "junction p q \<longleftrightarrow> (\<exists>e. attached (end_configuration (ps_seg p)) e q \<and>
     (e = 0 \<longrightarrow> is_circular (ps_seg p) \<or> is_circular (ps_seg q) \<longrightarrow>
        start_tangent (ps_seg q) = end_tangent (ps_seg p)))"

definition smooth_path :: "xvector \<Rightarrow> positioned_segment list \<Rightarrow> bool" where
  "smooth_path first segs \<longleftrightarrow> (segs \<noteq> [] \<longrightarrow> (\<exists>e. attached first e (hd segs))) \<and> successively junction segs"

definition core_inv :: "nat \<Rightarrow> xvector \<Rightarrow> build_state \<Rightarrow> bool" where
  "core_inv n first st \<longleftrightarrow> isfinite (bs_cumulative_length st) \<and>
     contiguous 0 (bs_segments st) (bs_cumulative_length st) \<and>
     (\<forall>q \<in> set (bs_segments st). segment_inv n (ps_seg q)) \<and> smooth_path first (bs_segments st)"

definition tip :: "xvector \<Rightarrow> build_state \<Rightarrow> xvector" where
  "tip first st = (if bs_segments st = [] then first else end_configuration (ps_seg (last (bs_segments st))))"

text \<open>
  Between two iterations the loop stands at distance \<open>t\<close> from the last corner, in the direction
  of the next waypoint; \<open>t\<close> is positive exactly after a blend.
\<close>

definition stands :: "nat \<Rightarrow> build_state \<Rightarrow> xvector \<Rightarrow> real \<Rightarrow> bool" where
  "stands n st next t \<longleftrightarrow>
     (let a = bs_segment_start st; u = direction a next; d = norm_l2 (vsub next a)
      in length a = n \<and> bs_current_position st = vadd a (vscale t u) \<and> 0 \<le> t \<and> t \<le> d / 2 \<and>
         bs_previous_half st = (0 < t \<and> t = d / 2) \<and>
         (bs_segments st \<noteq> [] \<and> is_circular (ps_seg (last (bs_segments st))) \<longleftrightarrow> 0 < t) \<and>
         (0 < t \<longrightarrow> end_tangent (ps_seg (last (bs_segments st))) = u))"

definition build_inv :: "nat \<Rightarrow> xvector \<Rightarrow> build_state \<Rightarrow> xvector list \<Rightarrow> bool" where
  "build_inv n first st ws \<longleftrightarrow> core_inv n first st \<and> bs_current_position st = tip first st \<and>
     (case ws of [] \<Rightarrow> True | next # _ \<Rightarrow> \<exists>t. stands n st next t)"

lemma contiguous_snoc:
  "contiguous a (ps @ [p]) b \<longleftrightarrow> contiguous a ps (ps_start p) \<and> ps_start p + segment_length (ps_seg p) = b"
  by (induction ps arbitrary: a) auto

lemma core_inv_push:
  assumes "core_inv n first st" "segment_inv n g" "len = segment_length g"
    and att: "attached (tip first st) e \<lparr>ps_seg = g, ps_start = bs_cumulative_length st\<rparr>"
    and tan: "e = 0 \<Longrightarrow> bs_segments st \<noteq> [] \<Longrightarrow>
      is_circular (ps_seg (last (bs_segments st))) \<or> is_circular g \<Longrightarrow>
      start_tangent g = end_tangent (ps_seg (last (bs_segments st)))"
  shows "core_inv n first (push_segment g len st)"
proof -
  have "smooth_path first (bs_segments st @ [\<lparr>ps_seg = g, ps_start = bs_cumulative_length st\<rparr>])"
  proof (cases "bs_segments st = []")
    case True
    with att show ?thesis by (auto simp: smooth_path_def tip_def)
  next
    case False
    then have "junction (last (bs_segments st)) \<lparr>ps_seg = g, ps_start = bs_cumulative_length st\<rparr>"
      unfolding junction_def using att tan by (intro exI [of _ e]) (simp add: tip_def)
    with False assms(1) show ?thesis
      by (simp add: core_inv_def smooth_path_def successively_append_iff)
  qed
  then show ?thesis
    using assms(1-3) segment_length_pos [OF assms(2)]
    by (auto simp: core_inv_def push_segment_def contiguous_snoc isfinite_iff)
qed

lemma push_segment_simps [simp]:
  "bs_segments (push_segment g len st) = bs_segments st @ [\<lparr>ps_seg = g, ps_start = bs_cumulative_length st\<rparr>]"
  "bs_segment_start (push_segment g len st) = bs_segment_start st"
  "bs_current_position (push_segment g len st) = bs_current_position st"
  "bs_previous_half (push_segment g len st) = bs_previous_half st"
  "bs_cumulative_length (push_segment g len st) = bs_cumulative_length st + len"
  "tip first (push_segment g len st) = end_configuration g"
  by (simp_all add: push_segment_def tip_def)

text \<open>On the line from \<open>a\<close> to \<open>b\<close>.\<close>

lemma along_line:
  assumes "length a = n" "length b = n" "t < norm_l2 (vsub b a)" "0 \<le> t"
  defines "pos \<equiv> vadd a (vscale t (direction a b))"
  shows "norm_l2 (vsub b pos) = norm_l2 (vsub b a) - t" "direction pos b = direction a b"
    "vadd pos (vscale (norm_l2 (vsub b a) - t - r) (direction a b)) = vsub b (vscale r (direction a b))"
proof -
  let ?d = "norm_l2 (vsub b a)" and ?u = "direction a b"
  have d: "?d \<noteq> 0" using assms by linarith
  note u = direction_unit [OF assms(1,2) d]
  have diff: "vsub b pos = vscale (?d - t) ?u"
    by (rule nth_equalityI) (use assms(1,2) u d in \<open>simp_all add: pos_def direction_def field_simps\<close>)
  have "norm_l2 ?u = 1" using u by (simp add: norm_l2_def)
  then show n: "norm_l2 (vsub b pos) = ?d - t"
    using assms(3) by (simp add: diff norm_l2_vscale)
  show "direction pos b = ?u"
    unfolding direction_def [of pos b] n unfolding diff
    by (rule nth_equalityI) (use assms(3) in simp_all)
  show "vadd pos (vscale (?d - t - r) ?u) = vsub b (vscale r ?u)"
    by (rule nth_equalityI) (use assms(1,2) u d in \<open>simp_all add: pos_def direction_def field_simps\<close>)
qed

lemma linear_tangents [simp]:
  assumes "segment_inv n (Linear l)"
  shows "start_tangent (Linear l) = lin_unit_direction l" "end_tangent (Linear l) = lin_unit_direction l"
proof -
  have "segment_tangent (Linear l) t = lin_unit_direction l" for t
    by (rule nth_equalityI) (use assms in simp_all)
  then show "start_tangent (Linear l) = lin_unit_direction l" "end_tangent (Linear l) = lin_unit_direction l"
    by (simp_all only: start_tangent_def end_tangent_def)
qed

lemma linear_configuration:
  assumes "segment_inv n (Linear l)"
  shows "segment_configuration (Linear l) t = vadd (lin_start l) (vscale t (lin_unit_direction l))"
  by (rule nth_equalityI) (use assms in simp_all)

lemma vadd_vscale_0 [simp]: "length a = length u \<Longrightarrow> vadd a (vscale 0 u) = a"
  by (rule nth_equalityI) simp_all

lemma length_direction [simp]: "length (direction a b) = min (length a) (length b)"
  by (simp add: direction_def min.commute)

text \<open>Some position of the path is within \<open>d\<close> of \<open>w\<close>.\<close>

definition passes_near :: "real \<Rightarrow> positioned_segment list \<Rightarrow> xvector \<Rightarrow> bool" where
  "passes_near d segs w \<longleftrightarrow> (\<exists>q \<in> set segs. \<exists>t. 0 \<le> t \<and> Fin t \<le> segment_length (ps_seg q) \<and>
     norm_l2 (vsub (segment_configuration (ps_seg q) t) w) \<le> d)"

lemma passes_near_mono: "passes_near d segs w \<Longrightarrow> set segs \<subseteq> set segs' \<Longrightarrow> passes_near d segs' w"
  unfolding passes_near_def by blast

lemma passes_near_end:
  assumes "segs \<noteq> []" "\<forall>q \<in> set segs. segment_inv n (ps_seg q)" "0 \<le> d"
  shows "passes_near d segs (end_configuration (ps_seg (last segs)))"
proof -
  have "segment_inv n (ps_seg (last segs))" using assms by simp
  with assms show ?thesis
    unfolding passes_near_def using segment_length_pos [of n "ps_seg (last segs)"]
    by (intro bexI [of _ "last segs"] exI [of _ "fin (segment_length (ps_seg (last segs)))"])
      (auto simp: end_configuration_def norm_l2_vsub_eq_0 [THEN iffD2])
qed

text \<open>The two ways to reach the next waypoint.\<close>

lemma emit_linear_spec:
  assumes inv: "build_inv n first st (locus # rest)" and len: "length locus = n" "length first = n"
  shows "(\<exists>st'. emit_linear st locus = Inr st' \<and> core_inv n first st' \<and>
      bs_current_position st' = tip first st' \<and> tip first st' = locus \<and> bs_segment_start st' = locus \<and>
      \<not> bs_previous_half st' \<and> bs_segments st' \<noteq> [] \<and> \<not> is_circular (ps_seg (last (bs_segments st')))) \<or>
    emit_linear st locus = Inl (Invalid_argument ''Linear segment: start and end must be different'') \<and>
      bs_segment_start st = locus"
proof -
  let ?a = "bs_segment_start st" and ?p = "bs_current_position st"
  let ?d = "norm_l2 (vsub locus ?a)"
  obtain t where st: "stands n st locus t" and p: "?p = tip first st" and core: "core_inv n first st"
    using inv by (auto simp: build_inv_def)
  then have a: "length ?a = n" "?p = vadd ?a (vscale t (direction ?a locus))" "0 \<le> t" "t \<le> ?d / 2"
    by (auto simp: stands_def Let_def)
  then have lp: "length ?p = n" using len by simp
  show ?thesis
  proof (cases "norm_l2 (vsub locus ?p) = 0")
    case True
    have "?a = locus"
    proof (rule ccontr)
      assume "?a \<noteq> locus"
      then have "0 < ?d" using norm_l2_vsub_eq_0 [of locus ?a] norm_l2_pos a(1) len by metis
      then show False using along_line(1) [OF a(1) len(1), of t] a(2-4) True by simp
    qed
    with True show ?thesis by (simp add: emit_linear_def linear_between_def Let_def)
  next
    case False
    then obtain l where l: "linear_between ?p locus = Inr l"
      by (simp add: linear_between_def Let_def)
    note li = linear_between_inv [OF l lp len(1)]
    have dir: "lin_unit_direction l = direction ?p locus" "lin_start l = ?p"
      using l False by (auto simp: linear_between_def Let_def direction_def)
    have "?d \<noteq> 0"
      using False a len norm_l2_vsub_eq_0 [of locus ?a] by (auto simp: vsub_def)
    then have "t < ?d" using a(4) norm_l2_nonneg [of "vsub locus ?a"] by linarith
    then have same: "direction ?p locus = direction ?a locus"
      using along_line(2) [OF a(1) len(1) _ a(3)] a(2) by simp
    have "core_inv n first (push_segment (Linear l) (lin_length l) st)"
    proof (rule core_inv_push [OF core li(1), of _ 0])
      show "attached (tip first st) 0 \<lparr>ps_seg = Linear l, ps_start = bs_cumulative_length st\<rparr>"
        using li(1,3) p lp len by (simp add: attached_def start_configuration_def dir)
      assume "is_circular (ps_seg (last (bs_segments st))) \<or> is_circular (Linear l)" "bs_segments st \<noteq> []"
      with st have "end_tangent (ps_seg (last (bs_segments st))) = direction ?a locus"
        by (auto simp: stands_def Let_def)
      then show "start_tangent (Linear l) = end_tangent (ps_seg (last (bs_segments st)))"
        by (simp only: linear_tangents [OF li(1)] dir same)
    qed simp
    moreover have "end_configuration (Linear l) = locus"
      using li by (simp add: end_configuration_def)
    ultimately show ?thesis
      using l by (simp add: emit_linear_def core_inv_def tip_def)
  qed
qed

text \<open>The straight piece before a blend, emitted or left out.\<close>

lemma blend_lead_in:
  assumes core: "core_inv n first st" and p: "bs_current_position st = tip first st" and st: "stands n st locus t"
    and len: "length locus = n" and con: "blend_contract opts n (bs_segment_start st) locus b bl"
  defines "u \<equiv> direction (bs_segment_start st) locus"
    and "il \<equiv> norm_l2 (vsub locus (bs_segment_start st)) - t - blend_trim_distance bl"
  defines "cond \<equiv> \<not> (bs_previous_half st \<and> blend_takes_half_incoming bl) \<and>
      has_room (bs_cumulative_length st) (bs_cumulative_length st + Fin il)"
  shows "0 \<le> il" and "norm_l2 (vsub locus (bs_current_position st)) - blend_trim_distance bl = il"
    and "direction (bs_current_position st) locus = u"
    and "cond \<Longrightarrow> \<exists>l. linear_along (bs_current_position st) u (Fin il) = Inr l \<and>
      core_inv n first (push_segment (Linear l) (Fin il) st) \<and>
      end_configuration (Linear l) = vsub locus (vscale (blend_trim_distance bl) u) \<and>
      end_tangent (Linear l) = u"
    and "\<not> cond \<Longrightarrow> vadd (tip first st) (vscale il u) = vsub locus (vscale (blend_trim_distance bl) u) \<and>
      (il = 0 \<or> \<not> has_room (bs_cumulative_length st) (bs_cumulative_length st + Fin il)) \<and>
      (il = 0 \<longrightarrow> bs_segments st \<noteq> [] \<and> end_tangent (ps_seg (last (bs_segments st))) = u)"
proof -
  let ?a = "bs_segment_start st" and ?p = "bs_current_position st" and ?r = "blend_trim_distance bl"
  let ?d = "norm_l2 (vsub locus ?a)"
  have a: "length ?a = n" "?p = vadd ?a (vscale t u)" "0 \<le> t" "t \<le> ?d / 2"
      "bs_previous_half st = (0 < t \<and> t = ?d / 2)"
    and tt: "0 < t \<Longrightarrow> bs_segments st \<noteq> [] \<and> end_tangent (ps_seg (last (bs_segments st))) = u"
      "bs_segments st \<noteq> [] \<and> is_circular (ps_seg (last (bs_segments st))) \<Longrightarrow> 0 < t"
    using st by (auto simp: stands_def Let_def u_def)
  have r: "0 < ?r" "?r \<le> ?d / 2" "blend_takes_half_incoming bl = (?r = ?d / 2)"
    using con by (auto simp: blend_contract_def Let_def)
  then have d: "t < ?d" using a(3,4) by linarith
  note al = along_line [OF a(1) len d a(3)]
  show il: "0 \<le> il" using a(4) r(2) by (simp add: il_def)
  show "norm_l2 (vsub locus ?p) - ?r = il" using al(1) by (simp add: a(2) u_def il_def)
  show dir: "direction ?p locus = u" using al(2) by (simp add: a(2) u_def)
  have reach: "vadd ?p (vscale il u) = vsub locus (vscale ?r u)"
    using al(3) [of ?r] by (simp add: a(2) u_def il_def)
  have lu: "length u = n" "dot u u = 1" "length ?p = n"
    using direction_unit [OF a(1) len] d a(3) len by (auto simp: u_def a(2))
  show "\<exists>l. linear_along ?p u (Fin il) = Inr l \<and> core_inv n first (push_segment (Linear l) (Fin il) st) \<and>
      end_configuration (Linear l) = vsub locus (vscale ?r u) \<and> end_tangent (Linear l) = u" if cond
  proof -
    let ?l = "\<lparr>lin_start = ?p, lin_unit_direction = u, lin_length = Fin il\<rparr>"
    obtain c where c: "bs_cumulative_length st = Fin c"
      using core by (auto simp: core_inv_def isfinite_iff)
    have pos: "0 < il" using that by (simp add: cond_def has_room_def c)
    have li: "segment_inv n (Linear ?l)" using lu pos by (simp add: norm_l2_def)
    have "core_inv n first (push_segment (Linear ?l) (Fin il) st)"
    proof (rule core_inv_push [OF core li, of _ 0])
      show "attached (tip first st) 0 \<lparr>ps_seg = Linear ?l, ps_start = bs_cumulative_length st\<rparr>"
        using linear_configuration [OF li, of 0] lu
        by (simp add: p [symmetric] attached_def start_configuration_def linear_tangents [OF li]
            del: segment_configuration.simps)
    qed (use tt in \<open>auto simp: linear_tangents [OF li]\<close>)
    moreover have "end_configuration (Linear ?l) = vsub locus (vscale ?r u)"
      using linear_configuration [OF li, of il] reach
      by (simp add: end_configuration_def del: segment_configuration.simps)
    ultimately show ?thesis
      using pos by (simp add: linear_along_def linear_tangents [OF li])
  qed
  show "vadd (tip first st) (vscale il u) = vsub locus (vscale ?r u) \<and>
      (il = 0 \<or> \<not> has_room (bs_cumulative_length st) (bs_cumulative_length st + Fin il)) \<and>
      (il = 0 \<longrightarrow> bs_segments st \<noteq> [] \<and> end_tangent (ps_seg (last (bs_segments st))) = u)" if "\<not> cond"
  proof (intro conjI impI)
    show "vadd (tip first st) (vscale il u) = vsub locus (vscale ?r u)" using reach p by simp
    show "il = 0 \<or> \<not> has_room (bs_cumulative_length st) (bs_cumulative_length st + Fin il)"
      using that a(5) r(3) by (auto simp: cond_def il_def)
    assume "il = 0"
    then have "0 < t" using a(4) r by (simp add: il_def)
    with tt show "bs_segments st \<noteq> []" "end_tangent (ps_seg (last (bs_segments st))) = u" by auto
  qed
qed

lemma emit_blend_spec:
  assumes inv: "build_inv n first st (locus # next # rest)"
    and len: "length locus = n" "length next = n" "length first = n"
    and con: "blend_contract opts n (bs_segment_start st) locus next bl"
  shows "\<exists>st'. emit_blend st locus next bl = Inr st' \<and> build_inv n first st' (next # rest)"
proof -
  let ?arc = "blend_circular_seg bl" and ?r = "blend_trim_distance bl"
  let ?g = "Circular ?arc" and ?u = "direction (bs_segment_start st) locus" and ?w = "direction locus next"
  let ?len = "Fin (circ_radius ?arc * circ_angle_rads ?arc)"
  obtain t where core: "core_inv n first st" and p: "bs_current_position st = tip first st"
    and st: "stands n st locus t"
    using inv by (auto simp: build_inv_def)
  define il where "il = norm_l2 (vsub locus (bs_segment_start st)) - t - ?r"
  define cond where "cond \<longleftrightarrow> \<not> (bs_previous_half st \<and> blend_takes_half_incoming bl) \<and>
      has_room (bs_cumulative_length st) (bs_cumulative_length st + Fin il)"
  note li = blend_lead_in [OF core p st len(1) con, folded il_def, folded cond_def]
  have g: "segment_inv n ?g" "start_configuration ?g = vsub locus (vscale ?r ?u)" "start_tangent ?g = ?u"
      "end_configuration ?g = vadd locus (vscale ?r ?w)" "end_tangent ?g = ?w" "?len = segment_length ?g"
    using con by (simp_all add: blend_contract_def Let_def start_configuration_def start_tangent_def
        end_configuration_def end_tangent_def del: segment_configuration.simps segment_tangent.simps)
  have r: "0 < ?r" "?r \<le> norm_l2 (vsub next locus) / 2"
      "blend_takes_half_outgoing bl = (?r = norm_l2 (vsub next locus) / 2)"
    using con by (auto simp: blend_contract_def Let_def)
  have lst: "length (bs_segment_start st) = n" using st by (simp add: stands_def Let_def)
  have "\<exists>st1. (if cond then bind_res (linear_along (bs_current_position st) ?u (Fin il))
        (\<lambda>l. Inr (push_segment (Linear l) (Fin il) st)) else Inr st) = Inr st1 \<and>
      core_inv n first (push_segment ?g ?len st1)"
  proof (cases cond)
    case True
    then obtain l where l: "linear_along (bs_current_position st) ?u (Fin il) = Inr l"
      "core_inv n first (push_segment (Linear l) (Fin il) st)"
      "end_configuration (Linear l) = vsub locus (vscale ?r ?u)" "end_tangent (Linear l) = ?u"
      using li(4) by blast
    have "core_inv n first (push_segment ?g ?len (push_segment (Linear l) (Fin il) st))"
      by (rule core_inv_push [OF l(2) g(1,6), of 0])
        (use l(3,4) g(2,3) len lst in \<open>simp_all add: attached_def\<close>)
    with True l(1) show ?thesis by simp
  next
    case False
    have "core_inv n first (push_segment ?g ?len st)"
      by (rule core_inv_push [OF core g(1,6), of il]) (use li(1) li(5) [OF False] g(2,3) in \<open>auto simp: attached_def\<close>)
    with False show ?thesis by simp
  qed
  then obtain st1 where st1: "(if cond then bind_res (linear_along (bs_current_position st) ?u (Fin il))
        (\<lambda>l. Inr (push_segment (Linear l) (Fin il) st)) else Inr st) = Inr st1"
      "core_inv n first (push_segment ?g ?len st1)"
    by blast
  define st' where "st' = (push_segment ?g ?len st1)\<lparr>bs_current_position := vadd locus (vscale ?r ?w),
      bs_segment_start := locus, bs_previous_half := blend_takes_half_outgoing bl\<rparr>"
  have "emit_blend st locus next bl = Inr st'"
    by (simp only: emit_blend_def Let_def direction_def [symmetric] li(2,3) cond_def [symmetric] st1(1)
        bind_res_simps st'_def)
  moreover have "core_inv n first st'"
    using st1(2) by (simp add: core_inv_def st'_def)
  moreover have "tip first st' = vadd locus (vscale ?r ?w)"
    by (simp add: tip_def st'_def g(4))
  moreover have "stands n st' next ?r"
    using len r g by (simp add: stands_def Let_def st'_def)
  ultimately show ?thesis
    by (auto simp: build_inv_def st'_def)
qed

text \<open>One iteration: it keeps the invariant, or throws at a waypoint equal to the one before it.\<close>

lemma build_step_spec:
  assumes opts: "valid_options opts" and inv: "build_inv n first st (locus # rest)"
    and len: "\<forall>x \<in> set (locus # rest). length x = n" "length first = n"
  shows "(\<exists>st'. build_step opts st locus rest = Inr st' \<and> build_inv n first st' rest \<and>
      bs_segment_start st' = locus \<and> bs_segments st' \<noteq> [] \<and> (rest = [] \<longrightarrow> tip first st' = locus) \<and>
      set (bs_segments st) \<subseteq> set (bs_segments st') \<and>
      passes_near (fin (opt_max_blend_deviation opts)) (bs_segments st') locus) \<or>
    build_step opts st locus rest = Inl (Invalid_argument ''Linear segment: start and end must be different'') \<and>
      bs_segment_start st = locus"
proof -
  have l: "length locus = n" using len by simp
  have ls: "length (bs_segment_start st) = n" using inv by (auto simp: build_inv_def stands_def Let_def)
  have hard: ?thesis if "build_step opts st locus rest = emit_linear st locus"
  proof -
    from emit_linear_spec [OF inv l len(2)] show ?thesis
    proof (elim disjE exE conjE)
      fix st' assume st': "emit_linear st locus = Inr st'" "core_inv n first st'"
        "bs_current_position st' = tip first st'" "tip first st' = locus" "bs_segment_start st' = locus"
        "\<not> bs_previous_half st'" "bs_segments st' \<noteq> []" "\<not> is_circular (ps_seg (last (bs_segments st')))"
      have "stands n st' x 0" if "x \<in> set rest" for x
        using that st' len norm_l2_nonneg [of "vsub x locus"] by (simp add: stands_def Let_def)
      then have "\<exists>t. stands n st' x t" if "x \<in> set rest" for x using that by blast
      then have "build_inv n first st' rest"
        using st' by (auto simp: build_inv_def split: list.splits)
      moreover have "set (bs_segments st) \<subseteq> set (bs_segments st')"
        using st'(1) by (auto simp: emit_linear_def bind_res_eq_Inr)
      moreover have "0 \<le> fin (opt_max_blend_deviation opts)"
        using valid_optionsE [OF opts] by (metis fin.simps(1) path_options.select_convs(1))
      then have "passes_near (fin (opt_max_blend_deviation opts)) (bs_segments st') locus"
        using passes_near_end [of "bs_segments st'" n] st'(2,4,7) by (simp add: core_inv_def tip_def)
      ultimately show ?thesis using that st' by (intro disjI1 exI [of _ st']) simp
    next
      assume "emit_linear st locus = Inl (Invalid_argument ''Linear segment: start and end must be different'')"
        "bs_segment_start st = locus"
      with that show ?thesis by simp
    qed
  qed
  show ?thesis
  proof (cases rest)
    case Nil
    then show ?thesis by (intro hard) (simp add: build_step_def)
  next
    case (Cons nxt more)
    then obtain r where r: "try_create_blend opts (bs_segment_start st) locus nxt = Inr r"
      "\<forall>bl. r = Some bl \<longrightarrow> blend_contract opts n (bs_segment_start st) locus nxt bl"
      using try_create_blend_spec_lemma [OF opts ls l, of nxt] len by auto
    show ?thesis
    proof (cases r)
      case None
      with r Cons show ?thesis by (intro hard) (simp add: build_step_def)
    next
      case (Some bl)
      with r(2) have con: "blend_contract opts n (bs_segment_start st) locus nxt bl" by simp
      from emit_blend_spec [OF _ l _ len(2) con] inv Cons len
      obtain st' where st': "emit_blend st locus nxt bl = Inr st'" "build_inv n first st' (nxt # more)"
        by auto
      then have "bs_segment_start st' = locus" "bs_segments st' \<noteq> []"
          "set (bs_segments st) \<subseteq> set (bs_segments st')"
          "\<exists>q \<in> set (bs_segments st'). ps_seg q = Circular (blend_circular_seg bl)"
        by (auto simp: emit_blend_def Let_def bind_res_eq_Inr split: if_splits)
      moreover from con this(4) have "passes_near (fin (opt_max_blend_deviation opts)) (bs_segments st') locus"
        unfolding passes_near_def blend_contract_def Let_def
        by (elim bexE, intro bexI exI [of _ "circ_radius (blend_circular_seg bl) *
            circ_angle_rads (blend_circular_seg bl) / 2"]) (auto simp del: segment_configuration.simps)
      ultimately have near: "bs_segment_start st' = locus" "bs_segments st' \<noteq> []"
          "set (bs_segments st) \<subseteq> set (bs_segments st')"
          "passes_near (fin (opt_max_blend_deviation opts)) (bs_segments st') locus"
        by simp_all
      from st' near Some r(1) Cons show ?thesis by (simp add: build_step_def)
    qed
  qed
qed

lemma build_segments_spec:
  assumes "valid_options opts" "build_inv n first st ws" "\<forall>x \<in> set ws. length x = n" "length first = n"
  shows "(\<exists>st'. build_segments opts st ws = Inr st' \<and> core_inv n first st' \<and>
      set (bs_segments st) \<subseteq> set (bs_segments st') \<and>
      (ws \<noteq> [] \<longrightarrow> bs_segments st' \<noteq> [] \<and> tip first st' = last ws) \<and>
      (\<forall>w \<in> set ws. passes_near (fin (opt_max_blend_deviation opts)) (bs_segments st') w)) \<or>
    build_segments opts st ws = Inl (Invalid_argument ''Linear segment: start and end must be different'') \<and>
      \<not> successively (\<noteq>) (bs_segment_start st # ws)"
  using assms
proof (induction opts st ws rule: build_segments.induct)
  case (2 opts st locus rest)
  show ?case
  proof (cases "build_step opts st locus rest")
    case (Inl e)
    then have "e = Invalid_argument ''Linear segment: start and end must be different''"
      "bs_segment_start st = locus"
      using build_step_spec [OF 2(2,3,4,5)] by auto
    with Inl show ?thesis by (simp add: successively_Cons)
  next
    case (Inr st')
    then have st': "build_inv n first st' rest" "bs_segment_start st' = locus" "bs_segments st' \<noteq> []"
      "rest = [] \<longrightarrow> tip first st' = locus" "set (bs_segments st) \<subseteq> set (bs_segments st')"
      "passes_near (fin (opt_max_blend_deviation opts)) (bs_segments st') locus"
      using build_step_spec [OF 2(2,3,4,5)] by auto
    have tail: "\<forall>x \<in> set rest. length x = n" using 2(4) by simp
    from 2(1) [OF Inr 2(2) st'(1) tail 2(5)] show ?thesis
    proof (elim disjE exE conjE)
      fix st2 assume *: "build_segments opts st' rest = Inr st2" "core_inv n first st2"
        "set (bs_segments st') \<subseteq> set (bs_segments st2)"
        "rest \<noteq> [] \<longrightarrow> bs_segments st2 \<noteq> [] \<and> tip first st2 = last rest"
        "\<forall>w \<in> set rest. passes_near (fin (opt_max_blend_deviation opts)) (bs_segments st2) w"
      then have "passes_near (fin (opt_max_blend_deviation opts)) (bs_segments st2) locus"
        using passes_near_mono [OF st'(6)] by blast
      with * Inr st' show ?thesis by (intro disjI1 exI [of _ st2]) (cases rest; auto)
    next
      assume "build_segments opts st' rest = Inl (Invalid_argument ''Linear segment: start and end must be different'')"
        "\<not> successively (\<noteq>) (bs_segment_start st' # rest)"
      with Inr st'(2) show ?thesis by (cases rest) (auto simp: successively_Cons)
    qed
  qed
qed (simp add: build_inv_def)

lemma start_build_inv:
  assumes "length first = n" "\<forall>x \<in> set ws. length x = n"
  shows "build_inv n first (start_build first) ws"
proof -
  have "stands n (start_build first) x 0" if "x \<in> set ws" for x
    using that assms by (simp add: stands_def Let_def start_build_def)
  then have "\<exists>t. stands n (start_build first) x t" if "x \<in> set ws" for x using that by blast
  then show ?thesis
    by (cases ws) (simp_all add: build_inv_def core_inv_def smooth_path_def tip_def,
      simp_all add: start_build_def)
qed

lemma path_create_outcome:
  assumes "valid_options opts" "wa_inv a" "2 \<le> wa_size a"
  shows "(\<exists>p ks. path_create a opts = Inr p \<and> colinearize opts a = Inr ks \<and>
      path_inv p \<and> path_dof p = wa_dof a \<and> smooth_path (hd (wa_points a)) (path_segments p) \<and>
      end_configuration (ps_seg (last (path_segments p))) = last (wa_points a) \<and>
      (\<forall>w \<in> set (tl ks). passes_near (fin (opt_max_blend_deviation opts)) (path_segments p) w)) \<or>
    path_create a opts = Inl (Invalid_argument ''Linear segment: start and end must be different'') \<and>
      \<not> successively (\<noteq>) (wa_points a)"
proof -
  have ne: "wa_points a \<noteq> []" using assms(3) by (auto simp: wa_size_def)
  obtain ks where ks: "colinearize opts a = Inr ks" "subseq ks (wa_points a)" "hd ks = hd (wa_points a)"
      "last ks = last (wa_points a)" "successively (\<noteq>) (wa_points a) \<longrightarrow> successively (\<noteq>) ks" "2 \<le> length ks"
    using colinearize_spec_lemma [OF assms(1,2) ne] assms(3) by blast
  then obtain b ws where b: "ks = b # ws" "ws \<noteq> []"
    by (cases ks; cases "tl ks") auto
  have "set ks \<subseteq> set (wa_points a)" using ks(2) by (auto dest: list_emb_set)
  then have len: "length b = wa_dof a" "\<forall>x \<in> set ws. length x = wa_dof a"
    using assms(2) b by (auto simp: wa_inv_def)
  have path: "path_create a opts = bind_res (build_segments opts (start_build b) ws) (\<lambda>st.
          if bs_segments st = []
          then Inl (Invalid_argument ''Path requires at least one non-zero length segment'')
          else Inr \<lparr>path_segments = bs_segments st, path_dof = wa_dof a, path_length = bs_cumulative_length st\<rparr>)"
    using assms(1,3) ks(1) b by (elim valid_optionsE) (simp add: path_create_def)
  have start: "bs_segment_start (start_build b) = b" by (simp add: start_build_def)
  from build_segments_spec [OF assms(1) start_build_inv [OF len] len(2,1)] show ?thesis
  proof (elim disjE exE conjE)
    fix st assume "build_segments opts (start_build b) ws = Inr st" "core_inv (wa_dof a) b st"
      "ws \<noteq> [] \<longrightarrow> bs_segments st \<noteq> [] \<and> tip b st = last ws"
      "\<forall>w \<in> set ws. passes_near (fin (opt_max_blend_deviation opts)) (bs_segments st) w"
    with path b ks show ?thesis
      by (intro disjI1) (auto simp: path_inv_def core_inv_def tip_def)
  next
    assume "build_segments opts (start_build b) ws =
        Inl (Invalid_argument ''Linear segment: start and end must be different'')"
      "\<not> successively (\<noteq>) (bs_segment_start (start_build b) # ws)"
    with path b ks(5) start show ?thesis by auto
  qed
qed

text \<open>
  C24: With valid options and at least two waypoints, path creation either returns a path or fails
  because two neighbouring waypoints coincide. The path is well-formed: its segments are valid,
  each begins in arc length where the one before ends, starting at zero. It begins at the first
  waypoint (up to a left-out piece too short to hold a double), ends at the last, has no gap at
  a junction other than such a piece, is tangent-continuous at both ends of each arc (a corner that got no
  blend stays a corner), and passes within the blend deviation of every waypoint that coalescing kept.
\<close>

theorem path_create_spec:
  assumes "valid_options opts" "wa_inv a" "2 \<le> wa_size a"
  shows "(\<exists>p ks. path_create a opts = Inr p \<and> colinearize opts a = Inr ks \<and>
      path_inv p \<and> path_dof p = wa_dof a \<and> smooth_path (hd (wa_points a)) (path_segments p) \<and>
      end_configuration (ps_seg (last (path_segments p))) = last (wa_points a) \<and>
      (\<forall>w \<in> set (tl ks). passes_near (fin (opt_max_blend_deviation opts)) (path_segments p) w)) \<or>
    path_create a opts = Inl (Invalid_argument ''Linear segment: start and end must be different'') \<and>
      \<not> successively (\<noteq>) (wa_points a)"
  by (rule path_create_outcome [OF assms])

theorem path_create_spec_witness:
  "\<exists>p. path_create \<lparr>wa_dof = 2, wa_points = [[0, 0], [2, 0], [2, 2]]\<rparr>
      (set_max_deviation (Fin 1) default_path_options) = Inr p \<and>
    end_configuration (ps_seg (last (path_segments p))) = [2, 2]"
  using path_create_spec [of "set_max_deviation (Fin 1) default_path_options"
      "\<lparr>wa_dof = 2, wa_points = [[0, 0], [2, 0], [2, 2]]\<rparr>"]
  by (auto simp: valid_options_def wa_inv_def wa_size_def set_max_deviation_def
      set_max_linear_deviation_def set_max_blend_deviation_def default_path_options_def)

lemma path_create_checks:
  "(\<exists>m. path_create a opts = Inl (Invalid_argument m)) \<or> (2 \<le> wa_size a \<and> valid_options opts)"
  by (cases "opt_max_blend_deviation opts"; cases "opt_max_linear_deviation opts";
      cases "opt_min_blend_curvature opts"; cases "opt_max_blend_curvature opts")
    (auto simp: path_create_def valid_options_def not_less)

section \<open>Positions on a well-formed path\<close>

lemma contiguous_starts:
  assumes "contiguous (Fin a) segs b" "\<forall>q \<in> set segs. segment_inv n (ps_seg q)"
  shows "\<exists>c \<ge> a. b = Fin c \<and> (segs \<noteq> [] \<longrightarrow> a < c) \<and>
    (\<forall>i < length segs. \<exists>x. ps_start (segs ! i) = Fin x \<and> a \<le> x \<and> x < c)"
  using assms
proof (induction segs arbitrary: a)
  case (Cons q segs)
  obtain l where l: "0 < l" "segment_length (ps_seg q) = Fin l"
    using segment_length_pos Cons.prems by fastforce
  with Cons.prems have "contiguous (Fin (a + l)) segs b" by auto
  with Cons obtain c where c: "a + l \<le> c" "b = Fin c"
      "\<forall>i < length segs. \<exists>x. ps_start (segs ! i) = Fin x \<and> a + l \<le> x \<and> x < c"
    by force
  show ?case
  proof (rule exI [of _ c], intro conjI allI impI)
    fix i assume i: "i < length (q # segs)"
    show "\<exists>x. ps_start ((q # segs) ! i) = Fin x \<and> a \<le> x \<and> x < c"
    proof (cases i)
      case 0
      with Cons.prems l c show ?thesis by auto
    next
      case (Suc j)
      with i c l show ?thesis by fastforce
    qed
  qed (use c l in auto)
qed auto

lemma contiguous_nth:
  "contiguous a segs b \<Longrightarrow> i < length segs \<Longrightarrow>
    (if Suc i < length segs then ps_start (segs ! Suc i) else b) =
      ps_start (segs ! i) + segment_length (ps_seg (segs ! i))"
proof (induction segs arbitrary: a i)
  case (Cons q segs)
  show ?case
  proof (cases i)
    case 0
    with Cons.prems show ?thesis by (cases segs) auto
  next
    case (Suc j)
    with Cons.IH [of "a + segment_length (ps_seg q)" j] Cons.prems show ?thesis by (simp split: if_splits)
  qed
qed simp

text \<open>The end of segment \<open>i\<close> in arc length: the next start, or the length of the path.\<close>

definition segment_end :: "path \<Rightarrow> nat \<Rightarrow> arc_length" where
  "segment_end p i = (if Suc i < length (path_segments p) then ps_start (path_segments p ! Suc i)
     else path_length p)"

lemma path_positions:
  assumes "path_inv p"
  obtains xs len where "length xs = length (path_segments p)" "xs \<noteq> []" "path_length p = Fin len" "0 < len"
    "\<And>i. i < length xs \<Longrightarrow> ps_start (path_segments p ! i) = Fin (xs ! i) \<and> 0 \<le> xs ! i \<and> xs ! i < len"
    "xs ! 0 = 0" "sorted_wrt (<) xs"
    "\<And>i. i < length xs \<Longrightarrow> segment_end p i = Fin (if Suc i < length xs then xs ! Suc i else len)"
proof -
  let ?s = "path_segments p"
  define xs where "xs = map (\<lambda>q. fin (ps_start q)) ?s"
  have cont: "contiguous (Fin 0) ?s (path_length p)" "\<forall>q \<in> set ?s. segment_inv (path_dof p) (ps_seg q)" "?s \<noteq> []"
    using assms by (auto simp: path_inv_def)
  obtain c where c: "0 < c" "path_length p = Fin c"
      "\<forall>i < length ?s. \<exists>x. ps_start (?s ! i) = Fin x \<and> 0 \<le> x \<and> x < c"
    using contiguous_starts [OF cont(1,2)] cont(3) by auto
  have start: "ps_start (?s ! i) = Fin (xs ! i) \<and> 0 \<le> xs ! i \<and> xs ! i < c" if "i < length xs" for i
    using that c(3) by (auto simp: xs_def)
  have step: "xs ! i < xs ! Suc i" if i: "Suc i < length xs" for i
  proof -
    have len: "Suc i < length ?s" using i by (simp add: xs_def)
    then have "segment_inv (path_dof p) (ps_seg (?s ! i))" using cont(2) by simp
    then obtain l where l: "0 < l" "segment_length (ps_seg (?s ! i)) = Fin l"
      using segment_length_pos by blast
    have "ps_start (?s ! Suc i) = ps_start (?s ! i) + Fin l"
      using contiguous_nth [OF cont(1), of i] len l(2) by simp
    then have "Fin (xs ! Suc i) = Fin (xs ! i + l)"
      using start [of i] start [of "Suc i"] i by simp
    with l(1) show ?thesis by simp
  qed
  show thesis
  proof (rule that [of xs c])
    show "xs ! 0 = 0" using cont(1,3) by (cases ?s) (auto simp: xs_def)
    show "sorted_wrt (<) xs"
      using step by (simp add: sorted_wrt_iff_nth_Suc_transp)
    have len: "length xs = length ?s" by (simp add: xs_def)
    then show "length xs = length ?s" "xs \<noteq> []" using cont(3) by auto
    show "path_length p = Fin c" "0 < c" using c by auto
    show "ps_start (?s ! i) = Fin (xs ! i) \<and> 0 \<le> xs ! i \<and> xs ! i < c" if "i < length xs" for i
      using start [OF that] .
    show "segment_end p i = Fin (if Suc i < length xs then xs ! Suc i else c)" if "i < length xs" for i
      using start [of "Suc i"] c(2) len by (simp add: segment_end_def)
  qed
qed

end
