(* ===== verification/Path_Cursor.thy ===== *)
theory Path_Cursor
  imports Path_Create
begin

text \<open>
  Evaluation along a path (\<open>path.cpp\<close>): the lookup of a position by binary search, the cursor with
  its hint and its sentinels, and the rich cursor that caches what it has evaluated. Iterators into
  the segments are indices; the end iterator is their number, and reading through it has no
  meaning in C++ and is \<open>Undefined_behaviour\<close> here.
\<close>

section \<open>Lookup\<close>

definition path_size :: "path \<Rightarrow> nat" where
  "path_size p = length (path_segments p)"

definition path_empty :: "path \<Rightarrow> bool" where
  "path_empty p \<longleftrightarrow> path_segments p = []"

text \<open>\<open>const_iterator::operator*\<close>\<close>

definition deref :: "path \<Rightarrow> nat \<Rightarrow> segment_view res" where
  "deref p it =
     (if it < length (path_segments p)
      then let end' = (if Suc it \<noteq> length (path_segments p) then ps_start (path_segments p ! Suc it)
                       else path_length p)
           in Inr \<lparr>view_segment = ps_seg (path_segments p ! it),
                   view_start = ps_start (path_segments p ! it), view_end = end'\<rparr>
      else Inl (Undefined_behaviour ''dereference of end iterator''))"

definition first_after :: "path \<Rightarrow> arc_length \<Rightarrow> nat" where
  "first_after p s = upper_bound (\<lambda>entry. s < ps_start entry) (path_segments p)"

text \<open>\<open>path::operator()\<close>\<close>

definition path_at :: "path \<Rightarrow> arc_length \<Rightarrow> segment_view res" where
  "path_at p s =
     (if path_segments p = [] then Inl (Runtime_error ''Path has no segments'')
      else if path_length p < s then Inl (Out_of_range ''Arc length exceeds path length'')
      else
        let it = first_after p s
        in if it = 0 then Inl (Runtime_error ''Arc length before path start'')
           else deref p (it - 1))"

definition path_configuration :: "path \<Rightarrow> arc_length \<Rightarrow> xvector res" where
  "path_configuration p s = bind_res (path_at p s) (\<lambda>v. view_configuration v s)"

definition path_tangent :: "path \<Rightarrow> arc_length \<Rightarrow> xvector res" where
  "path_tangent p s = bind_res (path_at p s) (\<lambda>v. view_tangent v s)"

definition path_curvature :: "path \<Rightarrow> arc_length \<Rightarrow> xvector res" where
  "path_curvature p s = bind_res (path_at p s) (\<lambda>v. view_curvature v s)"

section \<open>Cursors\<close>

record cursor =
  cur_path :: path
  cur_position :: arc_length
  cur_hint :: nat

definition view_contains :: "segment_view \<Rightarrow> arc_length \<Rightarrow> bool" where
  "view_contains v s \<longleftrightarrow> view_start v \<le> s \<and> s < view_end v"

text \<open>\<open>update_hint_\<close>, in the order of its tests.\<close>

definition search_hint :: "cursor \<Rightarrow> nat" where
  "search_hint c =
     (let seg_it = first_after (cur_path c) (cur_position c)
      in if seg_it = 0 then 0 else seg_it - 1)"

definition try_next_hint :: "cursor \<Rightarrow> nat option res" where
  "try_next_hint c =
     (let next_hint = Suc (cur_hint c)
      in if next_hint \<noteq> path_size (cur_path c)
         then bind_res (deref (cur_path c) next_hint) (\<lambda>next_view.
                Inr (if view_contains next_view (cur_position c) then Some next_hint else None))
         else Inr None)"

definition try_prev_hint :: "cursor \<Rightarrow> nat option res" where
  "try_prev_hint c =
     (if cur_hint c \<noteq> 0
      then let prev_hint = cur_hint c - 1
           in bind_res (deref (cur_path c) prev_hint) (\<lambda>prev_view.
                Inr (if view_contains prev_view (cur_position c) then Some prev_hint else None))
      else Inr None)"

definition update_hint :: "cursor \<Rightarrow> cursor res" where
  "update_hint c =
     bind_res (deref (cur_path c) (cur_hint c)) (\<lambda>current_view.
       if view_contains current_view (cur_position c) then Inr c
       else if feq (cur_position c) (view_end current_view)
       then bind_res (try_next_hint c) (\<lambda>h.
              case h of Some i \<Rightarrow> Inr (c\<lparr>cur_hint := i\<rparr>) | None \<Rightarrow> Inr c)
       else
         bind_res (try_prev_hint c) (\<lambda>h. case h of Some i \<Rightarrow> Inr (c\<lparr>cur_hint := i\<rparr>) | None \<Rightarrow>
         bind_res (if cur_hint c \<noteq> path_size (cur_path c) then try_next_hint c else Inr None)
           (\<lambda>h. case h of Some i \<Rightarrow> Inr (c\<lparr>cur_hint := i\<rparr>) | None \<Rightarrow>
         Inr (c\<lparr>cur_hint := search_hint c\<rparr>))))"

definition create_cursor :: "path \<Rightarrow> arc_length \<Rightarrow> cursor res" where
  "create_cursor p s =
     (if path_empty p then Inl (Invalid_argument ''Cannot create cursor for empty path'')
      else update_hint \<lparr>cur_path = p, cur_position = std_clamp s 0 (path_length p), cur_hint = 0\<rparr>)"

text \<open>\<open>c == c.end()\<close>\<close>

definition cursor_at_end :: "cursor \<Rightarrow> bool" where
  "cursor_at_end c \<longleftrightarrow> \<not> isfinite (cur_position c)"

definition seek_position :: "path \<Rightarrow> arc_length \<Rightarrow> arc_length" where
  "seek_position p s = (if s < 0 then NInf else if path_length p < s then PInf else s)"

definition cursor_seek :: "cursor \<Rightarrow> arc_length \<Rightarrow> cursor res" where
  "cursor_seek c s =
     (let c' = c\<lparr>cur_position := seek_position (cur_path c) s\<rparr>
      in if \<not> cursor_at_end c' then update_hint c' else Inr c')"

definition cursor_seek_by :: "cursor \<Rightarrow> arc_length \<Rightarrow> cursor res" where
  "cursor_seek_by c delta = cursor_seek c (cur_position c + delta)"

definition cursor_base :: "cursor \<Rightarrow> nat" where
  "cursor_base c = (if cursor_at_end c then path_size (cur_path c) else cur_hint c)"

text \<open>The three queries, filling a span of the caller's, and returning a vector.\<close>

definition cursor_query :: "(segment_view \<Rightarrow> arc_length \<Rightarrow> nat \<Rightarrow> xvector res) \<Rightarrow> cursor \<Rightarrow> nat \<Rightarrow> xvector res" where
  "cursor_query accessor c out_size =
     (if cursor_at_end c then Inl (Out_of_range ''Cannot query cursor at sentinel position'')
      else bind_res (deref (cur_path c) (cur_hint c)) (\<lambda>view. accessor view (cur_position c) out_size))"

definition cursor_configuration :: "cursor \<Rightarrow> xvector res" where
  "cursor_configuration c = cursor_query view_configuration_into c (path_dof (cur_path c))"

definition cursor_tangent :: "cursor \<Rightarrow> xvector res" where
  "cursor_tangent c = cursor_query view_tangent_into c (path_dof (cur_path c))"

definition cursor_curvature :: "cursor \<Rightarrow> xvector res" where
  "cursor_curvature c = cursor_query view_curvature_into c (path_dof (cur_path c))"

section \<open>Rich cursors\<close>

text \<open>The three bits of \<open>cached_bits_\<close> and the buffers they vouch for.\<close>

datatype component = Configuration | Tangent | Curvature

record rich =
  rich_cursor :: cursor
  rich_storage :: "component \<Rightarrow> xvector"
  rich_cached :: "component \<Rightarrow> bool"

fun cursor_component :: "component \<Rightarrow> cursor \<Rightarrow> xvector res" where
  "cursor_component Configuration = cursor_configuration"
| "cursor_component Tangent = cursor_tangent"
| "cursor_component Curvature = cursor_curvature"

definition enrich :: "cursor \<Rightarrow> rich" where
  "enrich c = \<lparr>rich_cursor = c, rich_storage = (\<lambda>_. replicate (path_dof (cur_path c)) 0),
     rich_cached = (\<lambda>_. False)\<rparr>"

definition rich_invalidate :: "rich \<Rightarrow> rich" where
  "rich_invalidate r = r\<lparr>rich_cached := (\<lambda>_. False)\<rparr>"

definition rich_seek :: "rich \<Rightarrow> arc_length \<Rightarrow> rich res" where
  "rich_seek r s =
     (let before = cur_position (rich_cursor r)
      in bind_res (cursor_seek (rich_cursor r) s) (\<lambda>c.
           let r' = r\<lparr>rich_cursor := c\<rparr>
           in Inr (if \<not> feq (cur_position c) before then rich_invalidate r' else r')))"

definition rich_seek_by :: "rich \<Rightarrow> arc_length \<Rightarrow> rich res" where
  "rich_seek_by r delta = rich_seek r (cur_position (rich_cursor r) + delta)"

text \<open>\<open>cached_\<close>, behind the three accessors \<open>configuration_ref\<close>, \<open>tangent_ref\<close>, \<open>curvature_ref\<close>.\<close>

definition rich_ref :: "component \<Rightarrow> rich \<Rightarrow> (xvector \<times> rich) res" where
  "rich_ref k r =
     (if \<not> rich_cached r k
      then bind_res (cursor_component k (rich_cursor r)) (\<lambda>v.
             Inr (v, r\<lparr>rich_storage := (rich_storage r)(k := v), rich_cached := (rich_cached r)(k := True)\<rparr>))
      else Inr (rich_storage r k, r))"

text \<open>The copying overload into a caller's span.\<close>

definition rich_component_into :: "component \<Rightarrow> rich \<Rightarrow> nat \<Rightarrow> (xvector \<times> rich) res" where
  "rich_component_into k r out_size =
     bind_res (rich_ref k r) (\<lambda>(cached, r').
     bind_res (require_dof out_size (length cached)) (\<lambda>_. Inr (cached, r')))"

section \<open>The lookup is right\<close>

text \<open>The segment that holds a position: the one before the first that starts after it.\<close>

definition segment_index :: "path \<Rightarrow> arc_length \<Rightarrow> nat" where
  "segment_index p s = first_after p s - 1"

lemma segment_index_unique:
  assumes "path_inv p" "i < path_size p" "ps_start (path_segments p ! i) \<le> Fin s"
    "Suc i < path_size p \<Longrightarrow> Fin s < ps_start (path_segments p ! Suc i)"
  shows "first_after p (Fin s) = Suc i" "segment_index p (Fin s) = i"
proof -
  obtain xs len where xs: "length xs = length (path_segments p)" "sorted_wrt (<) xs"
    "\<And>i. i < length xs \<Longrightarrow> ps_start (path_segments p ! i) = Fin (xs ! i) \<and> 0 \<le> xs ! i \<and> xs ! i < len"
    using path_positions [OF assms(1)] by metis
  show 1: "first_after p (Fin s) = Suc i"
    unfolding first_after_def
  proof (rule upper_bound_eqI)
    fix j assume j: "j < Suc i"
    then have "xs ! j \<le> xs ! i"
      using assms(2) xs(1) sorted_wrt_nth_less [OF xs(2), of j i]
      by (cases "j = i") (auto simp: path_size_def intro: less_imp_le)
    then show "\<not> Fin s < ps_start (path_segments p ! j)"
      using assms(2,3) xs(1) xs(3) [of i] xs(3) [of j] j by (auto simp: path_size_def)
  qed (use assms(2,4) in \<open>auto simp: path_size_def\<close>)
  then show "segment_index p (Fin s) = i" by (simp add: segment_index_def)
qed

lemma segment_index_bounds:
  assumes "path_inv p" "0 \<le> s" "Fin s \<le> path_length p"
  shows "first_after p (Fin s) = Suc (segment_index p (Fin s))"
    "segment_index p (Fin s) < path_size p"
    "ps_start (path_segments p ! segment_index p (Fin s)) \<le> Fin s"
    "Fin s \<le> segment_end p (segment_index p (Fin s))"
proof -
  obtain xs len where xs: "length xs = length (path_segments p)" "xs \<noteq> []" "path_length p = Fin len"
    "\<And>i. i < length xs \<Longrightarrow> ps_start (path_segments p ! i) = Fin (xs ! i) \<and> 0 \<le> xs ! i \<and> xs ! i < len"
    "xs ! 0 = 0"
    "\<And>i. i < length xs \<Longrightarrow> segment_end p i = Fin (if Suc i < length xs then xs ! Suc i else len)"
    using path_positions [OF assms(1)] by metis
  let ?k = "first_after p (Fin s)"
  have k: "?k \<le> length xs" using upper_bound_le xs(1) by (auto simp: first_after_def)
  have "?k \<noteq> 0"
  proof
    assume "?k = 0"
    then have "Fin s < ps_start (path_segments p ! 0)"
      using upper_bound_at [of "\<lambda>e. Fin s < ps_start e" "path_segments p"] xs(1,2)
      by (metis first_after_def length_greater_0_conv)
    with xs(2) xs(4) [of 0] xs(5) assms(2) show False by simp
  qed
  then show 1: "?k = Suc (segment_index p (Fin s))" by (simp add: segment_index_def)
  then show 2: "segment_index p (Fin s) < path_size p" using k xs(1) by (simp add: path_size_def)
  have "\<not> Fin s < ps_start (path_segments p ! segment_index p (Fin s))"
    using upper_bound_before [of "segment_index p (Fin s)" "\<lambda>e. Fin s < ps_start e" "path_segments p"] 1
    by (simp add: first_after_def)
  with xs(1) xs(4) [of "segment_index p (Fin s)"] 2
  show "ps_start (path_segments p ! segment_index p (Fin s)) \<le> Fin s" by (auto simp: path_size_def)
  show "Fin s \<le> segment_end p (segment_index p (Fin s))"
  proof (cases "Suc (segment_index p (Fin s)) < length xs")
    case True
    then have "Fin s < ps_start (path_segments p ! Suc (segment_index p (Fin s)))"
      using upper_bound_at [of "\<lambda>e. Fin s < ps_start e" "path_segments p"] xs(1) 1
      by (simp add: first_after_def)
    with True xs(4,6) show ?thesis by simp
  next
    case False
    with xs 2 assms(3) show ?thesis by (simp add: path_size_def)
  qed
qed

lemma deref_in_range:
  "i < path_size p \<Longrightarrow> deref p i = Inr \<lparr>view_segment = ps_seg (path_segments p ! i),
     view_start = ps_start (path_segments p ! i), view_end = segment_end p i\<rparr>"
  by (simp add: deref_def path_size_def segment_end_def)

text \<open>Whatever segment the hint points to, it ends up on the segment the binary search finds.\<close>

lemma update_hint_lookup:
  assumes inv: "path_inv (cur_path c)" "cur_hint c < path_size (cur_path c)"
    and s: "cur_position c = Fin s" "0 \<le> s" "Fin s \<le> path_length (cur_path c)"
  shows "update_hint c = Inr (c\<lparr>cur_hint := segment_index (cur_path c) (Fin s)\<rparr>)"
proof -
  let ?p = "cur_path c" and ?n = "path_size (cur_path c)"
  obtain xs len where xs: "length xs = ?n" "xs \<noteq> []" "path_length ?p = Fin len"
    "\<And>i. i < length xs \<Longrightarrow> ps_start (path_segments ?p ! i) = Fin (xs ! i) \<and> 0 \<le> xs ! i \<and> xs ! i < len"
    "sorted_wrt (<) xs"
    "\<And>i. i < length xs \<Longrightarrow> segment_end ?p i = Fin (if Suc i < length xs then xs ! Suc i else len)"
    using path_positions [OF inv(1)] by (metis path_size_def)
  define v where "v i = \<lparr>view_segment = ps_seg (path_segments ?p ! i),
     view_start = ps_start (path_segments ?p ! i), view_end = segment_end ?p i\<rparr>" for i
  have d: "deref ?p i = Inr (v i)" if "i < ?n" for i
    using that by (simp add: deref_in_range v_def)
  have hit: "segment_index ?p (Fin s) = i" if "i < ?n" "view_contains (v i) (Fin s)" for i
    using that xs by (intro segment_index_unique [OF inv(1)]) (auto simp: view_contains_def v_def)
  have same: "c\<lparr>cur_hint := cur_hint c\<rparr> = c" by simp
  have tn: "try_next_hint c = Inr (if Suc (cur_hint c) < ?n \<and> view_contains (v (Suc (cur_hint c))) (Fin s)
      then Some (Suc (cur_hint c)) else None)"
    using inv(2) d [of "Suc (cur_hint c)"] by (auto simp: try_next_hint_def Let_def s(1))
  have tp: "try_prev_hint c = Inr (if 0 < cur_hint c \<and> view_contains (v (cur_hint c - 1)) (Fin s)
      then Some (cur_hint c - 1) else None)"
    using inv(2) d [of "cur_hint c - 1"] by (auto simp: try_prev_hint_def Let_def s(1))
  have sh: "search_hint c = segment_index ?p (Fin s)"
    by (simp add: search_hint_def segment_index_def Let_def s(1))
  have boundary: "if Suc (cur_hint c) < ?n then view_contains (v (Suc (cur_hint c))) (Fin s)
      else segment_index ?p (Fin s) = cur_hint c" if "feq (Fin s) (view_end (v (cur_hint c)))"
  proof (cases "Suc (cur_hint c) < ?n")
    case True
    then have "s = xs ! Suc (cur_hint c)" using that inv(2) xs(1,6) by (simp add: v_def)
    moreover have "segment_end ?p (Suc (cur_hint c)) = Fin e \<Longrightarrow> xs ! Suc (cur_hint c) < e" for e
      using True xs(1) xs(4,6) [of "Suc (cur_hint c)"] sorted_wrt_nth_less [OF xs(5), of "Suc (cur_hint c)" "Suc (Suc (cur_hint c))"]
      by (auto split: if_splits)
    ultimately show ?thesis using True xs(1,4,6) by (simp add: view_contains_def v_def)
  next
    case False
    then have "s = len" using that inv(2) xs(1,6) by (simp add: v_def)
    with False inv(2) xs(1,4) show ?thesis
      by (auto intro!: segment_index_unique(2) [OF inv(1)] less_imp_le)
  qed
  let ?i = "cur_hint c"
  consider (here) "view_contains (v ?i) (Fin s)"
    | (edge) "\<not> view_contains (v ?i) (Fin s)" "feq (Fin s) (view_end (v ?i))"
    | (far) "\<not> view_contains (v ?i) (Fin s)" "\<not> feq (Fin s) (view_end (v ?i))" by blast
  then show ?thesis
  proof cases
    case here
    with hit [OF inv(2)] d [OF inv(2)] show ?thesis by (simp add: update_hint_def s(1))
  next
    case edge
    then show ?thesis
    proof (cases "Suc ?i < ?n")
      case True
      with boundary [OF edge(2)] hit [of "Suc ?i"] d [OF inv(2)] edge show ?thesis
        by (simp add: update_hint_def s(1) tn)
    next
      case False
      with boundary [OF edge(2)] d [OF inv(2)] edge show ?thesis
        by (simp add: update_hint_def s(1) tn)
    qed
  next
    case far
    with hit [of "?i - 1"] hit [of "Suc ?i"] d [OF inv(2)] inv(2) show ?thesis
      by (auto simp: update_hint_def s(1) tn tp sh)
  qed
qed

lemma update_hint_NaN:
  assumes "cur_hint c < path_size (cur_path c)" "cur_position c = NaN"
  shows "\<exists>i < path_size (cur_path c). update_hint c = Inr (c\<lparr>cur_hint := i\<rparr>)"
proof -
  have "\<not> view_contains v NaN" for v by (simp add: view_contains_def)
  moreover have "search_hint c < path_size (cur_path c)"
    using assms upper_bound_le [of _ "path_segments (cur_path c)"]
    by (auto simp: search_hint_def Let_def first_after_def path_size_def less_eq_Suc_le)
  ultimately show ?thesis
    using assms by (auto simp: update_hint_def try_next_hint_def try_prev_hint_def Let_def deref_in_range)
qed

section \<open>The cursor's contract\<close>

definition on_path :: "path \<Rightarrow> arc_length \<Rightarrow> bool" where
  "on_path p s \<longleftrightarrow> 0 \<le> s \<and> s \<le> path_length p"

definition cursor_inv :: "cursor \<Rightarrow> bool" where
  "cursor_inv c \<longleftrightarrow> path_inv (cur_path c) \<and> cur_hint c < path_size (cur_path c) \<and>
     (isfinite (cur_position c) \<longrightarrow> on_path (cur_path c) (cur_position c) \<and>
        cur_hint c = segment_index (cur_path c) (cur_position c))"

lemma path_length_finite: "path_inv p \<Longrightarrow> \<exists>len > 0. path_length p = Fin len"
  by (erule path_positions) blast

lemma cursor_seek_spec:
  assumes "cursor_inv c"
  shows "\<exists>i. cursor_seek c s = Inr (c\<lparr>cur_position := seek_position (cur_path c) s, cur_hint := i\<rparr>) \<and>
    cursor_inv (c\<lparr>cur_position := seek_position (cur_path c) s, cur_hint := i\<rparr>)"
proof -
  let ?p = "cur_path c" and ?q = "seek_position (cur_path c) s"
  have p: "path_inv ?p" "cur_hint c < path_size ?p" using assms by (auto simp: cursor_inv_def)
  obtain len where len: "path_length ?p = Fin len" using path_length_finite [OF p(1)] by blast
  show ?thesis
  proof (cases ?q)
    case (Fin x)
    then have x: "0 \<le> x" "Fin x \<le> path_length ?p"
      using len by (cases s; auto simp: seek_position_def split: if_splits)+
    have "update_hint (c\<lparr>cur_position := ?q\<rparr>) = Inr (c\<lparr>cur_position := ?q, cur_hint := segment_index ?p (Fin x)\<rparr>)"
      using update_hint_lookup [of "c\<lparr>cur_position := ?q\<rparr>" x] p Fin x by simp
    then show ?thesis
      using Fin x p segment_index_bounds(2) [OF p(1) x]
      by (intro exI [of _ "segment_index ?p (Fin x)"])
        (simp add: cursor_seek_def cursor_at_end_def Let_def cursor_inv_def on_path_def)
  qed (use assms p in \<open>auto intro!: exI [of _ "cur_hint c"] simp: cursor_seek_def cursor_at_end_def cursor_inv_def Let_def\<close>)
qed

lemma create_cursor_inv:
  assumes "path_inv p"
  shows "\<exists>c. create_cursor p s = Inr c \<and> cursor_inv c \<and> cur_path c = p \<and>
    cur_position c = std_clamp s 0 (path_length p)"
proof -
  obtain len where len: "path_length p = Fin len" "0 < len" using path_length_finite [OF assms] by blast
  let ?c = "\<lparr>cur_path = p, cur_position = std_clamp s 0 (path_length p), cur_hint = 0\<rparr>"
  have n: "0 < path_size p" "path_segments p \<noteq> []" using assms by (auto simp: path_inv_def path_size_def)
  show ?thesis
  proof (cases "std_clamp s 0 (path_length p)")
    case (Fin x)
    then have x: "0 \<le> x" "Fin x \<le> path_length p"
      using len by (cases s; auto simp: std_clamp_def split: if_splits)+
    have "update_hint ?c = Inr (?c\<lparr>cur_hint := segment_index p (Fin x)\<rparr>)"
      using update_hint_lookup [of ?c x] assms n Fin x by simp
    then show ?thesis
      using Fin x assms n segment_index_bounds(2) [OF assms x]
      by (simp add: create_cursor_def path_empty_def cursor_inv_def on_path_def)
  next
    case NaN
    then show ?thesis
      using update_hint_NaN [of ?c] assms n
      by (auto simp: create_cursor_def path_empty_def cursor_inv_def)
  qed (use len in \<open>cases s; auto simp: std_clamp_def split: if_splits\<close>)+
qed

text \<open>A query of a cursor is the path's own query at the cursor's position.\<close>

lemma cursor_query_path:
  assumes "cursor_inv c" "\<not> cursor_at_end c"
  shows "cursor_component k c = (case k of
      Configuration \<Rightarrow> path_configuration (cur_path c) (cur_position c)
    | Tangent \<Rightarrow> path_tangent (cur_path c) (cur_position c)
    | Curvature \<Rightarrow> path_curvature (cur_path c) (cur_position c))"
proof -
  let ?p = "cur_path c"
  obtain x where x: "cur_position c = Fin x" "0 \<le> x" "Fin x \<le> path_length ?p"
      "cur_hint c = segment_index ?p (Fin x)" and p: "path_inv ?p"
    using assms by (auto simp: cursor_inv_def cursor_at_end_def isfinite_iff on_path_def)
  note b = segment_index_bounds [OF p x(2,3)]
  have "\<not> path_length ?p < Fin x" using x(3) by (cases "path_length ?p") auto
  then have at: "path_at ?p (Fin x) = deref ?p (cur_hint c)"
    using b(1) p x(4) by (simp add: path_at_def path_inv_def)
  have dof: "segment_dof (ps_seg (path_segments ?p ! segment_index ?p (Fin x))) = path_dof ?p"
    using p b(2) segment_dof_inv by (auto simp: path_inv_def path_size_def)
  show ?thesis
    using assms(2) b(2) x(1,4) at dof
    by (cases k) (simp_all add: cursor_configuration_def cursor_tangent_def cursor_curvature_def
        cursor_query_def path_configuration_def path_tangent_def path_curvature_def deref_in_range
        view_configuration_def view_tangent_def view_curvature_def view_dof_def)
qed

text \<open>Inside the path the queries succeed.\<close>

lemma path_query_result:
  assumes "path_inv p" "0 \<le> x" "Fin x \<le> path_length p"
  shows "\<exists>a. ps_start (path_segments p ! segment_index p (Fin x)) = Fin a \<and> a \<le> x \<and>
    path_configuration p (Fin x) =
      Inr (segment_configuration (ps_seg (path_segments p ! segment_index p (Fin x))) (x - a)) \<and>
    path_tangent p (Fin x) =
      Inr (segment_tangent (ps_seg (path_segments p ! segment_index p (Fin x))) (x - a)) \<and>
    path_curvature p (Fin x) =
      Inr (segment_curvature (ps_seg (path_segments p ! segment_index p (Fin x))) (x - a))"
proof -
  note b = segment_index_bounds [OF assms]
  obtain xs len where xs: "length xs = path_size p" "path_length p = Fin len"
    "\<And>i. i < length xs \<Longrightarrow> ps_start (path_segments p ! i) = Fin (xs ! i)"
    "\<And>i. i < length xs \<Longrightarrow> segment_end p i = Fin (if Suc i < length xs then xs ! Suc i else len)"
    using path_positions [OF assms(1)] by (metis path_size_def)
  let ?i = "segment_index p (Fin x)"
  have at: "path_at p (Fin x) = deref p ?i"
    using b(1) assms xs(2) by (simp add: path_at_def path_inv_def)
  show ?thesis
    using b(2-4) xs(1) xs(3,4) [of ?i]
    by (intro exI [of _ "xs ! ?i"])
      (simp add: path_configuration_def path_tangent_def path_curvature_def at deref_in_range
        view_configuration_def view_tangent_def view_curvature_def view_configuration_into_def
        view_tangent_into_def view_curvature_into_def view_query_def Let_def view_length_def require_dof_def)
qed

definition path_component :: "component \<Rightarrow> path \<Rightarrow> arc_length \<Rightarrow> xvector res" where
  "path_component k p s = (case k of
      Configuration \<Rightarrow> path_configuration p s
    | Tangent \<Rightarrow> path_tangent p s
    | Curvature \<Rightarrow> path_curvature p s)"

text \<open>
  The concept \<open>cursor_like\<close> of the header with the laws its users rely on: a seek saturates and
  otherwise lands where it was told, whatever came before, and a query answers for the position.
\<close>

locale cursor_like =
  fixes inv :: "'c \<Rightarrow> bool"
    and path_of :: "'c \<Rightarrow> path"
    and position :: "'c \<Rightarrow> arc_length"
    and seek :: "'c \<Rightarrow> arc_length \<Rightarrow> 'c res"
    and query :: "component \<Rightarrow> 'c \<Rightarrow> ('r \<times> 'c) res"
    and answer :: "'r \<Rightarrow> xvector"
  assumes path_ok: "inv c \<Longrightarrow> path_inv (path_of c)"
    and seek_law: "inv c \<Longrightarrow> \<exists>c'. seek c s = Inr c' \<and> inv c' \<and> path_of c' = path_of c \<and>
      position c' = seek_position (path_of c) s"
    and query_end: "inv c \<Longrightarrow> \<not> isfinite (position c) \<Longrightarrow>
      query k c = Inl (Out_of_range ''Cannot query cursor at sentinel position'')"
    and query_law: "inv c \<Longrightarrow> isfinite (position c) \<Longrightarrow>
      \<exists>r c'. query k c = Inr (r, c') \<and> Inr (answer r) = path_component k (path_of c) (position c) \<and>
        inv c' \<and> path_of c' = path_of c \<and> position c' = position c"
begin

lemma seek_lands:
  assumes "inv c" "on_path (path_of c) s"
  obtains c' where "seek c s = Inr c'" "inv c'" "path_of c' = path_of c" "position c' = s" "isfinite s"
proof -
  obtain len where len: "path_length (path_of c) = Fin len"
    using path_length_finite [OF path_ok [OF assms(1)]] by blast
  have "seek_position (path_of c) s = s" "isfinite s"
    using assms(2) len by (cases s; simp add: seek_position_def on_path_def)+
  with seek_law [OF assms(1), of s] that show thesis by auto
qed

lemma seek_then_query:
  assumes "inv c" "on_path (path_of c) s"
  shows "\<exists>c' r c''. seek c s = Inr c' \<and> query k c' = Inr (r, c'') \<and>
    Inr (answer r) = path_component k (path_of c) s"
  using assms query_law by (metis seek_lands)

text \<open>Any sequence of seeks, from any state, leaves the cursor where the last one puts it.\<close>

lemma seeks_saturate:
  assumes "inv c"
  shows "\<exists>c'. foldl (\<lambda>r s. bind_res r (\<lambda>c. seek c s)) (Inr c) (ss @ [s]) = Inr c' \<and> inv c' \<and>
    path_of c' = path_of c \<and> position c' = seek_position (path_of c) s"
proof -
  have "\<exists>c'. foldl (\<lambda>r s. bind_res r (\<lambda>c. seek c s)) (Inr c) ss = Inr c' \<and> inv c' \<and> path_of c' = path_of c"
    using assms
  proof (induction ss rule: rev_induct)
    case (snoc x xs)
    then obtain c' where c': "foldl (\<lambda>r s. bind_res r (\<lambda>c. seek c s)) (Inr c) xs = Inr c'" "inv c'"
      "path_of c' = path_of c" by blast
    from seek_law [OF c'(2), of x] c' show ?case by auto
  qed simp
  then obtain c' where c': "foldl (\<lambda>r s. bind_res r (\<lambda>c. seek c s)) (Inr c) ss = Inr c'" "inv c'"
    "path_of c' = path_of c" by blast
  from seek_law [OF c'(2), of s] c' show ?thesis by auto
qed

end

text \<open>The plain cursor has the contract.\<close>

definition plain_query :: "component \<Rightarrow> cursor \<Rightarrow> (xvector \<times> cursor) res" where
  "plain_query k c = bind_res (cursor_component k c) (\<lambda>v. Inr (v, c))"

lemma cursor_component_end:
  "cursor_at_end c \<Longrightarrow> cursor_component k c = Inl (Out_of_range ''Cannot query cursor at sentinel position'')"
  by (cases k) (simp_all add: cursor_configuration_def cursor_tangent_def cursor_curvature_def cursor_query_def)

lemma cursor_component_on_path:
  assumes "cursor_inv c" "isfinite (cur_position c)"
  shows "\<exists>v. cursor_component k c = Inr v \<and> path_component k (cur_path c) (cur_position c) = Inr v"
proof -
  obtain x where "cur_position c = Fin x" "0 \<le> x" "Fin x \<le> path_length (cur_path c)" "path_inv (cur_path c)"
    using assms by (auto simp: cursor_inv_def isfinite_iff on_path_def)
  moreover from path_query_result [OF this(4,2,3)]
  have "\<exists>v. path_component k (cur_path c) (Fin x) = Inr v"
    by (cases k) (auto simp: path_component_def)
  moreover have "cursor_component k c = path_component k (cur_path c) (cur_position c)"
    using cursor_query_path [of c k] assms unfolding path_component_def cursor_at_end_def by simp
  ultimately show ?thesis by simp
qed

interpretation plain: cursor_like cursor_inv cur_path cur_position cursor_seek plain_query "\<lambda>v. v"
proof
  fix c s k
  show "cursor_inv c \<Longrightarrow> path_inv (cur_path c)" by (simp add: cursor_inv_def)
  show "cursor_inv c \<Longrightarrow> \<exists>c'. cursor_seek c s = Inr c' \<and> cursor_inv c' \<and> cur_path c' = cur_path c \<and>
      cur_position c' = seek_position (cur_path c) s"
    using cursor_seek_spec [of c s] by auto
  show "\<not> isfinite (cur_position c) \<Longrightarrow>
      plain_query k c = Inl (Out_of_range ''Cannot query cursor at sentinel position'')"
    by (simp add: plain_query_def cursor_component_end cursor_at_end_def)
  show "cursor_inv c \<Longrightarrow> isfinite (cur_position c) \<Longrightarrow> \<exists>r c'. plain_query k c = Inr (r, c') \<and>
      Inr r = path_component k (cur_path c) (cur_position c) \<and> cursor_inv c' \<and> cur_path c' = cur_path c \<and>
      cur_position c' = cur_position c"
    using cursor_component_on_path [of c k] by (auto simp: plain_query_def)
qed

text \<open>
  The rich cursor: a set bit vouches that the buffer holds what the plain cursor would compute now.
\<close>

definition rich_inv :: "rich \<Rightarrow> bool" where
  "rich_inv r \<longleftrightarrow> cursor_inv (rich_cursor r) \<and>
     (\<forall>k. rich_cached r k \<longrightarrow> cursor_component k (rich_cursor r) = Inr (rich_storage r k))"

lemma rich_inv_enrich: "cursor_inv c \<Longrightarrow> rich_inv (enrich c)"
  by (simp add: rich_inv_def enrich_def)

lemma rich_seek_spec:
  assumes "rich_inv r"
  shows "\<exists>r'. rich_seek r s = Inr r' \<and> rich_inv r' \<and> cursor_seek (rich_cursor r) s = Inr (rich_cursor r')"
proof -
  let ?c = "rich_cursor r"
  have c: "cursor_inv ?c" using assms by (simp add: rich_inv_def)
  obtain i where i: "cursor_seek ?c s = Inr (?c\<lparr>cur_position := seek_position (cur_path ?c) s, cur_hint := i\<rparr>)"
    "cursor_inv (?c\<lparr>cur_position := seek_position (cur_path ?c) s, cur_hint := i\<rparr>)"
    using cursor_seek_spec [OF c, of s] by blast
  let ?c' = "?c\<lparr>cur_position := seek_position (cur_path ?c) s, cur_hint := i\<rparr>"
  show ?thesis
  proof (cases "feq (cur_position ?c') (cur_position ?c)")
    case False
    with i show ?thesis
      by (simp add: rich_seek_def rich_invalidate_def rich_inv_def Let_def)
  next
    case True
    then have same: "cur_position ?c' = cur_position ?c" by (simp add: feq_def)
    have "cursor_component k ?c' = cursor_component k ?c" if "rich_cached r k" for k
    proof (cases "isfinite (cur_position ?c)")
      case fin: True
      then have "i = cur_hint ?c" using c i(2) same by (auto simp: cursor_inv_def)
      with same show ?thesis by simp
    next
      case False
      then show ?thesis using same by (simp add: cursor_component_end cursor_at_end_def)
    qed
    with True i assms show ?thesis
      by (simp add: rich_seek_def rich_inv_def Let_def)
  qed
qed

lemma rich_ref_spec:
  assumes "rich_inv r"
  shows "case cursor_component k (rich_cursor r) of
      Inl e \<Rightarrow> rich_ref k r = Inl e
    | Inr v \<Rightarrow> \<exists>r'. rich_ref k r = Inr (v, r') \<and> rich_inv r' \<and> rich_cursor r' = rich_cursor r \<and> rich_cached r' k"
  using assms by (cases "rich_cached r k") (auto simp: rich_ref_def rich_inv_def split: sum.splits)

interpretation enriched: cursor_like rich_inv "\<lambda>r. cur_path (rich_cursor r)" "\<lambda>r. cur_position (rich_cursor r)"
  rich_seek rich_ref "\<lambda>v. v"
proof
  fix r s k
  show "rich_inv r \<Longrightarrow> path_inv (cur_path (rich_cursor r))"
    by (simp add: rich_inv_def cursor_inv_def)
  show "rich_inv r \<Longrightarrow> \<exists>c'. rich_seek r s = Inr c' \<and> rich_inv c' \<and>
      cur_path (rich_cursor c') = cur_path (rich_cursor r) \<and>
      cur_position (rich_cursor c') = seek_position (cur_path (rich_cursor r)) s"
    using rich_seek_spec [of r s] plain.seek_law [of "rich_cursor r" s] by (auto simp: rich_inv_def)
  show "rich_inv r \<Longrightarrow> \<not> isfinite (cur_position (rich_cursor r)) \<Longrightarrow>
      rich_ref k r = Inl (Out_of_range ''Cannot query cursor at sentinel position'')"
    using rich_ref_spec [of r k] by (simp add: cursor_component_end cursor_at_end_def)
  show "rich_inv r \<Longrightarrow> isfinite (cur_position (rich_cursor r)) \<Longrightarrow> \<exists>v r'. rich_ref k r = Inr (v, r') \<and>
      Inr v = path_component k (cur_path (rich_cursor r)) (cur_position (rich_cursor r)) \<and> rich_inv r' \<and>
      cur_path (rich_cursor r') = cur_path (rich_cursor r) \<and>
      cur_position (rich_cursor r') = cur_position (rich_cursor r)"
    using rich_ref_spec [of r k] cursor_component_on_path [of "rich_cursor r" k]
    by (auto simp: rich_inv_def)
qed

section \<open>All of it returns\<close>

lemma halts_deref [halts_intros]: "halts (deref p i)"
  by (simp add: deref_def Let_def)

lemma halts_view_query [halts_intros]: "halts (view_query visitor v s n)"
  by (auto simp: view_query_def require_dof_def Let_def split: dbl.splits)

lemma halts_view [halts_intros]:
  "halts (view_configuration v s)" "halts (view_tangent v s)" "halts (view_curvature v s)"
  by (simp_all add: view_configuration_def view_configuration_into_def view_tangent_def
      view_tangent_into_def view_curvature_def view_curvature_into_def halts_view_query)

lemma halts_path_at [halts_intros]: "halts (path_at p s)"
  by (simp add: path_at_def Let_def halts_deref)

lemma halts_path_configuration [halts_intros]: "halts (path_configuration p s)"
  unfolding path_configuration_def by (intro halts_intros)

lemma halts_update_hint [halts_intros]: "halts (update_hint c)"
proof -
  have "halts (try_next_hint c)" "halts (try_prev_hint c)"
    by (auto simp: try_next_hint_def try_prev_hint_def Let_def intro!: halts_intros)
  then show ?thesis
    by (auto simp: update_hint_def intro!: halts_intros split: option.splits)
qed

lemma halts_cursor_seek [halts_intros]: "halts (cursor_seek c s)"
  by (simp add: cursor_seek_def Let_def halts_update_hint)

lemma halts_cursor_query [halts_intros]:
  "halts (cursor_configuration c)" "halts (cursor_tangent c)" "halts (cursor_curvature c)"
  by (auto simp: cursor_configuration_def cursor_tangent_def cursor_curvature_def cursor_query_def
      view_configuration_into_def view_tangent_into_def view_curvature_into_def intro!: halts_intros)

section \<open>Properties of cursors\<close>

definition unit_path :: path where
  "unit_path = \<lparr>path_segments = [\<lparr>ps_seg = Linear \<lparr>lin_start = [0], lin_unit_direction = [1],
     lin_length = Fin 2\<rparr>, ps_start = Fin 0\<rparr>], path_dof = 1, path_length = Fin 2\<rparr>"

lemma unit_path_inv: "path_inv unit_path"
  by (simp add: unit_path_def path_inv_def norm_l2_def)

text \<open>
  C27: The hint of a cursor does not matter. After any seek, from any reachable cursor, a cursor
  inside the path stands on the segment that the binary search over all segments finds, and its
  hint is a valid index; a position outside the path (or NaN) becomes a sentinel. The hint search
  never reads through an end iterator.
\<close>

theorem seek_ignores_hint:
  assumes "cursor_inv c"
  shows "\<exists>c'. cursor_seek c s = Inr c' \<and> cursor_inv c' \<and> cur_path c' = cur_path c \<and>
    (if on_path (cur_path c) s
     then cur_position c' = s \<and> cur_hint c' = first_after (cur_path c) s - 1 \<and>
       deref (cur_path c) (cur_hint c') = path_at (cur_path c) s
     else cursor_at_end c')"
proof -
  obtain i where i: "cursor_seek c s = Inr (c\<lparr>cur_position := seek_position (cur_path c) s, cur_hint := i\<rparr>)"
    "cursor_inv (c\<lparr>cur_position := seek_position (cur_path c) s, cur_hint := i\<rparr>)"
    using cursor_seek_spec [OF assms, of s] by blast
  let ?p = "cur_path c"
  have p: "path_inv ?p" using assms by (simp add: cursor_inv_def)
  obtain len where len: "path_length ?p = Fin len" using path_length_finite [OF p] by blast
  show ?thesis
  proof (cases "on_path ?p s")
    case True
    then obtain x where x: "s = Fin x" "0 \<le> x" "x \<le> len"
      using len by (cases s) (auto simp: on_path_def)
    have "seek_position ?p s = s" using x len by (simp add: seek_position_def)
    moreover have "i = first_after ?p s - 1"
      using i(2) calculation x(1) by (simp add: cursor_inv_def segment_index_def)
    moreover have "path_at ?p s = deref ?p i"
      using segment_index_bounds(1) [OF p x(2)] x len p calculation(2)
      by (simp add: path_at_def path_inv_def)
    ultimately show ?thesis using i True by auto
  next
    case False
    then have "\<not> isfinite (seek_position ?p s)"
      using len by (cases s) (auto simp: seek_position_def on_path_def)
    with False i show ?thesis by (auto simp: cursor_at_end_def)
  qed
qed

theorem seek_ignores_hint_witness:
  "\<exists>c'. cursor_seek \<lparr>cur_path = unit_path, cur_position = PInf, cur_hint = 0\<rparr> (Fin 1) = Inr c' \<and>
     cur_position c' = Fin 1"
  using seek_ignores_hint [of "\<lparr>cur_path = unit_path, cur_position = PInf, cur_hint = 0\<rparr>" "Fin 1"] unit_path_inv
  by (auto simp: cursor_inv_def on_path_def path_size_def unit_path_def)

text \<open>
  C28: The cache of the rich cursor is transparent: after any sequence of seeks, and however many
  queries came in between, each of the three cached queries returns what the path itself returns
  at the current position, and a rich cursor outside the path throws as the plain one does.
\<close>

theorem rich_cache_transparent:
  assumes "rich_inv r"
  shows "\<exists>r'. foldl (\<lambda>x s. bind_res x (\<lambda>r. rich_seek r s)) (Inr r) (ss @ [s]) = Inr r' \<and>
    (\<exists>r''. rich_ref k r' = (if on_path (cur_path (rich_cursor r)) s
        then bind_res (path_component k (cur_path (rich_cursor r)) s) (\<lambda>v. Inr (v, r''))
        else Inl (Out_of_range ''Cannot query cursor at sentinel position'')) \<and>
      (on_path (cur_path (rich_cursor r)) s \<longrightarrow> rich_inv r'' \<and> rich_cursor r'' = rich_cursor r'))"
proof -
  let ?p = "cur_path (rich_cursor r)"
  obtain r' where r': "foldl (\<lambda>x s. bind_res x (\<lambda>r. rich_seek r s)) (Inr r) (ss @ [s]) = Inr r'" "rich_inv r'"
    "cur_path (rich_cursor r') = ?p" "cur_position (rich_cursor r') = seek_position ?p s"
    using enriched.seeks_saturate [OF assms, of ss s] by blast
  obtain len where len: "path_length ?p = Fin len"
    using path_length_finite enriched.path_ok [OF assms] by blast
  show ?thesis
  proof (cases "on_path ?p s")
    case True
    then have s: "seek_position ?p s = s" "isfinite s"
      using len by (cases s; auto simp: seek_position_def on_path_def)+
    then obtain v where v: "cursor_component k (rich_cursor r') = Inr v" "path_component k ?p s = Inr v"
      using cursor_component_on_path [of "rich_cursor r'" k] r' by (auto simp: rich_inv_def)
    then obtain r'' where "rich_ref k r' = Inr (v, r'')" "rich_inv r''" "rich_cursor r'' = rich_cursor r'"
      using rich_ref_spec [OF r'(2), of k] by auto
    with r' v True show ?thesis by auto
  next
    case False
    then have "\<not> isfinite (seek_position ?p s)"
      using len by (cases s) (auto simp: seek_position_def on_path_def)
    with enriched.query_end [OF r'(2)] r' False show ?thesis by auto
  qed
qed

theorem rich_cache_transparent_witness:
  "\<exists>r'. foldl (\<lambda>x s. bind_res x (\<lambda>r. rich_seek r s))
      (Inr (enrich \<lparr>cur_path = unit_path, cur_position = PInf, cur_hint = 0\<rparr>)) ([Fin 1] @ [Fin 3]) = Inr r' \<and>
    rich_ref Tangent r' = Inl (Out_of_range ''Cannot query cursor at sentinel position'')"
proof -
  have "rich_inv (enrich \<lparr>cur_path = unit_path, cur_position = PInf, cur_hint = 0\<rparr>)"
    using unit_path_inv by (intro rich_inv_enrich) (simp add: cursor_inv_def path_size_def unit_path_def)
  from rich_cache_transparent [OF this, of "[Fin 1]" "Fin 3" Tangent] show ?thesis
    by (simp add: enrich_def on_path_def unit_path_def)
qed

end
