(* ===== verification/Limit_Curves.thy ===== *)
theory Limit_Curves
  imports Path_Cursor
begin

text \<open>
  The phase plane and its limit curves (\<open>trajectory.cpp\<close>, first part): the velocity limit of the
  joints and of the tool centre point, the acceleration limit curve, the bounds of the path
  acceleration, the slope of the velocity curve, and the Euler step. The evaluator of the tool
  speed is a function the caller supplies; it is a parameter that may answer, decline or throw.
\<close>

section \<open>Options and phase points\<close>

record linear_speed =
  ls_value :: dbl
  ls_arc_length_derivative :: dbl

record tcp_limits =
  tcp_max_linear_speed :: dbl
  tcp_evaluator :: "xvector \<Rightarrow> xvector \<Rightarrow> xvector \<Rightarrow> linear_speed option res"

record traj_options =
  to_max_velocity :: xvector
  to_max_acceleration :: xvector
  to_delta :: seconds
  to_epsilon :: epsilon
  to_tcp :: "tcp_limits option"

definition k_default_delta :: seconds where "k_default_delta = Fin (1 / 1000)"
definition k_default_epsilon :: epsilon where "k_default_epsilon = Fin (1 / 10 ^ 6)"

record phase_point =
  pp_s :: arc_length
  pp_s_dot :: arc_velocity

record acceleration_bounds =
  ab_s_ddot_min :: arc_acceleration
  ab_s_ddot_max :: arc_acceleration

section \<open>Limit curves\<close>

record limiting_joint =
  lj_index :: nat
  lj_q_prime :: real
  lj_q_double_prime :: real

text \<open>The loop over the joints carries the least limit so far and the joint that sets it.\<close>

definition joint_limit_step :: "xvector \<Rightarrow> xvector \<Rightarrow> epsilon \<Rightarrow> nat \<Rightarrow> dbl \<times> nat \<Rightarrow> dbl \<times> nat" where
  "joint_limit_step q_prime q_dot_max eps i = (\<lambda>(min_limit, limiting).
     if Fin \<bar>q_prime ! i\<bar> < eps then (min_limit, limiting)
     else
       let limit = divide (Fin (q_dot_max ! i)) (Fin \<bar>q_prime ! i\<bar>)
       in if limit < min_limit then (limit, i) else (min_limit, limiting))"

definition compute_joint_velocity_limit ::
  "xvector \<Rightarrow> xvector \<Rightarrow> xvector \<Rightarrow> epsilon \<Rightarrow> arc_velocity \<times> limiting_joint" where
  "compute_joint_velocity_limit q_prime q_double_prime q_dot_max eps =
     (let (min_limit, limiting) =
            fold (joint_limit_step q_prime q_dot_max eps) [0..<length q_prime] (PInf, 0)
      in (min_limit, \<lparr>lj_index = limiting, lj_q_prime = q_prime ! limiting,
                      lj_q_double_prime = q_double_prime ! limiting\<rparr>))"

definition compute_tcp_velocity_limit ::
  "xvector \<Rightarrow> xvector \<Rightarrow> xvector \<Rightarrow> tcp_limits \<Rightarrow> epsilon \<Rightarrow> (arc_velocity \<times> linear_speed option) res" where
  "compute_tcp_velocity_limit q q_prime q_double_prime tcp eps =
     bind_res (tcp_evaluator tcp q q_prime q_double_prime) (\<lambda>r.
       case r of
         None \<Rightarrow> Inr (PInf, None)
       | Some v \<Rightarrow>
           if \<not> isfinite (ls_value v) \<or> ls_value v < 0
           then Inl (Runtime_error ''compute_tcp_velocity_limit: evaluator returned a bad TCP speed ratio'')
           else if ls_value v < eps then Inr (PInf, Some v)
           else Inr (divide (tcp_max_linear_speed tcp) (ls_value v), Some v))"

text \<open>Equation 31, with the minimum taken over the squares; first the pairs of moving joints.\<close>

definition pair_limit_step :: "xvector \<Rightarrow> xvector \<Rightarrow> xvector \<Rightarrow> epsilon \<Rightarrow> nat \<Rightarrow> nat \<Rightarrow> dbl \<Rightarrow> dbl" where
  "pair_limit_step q_prime q_double_prime q_ddot_max eps i j s_dot_max_accel_sq =
     (if Fin \<bar>q_prime ! j\<bar> < eps then s_dot_max_accel_sq
      else
        let curvature_ratio_i = divide (Fin (q_double_prime ! i)) (Fin (q_prime ! i));
            accel_sum_i_term = divide (Fin (q_ddot_max ! i)) (Fin \<bar>q_prime ! i\<bar>);
            curvature_ratio_j = divide (Fin (q_double_prime ! j)) (Fin (q_prime ! j));
            curvature_difference = \<bar>curvature_ratio_i - curvature_ratio_j\<bar>
        in if curvature_difference < eps then s_dot_max_accel_sq
           else
             let accel_sum_j_term = divide (Fin (q_ddot_max ! j)) (Fin \<bar>q_prime ! j\<bar>);
                 limit_sq = divide (accel_sum_i_term + accel_sum_j_term) curvature_difference
             in std_min s_dot_max_accel_sq limit_sq)"

definition moving_limit_step :: "xvector \<Rightarrow> xvector \<Rightarrow> xvector \<Rightarrow> epsilon \<Rightarrow> nat \<Rightarrow> dbl \<Rightarrow> dbl" where
  "moving_limit_step q_prime q_double_prime q_ddot_max eps i s_dot_max_accel_sq =
     (if Fin \<bar>q_prime ! i\<bar> < eps then s_dot_max_accel_sq
      else fold (pair_limit_step q_prime q_double_prime q_ddot_max eps i) [Suc i..<length q_prime]
             s_dot_max_accel_sq)"

text \<open>Then the joints at rest along the path that curve.\<close>

definition resting_limit_step :: "xvector \<Rightarrow> xvector \<Rightarrow> xvector \<Rightarrow> epsilon \<Rightarrow> nat \<Rightarrow> dbl \<Rightarrow> dbl" where
  "resting_limit_step q_prime q_double_prime q_ddot_max eps i s_dot_max_accel_sq =
     (if eps \<le> Fin \<bar>q_prime ! i\<bar> then s_dot_max_accel_sq
      else if Fin \<bar>q_double_prime ! i\<bar> < eps then s_dot_max_accel_sq
      else std_min s_dot_max_accel_sq (divide (Fin (q_ddot_max ! i)) (Fin \<bar>q_double_prime ! i\<bar>)))"

definition acceleration_limit_sq :: "xvector \<Rightarrow> xvector \<Rightarrow> xvector \<Rightarrow> epsilon \<Rightarrow> dbl" where
  "acceleration_limit_sq q_prime q_double_prime q_ddot_max eps =
     fold (resting_limit_step q_prime q_double_prime q_ddot_max eps) [0..<length q_prime]
       (fold (moving_limit_step q_prime q_double_prime q_ddot_max eps) [0..<length q_prime] PInf)"

definition compute_acceleration_limit :: "xvector \<Rightarrow> xvector \<Rightarrow> xvector \<Rightarrow> epsilon \<Rightarrow> arc_velocity" where
  "compute_acceleration_limit q_prime q_double_prime q_ddot_max eps =
     fsqrt (acceleration_limit_sq q_prime q_double_prime q_ddot_max eps)"

record limit_curves =
  lc_s_dot_max_acc :: arc_velocity
  lc_s_dot_max_vel :: arc_velocity
  lc_joint :: arc_velocity
  lc_tcp :: arc_velocity
  lc_limiting :: limiting_joint
  lc_tcp_ratio :: "linear_speed option"

definition compute_joint_limit_curves :: "xvector \<Rightarrow> xvector \<Rightarrow> traj_options \<Rightarrow> limit_curves" where
  "compute_joint_limit_curves q_prime q_double_prime opt =
     (let (limit, limiting) =
            compute_joint_velocity_limit q_prime q_double_prime (to_max_velocity opt) (to_epsilon opt)
      in \<lparr>lc_s_dot_max_acc =
            compute_acceleration_limit q_prime q_double_prime (to_max_acceleration opt) (to_epsilon opt),
          lc_s_dot_max_vel = limit, lc_joint = limit, lc_tcp = PInf, lc_limiting = limiting,
          lc_tcp_ratio = None\<rparr>)"

definition compute_limit_curves :: "xvector \<Rightarrow> xvector \<Rightarrow> xvector \<Rightarrow> traj_options \<Rightarrow> limit_curves res" where
  "compute_limit_curves q q_prime q_double_prime opt =
     (let curves = compute_joint_limit_curves q_prime q_double_prime opt
      in case to_tcp opt of
           None \<Rightarrow> Inr curves
         | Some tcp \<Rightarrow>
             bind_res (compute_tcp_velocity_limit q q_prime q_double_prime tcp (to_epsilon opt))
               (\<lambda>(limit, ratio).
                  Inr (curves\<lparr>lc_tcp := limit, lc_tcp_ratio := ratio,
                              lc_s_dot_max_vel := std_min (lc_joint curves) limit\<rparr>)))"

text \<open>
  The same at a cursor's position; the configuration is read only for a tool limit. The rich
  cursor of the integrator lends the values its plain cursor would compute (see \<open>Path_Cursor\<close>),
  so the model reads them from the plain cursor.
\<close>

definition cursor_limit_curves :: "cursor \<Rightarrow> traj_options \<Rightarrow> limit_curves res" where
  "cursor_limit_curves c opt =
     bind_res (cursor_tangent c) (\<lambda>q_prime.
     bind_res (cursor_curvature c) (\<lambda>q_double_prime.
       case to_tcp opt of
         None \<Rightarrow> Inr (compute_joint_limit_curves q_prime q_double_prime opt)
       | Some _ \<Rightarrow>
           bind_res (cursor_configuration c) (\<lambda>q. compute_limit_curves q q_prime q_double_prime opt)))"

section \<open>Acceleration bounds\<close>

definition bounds_step :: "xvector \<Rightarrow> xvector \<Rightarrow> arc_velocity \<Rightarrow> xvector \<Rightarrow> epsilon \<Rightarrow> nat \<Rightarrow>
    acceleration_bounds \<Rightarrow> acceleration_bounds" where
  "bounds_step q_prime q_double_prime s_dot q_ddot_max eps i b =
     (if Fin \<bar>q_prime ! i\<bar> < eps then b
      else
        let centripetal_term = Fin (q_double_prime ! i) * (s_dot * s_dot);
            min_from_joint = divide (- Fin (q_ddot_max ! i)) (Fin \<bar>q_prime ! i\<bar>) -
                             divide centripetal_term (Fin (q_prime ! i));
            max_from_joint = divide (Fin (q_ddot_max ! i)) (Fin \<bar>q_prime ! i\<bar>) -
                             divide centripetal_term (Fin (q_prime ! i))
        in \<lparr>ab_s_ddot_min = std_max (ab_s_ddot_min b) min_from_joint,
            ab_s_ddot_max = std_min (ab_s_ddot_max b) max_from_joint\<rparr>)"

definition compute_acceleration_bounds_unchecked ::
  "xvector \<Rightarrow> xvector \<Rightarrow> arc_velocity \<Rightarrow> xvector \<Rightarrow> epsilon \<Rightarrow> acceleration_bounds" where
  "compute_acceleration_bounds_unchecked q_prime q_double_prime s_dot q_ddot_max eps =
     fold (bounds_step q_prime q_double_prime s_dot q_ddot_max eps) [0..<length q_prime]
       \<lparr>ab_s_ddot_min = NInf, ab_s_ddot_max = PInf\<rparr>"

definition compute_acceleration_bounds ::
  "xvector \<Rightarrow> xvector \<Rightarrow> arc_velocity \<Rightarrow> xvector \<Rightarrow> epsilon \<Rightarrow> acceleration_bounds res" where
  "compute_acceleration_bounds q_prime q_double_prime s_dot q_ddot_max eps =
     (let b = compute_acceleration_bounds_unchecked q_prime q_double_prime s_dot q_ddot_max eps;
          lo = ab_s_ddot_min b; hi = ab_s_ddot_max b
      in if eps_greater eps lo hi
         then Inl (Runtime_error ''TOTG algorithm error: acceleration bounds are infeasible'')
         else if eps_eq eps hi lo
         then Inr \<lparr>ab_s_ddot_min = std_min lo hi, ab_s_ddot_max = std_min lo hi\<rparr>
         else Inr b)"

section \<open>Slopes\<close>

definition compute_joint_velocity_limit_slope ::
  "limiting_joint \<Rightarrow> xvector \<Rightarrow> epsilon \<Rightarrow> phase_plane_slope res" where
  "compute_joint_velocity_limit_slope limiting q_dot_max eps =
     (let numerator = - (q_dot_max ! lj_index limiting) * lj_q_double_prime limiting;
          denominator = lj_q_prime limiting * \<bar>lj_q_prime limiting\<bar>
      in if Fin \<bar>denominator\<bar> < eps
         then Inl (Runtime_error ''compute_joint_velocity_limit_slope: denominator near zero'')
         else Inr (divide (Fin numerator) (Fin denominator)))"

text \<open>
  The assertion that a tool limit below the joint limit has a ratio is a branch of its own: an
  unset optional would be dereferenced there.
\<close>

definition compute_velocity_limit_slope :: "limit_curves \<Rightarrow> traj_options \<Rightarrow> phase_plane_slope res" where
  "compute_velocity_limit_slope curves opt =
     (if lc_joint curves \<le> lc_tcp curves
      then compute_joint_velocity_limit_slope (lc_limiting curves) (to_max_velocity opt) (to_epsilon opt)
      else
        case (to_tcp opt, lc_tcp_ratio curves) of
          (Some tcp, Some r) \<Rightarrow>
            let slope = divide (- tcp_max_linear_speed tcp * ls_arc_length_derivative r)
                               (ls_value r * ls_value r)
            in if \<not> isfinite slope
               then Inl (Runtime_error ''compute_velocity_limit_slope: non-finite TCP limit-curve slope'')
               else Inr slope
        | _ \<Rightarrow> Inl (Undefined_behaviour ''dereference of an empty optional''))"

definition try_compute_eq40_delta ::
  "cursor \<Rightarrow> traj_options \<Rightarrow> (phase_plane_slope \<times> arc_velocity) option res" where
  "try_compute_eq40_delta c opt =
     bind_res (cursor_tangent c) (\<lambda>q_prime.
     bind_res (cursor_curvature c) (\<lambda>q_double_prime.
     bind_res (cursor_limit_curves c opt) (\<lambda>curves.
       let s_dot_max_vel = lc_s_dot_max_vel curves
       in if feq s_dot_max_vel 0 then Inr None
          else
            bind_res (compute_velocity_limit_slope curves opt) (\<lambda>curve_slope.
              let accel_bounds = compute_acceleration_bounds_unchecked q_prime q_double_prime s_dot_max_vel
                                   (to_max_acceleration opt) (to_epsilon opt);
                  trajectory_slope = divide (ab_s_ddot_min accel_bounds) s_dot_max_vel
              in Inr (Some (trajectory_slope - curve_slope, s_dot_max_vel))))))"

section \<open>Euler step\<close>

definition euler_step ::
  "arc_length \<Rightarrow> arc_velocity \<Rightarrow> arc_acceleration \<Rightarrow> seconds \<Rightarrow> epsilon \<Rightarrow> phase_point res" where
  "euler_step s s_dot s_ddot dt eps =
     (let s_dot_new0 = s_dot + s_ddot * dt;
          s_new0 = s + s_dot * dt + Fin (1 / 2) * s_ddot * dt * dt;
          (s_new, s_dot_new) =
            (if s_dot_new0 < 0 then (s + midpoint s_dot 0 * divide (- s_dot) s_ddot, 0)
             else (s_new0, s_dot_new0))
      in if eps_eq eps s_new s \<and> eps_eq eps s_dot_new s_dot
         then Inl (Runtime_error ''Euler step will not make sufficient progress in the phase plane'')
         else Inr \<lparr>pp_s = s_new, pp_s_dot = s_dot_new\<rparr>)"

section \<open>All of it returns\<close>

text \<open>The documented duty of a tool evaluator: each call returns or throws.\<close>

definition evaluator_returns :: "traj_options \<Rightarrow> bool" where
  "evaluator_returns opt \<longleftrightarrow>
     (\<forall>tcp. to_tcp opt = Some tcp \<longrightarrow> (\<forall>q q_prime q_double_prime. halts (tcp_evaluator tcp q q_prime q_double_prime)))"

lemma halts_compute_limit_curves [halts_intros]:
  "evaluator_returns opt \<Longrightarrow> halts (compute_limit_curves q q_prime q_double_prime opt)"
  by (auto simp: compute_limit_curves_def compute_tcp_velocity_limit_def evaluator_returns_def Let_def
      intro!: halts_intros split: option.splits)

lemma halts_cursor_limit_curves [halts_intros]:
  "evaluator_returns opt \<Longrightarrow> halts (cursor_limit_curves c opt)"
  unfolding cursor_limit_curves_def by (auto intro!: halts_intros split: option.splits)

lemma halts_acceleration_bounds [halts_intros]:
  "halts (compute_acceleration_bounds q_prime q_double_prime s_dot q_ddot_max eps)"
  by (simp add: compute_acceleration_bounds_def Let_def)

lemma halts_velocity_limit_slope [halts_intros]: "halts (compute_velocity_limit_slope curves opt)"
  by (auto simp: compute_velocity_limit_slope_def compute_joint_velocity_limit_slope_def Let_def
      split: option.splits)

lemma halts_eq40 [halts_intros]: "evaluator_returns opt \<Longrightarrow> halts (try_compute_eq40_delta c opt)"
  unfolding try_compute_eq40_delta_def Let_def by (auto intro!: halts_intros)

lemma halts_euler_step [halts_intros]: "halts (euler_step s s_dot s_ddot dt eps)"
  by (auto simp: euler_step_def Let_def split: prod.splits)

section \<open>Joint velocities\<close>

text \<open>A joint takes part in a limit when it moves along the path by at least the tolerance.\<close>

definition moving :: "real \<Rightarrow> xvector \<Rightarrow> nat \<Rightarrow> bool" where
  "moving e q_prime i \<longleftrightarrow> e \<le> \<bar>q_prime ! i\<bar>"

lemma joint_limit_fold:
  assumes "0 < e" "fold (joint_limit_step q_prime q_dot_max (Fin e)) is (m, k) = (m', k')" "m = PInf \<or> isfinite m"
  shows "(m' = PInf \<or> isfinite m') \<and>
    (\<forall>x. Fin x \<le> m' \<longleftrightarrow> Fin x \<le> m \<and> (\<forall>i \<in> set is. moving e q_prime i \<longrightarrow> \<bar>q_prime ! i\<bar> * x \<le> q_dot_max ! i)) \<and>
    ((m', k') = (m, k) \<or> k' \<in> set is \<and> moving e q_prime k' \<and> m' = Fin (q_dot_max ! k' / \<bar>q_prime ! k'\<bar>))"
  using assms(2,3)
proof (induction "is" arbitrary: m k)
  case (Cons i js)
  define st where "st = joint_limit_step q_prime q_dot_max (Fin e) i (m, k)"
  obtain m1 k1 where st1: "st = (m1, k1)" by (cases st)
  have step: "(m1 = PInf \<or> isfinite m1) \<and>
      (\<forall>x. Fin x \<le> m1 \<longleftrightarrow> Fin x \<le> m \<and> (moving e q_prime i \<longrightarrow> \<bar>q_prime ! i\<bar> * x \<le> q_dot_max ! i)) \<and>
      ((m1, k1) = (m, k) \<or> k1 = i \<and> moving e q_prime i \<and> m1 = Fin (q_dot_max ! i / \<bar>q_prime ! i\<bar>))"
  proof (cases "moving e q_prime i")
    case False
    with st1 Cons.prems(2) show ?thesis by (auto simp: st_def joint_limit_step_def moving_def)
  next
    case True
    then have pos: "0 < \<bar>q_prime ! i\<bar>" using assms(1) by (simp add: moving_def)
    have le: "e \<le> \<bar>q_prime ! k\<bar> \<Longrightarrow> \<bar>q_prime ! k\<bar> * x \<le> q_dot_max ! k \<longleftrightarrow> x \<le> q_dot_max ! k / \<bar>q_prime ! k\<bar>" for x k
      using assms(1) by (simp add: pos_le_divide_eq mult.commute)
    from True pos st1 Cons.prems(2) show ?thesis
      by (cases m) (auto simp: st_def joint_limit_step_def moving_def le Let_def split: if_splits)
  qed
  have "fold (joint_limit_step q_prime q_dot_max (Fin e)) js (m1, k1) = (m', k')"
    using Cons.prems(1) st1 by (simp add: st_def)
  from Cons.IH [OF this] step show ?case by auto
qed auto

lemma joint_velocity_limit_correct:
  assumes "0 < e" "compute_joint_velocity_limit q_prime q_double_prime q_dot_max (Fin e) = (limit, j)"
  shows "(Fin x \<le> limit \<longleftrightarrow> (\<forall>i < length q_prime. moving e q_prime i \<longrightarrow> \<bar>q_prime ! i\<bar> * x \<le> q_dot_max ! i))"
    and "limit = PInf \<or> limit = Fin (q_dot_max ! lj_index j / \<bar>lj_q_prime j\<bar>) \<and> lj_index j < length q_prime \<and>
      moving e q_prime (lj_index j)"
    and "lj_q_prime j = q_prime ! lj_index j" "lj_q_double_prime j = q_double_prime ! lj_index j"
proof -
  obtain m k where mk: "fold (joint_limit_step q_prime q_dot_max (Fin e)) [0..<length q_prime] (PInf, 0) = (m, k)"
    by (cases "fold (joint_limit_step q_prime q_dot_max (Fin e)) [0..<length q_prime] (PInf, 0)")
  have j: "limit = m" "lj_index j = k" "lj_q_prime j = q_prime ! k" "lj_q_double_prime j = q_double_prime ! k"
    using assms(2) by (auto simp: compute_joint_velocity_limit_def mk)
  note f = joint_limit_fold [OF assms(1) mk]
  show "Fin x \<le> limit \<longleftrightarrow> (\<forall>i < length q_prime. moving e q_prime i \<longrightarrow> \<bar>q_prime ! i\<bar> * x \<le> q_dot_max ! i)"
    using f j by auto
  show "limit = PInf \<or> limit = Fin (q_dot_max ! lj_index j / \<bar>lj_q_prime j\<bar>) \<and> lj_index j < length q_prime \<and>
      moving e q_prime (lj_index j)"
    using f j by auto
  show "lj_q_prime j = q_prime ! lj_index j" "lj_q_double_prime j = q_double_prime ! lj_index j"
    using j by simp_all
qed

section \<open>Joint accelerations\<close>

text \<open>One joint's constraint on the path acceleration, as an interval around its centripetal share.\<close>

lemma joint_interval:
  assumes "p \<noteq> (0::real)"
  shows "- m / \<bar>p\<bar> - c / p \<le> a \<and> a \<le> m / \<bar>p\<bar> - c / p \<longleftrightarrow> \<bar>p * a + c\<bar> \<le> m"
  using assms by (cases "0 < p") (auto simp: field_simps abs_le_iff)

lemma bounds_fold:
  assumes "0 < e" "isfinite lo \<or> lo = NInf" "isfinite hi \<or> hi = PInf"
    "fold (bounds_step q_prime q_double_prime (Fin v) q_ddot_max (Fin e)) is
       \<lparr>ab_s_ddot_min = lo, ab_s_ddot_max = hi\<rparr> = \<lparr>ab_s_ddot_min = lo', ab_s_ddot_max = hi'\<rparr>"
  shows "(isfinite lo' \<or> lo' = NInf) \<and> (isfinite hi' \<or> hi' = PInf) \<and>
    (\<forall>a. lo' \<le> Fin a \<longleftrightarrow> lo \<le> Fin a \<and> (\<forall>i \<in> set is. moving e q_prime i \<longrightarrow>
       - (q_ddot_max ! i) / \<bar>q_prime ! i\<bar> - q_double_prime ! i * (v * v) / q_prime ! i \<le> a)) \<and>
    (\<forall>a. Fin a \<le> hi' \<longleftrightarrow> Fin a \<le> hi \<and> (\<forall>i \<in> set is. moving e q_prime i \<longrightarrow>
       a \<le> q_ddot_max ! i / \<bar>q_prime ! i\<bar> - q_double_prime ! i * (v * v) / q_prime ! i))"
  using assms(2-4)
proof (induction "is" arbitrary: lo hi)
  case (Cons i js)
  let ?l = "- (q_ddot_max ! i) / \<bar>q_prime ! i\<bar> - q_double_prime ! i * (v * v) / q_prime ! i"
    and ?h = "q_ddot_max ! i / \<bar>q_prime ! i\<bar> - q_double_prime ! i * (v * v) / q_prime ! i"
  define lo1 hi1 where "lo1 = (if moving e q_prime i then std_max lo (Fin ?l) else lo)"
    and "hi1 = (if moving e q_prime i then std_min hi (Fin ?h) else hi)"
  have "moving e q_prime i \<Longrightarrow> q_prime ! i \<noteq> 0" using assms(1) by (auto simp: moving_def)
  then have st: "bounds_step q_prime q_double_prime (Fin v) q_ddot_max (Fin e) i
      \<lparr>ab_s_ddot_min = lo, ab_s_ddot_max = hi\<rparr> = \<lparr>ab_s_ddot_min = lo1, ab_s_ddot_max = hi1\<rparr>"
    by (auto simp: bounds_step_def moving_def lo1_def hi1_def Let_def)
  have fin: "isfinite lo1 \<or> lo1 = NInf" "isfinite hi1 \<or> hi1 = PInf"
    using Cons.prems(1,2) by (auto simp: lo1_def hi1_def std_max_def std_min_def)
  have le: "lo1 \<le> Fin a \<longleftrightarrow> lo \<le> Fin a \<and> (moving e q_prime i \<longrightarrow> ?l \<le> a)"
    "Fin a \<le> hi1 \<longleftrightarrow> Fin a \<le> hi \<and> (moving e q_prime i \<longrightarrow> a \<le> ?h)" for a
    using Cons.prems(1,2) by (auto simp: lo1_def hi1_def isfinite_iff max_def min_def std_min_def std_max_def)
  have "fold (bounds_step q_prime q_double_prime (Fin v) q_ddot_max (Fin e)) js
       \<lparr>ab_s_ddot_min = lo1, ab_s_ddot_max = hi1\<rparr> = \<lparr>ab_s_ddot_min = lo', ab_s_ddot_max = hi'\<rparr>"
    using Cons.prems(3) by (simp add: st)
  from Cons.IH [OF fin this] le show ?case by auto
qed auto

lemma bounds_unchecked_correct:
  assumes "0 < e"
    and b_def: "compute_acceleration_bounds_unchecked q_prime q_double_prime (Fin v) q_ddot_max (Fin e) = b"
  shows "isfinite (ab_s_ddot_min b) \<or> ab_s_ddot_min b = NInf" "isfinite (ab_s_ddot_max b) \<or> ab_s_ddot_max b = PInf"
    and "ab_s_ddot_min b \<le> Fin a \<longleftrightarrow> (\<forall>i < length q_prime. moving e q_prime i \<longrightarrow>
       - (q_ddot_max ! i) / \<bar>q_prime ! i\<bar> - q_double_prime ! i * (v * v) / q_prime ! i \<le> a)"
    and "Fin a \<le> ab_s_ddot_max b \<longleftrightarrow> (\<forall>i < length q_prime. moving e q_prime i \<longrightarrow>
       a \<le> q_ddot_max ! i / \<bar>q_prime ! i\<bar> - q_double_prime ! i * (v * v) / q_prime ! i)"
    and "ab_s_ddot_min b \<le> Fin a \<and> Fin a \<le> ab_s_ddot_max b \<longleftrightarrow>
      (\<forall>i < length q_prime. moving e q_prime i \<longrightarrow>
         \<bar>q_prime ! i * a + q_double_prime ! i * v\<^sup>2\<bar> \<le> q_ddot_max ! i)"
proof -
  obtain lo hi where b: "b = \<lparr>ab_s_ddot_min = lo, ab_s_ddot_max = hi\<rparr>" by (cases b)
  note f = bounds_fold [OF assms(1), of NInf PInf q_prime q_double_prime v q_ddot_max "[0..<length q_prime]" lo hi]
  have f: "isfinite lo \<or> lo = NInf" "isfinite hi \<or> hi = PInf"
    "lo \<le> Fin a \<longleftrightarrow> (\<forall>i < length q_prime. moving e q_prime i \<longrightarrow>
       - (q_ddot_max ! i) / \<bar>q_prime ! i\<bar> - q_double_prime ! i * (v * v) / q_prime ! i \<le> a)"
    "Fin a \<le> hi \<longleftrightarrow> (\<forall>i < length q_prime. moving e q_prime i \<longrightarrow>
       a \<le> q_ddot_max ! i / \<bar>q_prime ! i\<bar> - q_double_prime ! i * (v * v) / q_prime ! i)"
    using f b b_def by (auto simp: compute_acceleration_bounds_unchecked_def)
  show "isfinite (ab_s_ddot_min b) \<or> ab_s_ddot_min b = NInf" "isfinite (ab_s_ddot_max b) \<or> ab_s_ddot_max b = PInf"
    using f by (simp_all add: b)
  show "ab_s_ddot_min b \<le> Fin a \<longleftrightarrow> (\<forall>i < length q_prime. moving e q_prime i \<longrightarrow>
       - (q_ddot_max ! i) / \<bar>q_prime ! i\<bar> - q_double_prime ! i * (v * v) / q_prime ! i \<le> a)"
    "Fin a \<le> ab_s_ddot_max b \<longleftrightarrow> (\<forall>i < length q_prime. moving e q_prime i \<longrightarrow>
       a \<le> q_ddot_max ! i / \<bar>q_prime ! i\<bar> - q_double_prime ! i * (v * v) / q_prime ! i)"
    using f(3,4) by (simp_all add: b)
  have "q_prime ! i \<noteq> 0" if "moving e q_prime i" for i
    using that assms(1) by (auto simp: moving_def)
  then have "(\<forall>i < length q_prime. moving e q_prime i \<longrightarrow>
         \<bar>q_prime ! i * a + q_double_prime ! i * v\<^sup>2\<bar> \<le> q_ddot_max ! i) \<longleftrightarrow>
      lo \<le> Fin a \<and> Fin a \<le> hi"
    using joint_interval f(3,4) by (simp add: power2_eq_square) blast
  then show "ab_s_ddot_min b \<le> Fin a \<and> Fin a \<le> ab_s_ddot_max b \<longleftrightarrow>
      (\<forall>i < length q_prime. moving e q_prime i \<longrightarrow>
         \<bar>q_prime ! i * a + q_double_prime ! i * v\<^sup>2\<bar> \<le> q_ddot_max ! i)"
    by (simp add: b)
qed

section \<open>The acceleration limit curve\<close>

definition ratio :: "xvector \<Rightarrow> xvector \<Rightarrow> nat \<Rightarrow> real" where
  "ratio q_prime q_double_prime i = q_double_prime ! i / q_prime ! i"

definition budget :: "xvector \<Rightarrow> xvector \<Rightarrow> nat \<Rightarrow> real" where
  "budget q_prime q_ddot_max i = q_ddot_max ! i / \<bar>q_prime ! i\<bar>"

text \<open>Two moving joints whose curvature ratios differ noticeably leave room for a common acceleration.\<close>

definition pair_ok :: "real \<Rightarrow> xvector \<Rightarrow> xvector \<Rightarrow> xvector \<Rightarrow> nat \<Rightarrow> nat \<Rightarrow> real \<Rightarrow> bool" where
  "pair_ok e q_prime q_double_prime q_ddot_max i j x \<longleftrightarrow>
     (let d = \<bar>ratio q_prime q_double_prime i - ratio q_prime q_double_prime j\<bar>
      in moving e q_prime i \<and> moving e q_prime j \<and> e \<le> d \<longrightarrow>
         x * d \<le> budget q_prime q_ddot_max i + budget q_prime q_ddot_max j)"

definition resting_ok :: "real \<Rightarrow> xvector \<Rightarrow> xvector \<Rightarrow> xvector \<Rightarrow> nat \<Rightarrow> real \<Rightarrow> bool" where
  "resting_ok e q_prime q_double_prime q_ddot_max i x \<longleftrightarrow>
     (\<not> moving e q_prime i \<and> e \<le> \<bar>q_double_prime ! i\<bar> \<longrightarrow> x * \<bar>q_double_prime ! i\<bar> \<le> q_ddot_max ! i)"

definition proper_limit :: "dbl \<Rightarrow> bool" where
  "proper_limit m \<longleftrightarrow> m = PInf \<or> isfinite m"

lemma min_step:
  assumes "proper_limit m" "0 < d"
  shows "proper_limit (std_min m (Fin (c / d)))"
    "Fin x \<le> std_min m (Fin (c / d)) \<longleftrightarrow> Fin x \<le> m \<and> x * d \<le> c"
  using assms by (cases m; auto simp: proper_limit_def pos_le_divide_eq)+

text \<open>A fold of steps, each adding one upper bound, adds them all.\<close>

lemma fold_bounds:
  assumes "\<And>i m. i \<in> set is \<Longrightarrow> proper_limit m \<Longrightarrow>
      proper_limit (f i m) \<and> (\<forall>x. Fin x \<le> f i m \<longleftrightarrow> Fin x \<le> m \<and> P i x)"
    and "proper_limit m"
  shows "proper_limit (fold f is m) \<and> (\<forall>x. Fin x \<le> fold f is m \<longleftrightarrow> Fin x \<le> m \<and> (\<forall>i \<in> set is. P i x))"
  using assms by (induction "is" arbitrary: m) auto

lemma pair_step:
  assumes "0 < e" "moving e q_prime i" "proper_limit m"
  shows "proper_limit (pair_limit_step q_prime q_double_prime q_ddot_max (Fin e) i j m) \<and>
    (\<forall>x. Fin x \<le> pair_limit_step q_prime q_double_prime q_ddot_max (Fin e) i j m \<longleftrightarrow>
      Fin x \<le> m \<and> pair_ok e q_prime q_double_prime q_ddot_max i j x)"
proof (cases "moving e q_prime j \<and> e \<le> \<bar>ratio q_prime q_double_prime i - ratio q_prime q_double_prime j\<bar>")
  case True
  let ?d = "\<bar>ratio q_prime q_double_prime i - ratio q_prime q_double_prime j\<bar>"
  have nz: "q_prime ! i \<noteq> 0" "q_prime ! j \<noteq> 0" "0 < ?d"
    using True assms by (auto simp: moving_def)
  then have "pair_limit_step q_prime q_double_prime q_ddot_max (Fin e) i j m =
      std_min m (Fin ((budget q_prime q_ddot_max i + budget q_prime q_ddot_max j) / ?d))"
    using True by (auto simp: pair_limit_step_def moving_def Let_def ratio_def budget_def)
  with min_step [OF assms(3) nz(3)] True assms(2) show ?thesis
    by (simp add: pair_ok_def Let_def)
next
  case False
  then have "pair_limit_step q_prime q_double_prime q_ddot_max (Fin e) i j m = m"
    using assms by (auto simp: pair_limit_step_def moving_def Let_def ratio_def)
  with False assms(3) show ?thesis by (auto simp: pair_ok_def Let_def)
qed

lemma resting_step:
  assumes "0 < e" "proper_limit m"
  shows "proper_limit (resting_limit_step q_prime q_double_prime q_ddot_max (Fin e) i m) \<and>
    (\<forall>x. Fin x \<le> resting_limit_step q_prime q_double_prime q_ddot_max (Fin e) i m \<longleftrightarrow>
      Fin x \<le> m \<and> resting_ok e q_prime q_double_prime q_ddot_max i x)"
proof (cases "\<not> moving e q_prime i \<and> e \<le> \<bar>q_double_prime ! i\<bar>")
  case True
  then have "0 < \<bar>q_double_prime ! i\<bar>" "q_double_prime ! i \<noteq> 0" using assms(1) by auto
  with True min_step [OF assms(2) this(1)] show ?thesis
    by (simp add: resting_limit_step_def moving_def resting_ok_def)
next
  case False
  with assms(2) show ?thesis by (auto simp: resting_limit_step_def moving_def resting_ok_def)
qed

lemma acceleration_limit_sq_correct:
  assumes "0 < e" and n_def: "n = length q_prime"
  shows "proper_limit (acceleration_limit_sq q_prime q_double_prime q_ddot_max (Fin e))"
    "Fin x \<le> acceleration_limit_sq q_prime q_double_prime q_ddot_max (Fin e) \<longleftrightarrow>
      (\<forall>i < n. \<forall>j. i < j \<and> j < n \<longrightarrow> pair_ok e q_prime q_double_prime q_ddot_max i j x) \<and>
      (\<forall>i < n. resting_ok e q_prime q_double_prime q_ddot_max i x)"
proof -
  let ?P = "\<lambda>i x. \<forall>j \<in> set [Suc i..<n]. pair_ok e q_prime q_double_prime q_ddot_max i j x"
  have "proper_limit (moving_limit_step q_prime q_double_prime q_ddot_max (Fin e) i m) \<and>
      (\<forall>x. Fin x \<le> moving_limit_step q_prime q_double_prime q_ddot_max (Fin e) i m \<longleftrightarrow> Fin x \<le> m \<and> ?P i x)"
    if "proper_limit m" for i m
  proof (cases "moving e q_prime i")
    case True
    then have "moving_limit_step q_prime q_double_prime q_ddot_max (Fin e) i m =
        fold (pair_limit_step q_prime q_double_prime q_ddot_max (Fin e) i) [Suc i..<n] m"
      by (simp add: moving_limit_step_def moving_def n_def)
    with fold_bounds [of "[Suc i..<n]" "pair_limit_step q_prime q_double_prime q_ddot_max (Fin e) i"
        "pair_ok e q_prime q_double_prime q_ddot_max i", OF pair_step [OF assms(1) True] that]
    show ?thesis by simp
  next
    case False
    with that show ?thesis by (auto simp: moving_limit_step_def moving_def pair_ok_def Let_def)
  qed
  then have 1: "proper_limit (fold (moving_limit_step q_prime q_double_prime q_ddot_max (Fin e)) [0..<n] PInf) \<and>
      (\<forall>x. Fin x \<le> fold (moving_limit_step q_prime q_double_prime q_ddot_max (Fin e)) [0..<n] PInf \<longleftrightarrow>
        Fin x \<le> PInf \<and> (\<forall>i \<in> set [0..<n]. ?P i x))"
    by (intro fold_bounds) (auto simp: proper_limit_def)
  from fold_bounds [of "[0..<n]" "resting_limit_step q_prime q_double_prime q_ddot_max (Fin e)"
      "resting_ok e q_prime q_double_prime q_ddot_max", OF resting_step [OF assms(1)] 1 [THEN conjunct1]] 1
  have 2: "proper_limit (acceleration_limit_sq q_prime q_double_prime q_ddot_max (Fin e)) \<and>
      (\<forall>x. Fin x \<le> acceleration_limit_sq q_prime q_double_prime q_ddot_max (Fin e) \<longleftrightarrow>
        (\<forall>i \<in> set [0..<n]. ?P i x) \<and> (\<forall>i \<in> set [0..<n]. resting_ok e q_prime q_double_prime q_ddot_max i x))"
    by (simp add: acceleration_limit_sq_def n_def)
  then show "proper_limit (acceleration_limit_sq q_prime q_double_prime q_ddot_max (Fin e))" by blast
  from 2 show "Fin x \<le> acceleration_limit_sq q_prime q_double_prime q_ddot_max (Fin e) \<longleftrightarrow>
      (\<forall>i < n. \<forall>j. i < j \<and> j < n \<longrightarrow> pair_ok e q_prime q_double_prime q_ddot_max i j x) \<and>
      (\<forall>i < n. resting_ok e q_prime q_double_prime q_ddot_max i x)"
    by (auto simp: Suc_le_eq)
qed

lemma acceleration_limit_correct:
  assumes "0 < e" "\<forall>i < length q_prime. 0 \<le> q_ddot_max ! i" "0 \<le> v"
  shows "Fin v \<le> compute_acceleration_limit q_prime q_double_prime q_ddot_max (Fin e) \<longleftrightarrow>
    (\<forall>i < length q_prime. \<forall>j. i < j \<and> j < length q_prime \<longrightarrow> pair_ok e q_prime q_double_prime q_ddot_max i j (v\<^sup>2)) \<and>
    (\<forall>i < length q_prime. resting_ok e q_prime q_double_prime q_ddot_max i (v\<^sup>2))"
proof -
  let ?L = "acceleration_limit_sq q_prime q_double_prime q_ddot_max (Fin e)"
  note a = acceleration_limit_sq_correct [OF assms(1) refl, where q_prime = q_prime and q_double_prime = q_double_prime and q_ddot_max = q_ddot_max]
  have "Fin 0 \<le> ?L"
    unfolding a(2) using assms(2) by (auto simp: pair_ok_def resting_ok_def Let_def budget_def)
  moreover have "v \<le> sqrt y \<longleftrightarrow> v\<^sup>2 \<le> y" for y
    using real_sqrt_le_iff [of "v\<^sup>2" y] assms(3) by simp
  ultimately have "Fin v \<le> fsqrt ?L \<longleftrightarrow> Fin (v\<^sup>2) \<le> ?L"
    using a(1) by (cases ?L) (auto simp: proper_limit_def)
  then show ?thesis by (simp add: compute_acceleration_limit_def a(2))
qed

text \<open>The bounds are not crossed exactly when no two joints contradict each other.\<close>

lemma bounds_ordered_iff:
  assumes "0 < e" "compute_acceleration_bounds_unchecked q_prime q_double_prime (Fin v) q_ddot_max (Fin e) = b"
  shows "ab_s_ddot_min b \<le> ab_s_ddot_max b \<longleftrightarrow>
    (\<forall>i < length q_prime. \<forall>j < length q_prime. moving e q_prime i \<and> moving e q_prime j \<longrightarrow>
       (ratio q_prime q_double_prime j - ratio q_prime q_double_prime i) * v\<^sup>2 \<le>
         budget q_prime q_ddot_max i + budget q_prime q_ddot_max j)" (is "?L \<longleftrightarrow> ?R")
proof -
  note c = bounds_unchecked_correct [OF assms]
  define l h where "l i = - (q_ddot_max ! i) / \<bar>q_prime ! i\<bar> - q_double_prime ! i * (v * v) / q_prime ! i"
    and "h i = q_ddot_max ! i / \<bar>q_prime ! i\<bar> - q_double_prime ! i * (v * v) / q_prime ! i" for i
  have lo: "ab_s_ddot_min b \<le> Fin a \<longleftrightarrow> (\<forall>i < length q_prime. moving e q_prime i \<longrightarrow> l i \<le> a)"
    and hi: "Fin a \<le> ab_s_ddot_max b \<longleftrightarrow> (\<forall>i < length q_prime. moving e q_prime i \<longrightarrow> a \<le> h i)" for a
    using c(3,4) by (simp_all add: l_def h_def)
  have "?R \<longleftrightarrow> (\<forall>i < length q_prime. \<forall>j < length q_prime. moving e q_prime i \<and> moving e q_prime j \<longrightarrow> l i \<le> h j)"
    by (auto simp: l_def h_def ratio_def budget_def power2_eq_square algebra_simps)
  also have "\<dots> \<longleftrightarrow> ?L"
  proof
    assume R: "\<forall>i < length q_prime. \<forall>j < length q_prime. moving e q_prime i \<and> moving e q_prime j \<longrightarrow> l i \<le> h j"
    show ?L
    proof (rule ccontr)
      assume "\<not> ?L"
      with c(1,2) obtain a where a: "ab_s_ddot_min b = Fin a" "\<not> Fin a \<le> ab_s_ddot_max b"
        by (cases "ab_s_ddot_min b"; cases "ab_s_ddot_max b") auto
      with hi obtain j where j: "j < length q_prime" "moving e q_prime j" "h j < a" by (auto simp: not_le)
      with R lo [of "h j"] a(1) show False by auto
    qed
  next
    assume L: ?L
    show "\<forall>i < length q_prime. \<forall>j < length q_prime. moving e q_prime i \<and> moving e q_prime j \<longrightarrow> l i \<le> h j"
    proof (intro allI impI)
      fix i j assume ij: "i < length q_prime" "j < length q_prime" "moving e q_prime i \<and> moving e q_prime j"
      show "l i \<le> h j"
      proof (rule ccontr)
        assume "\<not> l i \<le> h j"
        with ij lo [of "h j"] c(1) have "Fin (h j) < ab_s_ddot_min b"
          by (cases "ab_s_ddot_min b") auto
        with L obtain a where a: "h j < a" "Fin a \<le> ab_s_ddot_max b"
          using c(1,2) by (cases "ab_s_ddot_min b"; cases "ab_s_ddot_max b") auto
        with hi [of a] ij show False by force
      qed
    qed
  qed
  finally show ?thesis by blast
qed

section \<open>Properties of the limit curves\<close>

text \<open>
  The joint velocity limit is exact: a path velocity is at most the limit if and only if every
  joint that moves along the path by at least the tolerance stays within its velocity limit. Where
  the limit is finite, the reported limiting joint attains it.
\<close>

lemma joint_velocity_limit_exact:
  assumes "0 < e"
  shows "case compute_joint_velocity_limit q_prime q_double_prime q_dot_max (Fin e) of (limit, j) \<Rightarrow>
    (\<forall>v. Fin v \<le> limit \<longleftrightarrow>
      (\<forall>i < length q_prime. e \<le> \<bar>q_prime ! i\<bar> \<longrightarrow> \<bar>q_prime ! i\<bar> * v \<le> q_dot_max ! i)) \<and>
    (limit = PInf \<or> lj_index j < length q_prime \<and> e \<le> \<bar>q_prime ! lj_index j\<bar> \<and>
      limit = Fin (q_dot_max ! lj_index j / \<bar>q_prime ! lj_index j\<bar>))"
proof (cases "compute_joint_velocity_limit q_prime q_double_prime q_dot_max (Fin e)")
  case (Pair limit j)
  from joint_velocity_limit_correct [OF assms this] show ?thesis
    by (auto simp: Pair moving_def)
qed

text \<open>
  The bounds of the path acceleration are exact (equations 22 and 23): at a path velocity \<open>v\<close>, a
  path acceleration \<open>a\<close> lies between them if and only if the acceleration \<open>q' a + q'' v\<^sup>2\<close> of every
  joint that moves along the path stays within that joint's limit.
\<close>

lemma acceleration_bounds_exact:
  assumes "0 < e"
  shows "(let b = compute_acceleration_bounds_unchecked q_prime q_double_prime (Fin v) q_ddot_max (Fin e)
      in ab_s_ddot_min b \<le> Fin a \<and> Fin a \<le> ab_s_ddot_max b) \<longleftrightarrow>
    (\<forall>i < length q_prime. e \<le> \<bar>q_prime ! i\<bar> \<longrightarrow>
       \<bar>q_prime ! i * a + q_double_prime ! i * v\<^sup>2\<bar> \<le> q_ddot_max ! i)"
  using bounds_unchecked_correct(5) [OF assms refl] by (simp add: Let_def moving_def)

lemma acceleration_bounds_exact_witness:
  "ab_s_ddot_min (compute_acceleration_bounds_unchecked [1] [1] (Fin 1) [2] (Fin (1 / 10))) \<le> Fin 1"
  using acceleration_bounds_exact [of "1 / 10" "[1]" "[1]" 1 "[2]" 1] by (simp add: Let_def)

text \<open>Where the ratios are resolved, comparing each pair once is comparing all of them both ways.\<close>

lemma pairs_ok_ordered:
  assumes budgets: "\<forall>i < length q_prime. 0 \<le> q_ddot_max ! i"
    and resolved: "\<forall>i < length q_prime. \<forall>j < length q_prime. e \<le> \<bar>q_prime ! i\<bar> \<and> e \<le> \<bar>q_prime ! j\<bar> \<longrightarrow>
      q_double_prime ! i / q_prime ! i = q_double_prime ! j / q_prime ! j \<or>
      e \<le> \<bar>q_double_prime ! i / q_prime ! i - q_double_prime ! j / q_prime ! j\<bar>"
  shows "(\<forall>i < length q_prime. \<forall>j. i < j \<and> j < length q_prime \<longrightarrow> pair_ok e q_prime q_double_prime q_ddot_max i j (v\<^sup>2)) \<longleftrightarrow>
    (\<forall>i < length q_prime. \<forall>j < length q_prime. moving e q_prime i \<and> moving e q_prime j \<longrightarrow>
       (ratio q_prime q_double_prime j - ratio q_prime q_double_prime i) * v\<^sup>2 \<le>
         budget q_prime q_ddot_max i + budget q_prime q_ddot_max j)"
proof -
  let ?n = "length q_prime" and ?r = "ratio q_prime q_double_prime" and ?m = "budget q_prime q_ddot_max"
  have m: "0 \<le> ?m i" if "i < ?n" for i using budgets that by (simp add: budget_def)
  have cross: "(?r j - ?r i) * v\<^sup>2 \<le> ?m i + ?m j \<and> (?r i - ?r j) * v\<^sup>2 \<le> ?m i + ?m j \<longleftrightarrow>
      v\<^sup>2 * \<bar>?r i - ?r j\<bar> \<le> ?m i + ?m j" for i j
  proof -
    have "v\<^sup>2 * \<bar>?r i - ?r j\<bar> = \<bar>(?r i - ?r j) * v\<^sup>2\<bar>" by (simp add: abs_mult mult.commute)
    moreover have "- ((?r i - ?r j) * v\<^sup>2) = (?r j - ?r i) * v\<^sup>2" by (simp add: algebra_simps)
    ultimately show ?thesis by (auto simp: abs_le_iff)
  qed
  have pair: "pair_ok e q_prime q_double_prime q_ddot_max i j (v\<^sup>2) \<longleftrightarrow>
      (moving e q_prime i \<and> moving e q_prime j \<longrightarrow> v\<^sup>2 * \<bar>?r i - ?r j\<bar> \<le> ?m i + ?m j)"
    if "i < ?n" "j < ?n" for i j
  proof (cases "moving e q_prime i \<and> moving e q_prime j")
    case True
    with resolved that have "?r i = ?r j \<or> e \<le> \<bar>?r i - ?r j\<bar>" by (auto simp: moving_def ratio_def)
    with True that m [of i] m [of j] show ?thesis by (auto simp: pair_ok_def Let_def)
  qed (auto simp: pair_ok_def)
  show "(\<forall>i < ?n. \<forall>j. i < j \<and> j < ?n \<longrightarrow> pair_ok e q_prime q_double_prime q_ddot_max i j (v\<^sup>2)) \<longleftrightarrow>
      (\<forall>i < ?n. \<forall>j < ?n. moving e q_prime i \<and> moving e q_prime j \<longrightarrow> (?r j - ?r i) * v\<^sup>2 \<le> ?m i + ?m j)"
    (is "?A \<longleftrightarrow> ?B")
  proof
    assume A: ?A
    show ?B
    proof (intro allI impI)
      fix i j assume ij: "i < ?n" "j < ?n" "moving e q_prime i \<and> moving e q_prime j"
      consider "i = j" | "i < j" | "j < i" by linarith
      then show "(?r j - ?r i) * v\<^sup>2 \<le> ?m i + ?m j"
      proof cases
        case 1
        then show ?thesis using m [OF ij(1)] by simp
      next
        case 2
        then have "v\<^sup>2 * \<bar>?r i - ?r j\<bar> \<le> ?m i + ?m j" using A pair [OF ij(1,2)] ij by blast
        then show ?thesis using cross [where i = i and j = j] by linarith
      next
        case 3
        then have "v\<^sup>2 * \<bar>?r j - ?r i\<bar> \<le> ?m j + ?m i" using A pair [OF ij(2,1)] ij by blast
        then show ?thesis using cross [where i = j and j = i] by linarith
      qed
    qed
  next
    assume ?B
    show ?A
    proof (intro allI impI)
      fix i j assume i: "i < ?n" and j: "i < j \<and> j < ?n"
      have "v\<^sup>2 * \<bar>?r i - ?r j\<bar> \<le> ?m i + ?m j" if mv: "moving e q_prime i \<and> moving e q_prime j"
      proof -
        have "(?r j - ?r i) * v\<^sup>2 \<le> ?m i + ?m j" "(?r i - ?r j) * v\<^sup>2 \<le> ?m j + ?m i"
          using \<open>?B\<close> i j mv by blast+
        then show ?thesis using cross [where i = i and j = j] by linarith
      qed
      then show "pair_ok e q_prime q_double_prime q_ddot_max i j (v\<^sup>2)"
        using pair [where i = i and j = j] i j by fastforce
    qed
  qed
qed

lemma ordered_bounds_returned:
  assumes "0 < e" "compute_acceleration_bounds_unchecked q_prime q_double_prime (Fin v) q_ddot_max (Fin e) = b"
    "ab_s_ddot_min b \<le> ab_s_ddot_max b"
  shows "\<exists>b'. compute_acceleration_bounds q_prime q_double_prime (Fin v) q_ddot_max (Fin e) = Inr b' \<and>
    ab_s_ddot_min b' \<le> ab_s_ddot_max b'"
  using assms(3,1) bounds_unchecked_correct(1,2) [OF assms(1,2)]
  by (cases "ab_s_ddot_min b"; cases "ab_s_ddot_max b")
    (auto simp: compute_acceleration_bounds_def Let_def assms(2) eps_eq_def eps_greater_def wrap_compare_def std_min_def)

text \<open>
  C36: The acceleration limit curve (equation 31) separates what is feasible: where no two moving
  joints have curvature ratios that differ by less than the tolerance without being equal, a path
  velocity is at most the curve if and only if the acceleration bounds there are not crossed and
  no resting joint's centripetal acceleration exceeds its limit; below the curve the checked
  bounds are then returned and never thrown about.
\<close>

theorem acceleration_limit_feasible:
  assumes "0 < e" "0 \<le> v" "\<forall>i < length q_prime. 0 \<le> q_ddot_max ! i"
    and resolved: "\<forall>i < length q_prime. \<forall>j < length q_prime. e \<le> \<bar>q_prime ! i\<bar> \<and> e \<le> \<bar>q_prime ! j\<bar> \<longrightarrow>
      q_double_prime ! i / q_prime ! i = q_double_prime ! j / q_prime ! j \<or>
      e \<le> \<bar>q_double_prime ! i / q_prime ! i - q_double_prime ! j / q_prime ! j\<bar>"
  defines "b \<equiv> compute_acceleration_bounds_unchecked q_prime q_double_prime (Fin v) q_ddot_max (Fin e)"
  shows "(Fin v \<le> compute_acceleration_limit q_prime q_double_prime q_ddot_max (Fin e) \<longleftrightarrow>
      ab_s_ddot_min b \<le> ab_s_ddot_max b \<and>
      (\<forall>i < length q_prime. \<bar>q_prime ! i\<bar> < e \<and> e \<le> \<bar>q_double_prime ! i\<bar> \<longrightarrow>
         \<bar>q_double_prime ! i\<bar> * v\<^sup>2 \<le> q_ddot_max ! i)) \<and>
    (Fin v \<le> compute_acceleration_limit q_prime q_double_prime q_ddot_max (Fin e) \<longrightarrow>
      (\<exists>b'. compute_acceleration_bounds q_prime q_double_prime (Fin v) q_ddot_max (Fin e) = Inr b' \<and>
         ab_s_ddot_min b' \<le> ab_s_ddot_max b'))"
proof -
  have "Fin v \<le> compute_acceleration_limit q_prime q_double_prime q_ddot_max (Fin e) \<longleftrightarrow>
      ab_s_ddot_min b \<le> ab_s_ddot_max b \<and>
      (\<forall>i < length q_prime. resting_ok e q_prime q_double_prime q_ddot_max i (v\<^sup>2))"
    using bounds_ordered_iff [OF assms(1), of q_prime q_double_prime v q_ddot_max b] pairs_ok_ordered [OF assms(3) resolved, of v]
      acceleration_limit_correct [OF assms(1,3,2), of q_double_prime] by (simp add: b_def)
  with ordered_bounds_returned [OF assms(1) meta_eq_to_obj_eq [OF b_def [symmetric]]] show ?thesis
    by (auto simp: resting_ok_def moving_def not_le mult.commute)
qed

theorem acceleration_limit_feasible_witness:
  "compute_acceleration_limit [1] [1] [2] (Fin (1 / 10)) = PInf \<and>
    (\<exists>b. compute_acceleration_bounds [1] [1] (Fin 7) [2] (Fin (1 / 10)) = Inr b)"
proof -
  have inf: "compute_acceleration_limit [1] [1] [2] (Fin (1 / 10)) = PInf"
    by (simp add: compute_acceleration_limit_def acceleration_limit_sq_def moving_limit_step_def
        resting_limit_step_def upt_rec)
  then show ?thesis
    using acceleration_limit_feasible [of "1 / 10" 7 "[1]" "[2]" "[1]"] by auto
qed

text \<open>
  The slope reported for a joint's velocity limit curve (equation 37) is its derivative: where
  the joint's path derivative \<open>q'\<close> is differentiable with derivative \<open>q''\<close> and not zero, the curve
  \<open>q_dot_max / \<bar>q'(s)\<bar>\<close> has the returned slope.
\<close>

lemma joint_slope_is_derivative:
  assumes "(f has_real_derivative f') (at s)" "f s \<noteq> 0" "lj_q_prime j = f s" "lj_q_double_prime j = f'"
    "compute_joint_velocity_limit_slope j q_dot_max eps = Inr m"
  shows "\<exists>r. m = Fin r \<and> ((\<lambda>x. q_dot_max ! lj_index j / \<bar>f x\<bar>) has_real_derivative r) (at s)"
proof -
  let ?M = "q_dot_max ! lj_index j"
  have m: "m = Fin (- ?M * f' / (f s * \<bar>f s\<bar>))"
    using assms by (auto simp: compute_joint_velocity_limit_slope_def Let_def split: if_splits)
  have "((\<lambda>x. ?M / \<bar>f x\<bar>) has_real_derivative - ?M * f' / (f s * \<bar>f s\<bar>)) (at s)"
  proof (cases "0 < f s")
    case True
    have "((\<lambda>x. ?M / f x) has_real_derivative - ?M * f' / (f s * \<bar>f s\<bar>)) (at s)"
      using True assms(1) by (auto intro!: derivative_eq_intros simp: power2_eq_square)
    moreover have "eventually (\<lambda>x. ?M / f x = ?M / \<bar>f x\<bar>) (nhds s)"
    proof -
      have "(f \<longlongrightarrow> f s) (nhds s)"
        using DERIV_isCont [OF assms(1)] by (simp only: isCont_def tendsto_at_iff_tendsto_nhds)
      then have "eventually (\<lambda>x. 0 < f x) (nhds s)"
        using True by (rule order_tendstoD)
      then show ?thesis by (rule eventually_mono) simp
    qed
    ultimately show ?thesis by (simp add: DERIV_cong_ev)
  next
    case False
    then have neg: "f s < 0" using assms(2) by simp
    have "((\<lambda>x. ?M / - f x) has_real_derivative - ?M * f' / (f s * \<bar>f s\<bar>)) (at s)"
      using neg assms(1) by (auto intro!: derivative_eq_intros simp: power2_eq_square)
    moreover have "eventually (\<lambda>x. ?M / - f x = ?M / \<bar>f x\<bar>) (nhds s)"
    proof -
      have "(f \<longlongrightarrow> f s) (nhds s)"
        using DERIV_isCont [OF assms(1)] by (simp only: isCont_def tendsto_at_iff_tendsto_nhds)
      then have "eventually (\<lambda>x. f x < 0) (nhds s)"
        using neg by (rule order_tendstoD)
      then show ?thesis by (rule eventually_mono) simp
    qed
    ultimately show ?thesis by (simp add: DERIV_cong_ev)
  qed
  with m show ?thesis by blast
qed

lemma joint_slope_is_derivative_witness:
  "((\<lambda>x. 6 / \<bar>x\<bar>) has_real_derivative - 6 / 4) (at 2)"
  using joint_slope_is_derivative [of "\<lambda>x. x" 1 2 "\<lparr>lj_index = 0, lj_q_prime = 2, lj_q_double_prime = 1\<rparr>"
      "[6]" "Fin (1 / 10)" "Fin (- 6 / 4)"]
  by (simp add: compute_joint_velocity_limit_slope_def Let_def)

text \<open>
  A successful Euler step from a finite phase point is a motion with constant acceleration over
  a time between zero and the full step, the full step unless the velocity would turn negative, in
  which case it ends at rest; the new velocity is never negative.
\<close>

lemma euler_step_kinematics:
  assumes "0 \<le> v" "0 < dt" "euler_step (Fin s) (Fin v) (Fin a) (Fin dt) eps = Inr p"
  shows "\<exists>t. 0 \<le> t \<and> t \<le> dt \<and> pp_s p = Fin (s + v * t + a * t\<^sup>2 / 2) \<and> pp_s_dot p = Fin (v + a * t) \<and>
    0 \<le> v + a * t \<and> (t = dt \<or> v + a * t = 0)"
proof (cases "v + a * dt < 0")
  case True
  then have a: "a < 0" using assms(1,2) by (smt (verit) mult_nonneg_nonneg)
  let ?t = "- v / a"
  have "pp_s p = Fin (s + v / 2 * ?t)" "pp_s_dot p = Fin 0"
    using assms(3) True a by (auto simp: euler_step_def Let_def split: if_splits)
  moreover have "s + v / 2 * ?t = s + v * ?t + a * ?t\<^sup>2 / 2" "v + a * ?t = 0"
    using a by (simp_all add: power2_eq_square field_simps)
  moreover have "0 \<le> ?t" "?t \<le> dt"
    using a assms(1) True by (auto simp: field_simps zero_le_divide_iff)
  ultimately show ?thesis by (intro exI [of _ ?t]) simp
next
  case False
  then have "pp_s p = Fin (s + v * dt + 1 / 2 * a * dt * dt)" "pp_s_dot p = Fin (v + a * dt)"
    using assms(3) by (auto simp: euler_step_def Let_def split: if_splits)
  with False assms(2) show ?thesis
    by (intro exI [of _ dt]) (simp add: power2_eq_square)
qed

lemma euler_step_kinematics_witness:
  "\<exists>p. euler_step (Fin 0) (Fin 1) (Fin (- 2)) (Fin 3) (Fin (1 / 10)) = Inr p \<and> pp_s_dot p = Fin 0"
proof -
  obtain p where p: "euler_step (Fin 0) (Fin 1) (Fin (- 2)) (Fin 3) (Fin (1 / 10)) = Inr p"
    by (simp add: euler_step_def Let_def)
  from euler_step_kinematics [OF _ _ p] have "pp_s_dot p = Fin 0" by force
  with p show ?thesis by blast
qed

end
