(* ===== verification/Switching_Points.thy ===== *)
theory Switching_Points
  imports Limit_Curves
begin

text \<open>
  The search for switching points (\<open>trajectory.cpp\<close>, second part): the acceleration type of
  section VII-A of Kunz and Stilman (an extremum of a joint inside an arc, a jump of the curvature at
  a segment boundary), the velocity type of section VII-B (a jump of the velocity limit, an escape
  from the velocity curve found by a coarse scan and a bisection), and the cache that combines them.
  Cursors are passed by value in the code, and so here.
\<close>

section \<open>Switching points\<close>

datatype switching_point_kind =
    K_path_begin
  | K_discontinuous_curvature
  | K_nondifferentiable_extremum
  | K_velocity_escape
  | K_discontinuous_velocity_limit
  | K_path_end

record switching_point =
  sp_point :: phase_point
  sp_kind :: switching_point_kind
  sp_forward_accel :: "arc_acceleration option"
  sp_backward_accel :: "arc_acceleration option"

definition cursor_deref :: "cursor \<Rightarrow> segment_view res" where
  "cursor_deref c = deref (cur_path c) (cur_hint c)"

text \<open>The acceleration limit at a position of a segment, which the search samples in many places.\<close>

definition view_acceleration_limit :: "segment_view \<Rightarrow> arc_length \<Rightarrow> traj_options \<Rightarrow> arc_velocity res" where
  "view_acceleration_limit v s opt =
     bind_res (view_tangent v s) (\<lambda>q_prime.
     bind_res (view_curvature v s) (\<lambda>q_double_prime.
       Inr (compute_acceleration_limit q_prime q_double_prime (to_max_acceleration opt) (to_epsilon opt))))"

definition view_limit_curves :: "segment_view \<Rightarrow> arc_length \<Rightarrow> traj_options \<Rightarrow> limit_curves res" where
  "view_limit_curves v s opt =
     bind_res (view_tangent v s) (\<lambda>q_prime.
     bind_res (view_curvature v s) (\<lambda>q_double_prime.
     bind_res (view_configuration v s) (\<lambda>q. compute_limit_curves q q_prime q_double_prime opt)))"

definition half :: "dbl \<Rightarrow> dbl" where
  "half e = e * Fin (1 / 2)"

section \<open>Extrema inside an arc\<close>

text \<open>\<open>std::atan2\<close>, with its range from \<open>-\<pi>\<close> (exclusive) to \<open>\<pi>\<close>.\<close>

definition atan2 :: "real \<Rightarrow> real \<Rightarrow> real" where
  "atan2 y x =
     (if 0 < x then arctan (y / x)
      else if x < 0 then (if 0 \<le> y then arctan (y / x) + pi else arctan (y / x) - pi)
      else if 0 < y then pi / 2
      else if y < 0 then - (pi / 2)
      else 0)"

definition extremum_angle :: "real \<Rightarrow> real \<Rightarrow> real" where
  "extremum_angle y x = (let a = atan2 y x in if a < 0 then a + pi else a)"

definition extremum_candidate :: "cursor \<Rightarrow> segment_view \<Rightarrow> circular \<Rightarrow> nat \<Rightarrow> arc_length option" where
  "extremum_candidate c current_segment arc i =
     (if circ_x arc ! i = 0 \<and> circ_y arc ! i = 0 then None
      else
        let angle = extremum_angle (circ_y arc ! i) (circ_x arc ! i)
        in if circ_angle_rads arc + 4 * machine_epsilon < angle then None
           else
             let angle' = min angle (circ_angle_rads arc);
                 s_local = Fin (circ_radius arc * angle');
                 s_global = view_start current_segment + s_local
             in if s_global < cur_position c then None else Some s_global)"

definition candidate_extrema :: "cursor \<Rightarrow> segment_view \<Rightarrow> circular \<Rightarrow> arc_length list" where
  "candidate_extrema c current_segment arc =
     sort_key fin (List.map_filter (extremum_candidate c current_segment arc) [0..<length (circ_x arc)])"

text \<open>
  Where the slope of the limit curve is sampled before and after a candidate: in the neighbouring
  segment when the curve is continuous across the boundary, else clamped to this one.
\<close>

definition sample_before ::
  "cursor \<Rightarrow> segment_view \<Rightarrow> arc_length \<Rightarrow> traj_options \<Rightarrow> (arc_length \<times> segment_view) res" where
  "sample_before c current_segment candidate opt =
     (let before = std_max 0 (candidate - to_epsilon opt)
      in bind_res
           (if before < view_start current_segment
            then
              bind_res (cursor_seek c candidate) (\<lambda>c'.
                let base = cursor_base c'
                in if base \<noteq> 0
                   then
                     bind_res (deref (cur_path c) (base - 1)) (\<lambda>prior_segment.
                     bind_res (view_acceleration_limit prior_segment (view_end prior_segment) opt) (\<lambda>end_prior.
                     bind_res (view_acceleration_limit current_segment (view_start current_segment) opt)
                       (\<lambda>begin_current.
                         Inr (std_max before (view_start prior_segment),
                              if eps_eq (to_epsilon opt) end_prior begin_current
                              then prior_segment else current_segment))))
                   else Inr (before, current_segment))
            else Inr (before, current_segment))
           (\<lambda>(before', segment). Inr (std_max before' (view_start segment), segment)))"

definition sample_after ::
  "cursor \<Rightarrow> segment_view \<Rightarrow> arc_length \<Rightarrow> traj_options \<Rightarrow> (arc_length \<times> segment_view) res" where
  "sample_after c current_segment candidate opt =
     (let after = std_min (path_length (cur_path c)) (candidate + to_epsilon opt)
      in bind_res
           (if view_end current_segment < after
            then
              bind_res (cursor_seek c candidate) (\<lambda>c'.
                let base = (if cursor_base c' = cursor_base c then Suc (cursor_base c') else cursor_base c')
                in if base \<noteq> path_size (cur_path c)
                   then
                     bind_res (deref (cur_path c) base) (\<lambda>next_segment.
                     bind_res (view_acceleration_limit current_segment (view_end current_segment) opt) (\<lambda>end_current.
                     bind_res (view_acceleration_limit next_segment (view_start next_segment) opt) (\<lambda>start_next.
                       Inr (std_min after (view_end next_segment),
                            if eps_eq (to_epsilon opt) end_current start_next
                            then next_segment else current_segment))))
                   else Inr (after, current_segment))
            else Inr (after, current_segment))
           (\<lambda>(after', segment). Inr (std_min after' (view_end segment), segment)))"

definition check_extremum ::
  "cursor \<Rightarrow> segment_view \<Rightarrow> traj_options \<Rightarrow> arc_length \<Rightarrow> switching_point option res" where
  "check_extremum c current_segment opt candidate =
     bind_res (view_limit_curves current_segment candidate opt) (\<lambda>curves.
       let s_dot_max_acc = lc_s_dot_max_acc curves; eps = to_epsilon opt
       in if eps_less eps (lc_s_dot_max_vel curves) s_dot_max_acc then Inr None
          else
            bind_res (sample_before c current_segment candidate opt) (\<lambda>(before, before_segment).
            bind_res (sample_after c current_segment candidate opt) (\<lambda>(after, after_segment).
              if eps_eq (half eps) before candidate \<or> eps_eq (half eps) candidate after then Inr None
              else
                bind_res (view_acceleration_limit before_segment before opt) (\<lambda>s_dot_before.
                bind_res (view_acceleration_limit after_segment after opt) (\<lambda>s_dot_after.
                  if s_dot_max_acc < s_dot_before \<and> s_dot_max_acc < s_dot_after
                  then Inr (Some \<lparr>sp_point = \<lparr>pp_s = candidate, pp_s_dot = s_dot_max_acc\<rparr>,
                                  sp_kind = K_nondifferentiable_extremum,
                                  sp_forward_accel = Some 0, sp_backward_accel = Some 0\<rparr>)
                  else Inr None)))))"

text \<open>The first candidate, in the order of arc length, that passes.\<close>

fun first_extremum ::
  "cursor \<Rightarrow> segment_view \<Rightarrow> traj_options \<Rightarrow> arc_length list \<Rightarrow> switching_point option res" where
  "first_extremum c current_segment opt [] = Inr None"
| "first_extremum c current_segment opt (candidate # rest) =
     bind_res (check_extremum c current_segment opt candidate) (\<lambda>sp.
       case sp of Some p \<Rightarrow> Inr (Some p) | None \<Rightarrow> first_extremum c current_segment opt rest)"

section \<open>Jumps of the curvature\<close>

text \<open>
  The two cases of equation 38, each on its own side of the boundary: whether it is a switching
  point, and the forward acceleration it mandates. None when there is no room for a slope.
\<close>

definition step_up_case ::
  "segment_view \<Rightarrow> arc_length \<Rightarrow> arc_velocity \<Rightarrow> traj_options \<Rightarrow> (bool \<times> arc_acceleration) option res" where
  "step_up_case current_segment boundary s_dot_max_acc_before opt =
     (let eps = to_epsilon opt;
          before_boundary = std_max (boundary - eps) (view_start current_segment);
          actual_step_left = boundary - before_boundary
      in if actual_step_left < half eps then Inr None
         else
           bind_res (view_tangent current_segment before_boundary) (\<lambda>q_prime_bb.
           bind_res (view_curvature current_segment before_boundary) (\<lambda>q_double_prime_bb.
             let acc_bb = compute_acceleration_limit q_prime_bb q_double_prime_bb (to_max_acceleration opt) eps;
                 slope_left = divide (s_dot_max_acc_before - acc_bb) actual_step_left
             in bind_res (compute_acceleration_bounds q_prime_bb q_double_prime_bb acc_bb (to_max_acceleration opt) eps)
                  (\<lambda>b. let phase_slope_left = divide (ab_s_ddot_min b) acc_bb
                       in Inr (Some (slope_left \<le> phase_slope_left, ab_s_ddot_max b))))))"

definition step_down_case ::
  "segment_view \<Rightarrow> arc_length \<Rightarrow> arc_velocity \<Rightarrow> traj_options \<Rightarrow> (bool \<times> arc_acceleration) option res" where
  "step_down_case segment_after boundary s_dot_max_acc_after opt =
     (let eps = to_epsilon opt;
          after_boundary = std_min (boundary + eps) (view_end segment_after);
          actual_step_right = after_boundary - boundary
      in if actual_step_right < half eps then Inr None
         else
           bind_res (view_tangent segment_after after_boundary) (\<lambda>q_prime_ab.
           bind_res (view_curvature segment_after after_boundary) (\<lambda>q_double_prime_ab.
             let acc_ab = compute_acceleration_limit q_prime_ab q_double_prime_ab (to_max_acceleration opt) eps;
                 slope_right = divide (acc_ab - s_dot_max_acc_after) actual_step_right
             in bind_res (compute_acceleration_bounds q_prime_ab q_double_prime_ab acc_ab (to_max_acceleration opt) eps)
                  (\<lambda>b. let phase_slope_right = divide (ab_s_ddot_max b) acc_ab
                       in Inr (Some (phase_slope_right \<le> slope_right, ab_s_ddot_max b))))))"

definition check_curvature_jump ::
  "segment_view \<Rightarrow> segment_view \<Rightarrow> arc_length \<Rightarrow> limit_curves \<Rightarrow> limit_curves \<Rightarrow> traj_options \<Rightarrow>
     switching_point option res" where
  "check_curvature_jump current_segment segment_after boundary before after opt =
     (let acc_before = lc_s_dot_max_acc before; acc_after = lc_s_dot_max_acc after;
          acc_min = std_min acc_before acc_after
      in bind_res
           (if acc_before < acc_after then step_up_case current_segment boundary acc_before opt
            else if acc_after < acc_before then step_down_case segment_after boundary acc_after opt
            else Inr None)
           (\<lambda>verdict.
             case verdict of
               Some (True, forward) \<Rightarrow>
                 let vel_min = std_min (lc_s_dot_max_vel before) (lc_s_dot_max_vel after)
                 in if eps_le (to_epsilon opt) acc_min vel_min
                    then Inr (Some
                      \<lparr>sp_point = \<lparr>pp_s = boundary, pp_s_dot = acc_min\<rparr>,
                       sp_kind = K_discontinuous_curvature,
                       sp_forward_accel = Some forward, sp_backward_accel = None\<rparr>)
                    else Inr None
             | _ \<Rightarrow> Inr None))"

text \<open>One iteration of the segment walk; the state is the cursor.\<close>

definition acceleration_search_body ::
  "arc_length \<Rightarrow> traj_options \<Rightarrow> cursor \<Rightarrow> (cursor, switching_point option) flow res" where
  "acceleration_search_body max_search_hint opt c =
     bind_res (cursor_deref c) (\<lambda>current_segment.
     bind_res (case view_segment current_segment of
                 Circular arc \<Rightarrow> first_extremum c current_segment opt (candidate_extrema c current_segment arc)
               | Linear _ \<Rightarrow> Inr None) (\<lambda>extremal.
       case extremal of
         Some sp \<Rightarrow> Inr (Return (Some sp))
       | None \<Rightarrow>
         let boundary = view_end current_segment
         in if path_length (cur_path c) \<le> boundary \<or> max_search_hint < boundary then Inr (Return None)
            else
              bind_res (view_limit_curves current_segment boundary opt) (\<lambda>before.
              bind_res (cursor_seek c boundary) (\<lambda>c'.
              bind_res (cursor_deref c') (\<lambda>segment_after.
              bind_res (view_limit_curves segment_after boundary opt) (\<lambda>after.
              bind_res (check_curvature_jump current_segment segment_after boundary before after opt) (\<lambda>jump.
                case jump of Some sp \<Rightarrow> Inr (Return (Some sp)) | None \<Rightarrow> Inr (Continue c'))))))))"

definition find_acceleration_switching_point ::
  "cursor \<Rightarrow> arc_length \<Rightarrow> traj_options \<Rightarrow> switching_point option res" where
  "find_acceleration_switching_point c max_search_hint opt =
     loop_flow (acceleration_search_body max_search_hint opt) c"

definition select_switching_point ::
  "switching_point option \<Rightarrow> switching_point option \<Rightarrow> epsilon \<Rightarrow> switching_point option" where
  "select_switching_point sp1 sp2 eps =
     (case (sp1, sp2) of
        (None, _) \<Rightarrow> sp2
      | (_, None) \<Rightarrow> sp1
      | (Some a, Some b) \<Rightarrow>
          if eps_eq eps (pp_s (sp_point a)) (pp_s (sp_point b))
          then (if pp_s_dot (sp_point a) < pp_s_dot (sp_point b) then sp1 else sp2)
          else (if pp_s (sp_point a) < pp_s (sp_point b) then sp1 else sp2))"

section \<open>Jumps of the velocity limit\<close>

definition velocity_switch :: "switching_point_kind \<Rightarrow> arc_length \<Rightarrow> arc_velocity \<Rightarrow> switching_point" where
  "velocity_switch kind s s_dot =
     \<lparr>sp_point = \<lparr>pp_s = s, pp_s_dot = s_dot\<rparr>, sp_kind = kind, sp_forward_accel = None,
      sp_backward_accel = None\<rparr>"

text \<open>Equations 41 and 42 at a boundary whose tangent is continuous.\<close>

definition check_velocity_jump ::
  "path \<Rightarrow> arc_length \<Rightarrow> segment_view \<Rightarrow> segment_view \<Rightarrow> xvector \<Rightarrow> xvector \<Rightarrow> traj_options \<Rightarrow>
     switching_point option res" where
  "check_velocity_jump p boundary current_segment segment_after q_prime_before q_prime_after opt =
     (let eps = to_epsilon opt in
      bind_res (view_curvature current_segment boundary) (\<lambda>q_double_prime_before.
      bind_res (view_curvature segment_after boundary) (\<lambda>q_double_prime_after.
      bind_res (path_configuration p boundary) (\<lambda>boundary_q.
      bind_res (compute_limit_curves boundary_q q_prime_before q_double_prime_before opt) (\<lambda>before.
      bind_res (compute_limit_curves boundary_q q_prime_after q_double_prime_after opt) (\<lambda>after.
        let acc_before = lc_s_dot_max_acc before; vel_before = lc_s_dot_max_vel before;
            acc_after = lc_s_dot_max_acc after; vel_after = lc_s_dot_max_vel after
        in if eps_le eps acc_before vel_before \<or> eps_le eps acc_after vel_after then Inr None
           else
             bind_res (compute_velocity_limit_slope before opt) (\<lambda>curve_slope_before.
             bind_res (compute_acceleration_bounds q_prime_before q_double_prime_before vel_before
                         (to_max_acceleration opt) eps) (\<lambda>accel_before.
               if \<not> curve_slope_before \<le> divide (ab_s_ddot_min accel_before) vel_before then Inr None
               else
                 bind_res (compute_velocity_limit_slope after opt) (\<lambda>curve_slope_after.
                 bind_res (compute_acceleration_bounds q_prime_after q_double_prime_after vel_after
                             (to_max_acceleration opt) eps) (\<lambda>accel_after.
                   if \<not> divide (ab_s_ddot_min accel_after) vel_after \<le> curve_slope_after then Inr None
                   else
                     let vel_min = std_min vel_before vel_after; acc_min = std_min acc_before acc_after
                     in if eps_ge eps acc_min vel_min
                        then Inr (Some (velocity_switch K_discontinuous_velocity_limit boundary vel_min))
                        else Inr None))))))))))"

text \<open>The state of the walk: the boundary cursor and the last boundary evaluated.\<close>

definition velocity_jump_body ::
  "cursor \<Rightarrow> arc_length \<Rightarrow> traj_options \<Rightarrow> cursor \<times> arc_length \<Rightarrow>
     (cursor \<times> arc_length, switching_point option) flow res" where
  "velocity_jump_body start max_search_hint opt = (\<lambda>(boundary_cursor, last_evaluated_boundary).
     let eps = to_epsilon opt; len = path_length (cur_path start) in
     if cur_position boundary_cursor \<le> max_search_hint \<and> cur_position boundary_cursor < len then
       bind_res (cursor_deref boundary_cursor) (\<lambda>current_segment.
         let boundary = view_end current_segment in
         if eps_le eps boundary last_evaluated_boundary \<or> eps_ge eps boundary len \<or>
            eps_greater eps boundary max_search_hint
         then Inr (Return None)
         else if eps_le eps boundary (cur_position start)
         then bind_res (cursor_seek boundary_cursor boundary) (\<lambda>c'.
                Inr (Continue (c', last_evaluated_boundary)))
         else
           bind_res (view_tangent current_segment boundary) (\<lambda>q_prime_before.
           bind_res (cursor_seek boundary_cursor boundary) (\<lambda>c'.
           bind_res (cursor_deref c') (\<lambda>segment_after.
           bind_res (view_tangent segment_after boundary) (\<lambda>q_prime_after.
             if \<not> eps_eq eps (Fin (dot q_prime_before q_prime_after)) 1
             then Inr (Return (Some (velocity_switch K_discontinuous_velocity_limit boundary 0)))
             else
               bind_res (check_velocity_jump (cur_path start) boundary current_segment segment_after
                           q_prime_before q_prime_after opt) (\<lambda>sp.
                 case sp of Some p \<Rightarrow> Inr (Return (Some p)) | None \<Rightarrow> Inr (Continue (c', boundary))))))))
     else Inr (Return None))"

definition find_discontinuous_velocity_switching_point ::
  "cursor \<Rightarrow> arc_length \<Rightarrow> traj_options \<Rightarrow> switching_point option res" where
  "find_discontinuous_velocity_switching_point c max_search_hint opt =
     loop_flow (velocity_jump_body c max_search_hint opt) (c, NInf)"

section \<open>Escapes from the velocity curve\<close>

record eq40_bracket =
  eb_before :: arc_length
  eb_after :: arc_length
  eb_after_delta :: phase_plane_slope
  eb_after_s_dot_max_vel :: arc_velocity

text \<open>The variables of the coarse scan; \<open>es_previous_delta\<close> is unset where \<open>has_previous_delta\<close> is false.\<close>

record eq40_scan =
  es_cursor :: cursor
  es_previous_position :: arc_length
  es_previous_delta :: "phase_plane_slope option"
  es_previous_segment :: segment_view

text \<open>A tangent discontinuity at a boundary just crossed makes the remembered value useless.\<close>

definition carry_baseline :: "eq40_scan \<Rightarrow> segment_view \<Rightarrow> traj_options \<Rightarrow> eq40_scan res" where
  "carry_baseline st current_segment opt =
     (let previous_segment_end = view_end (es_previous_segment st)
      in if \<not> feq (view_end current_segment) previous_segment_end
         then
           bind_res (view_tangent (es_previous_segment st) previous_segment_end) (\<lambda>before.
           bind_res (view_tangent current_segment previous_segment_end) (\<lambda>after.
             Inr (st\<lparr>es_previous_delta := (if \<not> eps_eq (to_epsilon opt) (Fin (dot before after)) 1
                                           then None else es_previous_delta st),
                     es_previous_segment := current_segment\<rparr>)))
         else Inr st)"

definition eq40_next_position :: "arc_length \<Rightarrow> segment_view \<Rightarrow> arc_length \<Rightarrow> traj_options \<Rightarrow> arc_length" where
  "eq40_next_position current_position current_segment max_search_hint opt =
     (let next = current_position + to_delta opt;
          double_epsilon = to_epsilon opt * 2;
          next' = (if eps_ge double_epsilon next (view_end current_segment)
                   then view_end current_segment else next)
      in std_min next' max_search_hint)"

definition eq40_advance ::
  "arc_length \<Rightarrow> traj_options \<Rightarrow> eq40_scan \<Rightarrow> segment_view \<Rightarrow> (phase_plane_slope \<times> arc_velocity) option \<Rightarrow>
     (eq40_scan, eq40_bracket option) flow res" where
  "eq40_advance max_search_hint opt st current_segment result =
     (let current_position = cur_position (es_cursor st);
          st1 = st\<lparr>es_previous_delta := map_option fst result, es_previous_position := current_position\<rparr>;
          next_position = eq40_next_position current_position current_segment max_search_hint opt
      in if feq next_position current_position then Inr (Return None)
         else bind_res (cursor_seek (es_cursor st) next_position) (\<lambda>c.
                Inr (Continue (st1\<lparr>es_cursor := c\<rparr>))))"

definition eq40_scan_body ::
  "arc_length \<Rightarrow> traj_options \<Rightarrow> eq40_scan \<Rightarrow> (eq40_scan, eq40_bracket option) flow res" where
  "eq40_scan_body max_search_hint opt st =
     (let c = es_cursor st; current_position = cur_position c in
      if current_position \<le> max_search_hint \<and> current_position < path_length (cur_path c) then
        bind_res (try_compute_eq40_delta c opt) (\<lambda>result.
        bind_res (cursor_deref c) (\<lambda>current_segment.
        bind_res (carry_baseline st current_segment opt) (\<lambda>st1.
          case (es_previous_delta st1, result) of
            (Some previous_delta, Some (delta, s_dot_max_vel)) \<Rightarrow>
              if 0 < previous_delta \<and> delta \<le> 0
              then Inr (Return (Some \<lparr>eb_before = es_previous_position st1, eb_after = current_position,
                                     eb_after_delta = delta, eb_after_s_dot_max_vel = s_dot_max_vel\<rparr>))
              else eq40_advance max_search_hint opt st1 current_segment result
          | _ \<Rightarrow> eq40_advance max_search_hint opt st1 current_segment result)))
      else Inr (Return None))"

definition find_eq40_escape_bracket ::
  "cursor \<Rightarrow> arc_length \<Rightarrow> arc_length \<Rightarrow> traj_options \<Rightarrow> eq40_bracket option res" where
  "find_eq40_escape_bracket search_cursor search_position max_search_hint opt =
     bind_res (cursor_seek search_cursor search_position) (\<lambda>c.
     bind_res (cursor_deref c) (\<lambda>previous_segment.
       loop_flow (eq40_scan_body max_search_hint opt)
         \<lparr>es_cursor = c, es_previous_position = search_position, es_previous_delta = None,
          es_previous_segment = previous_segment\<rparr>))"

text \<open>The bisection: the iterations left, the two sides and the velocity at the non-positive one.\<close>

fun refine_bisect ::
  "nat \<Rightarrow> cursor \<Rightarrow> arc_length \<Rightarrow> arc_length \<Rightarrow> arc_velocity \<Rightarrow> traj_options \<Rightarrow> switching_point option res" where
  "refine_bisect 0 c positive_side nonpositive_side best opt = Inr None"
| "refine_bisect (Suc n) c positive_side nonpositive_side best opt =
     (if eps_eq (to_epsilon opt) positive_side nonpositive_side
      then Inr (Some (velocity_switch K_velocity_escape nonpositive_side best))
      else
        let mid = midpoint positive_side nonpositive_side
        in bind_res (cursor_seek c mid) (\<lambda>c'.
           bind_res (try_compute_eq40_delta c' opt) (\<lambda>mid_result.
             case mid_result of
               None \<Rightarrow> refine_bisect n c' mid nonpositive_side best opt
             | Some (delta, s_dot_max_vel) \<Rightarrow>
                 if feq delta 0 then Inr (Some (velocity_switch K_velocity_escape mid s_dot_max_vel))
                 else if delta < 0 then refine_bisect n c' positive_side mid s_dot_max_vel opt
                 else refine_bisect n c' mid nonpositive_side best opt)))"

definition max_bisection_iterations :: nat where
  "max_bisection_iterations = 100"

definition refine_continuous_velocity_switching_point ::
  "cursor \<Rightarrow> eq40_bracket \<Rightarrow> traj_options \<Rightarrow> switching_point option res" where
  "refine_continuous_velocity_switching_point search_cursor bracket opt =
     (if eps_eq (to_epsilon opt) (eb_after_delta bracket) 0
      then Inr (Some (velocity_switch K_velocity_escape (eb_after bracket) (eb_after_s_dot_max_vel bracket)))
      else refine_bisect max_bisection_iterations search_cursor (eb_before bracket) (eb_after bracket)
             (eb_after_s_dot_max_vel bracket) opt)"

definition below_acceleration_curve :: "cursor \<Rightarrow> switching_point \<Rightarrow> traj_options \<Rightarrow> bool res" where
  "below_acceleration_curve c sp opt =
     bind_res (cursor_seek c (pp_s (sp_point sp))) (\<lambda>there.
     bind_res (cursor_tangent there) (\<lambda>q_prime.
     bind_res (cursor_curvature there) (\<lambda>q_double_prime.
       Inr (eps_le (to_epsilon opt) (pp_s_dot (sp_point sp))
              (compute_acceleration_limit q_prime q_double_prime (to_max_acceleration opt) (to_epsilon opt))))))"

definition escape_search_body ::
  "cursor \<Rightarrow> arc_length \<Rightarrow> traj_options \<Rightarrow> arc_length \<Rightarrow> (arc_length, switching_point option) flow res" where
  "escape_search_body c max_search_hint opt search_position =
     (if search_position \<le> max_search_hint \<and> search_position < path_length (cur_path c) then
        bind_res (find_eq40_escape_bracket c search_position max_search_hint opt) (\<lambda>coarse_bracket.
          case coarse_bracket of
            None \<Rightarrow> Inr (Return None)
          | Some bracket \<Rightarrow>
              bind_res (refine_continuous_velocity_switching_point c bracket opt) (\<lambda>refined.
              bind_res (case refined of None \<Rightarrow> Inr False | Some sp \<Rightarrow> below_acceleration_curve c sp opt)
                (\<lambda>accept. if accept then Inr (Return refined) else Inr (Continue (eb_after bracket)))))
      else Inr (Return None))"

definition find_continuous_velocity_switching_point ::
  "cursor \<Rightarrow> arc_length \<Rightarrow> traj_options \<Rightarrow> switching_point option res" where
  "find_continuous_velocity_switching_point c max_search_hint opt =
     loop_flow (escape_search_body c max_search_hint opt) (cur_position c)"

definition find_velocity_switching_point ::
  "cursor \<Rightarrow> arc_length \<Rightarrow> traj_options \<Rightarrow> switching_point option res" where
  "find_velocity_switching_point c max_search_hint opt =
     bind_res (find_discontinuous_velocity_switching_point c max_search_hint opt) (\<lambda>discontinuous.
       let continuous_bound = (case discontinuous of
             Some sp \<Rightarrow> std_min (pp_s (sp_point sp)) max_search_hint | None \<Rightarrow> max_search_hint)
       in bind_res (find_continuous_velocity_switching_point c continuous_bound opt) (\<lambda>continuous.
            Inr (select_switching_point discontinuous continuous (to_epsilon opt))))"

section \<open>The cache\<close>

record switching_point_cache =
  spc_next_accel :: "switching_point option"
  spc_next_vel :: "switching_point option"

definition path_end_sentinel :: "path \<Rightarrow> switching_point" where
  "path_end_sentinel p =
     \<lparr>sp_point = \<lparr>pp_s = path_length p, pp_s_dot = 0\<rparr>, sp_kind = K_path_end,
      sp_forward_accel = None, sp_backward_accel = None\<rparr>"

definition drop_behind :: "arc_length \<Rightarrow> switching_point option \<Rightarrow> switching_point option" where
  "drop_behind position entry =
     (case entry of Some sp \<Rightarrow> if pp_s (sp_point sp) \<le> position then None else entry | None \<Rightarrow> None)"

text \<open>Both entries are resolved by the same pattern: search up to the other, or mark the path end.\<close>

definition resolve_entry ::
  "switching_point option \<Rightarrow> switching_point option \<Rightarrow> (arc_length \<Rightarrow> switching_point option res) \<Rightarrow> path \<Rightarrow>
     switching_point option res" where
  "resolve_entry entry other search p =
     (case entry of
        Some sp \<Rightarrow> Inr entry
      | None \<Rightarrow>
          let bound = (case other of Some sp \<Rightarrow> pp_s (sp_point sp) | None \<Rightarrow> path_length p)
          in bind_res (search bound) (\<lambda>found.
               case found of
                 Some sp \<Rightarrow> Inr found
               | None \<Rightarrow> Inr (if feq bound (path_length p) then Some (path_end_sentinel p) else None)))"

definition find_switching_point ::
  "switching_point_cache \<Rightarrow> cursor \<Rightarrow> traj_options \<Rightarrow> (switching_point \<times> switching_point_cache) res" where
  "find_switching_point cache c opt =
     (let p = cur_path c;
          accel0 = drop_behind (cur_position c) (spc_next_accel cache);
          vel0 = drop_behind (cur_position c) (spc_next_vel cache)
      in bind_res (resolve_entry accel0 vel0 (\<lambda>bound. find_acceleration_switching_point c bound opt) p) (\<lambda>accel.
         bind_res (resolve_entry vel0 accel (\<lambda>bound. find_velocity_switching_point c bound opt) p) (\<lambda>vel.
           Inr (case select_switching_point accel vel (to_epsilon opt) of
                  Some sp \<Rightarrow> sp | None \<Rightarrow> path_end_sentinel p,
                \<lparr>spc_next_accel = accel, spc_next_vel = vel\<rparr>))))"

section \<open>The searches return\<close>

lemma halts_cursor_deref [halts_intros]: "halts (cursor_deref c)"
  by (simp add: cursor_deref_def halts_intros)

lemma halts_view_limits [halts_intros]:
  "halts (view_acceleration_limit v s opt)"
  "evaluator_returns opt \<Longrightarrow> halts (view_limit_curves v s opt)"
  unfolding view_acceleration_limit_def view_limit_curves_def by (auto intro!: halts_intros)

lemma halts_samples [halts_intros]:
  "halts (sample_before c v s opt)" "halts (sample_after c v s opt)"
  unfolding sample_before_def sample_after_def Let_def by (auto intro!: halts_intros split: prod.splits)

lemma halts_first_extremum [halts_intros]:
  assumes "evaluator_returns opt"
  shows "halts (first_extremum c v opt ss)"
proof (induction ss)
  case (Cons s ss)
  have "halts (check_extremum c v opt s)"
    unfolding check_extremum_def Let_def using assms by (auto intro!: halts_intros split: prod.splits)
  with Cons show ?case by (auto intro!: halts_intros split: option.splits)
qed simp

lemma halts_step_cases [halts_intros]:
  "halts (step_up_case v s acc opt)" "halts (step_down_case v s acc opt)"
  unfolding step_up_case_def step_down_case_def Let_def by (auto intro!: halts_intros)

lemma halts_curvature_jump [halts_intros]: "halts (check_curvature_jump v v' s before after opt)"
  unfolding check_curvature_jump_def Let_def
  by (auto intro!: halts_intros split: option.splits prod.splits bool.splits)

lemma halts_acceleration_body:
  "evaluator_returns opt \<Longrightarrow> halts (acceleration_search_body hint opt c)"
  unfolding acceleration_search_body_def Let_def
  by (auto intro!: halts_intros split: option.splits prod.splits bool.splits segment.splits)

lemma halts_velocity_jump_body:
  "evaluator_returns opt \<Longrightarrow> halts (velocity_jump_body start hint opt st)"
  unfolding velocity_jump_body_def check_velocity_jump_def Let_def
  by (auto intro!: halts_intros split: option.splits prod.splits)

lemma halts_eq40_body:
  "evaluator_returns opt \<Longrightarrow> halts (eq40_scan_body hint opt st)"
  unfolding eq40_scan_body_def eq40_advance_def carry_baseline_def Let_def
  by (auto intro!: halts_intros split: option.splits prod.splits)

lemma halts_refine [halts_intros]:
  assumes "evaluator_returns opt"
  shows "halts (refine_continuous_velocity_switching_point c bracket opt)"
proof -
  have "halts (refine_bisect n c a b v opt)" for n c a b v
    by (induction n arbitrary: c a b v)
      (auto simp: Let_def assms intro!: halts_intros split: option.splits prod.splits)
  then show ?thesis by (simp add: refine_continuous_velocity_switching_point_def)
qed

text \<open>A cursor on the path, as the searches are given and keep.\<close>

definition standing :: "path \<Rightarrow> cursor \<Rightarrow> bool" where
  "standing p c \<longleftrightarrow> cursor_inv c \<and> cur_path c = p \<and> isfinite (cur_position c)"

lemma standing_seek:
  assumes "standing p c" "cursor_seek c s = Inr c'" "on_path p s"
  shows "standing p c'" "cur_position c' = s" "cur_hint c' = segment_index p s"
proof -
  have "cursor_inv c" "cur_path c = p" using assms(1) by (auto simp: standing_def)
  with plain.seek_lands [of c s] assms(2,3)
  have "cursor_inv c' \<and> cur_path c' = p \<and> cur_position c' = s \<and> isfinite s" by auto
  then show "standing p c'" "cur_position c' = s" "cur_hint c' = segment_index p s"
    by (auto simp: standing_def cursor_inv_def)
qed

lemma standing_view:
  assumes "standing p c" "cursor_deref c = Inr v"
  shows "view_start v = ps_start (path_segments p ! cur_hint c)" "view_end v = segment_end p (cur_hint c)"
    "view_segment v = ps_seg (path_segments p ! cur_hint c)" "cur_hint c < path_size p"
    "view_start v \<le> cur_position c" "cur_position c \<le> view_end v"
    "cur_position c < path_length p \<Longrightarrow> cur_position c < view_end v"
proof -
  obtain x where x: "cur_position c = Fin x" "0 \<le> x" "Fin x \<le> path_length p" "cur_hint c = segment_index p (Fin x)"
    and p: "path_inv p" "cur_path c = p" and h: "cur_hint c < path_size p"
    using assms(1) by (auto simp: standing_def cursor_inv_def isfinite_iff on_path_def)
  show v: "view_start v = ps_start (path_segments p ! cur_hint c)" "view_end v = segment_end p (cur_hint c)"
    "view_segment v = ps_seg (path_segments p ! cur_hint c)" "cur_hint c < path_size p"
    using assms(2) h by (auto simp: cursor_deref_def deref_in_range p(2))
  note b = segment_index_bounds [OF p(1) x(2,3)]
  show "view_start v \<le> cur_position c" "cur_position c \<le> view_end v"
    using b(3,4) by (simp_all add: v(1,2) x(1,4))
  show "cur_position c < view_end v" if "cur_position c < path_length p"
  proof (cases "Suc (cur_hint c) < path_size p")
    case True
    then have "Fin x < ps_start (path_segments p ! Suc (cur_hint c))"
      using b(1) upper_bound_at [of "\<lambda>e. Fin x < ps_start e" "path_segments p"]
      by (simp add: first_after_def x(4) path_size_def)
    with True show ?thesis by (simp add: v(2) x(1) segment_end_def path_size_def)
  next
    case False
    with that show ?thesis by (simp add: v(2) segment_end_def path_size_def)
  qed
qed

text \<open>The end of a segment that is not the last belongs to the next one.\<close>

lemma segment_end_next:
  assumes "path_inv p" "i < path_size p" "segment_end p i < path_length p"
  shows "Suc i < path_size p" "on_path p (segment_end p i)" "segment_index p (segment_end p i) = Suc i"
    "isfinite (segment_end p i)"
proof -
  obtain xs len where xs: "length xs = path_size p" "path_length p = Fin len"
    "\<And>i. i < length xs \<Longrightarrow> ps_start (path_segments p ! i) = Fin (xs ! i) \<and> 0 \<le> xs ! i \<and> xs ! i < len"
    "sorted_wrt (<) xs"
    "\<And>i. i < length xs \<Longrightarrow> segment_end p i = Fin (if Suc i < length xs then xs ! Suc i else len)"
    using path_positions [OF assms(1)] by (metis path_size_def)
  show n: "Suc i < path_size p" using assms(2,3) xs by (cases "Suc i < path_size p") auto
  then have e: "segment_end p i = Fin (xs ! Suc i)" using xs(1) xs(5) [of i] by simp
  then show "isfinite (segment_end p i)" by simp
  show "on_path p (segment_end p i)"
    using e n xs(1,2) xs(3) [of "Suc i"] by (simp add: on_path_def less_imp_le)
  show "segment_index p (segment_end p i) = Suc i"
    unfolding e by (rule segment_index_unique(2) [OF assms(1) n])
      (use n xs(1) xs(3) [of "Suc i"] xs(3) [of "Suc (Suc i)"] sorted_wrt_nth_less [OF xs(4), of "Suc i" "Suc (Suc i)"] in auto)
qed

text \<open>Each round of the segment walk moves the cursor to the next segment.\<close>

lemma acceleration_walk:
  assumes "standing p c" "acceleration_search_body hint opt c = Inr (Continue c')"
  shows "standing p c'" "cur_hint c' = Suc (cur_hint c)" "cur_hint c' < path_size p"
    "cur_position c' = segment_end p (cur_hint c)" "cur_position c' \<le> hint \<or> hint = NaN" "cur_position c \<le> cur_position c'"
proof -
  obtain v where v: "cursor_deref c = Inr v" "cursor_seek c (view_end v) = Inr c'"
      "\<not> path_length p \<le> view_end v" "\<not> hint < view_end v"
    using assms by (auto simp: acceleration_search_body_def bind_res_eq_Inr standing_def Let_def
        split: option.splits if_splits prod.splits bool.splits)
  note sv = standing_view [OF assms(1) v(1)]
  have p: "path_inv p" using assms(1) by (auto simp: standing_def cursor_inv_def)
  obtain len where len: "path_length p = Fin len" using path_length_finite [OF p] by blast
  have fin: "view_end v \<noteq> NaN"
    using sv(6) assms(1) by (auto simp: standing_def)
  have lt: "segment_end p (cur_hint c) < path_length p"
    using v(3) len fin by (simp add: sv(2) [symmetric] dbl_not_le)
  note e = segment_end_next [OF p sv(4) lt]
  note s = standing_seek [OF assms(1) v(2) [unfolded sv(2)] e(2)]
  show "standing p c'" "cur_hint c' = Suc (cur_hint c)" "cur_hint c' < path_size p"
    "cur_position c' = segment_end p (cur_hint c)"
    using s e by simp_all
  show "cur_position c' \<le> hint \<or> hint = NaN"
    using v(4) fin s(2) sv(2) dbl_not_less [of hint "view_end v"] by auto
  show "cur_position c \<le> cur_position c'" using sv(2,6) s(2) by simp
qed

lemma acceleration_search_halts:
  assumes "evaluator_returns opt" "standing p c"
  shows "halts (find_acceleration_switching_point c hint opt)"
  unfolding find_acceleration_switching_point_def
proof (rule halts_loop_flow [of "standing p" _ _ "\<lambda>c. path_size p - cur_hint c"])
  fix c c' assume "standing p c" "acceleration_search_body hint opt c = Inr (Continue c')"
  from acceleration_walk [OF this] show "standing p c' \<and> path_size p - cur_hint c' < path_size p - cur_hint c"
    by simp
qed (use assms halts_acceleration_body in auto)

text \<open>The options the searches run with, as \<open>trajectory::create\<close> has checked them.\<close>

definition usable_options :: "traj_options \<Rightarrow> bool" where
  "usable_options opt \<longleftrightarrow> evaluator_returns opt \<and> isfinite (to_epsilon opt) \<and> 0 < to_epsilon opt \<and>
     isfinite (to_delta opt) \<and> 0 < to_delta opt"

lemma usable_optionsE:
  assumes "usable_options opt"
  obtains e d where "to_epsilon opt = Fin e" "0 < e" "to_delta opt = Fin d" "0 < d" "evaluator_returns opt"
  using assms by (auto simp: usable_options_def isfinite_iff)

lemma velocity_jump_walk:
  assumes "usable_options opt" "standing p c" "velocity_jump_body start hint opt (c, lb) = Inr (Continue (c', lb'))"
    "cur_path start = p"
  shows "standing p c'" "cur_hint c' = Suc (cur_hint c)" "cur_hint c' < path_size p"
    "cur_position c' = segment_end p (cur_hint c)"
proof -
  obtain e d where e: "to_epsilon opt = Fin e" "0 < e" using usable_optionsE [OF assms(1)] .
  obtain v where v: "cursor_deref c = Inr v" "cursor_seek c (view_end v) = Inr c'"
      "\<not> eps_ge (Fin e) (view_end v) (path_length p)"
    using assms(3,4) e
    by (auto simp: velocity_jump_body_def bind_res_eq_Inr Let_def split: option.splits if_splits)
  note sv = standing_view [OF assms(2) v(1)]
  have p: "path_inv p" using assms(2) by (auto simp: standing_def cursor_inv_def)
  obtain len where len: "path_length p = Fin len" using path_length_finite [OF p] by blast
  have "view_end v < path_length p"
    using v(3) e(2) len sv(6) by (cases "view_end v") auto
  then have lt: "segment_end p (cur_hint c) < path_length p" by (simp add: sv(2))
  note en = segment_end_next [OF p sv(4) lt]
  from standing_seek [OF assms(2) v(2) [unfolded sv(2)] en(2)] en
  show "standing p c'" "cur_hint c' = Suc (cur_hint c)" "cur_hint c' < path_size p"
    "cur_position c' = segment_end p (cur_hint c)" by simp_all
qed

lemma velocity_jump_search_halts:
  assumes "usable_options opt" "standing p c"
  shows "halts (find_discontinuous_velocity_switching_point c hint opt)"
  unfolding find_discontinuous_velocity_switching_point_def
proof (rule halts_loop_flow [of "\<lambda>(c, _). standing p c" _ _ "\<lambda>(c, _). path_size p - cur_hint c"])
  fix st st' assume st: "case st of (c, _) \<Rightarrow> standing p c"
    and step: "velocity_jump_body c hint opt st = Inr (Continue st')"
  obtain a la b lb where ab: "st = (a, la)" "st' = (b, lb)" by (cases st; cases st')
  have "cur_path c = p" using assms(2) by (simp add: standing_def)
  from velocity_jump_walk [OF assms(1) _ _ this, of a hint la b lb] st step
  show "(case st' of (c, _) \<Rightarrow> standing p c) \<and>
      (case st' of (c, _) \<Rightarrow> path_size p - cur_hint c) < (case st of (c, _) \<Rightarrow> path_size p - cur_hint c)"
    by (auto simp: ab)
qed (use assms in \<open>auto simp: usable_options_def halts_velocity_jump_body\<close>)

end
