(* ===== verification/Forward_Integration.thy ===== *)
theory Forward_Integration
  imports Switching_Points
begin

text \<open>
  The forward pass of the integration in the phase plane (\<open>trajectory::create\<close>, lambda
  \<open>integrate_forward_from\<close>): the choice of the acceleration, the Euler step and its quantisation to
  segment boundaries, the bisection on a breached limit curve, the classification of the breach, and
  the points it commits. The rich cursor is represented by the plain cursor it wraps, whose answers it
  lends (see \<open>Path_Cursor\<close>). Observers are told of events and do not change the pass; they are left out,
  as are assertions.
\<close>

section \<open>State\<close>

record integration_point =
  ip_time :: seconds
  ip_s :: arc_length
  ip_s_dot :: arc_velocity
  ip_s_ddot :: arc_acceleration

text \<open>The trajectory under construction with the two parts of \<open>integration_cache\<close>.\<close>

record integration =
  ig_points :: "integration_point list"
  ig_duration :: seconds
  ig_cursor :: cursor
  ig_cache :: switching_point_cache

record limit_hit =
  lh_breach :: phase_point
  lh_s_dot_max_acc :: arc_velocity
  lh_s_dot_max_vel :: arc_velocity

text \<open>
  The variables of the loop; \<open>fw_first\<close> holds while \<open>current_kind\<close> is set, and \<open>fw_probed\<close> is the
  arc length of the last probe with the limit curves computed there.
\<close>

record forward =
  fw_integration :: integration
  fw_time :: seconds
  fw_point :: phase_point
  fw_first :: bool
  fw_probed :: "(arc_length \<times> limit_curves) option"

section \<open>Acceleration and candidate\<close>

definition probed_limit_curves ::
  "(arc_length \<times> limit_curves) option \<Rightarrow> arc_length \<Rightarrow> cursor \<Rightarrow> traj_options \<Rightarrow> limit_curves res" where
  "probed_limit_curves probed s c opt =
     (case probed of
        Some (s', curves) \<Rightarrow> if feq s' s then Inr curves else cursor_limit_curves c opt
      | None \<Rightarrow> cursor_limit_curves c opt)"

text \<open>The acceleration, and the bounds if the pass follows the velocity curve.\<close>

definition choose_acceleration ::
  "traj_options \<Rightarrow> arc_acceleration option \<Rightarrow> cursor \<Rightarrow> phase_point \<Rightarrow> (arc_length \<times> limit_curves) option \<Rightarrow>
     (arc_acceleration \<times> acceleration_bounds option) res" where
  "choose_acceleration opt mandated c current probed =
     (case mandated of
        Some a \<Rightarrow> Inr (a, None)
      | None \<Rightarrow>
          bind_res (cursor_tangent c) (\<lambda>q_prime.
          bind_res (cursor_curvature c) (\<lambda>q_double_prime.
          bind_res (probed_limit_curves probed (pp_s current) c opt) (\<lambda>vl.
          bind_res (compute_acceleration_bounds q_prime q_double_prime (pp_s_dot current) (to_max_acceleration opt)
                      (to_epsilon opt)) (\<lambda>bounds.
            if eps_eq (to_epsilon opt) (pp_s_dot current) (lc_s_dot_max_vel vl)
            then
              bind_res (compute_velocity_limit_slope vl opt) (\<lambda>vel_curve_slope.
                let s_ddot_tangent = vel_curve_slope * pp_s_dot current
                in if s_ddot_tangent < ab_s_ddot_min bounds then Inr (ab_s_ddot_min bounds, None)
                   else if s_ddot_tangent < ab_s_ddot_max bounds then Inr (s_ddot_tangent, Some bounds)
                   else Inr (ab_s_ddot_max bounds, None))
            else Inr (ab_s_ddot_max bounds, None))))))"

definition quantize_forward ::
  "traj_options \<Rightarrow> segment_view \<Rightarrow> phase_point \<Rightarrow> phase_point \<Rightarrow> phase_point" where
  "quantize_forward opt segment current next_point =
     (let double_epsilon = to_epsilon opt * 2
      in if eps_ge double_epsilon (pp_s next_point) (view_end segment)
         then
           let delta_s_desired = pp_s next_point - pp_s current;
               delta_s_achieved = view_end segment - pp_s current
           in \<lparr>pp_s = view_end segment,
               pp_s_dot = lerp (pp_s_dot current) (pp_s_dot next_point) (divide delta_s_achieved delta_s_desired)\<rparr>
         else next_point)"

definition follow_curve ::
  "traj_options \<Rightarrow> acceleration_bounds option \<Rightarrow> phase_point \<Rightarrow> phase_point \<Rightarrow> limit_curves \<Rightarrow> phase_point" where
  "follow_curve opt following current next_point curves =
     (case following of
        None \<Rightarrow> next_point
      | Some bounds \<Rightarrow>
          if eps_eq (to_epsilon opt) (pp_s_dot next_point) (lc_s_dot_max_vel curves)
          then next_point\<lparr>pp_s_dot := lc_s_dot_max_vel curves\<rparr>
          else
            let clamped = \<lparr>pp_s = pp_s next_point, pp_s_dot = lc_s_dot_max_vel curves\<rparr>;
                slope = divide (pp_s_dot clamped - pp_s_dot current) (pp_s clamped - pp_s current);
                s_ddot_to_clamped = slope * midpoint (pp_s_dot current) (pp_s_dot clamped)
            in if ab_s_ddot_min bounds \<le> s_ddot_to_clamped \<and> s_ddot_to_clamped \<le> ab_s_ddot_max bounds
               then clamped else next_point)"

section \<open>The breach of a limit curve\<close>

text \<open>The two sides of the bisection, each with the limit curves at its position.\<close>

record breach_state =
  br_cursor :: cursor
  br_next :: phase_point
  br_q_prime :: xvector
  br_q_double_prime :: xvector
  br_next_acc :: arc_velocity
  br_next_vel :: arc_velocity
  br_breach :: phase_point
  br_breach_acc :: arc_velocity
  br_breach_vel :: arc_velocity

definition start_breach :: "traj_options \<Rightarrow> cursor \<Rightarrow> phase_point \<Rightarrow> phase_point \<Rightarrow> limit_curves \<Rightarrow> breach_state res" where
  "start_breach opt c current next_point curves =
     bind_res (cursor_seek c (pp_s current)) (\<lambda>c'.
     bind_res (cursor_tangent c') (\<lambda>q_prime.
     bind_res (cursor_curvature c') (\<lambda>q_double_prime.
     bind_res (cursor_limit_curves c' opt) (\<lambda>reset_curves.
       Inr \<lparr>br_cursor = c', br_next = current, br_q_prime = q_prime, br_q_double_prime = q_double_prime,
            br_next_acc = lc_s_dot_max_acc reset_curves, br_next_vel = lc_s_dot_max_vel reset_curves,
            br_breach = next_point, br_breach_acc = lc_s_dot_max_acc curves,
            br_breach_vel = lc_s_dot_max_vel curves\<rparr>))))"

definition bisect_breach_body :: "traj_options \<Rightarrow> breach_state \<Rightarrow> (breach_state, breach_state) flow res" where
  "bisect_breach_body opt b =
     (if eps_eq (to_epsilon opt) (pp_s (br_next b)) (pp_s (br_breach b)) then Inr (Return b)
      else
        let mid = \<lparr>pp_s = midpoint (pp_s (br_next b)) (pp_s (br_breach b)),
                   pp_s_dot = midpoint (pp_s_dot (br_next b)) (pp_s_dot (br_breach b))\<rparr>
        in bind_res (cursor_seek (br_cursor b) (pp_s mid)) (\<lambda>c.
           bind_res (cursor_tangent c) (\<lambda>q_prime.
           bind_res (cursor_curvature c) (\<lambda>q_double_prime.
           bind_res (cursor_limit_curves c opt) (\<lambda>curves.
             if lc_s_dot_max_acc curves < pp_s_dot mid \<or> lc_s_dot_max_vel curves < pp_s_dot mid
             then Inr (Continue (b\<lparr>br_cursor := c, br_breach := mid, br_breach_acc := lc_s_dot_max_acc curves,
                                   br_breach_vel := lc_s_dot_max_vel curves\<rparr>))
             else Inr (Continue (b\<lparr>br_cursor := c, br_next := mid, br_q_prime := q_prime,
                                   br_q_double_prime := q_double_prime,
                                   br_next_acc := lc_s_dot_max_acc curves,
                                   br_next_vel := lc_s_dot_max_vel curves\<rparr>)))))))"

definition bisect_breach :: "traj_options \<Rightarrow> breach_state \<Rightarrow> breach_state res" where
  "bisect_breach opt b = loop_flow (bisect_breach_body opt) b"

definition breach_hit :: "breach_state \<Rightarrow> limit_hit" where
  "breach_hit b = \<lparr>lh_breach = br_breach b, lh_s_dot_max_acc = br_breach_acc b, lh_s_dot_max_vel = br_breach_vel b\<rparr>"

text \<open>
  What becomes of the step: a hit of a limit curve or none, the next point, and the cursor. First the
  velocity curve, where the search for a switching point starts, or the point is clamped.
\<close>

definition classify_velocity_breach ::
  "traj_options \<Rightarrow> cursor \<Rightarrow> breach_state \<Rightarrow> (limit_hit option \<times> phase_point \<times> cursor) res" where
  "classify_velocity_breach opt c b =
     (let on_curve_bounds = compute_acceleration_bounds_unchecked (br_q_prime b) (br_q_double_prime b) (br_next_vel b)
                              (to_max_acceleration opt) (to_epsilon opt);
          min_phase_slope = divide (ab_s_ddot_min on_curve_bounds) (br_next_vel b)
      in bind_res (cursor_seek c (pp_s (br_next b))) (\<lambda>c'.
         bind_res (cursor_limit_curves c' opt) (\<lambda>curves.
         bind_res (compute_velocity_limit_slope curves opt) (\<lambda>vel_curve_slope.
           if vel_curve_slope < min_phase_slope
           then Inr (Some (breach_hit b), br_next b, c')
           else Inr (None, (br_breach b)\<lparr>pp_s_dot := std_min (br_breach_acc b) (br_breach_vel b)\<rparr>, c')))))"

text \<open>Then the acceleration curve: a sink, an escape, or the velocity curve decides.\<close>

definition classify_breach ::
  "traj_options \<Rightarrow> cursor \<Rightarrow> breach_state \<Rightarrow> (limit_hit option \<times> phase_point \<times> cursor) res" where
  "classify_breach opt c b =
     (if br_breach_acc b \<le> pp_s_dot (br_breach b)
      then
        let on_curve_bounds = compute_acceleration_bounds_unchecked (br_q_prime b) (br_q_double_prime b) (br_next_acc b)
                                (to_max_acceleration opt) (to_epsilon opt);
            next_phase_slope = divide (ab_s_ddot_max on_curve_bounds) (br_next_acc b);
            before_next = pp_s (br_next b) - to_epsilon opt
        in if pp_s (br_next b) - before_next < half (to_epsilon opt)
           then Inr (Some (breach_hit b), br_next b, c)
           else
             bind_res (cursor_seek c before_next) (\<lambda>c'.
             bind_res (cursor_tangent c') (\<lambda>q_prime.
             bind_res (cursor_curvature c') (\<lambda>q_double_prime.
               let before_acc = compute_acceleration_limit q_prime q_double_prime (to_max_acceleration opt)
                                  (to_epsilon opt);
                   next_acc_curve_slope = divide (br_next_acc b - before_acc) (pp_s (br_next b) - before_next)
               in if next_acc_curve_slope < next_phase_slope
                  then Inr (Some (breach_hit b), br_next b, c')
                  else if pp_s_dot (br_breach b) \<le> br_breach_vel b
                  then Inr (None, (br_breach b)\<lparr>pp_s_dot := br_breach_acc b\<rparr>, c')
                  else classify_velocity_breach opt c' b)))
      else classify_velocity_breach opt c b)"

text \<open>
  The tangents on both sides of a boundary that was crossed; they must agree for the arm to pass it
  without stopping.
\<close>

definition crosses_kink :: "traj_options \<Rightarrow> segment_view \<Rightarrow> segment_view \<Rightarrow> bool res" where
  "crosses_kink opt current_segment next_segment =
     (if \<not> feq (view_start next_segment) (view_start current_segment)
      then
        bind_res (view_tangent current_segment (view_end current_segment)) (\<lambda>current_end_tangent.
        bind_res (view_tangent next_segment (view_start next_segment)) (\<lambda>next_start_tangent.
          Inr (\<not> eps_eq (to_epsilon opt) (Fin (dot current_end_tangent next_start_tangent)) 1)))
      else Inr False)"

definition find_limit_hit ::
  "traj_options \<Rightarrow> segment_view \<Rightarrow> segment_view \<Rightarrow> cursor \<Rightarrow> phase_point \<Rightarrow> phase_point \<Rightarrow> limit_curves \<Rightarrow>
     (limit_hit option \<times> phase_point \<times> cursor) res" where
  "find_limit_hit opt current_segment next_segment c current next_point curves =
     bind_res (crosses_kink opt current_segment next_segment) (\<lambda>kink.
       if kink
       then Inr (Some \<lparr>lh_breach = next_point, lh_s_dot_max_acc = lc_s_dot_max_acc curves, lh_s_dot_max_vel = 0\<rparr>,
                 next_point, c)
       else if pp_s_dot next_point \<le> lc_s_dot_max_acc curves \<and> pp_s_dot next_point \<le> lc_s_dot_max_vel curves
       then Inr (None, next_point, c)
       else
         bind_res (start_breach opt c current next_point curves) (\<lambda>b0.
         bind_res (bisect_breach opt b0) (\<lambda>b.
         bind_res (cursor_seek (br_cursor b) (pp_s (br_breach b))) (\<lambda>c'.
         bind_res (cursor_deref c') (\<lambda>breach_segment.
           if \<not> feq (view_start current_segment) (view_start breach_segment)
           then Inr (Some (breach_hit b), br_next b, c')
           else classify_breach opt c' b)))))"

section \<open>One step and the whole pass\<close>

text \<open>The point that is recorded at the start of a step, and the end of the pass.\<close>

definition step_point :: "seconds \<Rightarrow> phase_point \<Rightarrow> arc_acceleration \<Rightarrow> integration_point" where
  "step_point time pt s_ddot = \<lparr>ip_time = time, ip_s = pp_s pt, ip_s_dot = pp_s_dot pt, ip_s_ddot = s_ddot\<rparr>"

definition finish_at_switching_point ::
  "traj_options \<Rightarrow> integration \<Rightarrow> cursor \<Rightarrow> arc_length \<Rightarrow>
     (forward, switching_point \<times> integration) flow res" where
  "finish_at_switching_point opt st c s =
     bind_res (cursor_seek c s) (\<lambda>c'.
     bind_res (find_switching_point (ig_cache st) c' opt) (\<lambda>(sp, cache).
       Inr (Return (sp, st\<lparr>ig_cursor := c', ig_cache := cache\<rparr>))))"

definition commit_step ::
  "traj_options \<Rightarrow> forward \<Rightarrow> (arc_length \<times> limit_curves) \<Rightarrow> limit_hit option \<Rightarrow> phase_point \<Rightarrow> cursor \<Rightarrow>
     (forward, switching_point \<times> integration) flow res" where
  "commit_step opt fw probe hit next_point c =
     (let st = fw_integration fw; current = fw_point fw; current_time = fw_time fw;
          delta_s = pp_s next_point - pp_s current; delta_s_dot = pp_s_dot next_point - pp_s_dot current
      in if feq delta_s 0
         then
           (case hit of
              None \<Rightarrow> Inl (Runtime_error ''TOTG algorithm error: forward integration made no progress without hitting a limit'')
            | Some _ \<Rightarrow>
                finish_at_switching_point opt
                  (st\<lparr>ig_points := ig_points st @ [step_point current_time current NaN]\<rparr>) c (pp_s current))
         else
           let s_dot_average = midpoint (pp_s_dot current) (pp_s_dot next_point);
               dt = divide delta_s s_dot_average;
               s_ddot = divide delta_s_dot dt;
               next_time = current_time + dt;
               points = ig_points st @ [step_point current_time current s_ddot];
               st' = st\<lparr>ig_points := points\<rparr>;
               ended = st\<lparr>ig_points := points @ [step_point next_time next_point NaN]\<rparr>
           in case hit of
                Some h \<Rightarrow>
                  if feq (lh_s_dot_max_vel h) 0
                  then Inr (Return (velocity_switch K_discontinuous_velocity_limit (pp_s (lh_breach h)) 0,
                                    ended\<lparr>ig_cursor := c\<rparr>))
                  else finish_at_switching_point opt ended c (pp_s next_point)
              | None \<Rightarrow>
                  if feq (pp_s next_point) (path_length (cur_path (ig_cursor st)))
                  then
                    bind_res (cursor_seek c (pp_s next_point)) (\<lambda>c'.
                      Inr (Return (\<lparr>sp_point = \<lparr>pp_s = pp_s next_point, pp_s_dot = 0\<rparr>, sp_kind = K_path_end,
                                    sp_forward_accel = Some 0, sp_backward_accel = None\<rparr>,
                                   ended\<lparr>ig_cursor := c'\<rparr>)))
                  else if pp_s next_point \<le> pp_s current
                  then Inl (Runtime_error ''TOTG algorithm error: forward integration must increase s'')
                  else Inr (Continue \<lparr>fw_integration = st'\<lparr>ig_cursor := c\<rparr>, fw_time = next_time,
                                      fw_point = next_point, fw_first = False, fw_probed = Some probe\<rparr>))"

definition forward_body ::
  "traj_options \<Rightarrow> switching_point \<Rightarrow> forward \<Rightarrow> (forward, switching_point \<times> integration) flow res" where
  "forward_body opt start fw =
     (let current = fw_point fw in
      bind_res (cursor_seek (ig_cursor (fw_integration fw)) (pp_s current)) (\<lambda>c0.
      bind_res (cursor_deref c0) (\<lambda>current_segment.
      bind_res (choose_acceleration opt (if fw_first fw then sp_forward_accel start else None) c0 current (fw_probed fw))
        (\<lambda>(s_ddot_desired, following).
      bind_res (euler_step (pp_s current) (pp_s_dot current) s_ddot_desired (to_delta opt) (to_epsilon opt)) (\<lambda>stepped.
        if pp_s stepped \<le> pp_s current
        then Inl (Runtime_error ''TOTG algorithm error: forward integration must increase s'')
        else
          let quantized = quantize_forward opt current_segment current stepped
          in bind_res (cursor_seek c0 (pp_s quantized)) (\<lambda>c1.
             bind_res (cursor_deref c1) (\<lambda>next_segment.
             bind_res (cursor_limit_curves c1 opt) (\<lambda>curves.
             bind_res (find_limit_hit opt current_segment next_segment c1 current
                         (follow_curve opt following current quantized curves) curves) (\<lambda>(hit, next_point, c2).
               commit_step opt fw (pp_s quantized, curves) hit next_point c2)))))))))"

text \<open>
  The start: the switching point the backward pass left at the end of the points is taken off, to be
  recorded again with the acceleration that leaves it.
\<close>

definition forward_start :: "switching_point \<Rightarrow> integration \<Rightarrow> forward res" where
  "forward_start start st =
     (if ig_points st = []
      then Inr \<lparr>fw_integration = st, fw_time = 0, fw_point = sp_point start, fw_first = True, fw_probed = None\<rparr>
      else if butlast (ig_points st) = []
      then Inl (Undefined_behaviour ''back of an empty vector'')
      else Inr \<lparr>fw_integration = st\<lparr>ig_points := butlast (ig_points st),
                                     ig_duration := ip_time (last (butlast (ig_points st)))\<rparr>,
                fw_time = ip_time (last (ig_points st)), fw_point = sp_point start, fw_first = True,
                fw_probed = None\<rparr>)"

definition integrate_forward_from ::
  "traj_options \<Rightarrow> switching_point \<Rightarrow> integration \<Rightarrow> (switching_point \<times> integration) res" where
  "integrate_forward_from opt start st =
     bind_res (forward_start start st) (\<lambda>fw. loop_flow (forward_body opt start) fw)"

end
