(* ===== verification/Switching_Criteria.thy ===== *)
theory Switching_Criteria
  imports Switching_Points
begin

text \<open>
  What the searches for switching points find: the criteria that make a position a switching point, stated of the path and its two limit
  curves and of no cursor, that what each search returns meets its criterion, and that the searches return.
\<close>

section \<open>Braking on the velocity curve\<close>

text \<open>
  How the steepest braking compares with the velocity curve at a position of the path: the slope of a trajectory that brakes on the curve less
  the slope of the curve, with the velocity there; nothing where the curve is down to zero.
\<close>

definition escape_delta :: "path \<Rightarrow> traj_options \<Rightarrow> arc_length \<Rightarrow> (phase_plane_slope \<times> arc_velocity) option res" where
  "escape_delta p opt s =
     bind_res (path_configuration p s) (\<lambda>q.
     bind_res (path_tangent p s) (\<lambda>q_prime.
     bind_res (path_curvature p s) (\<lambda>q_double_prime.
     bind_res (compute_limit_curves q q_prime q_double_prime opt) (\<lambda>curves.
       let v = lc_s_dot_max_vel curves
       in if feq v 0 then Inr None
          else bind_res (compute_velocity_limit_slope curves opt) (\<lambda>curve_slope.
            let bounds = compute_acceleration_bounds_unchecked q_prime q_double_prime v (to_max_acceleration opt) (to_epsilon opt)
            in Inr (Some (divide (ab_s_ddot_min bounds) v - curve_slope, v)))))))"

text \<open>Braking falls below the curve, with velocity \<open>v\<close>; it does not.\<close>

definition escape_value :: "path \<Rightarrow> traj_options \<Rightarrow> arc_length \<Rightarrow> arc_velocity \<Rightarrow> bool" where
  "escape_value p opt s v \<longleftrightarrow> (\<exists>d. escape_delta p opt s = Inr (Some (d, v)) \<and> d \<le> 0)"

definition no_escape_at :: "path \<Rightarrow> traj_options \<Rightarrow> arc_length \<Rightarrow> bool" where
  "no_escape_at p opt s \<longleftrightarrow> (\<exists>r. escape_delta p opt s = Inr r \<and> (\<forall>d v. r = Some (d, v) \<longrightarrow> \<not> d \<le> 0))"

lemma standing_queries:
  assumes "standing p c"
  obtains q q' q'' where "cursor_configuration c = Inr q" "cursor_tangent c = Inr q'" "cursor_curvature c = Inr q''"
    "path_configuration p (cur_position c) = Inr q" "path_tangent p (cur_position c) = Inr q'" "path_curvature p (cur_position c) = Inr q''"
proof -
  have c: "cursor_inv c" "isfinite (cur_position c)" "cur_path c = p" using assms by (simp_all add: standing_def)
  from cursor_component_on_path [OF c(1,2), of Configuration] cursor_component_on_path [OF c(1,2), of Tangent]
    cursor_component_on_path [OF c(1,2), of Curvature] that show thesis
    by (auto simp: path_component_def c(3))
qed

lemma standing_delta:
  assumes "standing p c"
  shows "try_compute_eq40_delta c opt = escape_delta p opt (cur_position c)"
proof -
  obtain q q' q'' where "cursor_configuration c = Inr q" "cursor_tangent c = Inr q'" "cursor_curvature c = Inr q''"
    "path_configuration p (cur_position c) = Inr q" "path_tangent p (cur_position c) = Inr q'" "path_curvature p (cur_position c) = Inr q''"
    by (rule standing_queries [OF assms])
  moreover from this have "cursor_limit_curves c opt = compute_limit_curves q q' q'' opt"
    by (simp add: cursor_limit_curves_def compute_limit_curves_def split: option.split)
  ultimately show ?thesis unfolding try_compute_eq40_delta_def escape_delta_def Let_def by simp
qed

section \<open>The coarse scan\<close>

text \<open>
  The coarse scan: what is left of the path counts its segments, its strides of \<open>delta\<close> and the
  last step onto the hint.
\<close>

definition scan_left :: "path \<Rightarrow> real \<Rightarrow> arc_length \<Rightarrow> real \<Rightarrow> nat" where
  "scan_left p d hint x =
     (path_size p - segment_index p (Fin x)) + nat \<lceil>(fin (path_length p) - x) / d\<rceil> +
     (if Fin x < hint then 1 else 0)"

lemma segment_index_mono:
  assumes "path_inv p" "0 \<le> x" "x \<le> y" "Fin y \<le> path_length p"
  shows "segment_index p (Fin x) \<le> segment_index p (Fin y)"
proof (rule ccontr)
  assume "\<not> ?thesis"
  then have lt: "segment_index p (Fin y) < segment_index p (Fin x)" by simp
  have x: "Fin x \<le> path_length p" using assms(3,4) by (cases "path_length p") auto
  have y0: "0 \<le> y" using assms(2,3) by simp
  note bx = segment_index_bounds [OF assms(1,2) x] and b = segment_index_bounds [OF assms(1) y0 assms(4)]
  have "Suc (segment_index p (Fin y)) < length (path_segments p)"
    using lt bx(2) by (simp add: path_size_def)
  then have "Fin y < ps_start (path_segments p ! Suc (segment_index p (Fin y)))"
    using b(1) upper_bound_at [of "\<lambda>e. Fin y < ps_start e" "path_segments p"] by (simp add: first_after_def)
  moreover have "\<not> Fin x < ps_start (path_segments p ! Suc (segment_index p (Fin y)))"
    using upper_bound_before [of "Suc (segment_index p (Fin y))" "\<lambda>e. Fin x < ps_start e" "path_segments p"] bx(1) lt
    by (simp add: first_after_def)
  ultimately show False
    using assms(3) by (cases "ps_start (path_segments p ! Suc (segment_index p (Fin y)))") auto
qed

lemma scan_left_mono:
  assumes "path_inv p" "0 < d" "0 \<le> x" "x \<le> y" "Fin y \<le> path_length p"
  shows "scan_left p d hint y \<le> scan_left p d hint x"
proof -
  obtain len where len: "path_length p = Fin len" using path_length_finite [OF assms(1)] by blast
  have 1: "nat \<lceil>(len - y) / d\<rceil> \<le> nat \<lceil>(len - x) / d\<rceil>"
    using assms(2,4) by (intro nat_mono ceiling_mono) (simp add: divide_right_mono)
  have 2: "path_size p - segment_index p (Fin y) \<le> path_size p - segment_index p (Fin x)"
    by (rule diff_le_mono2 [OF segment_index_mono [OF assms(1,3,4,5)]])
  have "Fin y < hint \<Longrightarrow> Fin x < hint" using assms(4) by (cases hint) auto
  then have "(if Fin y < hint then 1 else 0) \<le> (if Fin x < hint then 1 else (0::nat))" by simp
  from add_mono [OF add_mono [OF 2 1] this] show ?thesis by (simp add: scan_left_def len)
qed

lemma scan_left_step:
  assumes p: "path_inv p" "0 < d" "0 < e" "0 \<le> x" "Fin x < path_length p" "Fin x \<le> hint" "isfinite hint"
    and y: "eq40_next_position (Fin x) v hint opt = Fin y" "y \<noteq> x"
    and opt: "to_epsilon opt = Fin e" "to_delta opt = Fin d"
    and v: "view_end v = segment_end p (segment_index p (Fin x))"
  shows "x < y" "Fin y \<le> path_length p" "scan_left p d hint y < scan_left p d hint x"
proof -
  obtain xs len where xs: "length xs = path_size p" "path_length p = Fin len"
    "\<And>i. i < length xs \<Longrightarrow> ps_start (path_segments p ! i) = Fin (xs ! i) \<and> 0 \<le> xs ! i \<and> xs ! i < len"
    "\<And>i. i < length xs \<Longrightarrow> segment_end p i = Fin (if Suc i < length xs then xs ! Suc i else len)"
    using path_positions [OF p(1)] by (metis path_size_def)
  obtain h where h: "hint = Fin h" using p(7) by (auto simp: isfinite_iff)
  let ?i = "segment_index p (Fin x)"
  have xl: "Fin x \<le> path_length p" using p(5) by (rule dbl_less_imp_le)
  note b = segment_index_bounds [OF p(1,4) xl]
  obtain ve where ve: "view_end v = Fin ve" "ve \<le> len" proof -
    have n: "?i < length xs" using b(2) xs(1) by simp
    have "(if Suc ?i < length xs then xs ! Suc ?i else len) \<le> len"
      using xs(3) [of "Suc ?i"] by (auto intro: less_imp_le)
    with that v xs(4) [OF n] show ?thesis by simp
  qed
  have xve: "x < ve"
  proof (cases "Suc ?i < path_size p")
    case True
    then have "Fin x < ps_start (path_segments p ! Suc ?i)"
      using b(1) upper_bound_at [of "\<lambda>e. Fin x < ps_start e" "path_segments p"]
      by (simp add: first_after_def path_size_def)
    with True ve v xs(1,4) xs(3) [of "Suc ?i"] b(2) show ?thesis by simp
  next
    case False
    with ve v xs(1,2,4) b(2) p(5) show ?thesis by simp
  qed
  let ?n = "if ve - 2 * e \<le> x + d then ve else x + d"
  have yn: "y = min ?n h"
    using y(1) p(3) by (auto simp: eq40_next_position_def Let_def opt ve(1) h mult.commute)
  have hx: "x \<le> h" using p(6) h by simp
  then show xy: "x < y" using yn y(2) xve p(2) by (auto simp: min_def split: if_splits)
  have "?n \<le> len" using ve(2) p(3) by auto
  then show yl: "Fin y \<le> path_length p" using yn xs(2) by (auto simp: min_def)
  have y0: "0 \<le> y" using xy p(4) by simp
  define A B C where abc: "A = (\<lambda>z. path_size p - segment_index p (Fin z))"
    "B = (\<lambda>z. nat \<lceil>(len - z) / d\<rceil>)" "C = (\<lambda>z. if Fin z < hint then 1 else (0::nat))"
  have sl: "scan_left p d hint z = A z + B z + C z" for z by (simp add: abc scan_left_def xs(2))
  have A: "A y \<le> A x"
    unfolding abc by (rule diff_le_mono2 [OF segment_index_mono [OF p(1,4) less_imp_le [OF xy] yl]])
  have B: "B y \<le> B x"
    using p(2) xy unfolding abc by (intro nat_mono ceiling_mono) (simp add: divide_right_mono)
  have C: "C y \<le> C x" using xy by (auto simp: abc h)
  consider "y = h" | "y = ve" | "y = x + d" using yn by (auto simp: min_def split: if_splits)
  then have "A y < A x \<or> B y < B x \<or> C y < C x"
  proof cases
    case 1
    with xy have "C y < C x" by (simp add: abc h)
    then show ?thesis by simp
  next
    case 2
    show ?thesis
    proof (cases "Suc ?i < path_size p")
      case True
      then have "segment_end p ?i < path_length p" using xs(1,2,3,4) b(2) by simp
      then have "segment_index p (Fin y) = Suc ?i"
        using segment_end_next(3) [OF p(1) b(2)] v ve(1) 2 by simp
      with True have "A y < A x" by (simp add: abc)
      then show ?thesis by simp
    next
      case False
      then have "y = len" using 2 ve(1) v xs(1,4) b(2) by simp
      then have "B y < B x" using xy p(2) by (simp add: abc)
      then show ?thesis by simp
    qed
  next
    case 3
    have "(len - x) / d = (len - y) / d + 1" using p(2) by (simp add: 3 field_simps)
    moreover have "0 \<le> (len - y) / d" using yl xs(2) p(2) by simp
    ultimately have "B y < B x" unfolding abc by linarith
    then show ?thesis by simp
  qed
  with A B C show "scan_left p d hint y < scan_left p d hint x" unfolding sl by linarith
qed

text \<open>
  The state of the coarse scan that started at \<open>x0\<close>: it never moves back, and once it remembers a
  value, that value was computed there, strictly before the current position.
\<close>

definition scanning :: "path \<Rightarrow> traj_options \<Rightarrow> arc_length \<Rightarrow> real \<Rightarrow> eq40_scan \<Rightarrow> bool" where
  "scanning p opt hint x0 st \<longleftrightarrow>
     standing p (es_cursor st) \<and> Fin x0 \<le> cur_position (es_cursor st) \<and>
     scan_left p (fin (to_delta opt)) hint (fin (cur_position (es_cursor st)))
       \<le> scan_left p (fin (to_delta opt)) hint x0 \<and>
     (es_previous_delta st \<noteq> None \<longrightarrow>
        Fin x0 \<le> es_previous_position st \<and> es_previous_position st < cur_position (es_cursor st) \<and>
        scan_left p (fin (to_delta opt)) hint (fin (cur_position (es_cursor st)))
          < scan_left p (fin (to_delta opt)) hint x0) \<and>
     (\<forall>d. es_previous_delta st = Some d \<longrightarrow> (\<exists>v. escape_delta p opt (es_previous_position st) = Inr (Some (d, v))))"

lemma standingE:
  assumes "standing p c"
  obtains x where "cur_position c = Fin x" "0 \<le> x" "Fin x \<le> path_length p" "cur_hint c = segment_index p (Fin x)"
    "path_inv p" "cur_path c = p"
  using assms by (auto simp: standing_def cursor_inv_def isfinite_iff on_path_def)

lemma carry_baseline_keeps:
  assumes "carry_baseline st v opt = Inr st'"
  shows "es_cursor st' = es_cursor st" "es_previous_position st' = es_previous_position st"
    "es_previous_delta st' \<noteq> None \<Longrightarrow> es_previous_delta st' = es_previous_delta st"
  using assms by (auto simp: carry_baseline_def Let_def bind_res_eq_Inr split: if_splits)

lemma eq40_scan_bodyE:
  assumes "eq40_scan_body hint opt st = Inr r"
  obtains "r = Return None"
  | res v st1 where "cur_position (es_cursor st) \<le> hint"
      "cur_position (es_cursor st) < path_length (cur_path (es_cursor st))"
      "cursor_deref (es_cursor st) = Inr v" "carry_baseline st v opt = Inr st1"
      "eq40_advance hint opt st1 v res = Inr r" "try_compute_eq40_delta (es_cursor st) opt = Inr res"
  | v st1 pd b where "cur_position (es_cursor st) \<le> hint"
      "cur_position (es_cursor st) < path_length (cur_path (es_cursor st))"
      "cursor_deref (es_cursor st) = Inr v" "carry_baseline st v opt = Inr st1"
      "es_previous_delta st1 = Some pd" "r = Return (Some b)"
      "eb_before b = es_previous_position st1" "eb_after b = cur_position (es_cursor st)" "eb_after_delta b \<le> 0"
      "try_compute_eq40_delta (es_cursor st) opt = Inr (Some (eb_after_delta b, eb_after_s_dot_max_vel b))" "0 < pd"
proof (cases "cur_position (es_cursor st) \<le> hint \<and> cur_position (es_cursor st) < path_length (cur_path (es_cursor st))")
  case False
  then show ?thesis using assms that(1) by (simp add: eq40_scan_body_def Let_def split: if_splits)
next
  case True
  with assms obtain res v st1 where v: "cursor_deref (es_cursor st) = Inr v" "carry_baseline st v opt = Inr st1"
    and tr: "try_compute_eq40_delta (es_cursor st) opt = Inr res"
    and r: "(case (es_previous_delta st1, res) of
            (Some previous_delta, Some (delta, s_dot_max_vel)) \<Rightarrow>
              if 0 < previous_delta \<and> delta \<le> 0
              then Inr (Return (Some \<lparr>eb_before = es_previous_position st1, eb_after = cur_position (es_cursor st),
                                     eb_after_delta = delta, eb_after_s_dot_max_vel = s_dot_max_vel\<rparr>))
              else eq40_advance hint opt st1 v res
          | _ \<Rightarrow> eq40_advance hint opt st1 v res) = Inr r"
    by (auto simp: eq40_scan_body_def Let_def bind_res_eq_Inr)
  show ?thesis
  proof (cases "es_previous_delta st1")
    case None
    with r v tr True that(2) show ?thesis by simp
  next
    case (Some pd)
    then show ?thesis
      using r v tr True that(2) [of v st1 res] that(3) [of v st1 pd]
      by (cases res) (force split: if_splits)+
  qed
qed

lemma eq40_advance_no_bracket: "eq40_advance hint opt st v res \<noteq> Inr (Return (Some b))"
  by (cases "cursor_seek (es_cursor st)
        (eq40_next_position (cur_position (es_cursor st)) v hint opt)") (simp_all add: eq40_advance_def Let_def)

lemma eq40_scan_continue:
  assumes opt: "usable_options opt" and hint: "isfinite hint" and inv: "scanning p opt hint x0 st"
    and step: "eq40_scan_body hint opt st = Inr (Continue st')"
  shows "scanning p opt hint x0 st' \<and>
    scan_left p (fin (to_delta opt)) hint (fin (cur_position (es_cursor st')))
      < scan_left p (fin (to_delta opt)) hint (fin (cur_position (es_cursor st)))"
proof -
  obtain e d where e: "to_epsilon opt = Fin e" "0 < e" "to_delta opt = Fin d" "0 < d"
    using usable_optionsE [OF opt] .
  have st: "standing p (es_cursor st)" using inv by (simp add: scanning_def)
  obtain x where x: "cur_position (es_cursor st) = Fin x" "0 \<le> x" "Fin x \<le> path_length p"
    "cur_hint (es_cursor st) = segment_index p (Fin x)" "path_inv p" "cur_path (es_cursor st) = p"
    using standingE [OF st] .
  obtain res v st1 where v: "cursor_deref (es_cursor st) = Inr v" and st1: "carry_baseline st v opt = Inr st1"
    and adv: "eq40_advance hint opt st1 v res = Inr (Continue st')" and tr: "try_compute_eq40_delta (es_cursor st) opt = Inr res"
    and g: "Fin x \<le> hint" "Fin x < path_length p"
    using step by (rule eq40_scan_bodyE) (use x in auto)
  have c1: "es_cursor st1 = es_cursor st" using carry_baseline_keeps(1) [OF st1] .
  obtain c where c: "\<not> feq (eq40_next_position (Fin x) v hint opt) (Fin x)"
      "cursor_seek (es_cursor st) (eq40_next_position (Fin x) v hint opt) = Inr c"
      "es_cursor st' = c" "es_previous_position st' = Fin x" "es_previous_delta st' = map_option fst res"
    using adv c1 x(1) by (auto simp: eq40_advance_def Let_def bind_res_eq_Inr split: if_splits)
  note sv = standing_view [OF st v]
  obtain ve where ve: "view_end v = Fin ve"
    using path_positions [OF x(5)] sv(2,4) by (metis path_size_def)
  obtain h where h: "hint = Fin h" using hint by (auto simp: isfinite_iff)
  obtain y where y: "eq40_next_position (Fin x) v hint opt = Fin y"
    using e ve h that by (cases "ve - e * 2 \<le> x + d") (simp_all add: eq40_next_position_def Let_def)
  have yx: "y \<noteq> x" using c(1) y by simp
  have v': "view_end v = segment_end p (segment_index p (Fin x))" using sv(2) x(4) by simp
  note s = scan_left_step [OF x(5) e(4,2) x(2) g(2,1) hint y yx e(1,3) v']
  have "on_path p (Fin y)" using s(1,2) x(2) by (simp add: on_path_def)
  from standing_seek [OF st c(2) [unfolded y] this]
  have "standing p c" "cur_position c = Fin y" by simp_all
  moreover have "Fin x0 \<le> Fin x" "scan_left p d hint x \<le> scan_left p d hint x0"
    using inv x(1) e(3) by (auto simp: scanning_def)
  ultimately show ?thesis
    using s(1,3) tr unfolding standing_delta [OF st] by (auto simp add: scanning_def c(3,4,5) e(3) x(1))
qed

text \<open>A bracket: its left end is before the escape, and its right end is not.\<close>

definition brackets :: "path \<Rightarrow> traj_options \<Rightarrow> eq40_bracket \<Rightarrow> bool" where
  "brackets p opt b \<longleftrightarrow> no_escape_at p opt (eb_before b) \<and> eb_after_delta b \<le> 0 \<and>
     escape_delta p opt (eb_after b) = Inr (Some (eb_after_delta b, eb_after_s_dot_max_vel b))"

lemma eq40_scan_return:
  assumes inv: "scanning p opt hint x0 st"
    and step: "eq40_scan_body hint opt st = Inr (Return (Some b))"
  shows "Fin x0 \<le> eb_before b" "eb_before b < eb_after b" "isfinite (eb_after b)" "eb_after b \<le> hint"
    "eb_after b < path_length p" "eb_after_delta b \<le> 0"
    "scan_left p (fin (to_delta opt)) hint (fin (eb_after b)) < scan_left p (fin (to_delta opt)) hint x0"
    "brackets p opt b"
proof -
  have st: "standing p (es_cursor st)" using inv by (simp add: scanning_def)
  then have c: "cur_path (es_cursor st) = p" by (auto simp: standing_def)
  obtain v st1 pd where st1: "carry_baseline st v opt = Inr st1" "es_previous_delta st1 = Some pd"
    and b: "eb_before b = es_previous_position st1" "eb_after b = cur_position (es_cursor st)" "eb_after_delta b \<le> 0"
    and g: "cur_position (es_cursor st) \<le> hint" "cur_position (es_cursor st) < path_length p"
    and d: "try_compute_eq40_delta (es_cursor st) opt = Inr (Some (eb_after_delta b, eb_after_s_dot_max_vel b))" "0 < pd"
    using step
  proof (cases rule: eq40_scan_bodyE)
    case (2 res v st1)
    then show thesis using eq40_advance_no_bracket by simp
  next
    case (3 v st1 pd b')
    show thesis by (rule that [of v st1 pd]) (use 3 c in simp_all)
  qed simp
  from carry_baseline_keeps [OF st1(1)] st1(2)
  have prev: "es_previous_delta st = Some pd" "es_previous_position st1 = es_previous_position st" by (metis option.distinct(1))+
  with inv b g show "Fin x0 \<le> eb_before b" "eb_before b < eb_after b" "isfinite (eb_after b)" "eb_after b \<le> hint"
    "eb_after b < path_length p" "eb_after_delta b \<le> 0"
    "scan_left p (fin (to_delta opt)) hint (fin (eb_after b)) < scan_left p (fin (to_delta opt)) hint x0"
    by (auto simp: scanning_def standing_def)
  obtain v' where "escape_delta p opt (eb_before b) = Inr (Some (pd, v'))" using inv prev b(1) by (auto simp: scanning_def)
  moreover have "\<not> pd \<le> 0" using d(2) by (cases pd) auto
  ultimately have "no_escape_at p opt (eb_before b)" by (simp add: no_escape_at_def)
  with b(2,3) d(1) standing_delta [OF st] show "brackets p opt b" by (simp add: brackets_def)
qed

lemma scan_start:
  assumes "standing p c" "cursor_seek c (Fin x) = Inr c'" "on_path p (Fin x)"
  shows "scanning p opt hint x \<lparr>es_cursor = c', es_previous_position = Fin x, es_previous_delta = None,
          es_previous_segment = v\<rparr>"
  using standing_seek [OF assms] by (simp add: scanning_def)

lemma escape_bracket_halts:
  assumes "usable_options opt" "isfinite hint" "standing p c" "on_path p (Fin x)"
  shows "halts (find_eq40_escape_bracket c (Fin x) hint opt)"
  unfolding find_eq40_escape_bracket_def
proof (intro halts_bind)
  fix c' v assume c': "cursor_seek c (Fin x) = Inr c'"
  show "halts (loop_flow (eq40_scan_body hint opt)
         \<lparr>es_cursor = c', es_previous_position = Fin x, es_previous_delta = None, es_previous_segment = v\<rparr>)"
  proof (rule halts_loop_flow [of "scanning p opt hint x" _ _
          "\<lambda>st. scan_left p (fin (to_delta opt)) hint (fin (cur_position (es_cursor st)))"])
    show "scanning p opt hint x
      \<lparr>es_cursor = c', es_previous_position = Fin x, es_previous_delta = None, es_previous_segment = v\<rparr>"
      by (rule scan_start [OF assms(3) c' assms(4)])
    show "halts (eq40_scan_body hint opt st)" for st
      by (rule halts_eq40_body) (use assms(1) in \<open>simp add: usable_options_def\<close>)
  qed (rule eq40_scan_continue [OF assms(1,2)])
qed (auto intro!: halts_intros)

lemma escape_bracket_result:
  assumes "usable_options opt" "isfinite hint" "standing p c" "on_path p (Fin x)"
    "find_eq40_escape_bracket c (Fin x) hint opt = Inr (Some b)"
  shows "Fin x \<le> eb_before b" "eb_before b < eb_after b" "isfinite (eb_after b)" "eb_after b \<le> hint"
    "eb_after b < path_length p" "eb_after_delta b \<le> 0"
    "scan_left p (fin (to_delta opt)) hint (fin (eb_after b)) < scan_left p (fin (to_delta opt)) hint x"
    "brackets p opt b"
proof -
  obtain c' v where c': "cursor_seek c (Fin x) = Inr c'"
    and l: "loop_flow (eq40_scan_body hint opt)
         \<lparr>es_cursor = c', es_previous_position = Fin x, es_previous_delta = None, es_previous_segment = v\<rparr> = Inr (Some b)"
    using assms(5) by (auto simp: find_eq40_escape_bracket_def bind_res_eq_Inr)
  have "Fin x \<le> eb_before b \<and> eb_before b < eb_after b \<and> isfinite (eb_after b) \<and> eb_after b \<le> hint \<and>
    eb_after b < path_length p \<and> eb_after_delta b \<le> 0 \<and>
    scan_left p (fin (to_delta opt)) hint (fin (eb_after b)) < scan_left p (fin (to_delta opt)) hint x \<and> brackets p opt b"
    by (rule loop_flow_invariant [OF l, of "scanning p opt hint x" "\<lambda>r. r = Some b \<longrightarrow> _", rule_format])
      (use scan_start [OF assms(3) c' assms(4)] eq40_scan_continue [OF assms(1,2)] eq40_scan_return in auto)
  then show "Fin x \<le> eb_before b" "eb_before b < eb_after b" "isfinite (eb_after b)" "eb_after b \<le> hint"
    "eb_after b < path_length p" "eb_after_delta b \<le> 0"
    "scan_left p (fin (to_delta opt)) hint (fin (eb_after b)) < scan_left p (fin (to_delta opt)) hint x"
    "brackets p opt b"
    by simp_all
qed

section \<open>The two sides of a boundary\<close>

text \<open>What a segment of the path says at a position, whichever segment a cursor there would be in.\<close>

definition side_tangent :: "path \<Rightarrow> nat \<Rightarrow> arc_length \<Rightarrow> xvector res" where
  "side_tangent p i s = bind_res (deref p i) (\<lambda>v. view_tangent v s)"

definition side_curvature :: "path \<Rightarrow> nat \<Rightarrow> arc_length \<Rightarrow> xvector res" where
  "side_curvature p i s = bind_res (deref p i) (\<lambda>v. view_curvature v s)"

definition side_curves :: "path \<Rightarrow> traj_options \<Rightarrow> nat \<Rightarrow> arc_length \<Rightarrow> limit_curves res" where
  "side_curves p opt i s = bind_res (deref p i) (\<lambda>v. view_limit_curves v s opt)"

text \<open>The limit curves with the path's configuration, which the two sides share.\<close>

definition boundary_curves :: "path \<Rightarrow> traj_options \<Rightarrow> nat \<Rightarrow> arc_length \<Rightarrow> limit_curves res" where
  "boundary_curves p opt i s =
     bind_res (path_configuration p s) (\<lambda>q.
     bind_res (side_tangent p i s) (\<lambda>q_prime.
     bind_res (side_curvature p i s) (\<lambda>q_double_prime. compute_limit_curves q q_prime q_double_prime opt)))"

definition side_bounds :: "path \<Rightarrow> traj_options \<Rightarrow> nat \<Rightarrow> arc_length \<Rightarrow> arc_velocity \<Rightarrow> acceleration_bounds res" where
  "side_bounds p opt i s v =
     bind_res (side_tangent p i s) (\<lambda>q_prime.
     bind_res (side_curvature p i s) (\<lambda>q_double_prime.
       compute_acceleration_bounds q_prime q_double_prime v (to_max_acceleration opt) (to_epsilon opt)))"

section \<open>What the acceleration search finds\<close>

definition segment_limit :: "path \<Rightarrow> traj_options \<Rightarrow> nat \<Rightarrow> arc_length \<Rightarrow> arc_velocity res" where
  "segment_limit p opt i s = bind_res (deref p i) (\<lambda>v. view_acceleration_limit v s opt)"

text \<open>
  An extremum of a joint inside arc \<open>i\<close>. The position is where some joint turns: its component of the arc's tangent, at the angle
  \<open>t\<close>, is zero; the angle may be the arc's last up to rounding, and is then clamped to it.
\<close>

definition turns_at :: "path \<Rightarrow> nat \<Rightarrow> arc_length \<Rightarrow> bool" where
  "turns_at p i s \<longleftrightarrow>
     (\<exists>arc j t. ps_seg (path_segments p ! i) = Circular arc \<and> j < length (circ_x arc) \<and>
        (circ_x arc ! j \<noteq> 0 \<or> circ_y arc ! j \<noteq> 0) \<and>
        0 \<le> t \<and> t \<le> circ_angle_rads arc + 4 * machine_epsilon \<and> circ_y arc ! j * cos t = circ_x arc ! j * sin t \<and>
        s = ps_start (path_segments p ! i) + Fin (circ_radius arc * min t (circ_angle_rads arc)))"

text \<open>At a position of segment \<open>i\<close> or of a neighbour the acceleration limit is above \<open>v\<close>.\<close>

definition limit_above :: "path \<Rightarrow> traj_options \<Rightarrow> nat \<Rightarrow> arc_velocity \<Rightarrow> arc_length \<Rightarrow> bool" where
  "limit_above p opt i v x \<longleftrightarrow>
     (\<exists>j a. j < path_size p \<and> j \<le> Suc i \<and> i \<le> Suc j \<and> ps_start (path_segments p ! j) \<le> x \<and> x \<le> segment_end p j \<and>
        segment_limit p opt j x = Inr a \<and> v < a)"

text \<open>The acceleration curve dips: it is higher on both sides, within the tolerance.\<close>

definition dips :: "path \<Rightarrow> traj_options \<Rightarrow> nat \<Rightarrow> arc_length \<Rightarrow> arc_velocity \<Rightarrow> bool" where
  "dips p opt i s v \<longleftrightarrow>
     (\<exists>x y. s - to_epsilon opt \<le> x \<and> x < s \<and> s < y \<and> y \<le> s + to_epsilon opt \<and>
        limit_above p opt i v x \<and> limit_above p opt i v y)"

text \<open>The acceleration curve is touched there, with acceleration zero, and not clearly above the velocity curve.\<close>

definition touches :: "path \<Rightarrow> traj_options \<Rightarrow> nat \<Rightarrow> arc_length \<Rightarrow> arc_velocity \<Rightarrow> bool" where
  "touches p opt i s v \<longleftrightarrow>
     (\<exists>curves. side_curves p opt i s = Inr curves \<and> v = lc_s_dot_max_acc curves \<and>
        \<not> eps_less (to_epsilon opt) (lc_s_dot_max_vel curves) v)"

definition extremum_at :: "path \<Rightarrow> traj_options \<Rightarrow> nat \<Rightarrow> switching_point \<Rightarrow> bool" where
  "extremum_at p opt i sp \<longleftrightarrow>
     sp_kind sp = K_nondifferentiable_extremum \<and> i < path_size p \<and> is_circular (ps_seg (path_segments p ! i)) \<and>
     ps_start (path_segments p ! i) \<le> pp_s (sp_point sp) \<and> pp_s (sp_point sp) \<le> segment_end p i \<and>
     turns_at p i (pp_s (sp_point sp)) \<and> touches p opt i (pp_s (sp_point sp)) (pp_s_dot (sp_point sp)) \<and>
     dips p opt i (pp_s (sp_point sp)) (pp_s_dot (sp_point sp)) \<and>
     sp_forward_accel sp = Some 0 \<and> sp_backward_accel sp = Some 0"

text \<open>
  A jump of the curvature at the end of segment \<open>i\<close> (equation 38). Where the limit rises, the curve before the boundary, within the
  tolerance, is no steeper than the steepest braking on it; where it falls, the curve behind it is at least as steep as the
  steepest acceleration on it. The forward pass leaves with the greatest acceleration of the place compared.
\<close>

definition limit_rises :: "path \<Rightarrow> traj_options \<Rightarrow> nat \<Rightarrow> arc_length \<Rightarrow> arc_velocity \<Rightarrow> arc_acceleration \<Rightarrow> bool" where
  "limit_rises p opt i s limit forward \<longleftrightarrow>
     (\<exists>x a b. x = std_max (s - to_epsilon opt) (ps_start (path_segments p ! i)) \<and> \<not> s - x < half (to_epsilon opt) \<and>
        segment_limit p opt i x = Inr a \<and> side_bounds p opt i x a = Inr b \<and>
        divide (limit - a) (s - x) \<le> divide (ab_s_ddot_min b) a \<and> forward = ab_s_ddot_max b)"

definition limit_falls :: "path \<Rightarrow> traj_options \<Rightarrow> nat \<Rightarrow> arc_length \<Rightarrow> arc_velocity \<Rightarrow> arc_acceleration \<Rightarrow> bool" where
  "limit_falls p opt i s limit forward \<longleftrightarrow>
     (\<exists>x a b. x = std_min (s + to_epsilon opt) (segment_end p i) \<and> \<not> x - s < half (to_epsilon opt) \<and>
        segment_limit p opt i x = Inr a \<and> side_bounds p opt i x a = Inr b \<and>
        divide (ab_s_ddot_max b) a \<le> divide (a - limit) (x - s) \<and> forward = ab_s_ddot_max b)"

text \<open>The velocity is the lower of the two acceleration limits, and the velocity limits do not cut it off.\<close>

definition curvature_step ::
  "path \<Rightarrow> traj_options \<Rightarrow> nat \<Rightarrow> arc_length \<Rightarrow> arc_velocity \<Rightarrow> arc_acceleration \<Rightarrow> bool" where
  "curvature_step p opt i s v forward \<longleftrightarrow>
     (\<exists>before after. side_curves p opt i s = Inr before \<and> side_curves p opt (Suc i) s = Inr after \<and>
        (if lc_s_dot_max_acc before < lc_s_dot_max_acc after then limit_rises p opt i s (lc_s_dot_max_acc before) forward
         else lc_s_dot_max_acc after < lc_s_dot_max_acc before \<and>
           limit_falls p opt (Suc i) s (lc_s_dot_max_acc after) forward) \<and>
        v = std_min (lc_s_dot_max_acc before) (lc_s_dot_max_acc after) \<and>
        eps_le (to_epsilon opt) v (std_min (lc_s_dot_max_vel before) (lc_s_dot_max_vel after)))"

definition curvature_jump_at :: "path \<Rightarrow> traj_options \<Rightarrow> arc_length \<Rightarrow> nat \<Rightarrow> switching_point \<Rightarrow> bool" where
  "curvature_jump_at p opt hint i sp \<longleftrightarrow>
     sp_kind sp = K_discontinuous_curvature \<and> Suc i < path_size p \<and> pp_s (sp_point sp) = segment_end p i \<and>
     \<not> hint < pp_s (sp_point sp) \<and>
     (\<exists>forward. sp_forward_accel sp = Some forward \<and>
        curvature_step p opt i (pp_s (sp_point sp)) (pp_s_dot (sp_point sp)) forward) \<and>
     sp_backward_accel sp = None"

lemma view_curves_limit:
  assumes "view_limit_curves v s opt = Inr curves"
  shows "view_acceleration_limit v s opt = Inr (lc_s_dot_max_acc curves)"
  using assms
  by (auto simp: view_limit_curves_def view_acceleration_limit_def bind_res_eq_Inr compute_limit_curves_def
      compute_joint_limit_curves_def Let_def split: option.splits prod.splits)

text \<open>The first candidate that passes, and what the check compared there.\<close>

lemma check_extremum_result:
  assumes "check_extremum c v opt s = Inr (Some sp)"
  obtains curves x w y z a b where
    "sp = \<lparr>sp_point = \<lparr>pp_s = s, pp_s_dot = lc_s_dot_max_acc curves\<rparr>, sp_kind = K_nondifferentiable_extremum,
      sp_forward_accel = Some 0, sp_backward_accel = Some 0\<rparr>"
    "view_limit_curves v s opt = Inr curves" "\<not> eps_less (to_epsilon opt) (lc_s_dot_max_vel curves) (lc_s_dot_max_acc curves)"
    "sample_before c v s opt = Inr (x, w)" "sample_after c v s opt = Inr (y, z)"
    "\<not> eps_eq (half (to_epsilon opt)) x s" "\<not> eps_eq (half (to_epsilon opt)) s y"
    "view_acceleration_limit w x opt = Inr a" "view_acceleration_limit z y opt = Inr b"
    "lc_s_dot_max_acc curves < a" "lc_s_dot_max_acc curves < b"
  using assms
  by (auto simp: check_extremum_def bind_res_eq_Inr Let_def split: if_split_asm prod.split_asm)

lemma first_extremum_result:
  assumes "first_extremum c v opt ss = Inr (Some sp)"
  shows "pp_s (sp_point sp) \<in> set ss \<and> check_extremum c v opt (pp_s (sp_point sp)) = Inr (Some sp)"
  using assms
proof (induction ss)
  case (Cons s ss)
  then obtain r where r: "check_extremum c v opt s = Inr r"
    "(case r of Some p \<Rightarrow> Inr (Some p) | None \<Rightarrow> first_extremum c v opt ss) = Inr (Some sp)"
    by (auto simp: bind_res_eq_Inr)
  show ?case
  proof (cases r)
    case None
    with r Cons.IH show ?thesis by simp
  next
    case (Some q)
    with r have q: "check_extremum c v opt s = Inr (Some sp)" by simp
    then show ?thesis by (rule check_extremum_result) (use q in simp)
  qed
qed simp

lemma extremum_angle_root:
  assumes "x \<noteq> 0 \<or> y \<noteq> 0"
  shows "y * cos (extremum_angle y x) = x * sin (extremum_angle y x)"
proof -
  have t: "sin (arctan u) = u * cos (arctan u)" for u :: real
  proof -
    have "cos (arctan u) \<noteq> 0" using cos_arctan_not_zero .
    then show ?thesis using tan_arctan [of u] by (simp add: tan_def field_simps)
  qed
  have a: "y * cos (atan2 y x) = x * sin (atan2 y x)"
    using assms t [of "y / x"] by (auto simp: atan2_def cos_add sin_add cos_diff sin_diff)
  then show ?thesis by (auto simp: extremum_angle_def Let_def)
qed

lemma extremum_angle_range: "0 \<le> extremum_angle y x" "extremum_angle y x \<le> pi"
proof -
  have "x < 0 \<Longrightarrow> y < 0 \<Longrightarrow> 0 < y / x" "x < 0 \<Longrightarrow> 0 \<le> y \<Longrightarrow> y / x \<le> 0"
    by (simp_all add: divide_neg_neg divide_le_0_iff)
  then have r: "- pi < atan2 y x \<and> atan2 y x \<le> pi"
    using arctan_lbound [of "y / x"] arctan_ubound [of "y / x"] pi_gt_zero
    by (auto simp: atan2_def)
  then show "0 \<le> extremum_angle y x" "extremum_angle y x \<le> pi"
    by (auto simp: extremum_angle_def Let_def)
qed

text \<open>The candidates lie inside the arc, at or after the cursor.\<close>

lemma candidate_range:
  assumes "path_inv p" "i < path_size p" "ps_seg (path_segments p ! i) = Circular arc"
    "view_start v = ps_start (path_segments p ! i)" "s \<in> set (candidate_extrema c v arc)" "cur_position c \<noteq> NaN"
  shows "cur_position c \<le> s" "ps_start (path_segments p ! i) \<le> s" "s \<le> segment_end p i" "isfinite s" "turns_at p i s"
proof -
  have inv: "segment_inv (path_dof p) (Circular arc)"
    unfolding assms(3) [symmetric] using assms(1,2) nth_mem [of i "path_segments p"]
    by (simp add: path_inv_def path_size_def del: segment_inv.simps)
  obtain xs len where xs: "length xs = path_size p"
    "\<And>i. i < length xs \<Longrightarrow> ps_start (path_segments p ! i) = Fin (xs ! i) \<and> 0 \<le> xs ! i \<and> xs ! i < len"
    using path_positions [OF assms(1)] by (metis path_size_def)
  have a: "ps_start (path_segments p ! i) = Fin (xs ! i)" using xs assms(2) by simp
  have "contiguous 0 (path_segments p) (path_length p)" using assms(1) by (simp add: path_inv_def)
  from contiguous_nth [OF this] assms(2,3)
  have e: "segment_end p i = Fin (xs ! i) + segment_length (Circular arc)"
    by (simp add: segment_end_def path_size_def a)
  obtain j where j: "extremum_candidate c v arc j = Some s" "j < length (circ_x arc)"
    using assms(5) by (auto simp: candidate_extrema_def map_filter_def)
  let ?an = "min (extremum_angle (circ_y arc ! j) (circ_x arc ! j)) (circ_angle_rads arc)"
  have s: "s = Fin (xs ! i + circ_radius arc * ?an)" "\<not> s < cur_position c"
    and t: "extremum_angle (circ_y arc ! j) (circ_x arc ! j) \<le> circ_angle_rads arc + 4 * machine_epsilon"
      "circ_x arc ! j \<noteq> 0 \<or> circ_y arc ! j \<noteq> 0"
    using j a assms(4) by (auto simp: extremum_candidate_def Let_def split: if_splits)
  show "turns_at p i s"
    unfolding turns_at_def
    by (rule exI [of _ arc], rule exI [of _ j], rule exI [of _ "extremum_angle (circ_y arc ! j) (circ_x arc ! j)"])
      (use assms(3) j(2) t a s(1) extremum_angle_range extremum_angle_root [OF t(2)] in simp)
  have "0 \<le> ?an" "?an \<le> circ_angle_rads arc" "0 < circ_radius arc"
    using extremum_angle_range inv by (auto simp: min_def)
  then show "ps_start (path_segments p ! i) \<le> s" "s \<le> segment_end p i" "isfinite s"
    using s(1) e a by (auto simp: mult_left_mono)
  show "cur_position c \<le> s" using s assms(6) dbl_not_less [of s "cur_position c"] by simp
qed

lemma segment_within:
  assumes "path_inv p" "i < path_size p"
  shows "0 \<le> ps_start (path_segments p ! i)" "segment_end p i \<le> path_length p"
proof -
  obtain xs len where "length xs = path_size p" "path_length p = Fin len"
    "\<And>i. i < length xs \<Longrightarrow> ps_start (path_segments p ! i) = Fin (xs ! i) \<and> 0 \<le> xs ! i \<and> xs ! i < len"
    "\<And>i. i < length xs \<Longrightarrow> segment_end p i = Fin (if Suc i < length xs then xs ! Suc i else len)"
    using path_positions [OF assms(1)] by (metis path_size_def)
  with assms(2) show "0 \<le> ps_start (path_segments p ! i)" "segment_end p i \<le> path_length p"
    by (auto intro: less_imp_le)
qed

definition found_from :: "path \<Rightarrow> traj_options \<Rightarrow> arc_length \<Rightarrow> cursor \<Rightarrow> switching_point \<Rightarrow> bool" where
  "found_from p opt hint c sp \<longleftrightarrow>
     cur_position c \<le> pp_s (sp_point sp) \<and> on_path p (pp_s (sp_point sp)) \<and> isfinite (pp_s (sp_point sp)) \<and>
     (\<exists>i. extremum_at p opt i sp \<or> curvature_jump_at p opt hint i sp)"

lemma segment_limit_view:
  "cursor_deref c = Inr v \<Longrightarrow> cur_path c = p \<Longrightarrow>
     segment_limit p opt (cur_hint c) s = view_acceleration_limit v s opt"
  by (simp add: segment_limit_def cursor_deref_def)

text \<open>A position of segment \<open>i\<close> belongs to it or, at its end, to the next one.\<close>

lemma segment_index_near:
  assumes "path_inv p" "i < path_size p" "ps_start (path_segments p ! i) \<le> Fin y" "Fin y \<le> segment_end p i"
  shows "segment_index p (Fin y) = i \<or> Suc i < path_size p \<and> segment_index p (Fin y) = Suc i"
proof (cases "Suc i < path_size p \<and> Fin y = segment_end p i")
  case True
  obtain xs len where "length xs = path_size p" "path_length p = Fin len"
    "\<And>i. i < length xs \<Longrightarrow> ps_start (path_segments p ! i) = Fin (xs ! i) \<and> 0 \<le> xs ! i \<and> xs ! i < len"
    "\<And>i. i < length xs \<Longrightarrow> segment_end p i = Fin (if Suc i < length xs then xs ! Suc i else len)"
    using path_positions [OF assms(1)] by (metis path_size_def)
  with True assms(2) have "segment_end p i < path_length p" by simp
  from segment_end_next(3) [OF assms(1,2) this] True show ?thesis by simp
next
  case False
  have "segment_index p (Fin y) = i"
  proof (rule segment_index_unique(2) [OF assms(1-3)])
    assume n: "Suc i < path_size p"
    then have "segment_end p i = ps_start (path_segments p ! Suc i)" by (simp add: segment_end_def path_size_def)
    with False n assms(4) show "Fin y < ps_start (path_segments p ! Suc i)"
      by (cases "ps_start (path_segments p ! Suc i)") auto
  qed
  then show ?thesis ..
qed

lemma segment_starts_sorted:
  assumes "path_inv p" "j \<le> i" "i < path_size p"
  shows "ps_start (path_segments p ! j) \<le> ps_start (path_segments p ! i)" "segment_end p j \<le> segment_end p i"
    "ps_start (path_segments p ! i) \<le> segment_end p i"
proof -
  obtain xs len where xs: "length xs = path_size p" "sorted_wrt (<) xs"
    "\<And>i. i < length xs \<Longrightarrow> ps_start (path_segments p ! i) = Fin (xs ! i) \<and> 0 \<le> xs ! i \<and> xs ! i < len"
    "\<And>i. i < length xs \<Longrightarrow> segment_end p i = Fin (if Suc i < length xs then xs ! Suc i else len)"
    using path_positions [OF assms(1)] by (metis path_size_def)
  have le: "xs ! a \<le> xs ! b" if "a \<le> b" "b < length xs" for a b
    using sorted_wrt_nth_less [OF xs(2), of a b] that by (cases "a = b") auto
  show "ps_start (path_segments p ! j) \<le> ps_start (path_segments p ! i)"
    using assms(2,3) xs(1,3) le by simp
  show "segment_end p j \<le> segment_end p i"
    using assms(2,3) xs(1) xs(3) [of "Suc j"] xs(3) [of "Suc i"] xs(4) le [of "Suc j" "Suc i"] by auto
  show "ps_start (path_segments p ! i) \<le> segment_end p i"
    using assms(3) xs(1,3,4) le [of i "Suc i"] by (auto intro: less_imp_le)
qed

text \<open>Where the slopes are sampled: within the tolerance, on its side of the candidate, in the segment or a neighbour.\<close>

definition samples_side :: "path \<Rightarrow> nat \<Rightarrow> arc_length \<Rightarrow> segment_view \<Rightarrow> bool" where
  "samples_side p i x w \<longleftrightarrow>
     (\<exists>j. deref p j = Inr w \<and> j < path_size p \<and> j \<le> Suc i \<and> i \<le> Suc j \<and> ps_start (path_segments p ! j) \<le> x \<and> x \<le> segment_end p j)"

lemma samples_sideI:
  assumes "deref p j = Inr w" "j < path_size p" "j \<le> Suc i" "i \<le> Suc j" "view_start w \<le> x" "x \<le> view_end w"
  shows "samples_side p i x w"
  using assms deref_in_range [OF assms(2)] by (auto simp: samples_side_def)

lemma samples_side_limit:
  assumes "samples_side p i x w" "view_acceleration_limit w x opt = Inr a" "v < a"
  shows "limit_above p opt i v x"
proof -
  obtain j where j: "deref p j = Inr w" "j < path_size p \<and> j \<le> Suc i \<and> i \<le> Suc j"
      "ps_start (path_segments p ! j) \<le> x" "x \<le> segment_end p j"
    using assms(1) by (auto simp: samples_side_def)
  have "segment_limit p opt j x = Inr a" by (simp add: segment_limit_def j(1) assms(2))
  with j assms(3) show ?thesis unfolding limit_above_def by blast
qed

lemma sample_before_result:
  assumes s: "sample_before c v s opt = Inr (x, w)" and c: "standing p c" "cursor_deref c = Inr v"
    and on: "view_start v \<le> s" "s \<le> view_end v" "isfinite s" and e: "to_epsilon opt = Fin e" "0 < e"
  shows "s - to_epsilon opt \<le> x" "x \<le> s" "samples_side p (cur_hint c) x w"
proof -
  let ?i = "cur_hint c"
  let ?goal = "s - to_epsilon opt \<le> x \<and> x \<le> s \<and> samples_side p (cur_hint c) x w"
  note sv = standing_view [OF c]
  have p: "path_inv p" "cur_path c = p" using c(1) by (auto simp: standing_def cursor_inv_def)
  obtain y where y: "s = Fin y" using on(3) by (auto simp: isfinite_iff)
  obtain xs len where xs: "length xs = path_size p" "path_length p = Fin len"
    "\<And>i. i < length xs \<Longrightarrow> ps_start (path_segments p ! i) = Fin (xs ! i) \<and> 0 \<le> xs ! i \<and> xs ! i < len"
    using path_positions [OF p(1)] by (metis path_size_def)
  have a: "view_start v = Fin (xs ! ?i)" "0 \<le> xs ! ?i" "xs ! ?i \<le> y" using xs sv(1,4) on(1) y by auto
  have dv: "deref p ?i = Inr v" using c(2) p(2) by (simp add: cursor_deref_def)
  let ?b = "max 0 (y - e)"
  have b: "std_max 0 (s - to_epsilon opt) = Fin ?b" by (simp add: y e(1) std_max_def)
  note s' = s [unfolded sample_before_def Let_def b]
  have near: "s - to_epsilon opt \<le> x \<and> x \<le> s \<and> samples_side p ?i x w"
    if "(x, w) = (std_max (Fin b') (view_start v), v)" "?b \<le> b'" "b' \<le> y" for b'
  proof -
    have w: "w = v" "x = Fin (max b' (xs ! ?i))" using that(1) a(1) by (auto simp: std_max_def)
    have "samples_side p ?i x v"
      by (rule samples_sideI [OF dv sv(4)]) (use w a that(3) on(2) y in \<open>auto intro: Fin_le_trans simp: max_def\<close>)
    moreover have "y - e \<le> b'" using that(2) by simp
    ultimately show ?thesis using that(3) w a(3) by (auto simp: y e(1) max_def)
  qed
  have ?goal if "\<not> Fin ?b < view_start v"
    using near [of ?b] s' that a(2,3) e(2) by auto
  moreover have ?goal if lt: "Fin ?b < view_start v"
  proof -
    obtain c' where c': "cursor_seek c s = Inr c'" using s' lt by (auto simp: bind_res_eq_Inr)
    have ons: "on_path p s" using on(1,2) segment_within [OF p(1) sv(4)] sv(1,2) by (auto simp: on_path_def intro: dbl_le_trans)
    note sk = standing_seek [OF c(1) c' ons]
    have base: "cursor_base c' = segment_index p s"
      using sk by (simp add: cursor_base_def cursor_at_end_def y)
    show ?thesis
    proof (cases "segment_index p s = 0")
      case True
      with near [of ?b] s' lt a(2,3) c' base e(2) show ?thesis by auto
    next
      case False
      let ?j = "segment_index p s - 1"
      have j: "?j \<le> ?i" "?i \<le> Suc ?j" "?j < path_size p"
        using segment_index_near [OF p(1) sv(4) on(1,2) [unfolded sv(1,2) y]] sv(4) False by (auto simp: y)
      obtain u where u: "deref p ?j = Inr u" "view_start u = Fin (xs ! ?j)" "view_end u = segment_end p ?j"
        using deref_in_range [OF j(3)] xs(1,3) j(3) by simp
      obtain l m where lm: "view_acceleration_limit u (view_end u) opt = Inr l" "view_acceleration_limit v (view_start v) opt = Inr m"
        and xw: "(x, w) = (let z = (if eps_eq (to_epsilon opt) l m then u else v) in
          (std_max (std_max (Fin ?b) (view_start u)) (view_start z), z))"
        using s' lt c' base False u(1) p(2) by (auto simp: bind_res_eq_Inr Let_def)
      have ju: "xs ! ?j \<le> xs ! ?i"
        using segment_starts_sorted(1) [OF p(1) j(1) sv(4)] xs(1,3) j(3) sv(4) by simp
      let ?b' = "max ?b (xs ! ?j)"
      have b': "std_max (Fin ?b) (view_start u) = Fin ?b'" by (auto simp: u(2) std_max_def max_def)
      show ?thesis
      proof (cases "eps_eq (to_epsilon opt) l m")
        case False
        have "?b \<le> ?b'" "?b' \<le> y" using ju a(2,3) e(2) by simp_all
        with near [of ?b'] xw False show ?thesis by (simp only: b' Let_def if_False)
      next
        case True
        then have w: "w = u" "x = Fin ?b'" using xw u(2) by (auto simp: Let_def b' std_max_def)
        have "Fin (xs ! ?i) \<le> segment_end p ?j \<or> ?j = ?i"
        proof (cases "?j = ?i")
          case False
          with j(1,2) have "Suc ?j = ?i" by linarith
          then show ?thesis using sv(4) by (simp add: segment_end_def path_size_def a(1) [unfolded sv(1)])
        qed simp
        then have "samples_side p ?i x u"
        proof
          assume "?j = ?i"
          then show ?thesis
            by (intro samples_sideI [OF u(1) j(3)]) (use w u a on(2) y lt sv(2) in \<open>auto intro: Fin_le_trans simp: max_def\<close>)
        next
          assume "Fin (xs ! ?i) \<le> segment_end p ?j"
          with Fin_le_trans [of ?b' "xs ! ?i"] have "Fin ?b' \<le> segment_end p ?j" using ju lt a(1) by simp
          then show ?thesis
            by (intro samples_sideI [OF u(1) j(3)]) (use w u j in auto)
        qed
        with w ju a e show ?thesis by (auto simp: y)
      qed
    qed
  qed
  ultimately show "s - to_epsilon opt \<le> x" "x \<le> s" "samples_side p (cur_hint c) x w" by blast+
qed

lemma sample_after_result:
  assumes s: "sample_after c v s opt = Inr (x, w)" and c: "standing p c" "cursor_deref c = Inr v"
    and on: "view_start v \<le> s" "s \<le> view_end v" "isfinite s" and e: "to_epsilon opt = Fin e" "0 < e"
  shows "s \<le> x" "x \<le> s + to_epsilon opt" "samples_side p (cur_hint c) x w"
proof -
  let ?i = "cur_hint c"
  let ?goal = "s \<le> x \<and> x \<le> s + to_epsilon opt \<and> samples_side p (cur_hint c) x w"
  note sv = standing_view [OF c]
  have p: "path_inv p" "cur_path c = p" "isfinite (cur_position c)" using c(1) by (auto simp: standing_def cursor_inv_def)
  obtain y where y: "s = Fin y" using on(3) by (auto simp: isfinite_iff)
  obtain xs len where xs: "length xs = path_size p" "path_length p = Fin len"
    "\<And>i. i < length xs \<Longrightarrow> ps_start (path_segments p ! i) = Fin (xs ! i) \<and> 0 \<le> xs ! i \<and> xs ! i < len"
    "\<And>i. i < length xs \<Longrightarrow> segment_end p i = Fin (if Suc i < length xs then xs ! Suc i else len)"
    using path_positions [OF p(1)] by (metis path_size_def)
  define ends where "ends = (\<lambda>i. if Suc i < length xs then xs ! Suc i else len)"
  have le: "ends j \<le> len" if "j < path_size p" for j
    using that xs(1) xs(3) [of "Suc j"] by (auto simp: ends_def intro: less_imp_le)
  have a: "view_end v = Fin (ends ?i)" "y \<le> ends ?i" using xs sv(2,4) on(2) y by (auto simp: ends_def)
  have dv: "deref p ?i = Inr v" using c(2) p(2) by (simp add: cursor_deref_def)
  let ?b = "min len (y + e)"
  have b: "std_min (path_length p) (s + to_epsilon opt) = Fin ?b" by (auto simp: y e(1) std_min_def xs(2))
  note s' = s [unfolded sample_after_def Let_def p(2) b]
  have yb: "y \<le> ?b" using a(2) le [OF sv(4)] e(2) by simp
  have near: "s \<le> x \<and> x \<le> s + to_epsilon opt \<and> samples_side p ?i x w"
    if "(x, w) = (std_min (Fin b') (view_end v), v)" "y \<le> b'" "b' \<le> ?b" for b'
  proof -
    have w: "w = v" "x = Fin (min b' (ends ?i))" using that(1) a(1) by (auto simp: std_min_def)
    have "samples_side p ?i x v"
      by (rule samples_sideI [OF dv sv(4)]) (use w a that(2) on(1) y in \<open>auto intro: dbl_le_trans simp: min_def\<close>)
    moreover have "b' \<le> y + e" using that(3) by simp
    ultimately show ?thesis using that(2) w a(2) by (auto simp: y e(1) min_def)
  qed
  have ?goal if "\<not> view_end v < Fin ?b"
    using near [of ?b] s' that yb by auto
  moreover have ?goal if lt: "view_end v < Fin ?b"
  proof -
    obtain c' where c': "cursor_seek c s = Inr c'" using s' lt by (auto simp: bind_res_eq_Inr)
    have ons: "on_path p s" using on(1,2) segment_within [OF p(1) sv(4)] sv(1,2) by (auto simp: on_path_def intro: dbl_le_trans)
    note sk = standing_seek [OF c(1) c' ons]
    have "cursor_base c' = segment_index p s" "cursor_base c = ?i"
      using sk p(3) by (simp_all add: cursor_base_def cursor_at_end_def y)
    then have base: "(if cursor_base c' = cursor_base c then Suc (cursor_base c') else cursor_base c') = Suc ?i"
      using segment_index_near [OF p(1) sv(4) on(1,2) [unfolded sv(1,2) y]] by (auto simp: y)
    show ?thesis
    proof (cases "Suc ?i = path_size p")
      case True
      with near [of ?b] s' lt c' base yb show ?thesis by auto
    next
      case False
      then have j: "Suc ?i < path_size p" using sv(4) by simp
      obtain u where u: "deref p (Suc ?i) = Inr u" "view_end u = Fin (ends (Suc ?i))" "view_start u = Fin (ends ?i)"
        using deref_in_range [OF j] xs(1,3,4) j by (simp add: ends_def)
      have up: "ends ?i \<le> ends (Suc ?i)"
        using segment_starts_sorted(3) [OF p(1) order_refl j] xs(1,3,4) j by (simp add: ends_def)
      obtain l m where xw: "(x, w) = (let z = (if eps_eq (to_epsilon opt) l m then u else v) in
          (std_min (std_min (Fin ?b) (view_end u)) (view_end z), z))"
        using s' lt c' base False u(1) by (auto simp: bind_res_eq_Inr Let_def)
      let ?b' = "min ?b (ends (Suc ?i))"
      have b': "std_min (Fin ?b) (view_end u) = Fin ?b'" by (auto simp: u(2) std_min_def)
      show ?thesis
      proof (cases "eps_eq (to_epsilon opt) l m")
        case False
        have "y \<le> ?b'" "?b' \<le> ?b" using up a(2) yb by (auto simp: min_def)
        with near [of ?b'] xw False show ?thesis by (simp only: b' Let_def if_False)
      next
        case True
        then have w: "w = u" "x = Fin ?b'" using xw u(2) by (auto simp: Let_def b' std_min_def)
        have "samples_side p ?i x u"
          by (rule samples_sideI [OF u(1) j]) (use w u a up lt in auto)
        with w up a yb show ?thesis by (auto simp: y e(1))
      qed
    qed
  qed
  ultimately show "s \<le> x" "x \<le> s + to_epsilon opt" "samples_side p (cur_hint c) x w" by blast+
qed

lemma not_eps_eq_less:
  assumes "\<not> eps_eq (half e) x y" "x \<le> y" "0 < e" "isfinite e" "isfinite y"
  shows "x < y"
proof -
  obtain d b where "e = Fin d" "0 < d" "y = Fin b" using assms(3-5) by (auto simp: isfinite_iff)
  with assms(1,2) show ?thesis by (cases x) (auto simp: half_def)
qed

lemma not_eps_eq_less':
  assumes "\<not> eps_eq (half e) y x" "y \<le> x" "0 < e" "isfinite e" "isfinite y"
  shows "y < x"
proof -
  obtain d b where "e = Fin d" "0 < d" "y = Fin b" using assms(3-5) by (auto simp: isfinite_iff)
  with assms(1,2) show ?thesis by (cases x) (auto simp: half_def)
qed

lemma extremum_found:
  assumes "standing p c" "cursor_deref c = Inr v" "view_segment v = Circular arc" "usable_options opt"
    "first_extremum c v opt (candidate_extrema c v arc) = Inr (Some sp)"
  shows "found_from p opt hint c sp"
proof -
  obtain e where e: "to_epsilon opt = Fin e" "0 < e" using usable_optionsE [OF assms(4)] .
  obtain x where x: "cur_position c = Fin x" "path_inv p" "cur_path c = p" using assms(1) standingE by metis
  note sv = standing_view [OF assms(1,2)]
  let ?i = "cur_hint c" and ?s = "pp_s (sp_point sp)"
  have f: "?s \<in> set (candidate_extrema c v arc)" "check_extremum c v opt ?s = Inr (Some sp)"
    using first_extremum_result [OF assms(5)] by simp_all
  have circ: "is_circular (ps_seg (path_segments p ! ?i))" using assms(3) sv(3) by (metis is_circular.simps(1))
  have arc: "ps_seg (path_segments p ! ?i) = Circular arc" using assms(3) sv(3) by simp
  have c: "cur_position c \<le> ?s" "ps_start (path_segments p ! ?i) \<le> ?s" "?s \<le> segment_end p ?i" "isfinite ?s"
    and turns: "turns_at p ?i ?s"
    using candidate_range [OF x(2) sv(4) arc sv(1) f(1)] x(1) by simp_all
  have dv: "deref p ?i = Inr v" using assms(2) x(3) by (simp add: cursor_deref_def)
  obtain curves xb w xa z a b where sp: "sp = \<lparr>sp_point = \<lparr>pp_s = ?s, pp_s_dot = lc_s_dot_max_acc curves\<rparr>,
      sp_kind = K_nondifferentiable_extremum, sp_forward_accel = Some 0, sp_backward_accel = Some 0\<rparr>"
    and k: "view_limit_curves v ?s opt = Inr curves" "\<not> eps_less (to_epsilon opt) (lc_s_dot_max_vel curves) (lc_s_dot_max_acc curves)"
    and b: "sample_before c v ?s opt = Inr (xb, w)" "sample_after c v ?s opt = Inr (xa, z)"
      "\<not> eps_eq (half (to_epsilon opt)) xb ?s" "\<not> eps_eq (half (to_epsilon opt)) ?s xa"
    and l: "view_acceleration_limit w xb opt = Inr a" "view_acceleration_limit z xa opt = Inr b"
      "lc_s_dot_max_acc curves < a" "lc_s_dot_max_acc curves < b"
    using f(2) by (rule check_extremum_result) blast
  have on: "view_start v \<le> ?s" "?s \<le> view_end v" using c(2,3) sv(1,2) by simp_all
  note sb = sample_before_result [OF b(1) assms(1,2) on c(4) e] and sa = sample_after_result [OF b(2) assms(1,2) on c(4) e]
  have v: "pp_s_dot (sp_point sp) = lc_s_dot_max_acc curves" using arg_cong [OF sp, of "\<lambda>q. pp_s_dot (sp_point q)"] by simp
  have "xb < ?s" by (rule not_eps_eq_less [OF b(3) sb(2)]) (use e c(4) in simp_all)
  moreover have "?s < xa" by (rule not_eps_eq_less' [OF b(4) sa(1)]) (use e c(4) in simp_all)
  ultimately have "dips p opt ?i ?s (lc_s_dot_max_acc curves)"
    using sb(1) sa(2) samples_side_limit [OF sb(3) l(1,3)] samples_side_limit [OF sa(3) l(2,4)] unfolding dips_def by blast
  moreover have "touches p opt ?i ?s (lc_s_dot_max_acc curves)"
    using k by (simp add: touches_def side_curves_def dv)
  moreover have "sp_kind sp = K_nondifferentiable_extremum" "sp_forward_accel sp = Some 0" "sp_backward_accel sp = Some 0"
    by (subst sp, simp)+
  ultimately have "extremum_at p opt ?i sp"
    unfolding extremum_at_def v using c turns sv(4) circ by blast
  moreover have "on_path p ?s"
    using c(2,3) segment_within [OF x(2) sv(4)] by (auto simp: on_path_def intro: dbl_le_trans)
  ultimately show ?thesis using c by (auto simp: found_from_def)
qed

lemma curvature_jump_result:
  assumes "check_curvature_jump v v' s before after opt = Inr (Some sp)"
  shows "lc_s_dot_max_acc before < lc_s_dot_max_acc after \<or> lc_s_dot_max_acc after < lc_s_dot_max_acc before"
    "\<exists>forward. sp = \<lparr>sp_point = \<lparr>pp_s = s, pp_s_dot = std_min (lc_s_dot_max_acc before) (lc_s_dot_max_acc after)\<rparr>,
       sp_kind = K_discontinuous_curvature, sp_forward_accel = Some forward, sp_backward_accel = None\<rparr> \<and>
       (if lc_s_dot_max_acc before < lc_s_dot_max_acc after
        then step_up_case v s (lc_s_dot_max_acc before) opt = Inr (Some (True, forward))
        else step_down_case v' s (lc_s_dot_max_acc after) opt = Inr (Some (True, forward))) \<and>
       eps_le (to_epsilon opt) (std_min (lc_s_dot_max_acc before) (lc_s_dot_max_acc after))
         (std_min (lc_s_dot_max_vel before) (lc_s_dot_max_vel after))"
  using assms by (auto simp: check_curvature_jump_def bind_res_eq_Inr Let_def
      split: if_splits option.splits prod.splits bool.splits)

lemma step_case_result:
  assumes "deref p i = Inr v" "i < path_size p"
  shows "step_up_case v s limit opt = Inr (Some (True, forward)) \<Longrightarrow> limit_rises p opt i s limit forward"
    "step_down_case v s limit opt = Inr (Some (True, forward)) \<Longrightarrow> limit_falls p opt i s limit forward"
proof -
  have v: "view_start v = ps_start (path_segments p ! i)" "view_end v = segment_end p i"
    using assms deref_in_range [OF assms(2)] by auto
  show "step_up_case v s limit opt = Inr (Some (True, forward)) \<Longrightarrow> limit_rises p opt i s limit forward"
    by (auto simp: step_up_case_def bind_res_eq_Inr Let_def limit_rises_def segment_limit_def view_acceleration_limit_def
        side_bounds_def side_tangent_def side_curvature_def assms(1) v split: if_split_asm)
  show "step_down_case v s limit opt = Inr (Some (True, forward)) \<Longrightarrow> limit_falls p opt i s limit forward"
    by (auto simp: step_down_case_def bind_res_eq_Inr Let_def limit_falls_def segment_limit_def view_acceleration_limit_def
        side_bounds_def side_tangent_def side_curvature_def assms(1) v split: if_split_asm)
qed

lemma curvature_jump_step:
  assumes "check_curvature_jump v v' s before after opt = Inr (Some sp)" "deref p i = Inr v" "deref p (Suc i) = Inr v'"
    "Suc i < path_size p" "view_limit_curves v s opt = Inr before" "view_limit_curves v' s opt = Inr after"
  shows "\<exists>forward. sp_forward_accel sp = Some forward \<and> curvature_step p opt i s (pp_s_dot (sp_point sp)) forward"
proof -
  obtain forward where f: "sp = \<lparr>sp_point = \<lparr>pp_s = s, pp_s_dot = std_min (lc_s_dot_max_acc before) (lc_s_dot_max_acc after)\<rparr>,
       sp_kind = K_discontinuous_curvature, sp_forward_accel = Some forward, sp_backward_accel = None\<rparr>"
    "if lc_s_dot_max_acc before < lc_s_dot_max_acc after
     then step_up_case v s (lc_s_dot_max_acc before) opt = Inr (Some (True, forward))
     else step_down_case v' s (lc_s_dot_max_acc after) opt = Inr (Some (True, forward))"
    "eps_le (to_epsilon opt) (std_min (lc_s_dot_max_acc before) (lc_s_dot_max_acc after))
       (std_min (lc_s_dot_max_vel before) (lc_s_dot_max_vel after))"
    using curvature_jump_result(2) [OF assms(1)] by blast
  have "curvature_step p opt i s (std_min (lc_s_dot_max_acc before) (lc_s_dot_max_acc after)) forward"
    unfolding curvature_step_def
    by (rule exI [of _ before], rule exI [of _ after])
      (use f(2,3) curvature_jump_result(1) [OF assms(1)] assms(4) step_case_result(1) [OF assms(2) Suc_lessD [OF assms(4)]] step_case_result(2) [OF assms(3,4)]
        in \<open>auto simp: side_curves_def assms\<close>)
  with f(1) show ?thesis by simp
qed

lemma acceleration_bodyE:
  assumes "acceleration_search_body hint opt c = Inr (Return (Some sp))"
  obtains v arc where "cursor_deref c = Inr v" "view_segment v = Circular arc"
      "first_extremum c v opt (candidate_extrema c v arc) = Inr (Some sp)"
  | v before c' v' after forward where "cursor_deref c = Inr v"
      "\<not> path_length (cur_path c) \<le> view_end v" "\<not> hint < view_end v"
      "view_limit_curves v (view_end v) opt = Inr before"
      "cursor_seek c (view_end v) = Inr c'" "cursor_deref c' = Inr v'"
      "view_limit_curves v' (view_end v) opt = Inr after"
      "lc_s_dot_max_acc before < lc_s_dot_max_acc after \<or> lc_s_dot_max_acc after < lc_s_dot_max_acc before"
      "sp = \<lparr>sp_point = \<lparr>pp_s = view_end v, pp_s_dot = std_min (lc_s_dot_max_acc before) (lc_s_dot_max_acc after)\<rparr>,
             sp_kind = K_discontinuous_curvature, sp_forward_accel = Some forward, sp_backward_accel = None\<rparr>"
      "check_curvature_jump v v' (view_end v) before after opt = Inr (Some sp)"
proof -
  obtain v ex where v: "cursor_deref c = Inr v"
    and ex: "(case view_segment v of
             Circular arc \<Rightarrow> first_extremum c v opt (candidate_extrema c v arc) | Linear _ \<Rightarrow> Inr None) = Inr ex"
    using assms by (auto simp: acceleration_search_body_def bind_res_eq_Inr)
  show ?thesis
  proof (cases ex)
    case (Some e)
    then have "sp = e" using assms v ex by (simp add: acceleration_search_body_def)
    with that(1) [OF v] ex Some show ?thesis by (cases "view_segment v") auto
  next
    case None
    then obtain before c' v' after where "\<not> path_length (cur_path c) \<le> view_end v" "\<not> hint < view_end v"
      "view_limit_curves v (view_end v) opt = Inr before"
      "cursor_seek c (view_end v) = Inr c'" "cursor_deref c' = Inr v'"
      "view_limit_curves v' (view_end v) opt = Inr after"
      "check_curvature_jump v v' (view_end v) before after opt = Inr (Some sp)"
      using assms v ex
      by (auto simp: acceleration_search_body_def bind_res_eq_Inr Let_def split: if_split_asm option.splits)
    with that(2) [OF v] curvature_jump_result show ?thesis by metis
  qed
qed

lemma acceleration_found:
  assumes "usable_options opt" "standing p c" "acceleration_search_body hint opt c = Inr (Return (Some sp))"
  shows "found_from p opt hint c sp"
  using assms(3)
proof (cases rule: acceleration_bodyE)
  case 1
  with extremum_found [OF assms(2)] assms(1) show ?thesis by blast
next
  case w: (2 v before c' v' after forward)
  obtain x where x: "cur_position c = Fin x" "path_inv p" "cur_path c = p" using assms(2) standingE by metis
  note sv = standing_view [OF assms(2) w(1)]
  let ?i = "cur_hint c"
  have fin: "view_end v \<noteq> NaN" using sv(6) x(1) by auto
  obtain len where len: "path_length p = Fin len" using path_length_finite [OF x(2)] by blast
  have lt: "segment_end p ?i < path_length p"
    using w(2) fin len x(3) by (simp add: sv(2) [symmetric] dbl_not_le)
  note e = segment_end_next [OF x(2) sv(4) lt]
  note s = standing_seek [OF assms(2) w(5) [unfolded sv(2)] e(2)]
  have v': "deref p (Suc ?i) = Inr v'" using w(6) s e(3) by (auto simp: cursor_deref_def standing_def)
  have dv: "deref p ?i = Inr v" using w(1) x(3) by (simp add: cursor_deref_def)
  have "curvature_jump_at p opt hint ?i sp"
    using w(3) e(1) sv(2) curvature_jump_step [OF w(10) dv v' e(1) w(4,7)] by (simp add: curvature_jump_at_def w(9))
  then show ?thesis using e(2,4) w(9) sv(2,6) by (auto simp: found_from_def)
qed

lemma found_from_earlier: "found_from p opt hint c' sp \<Longrightarrow> cur_position c \<le> cur_position c' \<Longrightarrow> found_from p opt hint c sp"
  by (auto simp: found_from_def intro: dbl_le_trans)

lemma acceleration_search_result:
  assumes "usable_options opt" "standing p c" "find_acceleration_switching_point c hint opt = Inr (Some sp)"
  shows "found_from p opt hint c sp"
proof -
  have "case Some sp of None \<Rightarrow> True | Some q \<Rightarrow> found_from p opt hint c q"
  proof (rule loop_flow_invariant [OF assms(3) [unfolded find_acceleration_switching_point_def],
        of "\<lambda>c'. standing p c' \<and> cur_position c \<le> cur_position c'"])
    from assms(2) obtain x where "cur_position c = Fin x" by (rule standingE)
    with assms(2) show "standing p c \<and> cur_position c \<le> cur_position c" by simp
  next
    fix a b assume "standing p a \<and> cur_position c \<le> cur_position a"
      and "acceleration_search_body hint opt a = Inr (Continue b)"
    with acceleration_walk [of p a hint opt b] show "standing p b \<and> cur_position c \<le> cur_position b"
      by (auto intro: dbl_le_trans)
  next
    fix a r assume "standing p a \<and> cur_position c \<le> cur_position a"
      and "acceleration_search_body hint opt a = Inr (Return r)"
    then show "case r of None \<Rightarrow> True | Some q \<Rightarrow> found_from p opt hint c q"
      using found_from_earlier [OF acceleration_found [OF assms(1), of p a hint "the r"], of c] by (cases r) simp_all
  qed
  then show ?thesis by simp
qed

section \<open>What the velocity search finds\<close>

text \<open>
  Equations 41 and 42: on both sides of the end of segment \<open>i\<close> the velocity curve is clearly below the acceleration curve; before it
  a trajectory that brakes on the velocity curve leaves it upwards or along it, behind it downwards or along it; the velocity
  is the lower of the two limits, and the lower of the two acceleration limits does not cut it off.
\<close>

definition limit_jump :: "path \<Rightarrow> traj_options \<Rightarrow> nat \<Rightarrow> arc_length \<Rightarrow> arc_velocity \<Rightarrow> bool" where
  "limit_jump p opt i s v \<longleftrightarrow>
     (\<exists>before after slope_before slope_after bounds_before bounds_after.
        boundary_curves p opt i s = Inr before \<and> boundary_curves p opt (Suc i) s = Inr after \<and>
        \<not> eps_le (to_epsilon opt) (lc_s_dot_max_acc before) (lc_s_dot_max_vel before) \<and>
        \<not> eps_le (to_epsilon opt) (lc_s_dot_max_acc after) (lc_s_dot_max_vel after) \<and>
        compute_velocity_limit_slope before opt = Inr slope_before \<and>
        side_bounds p opt i s (lc_s_dot_max_vel before) = Inr bounds_before \<and>
        slope_before \<le> divide (ab_s_ddot_min bounds_before) (lc_s_dot_max_vel before) \<and>
        compute_velocity_limit_slope after opt = Inr slope_after \<and>
        side_bounds p opt (Suc i) s (lc_s_dot_max_vel after) = Inr bounds_after \<and>
        divide (ab_s_ddot_min bounds_after) (lc_s_dot_max_vel after) \<le> slope_after \<and>
        v = std_min (lc_s_dot_max_vel before) (lc_s_dot_max_vel after) \<and>
        eps_ge (to_epsilon opt) (std_min (lc_s_dot_max_acc before) (lc_s_dot_max_acc after)) v)"

text \<open>
  A jump of the velocity limit: at the end of segment \<open>i\<close>, beyond where the search started. Where the tangents of the two sides
  differ, the path is left and entered at rest; where they agree, the criterion above holds.
\<close>

definition boundary_velocity :: "path \<Rightarrow> traj_options \<Rightarrow> nat \<Rightarrow> arc_length \<Rightarrow> arc_velocity \<Rightarrow> bool" where
  "boundary_velocity p opt i s v \<longleftrightarrow>
     Suc i < path_size p \<and> s = segment_end p i \<and>
     (\<exists>before after. side_tangent p i s = Inr before \<and> side_tangent p (Suc i) s = Inr after \<and>
        (if eps_eq (to_epsilon opt) (Fin (dot before after)) 1 then limit_jump p opt i s v else v = 0))"

definition velocity_jump_at :: "path \<Rightarrow> traj_options \<Rightarrow> arc_length \<Rightarrow> switching_point \<Rightarrow> bool" where
  "velocity_jump_at p opt start sp \<longleftrightarrow>
     sp_kind sp = K_discontinuous_velocity_limit \<and> isfinite (pp_s (sp_point sp)) \<and> on_path p (pp_s (sp_point sp)) \<and>
     start < pp_s (sp_point sp) \<and> pp_s (sp_point sp) < path_length p \<and>
     (\<exists>i. boundary_velocity p opt i (pp_s (sp_point sp)) (pp_s_dot (sp_point sp))) \<and>
     sp_forward_accel sp = None \<and> sp_backward_accel sp = None"

lemma check_velocity_jump_result:
  assumes "check_velocity_jump p s v v' qb qa opt = Inr (Some sp)" "deref p i = Inr v" "deref p (Suc i) = Inr v'"
    "view_tangent v s = Inr qb" "view_tangent v' s = Inr qa"
  shows "\<exists>s_dot. sp = velocity_switch K_discontinuous_velocity_limit s s_dot \<and> limit_jump p opt i s s_dot"
proof -
  obtain cb ca q before after sb sa bb ba where c: "view_curvature v s = Inr cb" "view_curvature v' s = Inr ca"
      "path_configuration p s = Inr q" "compute_limit_curves q qb cb opt = Inr before" "compute_limit_curves q qa ca opt = Inr after"
    and s: "\<not> eps_le (to_epsilon opt) (lc_s_dot_max_acc before) (lc_s_dot_max_vel before)"
      "\<not> eps_le (to_epsilon opt) (lc_s_dot_max_acc after) (lc_s_dot_max_vel after)"
      "compute_velocity_limit_slope before opt = Inr sb"
      "compute_acceleration_bounds qb cb (lc_s_dot_max_vel before) (to_max_acceleration opt) (to_epsilon opt) = Inr bb"
      "sb \<le> divide (ab_s_ddot_min bb) (lc_s_dot_max_vel before)"
      "compute_velocity_limit_slope after opt = Inr sa"
      "compute_acceleration_bounds qa ca (lc_s_dot_max_vel after) (to_max_acceleration opt) (to_epsilon opt) = Inr ba"
      "divide (ab_s_ddot_min ba) (lc_s_dot_max_vel after) \<le> sa"
      "eps_ge (to_epsilon opt) (std_min (lc_s_dot_max_acc before) (lc_s_dot_max_acc after))
        (std_min (lc_s_dot_max_vel before) (lc_s_dot_max_vel after))"
    and sp: "sp = velocity_switch K_discontinuous_velocity_limit s (std_min (lc_s_dot_max_vel before) (lc_s_dot_max_vel after))"
    using assms(1) by (auto simp: check_velocity_jump_def bind_res_eq_Inr Let_def split: if_split_asm)
  have "limit_jump p opt i s (std_min (lc_s_dot_max_vel before) (lc_s_dot_max_vel after))"
    unfolding limit_jump_def
    by (rule exI [of _ before], rule exI [of _ after], rule exI [of _ sb], rule exI [of _ sa], rule exI [of _ bb], rule exI [of _ ba])
      (simp add: boundary_curves_def side_bounds_def side_tangent_def side_curvature_def assms c s)
  with sp show ?thesis by blast
qed

lemma velocity_jump_bodyE:
  assumes "velocity_jump_body start hint opt (c, lb) = Inr (Return (Some sp))"
  obtains v c' v' qb qa where "cursor_deref c = Inr v" "\<not> eps_ge (to_epsilon opt) (view_end v) (path_length (cur_path start))"
    "\<not> eps_le (to_epsilon opt) (view_end v) (cur_position start)" "cursor_seek c (view_end v) = Inr c'" "cursor_deref c' = Inr v'"
    "view_tangent v (view_end v) = Inr qb" "view_tangent v' (view_end v) = Inr qa"
    "if eps_eq (to_epsilon opt) (Fin (dot qb qa)) 1
     then check_velocity_jump (cur_path start) (view_end v) v v' qb qa opt = Inr (Some sp)
     else sp = velocity_switch K_discontinuous_velocity_limit (view_end v) 0"
  using assms
  by (auto simp: velocity_jump_body_def bind_res_eq_Inr Let_def split: option.split_asm if_split_asm)

lemma velocity_jump_found:
  assumes "usable_options opt" "standing p c" "standing p start"
    "velocity_jump_body start hint opt (c, lb) = Inr (Return (Some sp))"
  shows "velocity_jump_at p opt (cur_position start) sp"
proof -
  obtain e where e: "to_epsilon opt = Fin e" "0 < e" using usable_optionsE [OF assms(1)] .
  obtain x where x: "cur_position start = Fin x" "path_inv p" "cur_path start = p"
    using assms(3) standingE by metis
  obtain v c' v' qb qa where v: "cursor_deref c = Inr v" "\<not> eps_ge (Fin e) (view_end v) (path_length p)"
      "\<not> eps_le (Fin e) (view_end v) (Fin x)" "cursor_seek c (view_end v) = Inr c'" "cursor_deref c' = Inr v'"
      "view_tangent v (view_end v) = Inr qb" "view_tangent v' (view_end v) = Inr qa"
    and j: "if eps_eq (to_epsilon opt) (Fin (dot qb qa)) 1
      then check_velocity_jump p (view_end v) v v' qb qa opt = Inr (Some sp)
      else sp = velocity_switch K_discontinuous_velocity_limit (view_end v) 0"
    using assms(4) by (rule velocity_jump_bodyE) (unfold x e(1))
  let ?i = "cur_hint c" and ?s = "view_end v"
  note sv = standing_view [OF assms(2) v(1)]
  obtain len where len: "path_length p = Fin len" using path_length_finite [OF x(2)] by blast
  obtain y where y: "?s = Fin y"
    using path_positions [OF x(2)] sv(2,4) by (metis path_size_def)
  have xy: "x < y" "y < len" using v(2,3) e(2) len y by auto
  have lt: "segment_end p ?i < path_length p" using xy(2) len y sv(2) by simp
  note n = segment_end_next [OF x(2) sv(4) lt]
  note s = standing_seek [OF assms(2) v(4) [unfolded sv(2)] n(2)]
  have d: "deref p ?i = Inr v" "deref p (Suc ?i) = Inr v'"
    using v(1,5) s n(3) assms(2) by (auto simp: cursor_deref_def standing_def)
  have "\<exists>w. sp = velocity_switch K_discontinuous_velocity_limit ?s w \<and> boundary_velocity p opt ?i ?s w"
  proof (cases "eps_eq (to_epsilon opt) (Fin (dot qb qa)) 1")
    case True
    then have "check_velocity_jump p ?s v v' qb qa opt = Inr (Some sp)" using j by simp
    from check_velocity_jump_result [OF this d v(6,7)] show ?thesis
      using True n(1) v(6,7) by (auto simp: boundary_velocity_def sv(2) side_tangent_def d)
  next
    case False
    then show ?thesis using j n(1) v(6,7) by (auto simp: boundary_velocity_def sv(2) side_tangent_def d)
  qed
  then show ?thesis
    using xy y len x(1) n(2) by (auto simp: velocity_jump_at_def velocity_switch_def sv(2) [symmetric])
qed

lemma velocity_jump_search_result:
  assumes "usable_options opt" "standing p c" "find_discontinuous_velocity_switching_point c hint opt = Inr (Some sp)"
  shows "velocity_jump_at p opt (cur_position c) sp"
proof -
  have p: "cur_path c = p" using assms(2) by (simp add: standing_def)
  have "case Some sp of None \<Rightarrow> True | Some q \<Rightarrow> velocity_jump_at p opt (cur_position c) q"
  proof (rule loop_flow_invariant [OF assms(3) [unfolded find_discontinuous_velocity_switching_point_def],
        of "\<lambda>(a, _). standing p a"])
    fix st st' assume "case st of (a, _) \<Rightarrow> standing p a" "velocity_jump_body c hint opt st = Inr (Continue st')"
    with velocity_jump_walk [OF assms(1) _ _ p] show "case st' of (a, _) \<Rightarrow> standing p a"
      by (cases st; cases st') auto
  next
    fix st r assume "case st of (a, _) \<Rightarrow> standing p a" "velocity_jump_body c hint opt st = Inr (Return r)"
    with velocity_jump_found [OF assms(1) _ assms(2)]
    show "case r of None \<Rightarrow> True | Some q \<Rightarrow> velocity_jump_at p opt (cur_position c) q"
      by (cases st; cases r) auto
  qed (use assms(2) in simp)
  then show ?thesis by simp
qed

text \<open>
  The bisection keeps the escape in its bracket; what it returns is the side where braking
  falls below the velocity curve, with the velocity limit there, and within the tolerance either it follows the curve
  or there is a position before it where braking does not fall below.
\<close>

definition escape_point :: "path \<Rightarrow> traj_options \<Rightarrow> real \<Rightarrow> real \<Rightarrow> arc_velocity \<Rightarrow> bool" where
  "escape_point p opt a x v \<longleftrightarrow>
     (\<exists>d. escape_delta p opt (Fin x) = Inr (Some (d, v)) \<and> d \<le> 0 \<and>
        (eps_eq (to_epsilon opt) d 0 \<or>
         (\<exists>y. a \<le> y \<and> y < x \<and> eps_eq (to_epsilon opt) (Fin y) (Fin x) \<and> no_escape_at p opt (Fin y))))"

definition in_bracket :: "path \<Rightarrow> traj_options \<Rightarrow> real \<Rightarrow> real \<Rightarrow> switching_point \<Rightarrow> bool" where
  "in_bracket p opt a b sp \<longleftrightarrow>
     (\<exists>x v. a \<le> x \<and> x \<le> b \<and> sp = velocity_switch K_velocity_escape (Fin x) v \<and> escape_point p opt a x v)"

lemma in_bracketI:
  "escape_point p opt a x v \<Longrightarrow> a \<le> x \<Longrightarrow> x \<le> b \<Longrightarrow> in_bracket p opt a b (velocity_switch K_velocity_escape (Fin x) v)"
  unfolding in_bracket_def by (intro exI [of _ x] exI [of _ v]) simp

lemma escape_point_wider:
  assumes "escape_point p opt m x v" "a \<le> m"
  shows "escape_point p opt a x v"
  using assms unfolding escape_point_def by (meson order_trans)

lemma in_bracket_wider:
  "in_bracket p opt m b sp \<Longrightarrow> a \<le> m \<Longrightarrow> in_bracket p opt a b sp"
  "in_bracket p opt a m sp \<Longrightarrow> m \<le> b \<Longrightarrow> in_bracket p opt a b sp"
proof -
  show "in_bracket p opt a b sp" if b: "in_bracket p opt m b sp" and a: "a \<le> m"
  proof -
    obtain x v where "m \<le> x" "x \<le> b" "sp = velocity_switch K_velocity_escape (Fin x) v" "escape_point p opt m x v"
      using b by (auto simp: in_bracket_def)
    with a in_bracketI [OF escape_point_wider [of p opt m x v a], of b] show ?thesis by simp
  qed
  show "in_bracket p opt a b sp" if m: "in_bracket p opt a m sp" and b: "m \<le> b"
  proof -
    obtain x v where "a \<le> x" "x \<le> m" "sp = velocity_switch K_velocity_escape (Fin x) v" "escape_point p opt a x v"
      using m by (auto simp: in_bracket_def)
    with b in_bracketI [of p opt a x v b] show ?thesis by simp
  qed
qed

lemma escape_value_point:
  "escape_value p opt (Fin x) v \<Longrightarrow> no_escape_at p opt (Fin y) \<Longrightarrow> a \<le> y \<Longrightarrow> y < x \<Longrightarrow> eps_eq (to_epsilon opt) (Fin y) (Fin x) \<Longrightarrow>
     escape_point p opt a x v"
  by (auto simp: escape_value_def escape_point_def)

lemma refine_bisect_result:
  assumes "refine_bisect n c (Fin a) (Fin b) best opt = Inr (Some sp)" "standing p c"
    "0 \<le> a" "a < b" "Fin b \<le> path_length p" "no_escape_at p opt (Fin a)" "escape_value p opt (Fin b) best" "0 < to_epsilon opt" "isfinite (to_epsilon opt)"
  shows "in_bracket p opt a b sp"
  using assms(1-7)
proof (induction n arbitrary: c a b best)
  case (Suc n)
  show ?case
  proof (cases "eps_eq (to_epsilon opt) (Fin a) (Fin b)")
    case True
    with Suc.prems(1) have sp: "sp = velocity_switch K_velocity_escape (Fin b) best" by simp
    from in_bracketI [OF escape_value_point [OF Suc.prems(7,6) order_refl Suc.prems(4) True]] Suc.prems(4)
    show ?thesis by (simp add: sp)
  next
    case False
    let ?m = "(a + b) / 2"
    obtain c' r where c': "cursor_seek c (Fin ?m) = Inr c'" "try_compute_eq40_delta c' opt = Inr r"
      and step: "(case r of
               None \<Rightarrow> refine_bisect n c' (Fin ?m) (Fin b) best opt
             | Some (delta, v) \<Rightarrow>
                 if feq delta 0 then Inr (Some (velocity_switch K_velocity_escape (Fin ?m) v))
                 else if delta < 0 then refine_bisect n c' (Fin a) (Fin ?m) v opt
                 else refine_bisect n c' (Fin ?m) (Fin b) best opt) = Inr (Some sp)"
      using Suc.prems(1) False by (auto simp: bind_res_eq_Inr Let_def simp del: zero_Fin)
    have m: "a < ?m" "?m < b" "0 \<le> ?m" using Suc.prems(3,4) by auto
    have mp: "Fin ?m \<le> path_length p" using m Suc.prems(5) by (auto intro: dbl_le_trans [of _ "Fin b"])
    then have on: "on_path p (Fin ?m)" using m(3) by (simp add: on_path_def)
    note s = standing_seek [OF Suc.prems(2) c'(1) on]
    have r: "escape_delta p opt (Fin ?m) = Inr r" using c'(2) standing_delta [OF s(1)] s(2) by simp
    have right: "in_bracket p opt a b sp"
      if "refine_bisect n c' (Fin ?m) (Fin b) best opt = Inr (Some sp)" "\<And>d v. r = Some (d, v) \<Longrightarrow> \<not> d \<le> 0"
    proof (rule in_bracket_wider(1) [OF Suc.IH [OF that(1) s(1) m(3,2) Suc.prems(5) _ Suc.prems(7)] less_imp_le [OF m(1)]])
      show "no_escape_at p opt (Fin ?m)" using r that(2) unfolding no_escape_at_def by blast
    qed
    show ?thesis
    proof (cases r)
      case None
      with step right show ?thesis by simp
    next
      case (Some dv)
      obtain delta v where dv: "dv = (delta, v)" by (cases dv)
      consider (zero) "feq delta 0" | (below) "delta < 0" "\<not> feq delta 0" | (above) "\<not> feq delta 0" "\<not> delta < 0" by blast
      then show ?thesis
      proof cases
        case zero
        then have "delta = Fin 0" by (cases delta) simp_all
        moreover have "eps_eq (to_epsilon opt) (Fin 0) (Fin 0)" using assms(8,9) by (cases "to_epsilon opt") auto
        ultimately have "escape_point p opt a ?m v" using r Some dv by (simp add: escape_point_def)
        with in_bracketI [of p opt a ?m v b] zero step Some dv m show ?thesis by simp
      next
        case below
        then have "escape_value p opt (Fin ?m) v" using r Some dv by (auto simp: escape_value_def intro: dbl_less_imp_le)
        moreover have "refine_bisect n c' (Fin a) (Fin ?m) v opt = Inr (Some sp)" using step Some dv below by simp
        ultimately show ?thesis
          using in_bracket_wider(2) [OF Suc.IH [OF _ s(1) Suc.prems(3) m(1) mp Suc.prems(6)] less_imp_le [OF m(2)]] by blast
      next
        case above
        then have "\<not> delta \<le> 0" by (cases delta) auto
        with above step Some dv right show ?thesis by simp
      qed
    qed
  qed
qed simp

text \<open>One halving per iteration: the bracket is resolved before the iterations run out.\<close>

lemma refine_bisect_enough:
  assumes "b - a \<le> e * 2 ^ n" "a \<le> b" "to_epsilon opt = Fin e" "0 < e"
  shows "refine_bisect (Suc n) c (Fin a) (Fin b) best opt \<noteq> Inr None"
  using assms(1,2)
proof (induction n arbitrary: c a b best)
  case 0
  with assms(3,4) show ?case by simp
next
  case (Suc n)
  let ?m = "(a + b) / 2"
  have m: "?m - a \<le> e * 2 ^ n" "b - ?m \<le> e * 2 ^ n" "a \<le> ?m" "?m \<le> b"
    using Suc.prems by (simp_all add: field_simps)
  from Suc.IH [OF m(1,3)] Suc.IH [OF m(2,4)] show ?case
    by (subst refine_bisect.simps)
      (auto simp: bind_res_eq_Inr Let_def simp del: refine_bisect.simps split: option.splits if_splits)
qed

text \<open>An escape: between the start of the search and its bound.\<close>

definition escape_at :: "path \<Rightarrow> traj_options \<Rightarrow> arc_length \<Rightarrow> arc_length \<Rightarrow> switching_point \<Rightarrow> bool" where
  "escape_at p opt start hint sp \<longleftrightarrow>
     sp_kind sp = K_velocity_escape \<and> isfinite (pp_s (sp_point sp)) \<and> start \<le> pp_s (sp_point sp) \<and>
     pp_s (sp_point sp) \<le> hint \<and> pp_s (sp_point sp) < path_length p \<and>
     sp_forward_accel sp = None \<and> sp_backward_accel sp = None \<and>
     (\<exists>a. start \<le> Fin a \<and> escape_point p opt a (fin (pp_s (sp_point sp))) (pp_s_dot (sp_point sp)))"

lemma refine_result:
  assumes "refine_continuous_velocity_switching_point c b opt = Inr (Some sp)" "standing p c"
    "0 \<le> x" "Fin x \<le> eb_before b" "eb_before b < eb_after b" "isfinite (eb_after b)" "eb_after b \<le> hint"
    "eb_after b < path_length p" "brackets p opt b" "0 < to_epsilon opt" "isfinite (to_epsilon opt)"
  shows "escape_at p opt (Fin x) hint sp"
proof -
  obtain lo hi where b: "eb_before b = Fin lo" "eb_after b = Fin hi" "x \<le> lo" "lo < hi"
    using assms(4-6) by (cases "eb_before b"; cases "eb_after b") auto
  have br: "no_escape_at p opt (Fin lo)" "eb_after_delta b \<le> 0"
    "escape_delta p opt (Fin hi) = Inr (Some (eb_after_delta b, eb_after_s_dot_max_vel b))"
    using assms(9) by (simp_all add: brackets_def b)
  have "in_bracket p opt lo hi sp"
  proof (cases "eps_eq (to_epsilon opt) (eb_after_delta b) 0")
    case True
    with assms(1) b have sp: "sp = velocity_switch K_velocity_escape (Fin hi) (eb_after_s_dot_max_vel b)"
      by (simp add: refine_continuous_velocity_switching_point_def)
    have "escape_point p opt lo hi (eb_after_s_dot_max_vel b)" using br True by (simp add: escape_point_def)
    with in_bracketI b(4) show ?thesis by (simp add: sp)
  next
    case False
    then have r: "refine_bisect max_bisection_iterations c (Fin lo) (Fin hi) (eb_after_s_dot_max_vel b) opt = Inr (Some sp)"
      using assms(1) b by (simp add: refine_continuous_velocity_switching_point_def)
    show ?thesis
      by (rule refine_bisect_result [OF r assms(2)])
        (use b assms(3,8,10,11) br in \<open>auto simp: escape_value_def intro: dbl_less_imp_le\<close>)
  qed
  then obtain y v where "lo \<le> y" "y \<le> hi" "sp = velocity_switch K_velocity_escape (Fin y) v" "escape_point p opt lo y v"
    by (auto simp: in_bracket_def)
  moreover have "Fin y \<le> Fin hi" "Fin hi \<le> hint" "Fin hi < path_length p" using \<open>y \<le> hi\<close> b assms(7,8) by auto
  ultimately show ?thesis
    using b(3) by (auto simp: escape_at_def velocity_switch_def intro: Fin_le_trans Fin_le_less_trans)
qed

lemma escape_body_continue:
  assumes "usable_options opt" "isfinite hint" "standing p c" "on_path p (Fin x)"
    "escape_search_body c hint opt (Fin x) = Inr (Continue s')"
  shows "\<exists>y. s' = Fin y \<and> x \<le> y \<and> on_path p (Fin y) \<and>
    scan_left p (fin (to_delta opt)) hint y < scan_left p (fin (to_delta opt)) hint x"
proof -
  obtain b where b: "find_eq40_escape_bracket c (Fin x) hint opt = Inr (Some b)" "s' = eb_after b"
    using assms(5) by (auto simp: escape_search_body_def bind_res_eq_Inr split: if_splits option.splits)
  note r = escape_bracket_result [OF assms(1-4) b(1)]
  have lt: "Fin x < eb_after b" using r(1,2) by (rule dbl_le_less_trans)
  obtain y where y: "eb_after b = Fin y" using r(3) by (auto simp: isfinite_iff)
  with r(5,7) lt assms(4) show ?thesis by (auto simp: b(2) on_path_def intro: dbl_less_imp_le)
qed

lemma escape_body_return:
  assumes "usable_options opt" "isfinite hint" "standing p c" "on_path p (Fin x)"
    "escape_search_body c hint opt (Fin x) = Inr (Return (Some sp))"
  shows "escape_at p opt (Fin x) hint sp" "below_acceleration_curve c sp opt = Inr True"
proof -
  obtain b where b: "find_eq40_escape_bracket c (Fin x) hint opt = Inr (Some b)"
      "refine_continuous_velocity_switching_point c b opt = Inr (Some sp)" "below_acceleration_curve c sp opt = Inr True"
    using assms(5) by (auto simp: escape_search_body_def bind_res_eq_Inr split: if_splits option.splits)
  note r = escape_bracket_result [OF assms(1-4) b(1)]
  have "0 \<le> x" using assms(4) by (simp add: on_path_def)
  from refine_result [OF b(2) assms(3) this r(1-5,8)] assms(1) show "escape_at p opt (Fin x) hint sp"
    by (simp add: usable_options_def)
  show "below_acceleration_curve c sp opt = Inr True" using b(3) .
qed

lemma halts_escape_body:
  assumes "usable_options opt" "isfinite hint" "standing p c" "on_path p (Fin x)"
  shows "halts (escape_search_body c hint opt (Fin x))"
  using assms escape_bracket_halts [OF assms]
  unfolding escape_search_body_def below_acceleration_curve_def usable_options_def
  by (auto intro!: halts_intros split: option.splits)

lemma escape_search_halts:
  assumes "usable_options opt" "isfinite hint" "standing p c"
  shows "halts (find_continuous_velocity_switching_point c hint opt)"
  unfolding find_continuous_velocity_switching_point_def
proof (rule halts_loop_flow [of "\<lambda>s. \<exists>x. s = Fin x \<and> on_path p (Fin x)" _ _
      "\<lambda>s. scan_left p (fin (to_delta opt)) hint (fin s)"])
  show "\<exists>x. cur_position c = Fin x \<and> on_path p (Fin x)"
    using assms(3) by (auto simp: on_path_def elim!: standingE)
qed (use escape_body_continue [OF assms] halts_escape_body [OF assms] in fastforce)+

lemma escape_search_result:
  assumes "usable_options opt" "isfinite hint" "standing p c"
    "find_continuous_velocity_switching_point c hint opt = Inr (Some sp)"
  shows "escape_at p opt (cur_position c) hint sp" "below_acceleration_curve c sp opt = Inr True"
proof -
  obtain x0 where x0: "cur_position c = Fin x0" "on_path p (Fin x0)"
    using assms(3) by (auto simp: on_path_def elim!: standingE)
  have "case Some sp of None \<Rightarrow> True
    | Some q \<Rightarrow> escape_at p opt (cur_position c) hint q \<and> below_acceleration_curve c q opt = Inr True"
  proof (rule loop_flow_invariant [OF assms(4) [unfolded find_continuous_velocity_switching_point_def],
        of "\<lambda>s. \<exists>x. s = Fin x \<and> x0 \<le> x \<and> on_path p (Fin x)"])
    fix s s' assume "\<exists>x. s = Fin x \<and> x0 \<le> x \<and> on_path p (Fin x)"
      and st: "escape_search_body c hint opt s = Inr (Continue s')"
    then obtain x where x: "s = Fin x" "x0 \<le> x" "on_path p (Fin x)" by blast
    from escape_body_continue [OF assms(1-3) x(3) st [unfolded x(1)]] x(2)
    show "\<exists>x. s' = Fin x \<and> x0 \<le> x \<and> on_path p (Fin x)" by force
  next
    fix s r assume "\<exists>x. s = Fin x \<and> x0 \<le> x \<and> on_path p (Fin x)"
      and st: "escape_search_body c hint opt s = Inr (Return r)"
    then obtain x where x: "s = Fin x" "x0 \<le> x" "on_path p (Fin x)" by blast
    show "case r of None \<Rightarrow> True
      | Some q \<Rightarrow> escape_at p opt (cur_position c) hint q \<and> below_acceleration_curve c q opt = Inr True"
    proof (cases r)
      case (Some q)
      note e = escape_body_return [OF assms(1-3) x(3) st [unfolded x(1) Some]]
      have "Fin x0 \<le> pp_s (sp_point q)" "\<And>a. Fin x \<le> Fin a \<Longrightarrow> Fin x0 \<le> Fin a"
        using e(1) x(2) by (auto simp: escape_at_def intro: Fin_le_trans)
      with e(1) have "escape_at p opt (Fin x0) hint q" unfolding escape_at_def by blast
      with e(2) show ?thesis by (simp add: Some x0)
    qed simp
  qed (use x0 in simp)
  then show "escape_at p opt (cur_position c) hint sp" "below_acceleration_curve c sp opt = Inr True" by simp_all
qed

section \<open>The next switching point\<close>

lemma select_switching_point_cases:
  "select_switching_point a b eps = a \<or> select_switching_point a b eps = b"
  "select_switching_point a b eps = None \<longleftrightarrow> a = None \<and> b = None"
  by (auto simp: select_switching_point_def split: option.splits)

lemma velocity_bound_finite:
  assumes "isfinite hint" "isfinite (pp_s (sp_point sp))"
  shows "isfinite (std_min (pp_s (sp_point sp)) hint)"
  using assms by (auto simp: std_min_def)

lemma velocity_search_halts:
  assumes "usable_options opt" "isfinite hint" "standing p c"
  shows "halts (find_velocity_switching_point c hint opt)"
proof -
  have "isfinite (case r of Some sp \<Rightarrow> std_min (pp_s (sp_point sp)) hint | None \<Rightarrow> hint)"
    if "find_discontinuous_velocity_switching_point c hint opt = Inr r" for r
    using velocity_jump_search_result [OF assms(1,3)] that assms(2)
    by (cases r) (auto simp: velocity_jump_at_def intro: velocity_bound_finite)
  then show ?thesis
    unfolding find_velocity_switching_point_def Let_def
    using velocity_jump_search_halts [OF assms(1,3)] escape_search_halts [OF assms(1) _ assms(3)]
    by (auto intro!: halts_intros)
qed

lemma velocity_search_result:
  assumes "usable_options opt" "isfinite hint" "standing p c"
    "find_velocity_switching_point c hint opt = Inr (Some sp)"
  shows "velocity_jump_at p opt (cur_position c) sp \<or>
    (\<exists>bound. escape_at p opt (cur_position c) bound sp \<and> below_acceleration_curve c sp opt = Inr True)"
proof -
  obtain r q where r: "find_discontinuous_velocity_switching_point c hint opt = Inr r"
    and q: "find_continuous_velocity_switching_point c
        (case r of Some sp \<Rightarrow> std_min (pp_s (sp_point sp)) hint | None \<Rightarrow> hint) opt = Inr q"
    and s: "select_switching_point r q (to_epsilon opt) = Some sp"
    using assms(4) by (auto simp: find_velocity_switching_point_def Let_def bind_res_eq_Inr)
  have f: "isfinite (case r of Some sp \<Rightarrow> std_min (pp_s (sp_point sp)) hint | None \<Rightarrow> hint)"
    using velocity_jump_search_result [OF assms(1,3)] r assms(2)
    by (cases r) (auto simp: velocity_jump_at_def intro: velocity_bound_finite)
  from s select_switching_point_cases(1) [of r q "to_epsilon opt"] consider "r = Some sp" | "q = Some sp" by auto
  then show ?thesis
  proof cases
    case 1
    with velocity_jump_search_result [OF assms(1,3)] r show ?thesis by simp
  next
    case 2
    with escape_search_result [OF assms(1) f assms(3)] q show ?thesis by blast
  qed
qed

text \<open>An escape is checked against the acceleration curve.\<close>

definition below_limit :: "path \<Rightarrow> traj_options \<Rightarrow> arc_length \<Rightarrow> arc_velocity \<Rightarrow> bool" where
  "below_limit p opt s v \<longleftrightarrow>
     (\<exists>q_prime q_double_prime. path_tangent p s = Inr q_prime \<and> path_curvature p s = Inr q_double_prime \<and>
        eps_le (to_epsilon opt) v
          (compute_acceleration_limit q_prime q_double_prime (to_max_acceleration opt) (to_epsilon opt)))"

lemma below_limit_at:
  assumes "below_acceleration_curve c sp opt = Inr True" "standing p c" "on_path p (pp_s (sp_point sp))"
  shows "below_limit p opt (pp_s (sp_point sp)) (pp_s_dot (sp_point sp))"
proof -
  obtain c' q' q'' where c': "cursor_seek c (pp_s (sp_point sp)) = Inr c'" "cursor_tangent c' = Inr q'" "cursor_curvature c' = Inr q''"
    and le: "eps_le (to_epsilon opt) (pp_s_dot (sp_point sp))
      (compute_acceleration_limit q' q'' (to_max_acceleration opt) (to_epsilon opt))"
    using assms(1) by (auto simp: below_acceleration_curve_def bind_res_eq_Inr)
  note s = standing_seek [OF assms(2) c'(1) assms(3)]
  from standing_queries [OF s(1)] c'(2,3) have "path_tangent p (cur_position c') = Inr q'" "path_curvature p (cur_position c') = Inr q''"
    by auto
  with le s(2) show ?thesis by (simp add: below_limit_def)
qed

text \<open>What the cache may hold: switching points as the searches find them, on the path.\<close>

definition switching_point_inv :: "path \<Rightarrow> traj_options \<Rightarrow> switching_point \<Rightarrow> bool" where
  "switching_point_inv p opt sp \<longleftrightarrow>
     on_path p (pp_s (sp_point sp)) \<and> isfinite (pp_s (sp_point sp)) \<and>
     (sp = path_end_sentinel p \<or>
      (\<exists>i. extremum_at p opt i sp) \<or> (\<exists>i hint. curvature_jump_at p opt hint i sp) \<or>
      (\<exists>start. velocity_jump_at p opt start sp) \<or> (\<exists>start hint. escape_at p opt start hint sp \<and>
        below_limit p opt (pp_s (sp_point sp)) (pp_s_dot (sp_point sp))))"

definition entry_inv :: "path \<Rightarrow> traj_options \<Rightarrow> switching_point option \<Rightarrow> bool" where
  "entry_inv p opt entry \<longleftrightarrow> (\<forall>sp. entry = Some sp \<longrightarrow> switching_point_inv p opt sp)"

definition cache_inv :: "path \<Rightarrow> traj_options \<Rightarrow> switching_point_cache \<Rightarrow> bool" where
  "cache_inv p opt cache \<longleftrightarrow> entry_inv p opt (spc_next_accel cache) \<and> entry_inv p opt (spc_next_vel cache)"

definition ahead :: "arc_length \<Rightarrow> switching_point option \<Rightarrow> bool" where
  "ahead s entry \<longleftrightarrow> (\<forall>sp. entry = Some sp \<longrightarrow> s \<le> pp_s (sp_point sp))"

lemma empty_cache_inv: "cache_inv p opt \<lparr>spc_next_accel = None, spc_next_vel = None\<rparr>"
  by (simp add: cache_inv_def entry_inv_def)

lemma drop_behind_inv:
  assumes "entry_inv p opt entry" "isfinite s"
  shows "entry_inv p opt (drop_behind s entry)" "ahead s (drop_behind s entry)"
proof -
  show "entry_inv p opt (drop_behind s entry)"
    using assms(1) by (auto simp: entry_inv_def drop_behind_def split: option.splits if_splits)
  have "s \<le> y" if "isfinite y" "\<not> y \<le> s" for y
    using that assms(2) by (auto simp: isfinite_iff)
  with assms(1) show "ahead s (drop_behind s entry)"
    by (auto simp: entry_inv_def ahead_def drop_behind_def switching_point_inv_def split: option.splits if_splits)
qed

lemma path_end_ok:
  assumes "path_inv p" "Fin x \<le> path_length p"
  shows "switching_point_inv p opt (path_end_sentinel p)" "Fin x \<le> pp_s (sp_point (path_end_sentinel p))"
  using assms path_length_finite [OF assms(1)] dbl_le_refl
  by (auto simp: switching_point_inv_def path_end_sentinel_def on_path_def)

lemma resolve_entry_inv:
  assumes "entry_inv p opt entry" "ahead s entry" "path_inv p" "s = Fin x" "Fin x \<le> path_length p"
    and search: "\<And>bound sp. search bound = Inr (Some sp) \<Longrightarrow> isfinite bound \<Longrightarrow>
        switching_point_inv p opt sp \<and> s \<le> pp_s (sp_point sp)"
    and other: "entry_inv p opt other"
    and res: "resolve_entry entry other search p = Inr r"
  shows "entry_inv p opt r" "ahead s r"
proof -
  have b: "isfinite (case other of Some sp \<Rightarrow> pp_s (sp_point sp) | None \<Rightarrow> path_length p)"
    using other path_length_finite [OF assms(3)]
    by (auto simp: entry_inv_def switching_point_inv_def split: option.splits)
  have "entry_inv p opt r \<and> ahead s r"
    using assms(1,2) res search b path_end_ok [OF assms(3,5)] assms(4)
    by (auto simp: resolve_entry_def bind_res_eq_Inr Let_def entry_inv_def ahead_def
        split: option.splits if_splits)
  then show "entry_inv p opt r" "ahead s r" by simp_all
qed

lemma resolve_entry_halts:
  assumes "path_inv p" "entry_inv p opt other" "\<And>bound. isfinite bound \<Longrightarrow> halts (search bound)"
  shows "halts (resolve_entry entry other search p)"
proof -
  have b: "isfinite (case other of Some sp \<Rightarrow> pp_s (sp_point sp) | None \<Rightarrow> path_length p)"
    using assms(2) path_length_finite [OF assms(1)]
    by (auto simp: entry_inv_def switching_point_inv_def split: option.splits)
  show ?thesis
    unfolding resolve_entry_def Let_def using assms(3) [OF b] by (auto intro!: halts_intros split: option.splits)
qed

lemma acceleration_search_inv:
  assumes "usable_options opt" "standing p c" "find_acceleration_switching_point c bound opt = Inr (Some sp)"
  shows "switching_point_inv p opt sp \<and> cur_position c \<le> pp_s (sp_point sp)"
  using acceleration_search_result [OF assms] by (auto simp: found_from_def switching_point_inv_def)

lemma velocity_search_inv:
  assumes "usable_options opt" "standing p c" "isfinite bound" "find_velocity_switching_point c bound opt = Inr (Some sp)"
  shows "switching_point_inv p opt sp \<and> cur_position c \<le> pp_s (sp_point sp)"
proof -
  obtain x where x: "cur_position c = Fin x" "0 \<le> x" using standingE [OF assms(2)] by metis
  have on: "escape_at p opt (cur_position c) b sp \<Longrightarrow> on_path p (pp_s (sp_point sp))" for b
    using x by (auto simp: escape_at_def on_path_def intro: dbl_less_imp_le Fin_le_trans)
  from velocity_search_result [OF assms(1,3,2,4)] consider "velocity_jump_at p opt (cur_position c) sp"
    | b where "escape_at p opt (cur_position c) b sp" "below_acceleration_curve c sp opt = Inr True" by blast
  then show ?thesis
  proof cases
    case 1
    moreover from 1 have "on_path p (pp_s (sp_point sp))" "isfinite (pp_s (sp_point sp))" "cur_position c \<le> pp_s (sp_point sp)"
      by (auto simp: velocity_jump_at_def intro: dbl_less_imp_le)
    ultimately show ?thesis unfolding switching_point_inv_def by blast
  next
    case (2 b)
    with on have o: "on_path p (pp_s (sp_point sp))" by blast
    note below_limit_at [OF 2(2) assms(2) o]
    moreover have "isfinite (pp_s (sp_point sp))" "cur_position c \<le> pp_s (sp_point sp)" using 2(1) by (auto simp: escape_at_def)
    ultimately show ?thesis using 2(1) o unfolding switching_point_inv_def by blast
  qed
qed

lemma find_switching_point_inv:
  assumes "usable_options opt" "standing p c" "cache_inv p opt cache"
    "find_switching_point cache c opt = Inr (sp, cache')"
  shows "switching_point_inv p opt sp" "cur_position c \<le> pp_s (sp_point sp)" "cache_inv p opt cache'"
    "ahead (cur_position c) (spc_next_accel cache')" "ahead (cur_position c) (spc_next_vel cache')"
proof -
  obtain x where x: "cur_position c = Fin x" "Fin x \<le> path_length p" "path_inv p" "cur_path c = p"
    using standingE [OF assms(2)] by metis
  define accel0 vel0 where d0: "accel0 = drop_behind (Fin x) (spc_next_accel cache)"
    "vel0 = drop_behind (Fin x) (spc_next_vel cache)"
  obtain accel vel where r: "resolve_entry accel0 vel0 (\<lambda>bound. find_acceleration_switching_point c bound opt) p = Inr accel"
      "resolve_entry vel0 accel (\<lambda>bound. find_velocity_switching_point c bound opt) p = Inr vel"
    and sp: "sp = (case select_switching_point accel vel (to_epsilon opt) of Some sp \<Rightarrow> sp | None \<Rightarrow> path_end_sentinel p)"
      "cache' = \<lparr>spc_next_accel = accel, spc_next_vel = vel\<rparr>"
    using assms(4) x by (auto simp: find_switching_point_def Let_def bind_res_eq_Inr d0)
  have e0: "entry_inv p opt accel0" "ahead (Fin x) accel0" "entry_inv p opt vel0" "ahead (Fin x) vel0"
    using assms(3) by (auto simp: d0 cache_inv_def drop_behind_inv)
  have sa: "find_acceleration_switching_point c bound opt = Inr (Some sp) \<Longrightarrow> isfinite bound \<Longrightarrow>
      switching_point_inv p opt sp \<and> Fin x \<le> pp_s (sp_point sp)" for bound sp
    using acceleration_search_inv [OF assms(1,2)] by (simp add: x(1))
  have sv: "find_velocity_switching_point c bound opt = Inr (Some sp) \<Longrightarrow> isfinite bound \<Longrightarrow>
      switching_point_inv p opt sp \<and> Fin x \<le> pp_s (sp_point sp)" for bound sp
    using velocity_search_inv [OF assms(1,2)] by (simp add: x(1))
  note ra = resolve_entry_inv [OF e0(1,2) x(3) refl x(2) sa e0(3) r(1)]
  note rb = resolve_entry_inv [OF e0(3,4) x(3) refl x(2) sv ra(1) r(2)]
  have "switching_point_inv p opt sp \<and> Fin x \<le> pp_s (sp_point sp)"
    using select_switching_point_cases [of accel vel "to_epsilon opt"] ra rb path_end_ok [OF x(3,2)]
    by (auto simp: sp entry_inv_def ahead_def split: option.splits)
  with ra rb show "switching_point_inv p opt sp" "cur_position c \<le> pp_s (sp_point sp)" "cache_inv p opt cache'"
    "ahead (cur_position c) (spc_next_accel cache')" "ahead (cur_position c) (spc_next_vel cache')"
    by (simp_all add: sp(2) cache_inv_def x(1))
qed

lemma find_switching_point_halts:
  assumes "usable_options opt" "standing p c" "cache_inv p opt cache"
  shows "halts (find_switching_point cache c opt)"
proof -
  obtain x where x: "cur_position c = Fin x" "Fin x \<le> path_length p" "path_inv p" "cur_path c = p"
    using standingE [OF assms(2)] by metis
  have e0: "entry_inv p opt (drop_behind (Fin x) (spc_next_accel cache))" "ahead (Fin x) (drop_behind (Fin x) (spc_next_accel cache))"
      "entry_inv p opt (drop_behind (Fin x) (spc_next_vel cache))"
    using assms(3) by (auto simp: cache_inv_def drop_behind_inv)
  have ev: "evaluator_returns opt" using assms(1) by (simp add: usable_options_def)
  have "entry_inv p opt accel"
    if "resolve_entry (drop_behind (Fin x) (spc_next_accel cache)) (drop_behind (Fin x) (spc_next_vel cache))
      (\<lambda>bound. find_acceleration_switching_point c bound opt) p = Inr accel" for accel
    by (rule resolve_entry_inv(1) [OF e0(1,2) x(3) refl x(2) _ e0(3) that])
      (use acceleration_search_inv [OF assms(1,2)] x(1) in auto)
  then show ?thesis
    unfolding find_switching_point_def Let_def x
    using resolve_entry_halts [OF x(3)] e0(3) acceleration_search_halts [OF ev assms(2)]
      velocity_search_halts [OF assms(1) _ assms(2)]
    by (auto intro!: halts_bind)
qed

section \<open>Where a joint turns inside an arc\<close>

lemma extremum_angle_pi:
  assumes "x \<noteq> 0 \<or> y \<noteq> 0"
  shows "extremum_angle y x = pi \<longleftrightarrow> y = 0 \<and> x < 0"
proof -
  have "arctan (y / x) = 0 \<longleftrightarrow> y = 0 \<or> x = 0" by simp
  then show ?thesis
    using assms arctan_lbound [of "y / x"] arctan_ubound [of "y / x"] pi_gt_zero
    by (auto simp: extremum_angle_def atan2_def Let_def divide_neg_neg)
qed

lemma sin_zero_half_turn:
  assumes "- pi < t" "t \<le> pi"
  shows "sin t = 0 \<longleftrightarrow> t = 0 \<or> t = pi"
proof
  assume z: "sin t = 0"
  show "t = 0 \<or> t = pi"
  proof (rule ccontr)
    assume "\<not> (t = 0 \<or> t = pi)"
    with assms have "0 < t \<and> t < pi \<or> 0 < - t \<and> - t < pi" by auto
    then have "0 < sin t \<or> 0 < sin (- t)" using sin_gt_zero by blast
    with z show False by simp
  qed
qed auto

text \<open>
  The candidate the search computes for a joint in an arc is where that joint turns: for an angle
  in the half-open half turn from 0, the joint's component of the arc's tangent is zero exactly at
  the computed angle, except that for a joint with \<open>y = 0\<close> and \<open>x < 0\<close> it is zero at the start of
  the arc while the computed angle is \<open>\<pi>\<close>.
\<close>

lemma arc_extremum_located:
  assumes "i < length (circ_center arc)" "circ_x arc ! i \<noteq> 0 \<or> circ_y arc ! i \<noteq> 0"
    "0 < circ_radius arc" "0 \<le> angle" "angle < pi"
  shows "segment_tangent (Circular arc) (circ_radius arc * angle) ! i = 0 \<longleftrightarrow>
    angle = extremum_angle (circ_y arc ! i) (circ_x arc ! i) \<or>
    (circ_y arc ! i = 0 \<and> circ_x arc ! i < 0 \<and> angle = 0)"
proof -
  define x y a where d: "x = circ_x arc ! i" "y = circ_y arc ! i" "a = extremum_angle y x"
  have xy: "x \<noteq> 0 \<or> y \<noteq> 0" using assms(2) by (simp add: d)
  note root = extremum_angle_root [OF xy, folded d(3)] and r = extremum_angle_range [of y x, folded d(3)]
    and pi' = extremum_angle_pi [OF xy, folded d(3)]
  have "segment_tangent (Circular arc) (circ_radius arc * angle) ! i = 0 \<longleftrightarrow> y * cos angle = x * sin angle"
    using assms(1,3) by (auto simp: d)
  also have "\<dots> \<longleftrightarrow> sin (a - angle) = 0"
  proof (cases "x = 0")
    case True
    then have "cos a = 0" using root xy by simp
    then have "sin a \<noteq> 0" using sin_cos_squared_add [of a] by auto
    with True xy \<open>cos a = 0\<close> show ?thesis by (simp add: sin_diff)
  next
    case False
    have c: "cos a \<noteq> 0"
    proof
      assume "cos a = 0"
      with root False have "sin a = 0" by simp
      with \<open>cos a = 0\<close> show False using sin_cos_squared_add [of a] by simp
    qed
    have "x * sin (a - angle) = cos a * (y * cos angle - x * sin angle)"
      using root by (simp add: sin_diff algebra_simps)
    with False c show ?thesis by (metis eq_iff_diff_eq_0 mult_eq_0_iff)
  qed
  also have "\<dots> \<longleftrightarrow> a - angle = 0 \<or> a - angle = pi"
    by (rule sin_zero_half_turn) (use assms(4,5) r in auto)
  also have "\<dots> \<longleftrightarrow> angle = a \<or> (y = 0 \<and> x < 0 \<and> angle = 0)"
    using pi' assms(4) r by auto
  finally show ?thesis by (simp add: d)
qed

lemma arc_extremum_located_witness:
  "segment_tangent (Circular \<lparr>circ_center = [0, 0], circ_x = [0, -1], circ_y = [1, 0],
     circ_radius = 2, circ_angle_rads = 1\<rparr>) (2 * 0) ! 1 = 0 \<and> extremum_angle 0 (- 1) = pi"
  using arc_extremum_located [of 1 "\<lparr>circ_center = [0, 0], circ_x = [0, -1], circ_y = [1, 0],
     circ_radius = 2, circ_angle_rads = 1\<rparr>" 0]
  by (simp add: extremum_angle_def atan2_def)

section \<open>Properties of the searches\<close>

text \<open>A straight segment that turns into a quarter circle.\<close>

definition bend_path :: path where
  "bend_path = \<lparr>path_segments =
     [\<lparr>ps_seg = Linear \<lparr>lin_start = [0, 0], lin_unit_direction = [1, 0], lin_length = Fin 1\<rparr>, ps_start = Fin 0\<rparr>,
      \<lparr>ps_seg = Circular \<lparr>circ_center = [1, - (1 / 10)], circ_x = [0, 1], circ_y = [1, 0], circ_radius = 1 / 10,
         circ_angle_rads = pi / 2\<rparr>, ps_start = Fin 1\<rparr>],
     path_dof = 2, path_length = Fin (1 + 1 / 10 * (pi / 2))\<rparr>"

definition bend_options :: traj_options where
  "bend_options = \<lparr>to_max_velocity = [1000, 1000], to_max_acceleration = [1000, 10], to_delta = Fin 2,
     to_epsilon = Fin (pi / 20), to_tcp = None\<rparr>"

definition bend_start :: cursor where
  "bend_start = \<lparr>cur_path = bend_path, cur_position = Fin 0, cur_hint = 0\<rparr>"

lemma bend_standing: "standing bend_path bend_start" "usable_options bend_options"
proof -
  have "path_inv bend_path"
    by (simp add: bend_path_def path_inv_def norm_l2_def)
  then show "standing bend_path bend_start"
    by (simp add: standing_def bend_start_def cursor_inv_def bend_path_def path_size_def on_path_def
        segment_index_def first_after_def upper_bound_def)
  show "usable_options bend_options"
    by (simp add: usable_options_def bend_options_def evaluator_returns_def)
qed

lemma bend_search:
  "\<exists>sp. find_acceleration_switching_point bend_start (Fin 1) bend_options = Inr (Some sp) \<and>
     pp_s (sp_point sp) = Fin 1"
proof -
  let ?v = "\<lparr>view_segment = Linear \<lparr>lin_start = [0, 0], lin_unit_direction = [1, 0], lin_length = Fin 1\<rparr>,
     view_start = Fin 0, view_end = Fin 1\<rparr>"
  let ?w = "\<lparr>view_segment = Circular \<lparr>circ_center = [1, - (1 / 10)], circ_x = [0, 1], circ_y = [1, 0], circ_radius = 1 / 10,
         circ_angle_rads = pi / 2\<rparr>, view_start = Fin 1, view_end = Fin (1 + 1 / 10 * (pi / 2))\<rparr>"
  have pi: "pi < 20" "0 < pi" using pi_less_4 pi_gt_zero by linarith+
  have v: "cursor_deref bend_start = Inr ?v"
    by (simp add: cursor_deref_def bend_start_def deref_def bend_path_def)
  have pos: "\<not> pi \<le> 0" "\<not> 20 + pi / 20 < 0" using pi_gt_zero by linarith+
  note eval = view_limit_curves_def view_tangent_def view_tangent_into_def view_curvature_def
    view_curvature_into_def view_configuration_def view_configuration_into_def view_query_def view_length_def
    view_dof_def require_dof_def compute_limit_curves_def compute_joint_limit_curves_def
    compute_joint_velocity_limit_def joint_limit_step_def compute_acceleration_limit_def acceleration_limit_sq_def
    moving_limit_step_def pair_limit_step_def resting_limit_step_def bend_options_def upt_rec
  have before: "\<exists>b. view_limit_curves ?v (Fin 1) bend_options = Inr b \<and> lc_s_dot_max_acc b = PInf \<and>
      lc_s_dot_max_vel b = Fin 1000"
    using pi by (simp add: eval Let_def)
  have after: "\<exists>b. view_limit_curves ?w (Fin 1) bend_options = Inr b \<and> lc_s_dot_max_acc b = Fin 1 \<and>
      lc_s_dot_max_vel b = Fin 1000"
    using pi by (simp add: eval Let_def not_le)
  obtain b a where b: "view_limit_curves ?v (Fin 1) bend_options = Inr b" "lc_s_dot_max_acc b = PInf"
      "lc_s_dot_max_vel b = Fin 1000"
    and a: "view_limit_curves ?w (Fin 1) bend_options = Inr a" "lc_s_dot_max_acc a = Fin 1"
      "lc_s_dot_max_vel a = Fin 1000"
    using before after by blast
  have seek: "cursor_seek bend_start (Fin 1) = Inr \<lparr>cur_path = bend_path, cur_position = Fin 1, cur_hint = Suc 0\<rparr>"
    using pi by (simp add: cursor_seek_def seek_position_def update_hint_def try_next_hint_def
        try_prev_hint_def deref_def bend_start_def bend_path_def path_size_def view_contains_def cursor_at_end_def
        Let_def not_le)
  have w: "cursor_deref \<lparr>cur_path = bend_path, cur_position = Fin 1, cur_hint = Suc 0\<rparr> = Inr ?w"
    by (simp add: cursor_deref_def deref_def bend_path_def)
  have down: "\<exists>f. step_down_case ?w (Fin 1) (Fin 1) bend_options = Inr (Some (True, f))"
    using pi by (simp add: step_down_case_def half_def eval compute_acceleration_bounds_def
        compute_acceleration_bounds_unchecked_def bounds_step_def Let_def pos min_def)
  then obtain f where "step_down_case ?w (Fin 1) (Fin 1) bend_options = Inr (Some (True, f))" by blast
  then have "\<exists>sp. check_curvature_jump ?v ?w (Fin 1) b a bend_options = Inr (Some sp) \<and> pp_s (sp_point sp) = Fin 1"
    using pi by (simp add: check_curvature_jump_def b a Let_def) (simp add: bend_options_def)
  then obtain sp where sp: "check_curvature_jump ?v ?w (Fin 1) b a bend_options = Inr (Some sp)" "pp_s (sp_point sp) = Fin 1"
    by blast
  have len: "path_length (cur_path bend_start) = Fin (1 + 1 / 10 * (pi / 2))"
    by (simp add: bend_start_def bend_path_def)
  have "acceleration_search_body (Fin 1) bend_options bend_start = Inr (Return (Some sp))"
    using pi by (simp add: acceleration_search_body_def v b a(2,3) a(1) [simplified] seek w sp(1) [simplified] len Let_def not_le)
  with sp(2) show ?thesis
    by (simp add: find_acceleration_switching_point_def loop_flow_unfold [of _ bend_start])
qed

text \<open>
  What the acceleration search returns is a switching point of equation 38 or of an extremum: it
  lies on the path at or after the cursor; it is either inside an arc, on the acceleration curve,
  with both accelerations zero, or at the end of a segment no later than the hint, where the
  curvature limits of the two sides differ, with the lower of the two limits as its velocity and an
  acceleration for the forward pass. The search always returns or throws.
\<close>

lemma acceleration_switching_point_spec:
  assumes "usable_options opt" "standing p c"
  shows "case find_acceleration_switching_point c hint opt of
      Inl e \<Rightarrow> e \<noteq> Diverges
    | Inr None \<Rightarrow> True
    | Inr (Some sp) \<Rightarrow>
        cur_position c \<le> pp_s (sp_point sp) \<and> on_path p (pp_s (sp_point sp)) \<and>
        (\<exists>i. extremum_at p opt i sp \<or> curvature_jump_at p opt hint i sp)"
proof -
  have "halts (find_acceleration_switching_point c hint opt)"
    using acceleration_search_halts [OF _ assms(2)] assms(1) by (simp add: usable_options_def)
  then show ?thesis
    using acceleration_search_result [OF assms, of hint]
    by (auto simp: found_from_def halts_def split: sum.splits option.splits)
qed

lemma acceleration_switching_point_spec_witness:
  "\<exists>sp i. find_acceleration_switching_point bend_start (Fin 1) bend_options = Inr (Some sp) \<and>
     pp_s (sp_point sp) = Fin 1 \<and>
     (extremum_at bend_path bend_options i sp \<or> curvature_jump_at bend_path bend_options (Fin 1) i sp)"
  using acceleration_switching_point_spec [OF bend_standing(2,1), of "Fin 1"] bend_search by auto

text \<open>
  The bisection on the velocity curve resolves every bracket of the coarse scan: a hundred
  halvings are enough for any bracket up to \<open>2^99\<close> tolerances wide, and the switching point it
  returns lies in the bracket and is an escape.
\<close>

lemma escape_refinement_resolves:
  assumes "standing p c" "to_epsilon opt = Fin e" "0 < e" "eb_before b = Fin lo" "eb_after b = Fin hi"
    "0 \<le> lo" "lo < hi" "Fin hi < path_length p" "hi - lo \<le> e * 2 ^ 99" "brackets p opt b"
  shows "case refine_continuous_velocity_switching_point c b opt of
      Inl _ \<Rightarrow> True
    | Inr None \<Rightarrow> False
    | Inr (Some sp) \<Rightarrow> escape_at p opt (Fin lo) (Fin hi) sp"
proof -
  have "refine_continuous_velocity_switching_point c b opt \<noteq> Inr None"
    using refine_bisect_enough [OF assms(9) _ assms(2,3), of c "eb_after_s_dot_max_vel b"] assms(4,5,7)
    by (simp add: refine_continuous_velocity_switching_point_def max_bisection_iterations_def del: refine_bisect.simps)
  moreover have "escape_at p opt (Fin lo) (Fin hi) sp" if "refine_continuous_velocity_switching_point c b opt = Inr (Some sp)" for sp
    by (rule refine_result [OF that assms(1,6)]) (use assms in simp_all)
  ultimately show ?thesis by (auto split: sum.splits option.splits)
qed

text \<open>
  Which of the two entries is next: the earlier one, and of two within the tolerance the slower one; without an entry the end of
  the path.
\<close>

definition selected :: "path \<Rightarrow> epsilon \<Rightarrow> switching_point_cache \<Rightarrow> switching_point \<Rightarrow> bool" where
  "selected p eps cache sp \<longleftrightarrow>
     (if spc_next_accel cache = None \<and> spc_next_vel cache = None then sp = path_end_sentinel p
      else (spc_next_accel cache = Some sp \<or> spc_next_vel cache = Some sp) \<and>
        (\<forall>q. spc_next_accel cache = Some q \<or> spc_next_vel cache = Some q \<longrightarrow> q = sp \<or>
          (if eps_eq eps (pp_s (sp_point q)) (pp_s (sp_point sp)) then \<not> pp_s_dot (sp_point q) < pp_s_dot (sp_point sp)
           else pp_s (sp_point sp) < pp_s (sp_point q))))"

text \<open>An entry that is still ahead of the cursor is kept.\<close>

definition kept_ahead :: "arc_length \<Rightarrow> switching_point option \<Rightarrow> switching_point option \<Rightarrow> bool" where
  "kept_ahead s entry entry' \<longleftrightarrow> (\<forall>q. entry = Some q \<longrightarrow> \<not> pp_s (sp_point q) \<le> s \<longrightarrow> entry' = Some q)"

lemma select_switching_point_selected:
  assumes "entry_inv p opt a" "entry_inv p opt b" "usable_options opt"
  shows "selected p (to_epsilon opt) \<lparr>spc_next_accel = a, spc_next_vel = b\<rparr>
    (case select_switching_point a b (to_epsilon opt) of Some sp \<Rightarrow> sp | None \<Rightarrow> path_end_sentinel p)"
proof (cases a)
  case None
  then show ?thesis by (cases b) (simp_all add: selected_def select_switching_point_def)
next
  case a: (Some x)
  show ?thesis
  proof (cases b)
    case None
    with a show ?thesis by (simp add: selected_def select_switching_point_def)
  next
    case b: (Some y)
    obtain e where e: "to_epsilon opt = Fin e" "0 < e" using usable_optionsE [OF assms(3)] .
    obtain s t where st: "pp_s (sp_point x) = Fin s" "pp_s (sp_point y) = Fin t"
      using assms(1,2) a b by (auto simp: entry_inv_def switching_point_inv_def isfinite_iff)
    have v: "v < w \<Longrightarrow> \<not> w < v" for v w :: dbl by (cases v; cases w) auto
    have g: "\<not> eps_eq (Fin e) (Fin s) (Fin t) \<Longrightarrow> \<not> s < t \<Longrightarrow> t < s" using e(2) by (cases "s = t") auto
    show ?thesis
      unfolding selected_def select_switching_point_def a b
      by (simp only: option.case prod.case st e(1)) (use v g e(2) in \<open>auto simp: st abs_minus_commute\<close>)
  qed
qed

lemma find_switching_point_selects:
  assumes "usable_options opt" "standing p c" "cache_inv p opt cache"
    "find_switching_point cache c opt = Inr (sp, cache')"
  shows "selected p (to_epsilon opt) cache' sp" "kept_ahead (cur_position c) (spc_next_accel cache) (spc_next_accel cache')"
    "kept_ahead (cur_position c) (spc_next_vel cache) (spc_next_vel cache')"
proof -
  have p: "cur_path c = p" using assms(2) by (simp add: standing_def)
  obtain accel vel where r: "resolve_entry (drop_behind (cur_position c) (spc_next_accel cache))
        (drop_behind (cur_position c) (spc_next_vel cache)) (\<lambda>bound. find_acceleration_switching_point c bound opt) p = Inr accel"
      "resolve_entry (drop_behind (cur_position c) (spc_next_vel cache)) accel
        (\<lambda>bound. find_velocity_switching_point c bound opt) p = Inr vel"
    and sp: "sp = (case select_switching_point accel vel (to_epsilon opt) of Some sp \<Rightarrow> sp | None \<Rightarrow> path_end_sentinel p)"
      "cache' = \<lparr>spc_next_accel = accel, spc_next_vel = vel\<rparr>"
    using assms(4) p by (auto simp: find_switching_point_def Let_def bind_res_eq_Inr)
  have "entry_inv p opt accel" "entry_inv p opt vel"
    using find_switching_point_inv(3) [OF assms] by (simp_all add: sp(2) cache_inv_def)
  from select_switching_point_selected [OF this assms(1)] show "selected p (to_epsilon opt) cache' sp" by (simp add: sp)
  show "kept_ahead (cur_position c) (spc_next_accel cache) (spc_next_accel cache')"
    "kept_ahead (cur_position c) (spc_next_vel cache) (spc_next_vel cache')"
    using r by (auto simp: kept_ahead_def sp(2) resolve_entry_def drop_behind_def)
qed

text \<open>
  C35: Finding the next switching point always returns or throws. What it returns lies on the path, not
  behind the cursor, and meets the criterion of its kind, with the velocity the criterion gives: a place inside an arc where a joint
  turns and the acceleration curve dips, a jump of the curvature the steepest braking or acceleration can follow, a jump of the velocity
  limit (at rest where the tangent jumps, on the lower velocity limit where it does not), an escape from the velocity curve below the
  acceleration curve, or the end of the path. It is the earlier of the two entries of the cache and, of two within the tolerance, the
  slower one. The cache keeps only such points, all that were ahead of the cursor, and none behind it.
\<close>

theorem find_switching_point_spec:
  assumes "usable_options opt" "standing p c" "cache_inv p opt cache"
  shows "case find_switching_point cache c opt of
      Inl e \<Rightarrow> e \<noteq> Diverges
    | Inr (sp, cache') \<Rightarrow>
        switching_point_inv p opt sp \<and> cur_position c \<le> pp_s (sp_point sp) \<and> cache_inv p opt cache' \<and>
        selected p (to_epsilon opt) cache' sp \<and>
        ahead (cur_position c) (spc_next_accel cache') \<and> ahead (cur_position c) (spc_next_vel cache') \<and>
        kept_ahead (cur_position c) (spc_next_accel cache) (spc_next_accel cache') \<and>
        kept_ahead (cur_position c) (spc_next_vel cache) (spc_next_vel cache')"
  using find_switching_point_halts [OF assms] find_switching_point_inv [OF assms] find_switching_point_selects [OF assms]
  by (auto simp: halts_def split: sum.splits)

theorem find_switching_point_spec_witness:
  "find_switching_point \<lparr>spc_next_accel = None, spc_next_vel = None\<rparr> bend_start bend_options \<noteq> Inl Diverges"
  using find_switching_point_spec [OF bend_standing(2,1) empty_cache_inv] by (auto split: sum.splits)

end
