(* ===== verification/Switching_Limits.thy ===== *)
theory Switching_Limits
  imports Switching_Criteria
begin

text \<open>
  Where the switching points lie in the phase plane: none is above the limit curves by more than the
  tolerance. The limit curves at a boundary are those of either segment that meets there.
\<close>

section \<open>Points within the limit curves\<close>

definition limits_at :: "path \<Rightarrow> traj_options \<Rightarrow> arc_length \<Rightarrow> limit_curves \<Rightarrow> bool" where
  "limits_at p opt s curves \<longleftrightarrow>
     (\<exists>i v. deref p i = Inr v \<and> view_start v \<le> s \<and> s \<le> view_end v \<and> view_limit_curves v s opt = Inr curves)"

definition under_curves :: "traj_options \<Rightarrow> limit_curves \<Rightarrow> arc_velocity \<Rightarrow> bool" where
  "under_curves opt curves s_dot \<longleftrightarrow> isfinite s_dot \<and>
     \<not> eps_greater (to_epsilon opt) s_dot (lc_s_dot_max_acc curves) \<and>
     \<not> eps_greater (to_epsilon opt) s_dot (lc_s_dot_max_vel curves)"

definition within_limits :: "path \<Rightarrow> traj_options \<Rightarrow> arc_length \<Rightarrow> arc_velocity \<Rightarrow> bool" where
  "within_limits p opt s s_dot \<longleftrightarrow>
     s_dot = 0 \<or> (\<exists>curves. limits_at p opt s curves \<and> under_curves opt curves s_dot)"

text \<open>
  The options \<open>trajectory::create\<close> accepts for a path; and a tolerance below \<open>1 / sqrt dof\<close>, so that a
  unit tangent always has a joint that counts as moving.
\<close>

definition sound_options :: "path \<Rightarrow> traj_options \<Rightarrow> bool" where
  "sound_options p opt \<longleftrightarrow> usable_options opt \<and>
     length (to_max_velocity opt) = path_dof p \<and> length (to_max_acceleration opt) = path_dof p \<and>
     (\<forall>x \<in> set (to_max_velocity opt). 0 \<le> x) \<and> (\<forall>x \<in> set (to_max_acceleration opt). 0 \<le> x) \<and>
     (fin (to_epsilon opt))\<^sup>2 * real (path_dof p) \<le> 1 \<and>
     (\<forall>tcp. to_tcp opt = Some tcp \<longrightarrow> isfinite (tcp_max_linear_speed tcp) \<and> 0 < tcp_max_linear_speed tcp)"

lemma eps_greater_le: "v \<le> a \<Longrightarrow> 0 < e \<Longrightarrow> \<not> eps_greater (Fin e) v a"
  by (cases v; cases a) (auto simp: eps_greater_def wrap_compare_def Let_def)

lemma eps_greater_refl: "0 < e \<Longrightarrow> \<not> eps_greater (Fin e) v v"
  by (cases v) (auto simp: eps_greater_def wrap_compare_def Let_def)

lemma eps_greater_trans: "\<not> eps_greater (Fin e) v a \<Longrightarrow> a \<le> b \<Longrightarrow> 0 < e \<Longrightarrow> \<not> eps_greater (Fin e) v b"
  by (cases v; cases a; cases b) (auto simp: eps_greater_def wrap_compare_def Let_def)

lemma eps_flip: "eps_less (Fin e) a v \<longleftrightarrow> eps_greater (Fin e) v a" if "0 < e"
  using that by (cases v; cases a) (auto simp: eps_less_def eps_greater_def wrap_compare_def Let_def)

lemma eps_flip_le: "eps_le (Fin e) v a \<longleftrightarrow> \<not> eps_greater (Fin e) v a"
  by (simp add: eps_le_def eps_greater_def)

lemma eps_flip_ge: "eps_ge (Fin e) a v \<longleftrightarrow> \<not> eps_greater (Fin e) v a" if "0 < e"
  using eps_flip [OF that] by (simp add: eps_ge_def eps_less_def)

lemma std_min_bounds: "a \<noteq> NaN \<Longrightarrow> b \<noteq> NaN \<Longrightarrow> std_min a b \<le> a" "a \<noteq> NaN \<Longrightarrow> b \<noteq> NaN \<Longrightarrow> std_min a b \<le> b"
  using std_min_le by blast+

lemma sound_optionsE:
  assumes "sound_options p opt"
  obtains e d where "to_epsilon opt = Fin e" "0 < e" "to_delta opt = Fin d" "0 < d" "e\<^sup>2 * real (path_dof p) \<le> 1"
    "usable_options opt"
proof -
  have "usable_options opt" using assms by (simp add: sound_options_def)
  then obtain e d where "to_epsilon opt = Fin e" "0 < e" "to_delta opt = Fin d" "0 < d"
    by (metis usable_optionsE)
  with assms that [of e d] show ?thesis by (simp add: sound_options_def)
qed

lemma within_finite: "within_limits p opt s s_dot \<Longrightarrow> isfinite s_dot"
  by (auto simp: within_limits_def under_curves_def)

lemma within_rest: "within_limits p opt s 0"
  by (simp add: within_limits_def)

section \<open>The curves at a cursor\<close>

lemma moving_joint:
  assumes "norm_l2 q = 1" "e\<^sup>2 * real (length q) \<le> 1" "0 < e"
  shows "\<exists>i < length q. moving e q i"
proof (rule ccontr)
  assume "\<not> ?thesis"
  then have small: "\<bar>q ! i\<bar> < e" if "i < length q" for i using that by (auto simp: moving_def not_le)
  have "q \<noteq> []" using assms(1) by (auto simp: norm_l2_def)
  have "1 = dot q q" using norm_l2_sq [of q] assms(1) by simp
  also have "\<dots> = (\<Sum>i < length q. (q ! i)\<^sup>2)" by (simp add: dot_sum power2_eq_square)
  also have "\<dots> < (\<Sum>i < length q. e\<^sup>2)"
  proof (rule sum_strict_mono)
    fix i assume "i \<in> {..<length q}"
    then have "\<bar>q ! i\<bar>\<^sup>2 < e\<^sup>2" using small by (intro power_strict_mono) simp_all
    then show "(q ! i)\<^sup>2 < e\<^sup>2" by simp
  qed (use \<open>q \<noteq> []\<close> in auto)
  finally show False using assms(2) by (simp add: mult.commute)
qed

lemma view_query_len:
  assumes "view_query visitor v s n = Inr q" "\<And>g d. length (visitor g d) = segment_dof g"
  shows "length q = view_dof v"
  using assms by (auto simp: view_query_def view_dof_def Let_def bind_res_eq_Inr split: if_splits dbl.splits)

lemma segment_vector_length [simp]:
  "length (segment_tangent g d) = segment_dof g" "length (segment_curvature g d) = segment_dof g"
  "length (segment_configuration g d) = segment_dof g"
  by (cases g; simp add: Let_def)+

lemma view_tangent_length: "view_tangent v s = Inr q \<Longrightarrow> length q = view_dof v"
  unfolding view_tangent_def view_tangent_into_def by (erule view_query_len) simp

lemma deref_view:
  assumes "deref p i = Inr v"
  shows "i < path_size p" "view_start v = ps_start (path_segments p ! i)" "view_end v = segment_end p i"
    "view_segment v = ps_seg (path_segments p ! i)"
proof -
  show i: "i < path_size p" using assms by (auto simp: deref_def path_size_def split: if_splits)
  show "view_start v = ps_start (path_segments p ! i)" "view_end v = segment_end p i"
    "view_segment v = ps_seg (path_segments p ! i)"
    using assms by (auto simp: deref_in_range [OF i])
qed

lemma view_dof_path: "path_inv p \<Longrightarrow> deref p i = Inr v \<Longrightarrow> view_dof v = path_dof p"
  using deref_view [of p i v] segment_dof_inv nth_mem [of i "path_segments p"]
  by (force simp: view_dof_def path_inv_def path_size_def)

text \<open>A cursor whose geometry can be read stands on the path, and reads it from the segment it is on.\<close>

lemma cursor_reads:
  assumes "cursor_inv c" "cursor_tangent c = Inr q"
  shows "standing (cur_path c) c"
  using assms by (auto simp: standing_def cursor_tangent_def cursor_query_def cursor_at_end_def split: if_splits)

lemma cursor_views:
  assumes "standing p c" "cursor_deref c = Inr v"
  shows "cursor_tangent c = view_tangent v (cur_position c)" "cursor_curvature c = view_curvature v (cur_position c)"
    "cursor_configuration c = view_configuration v (cur_position c)"
    "\<exists>q. view_configuration v (cur_position c) = Inr q" "\<exists>q. view_tangent v (cur_position c) = Inr q"
    "\<exists>q. view_curvature v (cur_position c) = Inr q"
proof -
  obtain x where x: "cur_position c = Fin x" "0 \<le> x" "Fin x \<le> path_length p" "cur_hint c = segment_index p (Fin x)"
    "path_inv p" "cur_path c = p" using standingE [OF assms(1)] .
  have inv: "cursor_inv c" "\<not> cursor_at_end c" using assms(1) by (auto simp: standing_def cursor_at_end_def)
  note b = segment_index_bounds [OF x(5,2,3)]
  have "\<not> path_length p < Fin x" using x(3) by (cases "path_length p") auto
  then have "path_at p (Fin x) = Inr v"
    using b(1) x assms(2) by (simp add: path_at_def path_inv_def cursor_deref_def)
  then have "path_tangent p (Fin x) = view_tangent v (Fin x)" "path_curvature p (Fin x) = view_curvature v (Fin x)"
    "path_configuration p (Fin x) = view_configuration v (Fin x)"
    by (simp_all add: path_tangent_def path_curvature_def path_configuration_def)
  moreover note cursor_query_path [OF inv, of Tangent] cursor_query_path [OF inv, of Curvature]
    cursor_query_path [OF inv, of Configuration] path_query_result [OF x(5,2,3)]
  ultimately show "cursor_tangent c = view_tangent v (cur_position c)" "cursor_curvature c = view_curvature v (cur_position c)"
    "cursor_configuration c = view_configuration v (cur_position c)"
    "\<exists>q. view_configuration v (cur_position c) = Inr q" "\<exists>q. view_tangent v (cur_position c) = Inr q"
    "\<exists>q. view_curvature v (cur_position c) = Inr q"
    using x by auto
qed

lemma standing_deref:
  assumes "standing p c"
  obtains v where "cursor_deref c = Inr v"
  using assms by (auto simp: standing_def cursor_inv_def cursor_deref_def deref_in_range)

lemma cursor_curves_view:
  assumes "standing p c" "cursor_deref c = Inr v"
  shows "cursor_limit_curves c opt = view_limit_curves v (cur_position c) opt"
proof -
  note v = cursor_views [OF assms]
  obtain q q' q'' where q: "view_configuration v (cur_position c) = Inr q" "view_tangent v (cur_position c) = Inr q'"
    "view_curvature v (cur_position c) = Inr q''" using v(4-6) by blast
  show ?thesis
    by (simp add: cursor_limit_curves_def view_limit_curves_def v(1-3) q compute_limit_curves_def Let_def
        split: option.splits)
qed

lemma view_limits_at:
  assumes "deref p i = Inr v" "view_start v \<le> s" "s \<le> view_end v" "view_limit_curves v s opt = Inr curves"
  shows "limits_at p opt s curves"
  using assms by (auto simp: limits_at_def)

lemma cursor_limits_at:
  assumes "standing p c" "cursor_limit_curves c opt = Inr curves"
  shows "limits_at p opt (cur_position c) curves"
proof -
  obtain v where v: "cursor_deref c = Inr v" using standing_deref [OF assms(1)] .
  note s = standing_view [OF assms(1) v]
  have "deref p (cur_hint c) = Inr v" using v assms(1) by (simp add: cursor_deref_def standing_def)
  then show ?thesis
    by (rule view_limits_at [OF _ s(5,6)]) (use assms cursor_curves_view [OF assms(1) v] in simp)
qed

text \<open>The step over the end of a segment.\<close>

lemma boundary_step:
  assumes "standing p c" "cursor_deref c = Inr v" "view_end v < path_length p"
    "cursor_seek c (view_end v) = Inr c'"
  shows "standing p c'" "cur_position c' = view_end v" "deref p (cur_hint c) = Inr v"
    "cursor_deref c' = Inr v' \<Longrightarrow> deref p (cur_hint c') = Inr v'"
    "cursor_deref c' = Inr v' \<Longrightarrow> view_limit_curves v' (view_end v) opt = Inr curves \<Longrightarrow>
      limits_at p opt (view_end v) curves"
proof -
  note sv = standing_view [OF assms(1,2)]
  have p: "path_inv p" "cur_path c = p" using assms(1) by (auto simp: standing_def cursor_inv_def)
  note e = segment_end_next [OF p(1) sv(4) assms(3) [unfolded sv(2)]]
  note s = standing_seek [OF assms(1) assms(4) [unfolded sv(2)] e(2)]
  show s': "standing p c'" "cur_position c' = view_end v" using s sv(2) by simp_all
  show "deref p (cur_hint c) = Inr v" using assms(2) p(2) by (simp add: cursor_deref_def)
  show "cursor_deref c' = Inr v' \<Longrightarrow> deref p (cur_hint c') = Inr v'" using s(1) by (simp add: cursor_deref_def standing_def)
  show "limits_at p opt (view_end v) curves"
    if "cursor_deref c' = Inr v'" "view_limit_curves v' (view_end v) opt = Inr curves"
    using cursor_limits_at [OF s'(1), of opt curves] cursor_curves_view [OF s'(1) that(1), of opt] that(2) s'(2) by simp
qed

lemma within_limitsI:
  "limits_at p opt s curves \<Longrightarrow> under_curves opt curves s_dot \<Longrightarrow> within_limits p opt s s_dot"
  by (auto simp: within_limits_def)

text \<open>The curves are never \<open>NaN\<close>.\<close>

lemma acceleration_limit_nonneg:
  assumes "0 < e" "length q_prime \<le> length m" "\<forall>x \<in> set m. 0 \<le> x"
  shows "0 \<le> compute_acceleration_limit q_prime q_double_prime m (Fin e)"
proof -
  have "\<forall>i < length q_prime. 0 \<le> m ! i" using assms(2,3) by simp
  from acceleration_limit_correct [OF assms(1) this order_refl, of q_double_prime] this
  show ?thesis by (auto simp: pair_ok_def resting_ok_def Let_def budget_def)
qed

lemma joint_limit_finite:
  assumes "0 < e" "e\<^sup>2 * real (length q_prime) \<le> 1" "norm_l2 q_prime = 1" "length m = length q_prime" "\<forall>x \<in> set m. 0 \<le> x"
    "compute_joint_velocity_limit q_prime q_double_prime m (Fin e) = (l, j)"
  shows "isfinite l" "0 \<le> l"
proof -
  note lim = joint_velocity_limit_correct [OF assms(1,6)]
  obtain i where i: "i < length q_prime" "moving e q_prime i" using moving_joint [OF assms(3,2,1)] by blast
  define x where "x = m ! i / \<bar>q_prime ! i\<bar> + 1"
  have "0 < \<bar>q_prime ! i\<bar>" using i(2) assms(1) by (simp add: moving_def)
  then have "m ! i < \<bar>q_prime ! i\<bar> * x" by (simp add: x_def algebra_simps)
  then have "\<not> Fin x \<le> l" using lim(1) [of x] i by auto
  with lim(2) show "isfinite l" by auto
  have "m ! k \<in> set m" if "k < length q_prime" for k using that assms(4) by simp
  with lim(1) [of 0] assms(5) show "0 \<le> l" by simp
qed

text \<open>Where the tangent is of length one the curves are numbers, and the velocity curve is finite.\<close>

definition proper_curves :: "limit_curves \<Rightarrow> bool" where
  "proper_curves curves \<longleftrightarrow> 0 \<le> lc_s_dot_max_acc curves \<and> isfinite (lc_s_dot_max_vel curves) \<and> 0 \<le> lc_s_dot_max_vel curves"

lemma proper_curvesD:
  assumes "proper_curves curves"
  shows "lc_s_dot_max_acc curves \<noteq> NaN" "lc_s_dot_max_vel curves \<noteq> NaN" "isfinite (lc_s_dot_max_vel curves)"
  using assms by (cases "lc_s_dot_max_acc curves"; cases "lc_s_dot_max_vel curves"; simp add: proper_curves_def)+

lemma limit_curves_proper:
  assumes "sound_options p opt" "length q_prime = path_dof p" "norm_l2 q_prime = 1"
    "compute_limit_curves q q_prime q_double_prime opt = Inr curves"
  shows "proper_curves curves"
proof -
  obtain e where e: "to_epsilon opt = Fin e" "0 < e" "e\<^sup>2 * real (path_dof p) \<le> 1"
    using sound_optionsE [OF assms(1)] by metis
  let ?a = "compute_acceleration_limit q_prime q_double_prime (to_max_acceleration opt) (to_epsilon opt)"
  obtain l j where l: "compute_joint_velocity_limit q_prime q_double_prime (to_max_velocity opt) (to_epsilon opt) = (l, j)"
    by (cases "compute_joint_velocity_limit q_prime q_double_prime (to_max_velocity opt) (to_epsilon opt)")
  have a: "0 \<le> ?a" using acceleration_limit_nonneg [OF e(2)] assms(1,2) e(1) by (simp add: sound_options_def)
  have jl: "isfinite l" "0 \<le> l"
    using joint_limit_finite [OF e(2), of q_prime "to_max_velocity opt"] assms(1-3) e(1,3) l by (auto simp: sound_options_def)
  show ?thesis
  proof (cases "to_tcp opt")
    case None
    with assms(4) l a jl show ?thesis by (auto simp: compute_limit_curves_def compute_joint_limit_curves_def proper_curves_def)
  next
    case (Some tcp)
    then obtain m r where m: "compute_tcp_velocity_limit q q_prime q_double_prime tcp (to_epsilon opt) = Inr (m, r)"
      and v: "lc_s_dot_max_vel curves = std_min l m" "lc_s_dot_max_acc curves = ?a"
      using assms(4) l by (auto simp: compute_limit_curves_def compute_joint_limit_curves_def Let_def bind_res_eq_Inr)
    obtain x where x: "tcp_max_linear_speed tcp = Fin x" "0 < x"
      using assms(1) Some by (auto simp: sound_options_def isfinite_iff)
    have "m = PInf \<or> (\<exists>y. m = Fin y \<and> 0 \<le> y)"
      using m x e by (auto simp: compute_tcp_velocity_limit_def bind_res_eq_Inr isfinite_iff split: option.splits if_splits)
    with jl a v show ?thesis by (auto simp: proper_curves_def isfinite_iff)
  qed
qed

lemma view_tangent_unit:
  assumes "path_inv p" "deref p i = Inr v" "view_tangent v s = Inr q"
  shows "norm_l2 q = 1" "length q = path_dof p"
proof -
  note d = deref_view [OF assms(2)]
  have "segment_inv (path_dof p) (view_segment v)"
    using assms(1) d(1) by (simp add: d(4) path_inv_def path_size_def)
  from unit_tangent [OF this] show "norm_l2 q = 1"
    using assms(3) by (auto simp: view_tangent_def view_tangent_into_def view_query_def Let_def bind_res_eq_Inr
        split: if_splits dbl.splits)
  show "length q = path_dof p" using view_tangent_length [OF assms(3)] view_dof_path [OF assms(1,2)] by simp
qed

lemma view_limit_curves_proper:
  assumes "sound_options p opt" "path_inv p" "deref p i = Inr v" "view_limit_curves v s opt = Inr curves"
  shows "proper_curves curves"
proof -
  obtain q q' q'' where q: "view_tangent v s = Inr q'" "compute_limit_curves q q' q'' opt = Inr curves"
    using assms(4) by (auto simp: view_limit_curves_def bind_res_eq_Inr)
  from limit_curves_proper [OF assms(1) view_tangent_unit(2,1) [OF assms(2,3) q(1)] q(2)] show ?thesis .
qed

lemma cursor_curves_proper:
  assumes "sound_options p opt" "standing p c" "cursor_limit_curves c opt = Inr curves"
  shows "proper_curves curves"
proof -
  obtain v where v: "cursor_deref c = Inr v" using standing_deref [OF assms(2)] .
  have "path_inv p" "deref p (cur_hint c) = Inr v"
    using v assms(2) by (auto simp: cursor_deref_def standing_def cursor_inv_def)
  from view_limit_curves_proper [OF assms(1) this] show ?thesis
    using cursor_curves_view [OF assms(2) v] assms(3) by simp
qed

section \<open>Finite accelerations\<close>

lemma unchecked_bounds_finite:
  assumes "sound_options p opt" "norm_l2 q_prime = 1" "length q_prime = path_dof p" "isfinite v"
    "compute_acceleration_bounds_unchecked q_prime q_double_prime v (to_max_acceleration opt) (to_epsilon opt) = b"
  shows "isfinite (ab_s_ddot_min b)" "isfinite (ab_s_ddot_max b)"
proof -
  obtain e where e: "to_epsilon opt = Fin e" "0 < e" "e\<^sup>2 * real (path_dof p) \<le> 1"
    using sound_optionsE [OF assms(1)] by metis
  obtain i where i: "i < length q_prime" "moving e q_prime i"
    using moving_joint [OF assms(2) _ e(2)] e(3) assms(3) by auto
  obtain w where w: "v = Fin w" using assms(4) by (auto simp: isfinite_iff)
  note c = bounds_unchecked_correct [OF e(2), of q_prime q_double_prime w "to_max_acceleration opt" b]
  define l h where "l = - (to_max_acceleration opt ! i) / \<bar>q_prime ! i\<bar> - q_double_prime ! i * (w * w) / q_prime ! i"
    and "h = to_max_acceleration opt ! i / \<bar>q_prime ! i\<bar> - q_double_prime ! i * (w * w) / q_prime ! i"
  have "\<not> ab_s_ddot_min b \<le> Fin (l - 1)" "\<not> Fin (h + 1) \<le> ab_s_ddot_max b"
    using c(3,4) assms(5) i e(1) w by (fastforce simp: l_def h_def)+
  with c(1,2) assms(5) e(1) w show "isfinite (ab_s_ddot_min b)" "isfinite (ab_s_ddot_max b)" by auto
qed

lemma checked_bounds_cases:
  "compute_acceleration_bounds q_prime q_double_prime v m eps = Inr b \<Longrightarrow>
     b = compute_acceleration_bounds_unchecked q_prime q_double_prime v m eps \<or>
     (let u = compute_acceleration_bounds_unchecked q_prime q_double_prime v m eps;
          w = std_min (ab_s_ddot_min u) (ab_s_ddot_max u)
      in b = \<lparr>ab_s_ddot_min = w, ab_s_ddot_max = w\<rparr>)"
  by (auto simp: compute_acceleration_bounds_def Let_def split: if_splits)

lemma checked_bounds_finite:
  assumes "sound_options p opt" "norm_l2 q_prime = 1" "length q_prime = path_dof p" "isfinite v"
    "compute_acceleration_bounds q_prime q_double_prime v (to_max_acceleration opt) (to_epsilon opt) = Inr b"
  shows "isfinite (ab_s_ddot_min b)" "isfinite (ab_s_ddot_max b)"
  using checked_bounds_cases [OF assms(5)] unchecked_bounds_finite [OF assms(1-4) refl, of q_double_prime]
  by (auto simp: Let_def std_min_def)

text \<open>At an infinite velocity the bounds are not numbers the slope of a trajectory can be read from.\<close>

lemma infinite_bounds_step:
  "\<not> isfinite (ab_s_ddot_min b) \<Longrightarrow> \<not> isfinite (ab_s_ddot_max b) \<Longrightarrow> 0 < e \<Longrightarrow>
    \<not> isfinite (ab_s_ddot_min (bounds_step q_prime q_double_prime PInf m (Fin e) i b)) \<and>
    \<not> isfinite (ab_s_ddot_max (bounds_step q_prime q_double_prime PInf m (Fin e) i b))"
  by (auto simp: bounds_step_def Let_def inf_sgn_def std_max_def std_min_def)

lemma infinite_bounds:
  assumes "compute_acceleration_bounds q_prime q_double_prime PInf m (Fin e) = Inr b" "0 < e"
  shows "divide (ab_s_ddot_min b) PInf = NaN" "divide (ab_s_ddot_max b) PInf = NaN"
proof -
  let ?u = "compute_acceleration_bounds_unchecked q_prime q_double_prime PInf m (Fin e)"
  have "\<not> isfinite (ab_s_ddot_min (fold (bounds_step q_prime q_double_prime PInf m (Fin e)) is b)) \<and>
      \<not> isfinite (ab_s_ddot_max (fold (bounds_step q_prime q_double_prime PInf m (Fin e)) is b))"
    if "\<not> isfinite (ab_s_ddot_min b)" "\<not> isfinite (ab_s_ddot_max b)" for "is" b
    using that infinite_bounds_step [OF _ _ assms(2)] by (induction "is" arbitrary: b) auto
  then have "\<not> isfinite (ab_s_ddot_min ?u)" "\<not> isfinite (ab_s_ddot_max ?u)"
    by (simp_all add: compute_acceleration_bounds_unchecked_def)
  then have "\<not> isfinite (ab_s_ddot_min b)" "\<not> isfinite (ab_s_ddot_max b)"
    using checked_bounds_cases [OF assms(1)] by (auto simp: Let_def std_min_def split: if_splits)
  then show "divide (ab_s_ddot_min b) PInf = NaN" "divide (ab_s_ddot_max b) PInf = NaN"
    by (cases "ab_s_ddot_min b"; cases "ab_s_ddot_max b"; simp)+
qed

text \<open>So the acceleration that leaves a jump of the curvature is finite.\<close>

lemma step_case_finite:
  assumes "sound_options p opt" "path_inv p" "deref p i = Inr v"
  shows "step_up_case v s acc opt = Inr (Some (True, forward)) \<Longrightarrow> isfinite forward"
    "step_down_case v s acc opt = Inr (Some (True, forward)) \<Longrightarrow> isfinite forward"
proof -
  obtain e where e: "to_epsilon opt = Fin e" "0 < e" using sound_optionsE [OF assms(1)] by metis
  have fin: "isfinite (ab_s_ddot_max b)"
    if t: "view_tangent v r = Inr q'"
      and b: "compute_acceleration_bounds q' q'' a (to_max_acceleration opt) (to_epsilon opt) = Inr b"
      and a: "a = compute_acceleration_limit q' q'' (to_max_acceleration opt) (to_epsilon opt)"
      and d: "divide (ab_s_ddot_min b) a \<noteq> NaN \<or> divide (ab_s_ddot_max b) a \<noteq> NaN" for r q' q'' a b
  proof -
    note u = view_tangent_unit [OF assms(2,3) t]
    have "0 \<le> a"
      unfolding a e(1) by (rule acceleration_limit_nonneg [OF e(2)]) (use assms(1) u(2) in \<open>simp_all add: sound_options_def\<close>)
    moreover have "a \<noteq> PInf" using infinite_bounds [of q' q'' _ e b] b d e by auto
    ultimately have "isfinite a" by (cases a) simp_all
    from checked_bounds_finite [OF assms(1) u this b] show ?thesis by simp
  qed
  have le: "x \<le> y \<Longrightarrow> x \<noteq> NaN \<and> y \<noteq> NaN" for x y :: dbl by (cases x; cases y) auto
  show "step_up_case v s acc opt = Inr (Some (True, forward)) \<Longrightarrow> isfinite forward"
    by (auto simp: step_up_case_def bind_res_eq_Inr Let_def split: if_splits dest!: le intro!: fin)
  show "step_down_case v s acc opt = Inr (Some (True, forward)) \<Longrightarrow> isfinite forward"
    by (auto simp: step_down_case_def bind_res_eq_Inr Let_def split: if_splits dest!: le intro!: fin)
qed

lemma curvature_jump_finite:
  assumes "check_curvature_jump v v' s before after opt = Inr (Some sp)" "sp_forward_accel sp = Some a"
    "sound_options p opt" "path_inv p" "deref p i = Inr v" "deref p j = Inr v'"
  shows "isfinite a"
proof -
  let ?up = "step_up_case v s (lc_s_dot_max_acc before) opt" and ?down = "step_down_case v' s (lc_s_dot_max_acc after) opt"
  define branch where "branch =
    (if lc_s_dot_max_acc before < lc_s_dot_max_acc after then ?up
     else if lc_s_dot_max_acc after < lc_s_dot_max_acc before then ?down else Inr None)"
  obtain verdict where "branch = Inr verdict"
    and c: "(case verdict of
             Some (True, forward) \<Rightarrow>
               if eps_le (to_epsilon opt) (std_min (lc_s_dot_max_acc before) (lc_s_dot_max_acc after))
                    (std_min (lc_s_dot_max_vel before) (lc_s_dot_max_vel after))
               then Inr (Some
                 \<lparr>sp_point = \<lparr>pp_s = s, pp_s_dot = std_min (lc_s_dot_max_acc before) (lc_s_dot_max_acc after)\<rparr>,
                  sp_kind = K_discontinuous_curvature,
                  sp_forward_accel = Some forward, sp_backward_accel = None\<rparr>)
               else Inr None
           | _ \<Rightarrow> Inr None) = (Inr (Some sp) :: switching_point option res)"
    using assms(1) unfolding check_curvature_jump_def Let_def branch_def [symmetric] bind_res_eq_Inr by blast
  then have "branch = Inr (Some (True, a))"
    using assms(2) by (auto split: if_split_asm option.split_asm prod.split_asm bool.split_asm)
  then have "?up = Inr (Some (True, a)) \<or> ?down = Inr (Some (True, a))" by (auto simp: branch_def split: if_split_asm)
  then show ?thesis using step_case_finite(1) [OF assms(3-5)] step_case_finite(2) [OF assms(3,4,6)] by blast
qed

section \<open>Acceleration switching points\<close>

lemma first_extremum_curves:
  assumes "first_extremum c v opt ss = Inr (Some sp)" "sound_options p opt" "path_inv p" "deref p i = Inr v"
  shows "\<exists>curves. view_limit_curves v (pp_s (sp_point sp)) opt = Inr curves \<and> under_curves opt curves (pp_s_dot (sp_point sp))"
    "sp_forward_accel sp = Some 0" "sp_backward_accel sp = Some 0"
proof -
  obtain e where e: "to_epsilon opt = Fin e" "0 < e" using sound_optionsE [OF assms(2)] by metis
  let ?s = "pp_s (sp_point sp)"
  have "check_extremum c v opt ?s = Inr (Some sp)" using first_extremum_result [OF assms(1)] by blast
  then obtain curves a where sp: "sp = \<lparr>sp_point = \<lparr>pp_s = ?s, pp_s_dot = lc_s_dot_max_acc curves\<rparr>,
      sp_kind = K_nondifferentiable_extremum, sp_forward_accel = Some 0, sp_backward_accel = Some 0\<rparr>"
    and k: "view_limit_curves v ?s opt = Inr curves" "lc_s_dot_max_acc curves < a"
      "\<not> eps_less (Fin e) (lc_s_dot_max_vel curves) (lc_s_dot_max_acc curves)"
    by (rule check_extremum_result) (unfold e(1), blast)
  have "0 \<le> lc_s_dot_max_acc curves"
    using view_limit_curves_proper [OF assms(2-4) k(1)] by (simp add: proper_curves_def)
  then have "isfinite (lc_s_dot_max_acc curves)"
    using k(2) by (cases "lc_s_dot_max_acc curves"; cases a) simp_all
  then have "under_curves opt curves (lc_s_dot_max_acc curves)"
    using e k(3) by (auto simp: under_curves_def eps_flip eps_greater_refl)
  moreover have "pp_s_dot (sp_point sp) = lc_s_dot_max_acc curves" by (subst sp) simp
  ultimately show "\<exists>curves. view_limit_curves v ?s opt = Inr curves \<and> under_curves opt curves (pp_s_dot (sp_point sp))"
    using k(1) by auto
  show "sp_forward_accel sp = Some 0" "sp_backward_accel sp = Some 0" by (subst sp, simp)+
qed

definition sp_within :: "path \<Rightarrow> traj_options \<Rightarrow> switching_point \<Rightarrow> bool" where
  "sp_within p opt sp \<longleftrightarrow> within_limits p opt (pp_s (sp_point sp)) (pp_s_dot (sp_point sp)) \<and>
     (\<forall>a. sp_forward_accel sp = Some a \<or> sp_backward_accel sp = Some a \<longrightarrow> isfinite a)"

lemma extremum_within:
  assumes "standing p c" "cursor_deref c = Inr v" "view_segment v = Circular arc"
    "first_extremum c v opt (candidate_extrema c v arc) = Inr (Some sp)" "sound_options p opt"
  shows "sp_within p opt sp"
proof -
  obtain x where x: "cur_position c = Fin x" "path_inv p" "cur_path c = p" using assms(1) standingE by metis
  note sv = standing_view [OF assms(1,2)] 
  have arc: "ps_seg (path_segments p ! cur_hint c) = Circular arc" using assms(3) sv(3) by simp
  note r = candidate_range [OF x(2) sv(4) arc sv(1) conjunct1 [OF first_extremum_result [OF assms(4)]]]
  have d: "deref p (cur_hint c) = Inr v" using assms(2) x(3) by (simp add: cursor_deref_def)
  obtain curves where curves: "view_limit_curves v (pp_s (sp_point sp)) opt = Inr curves"
      "under_curves opt curves (pp_s_dot (sp_point sp))"
    using first_extremum_curves(1) [OF assms(4,5) x(2) d] by blast
  have "within_limits p opt (pp_s (sp_point sp)) (pp_s_dot (sp_point sp))"
    by (rule within_limitsI [OF view_limits_at [OF d _ _ curves(1)] curves(2)]) (use r x(1) sv(1,2) in simp_all)
  with first_extremum_curves(2,3) [OF assms(4,5) x(2) d] show ?thesis by (auto simp: sp_within_def)
qed

lemma curvature_jump_velocity:
  assumes "check_curvature_jump v v' s before after opt = Inr (Some sp)"
  shows "eps_le (to_epsilon opt) (std_min (lc_s_dot_max_acc before) (lc_s_dot_max_acc after))
    (std_min (lc_s_dot_max_vel before) (lc_s_dot_max_vel after))"
  using assms by (auto simp: check_curvature_jump_def bind_res_eq_Inr Let_def
      split: if_splits option.splits prod.splits bool.splits)

lemma acceleration_within_step:
  assumes "sound_options p opt" "standing p c" "acceleration_search_body hint opt c = Inr (Return (Some sp))"
  shows "sp_within p opt sp"
proof -
  obtain e where e: "to_epsilon opt = Fin e" "0 < e"
    using usable_optionsE assms(1) by (metis sound_options_def)
  obtain x where x: "cur_position c = Fin x" "path_inv p" "cur_path c = p" using assms(2) standingE by metis
  show ?thesis
    using assms(3)
  proof (cases rule: acceleration_bodyE)
    case 1
    with extremum_within [OF assms(2)] assms(1) show ?thesis by blast
  next
    case w: (2 v before c' v' after forward)
    have fin: "view_end v \<noteq> NaN" using standing_view(6) [OF assms(2) w(1)] x(1) by auto
    obtain len where len: "path_length p = Fin len" using path_length_finite [OF x(2)] by blast
    have lt: "view_end v < path_length p" using w(2) fin len x(3) by (simp add: dbl_not_le)
    note s = boundary_step [OF assms(2) w(1) lt w(5)]
    note s(5) [OF w(6,7)]
    moreover have "under_curves opt after (std_min (lc_s_dot_max_acc before) (lc_s_dot_max_acc after))"
    proof -
      let ?am = "std_min (lc_s_dot_max_acc before) (lc_s_dot_max_acc after)"
        and ?vm = "std_min (lc_s_dot_max_vel before) (lc_s_dot_max_vel after)"
      note pb = view_limit_curves_proper [OF assms(1) x(2) s(3) w(4)]
      note pa = view_limit_curves_proper [OF assms(1) x(2) s(4) [OF w(6)] w(7)]
      note nb = proper_curvesD [OF pb] and na = proper_curvesD [OF pa]
      have "\<not> eps_greater (Fin e) ?am ?vm"
        using curvature_jump_velocity [OF w(10)] by (simp add: e(1) eps_flip_le)
      then have "\<not> eps_greater (Fin e) ?am (lc_s_dot_max_vel after)"
        by (rule eps_greater_trans [OF _ std_min_bounds(2) [OF nb(2) na(2)] e(2)])
      moreover have "\<not> eps_greater (Fin e) ?am (lc_s_dot_max_acc after)"
        by (rule eps_greater_le [OF std_min_bounds(2) [OF nb(1) na(1)] e(2)])
      moreover have "isfinite ?am"
        using w(8) pa pb by (cases "lc_s_dot_max_acc before"; cases "lc_s_dot_max_acc after") (auto simp: proper_curves_def)
      ultimately show ?thesis by (simp add: under_curves_def e(1))
    qed
    moreover have "\<forall>a. sp_forward_accel sp = Some a \<longrightarrow> isfinite a"
      using curvature_jump_finite [OF w(10) _ assms(1) x(2) s(3) s(4) [OF w(6)]] by blast
    ultimately show ?thesis using w(9) by (auto simp: sp_within_def intro: within_limitsI)
  qed
qed

lemma acceleration_search_within:
  assumes "sound_options p opt" "standing p c" "find_acceleration_switching_point c hint opt = Inr (Some sp)"
  shows "sp_within p opt sp"
proof -
  have "case Some sp of None \<Rightarrow> True | Some q \<Rightarrow> sp_within p opt q"
    by (rule loop_flow_invariant [OF assms(3) [unfolded find_acceleration_switching_point_def], of "standing p"])
      (use assms(2) acceleration_walk(1) acceleration_within_step [OF assms(1)] in
        \<open>auto split: option.split\<close>)
  then show ?thesis by simp
qed

section \<open>Velocity switching points\<close>

lemma check_velocity_jump_limits:
  assumes "check_velocity_jump p s v v' qb qa opt = Inr (Some sp)"
  obtains q qd qd' before after where "path_configuration p s = Inr q" "view_curvature v' s = Inr qd"
    "compute_limit_curves q qa qd opt = Inr after" "compute_limit_curves q qb qd' opt = Inr before"
    "sp = velocity_switch K_discontinuous_velocity_limit s (std_min (lc_s_dot_max_vel before) (lc_s_dot_max_vel after))"
    "eps_ge (to_epsilon opt) (std_min (lc_s_dot_max_acc before) (lc_s_dot_max_acc after))
       (std_min (lc_s_dot_max_vel before) (lc_s_dot_max_vel after))"
  using assms by (auto simp: check_velocity_jump_def bind_res_eq_Inr Let_def split: if_splits)

lemma velocity_jump_within_step:
  assumes "sound_options p opt" "standing p c" "cur_path start = p"
    "velocity_jump_body start hint opt (c, lb) = Inr (Return (Some sp))"
  shows "sp_within p opt sp"
proof -
  obtain e where e: "to_epsilon opt = Fin e" "0 < e"
    using usable_optionsE assms(1) by (metis sound_options_def)
  obtain v c' v' qb qa where v: "cursor_deref c = Inr v" "view_tangent v (view_end v) = Inr qb"
      "cursor_seek c (view_end v) = Inr c'" "cursor_deref c' = Inr v'" "view_tangent v' (view_end v) = Inr qa"
      "\<not> eps_ge (Fin e) (view_end v) (path_length p)"
      "sp = velocity_switch K_discontinuous_velocity_limit (view_end v) 0 \<or>
       check_velocity_jump p (view_end v) v v' qb qa opt = Inr (Some sp)"
    using assms(3,4) e
    by (auto simp: velocity_jump_body_def bind_res_eq_Inr Let_def split: option.splits if_splits)
  show ?thesis
    using v(7)
  proof
    assume "check_velocity_jump p (view_end v) v v' qb qa opt = Inr (Some sp)"
    then obtain q qd qd' before after where k: "path_configuration p (view_end v) = Inr q" "view_curvature v' (view_end v) = Inr qd"
        "compute_limit_curves q qa qd opt = Inr after" "compute_limit_curves q qb qd' opt = Inr before"
        "sp = velocity_switch K_discontinuous_velocity_limit (view_end v)
           (std_min (lc_s_dot_max_vel before) (lc_s_dot_max_vel after))"
        "eps_ge (to_epsilon opt) (std_min (lc_s_dot_max_acc before) (lc_s_dot_max_acc after))
           (std_min (lc_s_dot_max_vel before) (lc_s_dot_max_vel after))"
      by (rule check_velocity_jump_limits)
    obtain x where x: "cur_position c = Fin x" "path_inv p" "cur_path c = p" using assms(2) standingE by metis
    obtain len where len: "path_length p = Fin len" using path_length_finite [OF x(2)] by blast
    have lt: "view_end v < path_length p"
      using v(6) e(2) len standing_view(6) [OF assms(2) v(1)] by (cases "view_end v") auto
    note s = boundary_step [OF assms(2) v(1) lt v(3)]
    have inv': "cursor_inv c'" "\<not> cursor_at_end c'" using s(1) by (auto simp: standing_def cursor_at_end_def)
    have "view_configuration v' (view_end v) = Inr q"
      using cursor_views(3) [OF s(1) v(4)] cursor_query_path [OF inv', of Configuration] k(1) s(1,2)
      by (simp add: standing_def)
    then have "view_limit_curves v' (view_end v) opt = Inr after"
      by (simp add: view_limit_curves_def v(5) k(2,3))
    note at = s(5) [OF v(4) this]
    note qb = view_tangent_unit [OF x(2) s(3) v(2)] and qa = view_tangent_unit [OF x(2) s(4) [OF v(4)] v(5)]
    note pb = limit_curves_proper [OF assms(1) qb(2,1) k(4)] and pa = limit_curves_proper [OF assms(1) qa(2,1) k(3)]
    note n = proper_curvesD(1,2) [OF pb] proper_curvesD(1,2) [OF pa]
    let ?vm = "std_min (lc_s_dot_max_vel before) (lc_s_dot_max_vel after)"
    have "\<not> eps_greater (Fin e) ?vm (std_min (lc_s_dot_max_acc before) (lc_s_dot_max_acc after))"
      using k(6) e by (simp add: eps_flip_ge)
    from eps_greater_trans [OF this std_min_bounds(2) [OF n(1,3)] e(2)]
      eps_greater_le [OF std_min_bounds(2) [OF n(2,4)] e(2)]
    have "under_curves opt after ?vm"
      using pa pb by (auto simp: under_curves_def e(1) proper_curves_def isfinite_iff)
    with at show ?thesis by (auto simp: sp_within_def k(5) velocity_switch_def intro: within_limitsI)
  qed (simp add: sp_within_def velocity_switch_def within_limits_def)
qed

lemma velocity_jump_search_within:
  assumes "sound_options p opt" "standing p c" "find_discontinuous_velocity_switching_point c hint opt = Inr (Some sp)"
  shows "sp_within p opt sp"
proof -
  have u: "usable_options opt" and p: "cur_path c = p" using assms(1,2) by (auto simp: sound_options_def standing_def)
  have "case Some sp of None \<Rightarrow> True | Some q \<Rightarrow> sp_within p opt q"
  proof (rule loop_flow_invariant [OF assms(3) [unfolded find_discontinuous_velocity_switching_point_def],
        of "\<lambda>(a, _). standing p a"])
    fix st st' assume "case st of (a, _) \<Rightarrow> standing p a" "velocity_jump_body c hint opt st = Inr (Continue st')"
    with velocity_jump_walk [OF u _ _ p] show "case st' of (a, _) \<Rightarrow> standing p a"
      by (cases st; cases st') auto
  next
    fix st r assume "case st of (a, _) \<Rightarrow> standing p a" "velocity_jump_body c hint opt st = Inr (Return r)"
    with velocity_jump_within_step [OF assms(1) _ p]
    show "case r of None \<Rightarrow> True | Some q \<Rightarrow> sp_within p opt q"
      by (cases st; cases r) auto
  qed (use assms(2) in simp)
  then show ?thesis by simp
qed

text \<open>The escapes start on the velocity curve; the search checks them against the acceleration curve.\<close>

definition on_velocity_curve :: "path \<Rightarrow> traj_options \<Rightarrow> arc_length \<Rightarrow> arc_velocity \<Rightarrow> bool" where
  "on_velocity_curve p opt s s_dot \<longleftrightarrow>
     (\<exists>c curves. standing p c \<and> cur_position c = s \<and> cursor_limit_curves c opt = Inr curves \<and>
        lc_s_dot_max_vel curves = s_dot)"

lemma eq40_on_curve:
  "standing p c \<Longrightarrow> try_compute_eq40_delta c opt = Inr (Some (delta, v)) \<Longrightarrow>
     on_velocity_curve p opt (cur_position c) v"
  by (auto simp: try_compute_eq40_delta_def on_velocity_curve_def bind_res_eq_Inr Let_def split: if_splits)

lemma escape_delta_on_curve:
  assumes "standing p c0" "on_path p s" "escape_delta p opt s = Inr (Some (d, v))"
  shows "on_velocity_curve p opt s v"
proof -
  have "cursor_inv c0" "cur_path c0 = p" using assms(1) by (auto simp: standing_def)
  with plain.seek_lands [of c0 s] assms(2) obtain c where "cursor_seek c0 s = Inr c" by auto
  note s = standing_seek [OF assms(1) this assms(2)]
  from assms(3) have "try_compute_eq40_delta c opt = Inr (Some (d, v))" by (simp add: standing_delta [OF s(1)] s(2))
  from eq40_on_curve [OF s(1) this] show ?thesis by (simp add: s(2))
qed

lemma compute_limit_curves_acc:
  "compute_limit_curves q q' q'' opt = Inr curves \<Longrightarrow>
     lc_s_dot_max_acc curves = compute_acceleration_limit q' q'' (to_max_acceleration opt) (to_epsilon opt)"
  by (auto simp: compute_limit_curves_def compute_joint_limit_curves_def Let_def bind_res_eq_Inr
      split: option.splits prod.splits)

lemma cursor_curves_acc:
  assumes "cursor_limit_curves c opt = Inr curves" "cursor_tangent c = Inr q'" "cursor_curvature c = Inr q''"
  shows "lc_s_dot_max_acc curves = compute_acceleration_limit q' q'' (to_max_acceleration opt) (to_epsilon opt)"
proof (cases "to_tcp opt")
  case None
  with assms show ?thesis
    by (simp add: cursor_limit_curves_def compute_joint_limit_curves_def split: prod.splits) (metis limit_curves.simps(1))
next
  case (Some tcp)
  with assms obtain q where "compute_limit_curves q q' q'' opt = Inr curves"
    by (auto simp: cursor_limit_curves_def bind_res_eq_Inr)
  then show ?thesis by (rule compute_limit_curves_acc)
qed

lemma standing_path: "standing p c \<Longrightarrow> cur_path c = p"
  by (simp add: standing_def)

lemma below_curves_within:
  assumes "below_acceleration_curve c sp opt = Inr True" "standing p c"
    "on_velocity_curve p opt (pp_s (sp_point sp)) (pp_s_dot (sp_point sp))" "sound_options p opt"
    "sp_forward_accel sp = None \<and> sp_backward_accel sp = None"
  shows "sp_within p opt sp"
proof -
  obtain e where e: "to_epsilon opt = Fin e" "0 < e" using sound_optionsE [OF assms(4)] by metis
  obtain c' curves where c': "standing p c'" "cur_position c' = pp_s (sp_point sp)"
      "cursor_limit_curves c' opt = Inr curves" "lc_s_dot_max_vel curves = pp_s_dot (sp_point sp)"
    using assms(3) by (auto simp: on_velocity_curve_def)
  obtain d q' q'' where d: "cursor_seek c (pp_s (sp_point sp)) = Inr d" "cursor_tangent d = Inr q'" "cursor_curvature d = Inr q''"
    and le: "eps_le (Fin e) (pp_s_dot (sp_point sp))
      (compute_acceleration_limit q' q'' (to_max_acceleration opt) (to_epsilon opt))"
    using assms(1) e by (auto simp: below_acceleration_curve_def bind_res_eq_Inr)
  have "on_path p (pp_s (sp_point sp))" using c'(1,2) by (auto simp: standing_def cursor_inv_def)
  note s = standing_seek [OF assms(2) d(1) this]
  have "cur_hint c' = segment_index p (pp_s (sp_point sp))" "cur_path c' = p"
    using c'(1,2) unfolding standing_def cursor_inv_def by metis+
  moreover have "cur_path d = p" using s(1) by (rule standing_path)
  ultimately have "d = c'" using s(2,3) c'(2) by (intro cursor.equality) simp_all
  have "lc_s_dot_max_acc curves = compute_acceleration_limit q' q'' (to_max_acceleration opt) (to_epsilon opt)"
    by (rule cursor_curves_acc [OF c'(3)]) (use d(2,3) \<open>d = c'\<close> in simp_all)
  moreover have "isfinite (pp_s_dot (sp_point sp))"
    using cursor_curves_proper [OF assms(4) c'(1,3)] c'(4) by (simp add: proper_curves_def)
  ultimately have "under_curves opt curves (pp_s_dot (sp_point sp))"
    using le c'(4) e by (simp add: under_curves_def eps_flip_le eps_greater_refl)
  with cursor_limits_at [OF c'(1,3)] c'(2) assms(5) show ?thesis by (auto simp: sp_within_def intro: within_limitsI)
qed

lemma escape_search_within:
  assumes "sound_options p opt" "isfinite hint" "standing p c"
    "find_continuous_velocity_switching_point c hint opt = Inr (Some sp)"
  shows "sp_within p opt sp"
proof -
  have u: "usable_options opt" using assms(1) by (simp add: sound_options_def)
  obtain x where x: "cur_position c = Fin x" "0 \<le> x" using standingE [OF assms(3)] by metis
  note e = escape_search_result [OF u assms(2-4)]
  obtain a where a: "isfinite (pp_s (sp_point sp))" "escape_point p opt a (fin (pp_s (sp_point sp))) (pp_s_dot (sp_point sp))"
      "sp_forward_accel sp = None \<and> sp_backward_accel sp = None"
    using e(1) by (auto simp: escape_at_def)
  have "on_path p (pp_s (sp_point sp))"
    using e(1) x by (auto simp: escape_at_def on_path_def intro: dbl_less_imp_le Fin_le_trans)
  then have "on_velocity_curve p opt (pp_s (sp_point sp)) (pp_s_dot (sp_point sp))"
    using escape_delta_on_curve [OF assms(3)] a(1,2) by (auto simp: escape_point_def isfinite_iff)
  from below_curves_within [OF e(2) assms(3) this assms(1) a(3)] show ?thesis .
qed

lemma velocity_search_within:
  assumes "sound_options p opt" "standing p c" "isfinite bound" "find_velocity_switching_point c bound opt = Inr (Some sp)"
  shows "sp_within p opt sp"
proof -
  have u: "usable_options opt" using assms(1) by (simp add: sound_options_def)
  obtain r q where r: "find_discontinuous_velocity_switching_point c bound opt = Inr r"
    and q: "find_continuous_velocity_switching_point c
        (case r of Some sp \<Rightarrow> std_min (pp_s (sp_point sp)) bound | None \<Rightarrow> bound) opt = Inr q"
    and s: "select_switching_point r q (to_epsilon opt) = Some sp"
    using assms(4) by (auto simp: find_velocity_switching_point_def Let_def bind_res_eq_Inr)
  have f: "isfinite (case r of Some sp \<Rightarrow> std_min (pp_s (sp_point sp)) bound | None \<Rightarrow> bound)"
    using velocity_jump_search_result [OF u assms(2)] r assms(3)
    by (cases r) (auto simp: velocity_jump_at_def intro: velocity_bound_finite)
  from s select_switching_point_cases(1) [of r q "to_epsilon opt"] consider "r = Some sp" | "q = Some sp" by auto
  then show ?thesis
    using velocity_jump_search_within [OF assms(1,2)] escape_search_within [OF assms(1) f assms(2)] r q by cases auto
qed

section \<open>The next switching point\<close>

definition entry_within :: "path \<Rightarrow> traj_options \<Rightarrow> switching_point option \<Rightarrow> bool" where
  "entry_within p opt entry \<longleftrightarrow> (\<forall>sp. entry = Some sp \<longrightarrow> sp_within p opt sp)"

definition cache_within :: "path \<Rightarrow> traj_options \<Rightarrow> switching_point_cache \<Rightarrow> bool" where
  "cache_within p opt cache \<longleftrightarrow> cache_inv p opt cache \<and>
     entry_within p opt (spc_next_accel cache) \<and> entry_within p opt (spc_next_vel cache)"

lemma sentinel_within: "sp_within p opt (path_end_sentinel p)"
  by (simp add: sp_within_def path_end_sentinel_def within_limits_def)

lemma resolve_entry_within:
  assumes "entry_within p opt entry" "resolve_entry entry other search p = Inr r" "path_inv p" "entry_inv p opt other"
    and "\<And>bound sp. search bound = Inr (Some sp) \<Longrightarrow> isfinite bound \<Longrightarrow> sp_within p opt sp"
  shows "entry_within p opt r"
proof -
  have b: "isfinite (case other of Some sp \<Rightarrow> pp_s (sp_point sp) | None \<Rightarrow> path_length p)"
    using assms(4) path_length_finite [OF assms(3)]
    by (auto simp: entry_inv_def switching_point_inv_def split: option.splits)
  show ?thesis
    using assms(1,2) assms(5) b sentinel_within
    by (auto simp: resolve_entry_def bind_res_eq_Inr Let_def entry_within_def split: option.splits if_splits)
qed

lemma find_switching_point_within:
  assumes "sound_options p opt" "standing p c" "cache_within p opt cache"
    "find_switching_point cache c opt = Inr (sp, cache')"
  shows "sp_within p opt sp" "cache_within p opt cache'"
proof -
  have u: "usable_options opt" using assms(1) by (simp add: sound_options_def)
  have p: "path_inv p" "cur_path c = p" "isfinite (cur_position c)" using assms(2) by (auto simp: standing_def cursor_inv_def)
  have ci: "cache_inv p opt cache" using assms(3) by (simp add: cache_within_def)
  note inv = find_switching_point_inv [OF u assms(2) ci assms(4)]
  define accel0 vel0 where d0: "accel0 = drop_behind (cur_position c) (spc_next_accel cache)"
    "vel0 = drop_behind (cur_position c) (spc_next_vel cache)"
  obtain accel vel where r: "resolve_entry accel0 vel0 (\<lambda>bound. find_acceleration_switching_point c bound opt) p = Inr accel"
      "resolve_entry vel0 accel (\<lambda>bound. find_velocity_switching_point c bound opt) p = Inr vel"
    and sp: "sp = (case select_switching_point accel vel (to_epsilon opt) of Some sp \<Rightarrow> sp | None \<Rightarrow> path_end_sentinel p)"
      "cache' = \<lparr>spc_next_accel = accel, spc_next_vel = vel\<rparr>"
    using assms(4) p by (auto simp: find_switching_point_def Let_def bind_res_eq_Inr d0)
  have e0: "entry_within p opt accel0" "entry_within p opt vel0" "entry_inv p opt vel0"
    using assms(3) ci p(3)
    by (auto simp: d0 cache_within_def cache_inv_def drop_behind_inv)
      (auto simp: entry_within_def drop_behind_def split: option.splits if_splits)
  have ra: "entry_within p opt accel"
    by (rule resolve_entry_within [OF e0(1) r(1) p(1) e0(3)]) (rule acceleration_search_within [OF assms(1,2)])
  have ia: "entry_inv p opt accel" using inv(3) by (simp add: sp(2) cache_inv_def)
  have rb: "entry_within p opt vel"
    by (rule resolve_entry_within [OF e0(2) r(2) p(1) ia]) (rule velocity_search_within [OF assms(1,2)])
  show "sp_within p opt sp"
    using select_switching_point_cases [of accel vel "to_epsilon opt"] ra rb sentinel_within
    by (auto simp: sp(1) entry_within_def split: option.splits)
  show "cache_within p opt cache'" using inv(3) ra rb by (simp add: cache_within_def sp(2))
qed

end
