(* ===== verification/Forward_Safety.thy ===== *)
theory Forward_Safety
  imports Forward_Integration Switching_Limits
begin

text \<open>
  What the forward pass keeps: the points it has committed are linked by steps of constant acceleration
  forward along the path, and none is above the limit curves by more than the tolerance.
\<close>

section \<open>Sound points\<close>

text \<open>
  Two successive points: the path goes forward, the time advances by the distance over the mean
  velocity, and the recorded acceleration is the change of velocity over that time.
\<close>

definition connects :: "integration_point \<Rightarrow> integration_point \<Rightarrow> bool" where
  "connects p q \<longleftrightarrow> ip_s p < ip_s q \<and>
     (let dt = divide (ip_s q - ip_s p) (midpoint (ip_s_dot p) (ip_s_dot q))
      in ip_time q = ip_time p + dt \<and> ip_s_ddot p = divide (ip_s_dot q - ip_s_dot p) dt)"

text \<open>
  A point on the path that does not exceed the limit curves. A velocity can turn out negative where a
  step is extrapolated to the end of a segment; then there is nothing to exceed.
\<close>

definition sound_point :: "path \<Rightarrow> traj_options \<Rightarrow> integration_point \<Rightarrow> bool" where
  "sound_point p opt q \<longleftrightarrow> on_path p (ip_s q) \<and> (0 \<le> ip_s_dot q \<longrightarrow> within_limits p opt (ip_s q) (ip_s_dot q))"

definition starts_at_rest :: "integration_point \<Rightarrow> bool" where
  "starts_at_rest q \<longleftrightarrow> ip_time q = 0 \<and> ip_s q = 0 \<and> ip_s_dot q = 0"

definition sound_points :: "path \<Rightarrow> traj_options \<Rightarrow> integration_point list \<Rightarrow> bool" where
  "sound_points p opt ps \<longleftrightarrow> ps \<noteq> [] \<and> starts_at_rest (hd ps) \<and> successively connects ps \<and>
     (\<forall>q \<in> set ps. sound_point p opt q)"

text \<open>The acceleration of the last point plays no part.\<close>

definition same_place :: "integration_point \<Rightarrow> integration_point \<Rightarrow> bool" where
  "same_place q r \<longleftrightarrow> ip_time q = ip_time r \<and> ip_s q = ip_s r \<and> ip_s_dot q = ip_s_dot r"

lemma same_place_step [simp]: "same_place (step_point t pt a) (step_point t pt b)"
  by (simp add: same_place_def step_point_def)

lemma sound_points_retarget:
  assumes "sound_points p opt (ps @ [q])" "same_place q r"
  shows "sound_points p opt (ps @ [r])"
  using assms
  by (cases ps rule: rev_cases)
    (auto simp: sound_points_def same_place_def successively_append_iff connects_def sound_point_def starts_at_rest_def
      hd_append split: if_splits)

lemma sound_points_extend:
  assumes "sound_points p opt (ps @ [q])" "connects q r" "sound_point p opt r"
  shows "sound_points p opt (ps @ [q, r])"
  using assms by (auto simp: sound_points_def successively_append_iff hd_append split: if_splits)

lemma sound_points_butlast:
  assumes "sound_points p opt (ps @ [q])" "ps \<noteq> []"
  shows "sound_points p opt ps"
  using assms by (auto simp: sound_points_def successively_append_iff)

lemma sound_points_take:
  assumes "sound_points p opt ps"
  shows "sound_points p opt (take (Suc n) ps)"
proof -
  have "successively connects (take (Suc n) ps @ drop (Suc n) ps)"
    using assms by (simp add: sound_points_def)
  then have "successively connects (take (Suc n) ps)" by (simp only: successively_append_iff)
  with assms show ?thesis by (auto simp: sound_points_def dest: in_set_takeD)
qed

lemma on_path_finite: "path_inv p \<Longrightarrow> on_path p s \<Longrightarrow> isfinite s"
  using path_length_finite [of p] by (cases s) (auto simp: on_path_def)

lemma standing_inv: "standing p c \<Longrightarrow> path_inv p"
  by (auto simp: standing_def cursor_inv_def)

section \<open>The choice of the step\<close>

lemma cursor_tangent_unit:
  assumes "standing p c" "cursor_tangent c = Inr q"
  shows "norm_l2 q = 1" "length q = path_dof p"
proof -
  obtain v where v: "cursor_deref c = Inr v" using standing_deref [OF assms(1)] .
  have "path_inv p" "deref p (cur_hint c) = Inr v" "view_tangent v (cur_position c) = Inr q"
    using v assms cursor_views(1) [OF assms(1) v] by (auto simp: cursor_deref_def standing_def cursor_inv_def)
  from view_tangent_unit [OF this] show "norm_l2 q = 1" "length q = path_dof p" .
qed

lemma slope_finite:
  assumes "0 < e" "to_epsilon opt = Fin e" "compute_velocity_limit_slope curves opt = Inr slope"
  shows "isfinite slope"
  using assms
  by (auto simp: compute_velocity_limit_slope_def compute_joint_velocity_limit_slope_def Let_def
      split: if_splits option.splits)

lemma choose_acceleration_finite:
  assumes "sound_options p opt" "standing p c" "isfinite (pp_s_dot current)" "\<And>a. mandated = Some a \<Longrightarrow> isfinite a"
    "choose_acceleration opt mandated c current probed = Inr (a, following)"
  shows "isfinite a" "\<And>b. following = Some b \<Longrightarrow> isfinite (ab_s_ddot_max b)"
proof -
  obtain e where e: "to_epsilon opt = Fin e" "0 < e" using sound_optionsE [OF assms(1)] by metis
  have "isfinite a \<and> (\<forall>b. following = Some b \<longrightarrow> isfinite (ab_s_ddot_max b))"
  proof (cases mandated)
    case (Some m)
    with assms(4,5) show ?thesis by (auto simp: choose_acceleration_def)
  next
    case None
    then obtain q' q'' vl b where q: "cursor_tangent c = Inr q'"
        "compute_acceleration_bounds q' q'' (pp_s_dot current) (to_max_acceleration opt) (to_epsilon opt) = Inr b"
      and r: "(if eps_eq (to_epsilon opt) (pp_s_dot current) (lc_s_dot_max_vel vl)
            then
              bind_res (compute_velocity_limit_slope vl opt) (\<lambda>vel_curve_slope.
                let s_ddot_tangent = vel_curve_slope * pp_s_dot current
                in if s_ddot_tangent < ab_s_ddot_min b then Inr (ab_s_ddot_min b, None)
                   else if s_ddot_tangent < ab_s_ddot_max b then Inr (s_ddot_tangent, Some b)
                   else Inr (ab_s_ddot_max b, None))
            else Inr (ab_s_ddot_max b, None)) = Inr (a, following)"
      using assms(5) by (auto simp: choose_acceleration_def bind_res_eq_Inr)
    note b = checked_bounds_finite [OF assms(1) cursor_tangent_unit [OF assms(2) q(1)] assms(3) q(2)]
    have "isfinite (sl * pp_s_dot current)" if "compute_velocity_limit_slope vl opt = Inr sl" for sl
      using slope_finite [OF e(2,1) that] assms(3) by (auto simp: isfinite_iff)
    with r b show ?thesis by (auto simp: bind_res_eq_Inr Let_def split: if_splits)
  qed
  then show "isfinite a" "\<And>b. following = Some b \<Longrightarrow> isfinite (ab_s_ddot_max b)" by blast+
qed

lemma euler_step_finite:
  assumes "euler_step s v a dt eps = Inr q" "isfinite s" "isfinite v" "isfinite a" "isfinite dt"
  shows "isfinite (pp_s_dot q)" "isfinite (pp_s q) \<or> pp_s q = NInf"
proof -
  obtain s' v' a' dt' where f: "s = Fin s'" "v = Fin v'" "a = Fin a'" "dt = Fin dt'"
    using assms(2-5) by (auto simp: isfinite_iff)
  show "isfinite (pp_s_dot q)" "isfinite (pp_s q) \<or> pp_s q = NInf"
    using assms(1) f by (auto simp: euler_step_def Let_def inf_sgn_def split: if_splits)
qed

text \<open>The candidate after quantisation and following lies on the path ahead of the current point.\<close>

lemma quantize_forward_on_path:
  assumes "standing p c" "cursor_deref c = Inr v" "cur_position c = pp_s current" "0 < e" "to_epsilon opt = Fin e"
    "isfinite (pp_s_dot current)" "isfinite (pp_s_dot stepped)" "isfinite (pp_s stepped)" "pp_s current < pp_s stepped"
  shows "on_path p (pp_s (quantize_forward opt v current stepped))"
    "isfinite (pp_s_dot (quantize_forward opt v current stepped))"
proof -
  obtain x where x: "cur_position c = Fin x" "0 \<le> x" "Fin x \<le> path_length p" "path_inv p"
    using standingE [OF assms(1)] by metis
  note sv = standing_view [OF assms(1,2)]
  note w = segment_within [OF x(4) sv(4)]
  obtain len where len: "path_length p = Fin len" using path_length_finite [OF x(4)] by blast
  obtain b where b: "view_end v = Fin b" "x \<le> b" "b \<le> len"
    using sv(2,6) w x(1) len by (cases "segment_end p (cur_hint c)") auto
  have cur: "pp_s current = Fin x" using assms(3) x(1) by simp
  obtain y u z where y: "pp_s stepped = Fin y" "pp_s_dot stepped = Fin u" "pp_s_dot current = Fin z"
    using assms(6-8) by (auto simp: isfinite_iff)
  have "x < y" using assms(9) by (simp add: cur y)
  have "y \<le> b" if "\<not> eps_ge (Fin (e * 2)) (Fin y) (Fin b)"
    using that assms(4) by (cases "y \<le> b") (auto simp: eps_ge_def wrap_compare_def Let_def split: if_splits)
  then show "on_path p (pp_s (quantize_forward opt v current stepped))"
    using b x y cur \<open>x < y\<close> len by (auto simp: quantize_forward_def Let_def on_path_def assms(5))
  show "isfinite (pp_s_dot (quantize_forward opt v current stepped))"
    using b y cur \<open>x < y\<close> by (auto simp: quantize_forward_def Let_def assms(5))
qed

lemma follow_curve_keeps:
  assumes "proper_curves curves" "isfinite (pp_s_dot next_point)"
  shows "pp_s (follow_curve opt following current next_point curves) = pp_s next_point"
    "isfinite (pp_s_dot (follow_curve opt following current next_point curves))"
  using assms by (auto simp: follow_curve_def proper_curves_def Let_def split: option.split)

section \<open>The breach\<close>

text \<open>The bisection keeps both sides on the path, and the curves of the breach are those at the breach.\<close>

definition breach_inv :: "path \<Rightarrow> traj_options \<Rightarrow> breach_state \<Rightarrow> bool" where
  "breach_inv p opt b \<longleftrightarrow> standing p (br_cursor b) \<and>
     on_path p (pp_s (br_next b)) \<and> isfinite (pp_s_dot (br_next b)) \<and>
     on_path p (pp_s (br_breach b)) \<and> isfinite (pp_s_dot (br_breach b)) \<and>
     within_limits p opt (pp_s (br_next b)) (pp_s_dot (br_next b)) \<and>
     (\<exists>curves. limits_at p opt (pp_s (br_breach b)) curves \<and> proper_curves curves \<and>
        lc_s_dot_max_acc curves = br_breach_acc b \<and> lc_s_dot_max_vel curves = br_breach_vel b)"

lemma on_path_midpoint:
  assumes "path_inv p" "on_path p a" "on_path p b"
  shows "on_path p (midpoint a b)"
proof -
  obtain len where "path_length p = Fin len" using path_length_finite [OF assms(1)] by blast
  then show ?thesis
    using assms(2,3) by (cases a; cases b) (auto simp: on_path_def midpoint_def)
qed

lemma isfinite_midpoint: "isfinite a \<Longrightarrow> isfinite b \<Longrightarrow> isfinite (midpoint a b)"
  by (cases a; cases b) simp_all

lemma under_curvesI:
  assumes "isfinite v" "v \<le> lc_s_dot_max_acc curves" "v \<le> lc_s_dot_max_vel curves" "sound_options p opt"
  shows "under_curves opt curves v"
proof -
  obtain e where "to_epsilon opt = Fin e" "0 < e" using sound_optionsE [OF assms(4)] by metis
  with assms(1-3) show ?thesis by (simp add: under_curves_def eps_greater_le)
qed

definition breach_mid :: "breach_state \<Rightarrow> phase_point" where
  "breach_mid b = \<lparr>pp_s = midpoint (pp_s (br_next b)) (pp_s (br_breach b)),
                   pp_s_dot = midpoint (pp_s_dot (br_next b)) (pp_s_dot (br_breach b))\<rparr>"

lemma bisect_breach_bodyE:
  assumes "bisect_breach_body opt b = Inr (Continue b')"
  obtains c q' q'' curves where "\<not> eps_eq (to_epsilon opt) (pp_s (br_next b)) (pp_s (br_breach b))"
    "cursor_seek (br_cursor b) (pp_s (breach_mid b)) = Inr c" "cursor_limit_curves c opt = Inr curves"
    "b' = (if lc_s_dot_max_acc curves < pp_s_dot (breach_mid b) \<or> lc_s_dot_max_vel curves < pp_s_dot (breach_mid b)
             then b\<lparr>br_cursor := c, br_breach := breach_mid b, br_breach_acc := lc_s_dot_max_acc curves,
                     br_breach_vel := lc_s_dot_max_vel curves\<rparr>
             else b\<lparr>br_cursor := c, br_next := breach_mid b, br_q_prime := q', br_q_double_prime := q'',
                     br_next_acc := lc_s_dot_max_acc curves, br_next_vel := lc_s_dot_max_vel curves\<rparr>)"
proof -
  have wide: "\<not> eps_eq (to_epsilon opt) (pp_s (br_next b)) (pp_s (br_breach b))"
    using assms by (auto simp: bisect_breach_body_def)
  obtain c q' q'' curves where c: "cursor_seek (br_cursor b) (pp_s (breach_mid b)) = Inr c" "cursor_limit_curves c opt = Inr curves"
    and r: "(if lc_s_dot_max_acc curves < pp_s_dot (breach_mid b) \<or> lc_s_dot_max_vel curves < pp_s_dot (breach_mid b)
             then Inr (Continue (b\<lparr>br_cursor := c, br_breach := breach_mid b, br_breach_acc := lc_s_dot_max_acc curves,
                                   br_breach_vel := lc_s_dot_max_vel curves\<rparr>))
             else Inr (Continue (b\<lparr>br_cursor := c, br_next := breach_mid b, br_q_prime := q',
                                   br_q_double_prime := q'', br_next_acc := lc_s_dot_max_acc curves,
                                   br_next_vel := lc_s_dot_max_vel curves\<rparr>))) =
            (Inr (Continue b') :: (breach_state, breach_state) flow res)"
    using assms
    unfolding bisect_breach_body_def breach_mid_def [symmetric] Let_def if_not_P [OF wide] bind_res_eq_Inr by blast
  have b': "b' = (if lc_s_dot_max_acc curves < pp_s_dot (breach_mid b) \<or> lc_s_dot_max_vel curves < pp_s_dot (breach_mid b)
             then b\<lparr>br_cursor := c, br_breach := breach_mid b, br_breach_acc := lc_s_dot_max_acc curves,
                     br_breach_vel := lc_s_dot_max_vel curves\<rparr>
             else b\<lparr>br_cursor := c, br_next := breach_mid b, br_q_prime := q', br_q_double_prime := q'',
                     br_next_acc := lc_s_dot_max_acc curves, br_next_vel := lc_s_dot_max_vel curves\<rparr>)"
    using r by (auto split: if_splits)
  then show thesis by (rule that [OF wide c])
qed

lemma bisect_breach_body_inv:
  assumes "sound_options p opt" "breach_inv p opt b" "bisect_breach_body opt b = Inr (Continue b')"
  shows "breach_inv p opt b'"
proof -
  define mid where "mid = breach_mid b"
  have inv: "standing p (br_cursor b)" "path_inv p" using assms(2) standing_inv by (auto simp: breach_inv_def)
  obtain c q' q'' curves where c: "cursor_seek (br_cursor b) (pp_s mid) = Inr c" "cursor_limit_curves c opt = Inr curves"
    and b': "b' = (if lc_s_dot_max_acc curves < pp_s_dot mid \<or> lc_s_dot_max_vel curves < pp_s_dot mid
             then b\<lparr>br_cursor := c, br_breach := mid, br_breach_acc := lc_s_dot_max_acc curves,
                     br_breach_vel := lc_s_dot_max_vel curves\<rparr>
             else b\<lparr>br_cursor := c, br_next := mid, br_q_prime := q', br_q_double_prime := q'',
                     br_next_acc := lc_s_dot_max_acc curves, br_next_vel := lc_s_dot_max_vel curves\<rparr>)"
    using assms(3) unfolding mid_def by (rule bisect_breach_bodyE)
  have mid: "on_path p (pp_s mid)" "isfinite (pp_s_dot mid)"
    using assms(2) on_path_midpoint [OF inv(2)] by (auto simp: breach_inv_def mid_def breach_mid_def isfinite_midpoint)
  note s = standing_seek [OF inv(1) c(1) mid(1)]
  note at = cursor_limits_at [OF s(1) c(2)] and pr = cursor_curves_proper [OF assms(1) s(1) c(2)]
  have "pp_s_dot mid \<le> lc_s_dot_max_acc curves" "pp_s_dot mid \<le> lc_s_dot_max_vel curves"
    if "\<not> (lc_s_dot_max_acc curves < pp_s_dot mid \<or> lc_s_dot_max_vel curves < pp_s_dot mid)"
    using that mid(2) proper_curvesD [OF pr] by (auto simp: isfinite_iff dbl_not_less)
  then have "under_curves opt curves (pp_s_dot mid)"
    if "\<not> (lc_s_dot_max_acc curves < pp_s_dot mid \<or> lc_s_dot_max_vel curves < pp_s_dot mid)"
    using that under_curvesI [OF mid(2) _ _ assms(1)] by blast
  with at s mid pr assms(2) show ?thesis
    by (auto simp: b' breach_inv_def intro: within_limitsI)
qed

lemma bisect_breach_inv:
  assumes "sound_options p opt" "breach_inv p opt b" "bisect_breach opt b = Inr b'"
  shows "breach_inv p opt b'"
  by (rule loop_flow_invariant [OF assms(3) [unfolded bisect_breach_def], of "breach_inv p opt"])
    (use assms(2) bisect_breach_body_inv [OF assms(1)] in
      \<open>auto simp: bisect_breach_body_def Let_def bind_res_eq_Inr split: if_splits\<close>)

text \<open>What the classification commits when it does not hit: a point under both curves.\<close>

lemma clamped_within:
  assumes "sound_options p opt" "breach_inv p opt b" "isfinite v" "v \<le> br_breach_acc b" "v \<le> br_breach_vel b"
  shows "within_limits p opt (pp_s (br_breach b)) v"
proof -
  obtain curves where c: "limits_at p opt (pp_s (br_breach b)) curves" "lc_s_dot_max_acc curves = br_breach_acc b"
      "lc_s_dot_max_vel curves = br_breach_vel b"
    using assms(2) by (auto simp: breach_inv_def)
  have "under_curves opt curves v" using assms(3-5) c(2,3) by (intro under_curvesI [OF _ _ _ assms(1)]) simp_all
  with c(1) show ?thesis by (rule within_limitsI)
qed

lemma breach_numbers:
  assumes "breach_inv p opt b"
  shows "0 \<le> br_breach_acc b" "isfinite (br_breach_vel b)" "br_breach_acc b \<noteq> NaN" "br_breach_vel b \<noteq> NaN"
    "isfinite (std_min (br_breach_acc b) (br_breach_vel b))"
proof -
  have n: "0 \<le> br_breach_acc b" "isfinite (br_breach_vel b)"
    using assms by (auto simp: breach_inv_def proper_curves_def)
  then show "0 \<le> br_breach_acc b" "isfinite (br_breach_vel b)" "br_breach_acc b \<noteq> NaN" "br_breach_vel b \<noteq> NaN"
    "isfinite (std_min (br_breach_acc b) (br_breach_vel b))"
    by (cases "br_breach_acc b"; cases "br_breach_vel b"; simp)+
qed

text \<open>The outcome of a step: a hit and the point kept, or a committed point; and the cursor.\<close>

definition outcome_ok :: "path \<Rightarrow> traj_options \<Rightarrow> limit_hit option \<times> phase_point \<times> cursor \<Rightarrow> bool" where
  "outcome_ok p opt r \<longleftrightarrow> (case r of (hit, next_point, c) \<Rightarrow>
     standing p c \<and> on_path p (pp_s next_point) \<and> isfinite (pp_s_dot next_point) \<and>
     (hit = None \<longrightarrow> within_limits p opt (pp_s next_point) (pp_s_dot next_point)) \<and>
     (\<forall>h. hit = Some h \<longrightarrow> on_path p (pp_s (lh_breach h))))"

lemma breach_hit_ok: "breach_inv p opt b \<Longrightarrow> standing p c \<Longrightarrow> outcome_ok p opt (Some (breach_hit b), br_next b, c)"
  by (simp add: outcome_ok_def breach_hit_def breach_inv_def)

lemma classify_velocity_ok:
  assumes "sound_options p opt" "breach_inv p opt b" "standing p c" "classify_velocity_breach opt c b = Inr r"
  shows "outcome_ok p opt r"
proof -
  note n = breach_numbers [OF assms(2)]
  obtain c' where c': "cursor_seek c (pp_s (br_next b)) = Inr c'"
    and r: "r = (Some (breach_hit b), br_next b, c') \<or>
      r = (None, (br_breach b)\<lparr>pp_s_dot := std_min (br_breach_acc b) (br_breach_vel b)\<rparr>, c')"
    using assms(4) by (auto simp: classify_velocity_breach_def Let_def bind_res_eq_Inr split: if_split_asm)
  have "on_path p (pp_s (br_next b))" using assms(2) by (simp add: breach_inv_def)
  note s = standing_seek(1) [OF assms(3) c' this]
  have "within_limits p opt (pp_s (br_breach b)) (std_min (br_breach_acc b) (br_breach_vel b))"
    using std_min_bounds [OF n(3,4)] by (intro clamped_within [OF assms(1,2) n(5)])
  then show ?thesis
    using r breach_hit_ok [OF assms(2) s] s n(5) assms(2) by (auto simp: outcome_ok_def breach_inv_def)
qed

lemma cursor_seek_standing:
  assumes "standing p c" "cursor_seek c s = Inr c'" "cursor_tangent c' = Inr q"
  shows "standing p c'"
proof -
  have "cursor_inv c" "cur_path c = p" using assms(1) by (auto simp: standing_def)
  with cursor_seek_spec [of c s] assms(2) have "cursor_inv c'" "cur_path c' = p" by auto
  with cursor_reads [OF _ assms(3)] show ?thesis by simp
qed

lemma classify_breach_ok:
  assumes "sound_options p opt" "breach_inv p opt b" "standing p c" "classify_breach opt c b = Inr r"
  shows "outcome_ok p opt r"
proof (cases "br_breach_acc b \<le> pp_s_dot (br_breach b)")
  case False
  with assms(4) have "classify_velocity_breach opt c b = Inr r" by (simp add: classify_breach_def)
  with classify_velocity_ok [OF assms(1-3)] show ?thesis by blast
next
  case acc: True
  let ?before = "pp_s (br_next b) - to_epsilon opt"
  show ?thesis
  proof (cases "pp_s (br_next b) - ?before < half (to_epsilon opt)")
    case True
    with assms(4) acc have "r = (Some (breach_hit b), br_next b, c)" by (simp add: classify_breach_def Let_def)
    with breach_hit_ok [OF assms(2,3)] show ?thesis by simp
  next
    case False
    obtain c' q' where c': "cursor_seek c ?before = Inr c'" "cursor_tangent c' = Inr q'"
      and r: "r = (Some (breach_hit b), br_next b, c') \<or>
        pp_s_dot (br_breach b) \<le> br_breach_vel b \<and> r = (None, (br_breach b)\<lparr>pp_s_dot := br_breach_acc b\<rparr>, c') \<or>
        classify_velocity_breach opt c' b = Inr r"
      using assms(4) acc False by (auto simp: classify_breach_def Let_def bind_res_eq_Inr split: if_split_asm)
    note s = cursor_seek_standing [OF assms(3) c']
    have fin: "isfinite (pp_s_dot (br_breach b))" using assms(2) by (simp add: breach_inv_def)
    with acc breach_numbers(1) [OF assms(2)] have "isfinite (br_breach_acc b)" by (cases "br_breach_acc b") (auto simp: isfinite_iff)
    then have "within_limits p opt (pp_s (br_breach b)) (br_breach_acc b)" if "pp_s_dot (br_breach b) \<le> br_breach_vel b"
      using that dbl_le_trans [OF acc] by (intro clamped_within [OF assms(1,2)]) (auto simp: isfinite_iff)
    with r s \<open>isfinite (br_breach_acc b)\<close> assms(2) breach_hit_ok [OF assms(2) s] classify_velocity_ok [OF assms(1,2) s]
    show ?thesis by (auto simp: outcome_ok_def breach_inv_def)
  qed
qed

lemma find_limit_hit_ok:
  assumes "sound_options p opt" "standing p c" "cursor_limit_curves c opt = Inr curves" "cur_position c = pp_s next_point"
    "isfinite (pp_s_dot next_point)" "on_path p (pp_s current)" "within_limits p opt (pp_s current) (pp_s_dot current)"
    "find_limit_hit opt seg seg' c current next_point curves = Inr r"
  shows "outcome_ok p opt r"
proof -
  note at = cursor_limits_at [OF assms(2,3)] and pr = cursor_curves_proper [OF assms(1-3)]
  have on: "on_path p (pp_s next_point)" using assms(2,4) by (auto simp: standing_def cursor_inv_def)
  let ?below = "pp_s_dot next_point \<le> lc_s_dot_max_acc curves \<and> pp_s_dot next_point \<le> lc_s_dot_max_vel curves"
  obtain kink where kink: "crosses_kink opt seg seg' = Inr kink"
    using assms(8) by (auto simp: find_limit_hit_def bind_res_eq_Inr)
  show ?thesis
  proof (cases "kink \<or> ?below")
    case True
    moreover have "within_limits p opt (pp_s next_point) (pp_s_dot next_point)" if ?below
      using at assms(4) that under_curvesI [OF assms(5) _ _ assms(1)] by (auto intro: within_limitsI)
    ultimately show ?thesis
      using assms(2,5,8) on kink by (auto simp: find_limit_hit_def outcome_ok_def split: if_split_asm)
  next
    case False
    then obtain b0 b c' seg'' where b: "start_breach opt c current next_point curves = Inr b0" "bisect_breach opt b0 = Inr b"
        "cursor_seek (br_cursor b) (pp_s (br_breach b)) = Inr c'"
      and r: "r = (Some (breach_hit b), br_next b, c') \<or> classify_breach opt c' b = Inr r"
      using assms(8) kink by (auto simp: find_limit_hit_def bind_res_eq_Inr split: if_split_asm)
    obtain d where "cursor_seek c (pp_s current) = Inr d" "br_cursor b0 = d" "br_next b0 = current" "br_breach b0 = next_point"
        "br_breach_acc b0 = lc_s_dot_max_acc curves" "br_breach_vel b0 = lc_s_dot_max_vel curves"
      using b(1) by (auto simp: start_breach_def bind_res_eq_Inr)
    then have "breach_inv p opt b0"
      using standing_seek(1) [OF assms(2) _ assms(6)] assms(4-7) on at pr within_finite [OF assms(7)]
      by (auto simp: breach_inv_def)
    from bisect_breach_inv [OF assms(1) this b(2)] have inv: "breach_inv p opt b" .
    then have "standing p c'" using standing_seek(1) [OF _ b(3)] by (auto simp: breach_inv_def)
    with r inv breach_hit_ok [OF inv] classify_breach_ok [OF assms(1) inv] show ?thesis by blast
  qed
qed

section \<open>The pass\<close>

definition forward_inv :: "path \<Rightarrow> traj_options \<Rightarrow> forward \<Rightarrow> bool" where
  "forward_inv p opt fw \<longleftrightarrow> standing p (ig_cursor (fw_integration fw)) \<and> cache_within p opt (ig_cache (fw_integration fw)) \<and>
     within_limits p opt (pp_s (fw_point fw)) (pp_s_dot (fw_point fw)) \<and>
     sound_points p opt (ig_points (fw_integration fw) @ [step_point (fw_time fw) (fw_point fw) NaN])"

definition switch_ok :: "path \<Rightarrow> traj_options \<Rightarrow> switching_point \<Rightarrow> bool" where
  "switch_ok p opt sp \<longleftrightarrow> on_path p (pp_s (sp_point sp)) \<and> sp_within p opt sp \<and>
     (sp_kind sp = K_path_end \<longrightarrow> sp_point sp = \<lparr>pp_s = path_length p, pp_s_dot = 0\<rparr>)"

text \<open>
  A pass ends at a switching point; all points but the last, which lies on the way to the limit that
  was hit, are sound.
\<close>

definition forward_result :: "path \<Rightarrow> traj_options \<Rightarrow> switching_point \<times> integration \<Rightarrow> bool" where
  "forward_result p opt r \<longleftrightarrow> (case r of (sp, st) \<Rightarrow>
     switch_ok p opt sp \<and> standing p (ig_cursor st) \<and> cache_within p opt (ig_cache st) \<and>
     (\<exists>init l. ig_points st = init @ [l] \<and> (init = [] \<or> sound_points p opt init)))"

lemma found_switch_ok:
  assumes "sound_options p opt" "standing p c" "cache_within p opt cache" "find_switching_point cache c opt = Inr (sp, cache')"
  shows "switch_ok p opt sp" "cache_within p opt cache'"
proof -
  have u: "usable_options opt" and ci: "cache_inv p opt cache"
    using assms(1,3) by (simp_all add: sound_options_def cache_within_def)
  note inv = find_switching_point_inv(1) [OF u assms(2) ci assms(4)]
  note w = find_switching_point_within [OF assms]
  show "cache_within p opt cache'" by (rule w(2))
  show "switch_ok p opt sp"
    using inv w(1)
    by (auto simp: switch_ok_def switching_point_inv_def path_end_sentinel_def extremum_at_def curvature_jump_at_def
        velocity_jump_at_def escape_at_def)
qed

lemma finish_ok:
  assumes "sound_options p opt" "standing p c" "cache_within p opt (ig_cache st)" "on_path p s"
    "ig_points st = init @ [l]" "init = [] \<or> sound_points p opt init"
    "finish_at_switching_point opt st c s = Inr r"
  shows "\<exists>q. r = Return q \<and> forward_result p opt q"
proof -
  obtain c' sp cache where c: "cursor_seek c s = Inr c'" "find_switching_point (ig_cache st) c' opt = Inr (sp, cache)"
      "r = Return (sp, st\<lparr>ig_cursor := c', ig_cache := cache\<rparr>)"
    using assms(7) by (auto simp: finish_at_switching_point_def bind_res_eq_Inr)
  note s = standing_seek(1) [OF assms(2) c(1) assms(4)]
  from found_switch_ok [OF assms(1) s assms(3) c(2)] s assms(5,6) show ?thesis
    by (auto simp: c(3) forward_result_def)
qed

definition step_kept :: "path \<Rightarrow> traj_options \<Rightarrow> (forward, switching_point \<times> integration) flow \<Rightarrow> bool" where
  "step_kept p opt r \<longleftrightarrow> (case r of Continue fw \<Rightarrow> forward_inv p opt fw | Return q \<Rightarrow> forward_result p opt q)"

lemma step_point_simps [simp]:
  "ip_time (step_point t pt a) = t" "ip_s (step_point t pt a) = pp_s pt" "ip_s_dot (step_point t pt a) = pp_s_dot pt"
  "ip_s_ddot (step_point t pt a) = a"
  by (simp_all add: step_point_def)

lemma rest_switch_ok: "on_path p s \<Longrightarrow> switch_ok p opt (velocity_switch K_discontinuous_velocity_limit s 0)"
  by (simp add: switch_ok_def sp_within_def velocity_switch_def within_limits_def)

lemma step_advances:
  assumes here: "here = step_point t cur (divide (pp_s_dot next_point - pp_s_dot cur) dt)"
    and dt: "dt = divide (pp_s next_point - pp_s cur) (midpoint (pp_s_dot cur) (pp_s_dot next_point))"
    and "sound_points p opt (ps @ [here])" "standing p c" "on_path p (pp_s next_point)"
      "within_limits p opt (pp_s next_point) (pp_s_dot next_point)" "\<not> pp_s next_point \<le> pp_s cur"
  shows "sound_points p opt (ps @ [here, step_point (t + dt) next_point NaN])"
proof (rule sound_points_extend [OF assms(3)])
  have "on_path p (pp_s cur)" using assms(3) by (simp add: sound_points_def sound_point_def here)
  note on_path_finite [OF standing_inv [OF assms(4)] this] on_path_finite [OF standing_inv [OF assms(4)] assms(5)]
  then have "pp_s cur < pp_s next_point" using assms(7) by (auto simp: isfinite_iff)
  then show "connects here (step_point (t + dt) next_point NaN)" by (simp add: connects_def here dt Let_def)
  show "sound_point p opt (step_point (t + dt) next_point NaN)" using assms(5,6) by (simp add: sound_point_def)
qed

lemma commit_step_ok:
  assumes "sound_options p opt" "forward_inv p opt fw" "outcome_ok p opt (hit, next_point, c)"
    "commit_step opt fw probe hit next_point c = Inr r"
  shows "step_kept p opt r"
proof -
  let ?st = "fw_integration fw" and ?cur = "fw_point fw" and ?t = "fw_time fw"
  define dt where "dt = divide (pp_s next_point - pp_s ?cur) (midpoint (pp_s_dot ?cur) (pp_s_dot next_point))"
  define here where "here = step_point ?t ?cur (divide (pp_s_dot next_point - pp_s_dot ?cur) dt)"
  have inv: "cache_within p opt (ig_cache ?st)" "cur_path (ig_cursor ?st) = p"
    and snd: "sound_points p opt (ig_points ?st @ [step_point ?t ?cur NaN])"
    using assms(2) by (auto simp: forward_inv_def standing_path)
  have out: "standing p c" "on_path p (pp_s next_point)" using assms(3) by (simp_all add: outcome_ok_def)
  have cur: "on_path p (pp_s ?cur)" using snd by (simp add: sound_points_def sound_point_def)
  have here_ok: "sound_points p opt (ig_points ?st @ [here])"
    by (rule sound_points_retarget [OF snd]) (simp add: here_def)
  have pre_ok: "ig_points ?st = [] \<or> sound_points p opt (ig_points ?st)" using sound_points_butlast [OF snd] by blast
  show ?thesis
  proof (cases "feq (pp_s next_point - pp_s ?cur) 0")
    case True
    with assms(4) obtain h where "hit = Some h" "finish_at_switching_point opt
        (?st\<lparr>ig_points := ig_points ?st @ [step_point ?t ?cur NaN]\<rparr>) c (pp_s ?cur) = Inr r"
      by (cases hit) (auto simp: commit_step_def Let_def)
    from finish_ok [OF assms(1) out(1) _ cur _ pre_ok this(2)] inv show ?thesis by (auto simp: step_kept_def)
  next
    case moved: False
    define ended where "ended = ?st\<lparr>ig_points := (ig_points ?st @ [here]) @ [step_point (?t + dt) next_point NaN]\<rparr>"
    show ?thesis
    proof (cases hit)
      case (Some h)
      show ?thesis
      proof (cases "feq (lh_s_dot_max_vel h) 0")
        case True
        then have "r = Return (velocity_switch K_discontinuous_velocity_limit (pp_s (lh_breach h)) 0, ended\<lparr>ig_cursor := c\<rparr>)"
          using assms(4) moved Some by (simp add: commit_step_def Let_def dt_def here_def ended_def)
        with assms(3) Some out inv here_ok rest_switch_ok show ?thesis
          by (auto simp: step_kept_def forward_result_def ended_def outcome_ok_def)
      next
        case False
        then have "finish_at_switching_point opt ended c (pp_s next_point) = Inr r"
          using assms(4) moved Some by (simp add: commit_step_def Let_def dt_def here_def ended_def)
        from finish_ok [OF assms(1) out(1) _ out(2) _ _ this, of "ig_points ?st @ [here]"] inv here_ok show ?thesis
          by (auto simp: step_kept_def ended_def)
      qed
    next
      case None
      show ?thesis
      proof (cases "feq (pp_s next_point) (path_length p)")
        case True
        then obtain c' where c': "cursor_seek c (pp_s next_point) = Inr c'"
          and r: "r = Return (\<lparr>sp_point = \<lparr>pp_s = pp_s next_point, pp_s_dot = 0\<rparr>, sp_kind = K_path_end,
                                    sp_forward_accel = Some 0, sp_backward_accel = None\<rparr>, ended\<lparr>ig_cursor := c'\<rparr>)"
          using assms(4) moved None inv(2)
          by (auto simp: commit_step_def Let_def bind_res_eq_Inr dt_def here_def ended_def)
        note s = standing_seek(1) [OF out(1) c' out(2)]
        have "pp_s next_point = path_length p" using True by (simp add: feq_def)
        with r s inv here_ok out(2) show ?thesis
          by (auto simp: step_kept_def forward_result_def ended_def switch_ok_def sp_within_def within_limits_def)
      next
        case False
        then have r: "\<not> pp_s next_point \<le> pp_s ?cur"
          "r = Continue \<lparr>fw_integration = ?st\<lparr>ig_points := ig_points ?st @ [here], ig_cursor := c\<rparr>, fw_time = ?t + dt,
                      fw_point = next_point, fw_first = False, fw_probed = Some probe\<rparr>"
          using assms(4) moved None inv(2)
          by (auto simp: commit_step_def Let_def dt_def here_def split: if_split_asm)
        have "sound_points p opt (ig_points ?st @ [here, step_point (?t + dt) next_point NaN])"
          using assms(3) None r(1) here_ok by (intro step_advances [OF here_def dt_def]) (auto simp: outcome_ok_def)
        with r(2) out inv assms(3) None show ?thesis by (simp add: step_kept_def forward_inv_def outcome_ok_def)
      qed
    qed
  qed
qed

lemma forward_body_outcome:
  assumes "sound_options p opt" "sp_within p opt start" "forward_inv p opt fw" "forward_body opt start fw = Inr r"
  obtains c1 curves hit next_point c2 where "standing p c1" "cursor_limit_curves c1 opt = Inr curves"
    "outcome_ok p opt (hit, next_point, c2)" "commit_step opt fw (cur_position c1, curves) hit next_point c2 = Inr r"
proof -
  let ?cur = "fw_point fw"
  obtain e d where e: "to_epsilon opt = Fin e" "0 < e" "to_delta opt = Fin d"
    using sound_optionsE [OF assms(1)] by metis
  have st: "standing p (ig_cursor (fw_integration fw))" using assms(3) by (simp add: forward_inv_def)
  have cur: "on_path p (pp_s ?cur)" "within_limits p opt (pp_s ?cur) (pp_s_dot ?cur)"
    using assms(3) by (auto simp: forward_inv_def sound_points_def sound_point_def)
  note fin = within_finite [OF cur(2)] on_path_finite [OF standing_inv [OF st] cur(1)]
  obtain c0 seg a following stepped c1 seg' curves hit next_point c2 where
      b: "cursor_seek (ig_cursor (fw_integration fw)) (pp_s ?cur) = Inr c0" "cursor_deref c0 = Inr seg"
      "choose_acceleration opt (if fw_first fw then sp_forward_accel start else None) c0 ?cur (fw_probed fw) = Inr (a, following)"
      "euler_step (pp_s ?cur) (pp_s_dot ?cur) a (to_delta opt) (to_epsilon opt) = Inr stepped"
      "\<not> pp_s stepped \<le> pp_s ?cur"
      "cursor_seek c0 (pp_s (quantize_forward opt seg ?cur stepped)) = Inr c1" "cursor_deref c1 = Inr seg'"
      "cursor_limit_curves c1 opt = Inr curves"
      "find_limit_hit opt seg seg' c1 ?cur (follow_curve opt following ?cur (quantize_forward opt seg ?cur stepped) curves) curves
         = Inr (hit, next_point, c2)"
      "commit_step opt fw (pp_s (quantize_forward opt seg ?cur stepped), curves) hit next_point c2 = Inr r"
    using assms(4) by (auto simp: forward_body_def Let_def bind_res_eq_Inr split: if_split_asm)
  let ?q = "quantize_forward opt seg ?cur stepped"
  note s0 = standing_seek [OF st b(1) cur(1)]
  have "isfinite m" if "(if fw_first fw then sp_forward_accel start else None) = Some m" for m
    using that assms(2) by (auto simp: sp_within_def split: if_split_asm)
  from choose_acceleration_finite(1) [OF assms(1) s0(1) fin(1) this b(3)] have "isfinite a" .
  note es = euler_step_finite [OF b(4) fin(2,1) this]
  have fs: "isfinite (pp_s_dot stepped)" "isfinite (pp_s stepped)"
    using es e(3) b(5) fin(2) by (auto simp: isfinite_iff)
  have lt: "pp_s ?cur < pp_s stepped" using b(5) fin(2) fs(2) by (auto simp: isfinite_iff)
  note q = quantize_forward_on_path [OF s0(1) b(2) s0(2) e(2,1) fin(1) fs lt]
  note s1 = standing_seek [OF s0(1) b(6) q(1)]
  note pr = cursor_curves_proper [OF assms(1) s1(1) b(8)]
  note f = follow_curve_keeps [OF pr q(2), of opt following ?cur]
  have "outcome_ok p opt (hit, next_point, c2)"
    using find_limit_hit_ok [OF assms(1) s1(1) b(8) _ f(2) cur b(9)] s1(2) f(1) by simp
  then show thesis by (rule that [OF s1(1) b(8) _ b(10) [folded s1(2)]])
qed

lemma forward_body_ok:
  assumes "sound_options p opt" "sp_within p opt start" "forward_inv p opt fw" "forward_body opt start fw = Inr r"
  shows "step_kept p opt r"
  using forward_body_outcome [OF assms] commit_step_ok [OF assms(1,3)] by metis

text \<open>The memo of the probe holds the curves a cursor at its position would compute.\<close>

definition memo_ok :: "path \<Rightarrow> traj_options \<Rightarrow> forward \<Rightarrow> bool" where
  "memo_ok p opt fw \<longleftrightarrow> (\<forall>s curves. fw_probed fw = Some (s, curves) \<longrightarrow>
     (\<exists>c. standing p c \<and> cur_position c = s \<and> cursor_limit_curves c opt = Inr curves))"

lemma forward_body_memo:
  assumes "sound_options p opt" "sp_within p opt start" "forward_inv p opt fw" "forward_body opt start fw = Inr (Continue fw')"
  shows "memo_ok p opt fw'"
proof -
  obtain c1 curves hit next_point c2 where b: "standing p c1" "cursor_limit_curves c1 opt = Inr curves"
    "commit_step opt fw (cur_position c1, curves) hit next_point c2 = Inr (Continue fw')"
    using forward_body_outcome [OF assms] by metis
  have "fw_probed fw' = Some (cur_position c1, curves)"
    using b(3) by (auto simp: commit_step_def Let_def finish_at_switching_point_def bind_res_eq_Inr
        split: if_split_asm option.split_asm)
  with b show ?thesis by (auto simp: memo_ok_def)
qed

lemma standing_unique:
  assumes "standing p c" "standing p c'" "cur_position c = cur_position c'"
  shows "c = c'"
proof -
  have "cur_hint c = segment_index p (cur_position c)" "cur_hint c' = segment_index p (cur_position c')"
    using assms(1,2) unfolding standing_def cursor_inv_def by metis+
  then show ?thesis using assms standing_path [OF assms(1)] standing_path [OF assms(2)] by (intro cursor.equality) simp_all
qed

lemma memo_transparent:
  assumes "memo_ok p opt fw" "standing p c" "cur_position c = s"
  shows "probed_limit_curves (fw_probed fw) s c opt = cursor_limit_curves c opt"
proof -
  have "curves = x" if "standing p d" "cur_position d = s" "cursor_limit_curves d opt = Inr curves"
    "cursor_limit_curves c opt = Inr x" for d curves x
    using that standing_unique [OF that(1) assms(2)] assms(3) by simp
  show ?thesis
    using assms standing_unique [OF _ assms(2)]
    by (fastforce simp: memo_ok_def probed_limit_curves_def feq_def split: option.split)
qed

lemma forward_body_unmemoised:
  assumes "forward_inv p opt fw" "memo_ok p opt fw"
  shows "forward_body opt start (fw\<lparr>fw_probed := None\<rparr>) = forward_body opt start fw"
proof -
  let ?cur = "fw_point fw"
  have st: "standing p (ig_cursor (fw_integration fw))" "on_path p (pp_s ?cur)"
    using assms(1) by (simp_all add: forward_inv_def sound_points_def sound_point_def)
  have choose: "choose_acceleration opt m c ?cur None = choose_acceleration opt m c ?cur (fw_probed fw)"
    if "cursor_seek (ig_cursor (fw_integration fw)) (pp_s ?cur) = Inr c" for c m
    using memo_transparent [OF assms(2) standing_seek(1,2) [OF st(1) that st(2)]]
    by (simp add: choose_acceleration_def probed_limit_curves_def cong: option.case_cong)
  have commit: "commit_step opt (fw\<lparr>fw_probed := None\<rparr>) = commit_step opt fw"
    by (intro ext) (simp add: commit_step_def)
  have same: "fw_point (fw\<lparr>fw_probed := None\<rparr>) = ?cur" "fw_integration (fw\<lparr>fw_probed := None\<rparr>) = fw_integration fw"
    "fw_first (fw\<lparr>fw_probed := None\<rparr>) = fw_first fw" "fw_probed (fw\<lparr>fw_probed := None\<rparr>) = None"
    by simp_all
  show ?thesis
    using choose unfolding forward_body_def Let_def commit same
    by (cases "cursor_seek (ig_cursor (fw_integration fw)) (pp_s ?cur)") simp_all
qed

text \<open>The start of a pass, and the state between the passes.\<close>

definition round_inv :: "path \<Rightarrow> traj_options \<Rightarrow> switching_point \<times> integration \<Rightarrow> bool" where
  "round_inv p opt r \<longleftrightarrow> (case r of (sp, st) \<Rightarrow>
     switch_ok p opt sp \<and> standing p (ig_cursor st) \<and> cache_within p opt (ig_cache st) \<and>
     (ig_points st = [] \<and> sp_point sp = \<lparr>pp_s = 0, pp_s_dot = 0\<rparr> \<and> sp_kind sp \<noteq> K_path_end \<or>
      (\<exists>init l. ig_points st = init @ [l] \<and> init \<noteq> [] \<and> sound_points p opt (ig_points st) \<and>
         ip_s l = pp_s (sp_point sp) \<and> ip_s_dot l = pp_s_dot (sp_point sp) \<and> ig_duration st = ip_time l)))"

lemma forward_start_ok:
  assumes "round_inv p opt (start, st)" "forward_start start st = Inr fw"
  shows "forward_inv p opt fw"
proof (cases "ig_points st = []")
  case True
  with assms show ?thesis
    by (auto simp: forward_start_def forward_inv_def round_inv_def sound_points_def sound_point_def starts_at_rest_def
        switch_ok_def sp_within_def)
next
  case False
  then obtain init l where l: "ig_points st = init @ [l]" "init \<noteq> []" "sound_points p opt (init @ [l])"
      "ip_s l = pp_s (sp_point start)" "ip_s_dot l = pp_s_dot (sp_point start)"
    using assms(1) by (auto simp: round_inv_def)
  have "sound_points p opt (init @ [step_point (ip_time l) (sp_point start) NaN])"
    by (rule sound_points_retarget [OF l(3)]) (simp add: same_place_def l(4,5))
  with assms l(1,2) show ?thesis
    by (auto simp: forward_start_def forward_inv_def round_inv_def switch_ok_def sp_within_def)
qed

lemma forward_pass_ok:
  assumes "sound_options p opt" "round_inv p opt (start, st)" "integrate_forward_from opt start st = Inr r"
  shows "forward_result p opt r"
proof -
  obtain fw where fw: "forward_start start st = Inr fw" "loop_flow (forward_body opt start) fw = Inr r"
    using assms(3) by (auto simp: integrate_forward_from_def bind_res_eq_Inr)
  have w: "sp_within p opt start" using assms(2) by (simp add: round_inv_def switch_ok_def)
  show ?thesis
  proof (rule loop_flow_invariant [OF fw(2), of "forward_inv p opt"])
    show "forward_inv p opt s'" if "forward_inv p opt s" "forward_body opt start s = Inr (Continue s')" for s s'
      using forward_body_ok [OF assms(1) w that] by (simp add: step_kept_def)
    show "forward_result p opt q" if "forward_inv p opt s" "forward_body opt start s = Inr (Return q)" for s q
      using forward_body_ok [OF assms(1) w that] by (simp add: step_kept_def)
  qed (rule forward_start_ok [OF assms(2) fw(1)])
qed

end
