(* ===== verification/Backward_Integration.thy ===== *)
theory Backward_Integration
  imports Forward_Integration
begin

text \<open>
  The backward pass (\<open>trajectory::create\<close>, lambda \<open>integrate_backwards_from\<close>): from a switching point it
  steps back with the least acceleration, solves for the velocity that makes each step exact, looks for
  the forward trajectory, and splices the two where they meet.
\<close>

section \<open>The acceleration of a step\<close>

definition backward_acceleration ::
  "traj_options \<Rightarrow> cursor \<Rightarrow> integration_point \<Rightarrow> arc_acceleration res" where
  "backward_acceleration opt c current =
     (let base = cursor_base c in
      bind_res (deref (cur_path c) base) (\<lambda>here.
      bind_res (if feq (ip_s current) (view_start here)
                then if base = 0 then Inl (Undefined_behaviour ''decrement of the begin iterator'')
                     else deref (cur_path c) (base - 1)
                else Inr here) (\<lambda>segment.
      bind_res (view_tangent segment (ip_s current)) (\<lambda>q_prime.
      bind_res (view_curvature segment (ip_s current)) (\<lambda>q_double_prime.
      bind_res (compute_acceleration_bounds q_prime q_double_prime (ip_s_dot current) (to_max_acceleration opt)
                  (to_epsilon opt)) (\<lambda>bounds. Inr (ab_s_ddot_min bounds)))))))"

definition quantize_backward ::
  "traj_options \<Rightarrow> segment_view \<Rightarrow> integration_point \<Rightarrow> phase_point \<Rightarrow> phase_point" where
  "quantize_backward opt seg current next_point =
     (let double_epsilon = to_epsilon opt * 2
      in if \<not> feq (ip_s current) (view_start seg) \<and> eps_le double_epsilon (pp_s next_point) (view_start seg)
         then
           let ds_desired = pp_s next_point - ip_s current; ds_achieved = view_start seg - ip_s current
           in \<lparr>pp_s = view_start seg,
               pp_s_dot = lerp (ip_s_dot current) (pp_s_dot next_point) (divide ds_achieved ds_desired)\<rparr>
         else next_point)"

section \<open>Solving for the velocity\<close>

text \<open>
  The residual at a velocity: the acceleration that connects it to the current point, less the least
  feasible acceleration there.
\<close>

definition eval_residual ::
  "traj_options \<Rightarrow> xvector \<Rightarrow> xvector \<Rightarrow> arc_length \<Rightarrow> arc_velocity \<Rightarrow> arc_velocity \<Rightarrow> arc_acceleration" where
  "eval_residual opt q_prime q_double_prime delta_s current_s_dot s_dot =
     (let delta_s_dot = current_s_dot - s_dot;
          s_dot_average = midpoint s_dot current_s_dot;
          dt = divide delta_s s_dot_average;
          required_s_ddot = divide delta_s_dot dt;
          bounds = compute_acceleration_bounds_unchecked q_prime q_double_prime s_dot (to_max_acceleration opt)
                     (to_epsilon opt)
      in required_s_ddot - ab_s_ddot_min bounds)"

definition straddles_zero :: "arc_acceleration \<Rightarrow> arc_acceleration \<Rightarrow> bool" where
  "straddles_zero a b \<longleftrightarrow> (a \<le> 0 \<and> 0 \<le> b) \<or> (0 \<le> a \<and> b \<le> 0)"

record bracket =
  bk_low :: arc_velocity
  bk_high :: arc_velocity
  bk_residual_low :: arc_acceleration
  bk_residual_high :: arc_acceleration

text \<open>The expansion: the bracket with the step it grows by, doubled in every round.\<close>

definition expand_body ::
  "(arc_velocity \<Rightarrow> arc_acceleration) \<Rightarrow> arc_velocity \<Rightarrow> bracket \<times> arc_velocity \<Rightarrow>
     (bracket \<times> arc_velocity, bracket) flow res" where
  "expand_body residual upper_limit = (\<lambda>(b, delta_s_dot).
     if straddles_zero (bk_residual_low b) (bk_residual_high b) then Inr (Return b)
     else
       let delta = delta_s_dot * 2;
           low = std_max 0 (bk_low b - delta);
           high = bk_high b + delta
       in if upper_limit < high
          then Inl (Runtime_error ''Backward integration solver bracket expansion exceeded phase plane velocity ceiling'')
          else Inr (Continue (\<lparr>bk_low = low, bk_high = high, bk_residual_low = residual low,
                               bk_residual_high = residual high\<rparr>, delta)))"

text \<open>
  \<open>s_dot_mid == s_dot_low || s_dot_mid == s_dot_high\<close>: no double lies between the ends. For two doubles
  \<open>0 \<le> a < b\<close> this holds just when they are no further apart than the spacing at \<open>a\<close>, which is how it
  reads for the exact numbers of the model.
\<close>

definition pinched :: "arc_velocity \<Rightarrow> arc_velocity \<Rightarrow> bool" where
  "pinched low high \<longleftrightarrow>
     (case (low, high) of (Fin a, Fin b) \<Rightarrow> b - a \<le> ulp a
      | _ \<Rightarrow> feq (midpoint low high) low \<or> feq (midpoint low high) high)"

definition bisect_body ::
  "(arc_velocity \<Rightarrow> arc_acceleration) \<Rightarrow> epsilon \<Rightarrow> bracket \<Rightarrow> (bracket, bracket) flow res" where
  "bisect_body residual eps b =
     (if \<not> straddles_zero (bk_residual_low b) (bk_residual_high b)
      then Inl (Runtime_error ''Backward integration solver bracket lost zero-straddle invariant'')
      else if pinched (bk_low b) (bk_high b) then Inr (Return b)
      else
        let mid = midpoint (bk_low b) (bk_high b); residual_mid = residual mid
        in if eps_eq eps residual_mid 0
           then Inr (Return \<lparr>bk_low = mid, bk_high = mid, bk_residual_low = residual_mid,
                             bk_residual_high = residual_mid\<rparr>)
           else if straddles_zero (bk_residual_low b) residual_mid
           then Inr (Continue (b\<lparr>bk_high := mid, bk_residual_high := residual_mid\<rparr>))
           else Inr (Continue (b\<lparr>bk_low := mid, bk_residual_low := residual_mid\<rparr>)))"

definition initial_bracket ::
  "(arc_velocity \<Rightarrow> arc_acceleration) \<Rightarrow> epsilon \<Rightarrow> arc_velocity \<Rightarrow> arc_velocity \<Rightarrow> bracket \<times> arc_velocity" where
  "initial_bracket residual eps current_s_dot next_s_dot =
     (let delta_s_dot = next_s_dot - current_s_dot;
          other_bound = next_s_dot - delta_s_dot;
          low = std_max 0 (std_min next_s_dot other_bound - eps);
          high = std_max next_s_dot other_bound + eps
      in (\<lparr>bk_low = low, bk_high = high, bk_residual_low = residual low, bk_residual_high = residual high\<rparr>,
          \<bar>delta_s_dot\<bar>))"

text \<open>The velocity for the step, given the naive one; \<open>s_dot_upper_bound\<close> is the phase plane's ceiling.\<close>

definition solve_velocity ::
  "(arc_velocity \<Rightarrow> arc_acceleration) \<Rightarrow> epsilon \<Rightarrow> arc_velocity \<Rightarrow> arc_velocity \<Rightarrow> arc_velocity \<Rightarrow> arc_velocity res" where
  "solve_velocity residual eps s_dot_upper_bound current_s_dot next_s_dot =
     (if eps_eq eps (residual next_s_dot) 0 then Inr next_s_dot
      else
        bind_res (loop_flow (expand_body residual (2 * s_dot_upper_bound))
                    (initial_bracket residual eps current_s_dot next_s_dot)) (\<lambda>b.
        bind_res (loop_flow (bisect_body residual eps) b) (\<lambda>b'.
          Inr (if \<bar>bk_residual_low b'\<bar> \<le> \<bar>bk_residual_high b'\<bar> then bk_low b' else bk_high b'))))"

section \<open>Meeting the forward trajectory\<close>

text \<open>
  The window \<open>w\<close> is the index of the left end of a forward segment; the result is the index of the
  segment that is crossed, if any, and the window for the next step.
\<close>

definition crosses_within :: "integration_point list \<Rightarrow> nat \<Rightarrow> phase_point \<Rightarrow> bool" where
  "crosses_within points w next_point =
     (let fwd_left = points ! w; fwd_right = points ! Suc w;
          fwd_range = ip_s fwd_right - ip_s fwd_left;
          fwd_interp = lerp (ip_s_dot fwd_left) (ip_s_dot fwd_right) (divide (pp_s next_point - ip_s fwd_left) fwd_range)
      in fwd_interp < pp_s_dot next_point)"

definition above_at_left :: "integration_point list \<Rightarrow> nat \<Rightarrow> integration_point \<Rightarrow> phase_point \<Rightarrow> bool" where
  "above_at_left points w current next_point =
     (let fwd_left = points ! w
      in ip_s fwd_left < ip_s current \<and>
         (let bwd_range = ip_s current - pp_s next_point;
              bwd_interp = lerp (pp_s_dot next_point) (ip_s_dot current) (divide (ip_s fwd_left - pp_s next_point) bwd_range)
          in ip_s_dot fwd_left < bwd_interp))"

primrec slide_window ::
  "integration_point list \<Rightarrow> integration_point \<Rightarrow> phase_point \<Rightarrow> nat \<Rightarrow> nat option \<times> nat" where
  "slide_window points current next_point 0 =
     (if \<not> pp_s next_point < ip_s (points ! 1) then (None, 0)
      else if ip_s (points ! 0) \<le> pp_s next_point
      then (if crosses_within points 0 next_point then Some 0 else None, 0)
      else if above_at_left points 0 current next_point then (Some 0, 0)
      else (None, 0))"
| "slide_window points current next_point (Suc w) =
     (if \<not> pp_s next_point < ip_s (points ! Suc (Suc w)) then (None, Suc w)
      else if ip_s (points ! Suc w) \<le> pp_s next_point
      then (if crosses_within points (Suc w) next_point then Some (Suc w) else None, Suc w)
      else if above_at_left points (Suc w) current next_point then (Some (Suc w), Suc w)
      else slide_window points current next_point w)"

text \<open>
  The splice: the forward points up to the left end of the crossed segment, whose acceleration is made
  to lead to the leftmost backward point, then the backward points from left to right. Their times were
  the durations of their steps and are summed up from the splice on.
\<close>

fun retime :: "seconds \<Rightarrow> integration_point list \<Rightarrow> integration_point list" where
  "retime clock [] = []"
| "retime clock (p # ps) = p\<lparr>ip_time := clock\<rparr> # retime (clock + ip_time p) ps"

definition splice ::
  "traj_options \<Rightarrow> integration_point list \<Rightarrow> nat \<Rightarrow> integration_point list \<Rightarrow> integration_point list res" where
  "splice opt points intersection backwards_points =
     (let kept = take (Suc intersection) points;
          last_forward = last kept; first_backward = last backwards_points;
          delta_s = ip_s first_backward - ip_s last_forward;
          mean_sdot = midpoint (ip_s_dot last_forward) (ip_s_dot first_backward)
      in if eps_eq (to_epsilon opt) mean_sdot 0
         then Inl (Runtime_error ''Splice point has near-zero average velocity - division by zero in dt computation'')
         else
           let dt = divide delta_s mean_sdot
           in if dt \<le> 0
              then Inl (Runtime_error ''Computed negative or zero dt at splice point - intersection detection error'')
              else
                let computed_s_ddot = divide (ip_s_dot first_backward - ip_s_dot last_forward) dt
                in Inr (butlast kept @ [last_forward\<lparr>ip_s_ddot := computed_s_ddot\<rparr>] @
                        retime (ip_time last_forward + dt) (rev backwards_points)))"

section \<open>One step and the whole pass\<close>

record backward =
  bw_points :: "integration_point list"
  bw_cursor :: cursor
  bw_window :: nat

definition feasible_backward :: "traj_options \<Rightarrow> cursor \<Rightarrow> phase_point \<Rightarrow> unit res" where
  "feasible_backward opt c next_point =
     bind_res (cursor_limit_curves c opt) (\<lambda>curves.
       let s_dot_limit = std_min (lc_s_dot_max_acc curves) (lc_s_dot_max_vel curves)
       in if s_dot_limit \<le> 0
          then Inl (Runtime_error ''TOTG algorithm error: velocity limit curve is non-positive during backward integration'')
          else if eps_greater (to_epsilon opt) (pp_s_dot next_point) s_dot_limit
          then Inl (Runtime_error ''TOTG algorithm error: backward integration exceeded limit curve - trajectory is infeasible'')
          else Inr ())"

definition backward_step_point :: "integration_point \<Rightarrow> phase_point \<Rightarrow> integration_point" where
  "backward_step_point current next_point =
     (let ds = ip_s current - pp_s next_point;
          mean_v = midpoint (pp_s_dot next_point) (ip_s_dot current);
          dt = divide ds mean_v;
          delta_v = ip_s_dot current - pp_s_dot next_point
      in \<lparr>ip_time = dt, ip_s = pp_s next_point, ip_s_dot = pp_s_dot next_point, ip_s_ddot = divide delta_v dt\<rparr>)"

text \<open>
  The candidate of one step from the last backward point: Euler step, quantisation, the two checks, and
  unless the acceleration is mandated the solved velocity.
\<close>

definition backward_candidate ::
  "traj_options \<Rightarrow> arc_velocity \<Rightarrow> arc_acceleration option \<Rightarrow> cursor \<Rightarrow> integration_point \<Rightarrow> (phase_point \<times> cursor) res" where
  "backward_candidate opt s_dot_upper_bound mandated c current =
     bind_res (case mandated of Some a \<Rightarrow> Inr a | None \<Rightarrow> backward_acceleration opt c current) (\<lambda>s_ddot_desired.
     bind_res (euler_step (ip_s current) (ip_s_dot current) s_ddot_desired (- to_delta opt) (to_epsilon opt)) (\<lambda>stepped.
     bind_res (cursor_deref c) (\<lambda>seg.
       let next_point = quantize_backward opt seg current stepped
       in if ip_s current \<le> pp_s next_point
          then Inl (Runtime_error ''TOTG algorithm error: backward integration must decrease s'')
          else if pp_s next_point \<le> 0
          then Inl (Runtime_error ''TOTG algorithm error: backward integration reached start without intersecting forward trajectory'')
          else if mandated \<noteq> None then Inr (next_point, c)
          else
            bind_res (cursor_seek c (pp_s next_point)) (\<lambda>c'.
            bind_res (cursor_tangent c') (\<lambda>q_prime.
            bind_res (cursor_curvature c') (\<lambda>q_double_prime.
            bind_res (solve_velocity
                (eval_residual opt q_prime q_double_prime (ip_s current - pp_s next_point) (ip_s_dot current))
                (to_epsilon opt) s_dot_upper_bound (ip_s_dot current) (pp_s_dot next_point)) (\<lambda>s_dot.
              Inr (next_point\<lparr>pp_s_dot := s_dot\<rparr>, c'))))))))"

definition backward_body ::
  "traj_options \<Rightarrow> arc_velocity \<Rightarrow> switching_point \<Rightarrow> integration \<Rightarrow> backward \<Rightarrow>
     (backward, switching_point \<times> integration) flow res" where
  "backward_body opt s_dot_upper_bound start st bw =
     (let current = last (bw_points bw) in
      bind_res (cursor_seek (bw_cursor bw) (ip_s current)) (\<lambda>c.
      bind_res (backward_candidate opt s_dot_upper_bound
                  (if length (bw_points bw) = 1 then sp_backward_accel start else None) c current) (\<lambda>(next_point, c1).
        let (intersection, window) = slide_window (ig_points st) current next_point (bw_window bw)
        in case intersection of
             Some i \<Rightarrow>
               bind_res (splice opt (ig_points st) i (bw_points bw)) (\<lambda>points.
                 Inr (Return (start, st\<lparr>ig_points := points, ig_duration := ip_time (last points)\<rparr>)))
           | None \<Rightarrow>
               bind_res (cursor_seek c1 (pp_s next_point)) (\<lambda>c2.
               bind_res (feasible_backward opt c2 next_point) (\<lambda>_.
                 Inr (Continue \<lparr>bw_points = bw_points bw @ [backward_step_point current next_point],
                                bw_cursor = c2, bw_window = window\<rparr>))))))"

definition integrate_backwards_from ::
  "traj_options \<Rightarrow> arc_velocity \<Rightarrow> switching_point \<Rightarrow> integration \<Rightarrow> (switching_point \<times> integration) res" where
  "integrate_backwards_from opt s_dot_upper_bound start st =
     (let points = ig_points st; where' = sp_point start in
      if length points < 2
      then Inl (Runtime_error ''Backwards integration must have a forward trajectory to potentially intersect'')
      else if pp_s where' \<le> ip_s (hd points)
      then Inl (Runtime_error ''Backwards integration cannot start at or before the beginning of the path'')
      else if pp_s where' < ip_s (last points)
      then Inl (Runtime_error ''TOTG algorithm error: switching point is behind last forward integration point.'')
      else
        loop_flow (backward_body opt s_dot_upper_bound start st)
          \<lparr>bw_points = [\<lparr>ip_time = 0, ip_s = pp_s where', ip_s_dot = pp_s_dot where',
                         ip_s_ddot = (case sp_forward_accel start of Some a \<Rightarrow> a | None \<Rightarrow> NaN)\<rparr>],
           bw_cursor = ig_cursor st, bw_window = length points - 2\<rparr>)"

end
