(* ===== verification/Trajectory.thy ===== *)
theory Trajectory
  imports Backward_Integration
begin

text \<open>
  \<open>trajectory::create\<close> and the constructor: the checks of the options, the alternation of forward and
  backward passes until the end of the path, and the path for given integration points.
\<close>

section \<open>Trajectories\<close>

record trajectory =
  tr_path :: path
  tr_options :: traj_options
  tr_points :: "integration_point list"
  tr_duration :: seconds

text \<open>
  \<open>trajectory::create\<close> up to the choice of the algorithm. The limits are vectors of finite numbers in
  the model, so only their sign is left to check; an evaluator is a function, so it is set.
\<close>

definition check_options :: "path \<Rightarrow> traj_options \<Rightarrow> unit res" where
  "check_options p opt =
     (if length (to_max_velocity opt) \<noteq> path_dof p
      then Inl (Invalid_argument ''max_velocity DOF doesn't match path DOF'')
      else if length (to_max_acceleration opt) \<noteq> path_dof p
      then Inl (Invalid_argument ''max_acceleration DOF doesn't match path DOF'')
      else if \<not> list_all (\<lambda>x. 0 \<le> x) (to_max_velocity opt)
      then Inl (Invalid_argument ''max_velocity must be finite and non-negative'')
      else if \<not> list_all (\<lambda>x. 0 \<le> x) (to_max_acceleration opt)
      then Inl (Invalid_argument ''max_acceleration must be finite and non-negative'')
      else if \<not> isfinite (to_delta opt) \<or> to_delta opt \<le> 0
      then Inl (Invalid_argument ''delta must be finite and positive'')
      else if \<not> isfinite (to_epsilon opt) \<or> to_epsilon opt \<le> 0
      then Inl (Invalid_argument ''epsilon must be finite and positive'')
      else
        case to_tcp opt of
          None \<Rightarrow> Inr ()
        | Some tcp \<Rightarrow>
            if \<not> 0 < tcp_max_linear_speed tcp \<or> \<not> isfinite (tcp_max_linear_speed tcp)
            then Inl (Invalid_argument ''tcp.max_linear_speed must be a finite positive number'')
            else Inr ())"

text \<open>The constructor from given points.\<close>

definition make_trajectory :: "path \<Rightarrow> traj_options \<Rightarrow> integration_point list \<Rightarrow> trajectory res" where
  "make_trajectory p opt points =
     (if path_empty p \<or> path_length p \<le> 0 then Inl (Invalid_argument ''Path must not be empty'')
      else if length points < 2 then Inl (Invalid_argument ''Trajectory must have at least 2 integration points'')
      else if \<not> feq (ip_time (hd points)) 0 then Inl (Invalid_argument ''First integration point must have time == 0'')
      else if \<not> feq (ip_s (hd points)) 0 then Inl (Invalid_argument ''First integration point must have arc length == 0'')
      else if \<not> feq (ip_s (last points)) (path_length p)
      then Inl (Invalid_argument ''Last integration point must have arc length == path.length()'')
      else Inr \<lparr>tr_path = p, tr_options = opt, tr_points = points, tr_duration = ip_time (last points)\<rparr>)"

section \<open>The algorithm\<close>

text \<open>\<open>std::sqrt(dof) * xt::amax(max_velocity)\<close>\<close>

definition s_dot_ceiling :: "path \<Rightarrow> traj_options \<Rightarrow> arc_velocity" where
  "s_dot_ceiling p opt =
     (case to_max_velocity opt of
        [] \<Rightarrow> 0
      | v # vs \<Rightarrow> Fin (sqrt (real (path_dof p)) * fold max vs v))"

definition path_begin :: switching_point where
  "path_begin = \<lparr>sp_point = \<lparr>pp_s = 0, pp_s_dot = 0\<rparr>, sp_kind = K_path_begin,
     sp_forward_accel = None, sp_backward_accel = None\<rparr>"

definition start_integration :: "path \<Rightarrow> integration res" where
  "start_integration p =
     bind_res (create_cursor p 0) (\<lambda>c.
       Inr \<lparr>ig_points = [], ig_duration = 0, ig_cursor = c,
            ig_cache = \<lparr>spc_next_accel = None, spc_next_vel = None\<rparr>\<rparr>)"

definition forward_progress ::
  "traj_options \<Rightarrow> switching_point \<Rightarrow> integration \<Rightarrow> (switching_point \<times> integration) res" where
  "forward_progress opt from' st =
     bind_res (integrate_forward_from opt from' st) (\<lambda>(to', st').
       if pp_s (sp_point to') \<le> pp_s (sp_point from')
       then Inl (Runtime_error ''TOTG algorithm error: forward integration made no progress between switching points.'')
       else Inr (to', st'))"

definition totg_body ::
  "traj_options \<Rightarrow> arc_velocity \<Rightarrow> switching_point \<times> integration \<Rightarrow>
     (switching_point \<times> integration, integration) flow res" where
  "totg_body opt ceiling' = (\<lambda>(sp, st).
     if sp_kind sp = K_path_end then Inr (Return st)
     else
       bind_res (forward_progress opt sp st) (\<lambda>(sp', st').
       bind_res (integrate_backwards_from opt ceiling' sp' st') (\<lambda>next_round. Inr (Continue next_round))))"

definition run_totg :: "path \<Rightarrow> traj_options \<Rightarrow> trajectory res" where
  "run_totg p opt =
     bind_res (start_integration p) (\<lambda>st.
     bind_res (loop_flow (totg_body opt (s_dot_ceiling p opt)) (path_begin, st)) (\<lambda>st'.
       Inr \<lparr>tr_path = p, tr_options = opt, tr_points = ig_points st', tr_duration = ig_duration st'\<rparr>))"

section \<open>Given points\<close>

fun check_pairs :: "path \<Rightarrow> integration_point list \<Rightarrow> unit res" where
  "check_pairs p (current # next_point # rest) =
     (if ip_time next_point \<le> ip_time current
      then Inl (Invalid_argument ''Integration points must be sorted by strictly increasing time'')
      else if ip_s current < 0 \<or> path_length p < ip_s current
      then Inl (Invalid_argument ''Integration point arc lengths must be in [0, path.length()]'')
      else if ip_s next_point < ip_s current
      then Inl (Invalid_argument ''Integration point arc lengths must be monotonically non-decreasing'')
      else check_pairs p (next_point # rest))"
| "check_pairs p _ = Inr ()"

definition check_points :: "path \<Rightarrow> integration_point list \<Rightarrow> unit res" where
  "check_points p points =
     (if \<not> feq (ip_time (hd points)) 0 then Inl (Invalid_argument ''First integration point must have time == 0'')
      else
        bind_res (check_pairs p points) (\<lambda>_.
          if ip_s (last points) < 0 \<or> path_length p < ip_s (last points)
          then Inl (Invalid_argument ''Integration point arc lengths must be in [0, path.length()]'')
          else Inr ()))"

definition trajectory_create :: "path \<Rightarrow> traj_options \<Rightarrow> integration_point list \<Rightarrow> trajectory res" where
  "trajectory_create p opt points =
     bind_res (check_options p opt) (\<lambda>_.
       if points = [] then run_totg p opt
       else bind_res (check_points p points) (\<lambda>_. make_trajectory p opt points))"

end
