(* ===== verification/Backward_Safety.thy ===== *)
theory Backward_Safety
  imports Forward_Safety Trajectory
begin

text \<open>
  What the backward pass keeps, and with it the whole algorithm: after every splice the committed
  points are again linked and within the limit curves, and they end at the switching point.
\<close>

section \<open>The chain of backward points\<close>

text \<open>Before the splice a backward point carries the duration of its step in place of the time.\<close>

definition leads :: "integration_point \<Rightarrow> integration_point \<Rightarrow> bool" where
  "leads p q \<longleftrightarrow> ip_s p < ip_s q \<and>
     ip_time p = divide (ip_s q - ip_s p) (midpoint (ip_s_dot p) (ip_s_dot q)) \<and>
     ip_s_ddot p = divide (ip_s_dot q - ip_s_dot p) (ip_time p)"

lemma retime_Nil_iff [simp]: "retime clock ps = [] \<longleftrightarrow> ps = []"
  by (cases ps) simp_all

lemma hd_retime: "ps \<noteq> [] \<Longrightarrow> hd (retime clock ps) = (hd ps)\<lparr>ip_time := clock\<rparr>"
  by (cases ps) simp_all

lemma retime_keeps:
  "list_all2 (\<lambda>p q. ip_s p = ip_s q \<and> ip_s_dot p = ip_s_dot q \<and> ip_s_ddot p = ip_s_ddot q) (retime clock ps) ps"
  by (induction clock ps rule: retime.induct) auto

lemma last_retime:
  "ps \<noteq> [] \<Longrightarrow> ip_s (last (retime clock ps)) = ip_s (last ps) \<and> ip_s_dot (last (retime clock ps)) = ip_s_dot (last ps)"
  by (induction clock ps rule: retime.induct) auto

lemma sound_retime: "\<forall>q \<in> set ps. sound_point p opt q \<Longrightarrow> \<forall>q \<in> set (retime clock ps). sound_point p opt q"
  by (induction clock ps rule: retime.induct) (auto simp: sound_point_def)

lemma retime_connects: "successively leads ps \<Longrightarrow> successively connects (retime clock ps)"
proof (induction clock ps rule: retime.induct)
  case (2 clock p ps)
  then show ?case
    by (cases ps) (auto simp: leads_def connects_def Let_def)
qed simp

lemma midpoint_commute: "midpoint a b = midpoint b a"
  by (simp add: midpoint_def dbl_add_commute)

lemma backward_step_leads:
  "pp_s next_point < ip_s current \<Longrightarrow> leads (backward_step_point current next_point) current"
  by (simp add: leads_def backward_step_point_def Let_def)

text \<open>The splice.\<close>

lemma splice_sound:
  assumes "sound_points p opt (take (Suc i) points)" "bw \<noteq> []" "successively leads (rev bw)"
    "\<forall>q \<in> set bw. sound_point p opt q" "ip_s (points ! i) < ip_s (last bw)" "i < length points"
    "splice opt points i bw = Inr r"
  shows "sound_points p opt r" "\<exists>init l. r = init @ [l] \<and> init \<noteq> [] \<and> ip_s l = ip_s (hd bw) \<and> ip_s_dot l = ip_s_dot (hd bw)"
proof -
  let ?f = "points ! i" and ?first = "last bw"
  define dt where "dt = divide (ip_s ?first - ip_s ?f) (midpoint (ip_s_dot ?f) (ip_s_dot ?first))"
  define f where "f = ?f\<lparr>ip_s_ddot := divide (ip_s_dot ?first - ip_s_dot ?f) dt\<rparr>"
  have kept: "take (Suc i) points = take i points @ [?f]" using assms(6) by (simp add: take_Suc_conv_app_nth)
  have r: "r = take i points @ [f] @ retime (ip_time ?f + dt) (rev bw)"
    using assms(7) by (auto simp: splice_def Let_def kept dt_def f_def split: if_split_asm)
  have "sound_points p opt (take i points @ [f])"
    by (rule sound_points_retarget [OF assms(1) [unfolded kept]]) (simp add: same_place_def f_def)
  moreover have "connects f (hd (retime (ip_time ?f + dt) (rev bw)))"
    using assms(2,5) by (simp add: hd_retime hd_rev connects_def f_def dt_def Let_def)
  moreover note retime_connects [OF assms(3)] sound_retime [of "rev bw"] assms(4)
  ultimately show "sound_points p opt r"
    by (auto simp: r sound_points_def successively_append_iff successively_Cons hd_append split: if_splits)
  have "retime (ip_time ?f + dt) (rev bw) =
      butlast (retime (ip_time ?f + dt) (rev bw)) @ [last (retime (ip_time ?f + dt) (rev bw))]"
    using assms(2) by simp
  with last_retime [of "rev bw"] assms(2)
  show "\<exists>init l. r = init @ [l] \<and> init \<noteq> [] \<and> ip_s l = ip_s (hd bw) \<and> ip_s_dot l = ip_s_dot (hd bw)"
    by (intro exI [of _ "take i points @ [f] @ butlast (retime (ip_time ?f + dt) (rev bw))"]
        exI [of _ "last (retime (ip_time ?f + dt) (rev bw))"]) (simp add: r last_rev)
qed

section \<open>The window\<close>

lemma slide_window_result:
  assumes "slide_window points current next_point w = (r, w')"
  shows "w' \<le> w" "r = Some i \<Longrightarrow> i \<le> w \<and> (ip_s (points ! i) \<le> pp_s next_point \<or> ip_s (points ! i) < ip_s current)"
  using assms
  by (induction w arbitrary: r w') (auto simp: above_at_left_def Let_def le_SucI split: if_split_asm)

section \<open>The step\<close>

lemma euler_position:
  "euler_step s v a dt eps = Inr q \<Longrightarrow> isfinite s \<Longrightarrow> isfinite v \<Longrightarrow> isfinite a \<Longrightarrow> isfinite dt \<Longrightarrow> \<not> pp_s q \<le> 0 \<Longrightarrow>
     isfinite (pp_s q)"
  using euler_step_finite(2) [of s v a dt eps q] by auto

lemma seek_reads:
  assumes "standing p c" "cursor_seek c s = Inr c'" "cursor_tangent c' = Inr q"
  shows "standing p c'" "on_path p s"
proof -
  show st: "standing p c'" by (rule cursor_seek_standing [OF assms])
  have "cursor_inv c" "cur_path c = p" using assms(1) by (auto simp: standing_def)
  with cursor_seek_spec [of c s] assms(2) have "cur_position c' = seek_position p s" by auto
  with st show "on_path p s"
    by (auto simp: standing_def cursor_inv_def seek_position_def split: if_split_asm)
qed

lemma candidate_ahead:
  assumes "sound_options p opt" "standing p c" "cur_position c = ip_s current"
    "\<And>a. mandated = Some a \<Longrightarrow> isfinite a \<and> isfinite (ip_s_dot current)"
    "backward_candidate opt limit mandated c current = Inr (next_point, c')"
  shows "standing p c'" "on_path p (pp_s next_point)" "pp_s next_point < ip_s current"
proof -
  obtain x where x: "ip_s current = Fin x" "Fin x \<le> path_length p" "path_inv p"
    using standingE [OF assms(2)] assms(3) by metis
  obtain e d where e: "to_epsilon opt = Fin e" "to_delta opt = Fin d" using sound_optionsE [OF assms(1)] by metis
  obtain a stepped seg where b: "(case mandated of Some a \<Rightarrow> Inr a | None \<Rightarrow> backward_acceleration opt c current) = Inr a"
      "euler_step (ip_s current) (ip_s_dot current) a (- to_delta opt) (to_epsilon opt) = Inr stepped" "cursor_deref c = Inr seg"
    and q: "\<not> ip_s current \<le> pp_s (quantize_backward opt seg current stepped)"
      "\<not> pp_s (quantize_backward opt seg current stepped) \<le> 0"
    and r: "mandated \<noteq> None \<and> next_point = quantize_backward opt seg current stepped \<and> c' = c \<or>
      mandated = None \<and> (\<exists>q. pp_s next_point = pp_s (quantize_backward opt seg current stepped) \<and>
        cursor_seek c (pp_s next_point) = Inr c' \<and> cursor_tangent c' = Inr q)"
    using assms(5) by (auto simp: backward_candidate_def bind_res_eq_Inr Let_def split: if_split_asm)
  let ?n = "quantize_backward opt seg current stepped"
  have "standing p c' \<and> on_path p (pp_s ?n)"
    using r
  proof (elim disjE conjE exE)
    fix m assume "mandated \<noteq> None" and n: "next_point = ?n" "c' = c"
    then have "isfinite a" "isfinite (ip_s_dot current)" using assms(4) b(1) by auto
    note p = euler_position [OF b(2) _ this(2,1)]
    note sv = standing_view [OF assms(2) b(3)] and w = segment_within [OF x(3) standing_view(4) [OF assms(2) b(3)]]
    have "pp_s ?n = pp_s stepped \<or> pp_s ?n = view_start seg" by (auto simp: quantize_backward_def Let_def)
    moreover have "0 \<le> view_start seg" "view_start seg \<le> Fin x" using sv(1,5) w x(1) assms(3) by simp_all
    then have "isfinite (view_start seg)" by (cases "view_start seg") simp_all
    moreover have "isfinite (pp_s stepped)" if "\<not> pp_s stepped \<le> 0" using p x(1) e(2) that by simp
    ultimately have "isfinite (pp_s ?n)" using q(2) by auto
    then show ?thesis using q x assms(2) n by (cases "path_length p") (auto simp: isfinite_iff on_path_def)
  next
    fix q' assume "pp_s next_point = pp_s ?n" "cursor_seek c (pp_s next_point) = Inr c'" "cursor_tangent c' = Inr q'"
    with seek_reads [OF assms(2) this(2,3)] show ?thesis by simp
  qed
  moreover have "pp_s next_point = pp_s ?n" using r by auto
  moreover note on_path_finite [OF x(3), of "pp_s ?n"]
  ultimately show "standing p c'" "on_path p (pp_s next_point)" "pp_s next_point < ip_s current"
    using q(1) x(1) by (auto simp: isfinite_iff)
qed

text \<open>The feasibility check admits no finite velocity above the curves.\<close>

lemma feasible_sound:
  assumes "sound_options p opt" "standing p c" "cur_position c = pp_s next_point" "feasible_backward opt c next_point = Inr u"
  shows "0 \<le> pp_s_dot next_point \<longrightarrow> within_limits p opt (pp_s next_point) (pp_s_dot next_point)"
proof
  assume pos: "0 \<le> pp_s_dot next_point"
  obtain e where e: "to_epsilon opt = Fin e" "0 < e" using sound_optionsE [OF assms(1)] by metis
  obtain curves where c: "cursor_limit_curves c opt = Inr curves"
    and le: "\<not> eps_greater (Fin e) (pp_s_dot next_point) (std_min (lc_s_dot_max_acc curves) (lc_s_dot_max_vel curves))"
    using assms(4) e(1) by (auto simp: feasible_backward_def bind_res_eq_Inr Let_def split: if_split_asm)
  note pr = cursor_curves_proper [OF assms(1,2) c]
  note b = std_min_bounds [OF proper_curvesD(1,2) [OF pr]]
  have both: "\<not> eps_greater (Fin e) (pp_s_dot next_point) (lc_s_dot_max_acc curves)"
    "\<not> eps_greater (Fin e) (pp_s_dot next_point) (lc_s_dot_max_vel curves)"
    using eps_greater_trans [OF le _ e(2)] b by blast+
  moreover have "isfinite (pp_s_dot next_point)"
    using both(2) pos proper_curvesD(3) [OF pr]
    by (cases "pp_s_dot next_point") (auto simp: isfinite_iff eps_greater_def wrap_compare_def Let_def)
  ultimately have "under_curves opt curves (pp_s_dot next_point)" by (simp add: under_curves_def e(1))
  with cursor_limits_at [OF assms(2) c] assms(3) show "within_limits p opt (pp_s next_point) (pp_s_dot next_point)"
    by (auto intro: within_limitsI)
qed

section \<open>The pass\<close>

definition backward_inv :: "path \<Rightarrow> traj_options \<Rightarrow> switching_point \<Rightarrow> nat \<Rightarrow> backward \<Rightarrow> bool" where
  "backward_inv p opt start n bw \<longleftrightarrow> standing p (bw_cursor bw) \<and> bw_window bw \<le> n \<and>
     bw_points bw \<noteq> [] \<and> successively leads (rev (bw_points bw)) \<and> (\<forall>q \<in> set (bw_points bw). sound_point p opt q) \<and>
     ip_s (hd (bw_points bw)) = pp_s (sp_point start) \<and> ip_s_dot (hd (bw_points bw)) = pp_s_dot (sp_point start)"

lemma backward_bodyE:
  assumes "backward_body opt limit start st bw = Inr r"
  obtains c next_point c1 where "cursor_seek (bw_cursor bw) (ip_s (last (bw_points bw))) = Inr c"
    "backward_candidate opt limit (if length (bw_points bw) = 1 then sp_backward_accel start else None) c
       (last (bw_points bw)) = Inr (next_point, c1)"
    "(\<exists>i w points. slide_window (ig_points st) (last (bw_points bw)) next_point (bw_window bw) = (Some i, w) \<and>
        splice opt (ig_points st) i (bw_points bw) = Inr points \<and>
        r = Return (start, st\<lparr>ig_points := points, ig_duration := ip_time (last points)\<rparr>)) \<or>
     (\<exists>w c2 u. slide_window (ig_points st) (last (bw_points bw)) next_point (bw_window bw) = (None, w) \<and>
        cursor_seek c1 (pp_s next_point) = Inr c2 \<and> feasible_backward opt c2 next_point = Inr u \<and>
        r = Continue \<lparr>bw_points = bw_points bw @ [backward_step_point (last (bw_points bw)) next_point],
                      bw_cursor = c2, bw_window = w\<rparr>)"
proof -
  obtain c next_point c1 where b: "cursor_seek (bw_cursor bw) (ip_s (last (bw_points bw))) = Inr c"
      "backward_candidate opt limit (if length (bw_points bw) = 1 then sp_backward_accel start else None) c
         (last (bw_points bw)) = Inr (next_point, c1)"
    using assms unfolding backward_body_def Let_def bind_res_eq_Inr by fastforce
  obtain intersection w where sl: "slide_window (ig_points st) (last (bw_points bw)) next_point (bw_window bw) = (intersection, w)"
    by (cases "slide_window (ig_points st) (last (bw_points bw)) next_point (bw_window bw)")
  have "(case intersection of
             Some i \<Rightarrow>
               bind_res (splice opt (ig_points st) i (bw_points bw)) (\<lambda>points.
                 Inr (Return (start, st\<lparr>ig_points := points, ig_duration := ip_time (last points)\<rparr>)))
           | None \<Rightarrow>
               bind_res (cursor_seek c1 (pp_s next_point)) (\<lambda>c2.
               bind_res (feasible_backward opt c2 next_point) (\<lambda>_.
                 Inr (Continue \<lparr>bw_points = bw_points bw @ [backward_step_point (last (bw_points bw)) next_point],
                                bw_cursor = c2, bw_window = w\<rparr>)))) = Inr r"
    using assms unfolding backward_body_def Let_def b bind_res_simps prod.case sl .
  then show thesis by (intro that [OF b]) (auto simp: sl bind_res_eq_Inr split: option.splits)
qed

text \<open>One round of the loop: another backward point, or the spliced points.\<close>

lemma backward_body_ok:
  assumes "sound_options p opt" "switch_ok p opt start" "standing p (ig_cursor st)" "cache_within p opt (ig_cache st)"
    "ig_points st = init @ [l]" "sound_points p opt init" "backward_inv p opt start (length init - 1) bw"
    "backward_body opt limit start st bw = Inr r"
  shows "case r of Continue bw' \<Rightarrow> backward_inv p opt start (length init - 1) bw' | Return q \<Rightarrow> round_inv p opt q"
proof -
  let ?cur = "last (bw_points bw)" and ?B = "bw_points bw"
  obtain c next_point c1 where b: "cursor_seek (bw_cursor bw) (ip_s ?cur) = Inr c"
      "backward_candidate opt limit (if length ?B = 1 then sp_backward_accel start else None) c ?cur = Inr (next_point, c1)"
    and r: "(\<exists>i w points. slide_window (ig_points st) ?cur next_point (bw_window bw) = (Some i, w) \<and>
        splice opt (ig_points st) i ?B = Inr points \<and>
        r = Return (start, st\<lparr>ig_points := points, ig_duration := ip_time (last points)\<rparr>)) \<or>
     (\<exists>w c2 u. slide_window (ig_points st) ?cur next_point (bw_window bw) = (None, w) \<and>
        cursor_seek c1 (pp_s next_point) = Inr c2 \<and> feasible_backward opt c2 next_point = Inr u \<and>
        r = Continue \<lparr>bw_points = ?B @ [backward_step_point ?cur next_point], bw_cursor = c2, bw_window = w\<rparr>)"
    using assms(8) by (rule backward_bodyE)
  have inv: "standing p (bw_cursor bw)" "bw_window bw \<le> length init - 1" "?B \<noteq> []" "successively leads (rev ?B)"
      "\<forall>q \<in> set ?B. sound_point p opt q" "ip_s (hd ?B) = pp_s (sp_point start)" "ip_s_dot (hd ?B) = pp_s_dot (sp_point start)"
    using assms(7) by (simp_all add: backward_inv_def)
  have cur: "on_path p (ip_s ?cur)" using inv(3,5) by (simp add: sound_point_def)
  note s0 = standing_seek [OF inv(1) b(1) cur]
  have "isfinite a \<and> isfinite (ip_s_dot ?cur)" if "(if length ?B = 1 then sp_backward_accel start else None) = Some a" for a
    using that assms(2) inv(3,7)
    by (cases ?B) (auto simp: switch_ok_def sp_within_def dest: within_finite split: if_split_asm)
  note cand = candidate_ahead [OF assms(1) s0(1,2) this b(2)]
  have init: "init \<noteq> []" using assms(6) by (auto simp: sound_points_def)
  from r show ?thesis
  proof (elim disjE exE conjE)
    fix i w points assume sl: "slide_window (ig_points st) ?cur next_point (bw_window bw) = (Some i, w)"
      and sp: "splice opt (ig_points st) i ?B = Inr points"
      and ret: "r = Return (start, st\<lparr>ig_points := points, ig_duration := ip_time (last points)\<rparr>)"
    note i = slide_window_result(2) [OF sl refl]
    have "i < length init" using i inv(2) init by (cases init) auto
    then have "take (Suc i) (ig_points st) = take (Suc i) init" "i < length (ig_points st)" by (simp_all add: assms(5))
    with sound_points_take [OF assms(6)] i cand(3) dbl_le_less_trans
    have "sound_points p opt (take (Suc i) (ig_points st))" "ip_s (ig_points st ! i) < ip_s ?cur" by auto
    from splice_sound [OF this(1) inv(3-5) this(2) \<open>i < length (ig_points st)\<close> sp] inv(6,7) assms(2-4)
    show ?thesis by (auto simp: ret round_inv_def)
  next
    fix w c2 u assume sl: "slide_window (ig_points st) ?cur next_point (bw_window bw) = (None, w)"
      and c2: "cursor_seek c1 (pp_s next_point) = Inr c2" "feasible_backward opt c2 next_point = Inr u"
      and ret: "r = Continue \<lparr>bw_points = ?B @ [backward_step_point ?cur next_point], bw_cursor = c2, bw_window = w\<rparr>"
    note s2 = standing_seek [OF cand(1) c2(1) cand(2)]
    have "sound_point p opt (backward_step_point ?cur next_point)"
      using feasible_sound [OF assms(1) s2(1,2) c2(2)] cand(2) by (simp add: sound_point_def backward_step_point_def Let_def)
    with s2 inv slide_window_result(1) [OF sl] backward_step_leads [OF cand(3)] show ?thesis
      by (auto simp: ret backward_inv_def successively_Cons hd_rev intro: order_trans)
  qed
qed

lemma backward_pass_ok:
  assumes "sound_options p opt" "forward_result p opt (start, st)" "integrate_backwards_from opt limit start st = Inr r"
  shows "round_inv p opt r"
proof -
  obtain init l where f: "switch_ok p opt start" "standing p (ig_cursor st)" "cache_within p opt (ig_cache st)"
      "ig_points st = init @ [l]" "init = [] \<or> sound_points p opt init"
    using assms(2) by (auto simp: forward_result_def)
  define bw where "bw = \<lparr>bw_points = [\<lparr>ip_time = 0, ip_s = pp_s (sp_point start), ip_s_dot = pp_s_dot (sp_point start),
                         ip_s_ddot = (case sp_forward_accel start of Some a \<Rightarrow> a | None \<Rightarrow> NaN)\<rparr>],
           bw_cursor = ig_cursor st, bw_window = length (ig_points st) - 2\<rparr>"
  have l: "loop_flow (backward_body opt limit start st) bw = Inr r" and "2 \<le> length (ig_points st)"
    using assms(3) by (auto simp: integrate_backwards_from_def Let_def bw_def split: if_split_asm)
  then have init: "sound_points p opt init" using f(4,5) by auto
  have inv: "backward_inv p opt start (length init - 1) bw"
    using f by (auto simp: backward_inv_def bw_def sound_point_def switch_ok_def sp_within_def)
  note ok = backward_body_ok [OF assms(1) f(1-4) init, where limit = limit]
  show ?thesis
  proof (rule loop_flow_invariant [OF l, of "backward_inv p opt start (length init - 1)"])
    show "backward_inv p opt start (length init - 1) s'"
      if "backward_inv p opt start (length init - 1) s" "backward_body opt limit start st s = Inr (Continue s')" for s s'
      using ok [OF that] by simp
    show "round_inv p opt q"
      if "backward_inv p opt start (length init - 1) s" "backward_body opt limit start st s = Inr (Return q)" for s q
      using ok [OF that] by simp
  qed (rule inv)
qed

end
