(* ===== verification/Trajectory_Safety.thy ===== *)
theory Trajectory_Safety
  imports Backward_Safety
begin

text \<open>
  The properties of \<open>trajectory::create\<close>: what it accepts, and what a trajectory it computes is.
\<close>

section \<open>What is accepted\<close>

definition acceptable :: "path \<Rightarrow> traj_options \<Rightarrow> bool" where
  "acceptable p opt \<longleftrightarrow> length (to_max_velocity opt) = path_dof p \<and> length (to_max_acceleration opt) = path_dof p \<and>
     (\<forall>x \<in> set (to_max_velocity opt). 0 \<le> x) \<and> (\<forall>x \<in> set (to_max_acceleration opt). 0 \<le> x) \<and>
     isfinite (to_delta opt) \<and> 0 < to_delta opt \<and> isfinite (to_epsilon opt) \<and> 0 < to_epsilon opt \<and>
     (\<forall>tcp. to_tcp opt = Some tcp \<longrightarrow> isfinite (tcp_max_linear_speed tcp) \<and> 0 < tcp_max_linear_speed tcp)"

lemma finite_positive: "isfinite x \<and> \<not> x \<le> 0 \<longleftrightarrow> isfinite x \<and> 0 < x"
  by (cases x) auto

lemma check_options_iff: "check_options p opt = Inr () \<longleftrightarrow> acceptable p opt"
  using finite_positive [of "to_delta opt"] finite_positive [of "to_epsilon opt"]
  by (auto simp: check_options_def acceptable_def list_all_iff split: option.splits)

lemma check_options_error: "check_options p opt = Inl e \<Longrightarrow> \<exists>m. e = Invalid_argument m"
  by (auto simp: check_options_def split: if_split_asm option.split_asm)

lemma check_options_cases:
  obtains "acceptable p opt" "check_options p opt = Inr ()"
  | m where "\<not> acceptable p opt" "check_options p opt = Inl (Invalid_argument m)"
proof (cases "check_options p opt")
  case (Inl e)
  with check_options_error check_options_iff [of p opt] that(2) show ?thesis by fastforce
next
  case (Inr u)
  with check_options_iff [of p opt] that(1) show ?thesis by simp
qed

lemma acceptable_sound:
  assumes "acceptable p opt" "evaluator_returns opt" "(fin (to_epsilon opt))\<^sup>2 * real (path_dof p) \<le> 1"
  shows "sound_options p opt"
  using assms by (auto simp: acceptable_def sound_options_def usable_options_def)

section \<open>The algorithm\<close>

lemma start_round:
  assumes "path_inv p" "start_integration p = Inr st"
  shows "round_inv p opt (path_begin, st)"
proof -
  obtain c where c: "create_cursor p 0 = Inr c" "cursor_inv c" "cur_path c = p" "cur_position c = std_clamp 0 0 (path_length p)"
    using create_cursor_inv [OF assms(1), of 0] by blast
  obtain len where len: "path_length p = Fin len" "0 < len" using path_length_finite [OF assms(1)] by blast
  have "standing p c" using c len by (simp add: standing_def std_clamp_def)
  moreover have "cache_within p opt \<lparr>spc_next_accel = None, spc_next_vel = None\<rparr>"
    by (simp add: cache_within_def empty_cache_inv entry_within_def)
  moreover have "switch_ok p opt path_begin"
    using len by (simp add: switch_ok_def path_begin_def sp_within_def within_limits_def on_path_def)
  ultimately show ?thesis
    using assms(2) c(1) by (auto simp: start_integration_def round_inv_def path_begin_def)
qed

lemma totg_round:
  assumes "sound_options p opt" "round_inv p opt r" "totg_body opt limit r = Inr (Continue r')"
  shows "round_inv p opt r'"
proof -
  obtain sp st where r: "r = (sp, st)" by (cases r)
  obtain sp' st' where f: "forward_progress opt sp st = Inr (sp', st')" "integrate_backwards_from opt limit sp' st' = Inr r'"
    using assms(3) by (auto simp: totg_body_def r bind_res_eq_Inr split: if_split_asm)
  have "integrate_forward_from opt sp st = Inr (sp', st')"
    using f(1) by (auto simp: forward_progress_def bind_res_eq_Inr split: if_split_asm)
  from backward_pass_ok [OF assms(1) forward_pass_ok [OF assms(1) assms(2) [unfolded r] this] f(2)] show ?thesis .
qed

text \<open>A trajectory that reaches from rest at the start of the path to rest at its end.\<close>

definition sound_trajectory :: "path \<Rightarrow> traj_options \<Rightarrow> trajectory \<Rightarrow> bool" where
  "sound_trajectory p opt t \<longleftrightarrow> tr_path t = p \<and> tr_options t = opt \<and> 2 \<le> length (tr_points t) \<and>
     sound_points p opt (tr_points t) \<and>
     ip_s (last (tr_points t)) = path_length p \<and> ip_s_dot (last (tr_points t)) = 0 \<and>
     tr_duration t = ip_time (last (tr_points t))"

lemma totg_result:
  assumes "round_inv p opt r" "totg_body opt limit r = Inr (Return st)"
  shows "2 \<le> length (ig_points st) \<and> sound_points p opt (ig_points st) \<and>
     ip_s (last (ig_points st)) = path_length p \<and> ip_s_dot (last (ig_points st)) = 0 \<and>
     ig_duration st = ip_time (last (ig_points st))"
proof -
  obtain sp where r: "r = (sp, st)" "sp_kind sp = K_path_end"
    using assms(2) by (cases r) (auto simp: totg_body_def bind_res_eq_Inr split: if_split_asm)
  then obtain init l where "ig_points st = init @ [l]" "init \<noteq> []" "sound_points p opt (ig_points st)"
      "ip_s l = pp_s (sp_point sp)" "ip_s_dot l = pp_s_dot (sp_point sp)" "ig_duration st = ip_time l"
      "sp_point sp = \<lparr>pp_s = path_length p, pp_s_dot = 0\<rparr>"
    using assms(1) by (auto simp: round_inv_def switch_ok_def)
  then show ?thesis by (cases init) auto
qed

lemma run_totg_sound:
  assumes "path_inv p" "sound_options p opt" "run_totg p opt = Inr t"
  shows "sound_trajectory p opt t"
proof -
  obtain st st' where st: "start_integration p = Inr st"
      "loop_flow (totg_body opt (s_dot_ceiling p opt)) (path_begin, st) = Inr st'"
      "t = \<lparr>tr_path = p, tr_options = opt, tr_points = ig_points st', tr_duration = ig_duration st'\<rparr>"
    using assms(3) by (auto simp: run_totg_def bind_res_eq_Inr)
  have "2 \<le> length (ig_points st') \<and> sound_points p opt (ig_points st') \<and>
     ip_s (last (ig_points st')) = path_length p \<and> ip_s_dot (last (ig_points st')) = 0 \<and>
     ig_duration st' = ip_time (last (ig_points st'))"
    by (rule loop_flow_invariant [OF st(2), of "round_inv p opt"])
      (use start_round [OF assms(1) st(1)] totg_round [OF assms(2)] totg_result in blast)+
  then show ?thesis by (simp add: sound_trajectory_def st(3))
qed

section \<open>Given points\<close>

definition in_order :: "path \<Rightarrow> integration_point list \<Rightarrow> bool" where
  "in_order p ps \<longleftrightarrow> successively (\<lambda>q r. \<not> ip_time r \<le> ip_time q \<and> \<not> ip_s r < ip_s q) ps \<and>
     (\<forall>q \<in> set ps. \<not> ip_s q < 0 \<and> \<not> path_length p < ip_s q)"

lemma check_pairs_iff:
  "ps \<noteq> [] \<Longrightarrow> check_pairs p ps = Inr () \<longleftrightarrow>
     successively (\<lambda>q r. \<not> ip_time r \<le> ip_time q \<and> \<not> ip_s r < ip_s q) ps \<and>
     (\<forall>q \<in> set (butlast ps). \<not> ip_s q < 0 \<and> \<not> path_length p < ip_s q)"
  by (induction p ps rule: check_pairs.induct) auto

lemma check_pairs_error: "check_pairs p ps = Inl e \<Longrightarrow> \<exists>m. e = Invalid_argument m"
  by (induction p ps rule: check_pairs.induct) (auto split: if_split_asm)

lemma check_points_iff:
  assumes "ps \<noteq> []"
  shows "check_points p ps = Inr () \<longleftrightarrow> ip_time (hd ps) = 0 \<and> in_order p ps"
proof -
  let ?in = "\<lambda>q. \<not> ip_s q < 0 \<and> \<not> path_length p < ip_s q"
  have "(\<forall>q \<in> set (butlast ps @ [last ps]). ?in q) \<longleftrightarrow> (\<forall>q \<in> set (butlast ps). ?in q) \<and> ?in (last ps)" by auto
  then have "in_order p ps \<longleftrightarrow> check_pairs p ps = Inr () \<and> ?in (last ps)"
    using assms unfolding in_order_def check_pairs_iff [OF assms] by simp
  then show ?thesis by (auto simp: check_points_def bind_res_eq_Inr feq_def)
qed

text \<open>Every check throws the same exception.\<close>

definition fails_or :: "'a res \<Rightarrow> 'a \<Rightarrow> bool \<Rightarrow> bool" where
  "fails_or m a ok \<longleftrightarrow> (if ok then m = Inr a else \<exists>msg. m = Inl (Invalid_argument msg))"

lemma check_points_result: "ps \<noteq> [] \<Longrightarrow> fails_or (check_points p ps) () (ip_time (hd ps) = 0 \<and> in_order p ps)"
  using check_points_iff [of ps p] check_pairs_error [of p ps]
  by (cases "check_points p ps")
    (auto simp: fails_or_def check_points_def bind_res_eq_Inl split: if_split_asm)

lemma make_trajectory_result:
  assumes "path_inv p"
  shows "fails_or (make_trajectory p opt ps) \<lparr>tr_path = p, tr_options = opt, tr_points = ps, tr_duration = ip_time (last ps)\<rparr>
    (2 \<le> length ps \<and> ip_time (hd ps) = 0 \<and> ip_s (hd ps) = 0 \<and> ip_s (last ps) = path_length p)"
proof -
  obtain len where "path_length p = Fin len" "0 < len" using path_length_finite [OF assms] by blast
  moreover have "\<not> path_empty p" using assms by (simp add: path_empty_def path_inv_def)
  ultimately show ?thesis by (auto simp: fails_or_def make_trajectory_def feq_def)
qed

end
