(* ===== verification/Rail_Example.thy ===== *)
theory Rail_Example
  imports Trajectory_Safety
begin

text \<open>
  A run of the algorithm from start to end: one joint on a rail of length 2.5, with a limit of one on
  the acceleration, a velocity limit that is never reached, and steps of one second; and the same run
  at any faster pace.
\<close>

definition rail :: path where
  "rail = \<lparr>path_segments = [\<lparr>ps_seg = Linear \<lparr>lin_start = [0], lin_unit_direction = [1],
     lin_length = Fin (5 / 2)\<rparr>, ps_start = Fin 0\<rparr>], path_dof = 1, path_length = Fin (5 / 2)\<rparr>"

definition rail_options :: traj_options where
  "rail_options = \<lparr>to_max_velocity = [10], to_max_acceleration = [1], to_delta = Fin 1,
     to_epsilon = Fin (1 / 100), to_tcp = None\<rparr>"

definition rail_view :: segment_view where
  "rail_view = \<lparr>view_segment = Linear \<lparr>lin_start = [0], lin_unit_direction = [1], lin_length = Fin (5 / 2)\<rparr>,
     view_start = Fin 0, view_end = Fin (5 / 2)\<rparr>"

definition rail_cursor :: "real \<Rightarrow> cursor" where
  "rail_cursor s = \<lparr>cur_path = rail, cur_position = Fin s, cur_hint = 0\<rparr>"

definition rail_curves :: limit_curves where
  "rail_curves = \<lparr>lc_s_dot_max_acc = PInf, lc_s_dot_max_vel = Fin 10, lc_joint = Fin 10, lc_tcp = PInf,
     lc_limiting = \<lparr>lj_index = 0, lj_q_prime = 1, lj_q_double_prime = 0\<rparr>, lc_tcp_ratio = None\<rparr>"

named_theorems rail_simps \<open>the code evaluated on the rail\<close>

lemma rail_inv: "path_inv rail" "acceptable rail rail_options" "evaluator_returns rail_options"
  "(fin (to_epsilon rail_options))\<^sup>2 * real (path_dof rail) \<le> 1" "path_length rail = Fin (5 / 2)"
  by (simp_all add: rail_def path_inv_def norm_l2_def rail_options_def acceptable_def evaluator_returns_def
      power2_eq_square)

lemma rail_parts [rail_simps]:
  "to_epsilon rail_options = Fin (1 / 100)" "to_delta rail_options = Fin 1" "to_max_acceleration rail_options = [1]"
  "to_max_velocity rail_options = [10]" "to_tcp rail_options = None"
  "view_start rail_view = Fin 0" "view_end rail_view = Fin (5 / 2)"
  "lc_s_dot_max_acc rail_curves = PInf" "lc_s_dot_max_vel rail_curves = Fin 10"
  "cur_path (rail_cursor s) = rail" "cur_position (rail_cursor s) = Fin s" "path_length rail = Fin (5 / 2)" "path_dof rail = 1"
  by (simp_all add: rail_options_def rail_view_def rail_curves_def rail_cursor_def rail_def)

lemma rail_deref [rail_simps]: "deref rail 0 = Inr rail_view" "cursor_deref (rail_cursor s) = Inr rail_view"
  by (simp_all add: cursor_deref_def rail_cursor_def deref_def rail_def rail_view_def)

lemma rail_hint: "0 \<le> s \<Longrightarrow> s \<le> 5 / 2 \<Longrightarrow> update_hint (rail_cursor s) = Inr (rail_cursor s)"
  by (auto simp: update_hint_def rail_cursor_def rail_deref rail_parts view_contains_def try_next_hint_def path_size_def)
    (auto simp: rail_def)?

lemma rail_seek [rail_simps]: "0 \<le> s \<Longrightarrow> s \<le> 5 / 2 \<Longrightarrow> cursor_seek (rail_cursor r) (Fin s) = Inr (rail_cursor s)"
  using rail_hint [of s]
  by (auto simp: cursor_seek_def seek_position_def rail_cursor_def rail_parts cursor_at_end_def Let_def)

lemma rail_create [rail_simps]: "create_cursor rail 0 = Inr (rail_cursor 0)"
  using rail_hint [of 0]
  by (simp add: create_cursor_def path_empty_def std_clamp_def rail_cursor_def rail_parts) (simp add: rail_def)

lemma rail_tangent [rail_simps]:
  "0 \<le> s \<Longrightarrow> s \<le> 5 / 2 \<Longrightarrow> cursor_tangent (rail_cursor s) = Inr [1]"
  "0 \<le> s \<Longrightarrow> s \<le> 5 / 2 \<Longrightarrow> cursor_curvature (rail_cursor s) = Inr [0]"
  "0 \<le> s \<Longrightarrow> s \<le> 5 / 2 \<Longrightarrow> view_tangent rail_view (Fin s) = Inr [1]"
  "0 \<le> s \<Longrightarrow> s \<le> 5 / 2 \<Longrightarrow> view_curvature rail_view (Fin s) = Inr [0]"
  by (simp_all add: cursor_tangent_def cursor_curvature_def cursor_query_def cursor_at_end_def rail_cursor_def rail_parts
      rail_deref view_tangent_def view_tangent_into_def view_curvature_def view_curvature_into_def view_query_def
      view_length_def view_dof_def require_dof_def)
    (simp_all add: rail_view_def)

section \<open>The same rail at another pace\<close>

text \<open>Time runs \<open>k\<close> times as fast: velocities grow by \<open>k\<close> and accelerations by its square.\<close>

definition scaled_options :: "real \<Rightarrow> real \<Rightarrow> traj_options" where
  "scaled_options k e = \<lparr>to_max_velocity = [10 * k], to_max_acceleration = [k * k], to_delta = Fin (1 / k),
     to_epsilon = Fin e, to_tcp = None\<rparr>"

definition scaled_curves :: "real \<Rightarrow> limit_curves" where
  "scaled_curves k = \<lparr>lc_s_dot_max_acc = PInf, lc_s_dot_max_vel = Fin (10 * k), lc_joint = Fin (10 * k), lc_tcp = PInf,
     lc_limiting = \<lparr>lj_index = 0, lj_q_prime = 1, lj_q_double_prime = 0\<rparr>, lc_tcp_ratio = None\<rparr>"

definition scale_ok :: "real \<Rightarrow> real \<Rightarrow> bool" where
  "scale_ok k e \<longleftrightarrow> 1 \<le> k \<and> 0 < e \<and> e \<le> 1 / 100"

lemma scaled_parts:
  "to_epsilon (scaled_options k e) = Fin e" "to_delta (scaled_options k e) = Fin (1 / k)"
  "to_max_acceleration (scaled_options k e) = [k * k]" "to_max_velocity (scaled_options k e) = [10 * k]" "to_tcp (scaled_options k e) = None"
  "lc_s_dot_max_acc (scaled_curves k) = PInf" "lc_s_dot_max_vel (scaled_curves k) = Fin (10 * k)"
  by (simp_all add: scaled_options_def scaled_curves_def)

lemma scaled_inv:
  assumes "scale_ok k e"
  shows "acceptable rail (scaled_options k e)" "evaluator_returns (scaled_options k e)"
    "(fin (to_epsilon (scaled_options k e)))\<^sup>2 * real (path_dof rail) \<le> 1"
proof -
  have "e\<^sup>2 \<le> 1" using assms power_le_one [of e 2] by (simp add: scale_ok_def)
  then show "(fin (to_epsilon (scaled_options k e)))\<^sup>2 * real (path_dof rail) \<le> 1" by (simp add: scaled_parts rail_parts)
qed (use assms in \<open>simp_all add: rail_def scaled_options_def acceptable_def evaluator_returns_def scale_ok_def\<close>)

lemma scaled_limit_curves:
  "scale_ok k e \<Longrightarrow> 0 \<le> s \<Longrightarrow> s \<le> 5 / 2 \<Longrightarrow> cursor_limit_curves (rail_cursor s) (scaled_options k e) = Inr (scaled_curves k)"
  by (auto simp: scale_ok_def cursor_limit_curves_def rail_tangent rail_parts scaled_parts compute_joint_limit_curves_def
      compute_joint_velocity_limit_def joint_limit_step_def compute_acceleration_limit_def acceleration_limit_sq_def
      moving_limit_step_def resting_limit_step_def upt_rec Let_def scaled_curves_def)

lemma scaled_bounds:
  assumes "scale_ok k e"
  shows "compute_acceleration_bounds_unchecked [1] [0] (Fin v) [k * k] (Fin e) =
      \<lparr>ab_s_ddot_min = Fin (- (k * k)), ab_s_ddot_max = Fin (k * k)\<rparr>"
    "compute_acceleration_bounds [1] [0] (Fin v) [k * k] (Fin e) =
      Inr \<lparr>ab_s_ddot_min = Fin (- (k * k)), ab_s_ddot_max = Fin (k * k)\<rparr>"
proof -
  have "1 \<le> k * k" using assms mult_mono [of 1 k 1 k] by (simp add: scale_ok_def)
  with assms show "compute_acceleration_bounds_unchecked [1] [0] (Fin v) [k * k] (Fin e) =
      \<lparr>ab_s_ddot_min = Fin (- (k * k)), ab_s_ddot_max = Fin (k * k)\<rparr>"
    "compute_acceleration_bounds [1] [0] (Fin v) [k * k] (Fin e) =
      Inr \<lparr>ab_s_ddot_min = Fin (- (k * k)), ab_s_ddot_max = Fin (k * k)\<rparr>"
    by (simp_all add: scale_ok_def compute_acceleration_bounds_def compute_acceleration_bounds_unchecked_def bounds_step_def upt_rec
        Let_def eps_greater_def eps_eq_def wrap_compare_def)
qed

lemma scaled_euler:
  assumes "scale_ok k e" "0 \<le> v"
  shows "euler_step (Fin s) (Fin (k * v)) (Fin (k * k)) (Fin (1 / k)) (Fin e) =
      Inr \<lparr>pp_s = Fin (s + v + 1 / 2), pp_s_dot = Fin (k * (v + 1))\<rparr>"
    "euler_step (Fin s) (Fin (k * v)) (Fin (- (k * k))) (Fin (- (1 / k))) (Fin e) =
      Inr \<lparr>pp_s = Fin (s - v - 1 / 2), pp_s_dot = Fin (k * (v + 1))\<rparr>"
proof -
  have "0 \<le> k * v" "0 < k" using assms by (simp_all add: scale_ok_def)
  with assms(1) show "euler_step (Fin s) (Fin (k * v)) (Fin (k * k)) (Fin (1 / k)) (Fin e) =
      Inr \<lparr>pp_s = Fin (s + v + 1 / 2), pp_s_dot = Fin (k * (v + 1))\<rparr>"
    "euler_step (Fin s) (Fin (k * v)) (Fin (- (k * k))) (Fin (- (1 / k))) (Fin e) =
      Inr \<lparr>pp_s = Fin (s - v - 1 / 2), pp_s_dot = Fin (k * (v + 1))\<rparr>"
    by (auto simp: euler_step_def Let_def eps_eq_def wrap_compare_def scale_ok_def field_simps)
qed

text \<open>The candidate of a forward step at full acceleration, kept inside the rail.\<close>

definition scaled_next :: "real \<Rightarrow> real \<Rightarrow> real \<Rightarrow> real \<Rightarrow> phase_point" where
  "scaled_next k e s v = quantize_forward (scaled_options k e) rail_view \<lparr>pp_s = Fin s, pp_s_dot = Fin (k * v)\<rparr>
     \<lparr>pp_s = Fin (s + v + 1 / 2), pp_s_dot = Fin (k * (v + 1))\<rparr>"

lemma scaled_forward:
  assumes "scale_ok k e" "ig_cursor st = rail_cursor r" "0 \<le> s" "s \<le> 5 / 2" "0 \<le> v" "v \<le> 8"
    "scaled_next k e s v = \<lparr>pp_s = Fin s', pp_s_dot = Fin (k * v')\<rparr>" "0 \<le> s'" "s' \<le> 5 / 2" "v' \<le> 9" "sp_forward_accel start = None"
    "\<forall>r curves. probe = Some (r, curves) \<longrightarrow> curves = scaled_curves k"
  shows "forward_body (scaled_options k e) start
      \<lparr>fw_integration = st, fw_time = t, fw_point = \<lparr>pp_s = Fin s, pp_s_dot = Fin (k * v)\<rparr>, fw_first = b, fw_probed = probe\<rparr> =
    commit_step (scaled_options k e)
      \<lparr>fw_integration = st, fw_time = t, fw_point = \<lparr>pp_s = Fin s, pp_s_dot = Fin (k * v)\<rparr>, fw_first = b, fw_probed = probe\<rparr>
      (Fin s', scaled_curves k) None \<lparr>pp_s = Fin s', pp_s_dot = Fin (k * v')\<rparr> (rail_cursor s')"
proof -
  have "probed_limit_curves probe (Fin s) (rail_cursor s) (scaled_options k e) = Inr (scaled_curves k)"
    using assms(1,3,4,12) by (auto simp: probed_limit_curves_def scaled_limit_curves split: option.split)
  moreover have k: "1 \<le> k" "0 < e" "e \<le> 1 / 100" using assms(1) by (simp_all add: scale_ok_def)
  moreover have le: "k * v \<le> k * 8" "k * v' \<le> k * 9" using assms(6,10) k(1) by (auto intro: mult_left_mono)
  moreover have "k * v - 10 * k < - e" "k * v' - 10 * k < - e" "\<not> 10 * k < k * v'" using k le by linarith+
  ultimately show ?thesis using assms(2-11)
    by (simp add: forward_body_def Let_def choose_acceleration_def scaled_bounds [OF assms(1)] scaled_limit_curves [OF assms(1)] scaled_euler [OF assms(1)]
        scaled_parts rail_simps scaled_next_def follow_curve_def find_limit_hit_def crosses_kink_def eps_eq_def wrap_compare_def)
qed

lemma scaled_next_points:
  assumes "scale_ok k e"
  shows "scaled_next k e 0 0 = \<lparr>pp_s = Fin (1 / 2), pp_s_dot = Fin (k * 1)\<rparr>"
    "scaled_next k e (1 / 2) 1 = \<lparr>pp_s = Fin 2, pp_s_dot = Fin (k * 2)\<rparr>"
    "scaled_next k e 2 2 = \<lparr>pp_s = Fin (5 / 2), pp_s_dot = Fin (k * (11 / 5))\<rparr>"
  using assms
  by (simp_all add: scaled_next_def quantize_forward_def scaled_parts rail_simps Let_def eps_ge_def wrap_compare_def scale_ok_def
     field_simps)

definition rail_start :: integration where
  "rail_start = \<lparr>ig_points = [], ig_duration = 0, ig_cursor = rail_cursor 0,
     ig_cache = \<lparr>spc_next_accel = None, spc_next_vel = None\<rparr>\<rparr>"

definition rail_point :: "real \<Rightarrow> real \<Rightarrow> real \<Rightarrow> real \<Rightarrow> integration_point" where
  "rail_point t s v a = \<lparr>ip_time = Fin t, ip_s = Fin s, ip_s_dot = Fin v, ip_s_ddot = Fin a\<rparr>"

lemma rail_point_simps [simp]:
  "ip_time (rail_point t s v a) = Fin t" "ip_s (rail_point t s v a) = Fin s" "ip_s_dot (rail_point t s v a) = Fin v"
  "ip_s_ddot (rail_point t s v a) = Fin a" "rail_point t s v a\<lparr>ip_s_ddot := Fin b\<rparr> = rail_point t s v b"
  "rail_point t s v a\<lparr>ip_time := Fin r\<rparr> = rail_point r s v a"
  by (simp_all add: rail_point_def)

definition rail_end :: switching_point where
  "rail_end = \<lparr>sp_point = \<lparr>pp_s = Fin (5 / 2), pp_s_dot = 0\<rparr>, sp_kind = K_path_end,
     sp_forward_accel = Some 0, sp_backward_accel = None\<rparr>"

text \<open>A point of the run at pace \<open>k\<close>, from that at pace one.\<close>

definition pace :: "real \<Rightarrow> real \<Rightarrow> real \<Rightarrow> real \<Rightarrow> real \<Rightarrow> integration_point" where
  "pace k t s v a = rail_point (t / k) s (k * v) (k * k * a)"

lemma pace_simps [simp]:
  "ip_time (pace k t s v a) = Fin (t / k)" "ip_s (pace k t s v a) = Fin s" "ip_s_dot (pace k t s v a) = Fin (k * v)"
  "ip_s_ddot (pace k t s v a) = Fin (k * k * a)"
  by (simp_all add: pace_def)

lemma pace_step:
  assumes "1 \<le> k" "0 \<le> v" "0 < v'" "s < s'"
  shows "step_point (Fin (t / k)) \<lparr>pp_s = Fin s, pp_s_dot = Fin (k * v)\<rparr>
      (divide (Fin (k * v') - Fin (k * v)) (divide (Fin s' - Fin s) (midpoint (Fin (k * v)) (Fin (k * v'))))) =
    pace k t s v ((v' - v) * (v + v') / 2 / (s' - s))"
  "Fin (t / k) + divide (Fin s' - Fin s) (midpoint (Fin (k * v)) (Fin (k * v'))) = Fin ((t + 2 * (s' - s) / (v + v')) / k)"
proof -
  have "0 < k" "0 < v + v'" "0 < k * v + k * v'" using assms by (auto simp: distrib_left [symmetric])
  with assms show "step_point (Fin (t / k)) \<lparr>pp_s = Fin s, pp_s_dot = Fin (k * v)\<rparr>
      (divide (Fin (k * v') - Fin (k * v)) (divide (Fin s' - Fin s) (midpoint (Fin (k * v)) (Fin (k * v'))))) =
    pace k t s v ((v' - v) * (v + v') / 2 / (s' - s))"
  "Fin (t / k) + divide (Fin s' - Fin s) (midpoint (Fin (k * v)) (Fin (k * v'))) = Fin ((t + 2 * (s' - s) / (v + v')) / k)"
    by (simp_all add: step_point_def pace_def rail_point_def divide_simps; simp add: algebra_simps)+
qed

text \<open>The forward pass reaches the end of the rail in three steps.\<close>

abbreviation scaled_state ::
  "real \<Rightarrow> integration_point list \<Rightarrow> real \<Rightarrow> real \<Rightarrow> real \<Rightarrow> real \<Rightarrow> bool \<Rightarrow> (arc_length \<times> limit_curves) option \<Rightarrow> forward" where
  "scaled_state k ps c t s v b pr \<equiv> \<lparr>fw_integration = rail_start\<lparr>ig_points := ps, ig_cursor := rail_cursor c\<rparr>, fw_time = Fin (t / k),
     fw_point = \<lparr>pp_s = Fin s, pp_s_dot = Fin (k * v)\<rparr>, fw_first = b, fw_probed = pr\<rparr>"

lemma scaled_step:
  fixes t :: real
  assumes "scale_ok k e" "scaled_next k e s v = \<lparr>pp_s = Fin s', pp_s_dot = Fin (k * v')\<rparr>" "0 \<le> s" "s < s'" "s' \<le> 5 / 2"
    "0 \<le> v" "v \<le> 8" "0 < v'" "v' \<le> 9" "\<forall>r curves. pr = Some (r, curves) \<longrightarrow> curves = scaled_curves k"
  defines "p \<equiv> pace k t s v ((v' - v) * (v + v') / 2 / (s' - s))" and "t' \<equiv> t + 2 * (s' - s) / (v + v')"
  shows "forward_body (scaled_options k e) path_begin (scaled_state k ps c t s v b pr) =
    (if s' = 5 / 2
     then Inr (Return (rail_end, rail_start\<lparr>ig_points := ps @ [p, step_point (Fin (t' / k)) \<lparr>pp_s = Fin s', pp_s_dot = Fin (k * v')\<rparr> NaN],
                                             ig_cursor := rail_cursor (5 / 2)\<rparr>))
     else Inr (Continue (scaled_state k (ps @ [p]) s' t' s' v' False (Some (Fin s', scaled_curves k)))))"
proof -
  have k: "1 \<le> k" using assms(1) by (simp add: scale_ok_def)
  note steps = pace_step [OF k assms(6,8,4), folded p_def t'_def]
  have acc: "sp_forward_accel path_begin = None" by (simp add: path_begin_def)
  have "forward_body (scaled_options k e) path_begin (scaled_state k ps c t s v b pr) =
      commit_step (scaled_options k e) (scaled_state k ps c t s v b pr) (Fin s', scaled_curves k) None
        \<lparr>pp_s = Fin s', pp_s_dot = Fin (k * v')\<rparr> (rail_cursor s')"
    by (rule scaled_forward) (use assms acc in simp_all)
  moreover have "\<not> feq (Fin s' - Fin s) 0" using assms(4) by simp
  ultimately show ?thesis using assms(3-5) steps
    by (cases "s' = 5 / 2") (simp_all add: commit_step_def Let_def rail_simps rail_end_def p_def t'_def)
qed

lemma scaled_forward_pass:
  assumes "scale_ok k e"
  shows "\<exists>l. integrate_forward_from (scaled_options k e) path_begin rail_start =
     Inr (rail_end, rail_start\<lparr>ig_points := [pace k 0 0 0 1, pace k 1 (1 / 2) 1 1, pace k 2 2 2 (21 / 25), l],
                                ig_cursor := rail_cursor (5 / 2)\<rparr>) \<and> ip_s l = Fin (5 / 2) \<and> ip_s_dot l = Fin (k * (11 / 5))"
proof -
  note step = scaled_step [OF assms] and nxt = scaled_next_points [OF assms]
  have "forward_start path_begin rail_start = Inr (scaled_state k [] 0 0 0 0 True None)"
    by (simp add: forward_start_def rail_start_def path_begin_def)
  moreover have "forward_body (scaled_options k e) path_begin (scaled_state k [] 0 0 0 0 True None) =
      Inr (Continue (scaled_state k [pace k 0 0 0 1] (1 / 2) 1 (1 / 2) 1 False (Some (Fin (1 / 2), scaled_curves k))))"
    by (subst step [OF nxt(1)]) simp_all
  moreover have "forward_body (scaled_options k e) path_begin
        (scaled_state k [pace k 0 0 0 1] (1 / 2) 1 (1 / 2) 1 False (Some (Fin (1 / 2), scaled_curves k))) =
      Inr (Continue (scaled_state k [pace k 0 0 0 1, pace k 1 (1 / 2) 1 1] 2 2 2 2 False (Some (Fin 2, scaled_curves k))))"
    by (subst step [OF nxt(2)]) simp_all
  moreover define l where "l = step_point (Fin ((2 + 2 * (5 / 2 - 2) / (2 + 11 / 5)) / k)) \<lparr>pp_s = Fin (5 / 2), pp_s_dot = Fin (k * (11 / 5))\<rparr> NaN"
  have "forward_body (scaled_options k e) path_begin
        (scaled_state k [pace k 0 0 0 1, pace k 1 (1 / 2) 1 1] 2 2 2 2 False (Some (Fin 2, scaled_curves k))) =
      Inr (Return (rail_end, rail_start\<lparr>ig_points := [pace k 0 0 0 1, pace k 1 (1 / 2) 1 1, pace k 2 2 2 (21 / 25), l],
        ig_cursor := rail_cursor (5 / 2)\<rparr>))"
    by (subst step [OF nxt(3)]) (simp_all add: l_def)
  moreover have "ip_s l = Fin (5 / 2) \<and> ip_s_dot l = Fin (k * (11 / 5))" by (simp add: l_def step_point_def)
  ultimately show ?thesis by (auto simp: integrate_forward_from_def loop_flow_unfold)
qed

text \<open>The backward pass meets it in the second segment.\<close>

lemma scaled_backward_pass:
  assumes "scale_ok k e" "ip_s l = Fin (5 / 2)" "ip_s_dot l = Fin (k * (11 / 5))"
  shows "integrate_backwards_from (scaled_options k e) limit rail_end
      (rail_start\<lparr>ig_points := [pace k 0 0 0 1, pace k 1 (1 / 2) 1 1, pace k 2 2 2 (21 / 25), l], ig_cursor := rail_cursor (5 / 2)\<rparr>) =
    Inr (rail_end, rail_start\<lparr>ig_points := [pace k 0 0 0 1, pace k 1 (1 / 2) 1 0, pace k (5 / 2) 2 1 (- 1), pace k (7 / 2) (5 / 2) 0 0],
      ig_duration := Fin (7 / 2 / k), ig_cursor := rail_cursor (5 / 2)\<rparr>)"
proof -
  let ?ps = "[pace k 0 0 0 1, pace k 1 (1 / 2) 1 1, pace k 2 2 2 (21 / 25), l]"
  let ?st = "rail_start\<lparr>ig_points := ?ps, ig_cursor := rail_cursor (5 / 2)\<rparr>"
  let ?o = "scaled_options k e"
  let ?b0 = "pace k 0 (5 / 2) 0 0" and ?b1 = "pace k 1 2 1 (- 1)"
  have k: "1 \<le> k" "0 < k" "0 < e" "e \<le> 1 / 100" using assms(1) by (simp_all add: scale_ok_def)
  have base: "cursor_base (rail_cursor s) = 0" "cur_path (rail_cursor s) = rail" for s
    by (simp_all add: cursor_base_def cursor_at_end_def rail_cursor_def)
  have residual: "eval_residual ?o [1] [0] (Fin s - Fin (s - v - 1 / 2)) (Fin (k * v)) (Fin (k * (v + 1))) = Fin 0" if "0 \<le> v" for s v
  proof -
    have "k * v - k * (v + 1) = - k" "(k * (v + 1) + k * v) / 2 = k * (v + 1 / 2)" by (simp_all add: algebra_simps add_divide_distrib)
    moreover have "0 < k * (v + 1 / 2)" using k that by (intro mult_pos_pos) simp_all
    ultimately
    show ?thesis using k that by (simp add: eval_residual_def scaled_parts scaled_bounds [OF assms(1)] Let_def field_simps)
  qed
  have cand: "backward_candidate ?o limit None (rail_cursor s) (pace k t s v a) =
      Inr (\<lparr>pp_s = Fin (s - v - 1 / 2), pp_s_dot = Fin (k * (v + 1))\<rparr>, rail_cursor (s - v - 1 / 2))"
    if "1 / 50 < s - v - 1 / 2" "s \<le> 5 / 2" "0 \<le> v" for s v t a
    using that k residual [OF that(3), of s]
    by (simp add: backward_candidate_def backward_acceleration_def base rail_simps scaled_parts scaled_bounds [OF assms(1)]
        scaled_euler [OF assms(1)] quantize_backward_def eps_le_def wrap_compare_def Let_def solve_velocity_def eps_eq_def)
  have step: "backward_step_point ?b0 \<lparr>pp_s = Fin 2, pp_s_dot = Fin k\<rparr> = ?b1"
    using k by (simp add: backward_step_point_def Let_def pace_def rail_point_def field_simps)
  have seek: "cursor_seek (rail_cursor r) (Fin s) = Inr (rail_cursor s)" if "0 \<le> s" "s \<le> 5 / 2" for r s
    using that by (rule rail_seek)
  have feasible: "feasible_backward ?o (rail_cursor 2) \<lparr>pp_s = Fin 2, pp_s_dot = Fin k\<rparr> = Inr ()"
    using k by (simp add: feasible_backward_def scaled_limit_curves [OF assms(1)] scaled_parts Let_def eps_greater_def wrap_compare_def)
  have 1: "backward_body ?o limit rail_end ?st \<lparr>bw_points = [?b0], bw_cursor = rail_cursor (5 / 2), bw_window = 2\<rparr> =
      Inr (Continue \<lparr>bw_points = [?b0, ?b1], bw_cursor = rail_cursor 2, bw_window = 2\<rparr>)"
    using assms k
    by (simp add: backward_body_def Let_def seek rail_end_def cand step feasible crosses_within_def numeral_2_eq_2 field_simps)
  have 2: "backward_body ?o limit rail_end ?st \<lparr>bw_points = [?b0, ?b1], bw_cursor = rail_cursor 2, bw_window = 2\<rparr> =
      Inr (Return (rail_end, ?st\<lparr>ig_points := [pace k 0 0 0 1, pace k 1 (1 / 2) 1 0, pace k (5 / 2) 2 1 (- 1),
                     pace k (7 / 2) (5 / 2) 0 0], ig_duration := Fin (7 / 2 / k)\<rparr>))"
    using assms k
    by (simp add: backward_body_def Let_def seek rail_end_def cand crosses_within_def above_at_left_def numeral_2_eq_2
        splice_def scaled_parts eps_eq_def wrap_compare_def)
  have e: "pp_s (sp_point rail_end) = Fin (5 / 2)" "pp_s_dot (sp_point rail_end) = Fin 0" "sp_forward_accel rail_end = Some (Fin 0)"
    and b0: "\<lparr>ip_time = Fin 0, ip_s = Fin (5 / 2), ip_s_dot = Fin 0, ip_s_ddot = Fin 0\<rparr> = ?b0"
    by (simp_all add: rail_end_def pace_def rail_point_def)
  show ?thesis
    using assms
    by (simp add: integrate_backwards_from_def Let_def e b0 loop_flow_unfold 1 [unfolded numeral_2_eq_2] 2 [unfolded numeral_2_eq_2])
      (simp add: rail_start_def)?
qed

text \<open>The whole run.\<close>

lemma scaled_run:
  assumes "scale_ok k e"
  shows "\<exists>t. trajectory_create rail (scaled_options k e) [] = Inr t \<and>
     tr_points t = [pace k 0 0 0 1, pace k 1 (1 / 2) 1 0, pace k (5 / 2) 2 1 (- 1), pace k (7 / 2) (5 / 2) 0 0]"
proof -
  obtain l where f: "integrate_forward_from (scaled_options k e) path_begin rail_start =
     Inr (rail_end, rail_start\<lparr>ig_points := [pace k 0 0 0 1, pace k 1 (1 / 2) 1 1, pace k 2 2 2 (21 / 25), l],
                                ig_cursor := rail_cursor (5 / 2)\<rparr>)" "ip_s l = Fin (5 / 2)" "ip_s_dot l = Fin (k * (11 / 5))"
    using scaled_forward_pass [OF assms] by blast
  have k: "sp_kind path_begin = K_path_begin" "pp_s (sp_point path_begin) = Fin 0" "sp_kind rail_end = K_path_end"
    "pp_s (sp_point rail_end) = Fin (5 / 2)"
    by (simp_all add: path_begin_def rail_end_def)
  have "start_integration rail = Inr rail_start"
    by (simp add: start_integration_def rail_simps rail_start_def del: zero_Fin)
  moreover have "loop_flow (totg_body (scaled_options k e) (s_dot_ceiling rail (scaled_options k e))) (path_begin, rail_start) =
      Inr (rail_start\<lparr>ig_points := [pace k 0 0 0 1, pace k 1 (1 / 2) 1 0, pace k (5 / 2) 2 1 (- 1), pace k (7 / 2) (5 / 2) 0 0],
                     ig_duration := Fin (7 / 2 / k), ig_cursor := rail_cursor (5 / 2)\<rparr>)"
    by (simp add: loop_flow_unfold totg_body_def forward_progress_def f(1) scaled_backward_pass [OF assms f(2,3)] k)
  moreover have "check_options rail (scaled_options k e) = Inr ()" using scaled_inv(1) [OF assms] by (simp add: check_options_iff)
  ultimately show ?thesis by (simp add: trajectory_create_def run_totg_def)
qed

section \<open>The rail at pace one\<close>

lemma rail_scaled: "rail_options = scaled_options 1 (1 / 100)" "rail_curves = scaled_curves 1" "scale_ok 1 (1 / 100)"
  by (simp_all add: rail_options_def scaled_options_def rail_curves_def scaled_curves_def scale_ok_def)

lemma rail_run:
  "\<exists>t. trajectory_create rail rail_options [] = Inr t \<and>
     tr_points t = [rail_point 0 0 0 1, rail_point 1 (1 / 2) 1 0, rail_point (5 / 2) 2 1 (- 1), rail_point (7 / 2) (5 / 2) 0 0]"
  using scaled_run [OF rail_scaled(3)] by (simp add: rail_scaled pace_def)

lemma rail_limit_curves [rail_simps]:
  "0 \<le> s \<Longrightarrow> s \<le> 5 / 2 \<Longrightarrow> cursor_limit_curves (rail_cursor s) rail_options = Inr rail_curves"
  unfolding rail_scaled by (rule scaled_limit_curves [OF rail_scaled(3)])

lemma rail_bounds [rail_simps]:
  "compute_acceleration_bounds_unchecked [1] [0] (Fin v) [1] (Fin (1 / 100)) = \<lparr>ab_s_ddot_min = Fin (- 1), ab_s_ddot_max = Fin 1\<rparr>"
  "compute_acceleration_bounds [1] [0] (Fin v) [1] (Fin (1 / 100)) = Inr \<lparr>ab_s_ddot_min = Fin (- 1), ab_s_ddot_max = Fin 1\<rparr>"
  using scaled_bounds [OF rail_scaled(3), of v] by simp_all

lemma rail_euler [rail_simps]:
  "0 \<le> v + a * d \<Longrightarrow> 1 / 100 < \<bar>a * d\<bar> \<Longrightarrow> euler_step (Fin s) (Fin v) (Fin a) (Fin d) (Fin (1 / 100)) =
     Inr \<lparr>pp_s = Fin (s + v * d + 1 / 2 * a * d * d), pp_s_dot = Fin (v + a * d)\<rparr>"
  by (auto simp: euler_step_def Let_def eps_eq_def wrap_compare_def)

text \<open>The candidate of a forward step with acceleration one, kept inside the rail.\<close>

definition rail_next :: "real \<Rightarrow> real \<Rightarrow> phase_point" where
  "rail_next s v = quantize_forward rail_options rail_view \<lparr>pp_s = Fin s, pp_s_dot = Fin v\<rparr>
     \<lparr>pp_s = Fin (s + v + 1 / 2), pp_s_dot = Fin (v + 1)\<rparr>"

lemma rail_next_points:
  "rail_next 0 0 = \<lparr>pp_s = Fin (1 / 2), pp_s_dot = Fin 1\<rparr>"
  "rail_next (1 / 2) 1 = \<lparr>pp_s = Fin 2, pp_s_dot = Fin 2\<rparr>"
  "rail_next 2 2 = \<lparr>pp_s = Fin (5 / 2), pp_s_dot = Fin (11 / 5)\<rparr>"
  by (simp_all add: rail_next_def quantize_forward_def rail_simps Let_def eps_ge_def wrap_compare_def)

end
