(* ===== verification/Trajectory_Properties.thy ===== *)
theory Trajectory_Properties
  imports Rail_Example
begin

text \<open>
  The properties of the two passes and of \<open>trajectory::create\<close>: the bisections end and bracket what they look
  for, the memo of the probe is transparent, and the trajectories that come out are sound.
\<close>

section \<open>Halving\<close>

lemma floor_half_less:
  assumes "1 < (x::real)"
  shows "nat \<lfloor>x / 2\<rfloor> < nat \<lfloor>x\<rfloor>"
proof -
  have "of_int \<lfloor>x / 2\<rfloor> \<le> x / 2" "1 \<le> \<lfloor>x\<rfloor>" "x < of_int \<lfloor>x\<rfloor> + 1" using assms by linarith+
  then have "2 * \<lfloor>x / 2\<rfloor> \<le> \<lfloor>x\<rfloor>" by linarith
  with \<open>1 \<le> \<lfloor>x\<rfloor>\<close> show ?thesis by linarith
qed

section \<open>The bisection of a breach\<close>

definition breach_above :: "breach_state \<Rightarrow> bool" where
  "breach_above b \<longleftrightarrow> br_breach_acc b < pp_s_dot (br_breach b) \<or> br_breach_vel b < pp_s_dot (br_breach b)"

definition breach_width :: "real \<Rightarrow> breach_state \<Rightarrow> real" where
  "breach_width e b = (fin (pp_s (br_breach b)) - fin (pp_s (br_next b))) / e"

definition breach_between :: "real \<Rightarrow> real \<Rightarrow> breach_state \<Rightarrow> bool" where
  "breach_between x y b \<longleftrightarrow> isfinite (pp_s (br_next b)) \<and> isfinite (pp_s (br_breach b)) \<and>
     x \<le> fin (pp_s (br_next b)) \<and> fin (pp_s (br_next b)) \<le> fin (pp_s (br_breach b)) \<and> fin (pp_s (br_breach b)) \<le> y"

lemma bisect_breach_narrows:
  assumes "to_epsilon opt = Fin e" "0 < e" "breach_between x y b" "breach_above b"
    "bisect_breach_body opt b = Inr (Continue b')"
  shows "breach_between x y b'" "breach_above b'" "breach_width e b' = breach_width e b / 2" "1 < breach_width e b"
proof -
  obtain a c where ac: "pp_s (br_next b) = Fin a" "pp_s (br_breach b) = Fin c" "x \<le> a" "a \<le> c" "c \<le> y"
    using assms(3) by (auto simp: breach_between_def isfinite_iff)
  obtain d q' q'' curves where wide: "\<not> eps_eq (Fin e) (Fin a) (Fin c)"
      "cursor_seek (br_cursor b) (pp_s (breach_mid b)) = Inr d" "cursor_limit_curves d opt = Inr curves"
    and b': "b' = (if lc_s_dot_max_acc curves < pp_s_dot (breach_mid b) \<or> lc_s_dot_max_vel curves < pp_s_dot (breach_mid b)
             then b\<lparr>br_cursor := d, br_breach := breach_mid b, br_breach_acc := lc_s_dot_max_acc curves,
                     br_breach_vel := lc_s_dot_max_vel curves\<rparr>
             else b\<lparr>br_cursor := d, br_next := breach_mid b, br_q_prime := q', br_q_double_prime := q'',
                     br_next_acc := lc_s_dot_max_acc curves, br_next_vel := lc_s_dot_max_vel curves\<rparr>)"
    using assms(5) unfolding ac(1,2) [symmetric] assms(1) [symmetric] by (rule bisect_breach_bodyE)
  have mid: "pp_s (breach_mid b) = Fin ((a + c) / 2)" by (simp add: breach_mid_def ac)
  have "e < c - a" using wide(1) ac(4) assms(2) by (auto simp: eps_eq_def wrap_compare_def Let_def split: if_split_asm)
  then show "1 < breach_width e b" using assms(2) by (simp add: breach_width_def ac)
  with ac assms(4) show "breach_between x y b'" "breach_above b'" "breach_width e b' = breach_width e b / 2"
    by (auto simp: b' mid breach_between_def breach_above_def breach_width_def field_simps)
qed

lemma breach_above_curves:
  assumes "breach_inv p opt b" "breach_above b"
  shows "within_limits p opt (pp_s (br_next b)) (pp_s_dot (br_next b)) \<and>
    (\<exists>curves. limits_at p opt (pp_s (br_breach b)) curves \<and>
      (lc_s_dot_max_acc curves < pp_s_dot (br_breach b) \<or> lc_s_dot_max_vel curves < pp_s_dot (br_breach b)))"
  using assms unfolding breach_inv_def breach_above_def by metis

lemma bisect_breach_return:
  "bisect_breach_body opt b = Inr (Return r) \<Longrightarrow> r = b \<and> eps_eq (to_epsilon opt) (pp_s (br_next r)) (pp_s (br_breach r))"
  by (simp add: bisect_breach_body_def Let_def bind_res_eq_Inr split: if_split_asm) auto?

lemma halts_bisect_breach_body: "evaluator_returns opt \<Longrightarrow> halts (bisect_breach_body opt b)"
  unfolding bisect_breach_body_def Let_def by (auto intro!: halts_intros)

text \<open>
  The bisection of a breach ends. From a point within the limit curves and a point ahead of it that
  exceeds one of them, it halves the distance until the two sides lie within the tolerance: the near
  side is still within the curves and the far side still exceeds one of the curves at its position.
  The search returns or throws what the tool evaluator throws; it does not run forever.
\<close>

lemma bisect_breach_brackets:
  assumes "sound_options p opt" "breach_inv p opt b" "breach_between x y b" "breach_above b"
  shows "bisect_breach opt b \<noteq> Inl Diverges \<and>
    (\<forall>r. bisect_breach opt b = Inr r \<longrightarrow>
       breach_between x y r \<and> eps_eq (to_epsilon opt) (pp_s (br_next r)) (pp_s (br_breach r)) \<and>
       within_limits p opt (pp_s (br_next r)) (pp_s_dot (br_next r)) \<and>
       (\<exists>curves. limits_at p opt (pp_s (br_breach r)) curves \<and>
          (lc_s_dot_max_acc curves < pp_s_dot (br_breach r) \<or> lc_s_dot_max_vel curves < pp_s_dot (br_breach r))))"
proof -
  obtain e where e: "to_epsilon opt = Fin e" "0 < e" using sound_optionsE [OF assms(1)] by metis
  have ev: "evaluator_returns opt" using assms(1) by (simp add: sound_options_def usable_options_def)
  let ?P = "\<lambda>b. breach_inv p opt b \<and> breach_between x y b \<and> breach_above b"
  have keep: "?P b'" if "?P b" "bisect_breach_body opt b = Inr (Continue b')" for b b'
    using that bisect_breach_body_inv [OF assms(1)] bisect_breach_narrows(1,2) [OF e] by blast
  have "halts (bisect_breach opt b)"
    unfolding bisect_breach_def
  proof (rule halts_loop_flow [where P = ?P and m = "\<lambda>b. nat \<lfloor>breach_width e b\<rfloor>"])
    show "?P b' \<and> nat \<lfloor>breach_width e b'\<rfloor> < nat \<lfloor>breach_width e b\<rfloor>"
      if "?P b" "bisect_breach_body opt b = Inr (Continue b')" for b b'
      using keep [OF that] bisect_breach_narrows(3,4) [OF e _ _ that(2)] floor_half_less that(1) by metis
  qed (use assms(2-4) halts_bisect_breach_body [OF ev] in blast)+
  moreover have "?P r \<and> eps_eq (to_epsilon opt) (pp_s (br_next r)) (pp_s (br_breach r))" if "bisect_breach opt b = Inr r" for r
    by (rule loop_flow_invariant [OF that [unfolded bisect_breach_def], of ?P])
      (use assms(2-4) keep bisect_breach_return in blast)+
  ultimately show ?thesis using breach_above_curves by (simp add: halts_def)
qed

text \<open>On the rail, with a velocity limit of one.\<close>

definition slow_options :: traj_options where
  "slow_options = rail_options\<lparr>to_max_velocity := [1]\<rparr>"

definition slow_breach :: breach_state where
  "slow_breach = \<lparr>br_cursor = rail_cursor 0, br_next = \<lparr>pp_s = 0, pp_s_dot = 0\<rparr>, br_q_prime = [1], br_q_double_prime = [0],
     br_next_acc = PInf, br_next_vel = Fin 1, br_breach = \<lparr>pp_s = Fin 2, pp_s_dot = Fin 2\<rparr>, br_breach_acc = PInf,
     br_breach_vel = Fin 1\<rparr>"

lemma rail_standing: "0 \<le> s \<Longrightarrow> s \<le> 5 / 2 \<Longrightarrow> standing rail (rail_cursor s)"
  using rail_inv(1,5)
  by (simp add: standing_def cursor_inv_def rail_cursor_def on_path_def)
    (simp add: rail_def path_size_def segment_index_def first_after_def upper_bound_def)

lemma slow_sound: "sound_options rail slow_options"
  using rail_inv(3)
  by (simp add: sound_options_def usable_options_def slow_options_def rail_parts evaluator_returns_def power2_eq_square)

lemma slow_curves:
  "0 \<le> s \<Longrightarrow> s \<le> 5 / 2 \<Longrightarrow> \<exists>curves. cursor_limit_curves (rail_cursor s) slow_options = Inr curves \<and>
     lc_s_dot_max_acc curves = PInf \<and> lc_s_dot_max_vel curves = Fin 1"
  by (simp add: cursor_limit_curves_def rail_tangent rail_parts slow_options_def compute_joint_limit_curves_def
      compute_joint_velocity_limit_def joint_limit_step_def compute_acceleration_limit_def acceleration_limit_sq_def
      moving_limit_step_def resting_limit_step_def upt_rec Let_def)

lemma bisect_breach_brackets_witness: "bisect_breach slow_options slow_breach \<noteq> Inl Diverges"
proof -
  obtain curves where c: "cursor_limit_curves (rail_cursor 2) slow_options = Inr curves" "lc_s_dot_max_acc curves = PInf"
    "lc_s_dot_max_vel curves = Fin 1"
    using slow_curves [of 2] by auto
  have "limits_at rail slow_options (Fin 2) curves" using cursor_limits_at [OF rail_standing c(1)] by (simp add: rail_parts)
  then have "breach_inv rail slow_options slow_breach"
    using rail_standing [of 0] c
    by (auto simp: breach_inv_def slow_breach_def on_path_def rail_parts within_limits_def proper_curves_def)
  moreover have "breach_between 0 2 slow_breach" "breach_above slow_breach"
    by (simp_all add: breach_between_def breach_above_def slow_breach_def)
  ultimately show ?thesis using bisect_breach_brackets [OF slow_sound] by blast
qed

section \<open>The solver of the backward pass\<close>

lemma loop_flow_outcome:
  assumes "loop_flow body s = r" "r \<noteq> Inl Diverges" "P s"
    and "\<And>s s'. P s \<Longrightarrow> body s = Inr (Continue s') \<Longrightarrow> P s'"
    and "\<And>s r. P s \<Longrightarrow> body s = Inr (Return r) \<Longrightarrow> Q (Inr r)"
    and "\<And>s e. P s \<Longrightarrow> body s = Inl e \<Longrightarrow> Q (Inl e)"
  shows "Q r"
proof -
  have "iterate (flow_body body) s = Some r"
    using assms(1,2) by (auto simp: loop_flow_def loop_def split: option.split_asm)
  then show ?thesis
  proof (rule iterate_invariant [where P = P and Q = Q, OF _ assms(3)])
    show "Q r" if "P s" "flow_body body s = Inr r" for s r
      using that assms(5,6) by (cases r) (simp_all add: flow_body_simps)
  qed (use assms(4) in \<open>simp add: flow_body_simps\<close>)
qed

text \<open>The residuals of a bracket are those at its ends, which are finite and not negative.\<close>

definition bracket_inv :: "(arc_velocity \<Rightarrow> arc_acceleration) \<Rightarrow> bracket \<Rightarrow> bool" where
  "bracket_inv residual b \<longleftrightarrow> bk_residual_low b = residual (bk_low b) \<and> bk_residual_high b = residual (bk_high b) \<and>
     isfinite (bk_low b) \<and> isfinite (bk_high b) \<and> 0 \<le> fin (bk_low b) \<and> fin (bk_low b) \<le> fin (bk_high b)"

definition bracket_width :: "bracket \<Rightarrow> real" where
  "bracket_width b = (fin (bk_high b) - fin (bk_low b)) / dbl_denorm_min"

lemma denorm_min_pos: "0 < dbl_denorm_min"
  by (simp add: dbl_denorm_min_def)

lemma powr_minus_nat: "(2::real) powr (- real n) = 1 / 2 ^ n"
  by (simp add: powr_minus powr_realpow divide_inverse)

lemma denorm_min_le_ulp: "dbl_denorm_min \<le> ulp x"
proof (cases "\<bar>x\<bar> < dbl_min")
  case False
  have min: "dbl_min = 2 powr (- real 1022)" unfolding powr_minus_nat dbl_min_def ..
  have "2 powr (- real 1022) \<le> \<bar>x\<bar>" using False unfolding min by simp
  then have "log 2 (2 powr (- real 1022)) \<le> log 2 \<bar>x\<bar>" by (intro log_mono) simp_all
  then have "- 1022 \<le> log 2 \<bar>x\<bar>" by (simp only: log_powr_cancel)
  then have "(- 1022 :: int) \<le> \<lfloor>log 2 \<bar>x\<bar>\<rfloor>" by (simp add: le_floor_iff)
  then have "real_of_int (- 1022) \<le> of_int \<lfloor>log 2 \<bar>x\<bar>\<rfloor>" by (subst of_int_le_iff)
  then have "- real 1074 \<le> of_int \<lfloor>log 2 \<bar>x\<bar>\<rfloor> - 52" by simp
  then have "(2::real) powr (- real 1074) \<le> 2 powr (of_int \<lfloor>log 2 \<bar>x\<bar>\<rfloor> - 52)" by (intro powr_mono) simp_all
  moreover have "dbl_denorm_min = 2 powr (- real 1074)" unfolding powr_minus_nat dbl_denorm_min_def ..
  ultimately show ?thesis unfolding ulp_def if_not_P [OF False] by (simp only:)
qed (simp add: ulp_def)

lemma bisect_body_narrows:
  assumes "bracket_inv residual b" "bisect_body residual eps b = Inr (Continue b')"
  shows "bracket_inv residual b'" "bracket_width b' = bracket_width b / 2" "1 < bracket_width b"
proof -
  obtain x y where xy: "bk_low b = Fin x" "bk_high b = Fin y" "0 \<le> x" "x \<le> y"
    using assms(1) by (auto simp: bracket_inv_def isfinite_iff)
  have r: "b' = b\<lparr>bk_high := Fin ((x + y) / 2), bk_residual_high := residual (Fin ((x + y) / 2))\<rparr> \<or>
      b' = b\<lparr>bk_low := Fin ((x + y) / 2), bk_residual_low := residual (Fin ((x + y) / 2))\<rparr>" and "\<not> pinched (Fin x) (Fin y)"
    using assms(2) xy by (auto simp: bisect_body_def Let_def split: if_split_asm)
  then have "dbl_denorm_min < y - x" using denorm_min_le_ulp [of x] by (simp add: pinched_def)
  then show "1 < bracket_width b" using denorm_min_pos by (simp add: bracket_width_def xy)
  show "bracket_inv residual b'" "bracket_width b' = bracket_width b / 2"
    using r assms(1) xy by (auto simp: bracket_inv_def bracket_width_def field_simps)
qed

text \<open>How the bisection ends.\<close>

definition solved :: "(arc_velocity \<Rightarrow> arc_acceleration) \<Rightarrow> epsilon \<Rightarrow> bracket \<Rightarrow> bool" where
  "solved residual eps b \<longleftrightarrow> bracket_inv residual b \<and>
     (bk_low b = bk_high b \<and> eps_eq eps (residual (bk_low b)) 0 \<or>
      pinched (bk_low b) (bk_high b) \<and> straddles_zero (residual (bk_low b)) (residual (bk_high b)))"

lemma bisect_body_solved:
  assumes "bracket_inv residual b" "bisect_body residual eps b = Inr (Return r)"
  shows "solved residual eps r"
proof -
  obtain x y where xy: "bk_low b = Fin x" "bk_high b = Fin y" "0 \<le> x" "x \<le> y"
    using assms(1) by (auto simp: bracket_inv_def isfinite_iff)
  with assms show ?thesis
    by (auto simp: bisect_body_def Let_def solved_def bracket_inv_def split: if_split_asm)
qed

lemma bisect_solves:
  assumes "bracket_inv residual b"
  shows "halts (loop_flow (bisect_body residual eps) b)" "loop_flow (bisect_body residual eps) b = Inr r \<Longrightarrow> solved residual eps r"
proof -
  show "halts (loop_flow (bisect_body residual eps) b)"
  proof (rule halts_loop_flow [where P = "bracket_inv residual" and m = "\<lambda>b. nat \<lfloor>bracket_width b\<rfloor>"])
    show "bracket_inv residual b' \<and> nat \<lfloor>bracket_width b'\<rfloor> < nat \<lfloor>bracket_width b\<rfloor>"
      if "bracket_inv residual b" "bisect_body residual eps b = Inr (Continue b')" for b b'
      using bisect_body_narrows [OF that] floor_half_less by metis
    show "halts (bisect_body residual eps s)" for s by (simp add: bisect_body_def Let_def)
  qed (rule assms)
  show "solved residual eps r" if "loop_flow (bisect_body residual eps) b = Inr r"
    by (rule loop_flow_invariant [OF that, of "bracket_inv residual"])
      (use assms bisect_body_narrows(1) bisect_body_solved in blast)+
qed

text \<open>The expansion: the upper end rises by at least the first step, and no further than the ceiling.\<close>

definition expanding :: "(arc_velocity \<Rightarrow> arc_acceleration) \<Rightarrow> real \<Rightarrow> bracket \<times> arc_velocity \<Rightarrow> bool" where
  "expanding residual d s \<longleftrightarrow> bracket_inv residual (fst s) \<and> isfinite (snd s) \<and> d \<le> fin (snd s)"

lemma expand_body_continue:
  assumes "0 < d" "expanding residual d s" "expand_body residual (Fin L) s = Inr (Continue s')"
  shows "expanding residual d s'" "fin (bk_high (fst s')) \<le> L" "fin (bk_high (fst s)) + 2 * d \<le> fin (bk_high (fst s'))"
proof -
  obtain x y z where xy: "bk_low (fst s) = Fin x" "bk_high (fst s) = Fin y" "0 \<le> x" "x \<le> y" "snd s = Fin z" "d \<le> z"
    using assms(2) by (auto simp: expanding_def bracket_inv_def isfinite_iff)
  have r: "s' = (\<lparr>bk_low = Fin (max 0 (x - z * 2)), bk_high = Fin (y + z * 2), bk_residual_low = residual (Fin (max 0 (x - z * 2))),
               bk_residual_high = residual (Fin (y + z * 2))\<rparr>, Fin (z * 2))" "y + z * 2 \<le> L"
    using assms(3) xy by (cases s; auto simp: expand_body_def Let_def not_less split: if_split_asm)+
  show "expanding residual d s'" "fin (bk_high (fst s')) \<le> L" "fin (bk_high (fst s)) + 2 * d \<le> fin (bk_high (fst s'))"
    using r xy assms(1) by (auto simp: expanding_def bracket_inv_def)
qed

lemma expand_ends:
  assumes "0 < d" "expanding residual d s"
  shows "halts (loop_flow (expand_body residual (Fin L)) s)"
    "loop_flow (expand_body residual (Fin L)) s = Inr b \<Longrightarrow> bracket_inv residual b"
proof -
  let ?m = "\<lambda>s. nat \<lceil>(L - fin (bk_high (fst s))) / d\<rceil>"
  show "halts (loop_flow (expand_body residual (Fin L)) s)"
  proof (rule halts_loop_flow [where P = "expanding residual d" and m = ?m])
    show "expanding residual d s' \<and> ?m s' < ?m s"
      if "expanding residual d s" "expand_body residual (Fin L) s = Inr (Continue s')" for s s'
    proof -
      note c = expand_body_continue [OF assms(1) that]
      have "0 \<le> (L - fin (bk_high (fst s'))) / d" using c(2) assms(1) by simp
      moreover have "(L - fin (bk_high (fst s'))) / d + 2 \<le> (L - fin (bk_high (fst s))) / d"
        using divide_right_mono [of "L - fin (bk_high (fst s')) + 2 * d" "L - fin (bk_high (fst s))" d] c(3) assms(1)
        by (simp add: add_divide_distrib)
      ultimately have "\<lceil>(L - fin (bk_high (fst s'))) / d\<rceil> < \<lceil>(L - fin (bk_high (fst s))) / d\<rceil>"
        "0 < \<lceil>(L - fin (bk_high (fst s))) / d\<rceil>" by linarith+
      with c(1) show ?thesis by linarith
    qed
    show "halts (expand_body residual (Fin L) s)" for s by (cases s) (simp add: expand_body_def Let_def)
  qed (rule assms(2))
  show "bracket_inv residual b" if "loop_flow (expand_body residual (Fin L)) s = Inr b"
  proof (rule loop_flow_invariant [OF that, of "expanding residual d"])
    show "expanding residual d s'"
      if "expanding residual d s" "expand_body residual (Fin L) s = Inr (Continue s')" for s s'
      by (rule expand_body_continue(1) [OF assms(1) that])
    show "bracket_inv residual r"
      if "expanding residual d s" "expand_body residual (Fin L) s = Inr (Return r)" for s r
      using that by (cases s) (auto simp: expand_body_def expanding_def Let_def split: if_split_asm)
  qed (rule assms(2))
qed

lemma initial_bracket_inv:
  assumes "0 < e" "0 \<le> v"
  shows "bracket_inv residual (fst (initial_bracket residual (Fin e) (Fin v) (Fin v')))"
    "snd (initial_bracket residual (Fin e) (Fin v) (Fin v')) = Fin \<bar>v' - v\<bar>"
  using assms by (auto simp: initial_bracket_def Let_def bracket_inv_def)

text \<open>
  The brackets the expansion goes through: the first reaches from the current velocity to the naive one, with the tolerance
  on both sides, and each is wider than the one before by a step that doubles.
\<close>

fun widened :: "real \<Rightarrow> real \<Rightarrow> real \<Rightarrow> nat \<Rightarrow> real \<times> real" where
  "widened e v v' 0 = (max 0 (min v v' - e), max v v' + e)"
| "widened e v v' (Suc k) =
     (let d = \<bar>v' - v\<bar> * 2 ^ Suc k; lh = widened e v v' k in (max 0 (fst lh - d), snd lh + d))"

definition straddles_at :: "(arc_velocity \<Rightarrow> arc_acceleration) \<Rightarrow> real \<times> real \<Rightarrow> bool" where
  "straddles_at residual lh \<longleftrightarrow> straddles_zero (residual (Fin (fst lh))) (residual (Fin (snd lh)))"

definition bracket_of :: "(arc_velocity \<Rightarrow> arc_acceleration) \<Rightarrow> real \<times> real \<Rightarrow> bracket" where
  "bracket_of residual lh = \<lparr>bk_low = Fin (fst lh), bk_high = Fin (snd lh), bk_residual_low = residual (Fin (fst lh)),
     bk_residual_high = residual (Fin (snd lh))\<rparr>"

text \<open>Bracket \<open>k\<close> is reached: none before it straddles a zero.\<close>

definition reached :: "(arc_velocity \<Rightarrow> arc_acceleration) \<Rightarrow> real \<Rightarrow> real \<Rightarrow> real \<Rightarrow> nat \<Rightarrow> bool" where
  "reached residual e v v' k \<longleftrightarrow> (\<forall>j < k. \<not> straddles_at residual (widened e v v' j))"

definition expanded :: "(arc_velocity \<Rightarrow> arc_acceleration) \<Rightarrow> real \<Rightarrow> real \<Rightarrow> real \<Rightarrow> real \<Rightarrow> bracket \<times> arc_velocity \<Rightarrow> bool" where
  "expanded residual e v v' L s \<longleftrightarrow>
     (\<exists>k. s = (bracket_of residual (widened e v v' k), Fin (\<bar>v' - v\<bar> * 2 ^ k)) \<and> reached residual e v v' k \<and>
        (k = 0 \<or> snd (widened e v v' k) \<le> L))"

lemma initial_expanded: "expanded residual e v v' L (initial_bracket residual (Fin e) (Fin v) (Fin v'))"
proof -
  have "initial_bracket residual (Fin e) (Fin v) (Fin v') = (bracket_of residual (widened e v v' 0), Fin (\<bar>v' - v\<bar> * 2 ^ 0))"
    by (auto simp: initial_bracket_def bracket_of_def Let_def std_max_def std_min_def max_def min_def)
  then show ?thesis unfolding expanded_def by (intro exI [of _ 0]) (simp add: reached_def)
qed

lemma reached_Suc: "reached residual e v v' (Suc k) \<longleftrightarrow> reached residual e v v' k \<and> \<not> straddles_at residual (widened e v v' k)"
  by (auto simp: reached_def less_Suc_eq)

lemma expand_body_steps:
  "expand_body residual (Fin L) (bracket_of residual (widened e v v' k), Fin (\<bar>v' - v\<bar> * 2 ^ k)) =
     (if straddles_at residual (widened e v v' k) then Inr (Return (bracket_of residual (widened e v v' k)))
      else if L < snd (widened e v v' (Suc k))
      then Inl (Runtime_error ''Backward integration solver bracket expansion exceeded phase plane velocity ceiling'')
      else Inr (Continue (bracket_of residual (widened e v v' (Suc k)), Fin (\<bar>v' - v\<bar> * 2 ^ Suc k))))"
  by (auto simp: expand_body_def bracket_of_def straddles_at_def Let_def std_max_def max_def algebra_simps)

lemma expand_outcome:
  assumes "loop_flow (expand_body residual (Fin L)) (initial_bracket residual (Fin e) (Fin v) (Fin v')) = r" "r \<noteq> Inl Diverges"
  shows "case r of
      Inr b \<Rightarrow> \<exists>k. b = bracket_of residual (widened e v v' k) \<and> reached residual e v v' k \<and>
        straddles_at residual (widened e v v' k) \<and> (k = 0 \<or> snd (widened e v v' k) \<le> L)
    | Inl x \<Rightarrow> x = Runtime_error ''Backward integration solver bracket expansion exceeded phase plane velocity ceiling'' \<and>
        (\<exists>k. reached residual e v v' (Suc k) \<and> L < snd (widened e v v' (Suc k)))"
proof (rule loop_flow_outcome [where P = "expanded residual e v v' L", OF assms initial_expanded])
  fix s s' assume s: "expanded residual e v v' L s" and c: "expand_body residual (Fin L) s = Inr (Continue s')"
  from s obtain k where k: "s = (bracket_of residual (widened e v v' k), Fin (\<bar>v' - v\<bar> * 2 ^ k))" "reached residual e v v' k"
    unfolding expanded_def by blast
  from c have "\<not> straddles_at residual (widened e v v' k)" "\<not> L < snd (widened e v v' (Suc k))"
    "s' = (bracket_of residual (widened e v v' (Suc k)), Fin (\<bar>v' - v\<bar> * 2 ^ Suc k))"
    unfolding k(1) expand_body_steps by (simp_all split: if_split_asm del: widened.simps)
  with k(2) show "expanded residual e v v' L s'"
    unfolding expanded_def by (intro exI [of _ "Suc k"]) (simp add: reached_Suc del: widened.simps)
next
  fix s b assume s: "expanded residual e v v' L s" and c: "expand_body residual (Fin L) s = Inr (Return b)"
  from s obtain k where k: "s = (bracket_of residual (widened e v v' k), Fin (\<bar>v' - v\<bar> * 2 ^ k))" "reached residual e v v' k"
      "k = 0 \<or> snd (widened e v v' k) \<le> L"
    unfolding expanded_def by blast
  from c have "straddles_at residual (widened e v v' k)" "b = bracket_of residual (widened e v v' k)"
    unfolding k(1) expand_body_steps by (simp_all split: if_split_asm del: widened.simps)
  with k(2,3) show "case Inr b of
      Inr b \<Rightarrow> \<exists>k. b = bracket_of residual (widened e v v' k) \<and> reached residual e v v' k \<and>
        straddles_at residual (widened e v v' k) \<and> (k = 0 \<or> snd (widened e v v' k) \<le> L)
    | Inl x \<Rightarrow> x = Runtime_error ''Backward integration solver bracket expansion exceeded phase plane velocity ceiling'' \<and>
        (\<exists>k. reached residual e v v' (Suc k) \<and> L < snd (widened e v v' (Suc k)))"
    by auto
next
  fix s x assume s: "expanded residual e v v' L s" and c: "expand_body residual (Fin L) s = Inl x"
  from s obtain k where k: "s = (bracket_of residual (widened e v v' k), Fin (\<bar>v' - v\<bar> * 2 ^ k))" "reached residual e v v' k"
    unfolding expanded_def by blast
  from c have "\<not> straddles_at residual (widened e v v' k)" "L < snd (widened e v v' (Suc k))"
    "x = Runtime_error ''Backward integration solver bracket expansion exceeded phase plane velocity ceiling''"
    unfolding k(1) expand_body_steps by (simp_all split: if_split_asm del: widened.simps)
  with k(2) reached_Suc [of residual e v v' k] show "case Inl x of
      Inr b \<Rightarrow> \<exists>k. b = bracket_of residual (widened e v v' k) \<and> reached residual e v v' k \<and>
        straddles_at residual (widened e v v' k) \<and> (k = 0 \<or> snd (widened e v v' k) \<le> L)
    | Inl x \<Rightarrow> x = Runtime_error ''Backward integration solver bracket expansion exceeded phase plane velocity ceiling'' \<and>
        (\<exists>k. reached residual e v v' (Suc k) \<and> L < snd (widened e v v' (Suc k)))"
    by auto
qed

text \<open>The bisection stays inside its bracket, and loses the zero only where a residual is not a number.\<close>

definition holding :: "(arc_velocity \<Rightarrow> arc_acceleration) \<Rightarrow> real \<times> real \<Rightarrow> bracket \<Rightarrow> bool" where
  "holding residual lh b \<longleftrightarrow> bracket_inv residual b \<and> Fin (fst lh) \<le> bk_low b \<and> bk_high b \<le> Fin (snd lh) \<and>
     (straddles_zero (bk_residual_low b) (bk_residual_high b) \<or> (\<exists>x. fst lh \<le> x \<and> x \<le> snd lh \<and> residual (Fin x) = NaN))"

lemma straddles_split: "straddles_zero a b \<Longrightarrow> \<not> straddles_zero a m \<Longrightarrow> m \<noteq> NaN \<Longrightarrow> straddles_zero m b"
  by (cases a; cases b; cases m) (auto simp: straddles_zero_def)

lemma bisect_body_holding:
  assumes "holding residual lh b"
  shows "bisect_body residual eps b = Inr (Continue b') \<Longrightarrow> holding residual lh b'"
    "bisect_body residual eps b = Inr (Return b') \<Longrightarrow> Fin (fst lh) \<le> bk_low b' \<and> bk_high b' \<le> Fin (snd lh)"
    "bisect_body residual eps b = Inl x \<Longrightarrow>
       x = Runtime_error ''Backward integration solver bracket lost zero-straddle invariant'' \<and>
       (\<exists>x. fst lh \<le> x \<and> x \<le> snd lh \<and> residual (Fin x) = NaN)"
proof -
  obtain x y where xy: "bk_low b = Fin x" "bk_high b = Fin y" "0 \<le> x" "x \<le> y" "fst lh \<le> x" "y \<le> snd lh"
    using assms by (auto simp: holding_def bracket_inv_def isfinite_iff)
  let ?m = "(x + y) / 2"
  have m: "fst lh \<le> ?m" "?m \<le> snd lh" "x \<le> ?m" "?m \<le> y" using xy by simp_all
  show "holding residual lh b'" if c: "bisect_body residual eps b = Inr (Continue b')"
  proof -
    have inv: "bracket_inv residual b'" using bisect_body_narrows(1) [OF _ c] assms by (simp add: holding_def)
    have st: "straddles_zero (bk_residual_low b) (bk_residual_high b)" using c by (auto simp: bisect_body_def split: if_split_asm)
    consider "straddles_zero (bk_residual_low b) (residual (Fin ?m))"
        "b' = b\<lparr>bk_high := Fin ?m, bk_residual_high := residual (Fin ?m)\<rparr>"
      | "\<not> straddles_zero (bk_residual_low b) (residual (Fin ?m))"
        "b' = b\<lparr>bk_low := Fin ?m, bk_residual_low := residual (Fin ?m)\<rparr>"
      using c xy by (auto simp: bisect_body_def Let_def split: if_split_asm)
    then show ?thesis
    proof cases
      case 1
      then show ?thesis using inv xy m by (simp add: holding_def)
    next
      case 2
      with straddles_split [OF st] m have "straddles_zero (residual (Fin ?m)) (bk_residual_high b) \<or>
          (\<exists>x. fst lh \<le> x \<and> x \<le> snd lh \<and> residual (Fin x) = NaN)" by blast
      with 2 inv xy m show ?thesis by (simp add: holding_def)
    qed
  qed
  show "Fin (fst lh) \<le> bk_low b' \<and> bk_high b' \<le> Fin (snd lh)" if "bisect_body residual eps b = Inr (Return b')"
    using that xy m by (auto simp: bisect_body_def Let_def split: if_split_asm)
  show "x = Runtime_error ''Backward integration solver bracket lost zero-straddle invariant'' \<and>
       (\<exists>x. fst lh \<le> x \<and> x \<le> snd lh \<and> residual (Fin x) = NaN)" if "bisect_body residual eps b = Inl x" for x
    using that assms by (auto simp: bisect_body_def Let_def holding_def split: if_split_asm)
qed

lemma bisect_outcome:
  assumes "loop_flow (bisect_body residual eps) b = r" "r \<noteq> Inl Diverges" "holding residual lh b"
  shows "case r of
      Inr b' \<Rightarrow> Fin (fst lh) \<le> bk_low b' \<and> bk_high b' \<le> Fin (snd lh)
    | Inl x \<Rightarrow> x = Runtime_error ''Backward integration solver bracket lost zero-straddle invariant'' \<and>
        (\<exists>x. fst lh \<le> x \<and> x \<le> snd lh \<and> residual (Fin x) = NaN)"
  by (rule loop_flow_outcome [where P = "holding residual lh", OF assms]) (use bisect_body_holding in \<open>simp_all only: sum.case\<close>)

text \<open>
  C37: The velocity solver of the backward pass. If the naive step changes the velocity, or the first
  bracket straddles a zero of the residual, the solver ends. It returns the naive velocity where its residual is zero
  within the tolerance. Else it looks in the first of the widening brackets that straddles a zero, and throws where a bracket
  would pass twice the ceiling of the phase plane before one does. A returned velocity is finite, not negative and inside that
  bracket, so within twice the ceiling unless the first bracket straddles, and either its residual is zero within the tolerance, or it is
  an end of a bracket without a double inside, whose residuals straddle zero, with the smaller residual of the two. The bisection
  throws only if a residual in the bracket is not a number.
\<close>

theorem solve_velocity_spec:
  assumes "0 < e" "0 \<le> v" "0 \<le> v'"
    and "v' \<noteq> v \<or> straddles_zero (residual (Fin (max 0 (v - e)))) (residual (Fin (v + e)))"
  shows "solve_velocity residual (Fin e) (Fin ceiling') (Fin v) (Fin v') \<noteq> Inl Diverges \<and>
    (\<forall>r. solve_velocity residual (Fin e) (Fin ceiling') (Fin v) (Fin v') = Inr r \<longrightarrow> isfinite r \<and> 0 \<le> r \<and>
       (eps_eq (Fin e) (residual r) 0 \<or>
        (\<exists>lo hi. pinched lo hi \<and> straddles_zero (residual lo) (residual hi) \<and> (r = lo \<or> r = hi) \<and>
           (r = lo \<longrightarrow> \<bar>residual lo\<bar> \<le> \<bar>residual hi\<bar> \<or> lo = hi) \<and> (\<bar>residual lo\<bar> \<le> \<bar>residual hi\<bar> \<longrightarrow> r = lo))) \<and>
       (if eps_eq (Fin e) (residual (Fin v')) 0 then r = Fin v'
        else \<exists>k. reached residual e v v' k \<and> straddles_at residual (widened e v v' k) \<and>
          (k = 0 \<or> snd (widened e v v' k) \<le> 2 * ceiling') \<and>
          Fin (fst (widened e v v' k)) \<le> r \<and> r \<le> Fin (snd (widened e v v' k)))) \<and>
    (\<forall>x. solve_velocity residual (Fin e) (Fin ceiling') (Fin v) (Fin v') = Inl x \<longrightarrow>
       x = Runtime_error ''Backward integration solver bracket expansion exceeded phase plane velocity ceiling'' \<and>
         (\<exists>k. reached residual e v v' (Suc k) \<and> 2 * ceiling' < snd (widened e v v' (Suc k))) \<or>
       x = Runtime_error ''Backward integration solver bracket lost zero-straddle invariant'' \<and>
         (\<exists>k y. reached residual e v v' k \<and> straddles_at residual (widened e v v' k) \<and>
            fst (widened e v v' k) \<le> y \<and> y \<le> snd (widened e v v' k) \<and> residual (Fin y) = NaN))"
proof (cases "eps_eq (Fin e) (residual (Fin v')) 0")
  case True
  with assms(3) show ?thesis by (simp add: solve_velocity_def)
next
  case False
  define s0 where "s0 = initial_bracket residual (Fin e) (Fin v) (Fin v')"
  let ?ex = "loop_flow (expand_body residual (Fin (2 * ceiling'))) s0"
  note i = initial_bracket_inv [OF assms(1,2), of residual v', folded s0_def]
  have ex: "halts ?ex \<and> (\<forall>b. ?ex = Inr b \<longrightarrow> bracket_inv residual b)"
  proof (cases "v' = v")
    case True
    with assms(4) have "expand_body residual (Fin (2 * ceiling')) s0 = Inr (Return (fst s0))"
      by (cases s0) (auto simp: expand_body_def s0_def initial_bracket_def Let_def)
    with i(1) show ?thesis by (simp add: loop_flow_unfold)
  next
    case False
    then have "0 < \<bar>v' - v\<bar>" "expanding residual \<bar>v' - v\<bar> s0" using i by (simp_all add: expanding_def)
    from expand_ends [OF this] show ?thesis by blast
  qed
  then have ex': "?ex \<noteq> Inl Diverges" by (simp add: halts_def)
  note eo = expand_outcome [OF refl ex' [unfolded s0_def], folded s0_def]
  have hold: "holding residual (widened e v v' k) (bracket_of residual (widened e v v' k))"
    if "straddles_at residual (widened e v v' k)" "?ex = Inr (bracket_of residual (widened e v v' k))" for k
    using that ex by (auto simp: holding_def straddles_at_def bracket_of_def)
  have def': "solve_velocity residual (Fin e) (Fin ceiling') (Fin v) (Fin v') =
      bind_res ?ex (\<lambda>b. bind_res (loop_flow (bisect_body residual (Fin e)) b) (\<lambda>b'.
        Inr (if \<bar>bk_residual_low b'\<bar> \<le> \<bar>bk_residual_high b'\<bar> then bk_low b' else bk_high b')))"
    using False by (simp add: solve_velocity_def s0_def)
  have halts: "halts (solve_velocity residual (Fin e) (Fin ceiling') (Fin v) (Fin v'))"
    unfolding def' using ex bisect_solves(1) by (intro halts_bind) (auto simp: halts_def)
  moreover have "isfinite r \<and> 0 \<le> r \<and> (eps_eq (Fin e) (residual r) 0 \<or>
        (\<exists>lo hi. pinched lo hi \<and> straddles_zero (residual lo) (residual hi) \<and> (r = lo \<or> r = hi) \<and>
           (r = lo \<longrightarrow> \<bar>residual lo\<bar> \<le> \<bar>residual hi\<bar> \<or> lo = hi) \<and> (\<bar>residual lo\<bar> \<le> \<bar>residual hi\<bar> \<longrightarrow> r = lo))) \<and>
      (\<exists>k. reached residual e v v' k \<and> straddles_at residual (widened e v v' k) \<and>
          (k = 0 \<or> snd (widened e v v' k) \<le> 2 * ceiling') \<and>
          Fin (fst (widened e v v' k)) \<le> r \<and> r \<le> Fin (snd (widened e v v' k)))"
    if r: "solve_velocity residual (Fin e) (Fin ceiling') (Fin v) (Fin v') = Inr r" for r
  proof -
    obtain b b' where b: "?ex = Inr b" "loop_flow (bisect_body residual (Fin e)) b = Inr b'"
        "(if \<bar>bk_residual_low b'\<bar> \<le> \<bar>bk_residual_high b'\<bar> then bk_low b' else bk_high b') = r"
      using r unfolding def' bind_res_eq_Inr sum.inject by blast
    have s: "solved residual (Fin e) b'" using bisect_solves(2) b(2) ex b(1) by blast
    obtain k where k: "b = bracket_of residual (widened e v v' k)" "reached residual e v v' k"
        "straddles_at residual (widened e v v' k)" "k = 0 \<or> snd (widened e v v' k) \<le> 2 * ceiling'"
      using eo b(1) by auto
    have "Fin (fst (widened e v v' k)) \<le> bk_low b'" "bk_high b' \<le> Fin (snd (widened e v v' k))"
      using bisect_outcome [OF b(2) _ hold [OF k(3), folded k(1), OF b(1)]] by simp_all
    then have "Fin (fst (widened e v v' k)) \<le> r \<and> r \<le> Fin (snd (widened e v v' k))"
      using s b(3) by (auto simp: solved_def bracket_inv_def isfinite_iff split: if_split_asm)
    with k(2-4) have "\<exists>k. reached residual e v v' k \<and> straddles_at residual (widened e v v' k) \<and>
          (k = 0 \<or> snd (widened e v v' k) \<le> 2 * ceiling') \<and>
          Fin (fst (widened e v v' k)) \<le> r \<and> r \<le> Fin (snd (widened e v v' k))" by blast
    then show ?thesis using b(3) s by (auto simp: solved_def bracket_inv_def isfinite_iff split: if_split_asm)
  qed
  moreover have "x = Runtime_error ''Backward integration solver bracket expansion exceeded phase plane velocity ceiling'' \<and>
         (\<exists>k. reached residual e v v' (Suc k) \<and> 2 * ceiling' < snd (widened e v v' (Suc k))) \<or>
       x = Runtime_error ''Backward integration solver bracket lost zero-straddle invariant'' \<and>
         (\<exists>k y. reached residual e v v' k \<and> straddles_at residual (widened e v v' k) \<and>
            fst (widened e v v' k) \<le> y \<and> y \<le> snd (widened e v v' k) \<and> residual (Fin y) = NaN)"
    if x: "solve_velocity residual (Fin e) (Fin ceiling') (Fin v) (Fin v') = Inl x" for x
  proof (cases ?ex)
    case (Inl y)
    with x eo show ?thesis by (simp add: def')
  next
    case (Inr b)
    with eo obtain k where k: "b = bracket_of residual (widened e v v' k)" "reached residual e v v' k"
        "straddles_at residual (widened e v v' k)" by auto
    from x Inr have "loop_flow (bisect_body residual (Fin e)) b = Inl x"
      by (cases "loop_flow (bisect_body residual (Fin e)) b") (simp_all add: def')
    from bisect_outcome [OF this _ hold [OF k(3), folded k(1), OF Inr]] halts x k(2,3)
    show ?thesis by (auto simp: halts_def simp del: widened.simps)
  qed
  ultimately show ?thesis using False by (simp add: halts_def del: widened.simps)
qed

theorem solve_velocity_spec_witness:
  "\<exists>r. solve_velocity (\<lambda>x. x - Fin 2) (Fin (1 / 2)) (Fin 10) (Fin 0) (Fin 1) = Inr r \<and> r \<le> Fin (7 / 2)"
proof -
  let ?s = "solve_velocity (\<lambda>x. x - Fin 2) (Fin (1 / 2)) (Fin 10) (Fin 0) (Fin 1)"
  have spec: "0 < (1 / 2 :: real)" "0 \<le> (0 :: real)" "0 \<le> (1 :: real)" "(1 :: real) \<noteq> 0 \<or> P" for P by simp_all
  note spec = solve_velocity_spec [OF this, of "\<lambda>x. x - Fin 2" 10]
  have w: "widened (1 / 2) 0 1 0 = (0, 3 / 2)" "widened (1 / 2) 0 1 (Suc 0) = (0, 7 / 2)" by (simp_all add: Let_def)
  have st: "\<not> straddles_at (\<lambda>x. x - Fin 2) (widened (1 / 2) 0 1 0)" "straddles_at (\<lambda>x. x - Fin 2) (widened (1 / 2) 0 1 (Suc 0))"
    by (simp_all add: straddles_at_def straddles_zero_def w del: widened.simps)
  have k: "k = 1" if "reached (\<lambda>x. x - Fin 2) (1 / 2) 0 1 k" "straddles_at (\<lambda>x. x - Fin 2) (widened (1 / 2) 0 1 k)" for k
    using that st by (cases k; cases "k - 1") (auto simp: reached_def simp del: widened.simps)
  have nx: "\<not> (reached (\<lambda>x. x - Fin 2) (1 / 2) 0 1 (Suc k) \<and> 2 * 10 < snd (widened (1 / 2) 0 1 (Suc k)))" for k
    using st w by (cases k) (auto simp: reached_def simp del: widened.simps)
  show ?thesis
  proof (cases ?s)
    case (Inl x)
    with spec nx show ?thesis by (auto simp del: widened.simps)
  next
    case (Inr r)
    have n: "\<not> eps_eq (Fin (1 / 2)) (Fin 1 - Fin 2) 0" by simp
    from conjunct2 [OF conjunct2 [OF conjunct2 [OF spec [THEN conjunct2, THEN conjunct1, THEN HOL.spec, THEN mp, OF Inr]]], unfolded if_not_P [OF n]]
    obtain j where "reached (\<lambda>x. x - Fin 2) (1 / 2) 0 1 j" "straddles_at (\<lambda>x. x - Fin 2) (widened (1 / 2) 0 1 j)"
        "r \<le> Fin (snd (widened (1 / 2) 0 1 j))" by blast
    with k [of j] Inr show ?thesis by (simp add: w del: widened.simps)
  qed
qed

text \<open>
  C38: The expansion of the bracket does not end when the naive step leaves the velocity as it is: the
  first bracket is then grown by zero, forever, unless it straddles a zero already, and the ceiling is
  not reached.
\<close>

theorem solve_velocity_spins:
  assumes "0 < e" "0 \<le> v" "v + e \<le> 2 * ceiling'" "\<not> eps_eq (Fin e) (residual (Fin v)) 0"
    and "\<not> straddles_zero (residual (Fin (max 0 (v - e)))) (residual (Fin (v + e)))"
  shows "solve_velocity residual (Fin e) (Fin ceiling') (Fin v) (Fin v) = Inl Diverges"
proof -
  define s0 where "s0 = initial_bracket residual (Fin e) (Fin v) (Fin v)"
  have "expand_body residual (Fin (2 * ceiling')) s0 = Inr (Continue s0)"
    using assms by (auto simp: s0_def initial_bracket_def Let_def expand_body_def)
  then have "loop_flow (expand_body residual (Fin (2 * ceiling'))) s0 = Inl Diverges" by (rule loop_flow_stuck)
  with assms(4) show ?thesis by (simp add: solve_velocity_def s0_def)
qed

theorem solve_velocity_spins_witness:
  "solve_velocity (\<lambda>x. Fin 1) (Fin (1 / 2)) (Fin 10) (Fin 1) (Fin 1) = Inl Diverges"
  using solve_velocity_spins [of "1 / 2" 1 10 "\<lambda>x. Fin 1"]
  by (simp add: straddles_zero_def eps_eq_def wrap_compare_def)

section \<open>The memo of the probe\<close>

lemma rail_round: "round_inv rail rail_options (path_begin, rail_start)" "sound_options rail rail_options"
proof -
  have "start_integration rail = Inr rail_start" by (simp add: start_integration_def rail_simps rail_start_def del: zero_Fin)
  then show "round_inv rail rail_options (path_begin, rail_start)" by (rule start_round [OF rail_inv(1)])
  show "sound_options rail rail_options" by (rule acceptable_sound) (rule rail_inv)+
qed

text \<open>
  The forward pass keeps the limit curves of its last probe, to use them again when the next step
  starts where the probe was. From any state the algorithm reaches, this changes nothing: the pass
  returns, throws or runs on exactly as if it computed the curves afresh in every step.
\<close>

lemma probe_memo_transparent:
  assumes "sound_options p opt" "round_inv p opt (start, st)"
  shows "integrate_forward_from opt start st =
    bind_res (forward_start start st) (loop_flow (\<lambda>fw. forward_body opt start (fw\<lparr>fw_probed := None\<rparr>)))"
proof (cases "forward_start start st")
  case (Inr fw)
  have w: "sp_within p opt start" using assms(2) by (simp add: round_inv_def switch_ok_def)
  let ?P = "\<lambda>fw. forward_inv p opt fw \<and> memo_ok p opt fw"
  have "fw_probed fw = None" using Inr by (auto simp: forward_start_def split: if_split_asm)
  then have "?P fw" using forward_start_ok [OF assms(2) Inr] by (simp add: memo_ok_def)
  then have "loop_flow (\<lambda>fw. forward_body opt start (fw\<lparr>fw_probed := None\<rparr>)) fw = loop_flow (forward_body opt start) fw"
  proof (rule loop_flow_cong)
    show "forward_body opt start (fw\<lparr>fw_probed := None\<rparr>) = forward_body opt start fw" if "?P fw" for fw
      using that forward_body_unmemoised by blast
    show "?P fw'" if "?P fw" "forward_body opt start fw = Inr (Continue fw')" for fw fw'
      using that forward_body_ok [OF assms(1) w, of fw "Continue fw'"] forward_body_memo [OF assms(1) w, of fw fw']
      by (simp add: step_kept_def)
  qed
  then show ?thesis by (simp add: integrate_forward_from_def Inr)
qed (simp add: integrate_forward_from_def)

lemma probe_memo_transparent_witness:
  "\<exists>fw st. forward_start path_begin rail_start = Inr fw \<and>
     loop_flow (\<lambda>fw. forward_body rail_options path_begin (fw\<lparr>fw_probed := None\<rparr>)) fw = Inr (rail_end, st)"
proof -
  obtain l where "integrate_forward_from rail_options path_begin rail_start =
     Inr (rail_end, rail_start\<lparr>ig_points := [pace 1 0 0 0 1, pace 1 1 (1 / 2) 1 1, pace 1 2 2 2 (21 / 25), l],
                                ig_cursor := rail_cursor (5 / 2)\<rparr>)"
    using scaled_forward_pass [OF rail_scaled(3)] unfolding rail_scaled by blast
  from trans [OF probe_memo_transparent [OF rail_round(2,1), symmetric] this] show ?thesis
    unfolding bind_res_eq_Inr by blast
qed

section \<open>Properties of the creation\<close>

text \<open>
  What \<open>trajectory::create\<close> accepts. If the limits do not fit the path, are negative, or the step, the
  tolerance or the tool speed is not finite and positive, it throws \<open>std::invalid_argument\<close>, with or without
  given points. With acceptable options, given points are taken as they are if there are at least two,
  they start at time and arc length zero and end at the end of the path, no time is at or before the
  one before it, and the arc lengths do not decrease and stay on the path; otherwise it throws too.
\<close>

lemma trajectory_create_checks:
  assumes "path_inv p"
  shows "(\<not> acceptable p opt \<longrightarrow> (\<exists>msg. trajectory_create p opt ps = Inl (Invalid_argument msg))) \<and>
    (acceptable p opt \<and> ps \<noteq> [] \<longrightarrow>
      fails_or (trajectory_create p opt ps)
        \<lparr>tr_path = p, tr_options = opt, tr_points = ps, tr_duration = ip_time (last ps)\<rparr>
        (2 \<le> length ps \<and> ip_time (hd ps) = 0 \<and> ip_s (hd ps) = 0 \<and> ip_s (last ps) = path_length p \<and> in_order p ps))"
proof (cases rule: check_options_cases [of p opt])
  case 1
  with check_points_result [of ps p] make_trajectory_result [OF assms, of opt ps] show ?thesis
    by (cases "check_points p ps"; cases "ip_time (hd ps) = 0 \<and> in_order p ps") (auto simp: trajectory_create_def fails_or_def)
next
  case (2 m)
  then show ?thesis by (simp add: trajectory_create_def)
qed

lemma trajectory_create_checks_witness:
  "\<exists>t. trajectory_create rail rail_options [rail_point 0 0 0 1, rail_point 1 (5 / 2) 0 0] = Inr t \<and> tr_duration t = Fin 1"
proof -
  have "in_order rail [rail_point 0 0 0 1, rail_point 1 (5 / 2) 0 0]"
    by (simp add: in_order_def rail_inv)
  with trajectory_create_checks [OF rail_inv(1), of rail_options "[rail_point 0 0 0 1, rail_point 1 (5 / 2) 0 0]"] rail_inv(2,5)
  show ?thesis by (simp add: fails_or_def)
qed

text \<open>
  C1: A trajectory computed by \<open>trajectory::create\<close> is sound. Its points lead from rest at the start of the
  path to rest at its end; each point lies strictly ahead of the one before it, later by the distance
  over the mean velocity, with the constant acceleration recorded that makes up the difference of the
  velocities; and no point exceeds, by more than the tolerance, the joint velocity limit, the tool
  speed limit or the acceleration limit curve where it lies. The duration is the time of the last point.
\<close>

theorem trajectory_create_sound:
  assumes "path_inv p" "evaluator_returns opt" "(fin (to_epsilon opt))\<^sup>2 * real (path_dof p) \<le> 1"
    "trajectory_create p opt [] = Inr t"
  shows "tr_path t = p \<and> tr_options t = opt \<and> 2 \<le> length (tr_points t) \<and>
    starts_at_rest (hd (tr_points t)) \<and> ip_s (last (tr_points t)) = path_length p \<and> ip_s_dot (last (tr_points t)) = 0 \<and>
    tr_duration t = ip_time (last (tr_points t)) \<and> successively connects (tr_points t) \<and>
    (\<forall>q \<in> set (tr_points t). on_path p (ip_s q) \<and>
      (0 \<le> ip_s_dot q \<longrightarrow> within_limits p opt (ip_s q) (ip_s_dot q)))"
proof -
  have "acceptable p opt" "run_totg p opt = Inr t"
    using assms(4) by (cases rule: check_options_cases [of p opt]; simp add: trajectory_create_def)+
  with run_totg_sound [OF assms(1) acceptable_sound [OF _ assms(2,3)]] show ?thesis
    by (simp add: sound_trajectory_def sound_points_def sound_point_def)
qed

theorem trajectory_create_sound_witness:
  "\<exists>t. trajectory_create rail rail_options [] = Inr t \<and> length (tr_points t) = 4 \<and> tr_duration t = Fin (7 / 2) \<and>
     successively connects (tr_points t)"
proof -
  obtain t where t: "trajectory_create rail rail_options [] = Inr t"
    "tr_points t = [rail_point 0 0 0 1, rail_point 1 (1 / 2) 1 0, rail_point (5 / 2) 2 1 (- 1), rail_point (7 / 2) (5 / 2) 0 0]"
    using rail_run by blast
  from trajectory_create_sound [OF rail_inv(1,3,4) t(1)] t show ?thesis by simp
qed

section \<open>The joints at the computed points\<close>

lemma nth_le_norm: "i < length q \<Longrightarrow> \<bar>q ! i\<bar> \<le> norm_l2 q"
proof -
  assume "i < length q"
  then have "(q ! i)\<^sup>2 \<le> (\<Sum>j < length q. (q ! j)\<^sup>2)" by (intro member_le_sum) simp_all
  then have "\<bar>q ! i\<bar>\<^sup>2 \<le> dot q q" by (simp add: dot_sum power2_eq_square)
  then show ?thesis unfolding norm_l2_def by (rule real_le_rsqrt)
qed

definition joints_within :: "path \<Rightarrow> traj_options \<Rightarrow> arc_length \<Rightarrow> real \<Rightarrow> bool" where
  "joints_within p opt s v \<longleftrightarrow>
     (\<exists>i view q'. deref p i = Inr view \<and> view_start view \<le> s \<and> s \<le> view_end view \<and> view_tangent view s = Inr q' \<and>
        (\<forall>j < path_dof p. moving (fin (to_epsilon opt)) q' j \<longrightarrow>
           \<bar>q' ! j * v\<bar> \<le> to_max_velocity opt ! j + fin (to_epsilon opt)))"

lemma joints_within_rest:
  assumes "path_inv p" "sound_options p opt" "on_path p s"
  shows "joints_within p opt s 0"
proof -
  obtain len where len: "path_length p = Fin len" using path_length_finite [OF assms(1)] by blast
  obtain c where c: "cursor_inv c" "cur_path c = p" "cur_position c = std_clamp s 0 (path_length p)"
    using create_cursor_inv [OF assms(1), of s] by blast
  have "std_clamp s 0 (path_length p) = s" using assms(3) len by (cases s) (auto simp: on_path_def std_clamp_def)
  with c on_path_finite [OF assms(1,3)] have st: "standing p c" "cur_position c = s" by (simp_all add: standing_def)
  obtain v where v: "cursor_deref c = Inr v" using standing_deref [OF st(1)] .
  have "deref p (cur_hint c) = Inr v" using v c(2) by (simp add: cursor_deref_def)
  moreover obtain q' where "view_tangent v s = Inr q'" using cursor_views(5) [OF st(1) v] st(2) by auto
  moreover have "0 \<le> to_max_velocity opt ! j + fin (to_epsilon opt)" if "j < path_dof p" for j
    using assms(2) that nth_mem [of j "to_max_velocity opt"] sound_optionsE [OF assms(2)]
    by (metis add_nonneg_nonneg fin.simps(1) less_imp_le sound_options_def)
  ultimately show ?thesis
    using standing_view(5,6) [OF st(1) v] st(2) by (auto simp: joints_within_def)
qed

lemma curves_joint:
  assumes "compute_limit_curves q q' q'' opt = Inr curves" "proper_curves curves" "sound_options p opt" "length q' = path_dof p"
    "j < path_dof p" "to_epsilon opt = Fin e" "0 < e" "moving e q' j"
  shows "\<bar>q' ! j\<bar> * fin (lc_s_dot_max_vel curves) \<le> to_max_velocity opt ! j"
proof -
  obtain l k where l: "compute_joint_velocity_limit q' q'' (to_max_velocity opt) (Fin e) = (l, k)"
    by (cases "compute_joint_velocity_limit q' q'' (to_max_velocity opt) (Fin e)")
  obtain x where x: "lc_s_dot_max_vel curves = Fin x" using assms(2) by (auto simp: proper_curves_def isfinite_iff)
  have "Fin x \<le> l"
    using assms(1,6) l x
    by (cases l) (auto simp: compute_limit_curves_def compute_joint_limit_curves_def Let_def bind_res_eq_Inr std_min_def
        split: option.split_asm if_split_asm)
  with joint_velocity_limit_correct(1) [OF assms(7) l, of x] assms(4,5,8) show ?thesis by (simp add: x)
qed

lemma within_joints:
  assumes "path_inv p" "sound_options p opt" "on_path p s" "within_limits p opt s (Fin v)" "0 \<le> v"
  shows "joints_within p opt s v"
proof (cases "v = 0")
  case True
  with joints_within_rest [OF assms(1-3)] show ?thesis by simp
next
  case False
  obtain e where e: "to_epsilon opt = Fin e" "0 < e" using sound_optionsE [OF assms(2)] by metis
  obtain i view curves where c: "deref p i = Inr view" "view_start view \<le> s" "s \<le> view_end view"
      "view_limit_curves view s opt = Inr curves" "under_curves opt curves (Fin v)"
    using assms(4) False by (auto simp: within_limits_def limits_at_def)
  obtain q q' q'' where q: "view_tangent view s = Inr q'" "compute_limit_curves q q' q'' opt = Inr curves"
    using c(4) by (auto simp: view_limit_curves_def bind_res_eq_Inr)
  note u = view_tangent_unit [OF assms(1) c(1) q(1)]
  note pr = view_limit_curves_proper [OF assms(2,1) c(1,4)]
  obtain x where x: "lc_s_dot_max_vel curves = Fin x" using pr by (auto simp: proper_curves_def isfinite_iff)
  have "v \<le> x + e"
    using c(5) x e by (auto simp: under_curves_def eps_greater_def wrap_compare_def Let_def split: if_split_asm)
  have "\<bar>q' ! j * v\<bar> \<le> to_max_velocity opt ! j + e" if "j < path_dof p" "moving e q' j" for j
  proof -
    have "\<bar>q' ! j\<bar> * v \<le> \<bar>q' ! j\<bar> * x + \<bar>q' ! j\<bar> * e"
      using mult_left_mono [OF \<open>v \<le> x + e\<close>, of "\<bar>q' ! j\<bar>"] by (simp add: algebra_simps)
    also have "\<bar>q' ! j\<bar> * x \<le> to_max_velocity opt ! j"
      using curves_joint [OF q(2) pr assms(2) u(2) that(1) e that(2)] x by simp
    also have "\<bar>q' ! j\<bar> * e \<le> e" using nth_le_norm [of j q'] u that(1) e(2) by (simp add: mult_le_cancel_right1)
    finally show ?thesis using assms(5) by (simp add: abs_mult)
  qed
  with c q(1) show ?thesis unfolding joints_within_def e(1) fin.simps by blast
qed

text \<open>
  C2: At every point of a computed trajectory whose velocity is not negative, no joint that moves along
  the path by at least the tolerance moves faster than its velocity limit, except by the tolerance:
  its velocity is its component of the tangent, of a segment that meets the point, times the path
  velocity.
\<close>

theorem trajectory_joint_velocities:
  assumes "path_inv p" "evaluator_returns opt" "(fin (to_epsilon opt))\<^sup>2 * real (path_dof p) \<le> 1"
    "trajectory_create p opt [] = Inr t" "q \<in> set (tr_points t)" "0 \<le> ip_s_dot q"
  shows "isfinite (ip_s_dot q) \<and> joints_within p opt (ip_s q) (fin (ip_s_dot q))"
proof -
  have "acceptable p opt" "run_totg p opt = Inr t"
    using assms(4) by (cases rule: check_options_cases [of p opt]; simp add: trajectory_create_def)+
  note so = acceptable_sound [OF this(1) assms(2,3)]
  have q: "on_path p (ip_s q)" "within_limits p opt (ip_s q) (ip_s_dot q)"
    using run_totg_sound [OF assms(1) so \<open>run_totg p opt = Inr t\<close>] assms(5,6)
    by (auto simp: sound_trajectory_def sound_points_def sound_point_def)
  then obtain v where "ip_s_dot q = Fin v" "0 \<le> v" using within_finite [OF q(2)] assms(6) by (cases "ip_s_dot q") auto
  with within_joints [OF assms(1) so q(1)] q(2) show ?thesis by simp
qed

theorem trajectory_joint_velocities_witness:
  "\<exists>t. trajectory_create rail rail_options [] = Inr t \<and> joints_within rail rail_options (Fin 2) 1"
proof -
  obtain t where t: "trajectory_create rail rail_options [] = Inr t"
    "tr_points t = [rail_point 0 0 0 1, rail_point 1 (1 / 2) 1 0, rail_point (5 / 2) 2 1 (- 1), rail_point (7 / 2) (5 / 2) 0 0]"
    using rail_run by blast
  from trajectory_joint_velocities [OF rail_inv(1,3,4) t(1), of "rail_point (5 / 2) 2 1 (- 1)"] t show ?thesis by simp
qed

end
