(* ===== verification/Trajectory_Sampling.thy ===== *)
theory Trajectory_Sampling
  imports Trajectory
begin

text \<open>
  Reading a trajectory: \<open>trajectory::cursor\<close> with its hint into the integration points and its cursor on
  the path, \<open>trajectory::sample\<close>, and the queries of the limits. The cursor's position in time is kept by
  \<open>seek\<close>; a sample turns the motion along the path into the motion of the joints.
\<close>

section \<open>Samples and cursors\<close>

record traj_sample =
  sm_time :: seconds
  sm_s :: arc_length
  sm_configuration :: xvector
  sm_velocity :: xvector
  sm_acceleration :: xvector

text \<open>The hint is an iterator into the points, here an index; the end iterator is the length.\<close>

record traj_cursor =
  tc_trajectory :: trajectory
  tc_time :: seconds
  tc_hint :: nat
  tc_path_cursor :: rich

definition create_traj_cursor :: "trajectory \<Rightarrow> traj_cursor res" where
  "create_traj_cursor t =
     bind_res (create_cursor (tr_path t) 0) (\<lambda>c.
       Inr \<lparr>tc_trajectory = t, tc_time = 0, tc_hint = 0, tc_path_cursor = enrich c\<rparr>)"

definition traj_cursor_at_end :: "traj_cursor \<Rightarrow> bool" where
  "traj_cursor_at_end c \<longleftrightarrow> \<not> isfinite (tc_time c)"

definition point_at :: "integration_point list \<Rightarrow> nat \<Rightarrow> integration_point res" where
  "point_at points i =
     (if i < length points then Inr (points ! i) else Inl (Undefined_behaviour ''dereference of end iterator''))"

section \<open>Seeking\<close>

text \<open>\<open>update_path_cursor_position_\<close>: the arc length reached at time \<open>t\<close> with constant acceleration.\<close>

definition interpolate_s :: "integration_point \<Rightarrow> seconds \<Rightarrow> arc_length" where
  "interpolate_s p0 t =
     (let dt = t - ip_time p0
      in ip_s p0 + ip_s_dot p0 * dt + Fin (1 / 2) * ip_s_ddot p0 * dt * dt)"

definition update_path_cursor_position :: "traj_cursor \<Rightarrow> seconds \<Rightarrow> traj_cursor res" where
  "update_path_cursor_position c t =
     bind_res (point_at (tr_points (tc_trajectory c)) (tc_hint c)) (\<lambda>p0.
     bind_res (rich_seek (tc_path_cursor c) (std_min (interpolate_s p0 t) (path_length (tr_path (tc_trajectory c)))))
       (\<lambda>r. Inr (c\<lparr>tc_path_cursor := r\<rparr>)))"

text \<open>
  The tests of \<open>seek\<close>: whether the interval that starts at a point holds the time, and whether the hint
  has to go back by one, which reads the hinted point only if the one before it is not too late.
\<close>

definition interval_holds :: "integration_point list \<Rightarrow> nat \<Rightarrow> seconds \<Rightarrow> bool" where
  "interval_holds points i t \<longleftrightarrow>
     i < length points \<and> ip_time (points ! i) \<le> t \<and> (Suc i = length points \<or> t < ip_time (points ! Suc i))"

definition steps_back :: "integration_point list \<Rightarrow> nat \<Rightarrow> seconds \<Rightarrow> bool res" where
  "steps_back points hint t =
     (if hint = 0 then Inr False
      else
        bind_res (point_at points (hint - 1)) (\<lambda>prev.
          if ip_time prev \<le> t then bind_res (point_at points hint) (\<lambda>p. Inr (t < ip_time p)) else Inr False))"

definition search_time_hint :: "integration_point list \<Rightarrow> seconds \<Rightarrow> nat" where
  "search_time_hint points t =
     (let it = upper_bound (\<lambda>p. t < ip_time p) points in if it = 0 then 0 else it - 1)"

definition find_time_hint :: "integration_point list \<Rightarrow> nat \<Rightarrow> seconds \<Rightarrow> nat res" where
  "find_time_hint points hint t =
     (if interval_holds points hint t then Inr hint
      else if hint \<noteq> length points \<and> interval_holds points (Suc hint) t then Inr (Suc hint)
      else bind_res (steps_back points hint t) (\<lambda>back.
        Inr (if back then hint - 1 else search_time_hint points t)))"

definition traj_seek :: "traj_cursor \<Rightarrow> seconds \<Rightarrow> traj_cursor res" where
  "traj_seek c t =
     (if t < 0 then Inr (c\<lparr>tc_time := NInf\<rparr>)
      else if tr_duration (tc_trajectory c) < t then Inr (c\<lparr>tc_time := PInf\<rparr>)
      else
        bind_res (find_time_hint (tr_points (tc_trajectory c)) (tc_hint c) t) (\<lambda>hint.
          update_path_cursor_position (c\<lparr>tc_time := t, tc_hint := hint\<rparr>) t))"

definition traj_seek_by :: "traj_cursor \<Rightarrow> seconds \<Rightarrow> traj_cursor res" where
  "traj_seek_by c dt = traj_seek c (tc_time c + dt)"

section \<open>Sampling\<close>

text \<open>The chain rule, equations 11 and 12; an infinite or undefined velocity has no vector in the model.\<close>

definition joint_motion ::
  "xvector \<Rightarrow> xvector \<Rightarrow> arc_velocity \<Rightarrow> arc_acceleration \<Rightarrow> (xvector \<times> xvector) res" where
  "joint_motion q_prime q_double_prime s_dot s_ddot =
     (case (s_dot, s_ddot) of
        (Fin v, Fin a) \<Rightarrow> Inr (vscale v q_prime, vadd (vscale a q_prime) (vscale (v * v) q_double_prime))
      | _ \<Rightarrow> Inl (Not_finite ''velocity or acceleration of a sample''))"

text \<open>The sample with the cursor, whose cache of the path's geometry is filled on the way.\<close>

definition traj_cursor_sample :: "traj_cursor \<Rightarrow> (traj_sample \<times> traj_cursor) res" where
  "traj_cursor_sample c =
     (if traj_cursor_at_end c then Inl (Out_of_range ''Cannot sample cursor at sentinel position'')
      else
        bind_res (point_at (tr_points (tc_trajectory c)) (tc_hint c)) (\<lambda>p0.
        let dt = tc_time c - ip_time p0;
            s_dot = ip_s_dot p0 + ip_s_ddot p0 * dt;
            s_ddot = ip_s_ddot p0
        in bind_res (rich_ref Configuration (tc_path_cursor c)) (\<lambda>(q, r1).
           bind_res (rich_ref Tangent r1) (\<lambda>(q_prime, r2).
           bind_res (rich_ref Curvature r2) (\<lambda>(q_double_prime, r3).
           bind_res (joint_motion q_prime q_double_prime s_dot s_ddot) (\<lambda>(q_dot, q_ddot).
             Inr (\<lparr>sm_time = tc_time c, sm_s = cur_position (rich_cursor r3), sm_configuration = q,
                   sm_velocity = q_dot, sm_acceleration = q_ddot\<rparr>,
                  c\<lparr>tc_path_cursor := r3\<rparr>)))))))"

definition trajectory_sample :: "trajectory \<Rightarrow> seconds \<Rightarrow> traj_sample res" where
  "trajectory_sample tr t =
     (if t < 0 \<or> tr_duration tr < t then Inl (Out_of_range ''Time out of trajectory bounds'')
      else
        bind_res (create_traj_cursor tr) (\<lambda>c.
        bind_res (traj_seek c t) (\<lambda>c'.
        bind_res (traj_cursor_sample c') (\<lambda>(smp, _). Inr smp))))"

section \<open>Limits\<close>

record velocity_limits =
  vl_s_dot_max_acc :: arc_velocity
  vl_s_dot_max_vel :: arc_velocity

record velocity_limit_components =
  vlc_joint :: arc_velocity
  vlc_tcp :: arc_velocity

definition get_velocity_limits_detail ::
  "trajectory \<Rightarrow> cursor \<Rightarrow> (velocity_limits \<times> velocity_limit_components) res" where
  "get_velocity_limits_detail tr c =
     bind_res (cursor_limit_curves c (tr_options tr)) (\<lambda>curves.
       Inr (\<lparr>vl_s_dot_max_acc = lc_s_dot_max_acc curves, vl_s_dot_max_vel = lc_s_dot_max_vel curves\<rparr>,
            \<lparr>vlc_joint = lc_joint curves, vlc_tcp = lc_tcp curves\<rparr>))"

definition get_velocity_limits :: "trajectory \<Rightarrow> cursor \<Rightarrow> velocity_limits res" where
  "get_velocity_limits tr c = bind_res (get_velocity_limits_detail tr c) (\<lambda>(limits, _). Inr limits)"

definition get_velocity_limit_components :: "trajectory \<Rightarrow> cursor \<Rightarrow> velocity_limit_components res" where
  "get_velocity_limit_components tr c = bind_res (get_velocity_limits_detail tr c) (\<lambda>(_, components). Inr components)"

definition get_acceleration_bounds :: "trajectory \<Rightarrow> cursor \<Rightarrow> arc_velocity \<Rightarrow> acceleration_bounds res" where
  "get_acceleration_bounds tr c s_dot =
     bind_res (cursor_tangent c) (\<lambda>q_prime.
     bind_res (cursor_curvature c) (\<lambda>q_double_prime.
       compute_acceleration_bounds q_prime q_double_prime s_dot (to_max_acceleration (tr_options tr))
         (to_epsilon (tr_options tr))))"

end
