(* ===== verification/Uniform_Sampler.thy ===== *)
theory Uniform_Sampler
  imports Trajectory_Sampling "HOL-Library.Word"
begin

text \<open>
  Sampling at regular times (\<open>uniform_sampler\<close>) and the range over the samples of a trajectory
  (\<open>trajectory::sampled\<close>), which works with any sampler. Counts are \<open>std::size_t\<close>, 64 bits wide.
\<close>

section \<open>The uniform sampler\<close>

type_synonym size_t = "64 word"

record uniform_sampler =
  us_num_samples :: size_t
  us_next_sample :: size_t
  us_start :: seconds

definition make_uniform_sampler :: "size_t \<Rightarrow> seconds \<Rightarrow> uniform_sampler" where
  "make_uniform_sampler num_samples start = \<lparr>us_num_samples = num_samples, us_next_sample = 0, us_start = start\<rparr>"

text \<open>\<open>static_cast<std::size_t>\<close> of a double truncates, and is undefined where the result does not fit; and back.\<close>

definition size_of_double :: "dbl \<Rightarrow> size_t res" where
  "size_of_double x =
     (case x of
        Fin a \<Rightarrow> if - 1 < a \<and> a < 2 ^ 64 then Inr (word_of_nat (nat \<lfloor>a\<rfloor>))
                 else Inl (Undefined_behaviour ''double out of the range of size_t'')
      | _ \<Rightarrow> Inl (Undefined_behaviour ''double out of the range of size_t''))"

definition double_of_size :: "size_t \<Rightarrow> dbl" where
  "double_of_size n = Fin (real (unat n))"

definition calculate_quantized_samples :: "dbl \<Rightarrow> dbl \<Rightarrow> size_t res" where
  "calculate_quantized_samples duration_sec frequency_hz =
     (if duration_sec \<le> 0 \<or> frequency_hz \<le> 0
      then Inl (Invalid_argument ''duration and frequency must both be positive'')
      else
        let putative_samples = duration_sec * frequency_hz
        in if \<not> isfinite putative_samples
           then Inl (Invalid_argument ''duration and frequency produce non-finite sample count'')
           else size_of_double (fceil putative_samples + 1))"

definition calculate_quantized_dt :: "dbl \<Rightarrow> dbl \<Rightarrow> dbl res" where
  "calculate_quantized_dt duration_sec frequency_hz =
     bind_res (calculate_quantized_samples duration_sec frequency_hz) (\<lambda>num_samples.
       Inr (divide duration_sec (double_of_size (num_samples - 1))))"

definition quantized_for_duration :: "seconds \<Rightarrow> dbl \<Rightarrow> uniform_sampler res" where
  "quantized_for_duration duration frequency =
     bind_res (calculate_quantized_samples duration frequency) (\<lambda>n. Inr (make_uniform_sampler n 0))"

definition quantized_for_trajectory :: "trajectory \<Rightarrow> dbl \<Rightarrow> seconds \<Rightarrow> uniform_sampler res" where
  "quantized_for_trajectory tr frequency start =
     (let duration = tr_duration tr
      in if start < 0 then Inl (Invalid_argument ''start must be non-negative'')
         else if duration \<le> start
         then Inl (Invalid_argument ''start must be strictly less than the trajectory's duration'')
         else
           let span = duration - start
           in bind_res (calculate_quantized_samples span frequency) (\<lambda>n. Inr (make_uniform_sampler n start)))"

definition sampler_advance :: "uniform_sampler \<Rightarrow> traj_cursor \<Rightarrow> (bool \<times> uniform_sampler \<times> traj_cursor) res" where
  "sampler_advance s c =
     (if us_next_sample s = us_num_samples s then Inr (False, s, c)
      else
        let when = (if us_next_sample s = us_num_samples s - 1 then 1
                    else divide (double_of_size (us_next_sample s)) (double_of_size (us_num_samples s - 1)))
        in bind_res (traj_seek c (lerp (us_start s) (tr_duration (tc_trajectory c)) when)) (\<lambda>c'.
             Inr (True, s\<lparr>us_next_sample := us_next_sample s + 1\<rparr>, c')))"

definition sampler_next ::
  "uniform_sampler \<Rightarrow> traj_cursor \<Rightarrow> (traj_sample option \<times> uniform_sampler \<times> traj_cursor) res" where
  "sampler_next s c =
     bind_res (sampler_advance s c) (\<lambda>(more, s', c').
       if \<not> more then Inr (None, s', c')
       else bind_res (traj_cursor_sample c') (\<lambda>(smp, c''). Inr (Some smp, s', c'')))"

definition sampler_remaining :: "uniform_sampler \<Rightarrow> size_t" where
  "sampler_remaining s = us_num_samples s - us_next_sample s"

section \<open>The range over the samples\<close>

text \<open>
  \<open>trajectory::sampled<S>\<close> and its iterator. A sampler is what its \<open>advance\<close> does to its state and the
  cursor; the iterator reaches the sampler through a pointer, here it holds it.
\<close>

record 's sampled =
  sv_cursor :: traj_cursor
  sv_sampler :: 's

record 's sampled_iterator =
  si_cursor :: traj_cursor
  si_sampler :: 's
  si_current :: "traj_sample option"

type_synonym 's advance = "'s \<Rightarrow> traj_cursor \<Rightarrow> (bool \<times> 's \<times> traj_cursor) res"

definition samples_of :: "trajectory \<Rightarrow> 's \<Rightarrow> 's sampled res" where
  "samples_of tr s = bind_res (create_traj_cursor tr) (\<lambda>c. Inr \<lparr>sv_cursor = c, sv_sampler = s\<rparr>)"

definition fill_or_disengage :: "'s advance \<Rightarrow> 's sampled_iterator \<Rightarrow> 's sampled_iterator res" where
  "fill_or_disengage advance it =
     bind_res (advance (si_sampler it) (si_cursor it)) (\<lambda>(more, s, c).
       if more
       then bind_res (traj_cursor_sample c) (\<lambda>(smp, c').
              Inr \<lparr>si_cursor = c', si_sampler = s, si_current = Some smp\<rparr>)
       else Inr \<lparr>si_cursor = c, si_sampler = s, si_current = None\<rparr>)"

text \<open>A default-constructed sample, which the iterator starts from and the first fill overwrites.\<close>

definition empty_sample :: traj_sample where
  "empty_sample = \<lparr>sm_time = 0, sm_s = 0, sm_configuration = [], sm_velocity = [], sm_acceleration = []\<rparr>"

definition sampled_begin :: "'s advance \<Rightarrow> 's sampled \<Rightarrow> 's sampled_iterator res" where
  "sampled_begin advance v =
     fill_or_disengage advance \<lparr>si_cursor = sv_cursor v, si_sampler = sv_sampler v, si_current = Some empty_sample\<rparr>"

definition iterator_at_end :: "'s sampled_iterator \<Rightarrow> bool" where
  "iterator_at_end it \<longleftrightarrow> si_current it = None"

definition iterator_deref :: "'s sampled_iterator \<Rightarrow> traj_sample res" where
  "iterator_deref it =
     (case si_current it of Some smp \<Rightarrow> Inr smp | None \<Rightarrow> Inl (Undefined_behaviour ''dereference of an empty optional''))"

definition iterator_eq :: "'s sampled_iterator \<Rightarrow> 's sampled_iterator \<Rightarrow> bool" where
  "iterator_eq it other \<longleftrightarrow>
     (case (si_current it, si_current other) of
        (None, None) \<Rightarrow> True
      | (Some a, Some b) \<Rightarrow> feq (sm_time a) (sm_time b)
      | _ \<Rightarrow> False)"

text \<open>\<open>std::default_sentinel - it\<close>, for samplers that know how many samples they have left.\<close>

definition distance_to_end :: "('s \<Rightarrow> size_t) \<Rightarrow> 's sampled_iterator \<Rightarrow> int" where
  "distance_to_end remaining it =
     (case si_current it of None \<Rightarrow> 0 | Some _ \<Rightarrow> sint (remaining (si_sampler it)) + 1)"

text \<open>A range-based \<open>for\<close> loop that collects the samples.\<close>

definition collect_body ::
  "'s advance \<Rightarrow> 's sampled_iterator \<times> traj_sample list \<Rightarrow>
     ('s sampled_iterator \<times> traj_sample list, traj_sample list) flow res" where
  "collect_body advance = (\<lambda>(it, collected).
     if iterator_at_end it then Inr (Return collected)
     else
       bind_res (iterator_deref it) (\<lambda>smp.
       bind_res (fill_or_disengage advance it) (\<lambda>it'. Inr (Continue (it', collected @ [smp])))))"

definition collect_samples :: "'s advance \<Rightarrow> 's sampled \<Rightarrow> traj_sample list res" where
  "collect_samples advance v =
     bind_res (sampled_begin advance v) (\<lambda>it. loop_flow (collect_body advance) (it, []))"

end
