(* ===== verification/Sampling_Safety.thy ===== *)
theory Sampling_Safety
  imports Trajectory_Sampling Rail_Example
begin

text \<open>
  What a cursor on a trajectory promises: its hint is transparent, and on a trajectory computed by
  \<open>trajectory::create\<close> the samples follow the motion the integration points describe.
\<close>

section \<open>The hint\<close>

definition timed :: "integration_point list \<Rightarrow> bool" where
  "timed points \<longleftrightarrow> points \<noteq> [] \<and> ip_time (hd points) = 0 \<and> sorted_wrt (\<lambda>p q. ip_time p < ip_time q) points"

lemma timed_less: "timed points \<Longrightarrow> i < j \<Longrightarrow> j < length points \<Longrightarrow> ip_time (points ! i) < ip_time (points ! j)"
  by (simp add: timed_def sorted_wrt_iff_nth_less)

lemma timed_le:
  assumes "timed points" "i \<le> j" "j < length points" "ip_time (points ! j) \<le> t"
  shows "ip_time (points ! i) \<le> t"
  using assms timed_less [of points i j] dbl_less_le_trans dbl_less_imp_le by (cases "i = j") auto

lemma interval_unique:
  assumes "timed points" "interval_holds points i t"
  shows "search_time_hint points t = i"
proof -
  have "upper_bound (\<lambda>p. t < ip_time p) points = Suc i"
  proof (rule upper_bound_eqI)
    show "\<not> t < ip_time (points ! j)" if "j < Suc i" for j
      using timed_le [of points j i t] assms that dbl_less_le_trans [of t "ip_time (points ! j)" t] by (auto simp: interval_holds_def)
  qed (use assms(2) in \<open>auto simp: interval_holds_def\<close>)
  then show ?thesis by (simp add: search_time_hint_def)
qed

lemma timed_not_NaN:
  assumes "timed points" "i < length points"
  shows "ip_time (points ! i) \<noteq> NaN"
proof (cases i)
  case 0
  with assms show ?thesis by (auto simp: timed_def hd_conv_nth [symmetric])
next
  case (Suc j)
  with timed_less [OF assms(1), of j i] assms(2) show ?thesis by auto
qed

lemma search_in_range: "points \<noteq> [] \<Longrightarrow> search_time_hint points t < length points"
proof -
  assume "points \<noteq> []"
  then have "0 < length points" by simp
  with upper_bound_le [of "\<lambda>p. t < ip_time p" points] show ?thesis unfolding search_time_hint_def Let_def by presburger
qed

lemma search_holds:
  assumes "timed points" "0 \<le> t"
  shows "interval_holds points (search_time_hint points t) t"
proof -
  let ?u = "upper_bound (\<lambda>p. t < ip_time p) points"
  have n: "points \<noteq> []" "ip_time (points ! 0) = 0" using assms(1) by (auto simp: timed_def hd_conv_nth)
  have t: "t \<noteq> NaN" using assms(2) by auto
  have "?u \<noteq> 0"
  proof
    assume "?u = 0"
    with upper_bound_at [of "\<lambda>p. t < ip_time p" points] n have "t < 0" by simp
    with assms(2) dbl_le_less_trans [of 0 t 0] show False by simp
  qed
  then obtain i where i: "?u = Suc i" by (cases ?u) auto
  then have in_range: "i < length points" using upper_bound_le [of "\<lambda>p. t < ip_time p" points] by simp
  have "\<not> t < ip_time (points ! i)" using upper_bound_before [of i "\<lambda>p. t < ip_time p" points] i by simp
  then have "ip_time (points ! i) \<le> t" using dbl_not_less [OF t timed_not_NaN [OF assms(1) in_range]] by blast
  moreover have "t < ip_time (points ! Suc i)" if "Suc i \<noteq> length points"
    using that in_range upper_bound_at [of "\<lambda>p. t < ip_time p" points] i by simp
  ultimately show ?thesis using i in_range by (auto simp: interval_holds_def search_time_hint_def)
qed

lemma find_time_hint_defined:
  assumes "hint < length points"
  shows "\<exists>h. find_time_hint points hint t = Inr h \<and> h < length points"
proof -
  have "search_time_hint points t < length points" using assms by (intro search_in_range) auto
  moreover have "\<exists>b. steps_back points hint t = Inr b"
    using assms by (auto simp: steps_back_def point_at_def)
  ultimately show ?thesis using assms by (auto simp: find_time_hint_def interval_holds_def)
qed

lemma find_time_hint_eq:
  assumes "timed points" "hint < length points" "0 \<le> t"
  shows "find_time_hint points hint t = Inr (search_time_hint points t)"
proof -
  have behind: "interval_holds points (hint - 1) t" if "steps_back points hint t = Inr True"
    using that assms(2) by (auto simp: steps_back_def point_at_def interval_holds_def split: if_splits)
  have "\<exists>b. steps_back points hint t = Inr b"
    using assms(2) by (auto simp: steps_back_def point_at_def)
  then show ?thesis
    using interval_unique [OF assms(1)] behind by (auto simp: find_time_hint_def)
qed

section \<open>The cursor\<close>

definition traj_inv :: "trajectory \<Rightarrow> bool" where
  "traj_inv tr \<longleftrightarrow> path_inv (tr_path tr) \<and> timed (tr_points tr) \<and> tr_duration tr = ip_time (last (tr_points tr))"

definition traj_cursor_inv :: "traj_cursor \<Rightarrow> bool" where
  "traj_cursor_inv c \<longleftrightarrow> traj_inv (tc_trajectory c) \<and> tc_hint c < length (tr_points (tc_trajectory c)) \<and>
     rich_inv (tc_path_cursor c) \<and> cur_path (rich_cursor (tc_path_cursor c)) = tr_path (tc_trajectory c)"

text \<open>The arc length the cursor stands at, before the path cursor turns what is off the path into a sentinel.\<close>

definition s_at :: "trajectory \<Rightarrow> seconds \<Rightarrow> arc_length" where
  "s_at tr t = std_min (interpolate_s (tr_points tr ! search_time_hint (tr_points tr) t) t) (path_length (tr_path tr))"

lemma create_traj_cursor_inv:
  assumes "traj_inv tr"
  shows "\<exists>c. create_traj_cursor tr = Inr c \<and> traj_cursor_inv c \<and> tc_trajectory c = tr"
proof -
  have "path_inv (tr_path tr)" "tr_points tr \<noteq> []" using assms by (auto simp: traj_inv_def timed_def)
  with create_cursor_inv [of "tr_path tr" 0] assms rich_inv_enrich show ?thesis
    by (fastforce simp: create_traj_cursor_def traj_cursor_inv_def enrich_def)
qed

lemma traj_seek_spec:
  assumes "traj_cursor_inv c"
  shows "\<exists>c'. traj_seek c t = Inr c' \<and> traj_cursor_inv c' \<and> tc_trajectory c' = tc_trajectory c \<and>
    (if 0 \<le> t \<and> t \<le> tr_duration (tc_trajectory c)
     then tc_time c' = t \<and> tc_hint c' = search_time_hint (tr_points (tc_trajectory c)) t \<and>
       cur_position (rich_cursor (tc_path_cursor c')) = seek_position (tr_path (tc_trajectory c)) (s_at (tc_trajectory c) t)
     else traj_cursor_at_end c')"
proof -
  let ?tr = "tc_trajectory c" and ?h = "search_time_hint (tr_points (tc_trajectory c)) t"
  note inv = assms [unfolded traj_cursor_inv_def traj_inv_def]
  show ?thesis
  proof (cases "t < 0 \<or> tr_duration ?tr < t")
    case True
    then have "\<not> (0 \<le> t \<and> t \<le> tr_duration ?tr)" by (cases t; cases "tr_duration ?tr") auto
    with True assms show ?thesis
      by (auto simp: traj_seek_def traj_cursor_inv_def traj_cursor_at_end_def simp del: zero_Fin)
  next
    case False
    obtain h where h: "find_time_hint (tr_points ?tr) (tc_hint c) t = Inr h" "h < length (tr_points ?tr)"
      using find_time_hint_defined inv by blast
    let ?s = "std_min (interpolate_s (tr_points ?tr ! h) t) (path_length (tr_path ?tr))"
    obtain c' where c': "traj_seek c t = Inr c'" "traj_cursor_inv c'" "tc_trajectory c' = ?tr" "tc_time c' = t" "tc_hint c' = h"
        "cur_position (rich_cursor (tc_path_cursor c')) = seek_position (tr_path ?tr) ?s"
      using h False assms enriched.seek_law [of "tc_path_cursor c" ?s]
      by (auto simp: traj_seek_def update_path_cursor_position_def point_at_def traj_cursor_inv_def simp del: zero_Fin)
    have "h = search_time_hint (tr_points ?tr) t" if "0 \<le> t"
      using find_time_hint_eq [of "tr_points ?tr" "tc_hint c" t] inv h(1) that by simp
    moreover have "t = NaN" if "\<not> (0 \<le> t \<and> t \<le> tr_duration ?tr)"
    proof -
      have "tr_duration ?tr \<noteq> NaN"
        using inv timed_not_NaN [of "tr_points ?tr" "length (tr_points ?tr) - 1"] by (auto simp: timed_def last_conv_nth)
      with False that show ?thesis by (cases t; cases "tr_duration ?tr") auto
    qed
    ultimately show ?thesis using c' by (auto simp: s_at_def traj_cursor_at_end_def)
  qed
qed

section \<open>The sample\<close>

text \<open>What a sample holds: the point before the time, the motion from there, and the path's geometry.\<close>

definition point_before :: "trajectory \<Rightarrow> seconds \<Rightarrow> integration_point" where
  "point_before tr t = tr_points tr ! search_time_hint (tr_points tr) t"

definition s_dot_at :: "trajectory \<Rightarrow> seconds \<Rightarrow> arc_velocity" where
  "s_dot_at tr t = ip_s_dot (point_before tr t) + ip_s_ddot (point_before tr t) * (t - ip_time (point_before tr t))"

definition sample_of :: "trajectory \<Rightarrow> seconds \<Rightarrow> traj_sample res" where
  "sample_of tr t =
     (let p = tr_path tr; s = s_at tr t
      in if on_path p s
         then
           bind_res (path_component Configuration p s) (\<lambda>q.
           bind_res (path_component Tangent p s) (\<lambda>q_prime.
           bind_res (path_component Curvature p s) (\<lambda>q_double_prime.
           bind_res (joint_motion q_prime q_double_prime (s_dot_at tr t) (ip_s_ddot (point_before tr t)))
             (\<lambda>(q_dot, q_ddot).
               Inr \<lparr>sm_time = t, sm_s = s, sm_configuration = q, sm_velocity = q_dot, sm_acceleration = q_ddot\<rparr>))))
         else Inl (Out_of_range ''Cannot query cursor at sentinel position''))"

lemma seek_position_on_path:
  assumes "path_inv p"
  shows "if on_path p s then seek_position p s = s \<and> isfinite s else \<not> isfinite (seek_position p s)"
  using path_length_finite [OF assms] by (cases s) (auto simp: seek_position_def on_path_def)

lemma traj_cursor_sample_spec:
  assumes "traj_cursor_inv c" "isfinite (tc_time c)"
    "tc_hint c = search_time_hint (tr_points (tc_trajectory c)) (tc_time c)"
    "cur_position (rich_cursor (tc_path_cursor c)) = seek_position (tr_path (tc_trajectory c)) (s_at (tc_trajectory c) (tc_time c))"
  shows "case sample_of (tc_trajectory c) (tc_time c) of
      Inl e \<Rightarrow> traj_cursor_sample c = Inl e
    | Inr smp \<Rightarrow> \<exists>c'. traj_cursor_sample c = Inr (smp, c') \<and> traj_cursor_inv c' \<and> tc_trajectory c' = tc_trajectory c"
proof -
  let ?r = "tc_path_cursor c" and ?tr = "tc_trajectory c"
  let ?p = "tr_path ?tr" and ?s = "s_at ?tr (tc_time c)"
  note inv = assms(1) [unfolded traj_cursor_inv_def traj_inv_def]
  have p0: "point_at (tr_points ?tr) (tc_hint c) = Inr (point_before ?tr (tc_time c))"
    using inv by (simp add: point_at_def point_before_def assms(3))
  have rich: "rich_inv ?r" "cur_path (rich_cursor ?r) = ?p" using inv by auto
  show ?thesis
  proof (cases "on_path ?p ?s")
    case False
    then have "\<not> isfinite (cur_position (rich_cursor ?r))" using seek_position_on_path [of ?p ?s] inv assms(4) by auto
    from enriched.query_end [OF rich(1) this] show ?thesis
      using False p0 assms(2) by (simp add: sample_of_def traj_cursor_sample_def traj_cursor_at_end_def Let_def)
  next
    case True
    then have at_s: "cur_position (rich_cursor ?r) = ?s" "isfinite ?s"
      using seek_position_on_path [of ?p ?s] inv assms(4) by auto
    have query: "\<exists>v r'. rich_ref k r = Inr (v, r') \<and> path_component k ?p ?s = Inr v \<and> rich_inv r' \<and>
        cur_path (rich_cursor r') = ?p \<and> cur_position (rich_cursor r') = ?s"
      if "rich_inv r" "cur_path (rich_cursor r) = ?p" "cur_position (rich_cursor r) = ?s" for r k
      using enriched.query_law [of r k] that at_s(2) by fastforce
    obtain q r1 where 1: "rich_ref Configuration ?r = Inr (q, r1)" "path_component Configuration ?p ?s = Inr q" "rich_inv r1"
        "cur_path (rich_cursor r1) = ?p" "cur_position (rich_cursor r1) = ?s"
      using query [OF rich at_s(1)] by blast
    obtain q' r2 where 2: "rich_ref Tangent r1 = Inr (q', r2)" "path_component Tangent ?p ?s = Inr q'" "rich_inv r2"
        "cur_path (rich_cursor r2) = ?p" "cur_position (rich_cursor r2) = ?s"
      using query [OF 1(3-5)] by blast
    obtain q'' r3 where 3: "rich_ref Curvature r2 = Inr (q'', r3)" "path_component Curvature ?p ?s = Inr q''" "rich_inv r3"
        "cur_path (rich_cursor r3) = ?p" "cur_position (rich_cursor r3) = ?s"
      using query [OF 2(3-5)] by blast
    show ?thesis
      using True p0 1 2 3 assms(1,2)
      by (cases "joint_motion q' q'' (s_dot_at ?tr (tc_time c)) (ip_s_ddot (point_before ?tr (tc_time c)))")
        (auto simp: sample_of_def traj_cursor_sample_def traj_cursor_at_end_def Let_def s_dot_at_def traj_cursor_inv_def)
  qed
qed

lemma seek_then_sample:
  assumes "traj_cursor_inv c"
  shows "\<exists>c'. traj_seek c t = Inr c' \<and> traj_cursor_inv c' \<and> tc_trajectory c' = tc_trajectory c \<and>
    (if 0 \<le> t \<and> t \<le> tr_duration (tc_trajectory c) \<and> isfinite t
     then case sample_of (tc_trajectory c) t of Inl e \<Rightarrow> traj_cursor_sample c' = Inl e
       | Inr smp \<Rightarrow> \<exists>c''. traj_cursor_sample c' = Inr (smp, c'') \<and> traj_cursor_inv c'' \<and> tc_trajectory c'' = tc_trajectory c
     else traj_cursor_sample c' = Inl (Out_of_range ''Cannot sample cursor at sentinel position''))"
proof -
  obtain c' where c': "traj_seek c t = Inr c'" "traj_cursor_inv c'" "tc_trajectory c' = tc_trajectory c"
    "if 0 \<le> t \<and> t \<le> tr_duration (tc_trajectory c)
     then tc_time c' = t \<and> tc_hint c' = search_time_hint (tr_points (tc_trajectory c)) t \<and>
       cur_position (rich_cursor (tc_path_cursor c')) = seek_position (tr_path (tc_trajectory c)) (s_at (tc_trajectory c) t)
     else traj_cursor_at_end c'"
    using traj_seek_spec [OF assms, of t] by blast
  have "traj_cursor_sample c' = Inl (Out_of_range ''Cannot sample cursor at sentinel position'')" if "traj_cursor_at_end c'"
    using that by (simp add: traj_cursor_sample_def)
  with c' traj_cursor_sample_spec [OF c'(2)] show ?thesis
    by (cases "sample_of (tc_trajectory c) t") (auto simp: traj_cursor_at_end_def split: if_splits)
qed

lemma trajectory_sample_eq:
  assumes "traj_inv tr"
  shows "trajectory_sample tr t =
    (if t < 0 \<or> tr_duration tr < t then Inl (Out_of_range ''Time out of trajectory bounds'')
     else if \<not> isfinite t then Inl (Out_of_range ''Cannot sample cursor at sentinel position'')
     else sample_of tr t)"
proof -
  obtain c where c: "create_traj_cursor tr = Inr c" "traj_cursor_inv c" "tc_trajectory c = tr"
    using create_traj_cursor_inv [OF assms] by blast
  obtain d where "tr_duration tr = d" "d \<noteq> NaN"
    using assms timed_not_NaN [of "tr_points tr" "length (tr_points tr) - 1"] by (auto simp: traj_inv_def timed_def last_conv_nth)
  then have "0 \<le> t \<and> t \<le> tr_duration tr" if "\<not> (t < 0 \<or> tr_duration tr < t)" "isfinite t"
    using that by (cases t; cases d) auto
  with c seek_then_sample [OF c(2), of t] show ?thesis
    by (auto simp: trajectory_sample_def simp del: zero_Fin split: if_splits sum.splits)
qed

section \<open>The motion of a computed trajectory\<close>

text \<open>
  A trajectory whose velocities did not turn out negative and whose duration is finite: what is left
  to ask of a computed one for its points to describe a motion.
\<close>

definition forward_motion :: "trajectory \<Rightarrow> bool" where
  "forward_motion tr \<longleftrightarrow> (\<forall>q \<in> set (tr_points tr). 0 \<le> ip_s_dot q) \<and> isfinite (tr_duration tr)"

text \<open>One step between two points, on numbers.\<close>

definition constant_acceleration :: "integration_point \<Rightarrow> integration_point \<Rightarrow> bool" where
  "constant_acceleration p q \<longleftrightarrow> (\<exists>t s v a t' s' v'. p = \<lparr>ip_time = Fin t, ip_s = Fin s, ip_s_dot = Fin v, ip_s_ddot = Fin a\<rparr> \<and>
     ip_time q = Fin t' \<and> ip_s q = Fin s' \<and> ip_s_dot q = Fin v' \<and> t < t' \<and> s < s' \<and> 0 \<le> v \<and> 0 \<le> v' \<and>
     v' = v + a * (t' - t) \<and> s' = s + v * (t' - t) + a * (t' - t)\<^sup>2 / 2)"

lemma connects_step:
  assumes "connects p q" "ip_time p = Fin t" "ip_time q = Fin t'" "ip_s p = Fin s" "ip_s q = Fin s'"
    "ip_s_dot p = Fin v" "ip_s_dot q = Fin v'" "0 \<le> v" "0 \<le> v'"
  shows "constant_acceleration p q"
proof -
  let ?m = "(v + v') / 2"
  have m: "?m \<noteq> 0" using assms by (auto simp: connects_def Let_def inf_sgn_def)
  then have 1: "s < s'" "t' = t + (s' - s) / ?m" "ip_s_ddot p = divide (Fin (v' - v)) (Fin ((s' - s) / ?m))"
    using assms by (auto simp: connects_def Let_def)
  define d where "d = (s' - s) / ?m"
  have d: "0 < d" "d * ?m = s' - s" using 1(1) m assms(8,9) by (auto simp: d_def)
  then have a: "ip_s_ddot p = Fin ((v' - v) / d)" using 1(3) [folded d_def] d(1) by simp
  have dt: "t' - t = d" "t < t'" using 1(2) [folded d_def] d(1) by simp_all
  have "(v' - v) / d * d\<^sup>2 / 2 = (v' - v) * d / 2" using d(1) by (simp add: power2_eq_square)
  moreover have "s' = s + v * d + (v' - v) * d / 2" using d(2) by (simp add: field_simps)
  ultimately have "s' = s + v * d + (v' - v) / d * d\<^sup>2 / 2" by linarith
  moreover have "v' = v + (v' - v) / d * d" using d by simp
  ultimately have "s' = s + v * (t' - t) + (v' - v) / d * (t' - t)\<^sup>2 / 2" "v' = v + (v' - v) / d * (t' - t)"
    by (simp_all only: dt(1))
  moreover have "p = \<lparr>ip_time = Fin t, ip_s = Fin s, ip_s_dot = Fin v, ip_s_ddot = Fin ((v' - v) / d)\<rparr>"
    using assms(2,4,6) a by (cases p) simp
  ultimately show ?thesis unfolding constant_acceleration_def using dt(2) 1(1) assms(3,5,7-9) by blast
qed

lemma times_finite:
  assumes "successively connects ps" "ps \<noteq> []" "\<forall>q \<in> set ps. isfinite (ip_s q) \<and> isfinite (ip_s_dot q) \<and> 0 \<le> ip_s_dot q"
    "isfinite (ip_time (last ps))" "ip_time (hd ps) \<noteq> NInf"
  shows "\<forall>q \<in> set ps. isfinite (ip_time q)"
  using assms
proof (induction ps rule: rev_induct)
  case (snoc q ps)
  show ?case
  proof (cases "ps = []")
    case False
    let ?p = "last ps"
    have c: "connects ?p q" "successively connects ps" using snoc.prems(1) False by (auto simp: successively_append_iff)
    have "isfinite (ip_time ?p)"
    proof -
      have "?p \<in> set ps" using False by simp
      then obtain s v s' v' where f: "ip_s ?p = Fin s" "ip_s_dot ?p = Fin v" "ip_s q = Fin s'" "ip_s_dot q = Fin v'" "0 \<le> v" "0 \<le> v'"
        using snoc.prems(3) by (auto simp: isfinite_iff)
      then show ?thesis
        using c(1) snoc.prems(4) by (cases "ip_time ?p") (auto simp: connects_def Let_def inf_sgn_def split: if_splits)
    qed
    with snoc c(2) False show ?thesis by auto
  qed (use snoc.prems(4) in simp)
qed simp

lemma computed_motion:
  assumes "sound_trajectory p opt tr" "path_inv p" "forward_motion tr" "Suc i < length (tr_points tr)"
  shows "constant_acceleration (tr_points tr ! i) (tr_points tr ! Suc i)"
proof -
  let ?ps = "tr_points tr"
  have ps: "successively connects ?ps" "?ps \<noteq> []" "ip_time (hd ?ps) = 0" "tr_duration tr = ip_time (last ?ps)"
    using assms(1) by (auto simp: sound_trajectory_def sound_points_def starts_at_rest_def)
  have f: "isfinite (ip_s q) \<and> isfinite (ip_s_dot q) \<and> 0 \<le> ip_s_dot q" if "q \<in> set ?ps" for q
    using that assms(1-3) on_path_finite within_finite
    by (auto simp: sound_trajectory_def sound_points_def sound_point_def forward_motion_def)
  have "isfinite (ip_time q)" if "q \<in> set ?ps" for q
    using that times_finite [OF ps(1,2)] f assms(3) ps(3,4) by (auto simp: forward_motion_def)
  then have "isfinite (ip_time (?ps ! i))" "isfinite (ip_time (?ps ! Suc i))" using assms(4) by auto
  moreover have "connects (?ps ! i) (?ps ! Suc i)" using ps(1) assms(4) by (simp add: successively_conv_nth)
  ultimately show ?thesis
    using f [of "?ps ! i"] f [of "?ps ! Suc i"] assms(4) by (auto simp: isfinite_iff intro!: connects_step)
qed

text \<open>Between two points the arc length and the velocity stay between theirs.\<close>

lemma motion_between:
  assumes "constant_acceleration p q" "ip_time p \<le> Fin t" "Fin t \<le> ip_time q"
  shows "\<exists>x w. interpolate_s p (Fin t) = Fin x \<and> ip_s_dot p + ip_s_ddot p * (Fin t - ip_time p) = Fin w \<and>
    ip_s p \<le> Fin x \<and> Fin x \<le> ip_s q \<and> 0 \<le> w \<and> Fin w \<le> std_max (ip_s_dot p) (ip_s_dot q) \<and>
    (Fin t = ip_time p \<longrightarrow> ip_s p = Fin x \<and> ip_s_dot p = Fin w) \<and>
    (Fin t = ip_time q \<longrightarrow> ip_s q = Fin x \<and> ip_s_dot q = Fin w)"
proof -
  obtain t0 s v a t1 s' v' where p: "p = \<lparr>ip_time = Fin t0, ip_s = Fin s, ip_s_dot = Fin v, ip_s_ddot = Fin a\<rparr>"
    and q: "ip_time q = Fin t1" "ip_s q = Fin s'" "ip_s_dot q = Fin v'"
    and m: "t0 < t1" "0 \<le> v" "0 \<le> v'" "v' = v + a * (t1 - t0)" "s' = s + v * (t1 - t0) + a * (t1 - t0)\<^sup>2 / 2"
    using assms(1) unfolding constant_acceleration_def by blast
  define d where "d = t1 - t0"
  define r where "r = t - t0"
  define w where "w = v + a * r"
  define x where "x = s + v * r + a * r\<^sup>2 / 2"
  have r: "0 \<le> r" "r \<le> d" "0 < d" using assms(2,3) p q m(1) by (simp_all add: r_def d_def)
  have dw: "d * w = (d - r) * v + r * v'" by (simp add: w_def m(4) d_def algebra_simps)
  then have w: "0 \<le> d * w" using r m(2,3) by simp
  have "d * w \<le> (d - r) * max v v' + r * max v v'"
    unfolding dw using r by (intro add_mono mult_left_mono) auto
  then have "d * w \<le> d * max v v'" by (simp add: algebra_simps)
  with w have w: "0 \<le> w" "w \<le> max v v'" using r(3) by (simp_all add: zero_le_mult_iff)
  have "x = s + r * (v + w) / 2" by (simp add: x_def w_def power2_eq_square algebra_simps)
  moreover have "s' = x + (d - r) * (w + v') / 2"
    by (simp add: x_def w_def m(4,5) d_def [symmetric] power2_eq_square field_simps)
  ultimately have x: "s \<le> x" "x \<le> s'" using r m(2,3) w(1) by simp_all
  have "interpolate_s p (Fin t) = Fin x"
    by (simp add: interpolate_s_def p x_def r_def power2_eq_square)
  moreover have "ip_s_dot p + ip_s_ddot p * (Fin t - ip_time p) = Fin w"
    by (simp add: p w_def r_def)
  moreover have "x = s \<and> w = v" if "t = t0" using that by (simp add: x_def w_def r_def)
  moreover have "x = s' \<and> w = v'" if "t = t1" using that m(4,5) by (simp add: x_def w_def r_def)
  ultimately show ?thesis using w x by (intro exI [of _ x] exI [of _ w]) (auto simp: p q)
qed

lemma computed_inv:
  assumes "sound_trajectory p opt tr" "path_inv p" "forward_motion tr"
  shows "traj_inv tr"
proof -
  have "successively (\<lambda>p q. ip_time p < ip_time q) (tr_points tr)"
    using computed_motion [OF assms] by (fastforce simp: successively_conv_nth constant_acceleration_def)
  then have "sorted_wrt (\<lambda>p q. ip_time p < ip_time q) (tr_points tr)"
    by (subst (asm) successively_conv_sorted_wrt) (auto simp: transp_def intro: dbl_less_trans)
  with assms(1,2) show ?thesis
    by (auto simp: traj_inv_def timed_def sound_trajectory_def sound_points_def starts_at_rest_def)
qed

lemma path_component_on_path:
  assumes "path_inv p" "on_path p s"
  shows "\<exists>v. path_component k p s = Inr v"
proof -
  obtain c where "cursor_inv c" "cur_path c = p" using create_cursor_inv [OF assms(1)] by blast
  with plain.seek_then_query [of c s k] assms(2) show ?thesis by metis
qed

text \<open>The index of a time before the last point, and the motion there.\<close>

lemma computed_interval:
  assumes "sound_trajectory p opt tr" "path_inv p" "forward_motion tr" "0 \<le> t" "t < tr_duration tr"
  shows "\<exists>i. search_time_hint (tr_points tr) t = i \<and> Suc i < length (tr_points tr) \<and>
    ip_time (tr_points tr ! i) \<le> t \<and> t < ip_time (tr_points tr ! Suc i) \<and>
    constant_acceleration (tr_points tr ! i) (tr_points tr ! Suc i)"
proof -
  let ?i = "search_time_hint (tr_points tr) t"
  have inv: "timed (tr_points tr)" "tr_duration tr = ip_time (last (tr_points tr))"
    using computed_inv [OF assms(1-3)] by (simp_all add: traj_inv_def)
  have h: "interval_holds (tr_points tr) ?i t" by (rule search_holds [OF inv(1) assms(4)])
  have "Suc ?i \<noteq> length (tr_points tr)"
  proof
    assume "Suc ?i = length (tr_points tr)"
    then have "last (tr_points tr) = tr_points tr ! ?i" by (metis diff_Suc_1 last_conv_nth length_0_conv nat.distinct(1))
    with h inv(2) have "tr_duration tr \<le> t" by (simp add: interval_holds_def)
    with assms(5) dbl_less_le_trans [of t "tr_duration tr" t] show False by simp
  qed
  with h computed_motion [OF assms(1-3), of ?i] show ?thesis by (auto simp: interval_holds_def)
qed

text \<open>What a sample of a computed trajectory is before the last point, and at the duration.\<close>

lemma computed_s_at:
  assumes "sound_trajectory p opt tr" "path_inv p" "forward_motion tr" "0 \<le> t" "t < tr_duration tr"
  shows "\<exists>x w. s_at tr t = Fin x \<and> interpolate_s (point_before tr t) t = Fin x \<and> s_dot_at tr t = Fin w \<and> 0 \<le> w \<and>
    on_path p (Fin x) \<and> isfinite (ip_s_ddot (point_before tr t)) \<and>
    (\<forall>i < length (tr_points tr). ip_time (tr_points tr ! i) = t \<longrightarrow>
      ip_s (tr_points tr ! i) = Fin x \<and> ip_s_dot (tr_points tr ! i) = Fin w)"
proof -
  obtain i where i: "search_time_hint (tr_points tr) t = i" "Suc i < length (tr_points tr)"
    "ip_time (tr_points tr ! i) \<le> t" "t < ip_time (tr_points tr ! Suc i)"
    "constant_acceleration (tr_points tr ! i) (tr_points tr ! Suc i)"
    using computed_interval [OF assms] by blast
  let ?q = "tr_points tr ! i" and ?q' = "tr_points tr ! Suc i"
  obtain u where u: "t = Fin u" using i(4) assms(4) by (cases t; cases "ip_time ?q'") auto
  obtain x w where x: "interpolate_s ?q t = Fin x" "ip_s_dot ?q + ip_s_ddot ?q * (t - ip_time ?q) = Fin w"
    "ip_s ?q \<le> Fin x" "Fin x \<le> ip_s ?q'" "0 \<le> w" "t = ip_time ?q \<longrightarrow> ip_s ?q = Fin x \<and> ip_s_dot ?q = Fin w"
    using motion_between [OF i(5), of u] i(3,4) u dbl_less_imp_le by blast
  have on: "on_path p (ip_s ?q)" "on_path p (ip_s ?q')"
    using assms(1) i(2) by (auto simp: sound_trajectory_def sound_points_def sound_point_def)
  then have "on_path p (Fin x)"
    using x(3,4) dbl_le_trans [of 0 "ip_s ?q" "Fin x"] dbl_le_trans [of "Fin x" "ip_s ?q'" "path_length p"]
    by (auto simp: on_path_def)
  moreover have "tr_path tr = p" using assms(1) by (simp add: sound_trajectory_def)
  moreover have "s_at tr t = Fin x"
    using x(1) i(1) calculation path_length_finite [OF assms(2)] by (auto simp: s_at_def on_path_def)
  moreover have "isfinite (ip_s_ddot ?q)" using i(5) by (auto simp: constant_acceleration_def)
  moreover have "j = i" if "j < length (tr_points tr)" "ip_time (tr_points tr ! j) = t" for j
  proof -
    have tm: "timed (tr_points tr)" using computed_inv [OF assms(1-3)] by (simp add: traj_inv_def)
    have "interval_holds (tr_points tr) j t"
      using that timed_less [OF tm, of j "Suc j"] u by (cases "Suc j < length (tr_points tr)") (auto simp: interval_holds_def)
    with interval_unique [OF tm] i(1) show ?thesis by simp
  qed
  ultimately show ?thesis
    using x i(1) by (intro exI [of _ x] exI [of _ w]) (auto simp: point_before_def s_dot_at_def)
qed

lemma computed_sample:
  assumes "sound_trajectory p opt tr" "path_inv p" "forward_motion tr" "0 \<le> t" "t < tr_duration tr"
  shows "\<exists>x w a q q' q''. s_at tr t = Fin x \<and> s_dot_at tr t = Fin w \<and> ip_s_ddot (point_before tr t) = Fin a \<and> 0 \<le> w \<and>
    on_path p (Fin x) \<and> path_configuration p (Fin x) = Inr q \<and> path_tangent p (Fin x) = Inr q' \<and>
    path_curvature p (Fin x) = Inr q'' \<and>
    trajectory_sample tr t = Inr \<lparr>sm_time = t, sm_s = Fin x, sm_configuration = q, sm_velocity = vscale w q',
      sm_acceleration = vadd (vscale a q') (vscale (w * w) q'')\<rparr>"
proof -
  obtain x w where x: "s_at tr t = Fin x" "s_dot_at tr t = Fin w" "0 \<le> w" "on_path p (Fin x)"
    "isfinite (ip_s_ddot (point_before tr t))"
    using computed_s_at [OF assms] by blast
  obtain q q' q'' where q: "path_configuration p (Fin x) = Inr q" "path_tangent p (Fin x) = Inr q'"
      "path_curvature p (Fin x) = Inr q''"
    using path_component_on_path [OF assms(2) x(4), of Configuration] path_component_on_path [OF assms(2) x(4), of Tangent]
      path_component_on_path [OF assms(2) x(4), of Curvature] by (auto simp: path_component_def)
  have "\<not> (t < 0 \<or> tr_duration tr < t)" "isfinite t"
    using assms(3-5) by (auto simp: forward_motion_def isfinite_iff; cases t; simp)+
  then have "trajectory_sample tr t = sample_of tr t"
    by (simp add: trajectory_sample_eq [OF computed_inv [OF assms(1-3)]] del: zero_Fin)
  moreover have "tr_path tr = p" using assms(1) by (simp add: sound_trajectory_def)
  ultimately show ?thesis
    using x q by (auto simp: isfinite_iff sample_of_def path_component_def joint_motion_def)
qed

lemma computed_sample_end:
  assumes "sound_trajectory p opt tr" "path_inv p" "forward_motion tr"
  shows "trajectory_sample tr (tr_duration tr) =
    (case ip_s_ddot (last (tr_points tr)) of
       Fin a \<Rightarrow>
         bind_res (path_configuration p (path_length p)) (\<lambda>q.
         bind_res (path_tangent p (path_length p)) (\<lambda>q'.
         bind_res (path_curvature p (path_length p)) (\<lambda>q''.
           Inr \<lparr>sm_time = tr_duration tr, sm_s = path_length p, sm_configuration = q, sm_velocity = vscale 0 q',
                sm_acceleration = vadd (vscale a q') (vscale 0 q'')\<rparr>)))
     | _ \<Rightarrow> Inl (Out_of_range ''Cannot query cursor at sentinel position''))"
proof -
  let ?l = "last (tr_points tr)" and ?t = "tr_duration tr"
  have l: "tr_points tr \<noteq> []" "ip_time ?l = ?t" "ip_s ?l = path_length p" "ip_s_dot ?l = 0" "tr_path tr = p" "timed (tr_points tr)"
    using assms(1) computed_inv [OF assms] by (auto simp: sound_trajectory_def traj_inv_def sound_points_def)
  obtain len u where len: "path_length p = Fin len" "0 < len" "?t = Fin u" "isfinite ?t"
    using path_length_finite [OF assms(2)] assms(3) by (auto simp: forward_motion_def isfinite_iff)
  have n: "?l = tr_points tr ! (length (tr_points tr) - 1)" using l(1) by (simp add: last_conv_nth)
  have "\<not> ?t < 0"
    using timed_le [OF l(6), of 0 "length (tr_points tr) - 1" ?t] l(1,2,6) n len(3) by (auto simp: timed_def hd_conv_nth)
  moreover have "interval_holds (tr_points tr) (length (tr_points tr) - 1) ?t"
    using l(1,2) n len(3) by (simp add: interval_holds_def)
  then have "point_before tr ?t = ?l" using interval_unique [OF l(6)] n by (simp add: point_before_def)
  moreover have "trajectory_sample tr ?t = (if ?t < 0 then Inl (Out_of_range ''Time out of trajectory bounds'') else sample_of tr ?t)"
    using len(4) by (simp add: trajectory_sample_eq [OF computed_inv [OF assms]] del: zero_Fin)
  moreover have "s_at tr ?t = (case ip_s_ddot ?l of Fin _ \<Rightarrow> path_length p | _ \<Rightarrow> NaN)"
    using calculation(2) l len by (auto simp: s_at_def point_before_def interpolate_s_def inf_sgn_def split: dbl.split)
  ultimately show ?thesis
    using l len by (auto simp: sample_of_def path_component_def joint_motion_def s_dot_at_def on_path_def Let_def split: dbl.splits)
qed

end
