(* ===== verification/Tool_Example.thy ===== *)
theory Tool_Example
  imports Sampling_Safety
begin

text \<open>
  A run with a limit on the tool's speed. The tool speeds up towards the end of the rail, so that the
  limit falls along the path with slope \<open>- 4\<close>, faster than the arm can brake, and no switching point is
  left before the end: the forward pass hits the velocity curve, and the search returns the path's end.
\<close>

definition tool_speed :: "xvector \<Rightarrow> linear_speed option res" where
  "tool_speed q = Inr (Some \<lparr>ls_value = Fin (1 / (11 - 4 * (q ! 0))),
     ls_arc_length_derivative = Fin (4 / (11 - 4 * (q ! 0))\<^sup>2)\<rparr>)"

definition tool_options :: traj_options where
  "tool_options = rail_options\<lparr>to_tcp := Some \<lparr>tcp_max_linear_speed = Fin 1,
     tcp_evaluator = (\<lambda>q _ _. tool_speed q)\<rparr>\<rparr>"

text \<open>The evaluator does what is asked of it: on the rail its derivative is the derivative of its value.\<close>

lemma tool_speed_derivative:
  "x \<le> 5 / 2 \<Longrightarrow> ((\<lambda>x. 1 / (11 - 4 * x)) has_real_derivative 4 / (11 - 4 * x)\<^sup>2) (at x)"
  by (auto intro!: derivative_eq_intros simp: power2_eq_square)

definition tool_curves :: "real \<Rightarrow> limit_curves" where
  "tool_curves s = rail_curves\<lparr>lc_tcp := Fin (11 - 4 * s), lc_s_dot_max_vel := Fin (min 10 (11 - 4 * s)),
     lc_tcp_ratio := Some \<lparr>ls_value = Fin (1 / (11 - 4 * s)), ls_arc_length_derivative = Fin (4 / (11 - 4 * s)\<^sup>2)\<rparr>\<rparr>"

named_theorems tool_simps \<open>the code evaluated with the tool\<close>

lemma tool_parts [tool_simps]:
  "to_epsilon tool_options = Fin (1 / 100)" "to_delta tool_options = Fin 1" "to_max_acceleration tool_options = [1]"
  "to_max_velocity tool_options = [10]"
  "lc_s_dot_max_acc (tool_curves s) = PInf" "lc_s_dot_max_vel (tool_curves s) = Fin (min 10 (11 - 4 * s))"
  "lc_joint (tool_curves s) = Fin 10" "lc_tcp (tool_curves s) = Fin (11 - 4 * s)"
  by (simp_all add: tool_options_def tool_curves_def rail_curves_def rail_options_def)

lemma tool_configuration:
  "0 \<le> s \<Longrightarrow> s \<le> 5 / 2 \<Longrightarrow> cursor_configuration (rail_cursor s) = Inr [s]"
  by (simp add: cursor_configuration_def cursor_query_def cursor_at_end_def rail_cursor_def rail_parts
      rail_deref view_configuration_into_def view_query_def view_length_def view_dof_def require_dof_def)
    (simp add: rail_view_def)

lemma tool_limit_curves [tool_simps]:
  assumes "0 \<le> s" "s \<le> 5 / 2"
  shows "cursor_limit_curves (rail_cursor s) tool_options = Inr (tool_curves s)"
proof -
  have "1 / (11 - 4 * s) \<ge> 1 / 11" using assms by (intro divide_left_mono) auto
  then have v: "0 \<le> 1 / (11 - 4 * s)" "\<not> 1 / (11 - 4 * s) < 1 / 100" "11 - 4 * s \<noteq> 0" using assms by auto
  have "compute_joint_limit_curves [1] [0] tool_options = rail_curves"
    by (simp add: compute_joint_limit_curves_def tool_parts compute_joint_velocity_limit_def joint_limit_step_def
        compute_acceleration_limit_def acceleration_limit_sq_def
        moving_limit_step_def resting_limit_step_def upt_rec Let_def rail_curves_def)
  moreover have "compute_tcp_velocity_limit [s] [1] [0] \<lparr>tcp_max_linear_speed = Fin 1, tcp_evaluator = (\<lambda>q _ _. tool_speed q)\<rparr>
      (Fin (1 / 100)) = Inr (Fin (11 - 4 * s), lc_tcp_ratio (tool_curves s))"
    using v by (simp add: compute_tcp_velocity_limit_def tool_speed_def tool_curves_def)
  ultimately have "compute_limit_curves [s] [1] [0] tool_options = Inr (tool_curves s)"
    by (simp add: compute_limit_curves_def tool_parts) (simp add: tool_options_def tool_curves_def rail_curves_def rail_parts)
  moreover have "to_tcp tool_options \<noteq> None" by (simp add: tool_options_def)
  ultimately show ?thesis
    using assms by (auto simp: cursor_limit_curves_def rail_tangent tool_configuration)
qed

lemma tool_slope [tool_simps]:
  assumes "0 \<le> s" "s \<le> 5 / 2" "1 / 4 < s"
  shows "compute_velocity_limit_slope (tool_curves s) tool_options = Inr (Fin (- 4))"
proof -
  have "11 - 4 * s \<noteq> 0" "0 < 11 - 4 * s" "11 - 4 * s < 10" using assms by auto
  then show ?thesis
    by (simp add: compute_velocity_limit_slope_def tool_parts)
      (simp add: tool_options_def tool_curves_def power2_eq_square)
qed

section \<open>The forward pass\<close>

lemma tool_quantize: "quantize_forward tool_options = quantize_forward rail_options"
  by (simp add: fun_eq_iff quantize_forward_def tool_parts rail_parts)

lemma tool_probe:
  assumes "probe = None \<or> probe = Some (Fin s, tool_curves s)" "0 \<le> s" "s \<le> 5 / 2"
  shows "probed_limit_curves probe (Fin s) (rail_cursor s) tool_options = Inr (tool_curves s)"
  using assms by (auto simp: probed_limit_curves_def tool_limit_curves)

text \<open>One step up to the test of the limits, from below the velocity curve.\<close>

lemma tool_forward:
  assumes "ig_cursor st = rail_cursor r" "0 \<le> s" "s \<le> 5 / 2" "0 \<le> v" "v + 1 / 100 < min 10 (11 - 4 * s)"
    "rail_next s v = \<lparr>pp_s = Fin s', pp_s_dot = Fin v'\<rparr>" "0 \<le> s'" "s' \<le> 5 / 2" "sp_forward_accel start = None"
    "probe = None \<or> probe = Some (Fin s, tool_curves s)"
  shows "forward_body tool_options start
      \<lparr>fw_integration = st, fw_time = t, fw_point = \<lparr>pp_s = Fin s, pp_s_dot = Fin v\<rparr>, fw_first = b, fw_probed = probe\<rparr> =
    bind_res (find_limit_hit tool_options rail_view rail_view (rail_cursor s') \<lparr>pp_s = Fin s, pp_s_dot = Fin v\<rparr>
        \<lparr>pp_s = Fin s', pp_s_dot = Fin v'\<rparr> (tool_curves s')) (\<lambda>(hit, next_point, c).
      commit_step tool_options
        \<lparr>fw_integration = st, fw_time = t, fw_point = \<lparr>pp_s = Fin s, pp_s_dot = Fin v\<rparr>, fw_first = b, fw_probed = probe\<rparr>
        (Fin s', tool_curves s') hit next_point c)"
proof -
  have "\<not> eps_eq (Fin (1 / 100)) (Fin v) (Fin m)" if "v + 1 / 100 < m" for m
    using that by (simp add: eps_eq_def wrap_compare_def)
  from this [OF assms(5)] have "\<not> eps_eq (Fin (1 / 100)) (Fin v) (Fin (min 10 (11 - 4 * s)))" .
  with assms tool_probe [OF assms(10,2,3)] show ?thesis
    by (simp add: forward_body_def Let_def choose_acceleration_def rail_simps tool_simps rail_next_def tool_quantize
        follow_curve_def)
qed

lemma tool_within:
  assumes "v' \<le> min 10 (11 - 4 * s')"
  shows "find_limit_hit tool_options rail_view rail_view (rail_cursor s') current
      \<lparr>pp_s = Fin s', pp_s_dot = Fin v'\<rparr> (tool_curves s') =
    Inr (None, \<lparr>pp_s = Fin s', pp_s_dot = Fin v'\<rparr>, rail_cursor s')"
  using assms by (simp add: find_limit_hit_def crosses_kink_def rail_parts tool_parts)

text \<open>The step that breaches the curve: six halvings, and the curve is steeper than the arm can brake.\<close>

definition tool_breach :: "real \<Rightarrow> real \<Rightarrow> real \<Rightarrow> real \<Rightarrow> real \<Rightarrow> breach_state" where
  "tool_breach c s v s' v' = \<lparr>br_cursor = rail_cursor c, br_next = \<lparr>pp_s = Fin s, pp_s_dot = Fin v\<rparr>, br_q_prime = [1],
     br_q_double_prime = [0], br_next_acc = PInf, br_next_vel = Fin (min 10 (11 - 4 * s)),
     br_breach = \<lparr>pp_s = Fin s', pp_s_dot = Fin v'\<rparr>, br_breach_acc = PInf, br_breach_vel = Fin (min 10 (11 - 4 * s'))\<rparr>"

lemma tool_breach_parts:
  "br_next (tool_breach c s v s' v') = \<lparr>pp_s = Fin s, pp_s_dot = Fin v\<rparr>" "br_cursor (tool_breach c s v s' v') = rail_cursor c"
  "br_breach (tool_breach c s v s' v') = \<lparr>pp_s = Fin s', pp_s_dot = Fin v'\<rparr>" "br_breach_acc (tool_breach c s v s' v') = PInf"
  "br_breach_vel (tool_breach c s v s' v') = Fin (min 10 (11 - 4 * s'))"
  by (simp_all add: tool_breach_def)

lemma tool_bisect:
  assumes "0 \<le> (s + s') / 2" "(s + s') / 2 \<le> 5 / 2" "1 / 100 < \<bar>s - s'\<bar>"
  shows "bisect_breach_body tool_options (tool_breach c s v s' v') =
    Inr (Continue (if min 10 (11 - 4 * ((s + s') / 2)) < (v + v') / 2
       then tool_breach ((s + s') / 2) s v ((s + s') / 2) ((v + v') / 2)
       else tool_breach ((s + s') / 2) ((s + s') / 2) ((v + v') / 2) s' v'))"
proof -
  have "\<not> eps_eq (Fin (1 / 100)) (Fin s) (Fin s')" using assms(3) by (cases "s < s'") (auto simp: eps_eq_def wrap_compare_def)
  with assms show ?thesis
    by (simp add: bisect_breach_body_def tool_breach_def tool_simps rail_seek rail_tangent Let_def)
qed

lemma tool_bisection:
  "bisect_breach tool_options (tool_breach 2 2 2 (5 / 2) (11 / 5)) =
     Inr (tool_breach (285 / 128) (285 / 128) (669 / 320) (143 / 64) (67 / 32))"
proof -
  have stop: "bisect_breach_body tool_options (tool_breach (285 / 128) (285 / 128) (669 / 320) (143 / 64) (67 / 32)) =
      Inr (Return (tool_breach (285 / 128) (285 / 128) (669 / 320) (143 / 64) (67 / 32)))"
    by (simp add: bisect_breach_body_def tool_breach_def tool_simps eps_eq_def wrap_compare_def)
  have "bisect_breach_body tool_options (tool_breach 2 2 2 (5 / 2) (11 / 5)) = Inr (Continue (tool_breach (9 / 4) 2 2 (9 / 4) (21 / 10)))"
    "bisect_breach_body tool_options (tool_breach (9 / 4) 2 2 (9 / 4) (21 / 10)) =
      Inr (Continue (tool_breach (17 / 8) (17 / 8) (41 / 20) (9 / 4) (21 / 10)))"
    "bisect_breach_body tool_options (tool_breach (17 / 8) (17 / 8) (41 / 20) (9 / 4) (21 / 10)) =
      Inr (Continue (tool_breach (35 / 16) (35 / 16) (83 / 40) (9 / 4) (21 / 10)))"
    "bisect_breach_body tool_options (tool_breach (35 / 16) (35 / 16) (83 / 40) (9 / 4) (21 / 10)) =
      Inr (Continue (tool_breach (71 / 32) (71 / 32) (167 / 80) (9 / 4) (21 / 10)))"
    "bisect_breach_body tool_options (tool_breach (71 / 32) (71 / 32) (167 / 80) (9 / 4) (21 / 10)) =
      Inr (Continue (tool_breach (143 / 64) (71 / 32) (167 / 80) (143 / 64) (67 / 32)))"
    "bisect_breach_body tool_options (tool_breach (143 / 64) (71 / 32) (167 / 80) (143 / 64) (67 / 32)) =
      Inr (Continue (tool_breach (285 / 128) (285 / 128) (669 / 320) (143 / 64) (67 / 32)))"
    by (subst tool_bisect; simp)+
  with stop show ?thesis by (simp add: bisect_breach_def loop_flow_unfold)
qed

lemma tool_hit:
  "\<exists>h. find_limit_hit tool_options rail_view rail_view (rail_cursor (5 / 2)) \<lparr>pp_s = Fin 2, pp_s_dot = Fin 2\<rparr>
      \<lparr>pp_s = Fin (5 / 2), pp_s_dot = Fin (11 / 5)\<rparr> (tool_curves (5 / 2)) =
    Inr (Some h, \<lparr>pp_s = Fin (285 / 128), pp_s_dot = Fin (669 / 320)\<rparr>, rail_cursor (285 / 128)) \<and>
    lh_s_dot_max_vel h = Fin (33 / 16)"
proof -
  have start: "start_breach tool_options (rail_cursor (5 / 2)) \<lparr>pp_s = Fin 2, pp_s_dot = Fin 2\<rparr>
      \<lparr>pp_s = Fin (5 / 2), pp_s_dot = Fin (11 / 5)\<rparr> (tool_curves (5 / 2)) = Inr (tool_breach 2 2 2 (5 / 2) (11 / 5))"
    by (simp add: start_breach_def tool_breach_def tool_simps rail_seek rail_tangent)
  have trapped: "classify_breach tool_options (rail_cursor (143 / 64)) (tool_breach (285 / 128) (285 / 128) (669 / 320) (143 / 64) (67 / 32)) =
      Inr (Some (breach_hit (tool_breach (285 / 128) (285 / 128) (669 / 320) (143 / 64) (67 / 32))),
           \<lparr>pp_s = Fin (285 / 128), pp_s_dot = Fin (669 / 320)\<rparr>, rail_cursor (285 / 128))"
    by (simp add: classify_breach_def classify_velocity_breach_def tool_breach_def tool_simps rail_bounds rail_seek Let_def)
  show ?thesis
    by (simp add: find_limit_hit_def crosses_kink_def rail_parts tool_parts start tool_bisection tool_breach_parts rail_seek
        rail_deref trapped breach_hit_def)
qed

text \<open>No switching point is left: one segment, and the curve stays too steep up to its end.\<close>

lemma tool_search:
  "\<exists>cache. find_switching_point \<lparr>spc_next_accel = None, spc_next_vel = None\<rparr> (rail_cursor (285 / 128)) tool_options =
     Inr (path_end_sentinel rail, cache)"
proof -
  let ?c = "rail_cursor (285 / 128)" and ?hint = "Fin (5 / 2)"
  have pos: "cur_position (rail_cursor s) = Fin s" "cur_path (rail_cursor s) = rail" for s by (simp_all add: rail_parts)
  have linear: "view_segment rail_view = Linear \<lparr>lin_start = [0], lin_unit_direction = [1], lin_length = Fin (5 / 2)\<rparr>"
    by (simp add: rail_view_def)
  have acc: "find_acceleration_switching_point ?c ?hint tool_options = Inr None"
    by (simp add: find_acceleration_switching_point_def loop_flow_unfold acceleration_search_body_def rail_deref linear rail_parts)
  have jump: "find_discontinuous_velocity_switching_point ?c ?hint tool_options = Inr None"
    by (simp add: find_discontinuous_velocity_switching_point_def loop_flow_unfold velocity_jump_body_def rail_deref rail_parts
        tool_parts eps_ge_def wrap_compare_def Let_def)
  have delta: "try_compute_eq40_delta ?c tool_options = Inr (Some (Fin (4 - 32 / 67), Fin (67 / 32)))"
    by (simp add: try_compute_eq40_delta_def tool_simps rail_tangent rail_bounds Let_def)
  have "find_eq40_escape_bracket ?c (Fin (285 / 128)) ?hint tool_options = Inr None"
    by (simp add: find_eq40_escape_bracket_def rail_seek rail_deref loop_flow_unfold eq40_scan_body_def pos rail_parts delta
        carry_baseline_def eq40_advance_def eq40_next_position_def tool_parts eps_ge_def wrap_compare_def Let_def)
  then have escape: "find_continuous_velocity_switching_point ?c ?hint tool_options = Inr None"
    by (simp add: find_continuous_velocity_switching_point_def loop_flow_unfold escape_search_body_def rail_parts)
  have "find_velocity_switching_point ?c ?hint tool_options = Inr None"
    by (simp add: find_velocity_switching_point_def jump escape select_switching_point_def)
  with acc show ?thesis
    by (simp add: find_switching_point_def drop_behind_def resolve_entry_def rail_parts Let_def)
      (simp add: path_end_sentinel_def select_switching_point_def rail_parts eps_eq_def wrap_compare_def)
qed

lemma tool_sentinel:
  "sp_kind (path_end_sentinel rail) = K_path_end" "pp_s (sp_point (path_end_sentinel rail)) = Fin (5 / 2)"
  "pp_s_dot (sp_point (path_end_sentinel rail)) = Fin 0" "sp_forward_accel (path_end_sentinel rail) = None"
  "sp_backward_accel (path_end_sentinel rail) = None"
  by (simp_all add: path_end_sentinel_def rail_parts)

lemma tool_forward_pass:
  "\<exists>p2 l cache. integrate_forward_from tool_options path_begin rail_start =
     Inr (path_end_sentinel rail, rail_start\<lparr>ig_points := [rail_point 0 0 0 1, rail_point 1 (1 / 2) 1 1, p2, l],
                                             ig_cursor := rail_cursor (285 / 128), ig_cache := cache\<rparr>) \<and>
     ip_s p2 = Fin 2 \<and> ip_s_dot p2 = Fin 2 \<and> ip_s l = Fin (285 / 128) \<and> ip_s_dot l = Fin (669 / 320)"
proof -
  let ?fw = "\<lambda>ps c t s v b pr. \<lparr>fw_integration = rail_start\<lparr>ig_points := ps, ig_cursor := rail_cursor c\<rparr>, fw_time = Fin t,
     fw_point = \<lparr>pp_s = Fin s, pp_s_dot = Fin v\<rparr>, fw_first = b, fw_probed = pr\<rparr>"
  let ?ps = "[rail_point 0 0 0 1, rail_point 1 (1 / 2) 1 1]"
  have acc: "sp_forward_accel path_begin = None" by (simp add: path_begin_def)
  have 1: "forward_body tool_options path_begin (?fw [] 0 0 0 0 True None) =
      Inr (Continue (?fw [rail_point 0 0 0 1] (1 / 2) 1 (1 / 2) 1 False (Some (Fin (1 / 2), tool_curves (1 / 2)))))"
    by (subst tool_forward [OF _ _ _ _ _ rail_next_points(1)])
      (simp_all add: acc tool_within commit_step_def Let_def step_point_def rail_point_def rail_simps rail_start_def)
  have 2: "forward_body tool_options path_begin (?fw [rail_point 0 0 0 1] (1 / 2) 1 (1 / 2) 1 False (Some (Fin (1 / 2), tool_curves (1 / 2)))) =
      Inr (Continue (?fw ?ps 2 2 2 2 False (Some (Fin 2, tool_curves 2))))"
    by (subst tool_forward [OF _ _ _ _ _ rail_next_points(2)])
      (simp_all add: acc tool_within commit_step_def Let_def step_point_def rail_point_def rail_simps rail_start_def)
  obtain h where h: "find_limit_hit tool_options rail_view rail_view (rail_cursor (5 / 2)) \<lparr>pp_s = Fin 2, pp_s_dot = Fin 2\<rparr>
      \<lparr>pp_s = Fin (5 / 2), pp_s_dot = Fin (11 / 5)\<rparr> (tool_curves (5 / 2)) =
    Inr (Some h, \<lparr>pp_s = Fin (285 / 128), pp_s_dot = Fin (669 / 320)\<rparr>, rail_cursor (285 / 128))"
    "lh_s_dot_max_vel h = Fin (33 / 16)"
    using tool_hit by blast
  obtain cache where cache: "find_switching_point \<lparr>spc_next_accel = None, spc_next_vel = None\<rparr> (rail_cursor (285 / 128)) tool_options =
     Inr (path_end_sentinel rail, cache)"
    using tool_search by blast
  have 3: "\<exists>p2 l. forward_body tool_options path_begin (?fw ?ps 2 2 2 2 False (Some (Fin 2, tool_curves 2))) =
      Inr (Return (path_end_sentinel rail, rail_start\<lparr>ig_points := ?ps @ [p2, l], ig_cursor := rail_cursor (285 / 128), ig_cache := cache\<rparr>)) \<and>
      ip_s p2 = Fin 2 \<and> ip_s_dot p2 = Fin 2 \<and> ip_s l = Fin (285 / 128) \<and> ip_s_dot l = Fin (669 / 320)"
    by (subst tool_forward [OF _ _ _ _ _ rail_next_points(3)])
      (simp_all add: acc h cache commit_step_def finish_at_switching_point_def Let_def step_point_def rail_simps rail_start_def)
  have "forward_start path_begin rail_start = Inr (?fw [] 0 0 0 0 True None)"
    by (simp add: forward_start_def rail_start_def path_begin_def)
  moreover obtain p2 l where "forward_body tool_options path_begin (?fw ?ps 2 2 2 2 False (Some (Fin 2, tool_curves 2))) =
      Inr (Return (path_end_sentinel rail, rail_start\<lparr>ig_points := ?ps @ [p2, l], ig_cursor := rail_cursor (285 / 128), ig_cache := cache\<rparr>))"
      "ip_s p2 = Fin 2" "ip_s_dot p2 = Fin 2" "ip_s l = Fin (285 / 128)" "ip_s_dot l = Fin (669 / 320)"
    using 3 by blast
  ultimately show ?thesis
    by (intro exI [of _ p2] exI [of _ l] exI [of _ cache]) (simp add: integrate_forward_from_def loop_flow_unfold 1 2)
qed

section \<open>The backward pass and the trajectory\<close>

definition tool_end :: integration_point where
  "tool_end = \<lparr>ip_time = Fin (7 / 2), ip_s = Fin (5 / 2), ip_s_dot = Fin 0, ip_s_ddot = NaN\<rparr>"

lemma tool_backward_pass:
  assumes "ip_s p2 = Fin 2" "ip_s_dot p2 = Fin 2" "ip_s l = Fin (285 / 128)" "ip_s_dot l = Fin (669 / 320)"
  shows "\<exists>st. integrate_backwards_from tool_options limit (path_end_sentinel rail)
      (rail_start\<lparr>ig_points := [rail_point 0 0 0 1, rail_point 1 (1 / 2) 1 1, p2, l],
                   ig_cursor := rail_cursor (285 / 128), ig_cache := cache\<rparr>) = Inr (path_end_sentinel rail, st) \<and>
    ig_points st = [rail_point 0 0 0 1, rail_point 1 (1 / 2) 1 0, rail_point (5 / 2) 2 1 (- 1), tool_end] \<and>
    ig_duration st = Fin (7 / 2)"
proof -
  let ?ps = "[rail_point 0 0 0 1, rail_point 1 (1 / 2) 1 1, p2, l]"
  let ?st = "rail_start\<lparr>ig_points := ?ps, ig_cursor := rail_cursor (285 / 128), ig_cache := cache\<rparr>"
  let ?b0 = "\<lparr>ip_time = Fin 0, ip_s = Fin (5 / 2), ip_s_dot = Fin 0, ip_s_ddot = NaN\<rparr>" and ?b1 = "rail_point 1 2 1 (- 1)"
  have base: "cursor_base (rail_cursor s) = 0" "cur_path (rail_cursor s) = rail" for s
    by (simp_all add: cursor_base_def cursor_at_end_def rail_cursor_def)
  have cand: "backward_candidate tool_options limit None (rail_cursor s) q =
      Inr (\<lparr>pp_s = Fin (s - v - 1 / 2), pp_s_dot = Fin (v + 1)\<rparr>, rail_cursor (s - v - 1 / 2))"
    if "ip_s q = Fin s" "ip_s_dot q = Fin v" "0 < s - v - 1 / 2" "s \<le> 5 / 2" "0 \<le> v" "1 / 50 < s - v - 1 / 2" for s v q
    using that
    by (simp add: backward_candidate_def backward_acceleration_def base rail_simps tool_parts quantize_backward_def
        eps_le_def wrap_compare_def Let_def solve_velocity_def eval_residual_def eps_eq_def field_simps)
  have step: "backward_step_point ?b0 \<lparr>pp_s = Fin 2, pp_s_dot = Fin 1\<rparr> = ?b1"
    by (simp add: backward_step_point_def Let_def rail_point_def)
  have feasible: "feasible_backward tool_options (rail_cursor 2) \<lparr>pp_s = Fin 2, pp_s_dot = Fin 1\<rparr> = Inr ()"
    by (simp add: feasible_backward_def tool_simps Let_def eps_greater_def wrap_compare_def)
  have 1: "backward_body tool_options limit (path_end_sentinel rail) ?st \<lparr>bw_points = [?b0], bw_cursor = rail_cursor (285 / 128), bw_window = 2\<rparr> =
      Inr (Continue \<lparr>bw_points = [?b0, ?b1], bw_cursor = rail_cursor 2, bw_window = 2\<rparr>)"
    using assms
    by (simp add: backward_body_def Let_def rail_seek tool_sentinel cand step feasible crosses_within_def numeral_2_eq_2)
  have 2: "backward_body tool_options limit (path_end_sentinel rail) ?st \<lparr>bw_points = [?b0, ?b1], bw_cursor = rail_cursor 2, bw_window = 2\<rparr> =
      Inr (Return (path_end_sentinel rail, ?st\<lparr>ig_points := [rail_point 0 0 0 1, rail_point 1 (1 / 2) 1 0, rail_point (5 / 2) 2 1 (- 1), tool_end],
        ig_duration := Fin (7 / 2)\<rparr>))"
    using assms
    by (simp add: backward_body_def Let_def rail_seek tool_sentinel cand crosses_within_def above_at_left_def numeral_2_eq_2
        splice_def tool_parts eps_eq_def wrap_compare_def tool_end_def)
  show ?thesis
    using assms
    by (simp add: integrate_backwards_from_def Let_def tool_sentinel loop_flow_unfold 1 [unfolded numeral_2_eq_2] 2 [unfolded numeral_2_eq_2])
      (simp add: rail_start_def)?
qed

lemma tool_run:
  obtains tr where "trajectory_create rail tool_options [] = Inr tr"
    "tr_points tr = [rail_point 0 0 0 1, rail_point 1 (1 / 2) 1 0, rail_point (5 / 2) 2 1 (- 1), tool_end]"
    "tr_duration tr = Fin (7 / 2)"
proof -
  obtain p2 l cache where f: "integrate_forward_from tool_options path_begin rail_start =
     Inr (path_end_sentinel rail, rail_start\<lparr>ig_points := [rail_point 0 0 0 1, rail_point 1 (1 / 2) 1 1, p2, l],
                                             ig_cursor := rail_cursor (285 / 128), ig_cache := cache\<rparr>)"
     "ip_s p2 = Fin 2" "ip_s_dot p2 = Fin 2" "ip_s l = Fin (285 / 128)" "ip_s_dot l = Fin (669 / 320)"
    using tool_forward_pass by blast
  obtain st where b: "integrate_backwards_from tool_options (s_dot_ceiling rail tool_options) (path_end_sentinel rail)
      (rail_start\<lparr>ig_points := [rail_point 0 0 0 1, rail_point 1 (1 / 2) 1 1, p2, l],
                   ig_cursor := rail_cursor (285 / 128), ig_cache := cache\<rparr>) = Inr (path_end_sentinel rail, st)"
    "ig_points st = [rail_point 0 0 0 1, rail_point 1 (1 / 2) 1 0, rail_point (5 / 2) 2 1 (- 1), tool_end]"
    "ig_duration st = Fin (7 / 2)"
    using tool_backward_pass [OF f(2-5)] by blast
  have k: "sp_kind path_begin = K_path_begin" "pp_s (sp_point path_begin) = Fin 0"
    by (simp_all add: path_begin_def)
  have "start_integration rail = Inr rail_start"
    by (simp add: start_integration_def rail_simps rail_start_def del: zero_Fin)
  moreover have "loop_flow (totg_body tool_options (s_dot_ceiling rail tool_options)) (path_begin, rail_start) = Inr st"
    by (simp add: loop_flow_unfold totg_body_def forward_progress_def f(1) b(1) k tool_sentinel)
  moreover have "check_options rail tool_options = Inr ()"
    using rail_inv(2) by (simp add: check_options_iff) (simp add: acceptable_def tool_options_def)
  ultimately show ?thesis
    using b(2,3) that [of "\<lparr>tr_path = rail, tr_options = tool_options, tr_points = ig_points st, tr_duration = ig_duration st\<rparr>"]
    by (simp add: trajectory_create_def run_totg_def)
qed

end
