(* ===== verification/Sampling_Properties.thy ===== *)
theory Sampling_Properties
  imports Tool_Example
begin

text \<open>
  The properties of sampling: the cursor's state does not show, the samples of a computed trajectory
  follow its points, and the three vectors of a sample are one motion and its derivatives.
\<close>

section \<open>Trajectories that were computed\<close>

lemma created_sound:
  assumes "path_inv p" "evaluator_returns opt" "(fin (to_epsilon opt))\<^sup>2 * real (path_dof p) \<le> 1"
    "trajectory_create p opt [] = Inr tr"
  shows "sound_trajectory p opt tr"
proof -
  have "acceptable p opt" "run_totg p opt = Inr tr"
    using assms(4) by (cases rule: check_options_cases [of p opt]; simp add: trajectory_create_def)+
  with run_totg_sound [OF assms(1) acceptable_sound [OF _ assms(2,3)]] show ?thesis by simp
qed

text \<open>The trajectory of the rail, for the witnesses.\<close>

lemma scaled_trajectory:
  assumes "scale_ok k e"
  obtains tr where "trajectory_create rail (scaled_options k e) [] = Inr tr" "forward_motion tr" "traj_inv tr" "tr_duration tr = Fin (7 / 2 / k)"
    "tr_points tr = [pace k 0 0 0 1, pace k 1 (1 / 2) 1 0, pace k (5 / 2) 2 1 (- 1), pace k (7 / 2) (5 / 2) 0 0]"
proof -
  obtain tr where tr: "trajectory_create rail (scaled_options k e) [] = Inr tr"
    "tr_points tr = [pace k 0 0 0 1, pace k 1 (1 / 2) 1 0, pace k (5 / 2) 2 1 (- 1), pace k (7 / 2) (5 / 2) 0 0]"
    using scaled_run [OF assms] by blast
  note snd = created_sound [OF rail_inv(1) scaled_inv(2,3) [OF assms] tr(1)]
  then have d: "tr_duration tr = Fin (7 / 2 / k)" by (simp add: sound_trajectory_def tr(2))
  have "0 \<le> k" using assms by (simp add: scale_ok_def)
  with d have "forward_motion tr" by (simp add: forward_motion_def tr(2))
  with tr d computed_inv [OF snd rail_inv(1)] that show thesis by blast
qed

lemma rail_trajectory:
  obtains tr where "trajectory_create rail rail_options [] = Inr tr" "forward_motion tr" "traj_inv tr" "tr_duration tr = Fin (7 / 2)"
    "tr_points tr = [rail_point 0 0 0 1, rail_point 1 (1 / 2) 1 0, rail_point (5 / 2) 2 1 (- 1), rail_point (7 / 2) (5 / 2) 0 0]"
  by (rule scaled_trajectory [OF rail_scaled(3)]) (simp add: rail_scaled pace_def)

text \<open>No sample of it throws.\<close>

lemma scaled_sample:
  assumes "scale_ok k e" "trajectory_create rail (scaled_options k e) [] = Inr tr" "0 \<le> x" "x \<le> 7 / 2 / k"
  shows "\<exists>smp. trajectory_sample tr (Fin x) = Inr smp"
proof -
  obtain tr' where tr: "trajectory_create rail (scaled_options k e) [] = Inr tr'" "forward_motion tr'" "tr_duration tr' = Fin (7 / 2 / k)"
    "tr_points tr' = [pace k 0 0 0 1, pace k 1 (1 / 2) 1 0, pace k (5 / 2) 2 1 (- 1), pace k (7 / 2) (5 / 2) 0 0]"
    using scaled_trajectory [OF assms(1)] by metis
  with assms(2) have [simp]: "tr' = tr" by simp
  note snd = created_sound [OF rail_inv(1) scaled_inv(2,3) [OF assms(1)] assms(2)]
  show ?thesis
  proof (cases "x = 7 / 2 / k")
    case True
    have "on_path rail (path_length rail)" using rail_inv(5) by (simp add: on_path_def)
    note there = path_component_on_path [OF rail_inv(1) this]
    from there [of Configuration] there [of Tangent] there [of Curvature] show ?thesis
      using computed_sample_end [OF snd rail_inv(1)] tr(2-4) by (auto simp: path_component_def True)
  next
    case False
    with computed_sample [OF snd rail_inv(1), of "Fin x"] tr(2,3) assms(3,4) show ?thesis by auto
  qed
qed

lemma rail_sample:
  "trajectory_create rail rail_options [] = Inr tr \<Longrightarrow> 0 \<le> x \<Longrightarrow> x \<le> 7 / 2 \<Longrightarrow> \<exists>smp. trajectory_sample tr (Fin x) = Inr smp"
  using scaled_sample [OF rail_scaled(3), of tr x] by (simp add: rail_scaled)

lemma trajectory_sample_time:
  assumes "traj_inv tr" "trajectory_sample tr t = Inr smp"
  shows "sm_time smp = t" "0 \<le> t" "t \<le> tr_duration tr" "isfinite t"
proof -
  have nn: "tr_duration tr \<noteq> NaN"
    using assms(1) timed_not_NaN [of "tr_points tr" "length (tr_points tr) - 1"] by (auto simp: traj_inv_def timed_def last_conv_nth)
  have r: "\<not> t < 0" "\<not> tr_duration tr < t" "isfinite t" "sample_of tr t = Inr smp"
    using assms(2) by (auto simp: trajectory_sample_eq [OF assms(1)] simp del: zero_Fin split: if_splits)
  then show "sm_time smp = t" "isfinite t" by (auto simp: sample_of_def Let_def bind_res_eq_Inr split: if_splits)
  then show "0 \<le> t" "t \<le> tr_duration tr" using r nn by (cases t; cases "tr_duration tr"; auto)+
qed

section \<open>Cursors\<close>

lemma seeks_keep:
  assumes "traj_cursor_inv c"
  shows "\<exists>c'. foldl (\<lambda>r t. bind_res r (\<lambda>c. traj_seek c t)) (Inr c) ts = Inr c' \<and> traj_cursor_inv c' \<and>
    tc_trajectory c' = tc_trajectory c"
proof (induction ts rule: rev_induct)
  case (snoc t ts)
  then obtain c' where "foldl (\<lambda>r t. bind_res r (\<lambda>c. traj_seek c t)) (Inr c) ts = Inr c'" "traj_cursor_inv c'"
    "tc_trajectory c' = tc_trajectory c" by blast
  with traj_seek_spec [of c' t] show ?case by auto
qed (use assms in simp)

text \<open>
  C4: A cursor on a trajectory has no memory that shows. After any sequence of seeks, from any state the
  cursor can be in, seeking to a time and sampling gives what sampling the trajectory at that time
  gives, and the cursor can go on; outside the trajectory both throw \<open>std::out_of_range\<close>.
\<close>

theorem cursor_sampling_transparent:
  assumes "traj_cursor_inv c"
  shows "\<exists>c'. foldl (\<lambda>r t. bind_res r (\<lambda>c. traj_seek c t)) (Inr c) (ts @ [t]) = Inr c' \<and>
    (if t < 0 \<or> tr_duration (tc_trajectory c) < t
     then traj_cursor_sample c' = Inl (Out_of_range ''Cannot sample cursor at sentinel position'') \<and>
       trajectory_sample (tc_trajectory c) t = Inl (Out_of_range ''Time out of trajectory bounds'')
     else case trajectory_sample (tc_trajectory c) t of
         Inl e \<Rightarrow> traj_cursor_sample c' = Inl e
       | Inr smp \<Rightarrow> \<exists>c''. traj_cursor_sample c' = Inr (smp, c'') \<and> traj_cursor_inv c'')"
proof -
  obtain c1 where c1: "foldl (\<lambda>r t. bind_res r (\<lambda>c. traj_seek c t)) (Inr c) ts = Inr c1" "traj_cursor_inv c1"
    "tc_trajectory c1 = tc_trajectory c"
    using seeks_keep [OF assms] by blast
  let ?tr = "tc_trajectory c"
  obtain c' where c': "traj_seek c1 t = Inr c'"
    "if 0 \<le> t \<and> t \<le> tr_duration ?tr \<and> isfinite t
     then case sample_of ?tr t of Inl e \<Rightarrow> traj_cursor_sample c' = Inl e
       | Inr smp \<Rightarrow> \<exists>c''. traj_cursor_sample c' = Inr (smp, c'') \<and> traj_cursor_inv c'' \<and> tc_trajectory c'' = ?tr
     else traj_cursor_sample c' = Inl (Out_of_range ''Cannot sample cursor at sentinel position'')"
    using seek_then_sample [OF c1(2), of t, unfolded c1(3)] by blast
  have tr: "traj_inv ?tr" using assms by (simp add: traj_cursor_inv_def)
  have "tr_duration ?tr \<noteq> NaN"
    using tr timed_not_NaN [of "tr_points ?tr" "length (tr_points ?tr) - 1"] by (auto simp: traj_inv_def timed_def last_conv_nth)
  then have "t < 0 \<or> tr_duration ?tr < t \<or> \<not> isfinite t \<or> 0 \<le> t \<and> t \<le> tr_duration ?tr"
    by (cases t; cases "tr_duration ?tr") auto
  moreover have "\<not> (0 \<le> t \<and> t \<le> tr_duration ?tr)" if "t < 0 \<or> tr_duration ?tr < t"
    using that by (cases t; cases "tr_duration ?tr") auto
  ultimately show ?thesis
    using c' c1(1) by (cases "sample_of ?tr t") (auto simp: trajectory_sample_eq [OF tr] simp del: zero_Fin split: if_splits)
qed

theorem cursor_sampling_transparent_witness:
  "\<exists>tr c c' smp c''. create_traj_cursor tr = Inr c \<and>
     foldl (\<lambda>r t. bind_res r (\<lambda>c. traj_seek c t)) (Inr c) ([Fin 3, Fin 9] @ [Fin 1]) = Inr c' \<and>
     traj_cursor_sample c' = Inr (smp, c'') \<and> trajectory_sample tr (Fin 1) = Inr smp"
proof -
  obtain tr where tr: "trajectory_create rail rail_options [] = Inr tr" "forward_motion tr" "traj_inv tr" "tr_duration tr = Fin (7 / 2)"
    using rail_trajectory by metis
  obtain c where c: "create_traj_cursor tr = Inr c" "traj_cursor_inv c" "tc_trajectory c = tr"
    using create_traj_cursor_inv [OF tr(3)] by blast
  obtain smp where "trajectory_sample tr (Fin 1) = Inr smp"
    using computed_sample [OF created_sound [OF rail_inv(1,3,4) tr(1)] rail_inv(1) tr(2), of "Fin 1"] tr(4) by auto
  with cursor_sampling_transparent [OF c(2), of "[Fin 3, Fin 9]" "Fin 1"] c(1,3) tr(4) show ?thesis by fastforce
qed

section \<open>Samples of a computed trajectory\<close>

text \<open>The segment a position of the path lies in, with the path's three functions there.\<close>

lemma path_segment_there:
  assumes "path_inv p" "0 \<le> x" "Fin x \<le> path_length p"
  obtains i a g where "segment_index p (Fin x) = i" "i < path_size p" "ps_start (path_segments p ! i) = Fin a" "a \<le> x"
    "ps_seg (path_segments p ! i) = g" "segment_inv (path_dof p) g"
    "path_configuration p (Fin x) = Inr (segment_configuration g (x - a))"
    "path_tangent p (Fin x) = Inr (segment_tangent g (x - a))" "path_curvature p (Fin x) = Inr (segment_curvature g (x - a))"
proof -
  have "segment_index p (Fin x) < path_size p" by (rule segment_index_bounds(2) [OF assms])
  moreover have "segment_inv (path_dof p) (ps_seg (path_segments p ! segment_index p (Fin x)))"
    using assms(1) calculation by (simp add: path_inv_def path_size_def)
  ultimately show ?thesis using path_query_result [OF assms] that by blast
qed

lemma path_tangent_length:
  assumes "path_inv p" "on_path p s" "path_tangent p s = Inr q"
  shows "length q = path_dof p"
proof -
  obtain x where x: "s = Fin x" "0 \<le> x" "Fin x \<le> path_length p"
    using assms(1,2) path_length_finite [OF assms(1)] by (cases s) (auto simp: on_path_def)
  obtain g d where "segment_inv (path_dof p) g" "path_tangent p (Fin x) = Inr (segment_tangent g d)"
    using path_segment_there [OF assms(1) x(2,3)] by metis
  with assms(3) x(1) show ?thesis by (auto simp: segment_dof_inv)
qed

text \<open>
  C3: Of a computed trajectory whose points move forward (none of their velocities came out negative, and the duration is finite, which
  can be read off the integration points), every sample before the end succeeds. The sample stands on the path at the arc
  length reached with constant acceleration since the last point, with the path's configuration there, and its velocity is
  the path's tangent scaled by that point's velocity plus its acceleration times the time since it, which is never
  negative between the points either. At the time of an integration point it is at that point,
  with its velocity, so the motion is continuous from one interval to the next. At the duration it
  rests at the end of the path if the last point has a finite acceleration, and otherwise throws.
\<close>

theorem created_trajectory_samples:
  assumes "path_inv p" "evaluator_returns opt" "(fin (to_epsilon opt))\<^sup>2 * real (path_dof p) \<le> 1"
    "trajectory_create p opt [] = Inr tr" "forward_motion tr"
  shows "(\<forall>t. 0 \<le> t \<and> t < tr_duration tr \<longrightarrow>
      (\<exists>smp w q'. trajectory_sample tr t = Inr smp \<and> sm_time smp = t \<and> on_path p (sm_s smp) \<and>
        sm_s smp = interpolate_s (point_before tr t) t \<and>
        path_configuration p (sm_s smp) = Inr (sm_configuration smp) \<and> path_tangent p (sm_s smp) = Inr q' \<and>
        Fin w = s_dot_at tr t \<and> 0 \<le> w \<and> sm_velocity smp = vscale w q' \<and>
        (\<forall>i < length (tr_points tr). ip_time (tr_points tr ! i) = t \<longrightarrow>
          sm_s smp = ip_s (tr_points tr ! i) \<and> Fin w = ip_s_dot (tr_points tr ! i)))) \<and>
    (if isfinite (ip_s_ddot (last (tr_points tr)))
     then \<exists>smp. trajectory_sample tr (tr_duration tr) = Inr smp \<and> sm_s smp = path_length p \<and>
       (\<forall>i < path_dof p. sm_velocity smp ! i = 0)
     else trajectory_sample tr (tr_duration tr) = Inl (Out_of_range ''Cannot query cursor at sentinel position''))"
proof (intro conjI allI impI)
  note snd = created_sound [OF assms(1-4)]
  fix t assume t: "0 \<le> t \<and> t < tr_duration tr"
  show "\<exists>smp w q'. trajectory_sample tr t = Inr smp \<and> sm_time smp = t \<and> on_path p (sm_s smp) \<and>
        sm_s smp = interpolate_s (point_before tr t) t \<and>
        path_configuration p (sm_s smp) = Inr (sm_configuration smp) \<and> path_tangent p (sm_s smp) = Inr q' \<and>
        Fin w = s_dot_at tr t \<and> 0 \<le> w \<and> sm_velocity smp = vscale w q' \<and>
        (\<forall>i < length (tr_points tr). ip_time (tr_points tr ! i) = t \<longrightarrow>
          sm_s smp = ip_s (tr_points tr ! i) \<and> Fin w = ip_s_dot (tr_points tr ! i))"
    using computed_sample [OF snd assms(1,5), of t] computed_s_at [OF snd assms(1,5), of t] t by fastforce
next
  note fin = computed_sample_end [OF created_sound [OF assms(1-4)] assms(1,5)]
  obtain len where len: "path_length p = Fin len" "0 < len" using path_length_finite [OF assms(1)] by blast
  then have on: "on_path p (path_length p)" by (simp add: on_path_def)
  obtain q q' q'' where q: "path_configuration p (path_length p) = Inr q" "path_tangent p (path_length p) = Inr q'"
      "path_curvature p (path_length p) = Inr q''"
    using path_component_on_path [OF assms(1) on, of Configuration] path_component_on_path [OF assms(1) on, of Tangent]
      path_component_on_path [OF assms(1) on, of Curvature] by (auto simp: path_component_def)
  then have "length q' = path_dof p" using path_tangent_length [OF assms(1) on] by simp
  then show "if isfinite (ip_s_ddot (last (tr_points tr)))
     then \<exists>smp. trajectory_sample tr (tr_duration tr) = Inr smp \<and> sm_s smp = path_length p \<and>
       (\<forall>i < path_dof p. sm_velocity smp ! i = 0)
     else trajectory_sample tr (tr_duration tr) = Inl (Out_of_range ''Cannot query cursor at sentinel position'')"
    using fin q by (cases "ip_s_ddot (last (tr_points tr))") simp_all
qed

theorem created_trajectory_samples_witness:
  "\<exists>tr smp. trajectory_create rail rail_options [] = Inr tr \<and> trajectory_sample tr (Fin 1) = Inr smp \<and>
     sm_s smp = Fin (1 / 2) \<and> (\<exists>smp'. trajectory_sample tr (Fin (7 / 2)) = Inr smp' \<and> sm_s smp' = Fin (5 / 2))"
proof -
  obtain tr where tr: "trajectory_create rail rail_options [] = Inr tr" "forward_motion tr" "tr_duration tr = Fin (7 / 2)"
    "tr_points tr = [rail_point 0 0 0 1, rail_point 1 (1 / 2) 1 0, rail_point (5 / 2) 2 1 (- 1), rail_point (7 / 2) (5 / 2) 0 0]"
    using rail_trajectory by metis
  note samples = created_trajectory_samples [OF rail_inv(1,3,4) tr(1,2), unfolded tr(3)]
  obtain smp where "trajectory_sample tr (Fin 1) = Inr smp"
    "\<forall>i < length (tr_points tr). ip_time (tr_points tr ! i) = Fin 1 \<longrightarrow> sm_s smp = ip_s (tr_points tr ! i)"
    using conjunct1 [OF samples, rule_format, of "Fin 1"] by auto
  moreover from this(2) [rule_format, of 1] have "sm_s smp = Fin (1 / 2)" by (simp add: tr(4))
  moreover have "\<exists>smp'. trajectory_sample tr (Fin (7 / 2)) = Inr smp' \<and> sm_s smp' = Fin (5 / 2)"
    using conjunct2 [OF samples] rail_inv(5) by (auto simp: tr(4))
  ultimately show ?thesis using tr(1) by blast
qed

text \<open>
  C39: The end of a computed trajectory can be out of reach. When the velocity curve is too steep for the
  arm up to the end of the path, the forward pass stops at it, no switching point is left, and the
  point the search returns in its place has no acceleration: the last integration point is stamped
  with a \<open>NaN\<close>. With acceptable options, on a path of one segment, \<open>trajectory::create\<close> succeeds, and
  sampling at the duration, which is in bounds, throws.
\<close>

theorem trajectory_end_unsampleable:
  "\<exists>tr. acceptable rail tool_options \<and> trajectory_create rail tool_options [] = Inr tr \<and> tr_duration tr = Fin (7 / 2) \<and>
     ip_s_ddot (last (tr_points tr)) = NaN \<and>
     trajectory_sample tr (Fin (7 / 2)) = Inl (Out_of_range ''Cannot query cursor at sentinel position'')"
proof -
  obtain tr where tr: "trajectory_create rail tool_options [] = Inr tr" "tr_duration tr = Fin (7 / 2)"
    "tr_points tr = [rail_point 0 0 0 1, rail_point 1 (1 / 2) 1 0, rail_point (5 / 2) 2 1 (- 1), tool_end]"
    using tool_run by blast
  have ok: "acceptable rail tool_options" "(fin (to_epsilon tool_options))\<^sup>2 * real (path_dof rail) \<le> 1"
    using rail_inv(2,4) by (auto simp: acceptable_def tool_options_def)
  have "evaluator_returns tool_options" by (simp add: evaluator_returns_def tool_options_def tool_speed_def)
  note snd = created_sound [OF rail_inv(1) this ok(2) tr(1)]
  have "forward_motion tr" by (simp add: forward_motion_def tr(2,3) tool_end_def)
  from computed_sample_end [OF snd rail_inv(1) this] ok(1) tr show ?thesis by (simp add: tool_end_def)
qed

section \<open>The vectors of a sample\<close>

text \<open>A coordinate of a part of the samples as a function of time.\<close>

definition sample_coordinate :: "(traj_sample \<Rightarrow> xvector) \<Rightarrow> trajectory \<Rightarrow> nat \<Rightarrow> real \<Rightarrow> real" where
  "sample_coordinate part tr j t = (case trajectory_sample tr (Fin t) of Inr smp \<Rightarrow> part smp ! j | Inl _ \<Rightarrow> 0)"

definition between_points :: "trajectory \<Rightarrow> real \<Rightarrow> bool" where
  "between_points tr t \<longleftrightarrow> (\<exists>i. Suc i < length (tr_points tr) \<and>
     ip_time (tr_points tr ! i) < Fin t \<and> Fin t < ip_time (tr_points tr ! Suc i))"

definition inside_segment :: "path \<Rightarrow> arc_length \<Rightarrow> bool" where
  "inside_segment p s \<longleftrightarrow> (\<exists>i < path_size p. ps_start (path_segments p ! i) < s \<and> s < segment_end p i)"

lemma segment_interval:
  assumes "path_inv p" "i < path_size p"
  obtains a e g where "ps_start (path_segments p ! i) = Fin a" "segment_end p i = Fin e" "0 \<le> a" "Fin e \<le> path_length p"
    "ps_seg (path_segments p ! i) = g" "segment_inv (path_dof p) g"
    "\<And>x. a < x \<Longrightarrow> x < e \<Longrightarrow> path_configuration p (Fin x) = Inr (segment_configuration g (x - a)) \<and>
      path_tangent p (Fin x) = Inr (segment_tangent g (x - a)) \<and> path_curvature p (Fin x) = Inr (segment_curvature g (x - a))"
proof -
  obtain xs len where xs: "length xs = path_size p" "path_length p = Fin len"
    "\<And>i. i < length xs \<Longrightarrow> ps_start (path_segments p ! i) = Fin (xs ! i) \<and> 0 \<le> xs ! i \<and> xs ! i < len"
    "\<And>i. i < length xs \<Longrightarrow> segment_end p i = Fin (if Suc i < length xs then xs ! Suc i else len)"
    using path_positions [OF assms(1)] by (metis path_size_def)
  let ?a = "xs ! i" and ?e = "if Suc i < length xs then xs ! Suc i else len"
  have i: "i < length xs" using assms(2) xs(1) by simp
  have e: "?e \<le> len" using xs(3) [of "Suc i"] by auto
  show ?thesis
  proof (rule that [of ?a ?e])
    fix x assume x: "?a < x" "x < ?e"
    have "x < xs ! Suc i" if "Suc i < path_size p" using x(2) that xs(1) by simp
    then have "segment_index p (Fin x) = i"
      using segment_index_unique(2) [OF assms, of x] x(1) xs(1,3) i by auto
    moreover have "0 \<le> x" "Fin x \<le> path_length p" using x e xs(2) xs(3) [OF i] by auto
    ultimately show "path_configuration p (Fin x) = Inr (segment_configuration (ps_seg (path_segments p ! i)) (x - ?a)) \<and>
      path_tangent p (Fin x) = Inr (segment_tangent (ps_seg (path_segments p ! i)) (x - ?a)) \<and>
      path_curvature p (Fin x) = Inr (segment_curvature (ps_seg (path_segments p ! i)) (x - ?a))"
      using path_query_result [OF assms(1)] xs(3) [OF i] by fastforce
  qed (use xs(2) xs(3,4) [OF i] e assms in \<open>auto simp: path_inv_def path_size_def\<close>)
qed

text \<open>Between two points, inside a segment: everything in numbers.\<close>

lemma local_samples:
  assumes "sound_trajectory p opt tr" "path_inv p" "forward_motion tr" "Suc i < length (tr_points tr)"
    "ip_time (tr_points tr ! i) < Fin t" "Fin t < ip_time (tr_points tr ! Suc i)"
    "k < path_size p" "ps_start (path_segments p ! k) < s_at tr (Fin t)" "s_at tr (Fin t) < segment_end p k"
  obtains t0 t1 s v b a e g where "t0 < t" "t < t1" "a < s + v * (t - t0) + b * (t - t0)\<^sup>2 / 2"
    "s + v * (t - t0) + b * (t - t0)\<^sup>2 / 2 < e" "segment_inv (path_dof p) g"
    "\<And>u. t0 < u \<Longrightarrow> u < t1 \<Longrightarrow> a < s + v * (u - t0) + b * (u - t0)\<^sup>2 / 2 \<Longrightarrow>
       s + v * (u - t0) + b * (u - t0)\<^sup>2 / 2 < e \<Longrightarrow>
       \<exists>smp. trajectory_sample tr (Fin u) = Inr smp \<and>
         (let x = s + v * (u - t0) + b * (u - t0)\<^sup>2 / 2 - a; w = v + b * (u - t0)
          in sm_configuration smp = segment_configuration g x \<and> sm_velocity smp = vscale w (segment_tangent g x) \<and>
             sm_acceleration smp = vadd (vscale b (segment_tangent g x)) (vscale (w * w) (segment_curvature g x)))"
proof -
  let ?q = "tr_points tr ! i" and ?q' = "tr_points tr ! Suc i"
  have tm: "timed (tr_points tr)" "tr_duration tr = ip_time (last (tr_points tr))"
    using computed_inv [OF assms(1-3)] by (auto simp: traj_inv_def)
  obtain t0 s v b t1 s' v' where q: "?q = \<lparr>ip_time = Fin t0, ip_s = Fin s, ip_s_dot = Fin v, ip_s_ddot = Fin b\<rparr>"
    "ip_time ?q' = Fin t1" "t0 < t1"
    using computed_motion [OF assms(1-4)] unfolding constant_acceleration_def by blast
  obtain a e g where g: "ps_start (path_segments p ! k) = Fin a" "segment_end p k = Fin e" "segment_inv (path_dof p) g"
    "\<And>x. a < x \<Longrightarrow> x < e \<Longrightarrow> path_configuration p (Fin x) = Inr (segment_configuration g (x - a)) \<and>
      path_tangent p (Fin x) = Inr (segment_tangent g (x - a)) \<and> path_curvature p (Fin x) = Inr (segment_curvature g (x - a))"
    using segment_interval [OF assms(2,7)] by metis
  let ?x = "\<lambda>u. s + v * (u - t0) + b * (u - t0)\<^sup>2 / 2" and ?w = "\<lambda>u. v + b * (u - t0)"
  have t0: "Fin 0 \<le> Fin t0"
    using timed_le [OF tm(1), of 0 i "Fin t0"] tm(1) assms(4) q(1) by (auto simp: timed_def hd_conv_nth)
  have "tr_points tr \<noteq> []" using assms(4) by auto
  then have "last (tr_points tr) = tr_points tr ! (length (tr_points tr) - 1)" by (rule last_conv_nth)
  then have t1: "Fin t1 \<le> tr_duration tr"
    using timed_le [OF tm(1), of "Suc i" "length (tr_points tr) - 1" "tr_duration tr"] assms(3,4) q(2) tm(2)
    by (auto simp: isfinite_iff forward_motion_def)
  have here: "point_before tr (Fin u) = ?q \<and> s_at tr (Fin u) = Fin (?x u) \<and> s_dot_at tr (Fin u) = Fin (?w u) \<and>
      0 \<le> Fin u \<and> Fin u < tr_duration tr" if u: "t0 < u" "u < t1" for u
  proof -
    have "interval_holds (tr_points tr) i (Fin u)" using u q assms(4) by (simp add: interval_holds_def)
    from interval_unique [OF tm(1) this] have b: "point_before tr (Fin u) = ?q" by (simp add: point_before_def)
    moreover have range: "0 \<le> Fin u" "Fin u < tr_duration tr"
      using t0 u dbl_less_le_trans [of "Fin u" "Fin t1"] t1 by auto
    moreover have "interpolate_s (point_before tr (Fin u)) (Fin u) = Fin (?x u)"
      by (simp add: b q(1) interpolate_s_def power2_eq_square)
    moreover have "s_dot_at tr (Fin u) = Fin (?w u)" by (simp add: s_dot_at_def b q(1))
    ultimately show ?thesis using computed_s_at [OF assms(1-3) range] by auto
  qed
  show ?thesis
  proof (rule that [of t0 t1 a s v b e g])
    show t: "t0 < t" "t < t1" using assms(5,6) q by simp_all
    show "a < ?x t" "?x t < e" using here [OF t] assms(8,9) g(1,2) by simp_all
    fix u assume u: "t0 < u" "u < t1" "a < ?x u" "?x u < e"
    show "\<exists>smp. trajectory_sample tr (Fin u) = Inr smp \<and>
         (let x = ?x u - a; w = ?w u
          in sm_configuration smp = segment_configuration g x \<and> sm_velocity smp = vscale w (segment_tangent g x) \<and>
             sm_acceleration smp = vadd (vscale b (segment_tangent g x)) (vscale (w * w) (segment_curvature g x)))"
      using computed_sample [OF assms(1-3), of "Fin u"] here [OF u(1,2)] q(1) g(4) [OF u(3,4)]
      by (auto simp: Let_def)
  qed (rule g(3))
qed

text \<open>
  C23: Of a computed trajectory whose points move forward (no velocity of a point came out negative, and the duration is finite): at a time
  strictly between two integration points and a position strictly inside a segment of the path, the velocity of a sample
  is the derivative of its configuration with respect to time, and the acceleration is the
  derivative of the velocity, joint by joint. At the junctions of points and of segments nothing is claimed: the acceleration jumps there.
\<close>

theorem sample_derivatives:
  assumes "path_inv p" "evaluator_returns opt" "(fin (to_epsilon opt))\<^sup>2 * real (path_dof p) \<le> 1"
    "trajectory_create p opt [] = Inr tr" "forward_motion tr" "between_points tr t"
    "inside_segment p (s_at tr (Fin t))" "j < path_dof p"
  shows "(sample_coordinate sm_configuration tr j has_real_derivative sample_coordinate sm_velocity tr j t) (at t) \<and>
    (sample_coordinate sm_velocity tr j has_real_derivative sample_coordinate sm_acceleration tr j t) (at t)"
proof -
  obtain i k where ik: "Suc i < length (tr_points tr)" "ip_time (tr_points tr ! i) < Fin t" "Fin t < ip_time (tr_points tr ! Suc i)"
    "k < path_size p" "ps_start (path_segments p ! k) < s_at tr (Fin t)" "s_at tr (Fin t) < segment_end p k"
    using assms(6,7) by (auto simp: between_points_def inside_segment_def)
  obtain t0 t1 s v b a e g where l: "t0 < t" "t < t1" "a < s + v * (t - t0) + b * (t - t0)\<^sup>2 / 2"
    "s + v * (t - t0) + b * (t - t0)\<^sup>2 / 2 < e" "segment_inv (path_dof p) g"
    "\<And>u. t0 < u \<Longrightarrow> u < t1 \<Longrightarrow> a < s + v * (u - t0) + b * (u - t0)\<^sup>2 / 2 \<Longrightarrow>
       s + v * (u - t0) + b * (u - t0)\<^sup>2 / 2 < e \<Longrightarrow>
       \<exists>smp. trajectory_sample tr (Fin u) = Inr smp \<and>
         (let x = s + v * (u - t0) + b * (u - t0)\<^sup>2 / 2 - a; w = v + b * (u - t0)
          in sm_configuration smp = segment_configuration g x \<and> sm_velocity smp = vscale w (segment_tangent g x) \<and>
             sm_acceleration smp = vadd (vscale b (segment_tangent g x)) (vscale (w * w) (segment_curvature g x)))"
    using local_samples [OF created_sound [OF assms(1-4)] assms(1,5) ik] by metis
  define x where "x u = s + v * (u - t0) + b * (u - t0)\<^sup>2 / 2 - a" for u
  define w where "w u = v + b * (u - t0)" for u
  define near where "near = {u. t0 < u \<and> u < t1 \<and> 0 < x u \<and> x u < e - a}"
  have near: "open near" "t \<in> near"
    using l(1-4) by (auto simp: near_def x_def intro!: open_Collect_conj open_Collect_less continuous_intros)
  have n: "length (segment_tangent g y) = path_dof p" "length (segment_curvature g y) = path_dof p" for y
    using segment_dof_inv [OF l(5)] by simp_all
  have on_near: "sample_coordinate sm_configuration tr j u = segment_configuration g (x u) ! j \<and>
      sample_coordinate sm_velocity tr j u = w u * segment_tangent g (x u) ! j \<and>
      sample_coordinate sm_acceleration tr j u = b * segment_tangent g (x u) ! j + w u * w u * segment_curvature g (x u) ! j"
    if "u \<in> near" for u
    using l(6) [of u] that assms(8) n by (auto simp: near_def x_def w_def sample_coordinate_def Let_def)
  have dx: "(x has_real_derivative w u) (at u)" for u
    unfolding x_def w_def by (auto intro!: derivative_eq_intros)
  have dw: "(w has_real_derivative b) (at u)" for u
    unfolding w_def by (auto intro!: derivative_eq_intros)
  have "((\<lambda>u. segment_configuration g (x u) ! j) has_real_derivative segment_tangent g (x t) ! j * w t) (at t)"
    by (rule DERIV_chain2 [OF segment_derivative [OF l(5) assms(8)] dx])
  moreover have "((\<lambda>u. segment_tangent g (x u) ! j) has_real_derivative segment_curvature g (x t) ! j * w t) (at t)"
    by (rule DERIV_chain2 [OF segment_second_derivative [OF l(5) assms(8)] dx])
  then have "((\<lambda>u. w u * segment_tangent g (x u) ! j) has_real_derivative
      b * segment_tangent g (x t) ! j + w t * w t * segment_curvature g (x t) ! j) (at t)"
    by (auto intro!: derivative_eq_intros dw)
  moreover have "segment_configuration g (x u) ! j = sample_coordinate sm_configuration tr j u"
      "w u * segment_tangent g (x u) ! j = sample_coordinate sm_velocity tr j u" if "u \<in> near" for u
    using on_near [OF that] by simp_all
  ultimately show ?thesis
    using on_near [OF near(2)] has_field_derivative_transform_within_open [OF _ near]
    by (simp add: mult.commute)
qed

theorem sample_derivatives_witness:
  "\<exists>tr. trajectory_create rail rail_options [] = Inr tr \<and>
     (sample_coordinate sm_configuration tr 0 has_real_derivative sample_coordinate sm_velocity tr 0 2) (at 2)"
proof -
  obtain tr where tr: "trajectory_create rail rail_options [] = Inr tr" "forward_motion tr" "tr_duration tr = Fin (7 / 2)"
    "tr_points tr = [rail_point 0 0 0 1, rail_point 1 (1 / 2) 1 0, rail_point (5 / 2) 2 1 (- 1), rail_point (7 / 2) (5 / 2) 0 0]"
    "traj_inv tr"
    using rail_trajectory by metis
  have between: "between_points tr 2" unfolding between_points_def by (rule exI [of _ 1]) (simp add: tr(4))
  have "interval_holds (tr_points tr) 1 (Fin 2)" by (simp add: interval_holds_def tr(4))
  with interval_unique [of "tr_points tr" 1 "Fin 2"] tr(5) have "search_time_hint (tr_points tr) (Fin 2) = 1"
    by (simp add: traj_inv_def)
  moreover have "tr_path tr = rail" using created_sound [OF rail_inv(1,3,4) tr(1)] by (simp add: sound_trajectory_def)
  ultimately have "s_at tr (Fin 2) = Fin (3 / 2)" by (simp add: s_at_def interpolate_s_def tr(4) rail_inv(5))
  then have "inside_segment rail (s_at tr (Fin 2))"
    by (simp add: inside_segment_def path_size_def segment_end_def) (simp add: rail_def)
  with sample_derivatives [OF rail_inv(1,3,4) tr(1,2) between, of 0] tr(1) show ?thesis by (simp add: rail_def)
qed

end
