(* ===== verification/Sampler_Properties.thy ===== *)
theory Sampler_Properties
  imports Uniform_Sampler Sampling_Properties
begin

text \<open>
  What samplers promise. The contract of a sized sampler is a locale: a range over the samples of a
  trajectory with such a sampler gives the samples of the trajectory at the times the sampler is due.
  The uniform sampler has the contract.
\<close>

section \<open>The contract\<close>

text \<open>The samples at given times, in order, or the first exception.\<close>

primrec sample_all :: "trajectory \<Rightarrow> seconds list \<Rightarrow> traj_sample list res" where
  "sample_all tr [] = Inr []"
| "sample_all tr (t # ts) = bind_res (trajectory_sample tr t) (\<lambda>smp. bind_res (sample_all tr ts) (\<lambda>smps. Inr (smp # smps)))"

locale sized_sampler =
  fixes advance :: "'s advance"
    and remaining :: "'s \<Rightarrow> size_t"
    and ready :: "trajectory \<Rightarrow> 's \<Rightarrow> bool"
    and due :: "trajectory \<Rightarrow> 's \<Rightarrow> seconds"
    and after :: "'s \<Rightarrow> 's"
  assumes exhausted: "ready tr s \<Longrightarrow> remaining s = 0 \<Longrightarrow> advance s c = Inr (False, s, c)"
    and advances: "ready tr s \<Longrightarrow> remaining s \<noteq> 0 \<Longrightarrow> tc_trajectory c = tr \<Longrightarrow>
      advance s c = bind_res (traj_seek c (due tr s)) (\<lambda>c'. Inr (True, after s, c'))"
    and counts: "ready tr s \<Longrightarrow> remaining s \<noteq> 0 \<Longrightarrow>
      ready tr (after s) \<and> unat (remaining s) = Suc (unat (remaining (after s)))"
    and due_in_range: "ready tr s \<Longrightarrow> remaining s \<noteq> 0 \<Longrightarrow> 0 \<le> due tr s \<and> due tr s \<le> tr_duration tr \<and> isfinite (due tr s)"
begin

primrec times_due :: "trajectory \<Rightarrow> nat \<Rightarrow> 's \<Rightarrow> seconds list" where
  "times_due tr 0 s = []"
| "times_due tr (Suc n) s = due tr s # times_due tr n (after s)"

lemma fill_step:
  assumes "ready tr s" "remaining s \<noteq> 0" "traj_cursor_inv c" "tc_trajectory c = tr"
  shows "case trajectory_sample tr (due tr s) of
      Inl e \<Rightarrow> fill_or_disengage advance \<lparr>si_cursor = c, si_sampler = s, si_current = old\<rparr> = Inl e
    | Inr smp \<Rightarrow> \<exists>c'. fill_or_disengage advance \<lparr>si_cursor = c, si_sampler = s, si_current = old\<rparr> =
        Inr \<lparr>si_cursor = c', si_sampler = after s, si_current = Some smp\<rparr> \<and> traj_cursor_inv c' \<and> tc_trajectory c' = tr"
proof -
  note due = due_in_range [OF assms(1,2)]
  have "traj_inv tr" using assms(3,4) by (simp add: traj_cursor_inv_def)
  moreover have "\<not> (due tr s < 0 \<or> tr_duration tr < due tr s)"
    using due by (cases "due tr s"; cases "tr_duration tr") auto
  ultimately have sample: "trajectory_sample tr (due tr s) = sample_of tr (due tr s)"
    using due by (simp add: trajectory_sample_eq del: zero_Fin)
  obtain c' where "traj_seek c (due tr s) = Inr c'"
    "case sample_of tr (due tr s) of Inl e \<Rightarrow> traj_cursor_sample c' = Inl e
       | Inr smp \<Rightarrow> \<exists>c''. traj_cursor_sample c' = Inr (smp, c'') \<and> traj_cursor_inv c'' \<and> tc_trajectory c'' = tr"
    using seek_then_sample [OF assms(3), of "due tr s"] due assms(4) by auto
  then show ?thesis
    by (cases "sample_of tr (due tr s)")
      (auto simp: sample fill_or_disengage_def advances [OF assms(1,2,4)])
qed

lemma collect_loop:
  assumes "ready tr s" "unat (remaining s) = n" "traj_cursor_inv c" "tc_trajectory c = tr"
  shows "loop_flow (collect_body advance) (\<lparr>si_cursor = c, si_sampler = s, si_current = Some smp\<rparr>, acc) =
    bind_res (sample_all tr (times_due tr n s)) (\<lambda>smps. Inr (acc @ smp # smps))"
  using assms
proof (induction n arbitrary: s c smp acc)
  case 0
  then have "remaining s = 0" by (simp add: unat_eq_0)
  with 0 show ?case
    by (simp add: loop_flow_unfold collect_body_def iterator_at_end_def iterator_deref_def fill_or_disengage_def exhausted)
next
  case (Suc n)
  then have s: "remaining s \<noteq> 0" by auto
  with counts [OF Suc.prems(1)] Suc.prems(2) have ready: "ready tr (after s)" "unat (remaining (after s)) = n" by auto
  let ?it = "\<lparr>si_cursor = c, si_sampler = s, si_current = Some smp\<rparr>"
  have body: "collect_body advance (?it, acc) =
      bind_res (fill_or_disengage advance ?it) (\<lambda>it'. Inr (Continue (it', acc @ [smp])))"
    by (simp add: collect_body_def iterator_at_end_def iterator_deref_def)
  show ?case
  proof (cases "trajectory_sample tr (due tr s)")
    case (Inl e)
    with fill_step [OF Suc.prems(1) s Suc.prems(3,4), of "Some smp"] show ?thesis
      by (simp add: loop_flow_unfold [of _ "(?it, acc)"] body)
  next
    case (Inr smp')
    with fill_step [OF Suc.prems(1) s Suc.prems(3,4), of "Some smp"] obtain c'
      where c': "fill_or_disengage advance ?it = Inr \<lparr>si_cursor = c', si_sampler = after s, si_current = Some smp'\<rparr>"
        "traj_cursor_inv c'" "tc_trajectory c' = tr" by auto
    from Suc.IH [OF ready c'(2,3), of smp' "acc @ [smp]"] Inr show ?thesis
      by (cases "sample_all tr (times_due tr n (after s))") (simp_all add: loop_flow_unfold [of _ "(?it, acc)"] body c'(1))
  qed
qed

text \<open>The range gives what the trajectory gives at the times the sampler is due, exceptions included.\<close>

lemma range_samples:
  assumes "traj_inv tr" "ready tr s" "samples_of tr s = Inr v"
  shows "collect_samples advance v = sample_all tr (times_due tr (unat (remaining s)) s)"
proof -
  obtain c where c: "create_traj_cursor tr = Inr c" "traj_cursor_inv c" "tc_trajectory c = tr"
    using create_traj_cursor_inv [OF assms(1)] by blast
  with assms(3) have v: "v = \<lparr>sv_cursor = c, sv_sampler = s\<rparr>" by (simp add: samples_of_def)
  show ?thesis
  proof (cases "remaining s = 0")
    case True
    then show ?thesis
      by (simp add: v collect_samples_def sampled_begin_def fill_or_disengage_def exhausted [OF assms(2)] loop_flow_unfold
          collect_body_def iterator_at_end_def)
  next
    case False
    with counts [OF assms(2)] have a: "ready tr (after s)" "unat (remaining s) = Suc (unat (remaining (after s)))" by auto
    note fill = fill_step [OF assms(2) False c(2,3), of "Some empty_sample"]
    show ?thesis
    proof (cases "trajectory_sample tr (due tr s)")
      case (Inl e)
      with fill a(2) show ?thesis by (simp add: v collect_samples_def sampled_begin_def)
    next
      case (Inr smp)
      with fill obtain c' where "fill_or_disengage advance \<lparr>si_cursor = c, si_sampler = s, si_current = Some empty_sample\<rparr> =
          Inr \<lparr>si_cursor = c', si_sampler = after s, si_current = Some smp\<rparr>" "traj_cursor_inv c'" "tc_trajectory c' = tr" by auto
      with collect_loop [OF a(1) refl, of c' smp "[]"] Inr a(2) show ?thesis
        by (simp add: v collect_samples_def sampled_begin_def)
    qed
  qed
qed

end

section \<open>The uniform sampler\<close>

definition uniform_ready :: "trajectory \<Rightarrow> uniform_sampler \<Rightarrow> bool" where
  "uniform_ready tr s \<longleftrightarrow> us_next_sample s \<le> us_num_samples s \<and>
     isfinite (us_start s) \<and> isfinite (tr_duration tr) \<and> 0 \<le> us_start s \<and> us_start s \<le> tr_duration tr"

definition uniform_due :: "trajectory \<Rightarrow> uniform_sampler \<Rightarrow> seconds" where
  "uniform_due tr s = lerp (us_start s) (tr_duration tr)
     (if us_next_sample s = us_num_samples s - 1 then 1
      else divide (double_of_size (us_next_sample s)) (double_of_size (us_num_samples s - 1)))"

definition uniform_after :: "uniform_sampler \<Rightarrow> uniform_sampler" where
  "uniform_after s = s\<lparr>us_next_sample := us_next_sample s + 1\<rparr>"

lemma size_pred: "m < n \<Longrightarrow> unat (n - 1) = unat n - 1" for m n :: size_t
  by (metis unat_minus_one word_not_simps(1))

lemma size_succ: "m < n \<Longrightarrow> unat (m + 1) = unat m + 1" for m n :: size_t
proof -
  assume "m < n"
  moreover have "unat n < 2 ^ LENGTH(64)" by (rule unsigned_less)
  ultimately show ?thesis by (simp add: word_less_nat_alt unat_word_ariths)
qed

lemma size_of_nat: "k < 2 ^ 64 \<Longrightarrow> unat (word_of_nat k :: size_t) = k"
  by (simp add: unsigned_of_nat take_bit_nat_eq_self)

lemma size_diff: "m \<le> n \<Longrightarrow> unat (n - m) = unat n - unat m" for m n :: size_t
  by (simp add: unat_sub)

text \<open>The special case for the last sample is what the formula gives there.\<close>

lemma uniform_due_eq:
  assumes "us_next_sample s < us_num_samples s" "us_start s = Fin a" "tr_duration tr = Fin d"
  shows "uniform_due tr s =
    (if us_num_samples s = 1 then Fin d
     else Fin (a + real (unat (us_next_sample s)) / real (unat (us_num_samples s) - 1) * (d - a)))"
proof -
  have "unat (us_num_samples s - 1) = unat (us_num_samples s) - 1" by (rule size_pred [OF assms(1)])
  moreover have "us_num_samples s = 1 \<Longrightarrow> us_next_sample s = 0" using assms(1) by (simp add: word_less_1)
  moreover have "us_num_samples s \<noteq> 1 \<Longrightarrow> 1 < unat (us_num_samples s)"
    using assms(1) by (metis less_one linorder_neqE_nat not_less_zero unat_1 unat_eq_0 word_not_simps(1) word_unat_eq_iff)
  ultimately show ?thesis
    using assms(2,3) by (auto simp: uniform_due_def double_of_size_def lerp_def simp del: of_nat_unat)
qed

lemma uniform_due_range:
  assumes "uniform_ready tr s" "sampler_remaining s \<noteq> 0"
  shows "0 \<le> uniform_due tr s \<and> uniform_due tr s \<le> tr_duration tr \<and> isfinite (uniform_due tr s)"
proof -
  obtain a d where ad: "us_start s = Fin a" "tr_duration tr = Fin d" "0 \<le> a" "a \<le> d"
    using assms(1) by (auto simp: uniform_ready_def isfinite_iff)
  have l: "us_next_sample s < us_num_samples s"
    using assms by (auto simp: uniform_ready_def sampler_remaining_def order_less_le)
  then have i: "unat (us_next_sample s) \<le> unat (us_num_samples s) - 1" by (simp add: word_less_nat_alt)
  define w where "w = real (unat (us_next_sample s)) / real (unat (us_num_samples s) - 1)"
  have "0 \<le> w" unfolding w_def by (intro divide_nonneg_nonneg of_nat_0_le_iff)
  moreover have "w \<le> 1" unfolding w_def divide_le_eq_1 using i
    by (cases "unat (us_num_samples s) - 1") (auto simp del: of_nat_unat)
  ultimately have "0 \<le> w * (d - a)" "w * (d - a) \<le> d - a" using ad mult_left_le_one_le [of "d - a" w] by auto
  then show ?thesis using ad uniform_due_eq [OF l ad(1,2), folded w_def] by auto
qed

interpretation uniform: sized_sampler sampler_advance sampler_remaining uniform_ready uniform_due uniform_after
proof
  fix tr s c
  assume ready: "uniform_ready tr s"
  then have le: "us_next_sample s \<le> us_num_samples s" by (simp add: uniform_ready_def)
  show "sampler_advance s c = Inr (False, s, c)" if "sampler_remaining s = 0"
    using that by (simp add: sampler_advance_def sampler_remaining_def)
  assume left: "sampler_remaining s \<noteq> 0"
  then have less: "us_next_sample s < us_num_samples s" using le by (auto simp: sampler_remaining_def order_less_le)
  show "sampler_advance s c = bind_res (traj_seek c (uniform_due tr s)) (\<lambda>c'. Inr (True, uniform_after s, c'))"
    if "tc_trajectory c = tr"
    using less that unfolding sampler_advance_def uniform_due_def uniform_after_def Let_def by auto
  show "0 \<le> uniform_due tr s \<and> uniform_due tr s \<le> tr_duration tr \<and> isfinite (uniform_due tr s)"
    by (rule uniform_due_range [OF ready left])
  have "us_next_sample s + 1 \<le> us_num_samples s" using less by (simp add: inc_le)
  moreover from this le less have "unat (us_num_samples s - us_next_sample s) =
      Suc (unat (us_num_samples s - (us_next_sample s + 1)))"
    by (simp add: size_diff size_succ [OF less] word_less_nat_alt)
  ultimately show "uniform_ready tr (uniform_after s) \<and>
      unat (sampler_remaining s) = Suc (unat (sampler_remaining (uniform_after s)))"
    using ready by (simp add: uniform_ready_def uniform_after_def sampler_remaining_def)
qed

text \<open>All the times a new sampler will be due.\<close>

lemma uniform_times:
  assumes "uniform_ready tr s" "us_start s = Fin a" "tr_duration tr = Fin d" "us_num_samples s \<noteq> 1"
    "n = unat (sampler_remaining s)"
  shows "uniform.times_due tr n s =
    map (\<lambda>i. Fin (a + real i / real (unat (us_num_samples s) - 1) * (d - a))) [unat (us_next_sample s)..<unat (us_num_samples s)]"
  using assms
proof (induction n arbitrary: s)
  case 0
  then have "unat (us_num_samples s) \<le> unat (us_next_sample s)"
    by (metis diff_is_0_eq sampler_remaining_def size_diff uniform_ready_def)
  then show ?case by simp
next
  case (Suc n)
  then have left: "sampler_remaining s \<noteq> 0" by auto
  with Suc.prems(1) have less: "us_next_sample s < us_num_samples s"
    by (auto simp: uniform_ready_def sampler_remaining_def order_less_le)
  have after: "uniform_ready tr (uniform_after s)" "n = unat (sampler_remaining (uniform_after s))"
    using uniform.counts [OF Suc.prems(1) left] Suc.prems(5) by auto
  have fields: "us_start (uniform_after s) = us_start s" "us_num_samples (uniform_after s) = us_num_samples s"
      "us_next_sample (uniform_after s) = us_next_sample s + 1" by (simp_all add: uniform_after_def)
  have "uniform.times_due tr n (uniform_after s) =
      map (\<lambda>i. Fin (a + real i / real (unat (us_num_samples s) - 1) * (d - a)))
        [Suc (unat (us_next_sample s))..<unat (us_num_samples s)]"
    using Suc.IH [OF after(1) _ Suc.prems(3) _ after(2)] Suc.prems(2,4) by (simp add: fields size_succ [OF less])
  with less Suc.prems(2-4) show ?case
    by (simp add: uniform_due_eq [of s a tr d] word_less_nat_alt upt_conv_Cons)
qed

section \<open>Counting\<close>

lemma quantized_samples_cases:
  "calculate_quantized_samples (Fin d) (Fin f) =
    (if d \<le> 0 \<or> f \<le> 0 then Inl (Invalid_argument ''duration and frequency must both be positive'')
     else if \<lceil>d * f\<rceil> + 1 < 2 ^ 64 then Inr (word_of_nat (nat \<lceil>d * f\<rceil> + 1))
     else Inl (Undefined_behaviour ''double out of the range of size_t''))"
proof (cases "d \<le> 0 \<or> f \<le> 0")
  case False
  then have "0 < d * f" by simp
  then have "0 < \<lceil>d * f\<rceil>" by simp
  then have "nat (\<lceil>d * f\<rceil> + 1) = nat \<lceil>d * f\<rceil> + 1" by (metis nat_add_distrib nat_one_as_int less_imp_le zero_le_one nat_1 One_nat_def)
  moreover have "of_int \<lceil>d * f\<rceil> + 1 < (2::real) ^ 64 \<longleftrightarrow> \<lceil>d * f\<rceil> + 1 < 2 ^ 64"
    using of_int_less_iff [of "\<lceil>d * f\<rceil> + 1" "2 ^ 64", where 'a = real] by simp
  ultimately show ?thesis using False \<open>0 < \<lceil>d * f\<rceil>\<close>
    by (auto simp: calculate_quantized_samples_def size_of_double_def Let_def)
qed (auto simp: calculate_quantized_samples_def)

lemma quantized_samples_Inr:
  assumes "calculate_quantized_samples (Fin d) (Fin f) = Inr n"
  shows "0 < d" "0 < f" "int (unat n) = \<lceil>d * f\<rceil> + 1" "2 \<le> unat n"
proof -
  have r: "0 < d \<and> 0 < f \<and> \<lceil>d * f\<rceil> + 1 < 2 ^ 64 \<and> n = word_of_nat (nat \<lceil>d * f\<rceil> + 1)"
    using assms by (auto simp: quantized_samples_cases split: if_splits)
  then show "0 < d" "0 < f" by auto
  then have pos: "0 < \<lceil>d * f\<rceil>" by simp
  have "int (nat \<lceil>d * f\<rceil> + 1) < int (2 ^ 64)" using r pos by simp
  then have "nat \<lceil>d * f\<rceil> + 1 < 2 ^ 64" by (simp only: of_nat_less_iff)
  then have "unat n = nat \<lceil>d * f\<rceil> + 1" using r size_of_nat by blast
  with pos show "int (unat n) = \<lceil>d * f\<rceil> + 1" "2 \<le> unat n" by linarith+
qed

lemma quantized_for_trajectory_Inr:
  assumes "quantized_for_trajectory tr f start = Inr u"
  obtains a d g n where "start = Fin a" "tr_duration tr = Fin d" "f = Fin g" "0 \<le> a" "a < d"
    "calculate_quantized_samples (Fin (d - a)) (Fin g) = Inr n" "u = \<lparr>us_num_samples = n, us_next_sample = 0, us_start = Fin a\<rparr>"
proof -
  have n: "\<not> start < 0" "\<not> tr_duration tr \<le> start"
    and "bind_res (calculate_quantized_samples (tr_duration tr - start) f) (\<lambda>n. Inr (make_uniform_sampler n start)) = Inr u"
    using assms by (auto simp: quantized_for_trajectory_def Let_def split: if_splits)
  then obtain n where r: "calculate_quantized_samples (tr_duration tr - start) f = Inr n" "u = make_uniform_sampler n start"
    unfolding bind_res_eq_Inr by blast
  from r(1) have "isfinite ((tr_duration tr - start) * f)" "\<not> tr_duration tr - start \<le> 0" "\<not> f \<le> 0"
    by (auto simp: calculate_quantized_samples_def Let_def split: if_splits)
  with n have "isfinite start \<and> isfinite (tr_duration tr) \<and> isfinite f"
    by (cases start; cases "tr_duration tr"; cases f) (auto simp: inf_sgn_def split: if_splits)
  then obtain a d g where "start = Fin a" "tr_duration tr = Fin d" "f = Fin g" by (auto simp: isfinite_iff)
  with n r that show thesis by (auto simp: make_uniform_sampler_def)
qed

text \<open>The times a quantised sampler is due, over the range.\<close>

lemma quantized_range_samples:
  assumes "traj_inv tr" "quantized_for_trajectory tr f start = Inr u" "samples_of tr u = Inr v"
  shows "\<exists>a d g n. start = Fin a \<and> tr_duration tr = Fin d \<and> f = Fin g \<and> int n = \<lceil>(d - a) * g\<rceil> + 1 \<and> 2 \<le> n \<and>
    (d - a) / real (n - 1) \<le> 1 / g \<and>
    collect_samples sampler_advance v = sample_all tr (map (\<lambda>i. Fin (a + real i / real (n - 1) * (d - a))) [0..<n])"
proof -
  obtain a d g k where q: "start = Fin a" "tr_duration tr = Fin d" "f = Fin g" "0 \<le> a" "a < d"
    "calculate_quantized_samples (Fin (d - a)) (Fin g) = Inr k" "u = \<lparr>us_num_samples = k, us_next_sample = 0, us_start = Fin a\<rparr>"
    using quantized_for_trajectory_Inr [OF assms(2)] by metis
  note n = quantized_samples_Inr [OF q(6)]
  have ready: "uniform_ready tr u" using q by (simp add: uniform_ready_def)
  have k: "us_num_samples u \<noteq> 1" using n(4) q(7) by auto
  have left: "sampler_remaining u = k" by (simp add: sampler_remaining_def q(7))
  have "collect_samples sampler_advance v = sample_all tr (map (\<lambda>i. Fin (a + real i / real (unat k - 1) * (d - a))) [0..<unat k])"
    using uniform.range_samples [OF assms(1) ready assms(3)] uniform_times [OF ready _ q(2) k refl, of a] q(7)
    by (simp add: left)
  moreover have "(d - a) * g \<le> real (unat k - 1)" using n(3,4) by linarith
  with n(2,4) have "(d - a) / real (unat k - 1) \<le> 1 / g" by (simp add: field_simps del: of_nat_unat)
  ultimately show ?thesis using q(1-3) n(3,4) by blast
qed

section \<open>The properties\<close>

text \<open>
  C5: A range over the samples of a trajectory with a sampler quantised for it gives the samples of the
  trajectory at \<open>n\<close> times, evenly spaced from the start to the duration, both included, or the first
  exception one of them throws. There are at least two, \<open>n\<close> is the duration left times the frequency,
  rounded up, plus one, and the spacing is at most the period asked for.
\<close>

theorem uniform_samples_spec:
  assumes "traj_inv tr" "quantized_for_trajectory tr f start = Inr u" "samples_of tr u = Inr v"
  shows "\<exists>a d g n. start = Fin a \<and> tr_duration tr = Fin d \<and> f = Fin g \<and> int n = \<lceil>(d - a) * g\<rceil> + 1 \<and> 2 \<le> n \<and>
    (d - a) / real (n - 1) \<le> 1 / g \<and>
    collect_samples sampler_advance v = sample_all tr (map (\<lambda>i. Fin (a + real i / real (n - 1) * (d - a))) [0..<n])"
  by (rule quantized_range_samples [OF assms])

theorem uniform_samples_spec_witness:
  "\<exists>tr u v smps. trajectory_create rail rail_options [] = Inr tr \<and> quantized_for_trajectory tr 2 (Fin (3 / 2)) = Inr u \<and>
     samples_of tr u = Inr v \<and> collect_samples sampler_advance v = Inr smps \<and>
     map sm_time smps = [Fin (3 / 2), Fin 2, Fin (5 / 2), Fin 3, Fin (7 / 2)]"
proof -
  obtain tr where tr: "trajectory_create rail rail_options [] = Inr tr" "forward_motion tr" "traj_inv tr" "tr_duration tr = Fin (7 / 2)"
    "tr_points tr = [rail_point 0 0 0 1, rail_point 1 (1 / 2) 1 0, rail_point (5 / 2) 2 1 (- 1), rail_point (7 / 2) (5 / 2) 0 0]"
    using rail_trajectory by metis
  define u where "u = \<lparr>us_num_samples = 5, us_next_sample = 0, us_start = Fin (3 / 2)\<rparr>"
  have u: "quantized_for_trajectory tr 2 (Fin (3 / 2)) = Inr u"
    by (simp add: quantized_for_trajectory_def Let_def tr(4) quantized_samples_cases make_uniform_sampler_def u_def)
  obtain c where "create_traj_cursor tr = Inr c" using create_traj_cursor_inv [OF tr(3)] by blast
  then obtain v where v: "samples_of tr u = Inr v" by (simp add: samples_of_def)
  have "\<exists>smp. trajectory_sample tr (Fin t) = Inr smp \<and> sm_time smp = Fin t" if "0 \<le> t" "t \<le> 7 / 2" for t
    using rail_sample [OF tr(1) that] trajectory_sample_time(1) [OF tr(3)] by blast
  then have "\<exists>smps. sample_all tr (map Fin ts) = Inr smps \<and> map sm_time smps = map Fin ts" if "\<forall>t \<in> set ts. 0 \<le> t \<and> t \<le> 7 / 2" for ts
    using that by (induction ts) fastforce+
  from this [of "[3 / 2, 2, 5 / 2, 3, 7 / 2]"] obtain smps where
    "sample_all tr [Fin (3 / 2), Fin 2, Fin (5 / 2), Fin 3, Fin (7 / 2)] = Inr smps"
    "map sm_time smps = [Fin (3 / 2), Fin 2, Fin (5 / 2), Fin 3, Fin (7 / 2)]" by auto
  moreover obtain a d g n where n: "Fin (3 / 2) = Fin a" "tr_duration tr = Fin d" "2 = Fin g" "int n = \<lceil>(d - a) * g\<rceil> + 1"
    "collect_samples sampler_advance v = sample_all tr (map (\<lambda>i. Fin (a + real i / real (n - 1) * (d - a))) [0..<n])"
    using uniform_samples_spec [OF tr(3) u v] by blast
  then have eqs: "a = 3 / 2" "d = 7 / 2" "g = 2" using tr(4) by simp_all
  then have "n = 5" using n(4) by simp
  then have "map (\<lambda>i. Fin (a + real i / real (n - 1) * (d - a))) [0..<n] = [Fin (3 / 2), Fin 2, Fin (5 / 2), Fin 3, Fin (7 / 2)]"
    by (simp add: upt_rec eqs)
  ultimately show ?thesis using tr(1) u v n(5) by metis
qed

text \<open>
  C40: The sample count for a duration and a frequency: a \<open>std::invalid_argument\<close> unless both are positive,
  else the product rounded up plus one, which fits where it is below \<open>2^64\<close>; the step \<open>dt\<close> then
  divides the duration evenly and is at most the period. Above that the cast has no defined result,
  though the product is finite and passed the check.
\<close>

theorem quantized_samples_exact:
  "if d \<le> 0 \<or> f \<le> 0
   then calculate_quantized_samples (Fin d) (Fin f) = Inl (Invalid_argument ''duration and frequency must both be positive'') \<and>
     calculate_quantized_dt (Fin d) (Fin f) = Inl (Invalid_argument ''duration and frequency must both be positive'')
   else if \<lceil>d * f\<rceil> + 1 < 2 ^ 64
   then \<exists>n dt. calculate_quantized_samples (Fin d) (Fin f) = Inr n \<and> int (unat n) = \<lceil>d * f\<rceil> + 1 \<and> 2 \<le> unat n \<and>
     calculate_quantized_dt (Fin d) (Fin f) = Inr (Fin dt) \<and> real (unat n - 1) * dt = d \<and> dt \<le> 1 / f
   else calculate_quantized_samples (Fin d) (Fin f) = Inl (Undefined_behaviour ''double out of the range of size_t'')"
proof -
  have "\<exists>n dt. calculate_quantized_samples (Fin d) (Fin f) = Inr n \<and> int (unat n) = \<lceil>d * f\<rceil> + 1 \<and> 2 \<le> unat n \<and>
     calculate_quantized_dt (Fin d) (Fin f) = Inr (Fin dt) \<and> real (unat n - 1) * dt = d \<and> dt \<le> 1 / f"
    if pos: "\<not> (d \<le> 0 \<or> f \<le> 0)" and fits: "\<lceil>d * f\<rceil> + 1 < 2 ^ 64"
  proof -
    obtain n where n: "calculate_quantized_samples (Fin d) (Fin f) = Inr n"
      using pos fits by (simp add: quantized_samples_cases)
    note k = quantized_samples_Inr [OF n]
    have "unat (n - 1) = unat n - 1" using k(4) by (intro size_pred [of 0]) (simp add: word_less_nat_alt)
    then have "calculate_quantized_dt (Fin d) (Fin f) = Inr (Fin (d / real (unat n - 1)))"
      using k(4) by (simp add: calculate_quantized_dt_def n double_of_size_def del: of_nat_unat)
    moreover have "d * f \<le> real (unat n - 1)" using k(3,4) by linarith
    with k(2,4) have "d / real (unat n - 1) \<le> 1 / f" by (simp add: field_simps del: of_nat_unat)
    moreover have "real (unat n - 1) * (d / real (unat n - 1)) = d" using k(4) by (simp del: of_nat_unat)
    ultimately show ?thesis using n k(3,4) by blast
  qed
  then show ?thesis by (auto simp: quantized_samples_cases calculate_quantized_dt_def)
qed

end
