(* ===== verification/Waypoint_Store.thy ===== *)
theory Waypoint_Store
  imports Waypoints
begin

text \<open>
  The storage of a streaming session (\<open>totg/streaming/private/waypoint_store.hpp\<close>): rows copied into chunks
  that never move, and an accumulator of views into them. The model keeps the memory of the chunks cell
  by cell and the views as references, so that it shows what a view reads after later writes.
\<close>

section \<open>Memory\<close>

text \<open>A chunk is a row-major array, uninitialised when it is allocated; a view refers to cells of a chunk.\<close>

record chunk =
  ch_width :: nat
  ch_cells :: "real option list"

record row_view =
  rv_chunk :: nat
  rv_start :: nat
  rv_length :: nat

record view_accumulator =
  va_dof :: nat
  va_views :: "row_view list"

record waypoint_store =
  ws_chunks :: "chunk list"
  ws_size :: nat
  ws_dof :: nat
  ws_accumulator :: "view_accumulator option"

definition k_chunk_rows :: nat where
  "k_chunk_rows = 1024"

definition empty_store :: waypoint_store where
  "empty_store = \<lparr>ws_chunks = [], ws_size = 0, ws_dof = 0, ws_accumulator = None\<rparr>"

fun write_cells :: "real option list \<Rightarrow> nat \<Rightarrow> real list \<Rightarrow> real option list res" where
  "write_cells cells i [] = Inr cells"
| "write_cells cells i (x # xs) =
     (if i < length cells then write_cells (cells[i := Some x]) (Suc i) xs
      else Inl (Undefined_behaviour ''write past the end of a chunk''))"

definition read_cells :: "real option list \<Rightarrow> nat \<Rightarrow> nat \<Rightarrow> xvector res" where
  "read_cells cells i n =
     (let block = take n (drop i cells)
      in if length block = n \<and> None \<notin> set block then Inr (map the block)
         else Inl (Undefined_behaviour ''read of a cell that was not written''))"

section \<open>Operations\<close>

definition allocate_chunk :: "waypoint_store \<Rightarrow> waypoint_store" where
  "allocate_chunk s = s\<lparr>ws_chunks := ws_chunks s @
     [\<lparr>ch_width = ws_dof s, ch_cells = replicate (k_chunk_rows * ws_dof s) None\<rparr>]\<rparr>"

function chunk_for_write :: "nat \<Rightarrow> waypoint_store \<Rightarrow> waypoint_store" where
  "chunk_for_write index s =
     (if length (ws_chunks s) \<le> index then chunk_for_write index (allocate_chunk s) else s)"
  by pat_completeness auto

termination
  by (relation "measure (\<lambda>(index, s). Suc index - length (ws_chunks s))") (auto simp: allocate_chunk_def)

declare chunk_for_write.simps [simp del]

text \<open>The views of the accumulator are as wide as the store; the first one fixes its number of joints.\<close>

definition extend_accumulator :: "waypoint_store \<Rightarrow> nat \<Rightarrow> nat \<Rightarrow> waypoint_store res" where
  "extend_accumulator s index offset =
     (let row = \<lparr>rv_chunk = index, rv_start = offset * ch_width (ws_chunks s ! index), rv_length = ws_dof s\<rparr>
      in case ws_accumulator s of
           Some a \<Rightarrow>
             if rv_length row \<noteq> va_dof a then Inl (Invalid_argument ''Waypoint DOF must match existing DOF'')
             else Inr (s\<lparr>ws_accumulator := Some (a\<lparr>va_views := va_views a @ [row]\<rparr>)\<rparr>)
         | None \<Rightarrow> Inr (s\<lparr>ws_accumulator := Some \<lparr>va_dof = rv_length row, va_views = [row]\<rparr>\<rparr>))"

definition write_row :: "waypoint_store \<Rightarrow> nat \<Rightarrow> nat \<Rightarrow> xvector \<Rightarrow> waypoint_store res" where
  "write_row s index offset row =
     (let c = ws_chunks s ! index
      in bind_res (write_cells (ch_cells c) (offset * ch_width c) row) (\<lambda>cells.
           Inr (s\<lparr>ws_chunks := (ws_chunks s)[index := c\<lparr>ch_cells := cells\<rparr>]\<rparr>)))"

text \<open>The loop of \<open>append\<close>, from where the next row goes.\<close>

fun append_rows :: "waypoint_store \<Rightarrow> nat \<Rightarrow> nat \<Rightarrow> xvector list \<Rightarrow> waypoint_store res" where
  "append_rows s index offset [] = Inr s"
| "append_rows s index offset (row # rows) =
     (let (s1, index1, offset1) =
        (if offset = k_chunk_rows then (chunk_for_write (Suc index) s, Suc index, 0) else (s, index, offset))
      in bind_res (write_row s1 index1 offset1 (take (ws_dof s1) row)) (\<lambda>s2.
         bind_res (extend_accumulator s2 index1 offset1) (\<lambda>s3.
           append_rows (s3\<lparr>ws_size := Suc (ws_size s3)\<rparr>) index1 (Suc offset1) rows)))"

definition store_append :: "waypoint_store \<Rightarrow> waypoint_accumulator \<Rightarrow> nat \<Rightarrow> waypoint_store res" where
  "store_append s batch start =
     (if wa_size batch < start then Inl (Out_of_range ''waypoint_store::append: `from` exceeds batch size'')
      else if start = wa_size batch then Inr s
      else if ws_dof s \<noteq> 0 \<and> wa_dof batch \<noteq> ws_dof s
      then Inl (Invalid_argument ''waypoint_store::append: DOF mismatch'')
      else
        let s1 = s\<lparr>ws_dof := wa_dof batch\<rparr>;
            index = ws_size s1 div k_chunk_rows
        in append_rows (chunk_for_write index s1) index (ws_size s1 mod k_chunk_rows) (drop start (wa_points batch)))"

text \<open>\<open>pop_back\<close> once for every row dropped; the emptied chunks stay, unless the store is empty.\<close>

fun pop_rows :: "nat \<Rightarrow> waypoint_store \<Rightarrow> waypoint_store res" where
  "pop_rows 0 s = Inr s"
| "pop_rows (Suc n) s =
     (case ws_accumulator s of
        None \<Rightarrow> Inl (Undefined_behaviour ''dereference of an empty optional'')
      | Some a \<Rightarrow>
          if va_views a = [] then Inl (Undefined_behaviour ''pop_back of an empty vector'')
          else pop_rows n (s\<lparr>ws_accumulator := Some (a\<lparr>va_views := butlast (va_views a)\<rparr>), ws_size := ws_size s - 1\<rparr>))"

definition store_truncate :: "waypoint_store \<Rightarrow> nat \<Rightarrow> waypoint_store res" where
  "store_truncate s count =
     (if ws_size s < count then Inl (Out_of_range ''waypoint_store::truncate: `count` exceeds stored size'')
      else
        bind_res (pop_rows (ws_size s - count) s) (\<lambda>s1.
          if ws_size s1 = 0 then Inr (s1\<lparr>ws_accumulator := None, ws_chunks := [], ws_dof := 0\<rparr>) else Inr s1))"

definition read_view :: "waypoint_store \<Rightarrow> row_view \<Rightarrow> xvector res" where
  "read_view s v =
     (if rv_chunk v < length (ws_chunks s)
      then read_cells (ch_cells (ws_chunks s ! rv_chunk v)) (rv_start v) (rv_length v)
      else Inl (Undefined_behaviour ''view of a released chunk''))"

primrec read_views :: "waypoint_store \<Rightarrow> row_view list \<Rightarrow> xvector list res" where
  "read_views s [] = Inr []"
| "read_views s (v # vs) =
     bind_res (read_view s v) (\<lambda>row. bind_res (read_views s vs) (\<lambda>rows. Inr (row # rows)))"

text \<open>What a reader of the accumulator sees at this moment.\<close>

definition store_waypoints :: "waypoint_store \<Rightarrow> waypoint_accumulator res" where
  "store_waypoints s =
     (case ws_accumulator s of
        None \<Rightarrow> Inl (Out_of_range ''waypoint_store::waypoints: store is empty'')
      | Some a \<Rightarrow> bind_res (read_views s (va_views a)) (\<lambda>rows. Inr \<lparr>wa_dof = va_dof a, wa_points = rows\<rparr>))"

definition store_last :: "waypoint_store \<Rightarrow> xvector res" where
  "store_last s =
     (if ws_size s = 0 then Inl (Out_of_range ''waypoint_store::last: store is empty'')
      else
        let index = ws_size s - 1
        in if index div k_chunk_rows < length (ws_chunks s)
           then (let c = ws_chunks s ! (index div k_chunk_rows)
                 in read_cells (ch_cells c) (index mod k_chunk_rows * ch_width c) (ch_width c))
           else Inl (Undefined_behaviour ''index past the end of the chunks''))"

definition store_reset_to_last :: "waypoint_store \<Rightarrow> waypoint_store res" where
  "store_reset_to_last s =
     (if ws_size s \<le> 1 then Inr s
      else
        bind_res (store_last s) (\<lambda>surviving.
          if ws_chunks s = [] then Inl (Undefined_behaviour ''front of an empty vector'')
          else
            bind_res (write_row (s\<lparr>ws_accumulator := None, ws_size := 0\<rparr>) 0 0 surviving) (\<lambda>s1.
              extend_accumulator (s1\<lparr>ws_size := 1\<rparr>) 0 0)))"

section \<open>The invariant\<close>

text \<open>
  The stored rows: row \<open>i\<close> lies in chunk \<open>i div 1024\<close>. The accumulator has one view for each, and all of
  their cells are written.
\<close>

definition row_cells :: "waypoint_store \<Rightarrow> nat \<Rightarrow> real option list" where
  "row_cells s i = take (ws_dof s) (drop (i mod k_chunk_rows * ws_dof s) (ch_cells (ws_chunks s ! (i div k_chunk_rows))))"

lemma row_cells_fields [simp]:
  "row_cells (s\<lparr>ws_accumulator := a\<rparr>) i = row_cells s i" "row_cells (s\<lparr>ws_size := n\<rparr>) i = row_cells s i"
  by (simp_all add: row_cells_def)

definition store_rows :: "waypoint_store \<Rightarrow> xvector list" where
  "store_rows s = map (\<lambda>i. map the (row_cells s i)) [0..<ws_size s]"

definition view_of :: "waypoint_store \<Rightarrow> nat \<Rightarrow> row_view" where
  "view_of s i = \<lparr>rv_chunk = i div k_chunk_rows, rv_start = i mod k_chunk_rows * ws_dof s, rv_length = ws_dof s\<rparr>"

definition chunks_inv :: "waypoint_store \<Rightarrow> bool" where
  "chunks_inv s \<longleftrightarrow>
     (\<forall>c \<in> set (ws_chunks s). ch_width c = ws_dof s \<and> length (ch_cells c) = k_chunk_rows * ws_dof s) \<and>
     ws_size s \<le> k_chunk_rows * length (ws_chunks s) \<and> (\<forall>i < ws_size s. None \<notin> set (row_cells s i))"

definition views_inv :: "waypoint_store \<Rightarrow> bool" where
  "views_inv s \<longleftrightarrow>
     (if ws_size s = 0 then ws_accumulator s = None
      else ws_accumulator s = Some \<lparr>va_dof = ws_dof s, va_views = map (view_of s) [0..<ws_size s]\<rparr>)"

definition store_inv :: "waypoint_store \<Rightarrow> bool" where
  "store_inv s \<longleftrightarrow> chunks_inv s \<and> views_inv s \<and>
     (if ws_size s = 0 then ws_chunks s = [] \<and> ws_dof s = 0 else 0 < ws_dof s)"

lemma write_cells_eq:
  "i + length xs \<le> length cells \<Longrightarrow>
    write_cells cells i xs = Inr (take i cells @ map Some xs @ drop (i + length xs) cells)"
proof (induction xs arbitrary: cells i)
  case (Cons x xs)
  then have "write_cells (cells[i := Some x]) (Suc i) xs =
      Inr (take (Suc i) (cells[i := Some x]) @ map Some xs @ drop (Suc i + length xs) (cells[i := Some x]))"
    by simp
  with Cons.prems show ?case by (simp add: take_Suc_conv_app_nth)
qed simp

lemma read_cells_eq:
  "i + n \<le> length cells \<Longrightarrow> None \<notin> set (take n (drop i cells)) \<Longrightarrow>
    read_cells cells i n = Inr (map the (take n (drop i cells)))"
  by (simp add: read_cells_def)

lemma blocks_apart:
  fixes i j d :: nat
  assumes "i < j"
  shows "i * d + d \<le> j * d"
proof -
  have "Suc i * d \<le> j * d" using assms by (intro mult_le_mono1) simp
  then show ?thesis by simp
qed

lemma row_index: "i < k_chunk_rows * n \<Longrightarrow> i div k_chunk_rows < n" "i mod k_chunk_rows < k_chunk_rows"
  by (simp_all add: k_chunk_rows_def less_mult_imp_div_less mult.commute)

lemma row_in_chunk:
  assumes "chunks_inv s" "i < k_chunk_rows * length (ws_chunks s)"
  shows "i div k_chunk_rows < length (ws_chunks s)" "ch_width (ws_chunks s ! (i div k_chunk_rows)) = ws_dof s"
    "i mod k_chunk_rows * ws_dof s + ws_dof s \<le> length (ch_cells (ws_chunks s ! (i div k_chunk_rows)))"
    "length (row_cells s i) = ws_dof s"
proof -
  show c: "i div k_chunk_rows < length (ws_chunks s)" by (rule row_index(1) [OF assms(2)])
  then have "ws_chunks s ! (i div k_chunk_rows) \<in> set (ws_chunks s)" by simp
  with assms(1) have w: "ch_width (ws_chunks s ! (i div k_chunk_rows)) = ws_dof s"
    "length (ch_cells (ws_chunks s ! (i div k_chunk_rows))) = k_chunk_rows * ws_dof s"
    by (auto simp: chunks_inv_def)
  then show "ch_width (ws_chunks s ! (i div k_chunk_rows)) = ws_dof s" by simp
  show le: "i mod k_chunk_rows * ws_dof s + ws_dof s \<le> length (ch_cells (ws_chunks s ! (i div k_chunk_rows)))"
    unfolding w(2) by (rule blocks_apart [OF row_index(2)])
  then show "length (row_cells s i) = ws_dof s" by (simp add: row_cells_def)
qed

lemma read_row:
  assumes "chunks_inv s" "i < ws_size s"
  shows "read_view s (view_of s i) = Inr (map the (row_cells s i))"
proof -
  have "i < k_chunk_rows * length (ws_chunks s)" "None \<notin> set (row_cells s i)" using assms by (auto simp: chunks_inv_def)
  with row_in_chunk [OF assms(1)] show ?thesis by (simp add: read_view_def view_of_def row_cells_def read_cells_eq)
qed

lemma read_rows:
  assumes "chunks_inv s" "set is \<subseteq> {..<ws_size s}"
  shows "read_views s (map (view_of s) is) = Inr (map (\<lambda>i. map the (row_cells s i)) is)"
  using assms(2) by (induction "is") (auto simp: read_row [OF assms(1)])

section \<open>Appending\<close>

text \<open>A store about to take a row: the row goes to \<open>offset\<close> in chunk \<open>index\<close>.\<close>

definition filling :: "waypoint_store \<Rightarrow> nat \<Rightarrow> nat \<Rightarrow> bool" where
  "filling s index offset \<longleftrightarrow> chunks_inv s \<and> views_inv s \<and> 0 < ws_dof s \<and> index < length (ws_chunks s) \<and>
     offset \<le> k_chunk_rows \<and> ws_size s = index * k_chunk_rows + offset"

lemma allocate_chunk_inv:
  assumes "chunks_inv s"
  shows "chunks_inv (allocate_chunk s)" "i < ws_size s \<Longrightarrow> row_cells (allocate_chunk s) i = row_cells s i"
proof -
  have same: "row_cells (allocate_chunk s) i = row_cells s i" if "i < ws_size s" for i
    using row_in_chunk(1) [OF assms, of i] assms that
    by (simp add: row_cells_def allocate_chunk_def chunks_inv_def nth_append)
  then show "i < ws_size s \<Longrightarrow> row_cells (allocate_chunk s) i = row_cells s i" .
  have fields: "ws_size (allocate_chunk s) = ws_size s" "ws_dof (allocate_chunk s) = ws_dof s"
    "ws_chunks (allocate_chunk s) = ws_chunks s @ [\<lparr>ch_width = ws_dof s, ch_cells = replicate (k_chunk_rows * ws_dof s) None\<rparr>]"
    by (simp_all add: allocate_chunk_def)
  show "chunks_inv (allocate_chunk s)"
    using assms same by (auto simp: chunks_inv_def fields)
qed

lemma chunk_for_write_eq:
  "index \<le> length (ws_chunks s) \<Longrightarrow>
    chunk_for_write index s = (if index = length (ws_chunks s) then allocate_chunk s else s)"
  by (subst chunk_for_write.simps, subst chunk_for_write.simps) (simp add: allocate_chunk_def)

lemma store_rows_cong:
  assumes "ws_size s' = ws_size s" "\<And>i. i < ws_size s \<Longrightarrow> row_cells s' i = row_cells s i"
  shows "store_rows s' = store_rows s"
  using assms by (simp add: store_rows_def)

lemma views_inv_cong:
  assumes "ws_size s' = ws_size s" "ws_dof s' = ws_dof s" "ws_accumulator s' = ws_accumulator s" "views_inv s"
  shows "views_inv s'"
  using assms by (simp add: views_inv_def view_of_def split: if_splits)

lemma chunk_for_write_inv:
  assumes "chunks_inv s" "views_inv s" "index \<le> length (ws_chunks s)"
  shows "chunks_inv (chunk_for_write index s) \<and> views_inv (chunk_for_write index s) \<and>
    store_rows (chunk_for_write index s) = store_rows s \<and> index < length (ws_chunks (chunk_for_write index s)) \<and>
    ws_size (chunk_for_write index s) = ws_size s \<and> ws_dof (chunk_for_write index s) = ws_dof s"
proof -
  have "views_inv (allocate_chunk s)" by (rule views_inv_cong [OF _ _ _ assms(2)]) (simp_all add: allocate_chunk_def)
  moreover have "store_rows (allocate_chunk s) = store_rows s"
    by (rule store_rows_cong) (simp_all add: allocate_chunk_inv(2) [OF assms(1)], simp add: allocate_chunk_def)
  ultimately show ?thesis
    using assms allocate_chunk_inv(1) [OF assms(1)] by (auto simp: chunk_for_write_eq) (auto simp: allocate_chunk_def)
qed

text \<open>Writing a row touches the cells of no earlier row.\<close>

lemma write_row_spec:
  assumes "filling s index offset" "offset < k_chunk_rows" "length row = ws_dof s"
  obtains s' where "write_row s index offset row = Inr s'" "ws_size s' = ws_size s" "ws_dof s' = ws_dof s"
    "ws_accumulator s' = ws_accumulator s" "length (ws_chunks s') = length (ws_chunks s)"
    "\<forall>c \<in> set (ws_chunks s'). ch_width c = ws_dof s \<and> length (ch_cells c) = k_chunk_rows * ws_dof s"
    "row_cells s' (ws_size s) = map Some row" "\<And>i. i < ws_size s \<Longrightarrow> row_cells s' i = row_cells s i"
proof -
  let ?c = "ws_chunks s ! index" and ?o = "offset * ws_dof s"
  have inv: "chunks_inv s" and ix: "index < length (ws_chunks s)" and sz: "ws_size s = index * k_chunk_rows + offset"
    using assms(1) by (auto simp: filling_def)
  have c: "ch_width ?c = ws_dof s" "length (ch_cells ?c) = k_chunk_rows * ws_dof s"
    using inv ix by (auto simp: chunks_inv_def)
  define cells where "cells = take ?o (ch_cells ?c) @ map Some row @ drop (?o + ws_dof s) (ch_cells ?c)"
  define s' where "s' = s\<lparr>ws_chunks := (ws_chunks s)[index := ?c\<lparr>ch_cells := cells\<rparr>]\<rparr>"
  have fits: "?o + ws_dof s \<le> length (ch_cells ?c)" unfolding c(2) by (rule blocks_apart [OF assms(2)])
  then have "write_cells (ch_cells ?c) ?o row = Inr cells"
    using write_cells_eq [of ?o row "ch_cells ?c"] assms(3) by (simp add: cells_def)
  then have w: "write_row s index offset row = Inr s'" by (simp add: write_row_def c(1) s'_def)
  have cells: "length cells = k_chunk_rows * ws_dof s" using fits c(2) assms(3) by (simp add: cells_def)
  have here: "ws_size s div k_chunk_rows = index" "ws_size s mod k_chunk_rows = offset"
    using sz assms(2) by (simp_all add: k_chunk_rows_def)
  have new: "row_cells s' (ws_size s) = map Some row"
    using fits ix assms(3) by (simp add: row_cells_def here s'_def cells_def)
  have old: "row_cells s' i = row_cells s i" if i: "i < ws_size s" for i
  proof (cases "i div k_chunk_rows = index")
    case True
    then have "i = index * k_chunk_rows + i mod k_chunk_rows" by (metis div_mult_mod_eq)
    with i sz have "i mod k_chunk_rows < offset" by linarith
    then have "i mod k_chunk_rows * ws_dof s + ws_dof s \<le> ?o" by (rule blocks_apart)
    then show ?thesis using fits ix by (simp add: row_cells_def True s'_def cells_def drop_take)
  qed (simp add: row_cells_def s'_def)
  have "\<forall>c \<in> set (ws_chunks s'). ch_width c = ws_dof s \<and> length (ch_cells c) = k_chunk_rows * ws_dof s"
    using inv c cells set_update_subset_insert [of "ws_chunks s" index] by (fastforce simp: s'_def chunks_inv_def)
  with w new old that [of s'] show thesis by (simp add: s'_def)
qed

lemma fill_row:
  assumes "filling s index offset" "offset < k_chunk_rows" "length row = ws_dof s"
  obtains s1 s2 where "write_row s index offset row = Inr s1" "extend_accumulator s1 index offset = Inr s2"
    "filling (s2\<lparr>ws_size := Suc (ws_size s2)\<rparr>) index (Suc offset)"
    "store_rows (s2\<lparr>ws_size := Suc (ws_size s2)\<rparr>) = store_rows s @ [row]" "ws_dof s2 = ws_dof s" "ws_size s2 = ws_size s"
proof -
  obtain s1 where s1: "write_row s index offset row = Inr s1" "ws_size s1 = ws_size s" "ws_dof s1 = ws_dof s"
    "ws_accumulator s1 = ws_accumulator s" "length (ws_chunks s1) = length (ws_chunks s)"
    "\<forall>c \<in> set (ws_chunks s1). ch_width c = ws_dof s \<and> length (ch_cells c) = k_chunk_rows * ws_dof s"
    "row_cells s1 (ws_size s) = map Some row" "\<And>i. i < ws_size s \<Longrightarrow> row_cells s1 i = row_cells s i"
    by (rule write_row_spec [OF assms]) blast
  have f: "chunks_inv s" "views_inv s" "0 < ws_dof s" "index < length (ws_chunks s)"
    "ws_size s = index * k_chunk_rows + offset"
    using assms(1) by (auto simp: filling_def)
  have width: "ch_width (ws_chunks s1 ! index) = ws_dof s" using s1(5,6) f(4) by simp
  have here: "ws_size s div k_chunk_rows = index" "ws_size s mod k_chunk_rows = offset"
    using f(5) assms(2) by (simp_all add: k_chunk_rows_def)
  define s2 where "s2 = s1\<lparr>ws_accumulator := Some \<lparr>va_dof = ws_dof s, va_views = map (view_of s) [0..<Suc (ws_size s)]\<rparr>\<rparr>"
  have "extend_accumulator s1 index offset = Inr s2"
    using f(2) here by (cases "ws_size s = 0")
      (auto simp: extend_accumulator_def Let_def s1(3,4) width views_inv_def s2_def view_of_def)
  moreover have "filling (s2\<lparr>ws_size := Suc (ws_size s2)\<rparr>) index (Suc offset)"
  proof -
    have "chunks_inv (s2\<lparr>ws_size := Suc (ws_size s2)\<rparr>)"
      unfolding chunks_inv_def
    proof (intro conjI allI impI)
      show "None \<notin> set (row_cells (s2\<lparr>ws_size := Suc (ws_size s2)\<rparr>) i)" if "i < ws_size (s2\<lparr>ws_size := Suc (ws_size s2)\<rparr>)" for i
        using that f(1) s1(2,7,8) by (cases "i = ws_size s") (auto simp: s2_def chunks_inv_def)
      have "Suc (ws_size s) \<le> Suc index * k_chunk_rows" using f(5) assms(2) by simp
      also have "\<dots> \<le> k_chunk_rows * length (ws_chunks s)" using f(4) by (metis Suc_leI mult.commute mult_le_mono2)
      finally show "ws_size (s2\<lparr>ws_size := Suc (ws_size s2)\<rparr>) \<le> k_chunk_rows * length (ws_chunks (s2\<lparr>ws_size := Suc (ws_size s2)\<rparr>))"
        using s1(2,5) by (simp add: s2_def)
    qed (use s1(3,6) in \<open>simp add: s2_def\<close>)
    moreover have "views_inv (s2\<lparr>ws_size := Suc (ws_size s2)\<rparr>)"
      by (simp add: views_inv_def s2_def view_of_def s1(2,3))
    ultimately show ?thesis using f(3,4,5) s1(2,3,5) assms(2) by (simp add: filling_def s2_def)
  qed
  moreover have "store_rows (s2\<lparr>ws_size := Suc (ws_size s2)\<rparr>) = store_rows s @ [row]"
    using s1(2,7,8) by (simp add: store_rows_def s2_def)
  ultimately show thesis using that s1 by (simp add: s2_def)
qed

lemma append_rows_spec:
  assumes "filling s index offset" "\<forall>row \<in> set rows. length row = ws_dof s"
  shows "\<exists>s'. append_rows s index offset rows = Inr s' \<and> chunks_inv s' \<and> views_inv s' \<and> ws_dof s' = ws_dof s \<and>
    ws_size s' = ws_size s + length rows \<and> store_rows s' = store_rows s @ rows"
  using assms
proof (induction rows arbitrary: s index offset)
  case (Cons row rows)
  obtain s1 index1 offset1 where next_place:
    "(if offset = k_chunk_rows then (chunk_for_write (Suc index) s, Suc index, 0) else (s, index, offset)) = (s1, index1, offset1)"
    and s1: "filling s1 index1 offset1" "offset1 < k_chunk_rows" "store_rows s1 = store_rows s" "ws_dof s1 = ws_dof s" "ws_size s1 = ws_size s"
  proof (cases "offset = k_chunk_rows")
    case True
    have f: "chunks_inv s" "views_inv s" "Suc index \<le> length (ws_chunks s)" using Cons.prems(1) by (auto simp: filling_def)
    from chunk_for_write_inv [OF f] Cons.prems(1) True that [of "chunk_for_write (Suc index) s" "Suc index" 0] show thesis
      by (simp add: filling_def k_chunk_rows_def)
  next
    case False
    with Cons.prems(1) that [of s index offset] show thesis by (simp add: filling_def)
  qed
  have "length row = ws_dof s1" using Cons.prems(2) s1(4) by simp
  from fill_row [OF s1(1,2) this] obtain s2 s3 where s3: "write_row s1 index1 offset1 row = Inr s2" "extend_accumulator s2 index1 offset1 = Inr s3"
    "filling (s3\<lparr>ws_size := Suc (ws_size s3)\<rparr>) index1 (Suc offset1)"
    "store_rows (s3\<lparr>ws_size := Suc (ws_size s3)\<rparr>) = store_rows s1 @ [row]" "ws_dof s3 = ws_dof s1" "ws_size s3 = ws_size s1"
    by blast
  have "append_rows s index offset (row # rows) =
      append_rows (s3\<lparr>ws_size := Suc (ws_size s3)\<rparr>) index1 (Suc offset1) rows"
    using s3(1,2) \<open>length row = ws_dof s1\<close> by (simp add: next_place del: if_split)
  with Cons.IH [OF s3(3)] Cons.prems(2) s1 s3(4-6) show ?case by auto
qed (simp add: filling_def)

lemma store_rows_empty: "store_rows s = [] \<longleftrightarrow> ws_size s = 0"
  by (simp add: store_rows_def)

lemma length_store_rows [simp]: "length (store_rows s) = ws_size s"
  by (simp add: store_rows_def)

lemma store_row_length:
  assumes "store_inv s" "r \<in> set (store_rows s)"
  shows "length r = ws_dof s"
proof -
  obtain i where i: "i < ws_size s" "r = map the (row_cells s i)" using assms(2) by (auto simp: store_rows_def)
  have "chunks_inv s" using assms(1) by (simp add: store_inv_def)
  moreover from this i(1) have "i < k_chunk_rows * length (ws_chunks s)" by (simp add: chunks_inv_def)
  ultimately show ?thesis using row_in_chunk(4) i(2) by simp
qed

lemma store_append_spec:
  assumes "store_inv s" "wa_inv b" "0 < wa_dof b" "start < wa_size b" "ws_size s = 0 \<or> wa_dof b = ws_dof s"
  shows "\<exists>s'. store_append s b start = Inr s' \<and> store_inv s' \<and> store_rows s' = store_rows s @ drop start (wa_points b) \<and>
    ws_dof s' = wa_dof b"
proof -
  define s1 where "s1 = s\<lparr>ws_dof := wa_dof b\<rparr>"
  have new: "ws_size s = 0 \<Longrightarrow> ws_chunks s = [] \<and> ws_dof s = 0" using assms(1) by (simp add: store_inv_def split: if_splits)
  then have ok: "ws_dof s = 0 \<or> wa_dof b = ws_dof s" using assms(5) by auto
  have inv1: "chunks_inv s1" "views_inv s1" "store_rows s1 = store_rows s"
    using assms(1,5) new
    by (auto simp: store_inv_def chunks_inv_def views_inv_def s1_def store_rows_def row_cells_def view_of_def split: if_splits)
  let ?i = "ws_size s1 div k_chunk_rows"
  have "?i \<le> length (ws_chunks s1)" using inv1(1) by (simp add: chunks_inv_def k_chunk_rows_def div_le_mono [of _ "1024 * length (ws_chunks s1)" 1024, simplified])
  note f = chunk_for_write_inv [OF inv1(1,2) this]
  then have fill: "filling (chunk_for_write ?i s1) ?i (ws_size s1 mod k_chunk_rows)"
    using assms(3) by (simp add: filling_def s1_def k_chunk_rows_def less_imp_le)
  have "\<forall>row \<in> set (drop start (wa_points b)). length row = ws_dof (chunk_for_write ?i s1)"
    using assms(2) f by (auto simp: wa_inv_def s1_def dest: in_set_dropD)
  from append_rows_spec [OF fill this] obtain s' where s': "append_rows (chunk_for_write ?i s1) ?i (ws_size s1 mod k_chunk_rows)
      (drop start (wa_points b)) = Inr s'" "chunks_inv s'" "views_inv s'" "ws_dof s' = wa_dof b"
    "ws_size s' = ws_size s1 + (wa_size b - start)" "store_rows s' = store_rows s @ drop start (wa_points b)"
    using f inv1(3) by (auto simp: s1_def wa_size_def)
  have "store_append s b start = Inr s'"
    using s'(1) ok assms(4) by (auto simp: store_append_def Let_def s1_def)
  moreover have "store_inv s'" using s' assms(3,4) by (simp add: store_inv_def)
  ultimately show ?thesis using s'(4,6) by blast
qed

section \<open>Shrinking\<close>

lemma pop_rows_eq:
  assumes "ws_accumulator s = Some \<lparr>va_dof = d, va_views = vs\<rparr>" "n \<le> length vs" "length vs = ws_size s"
  shows "pop_rows n s = Inr (s\<lparr>ws_accumulator := Some \<lparr>va_dof = d, va_views = take (ws_size s - n) vs\<rparr>, ws_size := ws_size s - n\<rparr>)"
  using assms
proof (induction n arbitrary: s vs)
  case (Suc n)
  then have "vs \<noteq> []" "n \<le> length (butlast vs)" "length (butlast vs) = ws_size s - 1" by auto
  moreover have "take (ws_size s - Suc n) vs = take (ws_size s - Suc n) (butlast vs)"
    using Suc.prems by (simp add: butlast_conv_take min_def)
  ultimately show ?case
    using Suc.prems Suc.IH [of "s\<lparr>ws_accumulator := Some \<lparr>va_dof = d, va_views = butlast vs\<rparr>, ws_size := ws_size s - 1\<rparr>" "butlast vs"]
    by simp
qed simp

lemma store_truncate_spec:
  assumes "store_inv s" "count \<le> ws_size s"
  shows "\<exists>s'. store_truncate s count = Inr s' \<and> store_inv s' \<and> store_rows s' = take count (store_rows s)"
proof (cases "ws_size s = 0")
  case True
  with assms have "s = s\<lparr>ws_accumulator := None, ws_chunks := [], ws_dof := 0\<rparr>"
    by (simp add: store_inv_def views_inv_def)
  with True assms show ?thesis by (simp add: store_truncate_def store_rows_def)
next
  case False
  let ?vs = "map (view_of s) [0..<ws_size s]"
  have acc: "ws_accumulator s = Some \<lparr>va_dof = ws_dof s, va_views = ?vs\<rparr>"
    using assms(1) False by (simp add: store_inv_def views_inv_def)
  define s1 where "s1 = s\<lparr>ws_accumulator := Some \<lparr>va_dof = ws_dof s, va_views = take count ?vs\<rparr>, ws_size := count\<rparr>"
  have pop: "pop_rows (ws_size s - count) s = Inr s1"
    using pop_rows_eq [OF acc, of "ws_size s - count"] assms(2) by (simp add: s1_def)
  show ?thesis
  proof (cases "count = 0")
    case True
    with pop show ?thesis
      by (simp add: store_truncate_def s1_def store_inv_def chunks_inv_def views_inv_def store_rows_def)
  next
    case c: False
    have "row_cells s1 = row_cells s" "view_of s1 = view_of s" by (auto simp: row_cells_def view_of_def s1_def)
    then have "store_inv s1" "store_rows s1 = take count (store_rows s)"
      using assms False c
      by (auto simp: store_inv_def chunks_inv_def views_inv_def store_rows_def take_map) (simp_all add: s1_def take_map)
    with pop c assms(2) show ?thesis by (simp add: store_truncate_def s1_def)
  qed
qed

section \<open>Reading\<close>

lemma store_waypoints_spec:
  assumes "store_inv s"
  shows "store_waypoints s =
    (if store_rows s = [] then Inl (Out_of_range ''waypoint_store::waypoints: store is empty'')
     else Inr \<lparr>wa_dof = ws_dof s, wa_points = store_rows s\<rparr>)"
proof (cases "ws_size s = 0")
  case False
  have "read_views s (map (view_of s) [0..<ws_size s]) = Inr (store_rows s)"
    unfolding store_rows_def by (rule read_rows) (use assms in \<open>auto simp: store_inv_def\<close>)
  with False assms show ?thesis by (simp add: store_inv_def views_inv_def store_waypoints_def store_rows_empty)
qed (use assms in \<open>simp add: store_inv_def views_inv_def store_waypoints_def store_rows_empty\<close>)

lemma store_last_spec:
  assumes "store_inv s"
  shows "store_last s =
    (if store_rows s = [] then Inl (Out_of_range ''waypoint_store::last: store is empty'') else Inr (last (store_rows s)))"
proof (cases "ws_size s = 0")
  case False
  define i where "i = ws_size s - 1"
  have c: "chunks_inv s" using assms by (simp add: store_inv_def)
  have i: "i < ws_size s" using False by (simp add: i_def)
  with c have "i < k_chunk_rows * length (ws_chunks s)" by (simp add: chunks_inv_def)
  note r = row_in_chunk [OF c this]
  have "read_cells (ch_cells (ws_chunks s ! (i div k_chunk_rows))) (i mod k_chunk_rows * ws_dof s) (ws_dof s) =
      Inr (map the (row_cells s i))"
    using c i r(3) unfolding row_cells_def by (intro read_cells_eq) (auto simp: chunks_inv_def row_cells_def)
  moreover have "last (store_rows s) = map the (row_cells s i)"
    using False by (simp add: store_rows_def last_map i_def last_conv_nth)
  ultimately show ?thesis using False r(1,2) by (simp add: store_last_def Let_def store_rows_empty flip: One_nat_def i_def)
qed (simp add: store_last_def store_rows_empty)

lemma store_reset_spec:
  assumes "store_inv s"
  shows "\<exists>s'. store_reset_to_last s = Inr s' \<and> store_inv s' \<and>
    store_rows s' = (if store_rows s = [] then [] else [last (store_rows s)])"
proof (cases "ws_size s \<le> 1")
  case True
  then have "ws_size s = 0 \<or> ws_size s = 1" by auto
  then have "store_rows s = (if store_rows s = [] then [] else [last (store_rows s)])" by (auto simp: store_rows_def)
  with True assms show ?thesis by (auto simp: store_reset_to_last_def)
next
  case False
  then have ne: "store_rows s \<noteq> []" by (simp add: store_rows_empty)
  define s0 where "s0 = s\<lparr>ws_accumulator := None, ws_size := 0\<rparr>"
  have inv: "chunks_inv s" "0 < ws_dof s" using assms False by (auto simp: store_inv_def)
  then have cs: "ws_chunks s \<noteq> []" using False by (auto simp: chunks_inv_def)
  then have f: "filling s0 0 0" using inv by (simp add: filling_def s0_def chunks_inv_def views_inv_def)
  have "length (last (store_rows s)) = ws_dof s0"
    using store_row_length [OF assms last_in_set [OF ne]] by (simp add: s0_def)
  moreover have "0 < k_chunk_rows" by (simp add: k_chunk_rows_def)
  ultimately obtain s1 s2 where s2: "write_row s0 0 0 (last (store_rows s)) = Inr s1"
    "extend_accumulator s1 0 0 = Inr s2" "filling (s2\<lparr>ws_size := Suc (ws_size s2)\<rparr>) 0 1"
    "store_rows (s2\<lparr>ws_size := Suc (ws_size s2)\<rparr>) = store_rows s0 @ [last (store_rows s)]" "ws_size s2 = ws_size s0"
    using fill_row [OF f] by (metis One_nat_def)
  have "extend_accumulator (s1\<lparr>ws_size := 1\<rparr>) 0 0 = Inr (s2\<lparr>ws_size := 1\<rparr>)"
    using s2(2) by (auto simp: extend_accumulator_def Let_def split: option.splits if_splits)
  then have "store_reset_to_last s = Inr (s2\<lparr>ws_size := 1\<rparr>)"
    using False cs s2(1) store_last_spec [OF assms] ne by (simp add: store_reset_to_last_def s0_def)
  moreover have "store_rows s0 = []" "ws_size s0 = 0" by (simp_all add: store_rows_def s0_def)
  ultimately show ?thesis using s2(3-5) ne by (auto simp: filling_def store_inv_def)
qed

section \<open>The contract\<close>

text \<open>
  What users of a store rely on: it is a list of rows. The lemma of the locale is the protocol of the
  session, which appends rows provisionally and drops them again when it cannot use them.
\<close>

locale row_store =
  fixes fresh :: 's
    and append_batch :: "'s \<Rightarrow> waypoint_accumulator \<Rightarrow> nat \<Rightarrow> 's res"
    and shrink :: "'s \<Rightarrow> nat \<Rightarrow> 's res"
    and contents :: "'s \<Rightarrow> waypoint_accumulator res"
    and final :: "'s \<Rightarrow> xvector res"
    and inv :: "'s \<Rightarrow> bool"
    and rows :: "'s \<Rightarrow> xvector list"
  assumes fresh_rows: "inv fresh \<and> rows fresh = []"
    and append_past: "wa_size b < k \<Longrightarrow>
      append_batch s b k = Inl (Out_of_range ''waypoint_store::append: `from` exceeds batch size'')"
    and append_nothing: "k = wa_size b \<Longrightarrow> append_batch s b k = Inr s"
    and append_mismatch: "inv s \<Longrightarrow> rows s \<noteq> [] \<Longrightarrow> wa_dof b \<noteq> length (hd (rows s)) \<Longrightarrow> k < wa_size b \<Longrightarrow>
      append_batch s b k = Inl (Invalid_argument ''waypoint_store::append: DOF mismatch'')"
    and append_rows: "inv s \<Longrightarrow> wa_inv b \<Longrightarrow> 0 < wa_dof b \<Longrightarrow> k < wa_size b \<Longrightarrow>
      rows s = [] \<or> wa_dof b = length (hd (rows s)) \<Longrightarrow>
      \<exists>s'. append_batch s b k = Inr s' \<and> inv s' \<and> rows s' = rows s @ drop k (wa_points b)"
    and shrink_rows: "inv s \<Longrightarrow> n \<le> length (rows s) \<Longrightarrow> \<exists>s'. shrink s n = Inr s' \<and> inv s' \<and> rows s' = take n (rows s)"
    and contents_rows: "inv s \<Longrightarrow> rows s \<noteq> [] \<Longrightarrow>
      contents s = Inr \<lparr>wa_dof = length (hd (rows s)), wa_points = rows s\<rparr>"
    and final_row: "inv s \<Longrightarrow> rows s \<noteq> [] \<Longrightarrow> final s = Inr (last (rows s))"
begin

lemma provisional:
  assumes "inv s" "wa_inv b" "0 < wa_dof b" "k < wa_size b" "rows s = [] \<or> wa_dof b = length (hd (rows s))" "n \<le> length (rows s)"
  obtains s' s'' where "append_batch s b k = Inr s'" "inv s'" "rows s' = rows s @ drop k (wa_points b)"
    "contents s' = Inr \<lparr>wa_dof = wa_dof b, wa_points = rows s @ drop k (wa_points b)\<rparr>"
    "shrink s' n = Inr s''" "inv s''" "rows s'' = take n (rows s)"
proof -
  obtain s' where s': "append_batch s b k = Inr s'" "inv s'" "rows s' = rows s @ drop k (wa_points b)"
    using append_rows [OF assms(1-5)] by blast
  obtain s'' where s'': "shrink s' n = Inr s''" "inv s''" "rows s'' = take n (rows s)"
    using shrink_rows [OF s'(2), of n] s'(3) assms(6) by auto
  have ne: "drop k (wa_points b) \<noteq> []" using assms(4) by (simp add: wa_size_def)
  then have "hd (drop k (wa_points b)) \<in> set (wa_points b)" by (rule in_set_dropD [OF hd_in_set])
  then have "length (hd (drop k (wa_points b))) = wa_dof b" using assms(2) by (auto simp: wa_inv_def)
  then have "length (hd (rows s')) = wa_dof b" using s'(3) assms(5) ne by (auto simp: hd_append)
  with contents_rows [OF s'(2)] s'(3) ne have
    "contents s' = Inr \<lparr>wa_dof = wa_dof b, wa_points = rows s @ drop k (wa_points b)\<rparr>" by simp
  with s' s'' that show thesis by blast
qed

end

lemma store_hd_dof: "store_inv s \<Longrightarrow> store_rows s \<noteq> [] \<Longrightarrow> length (hd (store_rows s)) = ws_dof s"
  using store_row_length hd_in_set by blast

lemma empty_store_inv: "store_inv empty_store" "store_rows empty_store = []"
  by (simp_all add: empty_store_def store_inv_def chunks_inv_def views_inv_def store_rows_def)

interpretation chunked: row_store empty_store store_append store_truncate store_waypoints store_last store_inv store_rows
proof
  fix s b and k n :: nat
  show "store_inv empty_store \<and> store_rows empty_store = []" by (simp add: empty_store_inv)
  show "store_append s b k = Inl (Out_of_range ''waypoint_store::append: `from` exceeds batch size'')" if "wa_size b < k"
    using that by (simp add: store_append_def)
  show "store_append s b k = Inr s" if "k = wa_size b"
    using that by (simp add: store_append_def)
  assume s: "store_inv s"
  show "store_append s b k = Inl (Invalid_argument ''waypoint_store::append: DOF mismatch'')"
    if "store_rows s \<noteq> []" "wa_dof b \<noteq> length (hd (store_rows s))" "k < wa_size b"
    using that s store_hd_dof [OF s that(1)] by (simp add: store_append_def store_inv_def store_rows_empty)
  show "\<exists>s'. store_append s b k = Inr s' \<and> store_inv s' \<and> store_rows s' = store_rows s @ drop k (wa_points b)"
    if "wa_inv b" "0 < wa_dof b" "k < wa_size b" "store_rows s = [] \<or> wa_dof b = length (hd (store_rows s))"
  proof -
    have "ws_size s = 0 \<or> wa_dof b = ws_dof s" using that(4) store_hd_dof [OF s] store_rows_empty by metis
    from store_append_spec [OF s that(1-3) this] show ?thesis by blast
  qed
  show "\<exists>s'. store_truncate s n = Inr s' \<and> store_inv s' \<and> store_rows s' = take n (store_rows s)"
    if "n \<le> length (store_rows s)"
    using store_truncate_spec [OF s] that by simp
  show "store_waypoints s = Inr \<lparr>wa_dof = length (hd (store_rows s)), wa_points = store_rows s\<rparr>" if "store_rows s \<noteq> []"
    using store_waypoints_spec [OF s] store_hd_dof [OF s that] that by simp
  show "store_last s = Inr (last (store_rows s))" if "store_rows s \<noteq> []"
    using store_last_spec [OF s] that by simp
qed

section \<open>The store is a list of rows\<close>

datatype store_op = Append waypoint_accumulator nat | Truncate nat | Reset_to_last

fun store_exec :: "waypoint_store \<Rightarrow> store_op \<Rightarrow> waypoint_store res" where
  "store_exec s (Append b k) = store_append s b k"
| "store_exec s (Truncate n) = store_truncate s n"
| "store_exec s Reset_to_last = store_reset_to_last s"

fun rows_exec :: "xvector list \<Rightarrow> store_op \<Rightarrow> xvector list res" where
  "rows_exec rows (Append b k) =
     (if wa_size b < k then Inl (Out_of_range ''waypoint_store::append: `from` exceeds batch size'')
      else if k = wa_size b then Inr rows
      else if rows \<noteq> [] \<and> wa_dof b \<noteq> length (hd rows)
      then Inl (Invalid_argument ''waypoint_store::append: DOF mismatch'')
      else Inr (rows @ drop k (wa_points b)))"
| "rows_exec rows (Truncate n) =
     (if length rows < n then Inl (Out_of_range ''waypoint_store::truncate: `count` exceeds stored size'')
      else Inr (take n rows))"
| "rows_exec rows Reset_to_last = Inr (if rows = [] then [] else [last rows])"

fun valid_op :: "store_op \<Rightarrow> bool" where
  "valid_op (Append b k) \<longleftrightarrow> wa_inv b \<and> 0 < wa_dof b"
| "valid_op _ \<longleftrightarrow> True"

definition run_ops :: "('s \<Rightarrow> store_op \<Rightarrow> 's res) \<Rightarrow> 's \<Rightarrow> store_op list \<Rightarrow> 's res" where
  "run_ops exec s ops = foldl (\<lambda>r op. bind_res r (\<lambda>s. exec s op)) (Inr s) ops"

lemma run_ops_snoc: "run_ops exec s (ops @ [op]) = bind_res (run_ops exec s ops) (\<lambda>s. exec s op)"
  by (simp add: run_ops_def)

lemma store_exec_refines:
  assumes "store_inv s" "valid_op op"
  shows "case rows_exec (store_rows s) op of
      Inl e \<Rightarrow> store_exec s op = Inl e
    | Inr rows \<Rightarrow> \<exists>s'. store_exec s op = Inr s' \<and> store_inv s' \<and> store_rows s' = rows"
proof (cases op)
  case (Append b k)
  then have b: "wa_inv b" "0 < wa_dof b" using assms(2) by auto
  consider "wa_size b < k" | "k = wa_size b" | "k < wa_size b" "store_rows s \<noteq> []" "wa_dof b \<noteq> length (hd (store_rows s))"
    | "k < wa_size b" "store_rows s = [] \<or> wa_dof b = length (hd (store_rows s))" by linarith
  then show ?thesis
  proof cases
    case 4
    with chunked.append_rows [OF assms(1) b 4] Append show ?thesis by auto
  qed (use assms(1) Append chunked.append_past chunked.append_nothing chunked.append_mismatch in simp_all)
next
  case (Truncate n)
  with store_truncate_spec [OF assms(1), of n] show ?thesis by (auto simp: store_truncate_def)
next
  case Reset_to_last
  with store_reset_spec [OF assms(1)] show ?thesis by simp
qed

text \<open>
  C34: Whatever sequence of appends, truncations and resets a waypoint store has gone through, across chunk
  boundaries and through chunks used again, it holds exactly the rows a plain list would: its views
  read those rows in order, none was overwritten or left uninitialised, its last row is the last one,
  and it throws where the contract says.
\<close>

theorem waypoint_store_refines:
  assumes "list_all valid_op ops"
  shows "case run_ops rows_exec [] ops of
      Inl e \<Rightarrow> run_ops store_exec empty_store ops = Inl e
    | Inr rows \<Rightarrow> \<exists>s. run_ops store_exec empty_store ops = Inr s \<and> ws_size s = length rows \<and>
        store_waypoints s =
          (if rows = [] then Inl (Out_of_range ''waypoint_store::waypoints: store is empty'')
           else Inr \<lparr>wa_dof = length (hd rows), wa_points = rows\<rparr>) \<and>
        store_last s =
          (if rows = [] then Inl (Out_of_range ''waypoint_store::last: store is empty'') else Inr (last rows))"
proof -
  have "case run_ops rows_exec [] ops of
      Inl e \<Rightarrow> run_ops store_exec empty_store ops = Inl e
    | Inr rows \<Rightarrow> \<exists>s. run_ops store_exec empty_store ops = Inr s \<and> store_inv s \<and> store_rows s = rows"
    using assms
  proof (induction ops rule: rev_induct)
    case (snoc op ops)
    show ?case
    proof (cases "run_ops rows_exec [] ops")
      case (Inr rows)
      with snoc obtain s where s: "run_ops store_exec empty_store ops = Inr s" "store_inv s" "store_rows s = rows"
        by auto
      have "valid_op op" using snoc.prems by simp
      note store_exec_refines [OF s(2) this]
      with Inr s show ?thesis
        by (cases "rows_exec rows op") (auto simp: run_ops_snoc)
    qed (use snoc in \<open>simp add: run_ops_snoc\<close>)
  qed (simp add: run_ops_def empty_store_inv)
  then show ?thesis
  proof (cases "run_ops rows_exec [] ops")
    case (Inr rows)
    assume "case run_ops rows_exec [] ops of Inl e \<Rightarrow> run_ops store_exec empty_store ops = Inl e
      | Inr rows \<Rightarrow> \<exists>s. run_ops store_exec empty_store ops = Inr s \<and> store_inv s \<and> store_rows s = rows"
    with Inr obtain s where s: "run_ops store_exec empty_store ops = Inr s" "store_inv s" "store_rows s = rows" by auto
    then have "ws_size s = length rows" by (metis length_store_rows)
    with s Inr store_waypoints_spec [OF s(2)] store_last_spec [OF s(2)] store_hd_dof [OF s(2)] show ?thesis by auto
  qed simp
qed

theorem waypoint_store_refines_witness:
  "\<exists>s. run_ops store_exec empty_store
      [Append \<lparr>wa_dof = 1, wa_points = replicate 1025 [0]\<rparr> 0, Truncate 1023, Append \<lparr>wa_dof = 1, wa_points = [[0], [3], [4]]\<rparr> 1] = Inr s \<and>
     store_waypoints s = Inr \<lparr>wa_dof = 1, wa_points = replicate 1023 [0] @ [[3], [4]]\<rparr>"
  using waypoint_store_refines [of "[Append \<lparr>wa_dof = 1, wa_points = replicate 1025 [0]\<rparr> 0, Truncate 1023,
      Append \<lparr>wa_dof = 1, wa_points = [[0], [3], [4]]\<rparr> 1]"]
  by (auto simp: wa_inv_def wa_size_def run_ops_def min_def)

end
