(* ===== verification/Session.thy ===== *)
theory Session
  imports Uniform_Sampler Waypoint_Store
begin

text \<open>
  A streaming session (\<open>totg/streaming/session.{hpp,cpp}\<close>): an active trajectory that is sampled while batches
  of waypoints arrive, and staged motion that follows it. A call changes the state of the session even
  when it throws, so an operation gives its result together with the state it leaves. The counters of
  samples and of trajectories are natural numbers: they do not reach \<open>2^64\<close>.
\<close>

section \<open>Effects\<close>

definition then_do :: "'a res \<times> 's \<Rightarrow> ('a \<Rightarrow> 's \<Rightarrow> 'b res \<times> 's) \<Rightarrow> 'b res \<times> 's" where
  "then_do r f = (case fst r of Inl e \<Rightarrow> (Inl e, snd r) | Inr a \<Rightarrow> f a (snd r))"

lemma then_do_simps [simp]:
  "then_do (Inl e, s) f = (Inl e, s)" "then_do (Inr a, s) f = f a s"
  by (simp_all add: then_do_def)

section \<open>State\<close>

record staging_state =
  sg_waypoints :: "waypoint_store option"
  sg_trajectory :: "trajectory option"

record session =
  se_path_options :: path_options
  se_trajectory_options :: traj_options
  se_sample_rate :: dbl
  se_sample_period :: seconds
  se_waypoints :: waypoint_store
  se_active :: "trajectory option"
  se_sampler :: "uniform_sampler option"
  se_cursor :: "traj_cursor option"
  se_epoch :: seconds
  se_current_time :: seconds
  se_emitted :: nat
  se_staging :: "staging_state option"
  se_last_waypoint :: xvector
  se_generation :: nat

datatype extend_kind =
  K_first_build | K_pivot | K_staged_branch_sampled | K_staged_unsamplable | K_staged_again | K_noop

record extend_result =
  er_kind :: extend_kind
  er_branch_slack :: "seconds option"
  er_delta_total_duration :: seconds

definition validate_sample_rate_and_compute_period :: "dbl \<Rightarrow> seconds res" where
  "validate_sample_rate_and_compute_period rate =
     (if \<not> isfinite rate \<or> rate \<le> 0
      then Inl (Invalid_argument ''streaming::session: sample_rate must be positive and finite'')
      else Inr (divide 1 rate))"

definition make_session :: "path_options \<Rightarrow> traj_options \<Rightarrow> dbl \<Rightarrow> session res" where
  "make_session po opt rate =
     bind_res (validate_sample_rate_and_compute_period rate) (\<lambda>period.
       Inr \<lparr>se_path_options = po, se_trajectory_options = opt, se_sample_rate = rate, se_sample_period = period,
            se_waypoints = empty_store, se_active = None, se_sampler = None, se_cursor = None, se_epoch = 0,
            se_current_time = 0, se_emitted = 0, se_staging = None, se_last_waypoint = [], se_generation = 0\<rparr>)"

section \<open>Building trajectories\<close>

definition build_trajectory_from :: "session \<Rightarrow> waypoint_accumulator \<Rightarrow> trajectory res" where
  "build_trajectory_from se waypoints =
     bind_res (path_create waypoints (se_path_options se)) (\<lambda>p. trajectory_create p (se_trajectory_options se) [])"

text \<open>Appends, builds, and on an exception winds the store back to \<open>committed\<close> rows and rethrows.\<close>

definition append_and_build ::
  "session \<Rightarrow> waypoint_accumulator \<Rightarrow> nat \<Rightarrow> nat \<Rightarrow> waypoint_store \<Rightarrow> trajectory res \<times> waypoint_store" where
  "append_and_build se batch start committed store =
     (case store_append store batch start of
        Inl e \<Rightarrow> (Inl e, store)
      | Inr store' \<Rightarrow>
          (case bind_res (store_waypoints store') (build_trajectory_from se) of
             Inr tr \<Rightarrow> (Inr tr, store')
           | Inl e \<Rightarrow>
               (case store_truncate store' committed of
                  Inl e' \<Rightarrow> (Inl e', store')
                | Inr store'' \<Rightarrow> (Inl e, store''))))"

text \<open>Equality of integration points is \<open>==\<close> on their doubles, so a point with a \<open>NaN\<close> equals no other.\<close>

definition point_eq :: "integration_point \<Rightarrow> integration_point \<Rightarrow> bool" where
  "point_eq p q \<longleftrightarrow> feq (ip_time p) (ip_time q) \<and> feq (ip_s p) (ip_s q) \<and> feq (ip_s_dot p) (ip_s_dot q) \<and>
     feq (ip_s_ddot p) (ip_s_ddot q)"

fun first_difference :: "integration_point list \<Rightarrow> integration_point list \<Rightarrow> integration_point option" where
  "first_difference [] qs = None"
| "first_difference (p # ps) [] = Some p"
| "first_difference (p # ps) (q # qs) = (if point_eq p q then first_difference ps qs else Some p)"

definition find_branch_local_time :: "trajectory \<Rightarrow> trajectory \<Rightarrow> seconds" where
  "find_branch_local_time existing candidate =
     (case first_difference (tr_points existing) (tr_points candidate) of
        None \<Rightarrow> tr_duration existing
      | Some p \<Rightarrow> ip_time p)"

text \<open>A new active trajectory, with a cursor at its start and a sampler.\<close>

definition install :: "session \<Rightarrow> trajectory \<Rightarrow> uniform_sampler \<Rightarrow> unit res \<times> session" where
  "install se tr sampler =
     (let se1 = se\<lparr>se_active := Some tr\<rparr>
      in case create_traj_cursor tr of
           Inl e \<Rightarrow> (Inl e, se1)
         | Inr c \<Rightarrow> (Inr (), se1\<lparr>se_cursor := Some c, se_sampler := Some sampler\<rparr>))"

section \<open>Extending\<close>

definition extend_first :: "session \<Rightarrow> waypoint_accumulator \<Rightarrow> extend_result res \<times> session" where
  "extend_first se batch =
     (let (built, store) = append_and_build se batch 0 0 (se_waypoints se)
      in then_do (built, se\<lparr>se_waypoints := store\<rparr>) (\<lambda>new_active se1.
         then_do (quantized_for_trajectory new_active (se_sample_rate se1) 0, se1) (\<lambda>new_sampler se1.
         then_do (store_last (se_waypoints se1), se1) (\<lambda>w se1.
         then_do (install (se1\<lparr>se_last_waypoint := w\<rparr>) new_active new_sampler) (\<lambda>_ se2.
           (Inr \<lparr>er_kind = K_first_build, er_branch_slack = None, er_delta_total_duration = tr_duration new_active\<rparr>,
            se2\<lparr>se_generation := 1\<rparr>))))))"

text \<open>\<open>stage_\<close>: the staged motion starts from the last waypoint of the active trajectory.\<close>

definition stage_seam :: "session \<Rightarrow> waypoint_store \<Rightarrow> waypoint_store res" where
  "stage_seam se store =
     (if ws_size store = 0
      then bind_res (store_waypoints (se_waypoints se)) (\<lambda>waypoints.
             store_append store waypoints (ws_size (se_waypoints se) - 1))
      else Inr store)"

definition stage :: "session \<Rightarrow> waypoint_accumulator \<Rightarrow> staging_state \<Rightarrow> seconds res \<times> staging_state" where
  "stage se batch sg =
     (let store = (case sg_waypoints sg of None \<Rightarrow> empty_store | Some store \<Rightarrow> store);
          sg1 = sg\<lparr>sg_waypoints := Some store\<rparr>;
          committed = ws_size store
      in then_do (stage_seam se store, sg1) (\<lambda>store1 sg2.
           let (built, store2) = append_and_build se batch 1 committed store1
           in then_do (built, sg2\<lparr>sg_waypoints := Some store2\<rparr>) (\<lambda>candidate sg3.
                (Inr (case sg_trajectory sg3 of
                        Some staged \<Rightarrow> tr_duration candidate - tr_duration staged
                      | None \<Rightarrow> tr_duration candidate),
                 sg3\<lparr>sg_trajectory := Some candidate\<rparr>))))"

definition extend_staged :: "session \<Rightarrow> staging_state \<Rightarrow> waypoint_accumulator \<Rightarrow> extend_result res \<times> session" where
  "extend_staged se sg batch =
     (let (growth, sg') = stage se batch sg
      in then_do (growth, se\<lparr>se_staging := Some sg'\<rparr>) (\<lambda>growth se1.
         then_do (wa_at batch (wa_size batch - 1), se1) (\<lambda>w se1.
           (Inr \<lparr>er_kind = K_staged_again, er_branch_slack = None, er_delta_total_duration = growth\<rparr>,
            se1\<lparr>se_last_waypoint := w\<rparr>))))"

definition pivot :: "session \<Rightarrow> trajectory \<Rightarrow> trajectory \<Rightarrow> seconds \<Rightarrow> seconds \<Rightarrow> extend_result res \<times> session" where
  "pivot se active candidate starting_local_time branch_slack =
     then_do (quantized_for_trajectory candidate (se_sample_rate se) starting_local_time, se) (\<lambda>new_sampler se.
     then_do (store_last (se_waypoints se), se) (\<lambda>w se.
     then_do (install (se\<lparr>se_last_waypoint := w\<rparr>) candidate new_sampler) (\<lambda>_ se.
       (Inr \<lparr>er_kind = K_pivot, er_branch_slack = Some branch_slack,
             er_delta_total_duration = tr_duration candidate - tr_duration active\<rparr>,
        se\<lparr>se_generation := Suc (se_generation se)\<rparr>))))"

definition begin_staging ::
  "session \<Rightarrow> waypoint_accumulator \<Rightarrow> nat \<Rightarrow> extend_kind \<Rightarrow> seconds \<Rightarrow> extend_result res \<times> session" where
  "begin_staging se batch committed kind branch_slack =
     then_do (store_truncate (se_waypoints se) committed, se) (\<lambda>store se.
       let se1 = se\<lparr>se_waypoints := store\<rparr>;
           (growth, sg) = stage se1 batch \<lparr>sg_waypoints = None, sg_trajectory = None\<rparr>
       in then_do (growth, se1) (\<lambda>growth se1.
          then_do (wa_at batch (wa_size batch - 1), se1\<lparr>se_staging := Some sg\<rparr>) (\<lambda>w se2.
            (Inr \<lparr>er_kind = kind, er_branch_slack = Some branch_slack, er_delta_total_duration = growth\<rparr>,
             se2\<lparr>se_last_waypoint := w\<rparr>))))"

definition extend_active :: "session \<Rightarrow> trajectory \<Rightarrow> waypoint_accumulator \<Rightarrow> extend_result res \<times> session" where
  "extend_active se active batch =
     (let committed = ws_size (se_waypoints se);
          (built, store) = append_and_build se batch 1 committed (se_waypoints se)
      in then_do (built, se\<lparr>se_waypoints := store\<rparr>) (\<lambda>candidate se1.
           let branch_global = se_epoch se1 + find_branch_local_time active candidate;
               starting_local_time =
                 (if se_emitted se1 = 0 then 0 else (se_current_time se1 - se_epoch se1) + se_sample_period se1);
               branch_ahead = (se_emitted se1 = 0 \<or> se_current_time se1 < branch_global);
               has_samplable_material = starting_local_time < tr_duration candidate;
               branch_slack = branch_global - se_current_time se1
           in if branch_ahead \<and> has_samplable_material
              then pivot se1 active candidate starting_local_time branch_slack
              else begin_staging se1 batch committed
                     (if branch_ahead then K_staged_unsamplable else K_staged_branch_sampled) branch_slack))"

definition session_extend :: "session \<Rightarrow> waypoint_accumulator \<Rightarrow> extend_result res \<times> session" where
  "session_extend se batch =
     (if wa_size batch = 0 then (Inl (Invalid_argument ''streaming::session::extend: batch is empty''), se)
      else
        case se_active se of
          None \<Rightarrow> extend_first se batch
        | Some active \<Rightarrow>
            if wa_dof batch \<noteq> ws_dof (se_waypoints se)
            then (Inl (Invalid_argument ''streaming::session::extend: DOF mismatch''), se)
            else
              then_do (wa_at batch 0, se) (\<lambda>first se.
                if first \<noteq> se_last_waypoint se
                then (Inl (Invalid_argument ''streaming::session::extend: seam mismatch''), se)
                else if wa_size batch = 1
                then (Inr \<lparr>er_kind = K_noop, er_branch_slack = None, er_delta_total_duration = 0\<rparr>, se)
                else
                  case se_staging se of
                    Some sg \<Rightarrow> extend_staged se sg batch
                  | None \<Rightarrow> extend_active se active batch))"

definition start_staging :: "session \<Rightarrow> session" where
  "start_staging se =
     (if se_active se \<noteq> None \<and> se_staging se = None
      then se\<lparr>se_staging := Some \<lparr>sg_waypoints = None, sg_trajectory = None\<rparr>\<rparr>
      else se)"

section \<open>Sampling\<close>

definition staged_trajectory :: "session \<Rightarrow> trajectory option" where
  "staged_trajectory se = (case se_staging se of None \<Rightarrow> None | Some sg \<Rightarrow> sg_trajectory sg)"

definition staged_waypoints :: "session \<Rightarrow> waypoint_store option" where
  "staged_waypoints se = (case se_staging se of None \<Rightarrow> None | Some sg \<Rightarrow> sg_waypoints sg)"

definition install_staged :: "session \<Rightarrow> seconds \<Rightarrow> unit res \<times> session" where
  "install_staged se start =
     (case (se_active se, staged_trajectory se, staged_waypoints se) of
        (Some active, Some staged, Some waypoints) \<Rightarrow>
          then_do (if start < tr_duration staged then quantized_for_trajectory staged (se_sample_rate se) start
                   else Inr (make_uniform_sampler 1 0), se) (\<lambda>new_sampler se.
          then_do (install (se\<lparr>se_waypoints := waypoints\<rparr>) staged new_sampler) (\<lambda>_ se.
            (Inr (), se\<lparr>se_epoch := se_epoch se + tr_duration active, se_staging := None,
                        se_generation := Suc (se_generation se)\<rparr>)))
      | _ \<Rightarrow> (Inl (Undefined_behaviour ''dereference of an empty optional''), se))"

text \<open>\<open>sampler_->next(*cursor_)\<close>: the sampler has advanced even if the sample throws.\<close>

definition pull_sample :: "session \<Rightarrow> traj_sample option res \<times> session" where
  "pull_sample se =
     (case (se_sampler se, se_cursor se) of
        (Some sampler, Some cursor) \<Rightarrow>
          (case sampler_advance sampler cursor of
             Inl e \<Rightarrow> (Inl e, se)
           | Inr (moved, sampler', cursor') \<Rightarrow>
               let se1 = se\<lparr>se_sampler := Some sampler', se_cursor := Some cursor'\<rparr>
               in if \<not> moved then (Inr None, se1)
                  else case traj_cursor_sample cursor' of
                         Inl e \<Rightarrow> (Inl e, se1)
                       | Inr (smp, cursor'') \<Rightarrow> (Inr (Some smp), se1\<lparr>se_cursor := Some cursor''\<rparr>))
      | _ \<Rightarrow> (Inl (Undefined_behaviour ''dereference of an empty optional''), se))"

definition emit :: "traj_sample \<Rightarrow> session \<Rightarrow> traj_sample option res \<times> session" where
  "emit local_sample se =
     (let smp = local_sample\<lparr>sm_time := sm_time local_sample + se_epoch se\<rparr>
      in (Inr (Some smp), se\<lparr>se_emitted := Suc (se_emitted se), se_current_time := sm_time smp\<rparr>))"

definition rebase_and_pull :: "session \<Rightarrow> traj_sample option res \<times> session" where
  "rebase_and_pull se =
     (if staged_trajectory se = None then (Inr None, se)
      else
        then_do (install_staged se (se_sample_period se)) (\<lambda>_ se1.
        then_do (pull_sample se1) (\<lambda>local_sample se2.
          case local_sample of None \<Rightarrow> (Inr None, se2) | Some smp \<Rightarrow> emit smp se2)))"

definition sample_one :: "session \<Rightarrow> traj_sample option res \<times> session" where
  "sample_one se =
     (case (se_sampler se, se_cursor se) of
        (Some sampler, Some _) \<Rightarrow>
          then_do
            (if sampler_remaining sampler = 1 \<and> staged_trajectory se \<noteq> None then install_staged se 0 else (Inr (), se))
            (\<lambda>_ se1.
              then_do (pull_sample se1) (\<lambda>local_sample se2.
                case local_sample of
                  None \<Rightarrow> rebase_and_pull se2
                | Some smp \<Rightarrow> emit smp se2))
      | _ \<Rightarrow> (Inr None, se))"

fun sample_next_loop :: "nat \<Rightarrow> traj_sample list \<Rightarrow> session \<Rightarrow> traj_sample list res \<times> session" where
  "sample_next_loop 0 result se = (Inr result, se)"
| "sample_next_loop (Suc n) result se =
     then_do (sample_one se) (\<lambda>opt se1.
       case opt of None \<Rightarrow> (Inr result, se1) | Some smp \<Rightarrow> sample_next_loop n (result @ [smp]) se1)"

definition sample_next :: "session \<Rightarrow> nat \<Rightarrow> traj_sample list res \<times> session" where
  "sample_next se n = sample_next_loop n [] se"

definition sample_at_least_body ::
  "seconds \<Rightarrow> traj_sample list \<times> session \<Rightarrow> (traj_sample list \<times> session) + (traj_sample list res \<times> session)" where
  "sample_at_least_body target = (\<lambda>(result, se).
     case sample_one se of
       (Inl e, se1) \<Rightarrow> Inr (Inl e, se1)
     | (Inr None, se1) \<Rightarrow> Inr (Inr result, se1)
     | (Inr (Some smp), se1) \<Rightarrow>
         if target \<le> se_current_time se1 then Inr (Inr (result @ [smp]), se1) else Inl (result @ [smp], se1))"

definition sample_at_least :: "session \<Rightarrow> seconds \<Rightarrow> traj_sample list res \<times> session" where
  "sample_at_least se horizon =
     (case iterate (sample_at_least_body (se_current_time se + horizon)) ([], se) of
        Some r \<Rightarrow> r
      | None \<Rightarrow> (Inl Diverges, se))"

section \<open>Durations\<close>

definition remaining_active_duration :: "session \<Rightarrow> seconds" where
  "remaining_active_duration se =
     (case se_active se of
        None \<Rightarrow> 0
      | Some active \<Rightarrow>
          let active_end = se_epoch se + tr_duration active
          in if active_end \<le> se_current_time se then 0 else active_end - se_current_time se)"

definition remaining_total_duration :: "session \<Rightarrow> seconds" where
  "remaining_total_duration se =
     (case se_active se of
        None \<Rightarrow> 0
      | Some active \<Rightarrow>
          let end1 = se_epoch se + tr_duration active;
              end2 = (case staged_trajectory se of None \<Rightarrow> end1 | Some staged \<Rightarrow> end1 + tr_duration staged)
          in if end2 \<le> se_current_time se then 0 else end2 - se_current_time se)"

end
