(* ===== verification/Session_Safety.thy ===== *)
theory Session_Safety
  imports Session Sampler_Properties
begin

text \<open>
  The invariant of a streaming session and what its operations do, with the stores read as lists of rows
  through their contract.
\<close>

section \<open>The rows behind the trajectories\<close>

definition staged_rows :: "staging_state \<Rightarrow> xvector list" where
  "staged_rows sg = (case sg_waypoints sg of None \<Rightarrow> [] | Some w \<Rightarrow> store_rows w)"

text \<open>What the session's users can observe: the stores as the rows they hold.\<close>

definition session_view :: "session \<Rightarrow> session \<times> xvector list \<times> (xvector list \<times> trajectory option) option" where
  "session_view se =
     (se\<lparr>se_waypoints := empty_store, se_staging := None\<rparr>, store_rows (se_waypoints se),
      map_option (\<lambda>sg. (staged_rows sg, sg_trajectory sg)) (se_staging se))"

text \<open>All waypoints of the motion, the active trajectory's and then the staged ones; the seam is shared.\<close>

definition motion_rows :: "session \<Rightarrow> xvector list" where
  "motion_rows se = store_rows (se_waypoints se) @
     tl (case se_staging se of None \<Rightarrow> [] | Some sg \<Rightarrow> staged_rows sg)"

definition build_rows :: "path_options \<Rightarrow> traj_options \<Rightarrow> nat \<Rightarrow> xvector list \<Rightarrow> trajectory res" where
  "build_rows po opt dof rows =
     bind_res (path_create \<lparr>wa_dof = dof, wa_points = rows\<rparr> po) (\<lambda>p. trajectory_create p opt [])"

abbreviation session_build :: "session \<Rightarrow> xvector list \<Rightarrow> trajectory res" where
  "session_build se rows \<equiv> build_rows (se_path_options se) (se_trajectory_options se) (length (hd rows)) rows"

lemma build_trajectory_rows:
  "build_trajectory_from se \<lparr>wa_dof = d, wa_points = rows\<rparr> = build_rows (se_path_options se) (se_trajectory_options se) d rows"
  by (simp add: build_trajectory_from_def build_rows_def)

definition staging_wf :: "session \<Rightarrow> staging_state \<Rightarrow> bool" where
  "staging_wf se sg \<longleftrightarrow>
     (case sg_waypoints sg of
        None \<Rightarrow> sg_trajectory sg = None
      | Some w \<Rightarrow> store_inv w \<and>
          (case sg_trajectory sg of
             None \<Rightarrow> store_rows w = []
           | Some tr \<Rightarrow> store_rows w \<noteq> [] \<and> session_build se (store_rows w) = Inr tr \<and>
               hd (store_rows w) = last (store_rows (se_waypoints se))))"

definition session_wf :: "session \<Rightarrow> bool" where
  "session_wf se \<longleftrightarrow> store_inv (se_waypoints se) \<and>
     (case se_active se of
        None \<Rightarrow> store_rows (se_waypoints se) = [] \<and> se_staging se = None
      | Some tr \<Rightarrow> store_rows (se_waypoints se) \<noteq> [] \<and> session_build se (store_rows (se_waypoints se)) = Inr tr \<and>
          se_last_waypoint se = last (motion_rows se) \<and>
          (\<forall>sg. se_staging se = Some sg \<longrightarrow> staging_wf se sg))"

section \<open>Building\<close>

lemma append_and_build_spec:
  assumes "store_inv st" "wa_inv b" "0 < wa_dof b" "k < wa_size b"
    "store_rows st = [] \<or> wa_dof b = length (hd (store_rows st))" "n \<le> length (store_rows st)"
  obtains st' where "append_and_build se b k n st =
      (build_rows (se_path_options se) (se_trajectory_options se) (wa_dof b) (store_rows st @ drop k (wa_points b)), st')"
    "store_inv st'"
    "store_rows st' = (case build_rows (se_path_options se) (se_trajectory_options se) (wa_dof b) (store_rows st @ drop k (wa_points b)) of
       Inl _ \<Rightarrow> take n (store_rows st) | Inr _ \<Rightarrow> store_rows st @ drop k (wa_points b))"
proof -
  obtain s' s'' where s: "store_append st b k = Inr s'" "store_inv s'" "store_rows s' = store_rows st @ drop k (wa_points b)"
    "store_waypoints s' = Inr \<lparr>wa_dof = wa_dof b, wa_points = store_rows st @ drop k (wa_points b)\<rparr>"
    "store_truncate s' n = Inr s''" "store_inv s''" "store_rows s'' = take n (store_rows st)"
    by (rule chunked.provisional [OF assms]) blast
  show thesis
  proof (cases "build_rows (se_path_options se) (se_trajectory_options se) (wa_dof b) (store_rows st @ drop k (wa_points b))")
    case (Inl e)
    with s that [of s''] show thesis by (simp add: append_and_build_def build_trajectory_rows)
  next
    case (Inr tr)
    with s that [of s'] show thesis by (simp add: append_and_build_def build_trajectory_rows)
  qed
qed

text \<open>The rows of the staged motion to be: it starts from the seam.\<close>

definition seam_rows :: "session \<Rightarrow> staging_state \<Rightarrow> xvector list" where
  "seam_rows se sg = (if staged_rows sg = [] then [last (store_rows (se_waypoints se))] else staged_rows sg)"

lemma rows_of_length:
  assumes "store_inv s" "r \<in> set (store_rows s)"
  shows "length r = length (hd (store_rows s))"
proof -
  have "store_rows s \<noteq> []" using assms(2) by auto
  then show ?thesis using store_row_length [OF assms] store_hd_dof [OF assms(1)] by simp
qed

lemma stage_seam_spec:
  assumes "store_inv (se_waypoints se)" "store_rows (se_waypoints se) \<noteq> []" "store_inv w"
  obtains w' where "stage_seam se w = Inr w'" "store_inv w'"
    "store_rows w' = (if store_rows w = [] then [last (store_rows (se_waypoints se))] else store_rows w)"
proof (cases "store_rows w = []")
  case True
  let ?rows = "store_rows (se_waypoints se)"
  let ?b = "\<lparr>wa_dof = length (hd ?rows), wa_points = ?rows\<rparr>"
  have "wa_inv ?b" "0 < wa_dof ?b" "length ?rows - 1 < wa_size ?b"
    using assms rows_of_length [OF assms(1)] store_hd_dof [OF assms(1,2)]
    by (auto simp: wa_inv_def wa_size_def store_inv_def store_rows_empty)
  from chunked.append_rows [OF assms(3) this] True obtain w' where
    "store_append w ?b (length ?rows - 1) = Inr w'" "store_inv w'" "store_rows w' = drop (length ?rows - 1) ?rows" by auto
  moreover have "drop (length ?rows - 1) ?rows = [last ?rows]"
    using assms(2) by (metis One_nat_def append_butlast_last_id append_eq_conv_conj length_butlast)
  ultimately show thesis
    using True that chunked.contents_rows [OF assms(1,2)] by (auto simp: stage_seam_def store_rows_empty)
next
  case False
  with that [of w] assms(3) show thesis by (simp add: stage_seam_def store_rows_empty)
qed

lemma stage_spec:
  assumes "session_wf se" "se_active se \<noteq> None" "staging_wf se sg" "wa_inv b" "wa_dof b = ws_dof (se_waypoints se)" "1 < wa_size b"
  defines "rows \<equiv> seam_rows se sg @ tl (wa_points b)"
  obtains sg' w where "sg_waypoints sg' = Some w" "store_inv w"
    "case session_build se rows of
       Inl e \<Rightarrow> stage se b sg = (Inl e, sg') \<and> store_rows w = staged_rows sg \<and> sg_trajectory sg' = sg_trajectory sg
     | Inr tr \<Rightarrow> stage se b sg = (Inr (case sg_trajectory sg of None \<Rightarrow> tr_duration tr
           | Some staged \<Rightarrow> tr_duration tr - tr_duration staged), sg') \<and>
         store_rows w = rows \<and> sg_trajectory sg' = Some tr"
proof -
  define w0 where "w0 = (case sg_waypoints sg of None \<Rightarrow> empty_store | Some store \<Rightarrow> store)"
  have inv: "store_inv (se_waypoints se)" "store_rows (se_waypoints se) \<noteq> []"
    using assms(1,2) by (auto simp: session_wf_def)
  have w0: "store_inv w0" "store_rows w0 = staged_rows sg"
    using assms(3) by (auto simp: w0_def staged_rows_def staging_wf_def empty_store_inv split: option.splits)
  obtain w1 where w1: "stage_seam se w0 = Inr w1" "store_inv w1" "store_rows w1 = seam_rows se sg"
    by (rule stage_seam_spec [OF inv w0(1)]) (auto simp: seam_rows_def w0(2))
  have dof: "length (hd (seam_rows se sg)) = wa_dof b"
  proof (cases "staged_rows sg = []")
    case True
    with inv rows_of_length [OF inv(1)] store_hd_dof [OF inv] assms(5) show ?thesis by (simp add: seam_rows_def)
  next
    case False
    with assms(3) have "hd (staged_rows sg) = last (store_rows (se_waypoints se))"
      by (auto simp: staged_rows_def staging_wf_def split: option.splits)
    with False inv rows_of_length [OF inv(1)] store_hd_dof [OF inv] assms(5) show ?thesis by (simp add: seam_rows_def)
  qed
  have ne: "seam_rows se sg \<noteq> []" by (simp add: seam_rows_def)
  have pos: "0 < wa_dof b" using inv assms(5) by (simp add: store_inv_def store_rows_empty)
  have n: "length (store_rows w0) \<le> length (store_rows w1)" by (simp only: w0(2) w1(3)) (simp add: seam_rows_def)
  have take: "take (length (store_rows w0)) (store_rows w1) = staged_rows sg"
    by (simp only: w0(2) w1(3)) (simp add: seam_rows_def)
  have match: "store_rows w1 = [] \<or> wa_dof b = length (hd (store_rows w1))" by (simp add: w1(3) dof)
  have rows: "store_rows w1 @ drop 1 (wa_points b) = rows" "length (hd rows) = wa_dof b"
    using ne dof by (simp_all add: rows_def w1(3) drop_Suc)
  obtain w2 where w2: "append_and_build se b 1 (length (store_rows w0)) w1 = (session_build se rows, w2)" "store_inv w2"
    "store_rows w2 = (case session_build se rows of Inl _ \<Rightarrow> staged_rows sg | Inr _ \<Rightarrow> rows)"
    by (rule append_and_build_spec [OF w1(2) assms(4) pos assms(6) match n, unfolded take rows]) (use rows in auto)
  have stage: "stage se b sg = then_do (session_build se rows, sg\<lparr>sg_waypoints := Some w2\<rparr>) (\<lambda>candidate sg3.
      (Inr (case sg_trajectory sg3 of Some staged \<Rightarrow> tr_duration candidate - tr_duration staged | None \<Rightarrow> tr_duration candidate),
       sg3\<lparr>sg_trajectory := Some candidate\<rparr>))"
    using w2(1) by (simp add: stage_def w0_def [symmetric] w1(1) Let_def)
  show thesis
  proof (cases "session_build se rows")
    case (Inl e)
    with that [of "sg\<lparr>sg_waypoints := Some w2\<rparr>" w2] w2(2,3) show thesis by (simp add: stage)
  next
    case (Inr tr)
    with that [of "sg\<lparr>sg_waypoints := Some w2, sg_trajectory := Some tr\<rparr>" w2] w2(2,3) show thesis by (simp add: stage)
  qed
qed

lemma build_rows_path:
  assumes "build_rows po opt d rows = Inr tr" "\<forall>r \<in> set rows. length r = d"
  obtains p where "path_create \<lparr>wa_dof = d, wa_points = rows\<rparr> po = Inr p" "trajectory_create p opt [] = Inr tr"
    "path_inv p" "path_dof p = d" "tr_path tr = p" "smooth_path (hd rows) (path_segments p)"
    "end_configuration (ps_seg (last (path_segments p))) = last rows"
proof -
  obtain p where p: "path_create \<lparr>wa_dof = d, wa_points = rows\<rparr> po = Inr p" "trajectory_create p opt [] = Inr tr"
    using assms(1) by (auto simp: build_rows_def bind_res_eq_Inr)
  have "2 \<le> length rows \<and> valid_options po" using path_create_checks [of "\<lparr>wa_dof = d, wa_points = rows\<rparr>" po] p(1)
    by (auto simp: wa_size_def)
  moreover have "wa_inv \<lparr>wa_dof = d, wa_points = rows\<rparr>" using assms(2) by (simp add: wa_inv_def)
  ultimately have "path_inv p \<and> path_dof p = d \<and> smooth_path (hd rows) (path_segments p) \<and>
      end_configuration (ps_seg (last (path_segments p))) = last rows"
    using path_create_outcome [of po "\<lparr>wa_dof = d, wa_points = rows\<rparr>"] p(1) by (auto simp: wa_size_def)
  moreover have "tr_path tr = p" using p(2) by (auto simp: trajectory_create_def run_totg_def bind_res_eq_Inr)
  ultimately show thesis using p that by blast
qed

lemma build_rows_path_inv:
  assumes "build_rows po opt (length (hd rows)) rows = Inr tr" "\<forall>r \<in> set rows. length r = d" "rows \<noteq> []"
  shows "path_inv (tr_path tr)"
proof -
  have "length (hd rows) = d" using assms(2,3) by simp
  then have "\<forall>r \<in> set rows. length r = length (hd rows)" using assms(2) by simp
  then show ?thesis using build_rows_path [OF assms(1)] by metis
qed

lemma install_spec:
  assumes "path_inv (tr_path tr)"
  obtains c where "create_traj_cursor tr = Inr c" "tc_trajectory c = tr"
    "install se tr u = (Inr (), se\<lparr>se_active := Some tr, se_cursor := Some c, se_sampler := Some u\<rparr>)"
proof -
  obtain k where "create_cursor (tr_path tr) 0 = Inr k" using create_cursor_inv [OF assms] by blast
  with that show thesis by (simp add: install_def create_traj_cursor_def)
qed

section \<open>The abstract session\<close>

text \<open>
  A session as its users see it: the waypoints of the active and of the staged motion with their
  trajectories, the global time of the last sample and the time at which the active trajectory began.
\<close>

record motion =
  mo_rows :: "xvector list"
  mo_active :: "trajectory option"
  mo_staging :: "(xvector list \<times> trajectory option) option"
  mo_epoch :: seconds
  mo_time :: seconds
  mo_emitted :: nat

definition motion_of :: "session \<Rightarrow> motion" where
  "motion_of se = \<lparr>mo_rows = store_rows (se_waypoints se), mo_active = se_active se,
     mo_staging = map_option (\<lambda>sg. (staged_rows sg, sg_trajectory sg)) (se_staging se),
     mo_epoch = se_epoch se, mo_time = se_current_time se, mo_emitted = se_emitted se\<rparr>"

definition all_rows :: "motion \<Rightarrow> xvector list" where
  "all_rows m = mo_rows m @ tl (case mo_staging m of None \<Rightarrow> [] | Some (rows, _) \<Rightarrow> rows)"

definition branch_ahead :: "motion \<Rightarrow> trajectory \<Rightarrow> trajectory \<Rightarrow> bool" where
  "branch_ahead m tr tr' \<longleftrightarrow> mo_emitted m = 0 \<or> mo_time m < mo_epoch m + find_branch_local_time tr tr'"

definition resume_time :: "seconds \<Rightarrow> motion \<Rightarrow> seconds" where
  "resume_time period m = (if mo_emitted m = 0 then 0 else (mo_time m - mo_epoch m) + period)"

inductive extend_step ::
  "(xvector list \<Rightarrow> trajectory res) \<Rightarrow> seconds \<Rightarrow> motion \<Rightarrow> xvector list \<Rightarrow> extend_result \<Rightarrow> motion \<Rightarrow> bool"
  for build and period where
  First: "mo_active m = None \<Longrightarrow> build ws = Inr tr \<Longrightarrow>
    extend_step build period m ws
      \<lparr>er_kind = K_first_build, er_branch_slack = None, er_delta_total_duration = tr_duration tr\<rparr>
      (m\<lparr>mo_rows := ws, mo_active := Some tr\<rparr>)"
| Noop: "mo_active m = Some tr \<Longrightarrow> ws = [last (all_rows m)] \<Longrightarrow>
    extend_step build period m ws \<lparr>er_kind = K_noop, er_branch_slack = None, er_delta_total_duration = 0\<rparr> m"
| Pivot: "mo_active m = Some tr \<Longrightarrow> mo_staging m = None \<Longrightarrow> hd ws = last (all_rows m) \<Longrightarrow> 1 < length ws \<Longrightarrow>
    build (mo_rows m @ tl ws) = Inr tr' \<Longrightarrow> branch_ahead m tr tr' \<Longrightarrow> resume_time period m < tr_duration tr' \<Longrightarrow>
    extend_step build period m ws
      \<lparr>er_kind = K_pivot, er_branch_slack = Some (mo_epoch m + find_branch_local_time tr tr' - mo_time m),
        er_delta_total_duration = tr_duration tr' - tr_duration tr\<rparr>
      (m\<lparr>mo_rows := mo_rows m @ tl ws, mo_active := Some tr'\<rparr>)"
| Stage: "mo_active m = Some tr \<Longrightarrow> mo_staging m = None \<Longrightarrow> hd ws = last (all_rows m) \<Longrightarrow> 1 < length ws \<Longrightarrow>
    build (mo_rows m @ tl ws) = Inr tr' \<Longrightarrow> \<not> (branch_ahead m tr tr' \<and> resume_time period m < tr_duration tr') \<Longrightarrow>
    build (last (mo_rows m) # tl ws) = Inr tr'' \<Longrightarrow>
    extend_step build period m ws
      \<lparr>er_kind = (if branch_ahead m tr tr' then K_staged_unsamplable else K_staged_branch_sampled),
        er_branch_slack = Some (mo_epoch m + find_branch_local_time tr tr' - mo_time m),
        er_delta_total_duration = tr_duration tr''\<rparr>
      (m\<lparr>mo_staging := Some (last (mo_rows m) # tl ws, Some tr'')\<rparr>)"
| Stage_again: "mo_active m = Some tr \<Longrightarrow> mo_staging m = Some (staged, old) \<Longrightarrow> hd ws = last (all_rows m) \<Longrightarrow> 1 < length ws \<Longrightarrow>
    rows = (if staged = [] then [last (mo_rows m)] else staged) @ tl ws \<Longrightarrow> build rows = Inr tr' \<Longrightarrow>
    extend_step build period m ws
      \<lparr>er_kind = K_staged_again, er_branch_slack = None,
        er_delta_total_duration = (case old of None \<Rightarrow> tr_duration tr' | Some tr'' \<Rightarrow> tr_duration tr' - tr_duration tr'')\<rparr>
      (m\<lparr>mo_staging := Some (rows, Some tr')\<rparr>)"

inductive_cases extend_stepE: "extend_step build period m ws res m'"

text \<open>No step loses a waypoint or takes one twice.\<close>

lemma extend_step_rows:
  assumes "extend_step build period m ws res m'" "ws \<noteq> []"
    "\<And>rows tr. mo_staging m = Some (rows, Some tr) \<Longrightarrow> rows \<noteq> [] \<and> hd rows = last (mo_rows m)"
    "\<And>rows. mo_staging m = Some (rows, None) \<Longrightarrow> rows = []"
    "mo_active m = None \<Longrightarrow> mo_staging m = None"
  shows "all_rows m' = (if mo_active m = None then ws else all_rows m @ tl ws)"
  using assms(1)
proof cases
  case (Stage_again tr staged old rows tr')
  with assms(3) [of staged] assms(4) [of staged] show ?thesis by (cases old) (auto simp: all_rows_def)
qed (use assms in \<open>auto simp: all_rows_def\<close>)

section \<open>Extending refines the abstract step\<close>

definition same_settings :: "session \<Rightarrow> session \<Rightarrow> bool" where
  "same_settings se se' \<longleftrightarrow> se_path_options se' = se_path_options se \<and> se_trajectory_options se' = se_trajectory_options se \<and>
     se_sample_rate se' = se_sample_rate se \<and> se_sample_period se' = se_sample_period se"

definition refines_extend :: "session \<Rightarrow> waypoint_accumulator \<Rightarrow> extend_result res \<times> session \<Rightarrow> bool" where
  "refines_extend se b out \<longleftrightarrow>
     (case fst out of
        Inl e \<Rightarrow> (session_wf (snd out) \<and> session_view (snd out) = session_view se) \<or>
          (\<exists>tr start. quantized_for_trajectory tr (se_sample_rate se) start = Inl e)
      | Inr res \<Rightarrow> session_wf (snd out) \<and> same_settings se (snd out) \<and>
          extend_step (session_build se) (se_sample_period se) (motion_of se) (wa_points b) res (motion_of (snd out)))"

lemma wa_hd_dof: "wa_inv b \<Longrightarrow> wa_size b \<noteq> 0 \<Longrightarrow> length (hd (wa_points b)) = wa_dof b"
  by (simp add: wa_inv_def wa_size_def)

lemma view_waypoints:
  assumes "store_rows st = store_rows (se_waypoints se)"
  shows "session_view (se\<lparr>se_waypoints := st\<rparr>) = session_view se"
    "session_wf se \<Longrightarrow> store_inv st \<Longrightarrow> session_wf (se\<lparr>se_waypoints := st\<rparr>)"
  using assms by (auto simp: session_view_def session_wf_def staging_wf_def motion_rows_def split: option.splits)

lemma extend_first_refines:
  assumes "session_wf se" "se_active se = None" "wa_inv b" "0 < wa_dof b" "wa_size b \<noteq> 0"
  shows "refines_extend se b (extend_first se b)"
proof -
  let ?st = "se_waypoints se" and ?ws = "wa_points b"
  have st: "store_inv ?st" "store_rows ?st = []" "se_staging se = None" using assms(1,2) by (auto simp: session_wf_def)
  have hd: "length (hd ?ws) = wa_dof b" by (rule wa_hd_dof [OF assms(3,5)])
  have ne: "?ws \<noteq> []" using assms(5) by (auto simp: wa_size_def)
  have "0 < wa_size b" "store_rows ?st = [] \<or> wa_dof b = length (hd (store_rows ?st))" "0 \<le> length (store_rows ?st)"
    using assms(5) st(2) by simp_all
  from append_and_build_spec [OF st(1) assms(3,4) this, where se = se]
  obtain st' where ab: "append_and_build se b 0 0 ?st = (session_build se ?ws, st')" "store_inv st'"
    "store_rows st' = (case session_build se ?ws of Inl _ \<Rightarrow> [] | Inr _ \<Rightarrow> ?ws)"
    unfolding st(2) hd by (metis append_Nil drop_0 take_0)
  show ?thesis
  proof (cases "session_build se ?ws")
    case (Inl e)
    with ab st(2) assms(1) show ?thesis by (simp add: refines_extend_def extend_first_def view_waypoints)
  next
    case (Inr tr)
    have p: "path_inv (tr_path tr)" by (rule build_rows_path_inv [OF Inr assms(3) [unfolded wa_inv_def] ne])
    show ?thesis
    proof (cases "quantized_for_trajectory tr (se_sample_rate se) 0")
      case (Inl e)
      with ab Inr show ?thesis
        by (auto simp: refines_extend_def extend_first_def simp del: zero_Fin)
    next
      case u: (Inr u)
      have l: "store_last st' = Inr (last ?ws)" using chunked.final_row [OF ab(2)] ab(3) Inr ne by simp
      obtain c where "install (se\<lparr>se_waypoints := st', se_last_waypoint := last ?ws\<rparr>) tr u =
          (Inr (), se\<lparr>se_waypoints := st', se_last_waypoint := last ?ws, se_active := Some tr, se_cursor := Some c, se_sampler := Some u\<rparr>)"
        by (rule install_spec [OF p])
      then have "extend_first se b = (Inr \<lparr>er_kind = K_first_build, er_branch_slack = None, er_delta_total_duration = tr_duration tr\<rparr>,
          se\<lparr>se_waypoints := st', se_last_waypoint := last ?ws, se_active := Some tr, se_cursor := Some c, se_sampler := Some u,
            se_generation := 1\<rparr>)"
        using ab(1) Inr u l by (simp add: extend_first_def del: zero_Fin)
      moreover have "extend_step (session_build se) (se_sample_period se) (motion_of se) ?ws
          \<lparr>er_kind = K_first_build, er_branch_slack = None, er_delta_total_duration = tr_duration tr\<rparr>
          (motion_of se\<lparr>mo_rows := ?ws, mo_active := Some tr\<rparr>)"
        by (rule First) (simp_all add: motion_of_def assms(2) Inr)
      ultimately show ?thesis
        using ab(2,3) Inr st(3) ne
        by (simp add: refines_extend_def same_settings_def session_wf_def motion_of_def motion_rows_def)
    qed
  qed
qed

text \<open>The session's waypoints with the batch's appended, where the batch has something to append.\<close>

lemma active_facts:
  assumes "session_wf se" "se_active se = Some tr" "wa_inv b" "wa_dof b = ws_dof (se_waypoints se)"
  shows "store_inv (se_waypoints se)" "store_rows (se_waypoints se) \<noteq> []" "0 < wa_dof b"
    "wa_dof b = length (hd (store_rows (se_waypoints se)))" "se_last_waypoint se = last (motion_rows se)"
    "\<forall>r \<in> set (store_rows (se_waypoints se) @ tl (wa_points b)). length r = wa_dof b"
proof -
  show st: "store_inv (se_waypoints se)" "store_rows (se_waypoints se) \<noteq> []" and "se_last_waypoint se = last (motion_rows se)"
    using assms(1,2) by (auto simp: session_wf_def)
  then show "0 < wa_dof b" "wa_dof b = length (hd (store_rows (se_waypoints se)))"
    using assms(4) store_hd_dof by (auto simp: store_inv_def store_rows_empty)
  then have "\<forall>r \<in> set (store_rows (se_waypoints se)). length r = wa_dof b" using rows_of_length [OF st(1)] by metis
  moreover have "\<forall>r \<in> set (tl (wa_points b)). length r = wa_dof b"
    using assms(3) unfolding wa_inv_def by (metis list.sel(2) list.set_sel(2))
  ultimately show "\<forall>r \<in> set (store_rows (se_waypoints se) @ tl (wa_points b)). length r = wa_dof b" by auto
qed

lemma pivot_refines:
  assumes "session_wf se" "se_active se = Some tr" "se_staging se = None" "wa_inv b" "wa_dof b = ws_dof (se_waypoints se)" "1 < wa_size b"
    "hd (wa_points b) = last (motion_rows se)"
    "session_build se (store_rows (se_waypoints se) @ tl (wa_points b)) = Inr tr'"
    "store_inv st" "store_rows st = store_rows (se_waypoints se) @ tl (wa_points b)"
    "branch_ahead (motion_of se) tr tr'" "resume_time (se_sample_period se) (motion_of se) < tr_duration tr'"
  shows "refines_extend se b (pivot (se\<lparr>se_waypoints := st\<rparr>) tr tr' (resume_time (se_sample_period se) (motion_of se))
      (se_epoch se + find_branch_local_time tr tr' - se_current_time se))"
proof -
  note f = active_facts [OF assms(1,2,4,5)]
  have p: "path_inv (tr_path tr')" by (rule build_rows_path_inv [OF assms(8) f(6)]) (simp add: f(2))
  let ?rows = "store_rows (se_waypoints se) @ tl (wa_points b)" and ?t = "resume_time (se_sample_period se) (motion_of se)"
  show ?thesis
  proof (cases "quantized_for_trajectory tr' (se_sample_rate se) ?t")
    case (Inl e)
    then show ?thesis by (auto simp: refines_extend_def pivot_def)
  next
    case (Inr u)
    have l: "store_last st = Inr (last ?rows)" using chunked.final_row [OF assms(9)] assms(10) f(2) by simp
    obtain c where "install (se\<lparr>se_waypoints := st, se_last_waypoint := last ?rows\<rparr>) tr' u =
        (Inr (), se\<lparr>se_waypoints := st, se_last_waypoint := last ?rows, se_active := Some tr', se_cursor := Some c, se_sampler := Some u\<rparr>)"
      by (rule install_spec [OF p])
    moreover have "extend_step (session_build se) (se_sample_period se) (motion_of se) (wa_points b)
        \<lparr>er_kind = K_pivot, er_branch_slack = Some (mo_epoch (motion_of se) + find_branch_local_time tr tr' - mo_time (motion_of se)),
          er_delta_total_duration = tr_duration tr' - tr_duration tr\<rparr>
        (motion_of se\<lparr>mo_rows := mo_rows (motion_of se) @ tl (wa_points b), mo_active := Some tr'\<rparr>)"
      by (rule Pivot)
        (use assms in \<open>simp_all add: motion_of_def all_rows_def motion_rows_def wa_size_def\<close>)
    ultimately show ?thesis
      using Inr l assms(3,8,9,10) f(2)
      by (simp add: refines_extend_def pivot_def same_settings_def session_wf_def motion_of_def motion_rows_def)
  qed
qed

text \<open>The store keeps what a rejected candidate had before, so its rows are those of the session.\<close>

lemma staging_view:
  assumes "session_wf se" "se_active se = Some tr" "se_staging se = Some sg"
    "sg_waypoints sg' = Some w" "store_rows w = staged_rows sg" "sg_trajectory sg' = sg_trajectory sg"
  shows "session_view (se\<lparr>se_staging := Some sg'\<rparr>) = session_view se"
    "store_inv w \<Longrightarrow> session_wf (se\<lparr>se_staging := Some sg'\<rparr>)"
  using assms by (auto simp: session_view_def session_wf_def staging_wf_def motion_rows_def staged_rows_def split: option.splits)

lemma seam_rows_dof:
  assumes "session_wf se" "se_active se = Some tr" "wa_inv b" "wa_dof b = ws_dof (se_waypoints se)" "staging_wf se sg"
  shows "hd (seam_rows se sg @ ws) = last (store_rows (se_waypoints se))" "seam_rows se sg \<noteq> []"
  using assms(5) by (auto simp: seam_rows_def staged_rows_def staging_wf_def split: option.splits)

lemma staged_motion_rows:
  assumes "store_rows (se_waypoints se) \<noteq> []" "se_staging se = Some sg \<or> se_staging se = None \<and> staged_rows sg = []" "1 < wa_size b"
  shows "last (store_rows (se_waypoints se) @ tl (seam_rows se sg @ tl (wa_points b))) = last (wa_points b)"
    "tl (wa_points b) \<noteq> []"
proof -
  show "tl (wa_points b) \<noteq> []" using assms(3) by (cases "wa_points b") (auto simp: wa_size_def)
  then have "tl (seam_rows se sg @ tl (wa_points b)) \<noteq> [] \<and>
      last (tl (seam_rows se sg @ tl (wa_points b))) = last (tl (wa_points b))"
    by (cases "staged_rows sg") (auto simp: seam_rows_def)
  with \<open>tl (wa_points b) \<noteq> []\<close> show "last (store_rows (se_waypoints se) @ tl (seam_rows se sg @ tl (wa_points b))) = last (wa_points b)"
    by (simp add: last_tl)
qed

lemma wa_at_last: "wa_size b \<noteq> 0 \<Longrightarrow> wa_at b (wa_size b - 1) = Inr (last (wa_points b))"
  by (cases "wa_points b") (auto simp: wa_at_def wa_size_def last_conv_nth)

lemma extend_staged_refines:
  assumes "session_wf se" "se_active se = Some tr" "se_staging se = Some sg" "wa_inv b" "wa_dof b = ws_dof (se_waypoints se)"
    "1 < wa_size b" "hd (wa_points b) = last (motion_rows se)"
  shows "refines_extend se b (extend_staged se sg b)"
proof -
  note f = active_facts [OF assms(1,2,4,5)]
  have wf: "staging_wf se sg" using assms(1-3) by (simp add: session_wf_def)
  note seam = seam_rows_dof [OF assms(1,2,4,5) wf]
  let ?rows = "seam_rows se sg @ tl (wa_points b)"
  have act: "se_active se \<noteq> None" using assms(2) by simp
  obtain sg' w where sg': "sg_waypoints sg' = Some w" "store_inv w"
    "case session_build se ?rows of
       Inl e \<Rightarrow> stage se b sg = (Inl e, sg') \<and> store_rows w = staged_rows sg \<and> sg_trajectory sg' = sg_trajectory sg
     | Inr tr' \<Rightarrow> stage se b sg = (Inr (case sg_trajectory sg of None \<Rightarrow> tr_duration tr'
           | Some staged \<Rightarrow> tr_duration tr' - tr_duration staged), sg') \<and>
         store_rows w = ?rows \<and> sg_trajectory sg' = Some tr'"
    by (rule stage_spec [OF assms(1) act wf assms(4-6)])
  show ?thesis
  proof (cases "session_build se ?rows")
    case (Inl e)
    with sg' have "session_wf (se\<lparr>se_staging := Some sg'\<rparr>)" "session_view (se\<lparr>se_staging := Some sg'\<rparr>) = session_view se"
      using staging_view [OF assms(1-3) sg'(1)] by simp_all
    with Inl sg' show ?thesis by (simp add: refines_extend_def extend_staged_def)
  next
    case (Inr tr')
    let ?growth = "case sg_trajectory sg of None \<Rightarrow> tr_duration tr' | Some staged \<Rightarrow> tr_duration tr' - tr_duration staged"
    note rows = staged_motion_rows [OF f(2) disjI1 [OF assms(3)] assms(6)]
    have st: "stage se b sg = (Inr ?growth, sg')" "store_rows w = ?rows" "sg_trajectory sg' = Some tr'"
      using sg'(3) Inr by simp_all
    have out: "extend_staged se sg b = (Inr \<lparr>er_kind = K_staged_again, er_branch_slack = None, er_delta_total_duration = ?growth\<rparr>,
        se\<lparr>se_staging := Some sg', se_last_waypoint := last (wa_points b)\<rparr>)"
      using assms(6) by (simp add: extend_staged_def st(1) wa_at_last [simplified])
    have "extend_step (session_build se) (se_sample_period se) (motion_of se) (wa_points b)
        \<lparr>er_kind = K_staged_again, er_branch_slack = None, er_delta_total_duration = ?growth\<rparr>
        (motion_of se\<lparr>mo_staging := Some (?rows, Some tr')\<rparr>)"
      by (rule Stage_again [where tr = tr and staged = "staged_rows sg" and old = "sg_trajectory sg"])
        (use assms Inr in \<open>simp_all add: motion_of_def all_rows_def motion_rows_def wa_size_def seam_rows_def\<close>)
    moreover have "session_wf (se\<lparr>se_staging := Some sg', se_last_waypoint := last (wa_points b)\<rparr>)"
      using assms(1,2) sg'(1,2) st(2,3) Inr seam rows
      by (simp add: session_wf_def staging_wf_def motion_rows_def staged_rows_def)
    ultimately show ?thesis
      using sg'(1) st(2,3)
      by (simp add: refines_extend_def out same_settings_def motion_of_def staged_rows_def)
  qed
qed

lemma begin_staging_refines:
  assumes "session_wf se" "se_active se = Some tr" "se_staging se = None" "wa_inv b" "wa_dof b = ws_dof (se_waypoints se)" "1 < wa_size b"
    "hd (wa_points b) = last (motion_rows se)"
    "session_build se (store_rows (se_waypoints se) @ tl (wa_points b)) = Inr tr'"
    "store_inv st" "store_rows st = store_rows (se_waypoints se) @ tl (wa_points b)"
    "\<not> (branch_ahead (motion_of se) tr tr' \<and> resume_time (se_sample_period se) (motion_of se) < tr_duration tr')"
  shows "refines_extend se b (begin_staging (se\<lparr>se_waypoints := st\<rparr>) b (ws_size (se_waypoints se))
      (if branch_ahead (motion_of se) tr tr' then K_staged_unsamplable else K_staged_branch_sampled)
      (se_epoch se + find_branch_local_time tr tr' - se_current_time se))"
proof -
  note f = active_facts [OF assms(1,2,4,5)]
  let ?kind = "if branch_ahead (motion_of se) tr tr' then K_staged_unsamplable else K_staged_branch_sampled"
  let ?slack = "se_epoch se + find_branch_local_time tr tr' - se_current_time se"
  let ?sg0 = "\<lparr>sg_waypoints = None, sg_trajectory = None\<rparr>"
  obtain st2 where st2: "store_truncate st (ws_size (se_waypoints se)) = Inr st2" "store_inv st2"
    "store_rows st2 = store_rows (se_waypoints se)"
    using chunked.shrink_rows [OF assms(9), of "ws_size (se_waypoints se)"] assms(10) by auto
  define se1 where "se1 = se\<lparr>se_waypoints := st2\<rparr>"
  have se1: "session_wf se1" "se_active se1 \<noteq> None" "wa_dof b = ws_dof (se_waypoints se1)" "staging_wf se1 ?sg0"
    "se_path_options se1 = se_path_options se" "se_trajectory_options se1 = se_trajectory_options se" "motion_of se1 = motion_of se" "motion_rows se1 = motion_rows se"
    "session_view se1 = session_view se"
  proof -
    show "session_wf se1" using assms(1,2,3) st2(2,3) by (simp add: session_wf_def se1_def motion_rows_def)
    have "store_rows st2 \<noteq> []" using st2(3) f(2) by simp
    from store_hd_dof [OF st2(2) this] show "wa_dof b = ws_dof (se_waypoints se1)" using f(4) st2(3) by (simp add: se1_def)
  qed (use assms(2,3) st2(3) in \<open>auto simp: se1_def staging_wf_def motion_of_def motion_rows_def session_view_def\<close>)
  let ?rows = "last (store_rows (se_waypoints se)) # tl (wa_points b)"
  have rows: "seam_rows se1 ?sg0 @ tl (wa_points b) = ?rows" "staged_rows ?sg0 = []"
    using st2(3) by (simp_all add: seam_rows_def staged_rows_def se1_def)
  obtain sg' w where sg': "sg_waypoints sg' = Some w" "store_inv w"
    "case session_build se ?rows of
       Inl e \<Rightarrow> stage se1 b ?sg0 = (Inl e, sg') \<and> store_rows w = staged_rows ?sg0 \<and> sg_trajectory sg' = sg_trajectory ?sg0
     | Inr tr'' \<Rightarrow> stage se1 b ?sg0 = (Inr (case sg_trajectory ?sg0 of None \<Rightarrow> tr_duration tr''
           | Some staged \<Rightarrow> tr_duration tr'' - tr_duration staged), sg') \<and>
         store_rows w = ?rows \<and> sg_trajectory sg' = Some tr''"
    by (rule stage_spec [OF se1(1,2,4) assms(4) se1(3) assms(6), unfolded rows(1) se1(5,6)])
  have out: "begin_staging (se\<lparr>se_waypoints := st\<rparr>) b (ws_size (se_waypoints se)) ?kind ?slack =
      (let (growth, sg) = stage se1 b ?sg0
       in then_do (growth, se1) (\<lambda>growth se1.
            (Inr \<lparr>er_kind = ?kind, er_branch_slack = Some ?slack, er_delta_total_duration = growth\<rparr>,
             se1\<lparr>se_staging := Some sg, se_last_waypoint := last (wa_points b)\<rparr>)))"
    using assms(6) st2(1) by (simp add: begin_staging_def se1_def wa_at_last [simplified] then_do_def split: prod.split sum.split)
  show ?thesis
  proof (cases "session_build se ?rows")
    case (Inl e)
    with sg'(3) se1(1,9) show ?thesis by (simp add: refines_extend_def out)
  next
    case (Inr tr'')
    have st: "stage se1 b ?sg0 = (Inr (tr_duration tr''), sg')" "store_rows w = ?rows" "sg_trajectory sg' = Some tr''"
      using sg'(3) Inr by simp_all
    have "extend_step (session_build se) (se_sample_period se) (motion_of se) (wa_points b)
        \<lparr>er_kind = ?kind, er_branch_slack = Some (mo_epoch (motion_of se) + find_branch_local_time tr tr' - mo_time (motion_of se)),
          er_delta_total_duration = tr_duration tr''\<rparr>
        (motion_of se\<lparr>mo_staging := Some (last (mo_rows (motion_of se)) # tl (wa_points b), Some tr'')\<rparr>)"
      by (rule Stage [where tr = tr])
        (use assms Inr in \<open>simp_all add: motion_of_def all_rows_def motion_rows_def wa_size_def\<close>)
    moreover have "tl (wa_points b) \<noteq> []" using assms(6) by (cases "wa_points b") (auto simp: wa_size_def)
    then have "session_wf (se1\<lparr>se_staging := Some sg', se_last_waypoint := last (wa_points b)\<rparr>)"
      using assms(1,2) sg'(1,2) st(2,3) Inr st2(2,3) f(2)
      by (simp add: session_wf_def staging_wf_def motion_rows_def staged_rows_def se1_def last_tl)
    moreover have "motion_of (se1\<lparr>se_staging := Some sg', se_last_waypoint := last (wa_points b)\<rparr>) =
        motion_of se\<lparr>mo_staging := Some (last (mo_rows (motion_of se)) # tl (wa_points b), Some tr'')\<rparr>"
      "same_settings se (se1\<lparr>se_staging := Some sg', se_last_waypoint := last (wa_points b)\<rparr>)"
      using sg'(1) st(2,3) st2(3) by (simp_all add: motion_of_def staged_rows_def se1_def same_settings_def)
    moreover have "mo_epoch (motion_of se) = se_epoch se" "mo_time (motion_of se) = se_current_time se"
      by (simp_all add: motion_of_def)
    ultimately show ?thesis by (simp add: refines_extend_def out st(1))
  qed
qed

lemma extend_active_refines:
  assumes "session_wf se" "se_active se = Some tr" "se_staging se = None" "wa_inv b" "wa_dof b = ws_dof (se_waypoints se)" "1 < wa_size b"
    "hd (wa_points b) = last (motion_rows se)"
  shows "refines_extend se b (extend_active se tr b)"
proof -
  note f = active_facts [OF assms(1,2,4,5)]
  let ?st = "se_waypoints se" and ?rows = "store_rows (se_waypoints se) @ tl (wa_points b)"
  have build: "build_rows (se_path_options se) (se_trajectory_options se) (wa_dof b) ?rows = session_build se ?rows"
    using f(2,4) by simp
  have "store_rows ?st = [] \<or> wa_dof b = length (hd (store_rows ?st))" "ws_size ?st \<le> length (store_rows ?st)"
    "take (ws_size ?st) (store_rows ?st) = store_rows ?st" "drop 1 (wa_points b) = tl (wa_points b)"
    using f(4) by (simp_all add: drop_Suc)
  with append_and_build_spec [OF f(1) assms(4) f(3) assms(6), of "ws_size ?st" se]
  obtain st where st: "append_and_build se b 1 (ws_size ?st) ?st = (session_build se ?rows, st)" "store_inv st"
    "store_rows st = (case session_build se ?rows of Inl _ \<Rightarrow> store_rows ?st | Inr _ \<Rightarrow> ?rows)"
    unfolding build [symmetric] by metis
  show ?thesis
  proof (cases "session_build se ?rows")
    case (Inl e)
    with st assms(1) show ?thesis by (simp add: refines_extend_def extend_active_def view_waypoints)
  next
    case (Inr tr')
    then have rows: "store_rows st = ?rows" using st(3) by simp
    let ?ahead = "branch_ahead (motion_of se) tr tr'" and ?t = "resume_time (se_sample_period se) (motion_of se)"
    let ?slack = "se_epoch se + find_branch_local_time tr tr' - se_current_time se"
    have out: "extend_active se tr b =
      (if ?ahead \<and> ?t < tr_duration tr' then pivot (se\<lparr>se_waypoints := st\<rparr>) tr tr' ?t ?slack
       else begin_staging (se\<lparr>se_waypoints := st\<rparr>) b (ws_size (se_waypoints se))
         (if ?ahead then K_staged_unsamplable else K_staged_branch_sampled) ?slack)"
      using st(1) Inr by (simp add: extend_active_def Let_def branch_ahead_def resume_time_def motion_of_def)
    show ?thesis
    proof (cases "?ahead \<and> ?t < tr_duration tr'")
      case True
      with pivot_refines [OF assms Inr st(2) rows] show ?thesis unfolding out by simp
    next
      case False
      with begin_staging_refines [OF assms Inr st(2) rows False] show ?thesis unfolding out by (simp only: if_False)
    qed
  qed
qed

lemma refines_unchanged: "session_wf se \<Longrightarrow> refines_extend se b (Inl e, se)"
  by (simp add: refines_extend_def)

lemma extend_refines_lemma:
  assumes "session_wf se" "wa_inv b" "0 < wa_dof b"
  shows "refines_extend se b (session_extend se b)"
proof (cases "wa_size b = 0")
  case True
  then show ?thesis by (simp add: session_extend_def refines_unchanged [OF assms(1)])
next
  case False
  have at0: "wa_at b 0 = Inr (hd (wa_points b))" using False by (auto simp: wa_at_def wa_size_def hd_conv_nth)
  show ?thesis
  proof (cases "se_active se")
    case None
    with False extend_first_refines [OF assms(1) None assms(2,3)] show ?thesis by (simp add: session_extend_def)
  next
    case (Some tr)
    show ?thesis
    proof (cases "wa_dof b = ws_dof (se_waypoints se) \<and> hd (wa_points b) = se_last_waypoint se")
      case False
      with Some \<open>wa_size b \<noteq> 0\<close> at0 show ?thesis by (auto simp: session_extend_def refines_unchanged [OF assms(1)])
    next
      case seam: True
      have l: "hd (wa_points b) = last (motion_rows se)" using seam assms(1) Some by (simp add: session_wf_def)
      show ?thesis
      proof (cases "wa_size b = 1")
        case True
        then have ws: "wa_points b = [last (all_rows (motion_of se))]"
          using l by (cases "wa_points b") (auto simp: wa_size_def all_rows_def motion_of_def motion_rows_def split: option.split)
        have "extend_step (session_build se) (se_sample_period se) (motion_of se) (wa_points b)
            \<lparr>er_kind = K_noop, er_branch_slack = None, er_delta_total_duration = 0\<rparr> (motion_of se)"
          by (rule Noop [OF _ ws]) (simp add: motion_of_def Some)
        with True seam Some at0 assms(1) show ?thesis
          by (simp add: session_extend_def refines_extend_def same_settings_def del: zero_Fin)
      next
        case n: False
        with False have n: "1 < wa_size b" by simp
        show ?thesis
        proof (cases "se_staging se")
          case None
          with extend_active_refines [OF assms(1) Some None assms(2) _ n l] seam Some at0 n show ?thesis by (simp add: session_extend_def)
        next
          case (Some sg)
          with extend_staged_refines [OF assms(1) \<open>se_active se = Some tr\<close> Some assms(2) _ n l] seam
            \<open>se_active se = Some tr\<close> at0 n show ?thesis by (simp add: session_extend_def)
        qed
      qed
    qed
  qed
qed

end
