(* ===== verification/Session_Sampling.thy ===== *)
theory Session_Sampling
  imports Session_Safety
begin

text \<open>
  Sampling a session: the clock of the session and of its sampler, the abstract sampling step, and runs
  of a session, in which calls follow each other in any order.
\<close>

section \<open>The clock\<close>

definition usable :: "trajectory \<Rightarrow> bool" where
  "usable tr \<longleftrightarrow> traj_inv tr \<and> isfinite (tr_duration tr) \<and> 0 < tr_duration tr"

definition sampler_ok :: "trajectory \<Rightarrow> uniform_sampler \<Rightarrow> bool" where
  "sampler_ok tr u \<longleftrightarrow> uniform_ready tr u \<and> (us_num_samples u = 1 \<or> us_start u < tr_duration tr)"

text \<open>The last sample lies before the next one, and at the end of the trajectory when none is left.\<close>

definition clock_inv :: "session \<Rightarrow> trajectory \<Rightarrow> uniform_sampler \<Rightarrow> bool" where
  "clock_inv se tr u \<longleftrightarrow> isfinite (se_epoch se) \<and> isfinite (se_current_time se) \<and>
     (if se_emitted se = 0 then se_epoch se = 0 \<and> se_current_time se = 0 else se_epoch se \<le> se_current_time se) \<and>
     (if sampler_remaining u = 0 then se_emitted se \<noteq> 0 \<and> se_current_time se = se_epoch se + tr_duration tr
      else se_emitted se = 0 \<or> se_current_time se < se_epoch se + uniform_due tr u)"

definition sampling_inv :: "session \<Rightarrow> bool" where
  "sampling_inv se \<longleftrightarrow>
     (case se_active se of
        None \<Rightarrow> se_sampler se = None \<and> se_cursor se = None \<and> se_emitted se = 0 \<and> se_epoch se = 0 \<and> se_current_time se = 0
      | Some tr \<Rightarrow> usable tr \<and>
          (\<exists>u c. se_sampler se = Some u \<and> se_cursor se = Some c \<and> traj_cursor_inv c \<and> tc_trajectory c = tr \<and>
            sampler_ok tr u \<and> clock_inv se tr u) \<and>
          (\<forall>staged. staged_trajectory se = Some staged \<longrightarrow> usable staged))"

definition rate_ok :: "session \<Rightarrow> bool" where
  "rate_ok se \<longleftrightarrow> (\<exists>r > 0. se_sample_rate se = Fin r \<and> se_sample_period se = Fin (1 / r))"

definition session_inv :: "session \<Rightarrow> bool" where
  "session_inv se \<longleftrightarrow> session_wf se \<and> rate_ok se \<and> sampling_inv se"

lemma make_session_inv: "make_session po opt rate = Inr se \<Longrightarrow> session_inv se"
  by (cases rate) (auto simp: make_session_def validate_sample_rate_and_compute_period_def session_inv_def session_wf_def
      rate_ok_def sampling_inv_def empty_store_inv split: if_splits)

section \<open>Due times\<close>

lemma usable_duration: "usable tr \<Longrightarrow> \<exists>d > 0. tr_duration tr = Fin d"
  by (auto simp: usable_def isfinite_iff)

lemma sampler_remaining_pos:
  assumes "uniform_ready tr u" "sampler_remaining u \<noteq> 0"
  shows "us_next_sample u < us_num_samples u"
  using assms by (auto simp: uniform_ready_def sampler_remaining_def order_less_le)

lemma uniform_after_fields [simp]:
  "us_start (uniform_after u) = us_start u" "us_num_samples (uniform_after u) = us_num_samples u"
  "us_next_sample (uniform_after u) = us_next_sample u + 1"
  by (simp_all add: uniform_after_def)

lemma sampler_after:
  assumes "sampler_ok tr u" "sampler_remaining u \<noteq> 0"
  shows "sampler_ok tr (uniform_after u)" "unat (sampler_remaining u) = Suc (unat (sampler_remaining (uniform_after u)))"
  using assms uniform.counts [of tr u] by (auto simp: sampler_ok_def)

text \<open>The due times increase, and the last one is the duration.\<close>

lemma due_increases:
  assumes "sampler_ok tr u" "sampler_remaining u \<noteq> 0" "sampler_remaining (uniform_after u) \<noteq> 0"
  shows "uniform_due tr u < uniform_due tr (uniform_after u)"
proof -
  have r: "uniform_ready tr u" "uniform_ready tr (uniform_after u)"
    using assms(1) sampler_after(1) [OF assms(1,2)] by (auto simp: sampler_ok_def)
  then obtain a d where ad: "us_start u = Fin a" "tr_duration tr = Fin d" by (auto simp: uniform_ready_def isfinite_iff)
  note l = sampler_remaining_pos [OF r(1) assms(2)] and l' = sampler_remaining_pos [OF r(2) assms(3)]
  have i: "unat (us_next_sample u + 1) = unat (us_next_sample u) + 1" by (rule size_succ [OF l])
  have n: "unat (us_next_sample u) + 1 < unat (us_num_samples u)"
    using l' i by (simp add: word_less_nat_alt)
  then have one: "us_num_samples u \<noteq> 1" by auto
  with assms(1) ad have "a < d" by (simp add: sampler_ok_def)
  with n have "real (unat (us_next_sample u)) / real (unat (us_num_samples u) - 1) * (d - a) <
      real (unat (us_next_sample u) + 1) / real (unat (us_num_samples u) - 1) * (d - a)"
    by (intro mult_strict_right_mono divide_strict_right_mono) (auto simp del: of_nat_unat)
  then show ?thesis
    using uniform_due_eq [OF l ad] uniform_due_eq [OF l', of a tr d] ad i one by (simp del: of_nat_unat)
qed

lemma due_last:
  assumes "sampler_ok tr u" "sampler_remaining u \<noteq> 0" "sampler_remaining (uniform_after u) = 0"
  shows "uniform_due tr u = tr_duration tr"
proof -
  have r: "uniform_ready tr u" using assms(1) by (simp add: sampler_ok_def)
  then obtain a d where ad: "us_start u = Fin a" "tr_duration tr = Fin d" by (auto simp: uniform_ready_def isfinite_iff)
  have "us_next_sample u + 1 = us_num_samples u" using assms(3) by (simp add: sampler_remaining_def)
  then have "us_next_sample u = us_num_samples u - 1" by (metis add_diff_cancel)
  then show ?thesis by (simp add: uniform_due_def lerp_def)
qed

lemma remaining_one: "sampler_ok tr u \<Longrightarrow> sampler_remaining u = 1 \<Longrightarrow> uniform_due tr u = tr_duration tr"
  using due_last [of tr u] sampler_after(2) [of tr u] by (simp add: unat_eq_0)

lemma quantized_ok:
  assumes "usable tr" "quantized_for_trajectory tr f start = Inr u"
  shows "sampler_ok tr u" "sampler_remaining u \<noteq> 0" "us_start u = start" "us_next_sample u = 0" "uniform_due tr u = start" "0 \<le> start"
proof -
  obtain a d g n where q: "start = Fin a" "tr_duration tr = Fin d" "f = Fin g" "0 \<le> a" "a < d"
    "calculate_quantized_samples (Fin (d - a)) (Fin g) = Inr n" "u = \<lparr>us_num_samples = n, us_next_sample = 0, us_start = Fin a\<rparr>"
    using quantized_for_trajectory_Inr [OF assms(2)] by metis
  note n = quantized_samples_Inr [OF q(6)]
  show ok: "sampler_ok tr u" "us_start u = start" "us_next_sample u = 0" "0 \<le> start" using q by (simp_all add: sampler_ok_def uniform_ready_def)
  show left: "sampler_remaining u \<noteq> 0" using n(4) q(7) by (auto simp: sampler_remaining_def)
  have "us_num_samples u \<noteq> 1" using n(4) q(7) by auto
  with uniform_due_eq [of u a tr d] q sampler_remaining_pos [of tr u] ok(1) left show "uniform_due tr u = start"
    by (simp add: sampler_ok_def)
qed

lemma one_shot_ok:
  assumes "usable tr"
  shows "sampler_ok tr (make_uniform_sampler 1 0)" "sampler_remaining (make_uniform_sampler 1 0) \<noteq> 0"
    "uniform_due tr (make_uniform_sampler 1 0) = tr_duration tr"
  using usable_duration [OF assms]
  by (auto simp: sampler_ok_def uniform_ready_def make_uniform_sampler_def sampler_remaining_def uniform_due_def lerp_def)

section \<open>Pulling a sample\<close>

lemma pull_sample_spec:
  assumes "se_sampler se = Some u" "se_cursor se = Some c" "sampler_ok tr u" "sampler_remaining u \<noteq> 0"
    "traj_cursor_inv c" "tc_trajectory c = tr"
  shows "case trajectory_sample tr (uniform_due tr u) of
      Inl e \<Rightarrow> fst (pull_sample se) = Inl e
    | Inr smp \<Rightarrow> \<exists>c'. pull_sample se = (Inr (Some smp), se\<lparr>se_sampler := Some (uniform_after u), se_cursor := Some c'\<rparr>) \<and>
        traj_cursor_inv c' \<and> tc_trajectory c' = tr"
proof -
  have ready: "uniform_ready tr u" using assms(3) by (simp add: sampler_ok_def)
  note due = uniform_due_range [OF ready assms(4)]
  have "traj_inv tr" using assms(5,6) by (simp add: traj_cursor_inv_def)
  moreover have "\<not> (uniform_due tr u < 0 \<or> tr_duration tr < uniform_due tr u)"
    using due by (cases "uniform_due tr u"; cases "tr_duration tr") auto
  ultimately have sample: "trajectory_sample tr (uniform_due tr u) = sample_of tr (uniform_due tr u)"
    using due by (simp add: trajectory_sample_eq del: zero_Fin)
  obtain c' where c': "traj_seek c (uniform_due tr u) = Inr c'"
    "case sample_of tr (uniform_due tr u) of Inl e \<Rightarrow> traj_cursor_sample c' = Inl e
       | Inr smp \<Rightarrow> \<exists>c''. traj_cursor_sample c' = Inr (smp, c'') \<and> traj_cursor_inv c'' \<and> tc_trajectory c'' = tr"
    using seek_then_sample [OF assms(5), of "uniform_due tr u"] due assms(6) by auto
  have "sampler_advance u c = Inr (True, uniform_after u, c')"
    using uniform.advances [OF ready assms(4,6)] c'(1) by simp
  with c'(2) assms(1,2) show ?thesis
    by (cases "sample_of tr (uniform_due tr u)") (auto simp: sample pull_sample_def Let_def)
qed

lemma pull_sample_exhausted:
  assumes "se_sampler se = Some u" "se_cursor se = Some c" "sampler_remaining u = 0"
  shows "pull_sample se = (Inr None, se)"
  using assms by (cases se) (simp add: pull_sample_def sampler_advance_def sampler_remaining_def)

text \<open>Emitting a sample at a due time winds the clock.\<close>

lemma clock_after:
  assumes "sampler_ok tr u" "sampler_remaining u \<noteq> 0" "isfinite (se_epoch se)" "se_emitted se \<noteq> 0"
    "se_current_time se = se_epoch se + uniform_due tr u"
  shows "clock_inv se tr (uniform_after u)"
proof -
  have ready: "uniform_ready tr u" using assms(1) by (simp add: sampler_ok_def)
  obtain e x where ex: "se_epoch se = Fin e" "uniform_due tr u = Fin x" "0 \<le> x"
    using assms(3) uniform_due_range [OF ready assms(2)] by (auto simp: isfinite_iff)
  show ?thesis
  proof (cases "sampler_remaining (uniform_after u) = 0")
    case True
    with due_last [OF assms(1,2)] ex(2) have "tr_duration tr = Fin x" by simp
    with True assms ex show ?thesis by (simp add: clock_inv_def)
  next
    case False
    have "uniform_ready tr (uniform_after u)" using sampler_after(1) [OF assms(1,2)] by (simp add: sampler_ok_def)
    then obtain y where "uniform_due tr (uniform_after u) = Fin y"
      using uniform_due_range [OF _ False, of tr] by (auto simp: isfinite_iff)
    with due_increases [OF assms(1,2) False] False assms ex show ?thesis by (simp add: clock_inv_def)
  qed
qed

section \<open>The abstract sampling step\<close>

definition nothing_staged :: "motion \<Rightarrow> bool" where
  "nothing_staged m \<longleftrightarrow> (case mo_staging m of Some (_, Some _) \<Rightarrow> False | _ \<Rightarrow> True)"

inductive sample_step :: "motion \<Rightarrow> traj_sample option \<Rightarrow> motion \<Rightarrow> bool" where
  Emit: "mo_active m = Some tr \<Longrightarrow> trajectory_sample tr t = Inr smp \<Longrightarrow>
    mo_emitted m = 0 \<or> mo_time m < mo_epoch m + t \<Longrightarrow> t < tr_duration tr \<or> nothing_staged m \<Longrightarrow>
    sample_step m (Some (smp\<lparr>sm_time := mo_epoch m + t\<rparr>)) (m\<lparr>mo_time := mo_epoch m + t, mo_emitted := Suc (mo_emitted m)\<rparr>)"
| Rebase: "mo_active m = Some tr \<Longrightarrow> mo_staging m = Some (rows, Some tr') \<Longrightarrow> trajectory_sample tr' t = Inr smp \<Longrightarrow>
    epoch = mo_epoch m + tr_duration tr \<Longrightarrow> mo_emitted m = 0 \<or> mo_time m < epoch + t \<Longrightarrow>
    sample_step m (Some (smp\<lparr>sm_time := epoch + t\<rparr>))
      \<lparr>mo_rows = rows, mo_active = Some tr', mo_staging = None, mo_epoch = epoch, mo_time = epoch + t,
       mo_emitted = Suc (mo_emitted m)\<rparr>"
| Drained: "mo_active m = None \<or> (\<exists>tr. mo_active m = Some tr \<and> nothing_staged m \<and> mo_time m = mo_epoch m + tr_duration tr) \<Longrightarrow>
    sample_step m None m"

inductive_cases sample_stepE: "sample_step m out m'"

definition total_end :: "motion \<Rightarrow> seconds" where
  "total_end m =
     (case mo_active m of
        None \<Rightarrow> 0
      | Some tr \<Rightarrow> (case mo_staging m of
            Some (_, Some tr') \<Rightarrow> mo_epoch m + tr_duration tr + tr_duration tr'
          | _ \<Rightarrow> mo_epoch m + tr_duration tr))"

text \<open>Sampling never moves the end of the motion, and never goes back in time.\<close>

lemma sample_step_end: "sample_step m out m' \<Longrightarrow> total_end m' = total_end m"
  by (cases rule: sample_step.cases) (auto simp: total_end_def split: option.splits)

lemma sample_step_time:
  "sample_step m (Some smp) m' \<Longrightarrow>
    mo_time m' = sm_time smp \<and> mo_emitted m' = Suc (mo_emitted m) \<and> (mo_emitted m = 0 \<or> mo_time m < sm_time smp)"
  by (cases rule: sample_step.cases) auto

section \<open>Rebasing\<close>

lemma install_staged_spec:
  assumes "session_wf se" "se_active se = Some tr" "staged_trajectory se = Some tr'" "usable tr'" "install_staged se start = (r, se')"
  shows "case r of
      Inl e \<Rightarrow> se' = se \<and> start < tr_duration tr' \<and> quantized_for_trajectory tr' (se_sample_rate se) start = Inl e
    | Inr _ \<Rightarrow> \<exists>w u c. staged_waypoints se = Some w \<and>
        se' = se\<lparr>se_waypoints := w, se_active := Some tr', se_cursor := Some c, se_sampler := Some u,
                se_epoch := se_epoch se + tr_duration tr, se_staging := None, se_generation := Suc (se_generation se)\<rparr> \<and>
        session_wf se' \<and> traj_cursor_inv c \<and> tc_trajectory c = tr' \<and> sampler_ok tr' u \<and> sampler_remaining u \<noteq> 0 \<and>
        uniform_due tr' u = (if start < tr_duration tr' then start else tr_duration tr')"
proof -
  obtain sg where sg: "se_staging se = Some sg" "sg_trajectory sg = Some tr'"
    using assms(3) by (auto simp: staged_trajectory_def split: option.splits)
  then have wf: "staging_wf se sg" "store_inv (se_waypoints se)" "store_rows (se_waypoints se) \<noteq> []"
    using assms(1,2) by (auto simp: session_wf_def)
  then obtain w where w: "sg_waypoints sg = Some w" "store_inv w" "store_rows w \<noteq> []" "session_build se (store_rows w) = Inr tr'"
    "hd (store_rows w) = last (store_rows (se_waypoints se))"
    using sg(2) by (auto simp: staging_wf_def split: option.splits)
  have sw: "staged_waypoints se = Some w" using sg(1) w(1) by (simp add: staged_waypoints_def)
  have "traj_inv tr'" using assms(4) by (simp add: usable_def)
  then obtain c where c: "create_traj_cursor tr' = Inr c" "traj_cursor_inv c" "tc_trajectory c = tr'"
    using create_traj_cursor_inv by blast
  let ?q = "if start < tr_duration tr' then quantized_for_trajectory tr' (se_sample_rate se) start
            else Inr (make_uniform_sampler 1 0)"
  show ?thesis
  proof (cases ?q)
    case (Inl e)
    then have "install_staged se start = (Inl e, se)"
      using assms(2,3) by (simp add: install_staged_def sw)
    moreover have "start < tr_duration tr' \<and> quantized_for_trajectory tr' (se_sample_rate se) start = Inl e"
      using Inl by (simp split: if_splits)
    ultimately show ?thesis using assms(5) by simp
  next
    case (Inr u)
    define se2 where "se2 = se\<lparr>se_waypoints := w, se_active := Some tr', se_cursor := Some c, se_sampler := Some u,
                se_epoch := se_epoch se + tr_duration tr, se_staging := None, se_generation := Suc (se_generation se)\<rparr>"
    have "install_staged se start = (Inr (), se2)"
      using assms(2,3) Inr c(1) by (simp add: install_staged_def sw install_def se2_def)
    then have r: "r = Inr ()" "se' = se2" using assms(5) by simp_all
    have "last (motion_rows se) = last (store_rows w)"
      using sg(1) w(1,3,5) wf(3) by (cases "store_rows w") (auto simp: motion_rows_def staged_rows_def)
    then have "session_wf se2"
      using assms(1,2) w(2-4) by (simp add: session_wf_def se2_def motion_rows_def)
    moreover have "sampler_ok tr' u \<and> sampler_remaining u \<noteq> 0 \<and>
        uniform_due tr' u = (if start < tr_duration tr' then start else tr_duration tr')"
      using Inr quantized_ok [OF assms(4), of "se_sample_rate se" start u] one_shot_ok [OF assms(4)] by (auto split: if_splits)
    ultimately show ?thesis using r c(2,3) sw unfolding se2_def by (simp only: sum.case) blast
  qed
qed

section \<open>Sampling refines the abstract step\<close>

text \<open>What a call that samples can throw: what a sample of the trajectory throws, or what the sampler does.\<close>

definition sampling_error :: "session \<Rightarrow> exn \<Rightarrow> bool" where
  "sampling_error se e \<longleftrightarrow>
     (\<exists>tr t. (se_active se = Some tr \<or> staged_trajectory se = Some tr) \<and> isfinite t \<and> 0 \<le> t \<and>
       (t \<le> tr_duration tr \<and> trajectory_sample tr t = Inl e \<or>
        t < tr_duration tr \<and> quantized_for_trajectory tr (se_sample_rate se) t = Inl e))"

text \<open>
  What a call that throws leaves behind: a session whose motion is as it was, or in which the staged
  trajectory had already taken the place of the active one.
\<close>

definition rebased :: "motion \<Rightarrow> motion \<Rightarrow> bool" where
  "rebased m m' \<longleftrightarrow>
     (\<exists>tr rows tr'. mo_active m = Some tr \<and> mo_staging m = Some (rows, Some tr') \<and>
       m' = m\<lparr>mo_rows := rows, mo_active := Some tr', mo_staging := None, mo_epoch := mo_epoch m + tr_duration tr\<rparr>)"

definition interrupted :: "session \<Rightarrow> session \<Rightarrow> bool" where
  "interrupted se se' \<longleftrightarrow> session_wf se' \<and> same_settings se se' \<and>
     (motion_of se' = motion_of se \<or> rebased (motion_of se) (motion_of se'))"

lemma session_wf_cong:
  assumes "se_waypoints se' = se_waypoints se" "se_active se' = se_active se" "se_staging se' = se_staging se"
    "se_last_waypoint se' = se_last_waypoint se" "se_path_options se' = se_path_options se"
    "se_trajectory_options se' = se_trajectory_options se"
  shows "session_wf se' = session_wf se"
  unfolding session_wf_def staging_wf_def motion_rows_def assms by (rule refl)

text \<open>Pulling a sample touches the sampler and the cursor only.\<close>

lemma pull_sample_frame:
  assumes "pull_sample se = (r, se')"
  obtains u c where "se' = se\<lparr>se_sampler := u, se_cursor := c\<rparr>"
proof -
  have same: "\<exists>u c. x = x\<lparr>se_sampler := u, se_cursor := c\<rparr>" for x :: session
    by (intro exI [of _ "se_sampler x"] exI [of _ "se_cursor x"]) simp
  from assms have "\<exists>u c. se' = se\<lparr>se_sampler := u, se_cursor := c\<rparr>"
    by (auto simp: pull_sample_def Let_def intro: same split: option.splits sum.splits prod.splits if_splits)
  then show thesis using that by blast
qed

lemma pull_interrupted:
  assumes "pull_sample se1 = (r, se2)" "interrupted se se1"
  shows "interrupted se se2"
proof -
  obtain u c where p: "se2 = se1\<lparr>se_sampler := u, se_cursor := c\<rparr>" by (rule pull_sample_frame [OF assms(1)])
  have "session_wf se2 = session_wf se1" by (rule session_wf_cong) (simp_all add: p)
  moreover have "motion_of se2 = motion_of se1" "same_settings se se2 = same_settings se se1"
    by (simp_all add: p motion_of_def same_settings_def)
  ultimately show ?thesis using assms(2) by (simp add: interrupted_def)
qed

lemma interrupted_refl: "session_wf se \<Longrightarrow> interrupted se se"
  by (simp add: interrupted_def same_settings_def)

definition samples_left :: "session \<Rightarrow> nat" where
  "samples_left se = (case se_sampler se of None \<Rightarrow> 0 | Some u \<Rightarrow> unat (sampler_remaining u)) +
     (if staged_trajectory se = None then 0 else 2 ^ 64)"

definition refines_sample :: "session \<Rightarrow> traj_sample option res \<times> session \<Rightarrow> bool" where
  "refines_sample se out \<longleftrightarrow>
     (case fst out of
        Inl e \<Rightarrow> sampling_error se e \<and> interrupted se (snd out)
      | Inr smp \<Rightarrow> session_inv (snd out) \<and> same_settings se (snd out) \<and>
          sample_step (motion_of se) smp (motion_of (snd out)) \<and>
          (smp = None \<longrightarrow> snd out = se) \<and> (smp \<noteq> None \<longrightarrow> samples_left (snd out) < samples_left se))"

lemma usable_traj_inv: "usable tr \<Longrightarrow> traj_inv tr"
  by (simp add: usable_def)

text \<open>Pulling from a session right after a rebase, whose sampler has not been used.\<close>

lemma rebase_pull_refines:
  assumes "session_inv se" "se_active se = Some tr" "staged_trajectory se = Some tr'"
    "isfinite start" "0 \<le> start"
    "se_emitted se = 0 \<or> se_current_time se < se_epoch se + tr_duration tr + (if start < tr_duration tr' then start else tr_duration tr')"
    "\<And>se1 smp se2. install_staged se start = (Inr (), se1) \<Longrightarrow> pull_sample se1 = (Inr (Some smp), se2) \<Longrightarrow> k = emit smp se2"
    "\<And>se1 se2 e. install_staged se start = (Inr (), se1) \<Longrightarrow> pull_sample se1 = (Inl e, se2) \<Longrightarrow> k = (Inl e, se2)"
    "\<And>e. install_staged se start = (Inl e, se) \<Longrightarrow> k = (Inl e, se)"
  shows "refines_sample se k"
proof -
  have inv: "session_wf se" "rate_ok se" "usable tr" "usable tr'"
    using assms(1-3) by (auto simp: session_inv_def sampling_inv_def)
  obtain u0 where clk: "clock_inv se tr u0" using assms(1,2) by (auto simp: session_inv_def sampling_inv_def)
  obtain r se1 where i: "install_staged se start = (r, se1)" by fastforce
  note spec = install_staged_spec [OF inv(1) assms(2,3) inv(4) i]
  show ?thesis
  proof (cases r)
    case (Inl e)
    with spec i assms(3-5,9) have "k = (Inl e, se)" "sampling_error se e" by (auto simp: sampling_error_def)
    then show ?thesis using inv(1) by (simp add: refines_sample_def interrupted_refl)
  next
    case (Inr x)
    let ?t = "if start < tr_duration tr' then start else tr_duration tr'"
    obtain w u c where w: "staged_waypoints se = Some w"
      "se1 = se\<lparr>se_waypoints := w, se_active := Some tr', se_cursor := Some c, se_sampler := Some u,
              se_epoch := se_epoch se + tr_duration tr, se_staging := None, se_generation := Suc (se_generation se)\<rparr>"
      "session_wf se1" "traj_cursor_inv c" "tc_trajectory c = tr'" "sampler_ok tr' u" "sampler_remaining u \<noteq> 0" "uniform_due tr' u = ?t"
      using spec Inr by auto
    have "se_sampler se1 = Some u" "se_cursor se1 = Some c" by (simp_all add: w(2))
    note pull = pull_sample_spec [OF this w(6,7,4,5)]
    obtain sg where sg: "se_staging se = Some sg" "sg_trajectory sg = Some tr'" "sg_waypoints sg = Some w"
      using assms(3) w(1) by (auto simp: staged_trajectory_def staged_waypoints_def split: option.splits)
    show ?thesis
    proof (cases "trajectory_sample tr' ?t")
      case (Inl e)
      obtain r' se2 where p: "pull_sample se1 = (r', se2)" by fastforce
      with Inl pull w(8) have "r' = Inl e" by simp
      with p i Inr assms(8) have k: "k = (Inl e, se2)" by (cases x) auto
      have "rebased (motion_of se) (motion_of se1)" using assms(2) sg by (simp add: rebased_def w(2) motion_of_def staged_rows_def)
      with w(3) have "interrupted se se1" by (simp add: interrupted_def same_settings_def w(2))
      with p have "interrupted se se2" by (rule pull_interrupted)
      moreover have "isfinite ?t \<and> 0 \<le> ?t \<and> ?t \<le> tr_duration tr'"
        using assms(4,5) usable_duration [OF inv(4)] by (auto simp: isfinite_iff)
      then have "sampling_error se e" using Inl assms(3) unfolding sampling_error_def by blast
      ultimately show ?thesis by (simp add: refines_sample_def k)
    next
      case smp: (Inr smp)
      with pull w(8) obtain c' where c': "pull_sample se1 = (Inr (Some smp), se1\<lparr>se_sampler := Some (uniform_after u), se_cursor := Some c'\<rparr>)"
        "traj_cursor_inv c'" "tc_trajectory c' = tr'" by auto
      note time = trajectory_sample_time [OF usable_traj_inv [OF inv(4)] smp]
      let ?e = "se_epoch se + tr_duration tr"
      define se3 where "se3 = se1\<lparr>se_sampler := Some (uniform_after u), se_cursor := Some c',
          se_emitted := Suc (se_emitted se), se_current_time := ?e + ?t\<rparr>"
      have k: "k = (Inr (Some (smp\<lparr>sm_time := ?e + ?t\<rparr>)), se3)"
        using assms(7) [of se1 smp] i Inr c'(1) time(1) by (cases x) (simp add: emit_def Let_def se3_def w(2) dbl_add_commute)
      have fin: "isfinite ?e"
        using clk usable_duration [OF inv(3)] by (auto simp: clock_inv_def isfinite_iff)
      have wf3: "session_wf se3" using w(3) by (simp add: session_wf_def se3_def staging_wf_def motion_rows_def w(2))
      have "clock_inv se3 tr' (uniform_after u)"
        by (rule clock_after [OF w(6,7)]) (use fin w(8) in \<open>simp_all add: se3_def w(2)\<close>)
      then have "sampling_inv se3"
        using inv(4) c'(2,3) sampler_after(1) [OF w(6,7)] by (auto simp: sampling_inv_def se3_def w(2) staged_trajectory_def)
      moreover have "rate_ok se3" using inv(2) by (simp add: rate_ok_def se3_def w(2))
      moreover have "sample_step (motion_of se) (Some (smp\<lparr>sm_time := ?e + ?t\<rparr>))
          \<lparr>mo_rows = store_rows w, mo_active = Some tr', mo_staging = None, mo_epoch = ?e, mo_time = ?e + ?t,
           mo_emitted = Suc (mo_emitted (motion_of se))\<rparr>"
        by (rule Rebase [where tr = tr]) (use assms(2,6) sg smp in \<open>simp_all add: motion_of_def staged_rows_def\<close>)
      moreover have "samples_left se3 < samples_left se"
      proof -
        have "unat (sampler_remaining (uniform_after u)) < 2 ^ LENGTH(64)" by (rule unsigned_less)
        then show ?thesis using assms(3) by (simp add: samples_left_def se3_def w(2) staged_trajectory_def)
      qed
      ultimately show ?thesis using wf3
        by (simp add: refines_sample_def k session_inv_def same_settings_def motion_of_def se3_def w(2))
    qed
  qed
qed

lemma nothing_staged_motion: "nothing_staged (motion_of se) \<longleftrightarrow> staged_trajectory se = None"
  by (auto simp: nothing_staged_def motion_of_def staged_trajectory_def split: option.splits)

lemma emit_refines:
  assumes "session_inv se" "se_active se = Some tr" "se_sampler se = Some u" "se_cursor se = Some c" "traj_cursor_inv c"
    "tc_trajectory c = tr" "sampler_ok tr u" "clock_inv se tr u" "sampler_remaining u \<noteq> 0"
    "staged_trajectory se = None \<or> sampler_remaining u \<noteq> 1"
    "\<And>smp se2. pull_sample se = (Inr (Some smp), se2) \<Longrightarrow> k = emit smp se2"
    "\<And>e se2. pull_sample se = (Inl e, se2) \<Longrightarrow> k = (Inl e, se2)"
  shows "refines_sample se k"
proof -
  have inv: "session_wf se" "rate_ok se" "usable tr" "\<forall>st. staged_trajectory se = Some st \<longrightarrow> usable st"
    using assms(1,2) by (auto simp: session_inv_def sampling_inv_def)
  note pull = pull_sample_spec [OF assms(3,4,7,9,5,6)]
  let ?t = "uniform_due tr u"
  show ?thesis
  proof (cases "trajectory_sample tr ?t")
    case (Inl e)
    obtain r se2 where p: "pull_sample se = (r, se2)" by fastforce
    with Inl pull have "r = Inl e" by simp
    with p assms(12) have k: "k = (Inl e, se2)" by simp
    have "interrupted se se2" by (rule pull_interrupted [OF p interrupted_refl [OF inv(1)]])
    moreover have "uniform_ready tr u" using assms(7) by (simp add: sampler_ok_def)
    then have "sampling_error se e"
      using Inl assms(2) uniform_due_range [OF _ assms(9), of tr] unfolding sampling_error_def by blast
    ultimately show ?thesis by (simp add: refines_sample_def k)
  next
    case (Inr smp)
    with pull obtain c' where c': "pull_sample se = (Inr (Some smp), se\<lparr>se_sampler := Some (uniform_after u), se_cursor := Some c'\<rparr>)"
      "traj_cursor_inv c'" "tc_trajectory c' = tr" by auto
    note time = trajectory_sample_time [OF usable_traj_inv [OF inv(3)] Inr]
    define se3 where "se3 = se\<lparr>se_sampler := Some (uniform_after u), se_cursor := Some c',
        se_emitted := Suc (se_emitted se), se_current_time := se_epoch se + ?t\<rparr>"
    have k: "k = (Inr (Some (smp\<lparr>sm_time := se_epoch se + ?t\<rparr>)), se3)"
      using assms(11) [OF c'(1)] time(1) by (simp add: emit_def Let_def se3_def dbl_add_commute)
    have "t_last": "?t < tr_duration tr \<or> staged_trajectory se = None"
    proof (cases "staged_trajectory se = None")
      case False
      with assms(10) have "sampler_remaining u \<noteq> 1" by simp
      with sampler_after(2) [OF assms(7,9)] have a: "sampler_remaining (uniform_after u) \<noteq> 0"
        by (metis One_nat_def unat_1 unat_eq_0 word_unat_eq_iff)
      have "uniform_ready tr (uniform_after u)" using sampler_after(1) [OF assms(7,9)] by (simp add: sampler_ok_def)
      from uniform_due_range [OF this a] due_increases [OF assms(7,9) a] show ?thesis by (auto intro: dbl_less_le_trans)
    qed simp
    have fin: "isfinite (se_epoch se)" using assms(8) by (simp add: clock_inv_def)
    have "clock_inv se3 tr (uniform_after u)"
      by (rule clock_after [OF assms(7,9)]) (use fin in \<open>simp_all add: se3_def\<close>)
    then have "sampling_inv se3"
      using inv(3,4) c'(2,3) sampler_after(1) [OF assms(7,9)] assms(2) by (auto simp: sampling_inv_def se3_def staged_trajectory_def)
    moreover have "session_wf se3 = session_wf se" by (rule session_wf_cong) (simp_all add: se3_def)
    then have "session_wf se3" "rate_ok se3" using inv(1,2) by (simp_all add: se3_def rate_ok_def)
    moreover have "sample_step (motion_of se) (Some (smp\<lparr>sm_time := mo_epoch (motion_of se) + ?t\<rparr>))
        (motion_of se\<lparr>mo_time := mo_epoch (motion_of se) + ?t, mo_emitted := Suc (mo_emitted (motion_of se))\<rparr>)"
      by (rule Emit [where tr = tr])
        (use assms(2,8,9) Inr t_last in \<open>auto simp: nothing_staged_motion clock_inv_def, auto simp: motion_of_def\<close>)
    moreover have "samples_left se3 < samples_left se"
      using sampler_after(2) [OF assms(7,9)] assms(3) by (simp add: samples_left_def se3_def staged_trajectory_def)
    ultimately show ?thesis
      by (simp add: refines_sample_def k session_inv_def same_settings_def motion_of_def se3_def)
  qed
qed

lemma sample_one_refines:
  assumes "session_inv se"
  shows "refines_sample se (sample_one se)"
proof (cases "se_active se")
  case None
  then have "se_sampler se = None" using assms by (simp add: session_inv_def sampling_inv_def)
  moreover have "sample_step (motion_of se) None (motion_of se)" by (rule Drained) (simp add: motion_of_def None)
  ultimately show ?thesis using assms by (simp add: sample_one_def refines_sample_def same_settings_def)
next
  case (Some tr)
  then obtain u c where u: "se_sampler se = Some u" "se_cursor se = Some c" "traj_cursor_inv c" "tc_trajectory c = tr"
    "sampler_ok tr u" "clock_inv se tr u" and use: "usable tr" "\<forall>st. staged_trajectory se = Some st \<longrightarrow> usable st" and rate: "rate_ok se"
    using assms by (auto simp: session_inv_def sampling_inv_def)
  obtain d where d: "0 < d" "tr_duration tr = Fin d" using usable_duration [OF use(1)] by blast
  obtain e t where et: "se_epoch se = Fin e" "se_current_time se = Fin t" using u(6) by (auto simp: clock_inv_def isfinite_iff)
  consider (early) tr' where "staged_trajectory se = Some tr'" "sampler_remaining u = 1"
    | (pull) "sampler_remaining u \<noteq> 0" "staged_trajectory se = None \<or> sampler_remaining u \<noteq> 1"
    | (late) "sampler_remaining u = 0" by fastforce
  then show ?thesis
  proof cases
    case early
    then obtain d' where d': "0 < d'" "tr_duration tr' = Fin d'" using use(2) usable_duration by blast
    have one: "sample_one se = then_do (install_staged se 0) (\<lambda>_ se1. then_do (pull_sample se1) (\<lambda>local_sample se2.
        case local_sample of None \<Rightarrow> rebase_and_pull se2 | Some smp \<Rightarrow> emit smp se2))"
      using early u(1,2) by (simp add: sample_one_def del: zero_Fin)
    have "se_emitted se = 0 \<or> se_current_time se < se_epoch se + uniform_due tr u" using u(6) early(2) by (simp add: clock_inv_def)
    then have "se_emitted se = 0 \<or> se_current_time se < se_epoch se + tr_duration tr + (if 0 < tr_duration tr' then 0 else tr_duration tr')"
      using remaining_one [OF u(5) early(2)] d d' et by simp
    then show ?thesis
      by (intro rebase_pull_refines [OF assms Some early(1), of 0]) (simp_all add: one then_do_def del: zero_Fin, simp_all)
  next
    case pull
    then have "sample_one se = then_do (pull_sample se) (\<lambda>local_sample se2.
        case local_sample of None \<Rightarrow> rebase_and_pull se2 | Some smp \<Rightarrow> emit smp se2)"
      using u(1,2) by (auto simp: sample_one_def)
    with pull u show ?thesis by (intro emit_refines [OF assms Some u]) (simp_all add: then_do_def)
  next
    case late
    then have one: "sample_one se = rebase_and_pull se"
      using u(1,2) pull_sample_exhausted [OF u(1,2) late] by (simp add: sample_one_def)
    have last: "se_emitted se \<noteq> 0" "se_current_time se = se_epoch se + tr_duration tr" using u(6) late by (simp_all add: clock_inv_def)
    show ?thesis
    proof (cases "staged_trajectory se")
      case None
      have "sample_step (motion_of se) None (motion_of se)"
        by (rule Drained) (use None Some last in \<open>simp add: nothing_staged_motion\<close>, simp add: motion_of_def)
      then show ?thesis using assms None by (simp add: one rebase_and_pull_def refines_sample_def same_settings_def)
    next
      case st: (Some tr')
      then obtain d' where d': "0 < d'" "tr_duration tr' = Fin d'" using use(2) usable_duration by blast
      obtain r where r: "0 < r" "se_sample_period se = Fin (1 / r)" using rate by (auto simp: rate_ok_def)
      have "se_current_time se < se_epoch se + tr_duration tr +
          (if se_sample_period se < tr_duration tr' then se_sample_period se else tr_duration tr')"
        using last d d' et r by simp
      then show ?thesis using r st
        by (intro rebase_pull_refines [OF assms Some st, of "se_sample_period se"]) (simp_all add: one rebase_and_pull_def then_do_def)
    qed
  qed
qed

section \<open>Extending keeps the clock\<close>

text \<open>What a batch does to the sampler: nothing, or a new one for a new active trajectory.\<close>

definition resampled :: "session \<Rightarrow> session \<Rightarrow> bool" where
  "resampled se se' \<longleftrightarrow>
     (se_active se' = se_active se \<and> se_sampler se' = se_sampler se \<and> se_cursor se' = se_cursor se) \<or>
     (\<exists>tr u c. se_active se' = Some tr \<and> se_sampler se' = Some u \<and> se_cursor se' = Some c \<and> create_traj_cursor tr = Inr c \<and>
       quantized_for_trajectory tr (se_sample_rate se) (resume_time (se_sample_period se) (motion_of se)) = Inr u)"

lemma then_do_Inr: "then_do r f = (Inr b, s') \<longleftrightarrow> (\<exists>a s. r = (Inr a, s) \<and> f a s = (Inr b, s'))"
  by (cases r; cases "fst r") (auto simp: then_do_def)

lemma install_Inr: "install se tr u = (Inr x, se') \<Longrightarrow>
    \<exists>c. create_traj_cursor tr = Inr c \<and> se' = se\<lparr>se_active := Some tr, se_cursor := Some c, se_sampler := Some u\<rparr>"
  by (auto simp: install_def Let_def split: sum.splits)

lemma extend_first_resampled:
  assumes "extend_first se b = (Inr res, se')" "se_emitted se = 0"
  shows "resampled se se'"
  using assms
  by (auto simp: extend_first_def then_do_Inr resampled_def resume_time_def motion_of_def case_prod_beta dest!: install_Inr
      simp del: zero_Fin)

lemma extend_staged_resampled: "extend_staged se sg b = (Inr res, se') \<Longrightarrow> resampled se se'"
  by (auto simp: extend_staged_def then_do_Inr resampled_def case_prod_beta)

lemma extend_active_resampled: "extend_active se tr b = (Inr res, se') \<Longrightarrow> resampled se se'"
  by (auto simp: extend_active_def pivot_def begin_staging_def then_do_Inr resampled_def resume_time_def motion_of_def Let_def
      case_prod_beta dest!: install_Inr simp del: zero_Fin split: if_split_asm)

lemma extend_resampled:
  assumes "session_extend se b = (Inr res, se')" "se_active se = None \<Longrightarrow> se_emitted se = 0"
  shows "resampled se se'"
proof (cases "se_active se")
  case None
  with assms show ?thesis by (auto simp: session_extend_def split: if_splits intro: extend_first_resampled)
next
  case (Some tr)
  with assms(1) show ?thesis
    by (auto simp: session_extend_def then_do_Inr split: if_splits option.splits
        intro: extend_staged_resampled extend_active_resampled) (simp add: resampled_def)
qed

lemma extend_step_clock:
  "extend_step build period m ws res m' \<Longrightarrow> mo_epoch m' = mo_epoch m \<and> mo_time m' = mo_time m \<and> mo_emitted m' = mo_emitted m"
  by (cases rule: extend_step.cases) auto

definition all_usable :: "session \<Rightarrow> bool" where
  "all_usable se \<longleftrightarrow> (\<forall>tr. se_active se = Some tr \<or> staged_trajectory se = Some tr \<longrightarrow> usable tr)"

lemma extend_sampling_inv:
  assumes "session_inv se" "session_wf se'" "same_settings se se'" "resampled se se'" "all_usable se'"
    "se_epoch se' = se_epoch se" "se_current_time se' = se_current_time se" "se_emitted se' = se_emitted se"
  shows "session_inv se'"
proof -
  have rate: "rate_ok se'" using assms(1,3) by (simp add: session_inv_def rate_ok_def same_settings_def)
  have "sampling_inv se'"
    using assms(4) unfolding resampled_def
  proof (elim disjE exE conjE)
    assume same: "se_active se' = se_active se" "se_sampler se' = se_sampler se" "se_cursor se' = se_cursor se"
    then have "clock_inv se' = clock_inv se" using assms(6-8) by (intro ext) (simp add: clock_inv_def)
    with same assms(1,5-8) show ?thesis
      by (cases "se_active se") (auto simp: session_inv_def sampling_inv_def all_usable_def)
  next
    fix tr u c
    assume new: "se_active se' = Some tr" "se_sampler se' = Some u" "se_cursor se' = Some c" "create_traj_cursor tr = Inr c"
      "quantized_for_trajectory tr (se_sample_rate se) (resume_time (se_sample_period se) (motion_of se)) = Inr u"
    have use: "usable tr" using assms(5) new(1) by (simp add: all_usable_def)
    note q = quantized_ok [OF use new(5)]
    have c: "traj_cursor_inv c" "tc_trajectory c = tr"
      using create_traj_cursor_inv [OF usable_traj_inv [OF use]] new(4) by auto
    obtain r where r: "0 < r" "se_sample_period se = Fin (1 / r)" using assms(1) by (auto simp: session_inv_def rate_ok_def)
    have clk: "isfinite (se_epoch se) \<and> isfinite (se_current_time se) \<and>
        (if se_emitted se = 0 then se_epoch se = 0 \<and> se_current_time se = 0 else se_epoch se \<le> se_current_time se)"
      using assms(1) by (cases "se_active se") (auto simp: session_inv_def sampling_inv_def clock_inv_def)
    have "se_emitted se = 0 \<or> se_current_time se < se_epoch se + uniform_due tr u"
      using clk r by (auto simp: q(5) resume_time_def motion_of_def isfinite_iff)
    then have "clock_inv se' tr u" using clk q(2) assms(6-8) by (simp add: clock_inv_def)
    with new c q(1) assms(5) show ?thesis by (auto simp: sampling_inv_def all_usable_def)
  qed
  with assms(2) rate show ?thesis by (simp add: session_inv_def)
qed

lemma extend_keeps_inv:
  assumes "session_inv se" "wa_inv b" "0 < wa_dof b" "session_extend se b = (Inr res, se')" "all_usable se'"
  shows "session_inv se'" "same_settings se se'"
    "extend_step (session_build se) (se_sample_period se) (motion_of se) (wa_points b) res (motion_of se')"
proof -
  have "session_wf se" using assms(1) by (simp add: session_inv_def)
  from extend_refines_lemma [OF this assms(2,3)] assms(4)
  have r: "session_wf se'" "same_settings se se'"
    "extend_step (session_build se) (se_sample_period se) (motion_of se) (wa_points b) res (motion_of se')"
    by (simp_all add: refines_extend_def)
  then show "same_settings se se'"
    "extend_step (session_build se) (se_sample_period se) (motion_of se) (wa_points b) res (motion_of se')" by simp_all
  have "se_emitted se = 0" if "se_active se = None" using assms(1) that by (simp add: session_inv_def sampling_inv_def)
  with extend_resampled [OF assms(4)] have "resampled se se'" by blast
  then have re: "resampled se se'" .
  have clk: "se_epoch se' = se_epoch se" "se_current_time se' = se_current_time se" "se_emitted se' = se_emitted se"
    using extend_step_clock [OF r(3)] by (simp_all add: motion_of_def)
  show "session_inv se'" by (rule extend_sampling_inv [OF assms(1) r(1,2) re assms(5) clk])
qed

text \<open>A call that fails leaves what the invariant looks at as it was.\<close>

lemma view_keeps_inv:
  assumes "session_inv se" "session_wf se'" "session_view se' = session_view se"
  shows "session_inv se'" "motion_of se' = motion_of se"
proof -
  have eq: "se'\<lparr>se_waypoints := empty_store, se_staging := None\<rparr> = se\<lparr>se_waypoints := empty_store, se_staging := None\<rparr>"
    "store_rows (se_waypoints se') = store_rows (se_waypoints se)"
    "map_option (\<lambda>sg. (staged_rows sg, sg_trajectory sg)) (se_staging se') =
      map_option (\<lambda>sg. (staged_rows sg, sg_trajectory sg)) (se_staging se)"
    using assms(3) unfolding session_view_def prod.inject by blast+
  have fields: "se_active se' = se_active se" "se_sampler se' = se_sampler se" "se_cursor se' = se_cursor se"
    "se_epoch se' = se_epoch se" "se_current_time se' = se_current_time se" "se_emitted se' = se_emitted se"
    "se_sample_rate se' = se_sample_rate se" "se_sample_period se' = se_sample_period se"
    using arg_cong [OF eq(1), of se_active] arg_cong [OF eq(1), of se_sampler] arg_cong [OF eq(1), of se_cursor]
      arg_cong [OF eq(1), of se_epoch] arg_cong [OF eq(1), of se_current_time] arg_cong [OF eq(1), of se_emitted]
      arg_cong [OF eq(1), of se_sample_rate] arg_cong [OF eq(1), of se_sample_period] by simp_all
  have staged: "staged_trajectory se' = staged_trajectory se"
    using eq(3) by (auto simp: staged_trajectory_def split: option.splits)
  have "clock_inv se' = clock_inv se" by (intro ext) (simp add: clock_inv_def fields)
  then show "session_inv se'" using assms(1,2)
    by (cases "se_active se") (auto simp: session_inv_def sampling_inv_def rate_ok_def fields staged)
  show "motion_of se' = motion_of se" using eq(2,3) fields by (simp add: motion_of_def)
qed

end
