(* ===== verification/Session_Runs.thy ===== *)
theory Session_Runs
  imports Session_Sampling Sampling_Properties
begin

text \<open>
  Sequences of samples, what they keep of a session, and runs: the calls of a session's users in any order.
\<close>

section \<open>Sequences of samples\<close>

inductive sample_steps :: "motion \<Rightarrow> traj_sample list \<Rightarrow> motion \<Rightarrow> bool" where
  No_steps: "sample_steps m [] m"
| One_more: "sample_steps m out m1 \<Longrightarrow> sample_step m1 (Some smp) m' \<Longrightarrow> sample_steps m (out @ [smp]) m'"

definition drained :: "motion \<Rightarrow> bool" where
  "drained m \<longleftrightarrow> mo_active m = None \<or>
     (\<exists>tr. mo_active m = Some tr \<and> nothing_staged m \<and> mo_time m = mo_epoch m + tr_duration tr)"

lemma sample_step_None: "sample_step m None m' \<Longrightarrow> m' = m \<and> drained m"
  by (cases rule: sample_step.cases) (auto simp: drained_def)

lemma sample_steps_end: "sample_steps m out m' \<Longrightarrow> total_end m' = total_end m"
  by (induction rule: sample_steps.induct) (auto dest: sample_step_end)

text \<open>The samples come in order, and the clock shows the last one.\<close>

definition in_order :: "traj_sample list \<Rightarrow> bool" where
  "in_order out \<longleftrightarrow> sorted_wrt (\<lambda>p q. sm_time p < sm_time q) out"

lemma in_order_snoc:
  "in_order (out @ [smp]) \<longleftrightarrow> in_order out \<and> (\<forall>p \<in> set out. sm_time p < sm_time smp)"
  by (auto simp: in_order_def sorted_wrt_append)

definition clock_shows :: "traj_sample list \<Rightarrow> motion \<Rightarrow> bool" where
  "clock_shows out m \<longleftrightarrow> in_order out \<and> mo_emitted m = length out \<and> (out \<noteq> [] \<longrightarrow> mo_time m = sm_time (last out))"

lemma in_order_last: "in_order out \<Longrightarrow> p \<in> set out \<Longrightarrow> p = last out \<or> sm_time p < sm_time (last out)"
  by (induction out rule: rev_induct) (auto simp: in_order_snoc)

lemma sample_step_clock:
  assumes "clock_shows out m" "sample_step m (Some smp) m'"
  shows "clock_shows (out @ [smp]) m'"
proof -
  note t = sample_step_time [OF assms(2)]
  have "sm_time p < sm_time smp" if "p \<in> set out" for p
  proof -
    have "out \<noteq> []" using that by auto
    with assms(1) t have "sm_time (last out) < sm_time smp" by (auto simp: clock_shows_def)
    with in_order_last [OF _ that] assms(1) show ?thesis by (auto simp: clock_shows_def intro: dbl_less_trans)
  qed
  with assms(1) t show ?thesis by (simp add: clock_shows_def in_order_snoc)
qed

lemma sample_steps_clock: "sample_steps m out' m' \<Longrightarrow> clock_shows out m \<Longrightarrow> clock_shows (out @ out') m'"
proof (induction rule: sample_steps.induct)
  case (One_more m out' m1 smp m')
  then show ?case using sample_step_clock [of "out @ out'" m1 smp m'] by simp
qed simp

section \<open>What a call that samples keeps\<close>

text \<open>
  After some samples: the invariant, the abstract steps, the trajectories still to come, and a number of
  samples that only the sampler and the staged trajectory bound.
\<close>

definition sampled_to :: "session \<Rightarrow> traj_sample list \<times> session \<Rightarrow> bool" where
  "sampled_to se = (\<lambda>(out, se'). session_inv se' \<and> same_settings se se' \<and> sample_steps (motion_of se) out (motion_of se') \<and>
     samples_left se' + length out \<le> samples_left se \<and>
     (\<forall>tr. se_active se' = Some tr \<or> staged_trajectory se' = Some tr \<longrightarrow> se_active se = Some tr \<or> staged_trajectory se = Some tr))"

text \<open>
  A call that throws: the session is well formed, and its motion has taken some steps, after which at most the
  staged trajectory has taken the place of the active one.
\<close>

definition sampling_failed :: "session \<Rightarrow> exn \<times> session \<Rightarrow> bool" where
  "sampling_failed se = (\<lambda>(e, se'). sampling_error se e \<and> session_wf se' \<and> same_settings se se' \<and>
     (\<exists>out m. sample_steps (motion_of se) out m \<and> (motion_of se' = m \<or> rebased m (motion_of se'))))"

lemma sampling_failed_error: "sampling_failed se (e, se') \<Longrightarrow> sampling_error se e"
  by (simp add: sampling_failed_def)

lemma same_settings_trans: "same_settings a b \<Longrightarrow> same_settings b c \<Longrightarrow> same_settings a c"
  by (simp add: same_settings_def)

lemma staged_motion: "staged_trajectory se = (case mo_staging (motion_of se) of None \<Rightarrow> None | Some (_, t) \<Rightarrow> t)"
  by (auto simp: staged_trajectory_def motion_of_def split: option.splits)

lemma sample_step_trajectories:
  assumes "sample_step (motion_of se) out (motion_of se')" "se_active se' = Some tr \<or> staged_trajectory se' = Some tr"
  shows "se_active se = Some tr \<or> staged_trajectory se = Some tr"
proof -
  have act: "se_active x = mo_active (motion_of x)" for x by (simp add: motion_of_def)
  show ?thesis using assms unfolding act staged_motion by (cases rule: sample_step.cases) auto
qed

lemma sampled_one:
  assumes "sampled_to se (out, se')"
  shows "case sample_one se' of
      (Inl e, se'') \<Rightarrow> sampling_failed se (e, se'')
    | (Inr None, se'') \<Rightarrow> sampled_to se (out, se'') \<and> drained (motion_of se'')
    | (Inr (Some smp), se'') \<Rightarrow> sampled_to se (out @ [smp], se'')"
proof -
  have s: "session_inv se'" "same_settings se se'" "sample_steps (motion_of se) out (motion_of se')"
    "samples_left se' + length out \<le> samples_left se"
    "\<And>tr. se_active se' = Some tr \<or> staged_trajectory se' = Some tr \<Longrightarrow> se_active se = Some tr \<or> staged_trajectory se = Some tr"
    using assms by (auto simp: sampled_to_def)
  obtain r se'' where one: "sample_one se' = (r, se'')" by fastforce
  have ref: "refines_sample se' (r, se'')" using sample_one_refines [OF s(1)] one by simp
  show ?thesis
  proof (cases r)
    case (Inl e)
    with ref have f: "sampling_error se' e" "interrupted se' se''" by (simp_all add: refines_sample_def)
    from f(1) have "sampling_error se e" using s(2,5) by (simp add: sampling_error_def same_settings_def) blast
    with f(2) same_settings_trans [OF s(2)] s(3) have "sampling_failed se (e, se'')"
      by (auto simp: sampling_failed_def interrupted_def)
    with one Inl show ?thesis by simp
  next
    case (Inr smp)
    with ref have r: "session_inv se''" "same_settings se' se''" "sample_step (motion_of se') smp (motion_of se'')"
      "smp = None \<longrightarrow> se'' = se'" "smp \<noteq> None \<longrightarrow> samples_left se'' < samples_left se'" by (simp_all add: refines_sample_def)
    note keep = r(1) same_settings_trans [OF s(2) r(2)]
    have tr: "\<forall>tr. se_active se'' = Some tr \<or> staged_trajectory se'' = Some tr \<longrightarrow> se_active se = Some tr \<or> staged_trajectory se = Some tr"
      using sample_step_trajectories [OF r(3)] s(5) by blast
    show ?thesis
    proof (cases smp)
      case None
      with r(3) have m: "motion_of se'' = motion_of se'" "drained (motion_of se')" by (auto dest: sample_step_None)
      with r(4) keep tr s(3,4) one Inr None show ?thesis by (simp add: sampled_to_def)
    next
      case (Some x)
      with One_more [OF s(3)] r(3,5) keep tr s(4) one Inr show ?thesis by (simp add: sampled_to_def)
    qed
  qed
qed

lemma sampled_start: "session_inv se \<Longrightarrow> sampled_to se ([], se)"
  by (simp add: sampled_to_def same_settings_def No_steps)

text \<open>A number of samples.\<close>

lemma sample_next_loop_sampled:
  assumes "sampled_to se (out, se1)"
  shows "case sample_next_loop n out se1 of
      (Inl e, se') \<Rightarrow> sampling_failed se (e, se')
    | (Inr out', se') \<Rightarrow> sampled_to se (out', se') \<and> length out' \<le> length out + n \<and>
        (length out' < length out + n \<longrightarrow> drained (motion_of se'))"
  using assms
proof (induction n arbitrary: out se1)
  case (Suc n)
  obtain r se2 where one: "sample_one se1 = (r, se2)" by fastforce
  note next' = sampled_one [OF Suc.prems, unfolded one]
  show ?case
  proof (cases r)
    case (Inr smp)
    show ?thesis
    proof (cases smp)
      case None
      with Inr one next' show ?thesis by simp
    next
      case (Some x)
      with Inr one next' Suc.IH [of "out @ [x]" se2] show ?thesis by (auto split: prod.splits sum.splits)
    qed
  qed (use one next' in simp)
qed simp

text \<open>Samples up to a horizon.\<close>

definition below_horizon :: "seconds \<Rightarrow> traj_sample list \<Rightarrow> bool" where
  "below_horizon target out \<longleftrightarrow> (\<forall>p \<in> set out. \<not> target \<le> sm_time p)"

definition horizon_reached :: "session \<Rightarrow> seconds \<Rightarrow> traj_sample list res \<times> session \<Rightarrow> bool" where
  "horizon_reached se target = (\<lambda>(r, se').
     case r of
       Inl e \<Rightarrow> sampling_failed se (e, se')
     | Inr out \<Rightarrow> sampled_to se (out, se') \<and>
         (drained (motion_of se') \<and> below_horizon target out \<or>
          out \<noteq> [] \<and> target \<le> sm_time (last out) \<and> below_horizon target (butlast out)))"

lemma sample_at_least_body_sampled:
  assumes "sampled_to se (out, se1)" "below_horizon target out"
  shows "case sample_at_least_body target (out, se1) of
      Inl (out', se') \<Rightarrow> sampled_to se (out', se') \<and> below_horizon target out' \<and> length out' = Suc (length out)
    | Inr r \<Rightarrow> horizon_reached se target r"
proof -
  obtain r se2 where one: "sample_one se1 = (r, se2)" by fastforce
  note next' = sampled_one [OF assms(1), unfolded one]
  show ?thesis
  proof (cases r)
    case (Inr smp)
    show ?thesis
    proof (cases smp)
      case None
      with Inr one next' assms(2) show ?thesis by (simp add: sample_at_least_body_def horizon_reached_def)
    next
      case (Some x)
      have "session_inv se1" using assms(1) by (simp add: sampled_to_def)
      from sample_one_refines [OF this] one Inr Some have "sample_step (motion_of se1) (Some x) (motion_of se2)"
        by (simp add: refines_sample_def)
      from sample_step_time [OF this] have "se_current_time se2 = sm_time x" by (simp add: motion_of_def)
      with Inr Some one next' assms(2) show ?thesis
        by (simp add: sample_at_least_body_def horizon_reached_def below_horizon_def)
    qed
  qed (use one next' in \<open>simp add: sample_at_least_body_def horizon_reached_def\<close>)
qed

lemma sample_at_least_horizon:
  assumes "session_inv se"
  obtains r where "iterate (sample_at_least_body target) ([], se) = Some r" "horizon_reached se target r"
proof -
  let ?P = "\<lambda>(out, se'). sampled_to se (out, se') \<and> below_horizon target out"
  have init: "?P ([], se)" using sampled_start [OF assms] by (simp add: below_horizon_def)
  have cont: "?P x' \<and> length (fst x') = Suc (length (fst x))" if "?P x" "sample_at_least_body target x = Inl x'" for x x'
    using that sample_at_least_body_sampled [of se "fst x" "snd x" target] by (cases x; cases x') auto
  have exit: "horizon_reached se target r" if "?P x" "sample_at_least_body target x = Inr r" for x r
    using that sample_at_least_body_sampled [of se "fst x" "snd x" target] by (cases x) auto
  have le: "length (fst x) \<le> samples_left se" if "?P x" for x
    using that by (auto simp: sampled_to_def split: prod.splits)
  have "\<exists>r. iterate (sample_at_least_body target) ([], se) = Some r"
  proof (rule iterate_terminates [where P = ?P and m = "\<lambda>x. samples_left se - length (fst x)", OF init])
    show "?P x' \<and> samples_left se - length (fst x') < samples_left se - length (fst x)"
      if "?P x" "sample_at_least_body target x = Inl x'" for x x'
      using cont [OF that] le [of x'] by auto
  qed
  then obtain r where r: "iterate (sample_at_least_body target) ([], se) = Some r" ..
  have "horizon_reached se target r"
    by (rule iterate_invariant [where P = ?P, OF r init]) (use cont exit in blast)+
  with r that show thesis by blast
qed

section \<open>The clock and the end of the motion\<close>

text \<open>While there is an active trajectory the clock has not passed its end.\<close>

lemma clock_before_end:
  assumes "session_inv se" "se_active se = Some tr"
  obtains e t d where "se_epoch se = Fin e" "se_current_time se = Fin t" "tr_duration tr = Fin d" "0 < d" "t \<le> e + d"
proof -
  obtain u where u: "usable tr" "sampler_ok tr u" "clock_inv se tr u" using assms by (auto simp: session_inv_def sampling_inv_def)
  obtain d where d: "0 < d" "tr_duration tr = Fin d" using usable_duration [OF u(1)] by blast
  obtain e t where et: "se_epoch se = Fin e" "se_current_time se = Fin t" using u(3) by (auto simp: clock_inv_def isfinite_iff)
  have "t \<le> e + d"
  proof (cases "sampler_remaining u = 0")
    case True
    with u(3) et d show ?thesis by (simp add: clock_inv_def)
  next
    case False
    have "uniform_ready tr u" using u(2) by (simp add: sampler_ok_def)
    from uniform_due_range [OF this False] obtain x where "uniform_due tr u = Fin x" "x \<le> d" using d by (auto simp: isfinite_iff)
    with u(3) False et d show ?thesis by (auto simp: clock_inv_def split: if_splits)
  qed
  with et d that show thesis by blast
qed

lemma remaining_total_eq:
  assumes "session_inv se"
  shows "remaining_total_duration se = (if se_active se = None then 0 else total_end (motion_of se) - se_current_time se) \<and>
    isfinite (remaining_total_duration se) \<and> isfinite (se_current_time se) \<and> isfinite (total_end (motion_of se))"
proof (cases "se_active se")
  case None
  with assms show ?thesis by (simp add: remaining_total_duration_def session_inv_def sampling_inv_def total_end_def motion_of_def del: zero_Fin) simp
next
  case (Some tr)
  obtain e t d where f: "se_epoch se = Fin e" "se_current_time se = Fin t" "tr_duration tr = Fin d" "0 < d" "t \<le> e + d"
    by (rule clock_before_end [OF assms Some])
  show ?thesis
  proof (cases "staged_trajectory se")
    case None
    then have "total_end (motion_of se) = Fin (e + d)"
      using Some f by (auto simp: total_end_def staged_motion motion_of_def split: option.splits)
    with None Some f show ?thesis by (simp add: remaining_total_duration_def Let_def)
  next
    case st: (Some tr')
    then have "usable tr'" using assms Some by (auto simp: session_inv_def sampling_inv_def)
    then obtain d' where "0 < d'" "tr_duration tr' = Fin d'" using usable_duration by blast
    moreover have "total_end (motion_of se) = Fin (e + d) + tr_duration tr'"
      using Some st f by (auto simp: total_end_def staged_motion motion_of_def split: option.splits)
    ultimately show ?thesis using Some st f by (simp add: remaining_total_duration_def Let_def)
  qed
qed

section \<open>Runs\<close>

text \<open>
  A session all whose trajectories go forward, with options under which a trajectory that is computed is
  sound. A batch that is accepted leads to such a session; one that is rejected does so before the new
  trajectory is given a sampler.
\<close>

definition admissible :: "session \<Rightarrow> bool" where
  "admissible se \<longleftrightarrow> evaluator_returns (se_trajectory_options se) \<and>
     (fin (to_epsilon (se_trajectory_options se)))\<^sup>2 * real (ws_dof (se_waypoints se)) \<le> 1 \<and>
     (\<forall>tr. se_active se = Some tr \<or> staged_trajectory se = Some tr \<longrightarrow> forward_motion tr)"

definition valid_batch :: "waypoint_accumulator \<Rightarrow> bool" where
  "valid_batch b \<longleftrightarrow> wa_inv b \<and> 0 < wa_dof b"

definition sampler_error :: "session \<Rightarrow> exn \<Rightarrow> bool" where
  "sampler_error se e \<longleftrightarrow> (\<exists>tr start. quantized_for_trajectory tr (se_sample_rate se) start = Inl e)"

inductive session_run :: "session \<Rightarrow> traj_sample list \<Rightarrow> session \<Rightarrow> bool" for se0 where
  Begin: "session_run se0 [] se0"
| Extend: "session_run se0 out se \<Longrightarrow> valid_batch b \<Longrightarrow> session_extend se b = (Inr res, se') \<Longrightarrow> admissible se' \<Longrightarrow>
    session_run se0 out se'"
| Reject: "session_run se0 out se \<Longrightarrow> valid_batch b \<Longrightarrow> session_extend se b = (Inl e, se') \<Longrightarrow> \<not> sampler_error se e \<Longrightarrow>
    session_run se0 out se'"
| Stage: "session_run se0 out se \<Longrightarrow> session_run se0 out (start_staging se)"
| Sample: "session_run se0 out se \<Longrightarrow> sample_next se n = (Inr more_out, se') \<Longrightarrow> session_run se0 (out @ more_out) se'"
| Sample_ahead: "session_run se0 out se \<Longrightarrow> sample_at_least se horizon = (Inr more_out, se') \<Longrightarrow> session_run se0 (out @ more_out) se'"

lemma sound_usable:
  assumes "sound_trajectory p opt tr" "path_inv p" "forward_motion tr"
  shows "usable tr"
proof -
  have inv: "traj_inv tr" by (rule computed_inv [OF assms])
  have l: "2 \<le> length (tr_points tr)" "ip_time (hd (tr_points tr)) = 0" "tr_duration tr = ip_time (last (tr_points tr))"
    using assms(1) by (auto simp: sound_trajectory_def sound_points_def starts_at_rest_def)
  have "tr_points tr \<noteq> []" using l(1) by auto
  then have "hd (tr_points tr) = tr_points tr ! 0" "last (tr_points tr) = tr_points tr ! (length (tr_points tr) - 1)"
    by (simp_all add: hd_conv_nth last_conv_nth)
  moreover have "ip_time (tr_points tr ! 0) < ip_time (tr_points tr ! (length (tr_points tr) - 1))"
    using inv l(1) by (auto simp: traj_inv_def timed_def sorted_wrt_iff_nth_less)
  ultimately show ?thesis using inv l assms(3) by (simp add: usable_def forward_motion_def del: zero_Fin)
qed

lemma built_usable:
  assumes "build_rows po opt (length (hd rows)) rows = Inr tr" "\<forall>r \<in> set rows. length r = d" "rows \<noteq> []"
    "evaluator_returns opt" "(fin (to_epsilon opt))\<^sup>2 * real d \<le> 1" "forward_motion tr"
  shows "usable tr"
proof -
  have d: "length (hd rows) = d" using assms(2,3) by simp
  obtain p where p: "trajectory_create p opt [] = Inr tr" "path_inv p" "path_dof p = d" "tr_path tr = p"
    using build_rows_path [OF assms(1) [unfolded d] assms(2)] by metis
  have snd: "sound_trajectory p opt tr"
    by (rule created_sound [OF p(2) assms(4) _ p(1)]) (use assms(5) p(3) in simp)
  show ?thesis by (rule sound_usable [OF snd p(2) assms(6)])
qed

text \<open>Each trajectory of a session was built from rows of the store's width.\<close>

lemma session_trajectory_rows:
  assumes "session_wf se" "se_active se = Some tr \<or> staged_trajectory se = Some tr"
  obtains rows where "rows \<noteq> []" "\<forall>r \<in> set rows. length r = ws_dof (se_waypoints se)" "session_build se rows = Inr tr"
proof -
  have "\<exists>act. se_active se = Some act"
    using assms by (auto simp: session_wf_def staged_trajectory_def split: option.splits)
  then have w: "store_inv (se_waypoints se)" "store_rows (se_waypoints se) \<noteq> []"
    using assms(1) by (auto simp: session_wf_def)
  have len: "\<forall>r \<in> set (store_rows (se_waypoints se)). length r = ws_dof (se_waypoints se)"
    using rows_of_length [OF w(1)] store_hd_dof [OF w] by metis
  show thesis
  proof (cases "se_active se = Some tr")
    case True
    with assms(1) have "session_build se (store_rows (se_waypoints se)) = Inr tr" by (auto simp: session_wf_def)
    from that [OF w(2) len this] show thesis .
  next
    case False
    with assms(2) obtain sg where sg: "se_staging se = Some sg" "sg_trajectory sg = Some tr"
      by (auto simp: staged_trajectory_def split: option.splits)
    with assms(1) have "staging_wf se sg" by (auto simp: session_wf_def split: option.splits)
    with sg obtain st where st: "store_inv st" "store_rows st \<noteq> []" "session_build se (store_rows st) = Inr tr"
      "hd (store_rows st) = last (store_rows (se_waypoints se))"
      by (auto simp: staging_wf_def split: option.splits)
    have "length (hd (store_rows st)) = ws_dof (se_waypoints se)" using len st(4) w(2) by simp
    with rows_of_length [OF st(1)] have "\<forall>r \<in> set (store_rows st). length r = ws_dof (se_waypoints se)" by simp
    from that [OF st(2) this st(3)] show thesis .
  qed
qed

lemma admissible_usable:
  assumes "session_wf se" "admissible se"
  shows "all_usable se"
proof -
  have "usable tr" if tr: "se_active se = Some tr \<or> staged_trajectory se = Some tr" for tr
  proof -
    have a: "evaluator_returns (se_trajectory_options se)" "forward_motion tr"
      "(fin (to_epsilon (se_trajectory_options se)))\<^sup>2 * real (ws_dof (se_waypoints se)) \<le> 1"
      using assms(2) tr by (auto simp: admissible_def)
    obtain rows where rows: "rows \<noteq> []" "\<forall>r \<in> set rows. length r = ws_dof (se_waypoints se)" "session_build se rows = Inr tr"
      by (rule session_trajectory_rows [OF assms(1) tr])
    from built_usable [OF rows(3,2,1) a(1,3,2)] show ?thesis .
  qed
  then show ?thesis by (simp add: all_usable_def)
qed

lemma start_staging_keeps:
  assumes "session_inv se"
  shows "session_inv (start_staging se)" "mo_emitted (motion_of (start_staging se)) = mo_emitted (motion_of se)"
    "mo_time (motion_of (start_staging se)) = mo_time (motion_of se)"
proof -
  show "session_inv (start_staging se)"
  proof (cases "se_active se \<noteq> None \<and> se_staging se = None")
    case True
    let ?se = "se\<lparr>se_staging := Some \<lparr>sg_waypoints = None, sg_trajectory = None\<rparr>\<rparr>"
    have "clock_inv ?se = clock_inv se" by (intro ext) (simp add: clock_inv_def)
    then have "session_inv ?se" using True assms
      by (auto simp: session_inv_def session_wf_def sampling_inv_def rate_ok_def staging_wf_def motion_rows_def staged_rows_def
          staged_trajectory_def)
    with True show ?thesis by (simp add: start_staging_def)
  next
    case False
    then have "start_staging se = se" by (auto simp: start_staging_def)
    with assms show ?thesis by simp
  qed
qed (simp_all add: start_staging_def motion_of_def)

lemma run_clock:
  assumes "session_run se0 out se" "session_inv se0" "se_emitted se0 = 0"
  shows "session_inv se \<and> clock_shows out (motion_of se) \<and> same_settings se0 se"
  using assms(1)
proof (induction rule: session_run.induct)
  case Begin
  then show ?case using assms(2,3) by (simp add: clock_shows_def in_order_def motion_of_def same_settings_def)
next
  case (Extend out se b res se')
  have b: "session_inv se" "wa_inv b" "0 < wa_dof b" using Extend by (auto simp: valid_batch_def)
  have wf: "session_wf se" using b(1) by (simp add: session_inv_def)
  have "session_wf se'" using extend_refines_lemma [OF wf b(2,3)] Extend.hyps(3) by (simp add: refines_extend_def)
  from extend_keeps_inv [OF b Extend.hyps(3) admissible_usable [OF this Extend.hyps(4)]]
  have k: "session_inv se'" "same_settings se se'"
    "extend_step (session_build se) (se_sample_period se) (motion_of se) (wa_points b) res (motion_of se')" .
  from extend_step_clock [OF k(3)] k(1,2) Extend.IH show ?case
    by (auto simp: clock_shows_def intro: same_settings_trans)
next
  case (Reject out se b e se')
  have b: "session_inv se" "wa_inv b" "0 < wa_dof b" using Reject by (auto simp: valid_batch_def)
  have wf: "session_wf se" using b(1) by (simp add: session_inv_def)
  have v: "session_wf se'" "session_view se' = session_view se"
    using extend_refines_lemma [OF wf b(2,3)] Reject.hyps(3,4) by (auto simp: refines_extend_def sampler_error_def)
  have "same_settings se se'"
    using v(2) unfolding session_view_def prod.inject same_settings_def by (metis (no_types) session.ext_inject session.surjective session.update_convs(5,12))
  with view_keeps_inv [OF b(1) v] Reject.IH show ?case by (auto intro: same_settings_trans)
next
  case (Stage out se)
  have "same_settings se (start_staging se)" by (simp add: same_settings_def start_staging_def)
  with start_staging_keeps [of se] Stage.IH show ?case by (auto simp: clock_shows_def intro: same_settings_trans)
next
  case (Sample out se n more_out se')
  have "sampled_to se (more_out, se')"
    using sample_next_loop_sampled [OF sampled_start, of se n] Sample by (simp add: sample_next_def)
  with Sample.IH show ?case by (auto simp: sampled_to_def intro: sample_steps_clock same_settings_trans)
next
  case (Sample_ahead out se horizon more_out se')
  then have inv: "session_inv se" by simp
  obtain r where "iterate (sample_at_least_body (se_current_time se + horizon)) ([], se) = Some r"
    "horizon_reached se (se_current_time se + horizon) r"
    by (rule sample_at_least_horizon [OF inv])
  with Sample_ahead.hyps(2) have "sampled_to se (more_out, se')" by (simp add: sample_at_least_def horizon_reached_def)
  with Sample_ahead.IH show ?case by (auto simp: sampled_to_def intro: sample_steps_clock same_settings_trans)
qed

end
