(* ===== verification/Session_Properties.thy ===== *)
theory Session_Properties
  imports Session_Runs
begin

text \<open>
  The properties of a streaming session: extending and sampling refine the abstract steps, a run emits its
  samples in order, and the durations a session reports add up.
\<close>

section \<open>A session on the rail\<close>

abbreviation rail_batch :: waypoint_accumulator where
  "rail_batch \<equiv> \<lparr>wa_dof = 1, wa_points = [[0], [5 / 2]]\<rparr>"

lemma rail_path: "path_create rail_batch default_path_options = Inr rail"
proof -
  have "linear_between [0] [5 / 2] = Inr \<lparr>lin_start = [0], lin_unit_direction = [1], lin_length = Fin (5 / 2)\<rparr>"
    by (simp add: linear_between_def Let_def vsub_def vdiv_def norm_l2_def power2_eq_square [symmetric])
  then show ?thesis
    by (simp add: path_create_def default_path_options_def wa_size_def colinearize_def begin_segment_def
        start_build_def build_step_def emit_linear_def rail_def push_segment_def)
qed

definition rail_session :: session where
  "rail_session = \<lparr>se_path_options = default_path_options, se_trajectory_options = rail_options, se_sample_rate = Fin 2,
     se_sample_period = Fin (1 / 2), se_waypoints = empty_store, se_active = None, se_sampler = None, se_cursor = None,
     se_epoch = 0, se_current_time = 0, se_emitted = 0, se_staging = None, se_last_waypoint = [], se_generation = 0\<rparr>"

lemma rail_make: "make_session default_path_options rail_options (Fin 2) = Inr rail_session"
  by (simp add: make_session_def validate_sample_rate_and_compute_period_def rail_session_def)

lemma rail_batch_valid: "valid_batch rail_batch"
  by (simp add: valid_batch_def wa_inv_def)

lemma rail_start_inv: "session_inv rail_session" "session_wf rail_session"
  using make_session_inv [OF rail_make] by (simp_all add: session_inv_def)

lemma rail_first_build:
  obtains tr se where "session_extend rail_session rail_batch = (Inr \<lparr>er_kind = K_first_build, er_branch_slack = None,
      er_delta_total_duration = Fin (7 / 2)\<rparr>, se)" "se_active se = Some tr" "tr_duration tr = Fin (7 / 2)" "admissible se"
    "se_staging se = None" "trajectory_create rail rail_options [] = Inr tr" "session_inv se"
    "se_sampler se = Some \<lparr>us_num_samples = 8, us_next_sample = 0, us_start = 0\<rparr>" "se_sample_rate se = Fin 2"
    "se_epoch se = 0" "se_current_time se = 0"
proof -
  obtain tr where tr: "trajectory_create rail rail_options [] = Inr tr" "forward_motion tr" "traj_inv tr" "tr_duration tr = Fin (7 / 2)"
    using rail_trajectory by metis
  have bld: "build_rows (se_path_options rail_session) (se_trajectory_options rail_session) (wa_dof rail_batch)
      (store_rows empty_store @ drop 0 (wa_points rail_batch)) = Inr tr"
    using rail_path tr(1) empty_store_inv by (simp add: rail_session_def build_rows_def)
  obtain st where ab: "append_and_build rail_session rail_batch 0 0 empty_store = (Inr tr, st)" "store_inv st"
    "store_rows st = [[0], [5 / 2]]"
    by (rule append_and_build_spec [of empty_store rail_batch 0 0 rail_session, unfolded bld])
      (simp_all add: empty_store_inv wa_inv_def wa_size_def)
  have dof: "ws_dof st = 1" using store_hd_dof [OF ab(2)] ab(3) by simp
  have l: "store_last st = Inr [5 / 2]" using chunked.final_row [OF ab(2)] ab(3) by simp
  let ?u = "\<lparr>us_num_samples = 8, us_next_sample = 0, us_start = 0\<rparr>"
  have u: "quantized_for_trajectory tr (Fin 2) 0 = Inr ?u"
    by (simp add: quantized_for_trajectory_def Let_def tr(4) quantized_samples_cases make_uniform_sampler_def)
  have "path_inv (tr_path tr)" using tr(3) by (simp add: traj_inv_def)
  obtain c where c: "install (rail_session\<lparr>se_waypoints := st, se_last_waypoint := [5 / 2]\<rparr>) tr ?u =
      (Inr (), rail_session\<lparr>se_waypoints := st, se_last_waypoint := [5 / 2], se_active := Some tr, se_cursor := Some c, se_sampler := Some ?u\<rparr>)"
    by (rule install_spec [OF \<open>path_inv (tr_path tr)\<close>])
  define se where "se = rail_session\<lparr>se_waypoints := st, se_last_waypoint := [5 / 2], se_active := Some tr,
    se_cursor := Some c, se_sampler := Some ?u, se_generation := 1\<rparr>"
  have proj: "se_sample_rate rail_session = Fin 2" "se_waypoints rail_session = empty_store" "se_active rail_session = None"
    "se_staging rail_session = None" "se_trajectory_options rail_session = rail_options"
    "se_epoch rail_session = 0" "se_current_time rail_session = 0"
    by (simp_all add: rail_session_def)
  have x: "session_extend rail_session rail_batch = (Inr \<lparr>er_kind = K_first_build, er_branch_slack = None,
      er_delta_total_duration = Fin (7 / 2)\<rparr>, se)"
    using ab(1) u l c
    by (simp add: session_extend_def wa_size_def proj extend_first_def se_def tr(4) del: zero_Fin)
  have a: "admissible se"
    using rail_inv(3,4) dof tr(2) by (simp add: admissible_def se_def staged_trajectory_def proj rail_parts)
  have wf: "session_wf se"
    using extend_refines_lemma [OF rail_start_inv(2), of rail_batch] rail_batch_valid x by (simp add: valid_batch_def refines_extend_def)
  have "session_inv se"
    using extend_keeps_inv [OF rail_start_inv(1) _ _ x admissible_usable [OF wf a]] rail_batch_valid by (simp add: valid_batch_def)
  moreover have "se_active se = Some tr" "se_staging se = None" "se_sampler se = Some ?u" "se_sample_rate se = Fin 2"
    "se_epoch se = 0" "se_current_time se = 0"
    by (simp_all add: se_def proj)
  ultimately show thesis using that x tr(1,4) a by blast
qed

text \<open>No sample of the rail throws.\<close>

lemma rail_no_error:
  assumes "trajectory_create rail rail_options [] = Inr tr" "se_active se = Some tr" "se_staging se = None" "se_sample_rate se = Fin 2"
  shows "\<not> sampling_error se e"
proof
  assume "sampling_error se e"
  moreover obtain tr' where tr: "trajectory_create rail rail_options [] = Inr tr'" "forward_motion tr'" "traj_inv tr'"
    "tr_duration tr' = Fin (7 / 2)"
    "tr_points tr' = [rail_point 0 0 0 1, rail_point 1 (1 / 2) 1 0, rail_point (5 / 2) 2 1 (- 1), rail_point (7 / 2) (5 / 2) 0 0]"
    using rail_trajectory by metis
  moreover have "tr' = tr" using assms(1) tr(1) by simp
  ultimately obtain x where t: "0 \<le> x" "x \<le> 7 / 2 \<and> trajectory_sample tr (Fin x) = Inl e \<or>
      x < 7 / 2 \<and> quantized_for_trajectory tr (Fin 2) (Fin x) = Inl e" and d: "tr_duration tr = Fin (7 / 2)"
    using assms(2-4) by (auto simp: sampling_error_def staged_trajectory_def isfinite_iff)
  have "\<exists>smp. trajectory_sample tr (Fin x) = Inr smp" if "x \<le> 7 / 2" by (rule rail_sample [OF assms(1) t(1) that])
  moreover have "\<exists>u. quantized_for_trajectory tr (Fin 2) (Fin x) = Inr u" if "x < 7 / 2"
    using that t(1) by (simp add: quantized_for_trajectory_def Let_def d quantized_samples_cases)
  ultimately show False using t(2) by fastforce
qed

section \<open>Extending\<close>

lemma extend_rows:
  assumes "session_wf se" "extend_step build period (motion_of se) ws res m'" "ws \<noteq> []"
  shows "all_rows m' = (if se_active se = None then ws else all_rows (motion_of se) @ tl ws)"
proof -
  have "rows \<noteq> [] \<and> hd rows = last (store_rows (se_waypoints se))" if "mo_staging (motion_of se) = Some (rows, Some tr)" for rows tr
    using that assms(1) by (fastforce simp: motion_of_def session_wf_def staging_wf_def staged_rows_def split: option.splits)
  moreover have "rows = []" if "mo_staging (motion_of se) = Some (rows, None)" for rows
    using that assms(1) by (fastforce simp: motion_of_def session_wf_def staging_wf_def staged_rows_def split: option.splits)
  moreover have "mo_staging (motion_of se) = None" if "mo_active (motion_of se) = None"
    using that assms(1) by (simp add: motion_of_def session_wf_def)
  ultimately show ?thesis using extend_step_rows [OF assms(2,3)] by (simp add: motion_of_def)
qed

text \<open>
  C7: A batch that a session accepts is one abstract step on its motion: the first trajectory, nothing for a
  batch with only the seam, a new active trajectory where the samples so far leave room for it, or
  staged motion that starts at the seam and grows with each batch; the step says which, with the slack and the change of the total duration that the
  result reports. Read together, the waypoints of the motion are always those of all batches with each
  shared seam once. A batch that is rejected leaves all that can be observed as it was, unless the
  sampler of the new trajectory cannot be made.
\<close>

theorem extend_refines:
  assumes "session_wf se" "valid_batch b" "session_extend se b = (r, se')"
  shows "case r of
      Inl e \<Rightarrow> session_wf se' \<and> session_view se' = session_view se \<or> sampler_error se e
    | Inr res \<Rightarrow> session_wf se' \<and> same_settings se se' \<and>
        extend_step (session_build se) (se_sample_period se) (motion_of se) (wa_points b) res (motion_of se') \<and>
        all_rows (motion_of se') = (if se_active se = None then wa_points b else all_rows (motion_of se) @ tl (wa_points b))"
proof -
  have b: "wa_inv b" "0 < wa_dof b" using assms(2) by (simp_all add: valid_batch_def)
  have ne: "wa_points b \<noteq> []" if "r = Inr res" for res
    using assms(3) that by (auto simp: session_extend_def wa_size_def split: if_splits)
  from extend_refines_lemma [OF assms(1) b] extend_rows [OF assms(1) _ ne] assms(3) show ?thesis
    by (cases r) (auto simp: refines_extend_def sampler_error_def)
qed

theorem extend_refines_witness:
  "\<exists>res se. session_extend rail_session rail_batch = (Inr res, se) \<and> er_kind res = K_first_build \<and>
     all_rows (motion_of se) = [[0], [5 / 2]]"
proof -
  obtain se where se: "session_extend rail_session rail_batch = (Inr \<lparr>er_kind = K_first_build, er_branch_slack = None,
      er_delta_total_duration = Fin (7 / 2)\<rparr>, se)" by (rule rail_first_build)
  have "se_active rail_session = None" by (simp add: rail_session_def)
  with extend_refines [OF rail_start_inv(2) rail_batch_valid se] se show ?thesis by auto
qed

section \<open>Sampling\<close>

text \<open>
  C8: Asked for a number of samples, a session gives that many or, when its motion is drained, as many as
  are left. They are a sequence of abstract steps: each is the sample of the active trajectory at its local time,
  moved to the session's time, strictly after the one before; the active trajectory is sampled up to its
  end, or to where the staged one takes over from it. What the call throws is what sampling one of the two trajectories within its duration throws, or
  making a sampler for it.
\<close>

theorem sample_next_refines:
  assumes "session_inv se" "sample_next se n = (r, se')"
  shows "case r of
      Inl e \<Rightarrow> sampling_error se e
    | Inr out \<Rightarrow> session_inv se' \<and> same_settings se se' \<and> sample_steps (motion_of se) out (motion_of se') \<and>
        length out \<le> n \<and> (length out < n \<longrightarrow> drained (motion_of se'))"
  using sample_next_loop_sampled [OF sampled_start [OF assms(1)], of n] assms(2)
  by (cases r) (simp_all add: sample_next_def sampled_to_def sampling_failed_error)

inductive_cases sample_steps_NilE: "sample_steps m [] m'"

text \<open>The rail has not been sampled, so it is not drained.\<close>

lemma rail_not_drained:
  assumes "se_active se = Some tr" "tr_duration tr = Fin (7 / 2)" "se_epoch se = 0" "se_current_time se = 0"
    "sample_steps (motion_of se) out (motion_of se')" "drained (motion_of se')"
  shows "out \<noteq> []"
proof
  assume "out = []"
  with assms(5) have "motion_of se' = motion_of se" by (auto elim: sample_steps_NilE)
  with assms(1-4,6) show False by (simp add: drained_def motion_of_def)
qed

theorem sample_next_refines_witness:
  "\<exists>se out se'. session_inv se \<and> sample_next se 3 = (Inr out, se') \<and> out \<noteq> [] \<and> length out \<le> 3"
proof -
  obtain tr se where se: "se_active se = Some tr" "tr_duration tr = Fin (7 / 2)" "se_staging se = None"
    "trajectory_create rail rail_options [] = Inr tr" "session_inv se" "se_sample_rate se = Fin 2" "se_epoch se = 0" "se_current_time se = 0"
    by (rule rail_first_build)
  obtain r se' where r: "sample_next se 3 = (r, se')" by fastforce
  note spec = sample_next_refines [OF se(5) r]
  obtain out where out: "r = Inr out" using spec rail_no_error [OF se(4,1,3,6)] by (cases r) auto
  with spec rail_not_drained [OF se(1,2,7,8)] have "out \<noteq> []" by fastforce
  with spec out r se(5) show ?thesis by auto
qed

text \<open>
  C9: Sampling up to a horizon returns, after at most as many samples as are left: it ends with the first
  sample at or beyond the horizon, or, when the motion is drained before that, with the last sample there
  is.
\<close>

theorem sample_at_least_returns:
  assumes "session_inv se"
  shows "\<exists>r se'. iterate (sample_at_least_body (se_current_time se + horizon)) ([], se) = Some (r, se') \<and> sample_at_least se horizon = (r, se') \<and>
    (case r of
       Inl e \<Rightarrow> sampling_error se e
     | Inr out \<Rightarrow> session_inv se' \<and> sample_steps (motion_of se) out (motion_of se') \<and> length out \<le> samples_left se \<and>
         (drained (motion_of se') \<and> below_horizon (se_current_time se + horizon) out \<or>
          out \<noteq> [] \<and> se_current_time se + horizon \<le> sm_time (last out) \<and> below_horizon (se_current_time se + horizon) (butlast out)))"
proof -
  obtain r se' where r: "iterate (sample_at_least_body (se_current_time se + horizon)) ([], se) = Some (r, se')" "horizon_reached se (se_current_time se + horizon) (r, se')"
    using sample_at_least_horizon [OF assms(1)] by (metis surj_pair)
  moreover have "sample_at_least se horizon = (r, se')" using r(1) by (simp add: sample_at_least_def)
  ultimately show ?thesis by (cases r) (auto simp: horizon_reached_def sampled_to_def dest: sampling_failed_error)
qed

theorem sample_at_least_returns_witness:
  "\<exists>se out se'. session_inv se \<and> sample_at_least se (Fin 1) = (Inr out, se') \<and> out \<noteq> []"
proof -
  obtain tr se where se: "se_active se = Some tr" "tr_duration tr = Fin (7 / 2)" "se_staging se = None"
    "trajectory_create rail rail_options [] = Inr tr" "session_inv se" "se_sample_rate se = Fin 2" "se_epoch se = 0" "se_current_time se = 0"
    by (rule rail_first_build)
  from sample_at_least_returns [OF se(5), of "Fin 1"] obtain r se' where r: "sample_at_least se (Fin 1) = (r, se')"
    "case r of
       Inl e \<Rightarrow> sampling_error se e
     | Inr out \<Rightarrow> session_inv se' \<and> sample_steps (motion_of se) out (motion_of se') \<and> length out \<le> samples_left se \<and>
         (drained (motion_of se') \<and> below_horizon (se_current_time se + Fin 1) out \<or>
          out \<noteq> [] \<and> se_current_time se + Fin 1 \<le> sm_time (last out) \<and> below_horizon (se_current_time se + Fin 1) (butlast out))"
    by blast
  with rail_no_error [OF se(4,1,3,6)] obtain out where out: "r = Inr out" by (cases r) auto
  with r(2) rail_not_drained [OF se(1,2,7,8)] have "out \<noteq> []" by fastforce
  with out r(1) se(5) show ?thesis by blast
qed

section \<open>Runs\<close>

text \<open>
  C6: Whatever sequence of batches, accepted or rejected, of staging and of samples a session is put through, the samples it
  has given since it was made come in strictly increasing time: the session's time never goes back, at a
  pivot or when the staged trajectory takes over, and shows the last sample. The session keeps its
  invariant, so that its trajectories are those of its waypoints, its cursor and sampler are those of its active
  trajectory, and the next sample lies ahead.
\<close>

theorem session_samples_ordered:
  assumes "make_session po opt rate = Inr se0" "session_run se0 out se"
  shows "session_inv se \<and> sorted_wrt (\<lambda>p q. sm_time p < sm_time q) out \<and> se_emitted se = length out \<and>
    (out \<noteq> [] \<longrightarrow> se_current_time se = sm_time (last out))"
proof -
  have "se_emitted se0 = 0" using assms(1) by (auto simp: make_session_def bind_res_eq_Inr)
  from run_clock [OF assms(2) make_session_inv [OF assms(1)] this] show ?thesis
    by (auto simp: clock_shows_def in_order_def motion_of_def)
qed

theorem session_samples_ordered_witness:
  "\<exists>out se. session_run rail_session out se \<and> out \<noteq> [] \<and> se_current_time se = sm_time (last out)"
proof -
  obtain tr se where se: "session_extend rail_session rail_batch = (Inr \<lparr>er_kind = K_first_build, er_branch_slack = None,
      er_delta_total_duration = Fin (7 / 2)\<rparr>, se)" "se_active se = Some tr" "tr_duration tr = Fin (7 / 2)" "se_staging se = None"
    "trajectory_create rail rail_options [] = Inr tr" "session_inv se" "se_sample_rate se = Fin 2" "admissible se"
    "se_epoch se = 0" "se_current_time se = 0"
    by (rule rail_first_build)
  obtain r se' where r: "sample_next se 3 = (r, se')" by fastforce
  have s: "case r of Inl e \<Rightarrow> sampling_failed se (e, se') | Inr out \<Rightarrow> sampled_to se (out, se') \<and> (length out < 3 \<longrightarrow> drained (motion_of se'))"
    using sample_next_loop_sampled [OF sampled_start [OF se(6)], of 3] r by (cases r) (simp_all add: sample_next_def)
  then obtain out where out: "r = Inr out" using rail_no_error [OF se(5,2,4,7)] by (cases r) (auto dest: sampling_failed_error)
  with s rail_not_drained [OF se(2,3,9,10), of out se'] have ne: "out \<noteq> []" by (cases out) (auto simp: sampled_to_def)
  have "session_run rail_session [] se" by (rule Extend [OF Begin rail_batch_valid se(1,8)])
  from Sample [OF this r [unfolded out]] have run: "session_run rail_session out se'" by simp
  with session_samples_ordered [OF rail_make run] ne show ?thesis by blast
qed

section \<open>Durations\<close>

lemma sample_steps_active: "sample_steps m out m' \<Longrightarrow> mo_active m' = None \<longleftrightarrow> mo_active m = None"
proof (induction rule: sample_steps.induct)
  case (One_more m out m1 smp m')
  from One_more.hyps(2) have "mo_active m' = None \<longleftrightarrow> mo_active m1 = None" by (cases rule: sample_step.cases) auto
  with One_more.IH show ?case by simp
qed simp

lemma extend_step_end:
  assumes "extend_step build period m ws res m'" "mo_active m = None \<Longrightarrow> mo_epoch m = 0 \<and> mo_staging m = None"
    "isfinite (total_end m)" "isfinite (total_end m')" "\<And>tr. mo_active m = Some tr \<Longrightarrow> isfinite (mo_epoch m) \<and> isfinite (tr_duration tr)"
  shows "total_end m' = total_end m + er_delta_total_duration res"
proof -
  have fin: "Fin a + x = Fin c \<longleftrightarrow> (\<exists>b. x = Fin b \<and> c = a + b)" for a c x by (cases x) auto
  show ?thesis using assms(1)
  proof cases
    case (Stage_again tr staged old rows tr')
    with assms(3-5) show ?thesis by (cases old) (auto simp: total_end_def isfinite_iff fin)
  qed (use assms(2-5) in \<open>auto simp: total_end_def isfinite_iff fin split: option.splits\<close>)
qed

lemma sampled_remaining_total:
  assumes "session_inv se" "sample_next se n = (Inr out, se')"
  shows "remaining_total_duration se' + (se_current_time se' - se_current_time se) = remaining_total_duration se"
proof -
  have s: "sampled_to se (out, se')"
    using sample_next_loop_sampled [OF sampled_start [OF assms(1)], of n] assms(2) by (simp add: sample_next_def)
  then have inv: "session_inv se'" and end': "total_end (motion_of se') = total_end (motion_of se)"
    by (auto simp: sampled_to_def dest: sample_steps_end)
  have act: "se_active se' = None \<longleftrightarrow> se_active se = None"
    using sample_steps_active [of "motion_of se" out "motion_of se'"] s by (simp add: sampled_to_def motion_of_def)
  then have rest: "se_current_time se = 0 \<and> se_current_time se' = 0" if "se_active se = None"
    using that assms(1) inv by (simp add: session_inv_def sampling_inv_def)
  show "remaining_total_duration se' + (se_current_time se' - se_current_time se) = remaining_total_duration se"
    using remaining_total_eq [OF assms(1)] remaining_total_eq [OF inv] end' act rest
    by (cases "se_active se") (auto simp: isfinite_iff)
qed

lemma extended_remaining_total:
  assumes "session_inv se" and x: "valid_batch b" "session_extend se b = (Inr res, se')" "admissible se'"
  shows "remaining_total_duration se' = remaining_total_duration se + er_delta_total_duration res"
proof -
  have b: "wa_inv b" "0 < wa_dof b" using x(1) by (simp_all add: valid_batch_def)
  have wf: "session_wf se" using assms(1) by (simp add: session_inv_def)
  have "session_wf se'" using extend_refines_lemma [OF wf b] x(2) by (simp add: refines_extend_def)
  from extend_keeps_inv [OF assms(1) b x(2) admissible_usable [OF this x(3)]]
  have inv: "session_inv se'"
    and st: "extend_step (session_build se) (se_sample_period se) (motion_of se) (wa_points b) res (motion_of se')" by simp_all
  note fin = remaining_total_eq [OF assms(1)] remaining_total_eq [OF inv]
  have rest: "se_current_time se = 0 \<and> se_epoch se = 0 \<and> se_staging se = None \<and> total_end (motion_of se) = 0" if "se_active se = None"
    using that assms(1) by (simp add: session_inv_def sampling_inv_def session_wf_def total_end_def motion_of_def)
  have e: "total_end (motion_of se') = total_end (motion_of se) + er_delta_total_duration res"
  proof (rule extend_step_end [OF st])
    show "isfinite (mo_epoch (motion_of se)) \<and> isfinite (tr_duration tr)" if "mo_active (motion_of se) = Some tr" for tr
    proof -
      have "se_active se = Some tr" using that by (simp add: motion_of_def)
      then obtain e d where "se_epoch se = Fin e" "tr_duration tr = Fin d" by (rule clock_before_end [OF assms(1)])
      then show ?thesis by (simp add: motion_of_def)
    qed
  qed (use fin rest in \<open>auto simp: motion_of_def\<close>)
  have act: "se_active se' \<noteq> None" using st by (cases rule: extend_step.cases) (auto simp: motion_of_def)
  have time: "se_current_time se' = se_current_time se" using extend_step_clock [OF st] by (simp add: motion_of_def)
  obtain x1 x2 x3 where "total_end (motion_of se) = Fin x1" "se_current_time se = Fin x2" "total_end (motion_of se') = Fin x3"
    using fin by (auto simp: isfinite_iff)
  note y = this
  have d: "er_delta_total_duration res = Fin (x3 - x1)" using e y by (cases "er_delta_total_duration res") auto
  show "remaining_total_duration se' = remaining_total_duration se + er_delta_total_duration res"
  proof (cases "se_active se = None")
    case True
    with conjunct1 [OF fin(1)] conjunct1 [OF fin(2)] act time rest y d show ?thesis by simp
  next
    case False
    with conjunct1 [OF fin(1)] conjunct1 [OF fin(2)] act time y d show ?thesis by simp
  qed
qed

text \<open>
  C10: The total duration that a session has left adds up. Sampling lowers it by exactly the time that the
  session's clock advances, so it is the time from the last sample to the end of all motion; and a batch that leaves
  an admissible session (its trajectories are forward motions) changes it by exactly the change that its result reports.
\<close>

theorem remaining_total_accounting:
  assumes "session_inv se"
  shows "(\<forall>n out se'. sample_next se n = (Inr out, se') \<longrightarrow>
      remaining_total_duration se' + (se_current_time se' - se_current_time se) = remaining_total_duration se) \<and>
    (\<forall>b res se'. valid_batch b \<longrightarrow> session_extend se b = (Inr res, se') \<longrightarrow> admissible se' \<longrightarrow>
      remaining_total_duration se' = remaining_total_duration se + er_delta_total_duration res)"
  using sampled_remaining_total [OF assms] extended_remaining_total [OF assms] by blast

theorem remaining_total_accounting_witness:
  "\<exists>se. session_extend rail_session rail_batch = (Inr \<lparr>er_kind = K_first_build, er_branch_slack = None,
      er_delta_total_duration = Fin (7 / 2)\<rparr>, se) \<and> remaining_total_duration se = Fin (7 / 2)"
proof -
  obtain se where se: "session_extend rail_session rail_batch = (Inr \<lparr>er_kind = K_first_build, er_branch_slack = None,
      er_delta_total_duration = Fin (7 / 2)\<rparr>, se)" "admissible se"
    by (rule rail_first_build)
  have "remaining_total_duration rail_session = 0" by (simp add: remaining_total_duration_def rail_session_def)
  with remaining_total_accounting [OF rail_start_inv(1)] rail_batch_valid se show ?thesis by fastforce
qed

end
