(* ===== verification/Chain.thy ===== *)
theory Chain
  imports Limit_Curves
begin

text \<open>
  The kinematic chain of an arm (\<open>kinematics/chain.{hpp,cpp}\<close>): rigid transforms as unit quaternions with
  translations, the builder that validates and normalises the joints, the walk along the chain, the
  Jacobian and the forward kinematics, and the tool speed limit made from a chain. What a caller gives is
  in doubles; what has passed the builder is finite, and the walk computes on reals.
\<close>

section \<open>Vectors\<close>

text \<open>\<open>std::array<double, 3>\<close> and \<open>std::array<double, 4>\<close>\<close>

datatype 'a arr3 = V3 (v3_x: 'a) (v3_y: 'a) (v3_z: 'a)

type_synonym vec3 = "real arr3"

datatype 'a arr4 = Q4 (q_w: 'a) (q_x: 'a) (q_y: 'a) (q_z: 'a)

type_synonym quat = "real arr4"

instantiation arr3 :: (ab_group_add) ab_group_add
begin

definition zero_arr3 :: "'a arr3" where "0 = V3 0 0 0"

definition plus_arr3 :: "'a arr3 \<Rightarrow> 'a arr3 \<Rightarrow> 'a arr3" where
  "a + b = V3 (v3_x a + v3_x b) (v3_y a + v3_y b) (v3_z a + v3_z b)"

definition minus_arr3 :: "'a arr3 \<Rightarrow> 'a arr3 \<Rightarrow> 'a arr3" where
  "a - b = V3 (v3_x a - v3_x b) (v3_y a - v3_y b) (v3_z a - v3_z b)"

definition uminus_arr3 :: "'a arr3 \<Rightarrow> 'a arr3" where
  "- a = V3 (- v3_x a) (- v3_y a) (- v3_z a)"

instance
  by standard (simp_all add: zero_arr3_def plus_arr3_def minus_arr3_def uminus_arr3_def)

end

definition scale3 :: "real \<Rightarrow> vec3 \<Rightarrow> vec3" where
  "scale3 k a = V3 (k * v3_x a) (k * v3_y a) (k * v3_z a)"

definition dot3 :: "vec3 \<Rightarrow> vec3 \<Rightarrow> real" where
  "dot3 a b = v3_x a * v3_x b + v3_y a * v3_y b + v3_z a * v3_z b"

definition cross :: "vec3 \<Rightarrow> vec3 \<Rightarrow> vec3" where
  "cross a b = V3 (v3_y a * v3_z b - v3_z a * v3_y b) (v3_z a * v3_x b - v3_x a * v3_z b) (v3_x a * v3_y b - v3_y a * v3_x b)"

definition norm3 :: "vec3 \<Rightarrow> real" where
  "norm3 a = sqrt (dot3 a a)"

definition normalized :: "vec3 \<Rightarrow> vec3" where
  "normalized a = (let n = norm3 a in V3 (v3_x a / n) (v3_y a / n) (v3_z a / n))"

section \<open>Quaternions and rigid transforms\<close>

definition quat_multiply :: "quat \<Rightarrow> quat \<Rightarrow> quat" where
  "quat_multiply a b = Q4
     (q_w a * q_w b - q_x a * q_x b - q_y a * q_y b - q_z a * q_z b)
     (q_w a * q_x b + q_x a * q_w b + q_y a * q_z b - q_z a * q_y b)
     (q_w a * q_y b - q_x a * q_z b + q_y a * q_w b + q_z a * q_x b)
     (q_w a * q_z b + q_x a * q_y b - q_y a * q_x b + q_z a * q_w b)"

definition rotate3 :: "quat \<Rightarrow> vec3 \<Rightarrow> vec3" where
  "rotate3 q v =
     (let u = V3 (q_x q) (q_y q) (q_z q);
          uv = cross u v;
          t = V3 (2 * v3_x uv) (2 * v3_y uv) (2 * v3_z uv);
          ut = cross u t
      in V3 (v3_x v + q_w q * v3_x t + v3_x ut) (v3_y v + q_w q * v3_y t + v3_y ut) (v3_z v + q_w q * v3_z t + v3_z ut))"

definition axis_rotation :: "vec3 \<Rightarrow> real \<Rightarrow> quat" where
  "axis_rotation axis theta =
     (let half = theta / 2; s = sin half
      in Q4 (cos half) (s * v3_x axis) (s * v3_y axis) (s * v3_z axis))"

record rigid_transform =
  rt_rotation :: quat
  rt_translation :: vec3

definition rt_identity :: rigid_transform where
  "rt_identity = \<lparr>rt_rotation = Q4 1 0 0 0, rt_translation = V3 0 0 0\<rparr>"

definition rt_compose :: "rigid_transform \<Rightarrow> quat \<Rightarrow> vec3 \<Rightarrow> rigid_transform" where
  "rt_compose parent rotation translation =
     (let moved = rotate3 (rt_rotation parent) translation
      in \<lparr>rt_rotation = quat_multiply (rt_rotation parent) rotation,
          rt_translation = rt_translation parent + moved\<rparr>)"

section \<open>Joints\<close>

record joint_origin =
  jo_translation :: "dbl arr3"
  jo_rotation :: "dbl arr4"

record joint_base =
  jb_origin :: joint_origin
  jb_origin_rotation :: quat

text \<open>A moving joint has its axis as given and the unit axis that \<open>build\<close> derives from it.\<close>

datatype joint =
    Fixed_joint joint_base
  | Rotating_joint joint_base "dbl arr3" vec3
  | Translating_joint joint_base "dbl arr3" vec3

record chain =
  ch_joints :: "joint list"
  ch_actuated_count :: nat

type_synonym chain_builder = "joint list"

definition extend_fixed :: "joint_origin \<Rightarrow> chain_builder \<Rightarrow> chain_builder" where
  "extend_fixed origin joints = joints @ [Fixed_joint \<lparr>jb_origin = origin, jb_origin_rotation = Q4 0 0 0 0\<rparr>]"

definition extend_rotating :: "joint_origin \<Rightarrow> dbl arr3 \<Rightarrow> chain_builder \<Rightarrow> chain_builder" where
  "extend_rotating origin axis joints =
     joints @ [Rotating_joint \<lparr>jb_origin = origin, jb_origin_rotation = Q4 0 0 0 0\<rparr> axis (V3 0 0 0)]"

definition extend_translating :: "joint_origin \<Rightarrow> dbl arr3 \<Rightarrow> chain_builder \<Rightarrow> chain_builder" where
  "extend_translating origin axis joints =
     joints @ [Translating_joint \<lparr>jb_origin = origin, jb_origin_rotation = Q4 0 0 0 0\<rparr> axis (V3 0 0 0)]"

section \<open>Building a chain\<close>

text \<open>\<open>std::to_string\<close> of a size\<close>

fun string_of_size :: "nat \<Rightarrow> string" where
  "string_of_size n =
     (if n < 10 then [char_of (48 + n)] else string_of_size (n div 10) @ [char_of (48 + n mod 10)])"

declare string_of_size.simps [simp del]

definition all_finite3 :: "dbl arr3 \<Rightarrow> bool" where
  "all_finite3 v \<longleftrightarrow> isfinite (v3_x v) \<and> isfinite (v3_y v) \<and> isfinite (v3_z v)"

definition all_finite4 :: "dbl arr4 \<Rightarrow> bool" where
  "all_finite4 q \<longleftrightarrow> isfinite (q_w q) \<and> isfinite (q_x q) \<and> isfinite (q_y q) \<and> isfinite (q_z q)"

definition rotation_norm :: "dbl arr4 \<Rightarrow> dbl" where
  "rotation_norm q = fsqrt (q_w q * q_w q + q_x q * q_x q + q_y q * q_y q + q_z q * q_z q)"

definition axis_norm :: "dbl arr3 \<Rightarrow> dbl" where
  "axis_norm v = fsqrt (v3_x v * v3_x v + v3_y v * v3_y v + v3_z v * v3_z v)"

definition build_base :: "string \<Rightarrow> joint_base \<Rightarrow> joint_base res" where
  "build_base which base =
     (let translation = jo_translation (jb_origin base); rotation = jo_rotation (jb_origin base);
          n = rotation_norm rotation
      in if \<not> all_finite3 translation
         then Inl (Invalid_argument (which @ '' has a non-finite translation''))
         else if \<not> all_finite4 rotation \<or> \<not> isfinite n \<or> feq n 0
         then Inl (Invalid_argument (which @ '' has a zero or non-finite quaternion''))
         else Inr (base\<lparr>jb_origin_rotation := map_arr4 (\<lambda>x. fin (divide x n)) rotation\<rparr>))"

definition build_axis :: "string \<Rightarrow> dbl arr3 \<Rightarrow> vec3 res" where
  "build_axis which axis =
     (let n = axis_norm axis
      in if \<not> all_finite3 axis \<or> \<not> isfinite n \<or> feq n 0
         then Inl (Invalid_argument (which @ '' has a zero or non-finite axis''))
         else Inr (normalized (map_arr3 fin axis)))"

definition joint_name :: "nat \<Rightarrow> string" where
  "joint_name i = ''viam::trajex::kinematics: joint '' @ string_of_size i"

fun build_joint :: "nat \<Rightarrow> joint \<Rightarrow> joint res" where
  "build_joint i (Fixed_joint base) = bind_res (build_base (joint_name i) base) (\<lambda>b. Inr (Fixed_joint b))"
| "build_joint i (Rotating_joint base axis unit) =
     bind_res (build_base (joint_name i) base) (\<lambda>b.
     bind_res (build_axis (joint_name i) axis) (\<lambda>u. Inr (Rotating_joint b axis u)))"
| "build_joint i (Translating_joint base axis unit) =
     bind_res (build_base (joint_name i) base) (\<lambda>b.
     bind_res (build_axis (joint_name i) axis) (\<lambda>u. Inr (Translating_joint b axis u)))"

fun build_joints :: "nat \<Rightarrow> joint list \<Rightarrow> joint list res" where
  "build_joints i [] = Inr []"
| "build_joints i (j # js) =
     bind_res (build_joint i j) (\<lambda>j'. bind_res (build_joints (Suc i) js) (\<lambda>js'. Inr (j' # js')))"

fun is_moving :: "joint \<Rightarrow> bool" where
  "is_moving (Fixed_joint _) = False"
| "is_moving _ = True"

definition make_chain :: "joint list \<Rightarrow> chain" where
  "make_chain joints = \<lparr>ch_joints = joints, ch_actuated_count = length (filter is_moving joints)\<rparr>"

definition chain_build :: "chain_builder \<Rightarrow> chain res" where
  "chain_build joints =
     (if joints = []
      then Inl (Invalid_argument ''viam::trajex::kinematics: a kinematic chain needs at least one joint'')
      else bind_res (build_joints 0 joints) (\<lambda>js. Inr (make_chain js)))"

definition chain_dof :: "chain \<Rightarrow> nat" where
  "chain_dof c = ch_actuated_count c"

definition chain_size :: "chain \<Rightarrow> nat" where
  "chain_size c = length (ch_joints c)"

text \<open>
  \<open>visit_joints\<close> calls its visitor with the arguments of the builder overload that added the joint; a
  call is a value here, and \<open>replay\<close> is the visitor that makes the same calls on a builder.
\<close>

datatype joint_call =
    Extend_fixed joint_origin
  | Extend_rotating joint_origin "dbl arr3"
  | Extend_translating joint_origin "dbl arr3"

fun visit_joint :: "joint \<Rightarrow> joint_call" where
  "visit_joint (Fixed_joint b) = Extend_fixed (jb_origin b)"
| "visit_joint (Rotating_joint b axis _) = Extend_rotating (jb_origin b) axis"
| "visit_joint (Translating_joint b axis _) = Extend_translating (jb_origin b) axis"

definition visit_joints :: "chain \<Rightarrow> joint_call list" where
  "visit_joints c = map visit_joint (ch_joints c)"

fun replay_call :: "joint_call \<Rightarrow> chain_builder \<Rightarrow> chain_builder" where
  "replay_call (Extend_fixed origin) b = extend_fixed origin b"
| "replay_call (Extend_rotating origin axis) b = extend_rotating origin axis b"
| "replay_call (Extend_translating origin axis) b = extend_translating origin axis b"

definition replay :: "joint_call list \<Rightarrow> chain_builder" where
  "replay calls = fold replay_call calls []"

section \<open>The walk along the chain\<close>

record captured_joint =
  cj_axis :: vec3
  cj_position :: vec3
  cj_translates :: bool

record workspace =
  wk_joints :: "captured_joint list"
  wk_p_e :: vec3

record walk =
  wl_running :: rigid_transform
  wl_qi :: nat
  wl_joints :: "captured_joint list"

definition walk_base :: "joint_base \<Rightarrow> walk \<Rightarrow> walk" where
  "walk_base base w = w\<lparr>wl_running := rt_compose (wl_running w) (jb_origin_rotation base)
     (map_arr3 fin (jo_translation (jb_origin base)))\<rparr>"

fun walk_joint :: "xvector \<Rightarrow> joint \<Rightarrow> walk \<Rightarrow> walk" where
  "walk_joint q (Fixed_joint base) w = walk_base base w"
| "walk_joint q (Rotating_joint base _ unit_axis) w =
     (let w1 = walk_base base w;
          running = wl_running w1;
          axis = rotate3 (rt_rotation running) unit_axis
      in \<lparr>wl_running = running\<lparr>rt_rotation := quat_multiply (rt_rotation running) (axis_rotation unit_axis (q ! wl_qi w))\<rparr>,
          wl_qi = Suc (wl_qi w),
          wl_joints = wl_joints w @ [\<lparr>cj_axis = axis, cj_position = rt_translation running, cj_translates = False\<rparr>]\<rparr>)"
| "walk_joint q (Translating_joint base _ unit_axis) w =
     (let w1 = walk_base base w;
          running = wl_running w1;
          axis = rotate3 (rt_rotation running) unit_axis
      in \<lparr>wl_running = running\<lparr>rt_translation := rt_translation running + scale3 (q ! wl_qi w) axis\<rparr>,
          wl_qi = Suc (wl_qi w),
          wl_joints = wl_joints w @ [\<lparr>cj_axis = axis, cj_position = rt_translation running, cj_translates = True\<rparr>]\<rparr>)"

definition size_mismatch :: "string \<Rightarrow> nat \<Rightarrow> nat \<Rightarrow> exn" where
  "size_mismatch name expected got = Invalid_argument (''viam::trajex::kinematics: '' @ name @ '' size mismatch: expected '' @
     string_of_size expected @ '' (actuated joints), got '' @ string_of_size got)"

text \<open>The joints left in the workspace by an earlier call are cleared first.\<close>

definition update_chain_state :: "chain \<Rightarrow> xvector \<Rightarrow> nat \<Rightarrow> workspace \<Rightarrow> workspace res" where
  "update_chain_state c q last_joint storage =
     (if length q \<noteq> ch_actuated_count c then Inl (size_mismatch ''q'' (ch_actuated_count c) (length q))
      else
        let storage1 = storage\<lparr>wk_joints := []\<rparr>;
            w = fold (walk_joint q) (take (Suc last_joint) (ch_joints c))
                  \<lparr>wl_running = rt_identity, wl_qi = 0, wl_joints = wk_joints storage1\<rparr>
        in Inr (storage1\<lparr>wk_joints := wl_joints w, wk_p_e := rt_translation (wl_running w)\<rparr>))"

definition linear_column :: "captured_joint \<Rightarrow> vec3 \<Rightarrow> vec3" where
  "linear_column j p_e = (if cj_translates j then cj_axis j else cross (cj_axis j) (p_e - cj_position j))"

definition fresh_workspace :: workspace where
  "fresh_workspace = \<lparr>wk_joints = [], wk_p_e = V3 0 0 0\<rparr>"

text \<open>The rows of the matrices; the angular part of a translating joint stays zero.\<close>

definition jacobian :: "chain \<Rightarrow> xvector \<Rightarrow> real list list res" where
  "jacobian c q =
     bind_res (update_chain_state c q (length (ch_joints c) - 1) fresh_workspace) (\<lambda>storage.
       let columns = map (\<lambda>i. let j = wk_joints storage ! i
                            in (linear_column j (wk_p_e storage), if cj_translates j then V3 0 0 0 else cj_axis j))
                       [0..<ch_actuated_count c]
       in Inr [map (v3_x \<circ> fst) columns, map (v3_y \<circ> fst) columns, map (v3_z \<circ> fst) columns,
               map (v3_x \<circ> snd) columns, map (v3_y \<circ> snd) columns, map (v3_z \<circ> snd) columns])"

definition linear_jacobian :: "chain \<Rightarrow> xvector \<Rightarrow> real list list res" where
  "linear_jacobian c q =
     bind_res (update_chain_state c q (length (ch_joints c) - 1) fresh_workspace) (\<lambda>storage.
       let columns = map (\<lambda>i. linear_column (wk_joints storage ! i) (wk_p_e storage)) [0..<ch_actuated_count c]
       in Inr [map v3_x columns, map v3_y columns, map v3_z columns])"

section \<open>Forward kinematics\<close>

record frame_kinematics =
  fk_position :: vec3
  fk_linear_velocity :: vec3
  fk_linear_acceleration :: vec3

definition velocity_step :: "vec3 \<Rightarrow> captured_joint \<times> real \<Rightarrow> vec3 \<Rightarrow> vec3" where
  "velocity_step p_e = (\<lambda>(j, q_dot) v. v + scale3 q_dot (linear_column j p_e))"

text \<open>The angular velocity, and the two sums that give the velocity of a point, of the joints so far.\<close>

record carried =
  ca_dv :: vec3
  ca_omega :: vec3
  ca_c :: vec3
  ca_t :: vec3

definition acceleration_step :: "vec3 \<Rightarrow> vec3 \<Rightarrow> captured_joint \<times> real \<times> real \<Rightarrow> carried \<Rightarrow> carried" where
  "acceleration_step p_e v = (\<lambda>(j, q_dot, q_ddot) k.
     let w = cj_axis j; p = cj_position j;
         dw = cross (ca_omega k) w;
         (col, d_col) =
           (if cj_translates j then (w, dw)
            else
              let r = p_e - p;
                  v_point = cross (ca_omega k) p - ca_c k + ca_t k;
                  dr = v - v_point
              in (cross w r, cross dw r + cross w dr));
         dv = ca_dv k + scale3 q_dot d_col + scale3 q_ddot col;
         wq = scale3 q_dot w
     in if cj_translates j then k\<lparr>ca_dv := dv, ca_t := ca_t k + wq\<rparr>
        else k\<lparr>ca_dv := dv, ca_omega := ca_omega k + wq, ca_c := ca_c k + cross wq p\<rparr>)"

definition forward_kinematics ::
  "chain \<Rightarrow> nat \<Rightarrow> xvector \<Rightarrow> xvector \<Rightarrow> xvector \<Rightarrow> workspace \<Rightarrow> (frame_kinematics \<times> workspace) res" where
  "forward_kinematics c joint q q_dot q_ddot storage =
     (if length (ch_joints c) \<le> joint
      then Inl (Out_of_range (''viam::trajex::kinematics: joint '' @ string_of_size joint @ '' is past the end of a chain of '' @
             string_of_size (length (ch_joints c)) @ '' joints''))
      else if length q_dot \<noteq> ch_actuated_count c then Inl (size_mismatch ''q_dot'' (ch_actuated_count c) (length q_dot))
      else if length q_ddot \<noteq> ch_actuated_count c then Inl (size_mismatch ''q_ddot'' (ch_actuated_count c) (length q_ddot))
      else
        bind_res (update_chain_state c q joint storage) (\<lambda>storage1.
          let joints = wk_joints storage1; p_e = wk_p_e storage1;
              v = fold (velocity_step p_e) (zip joints q_dot) 0;
              k = fold (acceleration_step p_e v) (zip joints (zip q_dot q_ddot))
                    \<lparr>ca_dv = 0, ca_omega = 0, ca_c = 0, ca_t = 0\<rparr>
          in Inr (\<lparr>fk_position = p_e, fk_linear_velocity = v, fk_linear_acceleration = ca_dv k\<rparr>, storage1)))"

definition forward_kinematics_fresh ::
  "chain \<Rightarrow> nat \<Rightarrow> xvector \<Rightarrow> xvector \<Rightarrow> xvector \<Rightarrow> frame_kinematics res" where
  "forward_kinematics_fresh c joint q q_dot q_ddot =
     bind_res (forward_kinematics c joint q q_dot q_ddot fresh_workspace) (\<lambda>(fk, _). Inr fk)"

definition end_position :: "chain \<Rightarrow> xvector \<Rightarrow> vec3 res" where
  "end_position c q =
     (let at_rest = replicate (chain_dof c) 0
      in bind_res (forward_kinematics_fresh c (chain_size c - 1) q at_rest at_rest) (\<lambda>fk. Inr (fk_position fk)))"

section \<open>The limit of the tool's speed\<close>

text \<open>
  The evaluator keeps its workspace from call to call; here a call is given the workspace the calls before
  it have left.
\<close>

definition tcp_evaluate ::
  "chain \<Rightarrow> workspace \<Rightarrow> xvector \<Rightarrow> xvector \<Rightarrow> xvector \<Rightarrow> (linear_speed option \<times> workspace) res" where
  "tcp_evaluate c storage q q_prime q_double_prime =
     bind_res (forward_kinematics c (chain_size c - 1) q q_prime q_double_prime storage) (\<lambda>(fk, storage1).
       let v = fk_linear_velocity fk; a = fk_linear_acceleration fk;
           speed = sqrt (dot3 v v)
       in Inr (if speed = 0 then None
               else Some \<lparr>ls_value = Fin speed, ls_arc_length_derivative = Fin (dot3 v a / speed)\<rparr>, storage1))"

definition tcp_limits_from :: "chain \<Rightarrow> dbl \<Rightarrow> tcp_limits" where
  "tcp_limits_from c max_linear_speed =
     \<lparr>tcp_max_linear_speed = max_linear_speed,
      tcp_evaluator = (\<lambda>q q_prime q_double_prime.
        bind_res (tcp_evaluate c fresh_workspace q q_prime q_double_prime) (\<lambda>(r, _). Inr r))\<rparr>"

end
