(* ===== verification/Chain_Motion.thy ===== *)
theory Chain_Motion
  imports Chain
begin

text \<open>
  The motion of a chain: unit quaternions rotate and compose, a frame of the chain moves with an angular
  velocity and takes every point with it, and the forward kinematics reports the derivatives.
\<close>

section \<open>Vectors\<close>

named_theorems arr3_simps \<open>the components of vector operations\<close>

lemma arr3_components [arr3_simps]:
  fixes a b :: "'a::ab_group_add arr3"
  shows "v3_x (a + b) = v3_x a + v3_x b" "v3_y (a + b) = v3_y a + v3_y b" "v3_z (a + b) = v3_z a + v3_z b"
    "v3_x (a - b) = v3_x a - v3_x b" "v3_y (a - b) = v3_y a - v3_y b" "v3_z (a - b) = v3_z a - v3_z b"
    "v3_x (- a) = - v3_x a" "v3_y (- a) = - v3_y a" "v3_z (- a) = - v3_z a"
    "v3_x (0 :: 'a arr3) = 0" "v3_y (0 :: 'a arr3) = 0" "v3_z (0 :: 'a arr3) = 0"
  by (simp_all add: zero_arr3_def plus_arr3_def minus_arr3_def uminus_arr3_def)

lemma vec3_components [arr3_simps]:
  "v3_x (scale3 k a) = k * v3_x a" "v3_y (scale3 k a) = k * v3_y a" "v3_z (scale3 k a) = k * v3_z a"
  "v3_x (cross a b) = v3_y a * v3_z b - v3_z a * v3_y b"
  "v3_y (cross a b) = v3_z a * v3_x b - v3_x a * v3_z b"
  "v3_z (cross a b) = v3_x a * v3_y b - v3_y a * v3_x b"
  by (simp_all add: scale3_def cross_def)

lemma arr3_eqI: "v3_x a = v3_x b \<Longrightarrow> v3_y a = v3_y b \<Longrightarrow> v3_z a = v3_z b \<Longrightarrow> a = b"
  by (cases a; cases b) simp

lemma cross_linear:
  "cross (a + b) c = cross a c + cross b c" "cross a (b + c) = cross a b + cross a c"
  "cross (a - b) c = cross a c - cross b c" "cross a (b - c) = cross a b - cross a c"
  "cross (scale3 k a) b = scale3 k (cross a b)" "cross a (scale3 k b) = scale3 k (cross a b)"
  "cross 0 a = 0" "cross a 0 = 0"
  by (rule arr3_eqI; simp add: arr3_simps algebra_simps)+

lemma scale3_linear:
  "scale3 k (a + b) = scale3 k a + scale3 k b" "scale3 k (a - b) = scale3 k a - scale3 k b"
  "scale3 (k + l) a = scale3 k a + scale3 l a" "scale3 0 a = 0" "scale3 k 0 = 0"
  by (rule arr3_eqI; simp add: arr3_simps algebra_simps)+

section \<open>Unit quaternions\<close>

definition unit_quat :: "quat \<Rightarrow> bool" where
  "unit_quat q \<longleftrightarrow> (q_w q)\<^sup>2 + (q_x q)\<^sup>2 + (q_y q)\<^sup>2 + (q_z q)\<^sup>2 = 1"

text \<open>The product of a quaternion, a vector and the conjugate, which is \<open>rotate3\<close> for a unit quaternion.\<close>

definition sandwich :: "quat \<Rightarrow> vec3 \<Rightarrow> vec3" where
  "sandwich q v =
     (let w = q_w q; x = q_x q; y = q_y q; z = q_z q
      in V3 ((w * w + x * x - y * y - z * z) * v3_x v + 2 * (x * y - w * z) * v3_y v + 2 * (x * z + w * y) * v3_z v)
            (2 * (x * y + w * z) * v3_x v + (w * w - x * x + y * y - z * z) * v3_y v + 2 * (y * z - w * x) * v3_z v)
            (2 * (x * z - w * y) * v3_x v + 2 * (y * z + w * x) * v3_y v + (w * w - x * x - y * y + z * z) * v3_z v))"

lemma sandwich_multiply: "sandwich (quat_multiply a b) v = sandwich a (sandwich b v)"
  by (rule arr3_eqI; simp add: sandwich_def quat_multiply_def Let_def; algebra)

lemma sandwich_cross:
  "cross (sandwich q a) (sandwich q b) = scale3 ((q_w q)\<^sup>2 + (q_x q)\<^sup>2 + (q_y q)\<^sup>2 + (q_z q)\<^sup>2) (sandwich q (cross a b))"
  by (rule arr3_eqI; simp add: sandwich_def cross_def scale3_def Let_def; algebra)

lemma rotate3_sandwich:
  assumes "unit_quat q"
  shows "rotate3 q v = sandwich q v"
proof -
  have w: "q_w q * q_w q = 1 - q_x q * q_x q - q_y q * q_y q - q_z q * q_z q"
    using assms by (simp add: unit_quat_def power2_eq_square)
  show ?thesis
    by (rule arr3_eqI; simp add: sandwich_def rotate3_def cross_def Let_def w; simp add: algebra_simps)
qed

lemma unit_multiply:
  assumes "unit_quat a" "unit_quat b"
  shows "unit_quat (quat_multiply a b)"
proof -
  have "(q_w (quat_multiply a b))\<^sup>2 + (q_x (quat_multiply a b))\<^sup>2 + (q_y (quat_multiply a b))\<^sup>2 + (q_z (quat_multiply a b))\<^sup>2 =
      ((q_w a)\<^sup>2 + (q_x a)\<^sup>2 + (q_y a)\<^sup>2 + (q_z a)\<^sup>2) * ((q_w b)\<^sup>2 + (q_x b)\<^sup>2 + (q_y b)\<^sup>2 + (q_z b)\<^sup>2)"
    by (simp add: quat_multiply_def) algebra
  with assms show ?thesis by (simp add: unit_quat_def)
qed

lemma rotate3_multiply: "unit_quat a \<Longrightarrow> unit_quat b \<Longrightarrow> rotate3 (quat_multiply a b) v = rotate3 a (rotate3 b v)"
  by (simp add: rotate3_sandwich unit_multiply sandwich_multiply)

lemma rotate3_cross: "unit_quat q \<Longrightarrow> rotate3 q (cross a b) = cross (rotate3 q a) (rotate3 q b)"
  using sandwich_cross [of q a b] by (simp add: rotate3_sandwich unit_quat_def) (simp add: arr3_eqI arr3_simps)

lemma rotate3_norm:
  assumes "unit_quat q"
  shows "dot3 (rotate3 q v) (rotate3 q v) = dot3 v v"
proof -
  have "dot3 (sandwich q v) (sandwich q v) = ((q_w q)\<^sup>2 + (q_x q)\<^sup>2 + (q_y q)\<^sup>2 + (q_z q)\<^sup>2)\<^sup>2 * dot3 v v"
    by (simp add: sandwich_def dot3_def Let_def) algebra
  with assms show ?thesis by (simp add: rotate3_sandwich unit_quat_def)
qed

lemma rotate3_basis:
  "rotate3 q v = scale3 (v3_x v) (rotate3 q (V3 1 0 0)) + scale3 (v3_y v) (rotate3 q (V3 0 1 0)) + scale3 (v3_z v) (rotate3 q (V3 0 0 1))"
  by (rule arr3_eqI; simp add: arr3_simps rotate3_def Let_def cross_def algebra_simps)

lemma rotate3_linear:
  "rotate3 q (a + b) = rotate3 q a + rotate3 q b" "rotate3 q (scale3 k a) = scale3 k (rotate3 q a)" "rotate3 q 0 = 0"
  by (rule arr3_eqI; simp add: arr3_simps rotate3_def Let_def cross_def algebra_simps)+

lemma rotate3_identity [simp]: "rotate3 (Q4 1 0 0 0) v = v"
  by (rule arr3_eqI; simp add: rotate3_def Let_def cross_def)

text \<open>The rotation about a unit axis, and what its angle does.\<close>

definition unit_vec :: "vec3 \<Rightarrow> bool" where
  "unit_vec a \<longleftrightarrow> dot3 a a = 1"

lemma axis_rotation_unit:
  assumes "unit_vec a"
  shows "unit_quat (axis_rotation a theta)"
proof -
  have "(cos (theta / 2))\<^sup>2 + (sin (theta / 2) * v3_x a)\<^sup>2 + (sin (theta / 2) * v3_y a)\<^sup>2 + (sin (theta / 2) * v3_z a)\<^sup>2 =
      (cos (theta / 2))\<^sup>2 + (sin (theta / 2))\<^sup>2 * dot3 a a"
    by (simp add: dot3_def power2_eq_square algebra_simps)
  with assms show ?thesis by (simp add: unit_quat_def axis_rotation_def unit_vec_def Let_def)
qed

lemma axis_fixed: "rotate3 (axis_rotation a theta) a = a"
  by (rule arr3_eqI; simp add: axis_rotation_def rotate3_def Let_def cross_def algebra_simps)

section \<open>Derivatives of vectors\<close>

definition vderiv :: "(real \<Rightarrow> vec3) \<Rightarrow> vec3 \<Rightarrow> real \<Rightarrow> bool" where
  "vderiv f f' t \<longleftrightarrow> ((\<lambda>s. v3_x (f s)) has_real_derivative v3_x f') (at t) \<and>
     ((\<lambda>s. v3_y (f s)) has_real_derivative v3_y f') (at t) \<and> ((\<lambda>s. v3_z (f s)) has_real_derivative v3_z f') (at t)"

named_theorems vderiv_intros \<open>derivatives of vector expressions\<close>

lemma vderiv_const [vderiv_intros]: "vderiv (\<lambda>s. a) 0 t"
  by (simp add: vderiv_def arr3_simps)

lemma vderiv_add [vderiv_intros]: "vderiv f f' t \<Longrightarrow> vderiv g g' t \<Longrightarrow> vderiv (\<lambda>s. f s + g s) (f' + g') t"
  by (auto simp: vderiv_def arr3_simps intro!: derivative_eq_intros)

lemma vderiv_diff [vderiv_intros]: "vderiv f f' t \<Longrightarrow> vderiv g g' t \<Longrightarrow> vderiv (\<lambda>s. f s - g s) (f' - g') t"
  by (auto simp: vderiv_def arr3_simps intro!: derivative_eq_intros)

lemma vderiv_scale [vderiv_intros]:
  "(k has_real_derivative k') (at t) \<Longrightarrow> vderiv f f' t \<Longrightarrow> vderiv (\<lambda>s. scale3 (k s) (f s)) (scale3 k' (f t) + scale3 (k t) f') t"
  by (auto simp: vderiv_def arr3_simps intro!: derivative_eq_intros)

lemma vderiv_cross [vderiv_intros]:
  "vderiv f f' t \<Longrightarrow> vderiv g g' t \<Longrightarrow> vderiv (\<lambda>s. cross (f s) (g s)) (cross f' (g t) + cross (f t) g') t"
  by (auto simp: vderiv_def arr3_simps algebra_simps intro!: derivative_eq_intros)

lemma vderiv_cong: "vderiv f f' t \<Longrightarrow> (\<And>s. f s = g s) \<Longrightarrow> f' = g' \<Longrightarrow> vderiv g g' t"
  by (simp add: vderiv_def)

text \<open>The dot product, and with it the length, of a moving vector.\<close>

lemma deriv_dot3: "vderiv f f' t \<Longrightarrow> vderiv g g' t \<Longrightarrow>
    ((\<lambda>s. dot3 (f s) (g s)) has_real_derivative dot3 f' (g t) + dot3 (f t) g') (at t)"
  by (auto simp: vderiv_def dot3_def intro!: derivative_eq_intros)

lemma deriv_norm3:
  assumes "vderiv f f' t" "dot3 (f t) (f t) \<noteq> 0"
  shows "((\<lambda>s. sqrt (dot3 (f s) (f s))) has_real_derivative dot3 (f t) f' / sqrt (dot3 (f t) (f t))) (at t)"
proof -
  have "0 \<le> dot3 (f t) (f t)" by (simp add: dot3_def)
  with assms(2) have pos: "0 < dot3 (f t) (f t)" by simp
  have "dot3 f' (f t) = dot3 (f t) f'" by (simp add: dot3_def)
  then show ?thesis
    using deriv_dot3 [OF assms(1,1)] pos
    by (auto intro!: derivative_eq_intros simp: field_simps)
qed

section \<open>Rotating frames\<close>

text \<open>A frame that turns with angular velocity \<open>omega\<close> takes every vector fixed in it along.\<close>

definition turns :: "(real \<Rightarrow> quat) \<Rightarrow> vec3 \<Rightarrow> real \<Rightarrow> bool" where
  "turns Q omega t \<longleftrightarrow> (\<forall>s. unit_quat (Q s)) \<and> (\<forall>v. vderiv (\<lambda>s. rotate3 (Q s) v) (cross omega (rotate3 (Q t) v)) t)"

lemma turns_moving:
  assumes "turns Q omega t" "vderiv f f' t"
  shows "vderiv (\<lambda>s. rotate3 (Q s) (f s)) (cross omega (rotate3 (Q t) (f t)) + rotate3 (Q t) f') t"
proof -
  let ?e = "\<lambda>s b. rotate3 (Q s) b"
  have d: "vderiv (\<lambda>s. ?e s b) (cross omega (?e t b)) t" for b using assms(1) by (simp add: turns_def)
  have c: "((\<lambda>s. v3_x (f s)) has_real_derivative v3_x f') (at t)" "((\<lambda>s. v3_y (f s)) has_real_derivative v3_y f') (at t)"
    "((\<lambda>s. v3_z (f s)) has_real_derivative v3_z f') (at t)"
    using assms(2) by (simp_all add: vderiv_def)
  let ?x = "V3 1 0 0" and ?y = "V3 0 1 0" and ?z = "V3 0 0 1"
  have "vderiv (\<lambda>s. scale3 (v3_x (f s)) (?e s ?x) + scale3 (v3_y (f s)) (?e s ?y) + scale3 (v3_z (f s)) (?e s ?z))
      (scale3 (v3_x f') (?e t ?x) + scale3 (v3_x (f t)) (cross omega (?e t ?x)) +
       (scale3 (v3_y f') (?e t ?y) + scale3 (v3_y (f t)) (cross omega (?e t ?y))) +
       (scale3 (v3_z f') (?e t ?z) + scale3 (v3_z (f t)) (cross omega (?e t ?z)))) t"
    by (intro vderiv_intros c d)
  then show ?thesis
    by (rule vderiv_cong)
      (simp_all add: rotate3_basis [of "Q s" "f s" for s] rotate3_basis [of "Q t" f'] cross_linear algebra_simps)
qed

lemma axis_rotation_cos_sin:
  "rotate3 (axis_rotation a theta) v = v + scale3 (2 * sin (theta / 2) * cos (theta / 2)) (cross a v) +
     scale3 (2 * (sin (theta / 2))\<^sup>2) (cross a (cross a v))"
  by (rule arr3_eqI; simp add: axis_rotation_def rotate3_def arr3_simps Let_def; simp add: power2_eq_square algebra_simps)

lemma cross_unit_thrice: "unit_vec a \<Longrightarrow> cross a (cross a (cross a v)) = - cross a v"
proof -
  assume "unit_vec a"
  then have x: "v3_x a * v3_x a = 1 - v3_y a * v3_y a - v3_z a * v3_z a" by (simp add: unit_vec_def dot3_def)
  show ?thesis
    by (rule arr3_eqI; simp add: arr3_simps; use x in algebra)
qed

lemma axis_rotation_deriv:
  assumes "unit_vec a" "(theta has_real_derivative theta') (at t)"
  shows "vderiv (\<lambda>s. rotate3 (axis_rotation a (theta s)) v) (scale3 theta' (cross a (rotate3 (axis_rotation a (theta t)) v))) t"
proof -
  let ?s = "sin (theta t / 2)" and ?c = "cos (theta t / 2)"
  have d: "((\<lambda>s. 2 * sin (theta s / 2) * cos (theta s / 2)) has_real_derivative theta' * (?c\<^sup>2 - ?s\<^sup>2)) (at t)"
    "((\<lambda>s. 2 * (sin (theta s / 2))\<^sup>2) has_real_derivative theta' * (2 * ?s * ?c)) (at t)"
    using assms(2) by (auto intro!: derivative_eq_intros simp: power2_eq_square algebra_simps)
  have "vderiv (\<lambda>s. v + scale3 (2 * sin (theta s / 2) * cos (theta s / 2)) (cross a v) +
        scale3 (2 * (sin (theta s / 2))\<^sup>2) (cross a (cross a v)))
      (0 + (scale3 (theta' * (?c\<^sup>2 - ?s\<^sup>2)) (cross a v) + scale3 (2 * ?s * ?c) (cross 0 v + cross a 0)) +
       (scale3 (theta' * (2 * ?s * ?c)) (cross a (cross a v)) +
        scale3 (2 * ?s\<^sup>2) (cross 0 (cross a v) + cross a (cross 0 v + cross a 0)))) t"
    by (intro vderiv_intros d)
  moreover have "?c\<^sup>2 = 1 - ?s\<^sup>2" by (simp add: cos_squared_eq)
  then have "scale3 (theta' * (?c\<^sup>2 - ?s\<^sup>2)) (cross a v) + scale3 (theta' * (2 * ?s * ?c)) (cross a (cross a v)) =
      scale3 theta' (cross a (rotate3 (axis_rotation a (theta t)) v))"
    by (simp add: axis_rotation_cos_sin cross_linear cross_unit_thrice [OF assms(1)])
      (rule arr3_eqI; simp add: arr3_simps; simp add: algebra_simps)
  ultimately show ?thesis
    by (elim vderiv_cong) (simp_all add: axis_rotation_cos_sin cross_linear scale3_linear)
qed

text \<open>How a frame turns after a fixed rotation and after a rotating joint.\<close>

lemma turns_fixed:
  assumes "turns Q omega t" "unit_quat r"
  shows "turns (\<lambda>s. quat_multiply (Q s) r) omega t"
  using assms by (auto simp: turns_def unit_multiply rotate3_multiply)

lemma turns_axis:
  assumes "turns Q omega t" "unit_vec a" "(theta has_real_derivative theta') (at t)"
  shows "turns (\<lambda>s. quat_multiply (Q s) (axis_rotation a (theta s))) (omega + scale3 theta' (rotate3 (Q t) a)) t"
proof -
  have u: "unit_quat (Q s)" for s using assms(1) by (simp add: turns_def)
  note ua = axis_rotation_unit [OF assms(2)]
  have "vderiv (\<lambda>s. rotate3 (quat_multiply (Q s) (axis_rotation a (theta s))) v)
      (cross (omega + scale3 theta' (rotate3 (Q t) a)) (rotate3 (quat_multiply (Q t) (axis_rotation a (theta t))) v)) t" for v
    using turns_moving [OF assms(1) axis_rotation_deriv [OF assms(2,3), of v]]
    by (simp add: rotate3_multiply [OF u ua] rotate3_linear rotate3_cross [OF u] cross_linear)
  then show ?thesis by (simp add: turns_def unit_multiply u ua)
qed

section \<open>The joints of a moving chain\<close>

text \<open>
  The velocity field of the joints so far: their angular velocity, and the two sums the code carries. A
  point that moves with the last frame moves at \<open>point_velocity\<close>.
\<close>

definition sum_step :: "captured_joint \<times> real \<Rightarrow> vec3 \<times> vec3 \<times> vec3 \<Rightarrow> vec3 \<times> vec3 \<times> vec3" where
  "sum_step = (\<lambda>(j, q_dot) (omega, c, tau).
     let wq = scale3 q_dot (cj_axis j)
     in if cj_translates j then (omega, c, tau + wq) else (omega + wq, c + cross wq (cj_position j), tau))"

definition joint_sums :: "captured_joint list \<Rightarrow> xvector \<Rightarrow> vec3 \<times> vec3 \<times> vec3" where
  "joint_sums js q_dot = fold sum_step (zip js q_dot) (0, 0, 0)"

definition point_velocity :: "vec3 \<times> vec3 \<times> vec3 \<Rightarrow> vec3 \<Rightarrow> vec3" where
  "point_velocity = (\<lambda>(omega, c, tau) p. cross omega p - c + tau)"

lemma joint_sums_Nil [simp]: "joint_sums [] q_dot = (0, 0, 0)"
  by (simp add: joint_sums_def)

lemma zip_snoc: "length js < length xs \<Longrightarrow> zip (js @ [j]) xs = zip js xs @ [(j, xs ! length js)]"
proof (induction js arbitrary: xs)
  case Nil
  then show ?case by (cases xs) simp_all
next
  case (Cons a js)
  then show ?case by (cases xs) simp_all
qed

lemma joint_sums_snoc: "length js < length q_dot \<Longrightarrow> joint_sums (js @ [j]) q_dot = sum_step (j, q_dot ! length js) (joint_sums js q_dot)"
  by (simp add: joint_sums_def zip_snoc)

fun sound_joint :: "joint \<Rightarrow> bool" where
  "sound_joint (Fixed_joint b) = unit_quat (jb_origin_rotation b)"
| "sound_joint (Rotating_joint b _ u) = (unit_quat (jb_origin_rotation b) \<and> unit_vec u)"
| "sound_joint (Translating_joint b _ u) = (unit_quat (jb_origin_rotation b) \<and> unit_vec u)"

text \<open>A walk whose joints and frame move with the joint velocities \<open>q_dot\<close>.\<close>

definition frame_moves :: "(real \<Rightarrow> rigid_transform) \<Rightarrow> vec3 \<times> vec3 \<times> vec3 \<Rightarrow> real \<Rightarrow> bool" where
  "frame_moves F S t \<longleftrightarrow> turns (\<lambda>s. rt_rotation (F s)) (fst S) t \<and>
     vderiv (\<lambda>s. rt_translation (F s)) (point_velocity S (rt_translation (F t))) t"

definition joint_moves :: "(real \<Rightarrow> captured_joint) \<Rightarrow> vec3 \<times> vec3 \<times> vec3 \<Rightarrow> real \<Rightarrow> bool" where
  "joint_moves J S t \<longleftrightarrow> (\<forall>s. cj_translates (J s) = cj_translates (J t)) \<and>
     vderiv (\<lambda>s. cj_axis (J s)) (cross (fst S) (cj_axis (J t))) t \<and>
     vderiv (\<lambda>s. cj_position (J s)) (point_velocity S (cj_position (J t))) t"

definition walk_moves :: "(real \<Rightarrow> walk) \<Rightarrow> xvector \<Rightarrow> real \<Rightarrow> bool" where
  "walk_moves W q_dot t \<longleftrightarrow>
     (\<forall>s. wl_qi (W s) = wl_qi (W t) \<and> length (wl_joints (W s)) = wl_qi (W t)) \<and>
     frame_moves (\<lambda>s. wl_running (W s)) (joint_sums (wl_joints (W t)) q_dot) t \<and>
     (\<forall>i < wl_qi (W t). joint_moves (\<lambda>s. wl_joints (W s) ! i) (joint_sums (take i (wl_joints (W t))) q_dot) t)"

lemma point_velocity_add: "point_velocity S p + cross (fst S) r = point_velocity S (p + r)"
  by (cases S) (simp add: point_velocity_def cross_linear algebra_simps)

lemma walk_base_moves:
  assumes "walk_moves W q_dot t" "unit_quat (jb_origin_rotation b)"
  shows "walk_moves (\<lambda>s. walk_base b (W s)) q_dot t"
proof -
  let ?S = "joint_sums (wl_joints (W t)) q_dot" and ?d = "map_arr3 fin (jo_translation (jb_origin b))"
  have f: "turns (\<lambda>s. rt_rotation (wl_running (W s))) (fst ?S) t"
    "vderiv (\<lambda>s. rt_translation (wl_running (W s))) (point_velocity ?S (rt_translation (wl_running (W t)))) t"
    using assms(1) by (simp_all add: walk_moves_def frame_moves_def)
  then have r: "vderiv (\<lambda>s. rotate3 (rt_rotation (wl_running (W s))) ?d) (cross (fst ?S) (rotate3 (rt_rotation (wl_running (W t))) ?d)) t"
    by (simp add: turns_def)
  have "frame_moves (\<lambda>s. rt_compose (wl_running (W s)) (jb_origin_rotation b) ?d) ?S t"
    using turns_fixed [OF f(1) assms(2)] vderiv_add [OF f(2) r]
    by (simp add: frame_moves_def rt_compose_def Let_def point_velocity_add)
  with assms(1) show ?thesis by (simp add: walk_moves_def walk_base_def)
qed

lemma captured_moves:
  assumes "walk_moves W q_dot t" "i \<le> wl_qi (W t)"
    "i = wl_qi (W t) \<Longrightarrow> joint_moves J (joint_sums (wl_joints (W t)) q_dot) t"
  shows "joint_moves (\<lambda>s. (wl_joints (W s) @ [J s]) ! i) (joint_sums (take i (wl_joints (W t) @ [J t])) q_dot) t"
  using assms by (cases "i < wl_qi (W t)") (auto simp: walk_moves_def nth_append)

lemma walk_joint_moves:
  assumes "walk_moves W q_dot t" "sound_joint j"
    "is_moving j \<Longrightarrow> wl_qi (W t) < length q_dot \<and> ((\<lambda>s. q s ! wl_qi (W t)) has_real_derivative q_dot ! wl_qi (W t)) (at t)"
  shows "walk_moves (\<lambda>s. walk_joint (q s) j (W s)) q_dot t"
proof (cases j)
  case (Fixed_joint b)
  with walk_base_moves assms(1,2) show ?thesis by simp
next
  case (Rotating_joint b axis u)
  let ?W = "\<lambda>s. walk_base b (W s)" and ?n = "wl_qi (W t)"
  have w: "walk_moves ?W q_dot t" using assms(1,2) by (intro walk_base_moves) (simp_all add: Rotating_joint)
  define n where "n = ?n"
  have qi: "wl_qi (W s) = n" "length (wl_joints (W s)) = n" for s
    using assms(1) unfolding walk_moves_def n_def by blast+
  have base: "wl_qi (?W s) = wl_qi (W s)" "wl_joints (?W s) = wl_joints (W s)" for s by (simp_all add: walk_base_def)
  have q: "?n < length q_dot" "((\<lambda>s. q s ! ?n) has_real_derivative q_dot ! ?n) (at t)" and u: "unit_vec u"
    using assms(2,3) by (simp_all add: Rotating_joint)
  let ?S = "joint_sums (wl_joints (W t)) q_dot" and ?R = "\<lambda>s. wl_running (?W s)"
  let ?J = "\<lambda>s. \<lparr>cj_axis = rotate3 (rt_rotation (?R s)) u, cj_position = rt_translation (?R s), cj_translates = False\<rparr>"
  have f: "turns (\<lambda>s. rt_rotation (?R s)) (fst ?S) t"
    "vderiv (\<lambda>s. rt_translation (?R s)) (point_velocity ?S (rt_translation (?R t))) t"
    using w by (simp_all add: walk_moves_def frame_moves_def base)
  then have J: "joint_moves ?J ?S t" by (simp add: joint_moves_def turns_def)
  have s: "joint_sums (wl_joints (W t) @ [?J t]) q_dot = sum_step (?J t, q_dot ! ?n) ?S"
    using q(1) by (simp add: joint_sums_snoc qi n_def [symmetric])
  have "point_velocity (sum_step (?J t, q_dot ! ?n) ?S) (rt_translation (?R t)) = point_velocity ?S (rt_translation (?R t))"
    by (cases ?S) (simp add: sum_step_def point_velocity_def Let_def cross_linear)
  moreover have "fst (sum_step (?J t, q_dot ! ?n) ?S) = fst ?S + scale3 (q_dot ! ?n) (rotate3 (rt_rotation (?R t)) u)"
    by (cases ?S) (simp add: sum_step_def Let_def)
  ultimately have "frame_moves (\<lambda>s. (?R s)\<lparr>rt_rotation := quat_multiply (rt_rotation (?R s)) (axis_rotation u (q s ! ?n))\<rparr>)
      (sum_step (?J t, q_dot ! ?n) ?S) t"
    using turns_axis [OF f(1) u q(2)] f(2) by (simp add: frame_moves_def)
  with captured_moves [OF w, where J = ?J] J show ?thesis
    by (simp add: walk_moves_def Rotating_joint Let_def s less_Suc_eq_le base qi)
next
  case (Translating_joint b axis u)
  let ?W = "\<lambda>s. walk_base b (W s)" and ?n = "wl_qi (W t)"
  have w: "walk_moves ?W q_dot t" using assms(1,2) by (intro walk_base_moves) (simp_all add: Translating_joint)
  define n where "n = ?n"
  have qi: "wl_qi (W s) = n" "length (wl_joints (W s)) = n" for s
    using assms(1) unfolding walk_moves_def n_def by blast+
  have base: "wl_qi (?W s) = wl_qi (W s)" "wl_joints (?W s) = wl_joints (W s)" for s by (simp_all add: walk_base_def)
  have q: "?n < length q_dot" "((\<lambda>s. q s ! ?n) has_real_derivative q_dot ! ?n) (at t)"
    using assms(3) by (simp_all add: Translating_joint)
  let ?S = "joint_sums (wl_joints (W t)) q_dot" and ?R = "\<lambda>s. wl_running (?W s)"
  let ?a = "\<lambda>s. rotate3 (rt_rotation (?R s)) u"
  let ?J = "\<lambda>s. \<lparr>cj_axis = ?a s, cj_position = rt_translation (?R s), cj_translates = True\<rparr>"
  have f: "turns (\<lambda>s. rt_rotation (?R s)) (fst ?S) t"
    "vderiv (\<lambda>s. rt_translation (?R s)) (point_velocity ?S (rt_translation (?R t))) t"
    using w by (simp_all add: walk_moves_def frame_moves_def base)
  then have a: "vderiv ?a (cross (fst ?S) (?a t)) t" and J: "joint_moves ?J ?S t" by (simp_all add: joint_moves_def turns_def)
  have s: "joint_sums (wl_joints (W t) @ [?J t]) q_dot = sum_step (?J t, q_dot ! ?n) ?S"
    using q(1) by (simp add: joint_sums_snoc qi n_def [symmetric])
  have "point_velocity ?S p + (scale3 (q_dot ! ?n) (?a t) + scale3 (q t ! ?n) (cross (fst ?S) (?a t))) =
      point_velocity (sum_step (?J t, q_dot ! ?n) ?S) (p + scale3 (q t ! ?n) (?a t))" for p
    by (cases ?S) (simp add: sum_step_def point_velocity_def Let_def cross_linear algebra_simps)
  moreover have "fst (sum_step (?J t, q_dot ! ?n) ?S) = fst ?S"
    by (cases ?S) (simp add: sum_step_def Let_def)
  ultimately have "frame_moves (\<lambda>s. (?R s)\<lparr>rt_translation := rt_translation (?R s) + scale3 (q s ! ?n) (?a s)\<rparr>)
      (sum_step (?J t, q_dot ! ?n) ?S) t"
    using f(1) vderiv_add [OF f(2) vderiv_scale [OF q(2) a]] by (simp add: frame_moves_def)
  with captured_moves [OF w, where J = ?J] J show ?thesis
    by (simp add: walk_moves_def Translating_joint Let_def s less_Suc_eq_le base qi)
qed

text \<open>The walk over the joints, from the base.\<close>

definition chain_walk :: "joint list \<Rightarrow> xvector \<Rightarrow> walk" where
  "chain_walk js q = fold (walk_joint q) js \<lparr>wl_running = rt_identity, wl_qi = 0, wl_joints = []\<rparr>"

lemma walk_joint_count: "wl_qi (walk_joint q j w) = wl_qi w + (if is_moving j then 1 else 0)"
  by (cases j) (simp_all add: walk_base_def Let_def)

lemma chain_walk_snoc: "chain_walk (js @ [j]) q = walk_joint q j (chain_walk js q)"
  by (simp add: chain_walk_def)

lemma chain_walk_count: "wl_qi (chain_walk js q) = length (filter is_moving js)"
  by (induction js rule: rev_induct) (simp_all add: chain_walk_snoc walk_joint_count, simp add: chain_walk_def)

lemma chain_walk_moves:
  assumes "list_all sound_joint js" "length (filter is_moving js) \<le> length q_dot"
    "\<And>i. i < length q_dot \<Longrightarrow> ((\<lambda>s. q s ! i) has_real_derivative q_dot ! i) (at t)"
  shows "walk_moves (\<lambda>s. chain_walk js (q s)) q_dot t"
  using assms(1,2)
proof (induction js rule: rev_induct)
  case Nil
  have "turns (\<lambda>s. Q4 1 0 0 0) 0 t" by (simp add: turns_def unit_quat_def cross_linear vderiv_const)
  then show ?case
    by (simp add: chain_walk_def walk_moves_def frame_moves_def rt_identity_def point_velocity_def cross_linear vderiv_const
        zero_arr3_def [symmetric])
next
  case (snoc j js)
  then show ?case unfolding chain_walk_snoc
    by (intro walk_joint_moves) (auto simp: chain_walk_count assms(3))
qed

lemma chain_walk_joints: "length (wl_joints (chain_walk js q)) = length (filter is_moving js)"
proof (induction js rule: rev_induct)
  case (snoc j js)
  then show ?case by (cases j) (simp_all add: chain_walk_snoc walk_base_def Let_def)
qed (simp add: chain_walk_def)

section \<open>Velocities and accelerations\<close>

lemma vderiv_sum: "(\<And>i. i < (n::nat) \<Longrightarrow> vderiv (f i) (f' i) t) \<Longrightarrow> vderiv (\<lambda>s. \<Sum>i < n. f i s) (\<Sum>i < n. f' i) t"
  by (induction n) (simp_all add: vderiv_const vderiv_add)

lemma fold_velocity:
  "length js \<le> length q_dot \<Longrightarrow> fold (velocity_step p) (zip js q_dot) 0 = (\<Sum>i < length js. scale3 (q_dot ! i) (linear_column (js ! i) p))"
proof (induction js rule: rev_induct)
  case (snoc j js)
  then show ?case by (simp add: zip_snoc velocity_step_def nth_append)
qed simp

text \<open>The sum of the columns is the velocity of the frame's origin.\<close>

lemma velocity_of_columns:
  "length js \<le> length q_dot \<Longrightarrow>
    (\<Sum>i < length js. scale3 (q_dot ! i) (linear_column (js ! i) p)) = point_velocity (joint_sums js q_dot) p"
proof (induction js rule: rev_induct)
  case (snoc j js)
  have "point_velocity S p + scale3 k (linear_column j p) = point_velocity (sum_step (j, k) S) p" for S k
    by (cases S) (simp add: point_velocity_def sum_step_def linear_column_def Let_def cross_linear scale3_linear algebra_simps)
  with snoc show ?case by (simp add: nth_append joint_sums_snoc)
qed (simp add: point_velocity_def cross_linear)

definition d_column :: "vec3 \<times> vec3 \<times> vec3 \<Rightarrow> captured_joint \<Rightarrow> vec3 \<Rightarrow> vec3 \<Rightarrow> vec3" where
  "d_column S j p v =
     (let dw = cross (fst S) (cj_axis j)
      in if cj_translates j then dw
         else cross dw (p - cj_position j) + cross (cj_axis j) (v - point_velocity S (cj_position j)))"

lemma fold_acceleration:
  "length js \<le> length q_dot \<Longrightarrow> length js \<le> length q_ddot \<Longrightarrow>
    fold (acceleration_step p v) (zip js (zip q_dot q_ddot)) \<lparr>ca_dv = 0, ca_omega = 0, ca_c = 0, ca_t = 0\<rparr> =
    (case joint_sums js q_dot of (omega, c, tau) \<Rightarrow>
       \<lparr>ca_dv = (\<Sum>i < length js. scale3 (q_dot ! i) (d_column (joint_sums (take i js) q_dot) (js ! i) p v) +
                                 scale3 (q_ddot ! i) (linear_column (js ! i) p)),
        ca_omega = omega, ca_c = c, ca_t = tau\<rparr>)"
proof (induction js rule: rev_induct)
  case (snoc j js)
  obtain omega c tau where S: "joint_sums js q_dot = (omega, c, tau)" by (cases "joint_sums js q_dot")
  have len: "length js < length q_dot" "length js < length q_ddot" "length js < length (zip q_dot q_ddot)" using snoc.prems by simp_all
  have "(\<Sum>i < length js. scale3 (q_dot ! i) (d_column (joint_sums (take i (js @ [j])) q_dot) ((js @ [j]) ! i) p v) +
        scale3 (q_ddot ! i) (linear_column ((js @ [j]) ! i) p)) =
      (\<Sum>i < length js. scale3 (q_dot ! i) (d_column (joint_sums (take i js) q_dot) (js ! i) p v) +
        scale3 (q_ddot ! i) (linear_column (js ! i) p))"
    by (rule sum.cong) (simp_all add: nth_append)
  with snoc len S show ?case
    by (simp add: zip_snoc joint_sums_snoc acceleration_step_def sum_step_def d_column_def linear_column_def point_velocity_def Let_def
        algebra_simps)
qed simp

text \<open>The derivatives of the columns.\<close>

lemma linear_column_deriv:
  assumes "joint_moves J S t" "vderiv p v t"
  shows "vderiv (\<lambda>s. linear_column (J s) (p s)) (d_column S (J t) (p t) v) t"
proof (cases "cj_translates (J t)")
  case True
  with assms(1) have "\<forall>s. cj_translates (J s)" by (simp add: joint_moves_def)
  with assms(1) True show ?thesis by (simp add: linear_column_def d_column_def joint_moves_def Let_def)
next
  case False
  with assms(1) have "\<forall>s. \<not> cj_translates (J s)" by (simp add: joint_moves_def)
  moreover have "vderiv (\<lambda>s. cross (cj_axis (J s)) (p s - cj_position (J s)))
      (cross (cross (fst S) (cj_axis (J t))) (p t - cj_position (J t)) +
       cross (cj_axis (J t)) (v - point_velocity S (cj_position (J t)))) t"
    using assms by (auto simp: joint_moves_def intro!: vderiv_intros)
  ultimately show ?thesis using False by (simp add: linear_column_def d_column_def Let_def)
qed

section \<open>Forward kinematics\<close>

definition chain_ok :: "chain \<Rightarrow> bool" where
  "chain_ok c \<longleftrightarrow> ch_joints c \<noteq> [] \<and> list_all sound_joint (ch_joints c) \<and>
     ch_actuated_count c = length (filter is_moving (ch_joints c))"

lemma update_chain_state_eq:
  "length q = ch_actuated_count c \<Longrightarrow> update_chain_state c q joint storage =
    Inr \<lparr>wk_joints = wl_joints (chain_walk (take (Suc joint) (ch_joints c)) q),
         wk_p_e = rt_translation (wl_running (chain_walk (take (Suc joint) (ch_joints c)) q))\<rparr>"
  by (simp add: update_chain_state_def chain_walk_def Let_def)

lemma moving_take: "length (filter is_moving (take n js)) \<le> length (filter is_moving js)"
proof -
  have "length (filter is_moving (take n js @ drop n js)) = length (filter is_moving (take n js)) + length (filter is_moving (drop n js))"
    by (simp only: filter_append length_append)
  then show ?thesis by simp
qed

text \<open>What the forward kinematics computes, as sums over the joints it passed through.\<close>

lemma forward_kinematics_eq:
  assumes "chain_ok c" "joint < chain_size c" "length q = chain_dof c" "length q_dot = chain_dof c" "length q_ddot = chain_dof c"
  defines "w \<equiv> chain_walk (take (Suc joint) (ch_joints c)) q"
  defines "p \<equiv> rt_translation (wl_running w)" and "js \<equiv> wl_joints w"
  defines "v \<equiv> \<Sum>i < length js. scale3 (q_dot ! i) (linear_column (js ! i) p)"
  shows "forward_kinematics c joint q q_dot q_ddot storage =
    Inr (\<lparr>fk_position = p, fk_linear_velocity = v,
          fk_linear_acceleration = (\<Sum>i < length js. scale3 (q_dot ! i) (d_column (joint_sums (take i js) q_dot) (js ! i) p v) +
                                 scale3 (q_ddot ! i) (linear_column (js ! i) p))\<rparr>,
         \<lparr>wk_joints = js, wk_p_e = p\<rparr>)"
    "length js \<le> chain_dof c"
proof -
  have "length js \<le> length (filter is_moving (ch_joints c))"
    unfolding js_def w_def chain_walk_joints by (rule moving_take)
  with assms(1) show len: "length js \<le> chain_dof c" by (simp add: chain_ok_def chain_dof_def)
  then have "length js \<le> length q_dot" "length js \<le> length q_ddot" using assms(4,5) by simp_all
  then show "forward_kinematics c joint q q_dot q_ddot storage =
    Inr (\<lparr>fk_position = p, fk_linear_velocity = v,
          fk_linear_acceleration = (\<Sum>i < length js. scale3 (q_dot ! i) (d_column (joint_sums (take i js) q_dot) (js ! i) p v) +
                                 scale3 (q_ddot ! i) (linear_column (js ! i) p))\<rparr>,
         \<lparr>wk_joints = js, wk_p_e = p\<rparr>)"
    using assms(2-5)
    by (simp add: forward_kinematics_def chain_dof_def chain_size_def update_chain_state_eq w_def [symmetric] js_def [symmetric]
        p_def [symmetric] fold_velocity fold_acceleration v_def [symmetric] split: prod.splits)
qed

text \<open>The reported velocity is the derivative of the position, and the acceleration that of the velocity.\<close>

lemma forward_kinematics_moves:
  assumes "chain_ok c" "joint < chain_size c" "\<And>s. length (q s) = chain_dof c" "\<And>s. length (q' s) = chain_dof c" "length q'' = chain_dof c"
    "\<And>i. i < chain_dof c \<Longrightarrow> ((\<lambda>s. q s ! i) has_real_derivative q' t ! i) (at t)"
    "\<And>i. i < chain_dof c \<Longrightarrow> ((\<lambda>s. q' s ! i) has_real_derivative q'' ! i) (at t)"
  obtains fk where "\<And>s a storage. length a = chain_dof c \<Longrightarrow> \<exists>r storage'. forward_kinematics c joint (q s) (q' s) a storage = Inr (r, storage') \<and>
      fk_position r = fk_position (fk s) \<and> fk_linear_velocity r = fk_linear_velocity (fk s)"
    "\<And>storage. \<exists>storage'. forward_kinematics c joint (q t) (q' t) q'' storage = Inr (fk t, storage')"
    "vderiv (\<lambda>s. fk_position (fk s)) (fk_linear_velocity (fk t)) t"
    "vderiv (\<lambda>s. fk_linear_velocity (fk s)) (fk_linear_acceleration (fk t)) t"
proof -
  let ?js = "take (Suc joint) (ch_joints c)"
  define W where "W = (\<lambda>s. chain_walk ?js (q s))"
  define p where "p = (\<lambda>s. rt_translation (wl_running (W s)))"
  define n where "n = wl_qi (W t)"
  have dof: "chain_dof c = length (filter is_moving (ch_joints c))" using assms(1) by (simp add: chain_ok_def chain_dof_def)
  have sound: "list_all sound_joint ?js" using assms(1) by (auto simp: chain_ok_def list_all_iff dest: in_set_takeD)
  have m: "walk_moves W (q' t) t"
    unfolding W_def by (rule chain_walk_moves [OF sound]) (use assms(4,6) moving_take dof in auto)
  have len: "length (wl_joints (W s)) = n" for s using m unfolding walk_moves_def n_def by blast
  have nd: "n \<le> chain_dof c" using moving_take dof by (simp add: n_def W_def chain_walk_count)
  define v where "v = (\<lambda>s. \<Sum>i < n. scale3 (q' s ! i) (linear_column (wl_joints (W s) ! i) (p s)))"
  define a where "a = (\<lambda>s b. \<Sum>i < n. scale3 (q' s ! i) (d_column (joint_sums (take i (wl_joints (W s))) (q' s)) (wl_joints (W s) ! i) (p s) (v s)) +
      scale3 (b ! i) (linear_column (wl_joints (W s) ! i) (p s)))"
  have eq: "forward_kinematics c joint (q s) (q' s) b storage =
      Inr (\<lparr>fk_position = p s, fk_linear_velocity = v s, fk_linear_acceleration = a s b\<rparr>, \<lparr>wk_joints = wl_joints (W s), wk_p_e = p s\<rparr>)"
    if "length b = chain_dof c" for s b storage
  proof -
    have w: "chain_walk ?js (q s) = W s" by (simp add: W_def)
    show ?thesis
      using forward_kinematics_eq(1) [OF assms(1,2) assms(3) [of s] assms(4) [of s] that, where storage = storage]
      unfolding w len by (simp add: p_def v_def a_def)
  qed
  let ?S = "joint_sums (wl_joints (W t)) (q' t)"
  have vt: "v t = point_velocity ?S (p t)"
    using velocity_of_columns [of "wl_joints (W t)" "q' t" "p t"] nd assms(4) by (simp add: v_def len)
  have dp: "vderiv p (v t) t" using m by (simp add: walk_moves_def frame_moves_def vt p_def)
  have dv: "vderiv v (a t q'') t"
  proof -
    have "vderiv (\<lambda>s. scale3 (q' s ! i) (linear_column (wl_joints (W s) ! i) (p s)))
        (scale3 (q'' ! i) (linear_column (wl_joints (W t) ! i) (p t)) +
         scale3 (q' t ! i) (d_column (joint_sums (take i (wl_joints (W t))) (q' t)) (wl_joints (W t) ! i) (p t) (v t))) t"
      if "i < n" for i
    proof (rule vderiv_scale)
      show "((\<lambda>s. q' s ! i) has_real_derivative q'' ! i) (at t)" using assms(7) that nd by simp
      have "joint_moves (\<lambda>s. wl_joints (W s) ! i) (joint_sums (take i (wl_joints (W t))) (q' t)) t"
        using m that by (simp add: walk_moves_def n_def)
      from linear_column_deriv [OF this dp]
      show "vderiv (\<lambda>s. linear_column (wl_joints (W s) ! i) (p s))
          (d_column (joint_sums (take i (wl_joints (W t))) (q' t)) (wl_joints (W t) ! i) (p t) (v t)) t" .
    qed
    from vderiv_sum [OF this] show ?thesis unfolding v_def a_def by (simp add: add.commute)
  qed
  show thesis
    by (rule that [of "\<lambda>s. \<lparr>fk_position = p s, fk_linear_velocity = v s, fk_linear_acceleration = a s q''\<rparr>"])
      (use eq assms(5) dp dv in auto)
qed

end
