(* ===== verification/Chain_Properties.thy ===== *)
theory Chain_Properties
  imports Chain_Motion
begin

text \<open>
  The properties of kinematic chains: what the builder accepts and what it builds, that a chain is rebuilt
  from what it reports, that its velocities and accelerations are derivatives, and that the limit made
  from a chain caps the speed of its last frame.
\<close>

section \<open>Building\<close>

definition good_origin :: "joint_origin \<Rightarrow> bool" where
  "good_origin origin \<longleftrightarrow> all_finite3 (jo_translation origin) \<and> all_finite4 (jo_rotation origin) \<and> jo_rotation origin \<noteq> Q4 0 0 0 0"

definition good_axis :: "dbl arr3 \<Rightarrow> bool" where
  "good_axis axis \<longleftrightarrow> all_finite3 axis \<and> axis \<noteq> V3 0 0 0"

fun good_joint :: "joint_call \<Rightarrow> bool" where
  "good_joint (Extend_fixed origin) = good_origin origin"
| "good_joint (Extend_rotating origin axis) = (good_origin origin \<and> good_axis axis)"
| "good_joint (Extend_translating origin axis) = (good_origin origin \<and> good_axis axis)"

lemma sum_squares4: "w * w + x * x + y * y + z * z = (0::real) \<longleftrightarrow> w = 0 \<and> x = 0 \<and> y = 0 \<and> z = 0"
  by (smt (verit) mult_eq_0_iff not_sum_squares_lt_zero sum_squares_eq_zero_iff zero_le_square)

lemma rotation_norm_finite:
  assumes "all_finite4 q"
  obtains w x y z where "q = Q4 (Fin w) (Fin x) (Fin y) (Fin z)" "rotation_norm q = Fin (sqrt (w * w + x * x + y * y + z * z))"
proof -
  obtain a b c d where q: "q = Q4 a b c d" by (cases q)
  with assms obtain w x y z where "q = Q4 (Fin w) (Fin x) (Fin y) (Fin z)" by (auto simp: all_finite4_def isfinite_iff)
  moreover from this have "rotation_norm q = Fin (sqrt (w * w + x * x + y * y + z * z))"
    by (simp add: rotation_norm_def)
  ultimately show thesis using that by blast
qed

lemma axis_norm_finite:
  assumes "all_finite3 a"
  obtains x y z where "a = V3 (Fin x) (Fin y) (Fin z)" "axis_norm a = Fin (sqrt (x * x + y * y + z * z))"
proof -
  obtain b c d where a: "a = V3 b c d" by (cases a)
  with assms obtain x y z where "a = V3 (Fin x) (Fin y) (Fin z)" by (auto simp: all_finite3_def isfinite_iff)
  moreover from this have "axis_norm a = Fin (sqrt (x * x + y * y + z * z))"
    by (simp add: axis_norm_def)
  ultimately show thesis using that by blast
qed

lemma build_base_spec:
  "if good_origin (jb_origin b)
   then \<exists>r. unit_quat r \<and> build_base which b = Inr (b\<lparr>jb_origin_rotation := r\<rparr>)
   else \<exists>why. build_base which b = Inl (Invalid_argument (which @ why))"
proof (cases "all_finite3 (jo_translation (jb_origin b)) \<and> all_finite4 (jo_rotation (jb_origin b))")
  case True
  then obtain w x y z where q: "jo_rotation (jb_origin b) = Q4 (Fin w) (Fin x) (Fin y) (Fin z)"
    "rotation_norm (jo_rotation (jb_origin b)) = Fin (sqrt (w * w + x * x + y * y + z * z))"
    using rotation_norm_finite by metis
  let ?n = "sqrt (w * w + x * x + y * y + z * z)"
  show ?thesis
  proof (cases "?n = 0")
    case True
    then have "w = 0 \<and> x = 0 \<and> y = 0 \<and> z = 0" using sum_squares4 by simp
    with True q show ?thesis by (simp add: good_origin_def build_base_def Let_def feq_def)
  next
    case False
    have "?n\<^sup>2 = w * w + x * x + y * y + z * z" by (simp add: sum_squares4)
    then have "(w / ?n)\<^sup>2 + (x / ?n)\<^sup>2 + (y / ?n)\<^sup>2 + (z / ?n)\<^sup>2 = 1"
      using False by (simp add: power_divide add_divide_distrib [symmetric]) (simp add: power2_eq_square)
    then have "unit_quat (Q4 (w / ?n) (x / ?n) (y / ?n) (z / ?n))" by (simp add: unit_quat_def)
    moreover have "jo_rotation (jb_origin b) \<noteq> Q4 0 0 0 0" using False q by auto
    ultimately show ?thesis using True False q
      by (auto simp: good_origin_def build_base_def Let_def feq_def)
  qed
qed (auto simp: good_origin_def build_base_def Let_def)

lemma build_axis_spec:
  "if good_axis a then \<exists>u. unit_vec u \<and> build_axis which a = Inr u
   else \<exists>why. build_axis which a = Inl (Invalid_argument (which @ why))"
proof (cases "all_finite3 a")
  case True
  then obtain x y z where q: "a = V3 (Fin x) (Fin y) (Fin z)" "axis_norm a = Fin (sqrt (x * x + y * y + z * z))"
    using axis_norm_finite by metis
  let ?n = "sqrt (x * x + y * y + z * z)"
  show ?thesis
  proof (cases "?n = 0")
    case True
    then have "x = 0 \<and> y = 0 \<and> z = 0" using sum_squares4 [of 0 x y z] by simp
    with True q show ?thesis by (simp add: good_axis_def build_axis_def Let_def feq_def)
  next
    case False
    have "?n\<^sup>2 = x * x + y * y + z * z" by simp
    then have "(x / ?n)\<^sup>2 + (y / ?n)\<^sup>2 + (z / ?n)\<^sup>2 = 1"
      using False by (simp add: power_divide add_divide_distrib [symmetric]) (simp add: power2_eq_square)
    then have "unit_vec (normalized (map_arr3 fin a))"
      using q by (simp add: unit_vec_def normalized_def norm3_def dot3_def Let_def power2_eq_square)
    moreover have "a \<noteq> V3 0 0 0" using False q by auto
    ultimately show ?thesis using True False q
      by (auto simp: good_axis_def build_axis_def Let_def feq_def)
  qed
qed (auto simp: good_axis_def build_axis_def Let_def)

lemma build_joint_spec:
  "if good_joint (visit_joint j)
   then \<exists>j'. build_joint i j = Inr j' \<and> sound_joint j' \<and> visit_joint j' = visit_joint j \<and> is_moving j' = is_moving j
   else \<exists>why. build_joint i j = Inl (Invalid_argument (joint_name i @ why))"
proof (cases j)
  case (Fixed_joint b)
  with build_base_spec [of b "joint_name i"] show ?thesis by (auto split: if_splits)
next
  case (Rotating_joint b a u)
  with build_base_spec [of b "joint_name i"] build_axis_spec [of a "joint_name i"] show ?thesis by (auto split: if_splits)
next
  case (Translating_joint b a u)
  with build_base_spec [of b "joint_name i"] build_axis_spec [of a "joint_name i"] show ?thesis by (auto split: if_splits)
qed

lemma build_joints_spec:
  "case build_joints n js of
     Inr js' \<Rightarrow> list_all (good_joint \<circ> visit_joint) js \<and> list_all sound_joint js' \<and> map visit_joint js' = map visit_joint js \<and>
       map is_moving js' = map is_moving js
   | Inl e \<Rightarrow> (\<exists>i < length js. list_all (good_joint \<circ> visit_joint) (take i js) \<and> \<not> good_joint (visit_joint (js ! i)) \<and>
       (\<exists>why. e = Invalid_argument (joint_name (n + i) @ why)))"
proof (induction js arbitrary: n)
  case (Cons j js)
  show ?case
  proof (cases "good_joint (visit_joint j)")
    case False
    with build_joint_spec [of j n] obtain why where "build_joint n j = Inl (Invalid_argument (joint_name n @ why))" by auto
    with False show ?thesis by (auto intro!: exI [of _ 0])
  next
    case True
    with build_joint_spec [of j n] obtain j' where j': "build_joint n j = Inr j'" "sound_joint j'" "visit_joint j' = visit_joint j"
      "is_moving j' = is_moving j" by auto
    show ?thesis
    proof (cases "build_joints (Suc n) js")
      case (Inl e)
      with Cons.IH [of "Suc n"] obtain i why where "i < length js" "list_all (good_joint \<circ> visit_joint) (take i js)"
        "\<not> good_joint (visit_joint (js ! i))" "e = Invalid_argument (joint_name (Suc n + i) @ why)" by auto
      with True j'(1) Inl show ?thesis by (auto intro!: exI [of _ "Suc i"])
    next
      case (Inr js')
      with Cons.IH [of "Suc n"] True j' show ?thesis by auto
    qed
  qed
qed simp

lemma filter_moving: "length (filter is_moving js) = length (filter id (map is_moving js))"
  by (induction js) simp_all

text \<open>
  The builder accepts exactly the chains of at least one joint, each of which has a finite translation, a finite
  quaternion that is not zero, and, where it moves, a finite axis that is not zero. The chain it builds has the joints it
  was given in order, with unit quaternions and unit axes, and one degree of freedom for each moving
  joint. Otherwise it throws \<open>std::invalid_argument\<close> with a message that names the first joint at fault.
\<close>

lemma chain_build_spec:
  "case chain_build joints of
     Inr c \<Rightarrow> joints \<noteq> [] \<and> list_all (good_joint \<circ> visit_joint) joints \<and> chain_ok c \<and> visit_joints c = map visit_joint joints \<and>
       chain_size c = length joints \<and> chain_dof c = length (filter is_moving joints)
   | Inl e \<Rightarrow>
       joints = [] \<and> e = Invalid_argument ''viam::trajex::kinematics: a kinematic chain needs at least one joint'' \<or>
       (\<exists>i < length joints. list_all (good_joint \<circ> visit_joint) (take i joints) \<and> \<not> good_joint (visit_joint (joints ! i)) \<and>
         (\<exists>why. e = Invalid_argument (joint_name i @ why)))"
proof (cases "joints = []")
  case False
  show ?thesis
  proof (cases "build_joints 0 joints")
    case (Inl e)
    with build_joints_spec [where n = 0 and js = joints] False show ?thesis by (auto simp: chain_build_def)
  next
    case (Inr js)
    with build_joints_spec [where n = 0 and js = joints] have js: "list_all (good_joint \<circ> visit_joint) joints" "list_all sound_joint js"
      "map visit_joint js = map visit_joint joints" "map is_moving js = map is_moving joints" by simp_all
    then have "length js = length joints" by (metis length_map)
    moreover have "length (filter is_moving js) = length (filter is_moving joints)" using js(4) filter_moving by metis
    ultimately show ?thesis using js False Inr
      by (auto simp: chain_build_def chain_ok_def make_chain_def visit_joints_def chain_size_def chain_dof_def)
  qed
qed (simp add: chain_build_def)

lemma chain_built:
  assumes "chain_build joints = Inr c"
  shows "chain_ok c" "visit_joints c = map visit_joint joints" "chain_dof c = length (filter is_moving joints)"
    "chain_size c = length joints" "0 < chain_size c"
  using chain_build_spec [of joints] assms by simp_all

section \<open>Rebuilding\<close>

lemma build_joint_visit:
  assumes "visit_joint j = visit_joint j'"
  shows "build_joint i j = build_joint i j'"
proof -
  have b: "build_base which b = build_base which b'" if "jb_origin b = jb_origin b'" for which and b b' :: joint_base
    using that by (simp add: build_base_def Let_def)
  show ?thesis
  proof (cases j)
    case (Fixed_joint x)
    with assms obtain y where "j' = Fixed_joint y" "jb_origin x = jb_origin y" by (cases j') auto
    with Fixed_joint b [of x y "joint_name i"] show ?thesis by simp
  next
    case (Rotating_joint x a u)
    with assms obtain y v where "j' = Rotating_joint y a v" "jb_origin x = jb_origin y" by (cases j') auto
    with Rotating_joint b [of x y "joint_name i"] show ?thesis by simp
  next
    case (Translating_joint x a u)
    with assms obtain y v where "j' = Translating_joint y a v" "jb_origin x = jb_origin y" by (cases j') auto
    with Translating_joint b [of x y "joint_name i"] show ?thesis by simp
  qed
qed

lemma build_joints_visit: "map visit_joint js = map visit_joint js' \<Longrightarrow> build_joints i js = build_joints i js'"
proof (induction js arbitrary: js' i)
  case (Cons j js)
  then obtain k ks where js': "js' = k # ks" by (cases js') auto
  with Cons.prems have "visit_joint j = visit_joint k" "map visit_joint js = map visit_joint ks" by simp_all
  from build_joint_visit [OF this(1)] Cons.IH [OF this(2)] show ?case by (simp add: js')
qed simp

lemma replay_visits: "map visit_joint (replay calls) = calls"
proof (induction calls rule: rev_induct)
  case (snoc call calls)
  then show ?case
    by (cases call) (simp_all add: replay_def extend_fixed_def extend_rotating_def extend_translating_def)
qed (simp add: replay_def)

text \<open>
  A chain is rebuilt from what it reports. The joints that \<open>visit_joints\<close> gives, made into the same
  calls on a new builder, build a chain that is identical to the visited one, though the chain itself holds normalised
  quaternions and axes.
\<close>

lemma chain_rebuilt:
  assumes "chain_build joints = Inr c"
  shows "chain_build (replay (visit_joints c)) = Inr c"
proof -
  have "map visit_joint (replay (visit_joints c)) = map visit_joint joints"
    using chain_built(2) [OF assms] by (simp add: replay_visits)
  from build_joints_visit [OF this] arg_cong [OF this, of length] assms show ?thesis
    by (auto simp: chain_build_def split: if_splits)
qed

text \<open>An arm of two joints, one that turns and one that slides along it.\<close>

definition arm_calls :: "joint_call list" where
  "arm_calls =
     [Extend_rotating \<lparr>jo_translation = V3 0 0 1, jo_rotation = Q4 2 0 0 0\<rparr> (V3 0 0 3),
      Extend_translating \<lparr>jo_translation = V3 1 0 0, jo_rotation = Q4 1 0 0 0\<rparr> (V3 2 0 0),
      Extend_fixed \<lparr>jo_translation = V3 1 0 0, jo_rotation = Q4 1 0 0 0\<rparr>]"

lemma arm_built:
  obtains c where "chain_build (replay arm_calls) = Inr c" "chain_dof c = 2" "chain_size c = 3"
proof -
  have good: "list_all (good_joint \<circ> visit_joint) (replay arm_calls)"
    by (simp add: replay_def arm_calls_def extend_fixed_def extend_rotating_def extend_translating_def good_origin_def good_axis_def
        all_finite3_def all_finite4_def)
  have "replay arm_calls \<noteq> []" "length (filter is_moving (replay arm_calls)) = 2" "length (replay arm_calls) = 3"
    by (simp_all add: replay_def arm_calls_def extend_fixed_def extend_rotating_def extend_translating_def)
  with good chain_build_spec [of "replay arm_calls"] that show thesis
    by (cases "chain_build (replay arm_calls)") (auto simp: list_all_length)
qed

section \<open>Motion\<close>

text \<open>A motion of the joints, with its first and its second derivative.\<close>

definition joint_motion_of :: "nat \<Rightarrow> (real \<Rightarrow> xvector) \<Rightarrow> (real \<Rightarrow> xvector) \<Rightarrow> bool" where
  "joint_motion_of n q q' \<longleftrightarrow> (\<forall>s. length (q s) = n \<and> length (q' s) = n) \<and>
     (\<forall>s i. i < n \<longrightarrow> ((\<lambda>s. q s ! i) has_real_derivative q' s ! i) (at s))"

lemma kinematics_derivatives:
  assumes "chain_ok c" "joint < chain_size c" "joint_motion_of (chain_dof c) q q'" "joint_motion_of (chain_dof c) q' q''"
  obtains fk where "\<And>s storage. \<exists>storage'. forward_kinematics c joint (q s) (q' s) (q'' s) storage = Inr (fk s, storage')"
    "\<And>s. vderiv (\<lambda>s. fk_position (fk s)) (fk_linear_velocity (fk s)) s"
    "\<And>s. vderiv (\<lambda>s. fk_linear_velocity (fk s)) (fk_linear_acceleration (fk s)) s"
proof -
  have len: "length (q s) = chain_dof c" "length (q' s) = chain_dof c" "length (q'' s) = chain_dof c" for s
    using assms(3,4) by (simp_all add: joint_motion_of_def)
  have d: "i < chain_dof c \<Longrightarrow> ((\<lambda>s. q s ! i) has_real_derivative q' s ! i) (at s)"
    "i < chain_dof c \<Longrightarrow> ((\<lambda>s. q' s ! i) has_real_derivative q'' s ! i) (at s)" for i s
    using assms(3,4) by (simp_all add: joint_motion_of_def)
  define fk where "fk s = (case forward_kinematics c joint (q s) (q' s) (q'' s) fresh_workspace of
      Inr (r, _) \<Rightarrow> r | Inl _ \<Rightarrow> undefined)" for s
  have val: "\<exists>storage'. forward_kinematics c joint (q s) (q' s) (q'' s) storage = Inr (fk s, storage')" for s storage
    using forward_kinematics_eq(1) [OF assms(1,2) len(1) [of s] len(2) [of s] len(3) [of s]] by (simp add: fk_def)
  have "vderiv (\<lambda>s. fk_position (fk s)) (fk_linear_velocity (fk t)) t \<and> vderiv (\<lambda>s. fk_linear_velocity (fk s)) (fk_linear_acceleration (fk t)) t" for t
  proof -
    obtain g where g: "\<And>s a storage. length a = chain_dof c \<Longrightarrow> \<exists>r storage'. forward_kinematics c joint (q s) (q' s) a storage = Inr (r, storage') \<and>
        fk_position r = fk_position (g s) \<and> fk_linear_velocity r = fk_linear_velocity (g s)"
      "\<And>storage. \<exists>storage'. forward_kinematics c joint (q t) (q' t) (q'' t) storage = Inr (g t, storage')"
      "vderiv (\<lambda>s. fk_position (g s)) (fk_linear_velocity (g t)) t"
      "vderiv (\<lambda>s. fk_linear_velocity (g s)) (fk_linear_acceleration (g t)) t"
      by (rule forward_kinematics_moves [OF assms(1,2) len d, of t]) (assumption, assumption, (rule that; assumption))
    have "g t = fk t" using g(2) [of fresh_workspace] val [of t fresh_workspace] by auto
    moreover have "fk_position (g s) = fk_position (fk s) \<and> fk_linear_velocity (g s) = fk_linear_velocity (fk s)" for s
      using g(1) [OF len(3), of s s fresh_workspace] val [of s fresh_workspace] by auto
    ultimately show ?thesis using g(3,4) by simp
  qed
  with val that show thesis by blast
qed

text \<open>
  C29: The forward kinematics reports derivatives. When the joints move with velocities and accelerations
  that are the derivatives of their positions, the velocity reported for any frame of a chain that was built is the derivative
  of the position reported for it, and the acceleration the derivative of the velocity; and the workspace a
  call is given has no influence.
\<close>

theorem forward_kinematics_derivatives:
  assumes "chain_build joints = Inr c" "joint < chain_size c" "joint_motion_of (chain_dof c) q q'" "joint_motion_of (chain_dof c) q' q''"
  shows "\<exists>fk. (\<forall>s storage. \<exists>storage'. forward_kinematics c joint (q s) (q' s) (q'' s) storage = Inr (fk s, storage')) \<and>
    (\<forall>s. vderiv (\<lambda>s. fk_position (fk s)) (fk_linear_velocity (fk s)) s \<and>
         vderiv (\<lambda>s. fk_linear_velocity (fk s)) (fk_linear_acceleration (fk s)) s)"
  by (rule kinematics_derivatives [OF chain_built(1) [OF assms(1)] assms(2-4)]) blast

text \<open>The arm turns and slides at constant speeds.\<close>

lemma arm_motion:
  "joint_motion_of 2 (\<lambda>s. [s, 2 * s]) (\<lambda>s. [1, 2])" "joint_motion_of 2 (\<lambda>s. [1, 2]) (\<lambda>s. [0, 0])"
  by (auto simp: joint_motion_of_def nth_Cons' less_2_cases_iff intro!: derivative_eq_intros)

theorem forward_kinematics_derivatives_witness:
  "\<exists>c fk. chain_build (replay arm_calls) = Inr c \<and>
     (\<forall>s. \<exists>storage'. forward_kinematics c 2 [s, 2 * s] [1, 2] [0, 0] fresh_workspace = Inr (fk s, storage')) \<and>
     (\<forall>s. vderiv (\<lambda>s. fk_position (fk s)) (fk_linear_velocity (fk s)) s)"
proof -
  obtain c where c: "chain_build (replay arm_calls) = Inr c" "chain_dof c = 2" "chain_size c = 3" by (rule arm_built)
  have "2 < chain_size c" using c(3) by simp
  from forward_kinematics_derivatives [OF c(1) this arm_motion [folded c(2)]] c(1) show ?thesis by blast
qed

section \<open>The Jacobian\<close>

lemma dot_columns: "length cs = length x \<Longrightarrow> dot (map f cs) x = (\<Sum>i < length cs. x ! i * f (cs ! i))"
  by (simp add: dot_sum mult.commute)

lemma sum3:
  fixes f :: "nat \<Rightarrow> vec3"
  shows "v3_x (sum f A) = (\<Sum>i \<in> A. v3_x (f i))" "v3_y (sum f A) = (\<Sum>i \<in> A. v3_y (f i))" "v3_z (sum f A) = (\<Sum>i \<in> A. v3_z (f i))"
  by (induction A rule: infinite_finite_induct) (simp_all add: arr3_components)

text \<open>A vector of a walk, multiplied out of the rows of its components.\<close>

definition rows3 :: "real list list \<Rightarrow> xvector \<Rightarrow> vec3" where
  "rows3 rows x = V3 (dot (rows ! 0) x) (dot (rows ! 1) x) (dot (rows ! 2) x)"

lemma dot_columns_sum:
  fixes cs :: "'a list" and f :: "'a \<Rightarrow> vec3"
  assumes "length cs = length x"
  shows "V3 (dot (map (v3_x \<circ> f) cs) x) (dot (map (v3_y \<circ> f) cs) x) (dot (map (v3_z \<circ> f) cs) x) =
    (\<Sum>i < length cs. scale3 (x ! i) (f (cs ! i)))"
  by (rule arr3_eqI) (simp_all add: dot_columns [OF assms] sum3 vec3_components)

definition angular_column :: "captured_joint \<Rightarrow> vec3" where
  "angular_column j = (if cj_translates j then V3 0 0 0 else cj_axis j)"

lemma angular_of_columns:
  "length js \<le> length q_dot \<Longrightarrow>
    (\<Sum>i < length js. scale3 (q_dot ! i) (angular_column (js ! i))) = fst (joint_sums js q_dot)"
proof (induction js rule: rev_induct)
  case (snoc j js)
  have "fst S + scale3 k (angular_column j) = fst (sum_step (j, k) S)" for S k
    by (cases S) (simp add: sum_step_def angular_column_def Let_def zero_arr3_def [symmetric] scale3_linear)
  with snoc show ?case by (simp add: nth_append joint_sums_snoc)
qed simp

lemma jacobian_eq:
  assumes "chain_ok c" "length q = chain_dof c"
  defines "w \<equiv> chain_walk (ch_joints c) q"
  shows "linear_jacobian c q = Inr [map (v3_x \<circ> (\<lambda>j. linear_column j (rt_translation (wl_running w)))) (wl_joints w),
      map (v3_y \<circ> (\<lambda>j. linear_column j (rt_translation (wl_running w)))) (wl_joints w),
      map (v3_z \<circ> (\<lambda>j. linear_column j (rt_translation (wl_running w)))) (wl_joints w)]"
    "jacobian c q = Inr [map (v3_x \<circ> (\<lambda>j. linear_column j (rt_translation (wl_running w)))) (wl_joints w),
      map (v3_y \<circ> (\<lambda>j. linear_column j (rt_translation (wl_running w)))) (wl_joints w),
      map (v3_z \<circ> (\<lambda>j. linear_column j (rt_translation (wl_running w)))) (wl_joints w),
      map (v3_x \<circ> angular_column) (wl_joints w), map (v3_y \<circ> angular_column) (wl_joints w), map (v3_z \<circ> angular_column) (wl_joints w)]"
    "length (wl_joints w) = chain_dof c"
proof -
  have len: "length (wl_joints w) = ch_actuated_count c" using assms(1) by (simp add: w_def chain_walk_joints chain_ok_def)
  then show "length (wl_joints w) = chain_dof c" by (simp add: chain_dof_def)
  have all: "take (Suc (length (ch_joints c) - 1)) (ch_joints c) = ch_joints c" using assms(1) by (simp add: chain_ok_def)
  have cols: "map f [0..<ch_actuated_count c] = map g (wl_joints w)" if "\<And>i. f i = g (wl_joints w ! i)" for f :: "nat \<Rightarrow> 'b" and g
    using that len by (intro nth_equalityI) simp_all
  have st: "update_chain_state c q (length (ch_joints c) - 1) fresh_workspace =
      Inr \<lparr>wk_joints = wl_joints w, wk_p_e = rt_translation (wl_running w)\<rparr>"
    using update_chain_state_eq [of q c] assms(2) by (simp add: chain_dof_def all [simplified] w_def)
  show "linear_jacobian c q = Inr [map (v3_x \<circ> (\<lambda>j. linear_column j (rt_translation (wl_running w)))) (wl_joints w),
      map (v3_y \<circ> (\<lambda>j. linear_column j (rt_translation (wl_running w)))) (wl_joints w),
      map (v3_z \<circ> (\<lambda>j. linear_column j (rt_translation (wl_running w)))) (wl_joints w)]"
    unfolding linear_jacobian_def st by (simp add: Let_def cols)
  show "jacobian c q = Inr [map (v3_x \<circ> (\<lambda>j. linear_column j (rt_translation (wl_running w)))) (wl_joints w),
      map (v3_y \<circ> (\<lambda>j. linear_column j (rt_translation (wl_running w)))) (wl_joints w),
      map (v3_z \<circ> (\<lambda>j. linear_column j (rt_translation (wl_running w)))) (wl_joints w),
      map (v3_x \<circ> angular_column) (wl_joints w), map (v3_y \<circ> angular_column) (wl_joints w), map (v3_z \<circ> angular_column) (wl_joints w)]"
    unfolding jacobian_def st by (simp add: Let_def cols angular_column_def)
qed

text \<open>The orientation of the chain's last frame.\<close>

definition end_rotation :: "chain \<Rightarrow> xvector \<Rightarrow> quat" where
  "end_rotation c q = rt_rotation (wl_running (chain_walk (ch_joints c) q))"

text \<open>
  C31: The Jacobian is the linear map from the velocities of the joints to the motion of the last frame. Its
  first three rows, which are the linear Jacobian, give the velocity that the forward kinematics reports;
  its last three give the angular velocity, with which every direction fixed in the last frame turns when
  the joints move.
\<close>

theorem jacobian_velocities:
  assumes "chain_build joints = Inr c" "joint_motion_of (chain_dof c) q q'" "joint_motion_of (chain_dof c) q' q''"
  shows "\<exists>J fk. jacobian c (q t) = Inr J \<and> linear_jacobian c (q t) = Inr (take 3 J) \<and>
    map length J = replicate 6 (chain_dof c) \<and>
    forward_kinematics_fresh c (chain_size c - 1) (q t) (q' t) (q'' t) = Inr fk \<and>
    rows3 J (q' t) = fk_linear_velocity fk \<and>
    (\<forall>v. vderiv (\<lambda>s. rotate3 (end_rotation c (q s)) v) (cross (rows3 (drop 3 J) (q' t)) (rotate3 (end_rotation c (q t)) v)) t)"
proof -
  note ok = chain_built(1) [OF assms(1)] and size = chain_built(5) [OF assms(1)]
  have len: "length (q s) = chain_dof c" "length (q' s) = chain_dof c" "length (q'' s) = chain_dof c" for s
    using assms(2,3) by (simp_all add: joint_motion_of_def)
  define w where "w = chain_walk (ch_joints c) (q t)"
  note J = jacobian_eq [OF ok len(1) [of t], folded w_def]
  have all: "take (Suc (chain_size c - 1)) (ch_joints c) = ch_joints c" using size by (simp add: chain_size_def)
  have lt: "chain_size c - 1 < chain_size c" using size by simp
  obtain fk where fk: "forward_kinematics_fresh c (chain_size c - 1) (q t) (q' t) (q'' t) = Inr fk"
    "fk_linear_velocity fk = (\<Sum>i < length (wl_joints w). scale3 (q' t ! i) (linear_column (wl_joints w ! i) (rt_translation (wl_running w))))"
    using forward_kinematics_eq(1) [OF ok lt len(1) [of t] len(2) [of t] len(3) [of t], where storage = fresh_workspace]
    unfolding all w_def [symmetric] by (simp add: forward_kinematics_fresh_def)
  have "walk_moves (\<lambda>s. chain_walk (ch_joints c) (q s)) (q' t) t"
    using ok assms(2) len(2) [of t]
    by (intro chain_walk_moves) (simp_all add: chain_ok_def chain_dof_def joint_motion_of_def)
  then have turns: "vderiv (\<lambda>s. rotate3 (end_rotation c (q s)) v)
      (cross (fst (joint_sums (wl_joints w) (q' t))) (rotate3 (end_rotation c (q t)) v)) t" for v
    by (simp add: walk_moves_def frame_moves_def turns_def end_rotation_def w_def)
  have n: "length (wl_joints w) = length (q' t)" using J(3) len(2) by simp
  let ?J = "[map (v3_x \<circ> (\<lambda>j. linear_column j (rt_translation (wl_running w)))) (wl_joints w),
      map (v3_y \<circ> (\<lambda>j. linear_column j (rt_translation (wl_running w)))) (wl_joints w),
      map (v3_z \<circ> (\<lambda>j. linear_column j (rt_translation (wl_running w)))) (wl_joints w),
      map (v3_x \<circ> angular_column) (wl_joints w), map (v3_y \<circ> angular_column) (wl_joints w), map (v3_z \<circ> angular_column) (wl_joints w)]"
  have v: "rows3 ?J (q' t) = fk_linear_velocity fk"
    using dot_columns_sum [OF n, of "\<lambda>j. linear_column j (rt_translation (wl_running w))"] by (simp add: rows3_def fk(2))
  have o: "rows3 (drop 3 ?J) (q' t) = fst (joint_sums (wl_joints w) (q' t))"
    using dot_columns_sum [OF n, of angular_column] angular_of_columns [of "wl_joints w" "q' t"] n by (simp add: rows3_def)
  have "map length ?J = replicate 6 (chain_dof c)" using J(3) by (simp add: numeral_eq_Suc)
  with J(1,2) fk(1) v o turns show ?thesis by (intro exI [of _ ?J] exI [of _ fk]) simp
qed

theorem jacobian_velocities_witness:
  "\<exists>c J fk. chain_build (replay arm_calls) = Inr c \<and> jacobian c [3, 6] = Inr J \<and>
     forward_kinematics_fresh c 2 [3, 6] [1, 2] [0, 0] = Inr fk \<and> rows3 J [1, 2] = fk_linear_velocity fk"
proof -
  obtain c where c: "chain_build (replay arm_calls) = Inr c" "chain_dof c = 2" "chain_size c = 3" by (rule arm_built)
  from jacobian_velocities [OF c(1) arm_motion [folded c(2)], of 3] c show ?thesis by auto
qed

lemma forward_position:
  assumes "chain_ok c" "joint < chain_size c" "length q = chain_dof c" "length q_dot = chain_dof c" "length q_ddot = chain_dof c"
  obtains r w where "forward_kinematics c joint q q_dot q_ddot storage = Inr (r, w)"
    "fk_position r = rt_translation (wl_running (chain_walk (take (Suc joint) (ch_joints c)) q))"
  using forward_kinematics_eq(1) [OF assms, where storage = storage] that by simp

section \<open>The limit of the tool's speed\<close>

lemma forward_kinematics_halts: "forward_kinematics c joint a b d e \<noteq> Inl Diverges"
  by (auto simp: forward_kinematics_def update_chain_state_def size_mismatch_def Let_def bind_res_eq_Inl)

lemma tcp_limits_from_returns:
  assumes "\<And>tcp. to_tcp opt = Some tcp \<Longrightarrow> \<exists>c m. tcp = tcp_limits_from c m"
  shows "evaluator_returns opt"
  using assms
  by (fastforce simp: evaluator_returns_def tcp_limits_from_def tcp_evaluate_def bind_res_eq_Inl halts_def Let_def forward_kinematics_halts)

text \<open>The end position, read off at rest, is the position of the moving chain.\<close>

lemma end_position_moving:
  assumes "chain_ok c" "chain_size c - 1 < chain_size c" "length q = chain_dof c" "length q' = chain_dof c" "length q'' = chain_dof c"
    "forward_kinematics c (chain_size c - 1) q q' q'' fresh_workspace = Inr (r, w)"
  shows "end_position c q = Inr (fk_position r)"
proof -
  let ?zero = "replicate (chain_dof c) (0::real)"
  have z: "length ?zero = chain_dof c" by simp
  obtain r1 w1 where r1: "forward_kinematics c (chain_size c - 1) q q' q'' fresh_workspace = Inr (r1, w1)"
    "fk_position r1 = rt_translation (wl_running (chain_walk (take (Suc (chain_size c - 1)) (ch_joints c)) q))"
    by (rule forward_position [OF assms(1-5)])
  obtain r2 w2 where r2: "forward_kinematics c (chain_size c - 1) q ?zero ?zero fresh_workspace = Inr (r2, w2)"
    "fk_position r2 = rt_translation (wl_running (chain_walk (take (Suc (chain_size c - 1)) (ch_joints c)) q))"
    by (rule forward_position [OF assms(1-3) z z])
  have "r1 = r" using r1(1) assms(6) by simp
  with r1(2) r2 show ?thesis by (simp add: end_position_def forward_kinematics_fresh_def Let_def del: replicate.simps)
qed

text \<open>
  C30: The tool limit made from a chain reports, along a path of the joints, the speed of the last frame per unit of arc
  length, the length of the derivative of its position, together with the derivative of that speed, and nothing exactly where
  the frame stands still; and no trajectory computed under it runs on for want of an answer.
\<close>

theorem tool_limit_from_chain:
  assumes "chain_build joints = Inr c" "joint_motion_of (chain_dof c) q q'" "joint_motion_of (chain_dof c) q' q''"
  shows "evaluator_returns (opt\<lparr>to_tcp := Some (tcp_limits_from c m)\<rparr>) \<and>
    (\<exists>pos vel. (\<forall>s. end_position c (q s) = Inr (pos s) \<and> vderiv pos (vel s) s) \<and>
      (if vel t = 0 then tcp_evaluator (tcp_limits_from c m) (q t) (q' t) (q'' t) = Inr None
       else \<exists>d. tcp_evaluator (tcp_limits_from c m) (q t) (q' t) (q'' t) =
           Inr (Some \<lparr>ls_value = Fin (norm3 (vel t)), ls_arc_length_derivative = Fin d\<rparr>) \<and>
         ((\<lambda>s. norm3 (vel s)) has_real_derivative d) (at t)))"
proof (intro conjI)
  note ok = chain_built(1) [OF assms(1)] and size = chain_built(5) [OF assms(1)]
  have lt: "chain_size c - 1 < chain_size c" using size by simp
  have len: "length (q s) = chain_dof c" "length (q' s) = chain_dof c" for s
    using assms(2) by (simp_all add: joint_motion_of_def)
  show "evaluator_returns (opt\<lparr>to_tcp := Some (tcp_limits_from c m)\<rparr>)" by (rule tcp_limits_from_returns) auto
  obtain fk where fk: "\<And>s storage. \<exists>storage'. forward_kinematics c (chain_size c - 1) (q s) (q' s) (q'' s) storage = Inr (fk s, storage')"
    "\<And>s. vderiv (\<lambda>s. fk_position (fk s)) (fk_linear_velocity (fk s)) s"
    "\<And>s. vderiv (\<lambda>s. fk_linear_velocity (fk s)) (fk_linear_acceleration (fk s)) s"
    by (rule kinematics_derivatives [OF ok lt assms(2,3)]) (rule that; assumption)
  let ?pos = "\<lambda>s. fk_position (fk s)" and ?vel = "\<lambda>s. fk_linear_velocity (fk s)" and ?acc = "\<lambda>s. fk_linear_acceleration (fk s)"
  have pos: "end_position c (q s) = Inr (?pos s)" for s
  proof -
    have "length (q'' s) = chain_dof c" using assms(3) by (simp add: joint_motion_of_def)
    with fk(1) [of s fresh_workspace] show ?thesis using end_position_moving [OF ok lt len] by blast
  qed
  obtain w' where w': "forward_kinematics c (chain_size c - 1) (q t) (q' t) (q'' t) fresh_workspace = Inr (fk t, w')" using fk(1) by blast
  have zero: "dot3 v v = 0 \<longleftrightarrow> v = 0" for v
    using sum_squares4 [of 0 "v3_x v" "v3_y v" "v3_z v"] by (cases v) (auto simp: dot3_def zero_arr3_def)
  have none: "tcp_evaluator (tcp_limits_from c m) (q t) (q' t) (q'' t) = Inr None" if "?vel t = 0"
    using that w' zero [of "?vel t"] by (simp add: tcp_limits_from_def tcp_evaluate_def Let_def)
  have some: "tcp_evaluator (tcp_limits_from c m) (q t) (q' t) (q'' t) =
      Inr (Some \<lparr>ls_value = Fin (norm3 (?vel t)), ls_arc_length_derivative = Fin (dot3 (?vel t) (?acc t) / norm3 (?vel t))\<rparr>) \<and>
      ((\<lambda>s. norm3 (?vel s)) has_real_derivative dot3 (?vel t) (?acc t) / norm3 (?vel t)) (at t)" if "?vel t \<noteq> 0"
  proof -
    have nz: "dot3 (?vel t) (?vel t) \<noteq> 0" using that zero by blast
    then have "norm3 (?vel t) \<noteq> 0" by (simp add: norm3_def)
    with w' nz deriv_norm3 [OF fk(3) nz] show ?thesis
      by (simp add: tcp_limits_from_def tcp_evaluate_def Let_def norm3_def)
  qed
  show "\<exists>pos vel. (\<forall>s. end_position c (q s) = Inr (pos s) \<and> vderiv pos (vel s) s) \<and>
      (if vel t = 0 then tcp_evaluator (tcp_limits_from c m) (q t) (q' t) (q'' t) = Inr None
       else \<exists>d. tcp_evaluator (tcp_limits_from c m) (q t) (q' t) (q'' t) =
           Inr (Some \<lparr>ls_value = Fin (norm3 (vel t)), ls_arc_length_derivative = Fin d\<rparr>) \<and>
         ((\<lambda>s. norm3 (vel s)) has_real_derivative d) (at t))"
    by (rule exI [of _ ?pos], rule exI [of _ ?vel]) (use pos fk(2) none some in auto)
qed

theorem tool_limit_from_chain_witness:
  "\<exists>c r. chain_build (replay arm_calls) = Inr c \<and> tcp_evaluator (tcp_limits_from c 1) [3, 6] [1, 2] [0, 0] = Inr r"
proof -
  obtain c where c: "chain_build (replay arm_calls) = Inr c" "chain_dof c = 2" "chain_size c = 3" by (rule arm_built)
  have six: "[3, 2 * 3] = [3, 6 :: real]" by simp
  from conjunct2 [OF tool_limit_from_chain [OF c(1) arm_motion [folded c(2)], where t = 3 and m = 1]]
  have "\<exists>r. tcp_evaluator (tcp_limits_from c 1) [3, 6] [1, 2] [0, 0] = Inr r"
    unfolding six by (elim exE conjE) (metis (full_types))
  with c(1) show ?thesis by blast
qed

end
