(* ===== verification/Capi.thy ===== *)
theory Capi
  imports Chain Session
begin

text \<open>
  The C interface (\<open>capi/capi.{h,cpp}\<close>): tensor maps, the kinematic chain, one-shot generation and
  streaming sessions. A handle is the state behind the pointer, \<open>None\<close> a null pointer. A function gives
  its return value together with what it stores through its pointers; an exception is caught at the
  boundary, while undefined behaviour and a call that never returns are not. Allocation is taken to
  succeed except where the caller chooses the size.
\<close>

section \<open>Tensor maps\<close>

text \<open>The stored alternatives: vectors, and matrices by their extents and their elements row by row.\<close>

datatype tensor =
    F64_vector "dbl list"
  | F64_matrix nat nat "dbl list"
  | I64_vector "64 word list"
  | I64_matrix nat nat "64 word list"

type_synonym tensor_map = "string \<Rightarrow> tensor option"

definition k_dtype_f64 :: int where "k_dtype_f64 = 1"

definition k_dtype_i64 :: int where "k_dtype_i64 = 2"

definition dtype_is_valid :: "int \<Rightarrow> bool" where
  "dtype_is_valid dtype \<longleftrightarrow> dtype = k_dtype_f64 \<or> dtype = k_dtype_i64"

definition dtype_size_bytes :: "int \<Rightarrow> size_t res" where
  "dtype_size_bytes dtype =
     (if dtype = k_dtype_f64 \<or> dtype = k_dtype_i64 then Inr 8 else Inl (Invalid_argument ''unknown dtype value''))"

text \<open>The caller's buffer, as it reads element by element at either type.\<close>

record buffer =
  buf_f64 :: "nat \<Rightarrow> dbl"
  buf_i64 :: "nat \<Rightarrow> 64 word"

definition f64_buffer :: "(nat \<Rightarrow> dbl) \<Rightarrow> buffer" where
  "f64_buffer data = \<lparr>buf_f64 = data, buf_i64 = (\<lambda>_. 0)\<rparr>"

definition i64_buffer :: "(nat \<Rightarrow> 64 word) \<Rightarrow> buffer" where
  "i64_buffer data = \<lparr>buf_f64 = (\<lambda>_. 0), buf_i64 = data\<rparr>"

fun count_elements :: "size_t list \<Rightarrow> size_t \<Rightarrow> size_t option" where
  "count_elements [] n = Some n"
| "count_elements (d # dims) n = (if d < 1 then None else count_elements dims (n * d))"

text \<open>
  \<open>heap n\<close> tells whether an array of \<open>n\<close> elements can be allocated. xtensor allocates the product of the extents,
  in \<open>size_t\<close> like the count here.
\<close>

definition store_tensor :: "int \<Rightarrow> size_t list \<Rightarrow> size_t \<Rightarrow> buffer \<Rightarrow> tensor" where
  "store_tensor dtype dims total_bytes data =
     (let n = unat total_bytes div 8
      in if dtype = k_dtype_f64
         then (if length dims = 1 then F64_vector (map (buf_f64 data) [0..<n])
               else F64_matrix (unat (dims ! 0)) (unat (dims ! 1)) (map (buf_f64 data) [0..<n]))
         else (if length dims = 1 then I64_vector (map (buf_i64 data) [0..<n])
               else I64_matrix (unat (dims ! 0)) (unat (dims ! 1)) (map (buf_i64 data) [0..<n])))"

definition tensor_map_insert ::
  "(size_t \<Rightarrow> bool) \<Rightarrow> tensor_map option \<Rightarrow> string option \<Rightarrow> int \<Rightarrow> size_t \<Rightarrow> (nat \<Rightarrow> size_t) option \<Rightarrow> buffer option \<Rightarrow>
     int \<times> tensor_map option" where
  "tensor_map_insert heap tensors key dtype rank dims data =
     (case (tensors, key, dims, data) of
        (Some m, Some k, Some ds, Some buf) \<Rightarrow>
          if rank < 1 \<or> 2 < rank then (- 1, tensors)
          else if \<not> dtype_is_valid dtype then (- 1, tensors)
          else
            let shape = map ds [0..<unat rank]
            in (case (count_elements shape 1, dtype_size_bytes dtype) of
                  (Some total_elements, Inr bytes) \<Rightarrow>
                    if heap total_elements
                    then (0, Some (m(k \<mapsto> store_tensor dtype shape (total_elements * bytes) buf)))
                    else (- 1, tensors)
                | _ \<Rightarrow> (- 1, tensors))
      | _ \<Rightarrow> (- 1, tensors))"

definition tensor_map_insert_f64 where
  "tensor_map_insert_f64 heap tensors key rank dims data =
     tensor_map_insert heap tensors key k_dtype_f64 rank dims (map_option f64_buffer data)"

definition tensor_map_insert_i64 where
  "tensor_map_insert_i64 heap tensors key rank dims data =
     tensor_map_insert heap tensors key k_dtype_i64 rank dims (map_option i64_buffer data)"

definition tensor_map_insert_scalar_f64 where
  "tensor_map_insert_scalar_f64 heap tensors key value =
     tensor_map_insert_f64 heap tensors key 1 (Some (\<lambda>_. 1)) (Some (\<lambda>_. value))"

definition tensor_map_insert_scalar_i64 where
  "tensor_map_insert_scalar_i64 heap tensors key value =
     tensor_map_insert_i64 heap tensors key 1 (Some (\<lambda>_. 1)) (Some (\<lambda>_. value))"

definition tensor_map_create :: tensor_map where
  "tensor_map_create = Map.empty"

text \<open>What a view stores: the type, the rank, and pointers to the extents and to the elements.\<close>

datatype elements = F64_elements "dbl list" | I64_elements "64 word list"

record tensor_view =
  tv_dtype :: int
  tv_rank :: nat
  tv_dims :: "nat list"
  tv_data :: elements

fun view_of :: "tensor \<Rightarrow> tensor_view" where
  "view_of (F64_vector xs) = \<lparr>tv_dtype = k_dtype_f64, tv_rank = 1, tv_dims = [length xs], tv_data = F64_elements xs\<rparr>"
| "view_of (F64_matrix r c xs) = \<lparr>tv_dtype = k_dtype_f64, tv_rank = 2, tv_dims = [r, c], tv_data = F64_elements xs\<rparr>"
| "view_of (I64_vector xs) = \<lparr>tv_dtype = k_dtype_i64, tv_rank = 1, tv_dims = [length xs], tv_data = I64_elements xs\<rparr>"
| "view_of (I64_matrix r c xs) = \<lparr>tv_dtype = k_dtype_i64, tv_rank = 2, tv_dims = [r, c], tv_data = I64_elements xs\<rparr>"

definition tensor_map_view :: "tensor_map option \<Rightarrow> string option \<Rightarrow> bool \<Rightarrow> int \<times> tensor_view option" where
  "tensor_map_view tensors key outputs_given =
     (case (tensors, key) of
        (Some m, Some k) \<Rightarrow>
          if \<not> outputs_given then (- 1, None)
          else (case m k of None \<Rightarrow> (1, None) | Some t \<Rightarrow> (0, Some (view_of t)))
      | _ \<Rightarrow> (- 1, None))"

section \<open>Reading inputs\<close>

fun describe_tensor :: "tensor \<Rightarrow> string" where
  "describe_tensor (F64_vector _) = ''f64 rank-1''"
| "describe_tensor (F64_matrix _ _ _) = ''f64 rank-2''"
| "describe_tensor (I64_vector _) = ''i64 rank-1''"
| "describe_tensor (I64_matrix _ _ _) = ''i64 rank-2''"

text \<open>The alternative a call asks for: how it is read, and its name.\<close>

fun as_f64_vector :: "tensor \<Rightarrow> dbl list option" where
  "as_f64_vector (F64_vector xs) = Some xs"
| "as_f64_vector _ = None"

fun as_f64_matrix :: "tensor \<Rightarrow> (nat \<times> nat \<times> dbl list) option" where
  "as_f64_matrix (F64_matrix r c xs) = Some (r, c, xs)"
| "as_f64_matrix _ = None"

definition wrong_tensor :: "string \<Rightarrow> tensor \<Rightarrow> string \<Rightarrow> exn" where
  "wrong_tensor key t requested = Invalid_argument (''input '' @ quoted key @ '' is '' @ describe_tensor t @ '', expected '' @ requested)"

definition require_tensor :: "(tensor \<Rightarrow> 'a option) \<Rightarrow> string \<Rightarrow> tensor_map \<Rightarrow> string \<Rightarrow> 'a res" where
  "require_tensor sel requested inputs key =
     (case inputs key of
        None \<Rightarrow> Inl (Invalid_argument (''missing required input: '' @ key))
      | Some t \<Rightarrow> (case sel t of None \<Rightarrow> Inl (wrong_tensor key t requested) | Some a \<Rightarrow> Inr a))"

definition find_optional_tensor :: "(tensor \<Rightarrow> 'a option) \<Rightarrow> string \<Rightarrow> tensor_map \<Rightarrow> string \<Rightarrow> 'a option res" where
  "find_optional_tensor sel requested inputs key =
     (case inputs key of
        None \<Rightarrow> Inr None
      | Some t \<Rightarrow> (case sel t of None \<Rightarrow> Inl (wrong_tensor key t requested) | Some a \<Rightarrow> Inr (Some a)))"

abbreviation "require_vector \<equiv> require_tensor as_f64_vector ''f64 rank-1''"
abbreviation "require_matrix \<equiv> require_tensor as_f64_matrix ''f64 rank-2''"
abbreviation "find_vector \<equiv> find_optional_tensor as_f64_vector ''f64 rank-1''"

definition require_size :: "dbl list \<Rightarrow> string \<Rightarrow> nat \<Rightarrow> unit res" where
  "require_size v key expected_size =
     (if length v \<noteq> expected_size
      then Inl (Invalid_argument (''input '' @ quoted key @ '' has wrong shape (expected 1D ['' @ string_of_size expected_size @ ''])''))
      else Inr ())"

definition require_scalar :: "dbl list \<Rightarrow> string \<Rightarrow> unit res" where
  "require_scalar v key =
     (if length v \<noteq> 1 then Inl (Invalid_argument (''input '' @ quoted key @ '' must be a scalar (shape [1])'')) else Inr ())"

section \<open>Keys and options\<close>

definition k_acceleration_limits :: string where "k_acceleration_limits = ''acceleration_limits_rads_per_sec2''"
definition k_accelerations :: string where "k_accelerations = ''accelerations_rads_per_sec2''"
definition k_configurations :: string where "k_configurations = ''configurations_rads''"
definition k_colinearization_ratio :: string where "k_colinearization_ratio = ''path_colinearization_ratio''"
definition k_path_tolerance :: string where "k_path_tolerance = ''path_tolerance_delta_rads''"
definition k_sample_times :: string where "k_sample_times = ''sample_times_sec''"
definition k_tcp_max_linear_speed :: string where "k_tcp_max_linear_speed = ''tcp_max_linear_speed''"
definition k_sampling_freq :: string where "k_sampling_freq = ''trajectory_sampling_freq_hz''"
definition k_velocities :: string where "k_velocities = ''velocities_rads_per_sec''"
definition k_velocity_limits :: string where "k_velocity_limits = ''velocity_limits_rads_per_sec''"
definition k_dedup_tolerance :: string where "k_dedup_tolerance = ''waypoint_deduplication_tolerance_rads''"
definition k_waypoints :: string where "k_waypoints = ''waypoints_rads''"

definition k_default_colinearization_ratio :: dbl where "k_default_colinearization_ratio = 0"
definition k_default_dedup_tolerance :: dbl where "k_default_dedup_tolerance = Fin (1 / 10 ^ 5)"
definition k_default_sampling_freq_hz :: dbl where "k_default_sampling_freq_hz = 100"

definition require_scalar_input :: "tensor_map \<Rightarrow> string \<Rightarrow> dbl res" where
  "require_scalar_input inputs key =
     bind_res (require_vector inputs key) (\<lambda>v. bind_res (require_scalar v key) (\<lambda>_. Inr (v ! 0)))"

definition optional_scalar_input :: "tensor_map \<Rightarrow> string \<Rightarrow> dbl \<Rightarrow> dbl res" where
  "optional_scalar_input inputs key fallback =
     bind_res (find_vector inputs key) (\<lambda>v. case v of
       None \<Rightarrow> Inr fallback
     | Some xs \<Rightarrow> bind_res (require_scalar xs key) (\<lambda>_. Inr (xs ! 0)))"

definition path_options_for :: "dbl \<Rightarrow> dbl \<Rightarrow> path_options" where
  "path_options_for tolerance colinearization =
     (let opts = set_max_blend_deviation tolerance default_path_options
      in if 0 < colinearization then set_max_linear_deviation (tolerance * colinearization) opts else opts)"

definition tcp_limits_for :: "tensor_map \<Rightarrow> chain option \<Rightarrow> nat \<Rightarrow> tcp_limits option res" where
  "tcp_limits_for inputs ch n_dof =
     bind_res
       (case ch of
          Some c \<Rightarrow>
            if chain_dof c \<noteq> n_dof
            then Inl (Invalid_argument (''kinematic chain has '' @ string_of_size (chain_dof c) @
                   '' rotating or translating joints, but the inputs have '' @ string_of_size n_dof @ '' degrees of freedom''))
            else Inr ()
        | None \<Rightarrow> Inr ()) (\<lambda>_.
     bind_res (find_vector inputs k_tcp_max_linear_speed) (\<lambda>cap.
       case cap of
         None \<Rightarrow> Inr None
       | Some v \<Rightarrow>
           bind_res (require_scalar v k_tcp_max_linear_speed) (\<lambda>_.
             case ch of
               None \<Rightarrow> Inl (Invalid_argument (''input '' @ quoted k_tcp_max_linear_speed @ '' requires a kinematic chain''))
             | Some c \<Rightarrow> Inr (Some (tcp_limits_from c (v ! 0))))))"

definition trajectory_options_for :: "dbl list \<Rightarrow> dbl list \<Rightarrow> tcp_limits option \<Rightarrow> traj_options res" where
  "trajectory_options_for velocity_limits acceleration_limits tcp =
     bind_res (finite_vector velocity_limits) (\<lambda>v.
     bind_res (finite_vector acceleration_limits) (\<lambda>a.
       Inr \<lparr>to_max_velocity = v, to_max_acceleration = a, to_delta = k_default_delta, to_epsilon = k_default_epsilon, to_tcp = tcp\<rparr>))"

section \<open>Outputs\<close>

definition sample_tensors :: "traj_sample list \<Rightarrow> nat \<Rightarrow> tensor_map" where
  "sample_tensors samples n_dof =
     [k_sample_times \<mapsto> F64_vector (map sm_time samples),
      k_configurations \<mapsto> F64_matrix (length samples) n_dof (map Fin (concat (map sm_configuration samples))),
      k_velocities \<mapsto> F64_matrix (length samples) n_dof (map Fin (concat (map sm_velocity samples))),
      k_accelerations \<mapsto> F64_matrix (length samples) n_dof (map Fin (concat (map sm_acceleration samples)))]"

definition materialize_samples :: "traj_sample list \<Rightarrow> nat \<Rightarrow> tensor_map" where
  "materialize_samples samples n_dof = sample_tensors samples n_dof"

section \<open>One-shot generation\<close>

text \<open>The loop that fills the preallocated arrays of \<open>n\<close> rows.\<close>

definition fill_body ::
  "nat \<Rightarrow> uniform_sampler sampled_iterator \<times> traj_sample list \<Rightarrow>
     (uniform_sampler sampled_iterator \<times> traj_sample list, traj_sample list) flow res" where
  "fill_body n = (\<lambda>(it, rows).
     if \<not> iterator_at_end it \<and> n \<le> length rows
     then Inl (Logic_error ''internal: sampler produced more samples than expected'')
     else collect_body sampler_advance (it, rows))"

definition fill_samples :: "nat \<Rightarrow> uniform_sampler sampled \<Rightarrow> traj_sample list res" where
  "fill_samples n v =
     bind_res (sampled_begin sampler_advance v) (\<lambda>it.
     bind_res (loop_flow (fill_body n) (it, [])) (\<lambda>rows.
       if length rows \<noteq> n then Inl (Logic_error ''internal: sampler produced fewer samples than expected'') else Inr rows))"

definition totg_plan :: "tensor_map \<Rightarrow> chain option \<Rightarrow> (trajectory \<times> nat \<times> dbl) res" where
  "totg_plan inputs ch =
     bind_res (require_matrix inputs k_waypoints) (\<lambda>waypoints.
     let n_dof = fst (snd waypoints) in
     bind_res (require_vector inputs k_velocity_limits) (\<lambda>velocity_limits.
     bind_res (require_size velocity_limits k_velocity_limits n_dof) (\<lambda>_.
     bind_res (require_vector inputs k_acceleration_limits) (\<lambda>acceleration_limits.
     bind_res (require_size acceleration_limits k_acceleration_limits n_dof) (\<lambda>_.
     bind_res (require_scalar_input inputs k_path_tolerance) (\<lambda>path_tolerance.
     bind_res (optional_scalar_input inputs k_colinearization_ratio k_default_colinearization_ratio) (\<lambda>ratio.
     bind_res (optional_scalar_input inputs k_dedup_tolerance k_default_dedup_tolerance) (\<lambda>dedup_tolerance.
     bind_res (optional_scalar_input inputs k_sampling_freq k_default_sampling_freq_hz) (\<lambda>sampling_freq.
     bind_res (matrix_rows waypoints) (\<lambda>m.
     bind_res (wa_of_matrix m) (\<lambda>acc.
     bind_res (finite_vector [dedup_tolerance]) (\<lambda>tol.
     bind_res (deduplicate_waypoints acc (tol ! 0)) (\<lambda>accumulator.
     bind_res (path_create accumulator (path_options_for path_tolerance ratio)) (\<lambda>p.
     bind_res (tcp_limits_for inputs ch n_dof) (\<lambda>tcp.
     bind_res (trajectory_options_for velocity_limits acceleration_limits tcp) (\<lambda>topts.
     bind_res (trajectory_create p topts []) (\<lambda>traj.
       Inr (traj, n_dof, sampling_freq))))))))))))))))))"

definition totg_generate_impl :: "tensor_map \<Rightarrow> chain option \<Rightarrow> tensor_map res" where
  "totg_generate_impl inputs ch =
     bind_res (totg_plan inputs ch) (\<lambda>(traj, n_dof, sampling_freq).
     bind_res (quantized_for_trajectory traj sampling_freq 0) (\<lambda>sampler.
     bind_res (calculate_quantized_samples (tr_duration traj) sampling_freq) (\<lambda>n_samples.
       if n_samples = 0 then Inl (Logic_error ''internal: sampler produced no samples'')
       else
         bind_res (samples_of traj sampler) (\<lambda>v.
         bind_res (fill_samples (unat n_samples) v) (\<lambda>rows. Inr (sample_tensors rows n_dof))))))"

section \<open>The boundary\<close>

text \<open>
  \<open>caught\<close> is a call that reports through an error pointer, which may be null: the outcome is what the call
  returns with the value stored through that pointer, or \<open>Inl\<close> for what no boundary can catch.
\<close>

definition caught :: "bool \<Rightarrow> exn \<Rightarrow> string option res" where
  "caught want_error e =
     (case what e of None \<Rightarrow> Inl e | Some m \<Rightarrow> Inr (if want_error then Some m else None))"

record 'a call_result =
  cr_value :: 'a
  cr_error :: "string option"

definition totg_generate ::
  "chain option \<Rightarrow> tensor_map option \<Rightarrow> tensor_map option \<Rightarrow> bool \<Rightarrow> int call_result res \<times> tensor_map option" where
  "totg_generate ch inputs outputs want_error =
     (case bind_res (case inputs of None \<Rightarrow> Inl (Invalid_argument ''inputs is null'') | Some i \<Rightarrow> Inr i) (\<lambda>i.
           bind_res (case outputs of None \<Rightarrow> Inl (Invalid_argument ''outputs is null'') | Some m \<Rightarrow> Inr m) (\<lambda>_.
             totg_generate_impl i ch)) of
        Inr out \<Rightarrow> (Inr \<lparr>cr_value = 0, cr_error = None\<rparr>, Some out)
      | Inl e \<Rightarrow> (bind_res (caught want_error e) (\<lambda>m. Inr \<lparr>cr_value = - 1, cr_error = m\<rparr>), outputs))"

section \<open>The kinematic chain\<close>

text \<open>The builder handle; the inner option is empty once the builder has been built.\<close>

type_synonym builder_handle = "chain_builder option"

definition origin_from :: "dbl arr3 \<Rightarrow> dbl arr4 \<Rightarrow> joint_origin" where
  "origin_from xyz wxyz = \<lparr>jo_translation = xyz, jo_rotation = wxyz\<rparr>"

definition chain_builder_create :: builder_handle where
  "chain_builder_create = Some []"

definition builder_extend_fixed ::
  "builder_handle option \<Rightarrow> dbl arr3 option \<Rightarrow> dbl arr4 option \<Rightarrow> int \<times> builder_handle option" where
  "builder_extend_fixed h xyz wxyz =
     (case (h, xyz, wxyz) of
        (Some (Some b), Some t, Some r) \<Rightarrow> (0, Some (Some (extend_fixed (origin_from t r) b)))
      | _ \<Rightarrow> (- 1, h))"

definition builder_extend_rotational ::
  "builder_handle option \<Rightarrow> dbl arr3 option \<Rightarrow> dbl arr4 option \<Rightarrow> dbl arr3 option \<Rightarrow> int \<times> builder_handle option" where
  "builder_extend_rotational h xyz wxyz axis =
     (case (h, xyz, wxyz, axis) of
        (Some (Some b), Some t, Some r, Some a) \<Rightarrow> (0, Some (Some (extend_rotating (origin_from t r) a b)))
      | _ \<Rightarrow> (- 1, h))"

definition builder_extend_translational ::
  "builder_handle option \<Rightarrow> dbl arr3 option \<Rightarrow> dbl arr4 option \<Rightarrow> dbl arr3 option \<Rightarrow> int \<times> builder_handle option" where
  "builder_extend_translational h xyz wxyz axis =
     (case (h, xyz, wxyz, axis) of
        (Some (Some b), Some t, Some r, Some a) \<Rightarrow> (0, Some (Some (extend_translating (origin_from t r) a b)))
      | _ \<Rightarrow> (- 1, h))"

text \<open>The builder is emptied before the chain is built, so it is spent even if that throws.\<close>

definition builder_build ::
  "builder_handle option \<Rightarrow> bool \<Rightarrow> chain option call_result res \<times> builder_handle option" where
  "builder_build h want_error =
     (let failed = (\<lambda>e. bind_res (caught want_error e) (\<lambda>m. Inr \<lparr>cr_value = None, cr_error = m\<rparr>))
      in case h of
           None \<Rightarrow> (failed (Invalid_argument ''builder is null''), h)
         | Some None \<Rightarrow> (failed (Invalid_argument ''builder has already been built''), h)
         | Some (Some b) \<Rightarrow>
             (case chain_build b of
                Inl e \<Rightarrow> (failed e, Some None)
              | Inr c \<Rightarrow> (Inr \<lparr>cr_value = Some c, cr_error = None\<rparr>, Some None)))"

definition chain_end_position ::
  "chain option \<Rightarrow> (nat \<Rightarrow> dbl) option \<Rightarrow> size_t \<Rightarrow> vec3 option \<Rightarrow> bool \<Rightarrow> int call_result res \<times> vec3 option" where
  "chain_end_position ch q n_q out want_error =
     (case bind_res (case ch of None \<Rightarrow> Inl (Invalid_argument ''chain is null'') | Some c \<Rightarrow> Inr c) (\<lambda>c.
           bind_res (if q = None \<and> n_q \<noteq> 0 then Inl (Invalid_argument ''q is null'') else Inr ()) (\<lambda>_.
           bind_res (if out = None then Inl (Invalid_argument ''out is null'') else Inr ()) (\<lambda>_.
           bind_res (finite_vector (map (case q of None \<Rightarrow> (\<lambda>_. 0) | Some f \<Rightarrow> f) [0..<unat n_q])) (\<lambda>joints.
             end_position c joints)))) of
        Inr position \<Rightarrow> (Inr \<lparr>cr_value = 0, cr_error = None\<rparr>, Some position)
      | Inl e \<Rightarrow> (bind_res (caught want_error e) (\<lambda>m. Inr \<lparr>cr_value = - 1, cr_error = m\<rparr>), out))"

section \<open>Streaming sessions\<close>

record session_handle =
  sh_session :: session
  sh_n_dof :: nat

definition build_streaming_session :: "tensor_map \<Rightarrow> chain option \<Rightarrow> session_handle res" where
  "build_streaming_session options ch =
     bind_res (require_vector options k_velocity_limits) (\<lambda>velocity_limits.
     let n_dof = length velocity_limits in
     bind_res (require_vector options k_acceleration_limits) (\<lambda>acceleration_limits.
     bind_res (require_size acceleration_limits k_acceleration_limits n_dof) (\<lambda>_.
     bind_res (require_scalar_input options k_path_tolerance) (\<lambda>path_tolerance.
     bind_res (require_scalar_input options k_sampling_freq) (\<lambda>sample_rate.
     bind_res (optional_scalar_input options k_colinearization_ratio k_default_colinearization_ratio) (\<lambda>ratio.
     bind_res (tcp_limits_for options ch n_dof) (\<lambda>tcp.
     bind_res (trajectory_options_for velocity_limits acceleration_limits tcp) (\<lambda>topts.
     bind_res (make_session (path_options_for path_tolerance ratio) topts sample_rate) (\<lambda>se.
       Inr \<lparr>sh_session = se, sh_n_dof = n_dof\<rparr>)))))))))"

definition streaming_session_create ::
  "chain option \<Rightarrow> tensor_map option \<Rightarrow> bool \<Rightarrow> session_handle option call_result res" where
  "streaming_session_create ch options want_error =
     (case bind_res (case options of None \<Rightarrow> Inl (Invalid_argument ''options is null'') | Some m \<Rightarrow> Inr m) (\<lambda>m.
           build_streaming_session m ch) of
        Inr h \<Rightarrow> Inr \<lparr>cr_value = Some h, cr_error = None\<rparr>
      | Inl e \<Rightarrow> bind_res (caught want_error e) (\<lambda>m. Inr \<lparr>cr_value = None, cr_error = m\<rparr>))"

fun to_capi_extend_kind :: "extend_kind \<Rightarrow> int" where
  "to_capi_extend_kind K_first_build = 0"
| "to_capi_extend_kind K_pivot = 1"
| "to_capi_extend_kind K_staged_branch_sampled = 2"
| "to_capi_extend_kind K_staged_unsamplable = 3"
| "to_capi_extend_kind K_staged_again = 4"
| "to_capi_extend_kind K_noop = 5"

definition seconds_to_capi :: "seconds option \<Rightarrow> dbl" where
  "seconds_to_capi v = (case v of None \<Rightarrow> NaN | Some t \<Rightarrow> t)"

text \<open>The values behind the three reporting pointers of \<open>extend\<close>, each of which may be null.\<close>

record extend_report =
  xr_kind :: "int option"
  xr_branch_slack :: "dbl option"
  xr_delta_total_duration :: "dbl option"

definition report_extend :: "extend_result \<Rightarrow> extend_report \<Rightarrow> extend_report" where
  "report_extend res report =
     \<lparr>xr_kind = map_option (\<lambda>_. to_capi_extend_kind (er_kind res)) (xr_kind report),
      xr_branch_slack = map_option (\<lambda>_. seconds_to_capi (er_branch_slack res)) (xr_branch_slack report),
      xr_delta_total_duration = map_option (\<lambda>_. er_delta_total_duration res) (xr_delta_total_duration report)\<rparr>"

definition extend_batch :: "session_handle \<Rightarrow> tensor_map option \<Rightarrow> waypoint_accumulator res" where
  "extend_batch h batch =
     bind_res (case batch of None \<Rightarrow> Inl (Invalid_argument ''batch is null'') | Some m \<Rightarrow> Inr m) (\<lambda>m.
     bind_res (require_matrix m k_waypoints) (\<lambda>waypoints.
       if fst (snd waypoints) \<noteq> sh_n_dof h
       then Inl (Invalid_argument ''waypoints_rads DOF does not match session DOF'')
       else bind_res (matrix_rows waypoints) wa_of_matrix))"

definition streaming_session_extend ::
  "session_handle option \<Rightarrow> tensor_map option \<Rightarrow> extend_report \<Rightarrow> bool \<Rightarrow>
     (int call_result res \<times> extend_report) \<times> session_handle option" where
  "streaming_session_extend handle batch report want_error =
     (let failed = (\<lambda>e. (bind_res (caught want_error e) (\<lambda>m. Inr \<lparr>cr_value = - 1, cr_error = m\<rparr>), report))
      in case handle of
           None \<Rightarrow> (failed (Invalid_argument ''session is null''), None)
         | Some h \<Rightarrow>
             (case extend_batch h batch of
                Inl e \<Rightarrow> (failed e, Some h)
              | Inr acc \<Rightarrow>
                  let (r, se) = session_extend (sh_session h) acc; h' = h\<lparr>sh_session := se\<rparr>
                  in (case r of
                        Inl e \<Rightarrow> (failed e, Some h')
                      | Inr res \<Rightarrow> ((Inr \<lparr>cr_value = 0, cr_error = None\<rparr>, report_extend res report), Some h'))))"

text \<open>A null handle is dereferenced here and in the getters, which read a field each.\<close>

definition streaming_session_start_staging :: "session_handle option \<Rightarrow> unit res \<times> session_handle option" where
  "streaming_session_start_staging handle =
     (case handle of
        None \<Rightarrow> (Inl (Undefined_behaviour ''null session''), None)
      | Some h \<Rightarrow> (Inr (), Some (h\<lparr>sh_session := start_staging (sh_session h)\<rparr>)))"

definition sampling_call ::
  "(session \<Rightarrow> traj_sample list res \<times> session) \<Rightarrow> session_handle option \<Rightarrow> tensor_map option \<Rightarrow> bool \<Rightarrow>
     (int call_result res \<times> tensor_map option) \<times> session_handle option" where
  "sampling_call f handle outputs want_error =
     (let failed = (\<lambda>e. (bind_res (caught want_error e) (\<lambda>m. Inr \<lparr>cr_value = - 1, cr_error = m\<rparr>), outputs))
      in case handle of
           None \<Rightarrow> (failed (Invalid_argument ''session is null''), None)
         | Some h \<Rightarrow>
             if outputs = None then (failed (Invalid_argument ''outputs is null''), Some h)
             else
               let (r, se) = f (sh_session h); h' = h\<lparr>sh_session := se\<rparr>
               in (case r of
                     Inl e \<Rightarrow> (failed e, Some h')
                   | Inr samples \<Rightarrow>
                       ((Inr \<lparr>cr_value = 0, cr_error = None\<rparr>, Some (materialize_samples samples (sh_n_dof h))), Some h')))"

definition streaming_session_sample_next where
  "streaming_session_sample_next handle n = sampling_call (\<lambda>se. sample_next se n) handle"

definition streaming_session_sample_at_least where
  "streaming_session_sample_at_least handle horizon = sampling_call (\<lambda>se. sample_at_least se horizon) handle"

definition session_current_time_sec :: "session_handle \<Rightarrow> dbl" where
  "session_current_time_sec h = se_current_time (sh_session h)"

definition session_generation_count :: "session_handle \<Rightarrow> nat" where
  "session_generation_count h = se_generation (sh_session h)"

definition session_has_active_trajectory :: "session_handle \<Rightarrow> int" where
  "session_has_active_trajectory h = (if se_active (sh_session h) = None then 0 else 1)"

definition session_active_duration_sec :: "session_handle \<Rightarrow> dbl" where
  "session_active_duration_sec h = (case se_active (sh_session h) of None \<Rightarrow> 0 | Some tr \<Rightarrow> tr_duration tr)"

definition session_remaining_active_duration_sec :: "session_handle \<Rightarrow> dbl" where
  "session_remaining_active_duration_sec h = remaining_active_duration (sh_session h)"

definition session_remaining_total_duration_sec :: "session_handle \<Rightarrow> dbl" where
  "session_remaining_total_duration_sec h = remaining_total_duration (sh_session h)"

end
