(* ===== verification/Capi_Safety.thy ===== *)
theory Capi_Safety
  imports Capi Session_Properties Chain_Properties
begin

text \<open>
  What the calls of the C interface rest on: the vectors of a sample have the dimension of the path, the
  loop that fills the outputs is the range over the samples, what the inputs of one-shot generation
  plan, and the invariant of a session's handle.
\<close>

section \<open>The size of a sample\<close>

definition sized :: "nat \<Rightarrow> traj_sample \<Rightarrow> bool" where
  "sized n smp \<longleftrightarrow> length (sm_configuration smp) = n \<and> length (sm_velocity smp) = n \<and> length (sm_acceleration smp) = n"

lemma path_component_length:
  assumes "path_inv p" "on_path p s" "path_component k p s = Inr q"
  shows "length q = path_dof p"
proof -
  obtain x where x: "s = Fin x" "0 \<le> x" "Fin x \<le> path_length p"
    using assms(1,2) path_length_finite [OF assms(1)] by (cases s) (auto simp: on_path_def)
  obtain g d where "segment_inv (path_dof p) g" "path_configuration p (Fin x) = Inr (segment_configuration g d)"
    "path_tangent p (Fin x) = Inr (segment_tangent g d)" "path_curvature p (Fin x) = Inr (segment_curvature g d)"
    using path_segment_there [OF assms(1) x(2,3)] by metis
  with assms(3) x(1) show ?thesis by (cases k) (auto simp: path_component_def segment_dof_inv)
qed

lemma sample_sized:
  assumes "traj_inv tr" "trajectory_sample tr t = Inr smp"
  shows "sized (path_dof (tr_path tr)) smp"
proof -
  have p: "path_inv (tr_path tr)" using assms(1) by (simp add: traj_inv_def)
  have "sample_of tr t = Inr smp" using assms by (simp add: trajectory_sample_eq split: if_splits)
  then obtain q q' q'' v a where s: "on_path (tr_path tr) (s_at tr t)" "path_component Configuration (tr_path tr) (s_at tr t) = Inr q"
    "path_component Tangent (tr_path tr) (s_at tr t) = Inr q'" "path_component Curvature (tr_path tr) (s_at tr t) = Inr q''"
    "joint_motion q' q'' (s_dot_at tr t) (ip_s_ddot (point_before tr t)) = Inr (v, a)"
    "sm_configuration smp = q" "sm_velocity smp = v" "sm_acceleration smp = a"
    by (auto simp: sample_of_def Let_def bind_res_eq_Inr split: if_splits)
  note len = path_component_length [OF p s(1)]
  have "length q = path_dof (tr_path tr)" "length q' = path_dof (tr_path tr)" "length q'' = path_dof (tr_path tr)"
    using len s(2-4) by blast+
  moreover have "length v = length q' \<and> length a = min (length q') (length q'')"
    using s(5) by (auto simp: joint_motion_def split: dbl.splits)
  ultimately show ?thesis using s(6-8) by (simp add: sized_def)
qed

lemma sample_all_Inr:
  "sample_all tr ts = Inr rows \<longleftrightarrow> length rows = length ts \<and> (\<forall>i < length ts. trajectory_sample tr (ts ! i) = Inr (rows ! i))"
proof (induction ts arbitrary: rows)
  case (Cons t ts)
  show ?case
    by (cases rows) (auto simp: bind_res_eq_Inr Cons.IH nth_Cons split: nat.splits)
qed auto

lemma sample_all_length: "sample_all tr ts = Inr rows \<Longrightarrow> length rows = length ts"
  by (simp add: sample_all_Inr)

section \<open>Filling the outputs\<close>

lemma advance_count:
  assumes "sampler_advance s c = Inr (moved, s', c')" "us_next_sample s \<le> us_num_samples s"
  shows "us_num_samples s' = us_num_samples s" "us_next_sample s' \<le> us_num_samples s"
    "moved \<Longrightarrow> unat (us_next_sample s') = Suc (unat (us_next_sample s))"
proof -
  have less: "us_next_sample s < us_num_samples s" if moved
    using assms that by (auto simp: sampler_advance_def order_less_le)
  have s': "s' = (if moved then s\<lparr>us_next_sample := us_next_sample s + 1\<rparr> else s)"
    using assms(1) by (auto simp: sampler_advance_def Let_def bind_res_eq_Inr split: if_splits)
  then show "us_num_samples s' = us_num_samples s" by simp
  show "us_next_sample s' \<le> us_num_samples s" using s' assms(2) less by (auto simp: inc_le)
  show "unat (us_next_sample s') = Suc (unat (us_next_sample s))" if moved
    using s' that size_succ [OF less [OF that]] by simp
qed

definition fill_inv :: "nat \<Rightarrow> uniform_sampler sampled_iterator \<times> traj_sample list \<Rightarrow> bool" where
  "fill_inv n = (\<lambda>(it, rows). us_next_sample (si_sampler it) \<le> us_num_samples (si_sampler it) \<and>
     unat (us_num_samples (si_sampler it)) = n \<and>
     (\<not> iterator_at_end it \<longrightarrow> unat (us_next_sample (si_sampler it)) = Suc (length rows)))"

lemma fill_step_counts:
  assumes "fill_or_disengage sampler_advance it = Inr it'" "us_next_sample (si_sampler it) \<le> us_num_samples (si_sampler it)"
  shows "us_num_samples (si_sampler it') = us_num_samples (si_sampler it)"
    "us_next_sample (si_sampler it') \<le> us_num_samples (si_sampler it)"
    "\<not> iterator_at_end it' \<Longrightarrow> unat (us_next_sample (si_sampler it')) = Suc (unat (us_next_sample (si_sampler it)))"
proof -
  obtain moved s c where adv: "sampler_advance (si_sampler it) (si_cursor it) = Inr (moved, s, c)"
    "si_sampler it' = s" "moved \<longleftrightarrow> \<not> iterator_at_end it'"
    using assms(1) by (auto simp: fill_or_disengage_def bind_res_eq_Inr iterator_at_end_def split: if_splits)
  note counts = advance_count [OF adv(1) assms(2)]
  show "us_num_samples (si_sampler it') = us_num_samples (si_sampler it)"
    "us_next_sample (si_sampler it') \<le> us_num_samples (si_sampler it)" using counts(1,2) adv(2) by simp_all
  show "unat (us_next_sample (si_sampler it')) = Suc (unat (us_next_sample (si_sampler it)))" if "\<not> iterator_at_end it'"
    using counts(3) adv(2,3) that by simp
qed

lemma fill_loop_collects:
  assumes "fill_inv n st"
  shows "loop_flow (fill_body n) st = loop_flow (collect_body sampler_advance) st"
proof (rule loop_flow_cong [of "fill_inv n"])
  show "fill_body n st = collect_body sampler_advance st" if "fill_inv n st" for st
  proof -
    have "unat (us_next_sample (si_sampler (fst st))) \<le> n" using that by (auto simp: fill_inv_def word_le_nat_alt)
    with that show ?thesis by (auto simp: fill_body_def fill_inv_def)
  qed
  show "fill_inv n st'" if "fill_inv n st" "collect_body sampler_advance st = Inr (Continue st')" for st st'
  proof -
    obtain it rows where st: "st = (it, rows)" by fastforce
    with that(2) obtain it' smp where it': "\<not> iterator_at_end it" "fill_or_disengage sampler_advance it = Inr it'" "st' = (it', rows @ [smp])"
      by (auto simp: collect_body_def bind_res_eq_Inr split: if_splits)
    with that(1) st fill_step_counts [OF it'(2)] show ?thesis by (auto simp: fill_inv_def)
  qed
qed (rule assms)

lemma fill_samples_collects:
  assumes "quantized_for_trajectory tr f start = Inr u" "samples_of tr u = Inr v"
  shows "fill_samples (unat (us_num_samples u)) v = bind_res (collect_samples sampler_advance v) (\<lambda>rows.
    if length rows \<noteq> unat (us_num_samples u) then Inl (Logic_error ''internal: sampler produced fewer samples than expected'') else Inr rows)"
proof (cases "sampled_begin sampler_advance v")
  case (Inr it)
  have u: "us_next_sample u = 0" using quantized_for_trajectory_Inr [OF assms(1)] by (metis uniform_sampler.select_convs(2))
  have v: "sv_sampler v = u" using assms(2) by (auto simp: samples_of_def bind_res_eq_Inr)
  have "fill_inv (unat (us_num_samples u)) (it, [])"
    using fill_step_counts [OF Inr [unfolded sampled_begin_def]] u v by (auto simp: fill_inv_def)
  then show ?thesis by (simp add: fill_samples_def collect_samples_def Inr fill_loop_collects)
qed (simp add: fill_samples_def collect_samples_def)

text \<open>The times of the samples of a motion of duration \<open>d\<close> at \<open>g\<close> samples a second.\<close>

definition even_times :: "real \<Rightarrow> real \<Rightarrow> seconds list" where
  "even_times d g = (let n = nat (\<lceil>d * g\<rceil> + 1) in map (\<lambda>i. Fin (real i / real (n - 1) * d)) [0..<n])"

lemma collected_rows:
  assumes "traj_inv tr" "quantized_for_trajectory tr f 0 = Inr u" "samples_of tr u = Inr v"
  obtains d g where "tr_duration tr = Fin d" "f = Fin g" "0 < d" "0 < g"
    "calculate_quantized_samples (tr_duration tr) f = Inr (us_num_samples u)" "us_num_samples u \<noteq> 0"
    "length (even_times d g) = unat (us_num_samples u)" "collect_samples sampler_advance v = sample_all tr (even_times d g)"
proof -
  obtain d g n where q: "tr_duration tr = Fin d" "f = Fin g" "0 < d" "calculate_quantized_samples (Fin d) (Fin g) = Inr n"
    "u = \<lparr>us_num_samples = n, us_next_sample = 0, us_start = Fin 0\<rparr>"
    using quantized_for_trajectory_Inr [OF assms(2)] by (metis diff_zero dbl.inject zero_Fin)
  note n = quantized_samples_Inr [OF q(4)]
  obtain a d' g' m where m: "0 = Fin a" "tr_duration tr = Fin d'" "f = Fin g'" "int m = \<lceil>(d' - a) * g'\<rceil> + 1"
    "collect_samples sampler_advance v = sample_all tr (map (\<lambda>i. Fin (a + real i / real (m - 1) * (d' - a))) [0..<m])"
    using quantized_range_samples [OF assms] by blast
  then have eqs: "a = 0" "d' = d" "g' = g" using q by auto
  then have "int m = int (unat n)" using m(4) n(3) by simp
  then have m': "m = unat n" by (simp only: of_nat_eq_iff)
  have n': "nat (\<lceil>d * g\<rceil> + 1) = unat n" using n(3) by (metis nat_int)
  have "collect_samples sampler_advance v = sample_all tr (even_times d g)"
    using m(5) by (simp add: even_times_def eqs m' n' Let_def)
  moreover have "length (even_times d g) = unat n" by (simp add: even_times_def n' Let_def)
  moreover have "n \<noteq> 0" using n(4) by auto
  ultimately show thesis using that q n(2) by simp
qed

lemma generated_rows:
  assumes "traj_inv tr" "quantized_for_trajectory tr f 0 = Inr u"
  obtains d g n v where "tr_duration tr = Fin d" "f = Fin g" "0 < d" "0 < g"
    "calculate_quantized_samples (tr_duration tr) f = Inr n" "n \<noteq> 0" "samples_of tr u = Inr v"
    "fill_samples (unat n) v = sample_all tr (even_times d g)"
proof -
  obtain c where "create_traj_cursor tr = Inr c" using create_traj_cursor_inv [OF assms(1)] by blast
  then obtain v where v: "samples_of tr u = Inr v" by (simp add: samples_of_def)
  obtain d g where r: "tr_duration tr = Fin d" "f = Fin g" "0 < d" "0 < g"
    "calculate_quantized_samples (tr_duration tr) f = Inr (us_num_samples u)" "us_num_samples u \<noteq> 0"
    "length (even_times d g) = unat (us_num_samples u)" "collect_samples sampler_advance v = sample_all tr (even_times d g)"
    by (rule collected_rows [OF assms v])
  have "fill_samples (unat (us_num_samples u)) v = sample_all tr (even_times d g)"
    using fill_samples_collects [OF assms(2) v] r(7,8) by (cases "sample_all tr (even_times d g)") (auto dest: sample_all_length)
  with that r(1-6) v show thesis by blast
qed

section \<open>Planning\<close>

definition last_row :: "nat \<times> nat \<times> dbl list \<Rightarrow> xvector" where
  "last_row = (\<lambda>(r, c, xs). map fin (take c (drop ((r - 1) * c) xs)))"

lemma matrix_accumulator:
  assumes "matrix_rows (r, c, xs) = Inr m" "wa_of_matrix m = Inr acc"
  shows "wa_inv acc" "wa_dof acc = c" "wa_points acc \<noteq> []" "last (wa_points acc) = last_row (r, c, xs)"
proof -
  have m: "r * c \<le> length xs" "m = \<lparr>m_rows = map (\<lambda>i. take c (drop (i * c) (map fin xs))) [0..<r], m_cols = c\<rparr>"
    using assms(1) by (auto simp: matrix_rows_def bind_res_eq_Inr finite_vector_def split: if_splits)
  have acc: "m_rows m \<noteq> []" "acc = \<lparr>wa_dof = c, wa_points = m_rows m\<rparr>"
    using assms(2) m(2) by (auto simp: wa_of_matrix_def split: if_splits)
  have row: "length (take c (drop (i * c) (map fin xs))) = c" if "i < r" for i
  proof -
    have "Suc i * c \<le> r * c" using that by (intro mult_le_mono1) simp
    with m(1) have "i * c + c \<le> length xs" by simp
    then show ?thesis by simp
  qed
  with acc m(2) show "wa_inv acc" "wa_dof acc = c" "wa_points acc \<noteq> []" by (auto simp: wa_inv_def)
  have "0 < r" using acc(1) m(2) by (cases r) auto
  then show "last (wa_points acc) = last_row (r, c, xs)"
    using acc(2) m(2) by (simp add: last_map last_row_def drop_map take_map)
qed

lemma require_vector_Inr: "require_vector inputs key = Inr xs \<Longrightarrow> inputs key = Some (F64_vector xs)"
  by (auto simp: require_tensor_def split: option.splits elim!: as_f64_vector.elims)

lemma require_matrix_Inr: "require_matrix inputs key = Inr (r, c, xs) \<Longrightarrow> inputs key = Some (F64_matrix r c xs)"
  by (auto simp: require_tensor_def split: option.splits elim!: as_f64_matrix.elims)

lemma tcp_limits_for_returns: "tcp_limits_for inputs ch n = Inr (Some tcp) \<Longrightarrow> \<exists>c m. ch = Some c \<and> tcp = tcp_limits_from c m"
  by (auto simp: tcp_limits_for_def bind_res_eq_Inr split: option.splits if_splits)

lemma options_for:
  assumes "tcp_limits_for inputs ch n = Inr tcp" "trajectory_options_for v a tcp = Inr opt" "n \<le> 10 ^ 12"
  shows "evaluator_returns opt" "(fin (to_epsilon opt))\<^sup>2 * real n \<le> 1"
proof -
  have o: "to_tcp opt = tcp" "to_epsilon opt = k_default_epsilon"
    using assms(2) by (auto simp: trajectory_options_for_def bind_res_eq_Inr)
  show "evaluator_returns opt"
  proof (rule tcp_limits_from_returns)
    fix t assume "to_tcp opt = Some t"
    with assms(1) o(1) have "tcp_limits_for inputs ch n = Inr (Some t)" by simp
    from tcp_limits_for_returns [OF this] show "\<exists>c m. t = tcp_limits_from c m" by blast
  qed
  have "real n \<le> 10 ^ 12" using assms(3) of_nat_mono [of n "10 ^ 12", where 'a = real] by simp
  then show "(fin (to_epsilon opt))\<^sup>2 * real n \<le> 1" by (simp add: o(2) k_default_epsilon_def power_divide)
qed

lemma path_end_configuration:
  assumes "path_inv p"
  shows "path_configuration p (path_length p) = Inr (end_configuration (ps_seg (last (path_segments p))))"
proof -
  obtain len where len: "path_length p = Fin len" "0 < len" using path_length_finite [OF assms] by blast
  let ?i = "path_size p - 1"
  have ne: "path_segments p \<noteq> []" using assms by (simp add: path_inv_def)
  then have l: "?i < path_size p" "last (path_segments p) = path_segments p ! ?i" "Suc ?i = path_size p"
    by (auto simp: path_size_def last_conv_nth)
  obtain xs e where xs: "length xs = length (path_segments p)" "path_length p = Fin e"
    "\<And>i. i < length xs \<Longrightarrow> ps_start (path_segments p ! i) = Fin (xs ! i) \<and> 0 \<le> xs ! i \<and> xs ! i < e"
    using path_positions [OF assms] by metis
  have i: "segment_index p (Fin len) = ?i"
    using xs(3) [of ?i] xs(1,2) l len by (intro segment_index_unique [OF assms]) (auto simp: path_size_def)
  obtain a where a: "ps_start (path_segments p ! ?i) = Fin a"
    "path_configuration p (Fin len) = Inr (segment_configuration (ps_seg (path_segments p ! ?i)) (len - a))"
    using path_query_result [OF assms, of len] len i by auto
  have "contiguous 0 (path_segments p) (path_length p)" using assms by (simp add: path_inv_def)
  from contiguous_nth [OF this, of ?i] l(1,3) have "path_length p = ps_start (path_segments p ! ?i) + segment_length (ps_seg (path_segments p ! ?i))"
    by (simp add: path_size_def)
  then have "segment_length (ps_seg (path_segments p ! ?i)) = Fin (len - a)"
    using a(1) len(1) by (cases "segment_length (ps_seg (path_segments p ! ?i))") auto
  then show ?thesis using a(2) len(1) l(2) by (simp add: end_configuration_def)
qed

lemma planned:
  assumes "totg_plan inputs ch = Inr (tr, n, f)" "n \<le> 10 ^ 12" "forward_motion tr"
  obtains r xs p opt where "inputs k_waypoints = Some (F64_matrix r n xs)" "path_inv p" "path_dof p = n"
    "sound_trajectory p opt tr" "traj_inv tr" "tr_path tr = p" "path_configuration p (path_length p) = Inr (last_row (r, n, xs))"
proof -
  obtain w where w: "require_matrix inputs k_waypoints = Inr w" "fst (snd w) = n"
    using assms(1) by (auto simp: totg_plan_def Let_def bind_res_eq_Inr)
  obtain m acc tol keep tcp p opt po v a where s: "matrix_rows w = Inr m" "wa_of_matrix m = Inr acc"
    "deduplicate_waypoints acc tol = Inr keep" "path_create keep po = Inr p"
    "tcp_limits_for inputs ch n = Inr tcp" "trajectory_options_for v a tcp = Inr opt" "trajectory_create p opt [] = Inr tr"
    using assms(1) w by (auto simp: totg_plan_def Let_def bind_res_eq_Inr)
  obtain r xs where rx: "w = (r, n, xs)" using w(2) by (cases w) auto
  then have "inputs k_waypoints = Some (F64_matrix r n xs)"
    using require_matrix_Inr w(1) by simp
  note acc = matrix_accumulator [OF s(1) [unfolded rx] s(2)]
  have keep: "keep = acc\<lparr>wa_points := thinned tol (wa_points acc)\<rparr>" using deduplicate_thinned [OF acc(1)] s(3) by simp
  have len: "\<forall>q \<in> set (wa_points keep). length q = n"
    using acc(1,2) list_emb_set [OF subseq_thinned [of tol "wa_points acc"]] by (fastforce simp: keep wa_inv_def)
  have "wa_dof keep = n" using acc(2) by (simp add: keep)
  then have keep': "keep = \<lparr>wa_dof = n, wa_points = wa_points keep\<rparr>" by simp
  have built: "build_rows po opt n (wa_points keep) = Inr tr" using s(4,7) keep' by (metis build_rows_def bind_res_simps(2))
  have p: "path_inv p" "path_dof p = n" "tr_path tr = p" "end_configuration (ps_seg (last (path_segments p))) = last (wa_points keep)"
  proof -
    obtain p' where p': "path_create \<lparr>wa_dof = n, wa_points = wa_points keep\<rparr> po = Inr p'" "path_inv p'" "path_dof p' = n"
      "tr_path tr = p'" "end_configuration (ps_seg (last (path_segments p'))) = last (wa_points keep)"
      by (rule build_rows_path [OF built len])
    then have "p' = p" using s(4) keep' by simp
    with p' show "path_inv p" "path_dof p = n" "tr_path tr = p"
      "end_configuration (ps_seg (last (path_segments p))) = last (wa_points keep)" by simp_all
  qed
  have "2 \<le> wa_size keep" using path_create_checks [of keep po] s(4) by simp
  then have "last (wa_points keep) = last_row (r, n, xs)"
    using last_thinned [of tol "wa_points acc"] acc(4) by (simp add: keep wa_size_def)
  with path_end_configuration [OF p(1)] p(4) have "path_configuration p (path_length p) = Inr (last_row (r, n, xs))" by simp
  moreover note opts = options_for [OF s(5,6) assms(2)]
  have "sound_trajectory p opt tr" by (rule created_sound [OF p(1) opts(1) _ s(7)]) (use opts(2) p(2) in simp)
  moreover from computed_inv [OF this p(1) assms(3)] have "traj_inv tr" .
  ultimately show thesis using that p(1-3) \<open>inputs k_waypoints = Some (F64_matrix r n xs)\<close> by blast
qed

section \<open>Sessions behind a handle\<close>

definition of_dof :: "nat \<Rightarrow> motion \<Rightarrow> bool" where
  "of_dof n m \<longleftrightarrow>
     (\<forall>tr. mo_active m = Some tr \<or> (\<exists>rows. mo_staging m = Some (rows, Some tr)) \<longrightarrow> traj_inv tr \<and> path_dof (tr_path tr) = n)"

lemma sized_at [simp]: "sized n (smp\<lparr>sm_time := t\<rparr>) \<longleftrightarrow> sized n smp"
  by (simp add: sized_def)

lemma sample_step_sized:
  assumes "sample_step m (Some smp) m'" "of_dof n m"
  shows "sized n smp" "of_dof n m'"
  using assms sample_sized by (auto simp: of_dof_def elim!: sample_stepE)

lemma sample_steps_sized:
  "sample_steps m out m' \<Longrightarrow> of_dof n m \<Longrightarrow> of_dof n m' \<and> (\<forall>smp \<in> set out. sized n smp)"
  by (induction rule: sample_steps.induct) (auto dest: sample_step_sized)

lemma session_trajectory_dof:
  assumes "session_wf se" "se_active se = Some tr \<or> staged_trajectory se = Some tr"
  shows "path_dof (tr_path tr) = ws_dof (se_waypoints se)"
proof -
  obtain rows where rows: "rows \<noteq> []" "\<forall>r \<in> set rows. length r = ws_dof (se_waypoints se)" "session_build se rows = Inr tr"
    by (rule session_trajectory_rows [OF assms])
  then have "length (hd rows) = ws_dof (se_waypoints se)" by simp
  with rows show ?thesis using build_rows_path [of "se_path_options se" _ "ws_dof (se_waypoints se)" rows tr] by metis
qed

text \<open>The width of the outputs is that of the session's waypoints.\<close>

definition handle_inv :: "session_handle \<Rightarrow> bool" where
  "handle_inv h \<longleftrightarrow> session_inv (sh_session h) \<and> 0 < sh_n_dof h \<and>
     (se_active (sh_session h) \<noteq> None \<longrightarrow> ws_dof (se_waypoints (sh_session h)) = sh_n_dof h)"

lemma handle_of_dof:
  assumes "handle_inv h"
  shows "of_dof (sh_n_dof h) (motion_of (sh_session h))"
proof -
  let ?se = "sh_session h"
  have inv: "session_wf ?se" "sampling_inv ?se" using assms by (auto simp: handle_inv_def session_inv_def)
  have "traj_inv tr \<and> path_dof (tr_path tr) = sh_n_dof h" if tr: "se_active ?se = Some tr \<or> staged_trajectory ?se = Some tr" for tr
  proof -
    have "usable tr \<and> se_active ?se \<noteq> None"
      using inv tr by (auto simp: sampling_inv_def session_wf_def staged_trajectory_def split: option.splits)
    with assms session_trajectory_dof [OF inv(1) tr] show ?thesis by (auto simp: handle_inv_def usable_traj_inv)
  qed
  then show ?thesis by (auto simp: of_dof_def staged_motion motion_of_def)
qed

lemma of_dof_handle:
  assumes "session_inv se" "of_dof n (motion_of se)" "0 < n"
  shows "handle_inv \<lparr>sh_session = se, sh_n_dof = n\<rparr>"
  using assms session_trajectory_dof [of se]
  by (auto simp: handle_inv_def session_inv_def of_dof_def motion_of_def)

lemma extend_step_hd:
  assumes "extend_step build period m ws res m'" "mo_active m \<noteq> None \<longrightarrow> mo_rows m \<noteq> []"
  shows "hd (mo_rows m') = (if mo_active m = None then hd ws else hd (mo_rows m))"
  using assms by (auto elim!: extend_stepE)

lemma extend_keeps_handle:
  assumes "handle_inv h" "wa_inv b" "wa_dof b = sh_n_dof h" "session_extend (sh_session h) b = (Inr res, se')" "admissible se'"
  shows "handle_inv (h\<lparr>sh_session := se'\<rparr>)"
proof -
  have inv: "session_inv (sh_session h)" "0 < wa_dof b" using assms(1,3) by (simp_all add: handle_inv_def)
  have wf: "session_wf (sh_session h)" using inv(1) by (simp add: session_inv_def)
  from extend_refines_lemma [OF wf assms(2) inv(2)] assms(4) have wf': "session_wf se'" by (simp add: refines_extend_def)
  note keep = extend_keeps_inv [OF inv(1) assms(2) inv(2) assms(4) admissible_usable [OF wf' assms(5)]]
  have ne: "wa_size b \<noteq> 0" using assms(4) by (auto simp: session_extend_def split: if_splits)
  have width: "ws_dof (se_waypoints se) = length (hd (mo_rows (motion_of se)))" if "session_wf se" "se_active se \<noteq> None" for se
    using that store_hd_dof [of "se_waypoints se"] by (auto simp: session_wf_def motion_of_def)
  have "hd (mo_rows (motion_of se')) = (if se_active (sh_session h) = None then hd (wa_points b) else hd (mo_rows (motion_of (sh_session h))))"
    using extend_step_hd [OF keep(3)] wf by (auto simp: motion_of_def session_wf_def)
  then have "ws_dof (se_waypoints se') = sh_n_dof h" if "se_active se' \<noteq> None"
    using width [OF wf' that] width [OF wf] wa_hd_dof [OF assms(2) ne] assms(1,3) by (auto simp: handle_inv_def)
  with keep(1) assms(1) show ?thesis by (simp add: handle_inv_def)
qed

lemma extend_batch_rows:
  assumes "extend_batch h batch = Inr acc"
  obtains r xs where "batch \<noteq> None" "the batch k_waypoints = Some (F64_matrix r (sh_n_dof h) xs)" "wa_inv acc"
    "wa_dof acc = sh_n_dof h" "wa_points acc \<noteq> []"
proof -
  obtain m r c xs where m: "batch = Some m" "require_matrix m k_waypoints = Inr (r, c, xs)" "c = sh_n_dof h"
    "bind_res (matrix_rows (r, c, xs)) wa_of_matrix = Inr acc"
    using assms by (auto simp: extend_batch_def bind_res_eq_Inr split: option.splits if_splits)
  then obtain w where w: "matrix_rows (r, c, xs) = Inr w" "wa_of_matrix w = Inr acc" by (auto simp: bind_res_eq_Inr)
  have "m k_waypoints = Some (F64_matrix r c xs)" using m(2) by (rule require_matrix_Inr)
  with that [of r xs] m(1,3) matrix_accumulator [OF w] show thesis by simp
qed

end
