(* ===== verification/Capi_Properties.thy ===== *)
theory Capi_Properties
  imports Capi_Safety
begin

text \<open>
  What the C interface promises: what is inserted is what a view shows, a call that fails changes no
  output, and the outputs of one-shot generation and of streaming have the documented shape.
\<close>

section \<open>Tensor maps\<close>

text \<open>The extents and the number of elements the arguments of an insertion name.\<close>

definition extents :: "size_t \<Rightarrow> (nat \<Rightarrow> size_t) \<Rightarrow> nat list" where
  "extents rank ds = map (\<lambda>i. unat (ds i)) [0..<unat rank]"

definition element_count :: "size_t \<Rightarrow> (nat \<Rightarrow> size_t) \<Rightarrow> nat" where
  "element_count rank ds = prod_list (extents rank ds)"

definition valid_insert :: "int \<Rightarrow> size_t \<Rightarrow> (nat \<Rightarrow> size_t) \<Rightarrow> bool" where
  "valid_insert dtype rank ds \<longleftrightarrow> dtype_is_valid dtype \<and> (rank = 1 \<or> rank = 2) \<and> 0 \<notin> set (extents rank ds)"

definition read_buffer :: "int \<Rightarrow> nat \<Rightarrow> buffer \<Rightarrow> elements" where
  "read_buffer dtype n buf =
     (if dtype = k_dtype_f64 then F64_elements (map (buf_f64 buf) [0..<n]) else I64_elements (map (buf_i64 buf) [0..<n]))"

lemma rank_cases: "\<not> (rank < 1 \<or> 2 < rank) \<longleftrightarrow> rank = 1 \<or> rank = 2" for rank :: size_t
proof -
  have "unat rank = unat (1 :: size_t) \<longleftrightarrow> rank = 1" "unat rank = unat (2 :: size_t) \<longleftrightarrow> rank = 2"
    by (rule word_unat_eq_iff [symmetric])+
  then show ?thesis by (auto simp: word_less_nat_alt)
qed

lemma size_zero: "n < 1 \<longleftrightarrow> n = 0" for n :: size_t
  by (simp add: word_less_nat_alt unat_eq_0)

lemma shape_indices: "[0..<unat (1 :: size_t)] = [0]" "[0..<unat (2 :: size_t)] = [0, 1]"
  by (simp_all add: upt_rec)

lemma extents_simps [simp]:
  "extents 1 ds = [unat (ds 0)]" "extents 2 ds = [unat (ds 0), unat (ds 1)]"
  by (simp_all only: extents_def shape_indices list.map)

text \<open>The count in \<open>size_t\<close> is that of the elements, unless it wraps.\<close>

definition wrapped_count :: "size_t \<Rightarrow> (nat \<Rightarrow> size_t) \<Rightarrow> size_t" where
  "wrapped_count rank ds = word_of_nat (element_count rank ds)"

lemma wrapped_count_simps:
  "wrapped_count 1 ds = ds 0" "wrapped_count 2 ds = ds 0 * ds 1"
  by (simp_all add: wrapped_count_def element_count_def)

lemma count_elements_spec:
  assumes "rank = 1 \<or> rank = 2"
  shows "count_elements (map ds [0..<unat rank]) 1 = (if 0 \<in> set (extents rank ds) then None else Some (wrapped_count rank ds))"
  using assms
  by (elim disjE; simp only: shape_indices extents_simps) (simp_all add: size_zero wrapped_count_simps unat_eq_0 conj_commute eq_commute [of 0])

lemma insert_eq:
  "tensor_map_insert heap (Some m) (Some k) dtype rank (Some ds) (Some buf) =
     (if valid_insert dtype rank ds \<and> heap (wrapped_count rank ds)
      then (0, Some (m(k \<mapsto> store_tensor dtype (map ds [0..<unat rank]) (wrapped_count rank ds * 8) buf)))
      else (- 1, Some m))"
proof (cases "rank = 1 \<or> rank = 2")
  case True
  then have r: "\<not> rank < 1" "\<not> 2 < rank" using rank_cases by blast+
  then show ?thesis using count_elements_spec [OF True, of ds] True
    by (simp add: tensor_map_insert_def valid_insert_def dtype_size_bytes_def dtype_is_valid_def Let_def)
next
  case False
  then have "rank < 1 \<or> 2 < rank" using rank_cases by blast
  with False show ?thesis by (auto simp: tensor_map_insert_def valid_insert_def)
qed

lemma wrapped_count_exact:
  assumes "element_count rank ds < 2 ^ 61"
  shows "unat (wrapped_count rank ds * 8) div 8 = element_count rank ds"
proof -
  have n: "unat (wrapped_count rank ds) = element_count rank ds"
    using assms size_of_nat [of "element_count rank ds"] by (simp add: wrapped_count_def)
  have "unat (wrapped_count rank ds) * unat (8 :: size_t) < 2 ^ LENGTH(64)" using assms by (simp add: n)
  then have "unat (wrapped_count rank ds * 8) = unat (wrapped_count rank ds) * unat (8 :: size_t)" by (rule unat_mult_lem [THEN iffD1])
  then show ?thesis by (simp add: n)
qed

lemma view_of_stored:
  assumes "valid_insert dtype rank ds" "element_count rank ds < 2 ^ 61"
  shows "view_of (store_tensor dtype (map ds [0..<unat rank]) (wrapped_count rank ds * 8) buf) =
    \<lparr>tv_dtype = dtype, tv_rank = unat rank, tv_dims = extents rank ds, tv_data = read_buffer dtype (element_count rank ds) buf\<rparr>"
proof -
  have "rank = 1 \<or> rank = 2" "dtype = k_dtype_f64 \<or> dtype = k_dtype_i64"
    using assms(1) by (auto simp: valid_insert_def dtype_is_valid_def)
  then show ?thesis using wrapped_count_exact [OF assms(2)]
    by (elim disjE; simp only: shape_indices) (simp_all add: store_tensor_def read_buffer_def k_dtype_f64_def k_dtype_i64_def Let_def
      element_count_def)
qed

text \<open>
  C14: An insertion into a tensor map returns 0 exactly when the element type is known, the rank is one or
  two, no extent is zero and the array can be allocated, and otherwise -1 with the map as it was. After
  a 0, a view of the key shows the type, the rank, the extents and the elements the caller passed,
  as long as they are fewer than \<open>2^61\<close>, and every other key shows what it did before.
\<close>

theorem tensor_map_roundtrip:
  assumes "tensor_map_insert heap (Some m) (Some k) dtype rank (Some ds) (Some buf) = (code, tensors)"
  shows "\<exists>m'. tensors = Some m' \<and>
    (if valid_insert dtype rank ds \<and> heap (wrapped_count rank ds) then code = 0 else code = - 1 \<and> m' = m) \<and>
    (code = 0 \<longrightarrow>
      (element_count rank ds < 2 ^ 61 \<longrightarrow>
         tensor_map_view tensors (Some k) True =
           (0, Some \<lparr>tv_dtype = dtype, tv_rank = unat rank, tv_dims = extents rank ds,
                     tv_data = read_buffer dtype (element_count rank ds) buf\<rparr>)) \<and>
      (\<forall>k'. k' \<noteq> k \<longrightarrow> tensor_map_view tensors (Some k') True = tensor_map_view (Some m) (Some k') True))"
  using assms view_of_stored [of dtype rank ds buf]
  by (auto simp: insert_eq tensor_map_view_def split: if_splits)

theorem tensor_map_roundtrip_witness:
  "tensor_map_view (snd (tensor_map_insert (\<lambda>_. True) (Some tensor_map_create) (Some ''waypoints_rads'') k_dtype_f64 2
       (Some ((!) [2, 3])) (Some (f64_buffer ((!) [0, 1, 2, 3, 4, 5]))))) (Some ''waypoints_rads'') True =
     (0, Some \<lparr>tv_dtype = k_dtype_f64, tv_rank = 2, tv_dims = [2, 3], tv_data = F64_elements [0, 1, 2, 3, 4, 5]\<rparr>)"
proof -
  let ?ds = "(!) [2, 3] :: nat \<Rightarrow> size_t" and ?buf = "f64_buffer ((!) [0, 1, 2, 3, 4, 5])"
  have v: "valid_insert k_dtype_f64 2 ?ds" by (simp add: valid_insert_def dtype_is_valid_def)
  have n: "element_count 2 ?ds = 6" by (simp add: element_count_def)
  obtain code tensors where t: "tensor_map_insert (\<lambda>_. True) (Some tensor_map_create) (Some ''waypoints_rads'') k_dtype_f64 2
       (Some ?ds) (Some ?buf) = (code, tensors)" by fastforce
  have "tensor_map_view tensors (Some ''waypoints_rads'') True =
      (0, Some \<lparr>tv_dtype = k_dtype_f64, tv_rank = 2, tv_dims = [2, 3], tv_data = read_buffer k_dtype_f64 6 ?buf\<rparr>)"
    using tensor_map_roundtrip [OF t] v n by auto
  then show ?thesis unfolding t by (simp add: read_buffer_def f64_buffer_def upt_rec)
qed

text \<open>Above \<open>2^64\<close> elements the count wraps: this insertion succeeds, and the view shows extents with no elements behind them.\<close>

lemma insert_wraps:
  "tensor_map_insert heap (Some m) (Some k) k_dtype_f64 2 (Some (\<lambda>_. 2 ^ 32)) (Some buf) =
     (if heap 0 then (0, Some (m(k \<mapsto> F64_matrix (2 ^ 32) (2 ^ 32) []))) else (- 1, Some m))"
proof -
  have "wrapped_count 2 (\<lambda>_. 2 ^ 32) = 2 ^ 64" by (simp only: wrapped_count_simps flip: power_add) simp
  also have "(2 :: size_t) ^ 64 = 0" by (rule exp_eq_zero_iff [THEN iffD2]) simp
  finally show ?thesis
    by (simp only: insert_eq) (simp add: valid_insert_def dtype_is_valid_def store_tensor_def shape_indices)
qed

section \<open>One-shot generation\<close>

text \<open>What a failed call gives back.\<close>

definition failed :: "bool \<Rightarrow> exn \<Rightarrow> 'a \<Rightarrow> 'a call_result res" where
  "failed want_error e code = bind_res (caught want_error e) (\<lambda>m. Inr \<lparr>cr_value = code, cr_error = m\<rparr>)"

definition succeeded :: "'a \<Rightarrow> 'a call_result res" where
  "succeeded v = Inr \<lparr>cr_value = v, cr_error = None\<rparr>"

definition sampled_motion :: "trajectory \<Rightarrow> nat \<Rightarrow> seconds list \<Rightarrow> traj_sample list \<Rightarrow> bool" where
  "sampled_motion tr n ts rows \<longleftrightarrow> length rows = length ts \<and>
     (\<forall>i < length ts. trajectory_sample tr (ts ! i) = Inr (rows ! i) \<and> sm_time (rows ! i) = ts ! i \<and> sized n (rows ! i))"

definition at_rest_at :: "xvector \<Rightarrow> traj_sample \<Rightarrow> bool" where
  "at_rest_at q smp \<longleftrightarrow> sm_configuration smp = q \<and> (\<forall>v \<in> set (sm_velocity smp). v = 0)"

lemma totg_generate_planned:
  "totg_generate ch (Some inputs) (Some outputs) want =
    (case totg_generate_impl inputs ch of Inl e \<Rightarrow> (failed want e (- 1), Some outputs) | Inr out \<Rightarrow> (succeeded 0, Some out))"
  by (cases "totg_generate_impl inputs ch") (simp_all add: totg_generate_def failed_def succeeded_def)

lemma even_times_last:
  assumes "0 < d" "0 < g"
  shows "even_times d g \<noteq> []" "last (even_times d g) = Fin d"
proof -
  have "0 < \<lceil>d * g\<rceil>" using assms by simp
  then obtain n where n: "nat (\<lceil>d * g\<rceil> + 1) = Suc n" "0 < n"
    using that [of "nat \<lceil>d * g\<rceil>"] by (simp add: nat_add_distrib)
  then show "even_times d g \<noteq> []" "last (even_times d g) = Fin d" unfolding even_times_def n(1) by simp_all
qed

lemma sample_all_Inl: "sample_all tr ts = Inl e \<Longrightarrow> \<exists>t \<in> set ts. trajectory_sample tr t = Inl e"
  by (induction ts) (auto simp: bind_res_eq_Inl)

lemma sample_all_last: "sample_all tr ts = Inr rows \<Longrightarrow> ts \<noteq> [] \<Longrightarrow> trajectory_sample tr (last ts) = Inr (last rows)"
  by (cases rows rule: rev_cases; cases ts rule: rev_cases) (auto simp: sample_all_Inr nth_append dest: spec [of _ "length ts - 1"])

lemma generate_outcome:
  assumes "totg_plan inputs ch = Inr (tr, n, f)" "traj_inv tr" "quantized_for_trajectory tr f 0 = Inr u"
  obtains d g where "tr_duration tr = Fin d" "f = Fin g" "0 < d" "0 < g"
    "totg_generate_impl inputs ch = bind_res (sample_all tr (even_times d g)) (\<lambda>rows. Inr (sample_tensors rows n))"
proof -
  obtain d g k v where r: "tr_duration tr = Fin d" "f = Fin g" "0 < d" "0 < g" "calculate_quantized_samples (tr_duration tr) f = Inr k"
    "k \<noteq> 0" "samples_of tr u = Inr v" "fill_samples (unat k) v = sample_all tr (even_times d g)"
    by (rule generated_rows [OF assms(2,3)])
  with assms(3) have "totg_generate_impl inputs ch = bind_res (sample_all tr (even_times d g)) (\<lambda>rows. Inr (sample_tensors rows n))"
    by (simp add: totg_generate_impl_def assms(1) del: zero_Fin)
  with that r(1-4) show thesis by blast
qed

text \<open>The sample at the duration stands at the end of the path.\<close>

lemma final_sample:
  assumes "sound_trajectory p opt tr" "path_inv p" "forward_motion tr" "trajectory_sample tr (tr_duration tr) = Inr smp"
    "path_configuration p (path_length p) = Inr q"
  shows "at_rest_at q smp"
  using assms(4) computed_sample_end [OF assms(1-3)]
  by (auto simp: assms(5) at_rest_at_def bind_res_eq_Inr vscale_def split: dbl.splits)

lemma planned_outcome:
  assumes plan: "totg_plan inputs ch = Inr (tr, n, f)" and hyps: "n \<le> 10 ^ 12" "forward_motion tr"
  shows "(\<exists>r xs d g rows. inputs k_waypoints = Some (F64_matrix r n xs) \<and> tr_duration tr = Fin d \<and> f = Fin g \<and> 0 < d \<and> 0 < g \<and>
          sampled_motion tr n (even_times d g) rows \<and> at_rest_at (last_row (r, n, xs)) (last rows) \<and>
          totg_generate ch (Some inputs) (Some outputs) want = (succeeded 0, Some (sample_tensors rows n))) \<or>
       (\<exists>e. (quantized_for_trajectory tr f 0 = Inl e \<or>
              (\<exists>d g. tr_duration tr = Fin d \<and> f = Fin g \<and> (\<exists>t \<in> set (even_times d g). trajectory_sample tr t = Inl e))) \<and>
          totg_generate ch (Some inputs) (Some outputs) want = (failed want e (- 1), Some outputs))"
proof -
    obtain r xs p opt where p: "inputs k_waypoints = Some (F64_matrix r n xs)" "path_inv p" "path_dof p = n" "sound_trajectory p opt tr"
      "traj_inv tr" "tr_path tr = p" "path_configuration p (path_length p) = Inr (last_row (r, n, xs))"
      by (rule planned [OF plan hyps])
    show ?thesis
    proof (cases "quantized_for_trajectory tr f 0")
      case q: (Inl e)
      then have "totg_generate_impl inputs ch = Inl e" by (simp add: totg_generate_impl_def plan del: zero_Fin)
      with q show ?thesis by (auto simp: totg_generate_planned)
    next
      case (Inr u)
      obtain d g where dg: "tr_duration tr = Fin d" "f = Fin g" "0 < d" "0 < g"
        "totg_generate_impl inputs ch = bind_res (sample_all tr (even_times d g)) (\<lambda>rows. Inr (sample_tensors rows n))"
        by (rule generate_outcome [OF plan p(5) Inr])
      show ?thesis
      proof (cases "sample_all tr (even_times d g)")
        case (Inl e)
        with dg sample_all_Inl [OF Inl] show ?thesis by (auto simp: totg_generate_planned)
      next
        case (Inr rows)
        have "sampled_motion tr n (even_times d g) rows"
          using Inr sample_sized [OF p(5)] trajectory_sample_time(1) [OF p(5)] p(3,6) by (auto simp: sampled_motion_def sample_all_Inr)
        moreover have "trajectory_sample tr (Fin d) = Inr (last rows)"
          using sample_all_last [OF Inr] even_times_last [OF dg(3,4)] by simp
        from final_sample [OF p(4,2) hyps(2) this [folded dg(1)] p(7)] have "at_rest_at (last_row (r, n, xs)) (last rows)" .
        ultimately show ?thesis using dg p(1) Inr by (auto simp: totg_generate_planned)
      qed
    qed
qed

text \<open>
  C11: One-shot generation. If the inputs do not make a plan, the call returns -1 with the message of what
  was thrown and leaves the outputs alone. If they do, and the trajectory goes forward, its outputs are exactly
  the four tensors of samples of that trajectory, one row each, at times evenly spaced
  from zero to the duration and as many as the frequency asks for; the last row is the last waypoint of the
  input, at rest. Otherwise no sampler can be made or a sample throws, and the outputs stay as they were; the
  two internal errors of the loop that fills them never occur.
\<close>

theorem totg_generate_spec:
  "case totg_plan inputs ch of
     Inl e \<Rightarrow> totg_generate ch (Some inputs) (Some outputs) want = (failed want e (- 1), Some outputs)
   | Inr (tr, n, f) \<Rightarrow> n \<le> 10 ^ 12 \<longrightarrow> forward_motion tr \<longrightarrow>
       (\<exists>r xs d g rows. inputs k_waypoints = Some (F64_matrix r n xs) \<and> tr_duration tr = Fin d \<and> f = Fin g \<and> 0 < d \<and> 0 < g \<and>
          sampled_motion tr n (even_times d g) rows \<and> at_rest_at (last_row (r, n, xs)) (last rows) \<and>
          totg_generate ch (Some inputs) (Some outputs) want = (succeeded 0, Some (sample_tensors rows n))) \<or>
       (\<exists>e. (quantized_for_trajectory tr f 0 = Inl e \<or>
              (\<exists>d g. tr_duration tr = Fin d \<and> f = Fin g \<and> (\<exists>t \<in> set (even_times d g). trajectory_sample tr t = Inl e))) \<and>
          totg_generate ch (Some inputs) (Some outputs) want = (failed want e (- 1), Some outputs))"
proof (cases "totg_plan inputs ch")
  case (Inl e)
  then show ?thesis by (simp add: totg_generate_planned totg_generate_impl_def)
next
  case (Inr plan)
  obtain tr n f where plan: "plan = (tr, n, f)" by (metis surj_pair)
  show ?thesis unfolding Inr plan sum.case prod.case using planned_outcome [OF Inr [unfolded plan]] by blast
qed

text \<open>The rail at the pace the default step of a millisecond needs.\<close>

definition quick_inputs :: tensor_map where
  "quick_inputs = [k_waypoints \<mapsto> F64_matrix 2 1 [0, Fin (5 / 2)], k_velocity_limits \<mapsto> F64_vector [Fin 10000],
     k_acceleration_limits \<mapsto> F64_vector [Fin 1000000], k_path_tolerance \<mapsto> F64_vector [0]]"

lemma quick_scale: "scale_ok 1000 (1 / 10 ^ 6)"
  by (simp add: scale_ok_def)

lemmas key_defs = k_waypoints_def k_velocity_limits_def k_acceleration_limits_def k_path_tolerance_def k_colinearization_ratio_def
  k_dedup_tolerance_def k_sampling_freq_def k_tcp_max_linear_speed_def

lemma quick_values:
  "quick_inputs k_waypoints = Some (F64_matrix 2 1 [0, Fin (5 / 2)])" "quick_inputs k_velocity_limits = Some (F64_vector [Fin 10000])"
  "quick_inputs k_acceleration_limits = Some (F64_vector [Fin 1000000])" "quick_inputs k_path_tolerance = Some (F64_vector [0])"
  "quick_inputs k_colinearization_ratio = None" "quick_inputs k_dedup_tolerance = None" "quick_inputs k_sampling_freq = None"
  "quick_inputs k_tcp_max_linear_speed = None"
  by (simp_all add: quick_inputs_def key_defs)

lemma rail_deduplicated: "deduplicate_waypoints rail_batch (1 / 10 ^ 5) = Inr rail_batch"
  using rail_batch_valid deduplicate_thinned [of rail_batch "1 / 10 ^ 5"]
  by (simp add: valid_batch_def thinned_def norm_linf_def vsub_def Let_def)

lemma quick_plan:
  assumes "trajectory_create rail (scaled_options 1000 (1 / 10 ^ 6)) [] = Inr tr"
  shows "totg_plan quick_inputs None = Inr (tr, 1, 100)"
proof -
  have rows: "matrix_rows (2, 1, [0, Fin (5 / 2)]) = Inr \<lparr>m_rows = [[0], [5 / 2]], m_cols = 1\<rparr>"
    by (simp add: matrix_rows_def finite_vector_def upt_rec)
  have opts: "path_options_for 0 k_default_colinearization_ratio = default_path_options"
    by (simp add: path_options_for_def set_max_blend_deviation_def default_path_options_def k_default_colinearization_ratio_def Let_def)
  have topts: "trajectory_options_for [Fin 10000] [Fin 1000000] None = Inr (scaled_options 1000 (1 / 10 ^ 6))"
    by (simp add: trajectory_options_for_def finite_vector_def scaled_options_def k_default_delta_def k_default_epsilon_def)
  have reads: "require_matrix quick_inputs k_waypoints = Inr (2, 1, [0, Fin (5 / 2)])"
    "require_vector quick_inputs k_velocity_limits = Inr [Fin 10000]"
    "require_vector quick_inputs k_acceleration_limits = Inr [Fin 1000000]"
    "require_scalar_input quick_inputs k_path_tolerance = Inr 0"
    "\<And>x. optional_scalar_input quick_inputs k_colinearization_ratio x = Inr x"
    "\<And>x. optional_scalar_input quick_inputs k_dedup_tolerance x = Inr x"
    "\<And>x. optional_scalar_input quick_inputs k_sampling_freq x = Inr x" "tcp_limits_for quick_inputs None 1 = Inr None"
    by (simp_all add: require_tensor_def require_scalar_input_def optional_scalar_input_def find_optional_tensor_def tcp_limits_for_def
        require_scalar_def quick_values)
  show ?thesis
    using assms rail_path rail_deduplicated
    by (simp add: totg_plan_def Let_def require_size_def wa_of_matrix_def finite_vector_def k_default_dedup_tolerance_def
        k_default_sampling_freq_hz_def reads [unfolded One_nat_def zero_Fin] rows [unfolded One_nat_def zero_Fin]
        opts [unfolded zero_Fin] topts)
qed

theorem totg_generate_spec_witness:
  "\<exists>rows. totg_generate None (Some quick_inputs) (Some tensor_map_create) True = (succeeded 0, Some (sample_tensors rows 1)) \<and>
     map sm_time rows = [0, Fin (7 / 2000)] \<and> sm_configuration (last rows) = [5 / 2]"
proof -
  obtain tr where tr: "trajectory_create rail (scaled_options 1000 (1 / 10 ^ 6)) [] = Inr tr" "forward_motion tr"
    "tr_duration tr = Fin (7 / 2000)"
    by (rule scaled_trajectory [OF quick_scale]) simp
  have times: "even_times (7 / 2000) 100 = [0, Fin (7 / 2000)]"
    by (simp add: even_times_def Let_def ceiling_unique [of 0] upt_rec)
  have sampler: "quantized_for_trajectory tr 100 0 \<noteq> Inl e" for e
    by (simp add: quantized_for_trajectory_def Let_def tr(3) quantized_samples_cases ceiling_unique [of 0])
  have samples: "trajectory_sample tr t \<noteq> Inl e" if "d * 2000 = 7" "t \<in> set (even_times d 100)" for d t e
  proof -
    have "d = 7 / 2000" using that(1) by simp
    with that(2) show ?thesis using scaled_sample [OF quick_scale tr(1), of 0] scaled_sample [OF quick_scale tr(1), of "7 / 2000"] by (auto simp: times)
  qed
  from totg_generate_spec [where inputs = quick_inputs and ch = None and outputs = tensor_map_create and want = True] obtain r xs d g rows where
    w: "quick_inputs k_waypoints = Some (F64_matrix r 1 xs)" "Fin (7 / 2000) = Fin d" "100 = Fin g"
    "sampled_motion tr 1 (even_times d g) rows" "at_rest_at (last_row (r, 1, xs)) (last rows)"
    "totg_generate None (Some quick_inputs) (Some tensor_map_create) True = (succeeded 0, Some (sample_tensors rows 1))"
    using sampler samples by (simp add: quick_plan [OF tr(1)] tr(2,3) del: zero_Fin One_nat_def) blast
  have "d = 7 / 2000" "g = 100" using w(2,3) by simp_all
  with times have "even_times d g = [0, Fin (7 / 2000)]" by (simp only:)
  then have "map sm_time rows = [0, Fin (7 / 2000)]"
    using w(4) by (auto simp: sampled_motion_def list_eq_iff_nth_eq)
  moreover have "sm_configuration (last rows) = [5 / 2]"
    using w(1,5) by (auto simp: quick_values at_rest_at_def last_row_def)
  ultimately show ?thesis using w(6) by (intro exI [of _ rows] conjI)
qed

section \<open>Streaming\<close>

text \<open>Outputs of the streaming schema: \<open>m\<close> rows of \<open>n\<close> columns.\<close>

definition shaped :: "nat \<Rightarrow> nat \<Rightarrow> tensor_map \<Rightarrow> bool" where
  "shaped m n outputs \<longleftrightarrow>
     (\<exists>ts. tensor_map_view (Some outputs) (Some k_sample_times) True =
        (0, Some \<lparr>tv_dtype = k_dtype_f64, tv_rank = 1, tv_dims = [m], tv_data = F64_elements ts\<rparr>) \<and> length ts = m) \<and>
     (\<forall>key \<in> {k_configurations, k_velocities, k_accelerations}. \<exists>xs. tensor_map_view (Some outputs) (Some key) True =
        (0, Some \<lparr>tv_dtype = k_dtype_f64, tv_rank = 2, tv_dims = [m, n], tv_data = F64_elements xs\<rparr>) \<and> length xs = m * n)"

lemma length_rows: "\<forall>q \<in> set qs. length q = n \<Longrightarrow> length (concat qs) = length qs * n"
  by (induction qs) auto

lemma sample_tensors_shaped:
  assumes "\<forall>smp \<in> set rows. sized n smp"
  shows "shaped (length rows) n (sample_tensors rows n)"
proof -
  have "length (concat (map sm_configuration rows)) = length rows * n" "length (concat (map sm_velocity rows)) = length rows * n"
    "length (concat (map sm_acceleration rows)) = length rows * n"
    using assms length_rows [of "map sm_configuration rows" n] length_rows [of "map sm_velocity rows" n]
      length_rows [of "map sm_acceleration rows" n] by (auto simp: sized_def)
  then show ?thesis
    by (simp add: shaped_def tensor_map_view_def sample_tensors_def k_sample_times_def k_configurations_def k_velocities_def k_accelerations_def)
qed

lemma sampling_call_outcome:
  assumes "handle_inv h" "sampling_call f (Some h) (Some outputs) want = ((r, outputs'), h')"
    "case f (sh_session h) of (Inl e, se') \<Rightarrow> sampling_failed (sh_session h) (e, se')
       | (Inr out, se') \<Rightarrow> session_inv se' \<and> sample_steps (motion_of (sh_session h)) out (motion_of se')"
  shows "\<exists>se'. h' = Some (h\<lparr>sh_session := se'\<rparr>) \<and>
    ((\<exists>out. f (sh_session h) = (Inr out, se') \<and>
        r = succeeded 0 \<and> outputs' = Some (sample_tensors out (sh_n_dof h)) \<and> shaped (length out) (sh_n_dof h) (the outputs') \<and>
        handle_inv (the h') \<and> sample_steps (motion_of (sh_session h)) out (motion_of se')) \<or>
     (\<exists>e. f (sh_session h) = (Inl e, se') \<and>
        sampling_failed (sh_session h) (e, se') \<and> r = failed want e (- 1) \<and> outputs' = Some outputs))"
proof -
  obtain x se' where f: "f (sh_session h) = (x, se')" by fastforce
  have h: "h\<lparr>sh_session := se'\<rparr> = \<lparr>sh_session = se', sh_n_dof = sh_n_dof h\<rparr>" by simp
  show ?thesis
  proof (cases x)
    case (Inl e)
    with assms(2,3) f show ?thesis by (auto simp: sampling_call_def failed_def Let_def)
  next
    case (Inr out)
    with assms(3) f have s: "session_inv se'" "sample_steps (motion_of (sh_session h)) out (motion_of se')" by simp_all
    note sized = sample_steps_sized [OF s(2) handle_of_dof [OF assms(1)]]
    have "shaped (length out) (sh_n_dof h) (sample_tensors out (sh_n_dof h))" using sized by (simp add: sample_tensors_shaped)
    moreover have "0 < sh_n_dof h" using assms(1) by (simp add: handle_inv_def)
    then have "handle_inv (h\<lparr>sh_session := se'\<rparr>)" unfolding h using sized by (intro of_dof_handle [OF s(1)]) simp_all
    moreover have "r = succeeded 0" "outputs' = Some (sample_tensors out (sh_n_dof h))" "h' = Some (h\<lparr>sh_session := se'\<rparr>)"
      using assms(2) f Inr by (simp_all add: sampling_call_def succeeded_def materialize_samples_def Let_def)
    ultimately show ?thesis using s(2) f Inr by (intro exI [of _ se'] conjI disjI1 exI [of _ out]) simp_all
  qed
qed

text \<open>
  C13: Sampling through a handle asks the session for so many samples, or for samples up to the horizon. A call that succeeds replaces the
  outputs by four tensors of the documented shape, no rows included, that carry the samples the session gives, and leaves the handle good.
  One that throws leaves the outputs as they were and reports what the sampling of a trajectory or its sampler threw; the samples it had
  taken before are lost: the handle keeps its width, and its session is well formed, with its settings, and where a sequence of abstract
  steps had brought it, at most with the staged trajectory already in the place of the active one. (That the sampler stands where the clock
  is, as after a call that succeeds, is not claimed then: it may have moved past the sample that threw.)
\<close>

theorem streaming_sampling_spec:
  assumes "handle_inv h"
    "streaming_session_sample_next (Some h) n (Some outputs) want = ((r, outputs'), h') \<or>
     streaming_session_sample_at_least (Some h) horizon (Some outputs) want = ((r, outputs'), h')"
  shows "\<exists>se'. h' = Some (h\<lparr>sh_session := se'\<rparr>) \<and>
    ((\<exists>out. (sample_next (sh_session h) n = (Inr out, se') \<or> sample_at_least (sh_session h) horizon = (Inr out, se')) \<and>
        r = succeeded 0 \<and> outputs' = Some (sample_tensors out (sh_n_dof h)) \<and> shaped (length out) (sh_n_dof h) (the outputs') \<and>
        handle_inv (the h') \<and> sample_steps (motion_of (sh_session h)) out (motion_of se')) \<or>
     (\<exists>e out m. (sample_next (sh_session h) n = (Inl e, se') \<or> sample_at_least (sh_session h) horizon = (Inl e, se')) \<and>
        sampling_error (sh_session h) e \<and> r = failed want e (- 1) \<and> outputs' = Some outputs \<and>
        session_wf se' \<and> same_settings (sh_session h) se' \<and> of_dof (sh_n_dof h) (motion_of se') \<and>
        sample_steps (motion_of (sh_session h)) out m \<and> (motion_of se' = m \<or> rebased m (motion_of se'))))"
proof -
  have inv: "session_inv (sh_session h)" using assms(1) by (simp add: handle_inv_def)
  have "case sample_next (sh_session h) n of (Inl e, se') \<Rightarrow> sampling_failed (sh_session h) (e, se')
      | (Inr out, se') \<Rightarrow> session_inv se' \<and> sample_steps (motion_of (sh_session h)) out (motion_of se')"
    using sample_next_loop_sampled [OF sampled_start [OF inv], of n]
    by (cases "sample_next_loop n [] (sh_session h)"; cases "fst (sample_next_loop n [] (sh_session h))")
      (simp_all add: sample_next_def sampled_to_def)
  note next' = this
  have "case sample_at_least (sh_session h) horizon of (Inl e, se') \<Rightarrow> sampling_failed (sh_session h) (e, se')
      | (Inr out, se') \<Rightarrow> session_inv se' \<and> sample_steps (motion_of (sh_session h)) out (motion_of se')"
  proof -
    obtain x se' where "iterate (sample_at_least_body (se_current_time (sh_session h) + horizon)) ([], sh_session h) = Some (x, se')"
      "horizon_reached (sh_session h) (se_current_time (sh_session h) + horizon) (x, se')"
      using sample_at_least_horizon [OF inv] by (metis surj_pair)
    then show ?thesis by (cases x) (auto simp: sample_at_least_def horizon_reached_def sampled_to_def)
  qed
  note ahead = this
  obtain f where f: "f = (\<lambda>se. sample_next se n) \<or> f = (\<lambda>se. sample_at_least se horizon)"
    "sampling_call f (Some h) (Some outputs) want = ((r, outputs'), h')"
    using assms(2) unfolding streaming_session_sample_next_def streaming_session_sample_at_least_def by metis
  have "case f (sh_session h) of (Inl e, se') \<Rightarrow> sampling_failed (sh_session h) (e, se')
      | (Inr out, se') \<Rightarrow> session_inv se' \<and> sample_steps (motion_of (sh_session h)) out (motion_of se')"
    using f(1) next' ahead by (elim disjE) simp_all
  from sampling_call_outcome [OF assms(1) f(2) this] obtain se' where
    h': "h' = Some (h\<lparr>sh_session := se'\<rparr>)" and
    "(\<exists>out. f (sh_session h) = (Inr out, se') \<and>
        r = succeeded 0 \<and> outputs' = Some (sample_tensors out (sh_n_dof h)) \<and> shaped (length out) (sh_n_dof h) (the outputs') \<and>
        handle_inv (the h') \<and> sample_steps (motion_of (sh_session h)) out (motion_of se')) \<or>
     (\<exists>e. f (sh_session h) = (Inl e, se') \<and>
        sampling_failed (sh_session h) (e, se') \<and> r = failed want e (- 1) \<and> outputs' = Some outputs)"
    by blast
  then show ?thesis
  proof (elim disjE exE conjE)
    fix out
    assume "f (sh_session h) = (Inr out, se')" "r = succeeded 0" "outputs' = Some (sample_tensors out (sh_n_dof h))"
      "shaped (length out) (sh_n_dof h) (the outputs')" "handle_inv (the h')"
      "sample_steps (motion_of (sh_session h)) out (motion_of se')"
    with f(1) h' show ?thesis by (intro exI [of _ se'] conjI disjI1 [of "\<exists>out. _ out"] exI [of _ out]) auto
  next
    fix e
    assume e: "f (sh_session h) = (Inl e, se')" "sampling_failed (sh_session h) (e, se')" "r = failed want e (- 1)"
      "outputs' = Some outputs"
    from e(2) obtain out m where m: "sampling_error (sh_session h) e" "session_wf se'" "same_settings (sh_session h) se'"
      "sample_steps (motion_of (sh_session h)) out m" "motion_of se' = m \<or> rebased m (motion_of se')"
      by (auto simp: sampling_failed_def)
    have "of_dof (sh_n_dof h) m" using sample_steps_sized [OF m(4) handle_of_dof [OF assms(1)]] by simp
    with m(5) have "of_dof (sh_n_dof h) (motion_of se')" by (auto simp: of_dof_def rebased_def)
    with f(1) h' e(1,3,4) m show ?thesis
      by (intro exI [of _ se'] conjI disjI2 [of _ "\<exists>e. _ e"] exI [of _ e] exI [of _ out] exI [of _ m]) auto
  qed
qed

text \<open>The session on the rail, behind a handle.\<close>

lemma rail_handle:
  obtains tr h where "handle_inv h" "sh_n_dof h = 1" "se_active (sh_session h) = Some tr" "se_staging (sh_session h) = None"
    "trajectory_create rail rail_options [] = Inr tr" "tr_duration tr = Fin (7 / 2)" "se_sample_rate (sh_session h) = Fin 2"
    "se_epoch (sh_session h) = 0" "se_current_time (sh_session h) = 0"
    "session_extend rail_session rail_batch = (Inr \<lparr>er_kind = K_first_build, er_branch_slack = None,
      er_delta_total_duration = Fin (7 / 2)\<rparr>, sh_session h)"
proof -
  obtain tr se where se: "session_extend rail_session rail_batch = (Inr \<lparr>er_kind = K_first_build, er_branch_slack = None,
      er_delta_total_duration = Fin (7 / 2)\<rparr>, se)" "se_active se = Some tr" "tr_duration tr = Fin (7 / 2)" "se_staging se = None"
    "trajectory_create rail rail_options [] = Inr tr" "session_inv se" "se_sample_rate se = Fin 2"
    "se_epoch se = 0" "se_current_time se = 0"
    by (rule rail_first_build)
  have "tr_path tr = rail" using created_sound [OF rail_inv(1,3,4) se(5)] by (simp add: sound_trajectory_def)
  moreover have "traj_inv tr" using se(2,6) by (simp add: session_inv_def sampling_inv_def usable_traj_inv)
  ultimately have "of_dof 1 (motion_of se)" by (simp add: of_dof_def motion_of_def se(2,4) rail_parts)
  then have "handle_inv \<lparr>sh_session = se, sh_n_dof = 1\<rparr>" by (intro of_dof_handle [OF se(6)]) simp_all
  with that [of "\<lparr>sh_session = se, sh_n_dof = 1\<rparr>" tr] se show thesis by simp
qed

theorem streaming_sampling_spec_witness:
  "\<exists>h outputs' h'. streaming_session_sample_next (Some h) 3 (Some tensor_map_create) True = ((succeeded 0, Some outputs'), Some h') \<and>
     (\<exists>m. shaped m 1 outputs') \<and> handle_inv h'"
proof -
  obtain tr h where h: "handle_inv h" "sh_n_dof h = 1" "se_active (sh_session h) = Some tr" "se_staging (sh_session h) = None"
    "trajectory_create rail rail_options [] = Inr tr" "tr_duration tr = Fin (7 / 2)" "se_sample_rate (sh_session h) = Fin 2"
    "se_epoch (sh_session h) = 0" "se_current_time (sh_session h) = 0"
    by (rule rail_handle)
  obtain r outputs' h' where c: "streaming_session_sample_next (Some h) 3 (Some tensor_map_create) True = ((r, outputs'), h')"
    by (metis surj_pair)
  have "\<not> sampling_error (sh_session h) e" for e by (rule rail_no_error [OF h(5,3,4,7)])
  with streaming_sampling_spec [where horizon = 0, OF h(1) disjI1 [OF c]] obtain se' out where "h' = Some (h\<lparr>sh_session := se'\<rparr>)" "r = succeeded 0"
    "outputs' = Some (sample_tensors out 1)" "shaped (length out) 1 (sample_tensors out 1)" "handle_inv (h\<lparr>sh_session := se'\<rparr>)"
    unfolding h(2) by auto
  with c show ?thesis by (intro exI [of _ h] exI [of _ "sample_tensors out 1"] exI [of _ "h\<lparr>sh_session := se'\<rparr>"] conjI
      exI [of _ "length out"]) simp_all
qed

text \<open>
  C12: Extending through a handle. A call that returns 0 is one abstract step of the session on the waypoints of the batch, a matrix of the
  session's width, and leaves the handle good if the trajectories it leads to are admissible; each reporting pointer that is not
  null gets the kind's code, the slack, \<open>NaN\<close> where there is none, or the change of the total duration. Otherwise the
  call returns -1 with the message of what was thrown, writes to none of the pointers, and leaves the handle and all that can be
  observed as they were, unless the sampler of the new trajectory could not be made.
\<close>

theorem streaming_extend_spec:
  assumes "handle_inv h" "streaming_session_extend (Some h) batch report want = ((r, report'), h')"
  shows "\<exists>se'. h' = Some (h\<lparr>sh_session := se'\<rparr>) \<and>
    ((\<exists>m rows cells acc res. batch = Some m \<and> m k_waypoints = Some (F64_matrix rows (sh_n_dof h) cells) \<and> extend_batch h batch = Inr acc \<and>
        r = succeeded 0 \<and>
        extend_step (session_build (sh_session h)) (se_sample_period (sh_session h)) (motion_of (sh_session h)) (wa_points acc) res (motion_of se') \<and>
        (admissible se' \<longrightarrow> handle_inv (the h')) \<and>
        xr_kind report' = map_option (\<lambda>_. to_capi_extend_kind (er_kind res)) (xr_kind report) \<and>
        xr_branch_slack report' = map_option (\<lambda>_. case er_branch_slack res of None \<Rightarrow> NaN | Some t \<Rightarrow> t) (xr_branch_slack report) \<and>
        xr_delta_total_duration report' = map_option (\<lambda>_. er_delta_total_duration res) (xr_delta_total_duration report)) \<or>
     (\<exists>e. r = failed want e (- 1) \<and> report' = report \<and>
        (handle_inv (the h') \<and> motion_of se' = motion_of (sh_session h) \<or> sampler_error (sh_session h) e)))"
proof (cases "extend_batch h batch")
  case (Inl e)
  with assms have "r = failed want e (- 1)" "report' = report" "h' = Some h"
    by (simp_all add: streaming_session_extend_def failed_def Let_def)
  with assms(1) show ?thesis by (intro exI [of _ "sh_session h"] conjI disjI2 [of _ "\<exists>e. _ e"] exI [of _ e]) simp_all
next
  case (Inr acc)
  obtain rows cells where b: "batch \<noteq> None" "the batch k_waypoints = Some (F64_matrix rows (sh_n_dof h) cells)" "wa_inv acc"
    "wa_dof acc = sh_n_dof h" "wa_points acc \<noteq> []"
    by (rule extend_batch_rows [OF Inr])
  have inv: "session_inv (sh_session h)" "0 < wa_dof acc" using assms(1) b(4) by (simp_all add: handle_inv_def)
  then have wf: "session_wf (sh_session h)" by (simp add: session_inv_def)
  obtain x se' where x: "session_extend (sh_session h) acc = (x, se')" by fastforce
  note ref = extend_refines_lemma [OF wf b(3) inv(2), unfolded x refines_extend_def fst_conv snd_conv]
  show ?thesis
  proof (cases x)
    case (Inl e)
    have h': "h' = Some (h\<lparr>sh_session := se'\<rparr>)" "r = failed want e (- 1)" "report' = report"
      using assms(2) Inr x Inl by (simp_all add: streaming_session_extend_def failed_def Let_def)
    have "handle_inv (h\<lparr>sh_session := se'\<rparr>) \<and> motion_of se' = motion_of (sh_session h)"
      if "session_wf se'" "session_view se' = session_view (sh_session h)"
      using view_keeps_inv [OF inv(1) that] handle_of_dof [OF assms(1)] assms(1) of_dof_handle [of se' "sh_n_dof h"]
      by (cases h) (simp add: handle_inv_def)
    with ref Inl h' show ?thesis
      by (intro exI [of _ se'] conjI disjI2 [of _ "\<exists>e. _ e"] exI [of _ e]) (auto simp: sampler_error_def)
  next
    case res: (Inr res)
    have h': "h' = Some (h\<lparr>sh_session := se'\<rparr>)" "r = succeeded 0" "report' = report_extend res report"
      using assms(2) Inr x res by (simp_all add: streaming_session_extend_def succeeded_def Let_def)
    have "admissible se' \<longrightarrow> handle_inv (h\<lparr>sh_session := se'\<rparr>)"
      using extend_keeps_handle [OF assms(1) b(3,4) x [unfolded res]] by blast
    with ref res h' b Inr show ?thesis
      by (intro exI [of _ se'] conjI disjI1 exI [of _ "the batch"] exI [of _ rows] exI [of _ cells] exI [of _ acc] exI [of _ res])
        (simp_all add: report_extend_def seconds_to_capi_def)
  qed
qed

definition fresh_handle :: session_handle where
  "fresh_handle = \<lparr>sh_session = rail_session, sh_n_dof = 1\<rparr>"

lemma handle_update_inject [simp]: "h\<lparr>sh_session := se\<rparr> = h\<lparr>sh_session := se'\<rparr> \<longleftrightarrow> se = se'"
  by (cases h) simp

lemma fresh_handle_inv: "handle_inv fresh_handle"
  unfolding fresh_handle_def
  by (rule of_dof_handle [OF rail_start_inv(1)]) (simp_all add: of_dof_def motion_of_def rail_session_def)

theorem streaming_extend_spec_witness:
  "\<exists>h'. streaming_session_extend (Some fresh_handle) (Some [k_waypoints \<mapsto> F64_matrix 2 1 [0, Fin (5 / 2)]])
       \<lparr>xr_kind = Some 9, xr_branch_slack = Some 0, xr_delta_total_duration = None\<rparr> True =
     ((succeeded 0, \<lparr>xr_kind = Some 0, xr_branch_slack = Some NaN, xr_delta_total_duration = None\<rparr>), Some h') \<and> handle_inv h'"
proof -
  let ?report = "\<lparr>xr_kind = Some 9, xr_branch_slack = Some 0, xr_delta_total_duration = None\<rparr>"
  define batch where "batch = Some [k_waypoints \<mapsto> F64_matrix 2 1 [0, Fin (5 / 2)]]"
  obtain se where se: "session_extend rail_session rail_batch = (Inr \<lparr>er_kind = K_first_build, er_branch_slack = None,
      er_delta_total_duration = Fin (7 / 2)\<rparr>, se)" "admissible se"
    by (rule rail_first_build)
  have b: "extend_batch fresh_handle batch = Inr rail_batch" "sh_session fresh_handle = rail_session"
    by (simp_all add: batch_def extend_batch_def fresh_handle_def require_tensor_def matrix_rows_def finite_vector_def wa_of_matrix_def upt_rec)
  obtain r report' h' where c: "streaming_session_extend (Some fresh_handle) batch ?report True = ((r, report'), h')" by (metis surj_pair)
  then have "r = succeeded 0" "report' = \<lparr>xr_kind = Some 0, xr_branch_slack = Some NaN, xr_delta_total_duration = None\<rparr>"
    "h' = Some (fresh_handle\<lparr>sh_session := se\<rparr>)"
    using se(1) by (simp_all add: streaming_session_extend_def b [unfolded One_nat_def] succeeded_def report_extend_def seconds_to_capi_def Let_def)
  moreover have "succeeded 0 \<noteq> failed True e (- 1 :: int)" for e
    by (cases "what e") (simp_all add: succeeded_def failed_def caught_def)
  ultimately show ?thesis using streaming_extend_spec [OF fresh_handle_inv c] se(2) c by (auto simp: batch_def)
qed

text \<open>
  Creation of a session. A null handle always comes with a message, where one is wanted, and a handle with none. A
  handle means that the limits are two vectors of the same length, finite, that the rate is positive and finite, that a chain, if there is one,
  has that many moving joints, and that a cap on the tool's speed came with a chain; the session is empty, as wide as the limits, and good.
\<close>

lemma session_create_spec:
  assumes "streaming_session_create ch (Some options) want = Inr r"
  shows "case cr_value r of
     None \<Rightarrow> (cr_error r \<noteq> None) = want
   | Some h \<Rightarrow> cr_error r = None \<and>
       (\<exists>v a rate. options k_velocity_limits = Some (F64_vector v) \<and> options k_acceleration_limits = Some (F64_vector a) \<and>
          options k_sampling_freq = Some (F64_vector [rate]) \<and> length a = length v \<and> list_all isfinite (v @ a) \<and>
          isfinite rate \<and> 0 < rate \<and> sh_n_dof h = length v \<and>
          (case ch of None \<Rightarrow> options k_tcp_max_linear_speed = None | Some c \<Rightarrow> chain_dof c = length v) \<and>
          se_sample_rate (sh_session h) = rate \<and> map fin v = to_max_velocity (se_trajectory_options (sh_session h)) \<and>
          (if v = [] then session_inv (sh_session h) else handle_inv h) \<and>
          mo_rows (motion_of (sh_session h)) = [] \<and> mo_active (motion_of (sh_session h)) = None)"
proof (cases "build_streaming_session options ch")
  case (Inl e)
  with assms show ?thesis by (cases "what e"; cases want) (auto simp: streaming_session_create_def caught_def)
next
  case (Inr h)
  obtain v a rate ratio tol tcp opt se where s: "require_vector options k_velocity_limits = Inr v"
    "require_vector options k_acceleration_limits = Inr a" "require_size a k_acceleration_limits (length v) = Inr ()"
    "require_scalar_input options k_sampling_freq = Inr rate" "tcp_limits_for options ch (length v) = Inr tcp"
    "trajectory_options_for v a tcp = Inr opt" "make_session (path_options_for tol ratio) opt rate = Inr se"
    "h = \<lparr>sh_session = se, sh_n_dof = length v\<rparr>"
    using Inr by (auto simp: build_streaming_session_def Let_def bind_res_eq_Inr)
  have r: "r = \<lparr>cr_value = Some h, cr_error = None\<rparr>" using assms Inr by (simp add: streaming_session_create_def)
  have v: "options k_velocity_limits = Some (F64_vector v)" "options k_acceleration_limits = Some (F64_vector a)"
    using s(1,2) require_vector_Inr by blast+
  have rate: "options k_sampling_freq = Some (F64_vector [rate])"
    using s(4) by (auto simp: require_scalar_input_def bind_res_eq_Inr require_scalar_def length_Suc_conv split: if_splits dest!: require_vector_Inr)
  have len: "length a = length v" using s(3) by (auto simp: require_size_def split: if_splits)
  have fin: "list_all isfinite (v @ a)" "to_max_velocity opt = map fin v"
    using s(6) by (auto simp: trajectory_options_for_def bind_res_eq_Inr finite_vector_def split: if_splits)
  have ch: "case ch of None \<Rightarrow> options k_tcp_max_linear_speed = None | Some c \<Rightarrow> chain_dof c = length v"
    using s(5) by (auto simp: tcp_limits_for_def bind_res_eq_Inr find_optional_tensor_def split: option.splits if_splits)
  have se: "isfinite rate" "0 < rate" "se_sample_rate se = rate" "se_trajectory_options se = opt"
    "store_rows (se_waypoints se) = []" "se_active se = None"
    using s(7) by (cases rate; auto simp: make_session_def validate_sample_rate_and_compute_period_def empty_store_inv split: if_splits)+
  have inv: "session_inv se" by (rule make_session_inv [OF s(7)])
  then have "if v = [] then session_inv se else handle_inv h" using se(6) s(8) by (simp add: handle_inv_def)
  then show ?thesis using r v rate len fin ch se s(8) by (auto simp: motion_of_def)
qed

lemma session_create_spec_witness:
  "\<exists>h. streaming_session_create None (Some (quick_inputs(k_sampling_freq \<mapsto> F64_vector [Fin 2]))) True =
     Inr \<lparr>cr_value = Some h, cr_error = None\<rparr> \<and> handle_inv h \<and> sh_n_dof h = 1"
proof -
  define options where "options = quick_inputs(k_sampling_freq \<mapsto> F64_vector [Fin 2])"
  have entries: "options k_velocity_limits = Some (F64_vector [Fin 10000])" "options k_acceleration_limits = Some (F64_vector [Fin 1000000])"
    "options k_path_tolerance = Some (F64_vector [0])" "options k_colinearization_ratio = None"
    "options k_sampling_freq = Some (F64_vector [Fin 2])" "options k_tcp_max_linear_speed = None"
    by (simp_all add: options_def quick_inputs_def key_defs)
  then have "\<exists>h. build_streaming_session options None = Inr h"
    by (simp add: build_streaming_session_def require_tensor_def require_scalar_input_def optional_scalar_input_def find_optional_tensor_def
        tcp_limits_for_def require_scalar_def require_size_def trajectory_options_for_def finite_vector_def make_session_def
        validate_sample_rate_and_compute_period_def Let_def)
  then obtain h where c: "streaming_session_create None (Some options) True = Inr \<lparr>cr_value = Some h, cr_error = None\<rparr>"
    by (auto simp: streaming_session_create_def)
  with session_create_spec [OF c] entries(1) show ?thesis unfolding options_def [symmetric] by (auto split: if_splits)
qed

section \<open>Building chains\<close>

fun add_joint :: "joint_call \<Rightarrow> builder_handle option \<Rightarrow> int \<times> builder_handle option" where
  "add_joint (Extend_fixed origin) h = builder_extend_fixed h (Some (jo_translation origin)) (Some (jo_rotation origin))"
| "add_joint (Extend_rotating origin axis) h =
     builder_extend_rotational h (Some (jo_translation origin)) (Some (jo_rotation origin)) (Some axis)"
| "add_joint (Extend_translating origin axis) h =
     builder_extend_translational h (Some (jo_translation origin)) (Some (jo_rotation origin)) (Some axis)"

text \<open>The codes of a sequence of calls, and the handle it leads to.\<close>

fun add_joints :: "joint_call list \<Rightarrow> builder_handle option \<Rightarrow> int list \<times> builder_handle option" where
  "add_joints [] h = ([], h)"
| "add_joints (j # js) h =
     (let (code, h1) = add_joint j h; (codes, h2) = add_joints js h1 in (code # codes, h2))"

lemma add_joints_live:
  "\<exists>joints. add_joints js (Some (Some b)) = (replicate (length js) 0, Some (Some (b @ joints))) \<and> map visit_joint joints = js"
proof (induction js arbitrary: b)
  case (Cons j js)
  obtain joint where j: "add_joint j (Some (Some b)) = (0, Some (Some (b @ [joint])))" "visit_joint joint = j"
    by (cases j) (auto simp: builder_extend_fixed_def builder_extend_rotational_def builder_extend_translational_def origin_from_def
        extend_fixed_def extend_rotating_def extend_translating_def)
  moreover obtain joints where "add_joints js (Some (Some (b @ [joint]))) = (replicate (length js) 0, Some (Some ((b @ [joint]) @ joints)))"
    "map visit_joint joints = js"
    using Cons.IH by blast
  ultimately show ?case by (intro exI [of _ "joint # joints"]) simp
qed simp

lemma add_joints_spent: "add_joints js (Some None) = (replicate (length js) (- 1), Some None)"
proof (induction js)
  case (Cons j js)
  then show ?case by (cases j) (auto simp: builder_extend_fixed_def builder_extend_rotational_def builder_extend_translational_def)
qed simp

text \<open>
  The life of a chain builder. Joints can be added until it is built; building gives a chain with exactly those joints in that order
  if there is one and all of them are good, and otherwise null with the message of a \<open>std::invalid_argument\<close>. Either way the builder is
  spent: every later joint is refused, and building it again fails.
\<close>

lemma builder_lifecycle:
  "\<exists>h. add_joints js (Some chain_builder_create) = (replicate (length js) 0, h) \<and>
     (\<exists>r. builder_build h want = (r, Some None) \<and>
        (if js \<noteq> [] \<and> list_all good_joint js
         then \<exists>c. r = succeeded (Some c) \<and> visit_joints c = js
         else \<exists>m. r = failed want (Invalid_argument m) None)) \<and>
     add_joints later (Some None) = (replicate (length later) (- 1), Some None) \<and>
     builder_build (Some None) want' = (failed want' (Invalid_argument ''builder has already been built'') None, Some None)"
proof -
  obtain joints where j: "add_joints js (Some chain_builder_create) = (replicate (length js) 0, Some (Some joints))"
    "map visit_joint joints = js"
    using add_joints_live [of js "[]"] by (auto simp: chain_builder_create_def)
  have "js = [] \<longleftrightarrow> joints = []" "list_all good_joint js \<longleftrightarrow> list_all (good_joint \<circ> visit_joint) joints"
    using j(2) by (auto simp: list_all_iff)
  with j chain_build_spec [of joints] show ?thesis
    by (cases "chain_build joints")
      (auto simp: builder_build_def add_joints_spent failed_def succeeded_def Let_def list_all_length)
qed

end
