(* ===== verification/Planner.thy ===== *)
theory Planner
  imports Chain Session
begin

text \<open>
  The planning workflow (\<open>totg/tools/planner.{hpp,cpp}\<close>) and what it takes from the legacy tools
  (\<open>totg/tools/legacy.{hpp,cpp}\<close>). A planner is configured with handlers and executed once: it provides and cleans
  the waypoints, splits them into segments, runs the two generators over the segments and hands both outcomes to a decider.
  Handlers are functions on a world \<open>'w\<close> that stands for whatever they touch other than the planner itself, which they do not
  register handlers with; the legacy generator is third-party code and a parameter, and a build without it is a planner that has
  not registered it. The wall-clock times the planner notes, the values it keeps alive for its handlers and the observer it passes
  on are left out.
\<close>

section \<open>Configuration\<close>

record planner_config =
  pc_velocity_limits :: xvector
  pc_acceleration_limits :: xvector
  pc_path_blend_tolerance :: dbl
  pc_colinearization_ratio :: "dbl option"
  pc_min_blend_curvature :: "dbl option"
  pc_max_blend_curvature :: "dbl option"
  pc_segment_totg :: bool
  pc_kinematics_chain :: "chain option"
  pc_tcp_max_linear_speed :: "dbl option"

definition planner_base :: "planner_config \<Rightarrow> planner_config res" where
  "planner_base cfg =
     (if pc_tcp_max_linear_speed cfg \<noteq> None \<and> pc_kinematics_chain cfg = None
      then Inl (Invalid_argument ''planner config tcp_max_linear_speed requires kinematics_chain'')
      else case pc_kinematics_chain cfg of
             Some c \<Rightarrow>
               if chain_dof c \<noteq> length (pc_velocity_limits cfg)
               then Inl (Invalid_argument (''planner config kinematics_chain has '' @ string_of_size (chain_dof c) @
                      '' rotating or translating joints, but the joint limits describe '' @
                      string_of_size (length (pc_velocity_limits cfg))))
               else Inr cfg
           | None \<Rightarrow> Inr cfg)"

definition planner_path_options :: "planner_config \<Rightarrow> path_options" where
  "planner_path_options cfg =
     (let path_opts = set_max_blend_deviation (pc_path_blend_tolerance cfg) default_path_options;
          path_opts = (case pc_colinearization_ratio cfg of None \<Rightarrow> path_opts
            | Some r \<Rightarrow> set_max_linear_deviation (pc_path_blend_tolerance cfg * r) path_opts);
          path_opts = (case pc_min_blend_curvature cfg of None \<Rightarrow> path_opts | Some c \<Rightarrow> set_min_blend_curvature c path_opts)
      in case pc_max_blend_curvature cfg of None \<Rightarrow> path_opts | Some c \<Rightarrow> set_max_blend_curvature c path_opts)"

text \<open>Taking the chain out of an empty optional throws; the constructor has excluded it.\<close>

definition planner_trajectory_options :: "planner_config \<Rightarrow> traj_options res" where
  "planner_trajectory_options cfg =
     bind_res
       (case pc_tcp_max_linear_speed cfg of
          None \<Rightarrow> Inr None
        | Some cap \<Rightarrow>
            (case pc_kinematics_chain cfg of
               None \<Rightarrow> Inl (Logic_error ''bad optional access'')
             | Some c \<Rightarrow> Inr (Some (tcp_limits_from c cap))))
       (\<lambda>tcp. Inr \<lparr>to_max_velocity = pc_velocity_limits cfg, to_max_acceleration = pc_acceleration_limits cfg,
                   to_delta = k_default_delta, to_epsilon = k_default_epsilon, to_tcp = tcp\<rparr>)"

section \<open>Legacy tools\<close>

definition within_colinearization_tolerance :: "xvector \<Rightarrow> xvector \<Rightarrow> xvector \<Rightarrow> dbl \<Rightarrow> bool" where
  "within_colinearization_tolerance point line_start line_end tolerance =
     (let start_to_end = vsub line_end line_start
      in if list_all (\<lambda>c. c = 0) start_to_end then False
         else
           let start_to_point = vsub point line_start;
               start_to_end_sq = dot start_to_end start_to_end;
               projection_dot = dot start_to_point start_to_end
           in if projection_dot < 0 \<or> start_to_end_sq < projection_dot then False
              else
                let t = projection_dot / start_to_end_sq;
                    projected_point = vadd line_start (vscale t start_to_end);
                    deviation_sq = dot (vsub point projected_point) (vsub point projected_point);
                    radius = divide tolerance 2
                in Fin deviation_sq \<le> radius * radius)"

text \<open>
  The list is edited in place: the waypoints between the anchor and the locus, which are in \<open>skipped\<close>, are erased when the
  locus becomes the next anchor. The result is what is left after the anchor.
\<close>

fun colinearization_scan :: "dbl \<Rightarrow> xvector \<Rightarrow> xvector list \<Rightarrow> xvector list \<Rightarrow> xvector list" where
  "colinearization_scan tolerance anchor skipped (locus # following # rest) =
     (if list_all (\<lambda>c. c = 0) (vsub anchor following)
      then locus # colinearization_scan tolerance locus [] (following # rest)
      else if within_colinearization_tolerance locus anchor following tolerance \<and>
              list_all (\<lambda>p. within_colinearization_tolerance p anchor following tolerance) skipped
      then colinearization_scan tolerance anchor (skipped @ [locus]) (following # rest)
      else locus # colinearization_scan tolerance locus [] (following # rest))"
| "colinearization_scan tolerance anchor skipped [locus] = [locus]"
| "colinearization_scan tolerance anchor skipped [] = skipped"

definition apply_colinearization :: "xvector list \<Rightarrow> dbl \<Rightarrow> xvector list" where
  "apply_colinearization waypoints tolerance =
     (if length waypoints \<le> 2 \<or> tolerance \<le> 0 then waypoints
      else hd waypoints # colinearization_scan tolerance (hd waypoints) [] (tl waypoints))"

text \<open>The times and the step at which \<open>f\<close> is called, in order.\<close>

definition k_max_samples :: nat where "k_max_samples = 1000000"

definition for_each_sample :: "dbl \<Rightarrow> dbl \<Rightarrow> (dbl \<times> dbl) list res" where
  "for_each_sample duration_sec sampling_frequency_hz =
     (if duration_sec \<le> 0 \<or> sampling_frequency_hz \<le> 0
      then Inl (Invalid_argument ''duration_sec and sampling_frequency_hz are not both positive'')
      else
        let putative_samples = duration_sec * sampling_frequency_hz
        in if \<not> isfinite putative_samples \<or> Fin (real k_max_samples) < putative_samples
           then Inl (Invalid_argument ''duration_sec and sampling_frequency_hz exceed the maximum allowable samples'')
           else
             let num_samples = nat (\<lceil>fin putative_samples\<rceil> + 1);
                 step = divide duration_sec (Fin (real (num_samples - 1)))
             in Inr (map (\<lambda>i. (Fin (real i) * step, step)) [1..<num_samples - 1] @ [(duration_sec, step)]))"

section \<open>The planner\<close>

text \<open>
  What is registered for one algorithm. The success handler folds a result into the receiver, which it may have changed when it
  throws; the failure handler, if there is one, sees the receiver, the segment and the exception.
\<close>

record ('r, 't, 'w) algorithm =
  al_on_success :: "'r \<Rightarrow> waypoint_accumulator \<Rightarrow> 't \<Rightarrow> 'w \<Rightarrow> (unit res \<times> 'r) \<times> 'w"
  al_on_failure :: "('r \<Rightarrow> waypoint_accumulator \<Rightarrow> exn \<Rightarrow> 'w \<Rightarrow> unit res \<times> 'w) option"

record ('r, 'l, 'w) planner =
  pl_config :: planner_config
  pl_processed_waypoint_count :: nat
  pl_waypoint_provider :: "('w \<Rightarrow> waypoint_accumulator res \<times> 'w) option"
  pl_preprocessor :: "(waypoint_accumulator \<Rightarrow> 'w \<Rightarrow> waypoint_accumulator res \<times> 'w) option"
  pl_validator :: "(waypoint_accumulator \<Rightarrow> 'w \<Rightarrow> unit res \<times> 'w) option"
  pl_segmenter :: "(waypoint_accumulator \<Rightarrow> 'w \<Rightarrow> waypoint_accumulator list res \<times> 'w) option"
  pl_totg :: "('r, trajectory, 'w) algorithm option"
  pl_legacy :: "('r, 'l, 'w) algorithm option"

definition make_planner :: "planner_config \<Rightarrow> ('r, 'l, 'w) planner res" where
  "make_planner cfg =
     bind_res (planner_base cfg) (\<lambda>c. Inr \<lparr>pl_config = c, pl_processed_waypoint_count = 0, pl_waypoint_provider = None,
       pl_preprocessor = None, pl_validator = None, pl_segmenter = None, pl_totg = None, pl_legacy = None\<rparr>)"

definition with_waypoint_provider where
  "with_waypoint_provider f p = p\<lparr>pl_waypoint_provider := Some f\<rparr>"

definition with_waypoint_preprocessor where
  "with_waypoint_preprocessor f p = p\<lparr>pl_preprocessor := Some f\<rparr>"

definition with_move_validator where
  "with_move_validator f p = p\<lparr>pl_validator := Some f\<rparr>"

definition with_segmenter where
  "with_segmenter f p = p\<lparr>pl_segmenter := Some f\<rparr>"

definition with_totg where
  "with_totg on_success on_failure p = p\<lparr>pl_totg := Some \<lparr>al_on_success = on_success, al_on_failure = on_failure\<rparr>\<rparr>"

definition with_legacy where
  "with_legacy on_success on_failure p =
     (if pc_tcp_max_linear_speed (pl_config p) \<noteq> None
      then Inl (Logic_error (''planner: cannot register the legacy generator with a TCP speed limit set; '' @
             ''the legacy generator cannot enforce a TCP limit''))
      else Inr (p\<lparr>pl_legacy := Some \<lparr>al_on_success = on_success, al_on_failure = on_failure\<rparr>\<rparr>))"

section \<open>Running an algorithm over the segments\<close>

record 'r algorithm_outcome =
  oc_receiver :: "'r option"
  oc_error :: "exn option"

definition no_outcome :: "'r algorithm_outcome" where
  "no_outcome = \<lparr>oc_receiver = None, oc_error = None\<rparr>"

text \<open>What fails on a segment is caught, given to the failure handler and recorded, and ends the loop.\<close>

definition segment_failed ::
  "('r, 't, 'w) algorithm \<Rightarrow> 'r \<Rightarrow> waypoint_accumulator \<Rightarrow> exn \<Rightarrow> 'w \<Rightarrow> 'r algorithm_outcome res \<times> 'w" where
  "segment_failed al receiver seg e w =
     (if what e = None then (Inl e, w)
      else then_do (case al_on_failure al of None \<Rightarrow> (Inr (), w) | Some f \<Rightarrow> f receiver seg e w)
             (\<lambda>_ w'. (Inr \<lparr>oc_receiver = None, oc_error = Some e\<rparr>, w')))"

fun run_segments ::
  "(waypoint_accumulator \<Rightarrow> 't res) \<Rightarrow> ('r, 't, 'w) algorithm \<Rightarrow> waypoint_accumulator list \<Rightarrow> 'r \<Rightarrow> 'w \<Rightarrow>
     'r algorithm_outcome res \<times> 'w" where
  "run_segments generate al [] receiver w = (Inr \<lparr>oc_receiver = Some receiver, oc_error = None\<rparr>, w)"
| "run_segments generate al (seg # segments) receiver w =
     (case generate seg of
        Inl e \<Rightarrow> segment_failed al receiver seg e w
      | Inr traj \<Rightarrow>
          let ((x, receiver'), w') = al_on_success al receiver seg traj w
          in (case x of
                Inl e \<Rightarrow> segment_failed al receiver' seg e w'
              | Inr _ \<Rightarrow> run_segments generate al segments receiver' w'))"

definition run_algorithm where
  "run_algorithm generate al fresh segments w =
     (case al of None \<Rightarrow> (Inr no_outcome, w) | Some a \<Rightarrow> run_segments generate a segments fresh w)"

definition totg_generator :: "planner_config \<Rightarrow> waypoint_accumulator \<Rightarrow> trajectory res" where
  "totg_generator cfg seg =
     bind_res (path_create seg (planner_path_options cfg)) (\<lambda>p.
     bind_res (planner_trajectory_options cfg) (\<lambda>topts. trajectory_create p topts []))"

text \<open>
  The legacy generator builds its path and trajectory from waypoints, a deviation and the limits, and can report the result invalid.
\<close>

record 'l legacy_library =
  lg_generate :: "xvector list \<Rightarrow> dbl \<Rightarrow> xvector \<Rightarrow> xvector \<Rightarrow> 'l res"
  lg_is_valid :: "'l \<Rightarrow> bool"

definition legacy_generator :: "('l, 'z) legacy_library_scheme \<Rightarrow> planner_config \<Rightarrow> waypoint_accumulator \<Rightarrow> 'l res" where
  "legacy_generator lib cfg seg =
     (let waypoints = (case pc_colinearization_ratio cfg of None \<Rightarrow> wa_points seg
            | Some r \<Rightarrow> apply_colinearization (wa_points seg) (pc_path_blend_tolerance cfg * r))
      in bind_res (lg_generate lib waypoints (pc_path_blend_tolerance cfg) (pc_velocity_limits cfg) (pc_acceleration_limits cfg)) (\<lambda>traj.
           if \<not> lg_is_valid lib traj then Inl (Runtime_error ''legacy trajectory generator produced invalid result'') else Inr traj))"

section \<open>Execution\<close>

text \<open>The segments for the two algorithms.\<close>

definition segment_waypoints ::
  "('r, 'l, 'w) planner \<Rightarrow> waypoint_accumulator \<Rightarrow> 'w \<Rightarrow> (waypoint_accumulator list \<times> waypoint_accumulator list) res \<times> 'w" where
  "segment_waypoints p accumulator w =
     (case pl_segmenter p of
        None \<Rightarrow> (Inr ([accumulator], [accumulator]), w)
      | Some f \<Rightarrow>
          then_do (f accumulator w) (\<lambda>segments w'.
            (Inr (if \<not> pc_segment_totg (pl_config p) then [accumulator] else segments, segments), w')))"

definition execute ::
  "('l, 'z) legacy_library_scheme \<Rightarrow> 'r \<Rightarrow>
     (('r, 'l, 'w) planner \<Rightarrow> 'r algorithm_outcome \<Rightarrow> 'r algorithm_outcome \<Rightarrow> 'w \<Rightarrow> 'd res \<times> 'w) \<Rightarrow>
     ('r, 'l, 'w) planner \<Rightarrow> 'w \<Rightarrow> ('d res \<times> 'w) \<times> ('r, 'l, 'w) planner" where
  "execute lib fresh decider p w =
     (case pl_waypoint_provider p of
        None \<Rightarrow> ((Inl (Logic_error ''waypoint provider not set''), w), p)
      | Some provider \<Rightarrow>
          if pl_totg p = None \<and> pl_legacy p = None then ((Inl (Logic_error ''no algorithms registered''), w), p)
          else
            let (provided, w1) =
                  then_do (provider w) (\<lambda>a w'. case pl_preprocessor p of None \<Rightarrow> (Inr a, w') | Some f \<Rightarrow> f a w')
            in (case provided of
                  Inl e \<Rightarrow> ((Inl e, w1), p)
                | Inr accumulator \<Rightarrow>
                    let p' = p\<lparr>pl_processed_waypoint_count := wa_size accumulator\<rparr>
                    in (if pl_processed_waypoint_count p' < 2 then decider p' no_outcome no_outcome w1
                        else
                          then_do (case pl_validator p of None \<Rightarrow> (Inr (), w1) | Some f \<Rightarrow> f accumulator w1) (\<lambda>_ w2.
                          then_do (segment_waypoints p accumulator w2) (\<lambda>(totg_segments, segments) w3.
                          then_do (run_algorithm (totg_generator (pl_config p)) (pl_totg p) fresh totg_segments w3) (\<lambda>totg_outcome w4.
                          then_do (run_algorithm (legacy_generator lib (pl_config p)) (pl_legacy p) fresh segments w4)
                            (\<lambda>legacy_outcome. decider p' totg_outcome legacy_outcome)))), p')))"

end
