(* ===== verification/Planner_Properties.thy ===== *)
theory Planner_Properties
  imports Planner Capi_Properties
begin

text \<open>
  What the planning workflow promises: the legacy tool and the path keep the same waypoints under the configured tolerance, and
  what a decider sees are outcomes of trajectories planned soundly to the configured limits.
\<close>

section \<open>The two colinearizations\<close>

lemma within_iff:
  assumes "0 \<le> d" "begin_segment a b = Some ctx"
  shows "within_colinearization_tolerance x a b (Fin d) \<longleftrightarrow> locus_within_tolerance (d / 2) ctx a x"
proof -
  have ctx: "ctx = (vsub b a, dot (vsub b a) (vsub b a))" "\<not> list_all (\<lambda>c. c = 0) (vsub b a)"
    using assms(2) by (auto simp: begin_segment_def Let_def split: if_splits)
  have "Fin (dot v v) \<le> divide (Fin d) 2 * divide (Fin d) 2 \<longleftrightarrow> norm_l2 v \<le> d / 2" for v
  proof -
    have "norm_l2 v \<le> d / 2 \<longleftrightarrow> (norm_l2 v)\<^sup>2 \<le> (d / 2)\<^sup>2" using assms(1) by (simp add: power_mono_iff)
    then show ?thesis by (simp add: norm_l2_sq [of v, unfolded power2_eq_square] power2_eq_square)
  qed
  with ctx show ?thesis by (simp add: within_colinearization_tolerance_def locus_within_tolerance_def Let_def)
qed

lemma same_position: "list_all (\<lambda>c. c = 0) (vsub a b) \<longleftrightarrow> begin_segment a b = None"
  by (auto simp: begin_segment_def Let_def vsub_def list_all_length min.commute)

text \<open>Either scan keeps the same waypoint next; the legacy one goes on from there by itself.\<close>

lemma scan_step:
  assumes "0 \<le> d"
  shows "w # ws = candidates \<Longrightarrow> colinearization_scan (Fin d) anchor skipped candidates =
    (case coalesce_scan (d / 2) anchor skipped candidates of [] \<Rightarrow> [] | t # rest \<Rightarrow> t # colinearization_scan (Fin d) t [] rest)"
proof (induction "Fin d" anchor skipped candidates arbitrary: w ws rule: colinearization_scan.induct)
  case (1 anchor skipped locus following rest)
  show ?case
  proof (cases "begin_segment anchor following")
    case None
    then show ?thesis using same_position [of anchor following] by simp
  next
    case (Some ctx)
    then have ne: "\<not> list_all (\<lambda>c. c = 0) (vsub anchor following)" by (simp add: same_position)
    from 1(2) [OF ne] Some ne show ?thesis
      by (simp add: within_iff [OF assms Some])
  qed
qed simp_all


lemma coalesce_from_scan:
  assumes "0 \<le> d" "\<forall>x \<in> set (base # rest). length x = n" "\<forall>a. acc = Some a \<longrightarrow> wa_dof a = n"
  shows "\<exists>a. coalesce_from (d / 2) acc (base # rest) = Inr (Some a) \<and>
    wa_points a = (case acc of None \<Rightarrow> [] | Some b \<Rightarrow> wa_points b) @ base #
      (case rest of [] \<Rightarrow> [] | _ \<Rightarrow> colinearization_scan (Fin d) base [] rest)"
  using assms(2,3)
proof (induction "length rest" arbitrary: acc base rest rule: less_induct)
  case less
  define a where "a = \<lparr>wa_dof = n, wa_points = (case acc of None \<Rightarrow> [] | Some b \<Rightarrow> wa_points b) @ [base]\<rparr>"
  have a: "(case acc of None \<Rightarrow> Inr (wa_of_waypoint base) | Some a \<Rightarrow> wa_add_waypoint a base) = Inr a" "wa_dof a = n"
    using less(2,3) by (auto simp: a_def wa_of_waypoint_def wa_add_waypoint_def split: option.splits)
  show ?case
  proof (cases rest)
    case Nil
    with a show ?thesis by (simp add: a_def)
  next
    case (Cons w ws)
    then obtain t r where t: "coalesce_scan (d / 2) base [] rest = t # r" "set (t # r) \<subseteq> set rest" "length r < length rest"
      using coalesce_scan_dropped [of base rest n "[]" "d / 2"] less(2) by fastforce
    from less(1) [of r t "Some a"] t less(2) a(2) obtain a' where "coalesce_from (d / 2) (Some a) (t # r) = Inr (Some a')"
      "wa_points a' = wa_points a @ t # (case r of [] \<Rightarrow> [] | _ \<Rightarrow> colinearization_scan (Fin d) t [] r)"
      by auto
    moreover have "colinearization_scan (Fin d) base [] rest = t # (case r of [] \<Rightarrow> [] | _ \<Rightarrow> colinearization_scan (Fin d) t [] r)"
      using scan_step [OF assms(1) Cons [symmetric], of base "[]"] by (cases r) (simp_all add: t(1))
    ultimately show ?thesis using a(1) t(1) Cons by (simp add: a_def)
  qed
qed

lemma same_waypoints:
  assumes "wa_inv seg" "pc_colinearization_ratio cfg = Some r" "pc_path_blend_tolerance cfg * r = Fin d" "0 \<le> d"
  shows "colinearize (planner_path_options cfg) seg = Inr (apply_colinearization (wa_points seg) (pc_path_blend_tolerance cfg * r))"
proof -
  have opts: "opt_max_linear_deviation (planner_path_options cfg) = Fin d"
    using assms(2,3) by (simp add: planner_path_options_def set_max_linear_deviation_def set_min_blend_curvature_def
        set_max_blend_curvature_def Let_def split: option.splits)
  show ?thesis
  proof (cases "d = 0 \<or> wa_points seg = []")
    case True
    with assms(3) opts show ?thesis by (auto simp: colinearize_def apply_colinearization_def)
  next
    case False
    then obtain base rest where ws: "wa_points seg = base # rest" by (cases "wa_points seg") auto
    have "\<forall>x \<in> set (base # rest). length x = wa_dof seg" using assms(1) ws by (simp add: wa_inv_def)
    from coalesce_from_scan [OF assms(4) this, of None] obtain a where "coalesce_from (d / 2) None (base # rest) = Inr (Some a)"
      "wa_points a = base # (case rest of [] \<Rightarrow> [] | _ \<Rightarrow> colinearization_scan (Fin d) base [] rest)" by auto
    moreover have "apply_colinearization (base # rest) (Fin d) = base # (case rest of [] \<Rightarrow> [] | _ \<Rightarrow> colinearization_scan (Fin d) base [] rest)"
    proof (cases rest)
      case (Cons w ws)
      with False assms(4) show ?thesis by (cases ws) (simp_all add: apply_colinearization_def)
    qed (simp add: apply_colinearization_def)
    ultimately show ?thesis using False by (simp add: colinearize_def opts ws assms(3))
  qed
qed

text \<open>
  C19: Both generators honour the colinearization ratio alike: from the same waypoints, with the tolerance the
  configuration gives, the legacy tool keeps exactly the waypoints from which the path is built.
\<close>

theorem colinearizations_agree:
  assumes "wa_inv seg" "pc_colinearization_ratio cfg = Some r" "pc_path_blend_tolerance cfg * r = Fin d" "0 \<le> d"
  shows "colinearize (planner_path_options cfg) seg = Inr (apply_colinearization (wa_points seg) (pc_path_blend_tolerance cfg * r))"
  by (rule same_waypoints [OF assms])

text \<open>The witness: the middle waypoint is on the way.\<close>

definition straight_config :: planner_config where
  "straight_config = \<lparr>pc_velocity_limits = [1], pc_acceleration_limits = [1], pc_path_blend_tolerance = 1,
     pc_colinearization_ratio = Some (Fin (1 / 2)), pc_min_blend_curvature = None, pc_max_blend_curvature = None, pc_segment_totg = True,
     pc_kinematics_chain = None, pc_tcp_max_linear_speed = None\<rparr>"

theorem colinearizations_agree_witness:
  "colinearize (planner_path_options straight_config) \<lparr>wa_dof = 1, wa_points = [[0], [1], [3]]\<rparr> = Inr [[0], [3]]"
proof -
  have "apply_colinearization [[0], [1], [3]] (1 * Fin (1 / 2)) = [[0], [3]]"
    by (simp add: apply_colinearization_def within_colinearization_tolerance_def vsub_def vadd_def vscale_def dot_def Let_def)
  then show ?thesis
    using colinearizations_agree [of "\<lparr>wa_dof = 1, wa_points = [[0], [1], [3]]\<rparr>" straight_config "Fin (1 / 2)" "1 / 2"]
    by (simp add: straight_config_def wa_inv_def)
qed

section \<open>What a planner hands on\<close>

text \<open>A planner as its constructor and its registration calls make it.\<close>

inductive configured :: "planner_config \<Rightarrow> ('r, 'l, 'w) planner \<Rightarrow> bool" for cfg where
  make: "make_planner cfg = Inr p \<Longrightarrow> configured cfg p"
| provider: "configured cfg p \<Longrightarrow> configured cfg (with_waypoint_provider f p)"
| preprocessor: "configured cfg p \<Longrightarrow> configured cfg (with_waypoint_preprocessor g p)"
| validator: "configured cfg p \<Longrightarrow> configured cfg (with_move_validator v p)"
| segmenter: "configured cfg p \<Longrightarrow> configured cfg (with_segmenter sg p)"
| totg: "configured cfg p \<Longrightarrow> configured cfg (with_totg t tf p)"
| legacy: "configured cfg p \<Longrightarrow> with_legacy l lf p = Inr p' \<Longrightarrow> configured cfg p'"

lemma configured_legacy:
  assumes "configured cfg p"
  shows "pl_config p = cfg \<and> planner_base cfg = Inr cfg \<and> (pc_tcp_max_linear_speed cfg \<noteq> None \<longrightarrow> pl_legacy p = None)"
  using assms
proof (induction rule: configured.induct)
  case (make p)
  then have "planner_base cfg = Inr cfg"
    by (auto simp: make_planner_def planner_base_def bind_res_eq_Inr split: if_splits option.splits)
  with make show ?case by (auto simp: make_planner_def)
qed (auto simp: with_waypoint_provider_def with_waypoint_preprocessor_def with_move_validator_def with_segmenter_def
    with_totg_def with_legacy_def split: if_splits)

text \<open>What a success handler is given for a segment.\<close>

definition planned :: "planner_config \<Rightarrow> waypoint_accumulator \<Rightarrow> trajectory \<Rightarrow> bool" where
  "planned cfg seg tr \<longleftrightarrow> totg_generator cfg seg = Inr tr \<and>
     path_create seg (planner_path_options cfg) = Inr (tr_path tr) \<and> path_inv (tr_path tr) \<and> path_dof (tr_path tr) = wa_dof seg \<and>
     path_configuration (tr_path tr) (path_length (tr_path tr)) = Inr (last (wa_points seg)) \<and>
     to_max_velocity (tr_options tr) = pc_velocity_limits cfg \<and> to_max_acceleration (tr_options tr) = pc_acceleration_limits cfg \<and>
     to_tcp (tr_options tr) = map_option (tcp_limits_from (the (pc_kinematics_chain cfg))) (pc_tcp_max_linear_speed cfg) \<and>
     sound_trajectory (tr_path tr) (tr_options tr) tr"

lemma generator_planned:
  assumes "totg_generator cfg seg = Inr tr" "wa_inv seg" "wa_dof seg \<le> 10 ^ 12"
  shows "planned cfg seg tr"
proof -
  obtain p opt where p: "path_create seg (planner_path_options cfg) = Inr p" "planner_trajectory_options cfg = Inr opt"
    "trajectory_create p opt [] = Inr tr"
    using assms(1) by (auto simp: totg_generator_def bind_res_eq_Inr)
  have "build_rows (planner_path_options cfg) opt (wa_dof seg) (wa_points seg) = Inr tr" using p(1,3) by (cases seg) (simp add: build_rows_def)
  moreover have "\<forall>r \<in> set (wa_points seg). length r = wa_dof seg" using assms(2) by (simp add: wa_inv_def)
  ultimately obtain p' where p': "path_create seg (planner_path_options cfg) = Inr p'" "path_inv p'" "path_dof p' = wa_dof seg"
    "tr_path tr = p'" "end_configuration (ps_seg (last (path_segments p'))) = last (wa_points seg)"
    using build_rows_path [of "planner_path_options cfg" opt "wa_dof seg" "wa_points seg" tr] by (metis waypoint_accumulator.surjective old.unit.exhaust)
  then have path: "p' = p" using p(1) by simp
  have opt: "to_max_velocity opt = pc_velocity_limits cfg" "to_max_acceleration opt = pc_acceleration_limits cfg"
    "to_epsilon opt = k_default_epsilon"
    "to_tcp opt = map_option (tcp_limits_from (the (pc_kinematics_chain cfg))) (pc_tcp_max_linear_speed cfg)"
    using p(2) by (auto simp: planner_trajectory_options_def bind_res_eq_Inr split: option.splits)
  have "evaluator_returns opt" by (rule tcp_limits_from_returns) (auto simp: opt(4))
  moreover have "(fin (to_epsilon opt))\<^sup>2 * real (path_dof p) \<le> 1"
    using assms(3) p'(3) path of_nat_mono [of "wa_dof seg" "10 ^ 12", where 'a = real]
    by (simp add: opt(3) k_default_epsilon_def power_divide)
  ultimately have "sound_trajectory p opt tr" using created_sound p'(2) path p(3) by blast
  then show ?thesis using assms(1) p' path opt path_end_configuration [OF p'(2)] by (simp add: planned_def sound_trajectory_def)
qed

text \<open>
  What is reported of an algorithm: nothing if it is not registered, and otherwise a receiver or the exception that ended
  the run, one of the two.
\<close>

definition reported :: "('r, 't, 'w) algorithm option \<Rightarrow> ('r \<Rightarrow> bool) \<Rightarrow> 'r algorithm_outcome \<Rightarrow> bool" where
  "reported al I oc \<longleftrightarrow>
     (case al of
        None \<Rightarrow> oc = no_outcome
      | Some _ \<Rightarrow> (\<exists>r. oc = \<lparr>oc_receiver = Some r, oc_error = None\<rparr> \<and> I r) \<or>
                  (\<exists>e. oc = \<lparr>oc_receiver = None, oc_error = Some e\<rparr> \<and> what e \<noteq> None))"

definition handler_keeps :: "('r, 't, 'w) algorithm \<Rightarrow> ('r \<Rightarrow> bool) \<Rightarrow> (waypoint_accumulator \<Rightarrow> 't \<Rightarrow> bool) \<Rightarrow> bool" where
  "handler_keeps al I Q \<longleftrightarrow>
     (\<forall>r seg tr w r' w'. I r \<longrightarrow> Q seg tr \<longrightarrow> al_on_success al r seg tr w = ((Inr (), r'), w') \<longrightarrow> I r')"

lemma segment_failed_reported: "segment_failed al r seg e w = (Inr oc, w') \<Longrightarrow> reported (Some al) I oc"
  by (auto simp: segment_failed_def then_do_def reported_def split: if_splits sum.splits option.splits)

lemma run_segments_reported:
  assumes "handler_keeps al I Q" "\<And>seg tr. generate seg = Inr tr \<Longrightarrow> Q seg tr"
  shows "I r \<Longrightarrow> run_segments generate al segs r w = (Inr oc, w') \<Longrightarrow> reported (Some al) I oc"
proof (induction segs arbitrary: r w)
  case (Cons seg segs)
  show ?case
  proof (cases "generate seg")
    case (Inr tr)
    obtain x r' w1 where h: "al_on_success al r seg tr w = ((x, r'), w1)" by (metis surj_pair)
    show ?thesis
    proof (cases x)
      case (Inl e)
      with Cons.prems h Inr show ?thesis by (auto dest: segment_failed_reported)
    next
      case (Inr u)
      with h have "al_on_success al r seg tr w = ((Inr (), r'), w1)" by simp
      with assms Cons.prems(1) \<open>generate seg = Inr tr\<close> have "I r'" unfolding handler_keeps_def by blast
      moreover have "run_segments generate al segs r' w1 = (Inr oc, w')"
        using Cons.prems(2) h Inr \<open>generate seg = Inr tr\<close> by simp
      ultimately show ?thesis by (rule Cons.IH)
    qed
  qed (use Cons in \<open>auto dest: segment_failed_reported\<close>)
qed (auto simp: reported_def)

lemma run_algorithm_reported:
  assumes "\<And>a. al = Some a \<Longrightarrow> handler_keeps a I Q" "\<And>seg tr. generate seg = Inr tr \<Longrightarrow> Q seg tr" "I fresh"
    "run_algorithm generate al fresh segs w = (Inr oc, w')"
  shows "reported al I oc"
proof (cases al)
  case (Some a)
  from run_segments_reported [OF assms(1) [OF Some] assms(2,3)] assms(4) Some show ?thesis by (simp add: run_algorithm_def)
qed (use assms(4) in \<open>simp add: run_algorithm_def reported_def eq_commute\<close>)


lemma then_doE:
  assumes "then_do r f = (x, w')"
  obtains (threw) e where "x = Inl e" | (returned) a w1 where "r = (Inr a, w1)" "f a w1 = (x, w')"
  using assms by (cases r; cases "fst r") auto

lemma execute_stages:
  assumes "execute lib fresh decider p w = ((x, w'), p')"
  obtains (threw) e where "x = Inl e" "pl_config p' = pl_config p"
    | (few) w1 where "decider p' no_outcome no_outcome w1 = (x, w')" "pl_processed_waypoint_count p' < 2" "pl_config p' = pl_config p"
    | (ran) ts ss t l w1 w2 w3 where "\<not> pl_processed_waypoint_count p' < 2" "pl_config p' = pl_config p"
        "run_algorithm (totg_generator (pl_config p)) (pl_totg p) fresh ts w1 = (Inr t, w2)"
        "run_algorithm (legacy_generator lib (pl_config p)) (pl_legacy p) fresh ss w2 = (Inr l, w3)"
        "decider p' t l w3 = (x, w')"
proof (cases "pl_waypoint_provider p = None \<or> pl_totg p = None \<and> pl_legacy p = None")
  case True
  with assms threw show thesis by (auto simp: execute_def split: option.splits if_splits)
next
  case False
  then obtain provider where f: "pl_waypoint_provider p = Some provider" by auto
  obtain provided w1 where pr: "then_do (provider w) (\<lambda>a w'. case pl_preprocessor p of None \<Rightarrow> (Inr a, w') | Some f \<Rightarrow> f a w') = (provided, w1)"
    by fastforce
  show thesis
  proof (cases provided)
    case (Inl e)
    with assms False f pr threw show thesis by (auto simp: execute_def)
  next
    case (Inr acc)
    let ?p = "p\<lparr>pl_processed_waypoint_count := wa_size acc\<rparr>"
    show thesis
    proof (cases "wa_size acc < 2")
      case True
      with assms False f pr Inr have "decider ?p no_outcome no_outcome w1 = (x, w')" "p' = ?p" by (auto simp: execute_def Let_def)
      with True few [of w1] show thesis by simp
    next
      case few: False
      with assms False f pr Inr have p': "p' = ?p" by (auto simp: execute_def Let_def)
      with assms False f pr Inr few have run:
        "then_do (case pl_validator p of None \<Rightarrow> (Inr (), w1) | Some f \<Rightarrow> f acc w1) (\<lambda>_ w2.
         then_do (segment_waypoints p acc w2) (\<lambda>(totg_segments, segments) w3.
         then_do (run_algorithm (totg_generator (pl_config p)) (pl_totg p) fresh totg_segments w3) (\<lambda>totg_outcome w4.
         then_do (run_algorithm (legacy_generator lib (pl_config p)) (pl_legacy p) fresh segments w4)
           (\<lambda>legacy_outcome. decider p' totg_outcome legacy_outcome)))) = (x, w')" by (auto simp: execute_def Let_def)
      have cfg: "pl_config p' = pl_config p" "\<not> pl_processed_waypoint_count p' < 2" using few by (simp_all add: p')
      from run show thesis
      proof (cases rule: then_doE)
        case (returned u w2)
        from returned(2) show thesis
        proof (cases rule: then_doE)
          case (returned segs w3)
          obtain ts ss where segs: "segs = (ts, ss)" by fastforce
          from returned(2) show thesis unfolding segs prod.case
            by (elim then_doE) (use threw cfg(1) ran [OF cfg(2,1)] in blast)+
        qed (use threw cfg(1) in blast)
      qed (use threw cfg(1) in blast)
    qed
  qed
qed

definition passes :: "waypoint_accumulator \<Rightarrow> bool" where
  "passes seg \<longleftrightarrow> wa_inv seg \<and> wa_dof seg \<le> 10 ^ 12"

text \<open>
  C15: What the decider of a planner sees. However the planner was configured, an execution throws or ends with the decider, called on one
  outcome per algorithm: none where fewer than two waypoints are left or the algorithm is not registered, and otherwise either a
  receiver or the exception that ended the run. A receiver has been through success handlers only, each given a trajectory planned
  soundly from its segment to the configured limits, so it has whatever property those keep. With a cap on the
  tool's speed the cap is part of every trajectory's limits, and the legacy generator, which cannot keep it, has not run.
\<close>

theorem planner_execute_spec:
  assumes "configured cfg p" "I fresh"
    "\<And>al. pl_totg p = Some al \<Longrightarrow> handler_keeps al I (\<lambda>seg tr. passes seg \<longrightarrow> planned cfg seg tr)"
    "execute lib fresh decider p w = ((x, w'), p')"
  shows "pl_config p' = cfg \<and>
    ((\<exists>e. x = Inl e) \<or>
     (\<exists>t l w1. decider p' t l w1 = (x, w') \<and>
        (if pl_processed_waypoint_count p' < 2 then t = no_outcome \<and> l = no_outcome
         else reported (pl_totg p) I t \<and> reported (pl_legacy p) (\<lambda>_. True) l) \<and>
        (pc_tcp_max_linear_speed cfg \<noteq> None \<longrightarrow> l = no_outcome)))"
proof -
  have cfg: "pl_config p = cfg" "pc_tcp_max_linear_speed cfg \<noteq> None \<Longrightarrow> pl_legacy p = None"
    using configured_legacy [OF assms(1)] by auto
  have totg: "reported (pl_totg p) I oc" if "run_algorithm (totg_generator cfg) (pl_totg p) fresh segs w = (Inr oc, w')" for segs w oc w'
    by (rule run_algorithm_reported [OF assms(3) _ assms(2) that]) (auto simp: passes_def intro: generator_planned)
  have legacy: "reported (pl_legacy p) (\<lambda>_. True) oc"
    if "run_algorithm (legacy_generator lib cfg) (pl_legacy p) fresh segs w = (Inr oc, w')" for segs w oc w'
    by (rule run_algorithm_reported [where Q = "\<lambda>_ _. True", OF _ _ _ that]) (simp_all add: handler_keeps_def)
  have none: "l = no_outcome" if "reported (pl_legacy p) (\<lambda>_. True) l" "pc_tcp_max_linear_speed cfg \<noteq> None" for l
    using that cfg(2) by (simp add: reported_def)
  from assms(4) show ?thesis
  proof (cases rule: execute_stages)
    case (ran ts ss t l w1 w2 w3)
    then have "reported (pl_totg p) I t" "reported (pl_legacy p) (\<lambda>_. True) l" using totg legacy cfg(1) by auto
    with none [of l] ran cfg(1) show ?thesis by (intro conjI disjI2 exI [of _ t] exI [of _ l] exI [of _ w3]) auto
  qed (use cfg(1) in auto)
qed


text \<open>A planner that collects its trajectories, on the rail.\<close>

definition rail_config :: planner_config where
  "rail_config = \<lparr>pc_velocity_limits = [10000], pc_acceleration_limits = [1000000], pc_path_blend_tolerance = 0,
     pc_colinearization_ratio = None, pc_min_blend_curvature = None, pc_max_blend_curvature = None, pc_segment_totg = True,
     pc_kinematics_chain = None, pc_tcp_max_linear_speed = None\<rparr>"

definition rail_planner :: "((waypoint_accumulator \<times> trajectory) list, unit, unit) planner" where
  "rail_planner = with_totg (\<lambda>trs seg tr w. ((Inr (), trs @ [(seg, tr)]), w)) None (with_waypoint_provider (\<lambda>w. (Inr rail_batch, w))
     \<lparr>pl_config = rail_config, pl_processed_waypoint_count = 0, pl_waypoint_provider = None, pl_preprocessor = None,
      pl_validator = None, pl_segmenter = None, pl_totg = None, pl_legacy = None\<rparr>)"

lemma rail_configured: "configured rail_config rail_planner"
  unfolding rail_planner_def
  by (intro configured.intros) (simp add: make_planner_def planner_base_def rail_config_def)

lemma rail_generated:
  assumes "trajectory_create rail (scaled_options 1000 (1 / 10 ^ 6)) [] = Inr tr"
  shows "totg_generator rail_config rail_batch = Inr tr"
proof -
  have "planner_path_options rail_config = default_path_options"
    by (simp add: planner_path_options_def rail_config_def set_max_blend_deviation_def default_path_options_def Let_def)
  moreover have "planner_trajectory_options rail_config = Inr (scaled_options 1000 (1 / 10 ^ 6))"
    by (simp add: planner_trajectory_options_def rail_config_def scaled_options_def k_default_delta_def k_default_epsilon_def)
  ultimately show ?thesis using assms by (simp add: totg_generator_def rail_path [unfolded zero_Fin One_nat_def])
qed

definition no_library :: "unit legacy_library" where
  "no_library = \<lparr>lg_generate = \<lambda>_ _ _ _. Inl (Runtime_error ''no library''), lg_is_valid = \<lambda>_. False\<rparr>"

theorem planner_execute_spec_witness:
  "\<exists>tr. fst (execute no_library [] (\<lambda>p t l w. (Inr (oc_receiver t), w)) rail_planner ()) = (Inr (Some [(rail_batch, tr)]), ()) \<and>
     sound_trajectory (tr_path tr) (tr_options tr) tr"
proof -
  let ?run = "execute no_library [] (\<lambda>p t l w. (Inr (oc_receiver t), w)) rail_planner ()"
  let ?I = "\<lambda>trs. \<forall>x \<in> set trs. passes (fst x) \<longrightarrow> planned rail_config (fst x) (snd x)"
  obtain tr where tr: "trajectory_create rail (scaled_options 1000 (1 / 10 ^ 6)) [] = Inr tr"
    by (rule scaled_trajectory [OF quick_scale])
  obtain p' where run: "?run = ((Inr (Some [(rail_batch, tr)]), ()), p')" "\<not> pl_processed_waypoint_count p' < 2"
    using rail_generated [OF tr] by (simp add: execute_def rail_planner_def with_totg_def with_waypoint_provider_def
        segment_waypoints_def run_algorithm_def wa_size_def Let_def)
  have keeps: "handler_keeps al ?I (\<lambda>seg tr. passes seg \<longrightarrow> planned rail_config seg tr)" if "pl_totg rail_planner = Some al" for al
    using that by (fastforce simp: rail_planner_def with_totg_def handler_keeps_def)
  from planner_execute_spec [OF rail_configured _ keeps run(1)] run(2) have "?I [(rail_batch, tr)]"
    by (auto simp: reported_def rail_planner_def with_totg_def with_waypoint_provider_def)
  then have "planned rail_config rail_batch tr" by (simp add: passes_def wa_inv_def)
  with run(1) show ?thesis by (simp add: planned_def)
qed

end
