(* ===== verification/Service.thy ===== *)
theory Service
  imports Planner
begin

text \<open>
  The model service (\<open>service/mlmodel.cpp\<close>): reading its configuration, and inference, which checks the
  tensors of a request, plans through the planner and packs the samples, and the metadata that declares the tensors. The SDK's values and tensor views are read through the
  alternatives the code asks them for; the legacy library, present in some builds only, is a parameter.
\<close>

section \<open>Configuration\<close>

datatype proto_value = Proto_string string | Proto_bool bool | Proto_list "proto_value list" | Proto_other

record service_config =
  sc_generator_sequence :: "string list"
  sc_segment_for_trajex :: bool

definition default_service_config :: "bool \<Rightarrow> service_config" where
  "default_service_config legacy_enabled =
     \<lparr>sc_generator_sequence = (if legacy_enabled then [''totg'', ''legacy''] else [''totg'']), sc_segment_for_trajex = False\<rparr>"

definition unknown_algorithm :: "string \<Rightarrow> string" where
  "unknown_algorithm name = ''generator_sequence: unknown algorithm '' @ quoted name @ '' (expected '' @ quoted ''totg'' @ '' or '' @ quoted ''legacy'' @ '')''"

fun sequence_errors :: "proto_value list \<Rightarrow> string list" where
  "sequence_errors [] = []"
| "sequence_errors (Proto_string name # elems) =
     (if name \<noteq> ''totg'' \<and> name \<noteq> ''legacy'' then [unknown_algorithm name] else []) @ sequence_errors elems"
| "sequence_errors (_ # elems) = [''generator_sequence entries must be strings'']"

definition service_validate :: "(string \<Rightarrow> proto_value option) \<Rightarrow> string list" where
  "service_validate attributes =
     (case attributes ''generator_sequence'' of
        None \<Rightarrow> []
      | Some v \<Rightarrow>
          (case v of
             Proto_list (e # es) \<Rightarrow> sequence_errors (e # es)
           | _ \<Rightarrow> [''generator_sequence must be a non-empty array of strings''])) @
     (case attributes ''segment_for_trajex'' of
        None \<Rightarrow> []
      | Some v \<Rightarrow> (case v of Proto_bool _ \<Rightarrow> [] | _ \<Rightarrow> [''segment_for_trajex must be a boolean'']))"

fun read_sequence :: "proto_value list \<Rightarrow> string list res" where
  "read_sequence [] = Inr []"
| "read_sequence (Proto_string name # elems) =
     (if name \<noteq> ''totg'' \<and> name \<noteq> ''legacy'' then Inl (Invalid_argument (unknown_algorithm name))
      else bind_res (read_sequence elems) (\<lambda>names. Inr (name # names)))"
| "read_sequence (_ # elems) = Inl (Invalid_argument ''generator_sequence entries must be strings'')"

definition from_resource_config :: "bool \<Rightarrow> (string \<Rightarrow> proto_value option) \<Rightarrow> service_config res" where
  "from_resource_config legacy_enabled attributes =
     (let out = default_service_config legacy_enabled
      in bind_res
           (case attributes ''generator_sequence'' of
              None \<Rightarrow> Inr out
            | Some v \<Rightarrow>
                (case v of
                   Proto_list (e # es) \<Rightarrow> bind_res (read_sequence (e # es)) (\<lambda>names. Inr (out\<lparr>sc_generator_sequence := names\<rparr>))
                 | _ \<Rightarrow> Inl (Invalid_argument ''generator_sequence must be a non-empty array of strings''))) (\<lambda>out.
         case attributes ''segment_for_trajex'' of
           None \<Rightarrow> Inr out
         | Some v \<Rightarrow>
             (case v of
                Proto_bool b \<Rightarrow> Inr (out\<lparr>sc_segment_for_trajex := b\<rparr>)
              | _ \<Rightarrow> Inl (Invalid_argument ''segment_for_trajex must be a boolean''))))"

section \<open>Tensor views\<close>

text \<open>A view by its extents and its elements, of which there are as many as the extents say.\<close>

datatype service_tensor = Double_view "nat list" "dbl list" | Int64_view "nat list" "64 word list" | Other_view

type_synonym named_tensor_views = "string \<Rightarrow> service_tensor option"

definition missing_tensor :: "string \<Rightarrow> exn" where
  "missing_tensor name = Invalid_argument (''missing required input tensor: '' @ name)"

definition get_double_tensor :: "named_tensor_views \<Rightarrow> string \<Rightarrow> (nat list \<times> dbl list) res" where
  "get_double_tensor inputs name =
     (case inputs name of
        None \<Rightarrow> Inl (missing_tensor name)
      | Some v \<Rightarrow>
          (case v of
             Double_view shape xs \<Rightarrow> Inr (shape, xs)
           | _ \<Rightarrow> Inl (Invalid_argument (''input tensor '' @ quoted name @ '' has wrong type (expected float64)''))))"

definition get_int64_tensor :: "named_tensor_views \<Rightarrow> string \<Rightarrow> (nat list \<times> 64 word list) res" where
  "get_int64_tensor inputs name =
     (case inputs name of
        None \<Rightarrow> Inl (missing_tensor name)
      | Some v \<Rightarrow>
          (case v of
             Int64_view shape xs \<Rightarrow> Inr (shape, xs)
           | _ \<Rightarrow> Inl (Invalid_argument (''input tensor '' @ quoted name @ '' has wrong type (expected int64)''))))"

definition get_scalar_double :: "named_tensor_views \<Rightarrow> string \<Rightarrow> dbl res" where
  "get_scalar_double inputs name =
     bind_res (get_double_tensor inputs name) (\<lambda>(shape, xs).
       if length xs \<noteq> 1 then Inl (Invalid_argument (''input tensor '' @ quoted name @ '' must be a scalar (shape [1])'')) else Inr (xs ! 0))"

section \<open>The receiver\<close>

record service_result =
  sr_dof :: nat
  sr_times :: "dbl list"
  sr_configurations :: "dbl list"
  sr_velocities :: "dbl list"
  sr_accelerations :: "dbl list option"
  sr_total_duration :: dbl

definition fresh_result :: service_result where
  "fresh_result = \<lparr>sr_dof = 0, sr_times = [], sr_configurations = [], sr_velocities = [], sr_accelerations = None, sr_total_duration = 0\<rparr>"

definition append_sample :: "traj_sample \<Rightarrow> service_result \<Rightarrow> service_result" where
  "append_sample smp acc =
     acc\<lparr>sr_times := sr_times acc @ [sm_time smp],
         sr_configurations := sr_configurations acc @ map Fin (sm_configuration smp),
         sr_velocities := sr_velocities acc @ map Fin (sm_velocity smp),
         sr_accelerations := map_option (\<lambda>xs. xs @ map Fin (sm_acceleration smp)) (sr_accelerations acc)\<rparr>"

text \<open>
  The handlers. A receiver whose handler throws is dropped, so what the loop over the samples had appended until then is not kept.
\<close>

definition totg_success ::
  "nat \<Rightarrow> dbl \<Rightarrow> service_result \<Rightarrow> waypoint_accumulator \<Rightarrow> trajectory \<Rightarrow> unit \<Rightarrow> (unit res \<times> service_result) \<times> unit" where
  "totg_success dof sampling_freq acc seg traj w =
     (let acc = acc\<lparr>sr_dof := dof, sr_total_duration := sr_total_duration acc + tr_duration traj,
                    sr_accelerations := Some (case sr_accelerations acc of None \<Rightarrow> [] | Some xs \<Rightarrow> xs)\<rparr>
      in case bind_res (quantized_for_trajectory traj sampling_freq 0) (\<lambda>sampler.
              bind_res (samples_of traj sampler) (\<lambda>v. collect_samples sampler_advance v)) of
           Inl e \<Rightarrow> ((Inl e, acc), w)
         | Inr samples \<Rightarrow> ((Inr (), fold append_sample samples acc), w))"

record 'l sampled_legacy_library = "'l legacy_library" +
  lg_duration :: "'l \<Rightarrow> dbl"
  lg_position :: "'l \<Rightarrow> dbl \<Rightarrow> dbl list res"
  lg_velocity :: "'l \<Rightarrow> dbl \<Rightarrow> dbl list res"

text \<open>The velocities are read at the indices of the position.\<close>

definition append_legacy_sample :: "('l, 'z) sampled_legacy_library_scheme \<Rightarrow> 'l \<Rightarrow> dbl \<Rightarrow> service_result \<Rightarrow> service_result res" where
  "append_legacy_sample lib traj t acc =
     bind_res (lg_position lib traj t) (\<lambda>p.
     bind_res (lg_velocity lib traj t) (\<lambda>v.
       if length v < length p then Inl (Undefined_behaviour ''read past the end of a vector'')
       else Inr (acc\<lparr>sr_times := sr_times acc @ [t], sr_configurations := sr_configurations acc @ p,
                     sr_velocities := sr_velocities acc @ map (\<lambda>j. v ! j) [0..<length p]\<rparr>)))"

fun append_legacy_samples ::
  "('l, 'z) sampled_legacy_library_scheme \<Rightarrow> 'l \<Rightarrow> (dbl \<times> dbl) list \<Rightarrow> service_result \<Rightarrow> service_result res" where
  "append_legacy_samples lib traj [] acc = Inr acc"
| "append_legacy_samples lib traj ((t, step) # calls) acc =
     bind_res (append_legacy_sample lib traj t acc) (append_legacy_samples lib traj calls)"

definition legacy_success ::
  "('l, 'z) sampled_legacy_library_scheme \<Rightarrow> nat \<Rightarrow> dbl \<Rightarrow> service_result \<Rightarrow> waypoint_accumulator \<Rightarrow> 'l \<Rightarrow> unit \<Rightarrow>
     (unit res \<times> service_result) \<times> unit" where
  "legacy_success lib dof sampling_freq acc seg traj w =
     (let acc = acc\<lparr>sr_dof := dof, sr_total_duration := sr_total_duration acc + lg_duration lib traj\<rparr>
      in case bind_res (for_each_sample (lg_duration lib traj) sampling_freq) (\<lambda>calls. append_legacy_samples lib traj calls acc) of
           Inl e \<Rightarrow> ((Inl e, acc), w)
         | Inr acc' \<Rightarrow> ((Inr (), acc'), w))"

section \<open>Inference\<close>

type_synonym 'l service_planner = "(service_result, 'l, unit) planner"

fun register_generators ::
  "bool \<Rightarrow> ('l, 'z) sampled_legacy_library_scheme \<Rightarrow> nat \<Rightarrow> dbl \<Rightarrow> string list \<Rightarrow> 'l service_planner \<Rightarrow> 'l service_planner res" where
  "register_generators legacy_enabled lib dof freq [] p = Inr p"
| "register_generators legacy_enabled lib dof freq (algo # rest) p =
     bind_res
       (if algo = ''totg'' then Inr (with_totg (totg_success dof freq) None p)
        else if algo = ''legacy''
        then (if legacy_enabled then with_legacy (legacy_success lib dof freq) None p
              else Inl (Invalid_argument ''Legacy TOTG algorithm unsupported in this build''))
        else Inr p)
       (register_generators legacy_enabled lib dof freq rest)"

definition decide ::
  "'l service_planner \<Rightarrow> service_result algorithm_outcome \<Rightarrow> service_result algorithm_outcome \<Rightarrow> unit \<Rightarrow> service_result option res \<times> unit" where
  "decide p totg_out legacy w =
     (case (oc_receiver totg_out, oc_receiver legacy, oc_error legacy, oc_error totg_out) of
        (Some r, _) \<Rightarrow> (Inr (Some r), w)
      | (None, Some r, _) \<Rightarrow> (Inr (Some r), w)
      | (None, None, Some e, _) \<Rightarrow> (Inl e, w)
      | (None, None, None, Some e) \<Rightarrow> (Inl e, w)
      | (None, None, None, None) \<Rightarrow>
          if pl_processed_waypoint_count p < 2 then (Inr None, w)
          else (Inl (Logic_error ''trajectory generation returned neither results nor an error''), w))"

definition pack_result :: "service_result \<Rightarrow> named_tensor_views res" where
  "pack_result data =
     (let n_samples = length (sr_times data); n = n_samples * sr_dof data
      in if length (sr_configurations data) \<noteq> n \<or> length (sr_velocities data) \<noteq> n
         then Inl (Logic_error (''output tensor size mismatch: expected '' @ string_of_size n_samples @ '' samples x '' @
                string_of_size (sr_dof data) @ '' dof''))
         else if (case sr_accelerations data of None \<Rightarrow> False | Some xs \<Rightarrow> length xs \<noteq> n)
         then Inl (Logic_error ''acceleration output tensor size mismatch'')
         else
           let views =
             [''sample_times_sec'' \<mapsto> Double_view [n_samples] (sr_times data),
              ''configurations_rads'' \<mapsto> Double_view [n_samples, sr_dof data] (sr_configurations data),
              ''velocities_rads_per_sec'' \<mapsto> Double_view [n_samples, sr_dof data] (sr_velocities data)]
           in Inr (case sr_accelerations data of
                None \<Rightarrow> views
              | Some xs \<Rightarrow> views(''accelerations_rads_per_sec2'' \<mapsto> Double_view [n_samples, sr_dof data] xs)))"

record inference_request =
  iq_waypoints :: "nat \<times> nat \<times> dbl list"
  iq_config :: planner_config
  iq_dedup_tolerance :: dbl
  iq_sampling_freq :: dbl

definition read_request :: "service_config \<Rightarrow> named_tensor_views \<Rightarrow> inference_request res" where
  "read_request sc inputs =
     bind_res (get_double_tensor inputs ''waypoints_rads'') (\<lambda>(ws, wx).
     if length ws \<noteq> 2 then Inl (Invalid_argument ''waypoints_rads must be 2-dimensional [n_waypoints, n_dof]'') else
     bind_res (get_double_tensor inputs ''velocity_limits_rads_per_sec'') (\<lambda>(vs, vx).
     if length vs \<noteq> 1 then Inl (Invalid_argument ''velocity_limits_rads_per_sec must be 1-dimensional [n_dof]'') else
     bind_res (get_double_tensor inputs ''acceleration_limits_rads_per_sec2'') (\<lambda>(as, ax).
     if length as \<noteq> 1 then Inl (Invalid_argument ''acceleration_limits_rads_per_sec2 must be 1-dimensional [n_dof]'') else
     let dof = length vx in
     if length ax \<noteq> dof
     then Inl (Invalid_argument (''acceleration_limits size ('' @ string_of_size (length ax) @ '') does not match velocity_limits size ('' @
            string_of_size dof @ '')''))
     else if ws ! 1 \<noteq> dof
     then Inl (Invalid_argument (''waypoints DOF ('' @ string_of_size (ws ! 1) @ '') does not match limits DOF ('' @
            string_of_size dof @ '')''))
     else
     bind_res (get_scalar_double inputs ''path_tolerance_delta_rads'') (\<lambda>path_tolerance.
     bind_res (get_scalar_double inputs ''path_colinearization_ratio'') (\<lambda>ratio.
     bind_res (get_scalar_double inputs ''waypoint_deduplication_tolerance_rads'') (\<lambda>dedup_tolerance.
     bind_res (get_int64_tensor inputs ''trajectory_sampling_freq_hz'') (\<lambda>(fs, fx).
     if length fx \<noteq> 1 then Inl (Invalid_argument ''trajectory_sampling_freq_hz must be a scalar (shape [1])'') else
     bind_res (finite_vector vx) (\<lambda>velocity_limits.
     bind_res (finite_vector ax) (\<lambda>acceleration_limits.
       Inr \<lparr>iq_waypoints = (ws ! 0, ws ! 1, wx),
            iq_config = \<lparr>pc_velocity_limits = velocity_limits, pc_acceleration_limits = acceleration_limits,
              pc_path_blend_tolerance = path_tolerance, pc_colinearization_ratio = (if 0 < ratio then Some ratio else None),
              pc_min_blend_curvature = None, pc_max_blend_curvature = None, pc_segment_totg = sc_segment_for_trajex sc,
              pc_kinematics_chain = None, pc_tcp_max_linear_speed = None\<rparr>,
            iq_dedup_tolerance = dedup_tolerance,
            iq_sampling_freq = Fin (real_of_int (sint (fx ! 0)))\<rparr>)))))))))"

text \<open>The handlers that provide, clean and split the waypoints; the threshold is the default of \<open>segment_at_reversals\<close>.\<close>

definition k_reversal_threshold :: real where "k_reversal_threshold = 1 / 1000"

definition service_planner ::
  "bool \<Rightarrow> ('l, 'z) sampled_legacy_library_scheme \<Rightarrow> service_config \<Rightarrow> inference_request \<Rightarrow> 'l service_planner res" where
  "service_planner legacy_enabled lib sc q =
     bind_res (make_planner (iq_config q)) (\<lambda>p.
       register_generators legacy_enabled lib (fst (snd (iq_waypoints q))) (iq_sampling_freq q) (sc_generator_sequence sc)
         (with_segmenter (\<lambda>a w. (segment_at_reversals a k_reversal_threshold, w))
           (with_waypoint_preprocessor
             (\<lambda>a w. (bind_res (finite_vector [iq_dedup_tolerance q]) (\<lambda>tol. deduplicate_waypoints a (tol ! 0)), w))
             (with_waypoint_provider (\<lambda>w. (bind_res (matrix_rows (iq_waypoints q)) wa_of_matrix, w)) p))))"

definition infer ::
  "bool \<Rightarrow> ('l, 'z) sampled_legacy_library_scheme \<Rightarrow> service_config \<Rightarrow> named_tensor_views \<Rightarrow> named_tensor_views res" where
  "infer legacy_enabled lib sc inputs =
     bind_res (read_request sc inputs) (\<lambda>q.
     bind_res (service_planner legacy_enabled lib sc q) (\<lambda>p.
     bind_res (fst (fst (execute lib fresh_result decide p ()))) (\<lambda>r.
       case r of None \<Rightarrow> Inr Map.empty | Some data \<Rightarrow> pack_result data)))"

section \<open>The metadata\<close>

text \<open>The table is constant: the request's extra parameters are not read. An extent of -1 is one the table leaves open.\<close>

datatype tensor_data_type = K_float64 | K_int64

record tensor_info =
  ti_name :: string
  ti_description :: string
  ti_data_type :: tensor_data_type
  ti_shape :: "int list"
  ti_associated_files :: "string list"

record service_metadata =
  md_name :: string
  md_type :: string
  md_description :: string
  md_inputs :: "tensor_info list"
  md_outputs :: "tensor_info list"

definition metadata :: service_metadata where
  "metadata =
     \<lparr>md_name = ''trajex'', md_type = ''other'',
      md_description = ''Time-optimal trajectory generation via TOTG'',
      md_inputs =
       [\<lparr>ti_name = ''waypoints_rads'',
        ti_description = ''Joint configurations (in radians) [n_waypoints, n_dof]'',
        ti_data_type = K_float64, ti_shape = [-1, -1], ti_associated_files = []\<rparr>,
        \<lparr>ti_name = ''waypoint_deduplication_tolerance_rads'',
        ti_description = ''Waypoint deduplication tolerance (in radians) [scalar]'',
        ti_data_type = K_float64, ti_shape = [1], ti_associated_files = []\<rparr>,
        \<lparr>ti_name = ''path_tolerance_delta_rads'',
        ti_description = ''Path tolerance delta (in radians) [scalar]'',
        ti_data_type = K_float64, ti_shape = [1], ti_associated_files = []\<rparr>,
        \<lparr>ti_name = ''path_colinearization_ratio'',
        ti_description = ''Path colinearization ratio [scalar]'',
        ti_data_type = K_float64, ti_shape = [1], ti_associated_files = []\<rparr>,
        \<lparr>ti_name = ''velocity_limits_rads_per_sec'',
        ti_description = ''Max joint velocities (in radians per second) [n_dof]'',
        ti_data_type = K_float64, ti_shape = [-1], ti_associated_files = []\<rparr>,
        \<lparr>ti_name = ''acceleration_limits_rads_per_sec2'',
        ti_description = ''Max joint accelerations (in radians per second squared) [n_dof]'',
        ti_data_type = K_float64, ti_shape = [-1], ti_associated_files = []\<rparr>,
        \<lparr>ti_name = ''trajectory_sampling_freq_hz'',
        ti_description = ''Trajectory sampling frequency in Hz [scalar]'',
        ti_data_type = K_int64, ti_shape = [1], ti_associated_files = []\<rparr>],
      md_outputs =
       [\<lparr>ti_name = ''sample_times_sec'',
        ti_description = ''Time values for each sample (in seconds) [n_samples]'',
        ti_data_type = K_float64, ti_shape = [-1], ti_associated_files = []\<rparr>,
        \<lparr>ti_name = ''configurations_rads'',
        ti_description = ''Joint configurations over time (in radians) [n_samples, n_dof]'',
        ti_data_type = K_float64, ti_shape = [-1, -1], ti_associated_files = []\<rparr>,
        \<lparr>ti_name = ''velocities_rads_per_sec'',
        ti_description = ''Joint velocities over time (in radians per second) [n_samples, n_dof]'',
        ti_data_type = K_float64, ti_shape = [-1, -1], ti_associated_files = []\<rparr>,
        \<lparr>ti_name = ''accelerations_rads_per_sec2'',
        ti_description = ''Joint accelerations over time (in radians per second squared) [n_samples, n_dof]'',
        ti_data_type = K_float64, ti_shape = [-1, -1], ti_associated_files = []\<rparr>]\<rparr>"

end
