(* ===== verification/Service_Properties.thy ===== *)
theory Service_Properties
  imports Service Planner_Properties
begin

text \<open>
  What the model service promises: its two readings of the configuration agree, and what inference returns is the samples of the
  trajectories planned for the segments of the request, in tensors the metadata declares.
\<close>

section \<open>Configuration\<close>

lemma read_sequence_errors:
  "case sequence_errors vs of
     [] \<Rightarrow> \<exists>names. read_sequence vs = Inr names \<and> set names \<subseteq> {''totg'', ''legacy''} \<and> length names = length vs
   | m # ms \<Rightarrow> read_sequence vs = Inl (Invalid_argument m)"
  by (induction vs rule: read_sequence.induct) (auto split: list.splits)

text \<open>
  Validation and construction agree: the service can be made from its attributes exactly when validation finds nothing wrong,
  and otherwise what construction throws is the first of the errors validation lists. A configuration that is made names at least one
  algorithm and only known ones.
\<close>

lemma service_config_agrees:
  "case service_validate attributes of
     [] \<Rightarrow> \<exists>c. from_resource_config legacy_enabled attributes = Inr c \<and> sc_generator_sequence c \<noteq> [] \<and>
       set (sc_generator_sequence c) \<subseteq> {''totg'', ''legacy''}
   | m # ms \<Rightarrow> from_resource_config legacy_enabled attributes = Inl (Invalid_argument m)"
proof -
  let ?seq = "case attributes ''generator_sequence'' of None \<Rightarrow> []
      | Some v \<Rightarrow> (case v of Proto_list (e # es) \<Rightarrow> sequence_errors (e # es)
        | _ \<Rightarrow> [''generator_sequence must be a non-empty array of strings''])"
  let ?read = "case attributes ''generator_sequence'' of None \<Rightarrow> Inr (default_service_config legacy_enabled)
      | Some v \<Rightarrow> (case v of
           Proto_list (e # es) \<Rightarrow> bind_res (read_sequence (e # es))
             (\<lambda>names. Inr ((default_service_config legacy_enabled)\<lparr>sc_generator_sequence := names\<rparr>))
         | _ \<Rightarrow> Inl (Invalid_argument ''generator_sequence must be a non-empty array of strings''))"
  have "case ?seq of
      [] \<Rightarrow> \<exists>c. ?read = Inr c \<and> sc_generator_sequence c \<noteq> [] \<and> set (sc_generator_sequence c) \<subseteq> {''totg'', ''legacy''}
    | m # ms \<Rightarrow> ?read = Inl (Invalid_argument m)"
  proof (cases "attributes ''generator_sequence''")
    case (Some v)
    show ?thesis
    proof (cases "\<exists>e es. v = Proto_list (e # es)")
      case True
      then obtain e es where v: "v = Proto_list (e # es)" by blast
      show ?thesis using read_sequence_errors [of "e # es"] unfolding Some v
        by (cases "sequence_errors (e # es)") (auto simp del: sequence_errors.simps read_sequence.simps)
    next
      case False
      with Some show ?thesis by (cases v) (auto split: list.splits)
    qed
  qed (simp add: default_service_config_def)
  then show ?thesis
    by (cases ?seq; cases "attributes ''segment_for_trajex''")
      (auto simp: service_validate_def from_resource_config_def Let_def split: proto_value.splits)
qed

section \<open>The receiver\<close>

text \<open>What a segment of the request becomes: a trajectory and its samples.\<close>

definition segment_motion :: "planner_config \<Rightarrow> dbl \<Rightarrow> waypoint_accumulator \<Rightarrow> trajectory \<times> traj_sample list \<Rightarrow> bool" where
  "segment_motion cfg f seg = (\<lambda>(tr, rows). planned cfg seg tr \<and>
     (\<exists>d g. tr_duration tr = Fin d \<and> f = Fin g \<and> 0 < d \<and> 0 < g \<and> sampled_motion tr (wa_dof seg) (even_times d g) rows) \<and>
     at_rest_at (last (wa_points seg)) (last rows))"

text \<open>The same as a computation: planning, making the sampler, sampling, each of which may throw.\<close>

definition segment_result :: "planner_config \<Rightarrow> dbl \<Rightarrow> waypoint_accumulator \<Rightarrow> (trajectory \<times> traj_sample list) res" where
  "segment_result cfg f seg =
     bind_res (totg_generator cfg seg) (\<lambda>tr.
     bind_res (quantized_for_trajectory tr f 0) (\<lambda>_.
     bind_res (sample_all tr (even_times (fin (tr_duration tr)) (fin f))) (\<lambda>rows. Inr (tr, rows))))"

definition received :: "nat \<Rightarrow> (trajectory \<times> traj_sample list) list \<Rightarrow> service_result \<Rightarrow> bool" where
  "received n ms r \<longleftrightarrow> (let rows = concat (map snd ms) in
     sr_times r = map sm_time rows \<and> sr_configurations r = map Fin (concat (map sm_configuration rows)) \<and>
     sr_velocities r = map Fin (concat (map sm_velocity rows)) \<and>
     (if ms = [] then sr_accelerations r = None
      else sr_dof r = n \<and> sr_accelerations r = Some (map Fin (concat (map sm_acceleration rows)))))"

lemma fold_append_sample:
  "fold append_sample rows acc =
     acc\<lparr>sr_times := sr_times acc @ map sm_time rows,
         sr_configurations := sr_configurations acc @ map Fin (concat (map sm_configuration rows)),
         sr_velocities := sr_velocities acc @ map Fin (concat (map sm_velocity rows)),
         sr_accelerations := map_option (\<lambda>xs. xs @ map Fin (concat (map sm_acceleration rows))) (sr_accelerations acc)\<rparr>"
  by (induction rows arbitrary: acc) (auto simp: append_sample_def option.map_comp comp_def option.map_ident)

lemma totg_success_received:
  assumes "received n ms r" "planned cfg seg tr" "forward_motion tr" "wa_dof seg = n"
    "totg_success n f r seg tr w = ((Inr (), r'), w')" "totg_generator cfg seg = Inr tr"
  obtains rows where "segment_motion cfg f seg (tr, rows)" "received n (ms @ [(tr, rows)]) r'"
    "segment_result cfg f seg = Inr (tr, rows)"
proof -
  obtain u v rows where run: "quantized_for_trajectory tr f 0 = Inr u" "samples_of tr u = Inr v"
    "collect_samples sampler_advance v = Inr rows"
    "r' = fold append_sample rows (r\<lparr>sr_dof := n, sr_total_duration := sr_total_duration r + tr_duration tr,
       sr_accelerations := Some (case sr_accelerations r of None \<Rightarrow> [] | Some xs \<Rightarrow> xs)\<rparr>)"
    using assms(5) by (auto simp: totg_success_def Let_def bind_res_eq_Inr split: sum.splits)
  have p: "path_inv (tr_path tr)" "sound_trajectory (tr_path tr) (tr_options tr) tr" "path_dof (tr_path tr) = n"
    "path_configuration (tr_path tr) (path_length (tr_path tr)) = Inr (last (wa_points seg))"
    using assms(2,4) by (simp_all add: planned_def)
  from computed_inv [OF p(2,1) assms(3)] have inv: "traj_inv tr" .
  obtain d g where q: "tr_duration tr = Fin d" "f = Fin g" "0 < d" "0 < g" "collect_samples sampler_advance v = sample_all tr (even_times d g)"
    by (rule collected_rows [OF inv run(1,2)])
  from q(5) run(3) have rows: "sample_all tr (even_times d g) = Inr rows" by simp
  then have "trajectory_sample tr (tr_duration tr) = Inr (last rows)"
    using sample_all_last even_times_last [OF q(3,4)] q(1) by metis
  with final_sample p assms(3) have "at_rest_at (last (wa_points seg)) (last rows)" by blast
  moreover have "sampled_motion tr n (even_times d g) rows"
    using rows sample_sized [OF inv] trajectory_sample_time(1) [OF inv] p(3) by (auto simp: sampled_motion_def sample_all_Inr)
  ultimately have "segment_motion cfg f seg (tr, rows)" using assms(2,4) q(1-4) by (auto simp: segment_motion_def)
  moreover have "received n (ms @ [(tr, rows)]) r'"
    using assms(1) run(4) by (cases "ms = []") (auto simp: received_def fold_append_sample Let_def)
  moreover have "segment_result cfg f seg = Inr (tr, rows)" using assms(6) run(1) rows q(1,2) by (simp add: segment_result_def)
  ultimately show thesis by (rule that)
qed


section \<open>Running the segments\<close>

lemma totg_success_error:
  assumes "totg_generator cfg seg = Inr tr" "traj_inv tr" "totg_success n f r seg tr w = ((Inl e, r'), w')"
  shows "segment_result cfg f seg = Inl e"
proof (cases "quantized_for_trajectory tr f 0")
  case (Inl e')
  with assms show ?thesis by (auto simp: totg_success_def segment_result_def Let_def)
next
  case (Inr u)
  obtain c where "create_traj_cursor tr = Inr c" using create_traj_cursor_inv [OF assms(2)] by blast
  then obtain v where v: "samples_of tr u = Inr v" by (simp add: samples_of_def)
  obtain d g where d: "tr_duration tr = Fin d" "f = Fin g" "collect_samples sampler_advance v = sample_all tr (even_times d g)"
    by (rule collected_rows [OF assms(2) Inr v])
  with assms(3) Inr v have "sample_all tr (even_times d g) = Inl e"
    by (auto simp: totg_success_def Let_def split: sum.splits)
  with Inr assms(1) d(1,2) show ?thesis by (simp add: segment_result_def)
qed

abbreviation totg_algorithm :: "nat \<Rightarrow> dbl \<Rightarrow> (service_result, trajectory, unit) algorithm" where
  "totg_algorithm n f \<equiv> \<lparr>al_on_success = totg_success n f, al_on_failure = None\<rparr>"

lemma segment_failed_quiet:
  "al_on_failure al = None \<Longrightarrow>
     segment_failed al r seg e w = (if what e = None then Inl e else Inr \<lparr>oc_receiver = None, oc_error = Some e\<rparr>, w)"
  by (simp add: segment_failed_def)

text \<open>What comes of a run: all motions in the receiver, or the error of the first segment that has one, thrown on or recorded.\<close>

lemma run_received:
  shows "\<forall>seg \<in> set segs. passes seg \<and> wa_dof seg = n \<Longrightarrow>
    \<forall>seg \<in> set segs. \<forall>tr. totg_generator cfg seg = Inr tr \<longrightarrow> forward_motion tr \<Longrightarrow> received n ms r \<Longrightarrow>
    case map_res (segment_result cfg f) segs of
      Inl e \<Rightarrow> run_segments (totg_generator cfg) (totg_algorithm n f) segs r w =
        (if what e = None then Inl e else Inr \<lparr>oc_receiver = None, oc_error = Some e\<rparr>, w)
    | Inr ms' \<Rightarrow> list_all2 (segment_motion cfg f) segs ms' \<and>
        (\<exists>r'. run_segments (totg_generator cfg) (totg_algorithm n f) segs r w = (Inr \<lparr>oc_receiver = Some r', oc_error = None\<rparr>, w) \<and>
          received n (ms @ ms') r')"
proof (induction segs arbitrary: ms r)
  case (Cons seg segs)
  show ?case
  proof (cases "totg_generator cfg seg")
    case (Inl e)
    then have "segment_result cfg f seg = Inl e" by (simp add: segment_result_def)
    with Inl show ?thesis by (simp add: segment_failed_quiet)
  next
    case (Inr tr)
    have fwd: "forward_motion tr" using Cons.prems(2) Inr by simp
    have plan: "planned cfg seg tr" using generator_planned [OF Inr] Cons.prems(1) by (simp add: passes_def)
    then have inv: "traj_inv tr" using computed_inv fwd unfolding planned_def by blast
    obtain x r1 w1 where h: "totg_success n f r seg tr w = ((x, r1), w1)" by (metis surj_pair)
    have [simp]: "w1 = w" using h by (auto simp: totg_success_def Let_def split: sum.splits)
    show ?thesis
    proof (cases x)
      case (Inl e)
      with h totg_success_error [OF Inr inv] have "segment_result cfg f seg = Inl e" by blast
      with h Inl Inr show ?thesis by (simp add: segment_failed_quiet)
    next
      case x: (Inr u)
      with h obtain rows where rows: "segment_motion cfg f seg (tr, rows)" "received n (ms @ [(tr, rows)]) r1"
        "segment_result cfg f seg = Inr (tr, rows)"
        using totg_success_received [OF Cons.prems(3) plan fwd _ _ Inr] Cons.prems(1) by auto
      have run: "run_segments (totg_generator cfg) (totg_algorithm n f) (seg # segs) r w =
          run_segments (totg_generator cfg) (totg_algorithm n f) segs r1 w" using h x by (simp add: Inr)
      have dims: "\<forall>seg \<in> set segs. passes seg \<and> wa_dof seg = n" using Cons.prems(1) by simp
      have "\<forall>seg \<in> set segs. \<forall>tr. totg_generator cfg seg = Inr tr \<longrightarrow> forward_motion tr" using Cons.prems(2) by simp
      note ih = Cons.IH [OF dims this rows(2)]
      show ?thesis
      proof (cases "map_res (segment_result cfg f) segs")
        case (Inl e)
        with ih rows(3) run show ?thesis by (simp del: run_segments.simps)
      next
        case (Inr ms')
        with ih rows run show ?thesis by (simp del: run_segments.simps)
      qed
    qed
  qed
qed simp

section \<open>Packing\<close>

definition sampled_views :: "nat \<Rightarrow> traj_sample list \<Rightarrow> named_tensor_views" where
  "sampled_views n rows =
     [''sample_times_sec'' \<mapsto> Double_view [length rows] (map sm_time rows),
      ''configurations_rads'' \<mapsto> Double_view [length rows, n] (map Fin (concat (map sm_configuration rows))),
      ''velocities_rads_per_sec'' \<mapsto> Double_view [length rows, n] (map Fin (concat (map sm_velocity rows))),
      ''accelerations_rads_per_sec2'' \<mapsto> Double_view [length rows, n] (map Fin (concat (map sm_acceleration rows)))]"

lemma length_concat_const: "(\<And>x. x \<in> set xs \<Longrightarrow> length (f x) = n) \<Longrightarrow> length (concat (map f xs)) = length xs * n"
  by (induction xs) auto

lemma packed:
  assumes "received n ms r" "ms \<noteq> []" "\<forall>smp \<in> set (concat (map snd ms)). sized n smp"
  shows "pack_result r = Inr (sampled_views n (concat (map snd ms)))"
proof -
  let ?rows = "concat (map snd ms)"
  have r: "sr_times r = map sm_time ?rows" "sr_configurations r = map Fin (concat (map sm_configuration ?rows))"
    "sr_velocities r = map Fin (concat (map sm_velocity ?rows))" "sr_dof r = n"
    "sr_accelerations r = Some (map Fin (concat (map sm_acceleration ?rows)))"
    using assms(1,2) by (simp_all only: received_def Let_def if_False)
  have "length (concat (map sm_configuration ?rows)) = length ?rows * n" "length (concat (map sm_velocity ?rows)) = length ?rows * n"
    "length (concat (map sm_acceleration ?rows)) = length ?rows * n"
    using assms(3) by (auto intro!: length_concat_const simp: sized_def)
  then show ?thesis unfolding pack_result_def r Let_def by (simp only: length_map) (simp add: sampled_views_def)
qed


section \<open>The metadata\<close>

text \<open>A view is of a declared type, and of a declared shape, which leaves open the extents it has at -1.\<close>

fun view_typed :: "tensor_info \<Rightarrow> service_tensor \<Rightarrow> bool" where
  "view_typed i (Double_view shape xs) \<longleftrightarrow> ti_data_type i = K_float64"
| "view_typed i (Int64_view shape xs) \<longleftrightarrow> ti_data_type i = K_int64"
| "view_typed i Other_view \<longleftrightarrow> False"

fun view_shaped :: "tensor_info \<Rightarrow> service_tensor \<Rightarrow> bool" where
  "view_shaped i (Double_view shape xs) \<longleftrightarrow> list_all2 (\<lambda>e n. e = -1 \<or> e = int n) (ti_shape i) shape"
| "view_shaped i (Int64_view shape xs) \<longleftrightarrow> list_all2 (\<lambda>e n. e = -1 \<or> e = int n) (ti_shape i) shape"
| "view_shaped i Other_view \<longleftrightarrow> False"

lemma get_double_tensor_Inr: "get_double_tensor inputs name = Inr (shape, xs) \<longleftrightarrow> inputs name = Some (Double_view shape xs)"
  by (simp add: get_double_tensor_def split: option.splits service_tensor.splits)

lemma get_int64_tensor_Inr: "get_int64_tensor inputs name = Inr (shape, xs) \<longleftrightarrow> inputs name = Some (Int64_view shape xs)"
  by (simp add: get_int64_tensor_def split: option.splits service_tensor.splits)

text \<open>
  Every declared input is one a request must have, at its declared type, and what a request is depends on no other; so a server that
  requires the inputs the table names and drops the others loses nothing.
\<close>

lemma inputs_required:
  assumes "read_request sc inputs = Inr q" "i \<in> set (md_inputs metadata)"
  shows "\<exists>v. inputs (ti_name i) = Some v \<and> view_typed i v"
  using assms
  by (auto simp: read_request_def metadata_def get_scalar_double_def bind_res_eq_Inr get_double_tensor_Inr get_int64_tensor_Inr Let_def
      split: if_splits)

lemma inputs_sufficient:
  assumes "\<And>i. i \<in> set (md_inputs metadata) \<Longrightarrow> inputs (ti_name i) = inputs' (ti_name i)"
  shows "infer legacy_enabled lib sc inputs = infer legacy_enabled lib sc inputs'"
proof -
  have "list_all (\<lambda>i. inputs (ti_name i) = inputs' (ti_name i)) (md_inputs metadata)" using assms by (simp add: list_all_iff)
  then have same: "inputs n = inputs' n" if "n \<in> {''waypoints_rads'', ''waypoint_deduplication_tolerance_rads'', ''path_tolerance_delta_rads'',
      ''path_colinearization_ratio'', ''velocity_limits_rads_per_sec'', ''acceleration_limits_rads_per_sec2'', ''trajectory_sampling_freq_hz''}" for n
    using that by (auto simp: metadata_def)
  have "read_request sc inputs = read_request sc inputs'"
    unfolding read_request_def get_scalar_double_def get_double_tensor_def get_int64_tensor_def by (simp only: same insertI1 insertI2)
  then show ?thesis by (simp add: infer_def)
qed

lemma packed_views:
  assumes "pack_result data = Inr views"
  obtains k n where
    "views = [''sample_times_sec'' \<mapsto> Double_view [k] (sr_times data), ''configurations_rads'' \<mapsto> Double_view [k, n] (sr_configurations data),
       ''velocities_rads_per_sec'' \<mapsto> Double_view [k, n] (sr_velocities data)]" "sr_accelerations data = None"
  | k n xs where
    "views = [''sample_times_sec'' \<mapsto> Double_view [k] (sr_times data), ''configurations_rads'' \<mapsto> Double_view [k, n] (sr_configurations data),
       ''velocities_rads_per_sec'' \<mapsto> Double_view [k, n] (sr_velocities data), ''accelerations_rads_per_sec2'' \<mapsto> Double_view [k, n] xs]"
proof (cases "sr_accelerations data")
  case None
  with assms show thesis using that(1) [of "length (sr_times data)" "sr_dof data"] by (simp add: pack_result_def Let_def split: if_splits)
next
  case (Some xs)
  with assms show thesis using that(2) [of "length (sr_times data)" "sr_dof data" xs]
    by (simp add: pack_result_def Let_def split: if_splits)
qed

definition declared_output :: "string \<Rightarrow> service_tensor \<Rightarrow> bool" where
  "declared_output name v \<longleftrightarrow> list_ex (\<lambda>i. ti_name i = name \<and> view_typed i v \<and> view_shaped i v) (md_outputs metadata)"

lemma declared_outputs [simp]:
  "declared_output ''sample_times_sec'' (Double_view [k] xs)"
  "declared_output ''configurations_rads'' (Double_view [k, n] xs)"
  "declared_output ''velocities_rads_per_sec'' (Double_view [k, n] xs)"
  "declared_output ''accelerations_rads_per_sec2'' (Double_view [k, n] xs)"
  by (simp_all add: declared_output_def metadata_def)

lemma output_names:
  "map ti_name (md_outputs metadata) =
     [''sample_times_sec'', ''configurations_rads'', ''velocities_rads_per_sec'', ''accelerations_rads_per_sec2'']"
  by (simp add: metadata_def)

lemma map_of_four:
  "[a \<mapsto> p, b \<mapsto> q, c \<mapsto> r] n = Some v \<Longrightarrow> n = a \<and> v = p \<or> n = b \<and> v = q \<or> n = c \<and> v = r"
  "[a \<mapsto> p, b \<mapsto> q, c \<mapsto> r, d \<mapsto> s] n = Some v \<Longrightarrow> n = a \<and> v = p \<or> n = b \<and> v = q \<or> n = c \<and> v = r \<or> n = d \<and> v = s"
  by (auto split: if_splits)

text \<open>Every tensor that is returned is a declared output, of its type and shape; only the accelerations can be missing.\<close>

lemma outputs_declared:
  assumes "pack_result data = Inr views"
  shows "views name = Some v \<Longrightarrow> declared_output name v"
    and "i \<in> set (md_outputs metadata) \<Longrightarrow> ti_name i \<in> dom views \<or> sr_accelerations data = None"
proof -
  show "declared_output name v" if "views name = Some v"
    using assms
  proof (rule packed_views)
    fix k n assume "views = [''sample_times_sec'' \<mapsto> Double_view [k] (sr_times data),
      ''configurations_rads'' \<mapsto> Double_view [k, n] (sr_configurations data),
      ''velocities_rads_per_sec'' \<mapsto> Double_view [k, n] (sr_velocities data)]"
    from map_of_four(1) [OF that [unfolded this]] show ?thesis by (elim disjE conjE) (simp_all only: declared_outputs)
  next
    fix k n xs assume "views = [''sample_times_sec'' \<mapsto> Double_view [k] (sr_times data),
      ''configurations_rads'' \<mapsto> Double_view [k, n] (sr_configurations data),
      ''velocities_rads_per_sec'' \<mapsto> Double_view [k, n] (sr_velocities data), ''accelerations_rads_per_sec2'' \<mapsto> Double_view [k, n] xs]"
    from map_of_four(2) [OF that [unfolded this]] show ?thesis by (elim disjE conjE) (simp_all only: declared_outputs)
  qed
  have "list_all (\<lambda>name. name \<in> dom views \<or> sr_accelerations data = None) (map ti_name (md_outputs metadata))"
    using assms unfolding output_names
    by (elim packed_views) (simp_all only: list.pred_inject dom_fun_upd option.distinct if_False insert_iff simp_thms)
  then show "i \<in> set (md_outputs metadata) \<Longrightarrow> ti_name i \<in> dom views \<or> sr_accelerations data = None"
    by (auto simp only: list_all_iff set_map)
qed

section \<open>Inference\<close>

text \<open>The waypoints of a request after cleaning, and the segments the algorithm runs over.\<close>

definition cleaned :: "inference_request \<Rightarrow> waypoint_accumulator res" where
  "cleaned q =
     bind_res (matrix_rows (iq_waypoints q)) (\<lambda>m.
     bind_res (wa_of_matrix m) (\<lambda>a.
     bind_res (finite_vector [iq_dedup_tolerance q]) (\<lambda>tol. deduplicate_waypoints a (tol ! 0))))"

definition covering :: "service_config \<Rightarrow> waypoint_accumulator \<Rightarrow> waypoint_accumulator list \<Rightarrow> bool" where
  "covering sc a segs \<longleftrightarrow>
     (if sc_segment_for_trajex sc
      then stitch (map wa_points segs) = wa_points a \<and> successively (\<lambda>s t. last s = hd t) (map wa_points segs) \<and>
        (\<forall>s \<in> set segs. cusp_count k_reversal_threshold (wa_points s) = 0)
      else segs = [a])"

lemma cleaned_inv:
  assumes "cleaned q = Inr a"
  shows "wa_inv a" "wa_dof a = fst (snd (iq_waypoints q))"
proof -
  obtain r n xs where w: "iq_waypoints q = (r, n, xs)" using prod_cases3 by blast
  obtain m b tol where s: "matrix_rows (r, n, xs) = Inr m" "wa_of_matrix m = Inr b" "deduplicate_waypoints b tol = Inr a"
    using assms by (auto simp: cleaned_def bind_res_eq_Inr w)
  note b = matrix_accumulator [OF s(1,2)]
  with deduplicate_thinned [OF b(1), of tol] s(3) have a: "a = b\<lparr>wa_points := thinned tol (wa_points b)\<rparr>" by simp
  then show "wa_dof a = fst (snd (iq_waypoints q))" using b(2) w by simp
  show "wa_inv a" using a b(1) list_emb_set [OF subseq_thinned [of tol "wa_points b"]] by (fastforce simp: wa_inv_def)
qed

lemma only_totg:
  assumes "set names \<subseteq> {''totg''}"
  shows "register_generators legacy_enabled lib n f names p =
    Inr (if names = [] then p else p\<lparr>pl_totg := Some (totg_algorithm n f)\<rparr>)"
  using assms by (induction names arbitrary: p) (auto simp: with_totg_def)

lemma request_base: "read_request sc inputs = Inr q \<Longrightarrow> planner_base (iq_config q) = Inr (iq_config q) \<and>
    pc_segment_totg (iq_config q) = sc_segment_for_trajex sc"
  by (auto simp: read_request_def bind_res_eq_Inr Let_def planner_base_def split: if_splits prod.splits)

text \<open>The execution of a planner whose handlers leave the world alone and that runs one algorithm.\<close>

lemma execute_quiet:
  assumes "pl_waypoint_provider p = Some (\<lambda>w. (x, w))" "pl_preprocessor p = Some (\<lambda>a w. (y a, w))" "pl_validator p = None"
    "pl_segmenter p = Some (\<lambda>a w. (z a, w))" "pl_totg p = Some al" "pl_legacy p = None"
  shows "fst (execute lib fresh decider p w) =
    (case bind_res x y of
       Inl e \<Rightarrow> (Inl e, w)
     | Inr a \<Rightarrow>
         let p' = p\<lparr>pl_processed_waypoint_count := wa_size a\<rparr>
         in if wa_size a < 2 then decider p' no_outcome no_outcome w
            else (case z a of
                    Inl e \<Rightarrow> (Inl e, w)
                  | Inr segs \<Rightarrow>
                      then_do (run_segments (totg_generator (pl_config p)) al (if pc_segment_totg (pl_config p) then segs else [a]) fresh w)
                        (\<lambda>t. decider p' t no_outcome)))"
proof (cases "bind_res x y")
  case (Inl e)
  with assms show ?thesis by (cases x) (simp_all add: execute_def)
next
  case (Inr a)
  then obtain b where "x = Inr b" "y b = Inr a" by (auto simp: bind_res_eq_Inr)
  with assms Inr show ?thesis
    by (cases "z a") (simp_all add: execute_def segment_waypoints_def run_algorithm_def Let_def)
qed

lemma decide_alone:
  "decide p t no_outcome w =
    (case oc_receiver t of Some r \<Rightarrow> Inr (Some r)
     | None \<Rightarrow> (case oc_error t of Some e \<Rightarrow> Inl e
        | None \<Rightarrow> if pl_processed_waypoint_count p < 2 then Inr None
            else Inl (Logic_error ''trajectory generation returned neither results nor an error'')), w)"
  by (simp add: decide_def no_outcome_def split: option.splits)

text \<open>What inference does for a service that runs the one algorithm.\<close>

lemma infer_runs:
  fixes lib :: "('l, 'z) sampled_legacy_library_scheme"
  assumes "set (sc_generator_sequence sc) = {''totg''}" "read_request sc inputs = Inr q"
  shows "infer legacy_enabled lib sc inputs =
    bind_res (cleaned q) (\<lambda>a.
      if wa_size a < 2 then Inr Map.empty
      else bind_res (segment_at_reversals a k_reversal_threshold) (\<lambda>segs.
        bind_res (fst (run_segments (totg_generator (iq_config q)) (totg_algorithm (fst (snd (iq_waypoints q))) (iq_sampling_freq q))
            (if sc_segment_for_trajex sc then segs else [a]) fresh_result ()))
          (\<lambda>t. case oc_receiver t of Some r \<Rightarrow> pack_result r
             | None \<Rightarrow> (case oc_error t of Some e \<Rightarrow> Inl e
                 | None \<Rightarrow> Inl (Logic_error ''trajectory generation returned neither results nor an error'')))))"
proof -
  define n f where nf: "n = fst (snd (iq_waypoints q))" "f = iq_sampling_freq q"
  have ne: "sc_generator_sequence sc \<noteq> []" using assms(1) by (metis empty_set empty_not_insert)
  define p :: "'l service_planner" where "p = \<lparr>pl_config = iq_config q, pl_processed_waypoint_count = 0,
      pl_waypoint_provider = Some (\<lambda>w. (bind_res (matrix_rows (iq_waypoints q)) wa_of_matrix, w)),
      pl_preprocessor = Some (\<lambda>a w. (bind_res (finite_vector [iq_dedup_tolerance q]) (\<lambda>tol. deduplicate_waypoints a (tol ! 0)), w)),
      pl_validator = None, pl_segmenter = Some (\<lambda>a w. (segment_at_reversals a k_reversal_threshold, w)),
      pl_totg = Some (totg_algorithm n f), pl_legacy = None\<rparr>"
  have p1: "service_planner legacy_enabled lib sc q = Inr p"
    using request_base [OF assms(2)] ne
    by (simp add: service_planner_def make_planner_def only_totg [OF equalityD1 [OF assms(1)]] nf p_def with_waypoint_provider_def
        with_waypoint_preprocessor_def with_segmenter_def)
  have p2: "pl_config p = iq_config q"
    "pl_waypoint_provider p = Some (\<lambda>w. (bind_res (matrix_rows (iq_waypoints q)) wa_of_matrix, w))"
    "pl_preprocessor p = Some (\<lambda>a w. (bind_res (finite_vector [iq_dedup_tolerance q]) (\<lambda>tol. deduplicate_waypoints a (tol ! 0)), w))"
    "pl_validator p = None" "pl_segmenter p = Some (\<lambda>a w. (segment_at_reversals a k_reversal_threshold, w))"
    "pl_totg p = Some (totg_algorithm n f)" "pl_legacy p = None" by (simp_all add: p_def)
  note p = p1 p2
  have c: "bind_res (bind_res (matrix_rows (iq_waypoints q)) wa_of_matrix)
      (\<lambda>a. bind_res (finite_vector [iq_dedup_tolerance q]) (\<lambda>tol. deduplicate_waypoints a (tol ! 0))) = cleaned q"
    by (cases "matrix_rows (iq_waypoints q)") (simp_all add: cleaned_def)
  have i: "infer legacy_enabled lib sc inputs = bind_res (fst (fst (execute lib fresh_result decide p ())))
      (\<lambda>r. case r of None \<Rightarrow> Inr Map.empty | Some data \<Rightarrow> pack_result data)"
    by (simp add: infer_def assms(2) p(1))
  note x = execute_quiet [OF p(3-8), of lib fresh_result decide "()", unfolded c p(2) conjunct2 [OF request_base [OF assms(2)]]]
  show ?thesis
  proof (cases "cleaned q")
    case (Inl e)
    then show ?thesis unfolding i x by simp
  next
    case (Inr a)
    show ?thesis
    proof (cases "wa_size a < 2")
      case True
      with Inr show ?thesis unfolding i x by (simp add: Let_def decide_alone) (simp add: no_outcome_def)
    next
      case False
      show ?thesis
      proof (cases "segment_at_reversals a k_reversal_threshold")
        case (Inl e)
        with Inr False show ?thesis unfolding i x by (simp add: Let_def)
      next
        case s: (Inr segs)
        obtain t where t: "run_segments (totg_generator (iq_config q)) (totg_algorithm n f)
            (if sc_segment_for_trajex sc then segs else [a]) fresh_result () = (t, ())" by (metis surj_pair unit_eq)
        show ?thesis
        proof (cases t)
          case (Inl e)
          with Inr False s t show ?thesis unfolding i x by (simp add: Let_def nf)
        next
          case (Inr u)
          with \<open>cleaned q = Inr a\<close> False s t show ?thesis unfolding i x
            by (simp add: Let_def nf decide_alone split: option.splits)
        qed
      qed
    qed
  qed
qed


lemma segments_covering:
  assumes "wa_inv a" "2 \<le> wa_size a" "wa_dof a \<le> 10 ^ 12"
  obtains segs where "segment_at_reversals a k_reversal_threshold = Inr segs"
    "covering sc a (if sc_segment_for_trajex sc then segs else [a])" "(if sc_segment_for_trajex sc then segs else [a]) \<noteq> []"
    "\<forall>seg \<in> set (if sc_segment_for_trajex sc then segs else [a]). passes seg \<and> wa_dof seg = wa_dof a"
proof -
  obtain segs where "segment_at_reversals a k_reversal_threshold = Inr segs" "stitch (map wa_points segs) = wa_points a"
    "successively (\<lambda>s t. last s = hd t) (map wa_points segs)"
    "\<forall>s \<in> set segs. wa_inv s \<and> wa_dof s = wa_dof a \<and> 2 \<le> wa_size s \<and> cusp_count k_reversal_threshold (wa_points s) = 0"
    "length segs = Suc (cusp_count k_reversal_threshold (wa_points a))"
    using segment_at_reversals_lemma [OF assms(1,2)] by metis
  moreover from this(5) have "segs \<noteq> []" by auto
  ultimately show thesis using that [of segs] assms(1,3) by (auto simp: covering_def passes_def)
qed

lemma motions_sized:
  assumes "list_all2 (segment_motion cfg f) segs ms" "\<forall>seg \<in> set segs. wa_dof seg = n"
  shows "\<forall>smp \<in> set (concat (map snd ms)). sized n smp"
proof
  fix smp assume "smp \<in> set (concat (map snd ms))"
  then obtain m where m: "m \<in> set ms" "smp \<in> set (snd m)" by auto
  obtain tr rows where tr: "m = (tr, rows)" by fastforce
  obtain seg where seg: "seg \<in> set segs" "segment_motion cfg f seg m"
    using assms(1) m(1) by (metis in_set_conv_nth list_all2_conv_all_nth)
  then obtain ts where "sampled_motion tr n ts rows" using assms(2) unfolding segment_motion_def tr prod.case by metis
  moreover obtain i where "i < length rows" "rows ! i = smp" using m(2) tr by (auto simp: in_set_conv_nth)
  ultimately show "sized n smp" unfolding sampled_motion_def by metis
qed

text \<open>
  What a call answers for the segments: the tensors of all their motions, or the error of the first segment that
  has one.
\<close>

definition infers :: "planner_config \<Rightarrow> dbl \<Rightarrow> nat \<Rightarrow> waypoint_accumulator list \<Rightarrow> named_tensor_views res \<Rightarrow> bool" where
  "infers cfg f n segs out \<longleftrightarrow>
     (case map_res (segment_result cfg f) segs of
        Inl e \<Rightarrow> out = Inl e
      | Inr ms \<Rightarrow> out = Inr (sampled_views n (concat (map snd ms))) \<and> list_all2 (segment_motion cfg f) segs ms)"

lemma segments_inferred:
  assumes "set (sc_generator_sequence sc) = {''totg''}" "read_request sc inputs = Inr q" "iq_waypoints q = (r, n, xs)" "n \<le> 10 ^ 12"
    and Inr: "cleaned q = Inr a" and False: "\<not> wa_size a < 2"
  shows "\<exists>segs. covering sc a segs \<and>
    ((\<forall>seg \<in> set segs. \<forall>tr. totg_generator (iq_config q) seg = Inr tr \<longrightarrow> forward_motion tr) \<longrightarrow>
     infers (iq_config q) (iq_sampling_freq q) n segs (infer legacy_enabled lib sc inputs))"
proof -
  have a: "wa_inv a" "wa_dof a = n" using cleaned_inv [OF Inr] assms(3) by simp_all
  have size: "2 \<le> wa_size a" "wa_dof a \<le> 10 ^ 12" using False a(2) assms(4) by simp_all
  obtain segs where segs: "segment_at_reversals a k_reversal_threshold = Inr segs"
    "covering sc a (if sc_segment_for_trajex sc then segs else [a])" "(if sc_segment_for_trajex sc then segs else [a]) \<noteq> []"
    "\<forall>seg \<in> set (if sc_segment_for_trajex sc then segs else [a]). passes seg \<and> wa_dof seg = wa_dof a"
    by (rule segments_covering [OF a(1) size])
  define ss where "ss = (if sc_segment_for_trajex sc then segs else [a])"
  note segs = segs [folded ss_def]
  let ?cfg = "iq_config q" and ?f = "iq_sampling_freq q"
  let ?run = "run_segments (totg_generator ?cfg) (totg_algorithm n ?f) ss fresh_result ()"
  have i: "infer legacy_enabled lib sc inputs = bind_res (fst ?run)
      (\<lambda>t. case oc_receiver t of Some r \<Rightarrow> pack_result r
         | None \<Rightarrow> (case oc_error t of Some e \<Rightarrow> Inl e
             | None \<Rightarrow> Inl (Logic_error ''trajectory generation returned neither results nor an error'')))"
    using Inr False segs(1) assms(3) unfolding infer_runs [OF assms(1,2)] ss_def by simp
  have fresh: "received n [] fresh_result" by (simp add: received_def fresh_result_def)
  have dims: "\<forall>seg \<in> set ss. passes seg \<and> wa_dof seg = n" using segs(4) a(2) by simp
  have "infers ?cfg ?f n ss (infer legacy_enabled lib sc inputs)"
    if fwd: "\<forall>seg \<in> set ss. \<forall>tr. totg_generator ?cfg seg = Inr tr \<longrightarrow> forward_motion tr"
  proof (cases "map_res (segment_result ?cfg ?f) ss")
    case (Inl e)
    with run_received [OF dims fwd fresh, of ?f "()"] i show ?thesis by (cases "what e") (simp_all add: infers_def)
  next
    case ms: (Inr ms')
    with run_received [OF dims fwd fresh, of ?f "()"] obtain r' where
      r': "list_all2 (segment_motion ?cfg ?f) ss ms'" "?run = (Inr \<lparr>oc_receiver = Some r', oc_error = None\<rparr>, ())" "received n ms' r'"
      by auto
    have "ms' \<noteq> []" using r'(1) segs(3) by auto
    with packed [of n ms' r'] r'(3) motions_sized [OF r'(1), of n] dims
    have "pack_result r' = Inr (sampled_views n (concat (map snd ms')))" by simp
    with ms r'(1,2) i show ?thesis by (simp add: infers_def)
  qed
  with segs(2) show ?thesis by blast
qed

text \<open>
  C16: Inference with the one generator. A request whose waypoints cannot be read fails with that error; one that keeps fewer than two
  waypoints gives no tensors. Otherwise the segments share their ends and cover the waypoints (or are the one whole), and, as long as
  the trajectories generated for these segments are forward motions, planning, sampler and samples of each segment in turn decide: the call throws
  what stopped the first segment that failed; if none does, every segment has a trajectory planned soundly from it, and the four tensors are the
  samples of those trajectories one after the other, as many rows as there are samples and as wide as the limits, each segment's evenly
  spaced and ending at rest at its last waypoint. The mismatches of sizes the code guards against never occur. The times of each
  segment start again at zero.
\<close>

theorem infer_spec:
  assumes "set (sc_generator_sequence sc) = {''totg''}" "read_request sc inputs = Inr q" "iq_waypoints q = (r, n, xs)" "n \<le> 10 ^ 12"
  shows "case cleaned q of
      Inl e \<Rightarrow> infer legacy_enabled lib sc inputs = Inl e
    | Inr a \<Rightarrow>
        if wa_size a < 2 then infer legacy_enabled lib sc inputs = Inr Map.empty
        else \<exists>segs. covering sc a segs \<and>
          ((\<forall>seg \<in> set segs. \<forall>tr. totg_generator (iq_config q) seg = Inr tr \<longrightarrow> forward_motion tr) \<longrightarrow>
           (case map_res (segment_result (iq_config q) (iq_sampling_freq q)) segs of
              Inl e \<Rightarrow> infer legacy_enabled lib sc inputs = Inl e
            | Inr ms \<Rightarrow> infer legacy_enabled lib sc inputs = Inr (sampled_views n (concat (map snd ms))) \<and>
                list_all2 (segment_motion (iq_config q) (iq_sampling_freq q)) segs ms))"
proof (cases "cleaned q")
  case (Inl e)
  then show ?thesis by (simp add: infer_runs [OF assms(1,2)])
next
  case (Inr a)
  show ?thesis
  proof (cases "wa_size a < 2")
    case True
    with Inr show ?thesis by (simp add: infer_runs [OF assms(1,2)])
  next
    case False
    with segments_inferred [OF assms Inr False, unfolded infers_def] Inr show ?thesis by simp
  qed
qed

text \<open>The witness: the rail, as a request.\<close>

definition rail_service :: service_config where
  "rail_service = \<lparr>sc_generator_sequence = [''totg''], sc_segment_for_trajex = False\<rparr>"

definition rail_request :: named_tensor_views where
  "rail_request =
     [''waypoints_rads'' \<mapsto> Double_view [2, 1] [0, Fin (5 / 2)], ''velocity_limits_rads_per_sec'' \<mapsto> Double_view [1] [Fin 10000],
      ''acceleration_limits_rads_per_sec2'' \<mapsto> Double_view [1] [Fin 1000000], ''path_tolerance_delta_rads'' \<mapsto> Double_view [1] [0],
      ''path_colinearization_ratio'' \<mapsto> Double_view [1] [0],
      ''waypoint_deduplication_tolerance_rads'' \<mapsto> Double_view [1] [Fin (1 / 10 ^ 5)],
      ''trajectory_sampling_freq_hz'' \<mapsto> Int64_view [1] [100]]"

definition rail_inference :: inference_request where
  "rail_inference = \<lparr>iq_waypoints = (2, 1, [0, Fin (5 / 2)]), iq_config = rail_config\<lparr>pc_segment_totg := False\<rparr>,
     iq_dedup_tolerance = Fin (1 / 10 ^ 5), iq_sampling_freq = 100\<rparr>"

lemma rail_read: "read_request rail_service rail_request = Inr rail_inference"
  by (simp add: read_request_def get_double_tensor_def get_int64_tensor_def get_scalar_double_def rail_request_def rail_inference_def
      rail_service_def rail_config_def finite_vector_def Let_def)

lemma rail_cleaned: "cleaned rail_inference = Inr rail_batch"
proof -
  have rows: "matrix_rows (2, 1, [0, Fin (5 / 2)]) = Inr \<lparr>m_rows = [[0], [5 / 2]], m_cols = 1\<rparr>"
    by (simp add: matrix_rows_def finite_vector_def upt_rec)
  from rail_deduplicated rows show ?thesis
    by (simp add: cleaned_def rail_inference_def rows [unfolded One_nat_def zero_Fin] wa_of_matrix_def finite_vector_def del: One_nat_def)
qed


lemma generator_ignores_segmentation [simp]: "totg_generator (cfg\<lparr>pc_segment_totg := b\<rparr>) seg = totg_generator cfg seg"
  by (simp add: totg_generator_def planner_path_options_def planner_trajectory_options_def Let_def cong: option.case_cong)

definition no_sampled_library :: "unit sampled_legacy_library" where
  "no_sampled_library = \<lparr>lg_generate = \<lambda>_ _ _ _. Inl (Runtime_error ''no library''), lg_is_valid = \<lambda>_. False,
     lg_duration = \<lambda>_. 0, lg_position = \<lambda>_ _. Inr [], lg_velocity = \<lambda>_ _. Inr []\<rparr>"

lemma rail_even_times: "even_times (7 / 2000) 100 = [0, Fin (7 / 2000)]"
  by (simp add: even_times_def Let_def ceiling_unique [of 0] upt_rec)

lemma rail_inference_ok:
  assumes tr: "trajectory_create rail (scaled_options 1000 (1 / 10 ^ 6)) [] = Inr tr" "forward_motion tr"
    "tr_duration tr = Fin (7 / 2000)"
  shows "\<exists>rows. segment_result (rail_config\<lparr>pc_segment_totg := False\<rparr>) 100 rail_batch = Inr (tr, rows)"
proof -
  obtain u where u: "quantized_for_trajectory tr 100 0 = Inr u"
    by (simp add: quantized_for_trajectory_def Let_def tr(3) quantized_samples_cases ceiling_unique [of 0])
  have "trajectory_sample tr t \<noteq> Inl e" if "t \<in> set (even_times (7 / 2000) 100)" for t e
    using that scaled_sample [OF quick_scale tr(1), of 0] scaled_sample [OF quick_scale tr(1), of "7 / 2000"] by (auto simp: rail_even_times)
  then obtain rows where "sample_all tr (even_times (7 / 2000) 100) = Inr rows"
    using sample_all_Inl by (cases "sample_all tr (even_times (7 / 2000) 100)") blast+
  moreover have "fin 100 = 100" by simp
  ultimately show ?thesis
    using rail_generated [OF tr(1)] u tr(3) by (simp add: segment_result_def)
qed

theorem infer_spec_witness:
  "\<exists>rows. infer False no_sampled_library rail_service rail_request = Inr (sampled_views 1 rows) \<and> map sm_time rows = [0, Fin (7 / 2000)]"
proof -
  obtain tr where tr: "trajectory_create rail (scaled_options 1000 (1 / 10 ^ 6)) [] = Inr tr" "forward_motion tr"
    "tr_duration tr = Fin (7 / 2000)"
    by (rule scaled_trajectory [OF quick_scale]) simp
  note gen = rail_generated [OF tr(1)]
  let ?cfg = "rail_config\<lparr>pc_segment_totg := False\<rparr>"
  have cover: "covering rail_service rail_batch segs \<longleftrightarrow> segs = [rail_batch]" for segs by (simp add: covering_def rail_service_def)
  have fwd: "\<forall>tr. totg_generator ?cfg rail_batch = Inr tr \<longrightarrow> forward_motion tr" using gen tr(2) by simp
  obtain rows0 where rows0: "segment_result ?cfg 100 rail_batch = Inr (tr, rows0)" using rail_inference_ok [OF tr] by blast
  have req: "iq_config rail_inference = ?cfg" "iq_sampling_freq rail_inference = 100" "iq_waypoints rail_inference = (2, 1, [0, Fin (5 / 2)])"
    by (simp_all add: rail_inference_def)
  have "set (sc_generator_sequence rail_service) = {''totg''}" by (simp add: rail_service_def)
  from infer_spec [of rail_service rail_request rail_inference 2 1 "[0, Fin (5 / 2)]" False no_sampled_library, OF this rail_read req(3)]
  have r: "segment_motion ?cfg 100 rail_batch (tr, rows0)" "infer False no_sampled_library rail_service rail_request = Inr (sampled_views 1 rows0)"
    using fwd rows0 unfolding req by (auto simp: rail_cleaned cover wa_size_def simp del: One_nat_def)
  then obtain d g where d: "tr_duration tr = Fin d" "100 = Fin g" "sampled_motion tr 1 (even_times d g) rows0"
    by (auto simp: segment_motion_def simp del: One_nat_def)
  then have "d = 7 / 2000" "g = 100" using tr(3) by simp_all
  with d(3) have "map sm_time rows0 = even_times (7 / 2000) 100" by (simp add: sampled_motion_def list_eq_iff_nth_eq)
  with r(2) rail_even_times show ?thesis by (intro exI [of _ rows0]) simp
qed

end
