(* ===== verification/Replay.thy ===== *)
theory Replay
  imports Planner
begin

text \<open>
  Replay records (\<open>planner_base::serialize_for_replay\<close> in \<open>totg/tools/planner.cpp\<close>, and \<open>totg/tools/replay.cpp\<close>): a
  planner's configuration and waypoints written as JSON, read back, and the planners made from a record. A JSON value is a tree; its text, and how
  a value that is no number converts to one, are the JSON library's and parameters. The collector of events that a replay attaches does
  not take part.
\<close>

section \<open>JSON values\<close>

datatype json = J_null | J_bool bool | J_number dbl | J_string string | J_array "json list" | J_object "string \<Rightarrow> json option" | J_other

record 't json_library =
  js_write :: "json \<Rightarrow> 't"
  js_read :: "'t \<Rightarrow> string + json"
  js_convert :: "json \<Rightarrow> dbl res"

definition as_double :: "('t, 'z) json_library_scheme \<Rightarrow> json \<Rightarrow> dbl res" where
  "as_double lib v = (case v of J_number x \<Rightarrow> Inr x | _ \<Rightarrow> js_convert lib v)"

text \<open>An element of a constant value by its key: what is absent reads as null, and only objects and null have keys.\<close>

definition json_get :: "json \<Rightarrow> string \<Rightarrow> json res" where
  "json_get v k =
     (case v of
        J_object m \<Rightarrow> Inr (case m k of None \<Rightarrow> J_null | Some x \<Rightarrow> x)
      | J_null \<Rightarrow> Inr J_null
      | _ \<Rightarrow> Inl (Logic_error ''requires objectValue or nullValue''))"

definition is_member :: "json \<Rightarrow> string \<Rightarrow> bool res" where
  "is_member v k =
     (case v of
        J_object m \<Rightarrow> Inr (m k \<noteq> None)
      | J_null \<Rightarrow> Inr False
      | _ \<Rightarrow> Inl (Logic_error ''requires objectValue or nullValue''))"

fun array_elements :: "json \<Rightarrow> json list option" where
  "array_elements (J_array xs) = Some xs"
| "array_elements _ = None"

fun as_doubles :: "('t, 'z) json_library_scheme \<Rightarrow> json list \<Rightarrow> dbl list res" where
  "as_doubles lib [] = Inr []"
| "as_doubles lib (v # vs) = bind_res (as_double lib v) (\<lambda>x. bind_res (as_doubles lib vs) (\<lambda>xs. Inr (x # xs)))"

section \<open>Writing a record\<close>

fun arr3_list :: "'a arr3 \<Rightarrow> 'a list" where
  "arr3_list (V3 x y z) = [x, y, z]"

fun arr4_list :: "'a arr4 \<Rightarrow> 'a list" where
  "arr4_list (Q4 w x y z) = [w, x, y, z]"

definition json_array :: "dbl list \<Rightarrow> json" where
  "json_array values = J_array (map J_number values)"

definition chain_entry :: "joint_origin \<Rightarrow> string \<Rightarrow> json option" where
  "chain_entry origin =
     [''xyz'' \<mapsto> json_array (arr3_list (jo_translation origin)), ''wxyz'' \<mapsto> json_array (arr4_list (jo_rotation origin))]"

fun chain_writer :: "joint_call \<Rightarrow> json" where
  "chain_writer (Extend_fixed origin) = J_object (chain_entry origin)"
| "chain_writer (Extend_rotating origin axis) = J_object ((chain_entry origin)(''rotation_axis'' \<mapsto> json_array (arr3_list axis)))"
| "chain_writer (Extend_translating origin axis) = J_object ((chain_entry origin)(''translation_axis'' \<mapsto> json_array (arr3_list axis)))"

definition put_optional :: "string \<Rightarrow> json option \<Rightarrow> (string \<Rightarrow> json option) \<Rightarrow> string \<Rightarrow> json option" where
  "put_optional k v doc = (case v of None \<Rightarrow> doc | Some x \<Rightarrow> doc(k \<mapsto> x))"

definition replay_record :: "string \<Rightarrow> planner_config \<Rightarrow> waypoint_accumulator \<Rightarrow> string option \<Rightarrow> json" where
  "replay_record timestamp cfg waypoints error_message =
     (let path_opts = planner_path_options cfg;
          doc = [''schema_version'' \<mapsto> J_number 3, ''timestamp'' \<mapsto> J_string timestamp];
          doc = put_optional ''error_message'' (map_option J_string error_message) doc;
          doc = doc(''path_tolerance_delta_rads'' \<mapsto> J_number (pc_path_blend_tolerance cfg));
          doc = put_optional ''path_colinearization_ratio'' (map_option J_number (pc_colinearization_ratio cfg)) doc;
          doc = doc(''max_velocity_vec_rads_per_sec'' \<mapsto> json_array (map Fin (pc_velocity_limits cfg)),
                      ''max_acceleration_vec_rads_per_sec2'' \<mapsto> json_array (map Fin (pc_acceleration_limits cfg)),
                      ''min_blend_curvature'' \<mapsto> J_number (opt_min_blend_curvature path_opts),
                      ''max_blend_curvature'' \<mapsto> J_number (opt_max_blend_curvature path_opts));
          doc = put_optional ''kinematics_chain'' (map_option (\<lambda>c. J_array (map chain_writer (visit_joints c))) (pc_kinematics_chain cfg)) doc;
          doc = put_optional ''tcp_max_linear_speed'' (map_option J_number (pc_tcp_max_linear_speed cfg)) doc
      in J_object (doc(''waypoints_rads'' \<mapsto> J_array (map (\<lambda>w. json_array (map Fin w)) (wa_points waypoints)))))"

text \<open>The clock may fail to give a date.\<close>

definition serialize_for_replay ::
  "('t, 'z) json_library_scheme \<Rightarrow> string option \<Rightarrow> planner_config \<Rightarrow> waypoint_accumulator \<Rightarrow> string option \<Rightarrow> 't res" where
  "serialize_for_replay lib now cfg waypoints error_message =
     (case now of
        None \<Rightarrow> Inl (Runtime_error ''failed to convert time to iso8601'')
      | Some timestamp \<Rightarrow> Inr (js_write lib (replay_record timestamp cfg waypoints error_message)))"

section \<open>Reading a record\<close>

definition require_field :: "json \<Rightarrow> string \<Rightarrow> json res" where
  "require_field doc field =
     bind_res (is_member doc field) (\<lambda>present.
       if \<not> present then Inl (Runtime_error (''replay record missing required field: '' @ field)) else json_get doc field)"

definition require_array :: "json \<Rightarrow> string \<Rightarrow> json list res" where
  "require_array v field =
     (case array_elements v of
        None \<Rightarrow> Inl (Runtime_error (field @ '' must be a non-empty array''))
      | Some xs \<Rightarrow> if xs = [] then Inl (Runtime_error (field @ '' must be a non-empty array'')) else Inr xs)"

fun read_waypoints :: "('t, 'z) json_library_scheme \<Rightarrow> nat \<Rightarrow> json list \<Rightarrow> xvector list res" where
  "read_waypoints lib dof [] = Inr []"
| "read_waypoints lib dof (wp # wps) =
     (case array_elements wp of
        None \<Rightarrow> Inl (Runtime_error ''waypoint has wrong number of joints'')
      | Some vs \<Rightarrow>
          if length vs \<noteq> dof then Inl (Runtime_error ''waypoint has wrong number of joints'')
          else
            bind_res (bind_res (as_doubles lib vs) finite_vector) (\<lambda>w.
            bind_res (read_waypoints lib dof wps) (\<lambda>ws. Inr (w # ws))))"

definition optional_double :: "('t, 'z) json_library_scheme \<Rightarrow> json \<Rightarrow> string \<Rightarrow> dbl option res" where
  "optional_double lib doc field =
     bind_res (is_member doc field) (\<lambda>present.
       if \<not> present then Inr None
       else bind_res (json_get doc field) (\<lambda>v. bind_res (as_double lib v) (\<lambda>x. Inr (Some x))))"

definition chain_joint_field :: "('t, 'z) json_library_scheme \<Rightarrow> nat \<Rightarrow> json \<Rightarrow> nat \<Rightarrow> string \<Rightarrow> dbl list res" where
  "chain_joint_field lib n joint index key =
     bind_res (json_get joint key) (\<lambda>value.
       let bad = Inl (Runtime_error (''kinematics_chain joint '' @ string_of_size index @ '' field '' @ key @ '' must be an array of '' @
             string_of_size n @ '' numbers''))
       in case array_elements value of None \<Rightarrow> bad | Some xs \<Rightarrow> if length xs \<noteq> n then bad else as_doubles lib xs)"

definition list_arr3 :: "dbl list \<Rightarrow> dbl arr3" where
  "list_arr3 xs = V3 (xs ! 0) (xs ! 1) (xs ! 2)"

definition list_arr4 :: "dbl list \<Rightarrow> dbl arr4" where
  "list_arr4 xs = Q4 (xs ! 0) (xs ! 1) (xs ! 2) (xs ! 3)"

definition read_joint :: "('t, 'z) json_library_scheme \<Rightarrow> nat \<Rightarrow> json \<Rightarrow> chain_builder \<Rightarrow> chain_builder res" where
  "read_joint lib i joint builder =
     bind_res (chain_joint_field lib 3 joint i ''xyz'') (\<lambda>xyz.
     bind_res (chain_joint_field lib 4 joint i ''wxyz'') (\<lambda>wxyz.
     let origin = \<lparr>jo_translation = list_arr3 xyz, jo_rotation = list_arr4 wxyz\<rparr> in
     bind_res (is_member joint ''rotation_axis'') (\<lambda>rotates.
     bind_res (is_member joint ''translation_axis'') (\<lambda>translates.
       if rotates \<and> translates
       then Inl (Runtime_error (''kinematics_chain joint '' @ string_of_size i @ '' has both a rotation_axis and a translation_axis''))
       else if rotates
       then bind_res (chain_joint_field lib 3 joint i ''rotation_axis'') (\<lambda>axis. Inr (extend_rotating origin (list_arr3 axis) builder))
       else if translates
       then bind_res (chain_joint_field lib 3 joint i ''translation_axis'') (\<lambda>axis. Inr (extend_translating origin (list_arr3 axis) builder))
       else Inr (extend_fixed origin builder)))))"

fun read_joints :: "('t, 'z) json_library_scheme \<Rightarrow> nat \<Rightarrow> json list \<Rightarrow> chain_builder \<Rightarrow> chain_builder res" where
  "read_joints lib i [] builder = Inr builder"
| "read_joints lib i (joint # joints) builder =
     bind_res (read_joint lib i joint builder) (read_joints lib (Suc i) joints)"

definition read_chain :: "('t, 'z) json_library_scheme \<Rightarrow> json \<Rightarrow> chain option res" where
  "read_chain lib doc =
     bind_res (is_member doc ''kinematics_chain'') (\<lambda>present.
       if \<not> present then Inr None
       else
         bind_res (json_get doc ''kinematics_chain'') (\<lambda>v.
         case array_elements v of
           Some (j # js) \<Rightarrow> bind_res (bind_res (read_joints lib 0 (j # js) []) chain_build) (\<lambda>c. Inr (Some c))
         | _ \<Rightarrow> Inl (Runtime_error ''kinematics_chain must be a non-empty array of joints'')))"

definition read_tcp_cap :: "('t, 'z) json_library_scheme \<Rightarrow> json \<Rightarrow> chain option \<Rightarrow> dbl option res" where
  "read_tcp_cap lib doc ch =
     bind_res (is_member doc ''tcp_max_linear_speed'') (\<lambda>present.
       if present \<and> ch = None
       then Inl (Runtime_error ''tcp_max_linear_speed given without a kinematics_chain to apply it to'')
       else optional_double lib doc ''tcp_max_linear_speed'')"

definition parse_replay_record :: "('t, 'z) json_library_scheme \<Rightarrow> 't \<Rightarrow> (planner_config \<times> xmatrix) res" where
  "parse_replay_record lib input =
     bind_res (case js_read lib input of
         Inl errs \<Rightarrow> Inl (Runtime_error (''failed to parse replay record JSON: '' @ errs))
       | Inr doc \<Rightarrow> Inr doc) (\<lambda>doc.
     bind_res (require_field doc ''max_velocity_vec_rads_per_sec'') (\<lambda>vel_json.
     bind_res (require_field doc ''max_acceleration_vec_rads_per_sec2'') (\<lambda>acc_json.
     bind_res (require_field doc ''waypoints_rads'') (\<lambda>wps_json.
     bind_res (require_array vel_json ''max_velocity_vec_rads_per_sec'') (\<lambda>vel.
     bind_res (require_array acc_json ''max_acceleration_vec_rads_per_sec2'') (\<lambda>acc.
     bind_res (require_array wps_json ''waypoints_rads'') (\<lambda>wps.
     let dof = length vel in
     bind_res (bind_res (as_doubles lib vel) finite_vector) (\<lambda>velocity_limits.
     bind_res (bind_res (as_doubles lib acc) finite_vector) (\<lambda>acceleration_limits.
     bind_res (read_waypoints lib dof wps) (\<lambda>waypoints.
     bind_res (optional_double lib doc ''path_tolerance_delta_rads'') (\<lambda>tolerance.
     bind_res (optional_double lib doc ''path_colinearization_ratio'') (\<lambda>ratio.
     bind_res (optional_double lib doc ''min_blend_curvature'') (\<lambda>min_curvature.
     bind_res (optional_double lib doc ''max_blend_curvature'') (\<lambda>max_curvature.
     bind_res (read_chain lib doc) (\<lambda>ch.
     bind_res (read_tcp_cap lib doc ch) (\<lambda>cap.
       Inr (\<lparr>pc_velocity_limits = velocity_limits, pc_acceleration_limits = acceleration_limits,
             pc_path_blend_tolerance = (case tolerance of None \<Rightarrow> 0 | Some t \<Rightarrow> t), pc_colinearization_ratio = ratio,
             pc_min_blend_curvature = min_curvature, pc_max_blend_curvature = max_curvature, pc_segment_totg = True,
             pc_kinematics_chain = ch, pc_tcp_max_linear_speed = cap\<rparr>,
            \<lparr>m_rows = waypoints, m_cols = dof\<rparr>)))))))))))))))))"

section \<open>Planners from a record\<close>

type_synonym 'l replay_planner = "(trajectory option, 'l, unit) planner"

definition replay_prefix :: "nat option \<Rightarrow> xmatrix \<Rightarrow> xmatrix res" where
  "replay_prefix prefix_waypoint_count waypoints =
     (case prefix_waypoint_count of
        None \<Rightarrow> Inr waypoints
      | Some n \<Rightarrow>
          if n = 0 \<or> length (m_rows waypoints) < n
          then Inl (Out_of_range (''replay_planner prefix_waypoint_count '' @ string_of_size n @ '' is out of range for a record with '' @
                 string_of_size (length (m_rows waypoints)) @ '' waypoints''))
          else Inr (if n < length (m_rows waypoints) then waypoints\<lparr>m_rows := take n (m_rows waypoints)\<rparr> else waypoints))"

definition replay_planner :: "('t, 'z) json_library_scheme \<Rightarrow> 't \<Rightarrow> nat option \<Rightarrow> 'l replay_planner res" where
  "replay_planner lib input prefix_waypoint_count =
     bind_res (parse_replay_record lib input) (\<lambda>(cfg, waypoints).
     bind_res (replay_prefix prefix_waypoint_count waypoints) (\<lambda>data.
     bind_res (make_planner cfg) (\<lambda>p.
       Inr (with_totg (\<lambda>_ _ traj w. ((Inr (), Some traj), w)) None (with_waypoint_provider (\<lambda>w. (wa_of_matrix data, w)) p)))))"

text \<open>The legacy replay drops the cap, which that generator cannot keep.\<close>

definition legacy_replay_planner :: "('t, 'z) json_library_scheme \<Rightarrow> 't \<Rightarrow> ('l option, 'l, unit) planner res" where
  "legacy_replay_planner lib input =
     bind_res (parse_replay_record lib input) (\<lambda>(cfg, waypoints).
     bind_res (make_planner (cfg\<lparr>pc_tcp_max_linear_speed := None\<rparr>)) (\<lambda>p.
       with_legacy (\<lambda>_ _ traj w. ((Inr (), Some traj), w)) None (with_waypoint_provider (\<lambda>w. (wa_of_matrix waypoints, w)) p)))"

end
