(* ===== verification/Replay_Properties.thy ===== *)
theory Replay_Properties
  imports Replay Planner_Properties
begin

text \<open>
  Reading a replay record gives back the configuration and the waypoints it was written from, as far as they matter to the
  generator, and so the same run.
\<close>

section \<open>Reading what was written\<close>

lemma as_doubles_numbers [simp]: "as_doubles lib (map J_number xs) = Inr xs"
  by (induction xs) (simp_all add: as_double_def)

lemma array_elements_json_array [simp]: "array_elements (json_array xs) = Some (map J_number xs)"
  by (simp add: json_array_def)

lemma list_arr_inverse [simp]: "list_arr3 (arr3_list a) = a" "list_arr4 (arr4_list q) = q" "length (arr3_list a) = 3" "length (arr4_list q) = 4"
  by (cases a; cases q; simp add: list_arr3_def list_arr4_def)+

lemma chain_joint_field_written:
  "m key = Some (json_array xs) \<Longrightarrow> length xs = n \<Longrightarrow> chain_joint_field lib n (J_object m) i key = Inr xs"
  by (simp add: chain_joint_field_def json_get_def Let_def)

lemma read_joint_written: "read_joint lib i (chain_writer call) b = Inr (replay_call call b)"
  by (cases call; cases "case call of Extend_fixed x \<Rightarrow> x | Extend_rotating x a \<Rightarrow> x | Extend_translating x a \<Rightarrow> x")
    (simp_all add: read_joint_def chain_joint_field_written is_member_def chain_entry_def Let_def)

lemma read_joints_written: "read_joints lib i (map chain_writer calls) b = Inr (fold replay_call calls b)"
  by (induction calls arbitrary: i b) (simp_all add: read_joint_written)

lemma read_waypoints_written:
  "\<forall>w \<in> set ws. length w = n \<Longrightarrow> read_waypoints lib n (map (\<lambda>w. json_array (map Fin w)) ws) = Inr ws"
  by (induction ws) (simp_all add: finite_vector_def list_all_iff comp_def as_doubles_numbers [of _ "map Fin _", unfolded list.map_comp comp_def])

lemma record_lookups:
  obtains m where "replay_record ts cfg wps err = J_object m"
    "m ''max_velocity_vec_rads_per_sec'' = Some (json_array (map Fin (pc_velocity_limits cfg)))"
    "m ''max_acceleration_vec_rads_per_sec2'' = Some (json_array (map Fin (pc_acceleration_limits cfg)))"
    "m ''waypoints_rads'' = Some (J_array (map (\<lambda>w. json_array (map Fin w)) (wa_points wps)))"
    "m ''path_tolerance_delta_rads'' = Some (J_number (pc_path_blend_tolerance cfg))"
    "m ''path_colinearization_ratio'' = map_option J_number (pc_colinearization_ratio cfg)"
    "m ''min_blend_curvature'' = Some (J_number (opt_min_blend_curvature (planner_path_options cfg)))"
    "m ''max_blend_curvature'' = Some (J_number (opt_max_blend_curvature (planner_path_options cfg)))"
    "m ''kinematics_chain'' = map_option (\<lambda>c. J_array (map chain_writer (visit_joints c))) (pc_kinematics_chain cfg)"
    "m ''tcp_max_linear_speed'' = map_option J_number (pc_tcp_max_linear_speed cfg)"
  by (rule that [OF replay_record_def [unfolded Let_def]])
    (cases "pc_colinearization_ratio cfg"; cases "pc_kinematics_chain cfg"; cases "pc_tcp_max_linear_speed cfg"; cases err;
     simp add: put_optional_def)+


section \<open>Replaying\<close>

text \<open>The configuration a record gives back: the curvatures are written as they were used, and whether to segment is not written.\<close>

definition replayed :: "planner_config \<Rightarrow> planner_config" where
  "replayed cfg = cfg\<lparr>pc_min_blend_curvature := Some (opt_min_blend_curvature (planner_path_options cfg)),
     pc_max_blend_curvature := Some (opt_max_blend_curvature (planner_path_options cfg)), pc_segment_totg := True\<rparr>"

lemma replayed_generator: "totg_generator (replayed cfg) = totg_generator cfg" "planner_base (replayed cfg) = Inr (replayed cfg) \<longleftrightarrow> planner_base cfg = Inr cfg"
proof -
  have "planner_path_options (replayed cfg) = planner_path_options cfg"
    by (cases "pc_colinearization_ratio cfg"; cases "pc_min_blend_curvature cfg"; cases "pc_max_blend_curvature cfg")
      (simp_all add: planner_path_options_def replayed_def set_max_blend_deviation_def set_max_linear_deviation_def
        set_min_blend_curvature_def set_max_blend_curvature_def default_path_options_def Let_def)
  moreover have "planner_trajectory_options (replayed cfg) = planner_trajectory_options cfg"
    by (simp add: planner_trajectory_options_def replayed_def cong: option.case_cong)
  ultimately show "totg_generator (replayed cfg) = totg_generator cfg" by (simp add: totg_generator_def fun_eq_iff)
  show "planner_base (replayed cfg) = Inr (replayed cfg) \<longleftrightarrow> planner_base cfg = Inr cfg"
    by (auto simp: planner_base_def replayed_def split: option.splits if_splits)
qed

text \<open>What a planner can have been given: limits, a chain its builder made, and rows as wide as the limits.\<close>

definition replayable :: "planner_config \<Rightarrow> waypoint_accumulator \<Rightarrow> bool" where
  "replayable cfg wps \<longleftrightarrow> planner_base cfg = Inr cfg \<and> pc_velocity_limits cfg \<noteq> [] \<and> pc_acceleration_limits cfg \<noteq> [] \<and>
     (\<forall>c. pc_kinematics_chain cfg = Some c \<longrightarrow> (\<exists>joints. chain_build joints = Inr c)) \<and>
     wa_inv wps \<and> wa_points wps \<noteq> [] \<and> wa_dof wps = length (pc_velocity_limits cfg)"

lemma read_chain_written:
  assumes "m ''kinematics_chain'' = map_option (\<lambda>c. J_array (map chain_writer (visit_joints c))) ch"
    "\<And>c. ch = Some c \<Longrightarrow> \<exists>joints. chain_build joints = Inr c"
  shows "read_chain lib (J_object m) = Inr ch"
proof (cases ch)
  case (Some c)
  then obtain joints where c: "chain_build joints = Inr c" using assms(2) by blast
  from chain_rebuilt [OF c] have "chain_build (fold replay_call (visit_joints c) []) = Inr c" by (simp add: replay_def)
  moreover from this obtain j js where "visit_joints c = j # js" by (cases "visit_joints c") (auto simp: chain_build_def)
  ultimately show ?thesis using assms(1) Some read_joints_written [of lib 0 "visit_joints c" "[]"]
    by (simp add: read_chain_def is_member_def json_get_def)
qed (use assms(1) in \<open>simp add: read_chain_def is_member_def\<close>)

lemma optional_double_written: "m k = map_option J_number v \<Longrightarrow> optional_double lib (J_object m) k = Inr v"
  by (cases v) (simp_all add: optional_double_def is_member_def json_get_def as_double_def)

lemma finite_written: "finite_vector (map Fin xs) = Inr xs"
  by (simp add: finite_vector_def list_all_iff comp_def)

lemma parse_written:
  assumes "js_read lib input = Inr (replay_record ts cfg wps err)" "replayable cfg wps"
  shows "parse_replay_record lib input = Inr (replayed cfg, \<lparr>m_rows = wa_points wps, m_cols = wa_dof wps\<rparr>)"
proof -
  obtain m where root: "replay_record ts cfg wps err = J_object m" and m:
    "m ''max_velocity_vec_rads_per_sec'' = Some (json_array (map Fin (pc_velocity_limits cfg)))"
    "m ''max_acceleration_vec_rads_per_sec2'' = Some (json_array (map Fin (pc_acceleration_limits cfg)))"
    "m ''waypoints_rads'' = Some (J_array (map (\<lambda>w. json_array (map Fin w)) (wa_points wps)))"
    "m ''path_tolerance_delta_rads'' = Some (J_number (pc_path_blend_tolerance cfg))"
    "m ''path_colinearization_ratio'' = map_option J_number (pc_colinearization_ratio cfg)"
    "m ''min_blend_curvature'' = Some (J_number (opt_min_blend_curvature (planner_path_options cfg)))"
    "m ''max_blend_curvature'' = Some (J_number (opt_max_blend_curvature (planner_path_options cfg)))"
    "m ''kinematics_chain'' = map_option (\<lambda>c. J_array (map chain_writer (visit_joints c))) (pc_kinematics_chain cfg)"
    "m ''tcp_max_linear_speed'' = map_option J_number (pc_tcp_max_linear_speed cfg)"
    by (rule record_lookups)
  have fields: "require_field (J_object m) k = Inr v" if "m k = Some v" for k v
    using that by (simp add: require_field_def is_member_def json_get_def)
  have array: "require_array (json_array xs) k = Inr (map J_number xs)" if "xs \<noteq> []" for xs k
    using that by (simp add: require_array_def)
  have rows: "\<forall>w \<in> set (wa_points wps). length w = length (pc_velocity_limits cfg)" "wa_points wps \<noteq> []"
    using assms(2) by (auto simp: replayable_def wa_inv_def)
  have wps: "require_array (J_array (map (\<lambda>w. json_array (map Fin w)) (wa_points wps))) k =
      Inr (map (\<lambda>w. json_array (map Fin w)) (wa_points wps))" for k
    using rows(2) by (simp add: require_array_def)
  have ch: "read_chain lib (J_object m) = Inr (pc_kinematics_chain cfg)"
    by (rule read_chain_written [where m = m, OF m(8)]) (use assms(2) in \<open>simp add: replayable_def\<close>)
  have cap: "read_tcp_cap lib (J_object m) (pc_kinematics_chain cfg) = Inr (pc_tcp_max_linear_speed cfg)"
    using optional_double_written [where m = m, OF m(9)] assms(2) m(9)
    by (auto simp: read_tcp_cap_def is_member_def replayable_def planner_base_def split: if_splits)
  have doubles: "optional_double lib (J_object m) ''path_tolerance_delta_rads'' = Inr (Some (pc_path_blend_tolerance cfg))"
    "optional_double lib (J_object m) ''path_colinearization_ratio'' = Inr (pc_colinearization_ratio cfg)"
    "optional_double lib (J_object m) ''min_blend_curvature'' = Inr (Some (opt_min_blend_curvature (planner_path_options cfg)))"
    "optional_double lib (J_object m) ''max_blend_curvature'' = Inr (Some (opt_max_blend_curvature (planner_path_options cfg)))"
    by (rule optional_double_written; simp add: m(4-7))+
  show ?thesis
    using assms(2) read_waypoints_written [OF rows(1), of lib]
    unfolding parse_replay_record_def assms(1) root sum.case bind_res_simps fields [OF m(1)] fields [OF m(2)] fields [OF m(3)]
    by (simp add: array wps finite_written ch cap doubles replayable_def replayed_def del: list.map_comp map_map)
qed


lemma prefix_rows:
  assumes "\<And>n. k = Some n \<Longrightarrow> 1 \<le> n \<and> n \<le> length ws"
  shows "replay_prefix k \<lparr>m_rows = ws, m_cols = d\<rparr> = Inr \<lparr>m_rows = take (case k of None \<Rightarrow> length ws | Some n \<Rightarrow> n) ws, m_cols = d\<rparr>"
  using assms by (cases k) (auto simp: replay_prefix_def)

text \<open>
  C18: A replay reproduces the run. If the text of a record reads back as what was written, the planner made from it runs the generator on the recorded
  waypoints, or on as many of the first ones as asked for, exactly as the recorded planner's configuration would: it holds the same
  trajectory, or records, or throws on, the same exception. In particular the chain, which is written joint by joint, is rebuilt as it was, and
  the curvatures are those the run had used.
\<close>

theorem replay_reproduces:
  fixes legacy :: "('l, 'y) legacy_library_scheme"
  assumes "replayable cfg wps" "serialize_for_replay lib (Some ts) cfg wps err = Inr input"
    "js_read lib (js_write lib (replay_record ts cfg wps err)) = Inr (replay_record ts cfg wps err)"
    "\<And>n. k = Some n \<Longrightarrow> 1 \<le> n \<and> n \<le> wa_size wps"
  shows "\<exists>p. replay_planner lib input k = Inr p \<and>
    (let n = (case k of None \<Rightarrow> wa_size wps | Some n \<Rightarrow> n); seg = wps\<lparr>wa_points := take n (wa_points wps)\<rparr>
     in fst (fst (execute legacy None (\<lambda>_ totg _ w. (Inr totg, w)) p ())) =
       (if n < 2 then Inr no_outcome
        else case totg_generator cfg seg of
               Inr tr \<Rightarrow> Inr \<lparr>oc_receiver = Some (Some tr), oc_error = None\<rparr>
             | Inl e \<Rightarrow> if what e = None then Inl e else Inr \<lparr>oc_receiver = None, oc_error = Some e\<rparr>))"
proof -
  define n where "n = (case k of None \<Rightarrow> wa_size wps | Some n \<Rightarrow> n)"
  define seg where "seg = wps\<lparr>wa_points := take n (wa_points wps)\<rparr>"
  let ?data = "\<lparr>m_rows = take n (wa_points wps), m_cols = wa_dof wps\<rparr>"
  define p :: "'l replay_planner" where "p = with_totg (\<lambda>_ _ traj w. ((Inr (), Some traj), w)) None (with_waypoint_provider (\<lambda>w. (wa_of_matrix ?data, w))
      \<lparr>pl_config = replayed cfg, pl_processed_waypoint_count = 0, pl_waypoint_provider = None, pl_preprocessor = None,
       pl_validator = None, pl_segmenter = None, pl_totg = None, pl_legacy = None\<rparr>)"
  have ne: "wa_points wps \<noteq> []" "planner_base (replayed cfg) = Inr (replayed cfg)"
    using assms(1) by (simp_all add: replayable_def replayed_generator)
  have n: "1 \<le> n" "n \<le> length (wa_points wps)"
    using assms(4) ne(1) by (auto simp: n_def wa_size_def Suc_le_eq split: option.splits)
  have "js_read lib input = Inr (replay_record ts cfg wps err)" using assms(2,3) by (auto simp: serialize_for_replay_def)
  note parsed = parse_written [OF this assms(1)]
  have "replay_prefix k \<lparr>m_rows = wa_points wps, m_cols = wa_dof wps\<rparr> = Inr ?data"
    unfolding n_def wa_size_def by (rule prefix_rows) (use assms(4) in \<open>simp add: wa_size_def\<close>)
  with parsed have "replay_planner lib input k = Inr p"
    by (simp add: replay_planner_def make_planner_def ne(2) p_def)
  moreover have "wa_of_matrix ?data = Inr seg"
    using n ne(1) by (cases wps) (auto simp: wa_of_matrix_def seg_def)
  moreover have "wa_size seg = n" using n by (simp add: seg_def wa_size_def)
  ultimately show ?thesis
    unfolding n_def [symmetric] seg_def [symmetric] Let_def
    by (intro exI [of _ p])
      (simp add: p_def with_totg_def with_waypoint_provider_def execute_def segment_waypoints_def run_algorithm_def
        segment_failed_def Let_def replayed_generator no_outcome_def split: sum.split)
qed


text \<open>The witness: the run on the rail, through a library whose texts are the values themselves.\<close>

definition plain_json :: "json json_library" where
  "plain_json = \<lparr>js_write = id, js_read = Inr, js_convert = (\<lambda>_. Inl (Runtime_error ''Value is not convertible to double.''))\<rparr>"

theorem replay_reproduces_witness:
  "\<exists>p tr. replay_planner plain_json (replay_record ''now'' rail_config rail_batch None) (Some 2) = Inr p \<and>
     fst (fst (execute no_library None (\<lambda>_ totg _ w. (Inr totg, w)) p ())) = Inr \<lparr>oc_receiver = Some (Some tr), oc_error = None\<rparr>"
proof -
  obtain tr where tr: "trajectory_create rail (scaled_options 1000 (1 / 10 ^ 6)) [] = Inr tr"
    by (rule scaled_trajectory [OF quick_scale])
  have "replayable rail_config rail_batch"
    by (simp add: replayable_def planner_base_def rail_config_def wa_inv_def)
  moreover have "serialize_for_replay plain_json (Some ''now'') rail_config rail_batch None = Inr (replay_record ''now'' rail_config rail_batch None)"
    by (simp add: serialize_for_replay_def plain_json_def)
  moreover have "js_read plain_json (js_write plain_json r) = Inr r" for r by (simp add: plain_json_def)
  ultimately show ?thesis
    using replay_reproduces [of rail_config rail_batch plain_json "''now''" None _ "Some 2" no_library] rail_generated [OF tr]
    by (auto simp: wa_size_def Let_def)
qed

end
