(* ===== verification/Compat.thy ===== *)
theory Compat
  imports Service
begin

text \<open>
  The interface of the legacy library on top of trajex (\<open>totg/compat/{path,trajectory}.cpp\<close>). A path or trajectory that cannot be made is
  an object without a value that remembers why; queries of such an object give empty vectors and zero lengths, and arguments of
  queries are clamped to the domain. Code that includes the shim headers uses these classes as the legacy library.
\<close>

section \<open>Values and errors\<close>

text \<open>
  What is behind a path and behind a trajectory: the value or the exception that prevented it. Whatever the constructor throws is kept,
  except what is no exception in the code.
\<close>

record 'a impl =
  im_value :: "'a option"
  im_error :: "exn option"

definition capture :: "'a res \<Rightarrow> 'a impl res" where
  "capture r =
     (case r of
        Inr a \<Rightarrow> Inr \<lparr>im_value = Some a, im_error = None\<rparr>
      | Inl e \<Rightarrow> if what e = None then Inl e else Inr \<lparr>im_value = None, im_error = Some e\<rparr>)"

text \<open>A query with its argument clamped to \<open>[0, hi]\<close>.\<close>

definition evaluate :: "('a \<Rightarrow> dbl) \<Rightarrow> ('a \<Rightarrow> dbl \<Rightarrow> xvector res) \<Rightarrow> 'a impl \<Rightarrow> dbl \<Rightarrow> dbl list res" where
  "evaluate hi query obj x =
     (case im_value obj of
        None \<Rightarrow> Inr []
      | Some a \<Rightarrow>
          if x = NaN then Inr []
          else bind_res (query a (std_clamp x 0 (hi a))) (\<lambda>v. Inr (map Fin v)))"

section \<open>Paths\<close>

type_synonym compat_path = "path impl"

definition to_xmatrix :: "xvector list \<Rightarrow> xmatrix res" where
  "to_xmatrix waypoints =
     (let dof = (case waypoints of [] \<Rightarrow> 0 | w # _ \<Rightarrow> length w)
      in if \<not> list_all (\<lambda>w. length w = dof) waypoints
         then Inl (Invalid_argument ''Path: waypoints differ in dimension'')
         else Inr \<lparr>m_rows = waypoints, m_cols = dof\<rparr>)"

definition make_path :: "xvector list \<Rightarrow> dbl \<Rightarrow> compat_path res" where
  "make_path waypoints max_deviation =
     capture (bind_res (to_xmatrix waypoints) (\<lambda>m.
              bind_res (wa_of_matrix m) (\<lambda>a. path_create a (set_max_blend_deviation max_deviation default_path_options))))"

definition get_length :: "compat_path \<Rightarrow> dbl" where
  "get_length p = (case im_value p of None \<Rightarrow> 0 | Some q \<Rightarrow> path_length q)"

definition get_config :: "compat_path \<Rightarrow> dbl \<Rightarrow> dbl list res" where
  "get_config = evaluate path_length path_configuration"

definition get_tangent :: "compat_path \<Rightarrow> dbl \<Rightarrow> dbl list res" where
  "get_tangent = evaluate path_length path_tangent"

definition get_curvature :: "compat_path \<Rightarrow> dbl \<Rightarrow> dbl list res" where
  "get_curvature = evaluate path_length path_curvature"

text \<open>The next switching point and whether there is a discontinuity.\<close>

definition get_next_switching_point :: "compat_path \<Rightarrow> dbl \<Rightarrow> dbl \<times> bool" where
  "get_next_switching_point p s = (get_length p, True)"

definition get_switching_points :: "compat_path \<Rightarrow> (dbl \<times> bool) list" where
  "get_switching_points p = []"

section \<open>Trajectories\<close>

type_synonym compat_trajectory = "trajectory impl"

definition k_time_step :: dbl where "k_time_step = Fin (1 / 1000)"

definition make_compat_trajectory :: "compat_path \<Rightarrow> xvector \<Rightarrow> xvector \<Rightarrow> dbl \<Rightarrow> compat_trajectory res" where
  "make_compat_trajectory p max_velocity max_acceleration time_step =
     (case im_value p of
        None \<Rightarrow> Inr \<lparr>im_value = None, im_error = im_error p\<rparr>
      | Some q \<Rightarrow>
          capture (trajectory_create q
            \<lparr>to_max_velocity = max_velocity, to_max_acceleration = max_acceleration, to_delta = time_step,
             to_epsilon = k_default_epsilon, to_tcp = None\<rparr> []))"

definition is_valid :: "compat_trajectory \<Rightarrow> bool" where
  "is_valid t \<longleftrightarrow> im_value t \<noteq> None"

definition get_duration :: "compat_trajectory \<Rightarrow> dbl" where
  "get_duration t = (case im_value t of None \<Rightarrow> 0 | Some tr \<Rightarrow> tr_duration tr)"

definition get_position :: "compat_trajectory \<Rightarrow> dbl \<Rightarrow> dbl list res" where
  "get_position = evaluate tr_duration (\<lambda>tr t. bind_res (trajectory_sample tr t) (\<lambda>smp. Inr (sm_configuration smp)))"

definition get_velocity :: "compat_trajectory \<Rightarrow> dbl \<Rightarrow> dbl list res" where
  "get_velocity = evaluate tr_duration (\<lambda>tr t. bind_res (trajectory_sample tr t) (\<lambda>smp. Inr (sm_velocity smp)))"

section \<open>The legacy library of the shim\<close>

text \<open>What the planner and its callers find when they are compiled against the shim.\<close>

definition compat_library :: "compat_trajectory sampled_legacy_library" where
  "compat_library =
     \<lparr>lg_generate = \<lambda>waypoints deviation max_velocity max_acceleration.
        bind_res (make_path waypoints deviation) (\<lambda>p. make_compat_trajectory p max_velocity max_acceleration k_time_step),
      lg_is_valid = is_valid, lg_duration = get_duration, lg_position = get_position, lg_velocity = get_velocity\<rparr>"

end
