(* ===== verification/Compat_Properties.thy ===== *)
theory Compat_Properties
  imports Compat Service_Properties
begin

text \<open>
  What callers written for the legacy library get from the shim: in a planner, trajectories like the generator's own, and
  everywhere, queries that answer.
\<close>

section \<open>The library of the shim in a planner\<close>

lemma capture_cases:
  obtains a where "r = Inr a" "capture r = Inr \<lparr>im_value = Some a, im_error = None\<rparr>"
  | e m where "r = Inl e" "what e = Some m" "capture r = Inr \<lparr>im_value = None, im_error = Some e\<rparr>"
  | e where "r = Inl e" "what e = None" "capture r = Inl e"
  by (cases r; cases "case r of Inl e \<Rightarrow> what e | Inr _ \<Rightarrow> None") (auto simp: capture_def)

text \<open>Coalescing first and building from what is left gives the same path.\<close>

lemma build_ignores_linear_deviation: "build_segments (opts\<lparr>opt_max_linear_deviation := d\<rparr>) st ws = build_segments opts st ws"
proof (induction ws arbitrary: st)
  case (Cons w ws)
  have fields: "opt_max_blend_deviation (opts\<lparr>opt_max_linear_deviation := d\<rparr>) = opt_max_blend_deviation opts"
    "opt_min_blend_curvature (opts\<lparr>opt_max_linear_deviation := d\<rparr>) = opt_min_blend_curvature opts"
    "opt_max_blend_curvature (opts\<lparr>opt_max_linear_deviation := d\<rparr>) = opt_max_blend_curvature opts" by simp_all
  have "try_create_blend (opts\<lparr>opt_max_linear_deviation := d\<rparr>) a b c = try_create_blend opts a b c" for a b c
    unfolding try_create_blend_def fields ..
  then have "build_step (opts\<lparr>opt_max_linear_deviation := d\<rparr>) s w ws = build_step opts s w ws" for s
    by (cases ws) (simp_all add: build_step_def)
  then show ?case by (simp add: Cons.IH)
qed simp

lemma colinearize_few:
  assumes "wa_inv a" "colinearize opts a = Inr ws" "isfinite (opt_max_linear_deviation opts)" "0 \<le> opt_max_linear_deviation opts"
  shows "length ws < 2 \<longleftrightarrow> wa_size a < 2" "ws \<noteq> [] \<longleftrightarrow> wa_points a \<noteq> []" "set ws \<subseteq> set (wa_points a)"
proof -
  obtain l where l: "opt_max_linear_deviation opts = Fin l" "0 \<le> l" using assms(3,4) by (cases "opt_max_linear_deviation opts") auto
  let ?opts = "default_path_options\<lparr>opt_max_linear_deviation := opt_max_linear_deviation opts\<rparr>"
  have same: "colinearize ?opts a = Inr ws" "valid_options ?opts"
    using assms(2) by (simp_all add: colinearize_def valid_options_def default_path_options_def l split: if_splits)
  show "length ws < 2 \<longleftrightarrow> wa_size a < 2" "ws \<noteq> [] \<longleftrightarrow> wa_points a \<noteq> []" "set ws \<subseteq> set (wa_points a)"
  proof -
    have "(length ws < 2 \<longleftrightarrow> wa_size a < 2) \<and> (ws \<noteq> [] \<longleftrightarrow> wa_points a \<noteq> []) \<and> set ws \<subseteq> set (wa_points a)"
    proof (cases "wa_points a")
      case Nil
      with assms(2) show ?thesis by (auto simp: colinearize_def wa_size_def split: if_splits)
    next
      case (Cons w l)
      show ?thesis
      proof (cases l)
        case Nil
        with Cons assms(2) have "ws = [w]" by (simp add: colinearize_def wa_of_waypoint_def split: if_splits)
        with Nil Cons show ?thesis by (simp add: wa_size_def)
      next
        case more: (Cons w' l')
        then have "2 \<le> wa_size a" "wa_points a \<noteq> []" using Cons by (simp_all add: wa_size_def)
        then obtain ks where "colinearize ?opts a = Inr ks" "subseq ks (wa_points a)" "2 \<le> length ks"
          using colinearize_spec_lemma [OF same(2) assms(1)] by metis
        with same(1) have ws: "subseq ws (wa_points a)" "2 \<le> length ws" by simp_all
        have "set ws \<subseteq> set (wa_points a)" using ws(1) by (auto dest: list_emb_set)
        with ws(2) \<open>2 \<le> wa_size a\<close> Cons show ?thesis by auto
      qed
    qed
    then show "length ws < 2 \<longleftrightarrow> wa_size a < 2" "ws \<noteq> [] \<longleftrightarrow> wa_points a \<noteq> []" "set ws \<subseteq> set (wa_points a)" by auto
  qed
qed

lemma path_of_coalesced:
  assumes "wa_inv a" "colinearize opts a = Inr ws" "isfinite (opt_max_linear_deviation opts)" "0 \<le> opt_max_linear_deviation opts"
  shows "path_create \<lparr>wa_dof = wa_dof a, wa_points = ws\<rparr> (opts\<lparr>opt_max_linear_deviation := 0\<rparr>) = path_create a opts"
proof -
  have "colinearize (opts\<lparr>opt_max_linear_deviation := 0\<rparr>) \<lparr>wa_dof = wa_dof a, wa_points = ws\<rparr> = Inr ws"
    by (simp add: colinearize_def)
  moreover obtain l where "opt_max_linear_deviation opts = Fin l" "0 \<le> l"
    using assms(3,4) by (cases "opt_max_linear_deviation opts") auto
  ultimately show ?thesis
    using colinearize_few(1) [OF assms] assms(2) by (simp add: path_create_def wa_size_def build_ignores_linear_deviation cong: if_cong)
qed

text \<open>The shim builds from a list of waypoints what the planner builds from their accumulator.\<close>

lemma make_path_planned:
  assumes "wa_inv seg" "colinearize (planner_path_options cfg) seg = Inr ws"
    "isfinite (opt_max_linear_deviation (planner_path_options cfg))" "0 \<le> opt_max_linear_deviation (planner_path_options cfg)"
    "pc_min_blend_curvature cfg = None" "pc_max_blend_curvature cfg = None"
  shows "\<exists>r. make_path ws (pc_path_blend_tolerance cfg) = capture r \<and>
    (r = path_create seg (planner_path_options cfg) \<or> wa_points seg = [] \<and> (\<exists>m. r = Inl (Invalid_argument m)))"
proof -
  note few = colinearize_few [OF assms(1-4)]
  have opts: "planner_path_options cfg\<lparr>opt_max_linear_deviation := 0\<rparr> = set_max_blend_deviation (pc_path_blend_tolerance cfg) default_path_options"
    using assms(5,6) by (simp add: planner_path_options_def set_max_blend_deviation_def set_max_linear_deviation_def
        default_path_options_def Let_def split: option.split)
  show ?thesis
  proof (cases ws)
    case Nil
    with few(2) show ?thesis by (auto simp: make_path_def to_xmatrix_def wa_of_matrix_def)
  next
    case (Cons w l)
    then have "\<forall>x \<in> set ws. length x = wa_dof seg" using few(3) assms(1) by (auto simp: wa_inv_def)
    then have "to_xmatrix ws = Inr \<lparr>m_rows = ws, m_cols = wa_dof seg\<rparr>" using Cons by (auto simp: to_xmatrix_def list_all_iff)
    then have "make_path ws (pc_path_blend_tolerance cfg) = capture (path_create \<lparr>wa_dof = wa_dof seg, wa_points = ws\<rparr>
        (set_max_blend_deviation (pc_path_blend_tolerance cfg) default_path_options))"
      using Cons by (simp add: make_path_def wa_of_matrix_def)
    then show ?thesis using path_of_coalesced [OF assms(1-4)] unfolding opts by auto
  qed
qed

text \<open>
  C21: With the shim as its legacy library a planner runs trajex twice. Where the configuration sets neither bounds on the curvature of
  blends nor a cap on the tool's speed, and the tolerance of the colinearization is not negative, the legacy generator makes from a segment the
  trajectory the generator makes, colinearization included, and where that fails it reports an invalid result.
\<close>

theorem compat_generators_agree:
  assumes "wa_inv seg" "pc_min_blend_curvature cfg = None" "pc_max_blend_curvature cfg = None" "pc_tcp_max_linear_speed cfg = None"
    "\<And>r. pc_colinearization_ratio cfg = Some r \<Longrightarrow> \<exists>d \<ge> 0. pc_path_blend_tolerance cfg * r = Fin d"
  shows "legacy_generator compat_library cfg seg =
    (case totg_generator cfg seg of
       Inr tr \<Rightarrow> Inr \<lparr>im_value = Some tr, im_error = None\<rparr>
     | Inl e \<Rightarrow> Inl (if what e = None then e else Runtime_error ''legacy trajectory generator produced invalid result''))"
proof -
  let ?opts = "planner_path_options cfg"
  obtain ws where ws: "colinearize ?opts seg = Inr ws" "isfinite (opt_max_linear_deviation ?opts)" "0 \<le> opt_max_linear_deviation ?opts"
    "(case pc_colinearization_ratio cfg of None \<Rightarrow> wa_points seg
        | Some r \<Rightarrow> apply_colinearization (wa_points seg) (pc_path_blend_tolerance cfg * r)) = ws"
  proof (cases "pc_colinearization_ratio cfg")
    case None
    then have "opt_max_linear_deviation ?opts = 0"
      using assms(2,3) by (simp add: planner_path_options_def set_max_blend_deviation_def default_path_options_def Let_def)
    with None that show thesis by (simp add: colinearize_def)
  next
    case (Some r)
    then obtain d where d: "0 \<le> d" "pc_path_blend_tolerance cfg * r = Fin d" using assms(5) by blast
    have "opt_max_linear_deviation ?opts = Fin d"
      using Some d assms(2,3) by (simp add: planner_path_options_def set_max_linear_deviation_def Let_def)
    with that same_waypoints [OF assms(1) Some d(2,1)] Some d(1) show thesis by simp
  qed
  obtain r where r: "make_path ws (pc_path_blend_tolerance cfg) = capture r"
    "r = path_create seg ?opts \<or> wa_points seg = [] \<and> (\<exists>m. r = Inl (Invalid_argument m))"
    using make_path_planned [OF assms(1) ws(1-3) assms(2,3)] by blast
  have "path_create seg ?opts = Inl (Invalid_argument ''Path requires at least 2 waypoints'')" if "wa_points seg = []"
    using that by (simp add: path_create_def wa_size_def)
  with r(2) have same: "capture r = capture (path_create seg ?opts) \<or>
      (\<exists>m. r = Inl (Invalid_argument m)) \<and> (\<exists>m. path_create seg ?opts = Inl (Invalid_argument m))" by auto
  have topts: "planner_trajectory_options cfg = Inr \<lparr>to_max_velocity = pc_velocity_limits cfg, to_max_acceleration = pc_acceleration_limits cfg,
      to_delta = k_time_step, to_epsilon = k_default_epsilon, to_tcp = None\<rparr>"
    using assms(4) by (simp add: planner_trajectory_options_def k_time_step_def k_default_delta_def)
  show ?thesis
    using same
    by (auto simp: legacy_generator_def totg_generator_def compat_library_def r(1) ws(4) topts capture_def make_compat_trajectory_def
        is_valid_def split: sum.splits if_splits)
qed

text \<open>The witness, on the rail.\<close>

theorem compat_generators_agree_witness:
  "\<exists>tr. legacy_generator compat_library rail_config rail_batch = Inr \<lparr>im_value = Some tr, im_error = None\<rparr>"
proof -
  obtain tr where tr: "trajectory_create rail (scaled_options 1000 (1 / 10 ^ 6)) [] = Inr tr"
    by (rule scaled_trajectory [OF quick_scale])
  have "wa_inv rail_batch" by (simp add: wa_inv_def)
  then show ?thesis
    using compat_generators_agree [of rail_batch rail_config] rail_generated [OF tr] by (simp add: rail_config_def)
qed

section \<open>Queries\<close>

lemma clamp_domain:
  assumes "s \<noteq> NaN" "0 < len"
  obtains x where "std_clamp s 0 (Fin len) = Fin x" "0 \<le> x" "x \<le> len" "Fin len \<le> s \<Longrightarrow> x = len" "s < Fin len \<Longrightarrow> x < len"
proof (rule that [of "case s of Fin y \<Rightarrow> max 0 (min y len) | PInf \<Rightarrow> len | _ \<Rightarrow> 0"])
qed (use assms in \<open>cases s; auto simp: std_clamp_def\<close>)+

lemma made_path:
  assumes "make_path ws dev = Inr P" "im_value P = Some p"
  shows "im_error P = None" "path_inv p" "path_dof p = length (hd ws)" "path_configuration p (path_length p) = Inr (last ws)"
proof -
  obtain m a where p: "to_xmatrix ws = Inr m" "wa_of_matrix m = Inr a" "im_error P = None"
    "path_create a (set_max_blend_deviation dev default_path_options) = Inr p"
    using assms by (auto simp: make_path_def capture_def bind_res_eq_Inr bind_res_eq_Inl split: sum.splits if_splits)
  then have a: "ws \<noteq> []" "a = \<lparr>wa_dof = length (hd ws), wa_points = ws\<rparr>" "wa_inv a"
    by (auto simp: to_xmatrix_def wa_of_matrix_def wa_inv_def list_all_iff Let_def split: list.splits if_splits)
  have valid: "2 \<le> wa_size a \<and> valid_options (set_max_blend_deviation dev default_path_options)"
    using path_create_checks [of a "set_max_blend_deviation dev default_path_options"] p(4) by auto
  with path_create_outcome [OF _ a(3)] p(4) have "path_inv p" "path_dof p = wa_dof a"
    "end_configuration (ps_seg (last (path_segments p))) = last (wa_points a)" by fastforce+
  with p(3) a(2) path_end_configuration [of p] show "im_error P = None" "path_inv p" "path_dof p = length (hd ws)"
    "path_configuration p (path_length p) = Inr (last ws)" by simp_all
qed

text \<open>What the queries of a path promise.\<close>

definition path_queries :: "xvector list \<Rightarrow> compat_path \<Rightarrow> bool" where
  "path_queries ws P \<longleftrightarrow>
     (case im_value P of
        None \<Rightarrow> (\<exists>e. im_error P = Some e \<and> what e \<noteq> None) \<and> get_length P = 0 \<and>
          (\<forall>s. get_config P s = Inr [] \<and> get_tangent P s = Inr [] \<and> get_curvature P s = Inr [])
      | Some p \<Rightarrow> im_error P = None \<and> 0 < get_length P \<and> get_config P NaN = Inr [] \<and>
          (\<forall>s. s \<noteq> NaN \<longrightarrow> (\<exists>q q' q''. get_config P s = Inr (map Fin q) \<and> get_tangent P s = Inr (map Fin q') \<and>
             get_curvature P s = Inr (map Fin q'') \<and> length q = length (hd ws) \<and> norm_l2 q' = 1 \<and>
             (get_length P \<le> s \<longrightarrow> q = last ws) \<and>
             (0 \<le> s \<and> s \<le> get_length P \<longrightarrow> path_configuration p s = Inr q))))"

lemma made_path_queries:
  assumes "make_path ws dev = Inr P"
  shows "path_queries ws P"
proof (cases "im_value P")
  case None
  with assms show ?thesis
    by (auto simp: path_queries_def make_path_def capture_def get_length_def get_config_def get_tangent_def get_curvature_def
        evaluate_def split: sum.splits if_splits)
next
  case (Some p)
  note made = made_path [OF assms Some]
  obtain len where len: "path_length p = Fin len" "0 < len" using path_length_finite [OF made(2)] by blast
  have "\<exists>q q' q''. get_config P s = Inr (map Fin q) \<and> get_tangent P s = Inr (map Fin q') \<and>
      get_curvature P s = Inr (map Fin q'') \<and> length q = length (hd ws) \<and> norm_l2 q' = 1 \<and>
      (get_length P \<le> s \<longrightarrow> q = last ws) \<and> (0 \<le> s \<and> s \<le> get_length P \<longrightarrow> path_configuration p s = Inr q)" if s: "s \<noteq> NaN" for s
  proof -
    obtain x where x: "std_clamp s 0 (Fin len) = Fin x" "0 \<le> x" "x \<le> len" "Fin len \<le> s \<Longrightarrow> x = len"
      using clamp_domain [OF s len(2)] by metis
    have same: "Fin x = s" if "0 \<le> s" "s \<le> Fin len" using that x(1) by (cases s) (auto simp: std_clamp_def split: if_splits)
    let ?g = "ps_seg (path_segments p ! segment_index p (Fin x))"
    obtain a where a: "path_configuration p (Fin x) = Inr (segment_configuration ?g (x - a))"
      "path_tangent p (Fin x) = Inr (segment_tangent ?g (x - a))" "path_curvature p (Fin x) = Inr (segment_curvature ?g (x - a))"
      using path_query_result [OF made(2) x(2)] x(3) len(1) by auto
    have "segment_index p (Fin x) < path_size p" using segment_index_bounds(2) [OF made(2) x(2)] x(3) len(1) by simp
    then have g: "segment_inv (path_dof p) ?g" using made(2) by (simp add: path_inv_def path_size_def)
    have "segment_configuration ?g (x - a) = last ws" if "x = len" using a(1) made(4) len(1) that by simp
    then show ?thesis
      using a x s same g Some len made(3) unit_tangent [OF g] segment_dof_inv [OF g]
      by (intro exI [of _ "segment_configuration ?g (x - a)"] exI [of _ "segment_tangent ?g (x - a)"] exI [of _ "segment_curvature ?g (x - a)"])
        (auto simp: get_config_def get_tangent_def get_curvature_def evaluate_def get_length_def)
  qed
  with Some made(1) len show ?thesis by (simp add: path_queries_def get_length_def get_config_def evaluate_def)
qed

lemma past_the_end:
  assumes "path_queries ws P" "im_value P = Some p"
  shows "get_config P PInf = Inr (map Fin (last ws))"
proof -
  have "0 < get_length P" "\<exists>q. get_config P PInf = Inr (map Fin q) \<and> (get_length P \<le> PInf \<longrightarrow> q = last ws)"
    using assms by (force simp: path_queries_def)+
  then show ?thesis by (cases "get_length P") auto
qed

text \<open>What the queries of a trajectory promise, when what was computed goes forward.\<close>

definition answers :: "xvector list \<Rightarrow> trajectory \<Rightarrow> compat_trajectory \<Rightarrow> dbl \<Rightarrow> bool" where
  "answers ws tr T t \<longleftrightarrow>
     (if t < tr_duration tr
      then \<exists>smp. trajectory_sample tr (std_clamp t 0 (tr_duration tr)) = Inr smp \<and>
        get_position T t = Inr (map Fin (sm_configuration smp)) \<and> get_velocity T t = Inr (map Fin (sm_velocity smp))
      else if isfinite (ip_s_ddot (last (tr_points tr)))
      then get_position T t = Inr (map Fin (last ws)) \<and> get_velocity T t = Inr (replicate (length (hd ws)) 0)
      else \<exists>m. get_position T t = Inl (Out_of_range m) \<and> get_velocity T t = Inl (Out_of_range m))"

definition trajectory_queries :: "xvector list \<Rightarrow> compat_path \<Rightarrow> compat_trajectory \<Rightarrow> bool" where
  "trajectory_queries ws P T \<longleftrightarrow>
     (case im_value T of
        None \<Rightarrow> \<not> is_valid T \<and> (\<exists>e. im_error T = Some e \<and> what e \<noteq> None \<and> (im_value P = None \<longrightarrow> im_error P = Some e)) \<and>
          get_duration T = 0 \<and> (\<forall>t. get_position T t = Inr [] \<and> get_velocity T t = Inr [])
      | Some tr \<Rightarrow> is_valid T \<and> im_error T = None \<and> im_value P = Some (tr_path tr) \<and> get_duration T = tr_duration tr \<and>
          sound_trajectory (tr_path tr) (tr_options tr) tr \<and> get_position T NaN = Inr [] \<and> get_velocity T NaN = Inr [] \<and>
          (forward_motion tr \<longrightarrow> 0 < tr_duration tr \<and> (\<forall>t. t \<noteq> NaN \<longrightarrow> answers ws tr T t)))"

lemma made_trajectory:
  assumes "make_path ws dev = Inr P" "make_compat_trajectory P v a dt = Inr T" "im_value T = Some tr" "length (hd ws) \<le> 10 ^ 12"
  shows "im_error T = None" "im_value P = Some (tr_path tr)" "sound_trajectory (tr_path tr) (tr_options tr) tr"
proof -
  obtain p where p: "im_value P = Some p" using assms(2,3) by (auto simp: make_compat_trajectory_def split: option.splits)
  let ?opt = "\<lparr>to_max_velocity = v, to_max_acceleration = a, to_delta = dt, to_epsilon = k_default_epsilon, to_tcp = None\<rparr>"
  have tr: "trajectory_create p ?opt [] = Inr tr" "im_error T = None"
    using assms(2,3) p by (auto simp: make_compat_trajectory_def capture_def split: sum.splits if_splits)
  note made = made_path [OF assms(1) p]
  have "(fin (to_epsilon ?opt))\<^sup>2 * real (path_dof p) \<le> 1"
    using assms(4) made(3) of_nat_mono [of "length (hd ws)" "10 ^ 12", where 'a = real] by (simp add: k_default_epsilon_def power_divide)
  then have "sound_trajectory p ?opt tr"
    by (intro created_sound [OF made(2) _ _ tr(1)]) (simp_all add: evaluator_returns_def)
  moreover from this have "tr_path tr = p" "tr_options tr = ?opt" by (simp_all add: sound_trajectory_def)
  ultimately show "im_error T = None" "im_value P = Some (tr_path tr)" "sound_trajectory (tr_path tr) (tr_options tr) tr"
    using p tr(2) by simp_all
qed

lemma made_answers:
  assumes "make_path ws dev = Inr P" "make_compat_trajectory P v a dt = Inr T" "im_value T = Some tr" "length (hd ws) \<le> 10 ^ 12"
    "forward_motion tr" "t \<noteq> NaN"
  shows "answers ws tr T t"
proof -
  note made = made_trajectory [OF assms(1-4)]
  note path = made_path [OF assms(1) made(2)]
  note snd = made(3) path(2) assms(5)
  obtain d where d: "tr_duration tr = Fin d" "0 < d" using usable_duration [OF sound_usable [OF snd]] by blast
  obtain x where x: "std_clamp t 0 (Fin d) = Fin x" "0 \<le> x" "Fin d \<le> t \<Longrightarrow> x = d" "t < Fin d \<Longrightarrow> x < d"
    using clamp_domain [OF assms(6) d(2)] by metis
  have query: "get_position T t = bind_res (trajectory_sample tr (Fin x)) (\<lambda>smp. Inr (map Fin (sm_configuration smp)))"
    "get_velocity T t = bind_res (trajectory_sample tr (Fin x)) (\<lambda>smp. Inr (map Fin (sm_velocity smp)))"
    using assms(3,6) d(1) x(1)
    by (cases "trajectory_sample tr (Fin x)"; simp add: get_position_def get_velocity_def evaluate_def)+
  show ?thesis
  proof (cases "t < Fin d")
    case True
    with x(2,4) d(1) obtain smp where "trajectory_sample tr (Fin x) = Inr smp"
      using computed_sample [OF snd, of "Fin x"] by auto
    with True query x(1) d(1) show ?thesis by (simp add: answers_def)
  next
    case False
    with assms(6) x(3) have final: "Fin x = tr_duration tr" using d(1) by (cases t) auto
    obtain q' q'' where q: "path_tangent (tr_path tr) (path_length (tr_path tr)) = Inr q'" "length q' = length (hd ws)"
      "path_curvature (tr_path tr) (path_length (tr_path tr)) = Inr q''"
    proof -
      have on: "on_path (tr_path tr) (path_length (tr_path tr))" using path_length_finite [OF path(2)] by (auto simp: on_path_def)
      with path_component_on_path [OF path(2) on, of Tangent] path_component_on_path [OF path(2) on, of Curvature]
        path_tangent_length [OF path(2) on] path(3) that show thesis by (auto simp: path_component_def)
    qed
    have "map Fin (vscale 0 q') = replicate (length (hd ws)) (0 :: dbl)"
      using q(2) by (intro nth_equalityI) (simp_all add: vscale_def)
    with False query [unfolded final computed_sample_end [OF snd, unfolded path(4) q bind_res_simps]] d(1) show ?thesis
      by (cases "ip_s_ddot (last (tr_points tr))") (simp_all add: answers_def)
  qed
qed

lemma made_trajectory_queries:
  assumes "make_path ws dev = Inr P" "make_compat_trajectory P v a dt = Inr T" "length (hd ws) \<le> 10 ^ 12"
  shows "trajectory_queries ws P T"
proof (cases "im_value T")
  case None
  have "\<exists>e. im_error P = Some e \<and> what e \<noteq> None" if "im_value P = None"
    using made_path_queries [OF assms(1)] that by (simp add: path_queries_def)
  with None assms(2) show ?thesis
    by (auto simp: trajectory_queries_def make_compat_trajectory_def capture_def is_valid_def get_duration_def get_position_def
        get_velocity_def evaluate_def split: sum.splits option.splits if_splits)
next
  case (Some tr)
  note made = made_trajectory [OF assms(1,2) Some assms(3)]
  have "0 < tr_duration tr" if "forward_motion tr"
    using usable_duration [OF sound_usable [OF made(3) _ that]] made_path(2) [OF assms(1) made(2)] by auto
  with Some made made_answers [OF assms(1,2) Some assms(3)] show ?thesis
    by (simp add: trajectory_queries_def is_valid_def get_duration_def get_position_def get_velocity_def evaluate_def)
qed

text \<open>
  C20: What code written for the legacy library can rely on. However a path and a trajectory are made, either there is a
  value or an exception that says why not, and a trajectory of a failed path fails with the path's. Queries of what failed give
  zero lengths and empty vectors. Those of a path always answer: arguments are clamped, so on the path they are the path's
  own answers, past its end the last waypoint, and tangents are unit vectors. A trajectory is a sound one on that path; if it goes
  forward its queries before the end answer with its samples. At the end and after it they answer with the last waypoint, at rest, unless the
  last acceleration is undefined, and then they throw \<open>std::out_of_range\<close>.
\<close>

theorem compat_queries_spec:
  assumes "make_path ws dev = Inr P" "make_compat_trajectory P v a dt = Inr T" "length (hd ws) \<le> 10 ^ 12"
  shows "path_queries ws P \<and> trajectory_queries ws P T"
  using made_path_queries [OF assms(1)] made_trajectory_queries [OF assms] by blast

theorem compat_queries_spec_witness:
  "\<exists>P T. make_path [[0], [5 / 2]] 0 = Inr P \<and> make_compat_trajectory P [10000] [1000000] k_time_step = Inr T \<and>
     get_config P PInf = Inr [Fin (5 / 2)] \<and> is_valid T"
proof -
  obtain tr where tr: "trajectory_create rail (scaled_options 1000 (1 / 10 ^ 6)) [] = Inr tr"
    by (rule scaled_trajectory [OF quick_scale])
  have opts: "scaled_options 1000 (1 / 10 ^ 6) = \<lparr>to_max_velocity = [10000], to_max_acceleration = [1000000], to_delta = k_time_step,
      to_epsilon = k_default_epsilon, to_tcp = None\<rparr>"
    by (simp add: scaled_options_def k_time_step_def k_default_epsilon_def)
  have "set_max_blend_deviation 0 default_path_options = default_path_options"
    by (simp add: set_max_blend_deviation_def default_path_options_def)
  then have P: "make_path [[0], [5 / 2]] 0 = Inr \<lparr>im_value = Some rail, im_error = None\<rparr>"
    by (simp add: make_path_def to_xmatrix_def wa_of_matrix_def capture_def rail_path [unfolded zero_Fin One_nat_def])
  moreover have T: "make_compat_trajectory \<lparr>im_value = Some rail, im_error = None\<rparr> [10000] [1000000] k_time_step =
      Inr \<lparr>im_value = Some tr, im_error = None\<rparr>"
    using tr [unfolded opts] by (simp add: make_compat_trajectory_def capture_def)
  moreover have "path_queries [[0], [5 / 2]] \<lparr>im_value = Some rail, im_error = None\<rparr>"
    "trajectory_queries [[0], [5 / 2]] \<lparr>im_value = Some rail, im_error = None\<rparr> \<lparr>im_value = Some tr, im_error = None\<rparr>"
    using compat_queries_spec [OF P T] by simp_all
  moreover from past_the_end [OF this(1)] have "get_config \<lparr>im_value = Some rail, im_error = None\<rparr> PInf = Inr [Fin (5 / 2)]" by simp
  ultimately show ?thesis by (metis is_valid_def impl.select_convs(1) option.distinct(1))
qed

end
