(* ===== verification/Moveit.thy ===== *)
theory Moveit
  imports Chain Session
begin

text \<open>
  The MoveIt plugin: the time parameterization (\<open>moveit/totg/time_parameterization.{hpp,cpp}\<close>) and the planning response
  adapters (\<open>moveit/totg/response_adapter.cpp\<close>). MoveIt's robot states and joint groups are third-party code: their types are
  parameters, and what the code calls of them is a record of functions. Of the ROS node the parameters are modelled. Log messages are
  left out.
\<close>

section \<open>What is used of MoveIt\<close>

record variable_bounds =
  vb_velocity_bounded :: bool
  vb_min_velocity :: dbl
  vb_max_velocity :: dbl
  vb_acceleration_bounded :: bool
  vb_min_acceleration :: dbl
  vb_max_acceleration :: dbl

record joint_model =
  jm_first_variable_index :: nat
  jm_variable_names :: "string list"
  jm_variable_bounds :: "variable_bounds list"

record ('g, 's) moveit_library =
  mv_active_joint_models :: "'g \<Rightarrow> joint_model list"
  mv_unwind :: "'g \<Rightarrow> 's list \<Rightarrow> 's list"
  mv_position :: "'s \<Rightarrow> nat \<Rightarrow> dbl"
  mv_zero_velocities :: "'s \<Rightarrow> 's"
  mv_zero_accelerations :: "'s \<Rightarrow> 's"
  mv_set_positions :: "'g \<Rightarrow> xvector \<Rightarrow> 's \<Rightarrow> 's"
  mv_set_velocity :: "nat \<Rightarrow> real \<Rightarrow> 's \<Rightarrow> 's"
  mv_set_acceleration :: "nat \<Rightarrow> real \<Rightarrow> 's \<Rightarrow> 's"

text \<open>A trajectory of a robot: its group, and its waypoints each with the time from the one before it.\<close>

record ('g, 's) robot_trajectory =
  ro_group :: "'g option"
  ro_waypoints :: "('s \<times> dbl) list"

definition unwind :: "('g, 's) moveit_library \<Rightarrow> 'g \<Rightarrow> ('g, 's) robot_trajectory \<Rightarrow> ('g, 's) robot_trajectory" where
  "unwind lib g t = t\<lparr>ro_waypoints := zip (mv_unwind lib g (map fst (ro_waypoints t))) (map snd (ro_waypoints t))\<rparr>"

section \<open>Limits\<close>

record active_variable =
  av_state_index :: nat
  av_name :: string
  av_bounds :: variable_bounds

definition active_variables :: "('g, 's) moveit_library \<Rightarrow> 'g \<Rightarrow> active_variable list" where
  "active_variables lib g =
     concat (map (\<lambda>jm. map (\<lambda>i. \<lparr>av_state_index = jm_first_variable_index jm + i, av_name = jm_variable_names jm ! i,
                                   av_bounds = jm_variable_bounds jm ! i\<rparr>) [0..<length (jm_variable_names jm)])
       (mv_active_joint_models lib g))"

definition verified_scaling_factor :: "dbl \<Rightarrow> dbl" where
  "verified_scaling_factor requested = (if 0 < requested \<and> requested \<le> 1 then requested else 1)"

definition resolve_limit :: "active_variable \<Rightarrow> (string \<Rightarrow> dbl option) \<Rightarrow> bool \<Rightarrow> dbl \<Rightarrow> dbl \<Rightarrow> dbl \<Rightarrow> dbl option" where
  "resolve_limit variable given model_bounded model_min model_max scaling_factor =
     (let found = (case given (av_name variable) of
            Some l \<Rightarrow> Some l
          | None \<Rightarrow> if model_bounded then Some (std_min \<bar>model_min\<bar> \<bar>model_max\<bar>) else None)
      in case found of
           None \<Rightarrow> None
         | Some limit \<Rightarrow> if \<not> isfinite limit \<or> limit < 0 then None else Some (limit * scaling_factor))"

fun resolve_limits ::
  "(string \<Rightarrow> dbl option) \<Rightarrow> (string \<Rightarrow> dbl option) \<Rightarrow> dbl \<Rightarrow> dbl \<Rightarrow> active_variable list \<Rightarrow> (xvector \<times> xvector) option" where
  "resolve_limits vl al vs as [] = Some ([], [])"
| "resolve_limits vl al vs as (variable # variables) =
     (let bounds = av_bounds variable;
          velocity = resolve_limit variable vl (vb_velocity_bounded bounds) (vb_min_velocity bounds) (vb_max_velocity bounds) vs;
          acceleration = resolve_limit variable al (vb_acceleration_bounded bounds) (vb_min_acceleration bounds) (vb_max_acceleration bounds) as
      in case (velocity, acceleration) of
           (Some v, Some a) \<Rightarrow> map_option (\<lambda>(vmax, amax). (fin v # vmax, fin a # amax)) (resolve_limits vl al vs as variables)
         | _ \<Rightarrow> None)"

section \<open>The time parameterization\<close>

record time_parameterization =
  tz_path_options :: path_options
  tz_deduplication_tolerance :: dbl
  tz_trajectory_options :: traj_options
  tz_sampling_frequency :: dbl

definition make_time_parameterization ::
  "path_options \<Rightarrow> dbl \<Rightarrow> traj_options \<Rightarrow> dbl \<Rightarrow> time_parameterization res" where
  "make_time_parameterization path_opts tolerance traj_opts frequency =
     (if \<not> isfinite tolerance \<or> tolerance < 0
      then Inl (Invalid_argument ''time_parameterization: deduplication tolerance must be finite and non-negative'')
      else if \<not> isfinite frequency \<or> frequency \<le> 0
      then Inl (Invalid_argument ''time_parameterization: sampling frequency must be finite and positive'')
      else Inr \<lparr>tz_path_options = path_opts, tz_deduplication_tolerance = tolerance, tz_trajectory_options = traj_opts,
                tz_sampling_frequency = frequency\<rparr>)"

text \<open>The positions of the active variables, waypoint by waypoint.\<close>

fun read_states :: "('g, 's) moveit_library \<Rightarrow> active_variable list \<Rightarrow> 's list \<Rightarrow> xvector list res" where
  "read_states lib variables [] = Inr []"
| "read_states lib variables (s # states) =
     bind_res (finite_vector (map (\<lambda>v. mv_position lib s (av_state_index v)) variables)) (\<lambda>w.
     bind_res (read_states lib variables states) (\<lambda>ws. Inr (w # ws)))"

text \<open>One state is written again and again, and copied into the result with the time since the sample before.\<close>

definition write_state :: "('g, 's) moveit_library \<Rightarrow> 'g \<Rightarrow> active_variable list \<Rightarrow> traj_sample \<Rightarrow> 's \<Rightarrow> 's" where
  "write_state lib g variables smp s =
     fold (\<lambda>i s. mv_set_acceleration lib (av_state_index (variables ! i)) (sm_acceleration smp ! i)
                  (mv_set_velocity lib (av_state_index (variables ! i)) (sm_velocity smp ! i) s))
       [0..<length variables] (mv_set_positions lib g (sm_configuration smp) s)"

fun timed_states :: "('g, 's) moveit_library \<Rightarrow> 'g \<Rightarrow> active_variable list \<Rightarrow> 's \<Rightarrow> dbl \<Rightarrow> traj_sample list \<Rightarrow> ('s \<times> dbl) list" where
  "timed_states lib g variables s previous_time [] = []"
| "timed_states lib g variables s previous_time (smp # samples) =
     (let s' = write_state lib g variables smp s
      in (s', sm_time smp - previous_time) # timed_states lib g variables s' (sm_time smp) samples)"

text \<open>The waypoints that replace those of an unwound trajectory.\<close>

definition timed_waypoints ::
  "('g, 's) moveit_library \<Rightarrow> time_parameterization \<Rightarrow> 'g \<Rightarrow> xvector \<times> xvector \<Rightarrow> 's list \<Rightarrow> ('s \<times> dbl) list res" where
  "timed_waypoints lib tz g limits states =
     (let variables = active_variables lib g in
      bind_res (read_states lib variables states) (\<lambda>rows.
      let state = mv_zero_accelerations lib (mv_zero_velocities lib (hd states)) in
      bind_res (wa_of_matrix \<lparr>m_rows = rows, m_cols = length variables\<rparr>) (\<lambda>a.
      bind_res (deduplicate_waypoints a (fin (tz_deduplication_tolerance tz))) (\<lambda>unique.
        if wa_size unique < 2 then Inr [(state, 0)]
        else
          let opts = (tz_trajectory_options tz)\<lparr>to_max_velocity := fst limits, to_max_acceleration := snd limits\<rparr> in
          bind_res (path_create unique (tz_path_options tz)) (\<lambda>p.
          bind_res (trajectory_create p opts []) (\<lambda>timed.
          bind_res (quantized_for_trajectory timed (tz_sampling_frequency tz) 0) (\<lambda>sampler.
          bind_res (samples_of timed sampler) (\<lambda>v.
          bind_res (collect_samples sampler_advance v) (\<lambda>samples.
            Inr (timed_states lib g variables state 0 samples))))))))))"

text \<open>What is thrown is logged and reported as a failure; the trajectory stays as it is by then.\<close>

definition compute_time_stamps ::
  "('g, 's) moveit_library \<Rightarrow> time_parameterization \<Rightarrow> (string \<Rightarrow> dbl option) \<Rightarrow> (string \<Rightarrow> dbl option) \<Rightarrow> dbl \<Rightarrow> dbl \<Rightarrow>
     ('g, 's) robot_trajectory \<Rightarrow> bool res \<times> ('g, 's) robot_trajectory" where
  "compute_time_stamps lib tz velocity_limits acceleration_limits max_velocity_scaling max_acceleration_scaling t =
     (if ro_waypoints t = [] then (Inr True, t)
      else case ro_group t of
             None \<Rightarrow> (Inr False, t)
           | Some g \<Rightarrow>
               (case resolve_limits velocity_limits acceleration_limits (verified_scaling_factor max_velocity_scaling)
                       (verified_scaling_factor max_acceleration_scaling) (active_variables lib g) of
                  None \<Rightarrow> (Inr False, t)
                | Some limits \<Rightarrow>
                    let t' = unwind lib g t
                    in case timed_waypoints lib tz g limits (map fst (ro_waypoints t')) of
                         Inl e \<Rightarrow> (if what e = None then (Inl e, t') else (Inr False, t'))
                       | Inr ws \<Rightarrow> (Inr True, t'\<lparr>ro_waypoints := ws\<rparr>)))"

text \<open>Limits from messages: later messages for a joint replace earlier ones.\<close>

record joint_limits =
  jl_joint_name :: string
  jl_has_velocity_limits :: bool
  jl_max_velocity :: dbl
  jl_has_acceleration_limits :: bool
  jl_max_acceleration :: dbl

definition velocity_limits_of :: "joint_limits list \<Rightarrow> string \<Rightarrow> dbl option" where
  "velocity_limits_of ls = fold (\<lambda>l m. if jl_has_velocity_limits l then m(jl_joint_name l \<mapsto> jl_max_velocity l) else m) ls Map.empty"

definition acceleration_limits_of :: "joint_limits list \<Rightarrow> string \<Rightarrow> dbl option" where
  "acceleration_limits_of ls =
     fold (\<lambda>l m. if jl_has_acceleration_limits l then m(jl_joint_name l \<mapsto> jl_max_acceleration l) else m) ls Map.empty"

definition compute_time_stamps_messages ::
  "('g, 's) moveit_library \<Rightarrow> time_parameterization \<Rightarrow> joint_limits list \<Rightarrow> dbl \<Rightarrow> dbl \<Rightarrow> ('g, 's) robot_trajectory \<Rightarrow>
     bool res \<times> ('g, 's) robot_trajectory" where
  "compute_time_stamps_messages lib tz ls = compute_time_stamps lib tz (velocity_limits_of ls) (acceleration_limits_of ls)"

section \<open>The response adapters\<close>

datatype ros_parameter = Ros_integer int | Ros_double dbl | Ros_other

type_synonym ros_node = "string \<Rightarrow> ros_parameter option"

record double_parameter =
  dp_name :: string
  dp_default :: dbl

text \<open>A parameter that the hosting node has declared already is left alone.\<close>

definition declare_parameter :: "string \<Rightarrow> double_parameter \<Rightarrow> ros_node \<Rightarrow> ros_node" where
  "declare_parameter pre dp node =
     (let full_name = pre @ dp_name dp in if node full_name \<noteq> None then node else node(full_name \<mapsto> Ros_double (dp_default dp)))"

definition read_parameter :: "string \<Rightarrow> ros_node \<Rightarrow> double_parameter \<Rightarrow> dbl res" where
  "read_parameter pre node dp =
     (case node (pre @ dp_name dp) of
        None \<Rightarrow> Inl (Runtime_error (pre @ dp_name dp))
      | Some (Ros_integer i) \<Rightarrow> Inr (Fin (real_of_int i))
      | Some (Ros_double x) \<Rightarrow> Inr x
      | Some Ros_other \<Rightarrow> Inl (Runtime_error ''expected double''))"

definition join_prefix :: "string \<Rightarrow> string \<Rightarrow> string" where
  "join_prefix parameter_namespace name =
     (if parameter_namespace = [] then name @ ''.'' else parameter_namespace @ ''.'' @ name @ ''.'')"

definition default_trajectory_options :: traj_options where
  "default_trajectory_options = \<lparr>to_max_velocity = [], to_max_acceleration = [], to_delta = k_default_delta,
     to_epsilon = k_default_epsilon, to_tcp = None\<rparr>"

definition k_default_sampling_frequency_hz :: dbl where "k_default_sampling_frequency_hz = 10"
definition k_default_deduplication_tolerance :: dbl where "k_default_deduplication_tolerance = Fin (1 / 1000)"

definition adapter_parameters :: "double_parameter list" where
  "adapter_parameters =
     [\<lparr>dp_name = ''path.max_blend_deviation'', dp_default = opt_max_blend_deviation default_path_options\<rparr>,
      \<lparr>dp_name = ''path.max_linear_deviation'', dp_default = opt_max_linear_deviation default_path_options\<rparr>,
      \<lparr>dp_name = ''path.min_blend_curvature'', dp_default = opt_min_blend_curvature default_path_options\<rparr>,
      \<lparr>dp_name = ''path.max_blend_curvature'', dp_default = opt_max_blend_curvature default_path_options\<rparr>,
      \<lparr>dp_name = ''path.deduplication_tolerance'', dp_default = k_default_deduplication_tolerance\<rparr>,
      \<lparr>dp_name = ''trajectory.delta'', dp_default = k_default_delta\<rparr>,
      \<lparr>dp_name = ''trajectory.epsilon'', dp_default = k_default_epsilon\<rparr>,
      \<lparr>dp_name = ''sampling.frequency'', dp_default = k_default_sampling_frequency_hz\<rparr>]"

definition compat_adapter_parameters :: "double_parameter list" where
  "compat_adapter_parameters =
     [\<lparr>dp_name = ''path_tolerance'', dp_default = Fin (1 / 10)\<rparr>, \<lparr>dp_name = ''resample_dt'', dp_default = Fin (1 / 10)\<rparr>,
      \<lparr>dp_name = ''min_angle_change'', dp_default = Fin (1 / 1000)\<rparr>]"

definition declare_parameters :: "string \<Rightarrow> double_parameter list \<Rightarrow> ros_node \<Rightarrow> ros_node" where
  "declare_parameters pre = fold (declare_parameter pre)"

definition make_adapter :: "string \<Rightarrow> ros_node \<Rightarrow> time_parameterization res" where
  "make_adapter pre node =
     (let read = (\<lambda>i. read_parameter pre node (adapter_parameters ! i)) in
      bind_res (read 0) (\<lambda>blend. bind_res (read 1) (\<lambda>linear. bind_res (read 2) (\<lambda>min_curvature. bind_res (read 3) (\<lambda>max_curvature.
      bind_res (read 5) (\<lambda>delta. bind_res (read 6) (\<lambda>eps.
      bind_res (read 4) (\<lambda>tolerance. bind_res (read 7) (\<lambda>frequency.
        make_time_parameterization
          (set_max_blend_curvature max_curvature (set_min_blend_curvature min_curvature
            (set_max_linear_deviation linear (set_max_blend_deviation blend default_path_options))))
          tolerance (default_trajectory_options\<lparr>to_delta := delta, to_epsilon := eps\<rparr>) frequency)))))))))"

definition make_compat_adapter :: "string \<Rightarrow> ros_node \<Rightarrow> time_parameterization res" where
  "make_compat_adapter pre node =
     (let read = (\<lambda>i. read_parameter pre node (compat_adapter_parameters ! i)) in
      bind_res (read 0) (\<lambda>tolerance. bind_res (read 2) (\<lambda>angle. bind_res (read 1) (\<lambda>dt.
        make_time_parameterization (set_max_linear_deviation 0 (set_max_blend_deviation tolerance default_path_options))
          angle default_trajectory_options (divide 1 dt)))))"

datatype move_it_error_code = Invalid_motion_plan | Success | Failure

text \<open>
  The response is its trajectory, if it has one; the node may be gone by then. The result is the error code and the trajectory.
\<close>

definition adapt ::
  "('g, 's) moveit_library \<Rightarrow> (ros_node \<Rightarrow> time_parameterization res) \<Rightarrow> ros_node option \<Rightarrow> dbl \<Rightarrow> dbl \<Rightarrow>
     ('g, 's) robot_trajectory option \<Rightarrow> move_it_error_code res \<times> ('g, 's) robot_trajectory option" where
  "adapt lib make_tz node velocity_scaling acceleration_scaling response =
     (case response of
        None \<Rightarrow> (Inr Invalid_motion_plan, None)
      | Some t \<Rightarrow>
          (case bind_res (case node of
                   None \<Rightarrow> Inl (Logic_error ''adapter used without initialization, or after its node was destroyed'')
                 | Some n \<Rightarrow> Inr n) make_tz of
             Inl e \<Rightarrow> (if what e = None then Inl e else Inr Failure, Some t)
           | Inr tz \<Rightarrow>
               let (r, t') = compute_time_stamps lib tz Map.empty Map.empty velocity_scaling acceleration_scaling t
               in (bind_res r (\<lambda>succeeded. Inr (if succeeded then Success else Failure)), Some t')))"

end
