(* ===== verification/Moveit_Properties.thy ===== *)
theory Moveit_Properties
  imports Moveit Service_Properties
begin

text \<open>
  What the MoveIt plugin promises: it never throws, a trajectory it cannot time stays the motion it was, and what replaces a
  trajectory it can time are the samples of a sound one, evenly spaced.
\<close>

section \<open>Limits\<close>

lemma scaling_factor: "\<exists>k. verified_scaling_factor x = Fin k \<and> 0 < k \<and> k \<le> 1"
  by (cases x) (auto simp: verified_scaling_factor_def)

lemma scaled_limit:
  assumes "resolve_limit variable given bounded mn mx (Fin k) = Some v" "0 < k" "k \<le> 1"
  shows "\<exists>x. v = Fin x \<and> 0 \<le> x \<and> (\<forall>l. given (av_name variable) = Some l \<longrightarrow> Fin x \<le> l)"
proof -
  obtain l where l: "v = Fin (l * k)" "0 \<le> l" "\<forall>m. given (av_name variable) = Some m \<longrightarrow> m = Fin l"
    using assms(1,2) by (auto simp: resolve_limit_def Let_def isfinite_iff split: option.splits if_splits)
  then show ?thesis using assms(2,3) mult_left_le [of k l] by (intro exI [of _ "l * k"]) auto
qed

lemma resolve_limits_kept:
  assumes "resolve_limits vl al (verified_scaling_factor vs) (verified_scaling_factor as) variables = Some (vmax, amax)"
  shows "length vmax = length variables \<and> length amax = length variables \<and>
    (\<forall>i < length variables. 0 \<le> vmax ! i \<and> 0 \<le> amax ! i \<and>
       (\<forall>l. vl (av_name (variables ! i)) = Some l \<longrightarrow> Fin (vmax ! i) \<le> l) \<and>
       (\<forall>l. al (av_name (variables ! i)) = Some l \<longrightarrow> Fin (amax ! i) \<le> l))"
  using assms
proof (induction variables arbitrary: vmax amax)
  case (Cons variable variables)
  let ?b = "av_bounds variable"
  obtain v a vs' as' where r:
    "resolve_limit variable vl (vb_velocity_bounded ?b) (vb_min_velocity ?b) (vb_max_velocity ?b) (verified_scaling_factor vs) = Some v"
    "resolve_limit variable al (vb_acceleration_bounded ?b) (vb_min_acceleration ?b) (vb_max_acceleration ?b) (verified_scaling_factor as) = Some a"
    "resolve_limits vl al (verified_scaling_factor vs) (verified_scaling_factor as) variables = Some (vs', as')"
    "vmax = fin v # vs'" "amax = fin a # as'"
    using Cons.prems by (auto simp: Let_def split: option.splits)
  obtain kv ka where k: "verified_scaling_factor vs = Fin kv" "0 < kv" "kv \<le> 1" "verified_scaling_factor as = Fin ka" "0 < ka" "ka \<le> 1"
    using scaling_factor by metis
  obtain x y where "v = Fin x" "0 \<le> x" "\<forall>l. vl (av_name variable) = Some l \<longrightarrow> Fin x \<le> l"
    "a = Fin y" "0 \<le> y" "\<forall>l. al (av_name variable) = Some l \<longrightarrow> Fin y \<le> l"
    using r(1,2) scaled_limit k by metis
  with r(4,5) Cons.IH [OF r(3)] show ?case by (auto simp: nth_Cons split: nat.split)
qed simp

section \<open>States\<close>

text \<open>
  What MoveIt documents of its states: setting the positions of the active joints of a group sets them, and setting a velocity or an
  acceleration sets that one and leaves everything else alone. The code never reads velocities and accelerations; \<open>vel\<close> and \<open>acc\<close> stand
  for the readers of MoveIt (\<open>getVariableVelocity\<close>, \<open>getVariableAcceleration\<close>) through which whoever gets the states does. The active
  variables of a group are different variables.
\<close>

definition lawful ::
  "('g, 's) moveit_library \<Rightarrow> ('s \<Rightarrow> nat \<Rightarrow> dbl) \<Rightarrow> ('s \<Rightarrow> nat \<Rightarrow> dbl) \<Rightarrow> bool" where
  "lawful lib vel acc \<longleftrightarrow>
     (\<forall>g. distinct (map av_state_index (active_variables lib g))) \<and>
     (\<forall>g q s. \<forall>i < length (active_variables lib g). length q = length (active_variables lib g) \<longrightarrow>
        mv_position lib (mv_set_positions lib g q s) (av_state_index (active_variables lib g ! i)) = Fin (q ! i)) \<and>
     (\<forall>i x s k. mv_position lib (mv_set_velocity lib i x s) k = mv_position lib s k \<and>
        mv_position lib (mv_set_acceleration lib i x s) k = mv_position lib s k \<and>
        vel (mv_set_velocity lib i x s) k = (if k = i then Fin x else vel s k) \<and>
        vel (mv_set_acceleration lib i x s) k = vel s k \<and>
        acc (mv_set_velocity lib i x s) k = acc s k \<and>
        acc (mv_set_acceleration lib i x s) k = (if k = i then Fin x else acc s k))"

text \<open>What a reader gives for the active variables of a group.\<close>

definition readings :: "('s \<Rightarrow> nat \<Rightarrow> dbl) \<Rightarrow> ('g, 's) moveit_library \<Rightarrow> 'g \<Rightarrow> 's \<Rightarrow> dbl list" where
  "readings reader lib g s = map (\<lambda>v. reader s (av_state_index v)) (active_variables lib g)"

definition positions :: "('g, 's) moveit_library \<Rightarrow> 'g \<Rightarrow> 's \<Rightarrow> dbl list" where
  "positions lib g s = map (\<lambda>v. mv_position lib s (av_state_index v)) (active_variables lib g)"

lemma finite_vector_Inr:
  assumes "finite_vector v = Inr q"
  shows "v = map Fin q"
proof -
  have "q = map fin v" "\<forall>x \<in> set v. isfinite x" using assms by (auto simp: finite_vector_def list_all_iff split: if_splits)
  moreover from this(2) have "map (\<lambda>x. Fin (fin x)) v = v" by (intro map_idI) (auto simp: isfinite_iff)
  ultimately show ?thesis by (simp add: comp_def)
qed

lemma read_states_positions:
  "read_states lib (active_variables lib g) states = Inr rows \<Longrightarrow> map (positions lib g) states = map (map Fin) rows"
  by (induction states arbitrary: rows) (auto simp: bind_res_eq_Inr positions_def dest: finite_vector_Inr)

lemma written_positions:
  assumes "lawful lib vel acc" "length (sm_configuration smp) = length (active_variables lib g)"
  shows "positions lib g (write_state lib g (active_variables lib g) smp s) = map Fin (sm_configuration smp)"
proof -
  have fold: "mv_position lib (fold (\<lambda>i s. mv_set_acceleration lib (f i) (a i) (mv_set_velocity lib (f i) (v i) s)) is s') k = mv_position lib s' k"
    for f a v "is" s' k
    using assms(1) by (induction "is" arbitrary: s') (simp_all add: lawful_def)
  show ?thesis
    unfolding positions_def write_state_def by (rule nth_equalityI) (use assms in \<open>simp_all add: fold, simp add: lawful_def\<close>)
qed

lemma written_derivatives:
  assumes "lawful lib vel acc" "length (sm_velocity smp) = length (active_variables lib g)"
    "length (sm_acceleration smp) = length (active_variables lib g)"
  shows "readings vel lib g (write_state lib g (active_variables lib g) smp s) = map Fin (sm_velocity smp)"
    "readings acc lib g (write_state lib g (active_variables lib g) smp s) = map Fin (sm_acceleration smp)"
proof -
  let ?vars = "active_variables lib g"
  let ?f = "\<lambda>i. av_state_index (?vars ! i)"
  let ?w = "\<lambda>n s. fold (\<lambda>i s. mv_set_acceleration lib (?f i) (sm_acceleration smp ! i) (mv_set_velocity lib (?f i) (sm_velocity smp ! i) s)) [0..<n] s"
  have "distinct (map av_state_index ?vars)" using assms(1) by (simp add: lawful_def)
  then have ne: "i < length ?vars \<Longrightarrow> j < i \<Longrightarrow> ?f j \<noteq> ?f i" for i j
    by (auto simp: distinct_conv_nth)
  have w: "\<forall>j < n. vel (?w n s') (?f j) = Fin (sm_velocity smp ! j) \<and> acc (?w n s') (?f j) = Fin (sm_acceleration smp ! j)"
    if "n \<le> length ?vars" for n s'
    using that
  proof (induction n)
    case (Suc n)
    show ?case
    proof (intro allI impI)
      fix j assume "j < Suc n"
      then consider "j = n" | "j < n" by linarith
      then show "vel (?w (Suc n) s') (?f j) = Fin (sm_velocity smp ! j) \<and> acc (?w (Suc n) s') (?f j) = Fin (sm_acceleration smp ! j)"
        using Suc assms(1) ne [of n j] by cases (simp_all add: lawful_def)
    qed
  qed simp
  from w [of "length ?vars"] assms(2,3)
  show "readings vel lib g (write_state lib g ?vars smp s) = map Fin (sm_velocity smp)"
    "readings acc lib g (write_state lib g ?vars smp s) = map Fin (sm_acceleration smp)"
    unfolding readings_def write_state_def by (auto intro!: nth_equalityI simp del: upt_Suc)
qed

lemma timed_states_written:
  assumes "lawful lib vel acc" "\<forall>smp \<in> set samples. sized (length (active_variables lib g)) smp"
  shows "map (positions lib g \<circ> fst) (timed_states lib g (active_variables lib g) s t samples) = map (map Fin \<circ> sm_configuration) samples"
    "map (readings vel lib g \<circ> fst) (timed_states lib g (active_variables lib g) s t samples) = map (map Fin \<circ> sm_velocity) samples"
    "map (readings acc lib g \<circ> fst) (timed_states lib g (active_variables lib g) s t samples) = map (map Fin \<circ> sm_acceleration) samples"
  using assms(2)
  by (induction samples arbitrary: s t; simp add: Let_def sized_def written_positions [OF assms(1)] written_derivatives [OF assms(1)])+

lemma timed_states_gaps:
  "map snd (timed_states lib g variables s t samples) = map2 (-) (map sm_time samples) (t # map sm_time samples)"
proof -
  have "map snd (timed_states lib g variables s t samples) = map2 (-) (map sm_time samples) (t # map sm_time samples)"
    by (induction samples arbitrary: s t) (auto simp: Let_def)
  then show ?thesis .
qed

text \<open>Evenly spaced times lie a constant step apart.\<close>

lemma even_gaps:
  assumes "0 < d" "0 < f"
  shows "map2 (-) (even_times d f) (0 # even_times d f) = 0 # replicate (nat \<lceil>d * f\<rceil>) (Fin (d / real (nat \<lceil>d * f\<rceil>)))"
proof -
  define k where "k = nat \<lceil>d * f\<rceil>"
  have "0 < \<lceil>d * f\<rceil>" using assms by simp
  then have k: "nat (\<lceil>d * f\<rceil> + 1) = Suc k" "0 < k" by (simp_all add: k_def nat_add_distrib)
  have "even_times d f = map (\<lambda>i. Fin (real i / real k * d)) [0..<Suc k]" using k(1) by (simp add: even_times_def Let_def)
  then show ?thesis
    unfolding k_def [symmetric]
    by (intro nth_equalityI) (auto simp: nth_Cons field_simps simp del: upt_Suc split: nat.split)
qed

section \<open>Timing a trajectory\<close>

text \<open>What the states of an unwound trajectory are replaced with.\<close>

definition timed_motion ::
  "('g, 's) moveit_library \<Rightarrow> ('s \<Rightarrow> nat \<Rightarrow> dbl) \<Rightarrow> ('s \<Rightarrow> nat \<Rightarrow> dbl) \<Rightarrow> time_parameterization \<Rightarrow> 'g \<Rightarrow> waypoint_accumulator \<Rightarrow> trajectory \<Rightarrow> ('s \<times> dbl) list \<Rightarrow> bool" where
  "timed_motion lib vel acc tz g unique tr ws \<longleftrightarrow>
     (\<exists>d f samples. tr_duration tr = Fin d \<and> tz_sampling_frequency tz = Fin f \<and> 0 < d \<and> 0 < f \<and>
        sampled_motion tr (wa_dof unique) (even_times d f) samples \<and> at_rest_at (last (wa_points unique)) (last samples) \<and>
        map (positions lib g \<circ> fst) ws = map (map Fin \<circ> sm_configuration) samples \<and>
        map (readings vel lib g \<circ> fst) ws = map (map Fin \<circ> sm_velocity) samples \<and>
        map (readings acc lib g \<circ> fst) ws = map (map Fin \<circ> sm_acceleration) samples \<and>
        map snd ws = 0 # replicate (nat \<lceil>d * f\<rceil>) (Fin (d / real (nat \<lceil>d * f\<rceil>))))"

definition retimed :: "('g, 's) moveit_library \<Rightarrow> ('s \<Rightarrow> nat \<Rightarrow> dbl) \<Rightarrow> ('s \<Rightarrow> nat \<Rightarrow> dbl) \<Rightarrow> time_parameterization \<Rightarrow> 'g \<Rightarrow> xvector \<times> xvector \<Rightarrow> 's list \<Rightarrow> ('s \<times> dbl) list \<Rightarrow> bool" where
  "retimed lib vel acc tz g limits states ws \<longleftrightarrow>
     (\<exists>rows unique. map (positions lib g) states = map (map Fin) rows \<and>
        deduplicate_waypoints \<lparr>wa_dof = length (active_variables lib g), wa_points = rows\<rparr> (fin (tz_deduplication_tolerance tz)) = Inr unique \<and>
        wa_dof unique = length (active_variables lib g) \<and>
        (if wa_size unique < 2 then ws = [(mv_zero_accelerations lib (mv_zero_velocities lib (hd states)), 0)]
         else \<exists>tr. path_create unique (tz_path_options tz) = Inr (tr_path tr) \<and> trajectory_create (tr_path tr) (tr_options tr) [] = Inr tr \<and>
           sound_trajectory (tr_path tr) (tr_options tr) tr \<and>
           tr_options tr = (tz_trajectory_options tz)\<lparr>to_max_velocity := fst limits, to_max_acceleration := snd limits\<rparr> \<and>
           (forward_motion tr \<longrightarrow> timed_motion lib vel acc tz g unique tr ws)))"

text \<open>What is asked of the options a time parameterization was made with, for a group of \<open>n\<close> variables.\<close>

definition sane :: "time_parameterization \<Rightarrow> nat \<Rightarrow> bool" where
  "sane tz n \<longleftrightarrow> evaluator_returns (tz_trajectory_options tz) \<and> (fin (to_epsilon (tz_trajectory_options tz)))\<^sup>2 * real n \<le> 1"

lemma written_motion:
  assumes "lawful lib vel acc" "path_inv (tr_path tr)" "sound_trajectory (tr_path tr) opt tr" "forward_motion tr"
    "path_dof (tr_path tr) = wa_dof unique" "wa_dof unique = length (active_variables lib g)"
    "path_configuration (tr_path tr) (path_length (tr_path tr)) = Inr (last (wa_points unique))"
    "quantized_for_trajectory tr (tz_sampling_frequency tz) 0 = Inr u" "samples_of tr u = Inr v" "collect_samples sampler_advance v = Inr samples"
  shows "timed_motion lib vel acc tz g unique tr (timed_states lib g (active_variables lib g) s 0 samples)"
proof -
  note inv = computed_inv [OF assms(3,2,4)]
  obtain d f where q: "tr_duration tr = Fin d" "tz_sampling_frequency tz = Fin f" "0 < d" "0 < f"
    "collect_samples sampler_advance v = sample_all tr (even_times d f)"
    by (rule collected_rows [OF inv assms(8,9)])
  then have all: "sample_all tr (even_times d f) = Inr samples" using assms(10) by simp
  then have motion: "sampled_motion tr (wa_dof unique) (even_times d f) samples"
    using sample_sized [OF inv] trajectory_sample_time(1) [OF inv] assms(5) by (auto simp: sampled_motion_def sample_all_Inr)
  then have times: "map sm_time samples = even_times d f" "\<forall>smp \<in> set samples. sized (wa_dof unique) smp"
    by (auto simp: sampled_motion_def in_set_conv_nth intro!: nth_equalityI)
  have "trajectory_sample tr (tr_duration tr) = Inr (last samples)"
    using sample_all_last [OF all] even_times_last [OF q(3,4)] q(1) by metis
  then have "at_rest_at (last (wa_points unique)) (last samples)" using final_sample [OF assms(3,2,4)] assms(7) by blast
  with motion q(1-4) timed_states_written [OF assms(1)] times(2) assms(6) timed_states_gaps [of lib g _ s 0 samples] even_gaps [OF q(3,4)]
  show ?thesis unfolding timed_motion_def times(1) by (intro exI [of _ d] exI [of _ f] exI [of _ samples]) simp
qed

lemma deduplicated:
  assumes "wa_inv a" "wa_points a \<noteq> []" "deduplicate_waypoints a tol = Inr r"
  shows "wa_inv r" "wa_dof r = wa_dof a"
proof -
  have "r = a\<lparr>wa_points := thinned tol (wa_points a)\<rparr>" using assms deduplicate_thinned [of a tol] by simp
  moreover have "set (thinned tol (wa_points a)) \<subseteq> set (wa_points a)" using subseq_thinned by (auto dest: list_emb_set)
  ultimately show "wa_inv r" "wa_dof r = wa_dof a" using assms(1) by (auto simp: wa_inv_def)
qed

lemma timed_waypoints_retimed:
  assumes "lawful lib vel acc" "sane tz (length (active_variables lib g))" "timed_waypoints lib tz g limits states = Inr ws" "states \<noteq> []"
  shows "retimed lib vel acc tz g limits states ws"
proof -
  let ?vars = "active_variables lib g" and ?state = "mv_zero_accelerations lib (mv_zero_velocities lib (hd states))"
  let ?opt = "(tz_trajectory_options tz)\<lparr>to_max_velocity := fst limits, to_max_acceleration := snd limits\<rparr>"
  obtain rows unique where r: "read_states lib ?vars states = Inr rows"
    "deduplicate_waypoints \<lparr>wa_dof = length ?vars, wa_points = rows\<rparr> (fin (tz_deduplication_tolerance tz)) = Inr unique"
    using assms(3) by (auto simp: timed_waypoints_def Let_def bind_res_eq_Inr wa_of_matrix_def split: if_splits)
  note rows = read_states_positions [OF r(1)]
  have ne: "rows \<noteq> []" using rows assms(4) by auto
  have "length q = length ?vars" if "q \<in> set rows" for q
  proof -
    from that rows have "map Fin q \<in> set (map (positions lib g) states)" by simp
    then show ?thesis by (auto simp: positions_def dest: arg_cong [where f = length])
  qed
  then have "wa_inv \<lparr>wa_dof = length ?vars, wa_points = rows\<rparr>" by (simp add: wa_inv_def)
  from deduplicated [OF this _ r(2)] ne have u: "wa_inv unique" "wa_dof unique = length ?vars" by simp_all
  show ?thesis
  proof (cases "wa_size unique < 2")
    case True
    with assms(3) r rows u ne show ?thesis
      by (auto simp: retimed_def timed_waypoints_def Let_def wa_of_matrix_def)
  next
    case False
    then obtain p tr s v samples where m: "path_create unique (tz_path_options tz) = Inr p" "trajectory_create p ?opt [] = Inr tr"
      "quantized_for_trajectory tr (tz_sampling_frequency tz) 0 = Inr s" "samples_of tr s = Inr v"
      "collect_samples sampler_advance v = Inr samples" "ws = timed_states lib g ?vars ?state 0 samples"
      using assms(3) r ne by (auto simp: timed_waypoints_def Let_def wa_of_matrix_def bind_res_eq_Inr)
    have "valid_options (tz_path_options tz)" using path_create_checks [of unique "tz_path_options tz"] m(1) by auto
    then have p: "path_inv p" "path_dof p = wa_dof unique" "path_configuration p (path_length p) = Inr (last (wa_points unique))"
      using path_create_outcome [OF _ u(1)] False m(1) path_end_configuration [of p] by (fastforce simp: not_less)+
    have "sound_trajectory p ?opt tr"
      using assms(2) p(2) u(2) by (intro created_sound [OF p(1) _ _ m(2)]) (simp_all add: sane_def evaluator_returns_def)
    moreover from this have "tr_path tr = p" "tr_options tr = ?opt" by (simp_all add: sound_trajectory_def)
    ultimately have "path_create unique (tz_path_options tz) = Inr (tr_path tr) \<and> trajectory_create (tr_path tr) (tr_options tr) [] = Inr tr \<and>
        sound_trajectory (tr_path tr) (tr_options tr) tr \<and> tr_options tr = ?opt \<and> (forward_motion tr \<longrightarrow> timed_motion lib vel acc tz g unique tr ws)"
      using m written_motion [OF assms(1), of tr ?opt unique g tz s v samples] p u(2) by simp
    with False rows r(2) u(2) show ?thesis unfolding retimed_def by auto
  qed
qed

text \<open>
  C17: What MoveIt gets from the time parameterization. It reports failures and never throws; a failure leaves the trajectory as it was,
  or unwound. On success an empty trajectory stays empty. Otherwise the limits were those of the call where it
  gave any, scaled down and never up, and the waypoints are replaced: by the starting state at rest if they keep to one place, and
  else by the samples of a trajectory planned soundly to those limits through the unwound waypoints. If that trajectory goes forward (no
  velocity of a point came out negative, and its duration is finite), the states carry the positions, velocities and accelerations of its
  samples, up to the last waypoint, where the velocities are zero, and the durations between them are all the same.
\<close>

theorem time_stamps_spec:
  assumes "lawful lib vel acc"
    "\<And>g. ro_group t = Some g \<Longrightarrow> sane tz (length (active_variables lib g)) \<and> (\<forall>ss. length (mv_unwind lib g ss) = length ss)"
    "compute_time_stamps lib tz vl al vs as t = (r, t')"
  shows "case r of
      Inl e \<Rightarrow> what e = None
    | Inr False \<Rightarrow> t' = t \<or> (\<exists>g. ro_group t = Some g \<and> t' = unwind lib g t)
    | Inr True \<Rightarrow> ro_waypoints t = [] \<and> t' = t \<or>
        (\<exists>g vmax amax. ro_group t = Some g \<and> ro_group t' = Some g \<and>
           resolve_limits vl al (verified_scaling_factor vs) (verified_scaling_factor as) (active_variables lib g) = Some (vmax, amax) \<and>
           (\<forall>i < length (active_variables lib g). 0 \<le> vmax ! i \<and> 0 \<le> amax ! i \<and>
              (\<forall>l. vl (av_name (active_variables lib g ! i)) = Some l \<longrightarrow> Fin (vmax ! i) \<le> l) \<and>
              (\<forall>l. al (av_name (active_variables lib g ! i)) = Some l \<longrightarrow> Fin (amax ! i) \<le> l)) \<and>
           retimed lib vel acc tz g (vmax, amax) (mv_unwind lib g (map fst (ro_waypoints t))) (ro_waypoints t'))"
proof -
  consider (empty) "ro_waypoints t = []" | (no_group) "ro_waypoints t \<noteq> []" "ro_group t = None"
    | (group) g where "ro_waypoints t \<noteq> []" "ro_group t = Some g" by (cases "ro_group t") auto
  then show ?thesis
  proof cases
    case (group g)
    let ?limits = "resolve_limits vl al (verified_scaling_factor vs) (verified_scaling_factor as) (active_variables lib g)"
    let ?states = "mv_unwind lib g (map fst (ro_waypoints t))"
    have len: "length ?states = length (ro_waypoints t)" using conjunct2 [OF assms(2) [OF group(2)]] by simp
    have states: "map fst (ro_waypoints (unwind lib g t)) = ?states" "ro_group (unwind lib g t) = Some g"
      using len group(2) by (simp_all add: unwind_def)
    have ne: "?states \<noteq> []" using len group(1) by (metis length_0_conv)
    show ?thesis
    proof (cases ?limits)
      case None
      with assms(3) group show ?thesis by (auto simp: compute_time_stamps_def)
    next
      case (Some limits)
      obtain vmax amax where l: "limits = (vmax, amax)" by fastforce
      show ?thesis
      proof (cases "timed_waypoints lib tz g limits ?states")
        case (Inl e)
        have "compute_time_stamps lib tz vl al vs as t = (if what e = None then Inl e else Inr False, unwind lib g t)"
          using group Some states(1) Inl by (simp add: compute_time_stamps_def Let_def)
        with assms(3) group(2) show ?thesis by (auto split: if_splits)
      next
        case (Inr ws)
        have motion: "retimed lib vel acc tz g (vmax, amax) ?states ws"
          unfolding l [symmetric] using conjunct1 [OF assms(2) [OF group(2)]] ne by (intro timed_waypoints_retimed [OF assms(1) _ Inr])
        have "compute_time_stamps lib tz vl al vs as t = (Inr True, unwind lib g t\<lparr>ro_waypoints := ws\<rparr>)"
          using group Some states(1) Inr by (simp add: compute_time_stamps_def Let_def)
        then have res: "r = Inr True" "ro_waypoints t' = ws" "ro_group t' = Some g" using assms(3) states(2) by auto
        show ?thesis
          unfolding res sum.case bool.case
          using motion group(2) Some l resolve_limits_kept [OF Some [unfolded l]] by blast
      qed
    qed
  qed (use assms(3) in \<open>auto simp: compute_time_stamps_def\<close>)
qed

section \<open>The response adapters\<close>

lemma compute_reports: "compute_time_stamps lib tz vl al vs as t = (Inl e, t') \<Longrightarrow> what e = None"
  by (auto simp: compute_time_stamps_def Let_def split: if_splits option.splits sum.splits)

lemma adapt_reports: "adapt lib make_tz node vs as response = (Inl e, response') \<Longrightarrow> what e = None"
  by (auto simp: adapt_def bind_res_eq_Inl split: option.splits sum.splits if_splits prod.splits dest: compute_reports)

text \<open>Declaring keeps what the node has already, and what it has not becomes the default.\<close>

lemma declared_parameter:
  "declare_parameter pre dp node (pre @ dp_name dq) =
     (if dp_name dq = dp_name dp \<and> node (pre @ dp_name dq) = None then Some (Ros_double (dp_default dp)) else node (pre @ dp_name dq))"
  by (auto simp: declare_parameter_def Let_def)

lemma declared_parameters:
  assumes "distinct (map dp_name ps)" "dq \<in> set ps"
  shows "declare_parameters pre ps node (pre @ dp_name dq) =
     (case node (pre @ dp_name dq) of None \<Rightarrow> Some (Ros_double (dp_default dq)) | Some v \<Rightarrow> Some v)"
proof -
  have keeps: "fold (declare_parameter pre) ps node (pre @ dp_name dq) = node (pre @ dp_name dq)"
    if "node (pre @ dp_name dq) \<noteq> None \<or> dp_name dq \<notin> dp_name ` set ps" for ps node
    using that by (induction ps arbitrary: node) (auto simp: declared_parameter)
  show ?thesis
    using assms unfolding declare_parameters_def
    by (induction ps arbitrary: node) (auto simp: keeps declared_parameter rev_image_eqI split: option.splits)
qed

lemma declared_read:
  assumes "distinct (map dp_name ps)" "dq \<in> set ps" "node (pre @ dp_name dq) = None"
  shows "read_parameter pre (declare_parameters pre ps node) dq = Inr (dp_default dq)"
  by (simp add: read_parameter_def declared_parameters [OF assms(1,2)] assms(3))

text \<open>On a node that sets nothing, the adapter plans with the planner's own defaults.\<close>

lemma default_adapter:
  assumes "\<forall>p \<in> set adapter_parameters. node (pre @ dp_name p) = None"
  shows "make_adapter pre (declare_parameters pre adapter_parameters node) =
    Inr \<lparr>tz_path_options = default_path_options, tz_deduplication_tolerance = k_default_deduplication_tolerance,
         tz_trajectory_options = default_trajectory_options, tz_sampling_frequency = k_default_sampling_frequency_hz\<rparr>"
proof -
  have "distinct (map dp_name adapter_parameters)" by (simp add: adapter_parameters_def)
  then have read: "read_parameter pre (declare_parameters pre adapter_parameters node) (adapter_parameters ! i) = Inr (dp_default (adapter_parameters ! i))"
    if "i < length adapter_parameters" for i
    using assms nth_mem [OF that] by (intro declared_read) auto
  have "length adapter_parameters = 8" by (simp add: adapter_parameters_def)
  then show ?thesis
    by (simp add: make_adapter_def read)
       (simp add: adapter_parameters_def make_time_parameterization_def k_default_deduplication_tolerance_def
         k_default_sampling_frequency_hz_def default_trajectory_options_def default_path_options_def set_max_blend_deviation_def
         set_max_linear_deviation_def set_min_blend_curvature_def set_max_blend_curvature_def)
qed

text \<open>The witness: the rail, as the one joint of a group. A state holds position, velocity and acceleration of each variable.\<close>

definition rail_library :: "(unit, nat \<Rightarrow> dbl \<times> dbl \<times> dbl) moveit_library" where
  "rail_library = \<lparr>mv_active_joint_models = \<lambda>_. [\<lparr>jm_first_variable_index = 3, jm_variable_names = [''slide''],
       jm_variable_bounds = [\<lparr>vb_velocity_bounded = True, vb_min_velocity = Fin (- 20000), vb_max_velocity = Fin 10000,
         vb_acceleration_bounded = False, vb_min_acceleration = 0, vb_max_acceleration = 0\<rparr>]\<rparr>],
     mv_unwind = \<lambda>_ ss. ss, mv_position = \<lambda>s i. fst (s i),
     mv_zero_velocities = \<lambda>s i. (fst (s i), 0, snd (snd (s i))), mv_zero_accelerations = \<lambda>s i. (fst (s i), fst (snd (s i)), 0),
     mv_set_positions = \<lambda>_ q s. s(3 := (Fin (q ! 0), snd (s 3))),
     mv_set_velocity = \<lambda>i x s. s(i := (fst (s i), Fin x, snd (snd (s i)))),
     mv_set_acceleration = \<lambda>i x s. s(i := (fst (s i), fst (snd (s i)), Fin x))\<rparr>"

definition rail_velocity :: "(nat \<Rightarrow> dbl \<times> dbl \<times> dbl) \<Rightarrow> nat \<Rightarrow> dbl" where
  "rail_velocity s i = fst (snd (s i))"

definition rail_acceleration :: "(nat \<Rightarrow> dbl \<times> dbl \<times> dbl) \<Rightarrow> nat \<Rightarrow> dbl" where
  "rail_acceleration s i = snd (snd (s i))"

definition rail_timing :: time_parameterization where
  "rail_timing = \<lparr>tz_path_options = default_path_options, tz_deduplication_tolerance = Fin (1 / 10 ^ 5),
     tz_trajectory_options = default_trajectory_options\<lparr>to_delta := Fin (1 / 1000), to_epsilon := Fin (1 / 10 ^ 6)\<rparr>,
     tz_sampling_frequency = 100\<rparr>"

definition rail_states :: "(nat \<Rightarrow> dbl \<times> dbl \<times> dbl) list" where
  "rail_states = [\<lambda>_. (0, 0, 0), \<lambda>_. (Fin (5 / 2), 0, 0)]"

definition untimed_rail :: "(unit, nat \<Rightarrow> dbl \<times> dbl \<times> dbl) robot_trajectory" where
  "untimed_rail = \<lparr>ro_group = Some (), ro_waypoints = map (\<lambda>s. (s, 0)) rail_states\<rparr>"

lemma rail_library_lawful: "lawful rail_library rail_velocity rail_acceleration"
  by (simp add: lawful_def rail_library_def active_variables_def rail_velocity_def rail_acceleration_def upt_rec)

lemma rail_variables: "map av_state_index (active_variables rail_library ()) = [3]" "length (active_variables rail_library ()) = 1"
  by (simp_all add: rail_library_def active_variables_def upt_rec)

lemma rail_limits:
  "resolve_limits Map.empty [''slide'' \<mapsto> Fin 2000000] (verified_scaling_factor 7) (verified_scaling_factor (Fin (1 / 2)))
     (active_variables rail_library ()) = Some ([10000], [1000000])"
  by (simp add: rail_library_def active_variables_def resolve_limit_def verified_scaling_factor_def Let_def upt_rec std_min_def)

lemma rail_timing_fields:
  "tz_path_options rail_timing = default_path_options" "fin (tz_deduplication_tolerance rail_timing) = 1 / 10 ^ 5"
  "tz_sampling_frequency rail_timing = 100"
  by (simp_all add: rail_timing_def)

lemma rail_timing_options:
  "(tz_trajectory_options rail_timing)\<lparr>to_max_velocity := [10000], to_max_acceleration := [1000000]\<rparr> = scaled_options 1000 (1 / 10 ^ 6)"
  by (simp add: rail_timing_def default_trajectory_options_def scaled_options_def)

lemma rail_timed:
  assumes tr: "trajectory_create rail (scaled_options 1000 (1 / 10 ^ 6)) [] = Inr tr" "traj_inv tr" "tr_duration tr = Fin (7 / 2000)"
  shows "\<exists>ws. timed_waypoints rail_library rail_timing () ([10000], [1000000]) rail_states = Inr ws"
proof -
  have rows: "read_states rail_library (active_variables rail_library ()) rail_states = Inr [[0], [5 / 2]]"
    by (simp add: rail_library_def active_variables_def rail_states_def finite_vector_def upt_rec)
  obtain u where u: "quantized_for_trajectory tr 100 0 = Inr u"
    by (simp add: quantized_for_trajectory_def Let_def tr(3) quantized_samples_cases ceiling_unique [of 0])
  obtain c where "create_traj_cursor tr = Inr c" using create_traj_cursor_inv [OF tr(2)] by blast
  then obtain v where v: "samples_of tr u = Inr v" by (simp add: samples_of_def)
  obtain d g where q: "tr_duration tr = Fin d" "100 = Fin g" "collect_samples sampler_advance v = sample_all tr (even_times d g)"
    by (rule collected_rows [OF tr(2) u v])
  then have "d = 7 / 2000" "g = 100" using tr(3) by simp_all
  with q(3) rail_even_times have all: "collect_samples sampler_advance v = sample_all tr [0, Fin (7 / 2000)]" by simp
  obtain samples where samples: "sample_all tr [0, Fin (7 / 2000)] = Inr samples"
    using scaled_sample [OF quick_scale tr(1), of 0] scaled_sample [OF quick_scale tr(1), of "7 / 2000"] by auto
  show ?thesis
    using tr(1) rail_deduplicated u v all samples rail_path
    by (simp add: timed_waypoints_def Let_def rows wa_of_matrix_def rail_variables wa_size_def rail_timing_options rail_timing_fields
        del: One_nat_def zero_Fin sample_all.simps)
qed

theorem time_stamps_spec_witness:
  "\<exists>ws. compute_time_stamps rail_library rail_timing Map.empty [''slide'' \<mapsto> Fin 2000000] 7 (Fin (1 / 2)) untimed_rail =
      (Inr True, \<lparr>ro_group = Some (), ro_waypoints = ws\<rparr>) \<and> map snd ws = [0, Fin (7 / 2000)] \<and> fst (fst (last ws) 3) = Fin (5 / 2) \<and>
      rail_velocity (fst (last ws)) 3 = 0"
proof -
  obtain tr where tr: "trajectory_create rail (scaled_options 1000 (1 / 10 ^ 6)) [] = Inr tr" "forward_motion tr" "traj_inv tr"
    "tr_duration tr = Fin (7 / 2000)"
    by (rule scaled_trajectory [OF quick_scale]) simp
  let ?run = "compute_time_stamps rail_library rail_timing Map.empty [''slide'' \<mapsto> Fin 2000000] 7 (Fin (1 / 2)) untimed_rail"
  obtain ws where "timed_waypoints rail_library rail_timing () ([10000], [1000000]) rail_states = Inr ws" using rail_timed [OF tr(1,3,4)] by blast
  then have run: "?run = (Inr True, \<lparr>ro_group = Some (), ro_waypoints = ws\<rparr>)"
    using rail_limits
    by (simp add: compute_time_stamps_def untimed_rail_def unwind_def rail_library_def rail_states_def Let_def)
  have "sane rail_timing 1" by (simp add: sane_def rail_timing_def default_trajectory_options_def evaluator_returns_def power2_eq_square)
  then have "retimed rail_library rail_velocity rail_acceleration rail_timing () ([10000], [1000000]) rail_states ws"
    using time_stamps_spec [OF rail_library_lawful _ run] rail_variables(2) rail_limits
    by (auto simp: untimed_rail_def rail_library_def rail_states_def)
  then obtain rows unique where m: "map (positions rail_library ()) rail_states = map (map Fin) rows"
    "deduplicate_waypoints \<lparr>wa_dof = 1, wa_points = rows\<rparr> (1 / 10 ^ 5) = Inr unique"
    "\<not> wa_size unique < 2 \<Longrightarrow> \<exists>tr. path_create unique default_path_options = Inr (tr_path tr) \<and>
       trajectory_create (tr_path tr) (tr_options tr) [] = Inr tr \<and> tr_options tr = scaled_options 1000 (1 / 10 ^ 6) \<and>
       (forward_motion tr \<longrightarrow> timed_motion rail_library rail_velocity rail_acceleration rail_timing () unique tr ws)"
    unfolding retimed_def rail_variables(2) rail_timing_fields fst_conv snd_conv rail_timing_options by (metis (full_types))
  have "map (positions rail_library ()) rail_states = map (map Fin) [[0], [5 / 2]]"
    by (simp add: positions_def rail_library_def active_variables_def rail_states_def upt_rec)
  then have "rows = [[0], [5 / 2]]" using m(1) by auto
  with m(2) rail_deduplicated have [simp]: "unique = rail_batch" by simp
  obtain tr' where "path_create unique default_path_options = Inr (tr_path tr')" "tr_options tr' = scaled_options 1000 (1 / 10 ^ 6)"
    "trajectory_create (tr_path tr') (tr_options tr') [] = Inr tr'" "forward_motion tr' \<longrightarrow> timed_motion rail_library rail_velocity rail_acceleration rail_timing () unique tr' ws"
    using m(3) by (auto simp: wa_size_def)
  moreover from this have "tr' = tr" using tr(1) rail_path by (simp del: One_nat_def)
  ultimately have "timed_motion rail_library rail_velocity rail_acceleration rail_timing () rail_batch tr ws" using tr(2) by simp
  then obtain d f samples where t: "Fin (7 / 2000) = Fin d" "100 = Fin f" "at_rest_at (last (wa_points rail_batch)) (last samples)"
    "map (positions rail_library () \<circ> fst) ws = map (map Fin \<circ> sm_configuration) samples"
    "map (readings rail_velocity rail_library () \<circ> fst) ws = map (map Fin \<circ> sm_velocity) samples"
    "map snd ws = 0 # replicate (nat \<lceil>d * f\<rceil>) (Fin (d / real (nat \<lceil>d * f\<rceil>)))"
    unfolding timed_motion_def tr(4) rail_timing_fields by (elim exE conjE) (rule that)
  have d: "d = 7 / 2000" "f = 100" using t(1,2) by simp_all
  have gaps: "map snd ws = [0, Fin (7 / 2000)]" using t(6) unfolding d by (simp add: ceiling_unique [of 0])
  then have ne: "ws \<noteq> []" by auto
  with t(4) have "samples \<noteq> []" by auto
  then have "positions rail_library () (fst (last ws)) = [Fin (5 / 2)]"
    using t(3) last_map [of ws "positions rail_library () \<circ> fst"] last_map [of samples "map Fin \<circ> sm_configuration"] ne
    unfolding t(4) by (simp add: at_rest_at_def)
  then have pos: "fst (fst (last ws) 3) = Fin (5 / 2)" by (simp add: positions_def rail_library_def active_variables_def upt_rec)
  have "map Fin (sm_velocity (last samples)) = readings rail_velocity rail_library () (fst (last ws))"
    using last_map [of ws "readings rail_velocity rail_library () \<circ> fst"] last_map [of samples "map Fin \<circ> sm_velocity"] ne \<open>samples \<noteq> []\<close>
    unfolding t(5) by simp
  then have "map Fin (sm_velocity (last samples)) = [rail_velocity (fst (last ws)) 3]"
    by (simp add: readings_def rail_library_def active_variables_def upt_rec)
  then have "rail_velocity (fst (last ws)) 3 = 0" using t(3) by (auto simp: at_rest_at_def)
  with run gaps pos show ?thesis by (intro exI [of _ ws] conjI)
qed

end
