(* ===== verification/Diagnostics.thy ===== *)
theory Diagnostics
  imports Replay Trajectory_Sampling
begin

text \<open>
  Observers of an integration (\<open>totg/observers.{hpp,cpp}\<close>) and the document for its visualizer
  (\<open>totg/tools/json_serialization.cpp\<close>). The integration itself is modelled without its observers; here the events it reports are given.
\<close>

section \<open>Observers\<close>

datatype event =
    Started_forward phase_point
  | Hit_limit_curve phase_point arc_velocity arc_velocity
  | Started_backward phase_point switching_point_kind
  | Trajectory_extended "integration_point list"

record event_collector =
  ec_events :: "event list"
  ec_invalid_trajectory :: "trajectory option"
  ec_invalid_exception :: "exn option"

definition empty_collector :: event_collector where
  "empty_collector = \<lparr>ec_events = [], ec_invalid_trajectory = None, ec_invalid_exception = None\<rparr>"

definition on_event :: "trajectory \<Rightarrow> event \<Rightarrow> event_collector \<Rightarrow> event_collector" where
  "on_event tr ev c = c\<lparr>ec_events := ec_events c @ [ev]\<rparr>"

definition collect_failure :: "exn \<Rightarrow> trajectory option \<Rightarrow> event_collector \<Rightarrow> event_collector" where
  "collect_failure e invalid c = c\<lparr>ec_invalid_trajectory := invalid, ec_invalid_exception := Some e\<rparr>"

text \<open>
  An observer of many. What an observer does when it is told may reach the composite again, so its handler works on the
  composite's state together with the state of everything else.
\<close>

record 'o composite =
  co_observers :: "'o list"
  co_dispatching :: bool

definition guarded ::
  "('o composite \<times> 'w \<Rightarrow> unit res \<times> ('o composite \<times> 'w)) \<Rightarrow> 'o composite \<times> 'w \<Rightarrow> unit res \<times> ('o composite \<times> 'w)" where
  "guarded f = (\<lambda>(c, w).
     if co_dispatching c then (Inl (Runtime_error ''Re-entrant call to composite_integration_observer detected''), (c, w))
     else let (r, (c', w')) = f (c\<lparr>co_dispatching := True\<rparr>, w) in (r, (c'\<lparr>co_dispatching := False\<rparr>, w')))"

definition add_observer :: "'o option \<Rightarrow> 'o composite \<times> 'w \<Rightarrow> unit res \<times> ('o composite \<times> 'w)" where
  "add_observer ob s =
     (case ob of
        None \<Rightarrow> (Inl (Invalid_argument ''Cannot add null observer to composite_integration_observer''), s)
      | Some ob' \<Rightarrow> guarded (\<lambda>(c, w). (Inr (), (c\<lparr>co_observers := co_observers c @ [ob']\<rparr>, w))) s)"

fun notify :: "('o \<Rightarrow> 's \<Rightarrow> unit res \<times> 's) \<Rightarrow> 'o list \<Rightarrow> 's \<Rightarrow> unit res \<times> 's" where
  "notify handler [] s = (Inr (), s)"
| "notify handler (ob # obs) s =
     (let (r, s') = handler ob s in case r of Inl e \<Rightarrow> (Inl e, s') | Inr _ \<Rightarrow> notify handler obs s')"

definition dispatch ::
  "('o \<Rightarrow> event \<Rightarrow> 'o composite \<times> 'w \<Rightarrow> unit res \<times> ('o composite \<times> 'w)) \<Rightarrow> event \<Rightarrow> 'o composite \<times> 'w \<Rightarrow>
     unit res \<times> ('o composite \<times> 'w)" where
  "dispatch handler ev = guarded (\<lambda>s. notify (\<lambda>ob. handler ob ev) (co_observers (fst s)) s)"

text \<open>
  A failure is passed on without the flag being set, so an observer can still add observers, and the loop goes on in a vector that
  has changed under it.
\<close>

fun notify_failed :: "('o \<Rightarrow> 'o composite \<times> 'w \<Rightarrow> 'o composite \<times> 'w) \<Rightarrow> 'o list \<Rightarrow> 'o composite \<times> 'w \<Rightarrow>
    unit res \<times> ('o composite \<times> 'w)" where
  "notify_failed handler [] s = (Inr (), s)"
| "notify_failed handler (ob # obs) s =
     (let s' = handler ob s in
      if co_observers (fst s') \<noteq> co_observers (fst s)
      then (Inl (Undefined_behaviour ''iterator into a vector that was appended to''), s')
      else notify_failed handler obs s')"

definition composite_on_failed ::
  "('o \<Rightarrow> exn \<Rightarrow> trajectory option \<Rightarrow> 'o composite \<times> 'w \<Rightarrow> 'o composite \<times> 'w) \<Rightarrow> exn \<Rightarrow> trajectory option \<Rightarrow>
     'o composite \<times> 'w \<Rightarrow> unit res \<times> ('o composite \<times> 'w)" where
  "composite_on_failed handler e invalid s =
     (if co_dispatching (fst s) then (Inr (), s)
      else notify_failed (\<lambda>ob. handler ob e invalid) (co_observers (fst s)) s)"

section \<open>Integration points\<close>

definition finite_or_null :: "arc_velocity \<Rightarrow> json" where
  "finite_or_null v = (if v = PInf \<or> v = NInf then J_null else J_number v)"

fun switching_point_kind_to_string :: "switching_point_kind \<Rightarrow> string" where
  "switching_point_kind_to_string K_path_begin = ''k_path_begin''"
| "switching_point_kind_to_string K_discontinuous_curvature = ''k_discontinuous_curvature''"
| "switching_point_kind_to_string K_nondifferentiable_extremum = ''k_nondifferentiable_extremum''"
| "switching_point_kind_to_string K_velocity_escape = ''k_velocity_escape''"
| "switching_point_kind_to_string K_discontinuous_velocity_limit = ''k_discontinuous_velocity_limit''"
| "switching_point_kind_to_string K_path_end = ''k_path_end''"

text \<open>What is written of one point.\<close>

record point_row =
  pr_point :: integration_point
  pr_limits :: velocity_limits
  pr_components :: velocity_limit_components
  pr_bounds :: acceleration_bounds
  pr_configuration :: "dbl list"
  pr_velocity :: "dbl list"
  pr_acceleration :: "dbl list"

definition integration_row :: "trajectory \<Rightarrow> integration_point \<Rightarrow> cursor \<Rightarrow> (point_row \<times> cursor) res" where
  "integration_row tr pt cursor0 =
     bind_res (cursor_seek cursor0 (ip_s pt)) (\<lambda>c.
     bind_res (cursor_configuration c) (\<lambda>q.
     bind_res (cursor_tangent c) (\<lambda>q_dot.
     bind_res (cursor_curvature c) (\<lambda>q_ddot.
     bind_res (get_velocity_limits_detail tr c) (\<lambda>(limits, components).
     bind_res (get_acceleration_bounds tr c (ip_s_dot pt)) (\<lambda>bounds.
       Inr (\<lparr>pr_point = pt, pr_limits = limits, pr_components = components, pr_bounds = bounds,
             pr_configuration = map Fin q,
             pr_velocity = map (\<lambda>x. Fin x * ip_s_dot pt) q_dot,
             pr_acceleration = map2 (\<lambda>y x. Fin y * (ip_s_dot pt * ip_s_dot pt) + Fin x * ip_s_ddot pt) q_ddot q_dot\<rparr>, c)))))))"

fun integration_rows :: "trajectory \<Rightarrow> integration_point list \<Rightarrow> cursor \<Rightarrow> point_row list res" where
  "integration_rows tr [] c = Inr []"
| "integration_rows tr (pt # pts) c =
     bind_res (integration_row tr pt c) (\<lambda>(row, c'). bind_res (integration_rows tr pts c') (\<lambda>rows. Inr (row # rows)))"

text \<open>One array for each of the thirteen quantities.\<close>

definition point_columns :: "point_row list \<Rightarrow> json" where
  "point_columns rows =
     (let column = (\<lambda>f. J_array (map f rows)) in
      J_object
       [''time'' \<mapsto> column (J_number \<circ> ip_time \<circ> pr_point), ''s'' \<mapsto> column (J_number \<circ> ip_s \<circ> pr_point),
        ''s_dot'' \<mapsto> column (J_number \<circ> ip_s_dot \<circ> pr_point), ''s_ddot'' \<mapsto> column (J_number \<circ> ip_s_ddot \<circ> pr_point),
        ''s_dot_max_acc'' \<mapsto> column (finite_or_null \<circ> vl_s_dot_max_acc \<circ> pr_limits),
        ''s_dot_max_vel'' \<mapsto> column (finite_or_null \<circ> vl_s_dot_max_vel \<circ> pr_limits),
        ''s_dot_max_vel_joint'' \<mapsto> column (finite_or_null \<circ> vlc_joint \<circ> pr_components),
        ''s_dot_max_vel_tcp'' \<mapsto> column (finite_or_null \<circ> vlc_tcp \<circ> pr_components),
        ''s_ddot_min'' \<mapsto> column (J_number \<circ> ab_s_ddot_min \<circ> pr_bounds), ''s_ddot_max'' \<mapsto> column (J_number \<circ> ab_s_ddot_max \<circ> pr_bounds),
        ''configuration'' \<mapsto> column (json_array \<circ> pr_configuration), ''velocity'' \<mapsto> column (json_array \<circ> pr_velocity),
        ''acceleration'' \<mapsto> column (json_array \<circ> pr_acceleration)])"

definition serialize_integration_points :: "trajectory \<Rightarrow> json res" where
  "serialize_integration_points tr =
     bind_res (create_cursor (tr_path tr) 0) (\<lambda>c. bind_res (integration_rows tr (tr_points tr) c) (\<lambda>rows. Inr (point_columns rows)))"

section \<open>Events\<close>

definition phase_entry :: "phase_point \<Rightarrow> string \<Rightarrow> json option" where
  "phase_entry p = [''s'' \<mapsto> J_number (pp_s p), ''s_dot'' \<mapsto> J_number (pp_s_dot p)]"

definition pruned_entry :: "integration_point list \<Rightarrow> json" where
  "pruned_entry pts =
     (let column = (\<lambda>f. json_array (map f pts)) in
      J_object [''time'' \<mapsto> column ip_time, ''s'' \<mapsto> column ip_s, ''s_dot'' \<mapsto> column ip_s_dot, ''s_ddot'' \<mapsto> column ip_s_ddot])"

text \<open>The array an event goes into and its entry there.\<close>

fun event_entry :: "event \<Rightarrow> string \<times> json" where
  "event_entry (Started_forward p) = (''forward_starts'', J_object (phase_entry p))"
| "event_entry (Hit_limit_curve p acc vel) = (''limit_hits'', J_object ((phase_entry p)
     (''s_dot_max_acc'' \<mapsto> finite_or_null acc, ''s_dot_max_vel'' \<mapsto> finite_or_null vel)))"
| "event_entry (Started_backward p kind) = (''backward_starts'', J_object ((phase_entry p)
     (''kind'' \<mapsto> J_string (switching_point_kind_to_string kind))))"
| "event_entry (Trajectory_extended pruned) = (''splices'', J_object
     [''num_pruned'' \<mapsto> J_number (Fin (real (length pruned))), ''pruned_points'' \<mapsto> pruned_entry pruned])"

definition serialize_events :: "event list \<Rightarrow> json" where
  "serialize_events events =
     (let entries = (\<lambda>k. J_array (map snd (filter (\<lambda>x. fst x = k) (map event_entry events)))) in
      J_object [''forward_starts'' \<mapsto> entries ''forward_starts'', ''limit_hits'' \<mapsto> entries ''limit_hits'',
                ''backward_starts'' \<mapsto> entries ''backward_starts'', ''splices'' \<mapsto> entries ''splices''])"

section \<open>Samples of the limit curves\<close>

record limit_sample =
  li_s :: arc_length
  li_acc :: arc_velocity
  li_vel :: arc_velocity
  li_vel_joint :: arc_velocity
  li_vel_tcp :: arc_velocity

definition add_limit_sample :: "trajectory \<Rightarrow> arc_length \<Rightarrow> cursor \<times> limit_sample list \<Rightarrow> (cursor \<times> limit_sample list) res" where
  "add_limit_sample tr s = (\<lambda>(cursor0, samples).
     bind_res (cursor_seek cursor0 s) (\<lambda>c.
     bind_res (get_velocity_limits_detail tr c) (\<lambda>(limits, components).
       Inr (c, samples @ [\<lparr>li_s = s, li_acc = vl_s_dot_max_acc limits, li_vel = vl_s_dot_max_vel limits,
                           li_vel_joint = vlc_joint components, li_vel_tcp = vlc_tcp components\<rparr>]))))"

fun add_limit_samples :: "trajectory \<Rightarrow> arc_length list \<Rightarrow> cursor \<times> limit_sample list \<Rightarrow> (cursor \<times> limit_sample list) res" where
  "add_limit_samples tr [] st = Inr st"
| "add_limit_samples tr (s # ss) st = bind_res (add_limit_sample tr s st) (add_limit_samples tr ss)"

fun pruned_positions :: "event list \<Rightarrow> arc_length list" where
  "pruned_positions [] = []"
| "pruned_positions (Trajectory_extended pruned # events) = map ip_s pruned @ pruned_positions events"
| "pruned_positions (_ # events) = pruned_positions events"

text \<open>The farthest an event reaches beyond the last point, within the path.\<close>

fun event_reach :: "event \<Rightarrow> arc_length \<Rightarrow> arc_length" where
  "event_reach (Hit_limit_curve p acc vel) s = (if s < pp_s p then pp_s p else s)"
| "event_reach (Started_backward p kind) s = (if s < pp_s p then pp_s p else s)"
| "event_reach (Started_forward p) s = (if s < pp_s p then pp_s p else s)"
| "event_reach (Trajectory_extended pruned) s = s"

definition farthest_position :: "trajectory \<Rightarrow> event list \<Rightarrow> arc_length" where
  "farthest_position tr events =
     (let farthest = fold event_reach events (ip_s (last (tr_points tr)))
      in if path_length (tr_path tr) < farthest then path_length (tr_path tr) else farthest)"

definition gap_step :: "integration_point list \<Rightarrow> arc_length \<Rightarrow> dbl" where
  "gap_step points farthest =
     (let delta = divide (ip_s (last points) - ip_s (hd points)) (Fin (real (length points - 1)))
      in if length points < 2 \<or> delta \<le> 0 then divide (farthest - ip_s (last points)) 20 else delta)"

definition gap_body :: "trajectory \<Rightarrow> arc_length \<Rightarrow> dbl \<Rightarrow> arc_length \<times> cursor \<times> limit_sample list \<Rightarrow>
    (arc_length \<times> cursor \<times> limit_sample list, cursor \<times> limit_sample list) flow res" where
  "gap_body tr farthest delta = (\<lambda>(s, st).
     if s < farthest then bind_res (add_limit_sample tr s st) (\<lambda>st'. Inr (Continue (s + delta, st'))) else Inr (Return st))"

definition add_gap_samples :: "trajectory \<Rightarrow> event list \<Rightarrow> cursor \<times> limit_sample list \<Rightarrow> (cursor \<times> limit_sample list) res" where
  "add_gap_samples tr events st =
     (let last_s = ip_s (last (tr_points tr));
          farthest = farthest_position tr events
      in if last_s < farthest
         then bind_res (loop_flow (gap_body tr farthest (gap_step (tr_points tr) farthest)) (last_s, st)) (add_limit_sample tr farthest)
         else Inr st)"

text \<open>\<open>std::ranges::sort\<close> by position; samples at one position are the same.\<close>

fun insert_sample :: "limit_sample \<Rightarrow> limit_sample list \<Rightarrow> limit_sample list" where
  "insert_sample x [] = [x]"
| "insert_sample x (y # ys) = (if li_s x \<le> li_s y then x # y # ys else y # insert_sample x ys)"

definition sort_samples :: "limit_sample list \<Rightarrow> limit_sample list" where
  "sort_samples samples = foldr insert_sample samples []"

definition limit_curve_samples :: "trajectory \<Rightarrow> event list \<Rightarrow> limit_sample list res" where
  "limit_curve_samples tr events =
     (if tr_points tr = [] then Inr []
      else
        bind_res (create_cursor (tr_path tr) 0) (\<lambda>c.
        bind_res (add_limit_samples tr (pruned_positions events) (c, [])) (\<lambda>st.
        bind_res (add_gap_samples tr events st) (\<lambda>(_, samples). Inr (sort_samples samples)))))"

definition sample_columns :: "limit_sample list \<Rightarrow> json" where
  "sample_columns samples =
     (let column = (\<lambda>f. J_array (map f samples)) in
      J_object [''s'' \<mapsto> column (J_number \<circ> li_s), ''s_dot_max_acc'' \<mapsto> column (finite_or_null \<circ> li_acc),
        ''s_dot_max_vel'' \<mapsto> column (finite_or_null \<circ> li_vel), ''s_dot_max_vel_joint'' \<mapsto> column (finite_or_null \<circ> li_vel_joint),
        ''s_dot_max_vel_tcp'' \<mapsto> column (finite_or_null \<circ> li_vel_tcp)])"

section \<open>The document\<close>

definition metadata_entry :: "trajectory option \<Rightarrow> exn option \<Rightarrow> json" where
  "metadata_entry effective failure =
     (let m = (case effective of
            None \<Rightarrow> Map.empty
          | Some tr \<Rightarrow>
              put_optional ''tcp_max_linear_speed'' (map_option (J_number \<circ> tcp_max_linear_speed) (to_tcp (tr_options tr)))
                [''dof'' \<mapsto> J_number (Fin (real (path_dof (tr_path tr)))), ''path_length'' \<mapsto> J_number (path_length (tr_path tr)),
                 ''duration'' \<mapsto> J_number (tr_duration tr), ''num_integration_points'' \<mapsto> J_number (Fin (real (length (tr_points tr)))),
                 ''max_velocity'' \<mapsto> json_array (map Fin (to_max_velocity (tr_options tr))),
                 ''max_acceleration'' \<mapsto> json_array (map Fin (to_max_acceleration (tr_options tr)))]);
          m' = (case failure of
            None \<Rightarrow> m
          | Some e \<Rightarrow> m(''failure'' \<mapsto> J_bool True,
                         ''error'' \<mapsto> J_string (case what e of Some msg \<Rightarrow> msg | None \<Rightarrow> ''unknown exception'')))
      in if effective = None \<and> failure = None then J_null else J_object m')"

definition trajectory_document :: "event_collector \<Rightarrow> trajectory option \<Rightarrow> json res" where
  "trajectory_document collector traj =
     (let effective = (case traj of None \<Rightarrow> ec_invalid_trajectory collector | Some tr \<Rightarrow> Some tr);
          events = ec_events collector;
          doc = [''metadata'' \<mapsto> metadata_entry effective (ec_invalid_exception collector)]
      in case effective of
           None \<Rightarrow> Inr (J_object (doc(''events'' \<mapsto> serialize_events events)))
         | Some tr \<Rightarrow>
             bind_res (serialize_integration_points tr) (\<lambda>points.
             bind_res (limit_curve_samples tr events) (\<lambda>samples.
             let doc' = doc(''integration_points'' \<mapsto> points, ''events'' \<mapsto> serialize_events events)
             in Inr (J_object (if samples = [] then doc' else doc'(''limit_curve_samples'' \<mapsto> sample_columns samples))))))"

definition serialize_trajectory_to_json :: "('t, 'z) json_library_scheme \<Rightarrow> event_collector \<Rightarrow> trajectory option \<Rightarrow> 't res" where
  "serialize_trajectory_to_json lib collector traj = bind_res (trajectory_document collector traj) (\<lambda>doc. Inr (js_write lib doc))"

end
