(* ===== verification/Diagnostics_Properties.thy ===== *)
theory Diagnostics_Properties
  imports Diagnostics Capi_Properties "HOL-Library.Multiset"
begin

text \<open>
  What the observers and the document for the visualizer promise: a dispatch reaches every observer in turn and nothing gets in between, and
  the document holds what the path and the limit curves say at the points, whatever the cursor that reads them has been through.
\<close>

section \<open>Dispatching\<close>

text \<open>While it dispatches, the operations of a composite throw and leave it alone.\<close>

lemma guarded_dispatching:
  "co_dispatching c \<Longrightarrow> guarded f (c, w) = (Inl (Runtime_error ''Re-entrant call to composite_integration_observer detected''), (c, w))"
  by (simp add: guarded_def)

lemma add_while_dispatching: "co_dispatching c \<Longrightarrow> \<exists>e. add_observer ob (c, w) = (Inl e, (c, w))"
  by (auto simp: add_observer_def guarded_dispatching split: option.splits)

lemma dispatch_while_dispatching: "co_dispatching c \<Longrightarrow> \<exists>e. dispatch handler ev (c, w) = (Inl e, (c, w))"
  by (simp add: dispatch_def guarded_dispatching)

text \<open>So handlers that touch it through them alone leave a dispatching composite alone, and then every observer is told once and in turn.\<close>

definition leaves_alone :: "('o \<Rightarrow> event \<Rightarrow> 'o composite \<times> 'w \<Rightarrow> unit res \<times> ('o composite \<times> 'w)) \<Rightarrow> bool" where
  "leaves_alone handler \<longleftrightarrow> (\<forall>ob ev c w. co_dispatching c \<longrightarrow> fst (snd (handler ob ev (c, w))) = c)"

lemma notify_alone:
  assumes "leaves_alone handler" "co_dispatching c"
  shows "notify (\<lambda>ob. handler ob ev) obs (c, w) =
    (let (r, w') = notify (\<lambda>ob w. let (r, (_, w')) = handler ob ev (c, w) in (r, w')) obs w in (r, (c, w')))"
proof (induction obs arbitrary: w)
  case (Cons ob obs)
  obtain r w' where "handler ob ev (c, w) = (r, (c, w'))"
    using assms by (metis leaves_alone_def prod.collapse)
  then show ?case using Cons.IH [of w'] by (cases r) (simp_all add: Let_def)
qed simp

lemma dispatch_alone:
  assumes "leaves_alone handler" "\<not> co_dispatching c"
  shows "dispatch handler ev (c, w) =
    (let (r, w') = notify (\<lambda>ob w. let (r, (_, w')) = handler ob ev (c\<lparr>co_dispatching := True\<rparr>, w) in (r, w')) (co_observers c) w
     in (r, (c, w')))"
  using assms by (simp add: dispatch_def guarded_def notify_alone split: prod.splits)

text \<open>The guard does not cover failures: an observer that adds another one when it is told of a failure changes the vector being read.\<close>

lemma failure_not_guarded:
  assumes "\<not> co_dispatching c" "co_observers c \<noteq> []"
  shows "\<exists>s. composite_on_failed (\<lambda>ob e invalid s. snd (add_observer (Some ob) s)) e invalid (c, w) =
    (Inl (Undefined_behaviour ''iterator into a vector that was appended to''), s)"
  using assms by (cases "co_observers c") (auto simp: composite_on_failed_def add_observer_def guarded_def)

section \<open>Reading off a path\<close>

text \<open>The limits, a row and a sample as the path gives them at a position.\<close>

definition path_limits :: "trajectory \<Rightarrow> arc_length \<Rightarrow> (velocity_limits \<times> velocity_limit_components) res" where
  "path_limits tr s =
     bind_res (path_configuration (tr_path tr) s) (\<lambda>q.
     bind_res (path_tangent (tr_path tr) s) (\<lambda>q_prime.
     bind_res (path_curvature (tr_path tr) s) (\<lambda>q_double_prime.
     bind_res (compute_limit_curves q q_prime q_double_prime (tr_options tr)) (\<lambda>curves.
       Inr (\<lparr>vl_s_dot_max_acc = lc_s_dot_max_acc curves, vl_s_dot_max_vel = lc_s_dot_max_vel curves\<rparr>,
            \<lparr>vlc_joint = lc_joint curves, vlc_tcp = lc_tcp curves\<rparr>)))))"

definition path_row :: "trajectory \<Rightarrow> integration_point \<Rightarrow> point_row res" where
  "path_row tr pt =
     (let p = tr_path tr; s = ip_s pt; v = ip_s_dot pt; a = ip_s_ddot pt; opt = tr_options tr in
      bind_res (path_configuration p s) (\<lambda>q.
      bind_res (path_tangent p s) (\<lambda>q_prime.
      bind_res (path_curvature p s) (\<lambda>q_double_prime.
      bind_res (path_limits tr s) (\<lambda>(limits, components).
      bind_res (compute_acceleration_bounds q_prime q_double_prime v (to_max_acceleration opt) (to_epsilon opt)) (\<lambda>bounds.
        Inr \<lparr>pr_point = pt, pr_limits = limits, pr_components = components, pr_bounds = bounds, pr_configuration = map Fin q,
             pr_velocity = map (\<lambda>x. Fin x * v) q_prime,
             pr_acceleration = map2 (\<lambda>y x. Fin y * (v * v) + Fin x * a) q_double_prime q_prime\<rparr>))))))"

definition path_sample :: "trajectory \<Rightarrow> arc_length \<Rightarrow> limit_sample res" where
  "path_sample tr s =
     bind_res (path_limits tr s) (\<lambda>(limits, components).
       Inr \<lparr>li_s = s, li_acc = vl_s_dot_max_acc limits, li_vel = vl_s_dot_max_vel limits,
            li_vel_joint = vlc_joint components, li_vel_tcp = vlc_tcp components\<rparr>)"

text \<open>A cursor of the path, whatever it has been through, and what it reads after a seek.\<close>

definition cursor_of :: "trajectory \<Rightarrow> cursor \<Rightarrow> bool" where
  "cursor_of tr c \<longleftrightarrow> cursor_inv c \<and> cur_path c = tr_path tr"

lemma cursor_reads_path:
  assumes "cursor_of tr c0" "on_path (tr_path tr) s"
  obtains c q q_prime q_double_prime where "cursor_seek c0 s = Inr c" "cursor_of tr c"
    "cursor_configuration c = Inr q" "cursor_tangent c = Inr q_prime" "cursor_curvature c = Inr q_double_prime"
    "path_configuration (tr_path tr) s = Inr q" "path_tangent (tr_path tr) s = Inr q_prime" "path_curvature (tr_path tr) s = Inr q_double_prime"
    "get_velocity_limits_detail tr c = path_limits tr s"
proof -
  obtain c where c: "cursor_seek c0 s = Inr c" "cursor_inv c" "cur_path c = tr_path tr" "cur_position c = s"
    using plain.seek_lands [of c0 s] assms by (metis cursor_of_def)
  have "path_inv (tr_path tr)" using c(2,3) by (simp add: cursor_inv_def)
  then obtain x where x: "s = Fin x" "0 \<le> x" "Fin x \<le> path_length (tr_path tr)"
    using assms(2) path_length_finite by (cases s) (fastforce simp: on_path_def)+
  obtain q q' q'' where path: "path_configuration (tr_path tr) s = Inr q" "path_tangent (tr_path tr) s = Inr q'"
    "path_curvature (tr_path tr) s = Inr q''"
    using path_query_result [OF \<open>path_inv (tr_path tr)\<close> x(2,3)] x(1) by auto
  have "\<not> cursor_at_end c" using c(4) x(1) by (simp add: cursor_at_end_def)
  note read = cursor_query_path [OF c(2) this, unfolded c(3,4)]
  have "cursor_configuration c = Inr q" "cursor_tangent c = Inr q'" "cursor_curvature c = Inr q''"
    using read [of Configuration] read [of Tangent] read [of Curvature] path by simp_all
  moreover from this have "get_velocity_limits_detail tr c = path_limits tr s"
    by (simp add: get_velocity_limits_detail_def path_limits_def path cursor_limit_curves_def compute_limit_curves_def Let_def
        split: option.split)
  ultimately show thesis using that c path by (simp add: cursor_of_def)
qed


lemma integration_rows_path:
  assumes "cursor_of tr c" "\<forall>pt \<in> set pts. on_path (tr_path tr) (ip_s pt)"
  shows "integration_rows tr pts c = map_res (path_row tr) pts"
  using assms
proof (induction pts arbitrary: c)
  case (Cons pt pts)
  then have "on_path (tr_path tr) (ip_s pt)" by simp
  with Cons.prems(1) obtain c' q q' q'' where c: "cursor_seek c (ip_s pt) = Inr c'" "cursor_of tr c'"
    "cursor_configuration c' = Inr q" "cursor_tangent c' = Inr q'" "cursor_curvature c' = Inr q''"
    "path_configuration (tr_path tr) (ip_s pt) = Inr q" "path_tangent (tr_path tr) (ip_s pt) = Inr q'"
    "path_curvature (tr_path tr) (ip_s pt) = Inr q''" "get_velocity_limits_detail tr c' = path_limits tr (ip_s pt)"
    by (rule cursor_reads_path)
  have "integration_row tr pt c = bind_res (path_row tr pt) (\<lambda>row. Inr (row, c'))"
    by (cases "path_limits tr (ip_s pt)"; cases "compute_acceleration_bounds q' q'' (ip_s_dot pt) (to_max_acceleration (tr_options tr)) (to_epsilon (tr_options tr))")
      (auto simp: integration_row_def path_row_def get_acceleration_bounds_def Let_def c)
  moreover have "integration_rows tr pts c' = map_res (path_row tr) pts" using Cons c(2) by simp
  ultimately show ?case by (cases "path_row tr pt") simp_all
qed simp

lemma add_limit_samples_path:
  assumes "cursor_of tr c" "\<forall>s \<in> set ss. on_path (tr_path tr) s"
  shows "case map_res (path_sample tr) ss of
      Inl e \<Rightarrow> add_limit_samples tr ss (c, acc) = Inl e
    | Inr new \<Rightarrow> \<exists>c'. cursor_of tr c' \<and> add_limit_samples tr ss (c, acc) = Inr (c', acc @ new)"
  using assms
proof (induction ss arbitrary: c acc)
  case (Cons s ss)
  then have "on_path (tr_path tr) s" by simp
  with Cons.prems(1) obtain c' where c: "cursor_seek c s = Inr c'" "cursor_of tr c'"
    "get_velocity_limits_detail tr c' = path_limits tr s"
    by (rule cursor_reads_path)
  then have "add_limit_sample tr s (c, acc) = bind_res (path_sample tr s) (\<lambda>x. Inr (c', acc @ [x]))"
    by (cases "path_limits tr s") (auto simp: add_limit_sample_def path_sample_def)
  then show ?case
    using Cons.IH [of c' "acc @ [_]"] Cons.prems(2) c(2)
    by (cases "path_sample tr s"; cases "map_res (path_sample tr) ss") auto
qed simp

section \<open>The gap beyond the last point\<close>

definition gap_grid :: "real \<Rightarrow> real \<Rightarrow> real \<Rightarrow> arc_length list" where
  "gap_grid a b d = map (\<lambda>i. Fin (a + real i * d)) [0..<nat \<lceil>(b - a) / d\<rceil>]"

lemma gap_grid_end: "0 < d \<Longrightarrow> b \<le> a \<Longrightarrow> gap_grid a b d = []"
  by (simp add: gap_grid_def divide_le_0_iff ceiling_le_iff)

lemma gap_grid_step:
  assumes "0 < d" "a < b"
  shows "gap_grid a b d = Fin a # gap_grid (a + d) b d"
proof -
  have "(b - a) / d = (b - (a + d)) / d + 1" using assms(1) by (simp add: field_simps)
  moreover have "0 \<le> \<lceil>(b - (a + d)) / d\<rceil>" using assms by (simp add: le_ceiling_iff field_simps)
  ultimately have "nat \<lceil>(b - a) / d\<rceil> = Suc (nat \<lceil>(b - (a + d)) / d\<rceil>)" by (simp add: nat_add_distrib)
  then show ?thesis
    unfolding gap_grid_def by (intro nth_equalityI) (auto simp: nth_Cons algebra_simps simp del: upt_Suc split: nat.split)
qed

lemma gap_loop:
  assumes "0 < d"
  shows "loop_flow (gap_body tr (Fin b) (Fin d)) (Fin a, st) = add_limit_samples tr (gap_grid a b d) st"
proof (induction "nat \<lceil>(b - a) / d\<rceil>" arbitrary: a st rule: less_induct)
  case less
  show ?case
  proof (cases "a < b")
    case True
    have "0 < \<lceil>(b - a) / d\<rceil>" using assms True by simp
    moreover have "(b - (a + d)) / d = (b - a) / d - 1" using assms by (simp add: field_simps)
    ultimately have "nat \<lceil>(b - (a + d)) / d\<rceil> < nat \<lceil>(b - a) / d\<rceil>" by simp
    from less [OF this] True show ?thesis
      by (subst loop_flow_unfold) (cases "add_limit_sample tr (Fin a) st", simp_all add: gap_body_def gap_grid_step [OF assms])
  next
    case False
    then show ?thesis by (subst loop_flow_unfold) (simp add: gap_body_def gap_grid_end [OF assms])
  qed
qed

definition gap_positions :: "trajectory \<Rightarrow> event list \<Rightarrow> arc_length list" where
  "gap_positions tr events =
     (let last_s = ip_s (last (tr_points tr)); farthest = farthest_position tr events
      in if last_s < farthest
         then gap_grid (fin last_s) (fin farthest) (fin (gap_step (tr_points tr) farthest)) @ [farthest] else [])"

lemma events_reach: "Fin a \<le> s \<Longrightarrow> Fin a \<le> fold event_reach events s"
proof (induction events arbitrary: s)
  case (Cons ev events)
  have "Fin a \<le> event_reach ev s"
    using Cons.prems by (cases ev) (auto intro: dbl_le_trans [of "Fin a" s] dbl_less_imp_le)
  then show ?case using Cons.IH by simp
qed simp

lemma farthest_finite:
  assumes "path_length (tr_path tr) = Fin len" "ip_s (last (tr_points tr)) = Fin a" "a \<le> len"
  shows "\<exists>b. farthest_position tr events = Fin b \<and> a \<le> b \<and> b \<le> len"
proof -
  have "Fin a \<le> fold event_reach events (Fin a)" by (rule events_reach) simp
  then show ?thesis
    using assms by (cases "fold event_reach events (Fin a)") (auto simp: farthest_position_def Let_def)
qed

text \<open>The step: the mean distance of the points, or a twentieth of the gap where there is none.\<close>

definition gap_spacing :: "integration_point list \<Rightarrow> arc_length \<Rightarrow> real" where
  "gap_spacing points farthest =
     (let first_s = fin (ip_s (hd points)); last_s = fin (ip_s (last points))
      in if 2 \<le> length points \<and> first_s < last_s then (last_s - first_s) / (real (length points) - 1)
         else (fin farthest - last_s) / 20)"

lemma gap_step_spacing:
  assumes "ip_s (hd points) = Fin x" "ip_s (last points) = Fin a" "a < b"
  shows "gap_step points (Fin b) = Fin (gap_spacing points (Fin b))" "0 < gap_spacing points (Fin b)"
proof -
  show "0 < gap_spacing points (Fin b)" using assms by (simp add: gap_spacing_def Let_def)
  show "gap_step points (Fin b) = Fin (gap_spacing points (Fin b))"
  proof (cases "length points < 2")
    case True
    then show ?thesis using assms(1,2) by (simp add: gap_step_def gap_spacing_def Let_def)
  next
    case False
    then have n: "real (length points - 1) = real (length points) - 1" "0 < real (length points) - 1" by auto
    then have d: "divide (ip_s (last points) - ip_s (hd points)) (Fin (real (length points - 1))) =
        Fin ((a - x) / (real (length points) - 1))"
      using assms(1,2) by simp
    have "(a - x) / (real (length points) - 1) \<le> 0 \<longleftrightarrow> a \<le> x" using n(2) by (simp add: divide_le_0_iff)
    with False d show ?thesis using assms(1,2) by (auto simp: gap_step_def gap_spacing_def Let_def)
  qed
qed

text \<open>How many positions there are: the next one would be at the farthest position or beyond.\<close>

lemma gap_grid_size:
  assumes "0 < d" "a < b"
  shows "0 < nat \<lceil>(b - a) / d\<rceil>" "\<forall>i < nat \<lceil>(b - a) / d\<rceil>. a + real i * d < b" "b \<le> a + real (nat \<lceil>(b - a) / d\<rceil>) * d"
proof -
  have pos: "0 < (b - a) / d" using assms by simp
  then show "0 < nat \<lceil>(b - a) / d\<rceil>" by simp
  show "\<forall>i < nat \<lceil>(b - a) / d\<rceil>. a + real i * d < b"
  proof (intro allI impI)
    fix i assume "i < nat \<lceil>(b - a) / d\<rceil>"
    then have "real i < (b - a) / d" by linarith
    with assms(1) show "a + real i * d < b" by (simp add: field_simps)
  qed
  have "(b - a) / d \<le> real (nat \<lceil>(b - a) / d\<rceil>)" by (rule real_nat_ceiling_ge)
  with assms(1) show "b \<le> a + real (nat \<lceil>(b - a) / d\<rceil>) * d" by (simp add: field_simps)
qed

section \<open>Sorting\<close>

lemma mset_sort_samples: "mset (sort_samples samples) = mset samples"
proof -
  have "mset (insert_sample x ys) = add_mset x (mset ys)" for x ys by (induction ys) auto
  then show ?thesis by (induction samples) (simp_all add: sort_samples_def)
qed

lemma sort_samples_empty: "sort_samples samples = [] \<longleftrightarrow> samples = []"
  by (metis mset_sort_samples mset_zero_iff)

lemma sorted_sort_samples:
  assumes "\<forall>x \<in> set samples. isfinite (li_s x)"
  shows "sorted_wrt (\<lambda>x y. li_s x \<le> li_s y) (sort_samples samples)"
proof -
  have set: "set (insert_sample x ys) = insert x (set ys)" for x ys by (induction ys) auto
  have ins: "sorted_wrt (\<lambda>x y. li_s x \<le> li_s y) (insert_sample x ys)"
    if "\<forall>y \<in> insert x (set ys). isfinite (li_s y)" "sorted_wrt (\<lambda>x y. li_s x \<le> li_s y) ys" for x ys
    using that
  proof (induction ys)
    case (Cons y ys)
    show ?case
    proof (cases "li_s x \<le> li_s y")
      case True
      with Cons.prems show ?thesis by (auto intro: dbl_le_trans)
    next
      case False
      with Cons.prems have "li_s y \<le> li_s x" by (auto simp: isfinite_iff)
      with False Cons show ?thesis by (simp add: set)
    qed
  qed simp
  have "set (sort_samples samples) = set samples" by (metis mset_sort_samples set_mset_mset)
  then show ?thesis using assms
    unfolding sort_samples_def
  proof (induction samples)
    case (Cons x samples)
    have "set (foldr insert_sample samples []) = set samples"
      by (metis mset_sort_samples set_mset_mset sort_samples_def)
    with Cons show ?case by (simp add: ins)
  qed simp
qed

section \<open>The document\<close>

lemma path_sample_position: "map_res (path_sample tr) ss = Inr samples \<Longrightarrow> map li_s samples = ss"
  by (induction ss arbitrary: samples) (auto simp: bind_res_eq_Inr path_sample_def)

text \<open>Where the gap is and what is read there.\<close>

fun event_at :: "event \<Rightarrow> arc_length option" where
  "event_at (Started_forward p) = Some (pp_s p)"
| "event_at (Hit_limit_curve p acc vel) = Some (pp_s p)"
| "event_at (Started_backward p kind) = Some (pp_s p)"
| "event_at (Trajectory_extended pruned) = None"

text \<open>The farthest position: the greatest of the last point and the events, cut off at the end of the path.\<close>

definition gap_end :: "trajectory \<Rightarrow> event list \<Rightarrow> arc_length \<Rightarrow> bool" where
  "gap_end tr events far \<longleftrightarrow>
     (let last_s = ip_s (last (tr_points tr)); len = path_length (tr_path tr) in
      last_s \<le> far \<and> far \<le> len \<and>
      (far = last_s \<or> (\<exists>ev \<in> set events. \<exists>s. event_at ev = Some s \<and> last_s < s \<and> far = std_min s len)) \<and>
      (\<forall>ev \<in> set events. \<forall>s. event_at ev = Some s \<longrightarrow> far = len \<or> \<not> far < s))"

definition gap_covered :: "trajectory \<Rightarrow> event list \<Rightarrow> arc_length list \<Rightarrow> bool" where
  "gap_covered tr events gap \<longleftrightarrow>
     (\<exists>far. gap_end tr events far \<and>
        (let last_s = ip_s (last (tr_points tr)); d = gap_spacing (tr_points tr) far in
         if far = last_s then gap = []
         else (\<exists>n. gap = map (\<lambda>i. Fin (fin last_s + real i * d)) [0..<n] @ [far] \<and> 0 < n \<and>
           (\<forall>i < n. fin last_s + real i * d < fin far) \<and> fin far \<le> fin last_s + real n * d)))"

definition splice_positions :: "event \<Rightarrow> arc_length list" where
  "splice_positions ev = (case ev of Trajectory_extended pruned \<Rightarrow> map ip_s pruned | _ \<Rightarrow> [])"

lemma pruned_positions_concat: "pruned_positions events = concat (map splice_positions events)"
proof (induction events)
  case (Cons ev events)
  then show ?case by (cases ev) (simp_all add: splice_positions_def)
qed simp

lemma events_farthest:
  "(fold event_reach events s = s \<or> (\<exists>ev \<in> set events. event_at ev = Some (fold event_reach events s) \<and> s < fold event_reach events s)) \<and>
   (\<forall>ev \<in> set events. \<forall>t. event_at ev = Some t \<longrightarrow> \<not> fold event_reach events s < t)"
proof (induction events arbitrary: s)
  case (Cons ev events)
  have tr: "x < z" if "x < y" "y < z" for x y z :: dbl using that by (cases x; cases y; cases z) auto
  have ir: "\<not> x < x" for x :: dbl by (cases x) auto
  have r: "event_reach ev s = (case event_at ev of Some t \<Rightarrow> if s < t then t else s | None \<Rightarrow> s)" by (cases ev) simp_all
  let ?s1 = "event_reach ev s" and ?s2 = "fold event_reach events (event_reach ev s)"
  have ih: "?s2 = ?s1 \<or> (\<exists>ev \<in> set events. event_at ev = Some ?s2 \<and> ?s1 < ?s2)"
    "\<forall>ev \<in> set events. \<forall>t. event_at ev = Some t \<longrightarrow> \<not> ?s2 < t"
    using Cons [of ?s1] by blast+
  have s1: "?s1 = s \<or> event_at ev = Some ?s1 \<and> s < ?s1" "\<forall>t. event_at ev = Some t \<longrightarrow> \<not> ?s1 < t"
    using r ir by (auto split: option.splits if_splits)
  have "\<forall>t. event_at ev = Some t \<longrightarrow> \<not> ?s2 < t" using s1(2) ih(1) tr [of ?s1 ?s2] by auto
  moreover have "?s2 = s \<or> (\<exists>e \<in> set (ev # events). event_at e = Some ?s2 \<and> s < ?s2)"
    using s1(1) ih(1)
  proof (elim disjE)
    assume "event_at ev = Some ?s1 \<and> s < ?s1" "\<exists>e \<in> set events. event_at e = Some ?s2 \<and> ?s1 < ?s2"
    then obtain e where "e \<in> set events" "event_at e = Some ?s2" "s < ?s2" using tr [of s ?s1 ?s2] by blast
    then show ?thesis by auto
  qed auto
  ultimately show ?case using ih(2) by simp
qed simp

lemma farthest_gap_end:
  assumes "path_length (tr_path tr) = Fin len" "ip_s (last (tr_points tr)) = Fin a" "a \<le> len"
  shows "gap_end tr events (farthest_position tr events)"
proof -
  let ?f = "fold event_reach events (Fin a)"
  have far: "farthest_position tr events = std_min ?f (Fin len)"
    using assms(1,2) by (simp add: farthest_position_def std_min_def Let_def)
  obtain b where b: "farthest_position tr events = Fin b" "a \<le> b" "b \<le> len" using farthest_finite [OF assms] by blast
  note e = events_farthest [of events "Fin a"]
  have "Fin b = Fin a \<or> (\<exists>ev \<in> set events. \<exists>s. event_at ev = Some s \<and> Fin a < s \<and> Fin b = std_min s (Fin len))"
  proof (cases "?f = Fin a")
    case True
    then show ?thesis using far b(1) assms(3) by (simp add: std_min_def)
  next
    case False
    with e far b(1) show ?thesis by auto
  qed
  moreover have "Fin b = Fin len \<or> \<not> Fin b < s" if "ev \<in> set events" "event_at ev = Some s" for ev s
    using e that far b(1) by (auto simp: std_min_def split: if_split_asm)
  ultimately show ?thesis using b assms(1,2) by (auto simp: gap_end_def Let_def)
qed

lemma add_gap_samples_path:
  assumes "cursor_of tr c" "tr_points tr \<noteq> []" "\<forall>pt \<in> set (tr_points tr). on_path (tr_path tr) (ip_s pt)"
  shows "gap_covered tr events (gap_positions tr events)" "\<forall>s \<in> set (gap_positions tr events). isfinite s"
    "case map_res (path_sample tr) (gap_positions tr events) of
       Inl e \<Rightarrow> add_gap_samples tr events (c, acc) = Inl e
     | Inr new \<Rightarrow> \<exists>c'. add_gap_samples tr events (c, acc) = Inr (c', acc @ new)"
proof -
  have "path_inv (tr_path tr)" using assms(1) by (auto simp: cursor_of_def cursor_inv_def)
  then obtain len where len: "path_length (tr_path tr) = Fin len" using path_length_finite by blast
  have fin: "\<exists>x. ip_s pt = Fin x \<and> 0 \<le> x \<and> x \<le> len" if "pt \<in> set (tr_points tr)" for pt
    using assms(3) that len by (cases "ip_s pt") (auto simp: on_path_def)
  obtain x a where ends: "ip_s (hd (tr_points tr)) = Fin x" "ip_s (last (tr_points tr)) = Fin a" "0 \<le> a" "a \<le> len"
    using fin [of "hd (tr_points tr)"] fin [of "last (tr_points tr)"] assms(2) by auto
  obtain b where b: "farthest_position tr events = Fin b" "a \<le> b" "b \<le> len" using farthest_finite [OF len ends(2,4)] by blast
  have "gap_covered tr events (gap_positions tr events) \<and> (\<forall>s \<in> set (gap_positions tr events). isfinite s) \<and>
    (case map_res (path_sample tr) (gap_positions tr events) of
       Inl e \<Rightarrow> add_gap_samples tr events (c, acc) = Inl e
     | Inr new \<Rightarrow> \<exists>c'. add_gap_samples tr events (c, acc) = Inr (c', acc @ new))"
  proof (cases "a = b")
    case True
    then have "gap_covered tr events (gap_positions tr events)"
      using b ends(2) farthest_gap_end [OF len ends(2,4), of events] unfolding gap_covered_def
      by (intro exI [of _ "Fin b"]) (simp add: gap_positions_def)
    with True show ?thesis using b ends(2) len by (simp add: add_gap_samples_def gap_positions_def)
  next
    case False
    with b(2) have "a < b" by simp
    define d where "d = gap_spacing (tr_points tr) (Fin b)"
    have d: "gap_step (tr_points tr) (Fin b) = Fin d" "0 < d"
      using gap_step_spacing [OF ends(1,2) \<open>a < b\<close>] by (simp_all add: d_def)
    let ?grid = "gap_grid a b d"
    have pos: "gap_positions tr events = ?grid @ [Fin b]" using \<open>a < b\<close> by (simp add: gap_positions_def ends(2) b(1) d(1) Let_def)
    have inside: "\<exists>y. s = Fin y \<and> a \<le> y \<and> y \<le> b" if "s \<in> set (?grid @ [Fin b])" for s
    proof (cases "s = Fin b")
      case False
      with that have "s \<in> set ?grid" by simp
      then have "\<exists>i < nat \<lceil>(b - a) / d\<rceil>. s = Fin (a + real i * d)" unfolding gap_grid_def by force
      then obtain i where i: "s = Fin (a + real i * d)" "i < nat \<lceil>(b - a) / d\<rceil>" by blast
      then have "real i < (b - a) / d" by linarith
      with i(1) d(2) show ?thesis by (auto simp: field_simps)
    qed (use \<open>a < b\<close> in simp)
    have on: "\<forall>s \<in> set (?grid @ [Fin b]). on_path (tr_path tr) s"
      using inside ends(3) b(3) len by (fastforce simp: on_path_def)
    have run: "add_gap_samples tr events (c, acc) = add_limit_samples tr (?grid @ [Fin b]) (c, acc)"
    proof -
      have "add_limit_samples tr (ss @ [s]) st = bind_res (add_limit_samples tr ss st) (add_limit_sample tr s)" for ss s st
      proof (induction ss arbitrary: st)
        case Nil
        show ?case by (cases "add_limit_sample tr s st") simp_all
      next
        case (Cons s' ss)
        show ?case by (cases "add_limit_sample tr s' st") (simp_all add: Cons.IH)
      qed
      then show ?thesis using \<open>a < b\<close> by (simp add: add_gap_samples_def Let_def ends(2) b(1) d(1) gap_loop [OF d(2)])
    qed
    have "gap_covered tr events (?grid @ [Fin b])"
    proof -
      have c: "0 < nat \<lceil>(b - a) / d\<rceil>" "\<forall>i < nat \<lceil>(b - a) / d\<rceil>. a + real i * d < b" "b \<le> a + real (nat \<lceil>(b - a) / d\<rceil>) * d"
        using gap_grid_size [OF d(2) \<open>a < b\<close>] by blast+
      show ?thesis
        unfolding gap_covered_def
        by (rule exI [of _ "Fin b"])
          (use farthest_gap_end [OF len ends(2,4), of events] \<open>a < b\<close> c in
            \<open>auto simp: b(1) ends(2) d_def [symmetric] gap_grid_def Let_def intro!: exI [of _ "nat \<lceil>(b - a) / d\<rceil>"]\<close>)
    qed
    moreover have "\<forall>s \<in> set (?grid @ [Fin b]). isfinite s" using inside by (metis isfinite_iff)
    moreover have "case map_res (path_sample tr) (?grid @ [Fin b]) of
       Inl e \<Rightarrow> add_gap_samples tr events (c, acc) = Inl e
     | Inr new \<Rightarrow> \<exists>c'. add_gap_samples tr events (c, acc) = Inr (c', acc @ new)"
      unfolding run using add_limit_samples_path [OF assms(1) on, of acc] by (auto split: sum.splits)
    ultimately show ?thesis unfolding pos by blast
  qed
  then show "gap_covered tr events (gap_positions tr events)" "\<forall>s \<in> set (gap_positions tr events). isfinite s"
    "case map_res (path_sample tr) (gap_positions tr events) of
       Inl e \<Rightarrow> add_gap_samples tr events (c, acc) = Inl e
     | Inr new \<Rightarrow> \<exists>c'. add_gap_samples tr events (c, acc) = Inr (c', acc @ new)" by blast+
qed

lemma limit_curve_samples_path:
  assumes "path_inv (tr_path tr)" "tr_points tr \<noteq> []" "\<forall>pt \<in> set (tr_points tr). on_path (tr_path tr) (ip_s pt)"
    "\<forall>s \<in> set (pruned_positions events). on_path (tr_path tr) s"
  shows "gap_covered tr events (gap_positions tr events)" "\<forall>s \<in> set (gap_positions tr events). isfinite s"
    "limit_curve_samples tr events =
      bind_res (map_res (path_sample tr) (pruned_positions events @ gap_positions tr events)) (\<lambda>samples. Inr (sort_samples samples))"
proof -
  obtain c0 where c0: "create_cursor (tr_path tr) (Fin 0) = Inr c0" "cursor_of tr c0"
    using create_cursor_inv [OF assms(1), of "Fin 0"] by (auto simp: cursor_of_def)
  show "gap_covered tr events (gap_positions tr events)" "\<forall>s \<in> set (gap_positions tr events). isfinite s"
    by (rule add_gap_samples_path [OF c0(2) assms(2,3)])+
  note pruned = add_limit_samples_path [OF c0(2) assms(4), of "[]"]
  show "limit_curve_samples tr events =
      bind_res (map_res (path_sample tr) (pruned_positions events @ gap_positions tr events)) (\<lambda>samples. Inr (sort_samples samples))"
  proof (cases "map_res (path_sample tr) (pruned_positions events)")
    case (Inl e)
    with pruned show ?thesis using assms(2) by (simp add: limit_curve_samples_def c0(1) map_res_append)
  next
    case (Inr new)
    with pruned obtain c' where c: "cursor_of tr c'" "add_limit_samples tr (pruned_positions events) (c0, []) = Inr (c', new)" by auto
    show ?thesis
      using add_gap_samples_path(3) [OF c(1) assms(2,3), of events new] Inr assms(2)
      by (auto simp: map_res_append limit_curve_samples_def c0(1) c(2) split: sum.splits)
  qed
qed

lemma serialize_points_path:
  assumes "path_inv (tr_path tr)" "\<forall>pt \<in> set (tr_points tr). on_path (tr_path tr) (ip_s pt)"
  shows "serialize_integration_points tr = bind_res (map_res (path_row tr) (tr_points tr)) (\<lambda>rows. Inr (point_columns rows))"
proof -
  obtain c0 where c0: "create_cursor (tr_path tr) (Fin 0) = Inr c0" "cursor_of tr c0"
    using create_cursor_inv [OF assms(1), of "Fin 0"] by (auto simp: cursor_of_def)
  then show ?thesis by (simp add: serialize_integration_points_def integration_rows_path [OF c0(2) assms(2)])
qed

text \<open>
  C22: The document for the visualizer, of a trajectory that was created or that creation gave up on. If the points and the pruned points of the
  events lie on the path, it is what the path says and no cursor shows: one row for each point with the path's configuration,
  velocity, acceleration, limits and bounds there; and samples of the limit curves, sorted along the path, at all pruned points of
  all splices and, where the start of a pass or a hit of the curve lies beyond the last point, from that point to the farthest of them
  or the end of the path, a mean distance of the points (or, without one, a twentieth of the gap) apart. The writer returns this
  document, or throws what the limit curves or the bounds throw at the first of these places where they do.
\<close>

theorem diagnostics_spec:
  assumes "path_inv (tr_path tr)" "tr_points tr \<noteq> []" "\<forall>pt \<in> set (tr_points tr). on_path (tr_path tr) (ip_s pt)"
    "\<forall>ev \<in> set (ec_events col). \<forall>s \<in> set (splice_positions ev). on_path (tr_path tr) s"
  shows "\<exists>gap. gap_covered tr (ec_events col) gap \<and>
    (let positions = concat (map splice_positions (ec_events col)) @ gap in
     trajectory_document col (Some tr) =
       bind_res (map_res (path_row tr) (tr_points tr)) (\<lambda>rows.
       bind_res (map_res (path_sample tr) positions) (\<lambda>samples.
         let doc = [''metadata'' \<mapsto> metadata_entry (Some tr) (ec_invalid_exception col), ''integration_points'' \<mapsto> point_columns rows,
                    ''events'' \<mapsto> serialize_events (ec_events col)]
         in Inr (J_object (if samples = [] then doc else doc(''limit_curve_samples'' \<mapsto> sample_columns (sort_samples samples)))))) \<and>
     (\<forall>samples. map_res (path_sample tr) positions = Inr samples \<longrightarrow> map li_s samples = positions \<and>
        mset (sort_samples samples) = mset samples \<and> sorted_wrt (\<lambda>x y. li_s x \<le> li_s y) (sort_samples samples)))"
proof -
  let ?pos = "concat (map splice_positions (ec_events col)) @ gap_positions tr (ec_events col)"
  have on: "\<forall>s \<in> set (pruned_positions (ec_events col)). on_path (tr_path tr) s"
    using assms(4) by (auto simp: pruned_positions_concat)
  note read = limit_curve_samples_path [OF assms(1-3) on, unfolded pruned_positions_concat]
  have "isfinite s" if "s \<in> set ?pos" for s
    using that read(2) assms(1) on on_path_finite by (auto simp: pruned_positions_concat)
  then have samples: "map li_s samples = ?pos \<and>
      mset (sort_samples samples) = mset samples \<and> sorted_wrt (\<lambda>x y. li_s x \<le> li_s y) (sort_samples samples)"
    if "map_res (path_sample tr) ?pos = Inr samples" for samples
    using path_sample_position [OF that] by (metis mset_sort_samples sorted_sort_samples set_map image_eqI)
  have "trajectory_document col (Some tr) =
       bind_res (map_res (path_row tr) (tr_points tr)) (\<lambda>rows.
       bind_res (map_res (path_sample tr) ?pos) (\<lambda>samples.
         let doc = [''metadata'' \<mapsto> metadata_entry (Some tr) (ec_invalid_exception col), ''integration_points'' \<mapsto> point_columns rows,
                    ''events'' \<mapsto> serialize_events (ec_events col)]
         in Inr (J_object (if samples = [] then doc else doc(''limit_curve_samples'' \<mapsto> sample_columns (sort_samples samples))))))"
    by (cases "map_res (path_row tr) (tr_points tr)"; cases "map_res (path_sample tr) ?pos")
      (simp_all add: trajectory_document_def serialize_points_path [OF assms(1,3)] read(3) Let_def sort_samples_empty)
  with read(1) samples show ?thesis unfolding Let_def by (intro exI [of _ "gap_positions tr (ec_events col)"] conjI allI impI) blast+
qed

text \<open>The witness: a run on the rail that was given up half way, with an event further on.\<close>

definition half_rail :: trajectory where
  "half_rail = \<lparr>tr_path = rail, tr_options = rail_options, tr_points = [rail_point 0 0 0 1, rail_point 1 (1 / 2) 1 1], tr_duration = 1\<rparr>"

definition half_run :: event_collector where
  "half_run = \<lparr>ec_events = [Trajectory_extended [rail_point 0 (1 / 4) 0 0], Hit_limit_curve \<lparr>pp_s = 2, pp_s_dot = 11\<rparr> PInf 10],
     ec_invalid_trajectory = Some half_rail, ec_invalid_exception = Some (Runtime_error ''stuck'')\<rparr>"

lemma rail_path_queries:
  assumes "0 \<le> x" "x \<le> 5 / 2"
  shows "path_configuration rail (Fin x) = Inr [x]" "path_tangent rail (Fin x) = Inr [1]" "path_curvature rail (Fin x) = Inr [0]"
proof -
  have "segment_index rail (Fin x) = 0"
    using segment_index_bounds(2) [OF rail_inv(1), of x] assms by (simp add: rail_def path_size_def)
  with path_query_result [OF rail_inv(1), of x] assms
  show "path_configuration rail (Fin x) = Inr [x]" "path_tangent rail (Fin x) = Inr [1]" "path_curvature rail (Fin x) = Inr [0]"
    by (auto simp: rail_def)
qed

lemma rail_path_limits:
  assumes "0 \<le> x" "x \<le> 5 / 2"
  shows "path_limits half_rail (Fin x) = Inr (\<lparr>vl_s_dot_max_acc = PInf, vl_s_dot_max_vel = Fin 10\<rparr>, \<lparr>vlc_joint = Fin 10, vlc_tcp = PInf\<rparr>)"
proof -
  have "cursor_limit_curves (rail_cursor x) rail_options = Inr rail_curves" by (rule rail_limit_curves [OF assms])
  then have "compute_limit_curves [x] [1] [0] rail_options = Inr rail_curves"
    using assms by (simp add: cursor_limit_curves_def rail_tangent compute_limit_curves_def rail_parts)
  then show ?thesis using rail_path_queries [OF assms] by (simp add: path_limits_def half_rail_def rail_curves_def)
qed

lemma half_rail_samples:
  assumes "\<forall>x \<in> set xs. 0 \<le> x \<and> x \<le> 5 / 2"
  shows "map_res (path_sample half_rail) (map Fin xs) =
    Inr (map (\<lambda>x. \<lparr>li_s = Fin x, li_acc = PInf, li_vel = Fin 10, li_vel_joint = Fin 10, li_vel_tcp = PInf\<rparr>) xs)"
  using assms by (induction xs) (simp_all add: path_sample_def rail_path_limits)

lemma half_rail_rows: "\<exists>rows. map_res (path_row half_rail) (tr_points half_rail) = Inr rows"
proof -
  have row: "\<exists>row. path_row half_rail (rail_point t x v a) = Inr row" if "0 \<le> x" "x \<le> 5 / 2" for t x v a
    using rail_path_queries [OF that] rail_path_limits [OF that] rail_bounds(2) [of v]
    by (simp add: path_row_def half_rail_def rail_parts Let_def)
  obtain r r' where "path_row half_rail (rail_point 0 0 0 1) = Inr r" "path_row half_rail (rail_point 1 (1 / 2) 1 1) = Inr r'"
    using row [of 0 0 0 1] row [of "1 / 2" 1 1 1] by auto
  then show ?thesis by (simp add: half_rail_def)
qed

lemma half_rail_gap:
  assumes "gap_covered half_rail (ec_events half_run) gap"
  shows "concat (map splice_positions (ec_events half_run)) @ gap = map Fin [1 / 4, 1 / 2, 1, 3 / 2, 2]"
proof -
  have last: "ip_s (last (tr_points half_rail)) = Fin (1 / 2)" by (simp add: half_rail_def)
  obtain far where far: "gap_end half_rail (ec_events half_run) far"
    and gap: "if far = Fin (1 / 2) then gap = []
         else (\<exists>n. gap = map (\<lambda>i. Fin (fin (Fin (1 / 2)) + real i * gap_spacing (tr_points half_rail) far)) [0..<n] @ [far] \<and> 0 < n \<and>
           (\<forall>i < n. fin (Fin (1 / 2)) + real i * gap_spacing (tr_points half_rail) far < fin far) \<and>
           fin far \<le> fin (Fin (1 / 2)) + real n * gap_spacing (tr_points half_rail) far)"
    using assms unfolding gap_covered_def Let_def last by blast
  have two: "far = Fin 2"
    using far by (auto simp: gap_end_def half_rail_def half_run_def rail_parts std_min_def Let_def)
  have d: "gap_spacing (tr_points half_rail) (Fin 2) = 1 / 2" by (simp add: gap_spacing_def half_rail_def)
  have "\<exists>n. gap = map (\<lambda>i. Fin (1 / 2 + real i * (1 / 2))) [0..<n] @ [Fin 2] \<and>
      (\<forall>i < n. 1 / 2 + real i * (1 / 2) < (2 :: real)) \<and> 2 \<le> 1 / 2 + real n * (1 / 2)"
    using gap by (simp add: two d) blast
  then obtain n where n: "gap = map (\<lambda>i. Fin (1 / 2 + real i * (1 / 2))) [0..<n] @ [Fin 2]"
      "\<forall>i < n. 1 / 2 + real i * (1 / 2) < (2 :: real)" "2 \<le> 1 / 2 + real n * (1 / 2)"
    by blast
  have "\<not> 3 < n" using n(2) [rule_format, of 3] by auto
  with n(3) have "n = 3" by auto
  with n(1) have "gap = map Fin [1 / 2, 1, 3 / 2, 2]" by (simp add: upt_rec)
  then show ?thesis by (simp add: half_run_def splice_positions_def)
qed

theorem diagnostics_spec_witness:
  "\<exists>doc samples. trajectory_document half_run (Some half_rail) = Inr (J_object doc) \<and>
     doc ''limit_curve_samples'' = Some (sample_columns samples) \<and> sorted_wrt (\<lambda>x y. li_s x \<le> li_s y) samples \<and>
     mset (map li_s samples) = mset (map Fin [1 / 4, 1 / 2, 1, 3 / 2, 2])"
proof -
  obtain rows where rows: "map_res (path_row half_rail) (tr_points half_rail) = Inr rows" using half_rail_rows by blast
  let ?samples = "map (\<lambda>x. \<lparr>li_s = Fin x, li_acc = PInf, li_vel = Fin 10, li_vel_joint = Fin 10, li_vel_tcp = PInf\<rparr>) [1 / 4, 1 / 2, 1, 3 / 2, 2]"
  have samples: "map_res (path_sample half_rail) (map Fin [1 / 4, 1 / 2, 1, 3 / 2, 2]) = Inr ?samples"
    by (rule half_rail_samples) simp
  have "path_inv (tr_path half_rail)" "tr_points half_rail \<noteq> []"
    "\<forall>pt \<in> set (tr_points half_rail). on_path (tr_path half_rail) (ip_s pt)"
    "\<forall>ev \<in> set (ec_events half_run). \<forall>s \<in> set (splice_positions ev). on_path (tr_path half_rail) s"
    using rail_inv(1) by (simp_all add: half_rail_def half_run_def on_path_def rail_parts splice_positions_def)
  from diagnostics_spec [OF this] obtain gap where gap: "gap_covered half_rail (ec_events half_run) gap"
    and spec': "let positions = concat (map splice_positions (ec_events half_run)) @ gap in
     trajectory_document half_run (Some half_rail) =
       bind_res (map_res (path_row half_rail) (tr_points half_rail)) (\<lambda>rows.
       bind_res (map_res (path_sample half_rail) positions) (\<lambda>samples.
         let doc = [''metadata'' \<mapsto> metadata_entry (Some half_rail) (ec_invalid_exception half_run), ''integration_points'' \<mapsto> point_columns rows,
                    ''events'' \<mapsto> serialize_events (ec_events half_run)]
         in Inr (J_object (if samples = [] then doc else doc(''limit_curve_samples'' \<mapsto> sample_columns (sort_samples samples)))))) \<and>
     (\<forall>samples. map_res (path_sample half_rail) positions = Inr samples \<longrightarrow> map li_s samples = positions \<and>
        mset (sort_samples samples) = mset samples \<and> sorted_wrt (\<lambda>x y. li_s x \<le> li_s y) (sort_samples samples))"
    by (elim exE conjE) (rule that)
  note spec = spec' [unfolded half_rail_gap [OF gap] Let_def rows samples bind_res_simps]
  have ne: "?samples \<noteq> []" by simp
  from spec have "trajectory_document half_run (Some half_rail) = Inr (J_object ([''metadata'' \<mapsto>
      metadata_entry (Some half_rail) (ec_invalid_exception half_run), ''integration_points'' \<mapsto> point_columns rows,
      ''events'' \<mapsto> serialize_events (ec_events half_run), ''limit_curve_samples'' \<mapsto> sample_columns (sort_samples ?samples)]))"
    unfolding if_not_P [OF ne] by (elim conjE) assumption
  then obtain doc where doc: "trajectory_document half_run (Some half_rail) = Inr (J_object doc)"
    "doc ''limit_curve_samples'' = Some (sample_columns (sort_samples ?samples))" by (rule that) simp
  have sorted: "sorted_wrt (\<lambda>x y. li_s x \<le> li_s y) (sort_samples ?samples)" and mset: "mset (sort_samples ?samples) = mset ?samples"
    using spec by blast+
  have "mset (map li_s (sort_samples ?samples)) = image_mset li_s (mset ?samples)" unfolding mset_map mset ..
  also have "\<dots> = mset (map Fin [1 / 4, 1 / 2, 1, 3 / 2, 2])" unfolding mset_map [symmetric] by simp
  finally show ?thesis using doc sorted by (intro exI [of _ doc] exI [of _ "sort_samples ?samples"] conjI)
qed

end
