(* ===== verification/Spec2Isabelle.thy ===== *)
theory Spec2Isabelle
  imports Trajectory_Properties Sampler_Properties Session_Properties Chain_Properties Capi_Properties
    Planner_Properties Service_Properties Replay_Properties Compat_Properties Moveit_Properties
    Diagnostics_Properties
begin

text \<open>
  A verification of trajex, a library that turns the waypoints of a robot arm into a time-optimal
  trajectory within limits on the velocities and accelerations of the joints and on the speed of the
  tool, by the algorithm of Kunz and Stilman, and streams samples of it. File names are relative to
  \<open>src/src/viam/trajex\<close>.

  \<^bold>\<open>The program.\<close> A caller collects waypoints in a \<open>waypoint_accumulator\<close>, cleans them with
  \<open>deduplicate_waypoints\<close> and \<open>segment_at_reversals\<close>, and calls \<open>path::create\<close>, which drops waypoints
  near the chord of their neighbours and rounds the corners with circular blends. \<open>trajectory::create\<close>
  integrates along the path in the phase plane of arc length and path velocity: forward with the
  greatest acceleration until a limit curve is hit, on to the next switching point, and backward from
  there until the forward part is met. A \<open>trajectory::cursor\<close> and the samplers read positions,
  velocities and accelerations off the result. A \<open>streaming::session\<close> keeps an active trajectory that
  is sampled while batches of waypoints arrive; a batch replaces the active trajectory (a pivot) or
  is staged to follow it. A \<open>kinematics::chain\<close> gives the tool's position, velocity and acceleration for
  a joint motion, from which the limit on the tool's speed is made. A C interface offers all of this
  through handles and maps of tensors. A \<open>planner\<close> strings the one-shot steps together for a caller's
  handlers: it provides, cleans and splits the waypoints, runs the generator, and next to it the legacy one,
  over the segments, and lets the caller decide between the outcomes. The model service is such a caller,
  and a planner's input can be written as a record from which another planner replays the run. Two more
  callers are made for code written elsewhere: classes with the interface of the legacy library, and a plugin
  that times the trajectories of the framework MoveIt. Observers follow an integration, and a document for a
  visualizer shows what they collected.

  \<^bold>\<open>The theories.\<close> Definitions follow the source, function by function and branch by branch; the
  theorems numbered \<open>C1\<close>, \<open>C2\<close> and so on are the properties.

  \<^item> \<open>Prelude\<close>: exceptions as values of a result type, \<open>while (true)\<close> loops as
    \<open>partial_function (option)\<close> where not returning is the exception \<open>Diverges\<close>, configuration vectors.
  \<^item> \<open>Dbl\<close>: the scalar \<open>double\<close> with infinities, \<open>NaN\<close>, IEEE comparisons, \<open>nextafter\<close>;
    \<open>Arc_Types\<close>: \<open>types/arc_*.hpp\<close> and the tolerant comparison of \<open>types/epsilon.hpp\<close>.
  \<^item> \<open>Waypoints\<close>: \<open>totg/waypoint_accumulator.*\<close>, \<open>totg/waypoint_utils.cpp\<close>.
  \<^item> \<open>Path_Geometry\<close>, \<open>Path_Create\<close>, \<open>Path_Cursor\<close>: \<open>totg/path.*\<close>, that is segments and their three
    functions, coalescing and blending, and cursors with their hint and their cache of geometry.
  \<^item> \<open>Limit_Curves\<close>, \<open>Switching_Points\<close>, \<open>Forward_Integration\<close>, \<open>Backward_Integration\<close>, \<open>Trajectory\<close>:
    \<open>totg/trajectory.cpp\<close> in the order of the algorithm. \<open>Switching_Criteria\<close> says of each kind of switching point
    where on the path it lies and at which velocity, and that the search finds only such points. \<open>Switching_Limits\<close>, \<open>Forward_Safety\<close>,
    \<open>Backward_Safety\<close>, \<open>Trajectory_Safety\<close> carry the invariants of the passes to the result, and
    \<open>Trajectory_Properties\<close> states it, and what the solver of the backward pass returns and how far its bracket widens. \<open>Rail_Example\<close> runs a joint along a rail from start to end, at any
    pace, and \<open>Tool_Example\<close> runs one under a limit on the tool's speed.
  \<^item> \<open>Trajectory_Sampling\<close>, \<open>Uniform_Sampler\<close>: cursors and samples of a trajectory, the sampler and
    the range over samples; \<open>Sampling_Safety\<close>, \<open>Sampling_Properties\<close>, \<open>Sampler_Properties\<close>.
  \<^item> \<open>Waypoint_Store\<close>: \<open>totg/streaming/private/waypoint_store.hpp\<close> with its memory; \<open>Session\<close>:
    \<open>totg/streaming/session.*\<close>, every operation with the state it leaves when it throws.
    \<open>Session_Safety\<close> relates the session to an abstract one, whose state is the motion that can be observed;
    \<open>Session_Sampling\<close> and \<open>Session_Runs\<close> carry its invariant through sampling and through sequences of calls, and say
    where a call that throws leaves it,
    and \<open>Session_Properties\<close> states what callers rely on.
  \<^item> \<open>Chain\<close>: \<open>kinematics/chain.*\<close>, rigid transforms, the builder, the walk, the Jacobian and the tool limit
    made from a chain; \<open>Chain_Motion\<close> differentiates the pose of the tool, \<open>Chain_Properties\<close> compares the
    code with it.
  \<^item> \<open>Capi\<close>: \<open>capi/capi.*\<close>, tensor maps, one-shot generation, chain builders and sessions behind handles;
    \<open>Capi_Safety\<close> says what the inputs it accepts hold, \<open>Capi_Properties\<close> what each call gives and leaves.
  \<^item> \<open>Planner\<close>: \<open>totg/tools/planner.*\<close>, configuration, registration and execution, and \<open>totg/tools/legacy.*\<close>, the
    colinearization and the sample times of the legacy tools; \<open>Planner_Properties\<close> says that both
    generators see the same waypoints and what a decider can rely on.
  \<^item> \<open>Service\<close>: \<open>service/mlmodel.*\<close>, its configuration, its metadata and inference through a
    planner; \<open>Service_Properties\<close> says what comes back, or which segment's error, and that the metadata names what is read and returned.
  \<^item> \<open>Replay\<close>: the record written by \<open>totg/tools/planner.cpp\<close> and its reading in \<open>totg/tools/replay.cpp\<close>;
    \<open>Replay_Properties\<close> takes one through the other.
  \<^item> \<open>Compat\<close>: \<open>totg/compat/*\<close>, paths and trajectories that keep their error and clamp their queries, and as
    what the shim makes of them, the legacy library of a planner; \<open>Compat_Properties\<close> says what queries
    give and that a planner then runs the same generator twice.
  \<^item> \<open>Moveit\<close>: \<open>moveit/totg/*\<close>, the time parameterization and the response adapters with their parameters;
    \<open>Moveit_Properties\<close> says what it leaves of a robot's trajectory, as the states' own readers show it.
  \<^item> \<open>Diagnostics\<close>: \<open>totg/observers.*\<close>, dispatch and collection of events, and \<open>totg/tools/json_serialization.cpp\<close>,
    the document for the visualizer; \<open>Diagnostics_Properties\<close> relates the document to the path and its limits, and the places
    it samples to the events.

  \<^bold>\<open>Interfaces.\<close> Where one part relies on the contract of another the contract is a locale, interpreted
  on the definitions of the part that provides it: the seekable cursors (plain and caching), the sized
  samplers (the uniform sampler), the row store (the chunked store).

  \<^bold>\<open>Numbers.\<close> Arithmetic on finite doubles is exact, so rounding is not modelled; infinities, \<open>NaN\<close>,
  comparisons, tolerances and the spacing of doubles where the code asks for it are. Coordinates of
  configurations are finite. Counts are 64-bit words in the samplers, where the conversion from
  \<open>double\<close> can overflow, and in the extents of tensors, whose product can wrap; they are natural numbers
  elsewhere.

  \<^bold>\<open>Exceptions.\<close> What the library throws is a value; the C interface catches it and returns a code with the
  message, while undefined behaviour (a null handle where the code does not look) and a call that never
  returns pass every boundary and stay visible in the result.

  \<^bold>\<open>Loops.\<close> Loops over lists are structural recursion. Loops that need an argument to end carry a
  termination theorem (the bisections, the searches for switching points, the solver of the backward
  pass), and where one does not end a theorem says when (\<open>solve_velocity_spins\<close>). The main loop is
  stated for runs that return.

  \<^bold>\<open>Parameters.\<close> The evaluator of the tool's speed is a function of the model that may throw; the
  theorems that need it to return say so, and the one made from a chain is an instance. Whether an array of
  the size a caller of the C interface chooses can be allocated is a predicate. The handlers of a planner
  are functions on a world of the caller's. The legacy generator and the text of JSON values belong to other
  libraries and are parameters, and so are MoveIt's robot states and joint groups, of which it is assumed
  that what is written into a state is read back; the replay theorem assumes of the latter that the record it is about reads back as written.

  \<^bold>\<open>Forward motion.\<close> Sampling a trajectory reads velocities off its points. That none of them is negative and the duration is finite
  (\<open>forward_motion\<close>) is not proved of a created trajectory; the properties of samples, of the C interface, the service and the MoveIt
  plugin state it as a condition on the trajectories they are about, and runs of a session through the batches it accepts (\<open>admissible\<close>).

  \<^bold>\<open>Not modelled.\<close> The calls by which the integration reports to its observers, which do not change its result,
  and the pruned points kept for them; assertions; wall-clock times; allocation of sizes the caller does not choose,
  and the destroy functions and strings of the C interface, which only manage memory; log messages; the command line of the replay tool and the module of the service, which only start the parts above; benchmarks.
\<close>

end
